(* ===== verification/Prelude.thy ===== *)
theory Prelude
  imports Complex_Main "HOL-Library.AList" "HOL-Library.Word" "HOL-Library.Multiset"
    "HOL-Library.Char_ord" "HOL-Library.List_Lexorder" "HOL-Library.Product_Lexorder"
begin

text \<open>
  What the component theories share: the collections of simplification facts, the model of
  the standard library's hash map and of its stable sort, the saturating and checked machine
  arithmetic of the source, and the locales of the interfaces that several components rely on.

  A Rust \<open>HashMap\<close> is an association list with distinct keys. Its order stands for the
  (unspecified) iteration order of the map, so a theorem about all such lists holds for every
  iteration order. \<open>HashSet\<close> is a \<open>set\<close>, \<open>Vec\<close> and \<open>VecDeque\<close> are lists, text is a
  \<open>string\<close> of ASCII characters.
\<close>

named_theorems model_defs \<open>definitions of operations, to be unfolded together\<close>
named_theorems inv_intros \<open>preservation lemmas of component invariants\<close>

section \<open>Machine integers\<close>

type_synonym u8 = "8 word"
type_synonym u32 = "32 word"
type_synonym u64 = "64 word"

definition saturating_add :: "'a::len word \<Rightarrow> 'a word \<Rightarrow> 'a word" where
  "saturating_add a b = (if unat a + unat b < 2 ^ LENGTH('a) then a + b else - 1)"

definition saturating_sub :: "nat \<Rightarrow> nat \<Rightarrow> nat" where
  "saturating_sub a b = (if b \<le> a then a - b else 0)"

lemma saturating_sub_eq [simp]: "saturating_sub a b = a - b"
  by (simp add: saturating_sub_def)

lemma unat_minus_one_word: "unat (- 1 :: 'a::len word) = 2 ^ LENGTH('a) - 1"
  by (simp add: unsigned_minus_1_eq_mask mask_eq_exp_minus_1)

lemma unat_saturating_add:
  "unat (saturating_add a b :: 'a::len word) = min (unat a + unat b) (2 ^ LENGTH('a) - 1)"
proof (cases "unat a + unat b < 2 ^ LENGTH('a)")
  case True
  then show ?thesis by (simp add: saturating_add_def unat_word_ariths)
next
  case False
  moreover have "unat (- 1 :: 'a word) = 2 ^ LENGTH('a) - 1"
    by (rule unat_minus_one_word)
  ultimately show ?thesis unfolding saturating_add_def by simp
qed

lemma less_saturating_add_1:
  fixes a :: "'a::len word"
  assumes "a \<noteq> - 1"
  shows "a < saturating_add a 1"
proof -
  have "unat a < 2 ^ LENGTH('a)" by (rule unsigned_less)
  moreover have "unat a \<noteq> 2 ^ LENGTH('a) - 1"
    using assms by (metis unat_minus_one_word word_unat_eq_iff)
  ultimately have "unat a < 2 ^ LENGTH('a) - 1" by linarith
  moreover have "unat (1 :: 'a word) = 1" by simp
  ultimately have "unat a < unat (saturating_add a 1)"
    unfolding unat_saturating_add by linarith
  then show ?thesis by (simp add: word_less_nat_alt)
qed

section \<open>Hash maps\<close>

type_synonym ('k, 'v) hmap = "('k \<times> 'v) list"

abbreviation hm_keys :: "('k, 'v) hmap \<Rightarrow> 'k list" where
  "hm_keys m \<equiv> map fst m"

definition hm_ok :: "('k, 'v) hmap \<Rightarrow> bool" where
  "hm_ok m \<longleftrightarrow> distinct (hm_keys m)"

abbreviation hm_get :: "('k, 'v) hmap \<Rightarrow> 'k \<Rightarrow> 'v option" where
  "hm_get m k \<equiv> map_of m k"

abbreviation hm_insert :: "'k \<Rightarrow> 'v \<Rightarrow> ('k, 'v) hmap \<Rightarrow> ('k, 'v) hmap" where
  "hm_insert k v m \<equiv> AList.update k v m"

abbreviation hm_remove :: "'k \<Rightarrow> ('k, 'v) hmap \<Rightarrow> ('k, 'v) hmap" where
  "hm_remove k m \<equiv> AList.delete k m"

lemma hm_ok_Nil [simp]: "hm_ok []"
  by (simp add: hm_ok_def)

lemma hm_ok_insert [simp, inv_intros]: "hm_ok m \<Longrightarrow> hm_ok (hm_insert k v m)"
  by (simp add: hm_ok_def distinct_update)

lemma hm_ok_remove [simp, inv_intros]: "hm_ok m \<Longrightarrow> hm_ok (hm_remove k m)"
  by (simp add: hm_ok_def distinct_delete)

lemma hm_get_insert [simp]: "hm_get (hm_insert k v m) k' = (if k' = k then Some v else hm_get m k')"
  by (simp add: update_conv')

lemma hm_get_remove [simp]: "hm_get (hm_remove k m) k' = (if k' = k then None else hm_get m k')"
  by (auto simp: delete_conv')

lemma hm_len_insert:
  "length (hm_insert k v m) = (if k \<in> set (hm_keys m) then length m else Suc (length m))"
  by (induction m) auto

lemma hm_len_remove:
  "hm_ok m \<Longrightarrow> length (hm_remove k m) = (if k \<in> set (hm_keys m) then length m - 1 else length m)"
proof (induction m)
  case (Cons p m)
  then show ?case
  proof (cases "fst p = k")
    case True
    with Cons.prems have "k \<notin> set (hm_keys m)" by (auto simp: hm_ok_def)
    then have "hm_remove k m = m" by (simp add: delete_id)
    with True show ?thesis by (cases p) simp
  next
    case False
    with Cons show ?thesis by (cases p; cases m) (auto simp: hm_ok_def)
  qed
qed simp

lemma hm_mem_remove: "(p \<in> set (hm_remove k m)) = (p \<in> set m \<and> fst p \<noteq> k)"
  by (cases p) (auto simp: AList.delete_eq)

lemma hm_get_mem: "hm_ok m \<Longrightarrow> (hm_get m k = Some v) = ((k, v) \<in> set m)"
  by (simp add: hm_ok_def map_of_eq_Some_iff)

lemma hm_len_remove_le: "length (hm_remove k m) \<le> length m"
  by (simp add: AList.delete_eq)

lemma hm_len_remove_less: "k \<in> set (hm_keys m) \<Longrightarrow> length (hm_remove k m) < length m"
  by (induction m) (force simp: less_Suc_eq_le hm_len_remove_le)+

lemma hm_key_unique: "hm_ok m \<Longrightarrow> e \<in> set m \<Longrightarrow> e' \<in> set m \<Longrightarrow> fst e = fst e' \<Longrightarrow> e = e'"
  by (auto simp: hm_ok_def distinct_map dest: inj_onD)

lemma set_hm_remove: "hm_ok m \<Longrightarrow> e \<in> set m \<Longrightarrow> set (hm_remove (fst e) m) = set m - {e}"
proof (rule set_eqI)
  fix x
  assume "hm_ok m" "e \<in> set m"
  then have "x \<in> set m \<Longrightarrow> (fst x \<noteq> fst e) = (x \<noteq> e)" by (metis hm_key_unique)
  then show "(x \<in> set (hm_remove (fst e) m)) = (x \<in> set m - {e})"
    unfolding hm_mem_remove by blast
qed

lemma set_hm_insert: "hm_ok m \<Longrightarrow> set (hm_insert k v m) = insert (k, v) {e \<in> set m. fst e \<noteq> k}"
proof -
  assume ok: "hm_ok m"
  have "(e \<in> set (hm_insert k v m)) = (e = (k, v) \<or> e \<in> set m \<and> fst e \<noteq> k)" for e
    using hm_get_mem [OF ok, of "fst e" "snd e"] hm_get_mem [OF hm_ok_insert [OF ok], of k v "fst e" "snd e"]
    by (cases e) (auto split: if_splits)
  then show ?thesis by blast
qed

lemma hm_get_None: "(hm_get m k = None) = (k \<notin> set (hm_keys m))"
  by (simp add: map_of_eq_None_iff image_iff)

section \<open>Iterator adapters and sorting\<close>

text \<open>\<open>Iterator::min_by_key\<close> returns the first of several minima, \<open>max_by_key\<close> the last of
  several maxima.\<close>

fun min_by_key :: "('a \<Rightarrow> 'k::linorder) \<Rightarrow> 'a list \<Rightarrow> 'a option" where
  "min_by_key f [] = None"
| "min_by_key f (x # xs) =
     (case min_by_key f xs of None \<Rightarrow> Some x | Some y \<Rightarrow> if f y < f x then Some y else Some x)"

fun max_by_key :: "('a \<Rightarrow> 'k::linorder) \<Rightarrow> 'a list \<Rightarrow> 'a option" where
  "max_by_key f [] = None"
| "max_by_key f (x # xs) =
     (case max_by_key f xs of None \<Rightarrow> Some x | Some y \<Rightarrow> if f y < f x then Some x else Some y)"

lemma min_by_key_None [simp]: "min_by_key f xs = None \<longleftrightarrow> xs = []"
  by (cases xs) (auto split: option.splits)

lemma max_by_key_None [simp]: "max_by_key f xs = None \<longleftrightarrow> xs = []"
  by (cases xs) (auto split: option.splits)

lemma min_by_key_Some:
  "min_by_key f xs = Some x \<Longrightarrow> x \<in> set xs \<and> (\<forall>y\<in>set xs. f x \<le> f y)"
proof (induction xs arbitrary: x)
  case (Cons a xs)
  show ?case
  proof (cases "min_by_key f xs")
    case None
    with Cons.prems show ?thesis by simp
  next
    case (Some y)
    with Cons.IH [OF Some] Cons.prems show ?thesis
      by (auto split: if_splits intro: order_trans)
  qed
qed simp

lemma max_by_key_Some:
  "max_by_key f xs = Some x \<Longrightarrow> x \<in> set xs \<and> (\<forall>y\<in>set xs. f y \<le> f x)"
proof (induction xs arbitrary: x)
  case (Cons a xs)
  show ?case
  proof (cases "max_by_key f xs")
    case None
    with Cons.prems show ?thesis by simp
  next
    case (Some y)
    with Cons.IH [OF Some] Cons.prems show ?thesis
      by (auto split: if_splits intro: order_trans)
  qed
qed simp

text \<open>\<open>slice::sort_by\<close>: the stable sort by a comparison, here by insertion. The comparison is
  given as "not greater".\<close>

fun insert_by :: "('a \<Rightarrow> 'a \<Rightarrow> bool) \<Rightarrow> 'a \<Rightarrow> 'a list \<Rightarrow> 'a list" where
  "insert_by le x [] = [x]"
| "insert_by le x (y # ys) = (if le x y then x # y # ys else y # insert_by le x ys)"

definition sort_by :: "('a \<Rightarrow> 'a \<Rightarrow> bool) \<Rightarrow> 'a list \<Rightarrow> 'a list" where
  "sort_by le xs = foldr (insert_by le) xs []"

lemma sort_by_simps [simp]:
  "sort_by le [] = []"
  "sort_by le (x # xs) = insert_by le x (sort_by le xs)"
  by (simp_all add: sort_by_def)

lemma mset_insert_by [simp]: "mset (insert_by le x xs) = add_mset x (mset xs)"
  by (induction xs) auto

lemma mset_sort_by [simp]: "mset (sort_by le xs) = mset xs"
  by (induction xs) auto

lemma set_insert_by [simp]: "set (insert_by le x xs) = insert x (set xs)"
  by (induction xs) auto

lemma set_sort_by [simp]: "set (sort_by le xs) = set xs"
  by (induction xs) auto

lemma length_sort_by [simp]: "length (sort_by le xs) = length xs"
  by (metis mset_sort_by size_mset)

text \<open>What the standard library asks of a comparison: a total preorder. Under it the sort is
  sorted, and a prefix of the result is a choice of least elements.\<close>

locale total_comparison =
  fixes le :: "'a \<Rightarrow> 'a \<Rightarrow> bool"
  assumes le_total: "le x y \<or> le y x"
    and le_trans: "le x y \<Longrightarrow> le y z \<Longrightarrow> le x z"
begin

lemma sorted_insert_by: "sorted_wrt le xs \<Longrightarrow> sorted_wrt le (insert_by le x xs)"
proof (induction xs)
  case (Cons y ys)
  then show ?case using le_total le_trans by (auto dest: bspec)
qed simp

lemma sorted_sort_by: "sorted_wrt le (sort_by le xs)"
  by (induction xs) (auto intro: sorted_insert_by)

lemma insert_by_least: "\<forall>y\<in>set ys. le x y \<Longrightarrow> insert_by le x ys = x # ys"
  by (cases ys) auto

text \<open>The sort is stable: the elements of a selection keep their order, so sorting commutes with
  filtering.\<close>

lemma filter_insert_by:
  "sorted_wrt le xs \<Longrightarrow> filter P (insert_by le x xs) =
     (if P x then insert_by le x (filter P xs) else filter P xs)"
proof (induction xs)
  case (Cons y ys)
  show ?case
  proof (cases "le x y")
    case True
    with Cons.prems have "\<forall>z\<in>set (filter P (y # ys)). le x z"
      using le_trans by (auto split: if_splits)
    from insert_by_least [OF this] True show ?thesis by simp
  next
    case False
    with Cons show ?thesis by auto
  qed
qed simp

lemma filter_sort_by: "filter P (sort_by le xs) = sort_by le (filter P xs)"
  by (induction xs) (simp_all add: filter_insert_by sorted_sort_by)

lemma take_sort_by_least:
  assumes "x \<in> set (take n (sort_by le xs))" and "y \<in> set (drop n (sort_by le xs))"
  shows "le x y"
proof -
  have "sorted_wrt le (take n (sort_by le xs) @ drop n (sort_by le xs))"
    using sorted_sort_by by simp
  with assms show ?thesis unfolding sorted_wrt_append by blast
qed

end

text \<open>A comparison by a key into a linear order is such a comparison; so is its reverse.\<close>

interpretation key_comparison: total_comparison "\<lambda>x y. (f x :: 'k::linorder) \<le> f y" for f
  by unfold_locales auto

interpretation rev_key_comparison: total_comparison "\<lambda>x y. (f y :: 'k::linorder) \<le> f x" for f
  by unfold_locales auto

section \<open>Pages\<close>

lemma concat_pages:
  "0 < n \<Longrightarrow> length xs \<le> k * n \<Longrightarrow> concat (map (\<lambda>i. take n (drop (i * n) xs)) [0..<k]) = xs"
proof (induction k arbitrary: xs)
  case (Suc k)
  have "[0..<Suc k] = 0 # map Suc [0..<k]" by (simp add: upt_conv_Cons map_Suc_upt del: upt_Suc)
  then have "concat (map (\<lambda>i. take n (drop (i * n) xs)) [0..<Suc k]) =
      take n xs @ concat (map (\<lambda>i. take n (drop (i * n) (drop n xs))) [0..<k])"
    by (simp add: o_def add.commute del: upt_Suc)
  also have "\<dots> = take n xs @ drop n xs"
    using Suc.prems by (subst Suc.IH) auto
  finally show ?case by simp
qed simp

section \<open>Operations that keep an invariant\<close>

text \<open>A component with state is a transition function over its events; a run is a fold. An
  invariant that every single step keeps holds after every run.\<close>

locale step_system =
  fixes step :: "'s \<Rightarrow> 'e \<Rightarrow> 's"
    and invar :: "'s \<Rightarrow> bool"
  assumes step_invar: "invar s \<Longrightarrow> invar (step s e)"
begin

lemma run_invar: "invar s \<Longrightarrow> invar (foldl step s es)"
  by (induction es arbitrary: s) (auto intro: step_invar)

lemma run_prefix_invar: "invar s \<Longrightarrow> invar (foldl step s (take n es))"
  by (rule run_invar)

end

section \<open>ASCII text\<close>

definition char_code :: "char \<Rightarrow> nat" where
  "char_code c = of_char c"

definition is_ascii_digit :: "char \<Rightarrow> bool" where
  "is_ascii_digit c \<longleftrightarrow> 48 \<le> char_code c \<and> char_code c \<le> 57"

definition is_ascii_lower :: "char \<Rightarrow> bool" where
  "is_ascii_lower c \<longleftrightarrow> 97 \<le> char_code c \<and> char_code c \<le> 122"

definition is_ascii_upper :: "char \<Rightarrow> bool" where
  "is_ascii_upper c \<longleftrightarrow> 65 \<le> char_code c \<and> char_code c \<le> 90"

definition is_ascii_alphabetic :: "char \<Rightarrow> bool" where
  "is_ascii_alphabetic c \<longleftrightarrow> is_ascii_lower c \<or> is_ascii_upper c"

definition is_ascii_alphanumeric :: "char \<Rightarrow> bool" where
  "is_ascii_alphanumeric c \<longleftrightarrow> is_ascii_alphabetic c \<or> is_ascii_digit c"

definition to_ascii_lower :: "char \<Rightarrow> char" where
  "to_ascii_lower c = (if is_ascii_upper c then char_of (char_code c + 32) else c)"

definition str_lower :: "string \<Rightarrow> string" where
  "str_lower s = map to_ascii_lower s"

definition is_whitespace :: "char \<Rightarrow> bool" where
  "is_whitespace c \<longleftrightarrow> char_code c \<in> {9, 10, 11, 12, 13, 32}"

text \<open>\<open>str::trim\<close>.\<close>

definition trim :: "string \<Rightarrow> string" where
  "trim s = rev (dropWhile is_whitespace (rev (dropWhile is_whitespace s)))"

lemma trim_Nil_iff: "trim s = [] \<longleftrightarrow> list_all is_whitespace s"
proof
  assume "trim s = []"
  then have "list_all is_whitespace (dropWhile is_whitespace s)"
    by (simp add: trim_def list_all_iff)
  then have "dropWhile is_whitespace s = []"
    using hd_dropWhile [of is_whitespace s] by (cases "dropWhile is_whitespace s") auto
  then show "list_all is_whitespace s" by (simp add: list_all_iff)
qed (auto simp: trim_def list_all_iff dest: set_dropWhileD)

lemmas ascii_defs = is_ascii_alphanumeric_def is_ascii_alphabetic_def is_ascii_upper_def
  is_ascii_lower_def is_ascii_digit_def char_code_def

section \<open>Decimal numbers and separated text\<close>

fun dec_digit :: "nat \<Rightarrow> char" where
  "dec_digit n = char_of (48 + n)"

fun dec_of_nat :: "nat \<Rightarrow> string" where
  "dec_of_nat n = (if n < 10 then [dec_digit n] else dec_of_nat (n div 10) @ [dec_digit (n mod 10)])"

declare dec_of_nat.simps [simp del]

lemma dec_of_nat_nonempty [simp]: "dec_of_nat n \<noteq> []" "[] \<noteq> dec_of_nat n"
  by (subst dec_of_nat.simps, simp)+

lemma dec_digit_inj: "a < 10 \<Longrightarrow> b < 10 \<Longrightarrow> dec_digit a = dec_digit b \<longleftrightarrow> a = b"
  by (auto dest: arg_cong [where f = "of_char :: char \<Rightarrow> nat"])

lemma dec_digit_ascii: "n < 10 \<Longrightarrow> is_ascii_digit (dec_digit n)"
  by (simp add: is_ascii_digit_def char_code_def)

lemma dec_of_nat_digits: "c \<in> set (dec_of_nat n) \<Longrightarrow> is_ascii_digit c"
proof (induction n rule: dec_of_nat.induct)
  case (1 n)
  show ?case
  proof (cases "n < 10")
    case True
    with "1.prems" show ?thesis using dec_digit_ascii [of n] by (simp add: dec_of_nat.simps [of n])
  next
    case False
    with "1" show ?thesis using dec_digit_ascii [of "n mod 10"]
      by (auto simp: dec_of_nat.simps [of n])
  qed
qed

lemma dec_of_nat_inj: "dec_of_nat a = dec_of_nat b \<longleftrightarrow> a = b"
proof (induction a arbitrary: b rule: less_induct)
  case (less a)
  show ?case
  proof (cases "a < 10 \<or> b < 10")
    case True
    then show ?thesis
      by (auto simp: dec_of_nat.simps [of a] dec_of_nat.simps [of b] dec_digit_inj simp del: dec_digit.simps)
  next
    case False
    then have "dec_of_nat a = dec_of_nat b \<longleftrightarrow> a div 10 = b div 10 \<and> a mod 10 = b mod 10"
      using less.IH [of "a div 10" "b div 10"]
      by (auto simp: dec_of_nat.simps [of a] dec_of_nat.simps [of b] dec_digit_inj simp del: dec_digit.simps)
    also have "\<dots> \<longleftrightarrow> a = b" by (metis div_mult_mod_eq)
    finally show ?thesis .
  qed
qed

text \<open>A prefix that avoids the separator is determined by the joined text, and so is a suffix
  of known length.\<close>

lemma split_at_sep:
  assumes "xs @ s # ys = xs' @ s # ys'" "s \<notin> set xs" "s \<notin> set xs'"
  shows "xs = xs' \<and> ys = ys'"
  using assms
proof (induction xs arbitrary: xs')
  case Nil
  then show ?case by (cases xs') auto
next
  case (Cons x xs)
  then show ?case by (cases xs') auto
qed

lemma split_at_last_sep:
  assumes eq: "xs @ s # ys = xs' @ s # ys'" and "s \<notin> set ys" "s \<notin> set ys'"
  shows "xs = xs' \<and> ys = ys'"
proof -
  have "rev ys @ s # rev xs = rev ys' @ s # rev xs'"
    using arg_cong [OF eq, of rev] by simp
  with assms(2,3) have "rev ys = rev ys' \<and> rev xs = rev xs'"
    by (intro split_at_sep) auto
  then show ?thesis by simp
qed

end
