(* ===== verification/SessionBinding.thy ===== *)
theory SessionBinding
  imports Prelude
begin

text \<open>
  \<open>src/codebase/session_binding.rs\<close>: the bounded store that binds a client session to the
  project it works on. Binding stamps the entry with a clock value made strictly larger than
  every stamp in the store, then the oldest entries are dropped until the bound holds. The
  wall clock is an argument (\<open>now\<close>), the lock is not modelled (every operation runs under it).
\<close>

record session_binding =
  sb_session_id :: string
  sb_project_id :: "string option"
  sb_updated_at :: u64

record session_binding_status =
  ss_session_id :: string
  ss_project_id :: "string option"
  ss_updated_at :: "u64 option"

record session_binding_store =
  bindings :: "(string, session_binding) hmap"
  max_entries :: nat

definition store_new :: "nat \<Rightarrow> session_binding_store" where
  "store_new n = \<lparr>bindings = [], max_entries = n\<rparr>"

definition latest_stamp :: "(string, session_binding) hmap \<Rightarrow> u64" where
  "latest_stamp m =
     (case max_by_key (\<lambda>t. t) (map (sb_updated_at \<circ> snd) m) of None \<Rightarrow> 0 | Some t \<Rightarrow> t)"

definition next_timestamp_ms :: "u64 \<Rightarrow> (string, session_binding) hmap \<Rightarrow> u64" where
  "next_timestamp_ms now m =
     (let latest = latest_stamp m in if now > latest then now else saturating_add latest 1)"

definition age_key :: "string \<times> session_binding \<Rightarrow> u64 \<times> string" where
  "age_key e = (sb_updated_at (snd e), fst e)"

function trim_loop :: "(string, session_binding) hmap \<Rightarrow> nat \<Rightarrow> (string, session_binding) hmap" where
  "trim_loop m n =
     (if n < length m
      then (case min_by_key age_key m of
              Some e \<Rightarrow> trim_loop (hm_remove (fst e) m) n
            | None \<Rightarrow> m)
      else m)"
  by pat_completeness auto
termination
proof (relation "measure (\<lambda>(m, n). length m)")
  fix m :: "(string, session_binding) hmap" and n e
  assume "min_by_key age_key m = Some e"
  then have "fst e \<in> set (hm_keys m)" by (auto dest!: min_by_key_Some)
  then show "((hm_remove (fst e) m, n), m, n) \<in> measure (\<lambda>(m, n). length m)"
    by (simp add: hm_len_remove_less del: set_map)
qed simp

declare trim_loop.simps [simp del]

definition trim_oldest :: "(string, session_binding) hmap \<Rightarrow> nat \<Rightarrow> (string, session_binding) hmap" where
  "trim_oldest m n = (if n = 0 then [] else trim_loop m n)"

definition bind_session :: "u64 \<Rightarrow> string \<Rightarrow> string \<Rightarrow> session_binding_store \<Rightarrow> session_binding_store" where
  "bind_session now sid pid s =
     (let stamp = next_timestamp_ms now (bindings s);
          m = hm_insert sid
                \<lparr>sb_session_id = sid, sb_project_id = Some pid, sb_updated_at = stamp\<rparr> (bindings s)
      in s\<lparr>bindings := trim_oldest m (max_entries s)\<rparr>)"

definition unbind_session :: "string \<Rightarrow> session_binding_store \<Rightarrow> session_binding_store" where
  "unbind_session sid s = s\<lparr>bindings := hm_remove sid (bindings s)\<rparr>"

definition binding_status :: "session_binding_store \<Rightarrow> string \<Rightarrow> session_binding_status" where
  "binding_status s sid =
     (case hm_get (bindings s) sid of
        Some b \<Rightarrow> \<lparr>ss_session_id = sid, ss_project_id = sb_project_id b,
                   ss_updated_at = Some (sb_updated_at b)\<rparr>
      | None \<Rightarrow> \<lparr>ss_session_id = sid, ss_project_id = None, ss_updated_at = None\<rparr>)"

definition prune_oldest :: "session_binding_store \<Rightarrow> session_binding_store" where
  "prune_oldest s = s\<lparr>bindings := trim_oldest (bindings s) (max_entries s)\<rparr>"

definition store_len :: "session_binding_store \<Rightarrow> nat" where
  "store_len s = length (bindings s)"

section \<open>Eviction\<close>

lemma trim_loop_done: "length m \<le> n \<Longrightarrow> trim_loop m n = m"
  by (simp add: trim_loop.simps [of m n])

lemma trim_loop_step:
  assumes "n < length m"
  obtains e where "min_by_key age_key m = Some e" "trim_loop m n = trim_loop (hm_remove (fst e) m) n"
    "e \<in> set m" "\<forall>e'\<in>set m. age_key e \<le> age_key e'"
proof -
  from assms have "min_by_key age_key m \<noteq> None" by auto
  then obtain e where e: "min_by_key age_key m = Some e" by blast
  with assms have "trim_loop m n = trim_loop (hm_remove (fst e) m) n"
    by (simp add: trim_loop.simps [of m n])
  with e min_by_key_Some [OF e] that show ?thesis by blast
qed

definition evicts_oldest :: "(string, session_binding) hmap \<Rightarrow> (string, session_binding) hmap \<Rightarrow> bool" where
  "evicts_oldest m r \<longleftrightarrow> set r \<subseteq> set m \<and>
     (\<forall>e\<in>set m - set r. \<forall>e'\<in>set r. age_key e < age_key e')"

lemma age_key_inj: "hm_ok m \<Longrightarrow> e \<in> set m \<Longrightarrow> e' \<in> set m \<Longrightarrow> age_key e = age_key e' \<Longrightarrow> e = e'"
  by (rule hm_key_unique) (auto simp: age_key_def)

lemma trim_loop_spec:
  "hm_ok m \<Longrightarrow> hm_ok (trim_loop m n) \<and> length (trim_loop m n) = min n (length m) \<and>
     evicts_oldest m (trim_loop m n)"
proof (induction "length m" arbitrary: m)
  case 0
  then show ?case by (simp add: trim_loop_done evicts_oldest_def)
next
  case (Suc l)
  show ?case
  proof (cases "n < length m")
    case False
    with Suc.prems show ?thesis by (simp add: trim_loop_done evicts_oldest_def)
  next
    case True
    then obtain e where tr: "trim_loop m n = trim_loop (hm_remove (fst e) m) n"
      and e: "e \<in> set m" and least: "\<forall>e'\<in>set m. age_key e \<le> age_key e'"
      by (rule trim_loop_step)
    let ?m = "hm_remove (fst e) m"
    have ok: "hm_ok ?m" using Suc.prems by simp
    have len: "length ?m = l"
      using Suc.hyps(2) e hm_len_remove [OF Suc.prems, of "fst e"] by auto
    from Suc.hyps(1) [OF len [symmetric] ok]
    have IH: "hm_ok (trim_loop ?m n)" "length (trim_loop ?m n) = min n l"
      "evicts_oldest ?m (trim_loop ?m n)"
      using len by simp_all
    have gone: "set ?m = set m - {e}"
      by (rule set_hm_remove [OF Suc.prems e])
    have "age_key e < age_key e'" if "e' \<in> set (trim_loop ?m n)" for e'
    proof -
      from that IH(3) have "e' \<in> set m - {e}" unfolding evicts_oldest_def gone by blast
      then have "age_key e \<noteq> age_key e'" "age_key e \<le> age_key e'"
        using age_key_inj [OF Suc.prems e] least by blast+
      then show ?thesis by (rule order.not_eq_order_implies_strict)
    qed
    with IH gone e have "evicts_oldest m (trim_loop ?m n)"
      unfolding evicts_oldest_def by blast
    with IH tr True Suc.hyps(2) show ?thesis by simp
  qed
qed

lemma trim_oldest_spec:
  assumes "hm_ok m"
  shows "hm_ok (trim_oldest m n)" "length (trim_oldest m n) = min n (length m)"
    "evicts_oldest m (trim_oldest m n)"
  using trim_loop_spec [OF assms, of n] by (auto simp: trim_oldest_def evicts_oldest_def)

lemma latest_stamp_ge: "e \<in> set m \<Longrightarrow> sb_updated_at (snd e) \<le> latest_stamp m"
proof -
  assume e: "e \<in> set m"
  then have "max_by_key (\<lambda>t. t) (map (sb_updated_at \<circ> snd) m) \<noteq> None" by auto
  then obtain t where t: "max_by_key (\<lambda>t. t) (map (sb_updated_at \<circ> snd) m) = Some t" by blast
  from max_by_key_Some [OF t] e show ?thesis by (auto simp: latest_stamp_def t)
qed

lemma next_timestamp_gt:
  "latest_stamp m \<noteq> - 1 \<Longrightarrow> e \<in> set m \<Longrightarrow> sb_updated_at (snd e) < next_timestamp_ms now m"
  using latest_stamp_ge [of e m] less_saturating_add_1 [of "latest_stamp m"]
  by (auto simp: next_timestamp_ms_def Let_def)

section \<open>The store invariant\<close>

definition store_inv :: "session_binding_store \<Rightarrow> bool" where
  "store_inv s \<longleftrightarrow> hm_ok (bindings s) \<and> length (bindings s) \<le> max_entries s \<and>
     (\<forall>(sid, b)\<in>set (bindings s). sb_session_id b = sid \<and> sb_project_id b \<noteq> None)"

datatype session_event = Bind u64 string string | Unbind string | Prune

fun session_step :: "session_binding_store \<Rightarrow> session_event \<Rightarrow> session_binding_store" where
  "session_step s (Bind now sid pid) = bind_session now sid pid s"
| "session_step s (Unbind sid) = unbind_session sid s"
| "session_step s Prune = prune_oldest s"

lemma store_inv_new [inv_intros]: "store_inv (store_new n)"
  by (simp add: store_inv_def store_new_def)

lemma store_inv_trim:
  assumes "hm_ok m" "\<forall>(sid, b)\<in>set m. sb_session_id b = sid \<and> sb_project_id b \<noteq> None"
  shows "store_inv (s\<lparr>bindings := trim_oldest m (max_entries s)\<rparr>)"
  using trim_oldest_spec [OF assms(1), of "max_entries s"] assms(2)
  by (auto simp: store_inv_def evicts_oldest_def)

lemma store_inv_bind [inv_intros]: "store_inv s \<Longrightarrow> store_inv (bind_session now sid pid s)"
  unfolding bind_session_def Let_def
  by (rule store_inv_trim) (auto simp: store_inv_def set_hm_insert)

lemma store_inv_unbind [inv_intros]: "store_inv s \<Longrightarrow> store_inv (unbind_session sid s)"
  using hm_len_remove_le [of sid "bindings s"]
  by (auto simp: store_inv_def unbind_session_def hm_mem_remove)

lemma store_inv_prune [inv_intros]: "store_inv s \<Longrightarrow> store_inv (prune_oldest s)"
  unfolding prune_oldest_def by (rule store_inv_trim) (auto simp: store_inv_def)

interpretation session: step_system session_step store_inv
proof
  fix s e
  assume "store_inv s"
  then show "store_inv (session_step s e)"
    by (cases e) (auto intro: inv_intros)
qed

lemma bind_session_survives_aux:
  assumes inv: "store_inv s" and pos: "0 < max_entries s" and room: "latest_stamp (bindings s) \<noteq> - 1"
  shows "hm_get (bindings (bind_session now sid pid s)) sid =
    Some \<lparr>sb_session_id = sid, sb_project_id = Some pid,
          sb_updated_at = next_timestamp_ms now (bindings s)\<rparr>"
proof -
  let ?t = "next_timestamp_ms now (bindings s)"
  let ?b = "\<lparr>sb_session_id = sid, sb_project_id = Some pid, sb_updated_at = ?t\<rparr>"
  let ?m = "hm_insert sid ?b (bindings s)"
  let ?r = "trim_oldest ?m (max_entries s)"
  from inv have ok: "hm_ok ?m" by (simp add: store_inv_def)
  note spec = trim_oldest_spec [OF ok, of "max_entries s"]
  have new: "(sid, ?b) \<in> set ?m" using ok by (simp flip: hm_get_mem)
  have "(sid, ?b) \<in> set ?r"
  proof (rule ccontr)
    assume out: "(sid, ?b) \<notin> set ?r"
    from new have "?m \<noteq> []" by (metis list.set(1) empty_iff)
    with spec(2) pos have "?r \<noteq> []" by (metis length_greater_0_conv min_less_iff_conj)
    then obtain e where e: "e \<in> set ?r" by (cases ?r) auto
    with spec(3) new out have lt: "age_key (sid, ?b) < age_key e" and em: "e \<in> set ?m"
      by (auto simp: evicts_oldest_def)
    from em e out inv have "e \<in> set (bindings s)" by (auto simp: store_inv_def set_hm_insert)
    from next_timestamp_gt [OF room this, of now] lt show False by (auto simp: age_key_def)
  qed
  with spec(1) show ?thesis by (simp add: bind_session_def Let_def hm_get_mem)
qed

text \<open>Whatever bindings, unbindings and prunings a store goes through and whatever the clock
  says, it never holds more sessions than its bound, it holds a session once and under its own id,
  and every stored session is bound to a project.\<close>
theorem session_store_bounded:
  "store_inv (foldl session_step (store_new n) es)"
  by (rule session.run_invar) (rule store_inv_new)

text \<open>Binding a session in a store with room for at least one (whose stamps are not exhausted)
  makes its status the new project with a stamp later than every stamp before; every other session
  keeps its binding unless it is evicted, and then the store is full and everything that stays is
  newer (later stamp, or equal stamp and larger id).\<close>
theorem bind_evicts_oldest:
  fixes now :: u64 and sid pid :: string
  assumes "store_inv s" and "0 < max_entries s" and "latest_stamp (bindings s) \<noteq> - 1"
  defines "s' \<equiv> bind_session now sid pid s"
  shows "(\<exists>t. binding_status s' sid = \<lparr>ss_session_id = sid, ss_project_id = Some pid, ss_updated_at = Some t\<rparr>
        \<and> (\<forall>e\<in>set (bindings s). sb_updated_at (snd e) < t)) \<and>
    (\<forall>sid'. sid' \<noteq> sid \<longrightarrow>
        binding_status s' sid' = binding_status s sid' \<or>
        (store_len s' = max_entries s' \<and>
         (\<exists>b. hm_get (bindings s) sid' = Some b \<and> hm_get (bindings s') sid' = None \<and>
            (\<forall>e\<in>set (bindings s'). age_key (sid', b) < age_key e))))"
proof -
  let ?t = "next_timestamp_ms now (bindings s)"
  let ?m = "hm_insert sid \<lparr>sb_session_id = sid, sb_project_id = Some pid, sb_updated_at = ?t\<rparr> (bindings s)"
  let ?r = "trim_oldest ?m (max_entries s)"
  have new: "binding_status s' sid = \<lparr>ss_session_id = sid, ss_project_id = Some pid, ss_updated_at = Some ?t\<rparr>"
    using bind_session_survives_aux [OF assms(1-3)] by (simp add: s'_def binding_status_def)
  have later: "\<forall>e\<in>set (bindings s). sb_updated_at (snd e) < ?t"
    using next_timestamp_gt [OF assms(3)] by blast
  have ok: "hm_ok ?m" using assms(1) by (simp add: store_inv_def)
  note spec = trim_oldest_spec [OF ok, of "max_entries s"]
  have s': "bindings s' = ?r" "max_entries s' = max_entries s"
    by (simp_all add: s'_def bind_session_def Let_def)
  have "binding_status s' sid' = binding_status s sid' \<or>
      (store_len s' = max_entries s' \<and> (\<exists>b. hm_get (bindings s) sid' = Some b \<and>
         hm_get (bindings s') sid' = None \<and> (\<forall>e\<in>set (bindings s'). age_key (sid', b) < age_key e)))"
    if ne: "sid' \<noteq> sid" for sid'
  proof (cases "hm_get ?r sid'")
    case (Some b)
    then have "(sid', b) \<in> set ?r" unfolding hm_get_mem [OF spec(1)] .
    then have "(sid', b) \<in> set ?m" using spec(3) unfolding evicts_oldest_def by blast
    then have "hm_get ?m sid' = Some b" unfolding hm_get_mem [OF ok] .
    with ne Some show ?thesis by (simp add: binding_status_def s')
  next
    case None
    show ?thesis
    proof (cases "hm_get (bindings s) sid'")
      case None2: None
      with None show ?thesis by (simp add: binding_status_def s')
    next
      case (Some b)
      with ne have mem: "(sid', b) \<in> set ?m" by (simp flip: hm_get_mem [OF ok])
      from None have out: "(sid', b) \<notin> set ?r" by (simp flip: hm_get_mem [OF spec(1)])
      with mem spec(3) have old: "\<forall>e\<in>set ?r. age_key (sid', b) < age_key e"
        by (auto simp: evicts_oldest_def)
      from mem out have "?r \<noteq> ?m" by metis
      then have "max_entries s < length ?m"
        using assms(2) trim_loop_done [of ?m "max_entries s"]
        by (cases "length ?m \<le> max_entries s") (auto simp: trim_oldest_def)
      with spec(2) have "store_len s' = max_entries s'" by (simp add: store_len_def s')
      with Some None old show ?thesis by (simp add: s')
    qed
  qed
  with new later show ?thesis by blast
qed

theorem bind_evicts_oldest_witness:
  "\<exists>t. binding_status (bind_session 5 ''b'' ''p'' (bind_session 9 ''a'' ''q'' (store_new 1))) ''b'' =
     \<lparr>ss_session_id = ''b'', ss_project_id = Some ''p'', ss_updated_at = Some t\<rparr>"
proof -
  let ?s = "bind_session 9 ''a'' ''q'' (store_new 1)"
  have "store_inv ?s" by (intro inv_intros)
  moreover have "0 < max_entries ?s" by (simp add: bind_session_def store_new_def Let_def)
  moreover have "latest_stamp (bindings ?s) \<noteq> - 1"
    by (simp add: bind_session_def store_new_def Let_def trim_oldest_def trim_loop_done
        next_timestamp_ms_def latest_stamp_def)
  ultimately show ?thesis using bind_evicts_oldest [of ?s 5 "''b''" "''p''"] by blast
qed

end
