(* ===== verification/AppTypes.thy ===== *)
theory AppTypes
  imports Prelude
begin

text \<open>
  \<open>src/types\<close>: the error type, record ids, timestamps, the memory record with its builder
  operations, and the enumerations with their textual forms. A database timestamp is its
  number of milliseconds (\<open>datetime\<close>); \<open>Datetime::default()\<close> reads the clock, so an
  operation that calls it takes \<open>now\<close>. JSON values are the datatype \<open>json\<close>, an object an
  association list with distinct keys; JSON numbers are reals. Scores are exact reals: rounding
  of \<open>f32\<close>/\<open>f64\<close> and NaN are not modelled.
\<close>

section \<open>Errors\<close>

datatype app_error =
    Database string
  | Embedding string
  | EmbeddingNotReady
  | NotFound string
  | MemoryNotFound string
  | EntityNotFound string
  | InvalidPath string
  | Indexing_error string
  | DimensionMismatch nat nat
  | Io string
  | Internal string

type_synonym 'a app_result = "app_error + 'a"

type_synonym datetime = int

record record_id =
  rid_table :: string
  rid_key :: string

section \<open>JSON\<close>

datatype json =
    JNull
  | JBool bool
  | JNum real
  | JStr string
  | JArr "json list"
  | JObj "(string \<times> json) list"

fun json_get :: "json \<Rightarrow> string \<Rightarrow> json option" where
  "json_get (JObj kvs) k = map_of kvs k"
| "json_get _ k = None"

fun json_as_str :: "json \<Rightarrow> string option" where
  "json_as_str (JStr s) = Some s"
| "json_as_str _ = None"

fun json_as_bool :: "json \<Rightarrow> bool option" where
  "json_as_bool (JBool b) = Some b"
| "json_as_bool _ = None"

section \<open>Memory types\<close>

datatype memory_type = Episodic | Semantic | Procedural

definition memory_type_from_str :: "string \<Rightarrow> string + memory_type" where
  "memory_type_from_str s =
     (let l = str_lower s in
      if l = ''episodic'' then Inr Episodic
      else if l = ''semantic'' then Inr Semantic
      else if l = ''procedural'' then Inr Procedural
      else Inl (''Unknown memory type: '' @ s))"

fun memory_type_name :: "memory_type \<Rightarrow> string" where
  "memory_type_name Episodic = ''episodic''"
| "memory_type_name Semantic = ''semantic''"
| "memory_type_name Procedural = ''procedural''"

datatype embedding_state = ES_None | ES_Pending | ES_Ready | ES_Stale | ES_Current

fun embedding_state_display :: "embedding_state \<Rightarrow> string" where
  "embedding_state_display ES_None = ''none''"
| "embedding_state_display ES_Pending = ''pending''"
| "embedding_state_display ES_Ready = ''ready''"
| "embedding_state_display ES_Stale = ''stale''"
| "embedding_state_display ES_Current = ''current''"

definition embedding_state_from_str :: "string \<Rightarrow> embedding_state" where
  "embedding_state_from_str s =
     (let l = str_lower s in
      if l = ''none'' then ES_None
      else if l = ''pending'' then ES_Pending
      else if l = ''ready'' then ES_Ready
      else if l = ''stale'' then ES_Stale
      else if l = ''current'' then ES_Current
      else ES_None)"

datatype embed_target = ET_Memory | ET_Entity | ET_CodeChunk | ET_Symbol

fun embed_priority :: "embed_target \<Rightarrow> u8" where
  "embed_priority ET_Memory = 10"
| "embed_priority ET_Entity = 10"
| "embed_priority ET_CodeChunk = 5"
| "embed_priority ET_Symbol = 5"

record memory =
  m_id :: "record_id option"
  m_content :: string
  m_embedding :: "real list option"
  m_memory_type :: memory_type
  m_user_id :: "string option"
  m_agent_id :: "string option"
  m_run_id :: "string option"
  m_namespace :: "string option"
  m_metadata :: "json option"
  m_event_time :: datetime
  m_ingestion_time :: datetime
  m_valid_from :: datetime
  m_valid_until :: "datetime option"
  m_importance_score :: real
  m_access_count :: u32
  m_last_accessed_at :: "datetime option"
  m_invalidation_reason :: "string option"
  m_superseded_by :: "string option"
  m_content_hash :: "string option"
  m_embedding_state :: embedding_state

record memory_update =
  mu_content :: "string option"
  mu_memory_type :: "memory_type option"
  mu_user_id :: "string option"
  mu_agent_id :: "string option"
  mu_run_id :: "string option"
  mu_namespace :: "string option"
  mu_importance_score :: "real option"
  mu_metadata :: "json option"
  mu_embedding :: "real list option"
  mu_content_hash :: "string option"
  mu_embedding_state :: "embedding_state option"

definition memory_new :: "datetime \<Rightarrow> string \<Rightarrow> memory" where
  "memory_new now content =
     \<lparr>m_id = None, m_content = content, m_embedding = None, m_memory_type = Semantic,
      m_user_id = None, m_agent_id = None, m_run_id = None, m_namespace = None,
      m_metadata = None, m_event_time = now, m_ingestion_time = now, m_valid_from = now,
      m_valid_until = None, m_importance_score = 1, m_access_count = 0,
      m_last_accessed_at = None, m_invalidation_reason = None, m_superseded_by = None,
      m_content_hash = None, m_embedding_state = ES_None\<rparr>"

definition with_type :: "memory_type \<Rightarrow> memory \<Rightarrow> memory" where
  "with_type t m = m\<lparr>m_memory_type := t\<rparr>"

definition with_user_id :: "string \<Rightarrow> memory \<Rightarrow> memory" where
  "with_user_id u m = m\<lparr>m_user_id := Some u\<rparr>"

definition with_agent_id :: "string \<Rightarrow> memory \<Rightarrow> memory" where
  "with_agent_id u m = m\<lparr>m_agent_id := Some u\<rparr>"

definition with_run_id :: "string \<Rightarrow> memory \<Rightarrow> memory" where
  "with_run_id u m = m\<lparr>m_run_id := Some u\<rparr>"

definition with_namespace :: "string \<Rightarrow> memory \<Rightarrow> memory" where
  "with_namespace u m = m\<lparr>m_namespace := Some u\<rparr>"

definition with_metadata :: "json \<Rightarrow> memory \<Rightarrow> memory" where
  "with_metadata j m = m\<lparr>m_metadata := Some j\<rparr>"

section \<open>Textual forms\<close>

lemma memory_type_name_lower: "str_lower (memory_type_name t) = memory_type_name t"
  by (cases t; hypsubst; code_simp)

lemma embedding_state_display_lower: "str_lower (embedding_state_display s) = embedding_state_display s"
  by (cases s; hypsubst; code_simp)

text \<open>Parsing is the case-insensitive inverse of the textual form.\<close>

lemma memory_type_from_str_iff: "memory_type_from_str s = Inr t \<longleftrightarrow> str_lower s = memory_type_name t"
  by (cases t) (auto simp: memory_type_from_str_def Let_def)

lemma embedding_state_roundtrip: "embedding_state_from_str (embedding_state_display s) = s"
  unfolding embedding_state_from_str_def Let_def embedding_state_display_lower by (cases s) auto

end
