(* ===== verification/IndexStatus.thy ===== *)
theory IndexStatus
  imports AppTypes
begin

text \<open>
  \<open>src/types/code.rs\<close>: the status record of a project's index with its lifecycle states and
  generation counters, and the durable indexing jobs with their transition table.
\<close>

section \<open>Lifecycle states\<close>

datatype index_state = Indexing | EmbeddingPending | Completed | Failed
datatype structural_state = StructPending | StructReady | StructFailed
datatype semantic_state = SemPending | SemReady | SemFailed
datatype projection_state = ProjStale | ProjCurrent

fun index_state_display :: "index_state \<Rightarrow> string" where
  "index_state_display Indexing = ''indexing''"
| "index_state_display EmbeddingPending = ''embedding_pending''"
| "index_state_display Completed = ''completed''"
| "index_state_display Failed = ''failed''"

fun structural_state_display :: "structural_state \<Rightarrow> string" where
  "structural_state_display StructPending = ''pending''"
| "structural_state_display StructReady = ''ready''"
| "structural_state_display StructFailed = ''failed''"

fun semantic_state_display :: "semantic_state \<Rightarrow> string" where
  "semantic_state_display SemPending = ''pending''"
| "semantic_state_display SemReady = ''ready''"
| "semantic_state_display SemFailed = ''failed''"

fun projection_state_display :: "projection_state \<Rightarrow> string" where
  "projection_state_display ProjStale = ''stale''"
| "projection_state_display ProjCurrent = ''current''"

datatype capability_kind =
  CapProjectInfo | CapBm25 | CapVector | CapSymbols | CapGraph | CapSemantic | CapProjection

datatype capability_freshness = Fresh | Stale | Partial | Missing | Degraded | Unavailable

record capability_readiness =
  cr_capability :: capability_kind
  cr_freshness :: capability_freshness
  cr_serving_generation :: "u64 option"
  cr_reason :: "string option"
  cr_reason_code :: "string option"

record serving_generation_metadata =
  sg_structural :: "u64 option"
  sg_bm25 :: "u64 option"
  sg_symbols :: "u64 option"
  sg_graph :: "u64 option"
  sg_vector :: "u64 option"
  sg_semantic :: "u64 option"
  sg_indexing :: "u64 option"

record index_status =
  is_id :: "record_id option"
  is_project_id :: string
  is_root_path :: "string option"
  is_status :: index_state
  is_total_files :: u32
  is_indexed_files :: u32
  is_total_chunks :: u32
  is_total_symbols :: u32
  is_started_at :: datetime
  is_completed_at :: "datetime option"
  is_error_message :: "string option"
  is_failed_files :: "string list"
  is_failed_embeddings :: u32
  is_embedding_version :: u32
  is_structural_state :: structural_state
  is_semantic_state :: semantic_state
  is_projection_state :: projection_state
  is_structural_generation :: u64
  is_semantic_generation :: u64
  is_capabilities :: "capability_readiness list option"
  is_serving :: "serving_generation_metadata option"
  is_include_patterns :: "string list"
  is_exclude_patterns :: "string list"

definition refresh_lifecycle_states :: "index_status \<Rightarrow> index_status" where
  "refresh_lifecycle_states s =
     (case is_status s of
        Indexing \<Rightarrow> s\<lparr>is_structural_state := StructPending, is_semantic_state := SemPending,
                      is_projection_state := ProjStale\<rparr>
      | EmbeddingPending \<Rightarrow> s\<lparr>is_structural_state := StructReady, is_semantic_state := SemPending,
                      is_projection_state := ProjStale\<rparr>
      | Completed \<Rightarrow>
          (let s' = s\<lparr>is_structural_state := StructReady, is_semantic_state := SemReady\<rparr>
           in if is_projection_state s' \<noteq> ProjCurrent
              then s'\<lparr>is_projection_state := ProjStale\<rparr> else s')
      | Failed \<Rightarrow> s\<lparr>is_structural_state := StructFailed, is_semantic_state := SemFailed,
                      is_projection_state := ProjStale\<rparr>)"

definition index_status_new :: "datetime \<Rightarrow> string \<Rightarrow> index_status" where
  "index_status_new now project_id =
     refresh_lifecycle_states
       \<lparr>is_id = None, is_project_id = project_id, is_root_path = None, is_status = Indexing,
        is_total_files = 0, is_indexed_files = 0, is_total_chunks = 0, is_total_symbols = 0,
        is_started_at = now, is_completed_at = None, is_error_message = None,
        is_failed_files = [], is_failed_embeddings = 0, is_embedding_version = 0,
        is_structural_state = StructPending, is_semantic_state = SemPending,
        is_projection_state = ProjStale, is_structural_generation = 0,
        is_semantic_generation = 0, is_capabilities = None, is_serving = None,
        is_include_patterns = [], is_exclude_patterns = []\<rparr>"

definition mark_projection_stale :: "index_status \<Rightarrow> index_status" where
  "mark_projection_stale s = s\<lparr>is_projection_state := ProjStale\<rparr>"

definition mark_projection_current :: "index_status \<Rightarrow> index_status" where
  "mark_projection_current s =
     s\<lparr>is_projection_state := if is_status s = Completed then ProjCurrent else ProjStale\<rparr>"

definition mark_structural_generation_advanced :: "index_status \<Rightarrow> index_status" where
  "mark_structural_generation_advanced s =
     (let s1 = s\<lparr>is_structural_generation := saturating_add (is_structural_generation s) 1\<rparr>;
          s2 = (if is_semantic_generation s1 > is_structural_generation s1
                then s1\<lparr>is_semantic_generation := is_structural_generation s1\<rparr> else s1)
      in mark_projection_stale s2)"

definition mark_semantic_generation_caught_up :: "index_status \<Rightarrow> index_status" where
  "mark_semantic_generation_caught_up s =
     s\<lparr>is_semantic_generation := is_structural_generation s\<rparr>"

definition update_index_status :: "index_status \<Rightarrow> string \<times> index_status" where
  "update_index_status s =
     (let s' = refresh_lifecycle_states s; key = is_project_id s'
      in (key, s'\<lparr>is_id := Some \<lparr>rid_table = ''index_status'', rid_key = key\<rparr>\<rparr>))"

section \<open>Indexing jobs\<close>

datatype job_state =
    JQueued | JRunning | JPaused | JInterrupted | JResumable | JCompleted | JFailed
  | JCancelRequested | JCancelled | JAbandoned

datatype job_phase =
    Discover | Parse | Chunk | Symbols | Relations | Embed | EmbedEnqueue | Bm25 | Finalize
  | Promote | Cleanup

datatype job_reason_code =
    CancelledByUser | InterruptedByShutdown | LostSameProcessTask | StorageError | ParseError
  | EmbeddingError | Bm25Error | UnknownReason | ActiveIndexRunning | ResumableInterruptedJob
  | LostOneShotIndexingTaskAfterRestart | CheckpointGenerationMissing
  | WorkspaceChangedSinceCheckpoint | StaleGeneration | IndexStorageCorrupt
  | IllegalStateTransition | ResumeTokenRequired | ForceRestartConfirmationRequired
  | CancellationRequested | CleanupRequested

datatype job_request_mode = StartNew | Resume | ForceRestart | Cancel | CleanupMode

record invalid_transition =
  it_from :: job_state
  it_to :: job_state
  it_reason_code :: job_reason_code

fun legal_transition :: "job_state \<Rightarrow> job_state \<Rightarrow> bool" where
  "legal_transition JQueued JRunning = True"
| "legal_transition JRunning JInterrupted = True"
| "legal_transition JRunning JCompleted = True"
| "legal_transition JRunning JFailed = True"
| "legal_transition JRunning JCancelRequested = True"
| "legal_transition JInterrupted JResumable = True"
| "legal_transition JResumable JRunning = True"
| "legal_transition JCancelRequested JCancelled = True"
| "legal_transition JCancelled JAbandoned = True"
| "legal_transition _ _ = False"

definition validate_index_job_transition :: "job_state \<Rightarrow> job_state \<Rightarrow> invalid_transition + unit" where
  "validate_index_job_transition current proposed =
     (if legal_transition current proposed then Inr ()
      else Inl \<lparr>it_from = current, it_to = proposed, it_reason_code = IllegalStateTransition\<rparr>)"

record job_error =
  je_code :: job_reason_code
  je_message :: string
  je_retryable :: bool

record job_resume_state =
  jr_supported :: bool
  jr_token :: "string option"
  jr_checkpoint_generation :: "u64 option"
  jr_reason_if_not_supported :: "job_reason_code option"

record job_progress =
  jp_total_files :: "u32 option"
  jp_discovered_files :: "u32 option"
  jp_parsed_files :: "u32 option"
  jp_indexed_files :: "u32 option"
  jp_embedded_chunks :: "u32 option"
  jp_current_file :: "string option"

record index_job =
  j_id :: "record_id option"
  j_job_id :: string
  j_project_id :: string
  j_target_generation :: u64
  j_workspace_path :: string
  j_target_fingerprint :: "string option"
  j_structural_generation :: u64
  j_state :: job_state
  j_stored_phase :: "job_phase option"
  j_phase :: job_phase
  j_resume_token :: string
  j_created_at :: datetime
  j_started_at :: "datetime option"
  j_updated_at :: datetime
  j_completed_at :: "datetime option"
  j_error :: "job_error option"
  j_resume :: "job_resume_state option"
  j_completed_files_count :: u64
  j_total_files_count :: "u64 option"
  j_reason_code :: "job_reason_code option"
  j_progress :: job_progress

record file_checkpoint =
  fc_id :: "record_id option"
  fc_job_id :: string
  fc_project_id :: string
  fc_generation :: u64
  fc_relative_file_path :: string
  fc_file_path :: string
  fc_content_hash :: string
  fc_checkpoint_generation :: u64
  fc_phase :: job_phase
  fc_completed :: bool
  fc_completed_at :: datetime
  fc_chunks_written :: u64
  fc_symbols_written :: u64
  fc_updated_at :: datetime

section \<open>Generations and lifecycle states\<close>

text \<open>The operations on a status record, as events; \<open>Persist st\<close> assigns the state and stores the
  record, as the callers of \<open>update_index_status\<close> do.\<close>

datatype status_event =
    AdvanceStructural | SemanticCaughtUp | ProjectionStale | ProjectionCurrent | Persist index_state

fun status_step :: "index_status \<Rightarrow> status_event \<Rightarrow> index_status" where
  "status_step s AdvanceStructural = mark_structural_generation_advanced s"
| "status_step s SemanticCaughtUp = mark_semantic_generation_caught_up s"
| "status_step s ProjectionStale = mark_projection_stale s"
| "status_step s ProjectionCurrent = mark_projection_current s"
| "status_step s (Persist st) = snd (update_index_status (s\<lparr>is_status := st\<rparr>))"

definition lifecycle_view_ok :: "index_status \<Rightarrow> bool" where
  "lifecycle_view_ok s \<longleftrightarrow>
     is_structural_state s = (case is_status s of Indexing \<Rightarrow> StructPending
        | EmbeddingPending \<Rightarrow> StructReady | Completed \<Rightarrow> StructReady | Failed \<Rightarrow> StructFailed) \<and>
     is_semantic_state s = (case is_status s of Indexing \<Rightarrow> SemPending
        | EmbeddingPending \<Rightarrow> SemPending | Completed \<Rightarrow> SemReady | Failed \<Rightarrow> SemFailed) \<and>
     (is_projection_state s = ProjCurrent \<longrightarrow> is_status s = Completed)"

definition status_inv :: "index_status \<Rightarrow> bool" where
  "status_inv s \<longleftrightarrow> is_semantic_generation s \<le> is_structural_generation s \<and> lifecycle_view_ok s"

lemma refresh_lifecycle_view: "lifecycle_view_ok (refresh_lifecycle_states s)"
  by (auto simp: lifecycle_view_ok_def refresh_lifecycle_states_def Let_def
      split: index_state.splits projection_state.splits)

lemma refresh_frame [simp]:
  "is_status (refresh_lifecycle_states s) = is_status s"
  "is_structural_generation (refresh_lifecycle_states s) = is_structural_generation s"
  "is_semantic_generation (refresh_lifecycle_states s) = is_semantic_generation s"
  "is_project_id (refresh_lifecycle_states s) = is_project_id s"
  by (auto simp: refresh_lifecycle_states_def Let_def split: index_state.splits)

lemma status_inv_step: "status_inv s \<Longrightarrow> status_inv (status_step s e)"
proof (cases e)
  case (Persist st)
  assume "status_inv s"
  with Persist refresh_lifecycle_view [of "s\<lparr>is_status := st\<rparr>"] show ?thesis
    by (simp add: status_inv_def lifecycle_view_ok_def update_index_status_def Let_def)
qed (auto simp: status_inv_def lifecycle_view_ok_def mark_structural_generation_advanced_def Let_def
      mark_semantic_generation_caught_up_def mark_projection_stale_def mark_projection_current_def)

interpretation status: step_system status_step status_inv
  by unfold_locales (rule status_inv_step)

lemma status_inv_new: "status_inv (index_status_new now p)"
  unfolding index_status_new_def status_inv_def by (auto intro: refresh_lifecycle_view)

text \<open>From a freshly created status record, no sequence of the status operations (advancing
  the structural generation, letting the semantic one catch up, marking the projection, storing a
  new state) makes the semantic generation overtake the structural one, marks a projection
  current for an index that is not completed, or leaves the structural and semantic readiness out
  of step with the index state.\<close>
theorem status_run_consistent: "status_inv (foldl status_step (index_status_new now p) es)"
  by (rule status.run_invar) (rule status_inv_new)

end
