(* ===== verification/IndexJobs.thy ===== *)
theory IndexJobs
  imports IndexStatus
begin

text \<open>
  Durable indexing jobs: the normalisation and record ids of
  \<open>src/storage/surrealdb/code_ops.rs\<close>, the recovery pass over the jobs and the clean-up of
  indexing markers that \<open>src/codebase/startup.rs\<close> runs once at start-up. The database is a
  parameter: a query is a function argument that returns an error or the rows.
\<close>

section \<open>Records as they are stored\<close>

definition index_job_record_id :: "string \<Rightarrow> string \<Rightarrow> string" where
  "index_job_record_id project_id job_id = project_id @ ''::'' @ job_id"

definition index_file_checkpoint_record_id ::
  "(string \<Rightarrow> string) \<Rightarrow> string \<Rightarrow> u64 \<Rightarrow> string \<Rightarrow> string" where
  "index_file_checkpoint_record_id blake3_hex project_id generation relative_file_path =
     project_id @ ''::'' @ dec_of_nat (unat generation) @ ''::'' @ blake3_hex relative_file_path"

definition stored_index_job :: "index_job \<Rightarrow> string \<times> index_job" where
  "stored_index_job job0 =
     (let job1 = (if j_target_generation job0 = 0
                  then job0\<lparr>j_target_generation := j_structural_generation job0\<rparr> else job0);
          job2 = (if j_resume_token job1 = [] then
                    (case j_resume job1 of
                       Some r \<Rightarrow> job1\<lparr>j_resume_token := (case jr_token r of Some t \<Rightarrow> t | None \<Rightarrow> [])\<rparr>
                     | None \<Rightarrow> job1)
                  else job1);
          job3 = (if j_completed_files_count job2 = 0 then
                    job2\<lparr>j_completed_files_count :=
                      ucast (case jp_indexed_files (j_progress job2) of Some n \<Rightarrow> n | None \<Rightarrow> 0)\<rparr>
                  else job2);
          job4 = (if j_total_files_count job3 = None then
                    job3\<lparr>j_total_files_count := map_option ucast (jp_total_files (j_progress job3))\<rparr>
                  else job3);
          job5 = (if j_reason_code job4 = None then
                    job4\<lparr>j_reason_code := map_option je_code (j_error job4)\<rparr>
                  else job4);
          key = index_job_record_id (j_project_id job5) (j_job_id job5)
      in (key, job5\<lparr>j_id := Some \<lparr>rid_table = ''index_jobs'', rid_key = key\<rparr>\<rparr>))"

definition stored_file_checkpoint ::
  "(string \<Rightarrow> string) \<Rightarrow> file_checkpoint \<Rightarrow> string \<times> file_checkpoint" where
  "stored_file_checkpoint blake3_hex c0 =
     (let c1 = (if fc_relative_file_path c0 = []
                then c0\<lparr>fc_relative_file_path := fc_file_path c0\<rparr> else c0);
          c2 = (if fc_file_path c1 = []
                then c1\<lparr>fc_file_path := fc_relative_file_path c1\<rparr> else c1);
          c3 = (if fc_checkpoint_generation c2 = 0
                then c2\<lparr>fc_checkpoint_generation := fc_generation c2\<rparr> else c2);
          key = index_file_checkpoint_record_id blake3_hex (fc_project_id c3) (fc_generation c3)
                  (fc_relative_file_path c3)
      in (key, c3\<lparr>fc_id := Some \<lparr>rid_table = ''index_file_checkpoints'', rid_key = key\<rparr>\<rparr>))"

fun capability_column :: "capability_kind \<Rightarrow> string" where
  "capability_column CapProjectInfo = ''serving_gen_structural''"
| "capability_column CapProjection = ''serving_gen_structural''"
| "capability_column CapBm25 = ''serving_gen_bm25''"
| "capability_column CapVector = ''serving_gen_vector''"
| "capability_column CapSymbols = ''serving_gen_symbols''"
| "capability_column CapGraph = ''serving_gen_graph''"
| "capability_column CapSemantic = ''serving_gen_semantic''"

definition is_structural :: "capability_kind \<Rightarrow> bool" where
  "is_structural c \<longleftrightarrow> c = CapProjectInfo \<or> c = CapProjection"

section \<open>Recovery at start-up\<close>

record recovery =
  rec_writes :: "index_job list"
  rec_recovered :: u32
  rec_failed :: u32

definition recover_job ::
  "datetime \<Rightarrow> file_checkpoint list app_result \<Rightarrow> index_job \<Rightarrow> recovery \<Rightarrow> recovery" where
  "recover_job now checkpoints job r =
     (if j_state job \<noteq> JRunning then r
      else
        (let has_checkpoints = (case checkpoints of Inr cs \<Rightarrow> list_ex fc_completed cs | Inl _ \<Rightarrow> False)
         in if has_checkpoints
            then r\<lparr>rec_writes := rec_writes r @
                     [job\<lparr>j_state := JResumable, j_reason_code := Some ResumableInterruptedJob,
                          j_updated_at := now\<rparr>],
                   rec_recovered := rec_recovered r + 1\<rparr>
            else r\<lparr>rec_writes := rec_writes r @
                     [job\<lparr>j_state := JFailed, j_reason_code := Some CheckpointGenerationMissing,
                          j_updated_at := now\<rparr>],
                   rec_failed := rec_failed r + 1\<rparr>))"

fun recover_jobs ::
  "datetime \<Rightarrow> (u64 \<Rightarrow> file_checkpoint list app_result) \<Rightarrow> index_job list \<Rightarrow> recovery \<Rightarrow> recovery" where
  "recover_jobs now checkpoints [] r = r"
| "recover_jobs now checkpoints (job # jobs) r =
     recover_jobs now checkpoints jobs (recover_job now (checkpoints (j_target_generation job)) job r)"

fun recover_projects ::
  "datetime \<Rightarrow> (string \<Rightarrow> index_job list app_result) \<Rightarrow>
   (string \<Rightarrow> u64 \<Rightarrow> file_checkpoint list app_result) \<Rightarrow> string list \<Rightarrow> recovery \<Rightarrow> recovery" where
  "recover_projects now list_jobs list_checkpoints [] r = r"
| "recover_projects now list_jobs list_checkpoints (p # ps) r =
     (case list_jobs p of
        Inl _ \<Rightarrow> recover_projects now list_jobs list_checkpoints ps r
      | Inr jobs \<Rightarrow> recover_projects now list_jobs list_checkpoints ps
                     (recover_jobs now (list_checkpoints p) jobs r))"

definition perform_startup_job_recovery ::
  "datetime \<Rightarrow> string list app_result \<Rightarrow> (string \<Rightarrow> index_job list app_result) \<Rightarrow>
   (string \<Rightarrow> u64 \<Rightarrow> file_checkpoint list app_result) \<Rightarrow> recovery" where
  "perform_startup_job_recovery now list_projects list_jobs list_checkpoints =
     (let r0 = \<lparr>rec_writes = [], rec_recovered = 0, rec_failed = 0\<rparr>
      in case list_projects of
           Inl _ \<Rightarrow> r0
         | Inr ids \<Rightarrow> recover_projects now list_jobs list_checkpoints ids r0)"

text \<open>\<open>clear_completed_indexing_generations_on_startup\<close>: the projects whose indexing marker is
  to be cleared, in the order of the calls. \<open>clear\<close> says whether the write succeeded; it decides
  the count only.\<close>

fun clears_marker :: "index_status option app_result \<Rightarrow> u64 option app_result \<Rightarrow> bool" where
  "clears_marker (Inr (Some s)) gen =
     (if is_status s \<noteq> Completed \<or> is_semantic_generation s \<noteq> is_structural_generation s then False
      else case gen of Inl _ \<Rightarrow> False | Inr g \<Rightarrow> g \<noteq> None)"
| "clears_marker (Inr None) gen = False"
| "clears_marker (Inl _) gen = False"

fun clear_markers ::
  "(string \<Rightarrow> index_status option app_result) \<Rightarrow> (string \<Rightarrow> u64 option app_result) \<Rightarrow>
   (string \<Rightarrow> bool) \<Rightarrow> string list \<Rightarrow> string list \<times> u32 \<Rightarrow> string list \<times> u32" where
  "clear_markers get_status get_gen clear [] acc = acc"
| "clear_markers get_status get_gen clear (p # ps) (calls, cleared) =
     (if clears_marker (get_status p) (get_gen p)
      then clear_markers get_status get_gen clear ps
             (calls @ [p], if clear p then cleared + 1 else cleared)
      else clear_markers get_status get_gen clear ps (calls, cleared))"

definition clear_completed_indexing_generations_on_startup ::
  "string list app_result \<Rightarrow> (string \<Rightarrow> index_status option app_result) \<Rightarrow>
   (string \<Rightarrow> u64 option app_result) \<Rightarrow> (string \<Rightarrow> bool) \<Rightarrow> string list \<times> u32" where
  "clear_completed_indexing_generations_on_startup list_projects get_status get_gen clear =
     (case list_projects of
        Inl _ \<Rightarrow> ([], 0)
      | Inr ids \<Rightarrow> clear_markers get_status get_gen clear ids ([], 0))"

section \<open>The transition table\<close>

inductive job_path :: "job_state \<Rightarrow> job_state \<Rightarrow> bool" where
  job_path_refl: "job_path s s"
| job_path_step: "job_path s t \<Longrightarrow> validate_index_job_transition t u = Inr () \<Longrightarrow> job_path s u"

lemma validate_iff [simp]: "validate_index_job_transition s t = Inr () \<longleftrightarrow> legal_transition s t"
  by (simp add: validate_index_job_transition_def)

fun_cases legal_transition_cases: "legal_transition s t"

definition terminal_job_state :: "job_state \<Rightarrow> bool" where
  "terminal_job_state s \<longleftrightarrow> s \<in> {JPaused, JCompleted, JFailed, JAbandoned}"

lemma terminal_iff: "terminal_job_state s \<longleftrightarrow> (\<forall>t. \<not> legal_transition s t)"
proof (cases "terminal_job_state s")
  case True
  then show ?thesis by (auto simp: terminal_job_state_def elim: legal_transition_cases)
next
  case False
  then have "\<exists>t. legal_transition s t"
    by (cases s) (auto simp: terminal_job_state_def intro: exI [of _ JRunning] exI [of _ JFailed] exI [of _ JResumable]
        exI [of _ JCancelled] exI [of _ JAbandoned])
  with False show ?thesis by blast
qed

lemma job_path_trans: "job_path t u \<Longrightarrow> job_path s t \<Longrightarrow> job_path s u"
  by (induction rule: job_path.induct) (auto intro: job_path.intros)

lemma job_path_one: "legal_transition s t \<Longrightarrow> job_path s t"
  by (auto intro: job_path.intros)

section \<open>Recovery\<close>

definition recovered_job :: "datetime \<Rightarrow> file_checkpoint list app_result \<Rightarrow> index_job \<Rightarrow> index_job" where
  "recovered_job now checkpoints job =
     hd (rec_writes (recover_job now checkpoints job
       \<lparr>rec_writes = [], rec_recovered = 0, rec_failed = 0\<rparr>))"

lemma recover_job_writes:
  "rec_writes (recover_job now cs job r) =
     rec_writes r @ (if j_state job = JRunning then [recovered_job now cs job] else [])"
  by (simp add: recover_job_def recovered_job_def Let_def)

lemma recover_jobs_writes:
  "rec_writes (recover_jobs now cs jobs r) =
     rec_writes r @ [recovered_job now (cs (j_target_generation j)) j. j \<leftarrow> jobs, j_state j = JRunning]"
  by (induction jobs arbitrary: r) (auto simp: recover_job_writes)

lemma recover_projects_writes:
  "rec_writes (recover_projects now lj lc ps r) =
     rec_writes r @
       concat [[recovered_job now (lc p (j_target_generation j)) j. j \<leftarrow> jobs, j_state j = JRunning].
               p \<leftarrow> ps, Inr jobs \<leftarrow> [lj p]]"
  by (induction ps arbitrary: r) (auto simp: recover_jobs_writes split: sum.splits)

lemma recovered_job_state:
  assumes "j_state job = JRunning"
  shows "j_state (recovered_job now cs job) =
    (case cs of Inr l \<Rightarrow> if list_ex fc_completed l then JResumable else JFailed | Inl _ \<Rightarrow> JFailed)"
  using assms by (simp add: recovered_job_def recover_job_def Let_def split: sum.splits)

lemma recovered_job_frame:
  assumes "j_state job = JRunning"
  shows "j_job_id (recovered_job now cs job) = j_job_id job"
    "j_project_id (recovered_job now cs job) = j_project_id job"
    "j_target_generation (recovered_job now cs job) = j_target_generation job"
    "j_progress (recovered_job now cs job) = j_progress job"
  using assms by (simp_all add: recovered_job_def recover_job_def Let_def)

lemma perform_recovery_writes:
  "rec_writes (perform_startup_job_recovery now (Inr ps) lj lc) =
     concat [[recovered_job now (lc p (j_target_generation j)) j. j \<leftarrow> jobs, j_state j = JRunning].
             p \<leftarrow> ps, Inr jobs \<leftarrow> [lj p]]"
  by (simp add: perform_startup_job_recovery_def recover_projects_writes)

lemma mem_recovery_writes:
  "w \<in> set (rec_writes (perform_startup_job_recovery now (Inr ps) lj lc)) \<longleftrightarrow>
     (\<exists>p jobs job. p \<in> set ps \<and> lj p = Inr jobs \<and> job \<in> set jobs \<and> j_state job = JRunning \<and>
        w = recovered_job now (lc p (j_target_generation job)) job)"
proof -
  have "w \<in> set (concat [[recovered_job now (lc p (j_target_generation j)) j. j \<leftarrow> jobs, j_state j = JRunning].
             Inr jobs \<leftarrow> [lj p]]) \<longleftrightarrow>
     (\<exists>jobs job. lj p = Inr jobs \<and> job \<in> set jobs \<and> j_state job = JRunning \<and>
        w = recovered_job now (lc p (j_target_generation job)) job)" for p
    by (cases "lj p") auto
  then show ?thesis unfolding perform_recovery_writes by fastforce
qed

text \<open>C3: The start-up recovery writes back every job it finds running, and nothing else: the
  written record is a running job of a readable project, now resumable exactly when one of its
  checkpoints is completed and failed otherwise (an unreadable checkpoint list counts as none),
  with its ids, target generation and progress unchanged.\<close>
theorem startup_recovery_settles_running_jobs:
  "w \<in> set (rec_writes (perform_startup_job_recovery now (Inr ps) list_jobs list_checkpoints))
    \<longleftrightarrow> (\<exists>p jobs job. p \<in> set ps \<and> list_jobs p = Inr jobs \<and> job \<in> set jobs \<and> j_state job = JRunning \<and>
          w = job\<lparr>j_state := (case list_checkpoints p (j_target_generation job) of
                    Inr cs \<Rightarrow> if \<exists>c\<in>set cs. fc_completed c then JResumable else JFailed
                  | Inl _ \<Rightarrow> JFailed),
                  j_reason_code := (case list_checkpoints p (j_target_generation job) of
                    Inr cs \<Rightarrow> if \<exists>c\<in>set cs. fc_completed c then Some ResumableInterruptedJob
                              else Some CheckpointGenerationMissing
                  | Inl _ \<Rightarrow> Some CheckpointGenerationMissing),
                  j_updated_at := now\<rparr>)"
proof -
  have one: "recovered_job now cs job = job\<lparr>j_state := (case cs of
        Inr l \<Rightarrow> if \<exists>c\<in>set l. fc_completed c then JResumable else JFailed | Inl _ \<Rightarrow> JFailed),
      j_reason_code := (case cs of
        Inr l \<Rightarrow> if \<exists>c\<in>set l. fc_completed c then Some ResumableInterruptedJob
                 else Some CheckpointGenerationMissing
      | Inl _ \<Rightarrow> Some CheckpointGenerationMissing),
      j_updated_at := now\<rparr>" if "j_state job = JRunning" for cs job
    using that by (simp add: recovered_job_def recover_job_def Let_def list_ex_iff split: sum.splits)
  show ?thesis
    unfolding mem_recovery_writes by (simp add: one cong: conj_cong)
qed

text \<open>The recovery's verdict is consistent with the job transition table only up to one skipped
  state: marking a running job failed is a legal step, marking it resumable is rejected by
  \<open>validate_index_job_transition\<close> and is legal only as the two steps through the interrupted
  state.\<close>
theorem recovery_skips_interrupted:
  "validate_index_job_transition JRunning JFailed = Inr () \<and>
   validate_index_job_transition JRunning JResumable =
     Inl \<lparr>it_from = JRunning, it_to = JResumable, it_reason_code = IllegalStateTransition\<rparr> \<and>
   validate_index_job_transition JRunning JInterrupted = Inr () \<and>
   validate_index_job_transition JInterrupted JResumable = Inr () \<and>
   (\<exists>p cs job. j_state job = JRunning \<and>
      rec_writes (perform_startup_job_recovery 0 (Inr [p]) (\<lambda>_. Inr [job]) (\<lambda>_ _. Inr cs)) =
        [job\<lparr>j_state := JResumable, j_reason_code := Some ResumableInterruptedJob,
             j_updated_at := 0\<rparr>])"
proof -
  have "rec_writes (perform_startup_job_recovery 0 (Inr [p]) (\<lambda>_. Inr [job]) (\<lambda>_ _. Inr [c])) =
      [job\<lparr>j_state := JResumable, j_reason_code := Some ResumableInterruptedJob, j_updated_at := 0\<rparr>]"
    if "j_state job = JRunning" "fc_completed c" for p job c
    using that by (simp add: perform_startup_job_recovery_def recover_job_def Let_def)
  moreover have "\<exists>job. j_state job = JRunning" by (rule exI [of _ "undefined\<lparr>j_state := JRunning\<rparr>"]) simp
  moreover have "\<exists>c. fc_completed c" by (rule exI [of _ "undefined\<lparr>fc_completed := True\<rparr>"]) simp
  ultimately show ?thesis by (fastforce simp: validate_index_job_transition_def)
qed

lemma job_path_closed:
  assumes "job_path s t" and "s \<in> A" and "\<And>u v. u \<in> A \<Longrightarrow> legal_transition u v \<Longrightarrow> v \<in> A"
  shows "t \<in> A"
  using assms by (induction rule: job_path.induct) auto

lemma cancelled_closed: "job_path JCancelRequested t \<Longrightarrow> t \<in> {JCancelRequested, JCancelled, JAbandoned}"
  by (erule job_path_closed) (auto elim: legal_transition_cases)

lemma queued_closed: "job_path JQueued t \<Longrightarrow> t \<noteq> JPaused"
proof -
  assume "job_path JQueued t"
  then have "t \<in> - {JPaused}"
    by (rule job_path_closed) (auto elim: legal_transition_cases)
  then show ?thesis by simp
qed

lemma running_finishes: "job_path JRunning JCompleted"
  by (rule job_path_one) simp

lemma resumable_finishes: "job_path JResumable JCompleted"
  by (rule job_path_trans [OF running_finishes job_path_one]) simp

lemma job_can_finish: "s \<noteq> JPaused \<Longrightarrow> \<exists>t. t \<in> {JCompleted, JFailed, JAbandoned} \<and> job_path s t"
proof (cases s)
  case JQueued
  have "job_path JQueued JCompleted" by (rule job_path_trans [OF running_finishes job_path_one]) simp
  with JQueued show ?thesis by blast
next
  case JInterrupted
  have "job_path JInterrupted JCompleted" by (rule job_path_trans [OF resumable_finishes job_path_one]) simp
  with JInterrupted show ?thesis by blast
next
  case JCancelRequested
  have "job_path JCancelled JAbandoned" by (rule job_path_one) simp
  from job_path_trans [OF this job_path_one] JCancelRequested show ?thesis by fastforce
next
  case JCancelled
  have "job_path JCancelled JAbandoned" by (rule job_path_one) simp
  with JCancelled show ?thesis by blast
qed (use running_finishes resumable_finishes job_path_refl in blast)+

text \<open>By validated transitions, a job that starts queued never becomes paused, can always still
  reach one of completed, failed and abandoned, and once cancellation was requested it never
  completes, fails or runs again.\<close>
theorem queued_job_lifecycle:
  assumes "job_path JQueued s"
  shows "s \<noteq> JPaused \<and> (\<exists>t\<in>{JCompleted, JFailed, JAbandoned}. job_path s t) \<and>
    (s = JCancelRequested \<longrightarrow> (\<forall>t. job_path s t \<longrightarrow> t \<in> {JCancelRequested, JCancelled, JAbandoned}))"
  using queued_closed [OF assms] job_can_finish cancelled_closed by blast

theorem queued_job_lifecycle_witness:
  "\<exists>t\<in>{JCompleted, JFailed, JAbandoned}. job_path JRunning t"
proof -
  have "job_path JQueued JRunning" by (rule job_path_one) simp
  from queued_job_lifecycle [OF this] show ?thesis by blast
qed

section \<open>Record identity\<close>

text \<open>Storing a job or a checkpoint that came back from storage writes the same record under the
  same key.\<close>

lemma stored_index_job_key:
  "fst (stored_index_job j) = index_job_record_id (j_project_id j) (j_job_id j)"
  by (auto simp: stored_index_job_def Let_def split: option.splits)

lemma index_job_record_id_inj:
  assumes "CHR '':'' \<notin> set p" "CHR '':'' \<notin> set p'"
  shows "index_job_record_id p j = index_job_record_id p' j' \<longleftrightarrow> p = p' \<and> j = j'"
  using split_at_sep [of p "CHR '':''" "CHR '':'' # j" p' "CHR '':'' # j'"] assms
  by (auto simp: index_job_record_id_def)

lemma checkpoint_record_id_inj:
  assumes hex: "\<And>x. CHR '':'' \<notin> set (h x)"
  shows "index_file_checkpoint_record_id h p g f = index_file_checkpoint_record_id h p' g' f' \<longleftrightarrow>
    p = p' \<and> g = g' \<and> h f = h f'"
proof
  let ?c = "CHR '':''" and ?d = "\<lambda>g. dec_of_nat (unat (g :: u64))"
  assume "index_file_checkpoint_record_id h p g f = index_file_checkpoint_record_id h p' g' f'"
  then have eq: "(p @ [?c, ?c] @ ?d g @ [?c]) @ ?c # h f = (p' @ [?c, ?c] @ ?d g' @ [?c]) @ ?c # h f'"
    by (simp add: index_file_checkpoint_record_id_def)
  have hash: "h f = h f'" and "p @ [?c, ?c] @ ?d g @ [?c] = p' @ [?c, ?c] @ ?d g' @ [?c]"
    using split_at_last_sep [OF eq hex hex] by blast+
  then have eq2: "(p @ [?c]) @ ?c # ?d g = (p' @ [?c]) @ ?c # ?d g'" by simp
  have "?c \<notin> set (?d g)" for g
    using dec_of_nat_digits [of ?c "unat g"] by (auto simp: is_ascii_digit_def char_code_def)
  with split_at_last_sep [OF eq2] have "p @ [?c] = p' @ [?c] \<and> ?d g = ?d g'" by blast
  with hash show "p = p' \<and> g = g' \<and> h f = h f'" by (simp add: dec_of_nat_inj word_unat_eq_iff)
qed (simp add: index_file_checkpoint_record_id_def)

lemma stored_file_checkpoint_idem:
  "stored_file_checkpoint h (snd (stored_file_checkpoint h c)) = stored_file_checkpoint h c"
  by (cases "fc_relative_file_path c = []"; cases "fc_file_path c = []";
      cases "fc_checkpoint_generation c = 0"; simp add: stored_file_checkpoint_def Let_def)

text \<open>Two checkpoints share a storage record exactly when project, generation and path hash
  agree, whatever characters the project id has: given only that the hash is printed in hexadecimal
  digits (so without a colon), a checkpoint can never overwrite the checkpoint of another file,
  generation or project. Storing is also idempotent.\<close>
theorem checkpoint_records_disjoint:
  assumes "\<And>x. CHR '':'' \<notin> set (blake3_hex x)"
  shows "(fst (stored_file_checkpoint blake3_hex c) = fst (stored_file_checkpoint blake3_hex c') \<longleftrightarrow>
      fc_project_id c = fc_project_id c' \<and> fc_generation c = fc_generation c' \<and>
      blake3_hex (if fc_relative_file_path c = [] then fc_file_path c else fc_relative_file_path c) =
      blake3_hex (if fc_relative_file_path c' = [] then fc_file_path c' else fc_relative_file_path c'))
    \<and> stored_file_checkpoint blake3_hex (snd (stored_file_checkpoint blake3_hex c)) =
      stored_file_checkpoint blake3_hex c"
proof -
  have key: "fst (stored_file_checkpoint blake3_hex c) =
      index_file_checkpoint_record_id blake3_hex (fc_project_id c) (fc_generation c)
        (if fc_relative_file_path c = [] then fc_file_path c else fc_relative_file_path c)" for c
    by (simp add: stored_file_checkpoint_def Let_def)
  have "stored_file_checkpoint blake3_hex (snd (stored_file_checkpoint blake3_hex c)) =
      stored_file_checkpoint blake3_hex c"
    by (rule stored_file_checkpoint_idem)
  with key checkpoint_record_id_inj [OF assms] show ?thesis by simp
qed

definition checkpoint_example :: file_checkpoint where
  "checkpoint_example = \<lparr>fc_id = None, fc_job_id = ''j'', fc_project_id = ''a::b'', fc_generation = 3,
     fc_relative_file_path = [], fc_file_path = ''src/x.rs'', fc_content_hash = ''h'',
     fc_checkpoint_generation = 0, fc_phase = Parse, fc_completed = True, fc_completed_at = 0,
     fc_chunks_written = 0, fc_symbols_written = 0, fc_updated_at = 0\<rparr>"

theorem checkpoint_records_disjoint_witness:
  "fst (stored_file_checkpoint (\<lambda>_. ''ab'') checkpoint_example) =
   fst (stored_file_checkpoint (\<lambda>_. ''ab'') (checkpoint_example\<lparr>fc_job_id := ''y''\<rparr>))"
  by (subst checkpoint_records_disjoint [THEN conjunct1]) simp_all

end
