(* ===== verification/ProjectPaths.thy ===== *)
theory ProjectPaths
  imports AppTypes "HOL-Library.Sublist"
begin

text \<open>
  Paths, project ids and diagnostics: \<open>src/types/project_id.rs\<close>,
  \<open>src/types/code_intelligence.rs\<close> and \<open>src/codebase/resolver.rs\<close>. A path is its list of
  components (Unix: no prefix component), as \<open>std::path\<close> compares it. What only the file
  system and the platform know is the record \<open>fs_env\<close>: canonicalisation, existence and the
  conversion of a path to text (\<open>None\<close> where the bytes are not UTF-8).
\<close>

datatype component = RootDir | CurDir | ParentDir | Normal string

type_synonym path = "component list"

abbreviation root_path :: path where
  "root_path \<equiv> [RootDir]"

definition path_starts_with :: "path \<Rightarrow> path \<Rightarrow> bool" where
  "path_starts_with p base \<longleftrightarrow> prefix base p"

definition path_file_name :: "path \<Rightarrow> string option" where
  "path_file_name p = (if p = [] then None else case last p of Normal s \<Rightarrow> Some s | _ \<Rightarrow> None)"

definition path_parent :: "path \<Rightarrow> path option" where
  "path_parent p = (if p = [] \<or> last p = RootDir then None else Some (butlast p))"

record fs_env =
  fs_canonicalize :: "path \<Rightarrow> string + path"
  fs_exists :: "path \<Rightarrow> bool"
  fs_to_str :: "path \<Rightarrow> string option"
  fs_to_string_lossy :: "path \<Rightarrow> string"

section \<open>Diagnostics\<close>

datatype diagnostic_code =
  D_Selected | D_Disabled | D_MissingRoot | D_Indexing | D_Ready | D_Degraded

record diagnostic =
  d_status :: diagnostic_code
  d_reason_code :: diagnostic_code
  d_message :: string

definition diagnostic_of :: "diagnostic_code \<Rightarrow> string \<Rightarrow> diagnostic" where
  "diagnostic_of c msg = \<lparr>d_status = c, d_reason_code = c, d_message = msg\<rparr>"

section \<open>Project ids\<close>

datatype project_id_error =
    UnsafeRoot string
  | NonUtf8Root string
  | Canonicalize string string
  | MissingLeaf string

definition canonicalize_project_root :: "fs_env \<Rightarrow> path \<Rightarrow> project_id_error + path" where
  "canonicalize_project_root fs p =
     (if p = root_path then Inl (UnsafeRoot ''/'')
      else case fs_canonicalize fs p of
             Inl source \<Rightarrow> Inl (Canonicalize (fs_to_string_lossy fs p) source)
           | Inr canonical \<Rightarrow>
               if canonical = root_path then Inl (UnsafeRoot (fs_to_string_lossy fs canonical))
               else Inr canonical)"

definition hex_digit :: "nat \<Rightarrow> char" where
  "hex_digit n = (if n < 10 then char_of (48 + n) else char_of (87 + n))"

definition hex_byte :: "u8 \<Rightarrow> string" where
  "hex_byte b = [hex_digit (unat b div 16), hex_digit (unat b mod 16)]"

definition short_hash :: "(string \<Rightarrow> u8 list) \<Rightarrow> string \<Rightarrow> string" where
  "short_hash sha256 v = concat (map hex_byte (take 6 (sha256 v)))"

definition derive_project_id_with_existing ::
  "(string \<Rightarrow> u8 list) \<Rightarrow> fs_env \<Rightarrow> path \<Rightarrow> string set \<Rightarrow> project_id_error + string" where
  "derive_project_id_with_existing sha256 fs p existing_ids =
     (case canonicalize_project_root fs p of
        Inl e \<Rightarrow> Inl e
      | Inr canonical \<Rightarrow>
          (case fs_to_str fs canonical of
             None \<Rightarrow> Inl (NonUtf8Root (fs_to_string_lossy fs canonical))
           | Some canonical_utf8 \<Rightarrow>
               (case (case path_file_name canonical of
                        None \<Rightarrow> None | Some name \<Rightarrow> fs_to_str fs [Normal name]) of
                  None \<Rightarrow> Inl (MissingLeaf canonical_utf8)
                | Some leaf \<Rightarrow>
                    if leaf \<notin> existing_ids then Inr leaf
                    else Inr (leaf @ ''-'' @ short_hash sha256 canonical_utf8))))"

definition derive_project_id :: "(string \<Rightarrow> u8 list) \<Rightarrow> fs_env \<Rightarrow> path \<Rightarrow> project_id_error + string" where
  "derive_project_id sha256 fs p = derive_project_id_with_existing sha256 fs p {}"

section \<open>The start-up project root\<close>

datatype root_source = Configured | Fallback

datatype startup_root_status =
    Selected path root_source
  | MissingConfiguredRoot path path diagnostic
  | Disabled path diagnostic

definition resolve_startup_project_root :: "fs_env \<Rightarrow> path option \<Rightarrow> path \<Rightarrow> startup_root_status" where
  "resolve_startup_project_root fs configured_root fallback_root =
     (case configured_root of
        Some c \<Rightarrow>
          if fs_exists fs c then Selected c Configured
          else MissingConfiguredRoot c fallback_root
                 (diagnostic_of D_MissingRoot
                   (''Configured project root is missing: '' @ fs_to_string_lossy fs c @
                    ''. Server startup will continue without code intelligence auto-start.''))
      | None \<Rightarrow>
          if fs_exists fs fallback_root then Selected fallback_root Fallback
          else Disabled fallback_root
                 (diagnostic_of D_Disabled
                   (''Code intelligence auto-start is disabled because no configured project root was provided and the fallback root is unavailable: ''
                    @ fs_to_string_lossy fs fallback_root)))"

lemma resolve_selected:
  "resolve_startup_project_root fs c f = Selected p s \<Longrightarrow>
     fs_exists fs p \<and> (case s of Configured \<Rightarrow> c = Some p | Fallback \<Rightarrow> c = None \<and> p = f)"
  by (auto simp: resolve_startup_project_root_def split: option.splits if_splits)

section \<open>Properties of derived ids\<close>

lemma hex_byte_length [simp]: "length (hex_byte b) = 2"
  by (simp add: hex_byte_def)

lemma hex_digit_inj: "a < 16 \<Longrightarrow> b < 16 \<Longrightarrow> hex_digit a = hex_digit b \<longleftrightarrow> a = b"
  by (auto simp: hex_digit_def dest: arg_cong [where f = "of_char :: char \<Rightarrow> nat"] split: if_splits)

lemma hex_byte_inj: "hex_byte a = hex_byte b \<longleftrightarrow> a = b"
proof -
  have "unat x < 2 ^ LENGTH(8)" for x :: u8 by (rule unsigned_less)
  then have "unat x div 16 < 16" for x :: u8 by (simp add: less_mult_imp_div_less)
  then have "hex_byte a = hex_byte b \<longleftrightarrow> unat a div 16 = unat b div 16 \<and> unat a mod 16 = unat b mod 16"
    by (simp add: hex_byte_def hex_digit_inj)
  also have "\<dots> \<longleftrightarrow> unat a = unat b" by (metis div_mult_mod_eq)
  finally show ?thesis by (simp add: word_unat_eq_iff)
qed

lemma concat_hex_inj: "concat (map hex_byte xs) = concat (map hex_byte ys) \<longleftrightarrow> xs = ys"
proof (induction xs arbitrary: ys)
  case Nil
  then show ?case by (cases ys) (auto simp: hex_byte_def)
next
  case (Cons x xs)
  then show ?case by (cases ys) (auto simp: append_eq_append_conv hex_byte_inj, auto simp: hex_byte_def)
qed

lemma short_hash_inj: "short_hash h v = short_hash h w \<longleftrightarrow> take 6 (h v) = take 6 (h w)"
  by (simp add: short_hash_def concat_hex_inj)

lemma short_hash_length: "length (h v) = 32 \<Longrightarrow> length (short_hash h v) = 12"
  by (simp add: short_hash_def length_concat comp_def sum_list_triv)

text \<open>A project id is derived only from a root that canonicalises to something other than the
  file-system root; it is the leaf directory's name when that name is free, and otherwise the name
  with a suffix. Two roots with the same taken leaf name get the same id exactly when the first six
  bytes of the digests of their canonical paths agree.\<close>
theorem derived_project_id_spec:
  assumes "derive_project_id_with_existing sha256 fs p ids = Inr i"
  shows "\<exists>canonical utf8 leaf. fs_canonicalize fs p = Inr canonical \<and> canonical \<noteq> root_path \<and>
    fs_to_str fs canonical = Some utf8 \<and>
    i = (if leaf \<in> ids then leaf @ ''-'' @ short_hash sha256 utf8 else leaf) \<and>
    (\<forall>q j canonical' utf8'. leaf \<in> ids \<and> fs_canonicalize fs q = Inr canonical' \<and>
       fs_to_str fs canonical' = Some utf8' \<and> path_file_name canonical' = path_file_name canonical \<and>
       derive_project_id_with_existing sha256 fs q ids = Inr j
       \<longrightarrow> (i = j \<longleftrightarrow> take 6 (sha256 utf8) = take 6 (sha256 utf8')))"
proof -
  from assms obtain canonical utf8 name leaf where
    c: "canonicalize_project_root fs p = Inr canonical" "fs_to_str fs canonical = Some utf8"
       "path_file_name canonical = Some name" "fs_to_str fs [Normal name] = Some leaf"
    and i: "i = (if leaf \<in> ids then leaf @ ''-'' @ short_hash sha256 utf8 else leaf)"
    by (auto simp: derive_project_id_with_existing_def split: sum.splits option.splits if_splits)
  from c(1) have fs: "fs_canonicalize fs p = Inr canonical" "canonical \<noteq> root_path"
    by (auto simp: canonicalize_project_root_def split: if_splits sum.splits)
  have "i = j \<longleftrightarrow> take 6 (sha256 utf8) = take 6 (sha256 utf8')"
    if "leaf \<in> ids" "fs_canonicalize fs q = Inr canonical'" "fs_to_str fs canonical' = Some utf8'"
      "path_file_name canonical' = path_file_name canonical"
      "derive_project_id_with_existing sha256 fs q ids = Inr j" for q j canonical' utf8'
    using that c i by (auto simp: derive_project_id_with_existing_def canonicalize_project_root_def
        short_hash_inj split: if_splits)
  with fs c i show ?thesis by blast
qed

definition fs_example :: fs_env where
  "fs_example = \<lparr>fs_canonicalize = Inr, fs_exists = (\<lambda>_. True),
     fs_to_str = (\<lambda>p. case last p of Normal s \<Rightarrow> Some s | _ \<Rightarrow> Some ''/''),
     fs_to_string_lossy = (\<lambda>_. ''/'')\<rparr>"

theorem derived_project_id_spec_witness:
  "\<exists>leaf utf8. ''app-000000000000'' =
     (if leaf \<in> {''app''} then leaf @ ''-'' @ short_hash (\<lambda>_. replicate 32 0) utf8 else leaf)"
proof -
  have "derive_project_id_with_existing (\<lambda>_. replicate 32 0) fs_example
      [RootDir, Normal ''w'', Normal ''app''] {''app''} = Inr ''app-000000000000''"
    by code_simp
  from derived_project_id_spec [OF this] show ?thesis by blast
qed

end
