(* ===== verification/ProjectRegistry.thy ===== *)
theory ProjectRegistry
  imports ProjectPaths
begin

text \<open>
  \<open>src/codebase/project_registry.rs\<close>: the in-memory registry of projects. The write lock makes
  each operation atomic, so an operation is a function of the registry. \<open>Arc\<close> handles become
  the values they share (nothing writes a lifecycle after its creation).
\<close>

datatype lifecycle_state = LRegistered | LStarting | LReady | LDegraded | LStopped

record lifecycle_options =
  lo_registry_starts_workers :: bool
  lo_registry_starts_watchers :: bool

definition lifecycle_options_default :: lifecycle_options where
  "lifecycle_options_default = \<lparr>lo_registry_starts_workers = False, lo_registry_starts_watchers = False\<rparr>"

record project_handle =
  ph_project_id :: string

record lifecycle =
  lc_project_id :: string
  lc_canonical_root :: path
  lc_state :: lifecycle_state
  lc_diagnostic :: diagnostic
  lc_pending_count :: nat
  lc_manager_handle :: "project_handle option"
  lc_worker_handle :: "project_handle option"
  lc_worker_sender :: "project_handle option"
  lc_last_error :: "string option"
  lc_options :: lifecycle_options

record lifecycle_status =
  ls_project_id :: string
  ls_root_path :: path
  ls_state :: lifecycle_state
  ls_diagnostic :: diagnostic
  ls_pending_jobs :: nat
  ls_has_manager_handle :: bool
  ls_has_worker_handle :: bool
  ls_has_worker_sender :: bool
  ls_last_error :: "string option"
  ls_options :: lifecycle_options

definition lifecycle_status :: "lifecycle \<Rightarrow> lifecycle_status" where
  "lifecycle_status l =
     \<lparr>ls_project_id = lc_project_id l, ls_root_path = lc_canonical_root l, ls_state = lc_state l,
      ls_diagnostic = lc_diagnostic l, ls_pending_jobs = lc_pending_count l,
      ls_has_manager_handle = (lc_manager_handle l \<noteq> None),
      ls_has_worker_handle = (lc_worker_handle l \<noteq> None),
      ls_has_worker_sender = (lc_worker_sender l \<noteq> None),
      ls_last_error = lc_last_error l, ls_options = lc_options l\<rparr>"

record registry_policy =
  rp_allowed_roots :: "path list option"
  rp_max_projects :: nat

definition registry_policy_default :: registry_policy where
  "registry_policy_default = \<lparr>rp_allowed_roots = None, rp_max_projects = 5\<rparr>"

datatype registry_error =
    RootConflict string string string
  | InvalidRoot project_id_error
  | PathNotAllowed string string "string list"
  | MaxProjectLimit string nat nat

record root_conflict =
  cf_project_id :: string
  cf_existing_root :: string
  cf_requested_root :: string

fun error_root_conflict :: "registry_error \<Rightarrow> root_conflict option" where
  "error_root_conflict (RootConflict p e r) =
     Some \<lparr>cf_project_id = p, cf_existing_root = e, cf_requested_root = r\<rparr>"
| "error_root_conflict (InvalidRoot _) = None"
| "error_root_conflict (PathNotAllowed _ _ _) = None"
| "error_root_conflict (MaxProjectLimit _ _ _) = None"

fun registry_reason_code :: "registry_error \<Rightarrow> string" where
  "registry_reason_code (InvalidRoot _) = ''invalid_root''"
| "registry_reason_code (RootConflict _ _ _) = ''root_conflict''"
| "registry_reason_code (PathNotAllowed _ _ _) = ''path_not_allowed''"
| "registry_reason_code (MaxProjectLimit _ _ _) = ''max_project_limit''"

record registry =
  rg_policy :: registry_policy
  rg_lifecycles :: "(string, lifecycle) hmap"

definition registry_with_policy :: "registry_policy \<Rightarrow> registry" where
  "registry_with_policy p = \<lparr>rg_policy = p, rg_lifecycles = []\<rparr>"

definition registry_new :: registry where
  "registry_new = \<lparr>rg_policy = registry_policy_default, rg_lifecycles = []\<rparr>"

definition canonicalize_registry_root :: "fs_env \<Rightarrow> path \<Rightarrow> project_id_error + path" where
  "canonicalize_registry_root fs p =
     (if p = root_path then Inl (UnsafeRoot ''/'')
      else case fs_canonicalize fs p of
             Inl source \<Rightarrow> Inl (Canonicalize (fs_to_string_lossy fs p) source)
           | Inr canonical \<Rightarrow>
               if canonical = root_path then Inl (UnsafeRoot (fs_to_string_lossy fs canonical))
               else Inr canonical)"

definition registered_lifecycle :: "string \<Rightarrow> path \<Rightarrow> lifecycle" where
  "registered_lifecycle project_id canonical_root =
     \<lparr>lc_project_id = project_id, lc_canonical_root = canonical_root, lc_state = LRegistered,
      lc_diagnostic = diagnostic_of D_Selected
        ''project registered; manager and worker not started by registry skeleton'',
      lc_pending_count = 0, lc_manager_handle = None, lc_worker_handle = None,
      lc_worker_sender = None, lc_last_error = None, lc_options = lifecycle_options_default\<rparr>"

definition ensure_project ::
  "fs_env \<Rightarrow> string \<Rightarrow> path \<Rightarrow> registry \<Rightarrow> (registry_error + lifecycle) \<times> registry" where
  "ensure_project fs project_id rt rg =
     (case canonicalize_registry_root fs rt of
        Inl e \<Rightarrow> (Inl (InvalidRoot e), rg)
      | Inr canonical_root \<Rightarrow>
          (case (case rp_allowed_roots (rg_policy rg) of
                   None \<Rightarrow> None
                 | Some allowed_roots \<Rightarrow>
                     if list_ex (path_starts_with canonical_root) allowed_roots then None
                     else Some (PathNotAllowed project_id (fs_to_string_lossy fs canonical_root)
                                  (map (fs_to_string_lossy fs) allowed_roots))) of
             Some e \<Rightarrow> (Inl e, rg)
           | None \<Rightarrow>
               (case hm_get (rg_lifecycles rg) project_id of
                  Some existing \<Rightarrow>
                    if lc_canonical_root existing = canonical_root then (Inr existing, rg)
                    else (Inl (RootConflict project_id
                                 (fs_to_string_lossy fs (lc_canonical_root existing))
                                 (fs_to_string_lossy fs canonical_root)), rg)
                | None \<Rightarrow>
                    (let current_projects = length (rg_lifecycles rg)
                     in if current_projects \<ge> rp_max_projects (rg_policy rg)
                        then (Inl (MaxProjectLimit project_id (rp_max_projects (rg_policy rg))
                                     current_projects), rg)
                        else (let lifecycle = registered_lifecycle project_id canonical_root
                              in (Inr lifecycle,
                                  rg\<lparr>rg_lifecycles :=
                                       hm_insert project_id lifecycle (rg_lifecycles rg)\<rparr>))))))"

definition registry_get :: "registry \<Rightarrow> string \<Rightarrow> lifecycle option" where
  "registry_get rg p = hm_get (rg_lifecycles rg) p"

definition mark_status_degraded_if_root_missing :: "fs_env \<Rightarrow> lifecycle_status \<Rightarrow> lifecycle_status" where
  "mark_status_degraded_if_root_missing fs s =
     (if fs_exists fs (ls_root_path s) then s
      else s\<lparr>ls_state := LDegraded,
             ls_diagnostic := diagnostic_of D_Degraded
               (''registered root is missing on disk: '' @ fs_to_string_lossy fs (ls_root_path s)),
             ls_last_error :=
               Some (''registered_root_missing:'' @ fs_to_string_lossy fs (ls_root_path s))\<rparr>)"

definition registry_status :: "fs_env \<Rightarrow> registry \<Rightarrow> string \<Rightarrow> lifecycle_status option" where
  "registry_status fs rg p =
     map_option (mark_status_degraded_if_root_missing fs \<circ> lifecycle_status)
       (hm_get (rg_lifecycles rg) p)"

definition registry_statuses :: "fs_env \<Rightarrow> registry \<Rightarrow> lifecycle_status list" where
  "registry_statuses fs rg =
     sort_by (\<lambda>l r. ls_project_id l \<le> ls_project_id r)
       (map (mark_status_degraded_if_root_missing fs \<circ> lifecycle_status \<circ> snd) (rg_lifecycles rg))"

definition registry_len :: "registry \<Rightarrow> nat" where
  "registry_len rg = length (rg_lifecycles rg)"

definition registry_remove :: "string \<Rightarrow> registry \<Rightarrow> bool \<times> registry" where
  "registry_remove p rg =
     (hm_get (rg_lifecycles rg) p \<noteq> None,
      rg\<lparr>rg_lifecycles := hm_remove p (rg_lifecycles rg)\<rparr>)"

definition registry_is_empty :: "registry \<Rightarrow> bool" where
  "registry_is_empty rg \<longleftrightarrow> registry_len rg = 0"

section \<open>The registry invariant\<close>

definition root_allowed :: "registry_policy \<Rightarrow> path \<Rightarrow> bool" where
  "root_allowed pol r \<longleftrightarrow> r \<noteq> root_path \<and>
     (case rp_allowed_roots pol of None \<Rightarrow> True | Some as \<Rightarrow> \<exists>a\<in>set as. path_starts_with r a)"

definition registry_inv :: "registry \<Rightarrow> bool" where
  "registry_inv rg \<longleftrightarrow> hm_ok (rg_lifecycles rg) \<and>
     length (rg_lifecycles rg) \<le> rp_max_projects (rg_policy rg) \<and>
     (\<forall>(p, l)\<in>set (rg_lifecycles rg). lc_project_id l = p \<and>
        root_allowed (rg_policy rg) (lc_canonical_root l))"

datatype registry_event = Ensure fs_env string path | Remove string

fun registry_step :: "registry \<Rightarrow> registry_event \<Rightarrow> registry" where
  "registry_step rg (Ensure fs p rt) = snd (ensure_project fs p rt rg)"
| "registry_step rg (Remove p) = snd (registry_remove p rg)"

text \<open>The outcomes of \<open>ensure_project\<close>: either nothing changes, or a new entry is added.\<close>

lemma ensure_project_cases:
  obtains (unchanged) "snd (ensure_project fs p rt rg) = rg"
      "\<And>l. fst (ensure_project fs p rt rg) = Inr l \<Longrightarrow>
         hm_get (rg_lifecycles rg) p = Some l \<and>
         canonicalize_registry_root fs rt = Inr (lc_canonical_root l)"
  | (added) r where "canonicalize_registry_root fs rt = Inr r" "root_allowed (rg_policy rg) r"
      "hm_get (rg_lifecycles rg) p = None" "length (rg_lifecycles rg) < rp_max_projects (rg_policy rg)"
      "ensure_project fs p rt rg = (Inr (registered_lifecycle p r),
         rg\<lparr>rg_lifecycles := hm_insert p (registered_lifecycle p r) (rg_lifecycles rg)\<rparr>)"
proof (cases "snd (ensure_project fs p rt rg) = rg \<and> (\<forall>l. fst (ensure_project fs p rt rg) = Inr l \<longrightarrow>
         hm_get (rg_lifecycles rg) p = Some l \<and>
         canonicalize_registry_root fs rt = Inr (lc_canonical_root l))")
  case True
  then show ?thesis using unchanged by blast
next
  case False
  then obtain r where r: "canonicalize_registry_root fs rt = Inr r"
    by (cases "canonicalize_registry_root fs rt") (auto simp: ensure_project_def)
  from r have "r \<noteq> root_path"
    by (auto simp: canonicalize_registry_root_def split: if_splits sum.splits)
  moreover from False r have "case rp_allowed_roots (rg_policy rg) of None \<Rightarrow> True
      | Some as \<Rightarrow> \<exists>a\<in>set as. path_starts_with r a"
    by (auto simp: ensure_project_def list_ex_iff split: option.splits if_splits)
  ultimately have ok: "root_allowed (rg_policy rg) r" by (simp add: root_allowed_def)
  then have guard: "(case rp_allowed_roots (rg_policy rg) of None \<Rightarrow> None
      | Some as \<Rightarrow> if list_ex (path_starts_with r) as then None else e as) = None" for e :: "path list \<Rightarrow> registry_error option"
    by (auto simp: root_allowed_def list_ex_iff split: option.splits)
  have "hm_get (rg_lifecycles rg) p = None \<and> length (rg_lifecycles rg) < rp_max_projects (rg_policy rg)"
    using False by (auto simp: ensure_project_def r guard Let_def split: option.splits if_splits)
  with r ok show ?thesis
    by (intro added [OF r ok]) (simp_all add: ensure_project_def guard Let_def)
qed

lemma registry_inv_ensure [inv_intros]:
  assumes "registry_inv rg"
  shows "registry_inv (snd (ensure_project fs p rt rg))"
proof (cases rule: ensure_project_cases [of fs p rt rg])
  case unchanged
  with assms show ?thesis by simp
next
  case (added r)
  with assms show ?thesis
    by (auto simp: registry_inv_def set_hm_insert hm_len_insert registered_lifecycle_def hm_get_None)
qed

lemma registry_inv_remove [inv_intros]: "registry_inv rg \<Longrightarrow> registry_inv (snd (registry_remove p rg))"
  using hm_len_remove_le [of p "rg_lifecycles rg"]
  by (auto simp: registry_inv_def registry_remove_def hm_mem_remove)

interpretation registry: step_system registry_step registry_inv
proof
  fix s e
  assume "registry_inv s"
  then show "registry_inv (registry_step s e)" by (cases e) (auto intro: inv_intros)
qed

lemma registry_inv_new: "registry_inv (registry_with_policy pol)" "registry_inv registry_new"
  by (simp_all add: registry_inv_def registry_with_policy_def registry_new_def)

lemma registry_policy_step [simp]: "rg_policy (registry_step rg e) = rg_policy rg"
proof (cases e)
  case (Ensure fs p rt)
  then show ?thesis by (cases rule: ensure_project_cases [of fs p rt rg]) auto
qed (simp add: registry_remove_def)

lemma registry_policy_run [simp]: "rg_policy (foldl registry_step rg es) = rg_policy rg"
  by (induction es arbitrary: rg) auto

text \<open>C2: Whatever sequence of registrations and removals a registry goes through, it never holds
  more projects than its policy allows, holds each project id once under its own id, and every
  registered root is inside the allow-list of the policy and is never the file-system root.\<close>
theorem registry_respects_policy:
  "let rg = foldl registry_step (registry_with_policy pol) es in
     registry_len rg \<le> rp_max_projects pol \<and> hm_ok (rg_lifecycles rg) \<and>
     (\<forall>p. case registry_get rg p of None \<Rightarrow> True
        | Some l \<Rightarrow> lc_project_id l = p \<and> root_allowed pol (lc_canonical_root l))"
proof -
  let ?rg = "foldl registry_step (registry_with_policy pol) es"
  have inv: "registry_inv ?rg" by (rule registry.run_invar) (rule registry_inv_new)
  moreover have "rg_policy ?rg = pol" by (simp add: registry_with_policy_def)
  ultimately show ?thesis
    by (auto simp: registry_inv_def registry_len_def registry_get_def Let_def
        split: option.splits dest: map_of_SomeD)
qed

text \<open>Registering is idempotent: after a successful \<open>ensure_project\<close> the same call succeeds with
  the same lifecycle and leaves the registry alone, the project is found under its id with the
  canonical root asked for, and a call for the same id with another allowed root is refused with a
  conflict that names both roots and changes nothing.\<close>
theorem ensure_project_idempotent:
  assumes "fst (ensure_project fs p rt rg) = Inr l"
  defines "rg' \<equiv> snd (ensure_project fs p rt rg)"
  shows "ensure_project fs p rt rg' = (Inr l, rg') \<and> registry_get rg' p = Some l \<and>
    canonicalize_registry_root fs rt = Inr (lc_canonical_root l) \<and>
    (\<forall>rt' r'. canonicalize_registry_root fs rt' = Inr r' \<and> root_allowed (rg_policy rg) r' \<and>
       r' \<noteq> lc_canonical_root l \<longrightarrow>
       ensure_project fs p rt' rg' =
         (Inl (RootConflict p (fs_to_string_lossy fs (lc_canonical_root l)) (fs_to_string_lossy fs r')), rg'))"
proof -
  have found: "hm_get (rg_lifecycles rg') p = Some l \<and>
      canonicalize_registry_root fs rt = Inr (lc_canonical_root l) \<and> rg_policy rg' = rg_policy rg"
    using assms(1) unfolding rg'_def
    by (cases rule: ensure_project_cases [of fs p rt rg]) (auto simp: registered_lifecycle_def)
  moreover have "\<not> (case rp_allowed_roots (rg_policy rg) of None \<Rightarrow> False
      | Some as \<Rightarrow> \<not> list_ex (path_starts_with (lc_canonical_root l)) as)"
    using assms(1) found by (auto simp: ensure_project_def split: option.splits if_splits)
  ultimately show ?thesis
    by (auto simp: ensure_project_def registry_get_def root_allowed_def list_ex_iff split: option.splits)
qed

theorem ensure_project_idempotent_witness:
  "registry_get (snd (ensure_project fs_example ''app'' [RootDir, Normal ''app''] registry_new)) ''app'' =
     Some (registered_lifecycle ''app'' [RootDir, Normal ''app''])"
proof -
  have "fst (ensure_project fs_example ''app'' [RootDir, Normal ''app''] registry_new) =
      Inr (registered_lifecycle ''app'' [RootDir, Normal ''app''])"
    by (simp add: ensure_project_def canonicalize_registry_root_def fs_example_def registry_new_def
        registry_policy_default_def Let_def)
  from ensure_project_idempotent [OF this] show ?thesis by blast
qed

lemma ensure_project_rejects:
  "fst (ensure_project fs p rt rg) = Inl e \<Longrightarrow> snd (ensure_project fs p rt rg) = rg"
  by (cases rule: ensure_project_cases [of fs p rt rg]) auto

lemma status_frame [simp]:
  "ls_root_path (mark_status_degraded_if_root_missing fs s) = ls_root_path s"
  "ls_project_id (mark_status_degraded_if_root_missing fs s) = ls_project_id s"
  "ls_root_path (lifecycle_status l) = lc_canonical_root l"
  "ls_project_id (lifecycle_status l) = lc_project_id l"
  by (simp_all add: mark_status_degraded_if_root_missing_def lifecycle_status_def)

text \<open>The status listing has one entry per registered project, in ascending order of project
  id, and an entry is reported degraded exactly when its root is missing on disk (a registered
  lifecycle is never stored as degraded).\<close>
theorem registry_statuses_sorted:
  "sorted (map ls_project_id (registry_statuses fs rg)) \<and>
   mset (map ls_root_path (registry_statuses fs rg)) = mset (map (lc_canonical_root \<circ> snd) (rg_lifecycles rg)) \<and>
   (\<forall>p l. hm_get (rg_lifecycles rg) p = Some l \<and> lc_state l = LRegistered \<longrightarrow>
      (case registry_status fs rg p of None \<Rightarrow> False
       | Some s \<Rightarrow> (ls_state s = LDegraded) = (\<not> fs_exists fs (lc_canonical_root l)) \<and>
           (ls_state s = LDegraded \<longrightarrow> d_reason_code (ls_diagnostic s) = D_Degraded)))"
proof -
  have "sorted (map ls_project_id (registry_statuses fs rg))"
    unfolding registry_statuses_def sorted_map by (rule key_comparison.sorted_sort_by)
  moreover have "mset (map ls_root_path (registry_statuses fs rg)) =
      mset (map (lc_canonical_root \<circ> snd) (rg_lifecycles rg))"
    unfolding registry_statuses_def mset_map mset_sort_by
    by (simp add: comp_def multiset.map_comp)
  ultimately show ?thesis
    by (auto simp: registry_status_def mark_status_degraded_if_root_missing_def lifecycle_status_def
        diagnostic_of_def)
qed

theorem registry_statuses_sorted_witness:
  "sorted (map ls_project_id (registry_statuses fs_example registry_new))"
  using registry_statuses_sorted [of fs_example registry_new] by blast

end
