(* ===== verification/GraphTypes.thy ===== *)
theory GraphTypes
  imports AppTypes
begin

text \<open>
  \<open>src/types/entity.rs\<close>, \<open>src/types/symbol.rs\<close> and \<open>src/types/safe_thing.rs\<close>: the nodes and
  edges of the knowledge graph and of the code symbol graph. The 64-bit \<open>DefaultHasher\<close> of the
  standard library is the argument \<open>h\<close> (the hash of the four fields in their order).
\<close>

datatype relation_class = RC_Observed | RC_Inferred
datatype relation_provenance =
    ParserExtracted | ContainmentDerived | DeterministicSymbolLink | HeuristicResolver
  | EmbeddingInferred | ImportedManual
datatype confidence_class = CC_Extracted | CC_Inferred | CC_Ambiguous
datatype staleness_state = SS_Current | SS_Stale
datatype direction = Outgoing | Incoming | Both

fun relation_class_display :: "relation_class \<Rightarrow> string" where
  "relation_class_display RC_Observed = ''observed''"
| "relation_class_display RC_Inferred = ''inferred''"

fun relation_provenance_display :: "relation_provenance \<Rightarrow> string" where
  "relation_provenance_display ParserExtracted = ''parser_extracted''"
| "relation_provenance_display ContainmentDerived = ''containment_derived''"
| "relation_provenance_display DeterministicSymbolLink = ''deterministic_symbol_link''"
| "relation_provenance_display HeuristicResolver = ''heuristic_resolver''"
| "relation_provenance_display EmbeddingInferred = ''embedding_inferred''"
| "relation_provenance_display ImportedManual = ''imported_manual''"

fun confidence_class_display :: "confidence_class \<Rightarrow> string" where
  "confidence_class_display CC_Extracted = ''extracted''"
| "confidence_class_display CC_Inferred = ''inferred''"
| "confidence_class_display CC_Ambiguous = ''ambiguous''"

fun staleness_state_display :: "staleness_state \<Rightarrow> string" where
  "staleness_state_display SS_Current = ''current''"
| "staleness_state_display SS_Stale = ''stale''"

record entity =
  e_id :: "record_id option"
  e_name :: string
  e_entity_type :: string
  e_description :: "string option"
  e_embedding :: "real list option"
  e_content_hash :: "string option"
  e_user_id :: "string option"
  e_created_at :: datetime

record relation =
  r_id :: "record_id option"
  r_from_entity :: record_id
  r_to_entity :: record_id
  r_relation_type :: string
  r_relation_class :: relation_class
  r_provenance :: relation_provenance
  r_confidence_class :: confidence_class
  r_freshness_generation :: u64
  r_staleness_state :: staleness_state
  r_weight :: real
  r_valid_from :: datetime
  r_valid_until :: "datetime option"

definition entity_new :: "datetime \<Rightarrow> string \<Rightarrow> entity" where
  "entity_new now name =
     \<lparr>e_id = None, e_name = name, e_entity_type = ''unknown'', e_description = None,
      e_embedding = None, e_content_hash = None, e_user_id = None, e_created_at = now\<rparr>"

definition entity_with_type :: "string \<Rightarrow> entity \<Rightarrow> entity" where
  "entity_with_type t e = e\<lparr>e_entity_type := t\<rparr>"

definition entity_with_description :: "string \<Rightarrow> entity \<Rightarrow> entity" where
  "entity_with_description d e = e\<lparr>e_description := Some d\<rparr>"

datatype symbol_type =
    SymFunction | SymMethod | SymClass | SymStruct | SymEnum | SymInterface | SymModule
  | SymTrait | SymImport

fun symbol_type_display :: "symbol_type \<Rightarrow> string" where
  "symbol_type_display SymFunction = ''function''"
| "symbol_type_display SymMethod = ''method''"
| "symbol_type_display SymClass = ''class''"
| "symbol_type_display SymStruct = ''struct''"
| "symbol_type_display SymEnum = ''enum''"
| "symbol_type_display SymInterface = ''interface''"
| "symbol_type_display SymModule = ''module''"
| "symbol_type_display SymTrait = ''trait''"
| "symbol_type_display SymImport = ''import''"

datatype code_relation_type = Calls | Imports | Contains | Implements | Extends

fun code_relation_type_display :: "code_relation_type \<Rightarrow> string" where
  "code_relation_type_display Calls = ''calls''"
| "code_relation_type_display Imports = ''imports''"
| "code_relation_type_display Contains = ''contains''"
| "code_relation_type_display Implements = ''implements''"
| "code_relation_type_display Extends = ''extends''"

record code_symbol =
  s_id :: "record_id option"
  s_name :: string
  s_symbol_type :: symbol_type
  s_file_path :: string
  s_start_line :: u32
  s_end_line :: u32
  s_project_id :: string
  s_signature :: "string option"
  s_embedding :: "real list option"
  s_generation :: "u64 option"
  s_indexed_at :: datetime

definition code_symbol_new ::
  "datetime \<Rightarrow> string \<Rightarrow> symbol_type \<Rightarrow> string \<Rightarrow> u32 \<Rightarrow> u32 \<Rightarrow> string \<Rightarrow> code_symbol" where
  "code_symbol_new now name ty file_path start_line end_line project_id =
     \<lparr>s_id = None, s_name = name, s_symbol_type = ty, s_file_path = file_path,
      s_start_line = start_line, s_end_line = end_line, s_project_id = project_id,
      s_signature = None, s_embedding = None, s_generation = None, s_indexed_at = now\<rparr>"

record symbol_ref =
  sr_name :: string
  sr_file_path :: string
  sr_line :: u32

definition symbol_ref_from_symbol :: "code_symbol \<Rightarrow> symbol_ref" where
  "symbol_ref_from_symbol s =
     \<lparr>sr_name = s_name s, sr_file_path = s_file_path s, sr_line = s_start_line s\<rparr>"

record symbol_relation =
  sl_id :: "record_id option"
  sl_from_symbol :: record_id
  sl_to_symbol :: record_id
  sl_relation_type :: code_relation_type
  sl_relation_class :: relation_class
  sl_provenance :: relation_provenance
  sl_confidence_class :: confidence_class
  sl_freshness_generation :: u64
  sl_staleness_state :: staleness_state
  sl_file_path :: string
  sl_line_number :: u32
  sl_project_id :: string
  sl_created_at :: datetime

record code_reference =
  cf_name :: string
  cf_from_symbol :: string
  cf_from_symbol_line :: u32
  cf_to_symbol :: string
  cf_relation_type :: code_relation_type
  cf_relation_class :: relation_class
  cf_provenance :: relation_provenance
  cf_confidence_class :: confidence_class
  cf_freshness_generation :: u64
  cf_staleness_state :: staleness_state
  cf_file_path :: string
  cf_line :: u32
  cf_column :: u32

record code_reference_builder =
  cb_name :: "string option"
  cb_from_symbol :: "string option"
  cb_from_symbol_line :: "u32 option"
  cb_to_symbol :: "string option"
  cb_relation_type :: "code_relation_type option"
  cb_relation_class :: "relation_class option"
  cb_provenance :: "relation_provenance option"
  cb_confidence_class :: "confidence_class option"
  cb_freshness_generation :: "u64 option"
  cb_staleness_state :: "staleness_state option"
  cb_file_path :: "string option"
  cb_line :: "u32 option"
  cb_column :: "u32 option"

definition unwrap_or :: "'a option \<Rightarrow> 'a \<Rightarrow> 'a" where
  "unwrap_or x d = (case x of Some v \<Rightarrow> v | None \<Rightarrow> d)"

text \<open>\<open>build\<close> panics when a required field is missing (\<open>None\<close>), in the order of the fields.\<close>

definition code_reference_build :: "code_reference_builder \<Rightarrow> code_reference option" where
  "code_reference_build b =
     (case (cb_name b, cb_from_symbol b, cb_from_symbol_line b, cb_to_symbol b, cb_relation_type b) of
        (Some name, Some from, Some from_line, Some to, Some ty) \<Rightarrow>
          (case (cb_file_path b, cb_line b, cb_column b) of
             (Some file, Some line, Some column) \<Rightarrow> Some
               \<lparr>cf_name = name, cf_from_symbol = from, cf_from_symbol_line = from_line,
                cf_to_symbol = to, cf_relation_type = ty,
                cf_relation_class = unwrap_or (cb_relation_class b) RC_Observed,
                cf_provenance = unwrap_or (cb_provenance b) ParserExtracted,
                cf_confidence_class = unwrap_or (cb_confidence_class b) CC_Extracted,
                cf_freshness_generation = unwrap_or (cb_freshness_generation b) 0,
                cf_staleness_state = unwrap_or (cb_staleness_state b) SS_Current,
                cf_file_path = file, cf_line = line, cf_column = column\<rparr>
           | _ \<Rightarrow> None)
      | _ \<Rightarrow> None)"

section \<open>Deterministic record ids of symbols\<close>

definition hex16_digit :: "nat \<Rightarrow> char" where
  "hex16_digit n = (if n < 10 then char_of (48 + n) else char_of (87 + n))"

fun hex_pad :: "nat \<Rightarrow> nat \<Rightarrow> string" where
  "hex_pad 0 n = []"
| "hex_pad (Suc k) n = hex_pad k (n div 16) @ [hex16_digit (n mod 16)]"

definition symbol_hash :: "(string \<times> string \<times> string \<times> u32 \<Rightarrow> u64) \<Rightarrow> string \<Rightarrow> string \<Rightarrow> string \<Rightarrow> u32 \<Rightarrow> string" where
  "symbol_hash h project_id file_path name line =
     hex_pad 16 (unat (h (project_id, file_path, name, line)))"

definition symbol_thing :: "(string \<times> string \<times> string \<times> u32 \<Rightarrow> u64) \<Rightarrow> string \<Rightarrow> string \<Rightarrow> string \<Rightarrow> u32 \<Rightarrow> record_id" where
  "symbol_thing h project_id file_path name line =
     \<lparr>rid_table = ''code_symbols'', rid_key = symbol_hash h project_id file_path name line\<rparr>"

definition symbol_unique_key :: "(string \<times> string \<times> string \<times> u32 \<Rightarrow> u64) \<Rightarrow> code_symbol \<Rightarrow> string" where
  "symbol_unique_key h s =
     hex_pad 16 (unat (h (s_project_id s, s_file_path s, s_name s, s_start_line s)))"

definition symbol_ref_to_thing :: "(string \<times> string \<times> string \<times> u32 \<Rightarrow> u64) \<Rightarrow> string \<Rightarrow> symbol_ref \<Rightarrow> record_id" where
  "symbol_ref_to_thing h project_id r =
     symbol_thing h project_id (sr_file_path r) (sr_name r) (sr_line r)"

lemma hex16_digit_inj: "a < 16 \<Longrightarrow> b < 16 \<Longrightarrow> hex16_digit a = hex16_digit b \<longleftrightarrow> a = b"
  by (auto simp: hex16_digit_def dest: arg_cong [where f = "of_char :: char \<Rightarrow> nat"] split: if_splits)

lemma hex_pad_length [simp]: "length (hex_pad k n) = k"
  by (induction k arbitrary: n) auto

lemma hex_pad_inj: "a < 16 ^ k \<Longrightarrow> b < 16 ^ k \<Longrightarrow> hex_pad k a = hex_pad k b \<longleftrightarrow> a = b"
proof (induction k arbitrary: a b)
  case (Suc k)
  then have "a div 16 < 16 ^ k" "b div 16 < 16 ^ k" by (auto simp: less_mult_imp_div_less)
  with Suc.IH have "hex_pad (Suc k) a = hex_pad (Suc k) b \<longleftrightarrow> a div 16 = b div 16 \<and> a mod 16 = b mod 16"
    by (simp add: hex16_digit_inj)
  then show ?case by (metis div_mult_mod_eq)
qed simp

lemma hex_pad_ascii: "c \<in> set (hex_pad k n) \<Longrightarrow> is_ascii_alphanumeric c"
proof (induction k arbitrary: n)
  case (Suc k)
  have "is_ascii_alphanumeric (hex16_digit (n mod 16))"
    by (auto simp: hex16_digit_def ascii_defs)
  with Suc show ?case by auto
qed simp

lemma symbol_hash_inj: "symbol_hash h p f n l = symbol_hash h p' f' n' l' \<longleftrightarrow> h (p, f, n, l) = h (p', f', n', l')"
proof -
  have "unat (x :: u64) < 2 ^ LENGTH(64)" for x by (rule unsigned_less)
  then have "unat (x :: u64) < 16 ^ 16" for x by simp
  then show ?thesis by (simp add: symbol_hash_def hex_pad_inj word_unat_eq_iff)
qed

text \<open>The three ways the code names a symbol's database record agree: the record id a reference
  resolves to is the key the symbol itself computes, it is a fixed-width alphanumeric key whatever
  the symbol's name is, and two symbols share a key exactly when the hasher collides on them.\<close>
theorem symbol_record_ids_agree:
  "rid_key (symbol_ref_to_thing h (s_project_id s) (symbol_ref_from_symbol s)) = symbol_unique_key h s \<and>
   length (symbol_unique_key h s) = 16 \<and> list_all is_ascii_alphanumeric (symbol_unique_key h s) \<and>
   (symbol_unique_key h s = symbol_unique_key h s' \<longleftrightarrow>
      h (s_project_id s, s_file_path s, s_name s, s_start_line s) =
      h (s_project_id s', s_file_path s', s_name s', s_start_line s'))"
  using symbol_hash_inj [of h "s_project_id s" "s_file_path s" "s_name s" "s_start_line s"]
  by (auto simp: symbol_ref_to_thing_def symbol_thing_def symbol_ref_from_symbol_def symbol_unique_key_def
      symbol_hash_def list_all_iff dest: hex_pad_ascii)

end
