(* ===== verification/Traversal.thy ===== *)
theory Traversal
  imports GraphTypes
begin

text \<open>
  \<open>src/graph/traversal.rs\<close>: the bounded breadth-first traversals of the entity graph and of the
  code symbol graph. The two implementations share their loops; what differs is the key of a node
  and whether the nodes beyond the per-level cap are put back into the frontier (\<open>requeue\<close>). The
  storage is the argument \<open>store\<close>: its queries return an error or the neighbours and edges.
\<close>

datatype traversal_strategy = Direct | Bfs

record traversal_config =
  tc_max_depth :: nat
  tc_max_entities_per_level :: nat
  tc_max_total_entities :: nat

definition traversal_config_default :: traversal_config where
  "traversal_config_default =
     \<lparr>tc_max_depth = 5, tc_max_entities_per_level = 100, tc_max_total_entities = 1000\<rparr>"

record ('n, 'r) traversal_result =
  tr_nodes :: "'n list"
  tr_relations :: "'r list"
  tr_strategy_used :: traversal_strategy
  tr_depth_reached :: nat
  tr_truncated :: bool
  tr_deferred_count :: nat
  tr_frontier :: "string list"

record ('n, 'r) graph_store =
  gs_direct :: "string \<Rightarrow> direction \<Rightarrow> ('n list \<times> 'r list) app_result"
  gs_batch :: "string list \<Rightarrow> direction \<Rightarrow> ('n list \<times> 'r list) app_result"

definition entity_key :: "entity \<Rightarrow> string" where
  "entity_key e = (case e_id e of Some t \<Rightarrow> rid_key t | None \<Rightarrow> [])"

definition relation_key :: "relation \<Rightarrow> string" where
  "relation_key r = (case r_id r of Some t \<Rightarrow> rid_key t | None \<Rightarrow> [])"

definition symbol_relation_key :: "symbol_relation \<Rightarrow> string" where
  "symbol_relation_key r = (case sl_id r of Some t \<Rightarrow> rid_key t | None \<Rightarrow> [])"

definition symbol_key :: "code_symbol \<Rightarrow> string" where
  "symbol_key s = (case s_id s of Some t \<Rightarrow> rid_table t @ '':'' @ rid_key t | None \<Rightarrow> [])"

section \<open>The breadth-first loop\<close>

record ('n, 'r) bfs =
  bf_visited :: "string set"
  bf_visited_rel :: "string set"
  bf_nodes :: "'n list"
  bf_relations :: "'r list"
  bf_frontier :: "string list"
  bf_deferred :: nat
  bf_truncated :: bool

definition bfs_init :: "string \<Rightarrow> ('n, 'r) bfs" where
  "bfs_init start =
     \<lparr>bf_visited = {start}, bf_visited_rel = {}, bf_nodes = [], bf_relations = [],
      bf_frontier = [start], bf_deferred = 0, bf_truncated = False\<rparr>"

fun absorb_relations :: "('r \<Rightarrow> string) \<Rightarrow> 'r list \<Rightarrow> ('n, 'r) bfs \<Rightarrow> ('n, 'r) bfs" where
  "absorb_relations rkey [] s = s"
| "absorb_relations rkey (r # rs) s =
     absorb_relations rkey rs
       (if rkey r \<in> bf_visited_rel s then s
        else s\<lparr>bf_visited_rel := insert (rkey r) (bf_visited_rel s),
               bf_relations := bf_relations s @ [r]\<rparr>)"

fun absorb_nodes :: "('n \<Rightarrow> string) \<Rightarrow> nat \<Rightarrow> 'n list \<Rightarrow> ('n, 'r) bfs \<Rightarrow> bool \<times> ('n, 'r) bfs" where
  "absorb_nodes key cap [] s = (False, s)"
| "absorb_nodes key cap (n # ns) s =
     (if key n \<in> bf_visited s then absorb_nodes key cap ns s
      else
        (let s1 = s\<lparr>bf_visited := insert (key n) (bf_visited s), bf_nodes := bf_nodes s @ [n],
                    bf_frontier := bf_frontier s @ [key n]\<rparr>
         in if length (bf_nodes s1) \<ge> cap
            then (True, s1\<lparr>bf_truncated := True,
                           bf_deferred := bf_deferred s1 + length (bf_frontier s1)\<rparr>)
            else absorb_nodes key cap ns s1))"

definition take_batch :: "bool \<Rightarrow> nat \<Rightarrow> ('n, 'r) bfs \<Rightarrow> string list \<times> ('n, 'r) bfs" where
  "take_batch requeue per_level s =
     (let frontier_vec = bf_frontier s;
          batch_size = min (length frontier_vec) per_level;
          s1 = s\<lparr>bf_frontier := []\<rparr>;
          s2 = (if length frontier_vec > batch_size
                then s1\<lparr>bf_deferred := bf_deferred s1 + (length frontier_vec - batch_size),
                        bf_truncated := True,
                        bf_frontier := if requeue then drop batch_size frontier_vec else []\<rparr>
                else s1)
      in (take batch_size frontier_vec, s2))"

fun bfs_levels ::
  "bool \<Rightarrow> ('n \<Rightarrow> string) \<Rightarrow> ('r \<Rightarrow> string) \<Rightarrow> traversal_config \<Rightarrow>
   (string list \<Rightarrow> ('n list \<times> 'r list) app_result) \<Rightarrow> nat \<Rightarrow> nat \<Rightarrow> ('n, 'r) bfs \<Rightarrow>
   (nat \<times> ('n, 'r) bfs) app_result" where
  "bfs_levels requeue key rkey cfg batch 0 d s = Inr (d, s)"
| "bfs_levels requeue key rkey cfg batch (Suc n) d s =
     (if bf_frontier s = [] then Inr (d, s)
      else
        (let (ids, s1) = take_batch requeue (tc_max_entities_per_level cfg) s
         in case batch ids of
              Inl e \<Rightarrow> Inl e
            | Inr (nodes, relations) \<Rightarrow>
                (let (stop, s2) = absorb_nodes key (tc_max_total_entities cfg) nodes
                                    (absorb_relations rkey relations s1)
                 in if stop then Inr (Suc d, s2)
                    else bfs_levels requeue key rkey cfg batch n (Suc d) s2)))"

definition bfs_result :: "bool \<Rightarrow> nat \<times> ('n, 'r) bfs \<Rightarrow> ('n, 'r) traversal_result" where
  "bfs_result with_frontier ds =
     (case ds of (d, s) \<Rightarrow>
       \<lparr>tr_nodes = bf_nodes s, tr_relations = bf_relations s, tr_strategy_used = Bfs,
        tr_depth_reached = d, tr_truncated = bf_truncated s, tr_deferred_count = bf_deferred s,
        tr_frontier = if with_frontier then bf_frontier s else []\<rparr>)"

definition entity_traverse_bfs ::
  "traversal_config \<Rightarrow> (entity, relation) graph_store \<Rightarrow> string \<Rightarrow> nat \<Rightarrow> direction \<Rightarrow>
   (entity, relation) traversal_result app_result" where
  "entity_traverse_bfs cfg store entity_id depth dir =
     map_sum id (bfs_result False)
       (bfs_levels False entity_key relation_key cfg (\<lambda>ids. gs_batch store ids dir) depth 0
          (bfs_init entity_id))"

definition symbol_traverse_bfs ::
  "traversal_config \<Rightarrow> (code_symbol, symbol_relation) graph_store \<Rightarrow> string \<Rightarrow> nat \<Rightarrow> direction \<Rightarrow>
   (code_symbol, symbol_relation) traversal_result app_result" where
  "symbol_traverse_bfs cfg store symbol_id depth dir =
     map_sum id (bfs_result True)
       (bfs_levels True symbol_key symbol_relation_key cfg (\<lambda>ids. gs_batch store ids dir) depth 0
          (bfs_init symbol_id))"

text \<open>\<open>usize::clamp\<close> panics when the bounds are crossed, that is for a configured depth of 0: the
  outer \<open>None\<close>.\<close>

definition clamp_depth :: "nat \<Rightarrow> nat \<Rightarrow> nat option" where
  "clamp_depth depth max_depth = (if 1 \<le> max_depth then Some (max 1 (min depth max_depth)) else None)"

definition entity_traverse ::
  "traversal_config \<Rightarrow> (entity, relation) graph_store \<Rightarrow> string \<Rightarrow> nat \<Rightarrow> direction \<Rightarrow>
   (entity, relation) traversal_result app_result option" where
  "entity_traverse cfg store entity_id depth dir =
     (case clamp_depth depth (tc_max_depth cfg) of
        None \<Rightarrow> None
      | Some depth \<Rightarrow> Some
          (if depth = 1 then
             map_sum id (\<lambda>(nodes, relations).
                 \<lparr>tr_nodes = nodes, tr_relations = relations, tr_strategy_used = Direct,
                  tr_depth_reached = 1, tr_truncated = False, tr_deferred_count = 0,
                  tr_frontier = []\<rparr>)
               (gs_direct store entity_id dir)
           else entity_traverse_bfs cfg store entity_id depth dir))"

definition symbol_traverse ::
  "traversal_config \<Rightarrow> (code_symbol, symbol_relation) graph_store \<Rightarrow> string \<Rightarrow> nat \<Rightarrow> direction \<Rightarrow>
   (code_symbol, symbol_relation) traversal_result app_result option" where
  "symbol_traverse cfg store symbol_id depth dir =
     (case clamp_depth depth (tc_max_depth cfg) of
        None \<Rightarrow> None
      | Some depth \<Rightarrow> Some
          (if depth = 1 then
             map_sum id (\<lambda>(nodes, relations).
                 \<lparr>tr_nodes = nodes, tr_relations = relations, tr_strategy_used = Direct,
                  tr_depth_reached = 1, tr_truncated = False, tr_deferred_count = 0,
                  tr_frontier = map symbol_key (filter (\<lambda>s. s_id s \<noteq> None) nodes)\<rparr>)
               (gs_direct store symbol_id dir)
           else symbol_traverse_bfs cfg store symbol_id depth dir))"

lemma map_sum_InR_conv: "map_sum id f x = Inr y \<longleftrightarrow> (\<exists>z. x = Inr z \<and> y = f z)"
  by (cases x) auto

section \<open>What the loop computes\<close>

text \<open>The specification: the nodes within \<open>d\<close> edges of the start.\<close>

definition reach_upto :: "(string \<Rightarrow> string set) \<Rightarrow> string \<Rightarrow> nat \<Rightarrow> string set" where
  "reach_upto nbrs x d = {y. \<exists>k\<le>d. (x, y) \<in> {(a, b). b \<in> nbrs a} ^^ k}"

lemma reach_upto_0 [simp]: "reach_upto nbrs x 0 = {x}"
  by (auto simp: reach_upto_def)

lemma reach_upto_Suc: "reach_upto nbrs x (Suc d) = reach_upto nbrs x d \<union> (\<Union>a\<in>reach_upto nbrs x d. nbrs a)"
proof -
  have "(\<exists>k\<le>Suc d. (x, y) \<in> R ^^ k) \<longleftrightarrow> (\<exists>k\<le>d. (x, y) \<in> R ^^ k) \<or> (\<exists>k\<le>d. \<exists>a. (x, a) \<in> R ^^ k \<and> (a, y) \<in> R)"
    (is "?l \<longleftrightarrow> ?r") for y and R :: "(string \<times> string) set"
  proof
    assume ?l
    then obtain k where k: "k \<le> Suc d" "(x, y) \<in> R ^^ k" by blast
    show ?r
    proof (cases "k \<le> d")
      case False
      with k have "(x, y) \<in> R ^^ Suc d" by (simp add: le_Suc_eq)
      then show ?r by auto
    qed (use k in blast)
  next
    assume ?r
    then show ?l by (metis le_Suc_eq relpow_Suc_I Suc_le_mono)
  qed
  then show ?thesis by (fastforce simp: reach_upto_def)
qed

lemma reach_upto_mono: "d \<le> d' \<Longrightarrow> reach_upto nbrs x d \<subseteq> reach_upto nbrs x d'"
  by (auto simp: reach_upto_def intro: order_trans)

lemma reach_upto_start [simp]: "x \<in> reach_upto nbrs x d"
  by (rule subsetD [OF reach_upto_mono [of 0 d]]) simp_all

lemma reach_upto_closed: "(\<Union>a\<in>reach_upto nbrs x d. nbrs a) \<subseteq> reach_upto nbrs x d \<Longrightarrow> d \<le> d' \<Longrightarrow> reach_upto nbrs x d' = reach_upto nbrs x d"
proof (induction d')
  case (Suc d')
  then show ?case by (cases "d \<le> d'") (auto simp: reach_upto_Suc le_Suc_eq)
qed simp

section \<open>The loop invariant\<close>

definition bfs_wf :: "('n \<Rightarrow> string) \<Rightarrow> ('r \<Rightarrow> string) \<Rightarrow> nat \<Rightarrow> string \<Rightarrow> ('n, 'r) bfs \<Rightarrow> bool" where
  "bfs_wf key rkey cap start s \<longleftrightarrow>
     distinct (map key (bf_nodes s)) \<and> start \<notin> set (map key (bf_nodes s)) \<and>
     bf_visited s = insert start (set (map key (bf_nodes s))) \<and>
     distinct (map rkey (bf_relations s)) \<and> bf_visited_rel s = set (map rkey (bf_relations s)) \<and>
     set (bf_frontier s) \<subseteq> bf_visited s \<and> length (bf_nodes s) \<le> max 1 cap"

lemma bfs_wf_init: "bfs_wf key rkey cap start (bfs_init start)"
  by (simp add: bfs_wf_def bfs_init_def)

lemma absorb_relations_frame [simp]:
  "bf_visited (absorb_relations rkey rs s) = bf_visited s"
  "bf_nodes (absorb_relations rkey rs s) = bf_nodes s"
  "bf_frontier (absorb_relations rkey rs s) = bf_frontier s"
  "bf_truncated (absorb_relations rkey rs s) = bf_truncated s"
  by (induction rs arbitrary: s) auto

lemma absorb_relations_wf: "bfs_wf key rkey cap start s \<Longrightarrow> bfs_wf key rkey cap start (absorb_relations rkey rs s)"
  by (induction rs arbitrary: s) (auto simp: bfs_wf_def)

lemma take_batch_wf: "bfs_wf key rkey cap start s \<Longrightarrow> bfs_wf key rkey cap start (snd (take_batch rq pl s))"
  by (auto simp: take_batch_def bfs_wf_def Let_def dest: in_set_dropD)

lemma take_batch_frame [simp]:
  "bf_visited (snd (take_batch rq pl s)) = bf_visited s"
  "bf_nodes (snd (take_batch rq pl s)) = bf_nodes s"
  by (auto simp: take_batch_def Let_def)

lemma absorb_nodes_wf:
  "bfs_wf key rkey cap start s \<Longrightarrow> length (bf_nodes s) < max 1 cap \<Longrightarrow>
     bfs_wf key rkey cap start (snd (absorb_nodes key cap ns s)) \<and>
     (\<not> fst (absorb_nodes key cap ns s) \<longrightarrow> length (bf_nodes (snd (absorb_nodes key cap ns s))) < max 1 cap)"
proof (induction ns arbitrary: s)
  case (Cons n ns)
  show ?case
  proof (cases "key n \<in> bf_visited s")
    case True
    with Cons show ?thesis by simp
  next
    case False
    let ?s = "s\<lparr>bf_visited := insert (key n) (bf_visited s), bf_nodes := bf_nodes s @ [n],
                bf_frontier := bf_frontier s @ [key n]\<rparr>"
    have wf: "bfs_wf key rkey cap start ?s" using Cons.prems False by (auto simp: bfs_wf_def)
    show ?thesis
    proof (cases "cap \<le> length (bf_nodes ?s)")
      case True
      with False wf show ?thesis by (auto simp: bfs_wf_def)
    next
      case less: False
      with Cons.IH [OF wf] False show ?thesis by auto
    qed
  qed
qed simp

lemma absorb_nodes_visited:
  "bf_visited (snd (absorb_nodes key cap ns s)) \<subseteq> bf_visited s \<union> set (map key ns)"
proof (induction ns arbitrary: s)
  case (Cons n ns)
  note IH = Cons.IH [of s] Cons.IH [of "s\<lparr>bf_visited := insert (key n) (bf_visited s),
    bf_nodes := bf_nodes s @ [n], bf_frontier := bf_frontier s @ [key n]\<rparr>"]
  then show ?case by (auto simp: Let_def)
qed simp

lemma absorb_nodes_complete:
  "\<not> fst (absorb_nodes key cap ns s) \<Longrightarrow>
     bf_visited (snd (absorb_nodes key cap ns s)) = bf_visited s \<union> set (map key ns) \<and>
     bf_truncated (snd (absorb_nodes key cap ns s)) = bf_truncated s \<and>
     set (bf_frontier (snd (absorb_nodes key cap ns s))) =
       set (bf_frontier s) \<union> (set (map key ns) - bf_visited s)"
proof (induction ns arbitrary: s)
  case (Cons n ns)
  then show ?case by (auto simp: Let_def split: if_splits)
qed simp

lemma absorb_nodes_stop: "fst (absorb_nodes key cap ns s) \<Longrightarrow> bf_truncated (snd (absorb_nodes key cap ns s))"
  by (induction ns arbitrary: s) (auto simp: Let_def split: if_splits)

text \<open>One level: expanding the frontier reaches what expanding everything would.\<close>

lemma frontier_step:
  assumes "K \<subseteq> (\<Union>a\<in>F. nbrs a)" "(\<Union>a\<in>F. nbrs a) - F \<subseteq> K" "F \<subseteq> A"
    "(\<Union>a\<in>A - F. nbrs a) \<subseteq> A"
  shows "A \<union> K = A \<union> (\<Union>a\<in>A. nbrs a)"
proof
  have "(\<Union>a\<in>F. nbrs a) \<subseteq> (\<Union>a\<in>A. nbrs a)" by (rule UN_mono [OF assms(3)]) simp
  with assms(1) show "A \<union> K \<subseteq> A \<union> (\<Union>a\<in>A. nbrs a)" by (meson Un_mono order_refl subset_trans)
next
  have "x \<in> A \<union> K" if "a \<in> A" "x \<in> nbrs a" for a x
  proof (cases "a \<in> F")
    case True
    then have "x \<in> (\<Union>a\<in>F. nbrs a)" using that(2) by (rule UN_I)
    with assms(2,3) show ?thesis by (meson DiffI UnCI subsetD)
  next
    case False
    with that(1) have "a \<in> A - F" by simp
    then have "x \<in> (\<Union>a\<in>A - F. nbrs a)" using that(2) by (rule UN_I)
    with assms(4) show ?thesis by (meson UnCI subsetD)
  qed
  then show "A \<union> (\<Union>a\<in>A. nbrs a) \<subseteq> A \<union> K" by (intro Un_least UN_least subsetI) auto
qed

section \<open>The traversal against its storage\<close>

text \<open>What the loop relies on: a successful batch query returns only neighbours of the batch, and
  all of them except possibly nodes of the batch itself.\<close>

locale neighbour_store =
  fixes batch :: "string list \<Rightarrow> ('n list \<times> 'r list) app_result"
    and key :: "'n \<Rightarrow> string"
    and nbrs :: "string \<Rightarrow> string set"
  assumes batch_sound: "batch ids = Inr (ns, rs) \<Longrightarrow> n \<in> set ns \<Longrightarrow> \<exists>a\<in>set ids. key n \<in> nbrs a"
    and batch_complete: "batch ids = Inr (ns, rs) \<Longrightarrow> a \<in> set ids \<Longrightarrow> b \<in> nbrs a \<Longrightarrow>
      b \<notin> set ids \<Longrightarrow> b \<in> key ` set ns"
begin

lemma bfs_levels_sound:
  assumes "bfs_levels rq key rkey cfg batch n d s = Inr (d', s')"
    and "bfs_wf key rkey (tc_max_total_entities cfg) start s"
    and "length (bf_nodes s) < max 1 (tc_max_total_entities cfg)"
    and "bf_visited s \<subseteq> reach_upto nbrs start d"
  shows "bfs_wf key rkey (tc_max_total_entities cfg) start s' \<and> d' \<le> d + n \<and>
    bf_visited s' \<subseteq> reach_upto nbrs start d'"
  using assms
proof (induction n arbitrary: d s)
  case (Suc n)
  show ?case
  proof (cases "bf_frontier s = []")
    case True
    with Suc.prems show ?thesis by simp
  next
    case False
    let ?pl = "tc_max_entities_per_level cfg" and ?cap = "tc_max_total_entities cfg"
    let ?b = "take_batch rq ?pl s"
    from Suc.prems(1) False obtain ns rs where b: "batch (fst ?b) = Inr (ns, rs)"
      by (auto simp: Let_def split: prod.splits sum.splits)
    let ?s1 = "absorb_relations rkey rs (snd ?b)"
    let ?r = "absorb_nodes key ?cap ns ?s1"
    have wf1: "bfs_wf key rkey ?cap start ?s1"
      using Suc.prems(2) by (intro absorb_relations_wf take_batch_wf)
    have len1: "length (bf_nodes ?s1) < max 1 ?cap" using Suc.prems(3) by simp
    note wf2 = absorb_nodes_wf [OF wf1 len1, of ns]
    have "set (fst ?b) \<subseteq> bf_visited s"
      using Suc.prems(2) by (auto simp: bfs_wf_def take_batch_def Let_def dest: in_set_takeD)
    then have "set (map key ns) \<subseteq> (\<Union>a\<in>reach_upto nbrs start d. nbrs a)"
      using batch_sound [OF b] Suc.prems(4) by fastforce
    moreover have "bf_visited (snd ?r) \<subseteq> bf_visited s \<union> set (map key ns)"
      using absorb_nodes_visited [of key ?cap ns ?s1] by simp
    ultimately have vis: "bf_visited (snd ?r) \<subseteq> reach_upto nbrs start (Suc d)"
      using Suc.prems(4) unfolding reach_upto_Suc by blast
    show ?thesis
    proof (cases "fst ?r")
      case True
      with Suc.prems(1) False b have "d' = Suc d" "s' = snd ?r"
        by (auto simp: Let_def split: prod.splits)
      with wf2 vis show ?thesis by auto
    next
      case go: False
      with Suc.prems(1) False b have "bfs_levels rq key rkey cfg batch n (Suc d) (snd ?r) = Inr (d', s')"
        by (auto simp: Let_def split: prod.splits)
      from Suc.IH [OF this _ _ vis] wf2 go show ?thesis by auto
    qed
  qed
qed simp

lemma bfs_levels_truncated:
  "bfs_levels rq key rkey cfg batch n d s = Inr (d', s') \<Longrightarrow> bf_truncated s \<Longrightarrow> bf_truncated s'"
proof (induction n arbitrary: d s)
  case (Suc n)
  show ?case
  proof (cases "bf_frontier s = []")
    case True
    with Suc.prems show ?thesis by simp
  next
    case False
    let ?b = "take_batch rq (tc_max_entities_per_level cfg) s"
    from Suc.prems(1) False obtain ns rs where b: "batch (fst ?b) = Inr (ns, rs)"
      by (auto simp: Let_def split: prod.splits sum.splits)
    let ?r = "absorb_nodes key (tc_max_total_entities cfg) ns (absorb_relations rkey rs (snd ?b))"
    have tr: "bf_truncated (snd ?b)" using Suc.prems(2) by (auto simp: take_batch_def Let_def)
    show ?thesis
    proof (cases "fst ?r")
      case True
      with Suc.prems(1) False b have "s' = snd ?r" by (auto simp: Let_def split: prod.splits)
      with absorb_nodes_stop [OF True] show ?thesis by simp
    next
      case go: False
      with Suc.prems(1) False b have "bfs_levels rq key rkey cfg batch n (Suc d) (snd ?r) = Inr (d', s')"
        by (auto simp: Let_def split: prod.splits)
      from Suc.IH [OF this] absorb_nodes_complete [OF go] tr show ?thesis by simp
    qed
  qed
qed simp

text \<open>Completeness: while nothing is cut off, the visited nodes are exactly those within the depth,
  and every node that is no longer in the frontier has all its neighbours visited.\<close>

lemma bfs_levels_exact:
  assumes "bfs_levels rq key rkey cfg batch n d s = Inr (d', s')"
    and "bfs_wf key rkey (tc_max_total_entities cfg) start s"
    and "length (bf_nodes s) < max 1 (tc_max_total_entities cfg)"
    and "bf_visited s = reach_upto nbrs start d"
    and "(\<Union>a\<in>bf_visited s - set (bf_frontier s). nbrs a) \<subseteq> bf_visited s"
    and "\<not> bf_truncated s'"
  shows "bf_visited s' = reach_upto nbrs start (d + n)"
  using assms
proof (induction n arbitrary: d s)
  case (Suc n)
  show ?case
  proof (cases "bf_frontier s = []")
    case True
    with Suc.prems have "s' = s" by simp
    moreover have "(\<Union>a\<in>reach_upto nbrs start d. nbrs a) \<subseteq> reach_upto nbrs start d"
      using Suc.prems(4,5) True by simp
    then have "reach_upto nbrs start (d + Suc n) = reach_upto nbrs start d"
      by (rule reach_upto_closed) simp
    ultimately show ?thesis using Suc.prems(4) by simp
  next
    case False
    let ?pl = "tc_max_entities_per_level cfg" and ?cap = "tc_max_total_entities cfg"
    let ?b = "take_batch rq ?pl s"
    from Suc.prems(1) False obtain ns rs where b: "batch (fst ?b) = Inr (ns, rs)"
      by (auto simp: Let_def split: prod.splits sum.splits)
    let ?s1 = "absorb_relations rkey rs (snd ?b)"
    let ?r = "absorb_nodes key ?cap ns ?s1"
    have wf1: "bfs_wf key rkey ?cap start ?s1"
      using Suc.prems(2) by (intro absorb_relations_wf take_batch_wf)
    have len1: "length (bf_nodes ?s1) < max 1 ?cap" using Suc.prems(3) by simp
    note wf2 = absorb_nodes_wf [OF wf1 len1, of ns]
    have go: "\<not> fst ?r"
    proof
      assume stop: "fst ?r"
      with Suc.prems(1) False b have "s' = snd ?r" by (auto simp: Let_def split: prod.splits)
      with absorb_nodes_stop [OF stop] Suc.prems(6) show False by simp
    qed
    then have rest: "bfs_levels rq key rkey cfg batch n (Suc d) (snd ?r) = Inr (d', s')"
      using Suc.prems(1) False b by (auto simp: Let_def split: prod.splits)
    have full: "\<not> bf_truncated (snd ?b)"
      using bfs_levels_truncated [OF rest] absorb_nodes_complete [OF go] Suc.prems(6) by auto
    then have ids: "fst ?b = bf_frontier s" "bf_frontier (snd ?b) = []"
      by (auto simp: take_batch_def Let_def split: if_splits)
    have sub: "set (bf_frontier s) \<subseteq> bf_visited s" using Suc.prems(2) unfolding bfs_wf_def by blast
    have keys: "key ` set ns \<subseteq> (\<Union>a\<in>set (bf_frontier s). nbrs a)"
      "(\<Union>a\<in>set (bf_frontier s). nbrs a) - set (bf_frontier s) \<subseteq> key ` set ns"
      using batch_sound [OF b] batch_complete [OF b] unfolding ids by blast+
    note exact = absorb_nodes_complete [OF go]
    have "bf_visited (snd ?r) = bf_visited s \<union> key ` set ns" using exact by simp
    also have "\<dots> = bf_visited s \<union> (\<Union>a\<in>bf_visited s. nbrs a)"
      by (rule frontier_step [OF keys sub Suc.prems(5)])
    finally have vis: "bf_visited (snd ?r) = reach_upto nbrs start (Suc d)"
      unfolding reach_upto_Suc Suc.prems(4) .
    have front: "set (bf_frontier (snd ?r)) = bf_visited (snd ?r) - bf_visited s"
      using exact ids by auto
    have "(\<Union>a\<in>bf_visited s. nbrs a) \<subseteq> bf_visited (snd ?r)"
      using vis Suc.prems(4) by (auto simp: reach_upto_Suc)
    then have closed: "(\<Union>a\<in>bf_visited (snd ?r) - set (bf_frontier (snd ?r)). nbrs a) \<subseteq> bf_visited (snd ?r)"
      unfolding front by blast
    from Suc.IH [OF rest _ _ vis closed Suc.prems(6)] wf2 go show ?thesis by simp
  qed
qed simp

lemma bfs_from_start:
  assumes "bfs_levels rq key rkey cfg batch n 0 (bfs_init start) = Inr (d, s)"
  shows "distinct (map key (bf_nodes s))" "distinct (map rkey (bf_relations s))"
    "length (bf_nodes s) \<le> max 1 (tc_max_total_entities cfg)" "d \<le> n"
    "key ` set (bf_nodes s) \<subseteq> reach_upto nbrs start d - {start}"
    "\<not> bf_truncated s \<Longrightarrow> key ` set (bf_nodes s) = reach_upto nbrs start n - {start}"
proof -
  have init: "length (bf_nodes (bfs_init start :: ('n, 'r) bfs)) < max 1 (tc_max_total_entities cfg)"
    "bf_visited (bfs_init start :: ('n, 'r) bfs) = reach_upto nbrs start 0"
    "(\<Union>a\<in>bf_visited (bfs_init start :: ('n, 'r) bfs) - set (bf_frontier (bfs_init start :: ('n, 'r) bfs)). nbrs a)
       \<subseteq> bf_visited (bfs_init start :: ('n, 'r) bfs)"
    by (simp_all add: bfs_init_def)
  note sound = bfs_levels_sound [OF assms bfs_wf_init init(1) equalityD1 [OF init(2)]]
  then show "distinct (map key (bf_nodes s))" "distinct (map rkey (bf_relations s))"
    "length (bf_nodes s) \<le> max 1 (tc_max_total_entities cfg)" "d \<le> n"
    "key ` set (bf_nodes s) \<subseteq> reach_upto nbrs start d - {start}"
    by (auto simp: bfs_wf_def)
  assume "\<not> bf_truncated s"
  from bfs_levels_exact [OF assms bfs_wf_init init this] sound
  show "key ` set (bf_nodes s) = reach_upto nbrs start n - {start}"
    by (auto simp: bfs_wf_def)
qed

lemma bfs_frontier:
  assumes "bfs_levels rq key rkey cfg batch n 0 (bfs_init start) = Inr (d, s)"
  shows "set (bf_frontier s) \<subseteq> insert start (key ` set (bf_nodes s))"
proof -
  have "length (bf_nodes (bfs_init start :: ('n, 'r) bfs)) < max 1 (tc_max_total_entities cfg)"
    "bf_visited (bfs_init start :: ('n, 'r) bfs) \<subseteq> reach_upto nbrs start 0"
    by (simp_all add: bfs_init_def)
  from bfs_levels_sound [OF assms bfs_wf_init this] show ?thesis
    unfolding bfs_wf_def by (metis set_map)
qed

end

end
