(* ===== verification/ThingId.thy ===== *)
theory ThingId
  imports AppTypes
begin

text \<open>
  \<open>src/types/thing_id.rs\<close>: validated database ids. Every id that reaches a query is built by
  \<open>ThingId::new\<close> or \<open>ThingId::parse\<close>, which admit a table name and a record key of safe
  characters only.
\<close>

datatype thing_error =
    TE_EmptyTable
  | TE_EmptyId
  | TE_InvalidTable string
  | TE_InvalidId string
  | TE_Format string

fun thing_error_message :: "thing_error \<Rightarrow> string" where
  "thing_error_message TE_EmptyTable = ''Table name cannot be empty''"
| "thing_error_message TE_EmptyId = ''ID cannot be empty''"
| "thing_error_message (TE_InvalidTable t) =
     ''Invalid table name '' @ [CHR 0x27] @ t @ [CHR 0x27] @
     '': must contain only alphanumeric characters and underscores''"
| "thing_error_message (TE_InvalidId i) =
     ''Invalid ID '' @ [CHR 0x27] @ i @ [CHR 0x27] @
     '': must contain only alphanumeric characters, underscores, and hyphens''"
| "thing_error_message (TE_Format s) =
     ''Invalid Thing format '' @ [CHR 0x27] @ s @ [CHR 0x27] @ '': expected '' @
     [CHR 0x27] @ ''table:id'' @ [CHR 0x27]"

datatype thing_id = ThingId string

definition is_valid_table_name :: "string \<Rightarrow> bool" where
  "is_valid_table_name s =
     (case s of [] \<Rightarrow> False
      | first # rest \<Rightarrow>
          (is_ascii_alphabetic first \<or> first = CHR ''_'') \<and>
          list_all (\<lambda>c. is_ascii_alphanumeric c \<or> c = CHR ''_'') rest)"

definition is_valid_id :: "string \<Rightarrow> bool" where
  "is_valid_id s \<longleftrightarrow> s \<noteq> [] \<and>
     list_all (\<lambda>c. is_ascii_alphanumeric c \<or> c = CHR ''_'' \<or> c = CHR ''-'') s"

definition thing_id_new :: "string \<Rightarrow> string \<Rightarrow> thing_error + thing_id" where
  "thing_id_new table i =
     (if table = [] then Inl TE_EmptyTable
      else if i = [] then Inl TE_EmptyId
      else if \<not> is_valid_table_name table then Inl (TE_InvalidTable table)
      else if \<not> is_valid_id i then Inl (TE_InvalidId i)
      else Inr (ThingId (table @ '':'' @ i)))"

text \<open>\<open>str::split\<close> by a character, and \<open>splitn(2, _)\<close>.\<close>

fun split_on :: "char \<Rightarrow> string \<Rightarrow> string list" where
  "split_on c [] = [[]]"
| "split_on c (x # xs) =
     (if x = c then [] # split_on c xs
      else case split_on c xs of [] \<Rightarrow> [[x]] | p # ps \<Rightarrow> (x # p) # ps)"

fun splitn2 :: "char \<Rightarrow> string \<Rightarrow> string list" where
  "splitn2 c [] = [[]]"
| "splitn2 c (x # xs) =
     (if x = c then [[], xs]
      else case splitn2 c xs of [] \<Rightarrow> [[x]] | p # ps \<Rightarrow> (x # p) # ps)"

definition thing_id_parse :: "string \<Rightarrow> thing_error + thing_id" where
  "thing_id_parse s =
     (case splitn2 (CHR '':'') s of
        [table, i] \<Rightarrow> thing_id_new table i
      | _ \<Rightarrow> Inl (TE_Format s))"

fun thing_id_as_str :: "thing_id \<Rightarrow> string" where
  "thing_id_as_str (ThingId s) = s"

definition thing_id_table :: "thing_id \<Rightarrow> string" where
  "thing_id_table t = (case split_on (CHR '':'') (thing_id_as_str t) of p # _ \<Rightarrow> p | [] \<Rightarrow> [])"

definition thing_id_id :: "thing_id \<Rightarrow> string" where
  "thing_id_id t = (case split_on (CHR '':'') (thing_id_as_str t) of _ # p # _ \<Rightarrow> p | _ \<Rightarrow> [])"

definition to_thing :: "thing_id \<Rightarrow> record_id" where
  "to_thing t = \<lparr>rid_table = thing_id_table t, rid_key = thing_id_id t\<rparr>"

fun things_from_ids :: "string \<Rightarrow> string list \<Rightarrow> thing_error + record_id list" where
  "things_from_ids table [] = Inr []"
| "things_from_ids table (i # is) =
     (case thing_id_new table i of
        Inl e \<Rightarrow> Inl e
      | Inr t \<Rightarrow> (case things_from_ids table is of Inl e \<Rightarrow> Inl e | Inr ts \<Rightarrow> Inr (to_thing t # ts)))"

section \<open>Validation\<close>

definition safe_id_char :: "char \<Rightarrow> bool" where
  "safe_id_char c \<longleftrightarrow> is_ascii_alphanumeric c \<or> c = CHR ''_'' \<or> c = CHR ''-''"

lemma colon_not_alnum [simp]: "\<not> is_ascii_alphanumeric (CHR '':'')"
  by (simp add: ascii_defs)

lemma valid_table_chars: "is_valid_table_name s \<Longrightarrow> c \<in> set s \<Longrightarrow> safe_id_char c"
  by (cases s) (auto simp: is_valid_table_name_def safe_id_char_def list_all_iff is_ascii_alphanumeric_def)

lemma valid_id_chars: "is_valid_id s \<Longrightarrow> c \<in> set s \<Longrightarrow> safe_id_char c"
  by (auto simp: is_valid_id_def safe_id_char_def list_all_iff)

lemma colon_unsafe [simp]: "\<not> safe_id_char (CHR '':'')"
  by (simp add: safe_id_char_def)

lemma valid_no_colon:
  "is_valid_table_name s \<Longrightarrow> CHR '':'' \<notin> set s" "is_valid_id s \<Longrightarrow> CHR '':'' \<notin> set s"
  using valid_table_chars valid_id_chars colon_unsafe by blast+

lemma split_on_none: "c \<notin> set s \<Longrightarrow> split_on c s = [s]"
  by (induction s) auto

lemma split_on_append: "c \<notin> set s \<Longrightarrow> split_on c (s @ c # r) = s # split_on c r"
  by (induction s) auto

lemma splitn2_append: "c \<notin> set s \<Longrightarrow> splitn2 c (s @ c # r) = [s, r]"
  by (induction s) auto

lemma splitn2_two: "splitn2 c s = [p, r] \<Longrightarrow> s = p @ c # r \<and> c \<notin> set p"
proof (induction s arbitrary: p)
  case (Cons x s)
  then show ?case by (auto split: if_splits list.splits)
qed simp

lemma thing_id_new_Inr:
  "thing_id_new table i = Inr t \<longleftrightarrow> is_valid_table_name table \<and> is_valid_id i \<and> t = ThingId (table @ '':'' @ i)"
  by (auto simp: thing_id_new_def is_valid_table_name_def is_valid_id_def)

lemma thing_id_new_parts:
  assumes "thing_id_new table i = Inr t"
  shows "thing_id_table t = table" "thing_id_id t = i" "thing_id_as_str t = table @ '':'' @ i"
  using assms valid_no_colon
  by (auto simp: thing_id_new_Inr thing_id_table_def thing_id_id_def split_on_append split_on_none)

lemma thing_id_parse_new:
  "thing_id_parse s = Inr t \<longleftrightarrow> (\<exists>table i. s = table @ '':'' @ i \<and> thing_id_new table i = Inr t)"
proof
  assume p: "thing_id_parse s = Inr t"
  then obtain table i where "splitn2 (CHR '':'') s = [table, i]" "thing_id_new table i = Inr t"
    by (auto simp: thing_id_parse_def split: list.splits)
  with splitn2_two show "\<exists>table i. s = table @ '':'' @ i \<and> thing_id_new table i = Inr t" by fastforce
next
  assume "\<exists>table i. s = table @ '':'' @ i \<and> thing_id_new table i = Inr t"
  then obtain table i where s: "s = table @ '':'' @ i" and new: "thing_id_new table i = Inr t" by blast
  then have "CHR '':'' \<notin> set table" by (auto simp: thing_id_new_Inr dest: valid_no_colon)
  with s new show "thing_id_parse s = Inr t" by (simp add: thing_id_parse_def splitn2_append)
qed

text \<open>Parsing and printing of database ids are inverse: a text parses exactly when it is the
  printed form of the id it parses to, a printed id parses back to itself, its table and key are
  the ones it was built from, and it consists of letters, digits, underscores and hyphens around
  one colon, so no quote, space or semicolon can reach a query through it.\<close>
theorem thing_id_roundtrip:
  assumes "thing_id_parse s = Inr t"
  shows "thing_id_as_str t = s \<and> thing_id_parse (thing_id_as_str t) = Inr t \<and>
    thing_id_new (thing_id_table t) (thing_id_id t) = Inr t \<and>
    s = thing_id_table t @ '':'' @ thing_id_id t \<and>
    (\<forall>c\<in>set (thing_id_table t) \<union> set (thing_id_id t). safe_id_char c)"
proof -
  from assms obtain table i where s: "s = table @ '':'' @ i" and new: "thing_id_new table i = Inr t"
    unfolding thing_id_parse_new by blast
  note parts = thing_id_new_parts [OF new]
  from new have "\<forall>c\<in>set table \<union> set i. safe_id_char c"
    by (auto simp: thing_id_new_Inr intro: valid_table_chars valid_id_chars)
  with s new assms parts show ?thesis by simp
qed

theorem thing_id_roundtrip_witness:
  "\<exists>t. thing_id_parse ''entities:abc-1'' = Inr t \<and> thing_id_as_str t = ''entities:abc-1''"
proof -
  have "thing_id_parse ''entities:abc-1'' = Inr (ThingId ''entities:abc-1'')" by code_simp
  from thing_id_roundtrip [OF this] this show ?thesis by blast
qed

lemma things_from_ids_Inr:
  "things_from_ids table is = Inr ts \<longleftrightarrow>
     (\<forall>i\<in>set is. is_valid_id i) \<and> (is \<noteq> [] \<longrightarrow> is_valid_table_name table) \<and>
     ts = map (\<lambda>i. \<lparr>rid_table = table, rid_key = i\<rparr>) is"
proof (induction "is" arbitrary: ts)
  case (Cons i "is")
  show ?case
  proof (cases "thing_id_new table i")
    case (Inl e)
    then have "\<not> (is_valid_table_name table \<and> is_valid_id i)"
      using thing_id_new_Inr [of table i] by auto
    with Inl show ?thesis by auto
  next
    case (Inr t)
    then have v: "is_valid_table_name table" "is_valid_id i" by (auto simp: thing_id_new_Inr)
    have t: "to_thing t = \<lparr>rid_table = table, rid_key = i\<rparr>"
      by (simp add: to_thing_def thing_id_new_parts [OF Inr])
    show ?thesis
    proof (cases "things_from_ids table is")
      case (Inl e)
      with Cons.IH [of "map (\<lambda>i. \<lparr>rid_table = table, rid_key = i\<rparr>) is"] v
      have "\<not> (\<forall>i\<in>set is. is_valid_id i)" by simp
      with Inl Inr show ?thesis by auto
    next
      case rest: (Inr ts')
      with Cons.IH [of ts'] v t Inr show ?thesis by auto
    qed
  qed
qed auto

end
