(* ===== verification/GraphStore.thy ===== *)
theory GraphStore
  imports Traversal ThingId
begin

text \<open>
  The traversal storage of \<open>src/storage/surrealdb/mod.rs\<close> on the tables it queries. The
  database is the record \<open>graph_db\<close> of its rows; a \<open>SELECT\<close> of the source is the filter its
  \<open>WHERE\<close> clause states. A \<open>HashSet\<close> that is turned into a list keeps the order of first
  insertion. Failures of the database itself are not modelled here.
\<close>

record graph_db =
  gd_entities :: "entity list"
  gd_relations :: "relation list"
  gd_symbols :: "code_symbol list"
  gd_symbol_relations :: "symbol_relation list"

fun edge_selected :: "direction \<Rightarrow> record_id list \<Rightarrow> record_id \<Rightarrow> record_id \<Rightarrow> bool" where
  "edge_selected Outgoing things from to = (from \<in> set things)"
| "edge_selected Incoming things from to = (to \<in> set things)"
| "edge_selected Both things from to = (from \<in> set things \<or> to \<in> set things)"

definition get_entity :: "graph_db \<Rightarrow> string \<Rightarrow> entity option" where
  "get_entity db k = find (\<lambda>e. e_id e = Some \<lparr>rid_table = ''entities'', rid_key = k\<rparr>) (gd_entities db)"

definition get_direct_relations ::
  "graph_db \<Rightarrow> string \<Rightarrow> direction \<Rightarrow> (entity list \<times> relation list) app_result" where
  "get_direct_relations db entity_id dir =
     (case thing_id_new ''entities'' entity_id of
        Inl e \<Rightarrow> Inl (Internal (thing_error_message e))
      | Inr t \<Rightarrow>
          (let relations = filter (\<lambda>r. edge_selected dir [to_thing t] (r_from_entity r) (r_to_entity r))
                             (gd_relations db);
               ids = remdups (concat (map (\<lambda>r. case dir of
                         Outgoing \<Rightarrow> [rid_key (r_to_entity r)]
                       | Incoming \<Rightarrow> [rid_key (r_from_entity r)]
                       | Both \<Rightarrow> filter (\<lambda>k. k \<noteq> entity_id)
                                   [rid_key (r_from_entity r), rid_key (r_to_entity r)]) relations))
           in Inr (filter (\<lambda>e. e_id e \<noteq> None \<and> rid_table (the (e_id e)) = ''entities'' \<and>
                              rid_key (the (e_id e)) \<in> set ids) (gd_entities db), relations)))"

definition get_direct_relations_batch ::
  "graph_db \<Rightarrow> string list \<Rightarrow> direction \<Rightarrow> (entity list \<times> relation list) app_result" where
  "get_direct_relations_batch db entity_ids dir =
     (if entity_ids = [] then Inr ([], [])
      else case things_from_ids ''entities'' entity_ids of
             Inl e \<Rightarrow> Inl (Internal (thing_error_message e))
           | Inr things \<Rightarrow>
               (let relations = filter (\<lambda>r. edge_selected dir things (r_from_entity r) (r_to_entity r))
                                  (gd_relations db);
                    new_ids = remdups (filter (\<lambda>k. k \<notin> set entity_ids)
                                (concat (map (\<lambda>r. [rid_key (r_from_entity r), rid_key (r_to_entity r)])
                                  relations)))
                in Inr (List.map_filter (get_entity db) new_ids, relations)))"

section \<open>Symbols\<close>

definition thing_str :: "record_id \<Rightarrow> string" where
  "thing_str t = rid_table t @ '':'' @ rid_key t"

definition symbol_id_parts :: "string \<Rightarrow> string \<times> string" where
  "symbol_id_parts i =
     (case splitn2 (CHR '':'') i of [table, key] \<Rightarrow> (table, key) | _ \<Rightarrow> (''code_symbols'', i))"

definition symbol_id_thing :: "string \<Rightarrow> record_id option" where
  "symbol_id_thing i =
     (case symbol_id_parts i of (table, key) \<Rightarrow>
        (case thing_id_new table key of Inr t \<Rightarrow> Some (to_thing t) | Inl _ \<Rightarrow> None))"

definition get_direct_symbol_relations_batch ::
  "graph_db \<Rightarrow> string list \<Rightarrow> direction \<Rightarrow> (code_symbol list \<times> symbol_relation list) app_result" where
  "get_direct_symbol_relations_batch db symbol_ids dir =
     (if symbol_ids = [] then Inr ([], [])
      else
        (let things = List.map_filter symbol_id_thing symbol_ids
         in if things = [] then Inr ([], [])
            else
              (let relations = filter (\<lambda>r. edge_selected dir things (sl_from_symbol r) (sl_to_symbol r))
                                 (gd_symbol_relations db);
                   targets = remdups (filter (\<lambda>k. k \<notin> set symbol_ids)
                               (concat (map (\<lambda>r. case dir of
                                   Outgoing \<Rightarrow> [thing_str (sl_to_symbol r)]
                                 | Incoming \<Rightarrow> [thing_str (sl_from_symbol r)]
                                 | Both \<Rightarrow> [thing_str (sl_from_symbol r), thing_str (sl_to_symbol r)])
                                 relations)))
               in Inr (filter (\<lambda>s. s_id s \<noteq> None \<and> symbol_key s \<in> set targets) (gd_symbols db),
                       relations))))"

section \<open>Neighbours\<close>

definition entity_neighbours :: "graph_db \<Rightarrow> direction \<Rightarrow> string \<Rightarrow> string set" where
  "entity_neighbours db dir a =
     {k. get_entity db k \<noteq> None \<and>
         (\<exists>r\<in>set (gd_relations db).
            (dir \<noteq> Incoming \<and> r_from_entity r = \<lparr>rid_table = ''entities'', rid_key = a\<rparr> \<and>
               k = rid_key (r_to_entity r)) \<or>
            (dir \<noteq> Outgoing \<and> r_to_entity r = \<lparr>rid_table = ''entities'', rid_key = a\<rparr> \<and>
               k = rid_key (r_from_entity r)))}"

definition symbol_neighbours :: "graph_db \<Rightarrow> direction \<Rightarrow> string \<Rightarrow> string set" where
  "symbol_neighbours db dir a =
     {k. (\<exists>s\<in>set (gd_symbols db). s_id s \<noteq> None \<and> symbol_key s = k) \<and>
         (\<exists>r\<in>set (gd_symbol_relations db). \<exists>t. symbol_id_thing a = Some t \<and>
            edge_selected dir [t] (sl_from_symbol r) (sl_to_symbol r) \<and>
            (dir \<noteq> Incoming \<and> k = thing_str (sl_to_symbol r) \<or>
             dir \<noteq> Outgoing \<and> k = thing_str (sl_from_symbol r)))}"

lemma get_entity_key: "get_entity db k = Some e \<Longrightarrow> entity_key e = k"
  by (auto simp: get_entity_def find_Some_iff entity_key_def)

lemma mem_map_filter: "y \<in> set (List.map_filter f xs) \<longleftrightarrow> (\<exists>x\<in>set xs. f x = Some y)"
  by (force simp: List.map_filter_def)

lemma batch_entities:
  assumes "get_direct_relations_batch db ids dir = Inr (ns, rs)"
  shows "n \<in> set ns \<longleftrightarrow> (\<exists>k r. r \<in> set (gd_relations db) \<and> k \<notin> set ids \<and> get_entity db k = Some n \<and>
      edge_selected dir (map (\<lambda>i. \<lparr>rid_table = ''entities'', rid_key = i\<rparr>) ids) (r_from_entity r) (r_to_entity r) \<and>
      (k = rid_key (r_from_entity r) \<or> k = rid_key (r_to_entity r)))"
proof (cases "ids = []")
  case True
  with assms show ?thesis by (cases dir) (auto simp: get_direct_relations_batch_def)
next
  case False
  with assms obtain things where t: "things_from_ids ''entities'' ids = Inr things"
    by (auto simp: get_direct_relations_batch_def split: sum.splits)
  then have things: "things = map (\<lambda>i. \<lparr>rid_table = ''entities'', rid_key = i\<rparr>) ids"
    by (simp add: things_from_ids_Inr)
  show ?thesis
    using assms False t unfolding things
    by (fastforce simp: get_direct_relations_batch_def mem_map_filter Let_def)
qed

lemma entity_edge:
  "edge_selected dir (map (\<lambda>i. \<lparr>rid_table = ''entities'', rid_key = i\<rparr>) ids) f t \<longleftrightarrow>
     (\<exists>a\<in>set ids. edge_selected dir [\<lparr>rid_table = ''entities'', rid_key = a\<rparr>] f t)"
  by (cases dir) auto

interpretation entity_graph: neighbour_store
  "\<lambda>ids. get_direct_relations_batch db ids dir" entity_key "entity_neighbours db dir" for db dir
proof
  fix ids ns rs n
  assume b: "get_direct_relations_batch db ids dir = Inr (ns, rs)" and n: "n \<in> set ns"
  from n obtain k r a where *: "r \<in> set (gd_relations db)" "k \<notin> set ids" "get_entity db k = Some n" "a \<in> set ids"
    "edge_selected dir [\<lparr>rid_table = ''entities'', rid_key = a\<rparr>] (r_from_entity r) (r_to_entity r)"
    "k = rid_key (r_from_entity r) \<or> k = rid_key (r_to_entity r)"
    unfolding batch_entities [OF b] entity_edge by blast
  from *(3) have "entity_key n = k" by (rule get_entity_key)
  with * have "entity_key n \<in> entity_neighbours db dir a"
    by (cases dir) (force simp: entity_neighbours_def)+
  with *(4) show "\<exists>a\<in>set ids. entity_key n \<in> entity_neighbours db dir a" by blast
next
  fix ids ns rs a b
  assume bt: "get_direct_relations_batch db ids dir = Inr (ns, rs)"
    and a: "a \<in> set ids" and b: "b \<in> entity_neighbours db dir a" "b \<notin> set ids"
  from b(1) obtain n r where n: "get_entity db b = Some n" and r: "r \<in> set (gd_relations db)"
    "edge_selected dir [\<lparr>rid_table = ''entities'', rid_key = a\<rparr>] (r_from_entity r) (r_to_entity r)"
    "b = rid_key (r_from_entity r) \<or> b = rid_key (r_to_entity r)"
    by (cases dir) (auto simp: entity_neighbours_def)
  with a b(2) have "n \<in> set ns" unfolding batch_entities [OF bt] entity_edge by blast
  with get_entity_key [OF n] show "b \<in> entity_key ` set ns" by blast
qed

lemma batch_symbols:
  assumes "get_direct_symbol_relations_batch db ids dir = Inr (ns, rs)"
  shows "n \<in> set ns \<longleftrightarrow> n \<in> set (gd_symbols db) \<and> s_id n \<noteq> None \<and> symbol_key n \<notin> set ids \<and>
     (\<exists>r\<in>set (gd_symbol_relations db).
        edge_selected dir (List.map_filter symbol_id_thing ids) (sl_from_symbol r) (sl_to_symbol r) \<and>
        (dir \<noteq> Incoming \<and> symbol_key n = thing_str (sl_to_symbol r) \<or>
         dir \<noteq> Outgoing \<and> symbol_key n = thing_str (sl_from_symbol r)))"
proof (cases "List.map_filter symbol_id_thing ids = []")
  case True
  then have "ns = []" using assms
    by (auto simp: get_direct_symbol_relations_batch_def Let_def split: if_splits)
  with True show ?thesis by (cases dir) auto
next
  case False
  then have "ids \<noteq> []" by (auto simp: List.map_filter_def)
  with assms False show ?thesis
    by (cases dir) (auto simp: get_direct_symbol_relations_batch_def Let_def)
qed

lemma symbol_edge:
  "edge_selected dir (List.map_filter symbol_id_thing ids) f t \<longleftrightarrow>
     (\<exists>a\<in>set ids. \<exists>u. symbol_id_thing a = Some u \<and> edge_selected dir [u] f t)"
  by (cases dir) (auto simp: mem_map_filter)

interpretation symbol_graph: neighbour_store
  "\<lambda>ids. get_direct_symbol_relations_batch db ids dir" symbol_key "symbol_neighbours db dir" for db dir
proof
  fix ids ns rs n
  assume "get_direct_symbol_relations_batch db ids dir = Inr (ns, rs)" "n \<in> set ns"
  then show "\<exists>a\<in>set ids. symbol_key n \<in> symbol_neighbours db dir a"
    unfolding batch_symbols [OF \<open>_ = Inr (ns, rs)\<close>] symbol_edge symbol_neighbours_def by blast
next
  fix ids ns rs a b
  assume bt: "get_direct_symbol_relations_batch db ids dir = Inr (ns, rs)"
    and a: "a \<in> set ids" and b: "b \<in> symbol_neighbours db dir a" "b \<notin> set ids"
  from b(1) obtain s where "s \<in> set (gd_symbols db)" "s_id s \<noteq> None" "symbol_key s = b"
    by (auto simp: symbol_neighbours_def)
  moreover from this a b have "s \<in> set ns"
    unfolding batch_symbols [OF bt] symbol_edge symbol_neighbours_def by blast
  ultimately show "b \<in> symbol_key ` set ns" by blast
qed

section \<open>Traversal results\<close>

definition entity_store :: "graph_db \<Rightarrow> (entity, relation) graph_store" where
  "entity_store db = \<lparr>gs_direct = get_direct_relations db, gs_batch = get_direct_relations_batch db\<rparr>"

definition symbol_store ::
  "(string \<Rightarrow> direction \<Rightarrow> (code_symbol list \<times> symbol_relation list) app_result) \<Rightarrow> graph_db \<Rightarrow>
   (code_symbol, symbol_relation) graph_store" where
  "symbol_store direct db = \<lparr>gs_direct = direct, gs_batch = get_direct_symbol_relations_batch db\<rparr>"

text \<open>C1: A breadth-first traversal of the entity graph (effective depth above 1) returns every entity
  once and every edge once, never the start entity, at most the configured total, and only entities
  reachable within the depth it reports, which never exceeds the clamped depth. When it reports no
  truncation it is complete: the entities are exactly those reachable from the start within the
  clamped depth.\<close>
theorem entity_traversal_exact:
  assumes "entity_traverse cfg (entity_store db) start depth dir = Some (Inr r)"
    and "tr_strategy_used r = Bfs"
  defines "d \<equiv> max 1 (min depth (tc_max_depth cfg))"
  shows "distinct (map entity_key (tr_nodes r)) \<and> distinct (map relation_key (tr_relations r)) \<and>
    length (tr_nodes r) \<le> max 1 (tc_max_total_entities cfg) \<and> tr_depth_reached r \<le> d \<and>
    entity_key ` set (tr_nodes r) \<subseteq>
      reach_upto (entity_neighbours db dir) start (tr_depth_reached r) - {start} \<and>
    (\<not> tr_truncated r \<longrightarrow>
       entity_key ` set (tr_nodes r) = reach_upto (entity_neighbours db dir) start d - {start})"
proof -
  from assms(1,2) have "entity_traverse_bfs cfg (entity_store db) start d dir = Inr r"
    unfolding d_def
    by (auto simp: entity_traverse_def clamp_depth_def map_sum_InR_conv split: if_splits)
  then obtain n s where run: "bfs_levels False entity_key relation_key cfg
      (\<lambda>ids. get_direct_relations_batch db ids dir) d 0 (bfs_init start) = Inr (n, s)"
    and r: "r = bfs_result False (n, s)"
    by (auto simp: entity_traverse_bfs_def entity_store_def map_sum_InR_conv)
  from entity_graph.bfs_from_start [OF run] show ?thesis
    by (simp add: r bfs_result_def)
qed

text \<open>The traversal of the code symbol graph has the same contract over the symbol edges, with
  its nodes identified by full record ids; the frontier it hands back for continuing the search
  consists of visited symbols only.\<close>
theorem symbol_traversal_exact:
  assumes "symbol_traverse cfg (symbol_store direct db) start depth dir = Some (Inr r)"
    and "tr_strategy_used r = Bfs"
  defines "d \<equiv> max 1 (min depth (tc_max_depth cfg))"
  shows "distinct (map symbol_key (tr_nodes r)) \<and> distinct (map symbol_relation_key (tr_relations r)) \<and>
    length (tr_nodes r) \<le> max 1 (tc_max_total_entities cfg) \<and> tr_depth_reached r \<le> d \<and>
    symbol_key ` set (tr_nodes r) \<subseteq>
      reach_upto (symbol_neighbours db dir) start (tr_depth_reached r) - {start} \<and>
    set (tr_frontier r) \<subseteq> insert start (symbol_key ` set (tr_nodes r)) \<and>
    (\<not> tr_truncated r \<longrightarrow>
       symbol_key ` set (tr_nodes r) = reach_upto (symbol_neighbours db dir) start d - {start})"
proof -
  from assms(1,2) have "symbol_traverse_bfs cfg (symbol_store direct db) start d dir = Inr r"
    unfolding d_def
    by (auto simp: symbol_traverse_def clamp_depth_def map_sum_InR_conv split: if_splits)
  then obtain n s where run: "bfs_levels True symbol_key symbol_relation_key cfg
      (\<lambda>ids. get_direct_symbol_relations_batch db ids dir) d 0 (bfs_init start) = Inr (n, s)"
    and r: "r = bfs_result True (n, s)"
    by (auto simp: symbol_traverse_bfs_def symbol_store_def map_sum_InR_conv)
  from symbol_graph.bfs_from_start [OF run] symbol_graph.bfs_frontier [OF run] show ?thesis
    by (simp add: r bfs_result_def)
qed

definition example_entity :: "string \<Rightarrow> entity" where
  "example_entity k = (entity_new 0 k)\<lparr>e_id := Some \<lparr>rid_table = ''entities'', rid_key = k\<rparr>\<rparr>"

definition example_relation :: "string \<Rightarrow> string \<Rightarrow> string \<Rightarrow> relation" where
  "example_relation i a b =
     \<lparr>r_id = Some \<lparr>rid_table = ''relations'', rid_key = i\<rparr>,
      r_from_entity = \<lparr>rid_table = ''entities'', rid_key = a\<rparr>,
      r_to_entity = \<lparr>rid_table = ''entities'', rid_key = b\<rparr>, r_relation_type = ''uses'',
      r_relation_class = RC_Observed, r_provenance = ImportedManual,
      r_confidence_class = CC_Extracted, r_freshness_generation = 0,
      r_staleness_state = SS_Current, r_weight = 1, r_valid_from = 0, r_valid_until = None\<rparr>"

definition example_db :: graph_db where
  "example_db = \<lparr>gd_entities = map example_entity [''a'', ''b'', ''c''],
     gd_relations = [example_relation ''r1'' ''a'' ''b'', example_relation ''r2'' ''b'' ''c''],
     gd_symbols = [], gd_symbol_relations = []\<rparr>"

definition summary :: "('n \<Rightarrow> string) \<Rightarrow> ('n, 'r) traversal_result app_result option \<Rightarrow>
    (string list \<times> bool \<times> bool \<times> nat) option" where
  "summary key t = (case t of
       Some (Inr r) \<Rightarrow> Some (map key (tr_nodes r), tr_strategy_used r = Bfs, tr_truncated r, tr_depth_reached r)
     | _ \<Rightarrow> None)"

lemma summary_Some:
  "summary key t = Some (ks, True, tr, d) \<Longrightarrow>
     \<exists>r. t = Some (Inr r) \<and> map key (tr_nodes r) = ks \<and> tr_strategy_used r = Bfs \<and>
         tr_truncated r = tr \<and> tr_depth_reached r = d"
  by (auto simp: summary_def split: option.splits sum.splits)

theorem entity_traversal_exact_witness:
  "reach_upto (entity_neighbours example_db Outgoing) ''a'' 2 - {''a''} = {''b'', ''c''}"
proof -
  have "summary entity_key (entity_traverse traversal_config_default (entity_store example_db) ''a'' 2 Outgoing) =
      Some ([''b'', ''c''], True, False, 2)"
    by code_simp
  then obtain r where r: "entity_traverse traversal_config_default (entity_store example_db) ''a'' 2 Outgoing
        = Some (Inr r)" "map entity_key (tr_nodes r) = [''b'', ''c'']" "tr_strategy_used r = Bfs"
      "\<not> tr_truncated r"
    by (elim summary_Some [elim_format] exE conjE) simp
  from entity_traversal_exact [OF r(1,3)] r(4)
  have "entity_key ` set (tr_nodes r) = reach_upto (entity_neighbours example_db Outgoing) ''a'' 2 - {''a''}"
    by (simp add: traversal_config_default_def numeral_2_eq_2)
  moreover have "entity_key ` set (tr_nodes r) = {''b'', ''c''}"
    using arg_cong [OF r(2), of set] by simp
  ultimately show ?thesis by simp
qed

theorem symbol_traversal_exact_witness:
  "symbol_key ` {} = reach_upto (symbol_neighbours example_db Both) ''code_symbols:x'' 3 - {''code_symbols:x''}"
proof -
  have "summary symbol_key (symbol_traverse traversal_config_default
      (symbol_store (\<lambda>_ _. Inr ([], [])) example_db) ''code_symbols:x'' 3 Both) = Some ([], True, False, 1)"
    by code_simp
  then obtain r where r: "symbol_traverse traversal_config_default
      (symbol_store (\<lambda>_ _. Inr ([], [])) example_db) ''code_symbols:x'' 3 Both = Some (Inr r)"
      "map symbol_key (tr_nodes r) = []" "tr_strategy_used r = Bfs" "\<not> tr_truncated r"
    by (elim summary_Some [elim_format] exE conjE) simp
  from symbol_traversal_exact [OF r(1,3)] r(2,4) show ?thesis
    by (simp add: traversal_config_default_def)
qed

end
