(* ===== verification/SymbolIndex.thy ===== *)
theory SymbolIndex
  imports GraphTypes ProjectPaths
begin

text \<open>
  \<open>src/codebase/symbol_index.rs\<close>: the in-memory index that resolves a symbol name to the best
  candidate for a calling file. Paths are compared by their parent directory as \<open>std::path\<close>
  does, on components.
\<close>

section \<open>Path text\<close>

fun split_slash :: "string \<Rightarrow> string list" where
  "split_slash [] = [[]]"
| "split_slash (x # xs) =
     (if x = CHR ''/'' then [] # split_slash xs
      else case split_slash xs of [] \<Rightarrow> [[x]] | p # ps \<Rightarrow> (x # p) # ps)"

fun component_of :: "string \<Rightarrow> component" where
  "component_of s = (if s = ''..'' then ParentDir else Normal s)"

text \<open>\<open>Path::components\<close> on Unix: a leading separator is the root, a leading dot is kept, empty
  and later dot components are dropped.\<close>

definition path_components :: "string \<Rightarrow> path" where
  "path_components s =
     (let parts = split_slash s;
          rooted = (s \<noteq> [] \<and> hd s = CHR ''/'');
          body = map component_of (filter (\<lambda>p. p \<noteq> [] \<and> p \<noteq> ''.'') parts)
      in (if rooted then [RootDir] else if parts \<noteq> [] \<and> hd parts = ''.'' then [CurDir] else []) @ body)"

definition same_directory :: "string \<Rightarrow> string \<Rightarrow> bool" where
  "same_directory path1 path2 =
     (let parent1 = path_parent (path_components path1);
          parent2 = path_parent (path_components path2)
      in parent1 \<noteq> None \<and> parent1 = parent2)"

section \<open>The index\<close>

record resolution_context =
  rc_caller_file :: string

record symbol_index =
  si_by_name :: "(string, symbol_ref list) hmap"

definition symbol_index_new :: symbol_index where
  "symbol_index_new = \<lparr>si_by_name = []\<rparr>"

definition index_add :: "symbol_index \<Rightarrow> code_symbol \<Rightarrow> symbol_index" where
  "index_add ix s =
     (let sym_ref = symbol_ref_from_symbol s;
          entry = (case hm_get (si_by_name ix) (s_name s) of Some refs \<Rightarrow> refs | None \<Rightarrow> [])
      in ix\<lparr>si_by_name := hm_insert (s_name s) (entry @ [sym_ref]) (si_by_name ix)\<rparr>)"

definition index_add_batch :: "symbol_index \<Rightarrow> code_symbol list \<Rightarrow> symbol_index" where
  "index_add_batch ix syms = foldl index_add ix syms"

definition resolution_score :: "symbol_ref \<Rightarrow> resolution_context \<Rightarrow> int" where
  "resolution_score r ctx =
     (if sr_file_path r = rc_caller_file ctx then 100
      else if same_directory (sr_file_path r) (rc_caller_file ctx) then 50
      else 0)"

definition index_resolve :: "symbol_index \<Rightarrow> string \<Rightarrow> resolution_context \<Rightarrow> symbol_ref option" where
  "index_resolve ix name ctx =
     (case hm_get (si_by_name ix) name of
        None \<Rightarrow> None
      | Some candidates \<Rightarrow>
          map_option snd (max_by_key fst (map (\<lambda>r. (resolution_score r ctx, r)) candidates)))"

definition index_get_all :: "symbol_index \<Rightarrow> string \<Rightarrow> symbol_ref list option" where
  "index_get_all ix name = hm_get (si_by_name ix) name"

definition index_len :: "symbol_index \<Rightarrow> nat" where
  "index_len ix = length (si_by_name ix)"

definition index_is_empty :: "symbol_index \<Rightarrow> bool" where
  "index_is_empty ix \<longleftrightarrow> si_by_name ix = []"

section \<open>Candidates\<close>

definition candidates_of :: "code_symbol list \<Rightarrow> string \<Rightarrow> symbol_ref list" where
  "candidates_of syms name = map symbol_ref_from_symbol (filter (\<lambda>s. s_name s = name) syms)"

lemma index_add_get:
  "hm_get (si_by_name (index_add ix s)) name =
     (if name = s_name s
      then Some ((case hm_get (si_by_name ix) name of Some refs \<Rightarrow> refs | None \<Rightarrow> []) @ [symbol_ref_from_symbol s])
      else hm_get (si_by_name ix) name)"
  by (simp add: index_add_def Let_def)

lemma index_add_batch_get:
  "hm_get (si_by_name (index_add_batch symbol_index_new syms)) name =
     (if candidates_of syms name = [] then None else Some (candidates_of syms name))"
proof (induction syms rule: rev_induct)
  case Nil
  then show ?case by (simp add: index_add_batch_def candidates_of_def symbol_index_new_def)
next
  case (snoc s syms)
  have "index_add_batch symbol_index_new (syms @ [s]) = index_add (index_add_batch symbol_index_new syms) s"
    by (simp add: index_add_batch_def)
  with snoc show ?case by (auto simp: index_add_get candidates_of_def)
qed

text \<open>Resolving a name in the index of some symbols fails exactly when no symbol has the name.
  Otherwise it returns a symbol of that name, from the caller's own file when there is one, else
  from the caller's directory when there is one.\<close>
theorem resolve_prefers_near:
  "(index_resolve (index_add_batch symbol_index_new syms) name ctx = None \<longleftrightarrow>
      (\<forall>s\<in>set syms. s_name s \<noteq> name)) \<and>
   (\<forall>r. index_resolve (index_add_batch symbol_index_new syms) name ctx = Some r \<longrightarrow>
      r \<in> set (candidates_of syms name) \<and>
      ((\<exists>c\<in>set (candidates_of syms name). sr_file_path c = rc_caller_file ctx) \<longrightarrow>
         sr_file_path r = rc_caller_file ctx) \<and>
      ((\<exists>c\<in>set (candidates_of syms name). same_directory (sr_file_path c) (rc_caller_file ctx)) \<longrightarrow>
         sr_file_path r = rc_caller_file ctx \<or> same_directory (sr_file_path r) (rc_caller_file ctx)))"
proof -
  let ?c = "candidates_of syms name" and ?s = "\<lambda>r. (resolution_score r ctx, r)"
  have res: "index_resolve (index_add_batch symbol_index_new syms) name ctx =
      map_option snd (max_by_key fst (map ?s ?c))"
    by (auto simp: index_resolve_def index_add_batch_get)
  have best: "r \<in> set ?c \<and> (\<forall>c\<in>set ?c. resolution_score c ctx \<le> resolution_score r ctx)"
    if "map_option snd (max_by_key fst (map ?s ?c)) = Some r" for r
    using that max_by_key_Some [of fst "map ?s ?c"] by fastforce
  have none: "?c = [] \<longleftrightarrow> (\<forall>s\<in>set syms. s_name s \<noteq> name)"
    by (auto simp: candidates_of_def filter_empty_conv)
  show ?thesis
    unfolding res none [symmetric] using best
    by (fastforce simp: resolution_score_def split: if_splits)
qed

definition resolve_example :: "code_symbol list" where
  "resolve_example = [code_symbol_new 0 ''f'' SymFunction ''src/a.rs'' 1 2 ''p'',
     code_symbol_new 0 ''f'' SymFunction ''lib/b.rs'' 1 2 ''p'']"

theorem resolve_prefers_near_witness:
  "\<exists>r. index_resolve (index_add_batch symbol_index_new resolve_example) ''f'' \<lparr>rc_caller_file = ''src/c.rs''\<rparr>
     = Some r \<and> (sr_file_path r = ''src/c.rs'' \<or> same_directory (sr_file_path r) ''src/c.rs'')"
proof -
  have 1: "\<exists>c\<in>set (candidates_of resolve_example ''f''). same_directory (sr_file_path c) ''src/c.rs''"
    by code_simp
  have 2: "\<not> (\<forall>s\<in>set resolve_example. s_name s \<noteq> ''f'')" by code_simp
  note R = resolve_prefers_near [of resolve_example "''f''" "\<lparr>rc_caller_file = ''src/c.rs''\<rparr>"]
  from R 2 obtain r where
    "index_resolve (index_add_batch symbol_index_new resolve_example) ''f'' \<lparr>rc_caller_file = ''src/c.rs''\<rparr> = Some r"
    by blast
  with R 1 show ?thesis by auto
qed

end
