(* ===== verification/Freshness.thy ===== *)
theory Freshness
  imports IndexJobs GraphTypes ProjectPaths
begin

text \<open>
  \<open>src/codebase/freshness.rs\<close>: how fresh the indexed facts about a file are, given the
  checkpoints of the generation that serves reads and of the one being indexed. The two checkpoint
  queries of the storage are function arguments.
\<close>

definition normalize_file_path :: "string \<Rightarrow> string" where
  "normalize_file_path p = map (\<lambda>c. if c = CHR 0x5C then CHR ''/'' else c) p"

definition normalize_changed_paths :: "string list \<Rightarrow> string set" where
  "normalize_changed_paths ps = set (map normalize_file_path ps)"

definition checkpoint_path :: "file_checkpoint \<Rightarrow> string" where
  "checkpoint_path c =
     (if fc_relative_file_path c = [] then normalize_file_path (fc_file_path c)
      else normalize_file_path (fc_relative_file_path c))"

definition checkpoint_is_pending :: "file_checkpoint \<Rightarrow> bool" where
  "checkpoint_is_pending c \<longleftrightarrow> \<not> fc_completed c"

definition checkpoints_match :: "file_checkpoint \<Rightarrow> file_checkpoint \<Rightarrow> bool" where
  "checkpoints_match serving indexing \<longleftrightarrow>
     fc_content_hash serving \<noteq> [] \<and> fc_content_hash serving = fc_content_hash indexing \<and>
     checkpoint_path serving = checkpoint_path indexing"

definition classify_file_freshness ::
  "(u64 \<Rightarrow> string \<Rightarrow> file_checkpoint option app_result) \<Rightarrow> string \<Rightarrow> u64 \<Rightarrow> u64 option \<Rightarrow>
   capability_freshness app_result" where
  "classify_file_freshness get_file_checkpoint file_path serving_gen indexing_gen =
     (let normalized_path = normalize_file_path file_path in
      case get_file_checkpoint serving_gen normalized_path of
        Inl e \<Rightarrow> Inl e
      | Inr None \<Rightarrow> Inr Unavailable
      | Inr (Some serving_checkpoint) \<Rightarrow>
          (case indexing_gen of
             None \<Rightarrow> Inr Fresh
           | Some indexing_gen \<Rightarrow>
               if indexing_gen = serving_gen then Inr Fresh
               else (case get_file_checkpoint indexing_gen normalized_path of
                       Inl e \<Rightarrow> Inl e
                     | Inr (Some indexing_checkpoint) \<Rightarrow>
                         if checkpoint_is_pending indexing_checkpoint then Inr Partial
                         else if checkpoints_match serving_checkpoint indexing_checkpoint then Inr Fresh
                         else Inr Stale
                     | Inr None \<Rightarrow> Inr Fresh)))"

definition freshness_of_entry ::
  "(string, file_checkpoint) hmap \<Rightarrow> string set \<Rightarrow> file_checkpoint \<Rightarrow> capability_freshness" where
  "freshness_of_entry indexing_by_path changed serving_checkpoint =
     (let path = checkpoint_path serving_checkpoint in
      case hm_get indexing_by_path path of
        Some indexing_checkpoint \<Rightarrow>
          if checkpoint_is_pending indexing_checkpoint then Partial
          else if checkpoints_match serving_checkpoint indexing_checkpoint then Fresh
          else Stale
      | None \<Rightarrow> if path \<in> changed then Stale else Fresh)"

definition build_freshness_map ::
  "(u64 \<Rightarrow> file_checkpoint list app_result) \<Rightarrow> u64 option \<Rightarrow> u64 option \<Rightarrow> string list \<Rightarrow>
   (string, capability_freshness) hmap app_result" where
  "build_freshness_map list_file_checkpoints serving_gen indexing_gen changed_paths =
     (case serving_gen of
        None \<Rightarrow> Inr (foldl (\<lambda>m p. hm_insert (normalize_file_path p) Unavailable m) [] changed_paths)
      | Some serving_gen \<Rightarrow>
          (let changed = remdups (map normalize_file_path changed_paths);
               m0 = foldl (\<lambda>m p. hm_insert p Stale m) [] changed
           in case list_file_checkpoints serving_gen of
                Inl e \<Rightarrow> Inl e
              | Inr serving_checkpoints \<Rightarrow>
                  (case (case indexing_gen of
                           Some g \<Rightarrow> if g \<noteq> serving_gen then list_file_checkpoints g else Inr []
                         | None \<Rightarrow> Inr []) of
                     Inl e \<Rightarrow> Inl e
                   | Inr indexing_checkpoints \<Rightarrow>
                       (let indexing_by_path =
                              foldl (\<lambda>m c. hm_insert (checkpoint_path c) c m) [] indexing_checkpoints
                        in Inr (foldl (\<lambda>m c. hm_insert (checkpoint_path c)
                                          (freshness_of_entry indexing_by_path (set changed) c) m)
                                  m0 serving_checkpoints)))))"

definition classify_symbol_freshness ::
  "code_symbol \<Rightarrow> (string, capability_freshness) hmap \<Rightarrow> capability_freshness" where
  "classify_symbol_freshness s m =
     (case hm_get m (normalize_file_path (s_file_path s)) of Some f \<Rightarrow> f | None \<Rightarrow> Unavailable)"

definition classify_path_from_map ::
  "string \<Rightarrow> (string, capability_freshness) hmap \<Rightarrow> capability_freshness option" where
  "classify_path_from_map p m = hm_get m (normalize_file_path p)"

section \<open>Maps built by insertion\<close>

lemma normalize_idem [simp]: "normalize_file_path (normalize_file_path p) = normalize_file_path p"
  by (simp add: normalize_file_path_def)

lemma checkpoint_path_normal [simp]: "normalize_file_path (checkpoint_path c) = checkpoint_path c"
  by (simp add: checkpoint_path_def)

lemma foldl_insert_get:
  assumes "distinct (map k xs)"
  shows "hm_get (foldl (\<lambda>m x. hm_insert (k x) (v x) m) m0 xs) y =
    (case find (\<lambda>x. k x = y) xs of Some x \<Rightarrow> Some (v x) | None \<Rightarrow> hm_get m0 y)"
  using assms
proof (induction xs arbitrary: m0)
  case (Cons x xs)
  show ?case
  proof (cases "k x = y")
    case True
    with Cons.prems have "find (\<lambda>x. k x = y) xs = None" unfolding find_None_iff by (metis distinct.simps(2) image_eqI list.simps(9) set_map)
    with True Cons show ?thesis by simp
  next
    case False
    with Cons show ?thesis by (auto split: option.splits)
  qed
qed simp

section \<open>The two classifications agree\<close>

text \<open>A storage whose single-file query finds the checkpoint with that path in its listing, one per
  path: what the record ids and the query of the storage give.\<close>

definition checkpoint_queries_agree ::
  "(u64 \<Rightarrow> string \<Rightarrow> file_checkpoint option app_result) \<Rightarrow> (u64 \<Rightarrow> file_checkpoint list app_result) \<Rightarrow> bool" where
  "checkpoint_queries_agree get_fc list_fc \<longleftrightarrow>
     (\<forall>g. case list_fc g of
            Inl e \<Rightarrow> \<forall>p. get_fc g p = Inl e
          | Inr cs \<Rightarrow> distinct (map checkpoint_path cs) \<and>
              (\<forall>p. get_fc g p = Inr (find (\<lambda>c. checkpoint_path c = p) cs)))"

lemma checkpoint_queriesD:
  assumes "checkpoint_queries_agree get_fc list_fc" "list_fc g = Inr cs"
  shows "distinct (map checkpoint_path cs)" "get_fc g p = Inr (find (\<lambda>c. checkpoint_path c = p) cs)"
  using assms unfolding checkpoint_queries_agree_def by (force dest!: spec [of _ g])+

lemma build_freshness_map_get:
  assumes "build_freshness_map list_fc (Some sg) ig changed = Inr m"
    and "checkpoint_queries_agree get_fc list_fc"
    and unchanged: "normalize_file_path p \<notin> normalize_changed_paths changed"
  shows "(case classify_path_from_map p m of Some f \<Rightarrow> f | None \<Rightarrow> Unavailable) =
     projr (classify_file_freshness get_fc p sg ig) \<and> isl (classify_file_freshness get_fc p sg ig) = False"
proof -
  let ?p = "normalize_file_path p"
  from assms(1) obtain scs where scs: "list_fc sg = Inr scs"
    by (auto simp: build_freshness_map_def Let_def split: sum.splits)
  from assms(1) scs obtain ics where
    ics: "(case ig of Some g \<Rightarrow> if g \<noteq> sg then list_fc g else Inr [] | None \<Rightarrow> Inr []) = Inr ics"
    and m: "m = foldl (\<lambda>m c. hm_insert (checkpoint_path c)
        (freshness_of_entry (foldl (\<lambda>m c. hm_insert (checkpoint_path c) c m) [] ics)
          (set (remdups (map normalize_file_path changed))) c) m)
      (foldl (\<lambda>m p. hm_insert p Stale m) [] (remdups (map normalize_file_path changed))) scs"
    by (auto simp: build_freshness_map_def Let_def split: sum.splits)
  note S = checkpoint_queriesD [OF assms(2) scs]
  have I: "distinct (map checkpoint_path ics)"
    using ics checkpoint_queriesD(1) [OF assms(2)] by (auto split: option.splits if_splits)
  have base: "hm_get (foldl (\<lambda>m p. hm_insert p Stale m) [] (remdups (map normalize_file_path changed))) ?p = None"
  proof -
    have "find (\<lambda>x. x = ?p) (remdups (map normalize_file_path changed)) = None"
      using unchanged unfolding normalize_changed_paths_def find_None_iff by (metis set_map set_remdups)
    then show ?thesis
      using foldl_insert_get [of "\<lambda>x. x" "remdups (map normalize_file_path changed)" "\<lambda>_. Stale" "[]" ?p] by simp
  qed
  have get_m: "hm_get m ?p = (case find (\<lambda>c. checkpoint_path c = ?p) scs of
      Some c \<Rightarrow> Some (freshness_of_entry (foldl (\<lambda>m c. hm_insert (checkpoint_path c) c m) [] ics)
          (set (remdups (map normalize_file_path changed))) c) | None \<Rightarrow> None)"
    unfolding m foldl_insert_get [OF S(1)] base ..
  have get_i: "hm_get (foldl (\<lambda>m c. hm_insert (checkpoint_path c) c m) [] ics) ?p =
      find (\<lambda>c. checkpoint_path c = ?p) ics"
    using foldl_insert_get [OF I, of "\<lambda>c. c" "[]" ?p] by (simp split: option.splits)
  show ?thesis
  proof (cases "find (\<lambda>c. checkpoint_path c = ?p) scs")
    case None
    with S(2) [of ?p] get_m show ?thesis
      by (simp add: classify_path_from_map_def classify_file_freshness_def Let_def)
  next
    case (Some c)
    then have cp: "checkpoint_path c = ?p" by (auto simp: find_Some_iff)
    have "freshness_of_entry (foldl (\<lambda>m c. hm_insert (checkpoint_path c) c m) [] ics)
          (set (remdups (map normalize_file_path changed))) c =
        (case find (\<lambda>c. checkpoint_path c = ?p) ics of
           Some i \<Rightarrow> if checkpoint_is_pending i then Partial else if checkpoints_match c i then Fresh else Stale
         | None \<Rightarrow> Fresh)"
      using unchanged unfolding freshness_of_entry_def Let_def cp get_i
      by (auto simp: normalize_changed_paths_def split: option.splits)
    moreover have "get_fc g ?p = Inr (find (\<lambda>c. checkpoint_path c = ?p) ics)" if "ig = Some g" "g \<noteq> sg" for g
      using ics that checkpoint_queriesD(2) [OF assms(2)] by simp
    moreover have "ics = []" if "ig = None \<or> ig = Some sg"
      using ics that by auto
    ultimately show ?thesis
      using Some S(2) [of ?p] get_m
      by (auto simp: classify_path_from_map_def classify_file_freshness_def Let_def split: option.splits)
  qed
qed

text \<open>For a file that is not among the changed paths, the freshness a symbol of the file gets from
  the bulk map is the verdict the single-file query computes, in every case (not indexed, no indexing
  in progress, pending, matching or differing content): the two implementations cannot disagree.\<close>
theorem freshness_map_agrees:
  assumes "build_freshness_map list_fc (Some sg) ig changed = Inr m"
    and "checkpoint_queries_agree get_fc list_fc"
    and "normalize_file_path (s_file_path s) \<notin> normalize_changed_paths changed"
  shows "classify_file_freshness get_fc (s_file_path s) sg ig = Inr (classify_symbol_freshness s m)"
  using build_freshness_map_get [OF assms]
  by (cases "classify_file_freshness get_fc (s_file_path s) sg ig")
    (auto simp: classify_symbol_freshness_def classify_path_from_map_def)

definition freshness_example_checkpoint :: "u64 \<Rightarrow> string \<Rightarrow> file_checkpoint" where
  "freshness_example_checkpoint g h = \<lparr>fc_id = None, fc_job_id = ''j'', fc_project_id = ''p'',
     fc_generation = g, fc_relative_file_path = ''a.rs'', fc_file_path = ''a.rs'', fc_content_hash = h,
     fc_checkpoint_generation = g, fc_phase = Parse, fc_completed = True, fc_completed_at = 0,
     fc_chunks_written = 0, fc_symbols_written = 0, fc_updated_at = 0\<rparr>"

theorem freshness_map_agrees_witness:
  "\<exists>m. classify_file_freshness
         (\<lambda>g p. Inr (find (\<lambda>c. checkpoint_path c = p) [freshness_example_checkpoint g ''h'']))
         ''a.rs'' 1 (Some 2) =
       Inr (classify_symbol_freshness (code_symbol_new 0 ''f'' SymFunction ''a.rs'' 1 2 ''p'') m)"
proof -
  let ?l = "\<lambda>g. Inr [freshness_example_checkpoint g ''h''] :: file_checkpoint list app_result"
  let ?g = "\<lambda>g p. Inr (find (\<lambda>c. checkpoint_path c = p) [freshness_example_checkpoint g ''h'']) :: file_checkpoint option app_result"
  let ?s = "code_symbol_new 0 ''f'' SymFunction ''a.rs'' 1 2 ''p''"
  obtain m where m: "build_freshness_map ?l (Some 1) (Some 2) [] = Inr m"
    by (simp add: build_freshness_map_def Let_def)
  have "checkpoint_queries_agree ?g ?l" by (simp add: checkpoint_queries_agree_def)
  from freshness_map_agrees [OF m this, of ?s] show ?thesis
    by (auto simp: normalize_changed_paths_def code_symbol_new_def)
qed

lemma freshness_changed_paths:
  assumes "build_freshness_map list_fc (Some sg) None changed = Inr m"
    and "list_fc sg = Inr cs" "distinct (map checkpoint_path cs)"
    and "p \<in> normalize_changed_paths changed"
  shows "hm_get m p = Some Stale"
proof -
  let ?ch = "remdups (map normalize_file_path changed)"
  from assms(4) have "p \<in> set ?ch" by (simp add: normalize_changed_paths_def)
  then have "find (\<lambda>x. x = p) ?ch \<noteq> None" by (auto simp: find_None_iff)
  then have base: "hm_get (foldl (\<lambda>m p. hm_insert p Stale m) [] ?ch) p = Some Stale"
    using foldl_insert_get [of "\<lambda>x. x" ?ch "\<lambda>_. Stale" "[]" p] by auto
  have m: "m = foldl (\<lambda>m c. hm_insert (checkpoint_path c) (freshness_of_entry [] (set ?ch) c) m)
      (foldl (\<lambda>m p. hm_insert p Stale m) [] ?ch) cs"
    using assms(1,2) by (simp add: build_freshness_map_def Let_def)
  show ?thesis
    using \<open>p \<in> set ?ch\<close>
    unfolding m foldl_insert_get [OF assms(3)] base
    by (auto simp: freshness_of_entry_def find_Some_iff split: option.splits)
qed

end
