(* ===== verification/MemoryStore.thy ===== *)
theory MemoryStore
  imports AppTypes
begin

text \<open>
  The memory table and its operations: \<open>src/storage/surrealdb/memory_ops.rs\<close>, with the query types
  of \<open>src/types/search.rs\<close> and \<open>src/storage/traits.rs\<close>. The table is a map from record keys
  to rows; its order is the order in which the database returns rows with equal sort keys. A
  statement of the source is the function its text states: \<open>WHERE\<close> a filter, \<open>ORDER BY\<close> a stable
  sort, \<open>LIMIT\<close> and \<open>START\<close> a page, \<open>CREATE\<close> fails on an existing key, \<open>UPDATE\<close> touches existing
  rows only. \<open>time::now()\<close> is the argument \<open>now\<close>. Writes that follow one another in a loop, without a
  transaction, take an argument for the errors with which the database answers them.
\<close>

type_synonym memory_table = "(string, memory) hmap"

text \<open>The error with which the database answers the write of a row, if it fails.\<close>

type_synonym write_faults = "string \<Rightarrow> app_error option"

abbreviation no_faults :: write_faults where
  "no_faults \<equiv> \<lambda>i. None"

section \<open>Queries\<close>

record memory_query =
  mq_user_id :: "string option"
  mq_agent_id :: "string option"
  mq_run_id :: "string option"
  mq_namespace :: "string option"
  mq_memory_type :: "memory_type option"
  mq_metadata_filter :: "json option"
  mq_valid_at :: "datetime option"
  mq_event_after :: "datetime option"
  mq_event_before :: "datetime option"
  mq_ingestion_after :: "datetime option"
  mq_ingestion_before :: "datetime option"

definition memory_query_default :: memory_query where
  "memory_query_default =
     \<lparr>mq_user_id = None, mq_agent_id = None, mq_run_id = None, mq_namespace = None,
      mq_memory_type = None, mq_metadata_filter = None, mq_valid_at = None, mq_event_after = None,
      mq_event_before = None, mq_ingestion_after = None, mq_ingestion_before = None\<rparr>"

definition uses_metadata_post_filter :: "memory_query \<Rightarrow> bool" where
  "uses_metadata_post_filter q \<longleftrightarrow> mq_metadata_filter q \<noteq> None"

definition is_unfiltered :: "memory_query \<Rightarrow> bool" where
  "is_unfiltered q \<longleftrightarrow>
     mq_user_id q = None \<and> mq_agent_id q = None \<and> mq_run_id q = None \<and> mq_namespace q = None \<and>
     mq_memory_type q = None \<and> mq_metadata_filter q = None \<and> mq_valid_at q = None \<and>
     mq_event_after q = None \<and> mq_event_before q = None \<and> mq_ingestion_after q = None \<and>
     mq_ingestion_before q = None"

record memory_gc_filter =
  gf_namespace :: "string option"
  gf_memory_type :: "memory_type option"
  gf_invalidation_reason :: "string option"
  gf_invalidated_before :: "datetime option"

record memory_gc_reason_count =
  gr_reason :: "string option"
  gr_count :: nat

record capacity_candidate =
  cc_id :: string
  cc_memory_type :: memory_type
  cc_event_time :: "datetime option"
  cc_ingestion_time :: "datetime option"
  cc_access_count :: u32
  cc_last_accessed_at :: "datetime option"
  cc_importance_score :: real

text \<open>The disjuncts \<open>$x IS NONE OR column = $x\<close> of the filter clauses.\<close>

definition unset_or :: "'a option \<Rightarrow> ('a \<Rightarrow> bool) \<Rightarrow> bool" where
  "unset_or x P = (case x of None \<Rightarrow> True | Some v \<Rightarrow> P v)"

definition scope_clause :: "memory_query \<Rightarrow> memory \<Rightarrow> bool" where
  "scope_clause q m \<longleftrightarrow>
     unset_or (mq_user_id q) (\<lambda>v. m_user_id m = Some v) \<and>
     unset_or (mq_agent_id q) (\<lambda>v. m_agent_id m = Some v) \<and>
     unset_or (mq_run_id q) (\<lambda>v. m_run_id m = Some v) \<and>
     unset_or (mq_namespace q) (\<lambda>v. m_namespace m = Some v) \<and>
     unset_or (mq_memory_type q) (\<lambda>v. m_memory_type m = v) \<and>
     unset_or (mq_event_after q) (\<lambda>v. m_event_time m \<ge> v) \<and>
     unset_or (mq_event_before q) (\<lambda>v. m_event_time m \<le> v) \<and>
     unset_or (mq_ingestion_after q) (\<lambda>v. m_ingestion_time m \<ge> v) \<and>
     unset_or (mq_ingestion_before q) (\<lambda>v. m_ingestion_time m \<le> v)"

definition not_ended :: "datetime \<Rightarrow> memory \<Rightarrow> bool" where
  "not_ended ts m \<longleftrightarrow> unset_or (m_valid_until m) (\<lambda>u. u > ts)"

definition base_filter_clause :: "datetime \<Rightarrow> memory_query \<Rightarrow> memory \<Rightarrow> bool" where
  "base_filter_clause reference_time q m \<longleftrightarrow>
     ((mq_valid_at q = None \<and> not_ended reference_time m) \<or>
      (case mq_valid_at q of None \<Rightarrow> False | Some ts \<Rightarrow> m_valid_from m \<le> ts \<and> not_ended ts m)) \<and>
     scope_clause q m"

definition gc_filter_clause :: "memory_gc_filter \<Rightarrow> memory \<Rightarrow> bool" where
  "gc_filter_clause f m \<longleftrightarrow>
     m_valid_until m \<noteq> None \<and>
     unset_or (gf_namespace f) (\<lambda>v. m_namespace m = Some v) \<and>
     unset_or (gf_memory_type f) (\<lambda>v. m_memory_type m = v) \<and>
     unset_or (gf_invalidation_reason f) (\<lambda>v. m_invalidation_reason m = Some v) \<and>
     unset_or (gf_invalidated_before f) (\<lambda>v. case m_valid_until m of None \<Rightarrow> False | Some u \<Rightarrow> u \<le> v)"

function json_contains :: "json \<Rightarrow> json \<Rightarrow> bool" where
  "json_contains candidate filter_value =
     (case (candidate, filter_value) of
        (JObj candidate_map, JObj filter_map) \<Rightarrow>
          list_all (\<lambda>(key, fv). case map_of candidate_map key of
                                  Some cv \<Rightarrow> json_contains cv fv
                                | None \<Rightarrow> False) filter_map
      | (JArr candidate_items, JArr filter_items) \<Rightarrow>
          list_all (\<lambda>fi. list_ex (\<lambda>ci. json_contains ci fi) candidate_items) filter_items
      | _ \<Rightarrow> candidate = filter_value)"
  by pat_completeness auto
termination
  by (relation "measure (\<lambda>(c, f). size f)")
    (auto simp: less_Suc_eq_le elim!: size_list_estimation' dest!: size_list_estimation' [where f = "size_prod (\<lambda>_. 0) size", OF _ order_refl])

declare json_contains.simps [simp del]

definition metadata_matches :: "json option \<Rightarrow> json option \<Rightarrow> bool" where
  "metadata_matches candidate filter_value =
     (case filter_value of
        None \<Rightarrow> True
      | Some f \<Rightarrow> (case candidate of Some c \<Rightarrow> json_contains c f | None \<Rightarrow> False))"

section \<open>Reading\<close>

text \<open>\<open>SELECT ... WHERE P\<close> and \<open>ORDER BY ingestion_time DESC\<close>.\<close>

definition select_rows :: "(memory \<Rightarrow> bool) \<Rightarrow> memory_table \<Rightarrow> memory list" where
  "select_rows P t = filter P (map snd t)"

definition newest_first :: "memory list \<Rightarrow> memory list" where
  "newest_first = sort_by (\<lambda>a b. m_ingestion_time b \<le> m_ingestion_time a)"

definition retain_metadata :: "memory_query \<Rightarrow> memory list \<Rightarrow> memory list" where
  "retain_metadata q = filter (\<lambda>m. metadata_matches (m_metadata m) (mq_metadata_filter q))"

definition get_memory :: "memory_table \<Rightarrow> string \<Rightarrow> memory option" where
  "get_memory t i =
     map_option (\<lambda>m. m\<lparr>m_id := Some \<lparr>rid_table = ''memories'', rid_key = i\<rparr>\<rparr>) (hm_get t i)"

definition list_memories :: "datetime \<Rightarrow> memory_query \<Rightarrow> nat \<Rightarrow> nat \<Rightarrow> memory_table \<Rightarrow> memory list" where
  "list_memories now q limit offset t =
     retain_metadata q
       (take limit (drop offset (newest_first (select_rows (base_filter_clause now q) t))))"

definition count_memories :: "memory_table \<Rightarrow> nat" where
  "count_memories t = length t"

definition list_memory_ids :: "datetime \<Rightarrow> memory_query \<Rightarrow> memory_table \<Rightarrow> string list" where
  "list_memory_ids now q t = map fst (filter (\<lambda>(k, m). base_filter_clause now q m) t)"

definition count_memories_filtered :: "datetime \<Rightarrow> memory_query \<Rightarrow> memory_table \<Rightarrow> nat" where
  "count_memories_filtered now q t =
     (let count = length (select_rows (base_filter_clause now q) t)
      in if mq_metadata_filter q = None then count
         else length (retain_metadata q (select_rows (base_filter_clause now q) t)))"

definition count_valid_memories :: "datetime \<Rightarrow> memory_table \<Rightarrow> nat" where
  "count_valid_memories now t = length (select_rows (not_ended now) t)"

definition list_invalidated_memories_for_gc ::
  "memory_gc_filter \<Rightarrow> nat \<Rightarrow> nat \<Rightarrow> memory_table \<Rightarrow> memory list" where
  "list_invalidated_memories_for_gc f limit offset t =
     take limit (drop offset
       (sort_by (\<lambda>a b. the (m_valid_until a) \<le> the (m_valid_until b)) (select_rows (gc_filter_clause f) t)))"

definition count_invalidated_memories_for_gc :: "memory_gc_filter \<Rightarrow> memory_table \<Rightarrow> nat" where
  "count_invalidated_memories_for_gc f t = length (select_rows (gc_filter_clause f) t)"

definition count_invalidated_memories_by_reason ::
  "memory_gc_filter \<Rightarrow> memory_table \<Rightarrow> memory_gc_reason_count list" where
  "count_invalidated_memories_by_reason f t =
     (let reasons = map m_invalidation_reason (select_rows (gc_filter_clause f) t)
      in map (\<lambda>r. \<lparr>gr_reason = r, gr_count = count_list reasons r\<rparr>) (remdups reasons))"

definition capacity_candidate_of :: "string \<times> memory \<Rightarrow> capacity_candidate" where
  "capacity_candidate_of row =
     (case row of (k, m) \<Rightarrow>
       \<lparr>cc_id = k, cc_memory_type = m_memory_type m, cc_event_time = Some (m_event_time m),
        cc_ingestion_time = Some (m_ingestion_time m), cc_access_count = m_access_count m,
        cc_last_accessed_at = m_last_accessed_at m, cc_importance_score = m_importance_score m\<rparr>)"

definition list_capacity_candidates :: "datetime \<Rightarrow> memory_table \<Rightarrow> capacity_candidate list" where
  "list_capacity_candidates now t =
     map capacity_candidate_of (filter (\<lambda>(k, m). not_ended now m) t)"

definition get_memory_last_accessed_at :: "memory_table \<Rightarrow> string \<Rightarrow> datetime option" where
  "get_memory_last_accessed_at t i =
     (case hm_get t i of Some m \<Rightarrow> m_last_accessed_at m | None \<Rightarrow> None)"

definition find_memories_by_content_hash ::
  "datetime \<Rightarrow> memory_query \<Rightarrow> string \<Rightarrow> memory_table \<Rightarrow> memory list" where
  "find_memories_by_content_hash now q h t =
     retain_metadata q (newest_first
       (select_rows (\<lambda>m. m_content_hash m = Some h \<and> base_filter_clause now q m) t))"

definition get_valid :: "datetime \<Rightarrow> memory_query \<Rightarrow> nat \<Rightarrow> memory_table \<Rightarrow> memory list" where
  "get_valid now q limit t =
     retain_metadata q (take limit (newest_first (select_rows (base_filter_clause now q) t)))"

definition get_valid_at :: "memory_query \<Rightarrow> nat \<Rightarrow> memory_table \<Rightarrow> memory list app_result" where
  "get_valid_at q limit t =
     (case mq_valid_at q of
        None \<Rightarrow> Inl (Internal ''valid_at timestamp required'')
      | Some timestamp \<Rightarrow>
          Inr (retain_metadata q
                 (take limit (newest_first (select_rows (base_filter_clause timestamp q) t)))))"

section \<open>Writing\<close>

definition create_memory :: "string \<Rightarrow> memory \<Rightarrow> memory_table \<Rightarrow> string app_result \<times> memory_table" where
  "create_memory new_id m t =
     (if hm_get t new_id \<noteq> None then (Inl (Database ''record already exists''), t)
      else (Inr new_id,
            hm_insert new_id (m\<lparr>m_id := Some \<lparr>rid_table = ''memories'', rid_key = new_id\<rparr>\<rparr>) t))"

definition apply_update :: "memory_update \<Rightarrow> memory \<Rightarrow> memory" where
  "apply_update u m0 =
     (let m1 = (case mu_content u of Some v \<Rightarrow> m0\<lparr>m_content := v\<rparr> | None \<Rightarrow> m0);
          m2 = (case mu_memory_type u of Some v \<Rightarrow> m1\<lparr>m_memory_type := v\<rparr> | None \<Rightarrow> m1);
          m3 = (case mu_user_id u of Some v \<Rightarrow> m2\<lparr>m_user_id := Some v\<rparr> | None \<Rightarrow> m2);
          m4 = (case mu_agent_id u of Some v \<Rightarrow> m3\<lparr>m_agent_id := Some v\<rparr> | None \<Rightarrow> m3);
          m5 = (case mu_run_id u of Some v \<Rightarrow> m4\<lparr>m_run_id := Some v\<rparr> | None \<Rightarrow> m4);
          m6 = (case mu_namespace u of Some v \<Rightarrow> m5\<lparr>m_namespace := Some v\<rparr> | None \<Rightarrow> m5);
          m7 = (case mu_importance_score u of Some v \<Rightarrow> m6\<lparr>m_importance_score := v\<rparr> | None \<Rightarrow> m6);
          m8 = (case mu_metadata u of Some v \<Rightarrow> m7\<lparr>m_metadata := Some v\<rparr> | None \<Rightarrow> m7);
          m9 = (case mu_embedding u of Some v \<Rightarrow> m8\<lparr>m_embedding := Some v\<rparr> | None \<Rightarrow> m8);
          m10 = (case mu_content_hash u of Some v \<Rightarrow> m9\<lparr>m_content_hash := Some v\<rparr> | None \<Rightarrow> m9)
      in (case mu_embedding_state u of Some v \<Rightarrow> m10\<lparr>m_embedding_state := v\<rparr> | None \<Rightarrow> m10))"

definition update_memory :: "string \<Rightarrow> memory_update \<Rightarrow> memory_table \<Rightarrow> memory app_result \<times> memory_table" where
  "update_memory i u t =
     (case get_memory t i of
        None \<Rightarrow> (Inl (NotFound i), t)
      | Some m \<Rightarrow> (let m' = apply_update u m in (Inr m', hm_insert i m' t)))"

text \<open>\<open>UPDATE memories:i SET ...\<close>: the rows with the key, and whether there was one.\<close>

definition update_row :: "string \<Rightarrow> (memory \<Rightarrow> memory) \<Rightarrow> memory_table \<Rightarrow> bool \<times> memory_table" where
  "update_row i f t =
     (case hm_get t i of None \<Rightarrow> (False, t) | Some m \<Rightarrow> (True, hm_insert i (f m) t))"

definition record_memory_access :: "string \<Rightarrow> datetime \<Rightarrow> memory_table \<Rightarrow> memory_table" where
  "record_memory_access i accessed_at t =
     snd (update_row i (\<lambda>m. m\<lparr>m_access_count := m_access_count m + 1,
                              m_last_accessed_at := Some accessed_at\<rparr>) t)"

definition delete_memory :: "string \<Rightarrow> memory_table \<Rightarrow> bool \<times> memory_table" where
  "delete_memory i t = (hm_get t i \<noteq> None, hm_remove i t)"

fun delete_memories_batch ::
  "write_faults \<Rightarrow> string list \<Rightarrow> memory_table \<Rightarrow> string list app_result \<times> memory_table" where
  "delete_memories_batch faults [] t = (Inr [], t)"
| "delete_memories_batch faults (i # is) t =
     (case faults i of
        Some e \<Rightarrow> (Inl e, t)
      | None \<Rightarrow>
          (case delete_memory i t of (deleted, t1) \<Rightarrow>
             (case delete_memories_batch faults is t1 of
                (Inl e, t2) \<Rightarrow> (Inl e, t2)
              | (Inr rest, t2) \<Rightarrow> (Inr (if deleted then i # rest else rest), t2))))"

definition invalidate ::
  "datetime \<Rightarrow> string \<Rightarrow> string option \<Rightarrow> string option \<Rightarrow> memory_table \<Rightarrow> bool \<times> memory_table" where
  "invalidate now i reason superseded_by t =
     update_row i (\<lambda>m. m\<lparr>m_valid_until := Some now, m_invalidation_reason := reason,
                          m_superseded_by := superseded_by\<rparr>) t"

definition raw_update_embedding ::
  "string \<Rightarrow> real list \<Rightarrow> string \<Rightarrow> embedding_state \<Rightarrow> memory_table \<Rightarrow> memory_table" where
  "raw_update_embedding i embedding content_hash st t =
     snd (update_row i (\<lambda>m. m\<lparr>m_embedding := Some embedding, m_content_hash := Some content_hash,
                              m_embedding_state := st\<rparr>) t)"

section \<open>The table\<close>

definition table_ok :: "memory_table \<Rightarrow> bool" where
  "table_ok t \<longleftrightarrow> hm_ok t \<and>
     (\<forall>(k, m)\<in>set t. m_id m = Some \<lparr>rid_table = ''memories'', rid_key = k\<rparr>)"

lemma apply_update_id [simp]: "m_id (apply_update u m) = m_id m"
  by (simp add: apply_update_def Let_def split: option.splits)

lemma table_ok_insert:
  "table_ok t \<Longrightarrow> m_id m = Some \<lparr>rid_table = ''memories'', rid_key = k\<rparr> \<Longrightarrow> table_ok (hm_insert k m t)"
  unfolding table_ok_def by (simp add: set_hm_insert)

lemma table_ok_remove: "table_ok t \<Longrightarrow> table_ok (hm_remove k t)"
  unfolding table_ok_def by (simp add: hm_mem_remove split_beta)

lemma table_ok_row:
  "table_ok t \<Longrightarrow> hm_get t k = Some m \<Longrightarrow> m_id m = Some \<lparr>rid_table = ''memories'', rid_key = k\<rparr>"
  using hm_get_mem [of t k m] by (auto simp: table_ok_def)

lemma get_memory_row: "table_ok t \<Longrightarrow> get_memory t k = hm_get t k"
proof (cases "hm_get t k")
  case (Some m)
  assume "table_ok t"
  from table_ok_row [OF this Some] have "m\<lparr>m_id := Some \<lparr>rid_table = ''memories'', rid_key = k\<rparr>\<rparr> = m"
    by (cases m) simp
  with Some show ?thesis by (simp add: get_memory_def)
qed (simp add: get_memory_def)

lemma table_ok_update_row:
  "table_ok t \<Longrightarrow> (\<And>m. m_id (f m) = m_id m) \<Longrightarrow> table_ok (snd (update_row i f t))"
  by (cases "hm_get t i") (simp_all add: update_row_def table_ok_row table_ok_insert)

lemma table_ok_delete_batch: "table_ok t \<Longrightarrow> table_ok (snd (delete_memories_batch faults is t))"
proof (induction "is" arbitrary: t)
  case (Cons i "is")
  from Cons.IH [OF table_ok_remove [OF Cons.prems, of i]] Cons.prems show ?case
    by (auto simp: delete_memory_def split: option.split prod.splits sum.splits)
qed simp

lemma delete_batch_succeeds:
  obtains deleted t' where "delete_memories_batch no_faults is t = (Inr deleted, t')"
proof -
  have "\<exists>deleted t'. delete_memories_batch no_faults is t = (Inr deleted, t')"
  proof (induction "is" arbitrary: t)
    case (Cons i "is")
    from Cons.IH [of "hm_remove i t"] show ?case by (auto simp: delete_memory_def)
  qed simp
  then show ?thesis using that by blast
qed

datatype memory_event =
    ECreate string memory
  | EUpdate string memory_update
  | EAccess string datetime
  | EDelete string
  | EDeleteBatch write_faults "string list"
  | EInvalidate datetime string "string option" "string option"
  | EEmbed string "real list" string embedding_state

fun memory_step :: "memory_table \<Rightarrow> memory_event \<Rightarrow> memory_table" where
  "memory_step t (ECreate i m) = snd (create_memory i m t)"
| "memory_step t (EUpdate i u) = snd (update_memory i u t)"
| "memory_step t (EAccess i ts) = record_memory_access i ts t"
| "memory_step t (EDelete i) = snd (delete_memory i t)"
| "memory_step t (EDeleteBatch faults is) = snd (delete_memories_batch faults is t)"
| "memory_step t (EInvalidate now i r s) = snd (invalidate now i r s t)"
| "memory_step t (EEmbed i e h s) = raw_update_embedding i e h s t"

interpretation memories: step_system memory_step table_ok
proof
  fix t :: memory_table and e
  assume "table_ok t"
  then show "table_ok (memory_step t e)"
    by (cases e) (auto simp: create_memory_def update_memory_def record_memory_access_def delete_memory_def
        invalidate_def raw_update_embedding_def get_memory_row table_ok_row Let_def
        intro!: table_ok_insert table_ok_remove table_ok_update_row table_ok_delete_batch split: option.splits)
qed

lemma table_ok_Nil: "table_ok []"
  by (simp add: table_ok_def)

lemma rows_of_ids:
  "table_ok t \<Longrightarrow> k \<in> set (list_memory_ids now q t) \<longleftrightarrow>
     (\<exists>m. get_memory t k = Some m \<and> base_filter_clause now q m)"
  using hm_get_mem [of t k] by (force simp: list_memory_ids_def get_memory_row table_ok_def)

lemma set_select_rows: "set (select_rows P t) = {m. \<exists>k. (k, m) \<in> set t \<and> P m}"
  by (force simp: select_rows_def)

lemma length_select_rows: "length (select_rows P t) = length (filter (\<lambda>(k, m). P m) t)"
  by (induction t) (auto simp: select_rows_def)

section \<open>Pages\<close>

lemma retain_concat: "retain_metadata q (concat xss) = concat (map (retain_metadata q) xss)"
  by (simp add: retain_metadata_def filter_concat o_def)

lemma length_retain_sort: "length (retain_metadata q (sort_by le xs)) = length (retain_metadata q xs)"
  unfolding retain_metadata_def
  by (metis mset_filter mset_sort_by size_mset)

lemma list_memories_all:
  "list_memories now q (length t) 0 t =
     retain_metadata q (newest_first (select_rows (base_filter_clause now q) t))"
proof -
  have "length (newest_first (select_rows (base_filter_clause now q) t)) \<le> length t"
    by (simp add: newest_first_def length_select_rows)
  then show ?thesis by (simp add: list_memories_def)
qed

lemma retain_none: "mq_metadata_filter q = None \<Longrightarrow> retain_metadata q xs = xs"
  by (simp add: retain_metadata_def metadata_matches_def)

text \<open>Paging through the memories is complete and consistent with the count: whatever the filter and the
  page size, the pages one after the other are the whole listing, newest first, without a row
  lost or repeated; the listing holds exactly the rows the filter and the metadata filter accept, and
  the filtered count is its length.\<close>
theorem memory_pages_complete:
  assumes "0 < limit" and "length t \<le> k * limit"
  shows "concat (map (\<lambda>i. list_memories now q limit (i * limit) t) [0..<k]) = list_memories now q (length t) 0 t \<and>
    sorted_wrt (\<lambda>a b. m_ingestion_time b \<le> m_ingestion_time a) (list_memories now q (length t) 0 t) \<and>
    count_memories_filtered now q t = length (list_memories now q (length t) 0 t) \<and>
    set (list_memories now q (length t) 0 t) =
      {m. \<exists>i. (i, m) \<in> set t \<and> base_filter_clause now q m \<and>
          metadata_matches (m_metadata m) (mq_metadata_filter q)}"
proof (intro conjI)
  let ?rows = "newest_first (select_rows (base_filter_clause now q) t)"
  have "length ?rows \<le> k * limit"
    using assms(2) by (simp add: newest_first_def length_select_rows le_trans [OF length_filter_le])
  note pages = concat_pages [OF assms(1) this]
  show "concat (map (\<lambda>i. list_memories now q limit (i * limit) t) [0..<k]) = list_memories now q (length t) 0 t"
    unfolding list_memories_all unfolding list_memories_def
    using arg_cong [OF pages, of "retain_metadata q"] by (simp add: retain_concat o_def)
  show "sorted_wrt (\<lambda>a b. m_ingestion_time b \<le> m_ingestion_time a) (list_memories now q (length t) 0 t)"
    unfolding list_memories_all retain_metadata_def newest_first_def
    by (rule sorted_wrt_filter, rule rev_key_comparison.sorted_sort_by)
  show "count_memories_filtered now q t = length (list_memories now q (length t) 0 t)"
    unfolding list_memories_all newest_first_def length_retain_sort count_memories_filtered_def Let_def
    by (simp add: retain_none)
  show "set (list_memories now q (length t) 0 t) =
      {m. \<exists>i. (i, m) \<in> set t \<and> base_filter_clause now q m \<and>
          metadata_matches (m_metadata m) (mq_metadata_filter q)}"
    unfolding list_memories_all newest_first_def retain_metadata_def
    unfolding set_filter set_sort_by set_select_rows by blast
qed

definition example_memory :: "string \<Rightarrow> datetime \<Rightarrow> memory" where
  "example_memory i created =
     (memory_new created ''note'')\<lparr>m_id := Some \<lparr>rid_table = ''memories'', rid_key = i\<rparr>\<rparr>"

theorem memory_pages_complete_witness:
  "concat (map (\<lambda>i. list_memories 5 memory_query_default 1 (i * 1)
       [(''a'', example_memory ''a'' 1), (''b'', example_memory ''b'' 2)]) [0..<2]) =
     list_memories 5 memory_query_default (Suc (Suc 0)) 0
       [(''a'', example_memory ''a'' 1), (''b'', example_memory ''b'' 2)]"
  using memory_pages_complete [of 1 "[(''a'', example_memory ''a'' 1), (''b'', example_memory ''b'' 2)]" 2 5
      memory_query_default] by simp

section \<open>Invalidation\<close>

lemma not_ended_later: "not_ended later m \<Longrightarrow> ts \<le> later \<Longrightarrow> not_ended ts m"
  by (auto simp: not_ended_def unset_or_def split: option.splits)

lemma length_filter_update:
  "hm_ok t \<Longrightarrow> (k, v) \<in> set t \<Longrightarrow>
     length (filter P (hm_insert k w t)) + (if P (k, v) then 1 else 0) =
     length (filter P t) + (if P (k, w) then 1 else 0)"
proof (induction t)
  case (Cons p t)
  show ?case
  proof (cases "fst p = k")
    case True
    with Cons.prems have "p = (k, v)" by (cases p) (force simp: hm_ok_def)
    then show ?thesis by auto
  next
    case False
    with Cons have "length (filter P (hm_insert k w t)) + (if P (k, v) then 1 else 0) =
        length (filter P t) + (if P (k, w) then 1 else 0)" by (auto simp: hm_ok_def)
    with False show ?thesis by (cases p) auto
  qed
qed simp

lemma invalidate_row:
  "hm_get t i = Some m \<Longrightarrow> invalidate now i reason succ_id t =
     (True, hm_insert i (m\<lparr>m_valid_until := Some now, m_invalidation_reason := reason, m_superseded_by := succ_id\<rparr>) t)"
  by (simp add: invalidate_def update_row_def)

lemma invalidated_visibility:
  "mq_valid_at q = None \<Longrightarrow> now \<le> later \<Longrightarrow>
     \<not> base_filter_clause later q (m\<lparr>m_valid_until := Some now, m_invalidation_reason := reason, m_superseded_by := succ_id\<rparr>)"
  by (simp add: base_filter_clause_def not_ended_def unset_or_def)

lemma invalidated_history:
  "mq_valid_at q = Some ts \<Longrightarrow> ts < now \<Longrightarrow> m_valid_until m = None \<Longrightarrow>
     base_filter_clause later q (m\<lparr>m_valid_until := Some now, m_invalidation_reason := reason, m_superseded_by := succ_id\<rparr>) =
     base_filter_clause later q m"
  by (simp add: base_filter_clause_def scope_clause_def not_ended_def unset_or_def)

lemma count_valid_update:
  assumes "table_ok t" and "hm_get t i = Some m" and "not_ended now m" and "\<not> not_ended now m'"
  shows "count_valid_memories now (hm_insert i m' t) + 1 = count_valid_memories now t"
proof -
  have "(i, m) \<in> set t" using assms(1,2) by (simp add: table_ok_def hm_get_mem)
  from length_filter_update [OF _ this, of "\<lambda>(k, m). not_ended now m" m'] assms
  show ?thesis by (simp add: table_ok_def count_valid_memories_def length_select_rows)
qed

text \<open>C6: Invalidating a memory is a logical deletion at an instant. It succeeds exactly on an existing row and
  leaves every other row alone; from that instant on no ordinary query returns the memory and the
  number of valid memories is one less; queries about an earlier instant see it exactly as before,
  provided it was open-ended until then; and the garbage collector can find it.\<close>
theorem invalidate_is_logical_deletion:
  fixes now :: datetime and reason succ_id :: "string option"
  assumes "table_ok t" and "get_memory t i = Some m" and "m_valid_until m = None"
  defines "t' \<equiv> snd (invalidate now i reason succ_id t)"
  shows "fst (invalidate now i reason succ_id t) \<and> (\<forall>j. j \<noteq> i \<longrightarrow> get_memory t' j = get_memory t j) \<and>
    (\<forall>q later. mq_valid_at q = None \<and> now \<le> later \<longrightarrow> i \<notin> set (list_memory_ids later q t')) \<and>
    count_valid_memories now t' + 1 = count_valid_memories now t \<and>
    (\<forall>q ts later. mq_valid_at q = Some ts \<and> ts < now \<longrightarrow>
       (i \<in> set (list_memory_ids later q t')) = (i \<in> set (list_memory_ids later q t))) \<and>
    (\<exists>m'. get_memory t' i = Some m' \<and>
       gc_filter_clause \<lparr>gf_namespace = None, gf_memory_type = None, gf_invalidation_reason = None,
         gf_invalidated_before = Some now\<rparr> m')"
proof -
  let ?m = "m\<lparr>m_valid_until := Some now, m_invalidation_reason := reason, m_superseded_by := succ_id\<rparr>"
  from assms(1,2) have m: "hm_get t i = Some m" by (simp add: get_memory_row)
  then have inv: "invalidate now i reason succ_id t = (True, hm_insert i ?m t)" by (rule invalidate_row)
  have ok: "table_ok (hm_insert i ?m t)"
    using assms(1) table_ok_row [OF assms(1) m] by (intro table_ok_insert) auto
  have here: "get_memory (hm_insert i ?m t) i = Some ?m" by (simp add: get_memory_row [OF ok])
  have "get_memory (hm_insert i ?m t) j = get_memory t j" if "j \<noteq> i" for j
    using that by (simp add: get_memory_def)
  moreover have "i \<notin> set (list_memory_ids later q (hm_insert i ?m t))"
    if "mq_valid_at q = None" "now \<le> later" for q later
    using invalidated_visibility [OF that] by (simp add: rows_of_ids [OF ok] here)
  moreover have "(i \<in> set (list_memory_ids later q (hm_insert i ?m t))) = (i \<in> set (list_memory_ids later q t))"
    if "mq_valid_at q = Some ts" "ts < now" for q ts later
    using invalidated_history [OF that assms(3)] by (simp add: rows_of_ids [OF ok] rows_of_ids [OF assms(1)] here assms(2))
  moreover have "count_valid_memories now (hm_insert i ?m t) + 1 = count_valid_memories now t"
    by (rule count_valid_update [OF assms(1) m]) (simp_all add: not_ended_def unset_or_def assms(3))
  ultimately show ?thesis
    unfolding t'_def inv by (simp add: here gc_filter_clause_def unset_or_def)
qed

theorem invalidate_is_logical_deletion_witness:
  "count_valid_memories 5 (snd (invalidate 5 ''a'' None None [(''a'', example_memory ''a'' 1)])) = 0"
proof -
  have 1: "table_ok [(''a'', example_memory ''a'' 1)]"
    by (simp add: table_ok_def hm_ok_def example_memory_def)
  have 2: "get_memory [(''a'', example_memory ''a'' 1)] ''a'' = Some (example_memory ''a'' 1)"
    by (simp add: get_memory_row [OF 1])
  have 3: "m_valid_until (example_memory ''a'' 1) = None"
    by (simp add: example_memory_def memory_new_def)
  have "count_valid_memories 5 [(''a'', example_memory ''a'' 1)] = 1"
    by (simp add: count_valid_memories_def select_rows_def not_ended_def unset_or_def 3)
  with invalidate_is_logical_deletion [OF 1 2 3, of 5 None None] show ?thesis by simp
qed

section \<open>Metadata filters\<close>

fun json_ok :: "json \<Rightarrow> bool" where
  "json_ok (JObj kvs) \<longleftrightarrow> distinct (map fst kvs) \<and> list_all (\<lambda>(k, v). json_ok v) kvs"
| "json_ok (JArr xs) \<longleftrightarrow> list_all json_ok xs"
| "json_ok _ \<longleftrightarrow> True"

lemma json_contains_obj:
  "json_contains c (JObj f) \<longleftrightarrow>
     (\<exists>m. c = JObj m \<and> (\<forall>(k, fv)\<in>set f. \<exists>cv. map_of m k = Some cv \<and> json_contains cv fv))"
  by (subst json_contains.simps, cases c) (auto simp: list_all_iff split: option.splits)

lemma json_contains_arr:
  "json_contains c (JArr f) \<longleftrightarrow>
     (\<exists>m. c = JArr m \<and> (\<forall>fi\<in>set f. \<exists>ci\<in>set m. json_contains ci fi))"
  by (subst json_contains.simps, cases c) (auto simp: list_all_iff list_ex_iff)

lemma json_contains_leaf:
  "(\<forall>kvs. f \<noteq> JObj kvs) \<Longrightarrow> (\<forall>xs. f \<noteq> JArr xs) \<Longrightarrow> json_contains c f \<longleftrightarrow> c = f"
  by (subst json_contains.simps, cases f; cases c) auto

lemma json_contains_refl: "json_ok j \<Longrightarrow> json_contains j j"
proof (induction j)
  case (JArr xs)
  then show ?case by (auto simp: json_contains_arr list_all_iff)
next
  case (JObj kvs)
  have "\<exists>cv. map_of kvs k = Some cv \<and> json_contains cv v" if "(k, v) \<in> set kvs" for k v
    using JObj.IH [OF that, of v] JObj.prems that by (auto simp: list_all_iff)
  then show ?case by (auto simp: json_contains_obj)
qed (simp_all add: json_contains_leaf)

lemma json_contains_trans: "json_contains a b \<Longrightarrow> json_contains b c \<Longrightarrow> json_contains a c"
proof (induction c arbitrary: a b)
  case (JArr xs)
  from JArr.prems(2) obtain bm where b: "b = JArr bm" "\<forall>fi\<in>set xs. \<exists>ci\<in>set bm. json_contains ci fi"
    unfolding json_contains_arr by blast
  from JArr.prems(1) obtain am where a: "a = JArr am" "\<forall>fi\<in>set bm. \<exists>ci\<in>set am. json_contains ci fi"
    unfolding b(1) json_contains_arr by blast
  have "\<exists>ci\<in>set am. json_contains ci fi" if fi: "fi \<in> set xs" for fi
  proof -
    from b(2) fi obtain bi where bi: "bi \<in> set bm" "json_contains bi fi" by blast
    with a(2) obtain ai where ai: "ai \<in> set am" "json_contains ai bi" by blast
    from JArr.IH [OF fi ai(2) bi(2)] ai(1) show ?thesis by blast
  qed
  then show ?case unfolding json_contains_arr a(1) by simp
next
  case (JObj kvs)
  from JObj.prems(2) obtain bm where b: "b = JObj bm"
    "\<forall>(k, fv)\<in>set kvs. \<exists>cv. map_of bm k = Some cv \<and> json_contains cv fv"
    unfolding json_contains_obj by blast
  from JObj.prems(1) obtain am where a: "a = JObj am"
    "\<forall>(k, fv)\<in>set bm. \<exists>cv. map_of am k = Some cv \<and> json_contains cv fv"
    unfolding b(1) json_contains_obj by blast
  have "\<exists>cv. map_of am k = Some cv \<and> json_contains cv fv" if kv: "(k, fv) \<in> set kvs" for k fv
  proof -
    from b(2) kv obtain bv where bv: "map_of bm k = Some bv" "json_contains bv fv" by blast
    from a(2) map_of_SomeD [OF bv(1)] obtain av where av: "map_of am k = Some av" "json_contains av bv" by blast
    from JObj.IH [OF kv _ av(2) bv(2)] av(1) show ?thesis by simp
  qed
  then show ?case unfolding json_contains_obj a(1) by auto
qed (simp_all add: json_contains_leaf)

text \<open>Metadata filtering is by containment of JSON values: a memory passes the filter made of its own metadata,
  a filter that contains another one selects no more memories than that one, the empty object
  selects every memory whose metadata is an object, and no filter selects everything.\<close>
theorem metadata_filter_preorder:
  "(json_ok j \<longrightarrow> metadata_matches (Some j) (Some j)) \<and>
   (json_contains f g \<and> metadata_matches c (Some f) \<longrightarrow> metadata_matches c (Some g)) \<and>
   (metadata_matches c (Some (JObj [])) \<longleftrightarrow> (\<exists>kvs. c = Some (JObj kvs))) \<and> metadata_matches c None"
  by (auto simp: metadata_matches_def json_contains_refl json_contains_obj
      intro: json_contains_trans split: option.splits)

theorem metadata_filter_preorder_witness:
  "metadata_matches (Some (JObj [(''a'', JNum 1), (''b'', JNull)])) (Some (JObj [(''a'', JNum 1)]))"
proof -
  have 1: "json_contains (JObj [(''a'', JNum 1), (''b'', JNull)]) (JObj [(''a'', JNum 1)])"
    by (simp add: json_contains_obj json_contains_leaf)
  have 2: "json_ok (JObj [(''a'', JNum 1), (''b'', JNull)])" by simp
  from metadata_filter_preorder [of "JObj [(''a'', JNum 1), (''b'', JNull)]"
      "JObj [(''a'', JNum 1), (''b'', JNull)]" "JObj [(''a'', JNum 1)]"
      "Some (JObj [(''a'', JNum 1), (''b'', JNull)])"] 1 2
  show ?thesis by blast
qed

end
