(* ===== verification/SearchTypes.thy ===== *)
theory SearchTypes
  imports MemoryStore
begin

text \<open>
  The search result of \<open>src/types/search.rs\<close>, shared by retrieval and by the capacity controller, and the
  vector search of the storage, \<open>vector_search\<close> of \<open>src/storage/surrealdb/memory_ops.rs\<close>. The nearest
  neighbour operator of the database (which rows of the table it takes for the nearest \<open>k\<close> of its index, or
  the error it ends with) and its cosine similarity are parameters; conditions, order, limit and the
  filter on metadata are those of the statement and of the code around it.
\<close>

record search_result =
  sr_id :: string
  sr_content :: string
  sr_content_hash :: "string option"
  sr_memory_type :: memory_type
  sr_score :: real
  sr_importance_score :: real
  sr_event_time :: "datetime option"
  sr_ingestion_time :: "datetime option"
  sr_access_count :: u32
  sr_last_accessed_at :: "datetime option"
  sr_user_id :: "string option"
  sr_agent_id :: "string option"
  sr_run_id :: "string option"
  sr_namespace :: "string option"
  sr_metadata :: "json option"
  sr_superseded_by :: "string option"
  sr_valid_until :: "datetime option"
  sr_invalidation_reason :: "string option"
  sr_consolidation_trace :: "json option"
  sr_replacement_lineage :: "json option"
  sr_attention_summary :: "json option"
  sr_operator_summary :: "json option"

section \<open>Vector search\<close>

record vector_engine =
  ve_knn :: "nat \<Rightarrow> nat \<Rightarrow> real list \<Rightarrow> memory_table \<Rightarrow> string list app_result"
  ve_cosine :: "real list \<Rightarrow> real list \<Rightarrow> real"

definition search_row_result :: "string \<Rightarrow> memory \<Rightarrow> real \<Rightarrow> search_result" where
  "search_row_result i m score =
     \<lparr>sr_id = i, sr_content = m_content m, sr_content_hash = m_content_hash m, sr_memory_type = m_memory_type m,
      sr_score = score, sr_importance_score = m_importance_score m, sr_event_time = Some (m_event_time m),
      sr_ingestion_time = Some (m_ingestion_time m), sr_access_count = m_access_count m,
      sr_last_accessed_at = m_last_accessed_at m, sr_user_id = m_user_id m, sr_agent_id = m_agent_id m,
      sr_run_id = m_run_id m, sr_namespace = m_namespace m, sr_metadata = m_metadata m,
      sr_superseded_by = m_superseded_by m, sr_valid_until = m_valid_until m,
      sr_invalidation_reason = m_invalidation_reason m, sr_consolidation_trace = None,
      sr_replacement_lineage = None, sr_attention_summary = None, sr_operator_summary = None\<rparr>"

text \<open>The rows that satisfy the condition of the statement, with their scores.\<close>

definition vector_row ::
  "vector_engine \<Rightarrow> datetime \<Rightarrow> real list \<Rightarrow> memory_query \<Rightarrow> string list \<Rightarrow> string \<times> memory \<Rightarrow> search_result option" where
  "vector_row eng now vec filters near row =
     (case row of (i, m) \<Rightarrow>
        (case m_embedding m of
           None \<Rightarrow> None
         | Some embedding \<Rightarrow>
             if i \<in> set near \<and> base_filter_clause now filters m
             then Some (search_row_result i m (ve_cosine eng embedding vec)) else None))"

definition vector_search ::
  "vector_engine \<Rightarrow> datetime \<Rightarrow> real list \<Rightarrow> memory_query \<Rightarrow> nat \<Rightarrow> memory_table \<Rightarrow> search_result list app_result" where
  "vector_search eng now vec filters limit t =
     (let knn_k = min (limit * 4) 200;
          ef = max knn_k 150
      in case ve_knn eng knn_k ef vec t of
           Inl e \<Rightarrow> Inl e
         | Inr near \<Rightarrow>
             (let results = take limit (sort_by (\<lambda>a b. sr_score b \<le> sr_score a)
                    (List.map_filter (vector_row eng now vec filters near) t))
              in Inr (filter (\<lambda>r. metadata_matches (sr_metadata r) (mq_metadata_filter filters)) results)))"

text \<open>What is found is a row that satisfies the filter, scored by the similarity of its embedding, and the best
  come first.\<close>

lemma vector_row_Some:
  "vector_row eng now vec filters near (i, m) = Some r \<Longrightarrow>
     \<exists>e. m_embedding m = Some e \<and> base_filter_clause now filters m \<and> r = search_row_result i m (ve_cosine eng e vec)"
  by (auto simp: vector_row_def split: option.splits if_splits)

lemma vector_search_rows:
  assumes "hm_ok t" and "vector_search eng now vec filters limit t = Inr rs" and "r \<in> set rs"
  shows "\<exists>m e. hm_get t (sr_id r) = Some m \<and> m_embedding m = Some e \<and> base_filter_clause now filters m \<and>
    metadata_matches (m_metadata m) (mq_metadata_filter filters) \<and>
    r = search_row_result (sr_id r) m (ve_cosine eng e vec)"
proof -
  from assms(2,3) obtain near where r: "r \<in> set (List.map_filter (vector_row eng now vec filters near) t)"
    "metadata_matches (sr_metadata r) (mq_metadata_filter filters)"
    by (auto simp: vector_search_def Let_def dest!: in_set_takeD split: sum.splits)
  then obtain i m where im: "(i, m) \<in> set t" "vector_row eng now vec filters near (i, m) = Some r"
    by (auto simp: List.map_filter_def)
  from vector_row_Some [OF im(2)] obtain e where e: "m_embedding m = Some e" "base_filter_clause now filters m"
    "r = search_row_result i m (ve_cosine eng e vec)" by blast
  moreover have "hm_get t i = Some m" using assms(1) im(1) by (simp add: hm_get_mem)
  ultimately show ?thesis using r(2) by (auto simp: search_row_result_def)
qed

lemma vector_search_bounded:
  assumes "vector_search eng now vec filters limit t = Inr rs"
  shows "length rs \<le> limit"
proof -
  have "length (filter P (take limit xs)) \<le> limit" for P and xs :: "search_result list"
    by (metis length_filter_le length_take min.bounded_iff order_trans min.cobounded2)
  with assms show ?thesis by (auto simp: vector_search_def Let_def split: sum.splits)
qed

end
