(* ===== verification/Forgetting.thy ===== *)
theory Forgetting
  imports SearchTypes
begin

text \<open>
  Forgetting: the configuration (\<open>src/forgetting/config.rs\<close>), the decay and reinforcement of
  scores (\<open>src/forgetting/decay.rs\<close>) and the capacity controller that archives low-value memories
  (\<open>src/forgetting/capacity.rs\<close>). Scores and ages are exact reals; the constant \<open>LN_2\<close> is
  \<open>ln 2\<close>. A half-life of 0 divides by zero in the source and is excluded by the properties.
\<close>

section \<open>Configuration\<close>

definition DEFAULT_REINFORCEMENT_ALPHA :: real where "DEFAULT_REINFORCEMENT_ALPHA = 1 / 2"
definition DEFAULT_REINFORCEMENT_CAP :: real where "DEFAULT_REINFORCEMENT_CAP = 3"
definition DEFAULT_DECAY_LAMBDA :: real where "DEFAULT_DECAY_LAMBDA = ln 2"
definition DEFAULT_MIN_DECAY :: real where "DEFAULT_MIN_DECAY = 1 / 20"

record forgetting_config =
  fg_episodic_half_life_days :: real
  fg_semantic_half_life_days :: real
  fg_procedural_half_life_days :: real
  fg_decay_lambda :: real
  fg_min_decay :: real
  fg_reinforcement_alpha :: real
  fg_reinforcement_cap :: real
  fg_soft_limit :: nat
  fg_cleanup_target_ratio :: real
  fg_check_interval_secs :: nat

definition forgetting_config_default :: forgetting_config where
  "forgetting_config_default =
     \<lparr>fg_episodic_half_life_days = 30, fg_semantic_half_life_days = 180,
      fg_procedural_half_life_days = 365, fg_decay_lambda = DEFAULT_DECAY_LAMBDA,
      fg_min_decay = DEFAULT_MIN_DECAY, fg_reinforcement_alpha = DEFAULT_REINFORCEMENT_ALPHA,
      fg_reinforcement_cap = DEFAULT_REINFORCEMENT_CAP, fg_soft_limit = 10000,
      fg_cleanup_target_ratio = 8 / 10, fg_check_interval_secs = 3600\<rparr>"

text \<open>\<open>from_env\<close>: \<open>env_real\<close> and \<open>env_nat\<close> give the value of a variable that is set and parses.\<close>

definition forgetting_config_from_env ::
  "(string \<Rightarrow> real option) \<Rightarrow> (string \<Rightarrow> nat option) \<Rightarrow> forgetting_config" where
  "forgetting_config_from_env env_real env_nat =
     (let defaults = forgetting_config_default;
          real_or = (\<lambda>key d. case env_real key of Some v \<Rightarrow> v | None \<Rightarrow> d);
          nat_or = (\<lambda>key d. case env_nat key of Some v \<Rightarrow> v | None \<Rightarrow> d)
      in \<lparr>fg_episodic_half_life_days =
            real_or ''MEMORY_EPISODIC_HALF_LIFE_DAYS'' (fg_episodic_half_life_days defaults),
          fg_semantic_half_life_days =
            real_or ''MEMORY_SEMANTIC_HALF_LIFE_DAYS'' (fg_semantic_half_life_days defaults),
          fg_procedural_half_life_days =
            real_or ''MEMORY_PROCEDURAL_HALF_LIFE_DAYS'' (fg_procedural_half_life_days defaults),
          fg_decay_lambda = real_or ''MEMORY_DECAY_LAMBDA'' (fg_decay_lambda defaults),
          fg_min_decay = real_or ''MEMORY_MIN_DECAY'' (fg_min_decay defaults),
          fg_reinforcement_alpha = real_or ''MEMORY_REINFORCEMENT_ALPHA'' (fg_reinforcement_alpha defaults),
          fg_reinforcement_cap = real_or ''MEMORY_REINFORCEMENT_CAP'' (fg_reinforcement_cap defaults),
          fg_soft_limit = nat_or ''MEMORY_SOFT_LIMIT'' (fg_soft_limit defaults),
          fg_cleanup_target_ratio =
            real_or ''MEMORY_CLEANUP_TARGET_RATIO'' (fg_cleanup_target_ratio defaults),
          fg_check_interval_secs =
            nat_or ''MEMORY_CAPACITY_CHECK_INTERVAL_SECS'' (fg_check_interval_secs defaults)\<rparr>)"

fun half_life_days_for :: "forgetting_config \<Rightarrow> memory_type \<Rightarrow> real" where
  "half_life_days_for cfg Episodic = fg_episodic_half_life_days cfg"
| "half_life_days_for cfg Semantic = fg_semantic_half_life_days cfg"
| "half_life_days_for cfg Procedural = fg_procedural_half_life_days cfg"

section \<open>Decay\<close>

definition effective_age_days :: "real \<Rightarrow> u32 \<Rightarrow> real" where
  "effective_age_days actual_age_days access_count =
     (let clamped_age_days = max actual_age_days 0;
          reinforcement_scale = 1 + DEFAULT_REINFORCEMENT_ALPHA * ln (1 + real (unat access_count))
      in clamped_age_days / reinforcement_scale)"

definition decay_factor :: "real \<Rightarrow> memory_type \<Rightarrow> real" where
  "decay_factor effective_age t =
     (let half_life_days = half_life_days_for forgetting_config_default t;
          exponent = - DEFAULT_DECAY_LAMBDA * effective_age / half_life_days
      in max (exp exponent) DEFAULT_MIN_DECAY)"

definition reinforcement_bonus :: "u32 \<Rightarrow> real" where
  "reinforcement_bonus access_count =
     (let bonus = DEFAULT_REINFORCEMENT_ALPHA * ln (1 + real (unat access_count))
      in min bonus DEFAULT_REINFORCEMENT_CAP)"

definition apply_decay_scoring :: "real \<Rightarrow> real \<Rightarrow> real \<Rightarrow> real" where
  "apply_decay_scoring current_score decay bonus = current_score * decay * (1 + bonus)"

definition compute_decay ::
  "datetime \<Rightarrow> forgetting_config \<Rightarrow> search_result \<Rightarrow> real \<Rightarrow> real \<times> real \<times> real" where
  "compute_decay now cfg r current_score =
     (let anchor_time = (case sr_event_time r of Some ts \<Rightarrow> ts
                         | None \<Rightarrow> (case sr_ingestion_time r of Some ts \<Rightarrow> ts | None \<Rightarrow> now));
          actual_age_days = of_int (now - anchor_time) / 86400000;
          effective_age = effective_age_days actual_age_days (sr_access_count r);
          half_life_days = half_life_days_for cfg (sr_memory_type r);
          exponent = - fg_decay_lambda cfg * effective_age / half_life_days;
          decay = max (exp exponent) (fg_min_decay cfg);
          bonus = reinforcement_bonus (sr_access_count r);
          final_score = apply_decay_scoring current_score decay bonus
      in (decay, bonus, final_score))"

section \<open>The capacity controller\<close>

record capacity_stats =
  cs_before_count :: nat
  cs_target_count :: nat
  cs_requested_archives :: nat
  cs_archived :: nat
  cs_skipped_recent :: nat

definition capacity_stats_default :: capacity_stats where
  "capacity_stats_default =
     \<lparr>cs_before_count = 0, cs_target_count = 0, cs_requested_archives = 0, cs_archived = 0,
      cs_skipped_recent = 0\<rparr>"

record scored_candidate =
  sc_candidate :: capacity_candidate
  sc_effective_score :: real

text \<open>The trait \<open>MemoryStorage\<close> of \<open>src/storage/traits.rs\<close>, as far as the controller uses it.\<close>

record 's memory_storage =
  ms_count_valid_memories :: "'s \<Rightarrow> nat app_result"
  ms_list_capacity_candidates :: "'s \<Rightarrow> capacity_candidate list app_result"
  ms_get_memory_last_accessed_at :: "'s \<Rightarrow> string \<Rightarrow> datetime option app_result"
  ms_invalidate_memory :: "string \<Rightarrow> string option \<Rightarrow> 's \<Rightarrow> bool app_result \<times> 's"

definition CAPACITY_CONTROLLER_INVALIDATION_REASON :: string where
  "CAPACITY_CONTROLLER_INVALIDATION_REASON = ''capacity_controller_archive''"

definition RECENT_ACCESS_WINDOW_MILLIS :: int where
  "RECENT_ACCESS_WINDOW_MILLIS = 5 * 60 * 1000"

definition compute_effective_score :: "datetime \<Rightarrow> forgetting_config \<Rightarrow> capacity_candidate \<Rightarrow> real" where
  "compute_effective_score now cfg c =
     (let r = \<lparr>sr_id = cc_id c, sr_content = [], sr_content_hash = None,
               sr_memory_type = cc_memory_type c, sr_score = cc_importance_score c,
               sr_importance_score = cc_importance_score c, sr_event_time = cc_event_time c,
               sr_ingestion_time = cc_ingestion_time c, sr_access_count = cc_access_count c,
               sr_last_accessed_at = cc_last_accessed_at c, sr_user_id = None, sr_agent_id = None,
               sr_run_id = None, sr_namespace = None, sr_metadata = None, sr_superseded_by = None,
               sr_valid_until = None, sr_invalidation_reason = None, sr_consolidation_trace = None,
               sr_replacement_lineage = None, sr_attention_summary = None, sr_operator_summary = None\<rparr>;
          (_, _, final_score) = compute_decay now cfg r (cc_importance_score c)
      in final_score)"

definition rank_candidates ::
  "datetime \<Rightarrow> forgetting_config \<Rightarrow> capacity_candidate list \<Rightarrow> scored_candidate list" where
  "rank_candidates now cfg cs =
     map (\<lambda>c. \<lparr>sc_candidate = c, sc_effective_score = compute_effective_score now cfg c\<rparr>) cs"

definition candidate_anchor :: "datetime \<Rightarrow> scored_candidate \<Rightarrow> datetime" where
  "candidate_anchor now x =
     (case cc_event_time (sc_candidate x) of Some ts \<Rightarrow> ts
      | None \<Rightarrow> (case cc_ingestion_time (sc_candidate x) of Some ts \<Rightarrow> ts | None \<Rightarrow> now))"

text \<open>\<open>compare_candidates\<close> as "not greater".\<close>

definition compare_candidates :: "datetime \<Rightarrow> scored_candidate \<Rightarrow> scored_candidate \<Rightarrow> bool" where
  "compare_candidates now l r \<longleftrightarrow>
     (sc_effective_score l, candidate_anchor now l, cc_id (sc_candidate l)) \<le>
     (sc_effective_score r, candidate_anchor now r, cc_id (sc_candidate r))"

definition accessed_recently :: "datetime \<Rightarrow> datetime option \<Rightarrow> bool" where
  "accessed_recently now last_accessed_at =
     (let cutoff = now - RECENT_ACCESS_WINDOW_MILLIS
      in case last_accessed_at of Some ts \<Rightarrow> ts > cutoff | None \<Rightarrow> False)"

definition was_accessed_recently ::
  "datetime \<Rightarrow> 's memory_storage \<Rightarrow> string \<Rightarrow> 's \<Rightarrow> bool app_result" where
  "was_accessed_recently now db i s =
     map_sum id (accessed_recently now) (ms_get_memory_last_accessed_at db s i)"

fun archive_loop ::
  "datetime \<Rightarrow> 's memory_storage \<Rightarrow> scored_candidate list \<Rightarrow> nat \<Rightarrow> nat \<Rightarrow> 's \<Rightarrow>
   (nat \<times> nat) app_result \<times> 's" where
  "archive_loop now db [] archived skipped s = (Inr (archived, skipped), s)"
| "archive_loop now db (x # xs) archived skipped s =
     (case was_accessed_recently now db (cc_id (sc_candidate x)) s of
        Inl e \<Rightarrow> (Inl e, s)
      | Inr True \<Rightarrow> archive_loop now db xs archived (skipped + 1) s
      | Inr False \<Rightarrow>
          (case ms_invalidate_memory db (cc_id (sc_candidate x))
                  (Some CAPACITY_CONTROLLER_INVALIDATION_REASON) s of
             (Inl e, s') \<Rightarrow> (Inl e, s')
           | (Inr ok, s') \<Rightarrow> archive_loop now db xs (if ok then archived + 1 else archived) skipped s'))"

definition target_count_of :: "forgetting_config \<Rightarrow> nat" where
  "target_count_of cfg = nat \<lfloor>real (fg_soft_limit cfg) * fg_cleanup_target_ratio cfg\<rfloor>"

text \<open>One cycle, at the instant \<open>now\<close>; \<open>lock_free\<close> says whether no other cycle is running.\<close>

definition run_cycle ::
  "datetime \<Rightarrow> forgetting_config \<Rightarrow> 's memory_storage \<Rightarrow> bool \<Rightarrow> 's \<Rightarrow> capacity_stats app_result \<times> 's" where
  "run_cycle now cfg db lock_free s =
     (if \<not> lock_free then (Inr capacity_stats_default, s)
      else case ms_count_valid_memories db s of
        Inl e \<Rightarrow> (Inl e, s)
      | Inr before_count \<Rightarrow>
          if before_count \<le> fg_soft_limit cfg
          then (Inr (capacity_stats_default\<lparr>cs_before_count := before_count\<rparr>), s)
          else
            (let target_count = target_count_of cfg;
                 requested_archives = saturating_sub before_count target_count
             in case ms_list_capacity_candidates db s of
                  Inl e \<Rightarrow> (Inl e, s)
                | Inr candidates \<Rightarrow>
                    (let scored = sort_by (compare_candidates now) (rank_candidates now cfg candidates)
                     in case archive_loop now db (take requested_archives scored) 0 0 s of
                          (Inl e, s') \<Rightarrow> (Inl e, s')
                        | (Inr (archived, skipped_recent), s') \<Rightarrow>
                            (Inr \<lparr>cs_before_count = before_count, cs_target_count = target_count,
                                  cs_requested_archives = requested_archives, cs_archived = archived,
                                  cs_skipped_recent = skipped_recent\<rparr>, s'))))"

section \<open>What decay does to a score\<close>

definition decay_config_ok :: "forgetting_config \<Rightarrow> bool" where
  "decay_config_ok cfg \<longleftrightarrow> 0 \<le> fg_decay_lambda cfg \<and> 0 \<le> fg_min_decay cfg \<and> fg_min_decay cfg \<le> 1 \<and>
     (\<forall>t. 0 < half_life_days_for cfg t)"

lemma memory_type_all: "(\<forall>t. P t) \<longleftrightarrow> P Episodic \<and> P Semantic \<and> P Procedural"
  by (metis memory_type.exhaust)

lemma decay_config_ok_default: "decay_config_ok forgetting_config_default"
  by (simp add: decay_config_ok_def memory_type_all forgetting_config_default_def
      DEFAULT_DECAY_LAMBDA_def DEFAULT_MIN_DECAY_def)

lemma ln_access_mono: "unat n \<le> unat n' \<Longrightarrow> ln (1 + real (unat n)) \<le> ln (1 + real (unat n'))"
  by (simp del: of_nat_unat)

lemma ln_access_nonneg: "0 \<le> ln (1 + real (unat n))"
  by (simp del: of_nat_unat)

lemma reinforcement_scale_ge_1: "1 \<le> 1 + DEFAULT_REINFORCEMENT_ALPHA * ln (1 + real n)"
  by (simp add: DEFAULT_REINFORCEMENT_ALPHA_def)

lemma effective_age_nonneg: "0 \<le> effective_age_days a n"
  using reinforcement_scale_ge_1 [of "unat n"] by (simp add: effective_age_days_def Let_def)

lemma effective_age_mono: "a \<le> b \<Longrightarrow> effective_age_days a n \<le> effective_age_days b n"
  using reinforcement_scale_ge_1 [of "unat n"] unfolding effective_age_days_def Let_def
  by (intro divide_right_mono) auto

lemma effective_age_antimono:
  assumes "unat n \<le> unat n'"
  shows "effective_age_days a n' \<le> effective_age_days a n"
proof -
  from ln_access_mono [OF assms] have "1 + DEFAULT_REINFORCEMENT_ALPHA * ln (1 + real (unat n)) \<le>
      1 + DEFAULT_REINFORCEMENT_ALPHA * ln (1 + real (unat n'))"
    unfolding DEFAULT_REINFORCEMENT_ALPHA_def by linarith
  with reinforcement_scale_ge_1 [of "unat n"] show ?thesis
    unfolding effective_age_days_def Let_def by (intro divide_left_mono) (auto intro: mult_pos_pos)
qed

lemma reinforcement_bonus_bounds: "0 \<le> reinforcement_bonus n \<and> reinforcement_bonus n \<le> 3"
  using ln_access_nonneg [of n] unfolding reinforcement_bonus_def Let_def DEFAULT_REINFORCEMENT_ALPHA_def
    DEFAULT_REINFORCEMENT_CAP_def by linarith

lemma reinforcement_bonus_mono: "unat n \<le> unat n' \<Longrightarrow> reinforcement_bonus n \<le> reinforcement_bonus n'"
  unfolding reinforcement_bonus_def Let_def
  by (intro min.mono mult_left_mono ln_access_mono) (auto simp: DEFAULT_REINFORCEMENT_ALPHA_def)

definition decay_at :: "datetime \<Rightarrow> forgetting_config \<Rightarrow> search_result \<Rightarrow> real" where
  "decay_at now cfg r = fst (compute_decay now cfg r 1)"

lemma compute_decay_eq:
  "compute_decay now cfg r s =
     (decay_at now cfg r, reinforcement_bonus (sr_access_count r),
      s * decay_at now cfg r * (1 + reinforcement_bonus (sr_access_count r)))"
  by (simp add: decay_at_def compute_decay_def apply_decay_scoring_def Let_def)

lemma decay_at_bounds:
  "decay_config_ok cfg \<Longrightarrow> fg_min_decay cfg \<le> decay_at now cfg r \<and> decay_at now cfg r \<le> 1"
  by (simp add: decay_config_ok_def decay_at_def compute_decay_def Let_def effective_age_nonneg
      divide_nonneg_pos mult_nonneg_nonneg)

lemma decay_at_mono:
  assumes "decay_config_ok cfg" and "effective_age_days a n \<le> effective_age_days b n'"
  shows "max (exp (- fg_decay_lambda cfg * effective_age_days b n' / half_life_days_for cfg t)) (fg_min_decay cfg) \<le>
    max (exp (- fg_decay_lambda cfg * effective_age_days a n / half_life_days_for cfg t)) (fg_min_decay cfg)"
proof -
  have "fg_decay_lambda cfg * effective_age_days a n / half_life_days_for cfg t \<le>
      fg_decay_lambda cfg * effective_age_days b n' / half_life_days_for cfg t"
    using assms by (intro divide_right_mono mult_left_mono) (auto simp: decay_config_ok_def less_imp_le)
  then show ?thesis by (intro max.mono) auto
qed

lemma decay_at_later: "decay_config_ok cfg \<Longrightarrow> now \<le> now' \<Longrightarrow> decay_at now' cfg r \<le> decay_at now cfg r"
  unfolding decay_at_def compute_decay_def Let_def fst_conv
  by (intro decay_at_mono effective_age_mono) (auto split: option.splits)

lemma decay_at_accessed:
  "decay_config_ok cfg \<Longrightarrow> unat (sr_access_count r) \<le> unat n \<Longrightarrow>
     decay_at now cfg r \<le> decay_at now cfg (r\<lparr>sr_access_count := n\<rparr>)"
  unfolding decay_at_def compute_decay_def Let_def fst_conv
  by (simp cong: option.case_cong, intro decay_at_mono [simplified] effective_age_antimono)

lemma final_score_mono:
  fixes s d d' b b' :: real
  assumes "0 \<le> s" "0 \<le> d" "d \<le> d'" "0 \<le> b" "b \<le> b'"
  shows "s * d * (1 + b) \<le> s * d' * (1 + b')"
  using assms by (intro mult_mono mult_left_mono mult_nonneg_nonneg) auto

text \<open>C7: With a sane configuration the decayed score of a nonnegative score is bounded and monotone: the decay
  factor lies between its floor and 1, the bonus between 0 and the cap of 3, so the result lies
  between 0 and four times the score; it never grows as time passes, and it never drops when the
  memory is accessed more often.\<close>
theorem decay_scoring_sound:
  assumes "decay_config_ok cfg" and "0 \<le> s"
  shows "case compute_decay now cfg r s of (decay, bonus, final) \<Rightarrow>
    fg_min_decay cfg \<le> decay \<and> decay \<le> 1 \<and> 0 \<le> bonus \<and> bonus \<le> 3 \<and> 0 \<le> final \<and> final \<le> 4 * s \<and>
    (\<forall>later. now \<le> later \<longrightarrow> snd (snd (compute_decay later cfg r s)) \<le> final) \<and>
    (\<forall>n. unat (sr_access_count r) \<le> unat n \<longrightarrow>
       final \<le> snd (snd (compute_decay now cfg (r\<lparr>sr_access_count := n\<rparr>) s)))"
proof -
  have pos: "0 \<le> decay_at now' cfg r'" for now' r'
    using decay_at_bounds [OF assms(1), of now' r'] assms(1) by (simp add: decay_config_ok_def)
  note bonus = reinforcement_bonus_bounds
  have "0 \<le> s * decay_at now cfg r * (1 + reinforcement_bonus (sr_access_count r))"
    using pos [of now r] bonus [of "sr_access_count r"] assms(2) by simp
  moreover have "s * decay_at now cfg r * (1 + reinforcement_bonus (sr_access_count r)) \<le> s * 1 * (1 + 3)"
    using pos decay_at_bounds [OF assms(1)] bonus assms(2) by (intro final_score_mono) auto
  moreover have "s * decay_at later cfg r * (1 + reinforcement_bonus (sr_access_count r)) \<le>
      s * decay_at now cfg r * (1 + reinforcement_bonus (sr_access_count r))" if "now \<le> later" for later
    using pos bonus assms(2) decay_at_later [OF assms(1) that] by (intro final_score_mono) auto
  moreover have "s * decay_at now cfg r * (1 + reinforcement_bonus (sr_access_count r)) \<le>
      s * decay_at now cfg (r\<lparr>sr_access_count := n\<rparr>) * (1 + reinforcement_bonus n)"
    if "unat (sr_access_count r) \<le> unat n" for n
    using pos bonus assms(2) decay_at_accessed [OF assms(1) that] reinforcement_bonus_mono [OF that]
    by (intro final_score_mono) auto
  ultimately show ?thesis
    using decay_at_bounds [OF assms(1)] bonus by (simp add: compute_decay_eq)
qed

definition example_result :: search_result where
  "example_result = \<lparr>sr_id = ''m'', sr_content = [], sr_content_hash = None, sr_memory_type = Semantic,
     sr_score = 1, sr_importance_score = 1, sr_event_time = Some 0, sr_ingestion_time = None,
     sr_access_count = 0, sr_last_accessed_at = None, sr_user_id = None, sr_agent_id = None,
     sr_run_id = None, sr_namespace = None, sr_metadata = None, sr_superseded_by = None,
     sr_valid_until = None, sr_invalidation_reason = None, sr_consolidation_trace = None,
     sr_replacement_lineage = None, sr_attention_summary = None, sr_operator_summary = None\<rparr>"

theorem decay_scoring_sound_witness:
  "snd (snd (compute_decay 200 forgetting_config_default example_result 1)) \<le>
   snd (snd (compute_decay 100 forgetting_config_default example_result 1))"
proof -
  have "(0::real) \<le> 1" by simp
  from decay_scoring_sound [OF decay_config_ok_default this, of 100 example_result]
  show ?thesis by (auto split: prod.splits)
qed

text \<open>Half-lives mean what they say, and the configured reinforcement does nothing: under the default
  configuration a never accessed memory has exactly half its score after one half-life of its
  type, and the result of \<open>compute_decay\<close> is the same whatever \<open>reinforcement_alpha\<close> and
  \<open>reinforcement_cap\<close> are configured.\<close>
theorem half_life_and_ignored_reinforcement:
  "compute_decay now (cfg\<lparr>fg_reinforcement_alpha := a, fg_reinforcement_cap := c\<rparr>) r s = compute_decay now cfg r s \<and>
   compute_decay (30 * 86400000) forgetting_config_default
     (example_result\<lparr>sr_memory_type := Episodic\<rparr>) s = (1 / 2, 0, s / 2) \<and>
   compute_decay (180 * 86400000) forgetting_config_default example_result s = (1 / 2, 0, s / 2)"
proof -
  have same: "half_life_days_for (cfg\<lparr>fg_reinforcement_alpha := a, fg_reinforcement_cap := c\<rparr>) t =
      half_life_days_for cfg t" for t
    by (cases t) simp_all
  have half: "exp (- ln (2::real)) = 1 / 2" by (simp add: exp_minus)
  show ?thesis
    by (simp add: compute_decay_def Let_def same apply_decay_scoring_def example_result_def
        forgetting_config_default_def effective_age_days_def reinforcement_bonus_def half
        DEFAULT_DECAY_LAMBDA_def DEFAULT_MIN_DECAY_def DEFAULT_REINFORCEMENT_CAP_def)
qed

end
