(* ===== verification/Capacity.thy ===== *)
theory Capacity
  imports Forgetting
begin

text \<open>
  What a cycle of the capacity controller does, proved against the contract of the storage trait
  and then for the memory table: it archives the lowest-scoring memories, never one that was
  accessed in the last minutes, and never more than asked for.
\<close>

interpretation candidate_order: total_comparison "compare_candidates now" for now
  by unfold_locales (auto simp: compare_candidates_def intro: order_trans)


section \<open>The contract of the storage\<close>

locale capacity_storage =
  fixes db :: "'s memory_storage"
    and cands :: "'s \<Rightarrow> capacity_candidate list"
    and last_access :: "'s \<Rightarrow> string \<Rightarrow> datetime option"
    and invar :: "'s \<Rightarrow> bool"
  assumes list_candidates: "invar s \<Longrightarrow> ms_list_capacity_candidates db s = Inr (cands s)"
    and count: "invar s \<Longrightarrow> ms_count_valid_memories db s = Inr (length (cands s))"
    and last_accessed: "invar s \<Longrightarrow> ms_get_memory_last_accessed_at db s i = Inr (last_access s i)"
    and distinct_ids: "invar s \<Longrightarrow> distinct (map cc_id (cands s))"
    and invalidate_listed: "invar s \<Longrightarrow> i \<in> cc_id ` set (cands s) \<Longrightarrow>
      \<exists>s'. ms_invalidate_memory db i r s = (Inr True, s') \<and> invar s' \<and>
        cands s' = filter (\<lambda>c. cc_id c \<noteq> i) (cands s) \<and> last_access s' = last_access s"
begin

abbreviation recent :: "datetime \<Rightarrow> 's \<Rightarrow> scored_candidate \<Rightarrow> bool" where
  "recent now s x \<equiv> accessed_recently now (last_access s (cc_id (sc_candidate x)))"

definition victims :: "datetime \<Rightarrow> 's \<Rightarrow> scored_candidate list \<Rightarrow> string set" where
  "victims now s xs = (cc_id \<circ> sc_candidate) ` {x \<in> set xs. \<not> recent now s x}"

lemma archive_loop_spec:
  "invar s \<Longrightarrow> distinct (map (cc_id \<circ> sc_candidate) xs) \<Longrightarrow>
   (cc_id \<circ> sc_candidate) ` set xs \<subseteq> cc_id ` set (cands s) \<Longrightarrow>
   \<exists>s'. archive_loop now db xs a k s =
          (Inr (a + length (filter (\<lambda>x. \<not> recent now s x) xs), k + length (filter (recent now s) xs)), s') \<and>
        invar s' \<and> cands s' = filter (\<lambda>c. cc_id c \<notin> victims now s xs) (cands s) \<and>
        last_access s' = last_access s"
proof (induction xs arbitrary: a k s)
  case Nil
  then show ?case by (simp add: victims_def)
next
  case (Cons x xs)
  let ?i = "cc_id (sc_candidate x)"
  show ?case
  proof (cases "recent now s x")
    case True
    then have "was_accessed_recently now db ?i s = Inr True"
      using Cons.prems(1) by (simp add: was_accessed_recently_def last_accessed)
    moreover have "victims now s (x # xs) = victims now s xs" using True by (auto simp: victims_def)
    moreover from Cons.IH [OF Cons.prems(1), of a "k + 1"] Cons.prems(2,3) obtain s' where
      "archive_loop now db xs a (k + 1) s =
          (Inr (a + length (filter (\<lambda>x. \<not> recent now s x) xs), k + 1 + length (filter (recent now s) xs)), s')"
      "invar s'" "cands s' = filter (\<lambda>c. cc_id c \<notin> victims now s xs) (cands s)" "last_access s' = last_access s"
      by auto
    ultimately show ?thesis using True by (intro exI [of _ s']) simp
  next
    case False
    then have not: "was_accessed_recently now db ?i s = Inr False"
      using Cons.prems(1) by (simp add: was_accessed_recently_def last_accessed)
    have "?i \<in> cc_id ` set (cands s)" using Cons.prems(3) by simp
    from invalidate_listed [OF Cons.prems(1) this, of "Some CAPACITY_CONTROLLER_INVALIDATION_REASON"]
    obtain s' where s': "ms_invalidate_memory db ?i (Some CAPACITY_CONTROLLER_INVALIDATION_REASON) s = (Inr True, s')"
      "invar s'" "cands s' = filter (\<lambda>c. cc_id c \<noteq> ?i) (cands s)" "last_access s' = last_access s"
      by blast
    have "(cc_id \<circ> sc_candidate) ` set xs \<subseteq> cc_id ` set (cands s')"
    proof
      fix i
      assume i: "i \<in> (cc_id \<circ> sc_candidate) ` set xs"
      with Cons.prems(2) have "i \<noteq> ?i" unfolding list.map distinct.simps set_map comp_apply by blast
      moreover from i Cons.prems(3) have "i \<in> cc_id ` set (cands s)" by (simp add: subset_iff)
      ultimately show "i \<in> cc_id ` set (cands s')" unfolding s'(3) by auto
    qed
    from Cons.IH [OF s'(2) _ this, of "a + 1" k] Cons.prems(2) obtain s'' where
      s'': "archive_loop now db xs (a + 1) k s' =
          (Inr (a + 1 + length (filter (\<lambda>x. \<not> recent now s' x) xs), k + length (filter (recent now s') xs)), s'')"
        "invar s''" "cands s'' = filter (\<lambda>c. cc_id c \<notin> victims now s' xs) (cands s')" "last_access s'' = last_access s'"
      by auto
    have "victims now s (x # xs) = insert ?i (victims now s' xs)"
      using False by (auto simp: victims_def s'(4))
    with s''(3) have "cands s'' = filter (\<lambda>c. cc_id c \<notin> victims now s (x # xs)) (cands s)"
      unfolding s'(3) filter_filter by (simp cong: filter_cong)
    with s'' not s'(1,4) False show ?thesis by (intro exI [of _ s'']) simp
  qed
qed

text \<open>A whole cycle. The ordered candidates are the preference of the controller.\<close>

definition ordered :: "datetime \<Rightarrow> forgetting_config \<Rightarrow> 's \<Rightarrow> scored_candidate list" where
  "ordered now cfg s = sort_by (compare_candidates now) (rank_candidates now cfg (cands s))"

definition asked :: "forgetting_config \<Rightarrow> 's \<Rightarrow> nat" where
  "asked cfg s = length (cands s) - target_count_of cfg"

lemma map_rank: "map sc_candidate (rank_candidates now cfg cs) = cs"
  by (induction cs) (auto simp: rank_candidates_def)

lemma mset_ordered: "mset (map sc_candidate (ordered now cfg s)) = mset (cands s)"
  unfolding ordered_def by (metis map_rank mset_map mset_sort_by)

lemma set_ordered: "sc_candidate ` set (ordered now cfg s) = set (cands s)"
  using arg_cong [OF mset_ordered, of set_mset now cfg s] by simp

lemma length_ordered: "length (ordered now cfg s) = length (cands s)"
  by (simp add: ordered_def rank_candidates_def)

lemma distinct_ordered:
  assumes "invar s"
  shows "distinct (map (cc_id \<circ> sc_candidate) (ordered now cfg s))"
proof -
  have "mset (map cc_id (map sc_candidate (ordered now cfg s))) = mset (map cc_id (cands s))"
    by (metis mset_map mset_ordered)
  with distinct_ids [OF assms] show ?thesis
    by (metis list.map_comp mset_eq_imp_distinct_iff)
qed

lemma idle_cycle:
  "invar s \<Longrightarrow> length (cands s) \<le> fg_soft_limit cfg \<Longrightarrow>
     run_cycle now cfg db True s = (Inr (capacity_stats_default\<lparr>cs_before_count := length (cands s)\<rparr>), s)"
  by (simp add: run_cycle_def count)

lemma busy_cycle:
  assumes "invar s" and "fg_soft_limit cfg < length (cands s)"
  obtains s' where "run_cycle now cfg db True s =
      (Inr \<lparr>cs_before_count = length (cands s), cs_target_count = target_count_of cfg,
           cs_requested_archives = asked cfg s,
           cs_archived = length (filter (\<lambda>x. \<not> recent now s x) (take (asked cfg s) (ordered now cfg s))),
           cs_skipped_recent = length (filter (recent now s) (take (asked cfg s) (ordered now cfg s)))\<rparr>, s')"
    "invar s'" "cands s' = filter (\<lambda>c. cc_id c \<notin> victims now s (take (asked cfg s) (ordered now cfg s))) (cands s)"
proof -
  let ?xs = "take (asked cfg s) (ordered now cfg s)"
  have "(cc_id \<circ> sc_candidate) ` set ?xs \<subseteq> cc_id ` set (cands s)"
    using set_ordered [of now cfg s] by (auto dest: in_set_takeD)
  moreover have "distinct (map (cc_id \<circ> sc_candidate) ?xs)"
    using distinct_ordered [OF assms(1)] by (simp add: take_map [symmetric] distinct_take)
  ultimately obtain s' where "archive_loop now db ?xs 0 0 s =
      (Inr (length (filter (\<lambda>x. \<not> recent now s x) ?xs), length (filter (recent now s) ?xs)), s')"
    "invar s'" "cands s' = filter (\<lambda>c. cc_id c \<notin> victims now s ?xs) (cands s)"
    using archive_loop_spec [OF assms(1), of ?xs now 0 0] by auto
  with assms that show thesis
    by (simp add: run_cycle_def count list_candidates ordered_def asked_def Let_def)
qed

lemma card_victims:
  assumes "invar s"
  shows "length (filter (\<lambda>c. cc_id c \<in> victims now s (take n (ordered now cfg s))) (cands s)) =
    length (filter (\<lambda>x. \<not> recent now s x) (take n (ordered now cfg s)))"
proof -
  let ?os = "ordered now cfg s" and ?id = "cc_id \<circ> sc_candidate"
  let ?vs = "filter (\<lambda>x. \<not> recent now s x) (take n ?os)"
  have d: "distinct (map ?id ?os)" by (rule distinct_ordered [OF assms])
  then have "distinct (map ?id (take n ?os))" by (simp add: take_map [symmetric] distinct_take)
  then have dv: "distinct (map ?id ?vs)" by (rule distinct_map_filter)
  have V: "victims now s (take n ?os) = set (map ?id ?vs)" by (auto simp: victims_def)
  have "set (filter (\<lambda>i. i \<in> victims now s (take n ?os)) (map cc_id (cands s))) = victims now s (take n ?os)"
    using set_ordered [of now cfg s] by (auto simp: victims_def dest: in_set_takeD)
  moreover have "distinct (filter (\<lambda>i. i \<in> victims now s (take n ?os)) (map cc_id (cands s)))"
    using distinct_ids [OF assms] by simp
  ultimately have "length (filter (\<lambda>i. i \<in> victims now s (take n ?os)) (map cc_id (cands s))) =
      card (victims now s (take n ?os))"
    by (metis distinct_card)
  also have "\<dots> = length ?vs" unfolding V using distinct_card [OF dv] by simp
  finally show ?thesis by (simp add: filter_map o_def)
qed

lemma ordered_score:
  "x \<in> set (ordered now cfg s) \<Longrightarrow> sc_effective_score x = compute_effective_score now cfg (sc_candidate x)"
  by (auto simp: ordered_def rank_candidates_def)

lemma same_id: "invar s \<Longrightarrow> c \<in> set (cands s) \<Longrightarrow> c' \<in> set (cands s) \<Longrightarrow> cc_id c = cc_id c' \<Longrightarrow> c = c'"
  using distinct_ids by (meson distinct_map inj_onD)

lemma victims_lowest:
  assumes "invar s" and "c \<in> set (cands s)" "cc_id c \<in> victims now s (take n (ordered now cfg s))"
    and "c' \<in> set (cands s)" "cc_id c' \<notin> victims now s (take n (ordered now cfg s))"
    and "\<not> accessed_recently now (last_access s (cc_id c'))"
  shows "compute_effective_score now cfg c \<le> compute_effective_score now cfg c'"
proof -
  let ?os = "ordered now cfg s"
  from assms(3) obtain x where x: "x \<in> set (take n ?os)" "cc_id (sc_candidate x) = cc_id c"
    unfolding victims_def by auto
  then have "sc_candidate x \<in> set (cands s)" using set_ordered [of now cfg s] in_set_takeD [OF x(1)] by blast
  with same_id [OF assms(1) _ assms(2) x(2)] have xc: "sc_candidate x = c" by blast
  have "c' \<in> sc_candidate ` set ?os" using assms(4) by (simp only: set_ordered)
  then obtain x' where x': "x' \<in> set ?os" "sc_candidate x' = c'" by (elim imageE) simp
  have "x' \<notin> set (take n ?os)" using assms(5,6) x'(2) by (auto simp: victims_def)
  with x'(1) have "x' \<in> set (drop n ?os)"
    by (metis UnE append_take_drop_id set_append)
  with x(1) have "compare_candidates now x x'"
    unfolding ordered_def by (rule candidate_order.take_sort_by_least)
  then have "sc_effective_score x \<le> sc_effective_score x'" by (auto simp: compare_candidates_def)
  then show ?thesis
    using ordered_score [OF x'(1)] ordered_score [OF in_set_takeD [OF x(1)]] xc x'(2) by simp
qed

lemma cycle_spec:
  assumes "invar s" and "fg_soft_limit cfg < length (cands s)"
  shows "\<exists>st s'. run_cycle now cfg db True s = (Inr st, s') \<and> invar s' \<and>
    cs_archived st + cs_skipped_recent st = length (cands s) - target_count_of cfg \<and>
    length (cands s') + cs_archived st = length (cands s) \<and> set (cands s') \<subseteq> set (cands s) \<and>
    (\<forall>c\<in>set (cands s). accessed_recently now (last_access s (cc_id c)) \<longrightarrow> c \<in> set (cands s')) \<and>
    (\<forall>c\<in>set (cands s) - set (cands s'). \<forall>c'\<in>set (cands s').
       \<not> accessed_recently now (last_access s (cc_id c')) \<longrightarrow>
       compute_effective_score now cfg c \<le> compute_effective_score now cfg c')"
proof -
  let ?os = "ordered now cfg s" and ?n = "asked cfg s"
  let ?v = "victims now s (take ?n ?os)"
  obtain st s' where run: "run_cycle now cfg db True s = (Inr st, s')" "invar s'"
    and st: "cs_archived st = length (filter (\<lambda>x. \<not> recent now s x) (take ?n ?os))"
      "cs_skipped_recent st = length (filter (recent now s) (take ?n ?os))"
    and cs: "cands s' = filter (\<lambda>c. cc_id c \<notin> ?v) (cands s)"
    by (rule busy_cycle [OF assms, of now]) auto
  have "cs_archived st + cs_skipped_recent st = length (take ?n ?os)"
    unfolding st using sum_length_filter_compl [of "recent now s" "take ?n ?os"] by simp
  then have total: "cs_archived st + cs_skipped_recent st = length (cands s) - target_count_of cfg"
    by (simp add: length_ordered asked_def)
  have "length (cands s') + cs_archived st = length (cands s)"
    unfolding cs st card_victims [OF assms(1), symmetric]
    using sum_length_filter_compl [of "\<lambda>c. cc_id c \<in> ?v" "cands s"] by simp
  moreover have "\<forall>c\<in>set (cands s). accessed_recently now (last_access s (cc_id c)) \<longrightarrow> c \<in> set (cands s')"
    unfolding cs by (auto simp: victims_def)
  moreover have "\<forall>c\<in>set (cands s) - set (cands s'). \<forall>c'\<in>set (cands s').
       \<not> accessed_recently now (last_access s (cc_id c')) \<longrightarrow>
       compute_effective_score now cfg c \<le> compute_effective_score now cfg c'"
  proof (intro ballI impI)
    fix c c'
    assume *: "c \<in> set (cands s) - set (cands s')" "c' \<in> set (cands s')"
      "\<not> accessed_recently now (last_access s (cc_id c'))"
    then show "compute_effective_score now cfg c \<le> compute_effective_score now cfg c'"
      unfolding cs by (intro victims_lowest [OF assms(1), where n = ?n]) auto
  qed
  moreover have "set (cands s') \<subseteq> set (cands s)" unfolding cs by auto
  ultimately show ?thesis using run total by (intro exI [of _ st] exI [of _ s']) simp
qed

end

section \<open>The memory table as the storage\<close>

definition surreal_memory_storage :: "datetime \<Rightarrow> memory_table memory_storage" where
  "surreal_memory_storage now =
     \<lparr>ms_count_valid_memories = (\<lambda>t. Inr (count_valid_memories now t)),
      ms_list_capacity_candidates = (\<lambda>t. Inr (list_capacity_candidates now t)),
      ms_get_memory_last_accessed_at = (\<lambda>t i. Inr (get_memory_last_accessed_at t i)),
      ms_invalidate_memory = (\<lambda>i reason t. let (ok, t') = invalidate now i reason None t in (Inr ok, t'))\<rparr>"

lemma candidates_update:
  "hm_ok t \<Longrightarrow> \<not> not_ended now m' \<Longrightarrow>
     list_capacity_candidates now (hm_insert i m' t) =
     filter (\<lambda>c. cc_id c \<noteq> i) (list_capacity_candidates now t)"
proof (induction t)
  case (Cons p t)
  obtain k m where p: "p = (k, m)" by (cases p)
  show ?case
  proof (cases "k = i")
    case True
    with Cons.prems p have "filter (\<lambda>c. cc_id c \<noteq> i) (list_capacity_candidates now t) = list_capacity_candidates now t"
      by (intro filter_True) (force simp: hm_ok_def list_capacity_candidates_def capacity_candidate_of_def)
    with True Cons.prems p show ?thesis
      by (simp add: list_capacity_candidates_def capacity_candidate_of_def)
  next
    case False
    with Cons p show ?thesis
      by (simp add: list_capacity_candidates_def capacity_candidate_of_def hm_ok_def)
  qed
qed (simp add: list_capacity_candidates_def)

lemma candidate_ids: "map cc_id (list_capacity_candidates now t) = map fst (filter (\<lambda>(k, m). not_ended now m) t)"
  by (simp add: list_capacity_candidates_def capacity_candidate_of_def o_def split_beta)

lemma distinct_candidates: "table_ok t \<Longrightarrow> distinct (map cc_id (list_capacity_candidates now t))"
  unfolding candidate_ids by (rule distinct_map_filter) (simp add: table_ok_def hm_ok_def)

lemma count_candidates: "length (list_capacity_candidates now t) = count_valid_memories now t"
  by (simp add: list_capacity_candidates_def count_valid_memories_def length_select_rows)

lemma last_access_update:
  "m_last_accessed_at m' = m_last_accessed_at m \<Longrightarrow> hm_get t i = Some m \<Longrightarrow>
     get_memory_last_accessed_at (hm_insert i m' t) = get_memory_last_accessed_at t"
  by (rule ext) (simp add: get_memory_last_accessed_at_def)

lemma table_candidate:
  "table_ok t \<Longrightarrow> c \<in> set (list_capacity_candidates now t) \<Longrightarrow>
     (\<exists>m. hm_get t (cc_id c) = Some m \<and> not_ended now m \<and> c = capacity_candidate_of (cc_id c, m))"
  using hm_get_mem [of t] by (auto simp: list_capacity_candidates_def capacity_candidate_of_def table_ok_def)

interpretation surreal: capacity_storage "surreal_memory_storage now" "list_capacity_candidates now"
  get_memory_last_accessed_at table_ok for now
proof
  fix t :: memory_table and i and r :: "string option"
  assume ok: "table_ok t" and i: "i \<in> cc_id ` set (list_capacity_candidates now t)"
  from i table_candidate [OF ok] obtain m where m: "hm_get t i = Some m" by blast
  let ?m = "m\<lparr>m_valid_until := Some now, m_invalidation_reason := r, m_superseded_by := None\<rparr>"
  have "\<not> not_ended now ?m" by (simp add: not_ended_def unset_or_def)
  with ok have "list_capacity_candidates now (hm_insert i ?m t) =
      filter (\<lambda>c. cc_id c \<noteq> i) (list_capacity_candidates now t)"
    by (intro candidates_update) (simp_all add: table_ok_def)
  moreover have "table_ok (hm_insert i ?m t)"
    using table_ok_row [OF ok m] by (intro table_ok_insert ok) simp
  moreover have "get_memory_last_accessed_at (hm_insert i ?m t) = get_memory_last_accessed_at t"
    by (rule last_access_update [OF _ m]) simp
  moreover have "ms_invalidate_memory (surreal_memory_storage now) i r t = (Inr True, hm_insert i ?m t)"
    by (simp add: surreal_memory_storage_def invalidate_row [OF m])
  ultimately show "\<exists>s'. ms_invalidate_memory (surreal_memory_storage now) i r t = (Inr True, s') \<and> table_ok s' \<and>
      list_capacity_candidates now s' = filter (\<lambda>c. cc_id c \<noteq> i) (list_capacity_candidates now t) \<and>
      get_memory_last_accessed_at s' = get_memory_last_accessed_at t"
    by blast
qed (simp_all add: surreal_memory_storage_def count_candidates distinct_candidates)

lemma candidate_last_access:
  "table_ok t \<Longrightarrow> c \<in> set (list_capacity_candidates now t) \<Longrightarrow>
     get_memory_last_accessed_at t (cc_id c) = cc_last_accessed_at c"
proof (drule (1) table_candidate, elim exE conjE)
  fix m
  assume m: "hm_get t (cc_id c) = Some m" and c: "c = capacity_candidate_of (cc_id c, m)"
  have "cc_last_accessed_at c = m_last_accessed_at m"
    by (subst c) (simp add: capacity_candidate_of_def)
  with m show ?thesis by (simp add: get_memory_last_accessed_at_def)
qed

text \<open>A cycle of the capacity controller over a well-formed memory table never fails. Up to the soft limit it
  changes nothing. Above it, it archives or skips exactly as many memories as the excess over the
  target, the valid memories drop by exactly the archived ones, a memory accessed in the last five
  minutes is never archived, and whatever it archives scores no higher than anything it leaves
  (recently accessed memories apart).\<close>
theorem capacity_cycle_archives_lowest:
  assumes "table_ok t"
  shows "(count_valid_memories now t \<le> fg_soft_limit cfg \<longrightarrow>
      run_cycle now cfg (surreal_memory_storage now) True t =
        (Inr (capacity_stats_default\<lparr>cs_before_count := count_valid_memories now t\<rparr>), t)) \<and>
    (fg_soft_limit cfg < count_valid_memories now t \<longrightarrow>
      (\<exists>st t'. run_cycle now cfg (surreal_memory_storage now) True t = (Inr st, t') \<and> table_ok t' \<and>
        cs_archived st + cs_skipped_recent st = count_valid_memories now t - target_count_of cfg \<and>
        count_valid_memories now t' + cs_archived st = count_valid_memories now t \<and>
        (\<forall>c\<in>set (list_capacity_candidates now t). accessed_recently now (cc_last_accessed_at c) \<longrightarrow>
           c \<in> set (list_capacity_candidates now t')) \<and>
        (\<forall>c\<in>set (list_capacity_candidates now t) - set (list_capacity_candidates now t').
           \<forall>c'\<in>set (list_capacity_candidates now t'). \<not> accessed_recently now (cc_last_accessed_at c') \<longrightarrow>
           compute_effective_score now cfg c \<le> compute_effective_score now cfg c')))"
proof (intro conjI impI)
  assume "count_valid_memories now t \<le> fg_soft_limit cfg"
  then show "run_cycle now cfg (surreal_memory_storage now) True t =
      (Inr (capacity_stats_default\<lparr>cs_before_count := count_valid_memories now t\<rparr>), t)"
    using surreal.idle_cycle [OF assms, of now cfg] by (simp add: count_candidates)
next
  assume "fg_soft_limit cfg < count_valid_memories now t"
  then have "fg_soft_limit cfg < length (list_capacity_candidates now t)" by (simp add: count_candidates)
  from surreal.cycle_spec [OF assms this, of now] obtain st t' where
    r: "run_cycle now cfg (surreal_memory_storage now) True t = (Inr st, t')" "table_ok t'"
    and n: "cs_archived st + cs_skipped_recent st = length (list_capacity_candidates now t) - target_count_of cfg"
      "length (list_capacity_candidates now t') + cs_archived st = length (list_capacity_candidates now t)"
    and sub: "set (list_capacity_candidates now t') \<subseteq> set (list_capacity_candidates now t)"
    and keep: "\<forall>c\<in>set (list_capacity_candidates now t).
      accessed_recently now (get_memory_last_accessed_at t (cc_id c)) \<longrightarrow> c \<in> set (list_capacity_candidates now t')"
    and low: "\<forall>c\<in>set (list_capacity_candidates now t) - set (list_capacity_candidates now t').
      \<forall>c'\<in>set (list_capacity_candidates now t').
       \<not> accessed_recently now (get_memory_last_accessed_at t (cc_id c')) \<longrightarrow>
       compute_effective_score now cfg c \<le> compute_effective_score now cfg c'"
    by blast
  note la = candidate_last_access [OF assms]
  have "\<forall>c\<in>set (list_capacity_candidates now t). accessed_recently now (cc_last_accessed_at c) \<longrightarrow>
      c \<in> set (list_capacity_candidates now t')" using keep la by simp
  moreover have "\<forall>c\<in>set (list_capacity_candidates now t) - set (list_capacity_candidates now t').
      \<forall>c'\<in>set (list_capacity_candidates now t'). \<not> accessed_recently now (cc_last_accessed_at c') \<longrightarrow>
      compute_effective_score now cfg c \<le> compute_effective_score now cfg c'"
    using low la sub by (auto simp: subset_iff)
  ultimately show "\<exists>st t'. run_cycle now cfg (surreal_memory_storage now) True t = (Inr st, t') \<and> table_ok t' \<and>
      cs_archived st + cs_skipped_recent st = count_valid_memories now t - target_count_of cfg \<and>
      count_valid_memories now t' + cs_archived st = count_valid_memories now t \<and>
      (\<forall>c\<in>set (list_capacity_candidates now t). accessed_recently now (cc_last_accessed_at c) \<longrightarrow>
         c \<in> set (list_capacity_candidates now t')) \<and>
      (\<forall>c\<in>set (list_capacity_candidates now t) - set (list_capacity_candidates now t').
         \<forall>c'\<in>set (list_capacity_candidates now t'). \<not> accessed_recently now (cc_last_accessed_at c') \<longrightarrow>
         compute_effective_score now cfg c \<le> compute_effective_score now cfg c')"
    using r n by (intro exI [of _ st] exI [of _ t']) (simp add: count_candidates)
qed

definition example_limit :: forgetting_config where
  "example_limit = forgetting_config_default\<lparr>fg_soft_limit := 1\<rparr>"

theorem capacity_cycle_archives_lowest_witness:
  "\<exists>st t'. run_cycle 9 example_limit (surreal_memory_storage 9) True
      [(''a'', example_memory ''a'' 1), (''b'', example_memory ''b'' 2)] = (Inr st, t') \<and>
    cs_archived st + cs_skipped_recent st = 2"
proof -
  let ?t = "[(''a'', example_memory ''a'' 1), (''b'', example_memory ''b'' 2)]"
  have 1: "table_ok ?t" by (simp add: table_ok_def hm_ok_def example_memory_def)
  have 2: "count_valid_memories 9 ?t = 2"
    by (simp add: count_valid_memories_def select_rows_def not_ended_def unset_or_def example_memory_def memory_new_def)
  have 3: "fg_soft_limit example_limit < 2" "target_count_of example_limit = 0"
    by (simp_all add: example_limit_def target_count_of_def forgetting_config_default_def)
  from capacity_cycle_archives_lowest [OF 1, of 9 example_limit] show ?thesis
    unfolding 2 3(2) using 3(1) by fastforce
qed

end
