(* ===== verification/MemoryMigration.thy ===== *)
theory MemoryMigration
  imports MemoryStore GraphTypes
begin

text \<open>
  Export and import of memories: \<open>export_memories\<close> and \<open>import_memories\<close> of
  \<open>src/storage/surrealdb/memory_ops.rs\<close> with the record and report types of
  \<open>src/types/export.rs\<close>. The serialisation to JSON lines, the 64-bit hasher of remapped ids and the
  rendering of a timestamp are parameters. A JSON object is updated as an association list.
\<close>

section \<open>Types\<close>

definition MEMORY_MIGRATION_SCHEMA_VERSION :: u32 where
  "MEMORY_MIGRATION_SCHEMA_VERSION = 1"

datatype migration_record_type = MigrationMemory

datatype import_conflict_strategy = Remap | Skip | Fail

fun conflict_strategy_name :: "import_conflict_strategy \<Rightarrow> string" where
  "conflict_strategy_name Remap = ''remap''"
| "conflict_strategy_name Skip = ''skip''"
| "conflict_strategy_name Fail = ''fail''"

datatype import_error_code =
    UnsupportedSchemaVersion | InvalidJsonl | InvalidRecordType | MissingRequiredField
  | InvalidMemoryType | StorageError

record import_error =
  ie_code :: import_error_code
  ie_message :: string
  ie_line_number :: "nat option"
  ie_source_id :: "string option"
  ie_field :: "string option"

record migration_memory_record =
  mr_schema_version :: u32
  mr_record_type :: migration_record_type
  mr_id :: string
  mr_content :: string
  mr_memory_type :: memory_type
  mr_user_id :: "string option"
  mr_agent_id :: "string option"
  mr_run_id :: "string option"
  mr_namespace :: "string option"
  mr_project_id :: "string option"
  mr_metadata :: "json option"
  mr_importance_score :: real
  mr_created_at :: datetime
  mr_updated_at :: datetime
  mr_valid_from :: datetime
  mr_valid_until :: "datetime option"
  mr_superseded_by :: "string option"
  mr_invalidated :: bool
  mr_invalidation_reason :: "string option"

definition unsupported_schema_version_error :: "migration_memory_record \<Rightarrow> nat option \<Rightarrow> import_error option" where
  "unsupported_schema_version_error r line_number =
     (if mr_schema_version r = MEMORY_MIGRATION_SCHEMA_VERSION then None
      else Some \<lparr>ie_code = UnsupportedSchemaVersion,
                 ie_message = ''Unsupported memory migration schema_version '' @
                   dec_of_nat (unat (mr_schema_version r)) @ ''. Supported schema_version is '' @
                   dec_of_nat (unat MEMORY_MIGRATION_SCHEMA_VERSION) @ ''.'',
                 ie_line_number = line_number, ie_source_id = Some (mr_id r),
                 ie_field = Some ''schema_version''\<rparr>)"

record migration_summary =
  sm_total_records :: nat
  sm_memory_records :: nat
  sm_exported_records :: nat
  sm_imported_records :: nat
  sm_skipped_records :: nat
  sm_failed_records :: nat
  sm_valid_records :: nat
  sm_invalidated_records :: nat
  sm_dry_run :: bool

record export_memory_response =
  xr_jsonl :: string
  xr_exported_count :: nat
  xr_truncated :: bool
  xr_summary :: migration_summary

record import_memory_response =
  ir_conflict_strategy :: import_conflict_strategy
  ir_dry_run :: bool
  ir_imported_count :: nat
  ir_skipped_count :: nat
  ir_failed_count :: nat
  ir_summary :: migration_summary
  ir_id_mappings :: "(string \<times> string) list"
  ir_errors :: "import_error list"

record memory_export_options =
  xo_project_id :: string
  xo_filters :: memory_query
  xo_valid_only :: bool
  xo_include_invalidated :: bool
  xo_limit :: "nat option"

record memory_import_options =
  io_project_id :: string
  io_conflict_strategy :: import_conflict_strategy
  io_dry_run :: bool
  io_allow_invalidated :: bool

definition memory_export_options_new :: "string \<Rightarrow> memory_export_options" where
  "memory_export_options_new p =
     \<lparr>xo_project_id = p, xo_filters = memory_query_default, xo_valid_only = True,
      xo_include_invalidated = False, xo_limit = None\<rparr>"

definition memory_import_options_new :: "string \<Rightarrow> memory_import_options" where
  "memory_import_options_new p =
     \<lparr>io_project_id = p, io_conflict_strategy = Remap, io_dry_run = True, io_allow_invalidated = False\<rparr>"

definition validate_project_scope :: "string \<Rightarrow> unit app_result" where
  "validate_project_scope p =
     (if trim p = []
      then Inl (InvalidPath ''project_id is required for memory migration storage operations'')
      else Inr ())"

section \<open>Export\<close>

definition memory_to_migration_record :: "memory \<Rightarrow> string \<Rightarrow> migration_memory_record app_result" where
  "memory_to_migration_record m project_id =
     (case m_id m of
        None \<Rightarrow> Inl (Internal ''memory record missing id'')
      | Some i \<Rightarrow>
          Inr \<lparr>mr_schema_version = MEMORY_MIGRATION_SCHEMA_VERSION, mr_record_type = MigrationMemory,
               mr_id = rid_key i, mr_content = m_content m, mr_memory_type = m_memory_type m,
               mr_user_id = m_user_id m, mr_agent_id = m_agent_id m, mr_run_id = m_run_id m,
               mr_namespace = m_namespace m, mr_project_id = Some project_id,
               mr_metadata = m_metadata m, mr_importance_score = m_importance_score m,
               mr_created_at = m_ingestion_time m, mr_updated_at = m_ingestion_time m,
               mr_valid_from = m_valid_from m, mr_valid_until = m_valid_until m,
               mr_superseded_by = m_superseded_by m, mr_invalidated = m_valid_until m \<noteq> None,
               mr_invalidation_reason = m_invalidation_reason m\<rparr>)"

fun collect_results :: "'a app_result list \<Rightarrow> 'a list app_result" where
  "collect_results [] = Inr []"
| "collect_results (Inl e # xs) = Inl e"
| "collect_results (Inr x # xs) = map_sum id ((#) x) (collect_results xs)"

definition export_tail_clause :: "memory_query \<Rightarrow> memory \<Rightarrow> bool" where
  "export_tail_clause q m \<longleftrightarrow>
     unset_or (mq_user_id q) (\<lambda>v. m_user_id m = Some v) \<and>
     unset_or (mq_agent_id q) (\<lambda>v. m_agent_id m = Some v) \<and>
     unset_or (mq_run_id q) (\<lambda>v. m_run_id m = Some v) \<and>
     unset_or (mq_memory_type q) (\<lambda>v. m_memory_type m = v) \<and>
     unset_or (mq_event_after q) (\<lambda>v. m_event_time m \<ge> v) \<and>
     unset_or (mq_event_before q) (\<lambda>v. m_event_time m \<le> v) \<and>
     unset_or (mq_ingestion_after q) (\<lambda>v. m_ingestion_time m \<ge> v) \<and>
     unset_or (mq_ingestion_before q) (\<lambda>v. m_ingestion_time m \<le> v)"

text \<open>The condition of the export statement. For valid memories the text inserted after \<open>AND\<close> is
  \<open>valid_until IS NONE OR valid_until > time::now()\<close> without parentheses, and \<open>AND\<close> binds
  tighter than \<open>OR\<close>.\<close>

definition export_clause :: "datetime \<Rightarrow> memory_export_options \<Rightarrow> memory_query \<Rightarrow> memory \<Rightarrow> bool" where
  "export_clause now opts q m \<longleftrightarrow>
     (if \<not> xo_include_invalidated opts \<and> xo_valid_only opts
      then (m_namespace m = Some (xo_project_id opts) \<and> m_valid_until m = None) \<or>
           ((case m_valid_until m of None \<Rightarrow> False | Some u \<Rightarrow> u > now) \<and> export_tail_clause q m)
      else m_namespace m = Some (xo_project_id opts) \<and> export_tail_clause q m)"

text \<open>The records of an export, and whether the limit cut the list.\<close>

definition export_records ::
  "datetime \<Rightarrow> memory_export_options \<Rightarrow> memory_table \<Rightarrow> (migration_memory_record list \<times> bool) app_result" where
  "export_records now opts t =
     (let filters = (xo_filters opts)\<lparr>mq_namespace := Some (xo_project_id opts)\<rparr>;
          fetch_limit = (case xo_limit opts of Some l \<Rightarrow> l + 1 | None \<Rightarrow> 1000000);
          rows = take fetch_limit (newest_first (select_rows (export_clause now opts filters) t));
          memories = retain_metadata filters rows;
          truncated = (case xo_limit opts of Some l \<Rightarrow> length memories > l | None \<Rightarrow> False);
          memories' = (case xo_limit opts of Some l \<Rightarrow> take l memories | None \<Rightarrow> memories)
      in map_sum id (\<lambda>records. (records, truncated))
           (collect_results (map (\<lambda>m. memory_to_migration_record m (xo_project_id opts)) memories')))"

text \<open>\<open>join("\n")\<close>.\<close>

definition join_lines :: "string list \<Rightarrow> string" where
  "join_lines ls = concat (case ls of [] \<Rightarrow> [] | j # js \<Rightarrow> j # map (\<lambda>x. CHR 0x0A # x) js)"

definition export_memories ::
  "(migration_memory_record \<Rightarrow> string) \<Rightarrow> datetime \<Rightarrow> memory_export_options \<Rightarrow> memory_table \<Rightarrow>
   export_memory_response app_result" where
  "export_memories to_json now opts t =
     (case validate_project_scope (xo_project_id opts) of
        Inl e \<Rightarrow> Inl e
      | Inr _ \<Rightarrow>
          (case export_records now opts t of
             Inl e \<Rightarrow> Inl e
           | Inr (records, truncated) \<Rightarrow>
               (let invalidated_records = length (filter mr_invalidated records)
                in Inr \<lparr>xr_jsonl = join_lines (map to_json records), xr_exported_count = length records,
                        xr_truncated = truncated,
                        xr_summary =
                          \<lparr>sm_total_records = length records, sm_memory_records = length records,
                           sm_exported_records = length records, sm_imported_records = 0,
                           sm_skipped_records = 0, sm_failed_records = 0,
                           sm_valid_records = saturating_sub (length records) invalidated_records,
                           sm_invalidated_records = invalidated_records, sm_dry_run = False\<rparr>\<rparr>)))"

section \<open>Import\<close>

text \<open>The first pass: which records can be imported.\<close>

record import_scan =
  is_seen :: "string set"
  is_errors :: "import_error list"
  is_skipped :: nat
  is_failed :: nat
  is_valid :: nat
  is_invalidated :: nat
  is_importable :: "migration_memory_record list"

definition scan_init :: import_scan where
  "scan_init = \<lparr>is_seen = {}, is_errors = [], is_skipped = 0, is_failed = 0, is_valid = 0,
     is_invalidated = 0, is_importable = []\<rparr>"

definition scan_fail :: "import_error \<Rightarrow> import_scan \<Rightarrow> import_scan" where
  "scan_fail e st = st\<lparr>is_failed := is_failed st + 1, is_errors := is_errors st @ [e]\<rparr>"

definition scan_record ::
  "memory_import_options \<Rightarrow> nat \<Rightarrow> migration_memory_record \<Rightarrow> import_scan \<Rightarrow> import_scan" where
  "scan_record opts index r st =
     (let line_number = Some (index + 1) in
      case unsupported_schema_version_error r line_number of
        Some e \<Rightarrow> scan_fail e st
      | None \<Rightarrow>
          if mr_record_type r \<noteq> MigrationMemory then
            scan_fail \<lparr>ie_code = InvalidRecordType,
              ie_message = ''Only memory migration records can be imported by memory storage'',
              ie_line_number = line_number, ie_source_id = Some (mr_id r),
              ie_field = Some ''record_type''\<rparr> st
          else if trim (mr_id r) = [] then
            scan_fail \<lparr>ie_code = MissingRequiredField,
              ie_message = ''Memory migration record id is required'',
              ie_line_number = line_number, ie_source_id = None, ie_field = Some ''id''\<rparr> st
          else if mr_content r = [] then
            scan_fail \<lparr>ie_code = MissingRequiredField,
              ie_message = ''Memory migration record content is required'',
              ie_line_number = line_number, ie_source_id = Some (mr_id r), ie_field = Some ''content''\<rparr> st
          else if mr_id r \<in> is_seen st then
            scan_fail \<lparr>ie_code = StorageError,
              ie_message = ''Duplicate memory id '' @ mr_id r @ '' in import payload'',
              ie_line_number = line_number, ie_source_id = Some (mr_id r), ie_field = Some ''id''\<rparr> st
          else
            (let st1 = st\<lparr>is_seen := insert (mr_id r) (is_seen st)\<rparr> in
             if mr_invalidated r \<or> mr_valid_until r \<noteq> None then
               (let st2 = st1\<lparr>is_invalidated := is_invalidated st1 + 1\<rparr> in
                if \<not> io_allow_invalidated opts then
                  st2\<lparr>is_skipped := is_skipped st2 + 1,
                      is_errors := is_errors st2 @
                        [\<lparr>ie_code = StorageError,
                          ie_message = ''Invalidated memory records require allow_invalidated import option'',
                          ie_line_number = line_number, ie_source_id = Some (mr_id r),
                          ie_field = Some ''invalidated''\<rparr>]\<rparr>
                else st2\<lparr>is_importable := is_importable st2 @ [r]\<rparr>)
             else st1\<lparr>is_valid := is_valid st1 + 1, is_importable := is_importable st1 @ [r]\<rparr>))"

fun scan_records ::
  "memory_import_options \<Rightarrow> nat \<Rightarrow> migration_memory_record list \<Rightarrow> import_scan \<Rightarrow> import_scan" where
  "scan_records opts index [] st = st"
| "scan_records opts index (r # rs) st = scan_records opts (index + 1) rs (scan_record opts index r st)"

definition existing_memory_ids :: "memory_table \<Rightarrow> string list \<Rightarrow> string set" where
  "existing_memory_ids t ids = set (filter (\<lambda>i. hm_get t i \<noteq> None) ids)"

definition deterministic_remap_id :: "(string \<times> string \<Rightarrow> u64) \<Rightarrow> string \<Rightarrow> string \<Rightarrow> string" where
  "deterministic_remap_id hasher old_id project_id =
     old_id @ ''-import-'' @ hex_pad 16 (unat (hasher (project_id, old_id)))"

text \<open>The second pass: the ids under which the records will be stored.\<close>

record import_plan =
  ip_id_map :: "(string, string) hmap"
  ip_id_mappings :: "(string \<times> string) list"
  ip_skipped :: nat
  ip_failed :: nat
  ip_errors :: "import_error list"

definition plan_record ::
  "(string \<times> string \<Rightarrow> u64) \<Rightarrow> memory_import_options \<Rightarrow> string set \<Rightarrow> migration_memory_record \<Rightarrow>
   import_plan \<Rightarrow> import_plan" where
  "plan_record hasher opts conflicts r pl =
     (let old_id = mr_id r;
          keep = (\<lambda>new_id.
            let pl1 = (if new_id \<noteq> old_id
                       then pl\<lparr>ip_id_mappings := ip_id_mappings pl @ [(old_id, new_id)]\<rparr> else pl)
            in pl1\<lparr>ip_id_map := hm_insert old_id new_id (ip_id_map pl1)\<rparr>)
      in if old_id \<in> conflicts then
           (case io_conflict_strategy opts of
              Remap \<Rightarrow> keep (deterministic_remap_id hasher old_id (io_project_id opts))
            | Skip \<Rightarrow> pl\<lparr>ip_skipped := ip_skipped pl + 1\<rparr>
            | Fail \<Rightarrow> pl\<lparr>ip_failed := ip_failed pl + 1,
                         ip_errors := ip_errors pl @
                           [\<lparr>ie_code = StorageError,
                             ie_message = ''Memory id '' @ old_id @ '' already exists'',
                             ie_line_number = None, ie_source_id = Some old_id, ie_field = Some ''id''\<rparr>]\<rparr>)
         else keep old_id)"

fun plan_records ::
  "(string \<times> string \<Rightarrow> u64) \<Rightarrow> memory_import_options \<Rightarrow> string set \<Rightarrow> migration_memory_record list \<Rightarrow>
   import_plan \<Rightarrow> import_plan" where
  "plan_records hasher opts conflicts [] pl = pl"
| "plan_records hasher opts conflicts (r # rs) pl =
     plan_records hasher opts conflicts rs (plan_record hasher opts conflicts r pl)"

definition map_target :: "string set \<Rightarrow> (string, string) hmap \<Rightarrow> string \<Rightarrow> string" where
  "map_target payload_ids id_map i =
     (if i \<in> payload_ids then (case hm_get id_map i of Some n \<Rightarrow> n | None \<Rightarrow> i) else i)"

definition json_opt :: "string option \<Rightarrow> json" where
  "json_opt x = (case x of Some s \<Rightarrow> JStr s | None \<Rightarrow> JNull)"

definition import_audit_metadata ::
  "(datetime \<Rightarrow> string) \<Rightarrow> json option \<Rightarrow> migration_memory_record \<Rightarrow> string \<Rightarrow> string \<Rightarrow> string option \<Rightarrow>
   import_conflict_strategy \<Rightarrow> datetime \<Rightarrow> json" where
  "import_audit_metadata fmt_time metadata r imported_id target_project_id source_project_id strategy imported_at =
     (let m0 = (case metadata of
                  Some (JObj kvs) \<Rightarrow> kvs
                | Some v \<Rightarrow> [(''source_metadata'', v)]
                | None \<Rightarrow> []);
          m1 = (case hm_get m0 ''migration'' of
                  None \<Rightarrow> m0
                | Some source_migration \<Rightarrow>
                    (let m = hm_remove ''migration'' m0 in
                     case hm_get m ''source_migration'' of
                       Some existing \<Rightarrow>
                         hm_insert ''source_migration''
                           (JObj [(''migration'', source_migration), (''source_migration'', existing)])
                           (hm_remove ''source_migration'' m)
                     | None \<Rightarrow> hm_insert ''source_migration'' source_migration m))
      in JObj (hm_insert ''migration''
           (JObj [(''schema_version'', JNum (real (unat MEMORY_MIGRATION_SCHEMA_VERSION))),
                  (''source_id'', JStr (mr_id r)), (''imported_id'', JStr imported_id),
                  (''target_project_id'', JStr target_project_id),
                  (''source_project_id'', json_opt source_project_id),
                  (''imported_at'', JStr (fmt_time imported_at)),
                  (''conflict_strategy'', JStr (conflict_strategy_name strategy))]) m1))"

definition migration_record_to_memory ::
  "(datetime \<Rightarrow> string) \<Rightarrow> migration_memory_record \<Rightarrow> string \<Rightarrow> string \<Rightarrow> import_conflict_strategy \<Rightarrow> datetime \<Rightarrow>
   (string, string) hmap \<Rightarrow> string set \<Rightarrow> memory" where
  "migration_record_to_memory fmt_time r new_id project_id strategy imported_at id_map payload_ids =
     (let superseded_by = map_option (map_target payload_ids id_map) (mr_superseded_by r);
          source_project_id = (case mr_project_id r of Some p \<Rightarrow> Some p | None \<Rightarrow> mr_namespace r)
      in \<lparr>m_id = Some \<lparr>rid_table = ''memories'', rid_key = new_id\<rparr>, m_content = mr_content r,
          m_embedding = None, m_memory_type = mr_memory_type r, m_user_id = mr_user_id r,
          m_agent_id = mr_agent_id r, m_run_id = mr_run_id r, m_namespace = Some project_id,
          m_metadata = Some (import_audit_metadata fmt_time (mr_metadata r) r new_id project_id
            source_project_id strategy imported_at),
          m_event_time = mr_created_at r, m_ingestion_time = mr_created_at r,
          m_valid_from = mr_valid_from r, m_valid_until = mr_valid_until r,
          m_importance_score = mr_importance_score r, m_access_count = 0, m_last_accessed_at = None,
          m_invalidation_reason = mr_invalidation_reason r, m_superseded_by = superseded_by,
          m_content_hash = None, m_embedding_state = ES_None\<rparr>)"

text \<open>The third pass writes one record after the other; the first failing \<open>CREATE\<close> ends it.\<close>

definition write_record ::
  "(datetime \<Rightarrow> string) \<Rightarrow> memory_import_options \<Rightarrow> datetime \<Rightarrow> (string, string) hmap \<Rightarrow> string set \<Rightarrow>
   migration_memory_record \<times> string \<Rightarrow> memory_table \<Rightarrow> unit app_result \<times> memory_table" where
  "write_record fmt_time opts imported_at id_map payload_ids rn t =
     (case rn of (r, new_id) \<Rightarrow>
        let m = migration_record_to_memory fmt_time r new_id (io_project_id opts)
                  (io_conflict_strategy opts) imported_at id_map payload_ids
        in if hm_get t new_id \<noteq> None then (Inl (Database ''record already exists''), t)
           else
             (let t1 = hm_insert new_id m t in
              case mr_superseded_by r of
                None \<Rightarrow> (Inr (), t1)
              | Some target \<Rightarrow>
                  (let mapped_target = map_target payload_ids id_map target
                   in (Inr (), snd (update_row new_id (\<lambda>m. m\<lparr>m_superseded_by := Some mapped_target\<rparr>) t1)))))"

fun write_records ::
  "(datetime \<Rightarrow> string) \<Rightarrow> memory_import_options \<Rightarrow> datetime \<Rightarrow> (string, string) hmap \<Rightarrow> string set \<Rightarrow>
   (migration_memory_record \<times> string) list \<Rightarrow> memory_table \<Rightarrow> unit app_result \<times> memory_table" where
  "write_records fmt_time opts imported_at id_map payload_ids [] t = (Inr (), t)"
| "write_records fmt_time opts imported_at id_map payload_ids (rn # rns) t =
     (case write_record fmt_time opts imported_at id_map payload_ids rn t of
        (Inl e, t') \<Rightarrow> (Inl e, t')
      | (Inr _, t') \<Rightarrow> write_records fmt_time opts imported_at id_map payload_ids rns t')"

definition plan_init :: "import_scan \<Rightarrow> import_plan" where
  "plan_init sc = \<lparr>ip_id_map = [], ip_id_mappings = [], ip_skipped = is_skipped sc,
     ip_failed = is_failed sc, ip_errors = is_errors sc\<rparr>"

definition planned_records ::
  "(string, string) hmap \<Rightarrow> migration_memory_record list \<Rightarrow> (migration_memory_record \<times> string) list" where
  "planned_records id_map rs =
     List.map_filter (\<lambda>r. map_option (\<lambda>n. (r, n)) (hm_get id_map (mr_id r))) rs"

definition import_memories ::
  "(string \<times> string \<Rightarrow> u64) \<Rightarrow> (datetime \<Rightarrow> string) \<Rightarrow> datetime \<Rightarrow> migration_memory_record list \<Rightarrow>
   memory_import_options \<Rightarrow> memory_table \<Rightarrow> import_memory_response app_result \<times> memory_table" where
  "import_memories hasher fmt_time imported_at records opts t =
     (case validate_project_scope (io_project_id opts) of
        Inl e \<Rightarrow> (Inl e, t)
      | Inr _ \<Rightarrow>
          (let total_records = length records;
               payload_ids = set (map mr_id records);
               sc = scan_records opts 0 records scan_init;
               conflicts = existing_memory_ids t (map mr_id (is_importable sc));
               pl = plan_records hasher opts conflicts (is_importable sc) (plan_init sc);
               planned = planned_records (ip_id_map pl) (is_importable sc);
               planned_count = length planned;
               has_errors = (ip_failed pl > 0 \<or> ip_errors pl \<noteq> []);
               skipped_count = ip_skipped pl + (if io_dry_run opts \<or> has_errors then planned_count else 0);
               written = (if io_dry_run opts \<or> has_errors then (Inr (), t)
                          else write_records fmt_time opts imported_at (ip_id_map pl) payload_ids planned t);
               committed_count = (if io_dry_run opts \<or> has_errors then 0 else planned_count)
           in case written of
                (Inl e, t') \<Rightarrow> (Inl e, t')
              | (Inr _, t') \<Rightarrow>
                  (Inr \<lparr>ir_conflict_strategy = io_conflict_strategy opts, ir_dry_run = io_dry_run opts,
                        ir_imported_count = committed_count, ir_skipped_count = skipped_count,
                        ir_failed_count = ip_failed pl,
                        ir_summary =
                          \<lparr>sm_total_records = total_records, sm_memory_records = total_records,
                           sm_exported_records = 0, sm_imported_records = committed_count,
                           sm_skipped_records = skipped_count, sm_failed_records = ip_failed pl,
                           sm_valid_records = is_valid sc, sm_invalidated_records = is_invalidated sc,
                           sm_dry_run = io_dry_run opts\<rparr>,
                        ir_id_mappings = ip_id_mappings pl, ir_errors = ip_errors pl\<rparr>, t')))"

section \<open>The first pass\<close>

definition acceptable :: "memory_import_options \<Rightarrow> migration_memory_record \<Rightarrow> bool" where
  "acceptable opts r \<longleftrightarrow> mr_schema_version r = MEMORY_MIGRATION_SCHEMA_VERSION \<and> trim (mr_id r) \<noteq> [] \<and>
     mr_content r \<noteq> [] \<and> (io_allow_invalidated opts \<or> \<not> (mr_invalidated r \<or> mr_valid_until r \<noteq> None))"

definition scan_inv :: "nat \<Rightarrow> import_scan \<Rightarrow> bool" where
  "scan_inv n st \<longleftrightarrow> distinct (map mr_id (is_importable st)) \<and>
     mr_id ` set (is_importable st) \<subseteq> is_seen st \<and>
     is_failed st + is_skipped st + length (is_importable st) = n \<and>
     length (is_errors st) = is_failed st + is_skipped st"

lemma record_type_all: "mr_record_type r = MigrationMemory"
  by (cases "mr_record_type r") simp

lemma scan_inv_fail: "scan_inv n st \<Longrightarrow> scan_inv (Suc n) (scan_fail e st)"
  by (simp add: scan_inv_def scan_fail_def)

lemma scan_inv_record:
  assumes "scan_inv n st"
  shows "scan_inv (Suc n) (scan_record opts k r st)"
proof -
  have "scan_inv (Suc n) (scan_record opts k r st)"
    if "mr_id r \<notin> is_seen st" "unsupported_schema_version_error r (Some (k + 1)) = None"
      "trim (mr_id r) \<noteq> []" "mr_content r \<noteq> []"
    using assms that by (auto simp: scan_record_def Let_def scan_inv_def record_type_all)
  then show ?thesis
    using scan_inv_fail [OF assms]
    by (cases "mr_id r \<in> is_seen st"; cases "unsupported_schema_version_error r (Some (k + 1))")
      (auto simp: scan_record_def Let_def record_type_all)
qed

lemma scan_inv_records: "scan_inv n st \<Longrightarrow> scan_inv (n + length rs) (scan_records opts k rs st)"
proof (induction rs arbitrary: n k st)
  case (Cons r rs)
  from Cons.IH [OF scan_inv_record [OF Cons.prems]] show ?case by simp
qed simp

lemma scan_inv_init: "scan_inv 0 scan_init"
  by (simp add: scan_inv_def scan_init_def)

lemma scan_accept_one:
  assumes "acceptable opts r" and "mr_id r \<notin> is_seen st"
  shows "is_importable (scan_record opts k r st) = is_importable st @ [r]"
    "is_errors (scan_record opts k r st) = is_errors st"
    "is_failed (scan_record opts k r st) = is_failed st"
    "is_skipped (scan_record opts k r st) = is_skipped st"
    "is_seen (scan_record opts k r st) = insert (mr_id r) (is_seen st)"
  using assms by (auto simp: scan_record_def Let_def acceptable_def unsupported_schema_version_error_def record_type_all)

lemma scan_accepts:
  "\<forall>r\<in>set rs. acceptable opts r \<Longrightarrow> distinct (map mr_id rs) \<Longrightarrow> is_seen st \<inter> mr_id ` set rs = {} \<Longrightarrow>
     is_importable (scan_records opts k rs st) = is_importable st @ rs \<and>
     is_errors (scan_records opts k rs st) = is_errors st \<and>
     is_failed (scan_records opts k rs st) = is_failed st \<and>
     is_skipped (scan_records opts k rs st) = is_skipped st"
proof (induction rs arbitrary: k st)
  case (Cons r rs)
  let ?st = "scan_record opts k r st"
  from Cons.prems have r: "acceptable opts r" "mr_id r \<notin> is_seen st" by auto
  note st = scan_accept_one [OF r, of k]
  from Cons.prems have "is_seen ?st \<inter> mr_id ` set rs = {}" unfolding st(5) by auto
  with Cons.IH [OF _ _ this, of "k + 1"] Cons.prems(1,2) show ?case by (simp add: st)
qed simp

lemma scan_record_importable:
  "r' \<in> set (is_importable (scan_record opts k r st)) \<Longrightarrow> (r' = r \<and> acceptable opts r) \<or> r' \<in> set (is_importable st)"
  by (auto simp: scan_record_def scan_fail_def Let_def acceptable_def unsupported_schema_version_error_def
      split: option.splits if_splits)

lemma scan_records_importable:
  "r \<in> set (is_importable (scan_records opts k rs st)) \<Longrightarrow> (r \<in> set rs \<and> acceptable opts r) \<or> r \<in> set (is_importable st)"
proof (induction rs arbitrary: k st)
  case (Cons r' rs)
  from Cons.IH [of "k + 1" "scan_record opts k r' st"] Cons.prems scan_record_importable [of r opts k r' st]
  show ?case by auto
qed simp

section \<open>The second pass\<close>

definition planned_id ::
  "(string \<times> string \<Rightarrow> u64) \<Rightarrow> memory_import_options \<Rightarrow> string set \<Rightarrow> string \<Rightarrow> string option" where
  "planned_id hasher opts conflicts i =
     (if i \<in> conflicts
      then (if io_conflict_strategy opts = Remap
            then Some (deterministic_remap_id hasher i (io_project_id opts)) else None)
      else Some i)"

lemma plan_record_map:
  "ip_id_map (plan_record hasher opts conflicts r pl) =
     (case planned_id hasher opts conflicts (mr_id r) of
        None \<Rightarrow> ip_id_map pl | Some n \<Rightarrow> hm_insert (mr_id r) n (ip_id_map pl))"
  by (auto simp: plan_record_def planned_id_def Let_def split: import_conflict_strategy.splits)

lemma plan_record_counts:
  "ip_skipped (plan_record hasher opts conflicts r pl) + ip_failed (plan_record hasher opts conflicts r pl) +
     (if planned_id hasher opts conflicts (mr_id r) = None then 0 else 1) =
   Suc (ip_skipped pl + ip_failed pl)"
  by (auto simp: plan_record_def planned_id_def Let_def split: import_conflict_strategy.splits)

lemma plan_records_counts:
  "ip_skipped (plan_records hasher opts conflicts rs pl) + ip_failed (plan_records hasher opts conflicts rs pl) +
     length (filter (\<lambda>r. planned_id hasher opts conflicts (mr_id r) \<noteq> None) rs) =
   length rs + (ip_skipped pl + ip_failed pl)"
proof (induction rs arbitrary: pl)
  case (Cons r rs)
  from Cons.IH [of "plan_record hasher opts conflicts r pl"]
    plan_record_counts [of hasher opts conflicts r pl] show ?case by (simp split: if_splits)
qed simp

lemma plan_records_map:
  "hm_get (ip_id_map (plan_records hasher opts conflicts rs pl)) i =
     (if i \<in> mr_id ` set rs \<and> planned_id hasher opts conflicts i \<noteq> None
      then planned_id hasher opts conflicts i else hm_get (ip_id_map pl) i)"
  by (induction rs arbitrary: pl) (auto simp: plan_record_map split: option.splits)

lemma plan_records_clean:
  "mr_id ` set rs \<inter> conflicts = {} \<Longrightarrow>
     ip_errors (plan_records hasher opts conflicts rs pl) = ip_errors pl \<and>
     ip_failed (plan_records hasher opts conflicts rs pl) = ip_failed pl \<and>
     ip_skipped (plan_records hasher opts conflicts rs pl) = ip_skipped pl"
  by (induction rs arbitrary: pl) (auto simp: plan_record_def Let_def)

lemma planned_records_eq:
  "planned_records (ip_id_map (plan_records hasher opts conflicts rs (plan_init sc))) rs =
     map (\<lambda>r. (r, the (planned_id hasher opts conflicts (mr_id r))))
       (filter (\<lambda>r. planned_id hasher opts conflicts (mr_id r) \<noteq> None) rs)"
proof -
  let ?f = "\<lambda>r. map_option (\<lambda>n. (r, n)) (hm_get (ip_id_map (plan_records hasher opts conflicts rs (plan_init sc))) (mr_id r))"
  have "?f r = (if planned_id hasher opts conflicts (mr_id r) = None then None
      else Some (r, the (planned_id hasher opts conflicts (mr_id r))))" if "r \<in> set rs" for r
    using that by (auto simp: plan_records_map plan_init_def)
  then have "List.map_filter ?f xs = map (\<lambda>r. (r, the (planned_id hasher opts conflicts (mr_id r))))
       (filter (\<lambda>r. planned_id hasher opts conflicts (mr_id r) \<noteq> None) xs)" if "set xs \<subseteq> set rs" for xs
    using that by (induction xs) (auto simp: List.map_filter_simps)
  then show ?thesis by (simp add: planned_records_def)
qed

section \<open>The writes\<close>

definition imported_memory ::
  "(datetime \<Rightarrow> string) \<Rightarrow> memory_import_options \<Rightarrow> datetime \<Rightarrow> (string, string) hmap \<Rightarrow> string set \<Rightarrow>
   migration_memory_record \<Rightarrow> string \<Rightarrow> memory" where
  "imported_memory fmt_time opts now id_map ids r n =
     migration_record_to_memory fmt_time r n (io_project_id opts) (io_conflict_strategy opts) now id_map ids"

lemma write_record_eq:
  "write_record fmt_time opts now id_map ids (r, n) t =
     (if hm_get t n \<noteq> None then (Inl (Database ''record already exists''), t)
      else (Inr (), hm_insert n (imported_memory fmt_time opts now id_map ids r n) t))"
proof (cases "mr_superseded_by r")
  case None
  then show ?thesis by (simp add: write_record_def imported_memory_def Let_def)
next
  case (Some target)
  let ?m = "imported_memory fmt_time opts now id_map ids r n"
  have "m_superseded_by ?m = Some (map_target ids id_map target)"
    by (simp add: imported_memory_def migration_record_to_memory_def Let_def Some)
  then have "?m\<lparr>m_superseded_by := Some (map_target ids id_map target)\<rparr> = ?m" by (cases ?m) simp
  moreover have "hm_insert n ?m (hm_insert n ?m t) = hm_insert n ?m t" by (induction t) auto
  moreover have "write_record fmt_time opts now id_map ids (r, n) t =
      (if hm_get t n \<noteq> None then (Inl (Database ''record already exists''), t)
       else (Inr (), snd (update_row n (\<lambda>m. m\<lparr>m_superseded_by := Some (map_target ids id_map target)\<rparr>) (hm_insert n ?m t))))"
    by (simp only: write_record_def imported_memory_def Let_def Some prod.case option.case)
  ultimately show ?thesis
    by (simp only: update_row_def hm_get_insert if_True option.case snd_conv refl)
qed

lemma write_records_keeps:
  "write_records fmt_time opts now id_map ids rns t = (res, t') \<Longrightarrow> hm_get t i = Some m \<Longrightarrow> hm_get t' i = Some m"
proof (induction rns arbitrary: t)
  case (Cons rn rns)
  obtain r n where rn: "rn = (r, n)" by (cases rn)
  let ?m = "imported_memory fmt_time opts now id_map ids r n"
  show ?case
  proof (cases "hm_get t n")
    case None
    with Cons.prems(2) have "hm_get (hm_insert n ?m t) i = Some m" by auto
    moreover from Cons.prems(1) None
    have "write_records fmt_time opts now id_map ids rns (hm_insert n ?m t) = (res, t')"
      by (simp add: rn write_record_eq)
    ultimately show ?thesis using Cons.IH by blast
  next
    case (Some v)
    with Cons.prems show ?thesis by (simp add: rn write_record_eq)
  qed
qed simp

lemma write_records_new:
  "write_records fmt_time opts now id_map ids rns t = (res, t') \<Longrightarrow> hm_get t' i = Some m \<Longrightarrow> hm_get t i = None \<Longrightarrow>
     \<exists>r. (r, i) \<in> set rns \<and> m = imported_memory fmt_time opts now id_map ids r i"
proof (induction rns arbitrary: t)
  case (Cons rn rns)
  obtain r n where rn: "rn = (r, n)" by (cases rn)
  let ?m = "imported_memory fmt_time opts now id_map ids r n"
  show ?case
  proof (cases "hm_get t n")
    case None
    then have w: "write_records fmt_time opts now id_map ids rns (hm_insert n ?m t) = (res, t')"
      using Cons.prems(1) by (simp add: rn write_record_eq)
    show ?thesis
    proof (cases "i = n")
      case True
      with write_records_keeps [OF w, of n ?m] Cons.prems(2) show ?thesis by (auto simp: rn)
    next
      case False
      with Cons.IH [OF w Cons.prems(2)] Cons.prems(3) show ?thesis by auto
    qed
  next
    case (Some v)
    with Cons.prems show ?thesis by (simp add: rn write_record_eq)
  qed
qed simp

lemma write_records_length:
  "write_records fmt_time opts now id_map ids rns t = (Inr u, t') \<Longrightarrow> length t' = length t + length rns"
proof (induction rns arbitrary: t)
  case (Cons rn rns)
  then show ?case by (cases rn) (auto simp: write_record_eq hm_len_insert hm_get_None split: if_splits)
qed simp

lemma write_records_fresh:
  "distinct (map snd rns) \<Longrightarrow> \<forall>n\<in>set (map snd rns). hm_get t n = None \<Longrightarrow>
     \<exists>t'. write_records fmt_time opts now id_map ids rns t = (Inr (), t') \<and>
       (\<forall>(r, n)\<in>set rns. hm_get t' n = Some (imported_memory fmt_time opts now id_map ids r n))"
proof (induction rns arbitrary: t)
  case (Cons rn rns)
  obtain r n where rn: "rn = (r, n)" by (cases rn)
  let ?m = "imported_memory fmt_time opts now id_map ids r n"
  let ?t = "hm_insert n ?m t"
  have "\<forall>n\<in>set (map snd rns). hm_get ?t n = None" using Cons.prems by (auto simp: rn)
  with Cons.IH [of ?t] Cons.prems(1) obtain t' where
    t': "write_records fmt_time opts now id_map ids rns ?t = (Inr (), t')"
      "\<forall>(r, n)\<in>set rns. hm_get t' n = Some (imported_memory fmt_time opts now id_map ids r n)"
    by auto
  moreover have "hm_get t' n = Some ?m" by (rule write_records_keeps [OF t'(1)]) simp
  ultimately show ?case using Cons.prems(2) by (auto simp: rn write_record_eq)
qed simp

section \<open>What an import does\<close>

lemma import_memories_eq:
  fixes hasher :: "string \<times> string \<Rightarrow> u64" and t :: memory_table and records :: "migration_memory_record list"
    and fmt_time :: "datetime \<Rightarrow> string" and now :: datetime
  assumes "trim (io_project_id opts) \<noteq> []"
  defines "sc \<equiv> scan_records opts 0 records scan_init"
  defines "conflicts \<equiv> existing_memory_ids t (map mr_id (is_importable sc))"
  defines "pl \<equiv> plan_records hasher opts conflicts (is_importable sc) (plan_init sc)"
  defines "planned \<equiv> planned_records (ip_id_map pl) (is_importable sc)"
  shows "import_memories hasher fmt_time now records opts t =
    (if io_dry_run opts \<or> ip_failed pl > 0 \<or> ip_errors pl \<noteq> []
     then (Inr \<lparr>ir_conflict_strategy = io_conflict_strategy opts, ir_dry_run = io_dry_run opts,
             ir_imported_count = 0, ir_skipped_count = ip_skipped pl + length planned,
             ir_failed_count = ip_failed pl,
             ir_summary = \<lparr>sm_total_records = length records, sm_memory_records = length records,
               sm_exported_records = 0, sm_imported_records = 0,
               sm_skipped_records = ip_skipped pl + length planned, sm_failed_records = ip_failed pl,
               sm_valid_records = is_valid sc, sm_invalidated_records = is_invalidated sc,
               sm_dry_run = io_dry_run opts\<rparr>,
             ir_id_mappings = ip_id_mappings pl, ir_errors = ip_errors pl\<rparr>, t)
     else (case write_records fmt_time opts now (ip_id_map pl) (set (map mr_id records)) planned t of
             (Inl e, t') \<Rightarrow> (Inl e, t')
           | (Inr _, t') \<Rightarrow>
               (Inr \<lparr>ir_conflict_strategy = io_conflict_strategy opts, ir_dry_run = io_dry_run opts,
                  ir_imported_count = length planned, ir_skipped_count = ip_skipped pl,
                  ir_failed_count = ip_failed pl,
                  ir_summary = \<lparr>sm_total_records = length records, sm_memory_records = length records,
                    sm_exported_records = 0, sm_imported_records = length planned,
                    sm_skipped_records = ip_skipped pl, sm_failed_records = ip_failed pl,
                    sm_valid_records = is_valid sc, sm_invalidated_records = is_invalidated sc,
                    sm_dry_run = io_dry_run opts\<rparr>,
                  ir_id_mappings = ip_id_mappings pl, ir_errors = ip_errors pl\<rparr>, t')))"
  using assms(1) unfolding import_memories_def validate_project_scope_def sc_def conflicts_def pl_def planned_def
  by (simp add: Let_def split: prod.split sum.split)

lemma import_counts:
  fixes hasher :: "string \<times> string \<Rightarrow> u64" and t :: memory_table and records :: "migration_memory_record list"
    and opts :: memory_import_options
  defines "sc \<equiv> scan_records opts 0 records scan_init"
  defines "conflicts \<equiv> existing_memory_ids t (map mr_id (is_importable sc))"
  defines "pl \<equiv> plan_records hasher opts conflicts (is_importable sc) (plan_init sc)"
  shows "length (planned_records (ip_id_map pl) (is_importable sc)) + ip_skipped pl + ip_failed pl = length records"
proof -
  have "is_failed sc + is_skipped sc + length (is_importable sc) = length records"
    using scan_inv_records [OF scan_inv_init, of records opts 0] by (simp add: scan_inv_def sc_def)
  moreover have "ip_skipped pl + ip_failed pl +
      length (filter (\<lambda>r. planned_id hasher opts conflicts (mr_id r) \<noteq> None) (is_importable sc)) =
      length (is_importable sc) + (is_skipped sc + is_failed sc)"
    using plan_records_counts [of hasher opts conflicts "is_importable sc" "plan_init sc"]
    by (simp add: pl_def plan_init_def)
  ultimately show ?thesis unfolding pl_def planned_records_eq by simp
qed

text \<open>The row of an imported record: everything the record carries, in the project of the import, without embedding,
  hash and accesses.\<close>

definition imports_record :: "memory_import_options \<Rightarrow> migration_memory_record \<Rightarrow> string \<Rightarrow> memory \<Rightarrow> bool" where
  "imports_record opts r i m \<longleftrightarrow>
     (\<exists>metadata superseded_by. m =
        \<lparr>m_id = Some \<lparr>rid_table = ''memories'', rid_key = i\<rparr>, m_content = mr_content r,
         m_embedding = None, m_memory_type = mr_memory_type r, m_user_id = mr_user_id r,
         m_agent_id = mr_agent_id r, m_run_id = mr_run_id r, m_namespace = Some (io_project_id opts),
         m_metadata = metadata, m_event_time = mr_created_at r, m_ingestion_time = mr_created_at r,
         m_valid_from = mr_valid_from r, m_valid_until = mr_valid_until r,
         m_importance_score = mr_importance_score r, m_access_count = 0, m_last_accessed_at = None,
         m_invalidation_reason = mr_invalidation_reason r, m_superseded_by = superseded_by,
         m_content_hash = None, m_embedding_state = ES_None\<rparr>)"

lemma imported_imports: "imports_record opts r i (imported_memory fmt_time opts now id_map ids r i)"
  by (simp add: imports_record_def imported_memory_def migration_record_to_memory_def Let_def)

text \<open>Where a record goes: under its own id, or, when that is taken, under its remapped one if ids are remapped.\<close>

definition import_target :: "(string \<times> string \<Rightarrow> u64) \<Rightarrow> memory_import_options \<Rightarrow> memory_table \<Rightarrow> string \<Rightarrow> string \<Rightarrow> bool" where
  "import_target hasher opts t source_id i \<longleftrightarrow>
     (if hm_get t source_id = None then i = source_id
      else io_conflict_strategy opts = Remap \<and> i = deterministic_remap_id hasher source_id (io_project_id opts))"

lemma import_rows:
  assumes run: "import_memories hasher fmt_time now records opts t = (res, t')"
  shows "hm_get t i = Some m \<Longrightarrow> hm_get t' i = Some m"
    and "hm_get t' i = Some m \<Longrightarrow> hm_get t i = None \<Longrightarrow>
      \<exists>r\<in>set records. acceptable opts r \<and> imports_record opts r i m \<and> import_target hasher opts t (mr_id r) i"
proof -
  have rows: "(hm_get t i = Some m \<longrightarrow> hm_get t' i = Some m) \<and> (hm_get t' i = Some m \<longrightarrow> hm_get t i = None \<longrightarrow>
      (\<exists>r\<in>set records. acceptable opts r \<and> imports_record opts r i m \<and> import_target hasher opts t (mr_id r) i))"
  proof (cases "trim (io_project_id opts) = []")
    case True
    with run show ?thesis by (auto simp: import_memories_def validate_project_scope_def)
  next
    case False
    define sc where "sc = scan_records opts 0 records scan_init"
    define conflicts where "conflicts = existing_memory_ids t (map mr_id (is_importable sc))"
    define pl where "pl = plan_records hasher opts conflicts (is_importable sc) (plan_init sc)"
    define planned where "planned = planned_records (ip_id_map pl) (is_importable sc)"
    note eq = import_memories_eq [OF False, where hasher = hasher and fmt_time = fmt_time and now = now
        and records = records and t = t, folded sc_def, folded conflicts_def, folded pl_def, folded planned_def]
    show ?thesis
    proof (cases "io_dry_run opts \<or> ip_failed pl > 0 \<or> ip_errors pl \<noteq> []")
      case True
      with run show ?thesis unfolding eq by auto
    next
      case writes: False
      obtain res1 t1 where w: "write_records fmt_time opts now (ip_id_map pl) (set (map mr_id records)) planned t = (res1, t1)"
        by fastforce
      with run writes have t': "t' = t1" unfolding eq by (auto split: sum.splits)
      have "\<exists>r\<in>set records. acceptable opts r \<and> imports_record opts r i m \<and> import_target hasher opts t (mr_id r) i"
        if i: "hm_get t1 i = Some m" "hm_get t i = None"
      proof -
        from write_records_new [OF w i] obtain r where r: "(r, i) \<in> set planned"
          "m = imported_memory fmt_time opts now (ip_id_map pl) (set (map mr_id records)) r i" by blast
        then have imp: "r \<in> set (is_importable sc)" and p: "planned_id hasher opts conflicts (mr_id r) = Some i"
          by (auto simp: planned_def pl_def planned_records_eq)
        from scan_records_importable [OF imp [unfolded sc_def]] have "r \<in> set records" "acceptable opts r"
          by (auto simp: scan_init_def)
        moreover have "mr_id r \<in> conflicts \<longleftrightarrow> hm_get t (mr_id r) \<noteq> None"
          using imp by (auto simp: conflicts_def existing_memory_ids_def)
        then have "import_target hasher opts t (mr_id r) i"
          using p by (auto simp: planned_id_def import_target_def split: if_splits)
        ultimately show ?thesis using r(2) imported_imports by blast
      qed
      with write_records_keeps [OF w] show ?thesis unfolding t' by blast
    qed
  qed
  from rows show "hm_get t i = Some m \<Longrightarrow> hm_get t' i = Some m" by blast
  from rows show "hm_get t' i = Some m \<Longrightarrow> hm_get t i = None \<Longrightarrow>
      \<exists>r\<in>set records. acceptable opts r \<and> imports_record opts r i m \<and> import_target hasher opts t (mr_id r) i" by blast
qed

text \<open>C4: An import never overwrites, writes nothing but its payload, and its report adds up. Whatever the payload, the
  options and the outcome, every memory that was in the table is in it unchanged afterwards, and every row that is new
  is the row of an acceptable record of the payload, under its own id or, when that was taken and ids are remapped,
  under its remapped id. Without a project, in a dry run and when the report names an error, nothing was
  written. A report counts each payload record once as imported, skipped or failed, and the table grew by
  exactly the imported ones. (A storage error in the middle of the writes leaves the rows before it, see
  \<open>import_not_atomic\<close>.)\<close>
theorem import_never_overwrites:
  "case import_memories hasher fmt_time now records opts t of (res, t') \<Rightarrow>
     (\<forall>i. case hm_get t i of
            Some m \<Rightarrow> hm_get t' i = Some m
          | None \<Rightarrow> (case hm_get t' i of
                      None \<Rightarrow> True
                    | Some m \<Rightarrow> (\<exists>r\<in>set records. acceptable opts r \<and> imports_record opts r i m \<and>
                                   import_target hasher opts t (mr_id r) i))) \<and>
     (if trim (io_project_id opts) = [] \<or> io_dry_run opts then t' = t else True) \<and>
     (case res of
        Inl _ \<Rightarrow> \<not> io_dry_run opts \<or> trim (io_project_id opts) = []
      | Inr rep \<Rightarrow>
          ir_imported_count rep + ir_skipped_count rep + ir_failed_count rep = length records \<and>
          length t' = length t + ir_imported_count rep \<and>
          (if io_dry_run opts \<or> ir_errors rep \<noteq> [] then t' = t \<and> ir_imported_count rep = 0 else True))"
proof (cases "trim (io_project_id opts) = []")
  case True
  then show ?thesis by (simp add: import_memories_def validate_project_scope_def split: option.split)
next
  case False
  define sc where "sc = scan_records opts 0 records scan_init"
  define conflicts where "conflicts = existing_memory_ids t (map mr_id (is_importable sc))"
  define pl where "pl = plan_records hasher opts conflicts (is_importable sc) (plan_init sc)"
  define planned where "planned = planned_records (ip_id_map pl) (is_importable sc)"
  note eq = import_memories_eq [OF False, where hasher = hasher and fmt_time = fmt_time and now = now
      and records = records and t = t, folded sc_def, folded conflicts_def, folded pl_def, folded planned_def]
  have n: "length planned + ip_skipped pl + ip_failed pl = length records"
    unfolding planned_def pl_def conflicts_def sc_def by (rule import_counts)
  show ?thesis
  proof (cases "io_dry_run opts \<or> ip_failed pl > 0 \<or> ip_errors pl \<noteq> []")
    case True
    with n False show ?thesis unfolding eq by (simp split: option.split)
  next
    case writes: False
    obtain res t' where w: "write_records fmt_time opts now (ip_id_map pl) (set (map mr_id records)) planned t = (res, t')"
      by fastforce
    have run: "import_memories hasher fmt_time now records opts t = (case res of Inl e \<Rightarrow> Inl e | Inr u \<Rightarrow>
        fst (import_memories hasher fmt_time now records opts t), t')"
      using writes w unfolding eq by (auto split: sum.splits)
    have keep: "\<forall>i. case hm_get t i of Some m \<Rightarrow> hm_get t' i = Some m
        | None \<Rightarrow> (case hm_get t' i of None \<Rightarrow> True
            | Some m \<Rightarrow> (\<exists>r\<in>set records. acceptable opts r \<and> imports_record opts r i m \<and> import_target hasher opts t (mr_id r) i))"
      using import_rows [OF run] by (auto split: option.split)
    show ?thesis
    proof (cases res)
      case (Inl e)
      with writes w keep False show ?thesis unfolding eq by simp
    next
      case (Inr u)
      with write_records_length [OF w [unfolded Inr]] writes w keep n False show ?thesis unfolding eq by simp
    qed
  qed
qed

text \<open>A clean payload into a table it does not conflict with.\<close>

lemma clean_import:
  assumes scope: "trim (io_project_id opts) \<noteq> []" and "\<not> io_dry_run opts"
    and acc: "\<forall>r\<in>set rs. acceptable opts r" and d: "distinct (map mr_id rs)"
    and fresh: "\<forall>r\<in>set rs. hm_get t (mr_id r) = None"
  shows "\<exists>rep t'. import_memories hasher fmt_time now rs opts t = (Inr rep, t') \<and>
    ir_imported_count rep = length rs \<and> ir_errors rep = [] \<and>
    (\<forall>r\<in>set rs. hm_get t' (mr_id r) = Some
      \<lparr>m_id = Some \<lparr>rid_table = ''memories'', rid_key = mr_id r\<rparr>, m_content = mr_content r,
       m_embedding = None, m_memory_type = mr_memory_type r, m_user_id = mr_user_id r,
       m_agent_id = mr_agent_id r, m_run_id = mr_run_id r, m_namespace = Some (io_project_id opts),
       m_metadata = Some (import_audit_metadata fmt_time (mr_metadata r) r (mr_id r) (io_project_id opts)
         (case mr_project_id r of Some p \<Rightarrow> Some p | None \<Rightarrow> mr_namespace r) (io_conflict_strategy opts) now),
       m_event_time = mr_created_at r, m_ingestion_time = mr_created_at r,
       m_valid_from = mr_valid_from r, m_valid_until = mr_valid_until r,
       m_importance_score = mr_importance_score r, m_access_count = 0, m_last_accessed_at = None,
       m_invalidation_reason = mr_invalidation_reason r, m_superseded_by = mr_superseded_by r,
       m_content_hash = None, m_embedding_state = ES_None\<rparr>) \<and>
    (\<forall>i. i \<notin> mr_id ` set rs \<longrightarrow> hm_get t' i = hm_get t i)"
proof -
  define sc where "sc = scan_records opts 0 rs scan_init"
  define conflicts where "conflicts = existing_memory_ids t (map mr_id (is_importable sc))"
  define pl where "pl = plan_records hasher opts conflicts (is_importable sc) (plan_init sc)"
  define planned where "planned = planned_records (ip_id_map pl) (is_importable sc)"
  note eq = import_memories_eq [OF scope, where hasher = hasher and fmt_time = fmt_time and now = now
      and records = rs and t = t, folded sc_def, folded conflicts_def, folded pl_def, folded planned_def]
  have sc: "is_importable sc = rs" "is_errors sc = []" "is_failed sc = 0" "is_skipped sc = 0"
    using scan_accepts [OF acc d, of scan_init 0] by (simp_all add: sc_def scan_init_def)
  have none: "conflicts = {}" using fresh by (auto simp: conflicts_def existing_memory_ids_def sc)
  have pid: "planned_id hasher opts conflicts i = Some i" for i by (simp add: planned_id_def none)
  have planned: "planned = map (\<lambda>r. (r, mr_id r)) rs"
    unfolding planned_def pl_def planned_records_eq by (simp add: pid sc)
  have clean: "ip_errors pl = []" "ip_failed pl = 0"
    using plan_records_clean [of rs conflicts hasher opts "plan_init sc"] none
    by (simp_all add: pl_def sc plan_init_def)
  have target: "map_target (set (map mr_id rs)) (ip_id_map pl) i = i" for i
    by (simp add: map_target_def pl_def plan_records_map pid sc plan_init_def)
  have "distinct (map snd planned)" "\<forall>n\<in>set (map snd planned). hm_get t n = None"
    using d fresh by (simp_all add: planned o_def)
  from write_records_fresh [OF this, of fmt_time opts now "ip_id_map pl" "set (map mr_id rs)"] obtain t' where
    w: "write_records fmt_time opts now (ip_id_map pl) (set (map mr_id rs)) planned t = (Inr (), t')"
    and rows: "\<forall>r\<in>set rs. hm_get t' (mr_id r) =
        Some (imported_memory fmt_time opts now (ip_id_map pl) (set (map mr_id rs)) r (mr_id r))"
    by (auto simp: planned)
  have "map_option (map_target (set (map mr_id rs)) (ip_id_map pl)) x = x" for x
    by (cases x) (simp_all add: target [simplified])
  with rows have "\<forall>r\<in>set rs. hm_get t' (mr_id r) = Some
      \<lparr>m_id = Some \<lparr>rid_table = ''memories'', rid_key = mr_id r\<rparr>, m_content = mr_content r,
       m_embedding = None, m_memory_type = mr_memory_type r, m_user_id = mr_user_id r,
       m_agent_id = mr_agent_id r, m_run_id = mr_run_id r, m_namespace = Some (io_project_id opts),
       m_metadata = Some (import_audit_metadata fmt_time (mr_metadata r) r (mr_id r) (io_project_id opts)
         (case mr_project_id r of Some p \<Rightarrow> Some p | None \<Rightarrow> mr_namespace r) (io_conflict_strategy opts) now),
       m_event_time = mr_created_at r, m_ingestion_time = mr_created_at r,
       m_valid_from = mr_valid_from r, m_valid_until = mr_valid_until r,
       m_importance_score = mr_importance_score r, m_access_count = 0, m_last_accessed_at = None,
       m_invalidation_reason = mr_invalidation_reason r, m_superseded_by = mr_superseded_by r,
       m_content_hash = None, m_embedding_state = ES_None\<rparr>"
    by (simp add: imported_memory_def migration_record_to_memory_def Let_def)
  moreover have "hm_get t' i = hm_get t i" if "i \<notin> mr_id ` set rs" for i
  proof (cases "hm_get t i")
    case None
    show ?thesis
    proof (cases "hm_get t' i")
      case (Some m)
      from write_records_new [OF w this None] that show ?thesis by (auto simp: planned)
    qed (simp add: None)
  qed (use write_records_keeps [OF w] in simp)
  ultimately show ?thesis unfolding eq w by (simp add: assms(2) clean planned)
qed

section \<open>What an export selects\<close>

lemma collect_results_map:
  "(\<And>x. x \<in> set xs \<Longrightarrow> f x = Inr (g x)) \<Longrightarrow> collect_results (map f xs) = Inr (map g xs)"
  by (induction xs) auto

definition exported_record :: "string \<Rightarrow> memory \<Rightarrow> migration_memory_record" where
  "exported_record p m = projr (memory_to_migration_record m p)"

definition exported_rows :: "datetime \<Rightarrow> memory_export_options \<Rightarrow> memory_table \<Rightarrow> memory list" where
  "exported_rows now opts t =
     (let filters = (xo_filters opts)\<lparr>mq_namespace := Some (xo_project_id opts)\<rparr>;
          fetch_limit = (case xo_limit opts of Some l \<Rightarrow> l + 1 | None \<Rightarrow> 1000000);
          memories = retain_metadata filters
            (take fetch_limit (newest_first (select_rows (export_clause now opts filters) t)))
      in (case xo_limit opts of Some l \<Rightarrow> take l memories | None \<Rightarrow> memories))"

lemma exported_rows_subset:
  "m \<in> set (exported_rows now opts t) \<Longrightarrow>
     m \<in> set (map snd t) \<and>
     export_clause now opts ((xo_filters opts)\<lparr>mq_namespace := Some (xo_project_id opts)\<rparr>) m"
  by (auto simp: exported_rows_def Let_def retain_metadata_def newest_first_def select_rows_def
      dest!: in_set_takeD split: option.splits)

lemma memory_to_record:
  "m_id m = Some i \<Longrightarrow> memory_to_migration_record m p = Inr (exported_record p m) \<and>
     mr_id (exported_record p m) = rid_key i \<and> mr_namespace (exported_record p m) = m_namespace m"
  by (simp add: memory_to_migration_record_def exported_record_def)

lemma export_records_rows:
  assumes "table_ok t"
  shows "\<exists>truncated. export_records now opts t =
    Inr (map (exported_record (xo_project_id opts)) (exported_rows now opts t), truncated)"
proof -
  have "memory_to_migration_record m (xo_project_id opts) = Inr (exported_record (xo_project_id opts) m)"
    if "m \<in> set (exported_rows now opts t)" for m
  proof -
    from exported_rows_subset [OF that] obtain k where "(k, m) \<in> set t" by auto
    with assms have "m_id m = Some \<lparr>rid_table = ''memories'', rid_key = k\<rparr>" by (auto simp: table_ok_def)
    then show ?thesis by (simp add: memory_to_record)
  qed
  from collect_results_map [of "exported_rows now opts t", OF this] show ?thesis
    by (simp add: export_records_def exported_rows_def Let_def)
qed

lemma export_memories_rows:
  assumes "trim (xo_project_id opts) \<noteq> []" and "table_ok t"
  shows "\<exists>resp. export_memories to_json now opts t = Inr resp \<and>
    xr_jsonl resp = join_lines (map (\<lambda>m. to_json (exported_record (xo_project_id opts) m)) (exported_rows now opts t)) \<and>
    xr_exported_count resp = length (exported_rows now opts t)"
  using export_records_rows [OF assms(2), of now opts] assms(1)
  by (auto simp: export_memories_def validate_project_scope_def Let_def o_def)

definition foreign_memory :: memory where
  "foreign_memory = (example_memory ''a'' 1)\<lparr>m_namespace := Some ''other'', m_valid_until := Some 10\<rparr>"

text \<open>An export without the restriction to valid memories contains memories of the requested project only. With
  the restriction, which is the default, it does not: a memory of another project whose validity
  ends in the future is exported too.\<close>
theorem export_scope:
  "(\<not> xo_valid_only opts \<longrightarrow> (case export_records now opts t of Inl _ \<Rightarrow> True
      | Inr (records, _) \<Rightarrow> \<forall>r\<in>set records. table_ok t \<longrightarrow> mr_namespace r = Some (xo_project_id opts))) \<and>
   (\<exists>t. table_ok t \<and> (case export_records 5 (memory_export_options_new ''mine'') t of Inl _ \<Rightarrow> False
      | Inr (records, _) \<Rightarrow> \<exists>r\<in>set records. mr_namespace r = Some ''other''))"
proof (intro conjI impI exI [of _ "[(''a'', foreign_memory)]"])
  assume valid: "\<not> xo_valid_only opts"
  show "case export_records now opts t of Inl _ \<Rightarrow> True
      | Inr (records, _) \<Rightarrow> \<forall>r\<in>set records. table_ok t \<longrightarrow> mr_namespace r = Some (xo_project_id opts)"
  proof (cases "table_ok t")
    case True
    then obtain tr where ex: "export_records now opts t =
        Inr (map (exported_record (xo_project_id opts)) (exported_rows now opts t), tr)"
      using export_records_rows by blast
    have "mr_namespace (exported_record (xo_project_id opts) m) = Some (xo_project_id opts)"
      if "m \<in> set (exported_rows now opts t)" for m
    proof -
      from exported_rows_subset [OF that] obtain k where k: "(k, m) \<in> set t"
        "m_namespace m = Some (xo_project_id opts)" using valid by (auto simp: export_clause_def)
      with True have "m_id m = Some \<lparr>rid_table = ''memories'', rid_key = k\<rparr>" by (auto simp: table_ok_def)
      with k(2) show ?thesis by (simp add: memory_to_record)
    qed
    then show ?thesis by (simp add: ex)
  next
    case False
    then show ?thesis by (auto split: sum.split)
  qed
next
  show ok: "table_ok [(''a'', foreign_memory)]"
    by (simp add: table_ok_def hm_ok_def foreign_memory_def example_memory_def)
  have "exported_rows 5 (memory_export_options_new ''mine'') [(''a'', foreign_memory)] = [foreign_memory]"
    by (simp add: exported_rows_def memory_export_options_new_def retain_metadata_def newest_first_def
        select_rows_def export_clause_def export_tail_clause_def unset_or_def foreign_memory_def
        metadata_matches_def memory_query_default_def)
  with export_records_rows [OF ok, of 5 "memory_export_options_new ''mine''"]
  show "case export_records 5 (memory_export_options_new ''mine'') [(''a'', foreign_memory)] of Inl _ \<Rightarrow> False
      | Inr (records, _) \<Rightarrow> \<exists>r\<in>set records. mr_namespace r = Some ''other''"
    by (auto simp: exported_record_def memory_to_migration_record_def foreign_memory_def example_memory_def)
qed

definition mine_memory :: memory where
  "mine_memory = (example_memory ''a'' 1)\<lparr>m_namespace := Some ''mine''\<rparr>"

lemma mine_ok: "table_ok [(''a'', mine_memory)]"
  by (simp add: table_ok_def hm_ok_def mine_memory_def example_memory_def)

lemma trim_mine: "trim ''mine'' \<noteq> []" "trim ''a'' \<noteq> []"
  by code_simp+

section \<open>Archiving a project\<close>

definition archive_options :: "string \<Rightarrow> memory_export_options" where
  "archive_options p = (memory_export_options_new p)\<lparr>xo_valid_only := False, xo_include_invalidated := True\<rparr>"

definition restore_options :: "string \<Rightarrow> memory_import_options" where
  "restore_options p = (memory_import_options_new p)\<lparr>io_dry_run := False, io_allow_invalidated := True\<rparr>"

definition project_rows :: "string \<Rightarrow> memory_table \<Rightarrow> memory list" where
  "project_rows p t = filter (\<lambda>m. m_namespace m = Some p) (map snd t)"

text \<open>An archive holds the rows of the project, all of them if there are at most a million, and no others.\<close>

lemma archive_rows:
  assumes "length (project_rows p t) \<le> 1000000"
  shows "mset (exported_rows now (archive_options p) t) = mset (project_rows p t)"
proof -
  have "select_rows (export_clause now (archive_options p)
      ((xo_filters (archive_options p))\<lparr>mq_namespace := Some (xo_project_id (archive_options p))\<rparr>)) t = project_rows p t"
    unfolding select_rows_def project_rows_def
    by (intro filter_cong)
      (simp_all add: export_clause_def archive_options_def memory_export_options_new_def
        export_tail_clause_def unset_or_def memory_query_default_def)
  then show ?thesis
    using assms by (simp add: exported_rows_def Let_def retain_metadata_def newest_first_def archive_options_def
        memory_export_options_new_def metadata_matches_def memory_query_default_def)
qed

text \<open>The metadata of an imported memory: the members that it had, apart from those of the audit trail.\<close>

lemma import_audit_members:
  "json_get (import_audit_metadata fmt_time md r i p sp st now) x =
     (if x = ''migration'' then json_get (import_audit_metadata fmt_time md r i p sp st now) ''migration''
      else if x = ''source_migration'' then json_get (import_audit_metadata fmt_time md r i p sp st now) ''source_migration''
      else case md of None \<Rightarrow> None | Some (JObj kvs) \<Rightarrow> map_of kvs x | Some v \<Rightarrow> if x = ''source_metadata'' then Some v else None)"
  by (auto simp: import_audit_metadata_def Let_def split: option.split json.split)

section \<open>Interrupted imports\<close>

definition payload_record :: "string \<Rightarrow> migration_memory_record" where
  "payload_record i = exported_record ''p'' (example_memory i 1)"

definition occupied_table :: memory_table where
  "occupied_table = [(''b'', example_memory ''b'' 1),
     (deterministic_remap_id (\<lambda>_. 0) ''b'' ''p'', example_memory (deterministic_remap_id (\<lambda>_. 0) ''b'' ''p'') 1)]"

text \<open>An import is not atomic: when a memory of the payload conflicts and its remapped id, which is the same on
  every import, is taken as well (as it is after the same payload was imported before), the import
  returns a database error although the records before it have been written and stay.\<close>
theorem import_not_atomic:
  "case import_memories (\<lambda>_. 0) (\<lambda>_. []) 9 [payload_record ''a'', payload_record ''b'']
      ((restore_options ''p'')) occupied_table of (res, t') \<Rightarrow>
     isl res \<and> hm_get occupied_table ''a'' = None \<and> hm_get t' ''a'' \<noteq> None"
proof -
  let ?remap = "deterministic_remap_id (\<lambda>_. 0) ''b'' ''p''"
  have fields: "mr_id (payload_record i) = i" "mr_schema_version (payload_record i) = MEMORY_MIGRATION_SCHEMA_VERSION"
    "mr_content (payload_record i) = ''note''" "mr_valid_until (payload_record i) = None"
    "\<not> mr_invalidated (payload_record i)" for i
    by (simp_all add: payload_record_def exported_record_def memory_to_migration_record_def example_memory_def memory_new_def)
  have trims: "trim ''a'' \<noteq> []" "trim ''b'' \<noteq> []" "trim ''p'' \<noteq> []" by code_simp+
  have remap: "?remap \<noteq> ''a''" "?remap \<noteq> ''b''" by (simp_all add: deterministic_remap_id_def)
  define sc where "sc = scan_records (restore_options ''p'') 0 [payload_record ''a'', payload_record ''b''] scan_init"
  have acc: "\<forall>r\<in>set [payload_record ''a'', payload_record ''b'']. acceptable (restore_options ''p'') r"
    by (simp add: acceptable_def fields trims restore_options_def)
  have sc: "is_importable sc = [payload_record ''a'', payload_record ''b'']" "is_errors sc = []"
    "is_failed sc = 0" "is_skipped sc = 0"
    using scan_accepts [OF acc, of scan_init 0] by (simp_all add: sc_def scan_init_def fields)
  have conflicts: "existing_memory_ids occupied_table (map mr_id (is_importable sc)) = {''b''}"
    using remap by (auto simp: existing_memory_ids_def sc fields occupied_table_def)
  define pl where "pl = plan_records (\<lambda>_. 0) (restore_options ''p'') {''b''} (is_importable sc) (plan_init sc)"
  have strat: "io_conflict_strategy (restore_options ''p'') = Remap" "io_project_id (restore_options ''p'') = ''p''"
    "\<not> io_dry_run (restore_options ''p'')"
    by (simp_all add: restore_options_def memory_import_options_new_def)
  have planned: "planned_records (ip_id_map pl) (is_importable sc) =
      [(payload_record ''a'', ''a''), (payload_record ''b'', ?remap)]"
    unfolding pl_def planned_records_eq by (simp add: sc planned_id_def fields strat)
  have clean: "ip_errors pl = []" "ip_failed pl = 0"
    by (simp_all add: pl_def sc plan_init_def plan_record_def Let_def strat fields)
  have scope: "trim (io_project_id (restore_options ''p'')) \<noteq> []" by (simp add: strat trims)
  show ?thesis
    using import_memories_eq [OF scope, of "\<lambda>_. 0" "\<lambda>_. []" 9 "[payload_record ''a'', payload_record ''b'']" occupied_table,
        folded sc_def, unfolded conflicts, folded pl_def, unfolded planned] remap
    by (simp add: strat clean write_record_eq occupied_table_def)
qed

theorem import_never_overwrites_witness:
  "case import_memories (\<lambda>_. 0) (\<lambda>_. []) 9 [payload_record ''a''] (restore_options ''p'') occupied_table of
     (res, t') \<Rightarrow> hm_get t' ''b'' = Some (example_memory ''b'' 1)"
proof -
  obtain res t' where r: "import_memories (\<lambda>_. 0) (\<lambda>_. []) 9 [payload_record ''a''] (restore_options ''p'')
      occupied_table = (res, t')" by fastforce
  have "hm_get occupied_table ''b'' = Some (example_memory ''b'' 1)" by (simp add: occupied_table_def)
  with import_never_overwrites [where hasher = "\<lambda>_. 0" and fmt_time = "\<lambda>_. []" and now = 9
      and records = "[payload_record ''a'']" and opts = "restore_options ''p''" and t = occupied_table,
      unfolded r prod.case, THEN conjunct1, THEN spec, of "''b''"]
  show ?thesis unfolding r prod.case by (simp only: option.case)
qed

end
