(* ===== verification/RankFusion.thy ===== *)
theory RankFusion
  imports Prelude
begin

text \<open>
  \<open>src/graph/rrf.rs\<close>: reciprocal rank fusion of the vector, text and graph rankings into one.
  Scores are exact reals.
\<close>

definition RRF_K :: real where "RRF_K = 60"

record rrf_scores =
  rs_vector_score :: real
  rs_bm25_score :: real
  rs_ppr_score :: real
  rs_combined_score :: real

definition rrf_scores_default :: rrf_scores where
  "rrf_scores_default =
     \<lparr>rs_vector_score = 0, rs_bm25_score = 0, rs_ppr_score = 0, rs_combined_score = 0\<rparr>"

text \<open>One of the three loops: \<open>set_component\<close> stores the original score in its field.\<close>

fun absorb_ranking ::
  "(real \<Rightarrow> rrf_scores \<Rightarrow> rrf_scores) \<Rightarrow> real \<Rightarrow> nat \<Rightarrow> (string \<times> real) list \<Rightarrow>
   (string, rrf_scores) hmap \<Rightarrow> (string, rrf_scores) hmap" where
  "absorb_ranking set_component weight rank [] m = m"
| "absorb_ranking set_component weight rank ((i, original_score) # rs) m =
     (let rrf_score = weight / (RRF_K + real rank + 1);
          entry = (case hm_get m i of Some e \<Rightarrow> e | None \<Rightarrow> rrf_scores_default);
          entry1 = set_component original_score entry;
          entry2 = entry1\<lparr>rs_combined_score := rs_combined_score entry1 + rrf_score\<rparr>
      in absorb_ranking set_component weight (rank + 1) rs (hm_insert i entry2 m))"

definition set_vector :: "real \<Rightarrow> rrf_scores \<Rightarrow> rrf_scores" where
  "set_vector s e = e\<lparr>rs_vector_score := s\<rparr>"

definition set_bm25 :: "real \<Rightarrow> rrf_scores \<Rightarrow> rrf_scores" where
  "set_bm25 s e = e\<lparr>rs_bm25_score := s\<rparr>"

definition set_ppr :: "real \<Rightarrow> rrf_scores \<Rightarrow> rrf_scores" where
  "set_ppr s e = e\<lparr>rs_ppr_score := s\<rparr>"

definition rrf_merge ::
  "(string \<times> real) list \<Rightarrow> (string \<times> real) list \<Rightarrow> (string \<times> real) list \<Rightarrow> real \<Rightarrow> real \<Rightarrow> real \<Rightarrow> nat \<Rightarrow>
   (string \<times> rrf_scores) list" where
  "rrf_merge vector_results bm25_results ppr_results vector_weight bm25_weight ppr_weight limit =
     (let m1 = absorb_ranking set_vector vector_weight 0 vector_results [];
          m2 = absorb_ranking set_bm25 bm25_weight 0 bm25_results m1;
          m3 = absorb_ranking set_ppr ppr_weight 0 ppr_results m2
      in take limit (sort_by (\<lambda>a b. rs_combined_score (snd b) \<le> rs_combined_score (snd a)) m3))"

section \<open>The fused score\<close>

text \<open>The specification: what a ranking contributes to an id, and the sum over the rankings.\<close>

fun rank_mass :: "real \<Rightarrow> nat \<Rightarrow> (string \<times> real) list \<Rightarrow> string \<Rightarrow> real" where
  "rank_mass weight rank [] i = 0"
| "rank_mass weight rank ((j, s) # rs) i =
     (if j = i then weight / (RRF_K + real rank + 1) else 0) + rank_mass weight (rank + 1) rs i"

definition fused_score ::
  "(string \<times> real) list \<Rightarrow> (string \<times> real) list \<Rightarrow> (string \<times> real) list \<Rightarrow> real \<Rightarrow> real \<Rightarrow> real \<Rightarrow> string \<Rightarrow> real" where
  "fused_score vs bs ps wv wb wp i = rank_mass wv 0 vs i + rank_mass wb 0 bs i + rank_mass wp 0 ps i"

definition combined_of :: "(string, rrf_scores) hmap \<Rightarrow> string \<Rightarrow> real" where
  "combined_of m i = (case hm_get m i of Some e \<Rightarrow> rs_combined_score e | None \<Rightarrow> 0)"

definition merged_scores ::
  "(string \<times> real) list \<Rightarrow> (string \<times> real) list \<Rightarrow> (string \<times> real) list \<Rightarrow> real \<Rightarrow> real \<Rightarrow> real \<Rightarrow>
   (string, rrf_scores) hmap" where
  "merged_scores vs bs ps wv wb wp =
     absorb_ranking set_ppr wp 0 ps (absorb_ranking set_bm25 wb 0 bs (absorb_ranking set_vector wv 0 vs []))"

named_theorems component_frame \<open>the component setters leave the combined score alone\<close>

lemma set_component_frame [component_frame]:
  "rs_combined_score (set_vector s e) = rs_combined_score e"
  "rs_combined_score (set_bm25 s e) = rs_combined_score e"
  "rs_combined_score (set_ppr s e) = rs_combined_score e"
  by (simp_all add: set_vector_def set_bm25_def set_ppr_def)

lemma absorb_ok: "hm_ok m \<Longrightarrow> hm_ok (absorb_ranking f w r rs m)"
  by (induction rs arbitrary: m r) (auto simp: Let_def)

lemma hm_keys_insert: "fst ` set (hm_insert k v m) = insert k (fst ` set m)"
  by (induction m) auto

lemma absorb_keys: "fst ` set (absorb_ranking f w r rs m) = fst ` set m \<union> fst ` set rs"
proof (induction rs arbitrary: m r)
  case (Cons p rs)
  then show ?case by (cases p) (simp add: Let_def hm_keys_insert)
qed simp

lemma combined_of_insert:
  "combined_of (hm_insert j e m) i = (if i = j then rs_combined_score e else combined_of m i)"
  by (simp add: combined_of_def)

lemma absorb_combined:
  assumes "\<And>s e. rs_combined_score (f s e) = rs_combined_score e"
  shows "combined_of (absorb_ranking f w r rs m) i = combined_of m i + rank_mass w r rs i"
proof (induction rs arbitrary: m r)
  case (Cons p rs)
  obtain j s where p: "p = (j, s)" by (cases p)
  have "combined_of m j = rs_combined_score (case hm_get m j of Some e \<Rightarrow> e | None \<Rightarrow> rrf_scores_default)"
    by (simp add: combined_of_def rrf_scores_default_def split: option.split)
  then show ?case by (simp add: p Let_def Cons.IH combined_of_insert assms)
qed simp

lemma merged_combined: "combined_of (merged_scores vs bs ps wv wb wp) i = fused_score vs bs ps wv wb wp i"
proof -
  have "combined_of [] i = 0" by (simp add: combined_of_def)
  then show ?thesis by (simp add: merged_scores_def fused_score_def absorb_combined component_frame)
qed

lemma merged_ok: "hm_ok (merged_scores vs bs ps wv wb wp)"
  by (simp add: merged_scores_def absorb_ok)

lemma merged_keys:
  "fst ` set (merged_scores vs bs ps wv wb wp) = fst ` set vs \<union> fst ` set bs \<union> fst ` set ps"
  by (simp add: merged_scores_def absorb_keys)

lemma combined_of_mem: "hm_ok m \<Longrightarrow> (i, e) \<in> set m \<Longrightarrow> combined_of m i = rs_combined_score e"
  using hm_get_mem [of m i e] by (simp add: combined_of_def)

lemma rank_mass_bounds:
  "0 \<le> w \<Longrightarrow> distinct (map fst rs) \<Longrightarrow> 0 \<le> rank_mass w r rs i \<and> rank_mass w r rs i \<le> w / (61 + real r)"
proof (induction rs arbitrary: r)
  case (Cons p rs)
  obtain j s where p: "p = (j, s)" by (cases p)
  have zero: "rank_mass w r' xs i = 0" if "i \<notin> fst ` set xs" for r' xs
    using that by (induction xs arbitrary: r') auto
  have mono: "w / (61 + real (r + 1)) \<le> w / (61 + real r)"
    using Cons.prems(1) by (intro divide_left_mono) auto
  show ?case
  proof (cases "j = i")
    case True
    with Cons.prems zero [of rs "r + 1"] show ?thesis by (auto simp: p RRF_K_def add.commute)
  next
    case False
    with Cons.IH [of "r + 1"] Cons.prems mono show ?thesis by (auto simp: p)
  qed
qed simp

text \<open>Rank fusion returns each id that occurs in one of the rankings at most once, with the score the
  reciprocal-rank formula gives it, in descending order of that score; it returns all of them or
  the limit, whichever is less, and an id that is cut off never outscores one that is returned.
  With nonnegative weights and repetition-free rankings every score is between 0 and a 61st of the
  total weight.\<close>
theorem rrf_merge_exact:
  "let res = rrf_merge vs bs ps wv wb wp limit; ids = fst ` set vs \<union> fst ` set bs \<union> fst ` set ps in
   distinct (map fst res) \<and> set (map fst res) \<subseteq> ids \<and> length res = min limit (card ids) \<and>
   sorted_wrt (\<lambda>a b. rs_combined_score (snd b) \<le> rs_combined_score (snd a)) res \<and>
   (\<forall>(i, e)\<in>set res. rs_combined_score e = fused_score vs bs ps wv wb wp i \<and>
      (\<forall>j\<in>ids - set (map fst res). fused_score vs bs ps wv wb wp j \<le> rs_combined_score e)) \<and>
   (0 \<le> wv \<and> 0 \<le> wb \<and> 0 \<le> wp \<and> distinct (map fst vs) \<and> distinct (map fst bs) \<and> distinct (map fst ps) \<longrightarrow>
      (\<forall>(i, e)\<in>set res. 0 \<le> rs_combined_score e \<and> rs_combined_score e \<le> (wv + wb + wp) / 61))"
proof -
  let ?m = "merged_scores vs bs ps wv wb wp"
  let ?le = "\<lambda>a b. rs_combined_score (snd (b :: string \<times> rrf_scores)) \<le> rs_combined_score (snd (a :: string \<times> rrf_scores))"
  let ?s = "sort_by ?le ?m"
  let ?ids = "fst ` set vs \<union> fst ` set bs \<union> fst ` set ps"
  have res: "rrf_merge vs bs ps wv wb wp limit = take limit ?s"
    by (simp add: rrf_merge_def merged_scores_def)
  have keys: "set (map fst ?s) = ?ids" using merged_keys [of vs bs ps wv wb wp] by simp
  have "mset (map fst ?s) = mset (map fst ?m)" by (metis mset_map mset_sort_by)
  then have d: "distinct (map fst ?s)"
    using merged_ok [of vs bs ps wv wb wp] mset_eq_imp_distinct_iff [of "map fst ?s" "map fst ?m"]
    by (simp add: hm_ok_def)
  have len: "length (take limit ?s) = min limit (card ?ids)"
    using distinct_card [OF d] keys by (simp add: min.commute)
  have sorted: "sorted_wrt ?le ?s" by (rule rev_key_comparison.sorted_sort_by)
  have score: "rs_combined_score e = fused_score vs bs ps wv wb wp i" if "(i, e) \<in> set ?s" for i e
    using combined_of_mem [OF merged_ok] that merged_combined by force
  have cut: "fused_score vs bs ps wv wb wp j \<le> rs_combined_score e"
    if "(i, e) \<in> set (take limit ?s)" "j \<in> ?ids" "j \<notin> set (map fst (take limit ?s))" for i e j
  proof -
    from that(2) have "j \<in> set (map fst ?s)" unfolding keys .
    then obtain f where f: "(j, f) \<in> set ?s" by auto
    have "(j, f) \<notin> set (take limit ?s)" using that(3) by force
    moreover have "set ?s = set (take limit ?s) \<union> set (drop limit ?s)"
      by (metis append_take_drop_id set_append)
    ultimately have "(j, f) \<in> set (drop limit ?s)" using f by blast
    from rev_key_comparison.take_sort_by_least [OF that(1) this] score [OF f] show ?thesis by simp
  qed
  have bounds: "0 \<le> rs_combined_score e \<and> rs_combined_score e \<le> (wv + wb + wp) / 61"
    if "0 \<le> wv" "0 \<le> wb" "0 \<le> wp" "distinct (map fst vs)" "distinct (map fst bs)" "distinct (map fst ps)"
      "(i, e) \<in> set (take limit ?s)" for i e
    using rank_mass_bounds [OF that(1,4), of 0 i] rank_mass_bounds [OF that(2,5), of 0 i]
      rank_mass_bounds [OF that(3,6), of 0 i] score [OF in_set_takeD [OF that(7)]]
    by (auto simp: fused_score_def add_divide_distrib)
  show ?thesis
    unfolding Let_def res
  proof (intro conjI impI ballI)
    show "distinct (map fst (take limit ?s))" using d by (simp add: take_map [symmetric] distinct_take)
    show "set (map fst (take limit ?s)) \<subseteq> ?ids" unfolding keys [symmetric] using set_take_subset [of limit ?s] by auto
    show "sorted_wrt ?le (take limit ?s)" using sorted by (rule sorted_wrt_take)
    show "length (take limit ?s) = min limit (card ?ids)" by (rule len)
  next
    fix p
    assume p: "p \<in> set (take limit ?s)"
    obtain i e where ie: "p = (i, e)" by (cases p)
    show "case p of (i, e) \<Rightarrow> rs_combined_score e = fused_score vs bs ps wv wb wp i \<and>
      (\<forall>j\<in>?ids - set (map fst (take limit ?s)). fused_score vs bs ps wv wb wp j \<le> rs_combined_score e)"
      unfolding ie prod.case
      using score [OF in_set_takeD [OF p [unfolded ie]]] cut [OF p [unfolded ie]] by blast
  next
    fix p
    assume p: "p \<in> set (take limit ?s)" and h:
      "0 \<le> wv \<and> 0 \<le> wb \<and> 0 \<le> wp \<and> distinct (map fst vs) \<and> distinct (map fst bs) \<and> distinct (map fst ps)"
    obtain i e where ie: "p = (i, e)" by (cases p)
    from h bounds [OF _ _ _ _ _ _ p [unfolded ie]]
    show "case p of (i, e) \<Rightarrow> 0 \<le> rs_combined_score e \<and> rs_combined_score e \<le> (wv + wb + wp) / 61"
      unfolding ie prod.case by blast
  qed
qed

theorem rrf_merge_exact_witness:
  "list_all (\<lambda>(i, e). 0 \<le> rs_combined_score e \<and> rs_combined_score e \<le> 3 / 61)
     (rrf_merge [(''a'', 1), (''b'', 1)] [(''b'', 1)] [] 1 1 1 1)"
  using rrf_merge_exact [of "[(''a'', 1), (''b'', 1)]" "[(''b'', 1)]" "[]" 1 1 1 1]
  by (simp add: Let_def list_all_iff)

end
