(* ===== verification/PageRank.thy ===== *)
theory PageRank
  imports Prelude
begin

text \<open>
  \<open>src/graph/ppr.rs\<close>: personalised PageRank with hub dampening. A \<open>petgraph\<close> graph is its number
  of nodes and its list of weighted edges; a node is its index. A vector of scores is a list. The
  arithmetic is on exact reals, so the order in which a sum is taken does not matter.
\<close>

record digraph =
  dg_nodes :: nat
  dg_edges :: "(nat \<times> nat \<times> real) list"

definition graph_edges :: "digraph \<Rightarrow> nat \<Rightarrow> (nat \<times> real) list" where
  "graph_edges g u = map snd (filter (\<lambda>e. fst e = u) (dg_edges g))"

definition PPR_DAMPING :: real where "PPR_DAMPING = 1 / 2"
definition PPR_TOLERANCE :: real where "PPR_TOLERANCE = 1 / 1000000"
definition PPR_MAX_ITER :: nat where "PPR_MAX_ITER = 15"

definition personalization_of :: "nat \<Rightarrow> nat list \<Rightarrow> real list" where
  "personalization_of n seed_nodes =
     (if seed_nodes \<noteq> [] then
        (let seed_weight = 1 / real (length seed_nodes)
         in foldl (\<lambda>p node. if node < n then p[node := seed_weight] else p) (replicate n 0) seed_nodes)
      else replicate n (1 / real n))"

definition out_weight_sum :: "digraph \<Rightarrow> nat \<Rightarrow> real" where
  "out_weight_sum g u = sum_list (map snd (graph_edges g u))"

text \<open>The body of the iteration: the contributions along the edges, then the mass of the dangling
  nodes and the teleport.\<close>

definition push_edge :: "real \<Rightarrow> real \<Rightarrow> real \<Rightarrow> real list \<Rightarrow> nat \<times> real \<Rightarrow> real list" where
  "push_edge damping score total_out_weight new_scores e =
     (case e of (v, weight) \<Rightarrow>
        let transition_prob = weight / total_out_weight;
            contribution = score * transition_prob * damping
        in new_scores[v := new_scores ! v + contribution])"

definition push_node :: "digraph \<Rightarrow> real \<Rightarrow> real list \<Rightarrow> real list \<Rightarrow> nat \<Rightarrow> real list" where
  "push_node g damping scores new_scores u =
     (let total_out_weight = out_weight_sum g u
      in if total_out_weight > 0
         then foldl (push_edge damping (scores ! u) total_out_weight) new_scores (graph_edges g u)
         else new_scores)"

definition ppr_step :: "digraph \<Rightarrow> real \<Rightarrow> real list \<Rightarrow> real list \<Rightarrow> real list" where
  "ppr_step g damping personalization scores =
     (let n = dg_nodes g;
          dangling_nodes = filter (\<lambda>u. out_weight_sum g u = 0) [0..<n];
          dangling_sum = sum_list (map (\<lambda>u. scores ! u) dangling_nodes);
          new_scores = foldl (push_node g damping scores) (replicate n 0) [0..<n]
      in map (\<lambda>i. new_scores ! i + damping * dangling_sum * personalization ! i +
                  (1 - damping) * personalization ! i) [0..<n])"

fun ppr_iterate :: "digraph \<Rightarrow> real \<Rightarrow> real \<Rightarrow> real list \<Rightarrow> nat \<Rightarrow> real list \<Rightarrow> real list" where
  "ppr_iterate g damping tolerance personalization 0 scores = scores"
| "ppr_iterate g damping tolerance personalization (Suc k) scores =
     (let new_scores = ppr_step g damping personalization scores;
          diff = sum_list (map (\<lambda>(a, b). \<bar>a - b\<bar>) (zip scores new_scores))
      in if diff < tolerance then new_scores
         else ppr_iterate g damping tolerance personalization k new_scores)"

definition personalized_page_rank ::
  "digraph \<Rightarrow> nat list \<Rightarrow> real \<Rightarrow> real \<Rightarrow> nat \<Rightarrow> (nat, real) hmap" where
  "personalized_page_rank g seed_nodes damping tolerance max_iter =
     (let n = dg_nodes g
      in if n = 0 then []
         else
           (let personalization = personalization_of n seed_nodes;
                scores = ppr_iterate g damping tolerance personalization max_iter personalization
            in map (\<lambda>i. (i, scores ! i)) [0..<n]))"

definition apply_hub_dampening :: "(nat, real) hmap \<Rightarrow> (nat, nat) hmap \<Rightarrow> (nat, real) hmap" where
  "apply_hub_dampening scores degrees =
     map (\<lambda>(node, score).
       (node, case hm_get degrees node of
                Some degree \<Rightarrow> if degree > 0 then score / sqrt (real degree) else score
              | None \<Rightarrow> score)) scores"

definition run_ppr :: "digraph \<Rightarrow> nat list \<Rightarrow> (nat \<times> real) list" where
  "run_ppr g seeds =
     (if dg_nodes g = 0 \<or> seeds = [] then []
      else
        (let scores = personalized_page_rank g seeds PPR_DAMPING PPR_TOLERANCE PPR_MAX_ITER;
             degrees = map (\<lambda>u. (u, length (graph_edges g u))) [0..<dg_nodes g]
         in sort_by (\<lambda>a b. snd b \<le> snd a) (apply_hub_dampening scores degrees)))"

section \<open>Conservation of the probability mass\<close>

definition digraph_ok :: "digraph \<Rightarrow> bool" where
  "digraph_ok g \<longleftrightarrow> (\<forall>(u, v, w)\<in>set (dg_edges g). u < dg_nodes g \<and> v < dg_nodes g \<and> 0 \<le> w)"

definition distribution :: "nat \<Rightarrow> real list \<Rightarrow> bool" where
  "distribution n p \<longleftrightarrow> length p = n \<and> (\<forall>x\<in>set p. 0 \<le> x) \<and> sum_list p = 1"

definition nonneg_vector :: "nat \<Rightarrow> real list \<Rightarrow> bool" where
  "nonneg_vector n p \<longleftrightarrow> length p = n \<and> (\<forall>x\<in>set p. 0 \<le> x)"

lemma nonneg_nth: "nonneg_vector n p \<Longrightarrow> i < n \<Longrightarrow> 0 \<le> p ! i"
  by (simp add: nonneg_vector_def)

lemma sum_list_add_at: "v < length xs \<Longrightarrow> sum_list (xs[v := xs ! v + (c::real)]) = sum_list xs + c"
  by (induction xs arbitrary: v) (auto split: nat.split)

lemma nonneg_update: "nonneg_vector n p \<Longrightarrow> 0 \<le> x \<Longrightarrow> nonneg_vector n (p[v := x])"
  unfolding nonneg_vector_def using set_update_subset_insert [of p v x] by auto

lemma push_edges:
  assumes "0 \<le> d" "0 \<le> s" "0 < t"
  shows "\<forall>(v, w)\<in>set es. v < n \<and> 0 \<le> w \<Longrightarrow> nonneg_vector n p \<Longrightarrow>
    nonneg_vector n (foldl (push_edge d s t) p es) \<and>
    sum_list (foldl (push_edge d s t) p es) = sum_list p + s * d / t * sum_list (map snd es)"
proof (induction es arbitrary: p)
  case (Cons e es)
  obtain v w where e: "e = (v, w)" by (cases e)
  from Cons.prems have v: "v < n" "0 \<le> w" and rest: "\<forall>(v, w)\<in>set es. v < n \<and> 0 \<le> w" by (auto simp: e)
  let ?p = "push_edge d s t p e"
  have "0 \<le> s * (w / t) * d" using assms v(2) by simp
  with nonneg_nth [OF Cons.prems(2) v(1)] have "nonneg_vector n ?p"
    unfolding push_edge_def e prod.case Let_def by (intro nonneg_update [OF Cons.prems(2)]) simp
  moreover have "sum_list ?p = sum_list p + s * d / t * w"
    using v(1) Cons.prems(2) by (simp add: push_edge_def e Let_def sum_list_add_at nonneg_vector_def)
  ultimately show ?case using Cons.IH [OF rest, of ?p] by (simp add: e distrib_left)
qed simp

lemma graph_edges_ok:
  assumes "digraph_ok g"
  shows "\<forall>(v, w)\<in>set (graph_edges g u). v < dg_nodes g \<and> 0 \<le> w"
  using assms by (fastforce simp: graph_edges_def digraph_ok_def)

lemma out_weight_nonneg:
  assumes "digraph_ok g"
  shows "0 \<le> out_weight_sum g u"
  unfolding out_weight_sum_def using graph_edges_ok [OF assms, of u] by (intro sum_list_nonneg) auto

lemma push_node_mass:
  assumes "digraph_ok g" "0 \<le> d" "0 \<le> s ! u" "nonneg_vector (dg_nodes g) p"
  shows "nonneg_vector (dg_nodes g) (push_node g d s p u) \<and>
    sum_list (push_node g d s p u) = sum_list p + (if out_weight_sum g u = 0 then 0 else d * s ! u)"
proof (cases "out_weight_sum g u > 0")
  case True
  from push_edges [OF assms(2,3) True graph_edges_ok [OF assms(1)] assms(4)] True show ?thesis
    by (simp add: push_node_def Let_def flip: out_weight_sum_def)
next
  case False
  with out_weight_nonneg [OF assms(1), of u] assms(4) show ?thesis by (simp add: push_node_def)
qed

lemma push_nodes_mass:
  assumes "digraph_ok g" "0 \<le> d"
  shows "\<forall>u\<in>set us. 0 \<le> s ! u \<Longrightarrow> nonneg_vector (dg_nodes g) p \<Longrightarrow>
    nonneg_vector (dg_nodes g) (foldl (push_node g d s) p us) \<and>
    sum_list (foldl (push_node g d s) p us) =
      sum_list p + d * sum_list (map (\<lambda>u. if out_weight_sum g u = 0 then 0 else s ! u) us)"
proof (induction us arbitrary: p)
  case (Cons u us)
  from push_node_mass [OF assms, of s u p] Cons.prems
  have "nonneg_vector (dg_nodes g) (push_node g d s p u)"
    "sum_list (push_node g d s p u) = sum_list p + (if out_weight_sum g u = 0 then 0 else d * s ! u)"
    by auto
  with Cons.IH [of "push_node g d s p u"] Cons.prems(1) show ?case by (auto simp: distrib_left)
qed simp

lemma split_dangling:
  "sum_list (map (\<lambda>u. (s ! u :: real)) us) =
     sum_list (map (\<lambda>u. s ! u) (filter P us)) + sum_list (map (\<lambda>u. if P u then 0 else s ! u) us)"
  by (induction us) auto

lemma sum_list_nth: "length s = n \<Longrightarrow> sum_list (map (\<lambda>u. s ! u) [0..<n]) = sum_list s"
  by (metis map_nth)

lemma sum_list_combine:
  "sum_list (map (\<lambda>i. f i + c * p i + e * p i) xs) =
     sum_list (map f xs) + (c + e) * sum_list (map p xs)" for c e :: real
  by (induction xs) (auto simp: algebra_simps)

lemma ppr_step_distribution:
  assumes "digraph_ok g" "0 \<le> d" "d \<le> 1" "distribution (dg_nodes g) p" "distribution (dg_nodes g) s"
  shows "distribution (dg_nodes g) (ppr_step g d p s)"
proof -
  let ?n = "dg_nodes g"
  let ?dang = "filter (\<lambda>u. out_weight_sum g u = 0) [0..<?n]"
  let ?ds = "sum_list (map (\<lambda>u. s ! u) ?dang)"
  let ?new = "foldl (push_node g d s) (replicate ?n 0) [0..<?n]"
  have s: "\<forall>u\<in>set [0..<?n]. 0 \<le> s ! u" using assms(5) by (simp add: distribution_def)
  have "nonneg_vector ?n (replicate ?n 0)" by (simp add: nonneg_vector_def)
  from push_nodes_mass [OF assms(1,2) s this]
  have new: "nonneg_vector ?n ?new"
    "sum_list ?new = d * sum_list (map (\<lambda>u. if out_weight_sum g u = 0 then 0 else s ! u) [0..<?n])"
    by (simp_all add: sum_list_replicate)
  have one: "sum_list (map (\<lambda>u. s ! u) [0..<?n]) = 1" "sum_list (map (\<lambda>u. p ! u) [0..<?n]) = 1"
    using assms(4,5) by (simp_all add: sum_list_nth distribution_def)
  have split: "?ds + sum_list (map (\<lambda>u. if out_weight_sum g u = 0 then 0 else s ! u) [0..<?n]) = 1"
    using split_dangling [of s "[0..<?n]" "\<lambda>u. out_weight_sum g u = 0"] one(1) by simp
  have "sum_list (map (\<lambda>i. ?new ! i) [0..<?n]) = sum_list ?new"
    using new(1) by (intro sum_list_nth) (simp add: nonneg_vector_def)
  then have "sum_list (ppr_step g d p s) = sum_list ?new + (d * ?ds + (1 - d)) * 1"
    by (simp add: ppr_step_def Let_def sum_list_combine one(2) del: map_nth)
  also have "\<dots> = d * (?ds + sum_list (map (\<lambda>u. if out_weight_sum g u = 0 then 0 else s ! u) [0..<?n])) + (1 - d)"
    unfolding new(2) by (simp add: algebra_simps)
  finally have sum: "sum_list (ppr_step g d p s) = 1" unfolding split by simp
  have "0 \<le> ?ds" using s by (intro sum_list_nonneg) auto
  then have "0 \<le> ?new ! i + d * ?ds * p ! i + (1 - d) * p ! i" if "i < ?n" for i
    using that assms(2-4) nonneg_nth [OF new(1) that] by (simp add: distribution_def)
  with sum show ?thesis by (auto simp: distribution_def ppr_step_def Let_def)
qed

lemma ppr_iterate_distribution:
  assumes "digraph_ok g" "0 \<le> d" "d \<le> 1" "distribution (dg_nodes g) p"
  shows "distribution (dg_nodes g) s \<Longrightarrow> distribution (dg_nodes g) (ppr_iterate g d tol p k s)"
  by (induction k arbitrary: s) (auto simp: Let_def ppr_step_distribution [OF assms])

lemma personalization_seeds:
  "distinct seeds \<Longrightarrow> \<forall>u\<in>set seeds. u < length p \<and> p ! u = 0 \<Longrightarrow> \<forall>x\<in>set p. 0 \<le> x \<Longrightarrow> 0 \<le> w \<Longrightarrow>
     (let q = foldl (\<lambda>p u. if u < n then p[u := w] else p) p seeds
      in length p = n \<longrightarrow> length q = n \<and> (\<forall>x\<in>set q. 0 \<le> x) \<and>
         sum_list q = sum_list p + real (length seeds) * w)"
proof (induction seeds arbitrary: p)
  case (Cons u us)
  let ?p = "p[u := w]"
  show ?case
  proof (cases "length p = n")
    case True
    from Cons.prems have u: "u < length p" "p ! u = 0" by auto
    have "sum_list ?p = sum_list p + w" using sum_list_add_at [OF u(1), of w] u(2) by simp
    moreover have "\<forall>x\<in>set ?p. 0 \<le> x"
      using Cons.prems(3,4) set_update_subset_insert [of p u w] by auto
    moreover have "\<forall>v\<in>set us. v < length ?p \<and> ?p ! v = 0" using Cons.prems(1,2) by (auto simp: nth_list_update)
    ultimately show ?thesis
      using Cons.IH [of ?p] Cons.prems(1,4) True u(1) by (auto simp: Let_def algebra_simps)
  qed (simp add: Let_def)
qed (simp add: Let_def)

lemma personalization_distribution:
  assumes "0 < n" "distinct seeds" "\<forall>u\<in>set seeds. u < n"
  shows "distribution n (personalization_of n seeds)"
proof (cases "seeds = []")
  case True
  with assms(1) show ?thesis
    by (simp add: distribution_def personalization_of_def sum_list_replicate)
next
  case False
  have "\<forall>u\<in>set seeds. u < length (replicate n (0::real)) \<and> replicate n (0::real) ! u = 0"
    using assms(3) by simp
  from personalization_seeds [OF assms(2) this, of "1 / real (length seeds)" n] False show ?thesis
    by (simp add: distribution_def personalization_of_def Let_def sum_list_replicate)
qed

lemma page_rank_is_distribution_aux:
  assumes "digraph_ok g" and "0 < dg_nodes g" and "0 \<le> d" "d \<le> 1"
    and "distinct seeds" "\<forall>u\<in>set seeds. u < dg_nodes g"
  shows "hm_keys (personalized_page_rank g seeds d tol k) = [0..<dg_nodes g] \<and>
    (\<forall>(u, x)\<in>set (personalized_page_rank g seeds d tol k). 0 \<le> x) \<and>
    sum_list (map snd (personalized_page_rank g seeds d tol k)) = 1"
proof -
  let ?n = "dg_nodes g" and ?p = "personalization_of (dg_nodes g) seeds"
  let ?s = "ppr_iterate g d tol ?p k ?p"
  have p: "distribution ?n ?p" by (rule personalization_distribution [OF assms(2,5,6)])
  have s: "distribution ?n ?s" by (rule ppr_iterate_distribution [OF assms(1,3,4) p p])
  have pr: "personalized_page_rank g seeds d tol k = map (\<lambda>i. (i, ?s ! i)) [0..<?n]"
    using assms(2) by (simp add: personalized_page_rank_def Let_def)
  have "sum_list (map (\<lambda>i. ?s ! i) [0..<?n]) = 1"
    using s by (simp add: sum_list_nth distribution_def)
  with s show ?thesis by (auto simp: pr o_def distribution_def)
qed

text \<open>C8: On a graph with nonnegative edge weights and valid, distinct seeds (or none), personalised PageRank with
  a damping between 0 and 1 returns one score for each node, no score is negative, and the scores
  sum to 1, however many iterations it runs and wherever it stops: no mass is lost at dangling
  nodes.\<close>
theorem page_rank_is_distribution:
  assumes "digraph_ok g" and "0 < dg_nodes g" and "0 \<le> d" "d \<le> 1"
    and "distinct seeds" "\<forall>u\<in>set seeds. u < dg_nodes g"
  shows "hm_keys (personalized_page_rank g seeds d tol k) = [0..<dg_nodes g] \<and>
    (\<forall>(u, x)\<in>set (personalized_page_rank g seeds d tol k). 0 \<le> x) \<and>
    sum_list (map snd (personalized_page_rank g seeds d tol k)) = 1"
  by (rule page_rank_is_distribution_aux [OF assms])

definition example_graph :: digraph where
  "example_graph = \<lparr>dg_nodes = 2, dg_edges = [(0, 1, 1)]\<rparr>"

theorem page_rank_is_distribution_witness:
  "sum_list (map snd (personalized_page_rank example_graph [0] (1 / 2) (1 / 1000000) 15)) = 1"
proof -
  have "digraph_ok example_graph" "0 < dg_nodes example_graph" "\<forall>u\<in>set [0]. u < dg_nodes example_graph"
    by (simp_all add: digraph_ok_def example_graph_def)
  from page_rank_is_distribution [OF this(1,2) _ _ _ this(3), of "1 / 2"] show ?thesis by simp
qed

lemma dampened_scores:
  "hm_keys (apply_hub_dampening scores degrees) = hm_keys scores"
  by (simp add: apply_hub_dampening_def o_def split_beta)

lemma map_of_upt: "u < n \<Longrightarrow> map_of (map (\<lambda>u. (u, f u)) [0..<n]) u = Some (f u)"
  by (simp add: map_of_map_restrict)

lemma sqrt_dampening: "0 \<le> x \<Longrightarrow> 0 < k \<Longrightarrow> x / sqrt (real k) \<le> x"
  by (simp add: divide_le_eq mult_le_cancel_left1 le_divide_eq_1)

text \<open>The ranking that recall uses lists every node of a nonempty graph with seeds exactly once, by descending
  score, where a node's score is its PageRank divided by the square root of its out-degree (nodes
  without outgoing edges keep theirs); so every score is between 0 and 1.\<close>
theorem run_ppr_ranking:
  assumes "digraph_ok g" and "0 < dg_nodes g" and "seeds \<noteq> []" "distinct seeds" "\<forall>u\<in>set seeds. u < dg_nodes g"
  shows "mset (map fst (run_ppr g seeds)) = mset [0..<dg_nodes g] \<and>
    sorted_wrt (\<lambda>a b. snd b \<le> snd a) (run_ppr g seeds) \<and>
    (\<forall>(u, x)\<in>set (run_ppr g seeds). 0 \<le> x \<and> x \<le> 1 \<and>
       (\<exists>y. (u, y) \<in> set (personalized_page_rank g seeds PPR_DAMPING PPR_TOLERANCE PPR_MAX_ITER) \<and>
          x = (if graph_edges g u = [] then y else y / sqrt (real (length (graph_edges g u))))))"
proof -
  let ?n = "dg_nodes g"
  let ?s = "personalized_page_rank g seeds PPR_DAMPING PPR_TOLERANCE PPR_MAX_ITER"
  let ?deg = "map (\<lambda>u. (u, length (graph_edges g u))) [0..<?n]"
  let ?d = "apply_hub_dampening ?s ?deg"
  have damping: "0 \<le> PPR_DAMPING" "PPR_DAMPING \<le> 1" by (simp_all add: PPR_DAMPING_def)
  have pr: "hm_keys ?s = [0..<?n]" "\<forall>(u, x)\<in>set ?s. 0 \<le> x" "sum_list (map snd ?s) = 1"
    using page_rank_is_distribution_aux [OF assms(1,2) damping assms(4,5), of PPR_TOLERANCE PPR_MAX_ITER]
    by auto
  have run: "run_ppr g seeds = sort_by (\<lambda>a b. snd b \<le> snd a) ?d"
    using assms(2,3) by (simp add: run_ppr_def Let_def)
  have "mset (map fst (run_ppr g seeds)) = mset (map fst ?d)" unfolding run by (simp only: mset_map mset_sort_by)
  then have keys: "mset (map fst (run_ppr g seeds)) = mset [0..<?n]" by (simp add: dampened_scores pr(1))
  have sorted: "sorted_wrt (\<lambda>a b. snd b \<le> snd a) (run_ppr g seeds)"
    unfolding run by (rule rev_key_comparison.sorted_sort_by)
  have score: "0 \<le> x \<and> x \<le> 1 \<and>
       (\<exists>y. (u, y) \<in> set ?s \<and> x = (if graph_edges g u = [] then y else y / sqrt (real (length (graph_edges g u)))))"
    if "(u, x) \<in> set (run_ppr g seeds)" for u x
  proof -
    from that have "(u, x) \<in> set ?d" by (simp add: run)
    then obtain y where y: "(u, y) \<in> set ?s"
      "x = (case hm_get ?deg u of Some degree \<Rightarrow> if degree > 0 then y / sqrt (real degree) else y | None \<Rightarrow> y)"
      unfolding apply_hub_dampening_def by auto
    from y(1) pr(1) have "u < ?n" by (metis atLeastLessThan_iff fst_conv image_eqI set_map set_upt)
    with y(2) have x: "x = (if graph_edges g u = [] then y else y / sqrt (real (length (graph_edges g u))))"
      by (simp add: map_of_upt)
    have "y \<in> set (map snd ?s)" using y(1) by force
    moreover have "\<And>x. x \<in> set (map snd ?s) \<Longrightarrow> 0 \<le> x" using pr(2) by fastforce
    ultimately have "y \<le> 1" using member_le_sum_list [of y "map snd ?s"] pr(3) by simp
    moreover have "0 \<le> y" using pr(2) y(1) by auto
    moreover from this have "0 \<le> x \<and> x \<le> y" using sqrt_dampening [of y "length (graph_edges g u)"]
      by (cases "graph_edges g u = []") (simp_all add: x del: divide_le_eq)
    ultimately show ?thesis using x y(1) by (intro conjI exI [of _ y]) auto
  qed
  show ?thesis using keys sorted score by blast
qed

theorem run_ppr_ranking_witness:
  "mset (map fst (run_ppr example_graph [0])) = {#0, 1#}"
proof -
  have "digraph_ok example_graph" "0 < dg_nodes example_graph" "\<forall>u\<in>set [0]. u < dg_nodes example_graph"
    by (simp_all add: digraph_ok_def example_graph_def)
  from run_ppr_ranking [OF this(1,2) _ _ this(3)] have
    "mset (map fst (run_ppr example_graph [0])) = mset [0..<dg_nodes example_graph]" by simp
  then show ?thesis by (simp add: example_graph_def upt_rec)
qed

end
