(* ===== verification/Louvain.thy ===== *)
theory Louvain
  imports PageRank
begin

text \<open>
  \<open>src/graph/leiden.rs\<close>: community detection by local moves that increase the modularity. The graph
  and the exact reals are those of the PageRank theory. A hash map is iterated in an unspecified
  order: the two iterations over maps take their order from the arguments \<open>gain_order\<close> and
  \<open>group_order\<close>, any functions that rearrange the entries.
\<close>

section \<open>The adjacency structure\<close>

record adjacency =
  aj_neighbors :: "(nat \<times> real) list list"
  aj_node_weights :: "real list"
  aj_total_weight :: real

definition adjacency_empty :: "nat \<Rightarrow> adjacency" where
  "adjacency_empty n =
     \<lparr>aj_neighbors = replicate n [], aj_node_weights = replicate n 0, aj_total_weight = 0\<rparr>"

definition list_push :: "nat \<Rightarrow> 'a \<Rightarrow> 'a list list \<Rightarrow> 'a list list" where
  "list_push i x xss = xss[i := xss ! i @ [x]]"

definition list_add :: "nat \<Rightarrow> real \<Rightarrow> real list \<Rightarrow> real list" where
  "list_add i w xs = xs[i := xs ! i + w]"

definition adjacency_edge :: "adjacency \<Rightarrow> nat \<times> nat \<times> real \<Rightarrow> adjacency" where
  "adjacency_edge aj e =
     (case e of (u, v, w) \<Rightarrow>
        \<lparr>aj_neighbors = list_push v (u, w) (list_push u (v, w) (aj_neighbors aj)),
         aj_node_weights = list_add v w (list_add u w (aj_node_weights aj)),
         aj_total_weight = aj_total_weight aj + w\<rparr>)"

definition adjacency_of :: "digraph \<Rightarrow> adjacency" where
  "adjacency_of g = foldl adjacency_edge (adjacency_empty (dg_nodes g)) (dg_edges g)"

section \<open>Local moves\<close>

record communities =
  cm_assignment :: "nat list"
  cm_weights :: "real list"

definition MAX_ITER :: nat where "MAX_ITER = 20"

definition gain_map_of :: "nat list \<Rightarrow> (nat \<times> real) list \<Rightarrow> (nat, real) hmap" where
  "gain_map_of assignment nbs =
     foldl (\<lambda>m (neighbor, weight).
        let neighbor_comm = assignment ! neighbor
        in hm_insert neighbor_comm ((case hm_get m neighbor_comm of Some x \<Rightarrow> x | None \<Rightarrow> 0) + weight) m)
       [] nbs"

definition move_delta :: "real \<Rightarrow> real \<Rightarrow> real \<Rightarrow> real \<Rightarrow> real \<Rightarrow> real \<Rightarrow> real \<Rightarrow> real" where
  "move_delta m2 resolution ki ki_in_current sum_tot_current ki_in sum_tot =
     (let gain_new = ki_in / m2 - resolution * (sum_tot * ki) / (m2 * m2);
          gain_current = ki_in_current / m2 - resolution * (sum_tot_current * ki) / (m2 * m2)
      in gain_new - gain_current)"

fun best_move ::
  "(nat \<Rightarrow> real \<Rightarrow> real) \<Rightarrow> nat \<Rightarrow> (nat, real) hmap \<Rightarrow> nat \<times> real \<Rightarrow> nat \<times> real" where
  "best_move delta_of current_comm [] (best_comm, max_delta) = (best_comm, max_delta)"
| "best_move delta_of current_comm ((comm, ki_in) # gains) (best_comm, max_delta) =
     (if comm = current_comm then best_move delta_of current_comm gains (best_comm, max_delta)
      else
        (let delta = delta_of comm ki_in
         in if delta > max_delta then best_move delta_of current_comm gains (comm, delta)
            else best_move delta_of current_comm gains (best_comm, max_delta)))"

definition choose_move ::
  "((nat, real) hmap \<Rightarrow> (nat, real) hmap) \<Rightarrow> adjacency \<Rightarrow> real \<Rightarrow> communities \<Rightarrow> nat \<Rightarrow> nat \<times> real" where
  "choose_move gain_order aj resolution cm i =
     (let m2 = 2 * aj_total_weight aj;
          current_comm = cm_assignment cm ! i;
          ki = aj_node_weights aj ! i;
          gain_map = gain_map_of (cm_assignment cm) (aj_neighbors aj ! i);
          ki_in_current = (case hm_get gain_map current_comm of Some x \<Rightarrow> x | None \<Rightarrow> 0);
          sum_tot_current = cm_weights cm ! current_comm - ki
      in best_move
           (\<lambda>comm ki_in. move_delta m2 resolution ki ki_in_current sum_tot_current ki_in (cm_weights cm ! comm))
           current_comm (gain_order gain_map) (current_comm, 0))"

definition apply_move :: "adjacency \<Rightarrow> communities \<Rightarrow> nat \<Rightarrow> nat \<Rightarrow> communities" where
  "apply_move aj cm i best_comm =
     (let current_comm = cm_assignment cm ! i; ki = aj_node_weights aj ! i
      in \<lparr>cm_assignment = (cm_assignment cm)[i := best_comm],
          cm_weights = list_add best_comm ki (list_add current_comm (- ki) (cm_weights cm))\<rparr>)"

definition visit_node ::
  "((nat, real) hmap \<Rightarrow> (nat, real) hmap) \<Rightarrow> adjacency \<Rightarrow> real \<Rightarrow> communities \<times> bool \<Rightarrow> nat \<Rightarrow> communities \<times> bool" where
  "visit_node gain_order aj resolution st i =
     (case st of (cm, changed) \<Rightarrow>
        (case choose_move gain_order aj resolution cm i of (best_comm, max_delta) \<Rightarrow>
           if best_comm \<noteq> cm_assignment cm ! i \<and> max_delta > 1 / 10 ^ 10
           then (apply_move aj cm i best_comm, True)
           else (cm, changed)))"

definition sweep ::
  "((nat, real) hmap \<Rightarrow> (nat, real) hmap) \<Rightarrow> adjacency \<Rightarrow> real \<Rightarrow> nat \<Rightarrow> communities \<Rightarrow> communities \<times> bool" where
  "sweep gain_order aj resolution n cm = foldl (visit_node gain_order aj resolution) (cm, False) [0..<n]"

text \<open>The loop with the number of iterations left; it returns the communities and whether the last
  sweep changed them.\<close>

fun optimise ::
  "((nat, real) hmap \<Rightarrow> (nat, real) hmap) \<Rightarrow> adjacency \<Rightarrow> real \<Rightarrow> nat \<Rightarrow> nat \<Rightarrow> communities \<Rightarrow> communities \<times> bool" where
  "optimise gain_order aj resolution n 0 cm = (cm, True)"
| "optimise gain_order aj resolution n (Suc k) cm =
     (case sweep gain_order aj resolution n cm of (cm', changed) \<Rightarrow>
        if changed then optimise gain_order aj resolution n k cm' else (cm', False))"

definition initial_communities :: "adjacency \<Rightarrow> nat \<Rightarrow> communities" where
  "initial_communities aj n = \<lparr>cm_assignment = [0..<n], cm_weights = aj_node_weights aj\<rparr>"

definition push_group :: "(nat, nat list) hmap \<Rightarrow> nat \<times> nat \<Rightarrow> (nat, nat list) hmap" where
  "push_group m p =
     (case p of (node_idx, comm_idx) \<Rightarrow> hm_insert comm_idx ((case hm_get m comm_idx of Some xs \<Rightarrow> xs | None \<Rightarrow> []) @ [node_idx]) m)"

definition group_nodes :: "nat list \<Rightarrow> (nat, nat list) hmap" where
  "group_nodes assignment = foldl push_group [] (zip [0..<length assignment] assignment)"

definition detect_communities_with_resolution ::
  "((nat, real) hmap \<Rightarrow> (nat, real) hmap) \<Rightarrow> ((nat, nat list) hmap \<Rightarrow> (nat, nat list) hmap) \<Rightarrow>
   digraph \<Rightarrow> real \<Rightarrow> nat list list" where
  "detect_communities_with_resolution gain_order group_order g resolution =
     (let n = dg_nodes g; aj = adjacency_of g
      in if n = 0 then []
         else if aj_total_weight aj = 0 then map (\<lambda>i. [i]) [0..<n]
         else
           (let cm = fst (optimise gain_order aj resolution n MAX_ITER (initial_communities aj n))
            in map snd (group_order (group_nodes (cm_assignment cm)))))"

definition detect_communities ::
  "((nat, real) hmap \<Rightarrow> (nat, real) hmap) \<Rightarrow> ((nat, nat list) hmap \<Rightarrow> (nat, nat list) hmap) \<Rightarrow>
   digraph \<Rightarrow> nat list list" where
  "detect_communities gain_order group_order g = detect_communities_with_resolution gain_order group_order g 1"

section \<open>Modularity\<close>

text \<open>The specification: sums over the edges of the graph, and the modularity of a partition.\<close>

definition edge_sum :: "(nat \<Rightarrow> nat \<Rightarrow> real \<Rightarrow> real) \<Rightarrow> (nat \<times> nat \<times> real) list \<Rightarrow> real" where
  "edge_sum f es = sum_list (map (\<lambda>(u, v, w). f u v w) es)"

definition node_strength :: "digraph \<Rightarrow> nat \<Rightarrow> real" where
  "node_strength g i = edge_sum (\<lambda>u v w. (if u = i then w else 0) + (if v = i then w else 0)) (dg_edges g)"

definition total_strength :: "digraph \<Rightarrow> real" where
  "total_strength g = edge_sum (\<lambda>u v w. w) (dg_edges g)"

definition community_quality :: "digraph \<Rightarrow> real \<Rightarrow> nat list \<Rightarrow> real" where
  "community_quality g resolution c =
     edge_sum (\<lambda>u v w. if u \<in> set c \<and> v \<in> set c then w else 0) (dg_edges g) / total_strength g -
     resolution * (sum_list (map (node_strength g) c) / (2 * total_strength g))\<^sup>2"

definition modularity :: "digraph \<Rightarrow> real \<Rightarrow> nat list list \<Rightarrow> real" where
  "modularity g resolution cs = sum_list (map (community_quality g resolution) cs)"

definition gain_into :: "digraph \<Rightarrow> nat list \<Rightarrow> nat \<Rightarrow> nat \<Rightarrow> real" where
  "gain_into g a i c = edge_sum (\<lambda>u v w. (if u = i \<and> a ! v = c then w else 0) +
     (if v = i \<and> a ! u = c then w else 0)) (dg_edges g)"

definition inner_weight :: "digraph \<Rightarrow> nat list \<Rightarrow> real" where
  "inner_weight g a = edge_sum (\<lambda>u v w. if a ! u = a ! v then w else 0) (dg_edges g)"

definition community_strength :: "digraph \<Rightarrow> nat list \<Rightarrow> nat \<Rightarrow> real" where
  "community_strength g a c = sum_list (map (\<lambda>i. if a ! i = c then node_strength g i else 0) [0..<dg_nodes g])"

definition nb_sum :: "nat list \<Rightarrow> nat \<Rightarrow> (nat \<times> real) list \<Rightarrow> real" where
  "nb_sum a c nbs = sum_list (map (\<lambda>(j, w). if a ! j = c then w else 0) nbs)"

lemma edge_sum_simps [simp]:
  "edge_sum f [] = 0"
  "edge_sum f ((u, v, w) # es) = f u v w + edge_sum f es"
  by (simp_all add: edge_sum_def)

lemma edge_sum_mono:
  "(\<And>u v w. (u, v, w) \<in> set es \<Longrightarrow> f u v w \<le> h u v w) \<Longrightarrow> edge_sum f es \<le> edge_sum h es"
  unfolding edge_sum_def by (intro sum_list_mono) auto

lemma edge_sum_cong:
  "(\<And>u v w. (u, v, w) \<in> set es \<Longrightarrow> f u v w = h u v w) \<Longrightarrow> edge_sum f es = edge_sum h es"
  unfolding edge_sum_def by (intro arg_cong [where f = sum_list] map_cong) auto

lemma edge_sum_add: "edge_sum f es + edge_sum h es = edge_sum (\<lambda>u v w. f u v w + h u v w) es"
  by (induction es) auto

lemma edge_sum_diff: "edge_sum f es - edge_sum h es = edge_sum (\<lambda>u v w. f u v w - h u v w) es"
  by (induction es) auto

lemma nb_sum_snoc [simp]: "nb_sum a c (nbs @ [(j, w)]) = nb_sum a c nbs + (if a ! j = c then w else 0)"
  by (simp add: nb_sum_def)

subsection \<open>The adjacency structure holds these sums\<close>

definition adjacency_ok :: "nat \<Rightarrow> adjacency \<Rightarrow> bool" where
  "adjacency_ok n aj \<longleftrightarrow> length (aj_neighbors aj) = n \<and> length (aj_node_weights aj) = n \<and>
     (\<forall>nbs\<in>set (aj_neighbors aj). \<forall>(j, w)\<in>set nbs. j < n)"

lemma list_push_nth: "i < length xss \<Longrightarrow> list_push j x xss ! i = (if i = j then xss ! i @ [x] else xss ! i)"
  by (simp add: list_push_def nth_list_update)

lemma list_add_nth: "i < length xs \<Longrightarrow> list_add j w xs ! i = (if i = j then xs ! i + w else xs ! i)"
  by (simp add: list_add_def nth_list_update)

lemma list_push_length [simp]: "length (list_push j x xss) = length xss"
  by (simp add: list_push_def)

lemma list_add_length [simp]: "length (list_add j w xs) = length xs"
  by (simp add: list_add_def)

lemma list_push_all:
  "\<forall>xs\<in>set xss. \<forall>y\<in>set xs. P y \<Longrightarrow> P x \<Longrightarrow> j < length xss \<Longrightarrow> \<forall>xs\<in>set (list_push j x xss). \<forall>y\<in>set xs. P y"
  unfolding list_push_def using set_update_subset_insert [of xss j "xss ! j @ [x]"] nth_mem [of j xss] by fastforce

lemma adjacency_edge_ok:
  assumes "adjacency_ok n aj" "u < n" "v < n"
  shows "adjacency_ok n (adjacency_edge aj (u, v, w))"
proof -
  let ?P = "\<lambda>(j, w :: real). j < n"
  have len: "length (aj_neighbors aj) = n" "length (aj_node_weights aj) = n"
    and nbs: "\<forall>xs\<in>set (aj_neighbors aj). \<forall>y\<in>set xs. ?P y"
    using assms(1) by (simp_all add: adjacency_ok_def)
  have "\<forall>xs\<in>set (list_push v (u, w) (list_push u (v, w) (aj_neighbors aj))). \<forall>y\<in>set xs. ?P y"
    by (intro list_push_all nbs) (simp_all add: assms(2,3) len)
  then show ?thesis by (simp add: adjacency_ok_def adjacency_edge_def len)
qed

lemma adjacency_fold:
  assumes "i < n"
  shows "\<forall>(u, v, w)\<in>set es. u < n \<and> v < n \<Longrightarrow> adjacency_ok n aj \<Longrightarrow>
    (let aj' = foldl adjacency_edge aj es in
     adjacency_ok n aj' \<and>
     aj_total_weight aj' = aj_total_weight aj + edge_sum (\<lambda>u v w. w) es \<and>
     aj_node_weights aj' ! i = aj_node_weights aj ! i +
       edge_sum (\<lambda>u v w. (if u = i then w else 0) + (if v = i then w else 0)) es \<and>
     nb_sum a c (aj_neighbors aj' ! i) = nb_sum a c (aj_neighbors aj ! i) +
       edge_sum (\<lambda>u v w. (if u = i \<and> a ! v = c then w else 0) + (if v = i \<and> a ! u = c then w else 0)) es)"
proof (induction es arbitrary: aj)
  case (Cons e es)
  obtain u v w where e: "e = (u, v, w)" by (cases e)
  with Cons.prems(1) have uv: "u < n" "v < n" and rest: "\<forall>(u, v, w)\<in>set es. u < n \<and> v < n" by auto
  let ?aj = "adjacency_edge aj e"
  from adjacency_edge_ok [OF Cons.prems(2) uv] have ok: "adjacency_ok n ?aj" by (simp add: e)
  from Cons.prems(2) have len: "length (aj_neighbors aj) = n" "length (aj_node_weights aj) = n"
    by (simp_all add: adjacency_ok_def)
  have "aj_total_weight ?aj = aj_total_weight aj + w"
    "aj_node_weights ?aj ! i = aj_node_weights aj ! i + ((if u = i then w else 0) + (if v = i then w else 0))"
    "nb_sum a c (aj_neighbors ?aj ! i) = nb_sum a c (aj_neighbors aj ! i) +
       ((if u = i \<and> a ! v = c then w else 0) + (if v = i \<and> a ! u = c then w else 0))"
    using assms len by (auto simp: e adjacency_edge_def list_add_nth list_push_nth)
  with Cons.IH [OF rest ok] show ?case by (simp add: e Let_def)
qed (simp add: Let_def)

lemma adjacency_empty_ok: "adjacency_ok n (adjacency_empty n)"
  by (simp add: adjacency_ok_def adjacency_empty_def)

lemma adjacency_of_sums:
  assumes "digraph_ok g" "i < dg_nodes g"
  shows "adjacency_ok (dg_nodes g) (adjacency_of g)"
    "aj_total_weight (adjacency_of g) = total_strength g"
    "aj_node_weights (adjacency_of g) ! i = node_strength g i"
    "nb_sum a c (aj_neighbors (adjacency_of g) ! i) = gain_into g a i c"
proof -
  have "\<forall>(u, v, w)\<in>set (dg_edges g). u < dg_nodes g \<and> v < dg_nodes g"
    using assms(1) by (auto simp: digraph_ok_def)
  from adjacency_fold [OF assms(2) this adjacency_empty_ok, of a c] assms(2)
  show "adjacency_ok (dg_nodes g) (adjacency_of g)"
    "aj_total_weight (adjacency_of g) = total_strength g"
    "aj_node_weights (adjacency_of g) ! i = node_strength g i"
    "nb_sum a c (aj_neighbors (adjacency_of g) ! i) = gain_into g a i c"
    by (simp_all add: Let_def adjacency_of_def adjacency_empty_def total_strength_def node_strength_def
        gain_into_def nb_sum_def)
qed

subsection \<open>The best move\<close>

lemma gain_map_fold:
  "hm_ok m \<Longrightarrow>
   (let m' = foldl (\<lambda>m (neighbor, weight).
        let neighbor_comm = a ! neighbor
        in hm_insert neighbor_comm ((case hm_get m neighbor_comm of Some x \<Rightarrow> x | None \<Rightarrow> 0) + weight) m) m nbs
    in hm_ok m' \<and> hm_get m' c =
      (if c \<in> (\<lambda>e. a ! fst e) ` set nbs \<or> hm_get m c \<noteq> None
       then Some ((case hm_get m c of Some x \<Rightarrow> x | None \<Rightarrow> 0) + nb_sum a c nbs) else None))"
proof (induction nbs arbitrary: m)
  case Nil
  then show ?case by (auto simp: Let_def nb_sum_def)
next
  case (Cons e nbs)
  obtain j w where e: "e = (j, w)" by (cases e)
  let ?m = "hm_insert (a ! j) ((case hm_get m (a ! j) of Some x \<Rightarrow> x | None \<Rightarrow> 0) + w) m"
  from Cons.prems have "hm_ok ?m" by simp
  from Cons.IH [OF this] show ?case by (auto simp: e Let_def nb_sum_def)
qed

lemma gain_map_of_get:
  "hm_ok (gain_map_of a nbs)"
  "hm_get (gain_map_of a nbs) c = (if c \<in> (\<lambda>e. a ! fst e) ` set nbs then Some (nb_sum a c nbs) else None)"
  using gain_map_fold [OF hm_ok_Nil, of a nbs c] by (simp_all add: gain_map_of_def Let_def)

lemma nb_sum_absent: "c \<notin> (\<lambda>e. a ! fst e) ` set nbs \<Longrightarrow> nb_sum a c nbs = 0"
  unfolding nb_sum_def by (induction nbs) auto

lemma gain_map_default: "(case hm_get (gain_map_of a nbs) c of Some x \<Rightarrow> x | None \<Rightarrow> 0) = nb_sum a c nbs"
  by (simp add: gain_map_of_get(2) nb_sum_absent)

lemma best_move_spec:
  "best_move f cur gains (b, d) = (b', d') \<Longrightarrow>
   d \<le> d' \<and> (\<forall>(c, x)\<in>set gains. c \<noteq> cur \<longrightarrow> f c x \<le> d') \<and>
   ((b', d') = (b, d) \<or> (\<exists>x. (b', x) \<in> set gains \<and> b' \<noteq> cur \<and> d' = f b' x))"
proof (induction gains arbitrary: b d)
  case (Cons e gains)
  obtain c x where e: "e = (c, x)" by (cases e)
  show ?case
  proof (cases "c \<noteq> cur \<and> f c x > d")
    case True
    with Cons.prems have "best_move f cur gains (c, f c x) = (b', d')" by (simp add: e Let_def)
    from Cons.IH [OF this] True show ?thesis unfolding e by auto
  next
    case False
    with Cons.prems have "best_move f cur gains (b, d) = (b', d')" by (auto simp: e Let_def split: if_splits)
    from Cons.IH [OF this] False show ?thesis unfolding e by auto
  qed
qed simp

text \<open>The gain in modularity, up to a factor 2, of moving a node to another community, as the code
  computes it from its running sums.\<close>

definition delta_into :: "digraph \<Rightarrow> real \<Rightarrow> nat list \<Rightarrow> nat \<Rightarrow> nat \<Rightarrow> real" where
  "delta_into g resolution a i c =
     move_delta (2 * total_strength g) resolution (node_strength g i) (gain_into g a i (a ! i))
       (community_strength g a (a ! i) - node_strength g i) (gain_into g a i c) (community_strength g a c)"

definition cm_ok :: "digraph \<Rightarrow> communities \<Rightarrow> bool" where
  "cm_ok g cm \<longleftrightarrow> length (cm_assignment cm) = dg_nodes g \<and> (\<forall>c\<in>set (cm_assignment cm). c < dg_nodes g) \<and>
     cm_weights cm = map (community_strength g (cm_assignment cm)) [0..<dg_nodes g]"

definition order_ok :: "(('k, 'v) hmap \<Rightarrow> ('k, 'v) hmap) \<Rightarrow> bool" where
  "order_ok f \<longleftrightarrow> (\<forall>m. mset (f m) = mset m)"

lemma order_ok_set: "order_ok f \<Longrightarrow> set (f m) = set m"
  by (metis order_ok_def set_mset_mset)

lemma choose_move_spec:
  assumes ok: "digraph_ok g" and ord: "order_ok ord" and cm: "cm_ok g cm" and i: "i < dg_nodes g"
    and ch: "choose_move ord (adjacency_of g) resolution cm i = (b, d)"
  defines "a \<equiv> cm_assignment cm"
  shows "b \<noteq> a ! i \<Longrightarrow> b < dg_nodes g \<and> d = delta_into g resolution a i b"
    and "b = a ! i \<Longrightarrow> d = 0"
    and "\<lbrakk>(j, w) \<in> set (aj_neighbors (adjacency_of g) ! i); a ! j \<noteq> a ! i\<rbrakk> \<Longrightarrow> delta_into g resolution a i (a ! j) \<le> d"
proof -
  let ?aj = "adjacency_of g" and ?n = "dg_nodes g"
  let ?nbs = "aj_neighbors ?aj ! i"
  let ?gm = "gain_map_of a ?nbs"
  note sums = adjacency_of_sums [OF ok i]
  have len: "length a = ?n" "\<forall>c\<in>set a. c < ?n" using cm by (simp_all add: cm_ok_def a_def)
  have weight: "cm_weights cm ! c = community_strength g a c" if "c < ?n" for c
    using cm that by (simp add: cm_ok_def a_def)
  have nbs: "j < ?n" if "(j, w) \<in> set ?nbs" for j w
    using sums(1) i that unfolding adjacency_ok_def by (metis (mono_tags, lifting) case_prodD nth_mem)
  let ?f = "\<lambda>comm ki_in. move_delta (2 * total_strength g) resolution (node_strength g i)
    (gain_into g a i (a ! i)) (community_strength g a (a ! i) - node_strength g i) ki_in (cm_weights cm ! comm)"
  have ai: "a ! i < ?n" using len i by (metis nth_mem)
  have "best_move ?f (a ! i) (ord ?gm) (a ! i, 0) = (b, d)"
    using ch by (simp add: choose_move_def Let_def gain_map_default sums(2-4) weight [OF ai] flip: a_def)
  from best_move_spec [OF this] order_ok_set [OF ord, of ?gm]
  have best: "0 \<le> d" "\<forall>(c, x)\<in>set ?gm. c \<noteq> a ! i \<longrightarrow> ?f c x \<le> d"
    "(b, d) = (a ! i, 0) \<or> (\<exists>x. (b, x) \<in> set ?gm \<and> b \<noteq> a ! i \<and> d = ?f b x)" by auto
  have entry: "c < ?n \<and> ?f c x = delta_into g resolution a i c" if "(c, x) \<in> set ?gm" for c x
  proof -
    from that have "hm_get ?gm c = Some x" using hm_get_mem [OF gain_map_of_get(1)] by blast
    then obtain j w where j: "(j, w) \<in> set ?nbs" "c = a ! j" and x: "x = nb_sum a c ?nbs"
      by (auto simp: gain_map_of_get(2) split: if_splits)
    have "c < ?n" using len nbs [OF j(1)] j(2) by (metis nth_mem)
    then show ?thesis by (simp add: delta_into_def weight x sums(4))
  qed
  show "b \<noteq> a ! i \<Longrightarrow> b < ?n \<and> d = delta_into g resolution a i b" using best(3) entry by auto
  show "b = a ! i \<Longrightarrow> d = 0" using best(3) by auto
  assume j: "(j, w) \<in> set ?nbs" and ne: "a ! j \<noteq> a ! i"
  then have "hm_get ?gm (a ! j) = Some (nb_sum a (a ! j) ?nbs)" by (force simp: gain_map_of_get(2))
  then have "(a ! j, nb_sum a (a ! j) ?nbs) \<in> set ?gm" using hm_get_mem [OF gain_map_of_get(1)] by blast
  with best(2) ne entry show "delta_into g resolution a i (a ! j) \<le> d" by fastforce
qed

subsection \<open>A move changes the modularity by its gain\<close>

definition state_quality :: "digraph \<Rightarrow> real \<Rightarrow> communities \<Rightarrow> real" where
  "state_quality g resolution cm =
     inner_weight g (cm_assignment cm) / total_strength g -
     resolution * sum_list (map (\<lambda>x. (x / (2 * total_strength g))\<^sup>2) (cm_weights cm))"

definition loop_free :: "digraph \<Rightarrow> bool" where
  "loop_free g \<longleftrightarrow> (\<forall>(u, v, w)\<in>set (dg_edges g). u \<noteq> v)"

lemma sum_list_map_update:
  "i < length xs \<Longrightarrow> sum_list (map f (xs[i := y])) = sum_list (map f xs) - f (xs ! i) + (f y :: real)"
  by (induction xs arbitrary: i) (auto split: nat.split)

lemma sum_list_map_list_add:
  "i < length xs \<Longrightarrow> sum_list (map f (list_add i w xs)) = sum_list (map f xs) - f (xs ! i) + (f (xs ! i + w) :: real)"
  by (simp add: list_add_def sum_list_map_update)

lemma community_strength_sum: "community_strength g a c = (\<Sum>i<dg_nodes g. if a ! i = c then node_strength g i else 0)"
  by (simp add: community_strength_def interv_sum_list_conv_sum_set_nat atLeast0LessThan)

lemma community_strength_move:
  assumes "length a = dg_nodes g" "i < dg_nodes g"
  shows "community_strength g (a[i := b]) c =
    community_strength g a c + (if c = b then node_strength g i else 0) - (if c = a ! i then node_strength g i else 0)"
proof -
  let ?k = "node_strength g"
  let ?d = "(if c = b then ?k i else 0) - (if c = a ! i then ?k i else 0)"
  have "community_strength g (a[i := b]) c - community_strength g a c = (\<Sum>j<dg_nodes g. if j = i then ?d else 0)"
    unfolding community_strength_sum sum_subtractf [symmetric]
    using assms by (intro sum.cong) (auto simp: nth_list_update)
  also have "\<dots> = ?d" using assms(2) by simp
  finally show ?thesis by simp
qed

lemma inner_weight_move:
  assumes "digraph_ok g" "length a = dg_nodes g" "i < dg_nodes g" "b \<noteq> a ! i"
  shows "gain_into g a i b - gain_into g a i (a ! i) \<le> inner_weight g (a[i := b]) - inner_weight g a"
    and "loop_free g \<Longrightarrow> gain_into g a i b - gain_into g a i (a ! i) = inner_weight g (a[i := b]) - inner_weight g a"
proof -
  show "gain_into g a i b - gain_into g a i (a ! i) \<le> inner_weight g (a[i := b]) - inner_weight g a"
    unfolding gain_into_def inner_weight_def edge_sum_diff
    using assms by (intro edge_sum_mono) (auto simp: nth_list_update digraph_ok_def)
  show "gain_into g a i b - gain_into g a i (a ! i) = inner_weight g (a[i := b]) - inner_weight g a" if "loop_free g"
    unfolding gain_into_def inner_weight_def edge_sum_diff
    using assms that by (intro edge_sum_cong) (auto simp: nth_list_update digraph_ok_def loop_free_def)
qed

lemma quality_algebra:
  fixes m :: real
  assumes "0 < m"
  shows "2 * move_delta (2 * m) r k c (C - k) b B =
    (b - c) / m - r * (((C - k) / (2 * m))\<^sup>2 - (C / (2 * m))\<^sup>2 + ((B + k) / (2 * m))\<^sup>2 - (B / (2 * m))\<^sup>2)"
  using assms by (simp add: move_delta_def Let_def field_simps power2_eq_square)

lemma quality_diff:
  fixes m :: real
  shows "s' = s + D \<Longrightarrow> x = G / m - r * D \<Longrightarrow> p' / m - r * s' - (p / m - r * s + x) = (p' - p - G) / m"
  by (simp add: distrib_left diff_divide_distrib)

lemma apply_move_spec:
  assumes g: "digraph_ok g" "0 < total_strength g" and cm: "cm_ok g cm"
    and i: "i < dg_nodes g" and b: "b < dg_nodes g" "b \<noteq> cm_assignment cm ! i"
  defines "cm' \<equiv> apply_move (adjacency_of g) cm i b"
  shows "cm_ok g cm'"
    and "state_quality g r cm + 2 * delta_into g r (cm_assignment cm) i b \<le> state_quality g r cm'"
    and "loop_free g \<Longrightarrow> state_quality g r cm' = state_quality g r cm + 2 * delta_into g r (cm_assignment cm) i b"
proof -
  let ?a = "cm_assignment cm" and ?n = "dg_nodes g" and ?k = "node_strength g i" and ?m = "total_strength g"
  let ?c = "?a ! i"
  have len: "length ?a = ?n" "\<forall>c\<in>set ?a. c < ?n" and
    w: "cm_weights cm = map (community_strength g ?a) [0..<?n]" using cm by (simp_all add: cm_ok_def)
  have c: "?c < ?n" using len i by (metis nth_mem)
  have a': "cm_assignment cm' = ?a[i := b]"
    and w': "cm_weights cm' = list_add b ?k (list_add ?c (- ?k) (cm_weights cm))"
    using adjacency_of_sums(3) [OF g(1) i] by (simp_all add: cm'_def apply_move_def Let_def)
  have "cm_weights cm' = map (community_strength g (?a[i := b])) [0..<?n]"
    using b by (intro nth_equalityI)
      (auto simp: w' w list_add_nth community_strength_move [OF len(1) i])
  moreover have "\<forall>x\<in>set (?a[i := b]). x < ?n" using len(2) b(1) set_update_subset_insert [of ?a i b] by auto
  ultimately show "cm_ok g cm'" by (simp add: cm_ok_def a' len(1))
  let ?q = "\<lambda>x. (x / (2 * ?m))\<^sup>2" and ?C = "community_strength g ?a ?c" and ?B = "community_strength g ?a b"
  have "sum_list (map ?q (cm_weights cm')) = sum_list (map ?q (cm_weights cm)) +
      (?q (?C - ?k) - ?q ?C + ?q (?B + ?k) - ?q ?B)"
    using b c by (simp add: w' sum_list_map_list_add w list_add_nth)
  moreover have "2 * delta_into g r ?a i b = (gain_into g ?a i b - gain_into g ?a i ?c) / ?m -
      r * (?q (?C - ?k) - ?q ?C + ?q (?B + ?k) - ?q ?B)"
    unfolding delta_into_def by (rule quality_algebra [OF g(2)])
  ultimately have diff: "state_quality g r cm' - (state_quality g r cm + 2 * delta_into g r ?a i b) =
      (inner_weight g (?a[i := b]) - inner_weight g ?a - (gain_into g ?a i b - gain_into g ?a i ?c)) / ?m"
    unfolding state_quality_def a' by (rule quality_diff)
  note inner = inner_weight_move [OF g(1) len(1) i b(2)]
  have "0 \<le> state_quality g r cm' - (state_quality g r cm + 2 * delta_into g r ?a i b)"
    unfolding diff using inner(1) g(2) by simp
  then show "state_quality g r cm + 2 * delta_into g r ?a i b \<le> state_quality g r cm'" by simp
  assume "loop_free g"
  from inner(2) [OF this] diff show "state_quality g r cm' = state_quality g r cm + 2 * delta_into g r ?a i b" by simp
qed

subsection \<open>Sweeps\<close>

text \<open>No neighbour's community offers a node a gain above the threshold.\<close>

definition settled :: "digraph \<Rightarrow> real \<Rightarrow> nat list \<Rightarrow> nat \<Rightarrow> bool" where
  "settled g r a i \<longleftrightarrow> (\<forall>(j, w)\<in>set (aj_neighbors (adjacency_of g) ! i).
     a ! j \<noteq> a ! i \<longrightarrow> delta_into g r a i (a ! j) \<le> 1 / 10 ^ 10)"

lemma visit_node_spec:
  assumes g: "digraph_ok g" "0 < total_strength g" and ord: "order_ok ord" and cm: "cm_ok g cm" and i: "i < dg_nodes g"
    and v: "visit_node ord (adjacency_of g) r (cm, ch) i = (cm', ch')"
  shows "cm_ok g cm' \<and>
    (ch' = ch \<and> cm' = cm \<and> settled g r (cm_assignment cm) i \<or>
     ch' \<and> state_quality g r cm + 2 / 10 ^ 10 < state_quality g r cm')"
proof -
  obtain b d where bd: "choose_move ord (adjacency_of g) r cm i = (b, d)" by fastforce
  note ch = choose_move_spec [OF g(1) ord cm i bd]
  show ?thesis
  proof (cases "b \<noteq> cm_assignment cm ! i \<and> d > 1 / 10 ^ 10")
    case True
    with v have cm': "cm' = apply_move (adjacency_of g) cm i b" "ch'" by (simp_all add: visit_node_def bd)
    from ch(1) True have b: "b < dg_nodes g" "d = delta_into g r (cm_assignment cm) i b" by auto
    note mv = apply_move_spec [OF g cm i b(1), folded cm'(1)]
    from True have ne: "b \<noteq> cm_assignment cm ! i" and big: "2 / 10 ^ 10 < 2 * d" by auto
    from mv(2) [OF ne, of r] big have "state_quality g r cm + 2 / 10 ^ 10 < state_quality g r cm'"
      unfolding b(2) by linarith
    with mv(1) [OF ne] cm'(2) show ?thesis by blast
  next
    case False
    then have same: "cm' = cm" "ch' = ch" using v by (auto simp: visit_node_def bd split: if_splits)
    have "d \<le> 1 / 10 ^ 10" using False ch(2) by (cases "b = cm_assignment cm ! i") auto
    then have "settled g r (cm_assignment cm) i"
      using ch(3) unfolding settled_def by (fastforce intro: order_trans)
    with same cm show ?thesis by simp
  qed
qed

lemma visits_spec:
  assumes g: "digraph_ok g" "0 < total_strength g" and ord: "order_ok ord"
  shows "\<forall>i\<in>set is. i < dg_nodes g \<Longrightarrow> cm_ok g cm \<Longrightarrow>
    foldl (visit_node ord (adjacency_of g) r) (cm, ch) is = (cm', ch') \<Longrightarrow>
    cm_ok g cm' \<and>
    (ch' = ch \<and> cm' = cm \<and> (\<forall>i\<in>set is. settled g r (cm_assignment cm) i) \<or>
     ch' \<and> state_quality g r cm + 2 / 10 ^ 10 < state_quality g r cm')"
proof (induction "is" arbitrary: cm ch)
  case (Cons i "is")
  obtain cm1 ch1 where v: "visit_node ord (adjacency_of g) r (cm, ch) i = (cm1, ch1)" by fastforce
  from Cons.prems(1) have i: "i < dg_nodes g" and rest: "\<forall>i\<in>set is. i < dg_nodes g" by auto
  note one = visit_node_spec [OF g ord Cons.prems(2) i v]
  from Cons.prems(3) have "foldl (visit_node ord (adjacency_of g) r) (cm1, ch1) is = (cm', ch')" by (simp add: v)
  note ih = Cons.IH [OF rest conjunct1 [OF one] this]
  show ?case
  proof (cases "ch1 = ch \<and> cm1 = cm \<and> settled g r (cm_assignment cm) i")
    case True
    with ih show ?thesis by auto
  next
    case False
    with one have ch1: "ch1" and up: "state_quality g r cm + 2 / 10 ^ 10 < state_quality g r cm1" by auto
    have pos: "(0::real) \<le> 2 / 10 ^ 10" by simp
    from ih ch1 have "ch'" by auto
    moreover from ih have "state_quality g r cm1 \<le> state_quality g r cm'"
    proof (elim conjE disjE)
      assume "state_quality g r cm1 + 2 / 10 ^ 10 < state_quality g r cm'"
      with pos show ?thesis by linarith
    qed simp
    ultimately show ?thesis using ih up by linarith
  qed
qed simp

lemma optimise_spec:
  assumes g: "digraph_ok g" "0 < total_strength g" and ord: "order_ok ord"
  shows "cm_ok g cm \<Longrightarrow> optimise ord (adjacency_of g) r (dg_nodes g) k cm = (cm', ch) \<Longrightarrow>
    cm_ok g cm' \<and> state_quality g r cm \<le> state_quality g r cm' \<and>
    (\<not> ch \<longrightarrow> (\<forall>i<dg_nodes g. settled g r (cm_assignment cm') i))"
proof (induction k arbitrary: cm)
  case (Suc k)
  obtain cm1 ch1 where s: "sweep ord (adjacency_of g) r (dg_nodes g) cm = (cm1, ch1)" by fastforce
  have "\<forall>i\<in>set [0..<dg_nodes g]. i < dg_nodes g" by simp
  note sw = visits_spec [OF g ord this Suc.prems(1) s [unfolded sweep_def]]
  show ?case
  proof (cases ch1)
    case True
    from sw True have q: "state_quality g r cm + 2 / 10 ^ 10 < state_quality g r cm1" and ok: "cm_ok g cm1" by auto
    from q have q1: "state_quality g r cm \<le> state_quality g r cm1" using less_eq_real_def by force
    from Suc.prems(2) True have "optimise ord (adjacency_of g) r (dg_nodes g) k cm1 = (cm', ch)" by (simp add: s)
    from Suc.IH [OF ok this] q1 show ?thesis by (auto intro: order_trans)
  next
    case False
    with Suc.prems(2) have "cm' = cm1" "\<not> ch" by (auto simp: s)
    with sw False show ?thesis by auto
  qed
qed simp

lemma initial_cm_ok:
  assumes "digraph_ok g"
  shows "cm_ok g (initial_communities (adjacency_of g) (dg_nodes g))"
proof -
  have "community_strength g [0..<dg_nodes g] c = node_strength g c" if c: "c < dg_nodes g" for c
  proof -
    have "community_strength g [0..<dg_nodes g] c = (\<Sum>i<dg_nodes g. if i = c then node_strength g i else 0)"
      unfolding community_strength_sum by (intro sum.cong) auto
    with c show ?thesis by simp
  qed
  moreover have "aj_node_weights (adjacency_of g) = map (node_strength g) [0..<dg_nodes g]"
  proof (intro nth_equalityI)
    show len: "length (aj_node_weights (adjacency_of g)) = length (map (node_strength g) [0..<dg_nodes g])"
    proof (cases "dg_nodes g")
      case 0
      with assms have "dg_edges g = []" by (cases "dg_edges g") (auto simp: digraph_ok_def)
      with 0 show ?thesis by (simp add: adjacency_of_def adjacency_empty_def)
    next
      case (Suc k)
      with adjacency_of_sums(1) [OF assms, of 0] show ?thesis by (simp add: adjacency_ok_def)
    qed
    show "aj_node_weights (adjacency_of g) ! i = map (node_strength g) [0..<dg_nodes g] ! i"
      if "i < length (aj_node_weights (adjacency_of g))" for i
      using that adjacency_of_sums(3) [OF assms, of i] unfolding len by simp
  qed
  ultimately show ?thesis by (simp add: cm_ok_def initial_communities_def)
qed

subsection \<open>The communities as lists of nodes\<close>

definition members :: "nat list \<Rightarrow> nat \<Rightarrow> nat list" where
  "members a c = filter (\<lambda>i. a ! i = c) [0..<length a]"

lemma push_groups_get:
  "hm_ok m \<Longrightarrow> (let m' = foldl push_group m ps in hm_ok m' \<and> hm_get m' c =
     (if c \<in> snd ` set ps \<or> hm_get m c \<noteq> None
      then Some ((case hm_get m c of Some xs \<Rightarrow> xs | None \<Rightarrow> []) @ map fst (filter (\<lambda>p. snd p = c) ps)) else None))"
proof (induction ps arbitrary: m)
  case Nil
  then show ?case by (auto simp: Let_def)
next
  case (Cons p ps)
  obtain x d where p: "p = (x, d)" by (cases p)
  from Cons.prems have "hm_ok (push_group m p)" by (simp add: push_group_def p)
  from Cons.IH [OF this] show ?case by (auto simp: p Let_def push_group_def)
qed

lemma members_zip:
  "map fst (filter (\<lambda>p. snd p = c) (zip [k..<k + length a] a)) = map (\<lambda>i. k + i) (filter (\<lambda>i. a ! i = c) [0..<length a])"
proof (induction a arbitrary: k)
  case (Cons x a)
  have "[0..<length (x # a)] = 0 # map Suc [0..<length a]"
    by (simp add: upt_conv_Cons map_Suc_upt del: upt_Suc)
  moreover have "[k..<k + length (x # a)] = k # [Suc k..<Suc k + length a]"
    by (simp add: upt_conv_Cons del: upt_Suc)
  ultimately show ?case using Cons.IH [of "Suc k"] by (simp add: filter_map o_def del: upt_Suc)
qed simp

lemma group_nodes_get:
  "hm_ok (group_nodes a)"
  "hm_get (group_nodes a) c = (if c \<in> set a then Some (members a c) else None)"
proof -
  have "snd ` set (zip [0..<length a] a) = set a" by (metis map_snd_zip length_upt minus_nat.diff_0 set_map)
  with push_groups_get [OF hm_ok_Nil, of "zip [0..<length a] a" c] members_zip [of c 0 a]
  show "hm_ok (group_nodes a)"
    "hm_get (group_nodes a) c = (if c \<in> set a then Some (members a c) else None)"
    by (auto simp: group_nodes_def Let_def members_def)
qed

lemma push_group_mset: "mset (concat (map snd (push_group m (x, c)))) = add_mset x (mset (concat (map snd m)))"
proof (induction m)
  case (Cons e m)
  then show ?case by (cases e) (auto simp: push_group_def)
qed (simp add: push_group_def)

lemma push_groups_mset:
  "mset (concat (map snd (foldl push_group m ps))) = mset (concat (map snd m)) + mset (map fst ps)"
proof (induction ps arbitrary: m)
  case (Cons p ps)
  obtain x c where p: "p = (x, c)" by (cases p)
  show ?case using push_group_mset [of m x c] by (simp add: Cons.IH p del: mset_concat mset_map)
qed simp

lemma group_nodes_mset: "mset (concat (map snd (group_nodes a))) = mset [0..<length a]"
  using push_groups_mset [of "[]" "zip [0..<length a] a"] by (simp add: group_nodes_def del: mset_concat)

lemma order_map: "order_ok ord \<Longrightarrow> mset (map f (ord m)) = mset (map f m)"
  by (simp add: order_ok_def)

lemma ordered_concat_mset:
  assumes "order_ok ord"
  shows "mset (concat (map snd (ord m))) = mset (concat (map snd m))"
proof -
  have "mset (concat xs) = sum_mset (image_mset mset (mset xs))" for xs :: "'b list list"
    by (induction xs) auto
  with order_map [OF assms, of snd m] show ?thesis by simp
qed

lemma ordered_sum:
  fixes f :: "'a \<Rightarrow> real"
  assumes "order_ok ord"
  shows "sum_list (map f (map snd (ord m))) = sum_list (map f (map snd m))"
  using order_map [OF assms, of "f \<circ> snd" m] by (metis map_map sum_mset_sum_list)

lemma edge_sum_swap:
  "finite S \<Longrightarrow> (\<Sum>c\<in>S. edge_sum (f c) es) = edge_sum (\<lambda>u v w. \<Sum>c\<in>S. f c u v w) es"
proof (induction es)
  case (Cons e es)
  then show ?case by (cases e) (simp add: sum.distrib)
qed simp

lemma members_inner:
  assumes "digraph_ok g" "length a = dg_nodes g"
  shows "(\<Sum>c\<in>set a. edge_sum (\<lambda>u v w. if u \<in> set (members a c) \<and> v \<in> set (members a c) then w else 0) (dg_edges g)) =
    inner_weight g a"
proof -
  have "(\<Sum>c\<in>set a. if u \<in> set (members a c) \<and> v \<in> set (members a c) then w else 0) = (if a ! u = a ! v then w else 0)"
    if "(u, v, w) \<in> set (dg_edges g)" for u v w
  proof -
    from that assms have uv: "u < length a" "v < length a" by (auto simp: digraph_ok_def)
    then have "(\<Sum>c\<in>set a. if u \<in> set (members a c) \<and> v \<in> set (members a c) then w else 0) =
        (\<Sum>c\<in>set a. if c = a ! u then if a ! u = a ! v then w else 0 else 0)"
      by (intro sum.cong) (auto simp: members_def)
    also have "\<dots> = (if a ! u = a ! v then w else 0)" using uv by simp
    finally show ?thesis .
  qed
  then show ?thesis unfolding edge_sum_swap [OF finite_set] inner_weight_def by (rule edge_sum_cong)
qed

lemma members_strength:
  "length a = dg_nodes g \<Longrightarrow> sum_list (map (node_strength g) (members a c)) = community_strength g a c"
  by (simp add: members_def community_strength_def sum_list_map_filter')

lemma group_modularity:
  assumes "digraph_ok g" "order_ok ord" "cm_ok g cm"
  shows "modularity g r (map snd (ord (group_nodes (cm_assignment cm)))) = state_quality g r cm"
proof -
  let ?a = "cm_assignment cm" and ?m = "group_nodes (cm_assignment cm)" and ?n = "dg_nodes g"
  have len: "length ?a = ?n" "set ?a \<subseteq> {..<?n}" and w: "cm_weights cm = map (community_strength g ?a) [0..<?n]"
    using assms(3) by (auto simp: cm_ok_def)
  have keys: "distinct (map fst ?m)" using group_nodes_get(1) [of ?a] by (simp add: hm_ok_def)
  have keyset: "set (map fst ?m) = set ?a"
  proof (rule set_eqI)
    show "c \<in> set (map fst ?m) \<longleftrightarrow> c \<in> set ?a" for c
      using hm_get_None [of ?m c] group_nodes_get(2) [of ?a c] by (simp split: if_splits)
  qed
  have snd: "map snd ?m = map (members ?a) (map fst ?m)"
  proof -
    have "xs = members ?a c" if "(c, xs) \<in> set ?m" for c xs
      using hm_get_mem [OF group_nodes_get(1), of ?a c xs] that by (simp add: group_nodes_get(2) split: if_splits)
    then show ?thesis by (auto simp: o_def)
  qed
  have "modularity g r (map snd (ord ?m)) = sum_list (map (community_quality g r \<circ> members ?a) (map fst ?m))"
    unfolding modularity_def ordered_sum [OF assms(2)] snd by (simp add: o_assoc)
  also have "\<dots> = (\<Sum>c\<in>set ?a. community_quality g r (members ?a c))"
    by (simp only: sum_list_distinct_conv_sum_set [OF keys] keyset o_def)
  also have "\<dots> = inner_weight g ?a / total_strength g -
      r * (\<Sum>c\<in>set ?a. (community_strength g ?a c / (2 * total_strength g))\<^sup>2)"
    unfolding community_quality_def members_strength [OF len(1)] sum_subtractf
      members_inner [OF assms(1) len(1), symmetric]
    by (simp add: sum_divide_distrib sum_distrib_left)
  also have "(\<Sum>c\<in>set ?a. (community_strength g ?a c / (2 * total_strength g))\<^sup>2) =
      (\<Sum>c<?n. (community_strength g ?a c / (2 * total_strength g))\<^sup>2)"
  proof (rule sum.mono_neutral_left)
    show "\<forall>c\<in>{..<?n} - set ?a. (community_strength g ?a c / (2 * total_strength g))\<^sup>2 = 0"
    proof
      fix c
      assume "c \<in> {..<?n} - set ?a"
      then have "members ?a c = []" by (auto simp: members_def filter_empty_conv)
      with members_strength [OF len(1), of c] show "(community_strength g ?a c / (2 * total_strength g))\<^sup>2 = 0"
        by simp
    qed
  qed (use len(2) in auto)
  finally show ?thesis
    by (simp add: state_quality_def w o_def interv_sum_list_conv_sum_set_nat atLeast0LessThan)
qed

subsection \<open>What community detection returns\<close>

lemma optimise_length:
  "length (cm_assignment (fst (optimise ord aj r n k cm))) = length (cm_assignment cm)"
proof (induction k arbitrary: cm)
  case (Suc k)
  have visit: "length (cm_assignment (fst (visit_node ord aj r st i))) = length (cm_assignment (fst st))" for st i
    by (cases st) (simp add: visit_node_def apply_move_def Let_def split: prod.split)
  have "length (cm_assignment (fst (foldl (visit_node ord aj r) st is))) = length (cm_assignment (fst st))" for st "is"
    by (induction "is" arbitrary: st) (simp_all add: visit)
  from this [of "(cm, False)" "[0..<n]"] Suc.IH show ?case
    by (cases "sweep ord aj r n cm") (simp add: sweep_def)
qed simp

lemma group_nodes_nonempty: "(c, []) \<notin> set (group_nodes a)"
  using hm_get_mem [OF group_nodes_get(1), of a c "[]"]
  by (auto simp: group_nodes_get(2) members_def in_set_conv_nth filter_empty_conv split: if_splits)

lemma singletons: "mset (concat (map (\<lambda>i. [i]) xs)) = mset xs" "[] \<notin> set (map (\<lambda>i. [i]) xs)"
  by (induction xs) auto

text \<open>Community detection partitions the graph: every node is in exactly one of the returned
  communities, once, and no community is empty, for every graph and resolution and whatever the
  order in which the hash maps are iterated.\<close>
theorem communities_partition:
  assumes "order_ok group_order"
  shows "mset (concat (detect_communities_with_resolution gain_order group_order g r)) = mset [0..<dg_nodes g] \<and>
    [] \<notin> set (detect_communities_with_resolution gain_order group_order g r)"
proof -
  let ?res = "detect_communities_with_resolution gain_order group_order g r"
  let ?a = "cm_assignment (fst (optimise gain_order (adjacency_of g) r (dg_nodes g) MAX_ITER
    (initial_communities (adjacency_of g) (dg_nodes g))))"
  have "(dg_nodes g = 0 \<and> ?res = []) \<or> ?res = map (\<lambda>i. [i]) [0..<dg_nodes g] \<or>
      ?res = map snd (group_order (group_nodes ?a))"
    by (simp add: detect_communities_with_resolution_def Let_def)
  then show ?thesis
  proof (elim disjE conjE)
    assume "dg_nodes g = 0" and r: "?res = []"
    then show ?thesis unfolding r by simp
  next
    assume r: "?res = map (\<lambda>i. [i]) [0..<dg_nodes g]"
    show ?thesis unfolding r by (simp only: singletons simp_thms)
  next
    assume r: "?res = map snd (group_order (group_nodes ?a))"
    have "length ?a = dg_nodes g" by (simp add: optimise_length initial_communities_def)
    with group_nodes_mset [of ?a] have "mset (concat ?res) = mset [0..<dg_nodes g]"
      unfolding r ordered_concat_mset [OF assms] by simp
    moreover have "[] \<notin> set ?res"
      unfolding r using group_nodes_nonempty [of _ ?a] order_ok_set [OF assms, of "group_nodes ?a"] by auto
    ultimately show ?thesis by blast
  qed
qed

theorem communities_partition_witness:
  "mset (concat (detect_communities_with_resolution id id example_graph 1)) = {#0, 1#}"
proof -
  have "order_ok (id :: (nat, nat list) hmap \<Rightarrow> _)" by (simp add: order_ok_def)
  from communities_partition [OF this, of id example_graph 1] show ?thesis
    by (simp add: example_graph_def upt_rec del: mset_concat)
qed

lemma initial_quality:
  assumes "digraph_ok g"
  shows "modularity g r (map (\<lambda>i. [i]) [0..<dg_nodes g]) =
    state_quality g r (initial_communities (adjacency_of g) (dg_nodes g))"
proof -
  let ?n = "dg_nodes g"
  have "order_ok (id :: (nat, nat list) hmap \<Rightarrow> _)" by (simp add: order_ok_def)
  from group_modularity [OF assms this initial_cm_ok [OF assms], of r]
  have q: "modularity g r (map snd (group_nodes [0..<?n])) =
      state_quality g r (initial_communities (adjacency_of g) ?n)" by (simp add: initial_communities_def)
  have "filter (\<lambda>i. i = c) [0..<k] = (if c < k then [c] else [])" for c k by (induction k) auto
  moreover have "members [0..<?n] c = filter (\<lambda>i. i = c) [0..<?n]" for c
    unfolding members_def by (auto intro: filter_cong)
  ultimately have "members [0..<?n] c = [c]" if "c < ?n" for c using that by simp
  then have get: "hm_get (group_nodes [0..<?n]) c = (if c < ?n then Some [c] else None)" for c
    by (simp add: group_nodes_get(2))
  have mem: "(c, xs) \<in> set (group_nodes [0..<?n]) \<longleftrightarrow> c < ?n \<and> xs = [c]" for c xs
    using hm_get_mem [OF group_nodes_get(1), of "[0..<?n]" c xs] by (auto simp: get split: if_splits)
  have "mset (group_nodes [0..<?n]) = mset (map (\<lambda>i. (i, [i])) [0..<?n])"
  proof (rule set_eq_iff_mset_eq_distinct [THEN iffD1])
    show "distinct (group_nodes [0..<?n])" using group_nodes_get(1) [of "[0..<?n]"] by (simp add: hm_ok_def distinct_map)
    show "distinct (map (\<lambda>i. (i, [i])) [0..<?n])" by (simp add: distinct_map inj_on_def)
    show "set (group_nodes [0..<?n]) = set (map (\<lambda>i. (i, [i])) [0..<?n])"
      using mem by (auto intro!: rev_image_eqI)
  qed
  then have "mset (map (community_quality g r \<circ> snd) (group_nodes [0..<?n])) =
      mset (map (community_quality g r \<circ> snd) (map (\<lambda>i. (i, [i])) [0..<?n]))" by (metis mset_map)
  then have "modularity g r (map snd (group_nodes [0..<?n])) = modularity g r (map (\<lambda>i. [i]) [0..<?n])"
    unfolding modularity_def map_map by (metis (no_types, lifting) map_map sum_mset_sum_list o_def snd_conv map_eq_conv)
  with q show ?thesis by simp
qed

lemma total_strength_nonneg: "digraph_ok g \<Longrightarrow> 0 \<le> total_strength g"
  unfolding total_strength_def edge_sum_def by (intro sum_list_nonneg) (auto simp: digraph_ok_def)

lemma detect_result:
  assumes g: "digraph_ok g" "dg_nodes g \<noteq> 0" "total_strength g \<noteq> 0" and ord: "order_ok gain_order" "order_ok group_order"
  obtains cm ch where
    "optimise gain_order (adjacency_of g) r (dg_nodes g) MAX_ITER (initial_communities (adjacency_of g) (dg_nodes g)) = (cm, ch)"
    "cm_ok g cm"
    "modularity g r (detect_communities_with_resolution gain_order group_order g r) = state_quality g r cm"
    "modularity g r (map (\<lambda>i. [i]) [0..<dg_nodes g]) \<le> state_quality g r cm"
proof -
  obtain cm ch where o: "optimise gain_order (adjacency_of g) r (dg_nodes g) MAX_ITER
    (initial_communities (adjacency_of g) (dg_nodes g)) = (cm, ch)" by fastforce
  have pos: "0 < total_strength g" using g(3) total_strength_nonneg [OF g(1)] by linarith
  from optimise_spec [OF g(1) pos ord(1) initial_cm_ok [OF g(1)] o]
  have cm: "cm_ok g cm" and q: "state_quality g r (initial_communities (adjacency_of g) (dg_nodes g)) \<le> state_quality g r cm"
    by auto
  have "aj_total_weight (adjacency_of g) = total_strength g"
    using adjacency_of_sums(2) [OF g(1), of 0] g(2) by simp
  then have res: "detect_communities_with_resolution gain_order group_order g r =
      map snd (group_order (group_nodes (cm_assignment cm)))"
    using g(2,3) by (simp add: detect_communities_with_resolution_def Let_def o)
  show thesis
    using that [OF o cm] q group_modularity [OF g(1) ord(2) cm, of r] initial_quality [OF g(1), of r]
    unfolding res by simp
qed

lemma detect_trivial:
  assumes "digraph_ok g" "dg_nodes g = 0 \<or> total_strength g = 0"
  shows "detect_communities_with_resolution gain_order group_order g r = map (\<lambda>i. [i]) [0..<dg_nodes g]"
proof (cases "dg_nodes g = 0")
  case False
  with assms adjacency_of_sums(2) [OF assms(1), of 0] show ?thesis
    by (simp add: detect_communities_with_resolution_def Let_def)
qed (simp add: detect_communities_with_resolution_def)

text \<open>Community detection never does worse than leaving every node alone: for a graph with
  nonnegative weights and any resolution, the modularity of the returned partition is at least
  that of the partition into single nodes, whatever the iteration order of the hash maps.\<close>
theorem communities_improve_modularity:
  assumes "digraph_ok g" and "order_ok gain_order" and "order_ok group_order"
  shows "modularity g r (map (\<lambda>i. [i]) [0..<dg_nodes g]) \<le>
    modularity g r (detect_communities_with_resolution gain_order group_order g r)"
proof (cases "dg_nodes g = 0 \<or> total_strength g = 0")
  case True
  then show ?thesis by (simp add: detect_trivial [OF assms(1)])
next
  case False
  then obtain cm where
    "modularity g r (detect_communities_with_resolution gain_order group_order g r) = state_quality g r cm"
    "modularity g r (map (\<lambda>i. [i]) [0..<dg_nodes g]) \<le> state_quality g r cm"
    using detect_result [OF assms(1) _ _ assms(2,3), of r] by blast
  then show ?thesis by simp
qed

lemma example_orders: "order_ok (id :: ('k, 'v) hmap \<Rightarrow> _)"
  by (simp add: order_ok_def)

lemma example_graph_ok: "digraph_ok example_graph"
  by (simp add: digraph_ok_def example_graph_def)

theorem communities_improve_modularity_witness:
  "modularity example_graph 1 [[0], [1]] \<le>
   modularity example_graph 1 (detect_communities_with_resolution id id example_graph 1)"
  using communities_improve_modularity [OF example_graph_ok example_orders example_orders, of 1]
  by (simp add: example_graph_def upt_rec)

lemma list_push_mem: "x \<in> set (xss ! i) \<Longrightarrow> x \<in> set (list_push j y xss ! i)"
  by (cases "i = j"; cases "j < length xss") (simp_all add: list_push_def list_update_beyond)

lemma adjacency_edge_mem:
  "(j, w) \<in> set (aj_neighbors aj ! i) \<Longrightarrow> (j, w) \<in> set (aj_neighbors (adjacency_edge aj e) ! i)"
  by (cases e) (simp add: adjacency_edge_def list_push_mem)

lemma adjacency_fold_mem:
  "(j, w) \<in> set (aj_neighbors aj ! i) \<Longrightarrow> (j, w) \<in> set (aj_neighbors (foldl adjacency_edge aj es) ! i)"
  by (induction es arbitrary: aj) (auto intro: adjacency_edge_mem)

lemma adjacency_fold_neighbors:
  "(u, v, w) \<in> set es \<Longrightarrow> u < n \<Longrightarrow> v < n \<Longrightarrow> \<forall>(u, v, w)\<in>set es. u < n \<and> v < n \<Longrightarrow> adjacency_ok n aj \<Longrightarrow>
   (v, w) \<in> set (aj_neighbors (foldl adjacency_edge aj es) ! u) \<and>
   (u, w) \<in> set (aj_neighbors (foldl adjacency_edge aj es) ! v)"
proof (induction es arbitrary: aj)
  case (Cons e es)
  obtain x y z where e: "e = (x, y, z)" by (cases e)
  from Cons.prems(4) have xy: "x < n" "y < n" and rest: "\<forall>(u, v, w)\<in>set es. u < n \<and> v < n" by (auto simp: e)
  note ok = adjacency_edge_ok [OF Cons.prems(5) xy, of z, folded e]
  show ?case
  proof (cases "e = (u, v, w)")
    case True
    from Cons.prems(5) have "length (aj_neighbors aj) = n" by (simp add: adjacency_ok_def)
    then have "(v, w) \<in> set (aj_neighbors (adjacency_edge aj e) ! u)"
      "(u, w) \<in> set (aj_neighbors (adjacency_edge aj e) ! v)"
      using Cons.prems(2,3) by (auto simp: True adjacency_edge_def list_push_nth)
    from this [THEN adjacency_fold_mem] show ?thesis by simp
  next
    case False
    with Cons.IH [OF _ Cons.prems(2,3) rest ok] Cons.prems(1) show ?thesis by auto
  qed
qed simp

lemma adjacency_of_neighbors:
  assumes "digraph_ok g" "(u, v, w) \<in> set (dg_edges g)"
  shows "u < dg_nodes g" "v < dg_nodes g"
    "(v, w) \<in> set (aj_neighbors (adjacency_of g) ! u)" "(u, w) \<in> set (aj_neighbors (adjacency_of g) ! v)"
proof -
  have all: "\<forall>(u, v, w)\<in>set (dg_edges g). u < dg_nodes g \<and> v < dg_nodes g"
    using assms(1) by (auto simp: digraph_ok_def)
  with assms(2) show uv: "u < dg_nodes g" "v < dg_nodes g" by auto
  show "(v, w) \<in> set (aj_neighbors (adjacency_of g) ! u)" "(u, w) \<in> set (aj_neighbors (adjacency_of g) ! v)"
    using adjacency_fold_neighbors [OF assms(2) uv all adjacency_empty_ok] by (auto simp: adjacency_of_def)
qed

lemma settled_modularity:
  assumes g: "digraph_ok g" "loop_free g" "0 < total_strength g" and cm: "cm_ok g cm"
    and st: "\<forall>i<dg_nodes g. settled g r (cm_assignment cm) i"
    and n: "i < dg_nodes g" "j < dg_nodes g" "(j, w) \<in> set (aj_neighbors (adjacency_of g) ! i)"
  shows "modularity g r (map snd (group_nodes ((cm_assignment cm)[i := cm_assignment cm ! j]))) \<le>
    state_quality g r cm + 2 / 10 ^ 10"
proof (cases "cm_assignment cm ! j = cm_assignment cm ! i")
  case True
  then have "(cm_assignment cm)[i := cm_assignment cm ! j] = cm_assignment cm" by simp
  then show ?thesis using group_modularity [OF g(1) example_orders cm, of r] by simp
next
  case False
  let ?a = "cm_assignment cm"
  have b: "?a ! j < dg_nodes g" using cm n(2) by (auto simp: cm_ok_def)
  note mv = apply_move_spec [OF g(1,3) cm n(1) b False]
  have "delta_into g r ?a i (?a ! j) \<le> 1 / 10 ^ 10"
    using st n(1,3) False unfolding settled_def by (fastforce dest: bspec)
  with mv(3) [OF g(2), of r] have "state_quality g r (apply_move (adjacency_of g) cm i (?a ! j)) \<le>
      state_quality g r cm + 2 / 10 ^ 10" by simp
  with group_modularity [OF g(1) example_orders mv(1), of r] show ?thesis
    by (simp add: apply_move_def Let_def)
qed

lemmas louvain_eval = adjacency_of_def adjacency_empty_def adjacency_edge_def list_push_def list_add_def
  initial_communities_def sweep_def visit_node_def choose_move_def gain_map_of_def move_delta_def
  apply_move_def Let_def example_graph_def upt_rec group_nodes_def push_group_def

lemma example_adjacency:
  "adjacency_of example_graph =
     \<lparr>aj_neighbors = [[(1, 1)], [(0, 1)]], aj_node_weights = [1, 1], aj_total_weight = 1\<rparr>"
  by (simp add: louvain_eval numeral_2_eq_2)

lemma example_sweeps:
  "r < 2 \<Longrightarrow> 1 / 10 ^ 10 < 1 / 2 - r / 4 \<Longrightarrow> sweep id (adjacency_of example_graph) r 2 \<lparr>cm_assignment = [0, 1], cm_weights = [1, 1]\<rparr> =
     (\<lparr>cm_assignment = [1, 1], cm_weights = [0, 2]\<rparr>, True)"
  "sweep id (adjacency_of example_graph) r 2 \<lparr>cm_assignment = [1, 1], cm_weights = [0, 2]\<rparr> =
     (\<lparr>cm_assignment = [1, 1], cm_weights = [0, 2]\<rparr>, False)"
  "2 \<le> r \<Longrightarrow> sweep id (adjacency_of example_graph) r 2 \<lparr>cm_assignment = [0, 1], cm_weights = [1, 1]\<rparr> =
     (\<lparr>cm_assignment = [0, 1], cm_weights = [1, 1]\<rparr>, False)"
  unfolding example_adjacency by (simp_all add: louvain_eval)

lemma example_optimise:
  "r < 2 \<Longrightarrow> 1 / 10 ^ 10 < 1 / 2 - r / 4 \<Longrightarrow>
   optimise id (adjacency_of example_graph) r 2 MAX_ITER (initial_communities (adjacency_of example_graph) 2) =
     (\<lparr>cm_assignment = [1, 1], cm_weights = [0, 2]\<rparr>, False)"
  "2 \<le> r \<Longrightarrow> optimise id (adjacency_of example_graph) r 2 MAX_ITER (initial_communities (adjacency_of example_graph) 2) =
     (\<lparr>cm_assignment = [0, 1], cm_weights = [1, 1]\<rparr>, False)"
proof -
  have k: "MAX_ITER = Suc (Suc 18)" by (simp add: MAX_ITER_def)
  have i: "initial_communities (adjacency_of example_graph) 2 = \<lparr>cm_assignment = [0, 1], cm_weights = [1, 1]\<rparr>"
    unfolding example_adjacency by (simp add: initial_communities_def upt_rec)
  show "optimise id (adjacency_of example_graph) r 2 MAX_ITER (initial_communities (adjacency_of example_graph) 2) =
     (\<lparr>cm_assignment = [1, 1], cm_weights = [0, 2]\<rparr>, False)" if "r < 2" "1 / 10 ^ 10 < 1 / 2 - r / 4"
    by (simp only: k i optimise.simps example_sweeps(1) [OF that] example_sweeps(2) prod.case if_True if_False)
  show "optimise id (adjacency_of example_graph) r 2 MAX_ITER (initial_communities (adjacency_of example_graph) 2) =
     (\<lparr>cm_assignment = [0, 1], cm_weights = [1, 1]\<rparr>, False)" if "2 \<le> r"
    by (simp only: k i optimise.simps example_sweeps(3) [OF that] prod.case if_False)
qed

text \<open>The doc comment of the resolution says "<1 = more communities, >1 = fewer"; a larger resolution
  gives more communities.\<close>

lemma resolution_grows_communities:
  "detect_communities_with_resolution id id example_graph (1 / 2) = [[0, 1]]"
  "detect_communities_with_resolution id id example_graph 3 = [[0], [1]]"
proof -
  have d: "detect_communities_with_resolution id id example_graph r =
      map snd (group_nodes (cm_assignment (fst (optimise id (adjacency_of example_graph) r 2 MAX_ITER
        (initial_communities (adjacency_of example_graph) 2)))))" for r
    unfolding detect_communities_with_resolution_def example_adjacency by (simp add: Let_def example_graph_def)
  show "detect_communities_with_resolution id id example_graph (1 / 2) = [[0, 1]]"
    "detect_communities_with_resolution id id example_graph 3 = [[0], [1]]"
    unfolding d using example_optimise(1) [of "1 / 2"] example_optimise(2) [of 3]
    by (simp_all add: group_nodes_def push_group_def upt_rec)
qed

text \<open>When the optimisation stops by itself, before its limit of 20 sweeps, its result is a local
  optimum: on a graph without self-loops, moving any one node into the community of any of its
  neighbours changes the modularity by at most the threshold (2e-10) upwards.\<close>
theorem communities_locally_optimal:
  assumes "digraph_ok g" and "loop_free g" and "0 < total_strength g" and "order_ok gain_order"
    and "optimise gain_order (adjacency_of g) r (dg_nodes g) MAX_ITER
      (initial_communities (adjacency_of g) (dg_nodes g)) = (cm, False)"
    and "(i, j, w) \<in> set (dg_edges g)"
  shows "let a = cm_assignment cm; Q = \<lambda>a. modularity g r (map snd (group_nodes a)) in
    Q (a[i := a ! j]) \<le> Q a + 2 / 10 ^ 10 \<and> Q (a[j := a ! i]) \<le> Q a + 2 / 10 ^ 10"
proof -
  from optimise_spec [OF assms(1,3,4) initial_cm_ok [OF assms(1)] assms(5)]
  have cm: "cm_ok g cm" and st: "\<forall>i<dg_nodes g. settled g r (cm_assignment cm) i" by auto
  note nb = adjacency_of_neighbors [OF assms(1,6)]
  show ?thesis
    unfolding Let_def
    using settled_modularity [OF assms(1-3) cm st nb(1,2,3)] settled_modularity [OF assms(1-3) cm st nb(2,1,4)]
      group_modularity [OF assms(1) example_orders cm, of r] by simp
qed

theorem communities_locally_optimal_witness:
  "modularity example_graph 1 (map snd (group_nodes [1, 1])) \<le>
   modularity example_graph 1 (map snd (group_nodes [1, 1])) + 2 / 10 ^ 10"
proof -
  have ex: "loop_free example_graph" "0 < total_strength example_graph" "(0, 1, 1) \<in> set (dg_edges example_graph)"
    by (simp_all add: loop_free_def total_strength_def example_graph_def)
  have o: "optimise id (adjacency_of example_graph) 1 (dg_nodes example_graph) MAX_ITER
      (initial_communities (adjacency_of example_graph) (dg_nodes example_graph)) =
      (\<lparr>cm_assignment = [1, 1], cm_weights = [0, 2]\<rparr>, False)"
    using example_optimise(1) [of 1] by (simp add: example_graph_def)
  from communities_locally_optimal [OF example_graph_ok ex(1,2) example_orders o ex(3)] show ?thesis
    by (simp add: Let_def)
qed

end
