(* ===== verification/TextTools.thy ===== *)
theory TextTools
  imports Prelude "HOL-Library.Sublist"
begin

text \<open>
  The text operations of the standard library that the code intelligence part uses:
  \<open>contains\<close>, \<open>split\<close>, \<open>lines\<close> and \<open>join\<close>, with the laws that relate them.
\<close>

abbreviation str_contains :: "string \<Rightarrow> string \<Rightarrow> bool" where
  "str_contains s pat \<equiv> sublist pat s"

lemma str_lower_append: "str_lower (s @ t) = str_lower s @ str_lower t"
  by (simp add: str_lower_def)

lemma contains_append_mid: "str_contains (a @ m @ b) m"
  by (simp add: sublist_appendI)

section \<open>Splitting and joining\<close>

text \<open>\<open>str::split\<close> by one character.\<close>

fun split_char :: "char \<Rightarrow> string \<Rightarrow> string list" where
  "split_char sep [] = [[]]"
| "split_char sep (c # cs) =
     (if c = sep then [] # split_char sep cs
      else (case split_char sep cs of w # ws \<Rightarrow> (c # w) # ws | [] \<Rightarrow> [[c]]))"

text \<open>\<open>str::split\<close> by a text: the pieces between the leftmost disjoint occurrences.\<close>

function split_text :: "string \<Rightarrow> string \<Rightarrow> string \<Rightarrow> string list" where
  "split_text sep acc s =
     (if s = [] then [acc]
      else if sep \<noteq> [] \<and> prefix sep s then acc # split_text sep [] (drop (length sep) s)
      else split_text sep (acc @ [hd s]) (tl s))"
  by pat_completeness auto
termination
  by (relation "measure (\<lambda>(sep, acc, s). length s)") auto

declare split_text.simps [simp del]

fun join_text :: "string \<Rightarrow> string list \<Rightarrow> string" where
  "join_text sep [] = []"
| "join_text sep [s] = s"
| "join_text sep (s # t # ss) = s @ sep @ join_text sep (t # ss)"

abbreviation newline :: char where
  "newline \<equiv> CHR 0x0A"

abbreviation carriage_return :: char where
  "carriage_return \<equiv> CHR 0x0D"

text \<open>\<open>str::lines\<close>: no empty line after a final line break, and no carriage return before one.\<close>

definition strip_cr :: "string \<Rightarrow> string" where
  "strip_cr l = (if l \<noteq> [] \<and> last l = carriage_return then butlast l else l)"

definition str_lines :: "string \<Rightarrow> string list" where
  "str_lines s =
     (let ls = split_char newline s
      in map strip_cr (butlast ls) @ (if last ls = [] then [] else [last ls]))"

lemma split_char_nonempty [simp]: "split_char sep s \<noteq> []"
  by (induction s) (auto split: list.splits)

lemma split_char_append:
  "split_char sep (s @ sep # t) = split_char sep s @ split_char sep t"
  by (induction s) (auto split: list.splits)

lemma split_text_nonempty [simp]: "split_text sep acc s \<noteq> []"
  by (induction sep acc s rule: split_text.induct) (subst split_text.simps, simp)

lemma join_text_Cons: "ss \<noteq> [] \<Longrightarrow> join_text sep (s # ss) = s @ sep @ join_text sep ss"
  by (cases ss) auto

lemma join_split_text: "join_text sep (split_text sep acc s) = acc @ s"
proof (induction sep acc s rule: split_text.induct)
  case (1 sep acc s)
  consider "s = []" | "s \<noteq> []" "sep \<noteq> []" "prefix sep s" | "s \<noteq> []" "\<not> (sep \<noteq> [] \<and> prefix sep s)"
    by blast
  then show ?case
  proof cases
    case 1
    then show ?thesis by (simp add: split_text.simps)
  next
    case 2
    then show ?thesis using "1.IH"(1)
      by (subst split_text.simps) (auto simp: join_text_Cons prefix_def)
  next
    case 3
    then show ?thesis using "1.IH"(2)
      by (subst split_text.simps) auto
  qed
qed

text \<open>The non-empty lines of a text are those of its parts, in their order.\<close>

definition full_lines :: "string \<Rightarrow> string list" where
  "full_lines s = filter (\<lambda>l. l \<noteq> []) (split_char newline s)"

lemma full_lines_Nil [simp]: "full_lines [] = []"
  by (simp add: full_lines_def)

lemma full_lines_break: "full_lines (s @ [newline, newline] @ t) = full_lines s @ full_lines t"
proof -
  have "s @ [newline, newline] @ t = s @ newline # ([] @ newline # t)" by simp
  then show ?thesis
    unfolding full_lines_def by (simp only: split_char_append filter_append) simp
qed

lemma full_lines_join:
  "full_lines (join_text [newline, newline] ss) = concat (map full_lines ss)"
proof (induction ss)
  case (Cons s ss)
  then show ?case
    by (cases "ss = []") (simp_all add: join_text_Cons full_lines_break del: append_Cons append_Nil)
qed simp

end
