(* ===== verification/CodeTokens.thy ===== *)
theory CodeTokens
  imports TextTools
begin

text \<open>
  The tokenizer of \<open>src/search/bm25.rs\<close>: words are maximal alphanumeric runs, split further at the
  transitions of camelCase, and every word is also emitted whole. Text is ASCII, so the Unicode
  classes of the source are the ASCII ones.
\<close>

section \<open>Splitting a word\<close>

text \<open>The closure \<open>class\<close>: 0 other, 1 lower, 2 upper, 3 digit.\<close>

definition char_class :: "char \<Rightarrow> nat" where
  "char_class c =
     (if is_ascii_lower c then 1 else if is_ascii_upper c then 2 else if is_ascii_digit c then 3 else 0)"

definition split_transition :: "nat \<Rightarrow> nat \<Rightarrow> nat \<Rightarrow> bool" where
  "split_transition prev cur nxt =
     (if (prev, cur) = (1, 2) then True
      else if (prev, cur) = (1, 3) then False
      else if (prev, cur) = (3, 1) then True
      else if (prev, cur) = (3, 2) then True
      else if (prev, cur) = (2, 2) \<and> nxt = 1 then True
      else False)"

definition split_at :: "string \<Rightarrow> nat \<Rightarrow> bool" where
  "split_at chars i =
     (let prev = char_class (chars ! (i - 1));
          cur = char_class (chars ! i);
          nxt = if i + 1 < length chars then char_class (chars ! (i + 1)) else 0
      in split_transition prev cur nxt)"

definition segment :: "string \<Rightarrow> nat \<Rightarrow> nat \<Rightarrow> string" where
  "segment chars a b = str_lower (take (b - a) (drop a chars))"

definition push_segment :: "string list \<Rightarrow> string \<Rightarrow> string list" where
  "push_segment tokens seg_lower = (if seg_lower \<noteq> [] then tokens @ [seg_lower] else tokens)"

text \<open>The loop over \<open>i\<close>; it returns the start of the last segment and the tokens so far.\<close>

function split_loop :: "string \<Rightarrow> nat \<Rightarrow> nat \<Rightarrow> string list \<Rightarrow> nat \<times> string list" where
  "split_loop chars i start tokens =
     (if i < length chars then
        if split_at chars i
        then split_loop chars (i + 1) i (push_segment tokens (segment chars start i))
        else split_loop chars (i + 1) start tokens
      else (start, tokens))"
  by pat_completeness auto
termination
  by (relation "measure (\<lambda>(chars, i, start, tokens). length chars - i)") auto

declare split_loop.simps [simp del]

definition split_camel :: "string \<Rightarrow> string list" where
  "split_camel word =
     (let n = length word
      in if n = 0 then []
         else (let (start, tokens) = split_loop word 1 0 []
               in push_segment tokens (segment word start n)))"

section \<open>Splitting a text\<close>

text \<open>\<open>str::split\<close> by a predicate.\<close>

fun split_where :: "(char \<Rightarrow> bool) \<Rightarrow> string \<Rightarrow> string list" where
  "split_where p [] = [[]]"
| "split_where p (c # cs) =
     (if p c then [] # split_where p cs
      else (case split_where p cs of w # ws \<Rightarrow> (c # w) # ws | [] \<Rightarrow> [[c]]))"

definition tokenize_word :: "string list \<Rightarrow> string \<Rightarrow> string list" where
  "tokenize_word out word =
     (if word = [] then out
      else
        (let word_lower = str_lower word;
             sub_tokens = split_camel word;
             pushed = filter (\<lambda>t. t \<noteq> []) sub_tokens;
             has_subtokens = (pushed \<noteq> []);
             out1 = out @ pushed
         in if \<not> has_subtokens \<or> length sub_tokens > 1 \<or>
               (case sub_tokens of [] \<Rightarrow> None | t # ts \<Rightarrow> Some t) \<noteq> Some word_lower
            then out1 @ [word_lower] else out1))"

definition tokenize_code :: "string \<Rightarrow> string list" where
  "tokenize_code text = foldl tokenize_word [] (split_where (\<lambda>c. \<not> is_ascii_alphanumeric c) text)"

section \<open>What the tokens are\<close>

text \<open>The reference speaks of neighbouring characters only. A word is cut before an upper case letter that follows a
  lower case one, before any letter that follows a digit, and before the last capital of a run of
  capitals when a lower case letter follows it. The words are the maximal runs of alphanumeric characters.\<close>

definition camel_boundary :: "char \<Rightarrow> char \<Rightarrow> string \<Rightarrow> bool" where
  "camel_boundary a b rest \<longleftrightarrow>
     (is_ascii_lower a \<and> is_ascii_upper b) \<or>
     (is_ascii_digit a \<and> (is_ascii_lower b \<or> is_ascii_upper b)) \<or>
     (is_ascii_upper a \<and> is_ascii_upper b \<and> rest \<noteq> [] \<and> is_ascii_lower (hd rest))"

fun camel_pieces :: "string \<Rightarrow> string list" where
  "camel_pieces [] = []"
| "camel_pieces [a] = [[a]]"
| "camel_pieces (a # b # cs) =
     (if camel_boundary a b cs then [a] # camel_pieces (b # cs)
      else (case camel_pieces (b # cs) of [] \<Rightarrow> [[a]] | w # ws \<Rightarrow> (a # w) # ws))"

definition reference_tokens :: "string \<Rightarrow> string list" where
  "reference_tokens word =
     (let pieces = map str_lower (camel_pieces word)
      in if length pieces > 1 then pieces @ [str_lower word] else [str_lower word])"

function alnum_runs :: "string \<Rightarrow> string list" where
  "alnum_runs s =
     (let rest = dropWhile (\<lambda>c. \<not> is_ascii_alphanumeric c) s
      in if rest = [] then []
         else takeWhile is_ascii_alphanumeric rest # alnum_runs (dropWhile is_ascii_alphanumeric rest))"
  by pat_completeness auto
termination
proof (relation "measure length")
  fix s :: string and rest
  assume rest: "rest = dropWhile (\<lambda>c. \<not> is_ascii_alphanumeric c) s" "rest \<noteq> []"
  then have "is_ascii_alphanumeric (hd rest)" using hd_dropWhile [of "\<lambda>c. \<not> is_ascii_alphanumeric c" s] by simp
  then have "length (dropWhile is_ascii_alphanumeric rest) < length rest"
    using rest(2) length_dropWhile_le [of is_ascii_alphanumeric "tl rest"] by (cases rest) (auto simp: less_Suc_eq_le)
  also have "length rest \<le> length s" unfolding rest(1) by (rule length_dropWhile_le)
  finally show "(dropWhile is_ascii_alphanumeric rest, s) \<in> measure length" by simp
qed simp

declare alnum_runs.simps [simp del]

text \<open>The loop: the segments between consecutive cuts.\<close>

fun segments_of :: "string \<Rightarrow> nat list \<Rightarrow> string list" where
  "segments_of chars (a # b # cs) = segment chars a b # segments_of chars (b # cs)"
| "segments_of chars _ = []"

definition camel_cuts :: "string \<Rightarrow> nat list" where
  "camel_cuts word = 0 # filter (split_at word) [1..<length word] @ [length word]"

definition code_words :: "string \<Rightarrow> string list" where
  "code_words text = filter (\<lambda>w. w \<noteq> []) (split_where (\<lambda>c. \<not> is_ascii_alphanumeric c) text)"

lemma str_lower_Nil [simp]: "str_lower s = [] \<longleftrightarrow> s = []" "[] = str_lower s \<longleftrightarrow> s = []"
  by (auto simp: str_lower_def)

lemma segment_nonempty: "a < b \<Longrightarrow> b \<le> length chars \<Longrightarrow> segment chars a b \<noteq> []"
  by (simp add: segment_def)

lemma push_segment_nonempty: "s \<noteq> [] \<Longrightarrow> push_segment ts s = ts @ [s]"
  by (simp add: push_segment_def)

lemma segments_of_snoc:
  "segments_of chars (a # bs @ [n]) = segments_of chars (a # bs) @ [segment chars (last (a # bs)) n]"
  by (induction bs arbitrary: a) auto

lemma split_loop_segments:
  "start < i \<Longrightarrow> i \<le> length chars \<Longrightarrow>
   split_loop chars i start tokens =
     (let cuts = filter (split_at chars) [i..<length chars]
      in (last (start # cuts), tokens @ segments_of chars (start # cuts)))"
proof (induction chars i start tokens rule: split_loop.induct)
  case (1 chars i start tokens)
  show ?case
  proof (cases "i < length chars")
    case True
    then have "[i..<length chars] = i # [Suc i..<length chars]" by (simp add: upt_conv_Cons)
    moreover have "push_segment tokens (segment chars start i) = tokens @ [segment chars start i]"
      using "1.prems" by (intro push_segment_nonempty segment_nonempty)
    ultimately show ?thesis
      using "1.IH" True "1.prems" by (subst split_loop.simps) (simp add: Let_def)
  next
    case False
    with "1.prems" show ?thesis by (subst split_loop.simps) (simp add: Let_def)
  qed
qed

lemma last_cut: "last (0 # filter (split_at chars) [1..<n]) < n \<or> n = 0"
proof (cases "n = 0")
  case False
  have "\<forall>x\<in>set (0 # filter (split_at chars) [1..<n]). x < n" using False by auto
  then show ?thesis by (metis last_in_set list.distinct(1))
qed simp

lemma split_camel_segments: "split_camel word = (if word = [] then [] else segments_of word (camel_cuts word))"
proof (cases "word = []")
  case False
  then have "split_loop word 1 0 [] = (let cuts = filter (split_at word) [1..<length word]
      in (last (0 # cuts), [] @ segments_of word (0 # cuts)))"
    by (intro split_loop_segments) (simp_all add: Suc_leI)
  moreover have "push_segment ts (segment word (last (0 # filter (split_at word) [1..<length word])) (length word)) =
      ts @ [segment word (last (0 # filter (split_at word) [1..<length word])) (length word)]" for ts
    using False last_cut [of word "length word"] by (intro push_segment_nonempty segment_nonempty) auto
  ultimately show ?thesis
    using False unfolding split_camel_def camel_cuts_def segments_of_snoc by (simp add: Let_def del: last.simps)
qed (simp add: split_camel_def)

lemma segment_append: "a \<le> b \<Longrightarrow> b \<le> c \<Longrightarrow> c \<le> length chars \<Longrightarrow> segment chars a b @ segment chars b c = segment chars a c"
proof -
  assume "a \<le> b" "b \<le> c" "c \<le> length chars"
  then have "take (c - a) (drop a chars) = take (b - a) (drop a chars) @ take (c - b) (drop b chars)"
    using take_add [of "b - a" "c - b" "drop a chars"] by simp
  then show ?thesis unfolding segment_def by (simp add: str_lower_append)
qed

lemma segments_concat:
  "sorted (a # cs) \<Longrightarrow> \<forall>c\<in>set cs. c \<le> length chars \<Longrightarrow>
   concat (segments_of chars (a # cs)) = segment chars a (last (a # cs))"
proof (induction cs arbitrary: a)
  case Nil
  then show ?case by (simp add: segment_def)
next
  case (Cons b cs)
  have "last (b # cs) \<in> set (b # cs)" by (rule last_in_set) simp
  with Cons.prems have "b \<le> last (b # cs)" "last (b # cs) \<le> length chars" by auto
  with Cons show ?case by (simp add: segment_append)
qed

lemma segments_nonempty:
  "sorted_wrt (<) (a # cs) \<Longrightarrow> \<forall>c\<in>set cs. c \<le> length chars \<Longrightarrow> [] \<notin> set (segments_of chars (a # cs))"
  by (induction cs arbitrary: a) (auto simp: segment_nonempty dest: sym)

lemma camel_cuts_sorted: "word \<noteq> [] \<Longrightarrow> sorted_wrt (<) (camel_cuts word)"
  unfolding camel_cuts_def by (auto simp: sorted_wrt_append sorted_wrt_filter)

lemma camel_cuts_bound: "\<forall>c\<in>set (tl (camel_cuts word)). c \<le> length word"
  by (auto simp: camel_cuts_def)

lemma split_camel_concat: "concat (split_camel word) = str_lower word"
proof (cases "word = []")
  case False
  have "sorted (camel_cuts word)" using camel_cuts_sorted [OF False] by (simp add: strict_sorted_imp_sorted)
  then have "concat (segments_of word (camel_cuts word)) = segment word 0 (last (camel_cuts word))"
    using segments_concat [of 0 "tl (camel_cuts word)" word] camel_cuts_bound [of word]
    by (simp add: camel_cuts_def)
  then show ?thesis using False by (simp add: split_camel_segments camel_cuts_def segment_def)
qed (simp add: split_camel_segments str_lower_def)

lemma split_camel_nonempty: "[] \<notin> set (split_camel word)"
proof (cases "word = []")
  case False
  then show ?thesis
    using segments_nonempty [of 0 "tl (camel_cuts word)" word] camel_cuts_sorted [OF False] camel_cuts_bound [of word]
    by (simp add: split_camel_segments camel_cuts_def)
qed (simp add: split_camel_segments)

section \<open>The tokens of a text\<close>

lemma split_where_seps: "\<forall>w\<in>set (split_where p s). \<forall>c\<in>set w. \<not> p c"
  by (induction s) (auto split: list.splits)

lemma split_where_nonempty: "split_where p s \<noteq> []"
  by (cases s) (auto split: list.splits)

lemma split_where_concat: "concat (split_where p s) = filter (\<lambda>c. \<not> p c) s"
  by (induction s) (auto split: list.splits simp: split_where_nonempty)

lemma code_words_concat: "concat (code_words text) = filter is_ascii_alphanumeric text"
proof -
  have "concat (filter (\<lambda>w. w \<noteq> []) ws) = concat ws" for ws :: "string list" by (induction ws) auto
  then show ?thesis by (simp add: code_words_def split_where_concat)
qed

lemma code_words_alnum: "w \<in> set (code_words text) \<Longrightarrow> c \<in> set w \<Longrightarrow> is_ascii_alphanumeric c"
  unfolding code_words_def using split_where_seps [of "\<lambda>c. \<not> is_ascii_alphanumeric c" "text"] by auto

definition word_tokens :: "string \<Rightarrow> string list" where
  "word_tokens word = split_camel word @ (if split_camel word = [str_lower word] then [] else [str_lower word])"

lemma split_camel_single: "split_camel word = [t] \<Longrightarrow> t = str_lower word"
  using split_camel_concat [of word] by simp

lemma tokenize_word_eq: "tokenize_word out word = (if word = [] then out else out @ word_tokens word)"
proof (cases "word = []")
  case False
  have ne: "filter (\<lambda>t. t \<noteq> []) (split_camel word) = split_camel word"
    using split_camel_nonempty [of word] by (auto simp: filter_id_conv)
  have "split_camel word \<noteq> []" using False split_camel_concat [of word] by force
  then obtain t ts where s: "split_camel word = t # ts" by (cases "split_camel word") auto
  show ?thesis
  proof (cases ts)
    case Nil
    with s have "t = str_lower word" using split_camel_single by simp
    with ne s Nil False show ?thesis by (simp add: tokenize_word_def word_tokens_def Let_def)
  next
    case (Cons u us)
    with ne s False show ?thesis by (simp add: tokenize_word_def word_tokens_def Let_def)
  qed
qed (simp add: tokenize_word_def)

lemma tokenize_code_eq: "tokenize_code text = concat (map word_tokens (code_words text))"
proof -
  have "foldl tokenize_word out ws = out @ concat (map word_tokens (filter (\<lambda>w. w \<noteq> []) ws))" for out ws
    by (induction ws arbitrary: out) (auto simp: tokenize_word_eq)
  then show ?thesis by (simp add: tokenize_code_def code_words_def)
qed

lemma word_tokens_set: "set (word_tokens word) = insert (str_lower word) (set (split_camel word))"
  by (auto simp: word_tokens_def)

lemma is_upper_lower: "is_ascii_upper c \<Longrightarrow> is_ascii_lower (to_ascii_lower c)"
  by (auto simp: to_ascii_lower_def is_ascii_upper_def is_ascii_lower_def char_code_def)

lemma to_ascii_lower_not_upper: "\<not> is_ascii_upper (to_ascii_lower c)"
  using is_upper_lower [of c] by (auto simp: to_ascii_lower_def is_ascii_upper_def is_ascii_lower_def split: if_splits)

lemma to_ascii_lower_alnum: "is_ascii_alphanumeric c \<Longrightarrow> is_ascii_alphanumeric (to_ascii_lower c)"
  using is_upper_lower [of c] by (auto simp: to_ascii_lower_def is_ascii_alphanumeric_def is_ascii_alphabetic_def)

definition token_ok :: "string \<Rightarrow> bool" where
  "token_ok t \<longleftrightarrow> t \<noteq> [] \<and> list_all (\<lambda>c. is_ascii_alphanumeric c \<and> \<not> is_ascii_upper c) t"

lemma word_token_ok:
  assumes "w \<in> set (code_words text)" "t \<in> set (word_tokens w)"
  shows "token_ok t"
proof -
  have w: "w \<noteq> []" using assms(1) by (simp add: code_words_def)
  have low: "list_all (\<lambda>c. is_ascii_alphanumeric c \<and> \<not> is_ascii_upper c) (str_lower w)"
    using code_words_alnum [OF assms(1)] by (auto simp: list_all_iff str_lower_def to_ascii_lower_alnum to_ascii_lower_not_upper)
  have "set t \<subseteq> set (str_lower w)"
    using assms(2) split_camel_concat [of w] by (auto simp: word_tokens_set) (metis UN_I set_concat)
  moreover have "t \<noteq> []" using assms(2) split_camel_nonempty [of w] w by (auto simp: word_tokens_set)
  ultimately show ?thesis using low by (auto simp: token_ok_def list_all_iff)
qed

section \<open>The loop computes the reference\<close>

lemma split_at_Cons: "split_at (a # word) (Suc i) = split_at word i" if "0 < i"
  using that by (cases i) (simp_all add: split_at_def Let_def)

lemma split_at_first: "split_at (a # b # cs) 1 = camel_boundary a b cs"
proof -
  have disjoint: "\<not> (is_ascii_lower c \<and> is_ascii_upper c)" "\<not> (is_ascii_lower c \<and> is_ascii_digit c)"
    "\<not> (is_ascii_upper c \<and> is_ascii_digit c)" for c
    by (auto simp: is_ascii_lower_def is_ascii_upper_def is_ascii_digit_def)
  show ?thesis
    using disjoint [of a] disjoint [of b]
    by (cases cs) (auto simp: split_at_def Let_def split_transition_def char_class_def camel_boundary_def)
qed

definition later_cuts :: "string \<Rightarrow> nat list" where
  "later_cuts word = filter (split_at word) [1..<length word] @ [length word]"

lemma later_cuts_Cons:
  "later_cuts (a # b # cs) = (if camel_boundary a b cs then [1] else []) @ map Suc (later_cuts (b # cs))"
proof -
  have idx: "[1..<length (a # b # cs)] = 1 # map Suc [1..<length (b # cs)]"
    by (simp add: upt_conv_Cons map_Suc_upt del: upt_Suc)
  have "filter (split_at (a # b # cs)) (map Suc is) = map Suc (filter (split_at (b # cs)) is)"
    if "0 \<notin> set is" for "is"
    using that by (induction "is") (auto simp: split_at_Cons)
  from this [of "[1..<length (b # cs)]"] show ?thesis
    unfolding later_cuts_def idx using split_at_first [of a b cs] by (simp del: upt_Suc)
qed

lemma segments_shift: "segments_of (a # word) (map Suc cuts) = segments_of word cuts"
  by (induction word cuts rule: segments_of.induct) (simp_all add: segment_def)

lemma segment_grow: "segment (a # word) 0 (Suc n) = to_ascii_lower a # segment word 0 n"
  by (simp add: segment_def str_lower_def)

lemma segments_pieces: "word \<noteq> [] \<Longrightarrow> segments_of word (0 # later_cuts word) = map str_lower (camel_pieces word)"
proof (induction word rule: camel_pieces.induct)
  case (2 a)
  then show ?case by (simp add: later_cuts_def segment_def)
next
  case (3 a b cs)
  have IH: "segments_of (b # cs) (0 # later_cuts (b # cs)) = map str_lower (camel_pieces (b # cs))"
    using 3 by (cases "camel_boundary a b cs") auto
  obtain k ks where k: "later_cuts (b # cs) = k # ks"
    by (cases "later_cuts (b # cs)") (simp_all add: later_cuts_def)
  show ?case
  proof (cases "camel_boundary a b cs")
    case True
    have "segments_of (a # b # cs) (0 # 1 # map Suc (later_cuts (b # cs))) =
        segment (a # b # cs) 0 1 # segments_of (a # b # cs) (map Suc (0 # later_cuts (b # cs)))" by simp
    then show ?thesis
      using True IH unfolding later_cuts_Cons segments_shift by (simp add: segment_def str_lower_def)
  next
    case False
    from IH obtain w ws where w: "camel_pieces (b # cs) = w # ws" "segment (b # cs) 0 k = str_lower w"
      "segments_of (b # cs) (k # ks) = map str_lower ws"
      by (cases "camel_pieces (b # cs)") (auto simp: k)
    have "segments_of (a # b # cs) (0 # map Suc (k # ks)) =
        segment (a # b # cs) 0 (Suc k) # segments_of (a # b # cs) (map Suc (k # ks))" by simp
    then show ?thesis
      using False w unfolding later_cuts_Cons k segments_shift segment_grow by (simp add: str_lower_def)
  qed
qed simp

lemma split_camel_pieces: "split_camel word = map str_lower (camel_pieces word)"
proof (cases "word = []")
  case False
  then show ?thesis
    using segments_pieces [OF False] by (simp add: split_camel_segments camel_cuts_def later_cuts_def)
qed (simp add: split_camel_def)

lemma word_tokens_reference: "word \<noteq> [] \<Longrightarrow> word_tokens word = reference_tokens word"
proof -
  assume "word \<noteq> []"
  then have "split_camel word \<noteq> []" using split_camel_concat [of word] by force
  then obtain t ts where s: "split_camel word = t # ts" by (cases "split_camel word") auto
  have l: "length (map str_lower (camel_pieces word)) = Suc (length ts)"
    using s by (simp flip: split_camel_pieces)
  show ?thesis
    using s split_camel_single [of word] l by (cases ts) (auto simp: word_tokens_def reference_tokens_def Let_def split_camel_pieces)
qed

lemma split_where_span:
  "split_where p s = takeWhile (\<lambda>c. \<not> p c) s #
     (case dropWhile (\<lambda>c. \<not> p c) s of [] \<Rightarrow> [] | c # cs \<Rightarrow> split_where p cs)"
  by (induction s) auto

lemma code_words_sep: "\<not> is_ascii_alphanumeric c \<Longrightarrow> code_words (c # s) = code_words s"
  by (simp add: code_words_def)

lemma code_words_drop: "code_words (dropWhile (\<lambda>c. \<not> is_ascii_alphanumeric c) s) = code_words s"
  by (induction s) (simp_all add: code_words_sep)

lemma code_words_take:
  assumes "takeWhile is_ascii_alphanumeric s \<noteq> []"
  shows "code_words s = takeWhile is_ascii_alphanumeric s # code_words (dropWhile is_ascii_alphanumeric s)"
proof (cases "dropWhile is_ascii_alphanumeric s")
  case Nil
  have "split_where (\<lambda>c. \<not> is_ascii_alphanumeric c) s = [takeWhile is_ascii_alphanumeric s]"
    by (subst split_where_span) (simp add: Nil)
  then show ?thesis using assms unfolding Nil by (simp add: code_words_def)
next
  case (Cons c cs)
  then have c: "\<not> is_ascii_alphanumeric c" using hd_dropWhile [of is_ascii_alphanumeric s] by simp
  have "split_where (\<lambda>c. \<not> is_ascii_alphanumeric c) s =
      takeWhile is_ascii_alphanumeric s # split_where (\<lambda>c. \<not> is_ascii_alphanumeric c) cs"
    by (subst split_where_span) (simp add: Cons)
  then show ?thesis using assms unfolding Cons code_words_sep [OF c] by (simp add: code_words_def)
qed

lemma code_words_runs: "code_words s = alnum_runs s"
proof (induction s rule: alnum_runs.induct)
  case (1 s)
  let ?rest = "dropWhile (\<lambda>c. \<not> is_ascii_alphanumeric c) s"
  show ?case
  proof (cases "?rest = []")
    case True
    have "code_words s = code_words ?rest" by (rule code_words_drop [symmetric])
    then have "code_words s = []" unfolding True by (simp add: code_words_def)
    also have "[] = alnum_runs s" by (subst alnum_runs.simps) (simp only: Let_def True simp_thms if_True)
    finally show ?thesis .
  next
    case False
    then have "is_ascii_alphanumeric (hd ?rest)" using hd_dropWhile [of "\<lambda>c. \<not> is_ascii_alphanumeric c" s] by simp
    then have ne: "takeWhile is_ascii_alphanumeric ?rest \<noteq> []" using False by (cases ?rest) simp_all
    have "code_words ?rest = takeWhile is_ascii_alphanumeric ?rest # code_words (dropWhile is_ascii_alphanumeric ?rest)"
      by (rule code_words_take [OF ne])
    also have "code_words (dropWhile is_ascii_alphanumeric ?rest) = alnum_runs (dropWhile is_ascii_alphanumeric ?rest)"
      by (rule 1 [OF refl False])
    finally have "code_words s = takeWhile is_ascii_alphanumeric ?rest # alnum_runs (dropWhile is_ascii_alphanumeric ?rest)"
      unfolding code_words_drop .
    also have "\<dots> = alnum_runs s" by (subst (2) alnum_runs.simps) (simp only: Let_def False if_False)
    finally show ?thesis .
  qed
qed

text \<open>C9: The tokens of a text are, for each maximal run of alphanumeric characters in turn, the pieces of the run
  cut at its camelCase and digit boundaries, in lower case, followed by the whole run in lower case
  when it was cut. The runs together are the alphanumeric characters of the text, in order; the pieces
  of a run join to the run; every token is nonempty, alphanumeric and in lower case.\<close>
theorem tokenize_code_exact:
  "tokenize_code text = concat (map reference_tokens (alnum_runs text)) \<and>
   concat (alnum_runs text) = filter is_ascii_alphanumeric text \<and>
   list_all (\<lambda>w. split_camel w = map str_lower (camel_pieces w) \<and> concat (split_camel w) = str_lower w) (alnum_runs text) \<and>
   list_all token_ok (tokenize_code text)"
proof (intro conjI)
  have "[] \<notin> set (code_words text)" by (simp add: code_words_def)
  then have "map word_tokens (code_words text) = map reference_tokens (code_words text)"
    by (intro map_cong [OF refl] word_tokens_reference) auto
  then show "tokenize_code text = concat (map reference_tokens (alnum_runs text))"
    unfolding tokenize_code_eq code_words_runs by (rule arg_cong)
  show "list_all token_ok (tokenize_code text)"
    using word_token_ok by (fastforce simp: list_all_iff tokenize_code_eq)
  show "list_all (\<lambda>w. split_camel w = map str_lower (camel_pieces w) \<and> concat (split_camel w) = str_lower w) (alnum_runs text)"
    using split_camel_pieces split_camel_concat by (simp only: list_all_iff) blast
qed (simp only: code_words_runs [symmetric] code_words_concat)

text \<open>An identifier is always found by its whole name in any capitalisation: if a word of the query and
  a word of the document agree up to case, the two texts have a token in common.\<close>
theorem exact_word_always_matches:
  assumes "w \<in> set (code_words document)" and "q \<in> set (code_words query)" and "str_lower w = str_lower q"
  shows "str_lower q \<in> set (tokenize_code document) \<inter> set (tokenize_code query)"
proof -
  have "str_lower v \<in> set (tokenize_code s)" if "v \<in> set (code_words s)" for v s
    using that by (auto simp: tokenize_code_eq word_tokens_set)
  from this [OF assms(1)] this [OF assms(2)] show ?thesis by (simp add: assms(3))
qed

theorem exact_word_always_matches_witness:
  "''parsexml'' \<in> set (tokenize_code ''fn parseXML'') \<inter> set (tokenize_code ''ParseXml'')"
proof -
  have "''parseXML'' \<in> set (code_words ''fn parseXML'')" "''ParseXml'' \<in> set (code_words ''ParseXml'')"
    "str_lower ''parseXML'' = str_lower ''ParseXml''" "str_lower ''ParseXml'' = ''parsexml''" by code_simp+
  from exact_word_always_matches [OF this(1,2,3)] this(4) show ?thesis by simp
qed

end
