(* ===== verification/LexicalIndex.thy ===== *)
theory LexicalIndex
  imports SearchTypes CodeTokens "HOL-Library.Monad_Syntax"
begin

text \<open>
  The lexical index of the memories, \<open>MemorySearchEngine\<close> of \<open>src/search/bm25.rs\<close>. The \<open>bm_25\<close> engine
  is code outside the repository: its operations are the fields of \<open>bm25_api\<close>, a parameter of the
  model, and what the index relies on is \<open>engine_contract\<close>. A document is its id and its text. The lock of the
  index makes each operation atomic.
\<close>

record 'e bm25_api =
  be_empty :: 'e
  be_build :: "(string \<times> string) list \<Rightarrow> 'e"
  be_upsert :: "string \<times> string \<Rightarrow> 'e \<Rightarrow> 'e"
  be_remove :: "string \<Rightarrow> 'e \<Rightarrow> 'e"
  be_search :: "'e \<Rightarrow> string \<Rightarrow> nat \<Rightarrow> (string \<times> real) list"

text \<open>The documented behaviour of the engine, with its contents read by \<open>docs\<close>: a keyed store whose
  search returns the \<open>limit\<close> best documents, best first.\<close>

definition engine_contract :: "'e bm25_api \<Rightarrow> ('e \<Rightarrow> string \<Rightarrow> string option) \<Rightarrow> bool" where
  "engine_contract api docs \<longleftrightarrow>
     docs (be_empty api) = Map.empty \<and>
     (\<forall>ds. distinct (map fst ds) \<longrightarrow> docs (be_build api ds) = map_of ds) \<and>
     (\<forall>e i s. docs (be_upsert api (i, s) e) = (docs e)(i \<mapsto> s)) \<and>
     (\<forall>e i. docs (be_remove api i e) = (docs e)(i := None)) \<and>
     (\<forall>e q n. distinct (map fst (be_search api e q n)) \<and> length (be_search api e q n) \<le> n \<and>
        set (map fst (be_search api e q n)) \<subseteq> dom (docs e) \<and>
        sorted_wrt (\<ge>) (map snd (be_search api e q n))) \<and>
     (\<forall>e q n k. n \<le> k \<longrightarrow> be_search api e q n = take n (be_search api e q k))"

section \<open>The index\<close>

record memory_meta =
  mm_id :: string
  mm_content :: string
  mm_content_hash :: "string option"
  mm_memory_type :: memory_type
  mm_importance_score :: real
  mm_event_time :: datetime
  mm_ingestion_time :: datetime
  mm_valid_from :: datetime
  mm_valid_until :: "datetime option"
  mm_user_id :: "string option"
  mm_agent_id :: "string option"
  mm_run_id :: "string option"
  mm_namespace :: "string option"
  mm_metadata :: "json option"
  mm_superseded_by :: "string option"
  mm_invalidation_reason :: "string option"

record 'e memory_index =
  mi_engine :: 'e
  mi_meta :: "(string, memory_meta) hmap"

definition from_memory :: "memory \<Rightarrow> memory_meta option" where
  "from_memory m =
     (case m_id m of
        None \<Rightarrow> None
      | Some thing \<Rightarrow> Some
          \<lparr>mm_id = rid_key thing, mm_content = m_content m, mm_content_hash = m_content_hash m,
           mm_memory_type = m_memory_type m, mm_importance_score = m_importance_score m,
           mm_event_time = m_event_time m, mm_ingestion_time = m_ingestion_time m,
           mm_valid_from = m_valid_from m, mm_valid_until = m_valid_until m, mm_user_id = m_user_id m,
           mm_agent_id = m_agent_id m, mm_run_id = m_run_id m, mm_namespace = m_namespace m,
           mm_metadata = m_metadata m, mm_superseded_by = m_superseded_by m,
           mm_invalidation_reason = m_invalidation_reason m\<rparr>)"

definition to_search_result :: "memory_meta \<Rightarrow> real \<Rightarrow> search_result" where
  "to_search_result mm score =
     \<lparr>sr_id = mm_id mm, sr_content = mm_content mm, sr_content_hash = mm_content_hash mm,
      sr_memory_type = mm_memory_type mm, sr_score = score, sr_importance_score = mm_importance_score mm,
      sr_event_time = None, sr_ingestion_time = None, sr_access_count = 0, sr_last_accessed_at = None,
      sr_user_id = mm_user_id mm, sr_agent_id = mm_agent_id mm, sr_run_id = mm_run_id mm,
      sr_namespace = mm_namespace mm, sr_metadata = mm_metadata mm, sr_superseded_by = mm_superseded_by mm,
      sr_valid_until = mm_valid_until mm, sr_invalidation_reason = mm_invalidation_reason mm,
      sr_consolidation_trace = None, sr_replacement_lineage = None, sr_attention_summary = None,
      sr_operator_summary = None\<rparr>"

definition empty_index :: "'e bm25_api \<Rightarrow> 'e memory_index" where
  "empty_index api = \<lparr>mi_engine = be_empty api, mi_meta = []\<rparr>"

definition rebuild_from_meta :: "'e bm25_api \<Rightarrow> memory_meta list \<Rightarrow> 'e memory_index" where
  "rebuild_from_meta api metas =
     (let documents = map (\<lambda>mm. (mm_id mm, mm_content mm)) metas;
          meta_map = foldl (\<lambda>m mm. hm_insert (mm_id mm) mm m) [] metas
      in \<lparr>mi_engine = (if documents = [] then be_empty api else be_build api documents),
          mi_meta = meta_map\<rparr>)"

definition remove_memory :: "'e bm25_api \<Rightarrow> string \<Rightarrow> 'e memory_index \<Rightarrow> 'e memory_index" where
  "remove_memory api i idx =
     \<lparr>mi_engine = be_remove api i (mi_engine idx), mi_meta = hm_remove i (mi_meta idx)\<rparr>"

definition upsert_memory :: "'e bm25_api \<Rightarrow> memory \<Rightarrow> 'e memory_index \<Rightarrow> 'e memory_index" where
  "upsert_memory api m idx =
     (case from_memory m of
        None \<Rightarrow> idx
      | Some mm \<Rightarrow>
          if mm_valid_until mm \<noteq> None then remove_memory api (mm_id mm) idx
          else \<lparr>mi_engine = be_upsert api (mm_id mm, mm_content mm) (mi_engine idx),
                mi_meta = hm_insert (mm_id mm) mm (mi_meta idx)\<rparr>)"

fun upsert_memories :: "'e bm25_api \<Rightarrow> memory list \<Rightarrow> 'e memory_index \<Rightarrow> 'e memory_index" where
  "upsert_memories api [] idx = idx"
| "upsert_memories api (m # ms) idx =
     (case from_memory m of
        None \<Rightarrow> upsert_memories api ms idx
      | Some mm \<Rightarrow>
          if mm_valid_until mm \<noteq> None then
            upsert_memories api ms
              \<lparr>mi_engine = be_remove api (mm_id mm) (mi_engine idx), mi_meta = hm_remove (mm_id mm) (mi_meta idx)\<rparr>
          else
            upsert_memories api ms
              \<lparr>mi_engine = be_upsert api (mm_id mm, mm_content mm) (mi_engine idx),
               mi_meta = hm_insert (mm_id mm) mm (mi_meta idx)\<rparr>)"

text \<open>\<open>f32::clamp(0.0, 1.0)\<close>.\<close>

definition clamp01 :: "real \<Rightarrow> real" where
  "clamp01 x = (if x < 0 then 0 else if x > 1 then 1 else x)"

definition memory_index_search ::
  "'e bm25_api \<Rightarrow> 'e memory_index \<Rightarrow> string \<Rightarrow> string set option \<Rightarrow> nat \<Rightarrow> search_result list" where
  "memory_index_search api idx query allowed_ids limit =
     (if mi_meta idx = [] \<or> limit = 0 then []
      else
        (let raw_limit = (case allowed_ids of Some ids \<Rightarrow> max (card ids) limit | None \<Rightarrow> limit);
             raw_results = be_search api (mi_engine idx) query raw_limit;
             kept = filter (\<lambda>r. case allowed_ids of Some ids \<Rightarrow> fst r \<in> ids | None \<Rightarrow> True) raw_results
         in take limit
              (List.map_filter (\<lambda>r. map_option (\<lambda>mm. to_search_result mm (clamp01 (snd r))) (hm_get (mi_meta idx) (fst r))) kept)))"

definition document_count :: "'e memory_index \<Rightarrow> nat" where
  "document_count idx = length (mi_meta idx)"

section \<open>Warm-up from the storage\<close>

definition PAGE_SIZE :: nat where "PAGE_SIZE = 1000"

text \<open>The loop that reads the pages: an infinite loop that only a short, empty or failing page leaves.
  \<open>list_page\<close> is the storage query for one page; \<open>None\<close> is not returning.\<close>

partial_function (option) load_pages ::
  "(nat \<Rightarrow> memory list app_result) \<Rightarrow> nat \<Rightarrow> memory_meta list \<Rightarrow> memory_meta list option" where
  "load_pages list_page offset metas =
     (case list_page offset of
        Inl e \<Rightarrow> Some metas
      | Inr memories \<Rightarrow>
          if memories = [] then Some metas
          else
            (let page_len = length memories;
                 metas1 = metas @ List.map_filter from_memory memories
             in if page_len < PAGE_SIZE then Some metas1
                else load_pages list_page (offset + page_len) metas1))"

definition load_all_from_storage ::
  "'e bm25_api \<Rightarrow> (nat \<Rightarrow> memory list app_result) \<Rightarrow> (nat \<times> 'e memory_index) option" where
  "load_all_from_storage api list_page =
     map_option (\<lambda>metas. (length metas, rebuild_from_meta api metas)) (load_pages list_page 0 [])"

section \<open>The index as a map\<close>

text \<open>The abstraction: the searchable text of each id.\<close>

definition index_contents :: "'e memory_index \<Rightarrow> string \<Rightarrow> string option" where
  "index_contents idx i = map_option mm_content (hm_get (mi_meta idx) i)"

definition index_ok :: "('e \<Rightarrow> string \<Rightarrow> string option) \<Rightarrow> 'e memory_index \<Rightarrow> bool" where
  "index_ok docs idx \<longleftrightarrow> hm_ok (mi_meta idx) \<and> docs (mi_engine idx) = index_contents idx \<and>
     (\<forall>(k, mm)\<in>set (mi_meta idx). mm_id mm = k)"

lemma contract_simps:
  assumes "engine_contract api docs"
  shows "docs (be_empty api) = Map.empty"
    "distinct (map fst ds) \<Longrightarrow> docs (be_build api ds) = map_of ds"
    "docs (be_upsert api (i, s) e) = (docs e)(i \<mapsto> s)"
    "docs (be_remove api i e) = (docs e)(i := None)"
  using assms unfolding engine_contract_def by blast+

lemma contract_search:
  assumes "engine_contract api docs"
  shows "distinct (map fst (be_search api e q n))" "length (be_search api e q n) \<le> n"
    "set (map fst (be_search api e q n)) \<subseteq> dom (docs e)"
    "sorted_wrt (\<ge>) (map snd (be_search api e q n))"
    "n \<le> k \<Longrightarrow> be_search api e q n = take n (be_search api e q k)"
  using assms unfolding engine_contract_def by blast+

lemma index_ok_empty: "engine_contract api docs \<Longrightarrow> index_ok docs (empty_index api)"
  by (auto simp: index_ok_def empty_index_def index_contents_def contract_simps)

lemma index_contents_insert:
  "index_contents \<lparr>mi_engine = e, mi_meta = hm_insert i mm m\<rparr> = (\<lambda>k. map_option mm_content (hm_get m k))(i \<mapsto> mm_content mm)"
  by (auto simp: index_contents_def)

lemma index_contents_remove:
  "index_contents \<lparr>mi_engine = e, mi_meta = hm_remove i m\<rparr> = (\<lambda>k. map_option mm_content (hm_get m k))(i := None)"
  by (auto simp: index_contents_def)

lemma remove_memory_spec:
  assumes "engine_contract api docs" "index_ok docs idx"
  shows "index_ok docs (remove_memory api i idx)"
    "index_contents (remove_memory api i idx) = (index_contents idx)(i := None)"
  using assms
  by (auto simp: index_ok_def remove_memory_def contract_simps index_contents_remove index_contents_def hm_mem_remove)

lemma from_memory_simps:
  "from_memory m = Some mm \<Longrightarrow> mm_content mm = m_content m \<and> mm_valid_until mm = m_valid_until m \<and>
     (\<exists>thing. m_id m = Some thing \<and> mm_id mm = rid_key thing)"
  by (auto simp: from_memory_def split: option.splits)

lemma upsert_memory_spec:
  assumes "engine_contract api docs" "index_ok docs idx"
  shows "index_ok docs (upsert_memory api m idx)"
    "index_contents (upsert_memory api m idx) =
      (case m_id m of None \<Rightarrow> index_contents idx
       | Some thing \<Rightarrow> (index_contents idx)
           (rid_key thing := if m_valid_until m = None then Some (m_content m) else None))"
proof -
  show "index_ok docs (upsert_memory api m idx)"
  proof (cases "from_memory m")
    case (Some mm)
    have ok: "hm_ok (mi_meta idx)" "docs (mi_engine idx) = index_contents idx"
      "\<forall>(k, mm)\<in>set (mi_meta idx). mm_id mm = k" using assms(2) by (simp_all add: index_ok_def)
    show ?thesis
    proof (cases "mm_valid_until mm")
      case None
      have "index_contents (upsert_memory api m idx) = (index_contents idx)(mm_id mm \<mapsto> mm_content mm)"
        using Some None by (auto simp: upsert_memory_def index_contents_def)
      with Some None ok show ?thesis
        by (auto simp: upsert_memory_def index_ok_def contract_simps [OF assms(1)] set_hm_insert)
    qed (use Some assms remove_memory_spec(1) in \<open>simp add: upsert_memory_def\<close>)
  qed (use assms in \<open>simp add: upsert_memory_def\<close>)
  show "index_contents (upsert_memory api m idx) =
      (case m_id m of None \<Rightarrow> index_contents idx
       | Some thing \<Rightarrow> (index_contents idx)
           (rid_key thing := if m_valid_until m = None then Some (m_content m) else None))"
    by (cases "m_id m") (auto simp: upsert_memory_def from_memory_def index_contents_def remove_memory_def)
qed

text \<open>The batch operation is the fold of the single one.\<close>

lemma upsert_memories_fold: "upsert_memories api ms idx = foldl (\<lambda>idx m. upsert_memory api m idx) idx ms"
  by (induction ms arbitrary: idx) (auto simp: upsert_memory_def remove_memory_def split: option.split)

subsection \<open>The warm-up\<close>

lemma load_pages_all:
  "load_pages (\<lambda>offset. Inr (take PAGE_SIZE (drop offset rows))) offset metas =
     Some (metas @ List.map_filter from_memory (drop offset rows))"
proof (induction "length rows - offset" arbitrary: offset metas rule: less_induct)
  case less
  let ?page = "take PAGE_SIZE (drop offset rows)"
  show ?case
  proof (cases "drop offset rows = []")
    case True
    then show ?thesis by (subst load_pages.simps) (simp add: map_filter_simps)
  next
    case False
    then have ne: "?page \<noteq> []" and lt: "offset < length rows" by (simp_all add: PAGE_SIZE_def)
    have split: "drop offset rows = ?page @ drop (offset + length ?page) rows"
      by (metis append_take_drop_id drop_drop length_drop length_take min.commute min_def drop_all add.commute
          le_refl nat_le_linear take_all)
    show ?thesis
    proof (cases "length ?page < PAGE_SIZE")
      case True
      then have "?page = drop offset rows" by simp
      with True ne show ?thesis by (subst load_pages.simps) (simp add: Let_def)
    next
      case False
      have "length rows - (offset + length ?page) < length rows - offset" using ne lt by simp
      note ih = less [OF this, of "metas @ List.map_filter from_memory ?page"]
      have "load_pages (\<lambda>offset. Inr (take PAGE_SIZE (drop offset rows))) offset metas =
          load_pages (\<lambda>offset. Inr (take PAGE_SIZE (drop offset rows))) (offset + length ?page)
            (metas @ List.map_filter from_memory ?page)"
        using False ne by (subst load_pages.simps) (simp add: Let_def)
      also have "\<dots> = Some (metas @ List.map_filter from_memory (?page @ drop (offset + length ?page) rows))"
        unfolding ih by (simp add: map_filter_def)
      finally show ?thesis unfolding split [symmetric] .
    qed
  qed
qed

lemma default_filter: "base_filter_clause now memory_query_default = not_ended now"
  by (rule ext) (simp add: base_filter_clause_def memory_query_default_def scope_clause_def unset_or_def)

text \<open>A table whose rows carry their keys, read in any order, is indexed under its keys.\<close>

lemma table_row_meta:
  assumes "table_ok t" "m \<in> set (select_rows P t)"
  obtains k mm where "(k, m) \<in> set t" "P m" "from_memory m = Some mm" "mm_id mm = k" "mm_content mm = m_content m"
proof -
  from assms(2) obtain k where k: "(k, m) \<in> set t" "P m" by (auto simp: set_select_rows)
  with assms(1) have "m_id m = Some \<lparr>rid_table = ''memories'', rid_key = k\<rparr>" by (auto simp: table_ok_def)
  then obtain mm where mm: "from_memory m = Some mm" "mm_id mm = k" by (simp add: from_memory_def)
  from that [OF k mm] from_memory_simps [OF mm(1)] show thesis by simp
qed

definition row_key :: "memory \<Rightarrow> string" where
  "row_key m = (case m_id m of Some thing \<Rightarrow> rid_key thing | None \<Rightarrow> [])"

lemma select_rows_keys:
  assumes "table_ok t"
  shows "map row_key (select_rows P t) = map fst (filter (\<lambda>(k, m). P m) t)"
proof -
  have "\<forall>(k, m)\<in>set t. row_key m = k" using assms by (auto simp: table_ok_def row_key_def)
  then show ?thesis unfolding select_rows_def by (induction t) auto
qed

lemma from_memory_filter:
  "\<forall>m\<in>set ms. m_id m \<noteq> None \<Longrightarrow> List.map_filter from_memory ms = map (the \<circ> from_memory) ms"
  by (induction ms) (auto simp: map_filter_simps from_memory_def)

lemma foldl_insert_distinct:
  "distinct (map f xs) \<Longrightarrow> hm_ok m \<Longrightarrow> set (map f xs) \<inter> set (hm_keys m) = {} \<Longrightarrow>
   foldl (\<lambda>m x. hm_insert (f x) x m) m xs = m @ map (\<lambda>x. (f x, x)) xs"
proof (induction xs arbitrary: m)
  case (Cons x xs)
  then have "f x \<notin> set (hm_keys m)" by auto
  then have ins: "hm_insert (f x) x m = m @ [(f x, x)]" by (induction m) auto
  with Cons.prems have "hm_ok (m @ [(f x, x)])" by (metis hm_ok_insert)
  with Cons show ?case by (simp add: ins)
qed simp

lemma rebuild_spec:
  assumes "engine_contract api docs" "distinct (map mm_id metas)"
  shows "index_ok docs (rebuild_from_meta api metas)"
    "index_contents (rebuild_from_meta api metas) = map_of (map (\<lambda>mm. (mm_id mm, mm_content mm)) metas)"
    "document_count (rebuild_from_meta api metas) = length metas"
proof -
  let ?m = "map (\<lambda>mm. (mm_id mm, mm)) metas"
  have meta: "mi_meta (rebuild_from_meta api metas) = ?m"
    using foldl_insert_distinct [OF assms(2) hm_ok_Nil] by (simp add: rebuild_from_meta_def Let_def)
  show c: "index_contents (rebuild_from_meta api metas) = map_of (map (\<lambda>mm. (mm_id mm, mm_content mm)) metas)"
  proof (rule ext)
    show "index_contents (rebuild_from_meta api metas) i = map_of (map (\<lambda>mm. (mm_id mm, mm_content mm)) metas) i" for i
      unfolding index_contents_def meta by (induction metas) auto
  qed
  have "docs (mi_engine (rebuild_from_meta api metas)) = map_of (map (\<lambda>mm. (mm_id mm, mm_content mm)) metas)"
    using assms(2) by (auto simp: rebuild_from_meta_def Let_def contract_simps [OF assms(1)] o_def)
  with c meta assms(2) show "index_ok docs (rebuild_from_meta api metas)"
    by (auto simp: index_ok_def hm_ok_def o_def)
  show "document_count (rebuild_from_meta api metas) = length metas" by (simp add: document_count_def meta)
qed

text \<open>The searchable contents of a table at a time: the memories that are not ended.\<close>

definition valid_contents :: "datetime \<Rightarrow> memory_table \<Rightarrow> string \<Rightarrow> string option" where
  "valid_contents now t i =
     (case hm_get t i of Some m \<Rightarrow> if not_ended now m then Some (m_content m) else None | None \<Rightarrow> None)"

text \<open>C10: The warm-up loop returns for every memory table, however large, and loads exactly the memories that
  have not ended: the index is consistent, its count is the number of valid memories, and its
  contents are those of the table.\<close>
theorem warm_up_terminates:
  assumes "engine_contract api docs" and "table_ok t"
  shows "\<exists>idx. load_all_from_storage api
      (\<lambda>offset. Inr (list_memories now memory_query_default PAGE_SIZE offset t)) =
        Some (count_valid_memories now t, idx) \<and>
    index_ok docs idx \<and> document_count idx = count_valid_memories now t \<and>
    index_contents idx = valid_contents now t"
proof -
  let ?rows = "newest_first (select_rows (not_ended now) t)"
  let ?metas = "map (the \<circ> from_memory) ?rows"
  have pages: "list_memories now memory_query_default PAGE_SIZE offset t = take PAGE_SIZE (drop offset ?rows)" for offset
    using retain_none [of memory_query_default] unfolding list_memories_def default_filter
    by (simp add: memory_query_default_def)
  have rows: "set ?rows = set (select_rows (not_ended now) t)" "mset ?rows = mset (select_rows (not_ended now) t)"
    by (simp_all add: newest_first_def)
  have meta: "\<exists>mm. from_memory m = Some mm \<and> mm_id mm = row_key m \<and> mm_content mm = m_content m \<and> m_id m \<noteq> None"
    if "m \<in> set ?rows" for m
    using that table_row_meta [OF assms(2), of m "not_ended now"] unfolding rows(1)
    by (metis (no_types, lifting) from_memory_simps option.distinct(1) option.simps(5) row_key_def)
  then have load: "load_pages (\<lambda>offset. Inr (take PAGE_SIZE (drop offset ?rows))) 0 [] = Some ?metas"
    unfolding load_pages_all using from_memory_filter [of ?rows] by auto
  have ids: "map mm_id ?metas = map row_key ?rows" using meta by fastforce
  have "mset (map row_key ?rows) = mset (map fst (filter (\<lambda>(k, m). not_ended now m) t))"
    using rows(2) select_rows_keys [OF assms(2), of "not_ended now"] by (metis mset_map)
  moreover have "distinct (map fst (filter (\<lambda>(k, m). not_ended now m) t))"
    using assms(2) by (simp add: table_ok_def hm_ok_def distinct_map_filter)
  ultimately have d: "distinct (map mm_id ?metas)" unfolding ids by (metis mset_eq_imp_distinct_iff)
  note rb = rebuild_spec [OF assms(1) d]
  have len: "length ?metas = count_valid_memories now t"
    by (simp add: count_valid_memories_def newest_first_def)
  have pairs: "set (map (\<lambda>mm. (mm_id mm, mm_content mm)) ?metas) = {(k, m_content m) |k m. (k, m) \<in> set t \<and> not_ended now m}"
  proof -
    have "(\<lambda>mm. (mm_id mm, mm_content mm)) (the (from_memory m)) = (row_key m, m_content m)" if "m \<in> set ?rows" for m
      using meta [OF that] by auto
    moreover have "row_key m = k" if "(k, m) \<in> set t" for k m
      using that assms(2) by (auto simp: table_ok_def row_key_def)
    ultimately show ?thesis by (force simp: rows(1) set_select_rows)
  qed
  have "map_of (map (\<lambda>mm. (mm_id mm, mm_content mm)) ?metas) = valid_contents now t"
  proof
    fix i
    have dd: "distinct (map fst (map (\<lambda>mm. (mm_id mm, mm_content mm)) ?metas))" using d by (simp add: o_def)
    have ok: "hm_ok t" using assms(2) by (simp add: table_ok_def)
    have mem: "(i, m) \<in> set t \<longleftrightarrow> hm_get t i = Some m" for m using hm_get_mem [OF ok, of i m] by simp
    have "map_of (map (\<lambda>mm. (mm_id mm, mm_content mm)) ?metas) i = Some c \<longleftrightarrow> valid_contents now t i = Some c" for c
      unfolding map_of_eq_Some_iff [OF dd] pairs
      by (cases "hm_get t i") (auto simp: valid_contents_def mem)
    then show "map_of (map (\<lambda>mm. (mm_id mm, mm_content mm)) ?metas) i = valid_contents now t i"
      by (metis option.exhaust)
  qed
  with rb len load show ?thesis by (simp add: load_all_from_storage_def pages)
qed

section \<open>Searching\<close>

text \<open>A small engine that satisfies the contract: it scores a document by the number of its tokens that
  occur in the query.\<close>

definition token_score :: "string \<Rightarrow> string \<Rightarrow> real" where
  "token_score query s = real (length (filter (\<lambda>w. w \<in> set (tokenize_code query)) (tokenize_code s)))"

definition token_engine :: "(string, string) hmap bm25_api" where
  "token_engine =
     \<lparr>be_empty = [], be_build = (\<lambda>ds. ds), be_upsert = (\<lambda>(i, s) e. hm_insert i s e), be_remove = hm_remove,
      be_search = (\<lambda>e q n. take n (sort_by (\<lambda>a b. snd b \<le> snd a)
        (map (\<lambda>(i, s). (i, token_score q s)) (AList.clearjunk e))))\<rparr>"

lemma token_engine_contract: "engine_contract token_engine map_of"
proof -
  let ?all = "\<lambda>(e :: (string \<times> string) list) q. sort_by (\<lambda>a b. snd b \<le> snd a) (map (\<lambda>(i, s). (i, token_score q s)) (AList.clearjunk e))"
  have "mset (map fst (?all e q)) = mset (map fst (map (\<lambda>(i, s). (i, token_score q s)) (AList.clearjunk e)))"
    for e :: "(string \<times> string) list" and q
    by (simp only: mset_map mset_sort_by)
  moreover have "map fst (map (\<lambda>(i, s). (i, token_score q s)) xs) = map fst xs" for q and xs :: "(string \<times> string) list"
    by (induction xs) auto
  ultimately have m: "mset (map fst (?all e q)) = mset (map fst (AList.clearjunk e))" for e q by (simp only:)
  have d: "distinct (map fst (?all e q))" for e q
    using mset_eq_imp_distinct_iff [OF m [of q e]] distinct_clearjunk [of e] by (simp only: simp_thms)
  have k: "set (map fst (?all e q)) = fst ` set e" for e q
    using mset_eq_setD [OF m [of q e]] clearjunk_keys_set [of e] by (simp only: set_map)
  have s: "sorted_wrt (\<ge>) (map snd (?all e q))" for e q
    using rev_key_comparison.sorted_sort_by [of snd "map (\<lambda>(i, s). (i, token_score q s)) (AList.clearjunk e)"]
    by (simp add: sorted_wrt_map)
  have t: "distinct (map fst (take n (?all e q)))" "sorted_wrt (\<ge>) (map snd (take n (?all e q)))"
    "set (map fst (take n (?all e q))) \<subseteq> dom (map_of e)" for e q n
    using d [of q e] k [of q e] s [of q e] set_take_subset [of n "map fst (?all e q)"]
    by (simp_all add: take_map [symmetric] sorted_wrt_take dom_map_of_conv_image_fst)
  have search: "be_search token_engine e q n = take n (?all e q)" for e q n by (simp add: token_engine_def)
  show ?thesis
    unfolding engine_contract_def search
  proof (intro conjI allI impI)
    show "take n (?all e q) = take n (take k (?all e q))" if "n \<le> k" for e q n k
      using that by (simp add: min_absorb1)
    show "length (take n (?all e q)) \<le> n" for e q n by simp
  qed (simp_all only: t, simp_all add: token_engine_def update_conv' delete_conv')
qed

lemma search_results_meta:
  "index_ok docs idx \<Longrightarrow> engine_contract api docs \<Longrightarrow>
   \<forall>r\<in>set (be_search api (mi_engine idx) q n). \<exists>mm. hm_get (mi_meta idx) (fst r) = Some mm \<and> mm_id mm = fst r"
proof
  fix r
  assume ok: "index_ok docs idx" and c: "engine_contract api docs" and r: "r \<in> set (be_search api (mi_engine idx) q n)"
  from contract_search(3) [OF c, of "mi_engine idx" q n] r have "fst r \<in> dom (docs (mi_engine idx))" by auto
  with ok obtain mm where mm: "hm_get (mi_meta idx) (fst r) = Some mm" by (auto simp: index_ok_def index_contents_def)
  with ok have "(fst r, mm) \<in> set (mi_meta idx)" using hm_get_mem [of "mi_meta idx"] by (simp add: index_ok_def)
  with ok have "mm_id mm = fst r" unfolding index_ok_def by blast
  with mm show "\<exists>mm. hm_get (mi_meta idx) (fst r) = Some mm \<and> mm_id mm = fst r" by blast
qed

text \<open>The result of an engine hit.\<close>

definition hit_result :: "'e memory_index \<Rightarrow> string \<times> real \<Rightarrow> search_result" where
  "hit_result idx r = to_search_result (the (hm_get (mi_meta idx) (fst r))) (clamp01 (snd r))"

lemma memory_index_search_eq:
  assumes "index_ok docs idx" "engine_contract api docs"
  shows "memory_index_search api idx q allowed n =
    take n (map (hit_result idx) (filter (\<lambda>r. case allowed of Some ids \<Rightarrow> fst r \<in> ids | None \<Rightarrow> True)
      (be_search api (mi_engine idx) q (case allowed of Some ids \<Rightarrow> max (card ids) n | None \<Rightarrow> n))))"
proof -
  have hits: "\<forall>r\<in>set rs. \<exists>mm. hm_get (mi_meta idx) (fst r) = Some mm \<Longrightarrow>
      List.map_filter (\<lambda>r. map_option (\<lambda>mm. to_search_result mm (clamp01 (snd r))) (hm_get (mi_meta idx) (fst r)))
        (filter P rs) = map (hit_result idx) (filter P rs)" for P rs
    by (induction rs) (auto simp: map_filter_simps hit_result_def)
  have f: "List.map_filter (\<lambda>r. map_option (\<lambda>mm. to_search_result mm (clamp01 (snd r))) (hm_get (mi_meta idx) (fst r)))
      (filter P (be_search api (mi_engine idx) q k)) = map (hit_result idx) (filter P (be_search api (mi_engine idx) q k))" for P k
    using search_results_meta [OF assms, of q k] by (intro hits) blast
  have "mi_meta idx = [] \<Longrightarrow> be_search api (mi_engine idx) q k = []" for k
    using search_results_meta [OF assms, of q k] by (cases "be_search api (mi_engine idx) q k") auto
  with f show ?thesis by (auto simp: memory_index_search_def Let_def)
qed

text \<open>A lexical search returns at most \<open>limit\<close> memories, each once, each one indexed with the content it
  is returned with and allowed by the id filter, with a score between 0 and 1, best first; without an
  id filter it returns exactly the best documents of the engine.\<close>
theorem lexical_search_sound:
  assumes "engine_contract api docs" and "index_ok docs idx"
  shows "let res = memory_index_search api idx q allowed n in
    distinct (map sr_id res) \<and> length res \<le> n \<and> sorted_wrt (\<ge>) (map sr_score res) \<and>
    list_all (\<lambda>r. 0 \<le> sr_score r \<and> sr_score r \<le> 1 \<and> index_contents idx (sr_id r) = Some (sr_content r) \<and>
      (case allowed of Some ids \<Rightarrow> sr_id r \<in> ids | None \<Rightarrow> True)) res \<and>
    (allowed = None \<longrightarrow> map sr_id res = map fst (be_search api (mi_engine idx) q n))"
proof -
  define P where "P = (\<lambda>r :: string \<times> real. case allowed of Some ids \<Rightarrow> fst r \<in> ids | None \<Rightarrow> True)"
  define raw where "raw = be_search api (mi_engine idx) q (case allowed of Some ids \<Rightarrow> max (card ids) n | None \<Rightarrow> n)"
  define kept where "kept = take n (filter P raw)"
  have res: "memory_index_search api idx q allowed n = map (hit_result idx) kept"
    unfolding memory_index_search_eq [OF assms(2,1)] kept_def P_def raw_def by (simp add: take_map)
  have meta: "\<forall>r\<in>set raw. \<exists>mm. hm_get (mi_meta idx) (fst r) = Some mm \<and> mm_id mm = fst r"
    unfolding raw_def by (rule search_results_meta [OF assms(2,1)])
  have sub: "set kept \<subseteq> set raw" "\<forall>r\<in>set kept. P r" unfolding kept_def by (auto dest: in_set_takeD)
  have ids: "map sr_id (map (hit_result idx) xs) = map fst xs" if "set xs \<subseteq> set raw" for xs
    using that meta by (induction xs) (auto simp: hit_result_def to_search_result_def)
  have "distinct (map fst (filter P raw))" using contract_search(1) [OF assms(1)] by (simp add: raw_def distinct_map_filter)
  then have d: "distinct (map fst kept)" unfolding kept_def by (simp add: take_map [symmetric])
  have "sorted_wrt (\<ge>) (map snd raw)" unfolding raw_def by (rule contract_search(4) [OF assms(1)])
  then have "sorted_wrt (\<lambda>a b. snd b \<le> snd a) kept"
    unfolding kept_def by (simp add: sorted_wrt_map sorted_wrt_take sorted_wrt_filter)
  then have s: "sorted_wrt (\<ge>) (map sr_score (map (hit_result idx) kept))"
    unfolding map_map sorted_wrt_map
    by (rule sorted_wrt_mono_rel [rotated]) (simp add: hit_result_def to_search_result_def clamp01_def)
  have "list_all (\<lambda>r. 0 \<le> sr_score r \<and> sr_score r \<le> 1 \<and> index_contents idx (sr_id r) = Some (sr_content r) \<and>
      (case allowed of Some ids \<Rightarrow> sr_id r \<in> ids | None \<Rightarrow> True)) (map (hit_result idx) kept)"
    unfolding list_all_iff
  proof
    fix x
    assume "x \<in> set (map (hit_result idx) kept)"
    then obtain r where r: "r \<in> set kept" "x = hit_result idx r" by auto
    with meta sub obtain mm where "hm_get (mi_meta idx) (fst r) = Some mm" "mm_id mm = fst r" by blast
    with r sub(2) show "0 \<le> sr_score x \<and> sr_score x \<le> 1 \<and> index_contents idx (sr_id x) = Some (sr_content x) \<and>
      (case allowed of Some ids \<Rightarrow> sr_id x \<in> ids | None \<Rightarrow> True)"
      by (auto simp: hit_result_def to_search_result_def clamp01_def index_contents_def P_def split: option.splits)
  qed
  moreover have "allowed = None \<longrightarrow> map fst kept = map fst (be_search api (mi_engine idx) q n)"
    using contract_search(2) [OF assms(1), of "mi_engine idx" q n] by (simp add: kept_def P_def raw_def)
  moreover have "length kept \<le> n" by (simp add: kept_def)
  ultimately show ?thesis unfolding Let_def res ids [OF sub(1)] using d s by (simp only: length_map simp_thms)
qed

definition noisy_index :: "(string, string) hmap memory_index" where
  "noisy_index = upsert_memories token_engine
     [(memory_new 0 ''deploy deploy'')\<lparr>m_id := Some \<lparr>rid_table = ''memories'', rid_key = ''other''\<rparr>\<rparr>,
      (memory_new 0 ''deploy'')\<lparr>m_id := Some \<lparr>rid_table = ''memories'', rid_key = ''mine''\<rparr>\<rparr>]
     (empty_index token_engine)"

lemma noisy_index_ok: "index_ok map_of noisy_index"
  unfolding noisy_index_def upsert_memories_fold
  by (simp add: upsert_memory_spec(1) [OF token_engine_contract] index_ok_empty [OF token_engine_contract])

theorem lexical_search_sound_witness:
  "map sr_id (memory_index_search token_engine noisy_index ''deploy'' None 1) =
     map fst (be_search token_engine (mi_engine noisy_index) ''deploy'' 1)"
  using lexical_search_sound [OF token_engine_contract noisy_index_ok, where allowed = None and n = 1 and q = "''deploy''"] by (simp add: Let_def)

theorem warm_up_terminates_witness:
  "\<exists>idx. load_all_from_storage token_engine (\<lambda>offset. Inr (list_memories 5 memory_query_default PAGE_SIZE offset
       [(''a'', example_memory ''a'' 1)])) = Some (1, idx) \<and>
     index_contents idx ''a'' = Some ''note''"
proof -
  let ?t = "[(''a'', example_memory ''a'' 1)]"
  have ok: "table_ok ?t" by (simp add: table_ok_def hm_ok_def example_memory_def)
  have v: "count_valid_memories 5 ?t = 1" "valid_contents 5 ?t ''a'' = Some ''note''"
    by (simp_all add: count_valid_memories_def select_rows_def valid_contents_def not_ended_def unset_or_def
      example_memory_def memory_new_def)
  from warm_up_terminates [OF token_engine_contract ok, of 5] obtain idx where
    "load_all_from_storage token_engine (\<lambda>offset. Inr (list_memories 5 memory_query_default PAGE_SIZE offset ?t)) =
       Some (count_valid_memories 5 ?t, idx)" "index_contents idx = valid_contents 5 ?t" by blast
  with v show ?thesis by (intro exI [of _ idx]) simp
qed

text \<open>An id filter is applied after the engine has cut its ranking, so a document the filter
  allows is lost when others score higher: here the only allowed document matches the query, and the
  search returns nothing.\<close>

theorem filtered_search_incomplete:
  "\<exists>idx. index_ok map_of idx \<and> index_contents idx ''mine'' = Some ''deploy'' \<and>
     ''mine'' \<in> set (map sr_id (memory_index_search token_engine idx ''deploy'' None 2)) \<and>
     memory_index_search token_engine idx ''deploy'' (Some {''mine''}) 1 = []"
proof (intro exI conjI)
  have tok: "tokenize_code ''deploy'' = [''deploy'']" "tokenize_code ''deploy deploy'' = [''deploy'', ''deploy'']"
    by code_simp+
  have idx: "mi_engine noisy_index = [(''other'', ''deploy deploy''), (''mine'', ''deploy'')]"
    by (simp add: noisy_index_def from_memory_def memory_new_def empty_index_def token_engine_def)
  have hits: "be_search token_engine (mi_engine noisy_index) ''deploy'' n = take n [(''other'', 2), (''mine'', 1)]" for n
    unfolding idx by (simp add: token_engine_def token_score_def tok)
  show "index_ok map_of noisy_index" by (rule noisy_index_ok)
  show "index_contents noisy_index ''mine'' = Some ''deploy''"
    by (simp add: index_contents_def noisy_index_def from_memory_def memory_new_def empty_index_def)
  show "''mine'' \<in> set (map sr_id (memory_index_search token_engine noisy_index ''deploy'' None 2))"
    using lexical_search_sound [OF token_engine_contract noisy_index_ok, where allowed = None and n = 2 and q = "''deploy''"] by (simp add: hits Let_def)
  show "memory_index_search token_engine noisy_index ''deploy'' (Some {''mine''}) 1 = []"
    by (simp add: memory_index_search_eq [OF noisy_index_ok token_engine_contract] hits)
qed

end
