(* ===== verification/MemoryLifecycle.thy ===== *)
theory MemoryLifecycle
  imports Forgetting
begin

text \<open>
  The life cycle of a memory: \<open>src/server/logic/learning_lifecycle.rs\<close> (learning entries) and
  \<open>src/server/logic/memory_lifecycle.rs\<close> (retention and purging), with the status of
  \<open>src/types/learning.rs\<close>.
\<close>

section \<open>Learning entries\<close>

datatype learning_status = LS_Candidate | LS_Confirmed | LS_Rule | LS_Rejected | LS_Superseded | LS_Archived

fun learning_status_name :: "learning_status \<Rightarrow> string" where
  "learning_status_name LS_Candidate = ''candidate''"
| "learning_status_name LS_Confirmed = ''confirmed''"
| "learning_status_name LS_Rule = ''rule''"
| "learning_status_name LS_Rejected = ''rejected''"
| "learning_status_name LS_Superseded = ''superseded''"
| "learning_status_name LS_Archived = ''archived''"

definition learning_statuses :: "learning_status list" where
  "learning_statuses = [LS_Candidate, LS_Confirmed, LS_Rule, LS_Rejected, LS_Superseded, LS_Archived]"

definition learning_status_of_name :: "string \<Rightarrow> learning_status option" where
  "learning_status_of_name s = find (\<lambda>st. learning_status_name st = s) learning_statuses"

text \<open>What the derived deserialiser of a unit enum accepts: the name, or an object of the name and null.\<close>

fun learning_status_of_json :: "json \<Rightarrow> learning_status option" where
  "learning_status_of_json (JStr s) = learning_status_of_name s"
| "learning_status_of_json (JObj [(s, JNull)]) = learning_status_of_name s"
| "learning_status_of_json _ = None"

definition REASON_REJECTED :: string where "REASON_REJECTED = ''learning_rejected''"
definition REASON_ARCHIVED :: string where "REASON_ARCHIVED = ''learning_archived''"
definition REASON_SUPERSEDED :: string where "REASON_SUPERSEDED = ''superseded''"

datatype learning_lifecycle_state =
    LL_Active | LL_Candidate | LL_Rejected | LL_Superseded | LL_Archived | LL_Invalidated | LL_Unknown

definition extract_learning_status :: "memory \<Rightarrow> learning_status option" where
  "extract_learning_status m =
     (case m_metadata m of
        None \<Rightarrow> None
      | Some meta \<Rightarrow>
          (case json_get meta ''learning'' of
             None \<Rightarrow> None
           | Some l \<Rightarrow> (case json_get l ''status'' of
                          None \<Rightarrow> None
                        | Some v \<Rightarrow> learning_status_of_json v)))"

definition derive_lifecycle_state :: "memory \<Rightarrow> learning_lifecycle_state" where
  "derive_lifecycle_state m =
     (if m_valid_until m \<noteq> None then
        (if m_invalidation_reason m = Some REASON_REJECTED then LL_Rejected
         else if m_invalidation_reason m = Some REASON_ARCHIVED then LL_Archived
         else if m_invalidation_reason m = Some REASON_SUPERSEDED then LL_Superseded
         else if m_superseded_by m \<noteq> None then LL_Superseded else LL_Invalidated)
      else
        (case extract_learning_status m of
           Some LS_Confirmed \<Rightarrow> LL_Active
         | Some LS_Rule \<Rightarrow> LL_Active
         | Some LS_Candidate \<Rightarrow> LL_Candidate
         | None \<Rightarrow> LL_Candidate
         | Some LS_Rejected \<Rightarrow> LL_Unknown
         | Some LS_Archived \<Rightarrow> LL_Unknown
         | Some LS_Superseded \<Rightarrow> LL_Unknown))"

definition apply_status_to_lifecycle ::
  "datetime \<Rightarrow> memory \<Rightarrow> learning_status \<Rightarrow> string option \<Rightarrow> string + memory" where
  "apply_status_to_lifecycle now m status replacement_id =
     (case status of
        LS_Rejected \<Rightarrow> Inr (m\<lparr>m_valid_until := Some now, m_invalidation_reason := Some REASON_REJECTED,
                              m_superseded_by := None\<rparr>)
      | LS_Archived \<Rightarrow> Inr (m\<lparr>m_valid_until := Some now, m_invalidation_reason := Some REASON_ARCHIVED,
                              m_superseded_by := None\<rparr>)
      | LS_Superseded \<Rightarrow>
          (case replacement_id of
             None \<Rightarrow> Inl ''apply_status_to_lifecycle: replacement_id is required for status=superseded''
           | Some i \<Rightarrow> Inr (m\<lparr>m_valid_until := Some now, m_invalidation_reason := Some REASON_SUPERSEDED,
                                m_superseded_by := Some i\<rparr>))
      | _ \<Rightarrow> Inr (m\<lparr>m_valid_until := None, m_invalidation_reason := None, m_superseded_by := None\<rparr>))"

section \<open>Retention\<close>

datatype memory_lifecycle_state =
    ML_Active | ML_Candidate | ML_Rejected | ML_Superseded | ML_Archived | ML_Invalidated | ML_Unknown

record retention_policy =
  rp_capacity_archive_days :: int
  rp_learning_rejected_days :: int
  rp_superseded_days :: int
  rp_learning_archived_days :: int
  rp_unknown_invalidated_days :: int
  rp_high_importance_pin_threshold :: real

definition HIGH_IMPORTANCE_PIN_THRESHOLD :: real where "HIGH_IMPORTANCE_PIN_THRESHOLD = 4"

definition retention_policy_default :: retention_policy where
  "retention_policy_default =
     \<lparr>rp_capacity_archive_days = 30, rp_learning_rejected_days = 30, rp_superseded_days = 90,
      rp_learning_archived_days = 90, rp_unknown_invalidated_days = 90,
      rp_high_importance_pin_threshold = HIGH_IMPORTANCE_PIN_THRESHOLD\<rparr>"

record memory_lifecycle_view =
  lv_lifecycle_state :: memory_lifecycle_state
  lv_default_search_visible :: bool
  lv_purge_eligible :: bool
  lv_retention_reason :: string
  lv_eligible_after :: "datetime option"
  lv_pinned :: bool

definition retention_days :: "memory \<Rightarrow> retention_policy \<Rightarrow> int" where
  "retention_days m policy =
     (case m_invalidation_reason m of
        None \<Rightarrow> rp_unknown_invalidated_days policy
      | Some r \<Rightarrow>
          (if r = CAPACITY_CONTROLLER_INVALIDATION_REASON then rp_capacity_archive_days policy
           else if r = REASON_REJECTED then rp_learning_rejected_days policy
           else if r = REASON_SUPERSEDED then rp_superseded_days policy
           else if r = REASON_ARCHIVED then rp_learning_archived_days policy
           else rp_unknown_invalidated_days policy))"

definition starts_with :: "string \<Rightarrow> string \<Rightarrow> bool" where
  "starts_with s p \<longleftrightarrow> take (length p) s = p"

definition protected_prefix :: "string \<Rightarrow> string option" where
  "protected_prefix content =
     (let trimmed = dropWhile is_whitespace content
      in find (\<lambda>p. starts_with trimmed p) [''DECISION:'', ''PROJECT:'', ''USER:''])"

definition is_pinned :: "memory \<Rightarrow> retention_policy \<Rightarrow> bool" where
  "is_pinned m policy \<longleftrightarrow>
     protected_prefix (m_content m) \<noteq> None \<or> m_importance_score m \<ge> rp_high_importance_pin_threshold policy"

definition trim_end_colon :: "string \<Rightarrow> string" where
  "trim_end_colon s = rev (dropWhile (\<lambda>c. c = CHR '':'') (rev s))"

definition pin_reason :: "memory \<Rightarrow> retention_policy \<Rightarrow> string" where
  "pin_reason m policy =
     (case protected_prefix (m_content m) of
        Some p \<Rightarrow> ''pinned_prefix_'' @ str_lower (trim_end_colon p)
      | None \<Rightarrow>
          if m_importance_score m \<ge> rp_high_importance_pin_threshold policy then ''pinned_high_importance''
          else ''pinned'')"

fun lifecycle_of_learning :: "learning_lifecycle_state \<Rightarrow> memory_lifecycle_state" where
  "lifecycle_of_learning LL_Active = ML_Active"
| "lifecycle_of_learning LL_Candidate = ML_Candidate"
| "lifecycle_of_learning LL_Rejected = ML_Rejected"
| "lifecycle_of_learning LL_Superseded = ML_Superseded"
| "lifecycle_of_learning LL_Archived = ML_Archived"
| "lifecycle_of_learning LL_Invalidated = ML_Invalidated"
| "lifecycle_of_learning LL_Unknown = ML_Unknown"

definition is_learning :: "memory \<Rightarrow> bool" where
  "is_learning m \<longleftrightarrow>
     (case m_metadata m of None \<Rightarrow> False | Some meta \<Rightarrow> json_get meta ''learning'' \<noteq> None)"

definition derive_state :: "memory \<Rightarrow> memory_lifecycle_state" where
  "derive_state m =
     (if is_learning m then lifecycle_of_learning (derive_lifecycle_state m)
      else if m_valid_until m \<noteq> None then
        (if m_invalidation_reason m = Some REASON_SUPERSEDED \<or> m_superseded_by m \<noteq> None then ML_Superseded
         else if m_invalidation_reason m = Some REASON_REJECTED then ML_Rejected
         else if m_invalidation_reason m = Some REASON_ARCHIVED then ML_Archived
         else ML_Invalidated)
      else (case m_memory_type m of Episodic \<Rightarrow> ML_Active | Semantic \<Rightarrow> ML_Active | Procedural \<Rightarrow> ML_Active))"

definition MILLIS_PER_DAY :: int where "MILLIS_PER_DAY = 86400000"

definition int_to_dec :: "int \<Rightarrow> string" where
  "int_to_dec n = (if n < 0 then CHR ''-'' # dec_of_nat (nat (- n)) else dec_of_nat (nat n))"

definition derive_memory_lifecycle :: "memory \<Rightarrow> datetime \<Rightarrow> retention_policy \<Rightarrow> memory_lifecycle_view" where
  "derive_memory_lifecycle m now policy =
     (let lifecycle_state = derive_state m;
          default_search_visible = (lifecycle_state = ML_Active \<and> m_valid_until m = None)
      in if default_search_visible then
           \<lparr>lv_lifecycle_state = lifecycle_state, lv_default_search_visible = default_search_visible,
            lv_purge_eligible = False, lv_retention_reason = ''active_memory_not_purgeable'',
            lv_eligible_after = None, lv_pinned = False\<rparr>
         else if is_pinned m policy then
           \<lparr>lv_lifecycle_state = lifecycle_state, lv_default_search_visible = default_search_visible,
            lv_purge_eligible = False, lv_retention_reason = pin_reason m policy,
            lv_eligible_after = None, lv_pinned = True\<rparr>
         else
           (case m_valid_until m of
              None \<Rightarrow>
                \<lparr>lv_lifecycle_state = lifecycle_state, lv_default_search_visible = default_search_visible,
                 lv_purge_eligible = False, lv_retention_reason = ''missing_valid_until'',
                 lv_eligible_after = None, lv_pinned = False\<rparr>
            | Some invalidated_at \<Rightarrow>
                (let days = retention_days m policy;
                     eligible_after = invalidated_at + days * MILLIS_PER_DAY
                 in \<lparr>lv_lifecycle_state = lifecycle_state, lv_default_search_visible = default_search_visible,
                     lv_purge_eligible = (now \<ge> eligible_after),
                     lv_retention_reason = ''retention_'' @ int_to_dec days @ ''_days'',
                     lv_eligible_after = Some eligible_after, lv_pinned = False\<rparr>)))"

section \<open>Statuses and states\<close>

lemma learning_status_names: "learning_status_of_name (learning_status_name st) = Some st"
  by (cases st) (simp_all add: learning_status_of_name_def learning_statuses_def)

lemmas reason_defs = REASON_REJECTED_def REASON_ARCHIVED_def REASON_SUPERSEDED_def
  CAPACITY_CONTROLLER_INVALIDATION_REASON_def

text \<open>The state that a status stands for.\<close>

fun state_of_status :: "learning_status \<Rightarrow> learning_lifecycle_state" where
  "state_of_status LS_Candidate = LL_Candidate"
| "state_of_status LS_Confirmed = LL_Active"
| "state_of_status LS_Rule = LL_Active"
| "state_of_status LS_Rejected = LL_Rejected"
| "state_of_status LS_Superseded = LL_Superseded"
| "state_of_status LS_Archived = LL_Archived"

lemma extract_status_frame:
  "extract_learning_status (m\<lparr>m_valid_until := u, m_invalidation_reason := r, m_superseded_by := s\<rparr>) =
   extract_learning_status m"
  by (simp add: extract_learning_status_def)

text \<open>Writing a learning status to the life-cycle fields and reading the life-cycle state back agree: the
  state is the one the status stands for, for every memory whose metadata carries that status. The
  write fails only for a superseded entry without a replacement.\<close>
theorem learning_status_roundtrip:
  assumes "extract_learning_status m = Some status"
  shows "(case apply_status_to_lifecycle now m status replacement of
      Inr m' \<Rightarrow> derive_lifecycle_state m' = state_of_status status \<and>
        (m_superseded_by m' = (if status = LS_Superseded then replacement else None))
    | Inl e \<Rightarrow> status = LS_Superseded \<and> replacement = None)"
  using assms
  by (cases status)
    (auto simp: apply_status_to_lifecycle_def derive_lifecycle_state_def reason_defs extract_status_frame
      split: option.split)

definition confirmed_memory :: memory where
  "confirmed_memory = with_metadata (JObj [(''learning'', JObj [(''status'', JStr ''confirmed'')])]) (memory_new 0 ''x'')"

theorem learning_status_roundtrip_witness:
  "(case apply_status_to_lifecycle 5 confirmed_memory LS_Confirmed None of
      Inr m' \<Rightarrow> derive_lifecycle_state m' = LL_Active | Inl e \<Rightarrow> False)"
proof -
  have "extract_learning_status confirmed_memory = Some LS_Confirmed"
    by (simp add: extract_learning_status_def confirmed_memory_def with_metadata_def
      learning_status_of_name_def learning_statuses_def)
  from learning_status_roundtrip [OF this, where now = 5 and replacement = None] show ?thesis
    by (simp split: sum.splits)
qed

section \<open>What may be purged\<close>

lemma lifecycle_purge_iff:
  "lv_purge_eligible (derive_memory_lifecycle m now policy) \<longleftrightarrow>
     \<not> is_pinned m policy \<and>
     (\<exists>u. m_valid_until m = Some u \<and> u + retention_days m policy * MILLIS_PER_DAY \<le> now)"
  by (cases "m_valid_until m") (auto simp: derive_memory_lifecycle_def Let_def)

lemma lifecycle_pinned_iff:
  "lv_pinned (derive_memory_lifecycle m now policy) \<longleftrightarrow>
     is_pinned m policy \<and> \<not> lv_default_search_visible (derive_memory_lifecycle m now policy)"
  by (cases "m_valid_until m") (auto simp: derive_memory_lifecycle_def Let_def)

lemma lifecycle_visible_iff:
  "lv_default_search_visible (derive_memory_lifecycle m now policy) \<longleftrightarrow>
     m_valid_until m = None \<and> (is_learning m \<longrightarrow> extract_learning_status m \<in> {Some LS_Confirmed, Some LS_Rule})"
  by (cases "m_valid_until m")
    (auto simp: derive_memory_lifecycle_def Let_def derive_state_def derive_lifecycle_state_def
      split: option.split learning_status.split memory_type.split)

lemma default_retention: "30 \<le> retention_days m retention_policy_default \<and> retention_days m retention_policy_default \<le> 90"
  by (simp add: retention_days_def retention_policy_default_def split: option.split)

text \<open>A memory may be purged exactly when it was invalidated, its retention period has passed and nothing
  pins it. So a visible or pinned memory is never purgeable, under the default policy nothing is
  purgeable within 30 days of its invalidation, everything unpinned is after 90 days, and a memory
  that has become purgeable stays so. Visible memories are the valid ones that are not learning
  entries, and the confirmed and rule entries.\<close>
theorem purge_eligibility:
  fixes m now later policy
  defines "v \<equiv> derive_memory_lifecycle m now policy"
  defines "d \<equiv> derive_memory_lifecycle m now retention_policy_default"
  shows "lv_purge_eligible v = (\<not> is_pinned m policy \<and>
      (case m_valid_until m of None \<Rightarrow> False | Some u \<Rightarrow> u + retention_days m policy * MILLIS_PER_DAY \<le> now)) \<and>
    \<not> (lv_purge_eligible v \<and> lv_default_search_visible v) \<and> \<not> (lv_purge_eligible v \<and> lv_pinned v) \<and>
    (lv_purge_eligible v \<and> now \<le> later \<longrightarrow> lv_purge_eligible (derive_memory_lifecycle m later policy)) \<and>
    (case m_valid_until m of None \<Rightarrow> True | Some u \<Rightarrow>
      (lv_purge_eligible d \<longrightarrow> u + 30 * MILLIS_PER_DAY \<le> now) \<and>
      (\<not> is_pinned m retention_policy_default \<and> u + 90 * MILLIS_PER_DAY \<le> now \<longrightarrow> lv_purge_eligible d)) \<and>
    lv_default_search_visible v = (m_valid_until m = None \<and>
      (if is_learning m then extract_learning_status m \<in> {Some LS_Confirmed, Some LS_Rule} else True))"
proof (intro conjI)
  show "lv_purge_eligible v = (\<not> is_pinned m policy \<and>
      (case m_valid_until m of None \<Rightarrow> False | Some u \<Rightarrow> u + retention_days m policy * MILLIS_PER_DAY \<le> now))"
    unfolding v_def lifecycle_purge_iff by (auto split: option.split)
  show "\<not> (lv_purge_eligible v \<and> lv_default_search_visible v)" "\<not> (lv_purge_eligible v \<and> lv_pinned v)"
    unfolding v_def by (auto simp: lifecycle_purge_iff lifecycle_pinned_iff lifecycle_visible_iff)
  show "lv_purge_eligible v \<and> now \<le> later \<longrightarrow> lv_purge_eligible (derive_memory_lifecycle m later policy)"
    unfolding v_def lifecycle_purge_iff by (auto intro: order_trans)
  show "case m_valid_until m of None \<Rightarrow> True | Some u \<Rightarrow>
      (lv_purge_eligible d \<longrightarrow> u + 30 * MILLIS_PER_DAY \<le> now) \<and>
      (\<not> is_pinned m retention_policy_default \<and> u + 90 * MILLIS_PER_DAY \<le> now \<longrightarrow> lv_purge_eligible d)"
    using default_retention [of m] unfolding d_def lifecycle_purge_iff
    by (auto simp: MILLIS_PER_DAY_def split: option.split)
  show "lv_default_search_visible v = (m_valid_until m = None \<and>
      (if is_learning m then extract_learning_status m \<in> {Some LS_Confirmed, Some LS_Rule} else True))"
    unfolding v_def lifecycle_visible_iff by auto
qed

definition old_memory :: memory where
  "old_memory = (memory_new 0 ''x'')\<lparr>m_valid_until := Some 0\<rparr>"

theorem purge_eligibility_witness:
  "lv_purge_eligible (derive_memory_lifecycle old_memory (90 * MILLIS_PER_DAY) retention_policy_default)"
proof -
  have "m_valid_until old_memory = Some 0" "\<not> is_pinned old_memory retention_policy_default"
    by (simp_all add: old_memory_def memory_new_def is_pinned_def retention_policy_default_def
      HIGH_IMPORTANCE_PIN_THRESHOLD_def protected_prefix_def starts_with_def is_whitespace_def char_code_def)
  then show ?thesis
    using purge_eligibility [of old_memory "90 * MILLIS_PER_DAY" retention_policy_default 0,
      THEN conjunct2, THEN conjunct2, THEN conjunct2, THEN conjunct2, THEN conjunct1] by simp
qed

end
