(* ===== verification/MemoryService.thy ===== *)
theory MemoryService
  imports LexicalIndex MemoryLifecycle
begin

text \<open>
  The memory tools of the server, \<open>src/server/logic/memory.rs\<close>: they keep the memory table and the
  lexical index together, find and consolidate duplicates, purge invalidated memories against a
  previewed plan, and follow chains of replacements. Embedding, hashing and the fingerprints of plans are
  code or JSON renderings outside the model: fields of \<open>service_env\<close>. A handler takes the time
  \<open>now\<close> its clock reads and the id the database would generate, and where it writes several rows one after
  the other, the errors with which the database answers these writes (\<open>faults\<close>). Its result is the data
  of the JSON answer.
\<close>

datatype service_error = SE_App app_error | SE_Message string | SE_Loading

type_synonym 'a service_result = "service_error + 'a"

record 'e memory_service =
  sv_table :: memory_table
  sv_index :: "'e memory_index"

section \<open>Parameters\<close>

record store_memory_params =
  sp_content :: string
  sp_memory_type :: "string option"
  sp_user_id :: "string option"
  sp_agent_id :: "string option"
  sp_run_id :: "string option"
  sp_namespace :: "string option"
  sp_importance_score :: "real option"
  sp_metadata :: "json option"

record consolidate_memory_params = store_memory_params +
  cp_reason :: "string option"
  cp_expected_plan_fingerprint :: "string option"

record purge_memory_params =
  pp_namespace :: "string option"
  pp_memory_type :: "string option"
  pp_invalidation_reason :: "string option"
  pp_older_than_days :: "int option"
  pp_limit :: "nat option"

record update_memory_params =
  up_id :: string
  up_content :: "string option"
  up_memory_type :: "string option"
  up_user_id :: "string option"
  up_agent_id :: "string option"
  up_run_id :: "string option"
  up_namespace :: "string option"
  up_importance_score :: "real option"
  up_metadata :: "json option"

definition DEFAULT_LIMIT :: nat where "DEFAULT_LIMIT = 20"
definition MAX_LIMIT :: nat where "MAX_LIMIT = 100"

definition normalize_limit :: "nat option \<Rightarrow> nat" where
  "normalize_limit limit = min (case limit of Some l \<Rightarrow> l | None \<Rightarrow> DEFAULT_LIMIT) MAX_LIMIT"

text \<open>\<open>value.map(str::trim).filter(|s| !s.is_empty())\<close>.\<close>

definition trimmed_nonempty :: "string option \<Rightarrow> string option" where
  "trimmed_nonempty v = (case v of None \<Rightarrow> None | Some s \<Rightarrow> if trim s = [] then None else Some (trim s))"

definition invalid_memory_type :: "string \<Rightarrow> string" where
  "invalid_memory_type v = ''Invalid memory_type: '' @ CHR 0x27 # v @ [CHR 0x27]"

definition parse_memory_type :: "string option \<Rightarrow> memory_type service_result" where
  "parse_memory_type value =
     (case trimmed_nonempty value of
        Some v \<Rightarrow> (case memory_type_from_str v of
                     Inr ty \<Rightarrow> Inr ty
                   | Inl e \<Rightarrow> Inl (SE_Message (invalid_memory_type v)))
      | None \<Rightarrow> Inr Semantic)"

definition parse_optional_memory_type :: "string option \<Rightarrow> memory_type option service_result" where
  "parse_optional_memory_type value =
     (case trimmed_nonempty value of
        Some v \<Rightarrow> (case memory_type_from_str v of
                     Inr ty \<Rightarrow> Inr (Some ty)
                   | Inl e \<Rightarrow> Inl (SE_Message (invalid_memory_type v)))
      | None \<Rightarrow> Inr None)"

text \<open>The numbers of the model are finite, so the error branch for non-finite scores does not occur.\<close>

definition normalize_importance_score :: "real option \<Rightarrow> real option" where
  "normalize_importance_score value =
     (case value of
        Some score \<Rightarrow> Some (if score < 1 / 10 then 1 / 10 else if score > 5 then 5 else score)
      | None \<Rightarrow> None)"

definition scope_query ::
  "string option \<Rightarrow> string option \<Rightarrow> string option \<Rightarrow> string option \<Rightarrow> memory_type option \<Rightarrow> memory_query" where
  "scope_query user_id agent_id run_id namespace memory_type =
     memory_query_default\<lparr>mq_user_id := user_id, mq_agent_id := agent_id, mq_run_id := run_id,
       mq_namespace := namespace, mq_memory_type := memory_type\<rparr>"

definition to_memory_query :: "'a consolidate_memory_params_scheme \<Rightarrow> memory_query service_result" where
  "to_memory_query p =
     (case parse_optional_memory_type (sp_memory_type p) of
        Inl e \<Rightarrow> Inl e
      | Inr ty \<Rightarrow> Inr (scope_query (sp_user_id p) (sp_agent_id p) (sp_run_id p) (sp_namespace p) ty))"

section \<open>Fingerprinted plans\<close>

text \<open>The JSON payloads whose hashes are the fingerprints.\<close>

record consolidation_payload =
  co_content_hash :: string
  co_filters :: memory_query
  co_matched_ids :: "string list"
  co_reason :: string
  co_memory_type :: memory_type
  co_user_id :: "string option"
  co_agent_id :: "string option"
  co_run_id :: "string option"
  co_namespace :: "string option"
  co_importance_score :: real
  co_metadata :: "json option"

record purge_payload =
  pu_filter :: memory_gc_filter
  pu_older_than_days :: "int option"
  pu_limit :: nat
  pu_candidate_ids :: "string list"

record service_env =
  se_ready :: "service_error option"
  se_embed :: "string \<Rightarrow> real list app_result"
  se_hash :: "string \<Rightarrow> string"
  se_consolidation_fingerprint :: "consolidation_payload \<Rightarrow> string"
  se_purge_fingerprint :: "purge_payload \<Rightarrow> string"

definition needs_reembed :: "service_env \<Rightarrow> string option \<Rightarrow> string \<Rightarrow> bool" where
  "needs_reembed env old_hash new_content =
     (let new_hash = se_hash env new_content
      in case old_hash of Some old \<Rightarrow> old \<noteq> new_hash | None \<Rightarrow> True)"

section \<open>Writing the table and the index together\<close>

definition create_and_sync_memory ::
  "'e bm25_api \<Rightarrow> string \<Rightarrow> memory \<Rightarrow> 'e memory_service \<Rightarrow> string app_result \<times> 'e memory_service" where
  "create_and_sync_memory api new_id m s =
     (case create_memory new_id m (sv_table s) of
        (Inl e, t) \<Rightarrow> (Inl e, s\<lparr>sv_table := t\<rparr>)
      | (Inr i, t) \<Rightarrow>
          (case get_memory t i of
             Some created \<Rightarrow> (Inr i, s\<lparr>sv_table := t, sv_index := upsert_memory api created (sv_index s)\<rparr>)
           | None \<Rightarrow> (Inr i, s\<lparr>sv_table := t\<rparr>)))"

definition invalidate_and_sync_memory ::
  "'e bm25_api \<Rightarrow> write_faults \<Rightarrow> datetime \<Rightarrow> string \<Rightarrow> string option \<Rightarrow> string option \<Rightarrow> 'e memory_service \<Rightarrow>
   bool app_result \<times> 'e memory_service" where
  "invalidate_and_sync_memory api faults now i reason superseded_by s =
     (case faults i of
        Some e \<Rightarrow> (Inl e, s)
      | None \<Rightarrow>
     (case invalidate now i reason superseded_by (sv_table s) of
        (success, t) \<Rightarrow>
          if success then
            (case get_memory t i of
               Some m \<Rightarrow> (Inr success, s\<lparr>sv_table := t, sv_index := upsert_memory api m (sv_index s)\<rparr>)
             | None \<Rightarrow> (Inr success, s\<lparr>sv_table := t\<rparr>))
          else (Inr success, s\<lparr>sv_table := t\<rparr>)))"

text \<open>The record that \<open>store_memory\<close> and \<open>consolidate_memory\<close> build.\<close>

definition stored_memory ::
  "service_env \<Rightarrow> datetime \<Rightarrow> 'a store_memory_params_scheme \<Rightarrow> memory_type \<Rightarrow> real \<Rightarrow> real list \<Rightarrow> memory" where
  "stored_memory env now p ty importance_score embedding =
     (memory_new now (sp_content p))
       \<lparr>m_embedding := Some embedding, m_memory_type := ty, m_user_id := sp_user_id p,
        m_agent_id := sp_agent_id p, m_run_id := sp_run_id p, m_namespace := sp_namespace p,
        m_metadata := sp_metadata p, m_importance_score := importance_score,
        m_content_hash := Some (se_hash env (sp_content p)), m_embedding_state := ES_Ready\<rparr>"

definition importance_or_one :: "real option \<Rightarrow> real" where
  "importance_or_one v = (case normalize_importance_score v of Some score \<Rightarrow> score | None \<Rightarrow> 1)"

definition lift_app :: "'a app_result \<Rightarrow> 'a service_result" where
  "lift_app r = (case r of Inl e \<Rightarrow> Inl (SE_App e) | Inr x \<Rightarrow> Inr x)"

definition store_memory ::
  "'e bm25_api \<Rightarrow> service_env \<Rightarrow> datetime \<Rightarrow> string \<Rightarrow> store_memory_params \<Rightarrow> 'e memory_service \<Rightarrow>
   string service_result \<times> 'e memory_service" where
  "store_memory api env now new_id p s =
     (case se_ready env of
        Some e \<Rightarrow> (Inl e, s)
      | None \<Rightarrow>
          (case se_embed env (sp_content p) of
             Inl e \<Rightarrow> (Inl (SE_App e), s)
           | Inr embedding \<Rightarrow>
               (case parse_memory_type (sp_memory_type p) of
                  Inl e \<Rightarrow> (Inl e, s)
                | Inr ty \<Rightarrow>
                    (case create_and_sync_memory api new_id
                       (stored_memory env now p ty (importance_or_one (sp_importance_score p)) embedding) s of
                       (r, s') \<Rightarrow> (lift_app r, s')))))"

definition update_memory_tool ::
  "'e bm25_api \<Rightarrow> service_env \<Rightarrow> update_memory_params \<Rightarrow> 'e memory_service \<Rightarrow>
   memory service_result \<times> 'e memory_service" where
  "update_memory_tool api env p s =
     (let embedded =
        (case up_content p of
           None \<Rightarrow> Inr (None, None, None)
         | Some new_content \<Rightarrow>
             (let old_hash = (case get_memory (sv_table s) (up_id p) of Some m \<Rightarrow> m_content_hash m | None \<Rightarrow> None)
              in if needs_reembed env old_hash new_content then
                   (case se_embed env new_content of
                      Inl e \<Rightarrow> Inl (SE_App e)
                    | Inr emb \<Rightarrow> Inr (Some emb, Some (se_hash env new_content), Some ES_Ready))
                 else Inr (None, None, None)))
      in case embedded of
           Inl e \<Rightarrow> (Inl e, s)
         | Inr (embedding, content_hash, embedding_state) \<Rightarrow>
             (let parsed = (case up_memory_type p of
                  None \<Rightarrow> Inr None
                | Some v \<Rightarrow> (case memory_type_from_str v of
                               Inr ty \<Rightarrow> Inr (Some ty)
                             | Inl e \<Rightarrow> Inl (SE_Message (invalid_memory_type v))))
              in case parsed of
                   Inl e \<Rightarrow> (Inl e, s)
                 | Inr ty \<Rightarrow>
                     (case update_memory (up_id p)
                        \<lparr>mu_content = up_content p, mu_memory_type = ty, mu_user_id = up_user_id p,
                         mu_agent_id = up_agent_id p, mu_run_id = up_run_id p, mu_namespace = up_namespace p,
                         mu_importance_score = normalize_importance_score (up_importance_score p),
                         mu_metadata = up_metadata p, mu_embedding = embedding, mu_content_hash = content_hash,
                         mu_embedding_state = embedding_state\<rparr> (sv_table s) of
                        (Inl e, t) \<Rightarrow> (Inl (SE_App e), s\<lparr>sv_table := t\<rparr>)
                      | (Inr m, t) \<Rightarrow> (Inr (m\<lparr>m_embedding := None\<rparr>),
                                      s\<lparr>sv_table := t, sv_index := upsert_memory api m (sv_index s)\<rparr>))))"

definition delete_memory_tool ::
  "'e bm25_api \<Rightarrow> string \<Rightarrow> 'e memory_service \<Rightarrow> bool \<times> 'e memory_service" where
  "delete_memory_tool api i s =
     (case delete_memory i (sv_table s) of
        (deleted, t) \<Rightarrow>
          if deleted then (deleted, s\<lparr>sv_table := t, sv_index := remove_memory api i (sv_index s)\<rparr>)
          else (deleted, s\<lparr>sv_table := t\<rparr>))"

section \<open>Duplicates and consolidation\<close>

record duplicate_match =
  du_id :: string
  du_hash_match :: bool
  du_content_match :: bool
  du_lookup_source :: string

record lookup_diagnostics =
  ld_hash_first_candidate_count :: nat
  ld_hash_first_match_count :: nat
  ld_fallback_scanned :: bool
  ld_fallback_match_count :: nat

definition duplicate_match_summary :: "string \<Rightarrow> string \<Rightarrow> string \<Rightarrow> memory \<Rightarrow> duplicate_match option" where
  "duplicate_match_summary content content_hash lookup_source m =
     (let hash_match = (m_content_hash m = Some content_hash);
          content_match = (m_content m = content)
      in if \<not> hash_match \<and> \<not> content_match then None
         else (case m_id m of
                 None \<Rightarrow> None
               | Some thing \<Rightarrow> Some \<lparr>du_id = rid_key thing, du_hash_match = hash_match,
                                      du_content_match = content_match, du_lookup_source = lookup_source\<rparr>))"

definition exact_duplicate_matches :: "memory list \<Rightarrow> string \<Rightarrow> string \<Rightarrow> string \<Rightarrow> duplicate_match list" where
  "exact_duplicate_matches memories content content_hash lookup_source =
     List.map_filter (duplicate_match_summary content content_hash lookup_source) memories"

fun push_unseen ::
  "string set \<Rightarrow> duplicate_match list \<Rightarrow> nat \<Rightarrow> duplicate_match list \<Rightarrow> duplicate_match list \<times> nat" where
  "push_unseen seen matches found [] = (matches, found)"
| "push_unseen seen matches found (c # cs) =
     (if du_id c \<notin> seen then push_unseen (insert (du_id c) seen) (matches @ [c]) (found + 1) cs
      else push_unseen seen matches found cs)"

definition find_duplicate_matches ::
  "datetime \<Rightarrow> memory_query \<Rightarrow> string \<Rightarrow> string \<Rightarrow> memory_table \<Rightarrow> duplicate_match list \<times> lookup_diagnostics" where
  "find_duplicate_matches now filters content content_hash t =
     (let hash_matches = find_memories_by_content_hash now filters content_hash t;
          hash_candidate_count = length hash_matches;
          matches = exact_duplicate_matches hash_matches content content_hash ''hash_first'';
          hash_match_count = length matches;
          seen_ids = set (map du_id matches);
          total = count_memories_filtered now filters t;
          existing = list_memories now filters (max total 1) 0 t;
          fallback = exact_duplicate_matches existing content content_hash ''exact_content_fallback''
      in if matches = [] then
           (fallback, \<lparr>ld_hash_first_candidate_count = hash_candidate_count,
                       ld_hash_first_match_count = hash_match_count, ld_fallback_scanned = True,
                       ld_fallback_match_count = length fallback\<rparr>)
         else
           (case (if seen_ids \<noteq> {} then push_unseen seen_ids matches 0 fallback else (matches, 0)) of
              (matches', fallback_match_count) \<Rightarrow>
                (matches', \<lparr>ld_hash_first_candidate_count = hash_candidate_count,
                            ld_hash_first_match_count = hash_match_count,
                            ld_fallback_scanned = (fallback_match_count > 0),
                            ld_fallback_match_count = fallback_match_count\<rparr>)))"

text \<open>The common part of the messages for a stale plan.\<close>

definition stale_plan :: "string \<Rightarrow> string \<Rightarrow> string \<Rightarrow> string" where
  "stale_plan expected current_plan tool =
     ''expected_plan_fingerprint does not match current plan (expected='' @ expected @ '', current='' @ current_plan @
     ''). Re-run '' @ tool @ ''.''"

definition resolved_consolidation_reason :: "string option \<Rightarrow> string" where
  "resolved_consolidation_reason reason =
     (case trimmed_nonempty reason of Some r \<Rightarrow> r | None \<Rightarrow> ''exact_duplicate_consolidated'')"

definition consolidation_payload_of ::
  "service_env \<Rightarrow> memory_query \<Rightarrow> string list \<Rightarrow> string \<Rightarrow> memory_type \<Rightarrow> real \<Rightarrow>
   'a consolidate_memory_params_scheme \<Rightarrow> consolidation_payload" where
  "consolidation_payload_of env filters matched_ids reason ty importance_score p =
     \<lparr>co_content_hash = se_hash env (sp_content p), co_filters = filters, co_matched_ids = matched_ids,
      co_reason = reason, co_memory_type = ty, co_user_id = sp_user_id p, co_agent_id = sp_agent_id p,
      co_run_id = sp_run_id p, co_namespace = sp_namespace p, co_importance_score = importance_score,
      co_metadata = sp_metadata p\<rparr>"

record consolidation_preview =
  cv_content_hash :: string
  cv_plan_fingerprint :: string
  cv_matched_ids :: "string list"
  cv_matched_summary :: "duplicate_match list"
  cv_filters :: memory_query
  cv_reason :: string
  cv_lookup :: lookup_diagnostics

definition preview_consolidate_memory ::
  "service_env \<Rightarrow> datetime \<Rightarrow> 'a consolidate_memory_params_scheme \<Rightarrow> 'e memory_service \<Rightarrow>
   consolidation_preview service_result" where
  "preview_consolidate_memory env now p s =
     (case to_memory_query p of
        Inl e \<Rightarrow> Inl e
      | Inr filters \<Rightarrow>
          (case parse_memory_type (sp_memory_type p) of
             Inl e \<Rightarrow> Inl e
           | Inr ty \<Rightarrow>
               (let content_hash = se_hash env (sp_content p)
                in case find_duplicate_matches now filters (sp_content p) content_hash (sv_table s) of
                     (matched_summary, lookup) \<Rightarrow>
                       (let matched_ids = map du_id matched_summary;
                            reason = resolved_consolidation_reason (cp_reason p)
                        in Inr \<lparr>cv_content_hash = content_hash,
                             cv_plan_fingerprint = se_consolidation_fingerprint env
                               (consolidation_payload_of env filters matched_ids reason ty
                                 (importance_or_one (sp_importance_score p)) p),
                             cv_matched_ids = matched_ids, cv_matched_summary = matched_summary,
                             cv_filters = filters, cv_reason = reason, cv_lookup = lookup\<rparr>))))"

fun supersede_loop ::
  "'e bm25_api \<Rightarrow> write_faults \<Rightarrow> datetime \<Rightarrow> string \<Rightarrow> string \<Rightarrow> string list \<Rightarrow> string list \<Rightarrow> string list \<Rightarrow>
   'e memory_service \<Rightarrow> (string list \<times> string list) app_result \<times> 'e memory_service" where
  "supersede_loop api faults now reason replacement_id [] superseded skipped s = (Inr (superseded, skipped), s)"
| "supersede_loop api faults now reason replacement_id (i # is) superseded skipped s =
     (if i = replacement_id then supersede_loop api faults now reason replacement_id is superseded (skipped @ [i]) s
      else
        (case invalidate_and_sync_memory api faults now i (Some reason) (Some replacement_id) s of
           (Inl e, s') \<Rightarrow> (Inl e, s')
         | (Inr True, s') \<Rightarrow> supersede_loop api faults now reason replacement_id is (superseded @ [i]) skipped s'
         | (Inr False, s') \<Rightarrow> supersede_loop api faults now reason replacement_id is superseded skipped s'))"

record consolidation_report =
  cr_id :: string
  cr_plan_fingerprint :: string
  cr_superseded_ids :: "string list"
  cr_skipped_ids :: "string list"
  cr_matched_summary :: "duplicate_match list"
  cr_fingerprint_checked :: bool

definition consolidate_memory ::
  "'e bm25_api \<Rightarrow> service_env \<Rightarrow> write_faults \<Rightarrow> datetime \<Rightarrow> string \<Rightarrow> consolidate_memory_params \<Rightarrow> 'e memory_service \<Rightarrow>
   consolidation_report service_result \<times> 'e memory_service" where
  "consolidate_memory api env faults now new_id p s =
     (case se_ready env of
        Some e \<Rightarrow> (Inl e, s)
      | None \<Rightarrow>
     (case parse_memory_type (sp_memory_type p) of
        Inl e \<Rightarrow> (Inl e, s)
      | Inr ty \<Rightarrow>
     (case to_memory_query p of
        Inl e \<Rightarrow> (Inl e, s)
      | Inr filters \<Rightarrow>
     (let importance_score = importance_or_one (sp_importance_score p);
          content_hash = se_hash env (sp_content p)
      in case find_duplicate_matches now filters (sp_content p) content_hash (sv_table s) of
        (duplicate_matches, lookup) \<Rightarrow>
     (let duplicate_ids = map du_id duplicate_matches;
          reason = resolved_consolidation_reason (cp_reason p);
          plan_fingerprint = se_consolidation_fingerprint env
            (consolidation_payload_of env filters duplicate_ids reason ty importance_score p);
          expected = trimmed_nonempty (cp_expected_plan_fingerprint p)
      in if expected \<noteq> None \<and> expected \<noteq> Some plan_fingerprint
         then (Inl (SE_Message (''Consolidation preview is stale. '' @
                stale_plan (the expected) plan_fingerprint
                  ''preview_consolidate_memory and inspect plan_diagnostics'')), s)
         else
     (case se_embed env (sp_content p) of
        Inl e \<Rightarrow> (Inl (SE_App e), s)
      | Inr embedding \<Rightarrow>
     (case create_and_sync_memory api new_id (stored_memory env now p ty importance_score embedding) s of
        (Inl e, s1) \<Rightarrow> (Inl (SE_App e), s1)
      | (Inr replacement_id, s1) \<Rightarrow>
     (case supersede_loop api faults now reason replacement_id duplicate_ids [] [] s1 of
        (Inl e, s2) \<Rightarrow> (Inl (SE_App e), s2)
      | (Inr (superseded_ids, skipped_ids), s2) \<Rightarrow>
          (Inr \<lparr>cr_id = replacement_id, cr_plan_fingerprint = plan_fingerprint,
                cr_superseded_ids = superseded_ids, cr_skipped_ids = skipped_ids,
                cr_matched_summary = duplicate_matches, cr_fingerprint_checked = (expected \<noteq> None)\<rparr>, s2)))))))))"

section \<open>Purging\<close>

record purge_plan =
  pl_filter :: memory_gc_filter
  pl_limit :: nat
  pl_older_than_days :: "int option"
  pl_total_invalidated_matches :: nat
  pl_has_more :: bool
  pl_reason_distribution :: "memory_gc_reason_count list"
  pl_candidates :: "(string \<times> memory \<times> memory_lifecycle_view) list"
  pl_plan_fingerprint :: string
  pl_pinned_count :: nat
  pl_not_yet_eligible_count :: nat

definition memory_key :: "memory \<Rightarrow> string option" where
  "memory_key m = map_option rid_key (m_id m)"

fun purge_scan ::
  "datetime \<Rightarrow> retention_policy \<Rightarrow> nat \<Rightarrow> memory list \<Rightarrow> (string \<times> memory \<times> memory_lifecycle_view) list \<Rightarrow> nat \<Rightarrow> nat \<Rightarrow>
   (string \<times> memory \<times> memory_lifecycle_view) list \<times> nat \<times> nat" where
  "purge_scan now policy limit [] candidates pinned not_yet = (candidates, pinned, not_yet)"
| "purge_scan now policy limit (m # ms) candidates pinned not_yet =
     (let lifecycle = derive_memory_lifecycle m now policy;
          pinned1 = (if lv_pinned lifecycle then pinned + 1 else pinned);
          not_yet1 = (if \<not> lv_pinned lifecycle \<and> \<not> lv_purge_eligible lifecycle then not_yet + 1 else not_yet);
          candidates1 = (if lv_purge_eligible lifecycle then
                           (case memory_key m of Some i \<Rightarrow> candidates @ [(i, m, lifecycle)] | None \<Rightarrow> candidates)
                         else candidates)
      in if length candidates1 \<ge> limit then (candidates1, pinned1, not_yet1)
         else purge_scan now policy limit ms candidates1 pinned1 not_yet1)"

definition purge_filter_of :: "datetime \<Rightarrow> purge_memory_params \<Rightarrow> memory_type option \<Rightarrow> memory_gc_filter" where
  "purge_filter_of now p memory_type =
     \<lparr>gf_namespace = pp_namespace p, gf_memory_type = memory_type,
      gf_invalidation_reason = pp_invalidation_reason p,
      gf_invalidated_before =
        map_option (\<lambda>days. now - (if days < 0 then 0 else days) * MILLIS_PER_DAY) (pp_older_than_days p)\<rparr>"

definition build_purge_plan ::
  "service_env \<Rightarrow> datetime \<Rightarrow> purge_memory_params \<Rightarrow> memory_type option \<Rightarrow> nat \<Rightarrow> memory_table \<Rightarrow> purge_plan" where
  "build_purge_plan env now p memory_type limit t =
     (let f = purge_filter_of now p memory_type;
          fetch_limit = max (max (limit * 5) limit) 1;
          memories = list_invalidated_memories_for_gc f fetch_limit 0 t;
          total_invalidated_matches = count_invalidated_memories_for_gc f t
      in case purge_scan now retention_policy_default limit memories [] 0 0 of
           (candidates, pinned_count, not_yet_eligible_count) \<Rightarrow>
             (let candidate_ids = map fst candidates
              in \<lparr>pl_filter = f, pl_limit = limit, pl_older_than_days = pp_older_than_days p,
                  pl_total_invalidated_matches = total_invalidated_matches,
                  pl_has_more = (total_invalidated_matches > length candidate_ids),
                  pl_reason_distribution = count_invalidated_memories_by_reason f t,
                  pl_candidates = candidates,
                  pl_plan_fingerprint = se_purge_fingerprint env
                    \<lparr>pu_filter = f, pu_older_than_days = pp_older_than_days p, pu_limit = limit,
                     pu_candidate_ids = candidate_ids\<rparr>,
                  pl_pinned_count = pinned_count, pl_not_yet_eligible_count = not_yet_eligible_count\<rparr>))"

definition preview_purge_memory ::
  "service_env \<Rightarrow> datetime \<Rightarrow> purge_memory_params \<Rightarrow> 'e memory_service \<Rightarrow> purge_plan service_result" where
  "preview_purge_memory env now p s =
     (let limit = normalize_limit (pp_limit p)
      in case parse_optional_memory_type (pp_memory_type p) of
           Inl e \<Rightarrow> Inl e
         | Inr ty \<Rightarrow> Inr (build_purge_plan env now p ty limit (sv_table s)))"

record purge_report =
  pr_deleted_ids :: "string list"
  pr_failed_ids :: "string list"
  pr_plan :: purge_plan

definition purge_memory ::
  "'e bm25_api \<Rightarrow> service_env \<Rightarrow> write_faults \<Rightarrow> datetime \<Rightarrow> purge_memory_params \<Rightarrow> string \<Rightarrow> 'e memory_service \<Rightarrow>
   purge_report service_result \<times> 'e memory_service" where
  "purge_memory api env faults now p expected_plan_fingerprint s =
     (let expected = trim expected_plan_fingerprint
      in if expected = [] then
           (Inl (SE_Message ''expected_plan_fingerprint is required; run preview_purge_memory first''), s)
         else
           (case preview_purge_memory env now p s of
              Inl e \<Rightarrow> (Inl e, s)
            | Inr plan \<Rightarrow>
                if expected \<noteq> pl_plan_fingerprint plan then (Inl (SE_Message (''Purge preview is stale. '' @
                    stale_plan expected (pl_plan_fingerprint plan) ''preview_purge_memory'')), s)
                else
                  (let ids = map fst (pl_candidates plan)
                   in case delete_memories_batch faults ids (sv_table s) of
                        (Inl e, t) \<Rightarrow> (Inl (SE_App e), s\<lparr>sv_table := t\<rparr>)
                      | (Inr deleted_ids, t) \<Rightarrow>
                          (Inr \<lparr>pr_deleted_ids = deleted_ids,
                                pr_failed_ids = filter (\<lambda>i. i \<notin> set deleted_ids) ids, pr_plan = plan\<rparr>,
                           s\<lparr>sv_table := t,
                             sv_index := foldl (\<lambda>idx i. remove_memory api i idx) (sv_index s) deleted_ids\<rparr>))))"

section \<open>Chains of replacements\<close>

record lineage =
  li_chain_ids :: "string list"
  li_cycle_detected :: bool
  li_truncated :: bool

definition MAX_LINEAGE_DEPTH :: nat where "MAX_LINEAGE_DEPTH = 16"

function lineage_loop :: "memory_table \<Rightarrow> string option \<Rightarrow> string set \<Rightarrow> string list \<Rightarrow> lineage" where
  "lineage_loop t current_id seen chain_ids =
     (case current_id of
        None \<Rightarrow> \<lparr>li_chain_ids = chain_ids, li_cycle_detected = False, li_truncated = False\<rparr>
      | Some i \<Rightarrow>
          if i \<in> seen then \<lparr>li_chain_ids = chain_ids, li_cycle_detected = True, li_truncated = False\<rparr>
          else if length (chain_ids @ [i]) \<ge> MAX_LINEAGE_DEPTH then
            \<lparr>li_chain_ids = chain_ids @ [i], li_cycle_detected = False, li_truncated = True\<rparr>
          else
            lineage_loop t (case get_memory t i of Some m \<Rightarrow> m_superseded_by m | None \<Rightarrow> None)
              (insert i seen) (chain_ids @ [i]))"
  by pat_completeness auto
termination
  by (relation "measure (\<lambda>(t, current_id, seen, chain_ids). MAX_LINEAGE_DEPTH - length chain_ids)") auto

declare lineage_loop.simps [simp del]

definition replacement_lineage :: "memory_table \<Rightarrow> memory \<Rightarrow> lineage" where
  "replacement_lineage t m =
     (case m_superseded_by m of
        None \<Rightarrow> \<lparr>li_chain_ids = [], li_cycle_detected = False, li_truncated = False\<rparr>
      | Some first_replacement \<Rightarrow> lineage_loop t (Some first_replacement) {} [])"

record attention =
  at_multiple_matches :: bool
  at_partial_supersede :: bool
  at_lineage_cycle_detected :: bool
  at_lineage_truncated :: bool
  at_lineage_depth :: nat
  at_fingerprint_checked :: bool

definition attention_summary :: "nat \<Rightarrow> nat option \<Rightarrow> lineage option \<Rightarrow> bool \<Rightarrow> attention" where
  "attention_summary matched_count superseded_count l fingerprint_checked =
     \<lparr>at_multiple_matches = (matched_count > 1),
      at_partial_supersede = (case superseded_count of Some superseded \<Rightarrow> superseded < matched_count | None \<Rightarrow> False),
      at_lineage_cycle_detected = (case l of Some x \<Rightarrow> li_cycle_detected x | None \<Rightarrow> False),
      at_lineage_truncated = (case l of Some x \<Rightarrow> li_truncated x | None \<Rightarrow> False),
      at_lineage_depth = (case l of Some x \<Rightarrow> length (li_chain_ids x) | None \<Rightarrow> 0),
      at_fingerprint_checked = fingerprint_checked\<rparr>"

definition requires_operator_attention :: "attention \<Rightarrow> bool" where
  "requires_operator_attention a \<longleftrightarrow>
     at_multiple_matches a \<or> at_partial_supersede a \<or> at_lineage_cycle_detected a \<or> at_lineage_truncated a"

record consolidation_trace =
  ct_status :: string
  ct_invalidated :: bool
  ct_has_replacement :: bool
  ct_lifecycle :: memory_lifecycle_view

definition replacement_kind :: "bool \<Rightarrow> string option \<Rightarrow> string" where
  "replacement_kind invalidated superseded_by =
     (case (invalidated, superseded_by) of
        (True, Some _) \<Rightarrow> ''superseded''
      | (True, None) \<Rightarrow> ''invalidated''
      | (False, Some _) \<Rightarrow> ''replacement_linked''
      | (False, None) \<Rightarrow> ''active'')"

definition consolidation_trace_of :: "datetime \<Rightarrow> memory \<Rightarrow> consolidation_trace" where
  "consolidation_trace_of now m =
     (let invalidated = (m_valid_until m \<noteq> None \<or> m_invalidation_reason m \<noteq> None)
      in \<lparr>ct_status = replacement_kind invalidated (m_superseded_by m), ct_invalidated = invalidated,
          ct_has_replacement = (m_superseded_by m \<noteq> None),
          ct_lifecycle = derive_memory_lifecycle m now retention_policy_default\<rparr>)"

record traced_memory =
  tm_memory :: memory
  tm_trace :: consolidation_trace
  tm_lineage :: lineage
  tm_attention :: attention

definition memory_with_trace :: "datetime \<Rightarrow> memory_table \<Rightarrow> memory \<Rightarrow> traced_memory" where
  "memory_with_trace now t m =
     (let l = replacement_lineage t m
      in \<lparr>tm_memory = m, tm_trace = consolidation_trace_of now m, tm_lineage = l,
          tm_attention = attention_summary 0 None (Some l) False\<rparr>)"

definition get_memory_tool :: "datetime \<Rightarrow> string \<Rightarrow> 'e memory_service \<Rightarrow> traced_memory service_result" where
  "get_memory_tool now i s =
     (case get_memory (sv_table s) i of
        Some m \<Rightarrow> Inr (memory_with_trace now (sv_table s) (m\<lparr>m_embedding := None\<rparr>))
      | None \<Rightarrow> Inl (SE_Message (''Memory not found: '' @ i)))"

section \<open>The index follows the table\<close>

text \<open>The searchable contents of the table: the memories without an end.\<close>

definition open_contents :: "memory_table \<Rightarrow> string \<Rightarrow> string option" where
  "open_contents t i =
     (case hm_get t i of Some m \<Rightarrow> if m_valid_until m = None then Some (m_content m) else None | None \<Rightarrow> None)"

definition synced :: "('e \<Rightarrow> string \<Rightarrow> string option) \<Rightarrow> 'e memory_service \<Rightarrow> bool" where
  "synced docs s \<longleftrightarrow> table_ok (sv_table s) \<and> index_ok docs (sv_index s) \<and>
     index_contents (sv_index s) = open_contents (sv_table s)"

abbreviation memory_thing :: "string \<Rightarrow> record_id" where
  "memory_thing i \<equiv> \<lparr>rid_table = ''memories'', rid_key = i\<rparr>"

lemma open_contents_insert:
  "open_contents (hm_insert i m t) = (open_contents t)(i := if m_valid_until m = None then Some (m_content m) else None)"
  by (auto simp: open_contents_def)

lemma open_contents_remove: "open_contents (hm_remove i t) = (open_contents t)(i := None)"
  by (auto simp: open_contents_def)

lemma synced_upsert:
  assumes "engine_contract api docs" "synced docs s" "m_id m = Some (memory_thing i)"
  shows "synced docs (s\<lparr>sv_table := hm_insert i m (sv_table s), sv_index := upsert_memory api m (sv_index s)\<rparr>)"
  using assms upsert_memory_spec [OF assms(1), of "sv_index s" m]
  by (simp add: synced_def table_ok_insert open_contents_insert)

lemma synced_remove:
  assumes "engine_contract api docs" "synced docs s"
  shows "synced docs (s\<lparr>sv_table := hm_remove i (sv_table s), sv_index := remove_memory api i (sv_index s)\<rparr>)"
  using assms remove_memory_spec [OF assms(1), of "sv_index s" i]
  by (simp add: synced_def table_ok_remove open_contents_remove)

lemma service_eta [simp]: "s\<lparr>sv_table := sv_table s\<rparr> = s"
  by (cases s) simp

lemma create_and_sync_spec:
  "create_and_sync_memory api new_id m s =
     (if hm_get (sv_table s) new_id \<noteq> None then (Inl (Database ''record already exists''), s)
      else (let m' = m\<lparr>m_id := Some (memory_thing new_id)\<rparr>
            in (Inr new_id, s\<lparr>sv_table := hm_insert new_id m' (sv_table s),
                              sv_index := upsert_memory api m' (sv_index s)\<rparr>)))"
  by (simp add: create_and_sync_memory_def create_memory_def get_memory_def Let_def)

lemma synced_create:
  assumes "engine_contract api docs" "synced docs s"
  shows "synced docs (snd (create_and_sync_memory api new_id m s))"
  using synced_upsert [OF assms, of "m\<lparr>m_id := Some (memory_thing new_id)\<rparr>" new_id] assms(2)
  by (auto simp: create_and_sync_spec Let_def)

definition ended :: "datetime \<Rightarrow> string option \<Rightarrow> string option \<Rightarrow> memory \<Rightarrow> memory" where
  "ended now reason superseded_by m =
     m\<lparr>m_valid_until := Some now, m_invalidation_reason := reason, m_superseded_by := superseded_by\<rparr>"

lemma ended_simps [simp]:
  "m_id (ended now reason sup_id m) = m_id m"
  "m_content (ended now reason sup_id m) = m_content m"
  "m_valid_until (ended now reason sup_id m) = Some now"
  "m_superseded_by (ended now reason sup_id m) = sup_id"
  "m_invalidation_reason (ended now reason sup_id m) = reason"
  by (simp_all add: ended_def)

lemma invalidate_and_sync_spec:
  assumes "table_ok (sv_table s)"
  shows "invalidate_and_sync_memory api faults now i reason sup_id s =
    (case faults i of Some e \<Rightarrow> (Inl e, s) | None \<Rightarrow>
    (case hm_get (sv_table s) i of
       None \<Rightarrow> (Inr False, s)
     | Some m \<Rightarrow> (Inr True, s\<lparr>sv_table := hm_insert i (ended now reason sup_id m) (sv_table s),
                          sv_index := upsert_memory api (ended now reason sup_id m) (sv_index s)\<rparr>)))"
proof (cases "hm_get (sv_table s) i")
  case (Some m)
  have "table_ok (hm_insert i (ended now reason sup_id m) (sv_table s))"
    by (intro table_ok_insert assms) (simp add: table_ok_row [OF assms Some])
  with Some show ?thesis
    by (simp add: invalidate_and_sync_memory_def invalidate_def update_row_def get_memory_row flip: ended_def
        split: option.split)
qed (simp add: invalidate_and_sync_memory_def invalidate_def update_row_def split: option.split)

lemma synced_invalidate:
  assumes "engine_contract api docs" "synced docs s"
  shows "synced docs (snd (invalidate_and_sync_memory api faults now i reason sup_id s))"
proof -
  have ok: "table_ok (sv_table s)" using assms(2) by (simp add: synced_def)
  show ?thesis
  proof (cases "hm_get (sv_table s) i")
    case (Some m)
    have "m_id (ended now reason sup_id m) = Some (memory_thing i)" by (simp add: table_ok_row [OF ok Some])
    from synced_upsert [OF assms this] Some assms(2) show ?thesis
      by (simp add: invalidate_and_sync_spec [OF ok] split: option.split)
  qed (use assms(2) in \<open>simp add: invalidate_and_sync_spec [OF ok] split: option.split\<close>)
qed

lemma synced_delete:
  assumes "engine_contract api docs" "synced docs s"
  shows "synced docs (snd (delete_memory_tool api i s))"
proof (cases "hm_get (sv_table s) i")
  case None
  then have "hm_remove i (sv_table s) = sv_table s" by (simp add: delete_id hm_get_None)
  with None assms(2) show ?thesis by (simp add: delete_memory_tool_def delete_memory_def)
next
  case Some
  with synced_remove [OF assms, of i] show ?thesis by (simp add: delete_memory_tool_def delete_memory_def)
qed

lemma synced_update:
  assumes "engine_contract api docs" "synced docs s"
  shows "synced docs (snd (update_memory_tool api env p s))"
proof -
  have ok: "table_ok (sv_table s)" using assms(2) by (simp add: synced_def)
  have upd: "synced docs (snd (case update_memory i u (sv_table s) of
      (Inl e, t) \<Rightarrow> (Inl (SE_App e), s\<lparr>sv_table := t\<rparr>)
    | (Inr m, t) \<Rightarrow> (Inr (m\<lparr>m_embedding := None\<rparr>), s\<lparr>sv_table := t, sv_index := upsert_memory api m (sv_index s)\<rparr>)))" for i u
  proof (cases "hm_get (sv_table s) i")
    case (Some m)
    have "m_id (apply_update u m) = Some (memory_thing i)" by (simp add: table_ok_row [OF ok Some])
    from synced_upsert [OF assms this] show ?thesis by (simp add: update_memory_def get_memory_row [OF ok] Some Let_def)
  qed (use assms(2) in \<open>simp add: update_memory_def get_memory_row [OF ok]\<close>)
  show ?thesis using upd assms(2)
    by (auto simp: update_memory_tool_def Let_def split: sum.split option.split prod.split)
qed

lemma synced_delete_batch:
  assumes "engine_contract api docs"
  shows "synced docs s \<Longrightarrow> delete_memories_batch no_faults is (sv_table s) = (r, t) \<Longrightarrow>
    \<exists>deleted. r = Inr deleted \<and>
      synced docs (s\<lparr>sv_table := t, sv_index := foldl (\<lambda>idx i. remove_memory api i idx) (sv_index s) deleted\<rparr>)"
proof (induction "is" arbitrary: s r)
  case Nil
  then have "r = Inr []" "t = sv_table s" by simp_all
  with Nil(1) show ?case by (cases s) auto
next
  case (Cons i "is")
  obtain r' t' where r: "delete_memories_batch no_faults is (hm_remove i (sv_table s)) = (r', t')" by fastforce
  show ?case
  proof (cases "hm_get (sv_table s) i")
    case None
    then have "hm_remove i (sv_table s) = sv_table s" by (simp add: delete_id hm_get_None)
    with Cons.IH [OF Cons.prems(1), of r'] Cons.prems None r show ?thesis by (cases r') (auto simp: delete_memory_def)
  next
    case Some
    let ?s = "s\<lparr>sv_table := hm_remove i (sv_table s), sv_index := remove_memory api i (sv_index s)\<rparr>"
    have "t' = t" using Cons.prems(2) r by (cases r') (simp_all add: delete_memory_def)
    with Cons.IH [OF synced_remove [OF assms Cons.prems(1), of i], of r'] r obtain rest where rest: "r' = Inr rest"
      "synced docs (?s\<lparr>sv_table := t, sv_index := foldl (\<lambda>idx i. remove_memory api i idx) (sv_index ?s) rest\<rparr>)"
      by auto
    with Cons.prems(2) r Some show ?thesis by (auto simp: delete_memory_def)
  qed
qed

datatype service_event =
    EvStore datetime string store_memory_params
  | EvUpdate update_memory_params
  | EvDelete string
  | EvInvalidate write_faults datetime string "string option" "string option"
  | EvConsolidate write_faults datetime string consolidate_memory_params
  | EvPurge datetime purge_memory_params string

text \<open>One call of a tool that changes memories, the import apart (it is in the theory \<open>MemoryTools\<close>). The
  database may fail any write of a consolidation; during a purge it does not.\<close>

fun service_step :: "'e bm25_api \<Rightarrow> service_env \<Rightarrow> 'e memory_service \<Rightarrow> service_event \<Rightarrow> 'e memory_service" where
  "service_step api env s (EvStore now new_id p) = snd (store_memory api env now new_id p s)"
| "service_step api env s (EvUpdate p) = snd (update_memory_tool api env p s)"
| "service_step api env s (EvDelete i) = snd (delete_memory_tool api i s)"
| "service_step api env s (EvInvalidate faults now i r sup_id) = snd (invalidate_and_sync_memory api faults now i r sup_id s)"
| "service_step api env s (EvConsolidate faults now new_id p) = snd (consolidate_memory api env faults now new_id p s)"
| "service_step api env s (EvPurge now p expected) = snd (purge_memory api env no_faults now p expected s)"

text \<open>What every tool keeps follows from what the basic writes keep: the interface through which an invariant
  of the service is carried through supersession, storing, consolidation, purging and any run.\<close>

lemma stored_memory_truncate:
  "stored_memory env now p ty v e = stored_memory env now (store_memory_params.truncate p) ty v e"
  by (simp add: stored_memory_def store_memory_params.truncate_def)

locale service_invariant =
  fixes api :: "'e bm25_api"
    and env :: service_env
    and inv :: "'e memory_service \<Rightarrow> bool"
  assumes inv_create: "inv s \<Longrightarrow> inv (snd (create_and_sync_memory api new_id
        (stored_memory env now (p :: store_memory_params) ty (importance_or_one v) e) s))"
    and inv_update: "inv s \<Longrightarrow> inv (snd (update_memory_tool api env u s))"
    and inv_delete: "inv s \<Longrightarrow> inv (snd (delete_memory_tool api i s))"
    and inv_invalidate: "inv s \<Longrightarrow> inv (snd (invalidate_and_sync_memory api faults now i reason sup_id s))"
    and inv_delete_batch: "inv s \<Longrightarrow> delete_memories_batch no_faults ids (sv_table s) = (Inr deleted, t) \<Longrightarrow>
      inv (s\<lparr>sv_table := t, sv_index := foldl (\<lambda>idx i. remove_memory api i idx) (sv_index s) deleted\<rparr>)"
begin

lemma inv_supersede:
  "inv s \<Longrightarrow> inv (snd (supersede_loop api faults now reason r is a b s))"
proof (induction "is" arbitrary: a b s)
  case (Cons i "is")
  show ?case
  proof (cases "i = r")
    case False
    obtain ok s' where step: "invalidate_and_sync_memory api faults now i (Some reason) (Some r) s = (ok, s')" by fastforce
    with inv_invalidate [OF Cons.prems, of faults now i "Some reason" "Some r"] have "inv s'" by simp
    with Cons.IH step False show ?thesis by (auto split: sum.split bool.split)
  qed (use Cons in simp)
qed simp

lemma inv_store: "inv s \<Longrightarrow> inv (snd (store_memory api env now new_id p s))"
  using inv_create [of s new_id now p]
  by (auto simp: store_memory_def split: sum.split option.split prod.split) (metis snd_conv)+

lemma inv_purge: "inv s \<Longrightarrow> inv (snd (purge_memory api env no_faults now p expected s))"
proof -
  assume s: "inv s"
  have "inv (snd (case delete_memories_batch no_faults ids (sv_table s) of
      (Inl e, t) \<Rightarrow> (Inl (SE_App e), s\<lparr>sv_table := t\<rparr>)
    | (Inr deleted, t) \<Rightarrow> (Inr (report deleted),
        s\<lparr>sv_table := t, sv_index := foldl (\<lambda>idx i. remove_memory api i idx) (sv_index s) deleted\<rparr>)))"
    for ids and report :: "string list \<Rightarrow> purge_report"
  proof -
    obtain deleted t where "delete_memories_batch no_faults ids (sv_table s) = (Inr deleted, t)"
      by (rule delete_batch_succeeds)
    with inv_delete_batch [OF s this] show ?thesis by simp
  qed
  then show ?thesis using s by (simp add: purge_memory_def Let_def split: sum.split)
qed

lemma inv_consolidate:
  assumes "inv s"
  shows "inv (snd (consolidate_memory api env faults now new_id p s))"
proof -
  have "inv (snd (case create_and_sync_memory api new_id (stored_memory env now p ty (importance_or_one v) e) s of
        (Inl e, s1) \<Rightarrow> (Inl (SE_App e), s1)
      | (Inr replacement_id, s1) \<Rightarrow>
          (case supersede_loop api faults now reason replacement_id ids [] [] s1 of
             (Inl e, s2) \<Rightarrow> (Inl (SE_App e), s2)
           | (Inr (sup_ids, skipped), s2) \<Rightarrow> (Inr (report replacement_id sup_ids skipped), s2))))"
    for ty v e reason ids and report :: "string \<Rightarrow> string list \<Rightarrow> string list \<Rightarrow> consolidation_report"
  proof -
    let ?m = "stored_memory env now p ty (importance_or_one v) e"
    obtain r s1 where c: "create_and_sync_memory api new_id ?m s = (r, s1)" by fastforce
    with inv_create [OF assms, of new_id now "store_memory_params.truncate p" ty v e] have s1: "inv s1"
      by (simp flip: stored_memory_truncate)
    have "inv (snd (supersede_loop api faults now reason i ids [] [] s1))" for i by (rule inv_supersede [OF s1])
    then show ?thesis using s1
      by (auto simp: c split: sum.split prod.split) (metis snd_conv)+
  qed
  then show ?thesis using assms
    unfolding consolidate_memory_def Let_def by (simp split: option.split sum.split prod.split)
qed

lemma inv_step: "inv s \<Longrightarrow> inv (service_step api env s e)"
  by (cases e) (simp_all add: inv_store inv_update inv_delete inv_invalidate inv_consolidate inv_purge)

lemma inv_run: "inv s \<Longrightarrow> inv (foldl (service_step api env) s es)"
  by (induction es arbitrary: s) (auto intro: inv_step)

end

interpretation in_step: service_invariant api env "\<lambda>s. engine_contract api docs \<longrightarrow> synced docs s" for api env docs
  by unfold_locales
    (auto intro: synced_create synced_update synced_delete synced_invalidate dest: synced_delete_batch)

definition service_new :: "'e bm25_api \<Rightarrow> 'e memory_service" where
  "service_new api = \<lparr>sv_table = [], sv_index = empty_index api\<rparr>"

lemma index_contents_empty: "index_contents (empty_index api) = open_contents []"
  by (rule ext) (simp add: index_contents_def empty_index_def open_contents_def)

lemma synced_new: "engine_contract api docs \<Longrightarrow> synced docs (service_new api)"
  using index_ok_empty [of api docs] index_contents_empty [of api]
  by (simp add: synced_def service_new_def table_ok_Nil)

lemma synced_run:
  "engine_contract api docs \<Longrightarrow> synced docs s \<Longrightarrow> synced docs (foldl (service_step api env) s es)"
  using in_step.inv_run by blast

text \<open>C11: The lexical index implements the table: after any sequence of memory tools (store, update, delete,
  invalidate, consolidate, purge, with any parameters, failing or not) the index holds exactly the
  memories of the table that have no end, each with its current content, and the search engine holds
  the same documents. (A purge is meant in which the database refuses no deletion; otherwise the purged rows stay
  in the index, see \<open>purge_is_safe\<close>.)\<close>
theorem index_refines_table:
  assumes "engine_contract api docs"
  shows "let s = foldl (service_step api env) (service_new api) es in
    index_contents (sv_index s) = open_contents (sv_table s) \<and> docs (mi_engine (sv_index s)) = open_contents (sv_table s) \<and>
    table_ok (sv_table s)"
  using synced_run [OF assms synced_new [OF assms], of env es] by (simp add: Let_def synced_def index_ok_def)

definition example_env :: service_env where
  "example_env =
     \<lparr>se_ready = None, se_embed = (\<lambda>s. Inr [1]), se_hash = (\<lambda>s. s),
      se_consolidation_fingerprint = (\<lambda>p. co_content_hash p),
      se_purge_fingerprint = (\<lambda>p. concat (pu_candidate_ids p) @ ''!'')\<rparr>"

definition example_store :: "string \<Rightarrow> store_memory_params" where
  "example_store content =
     \<lparr>sp_content = content, sp_memory_type = None, sp_user_id = None, sp_agent_id = None, sp_run_id = None,
      sp_namespace = None, sp_importance_score = None, sp_metadata = None\<rparr>"

theorem index_refines_table_witness:
  "let s = foldl (service_step token_engine example_env) (service_new token_engine)
      [EvStore 1 ''a'' (example_store ''deploy''), EvStore 2 ''b'' (example_store ''test''), EvDelete ''a'']
   in index_contents (sv_index s) = open_contents (sv_table s)"
  using index_refines_table [OF token_engine_contract, where env = example_env and
      es = "[EvStore 1 ''a'' (example_store ''deploy''), EvStore 2 ''b'' (example_store ''test''), EvDelete ''a'']"]
  unfolding Let_def by (rule conjunct1)

text \<open>The capacity controller (\<open>src/forgetting/capacity.rs\<close>, through the storage trait) ends memories
  in the table without telling the index: from then on the index still offers the archived memory.\<close>

definition capacity_archive :: "datetime \<Rightarrow> string \<Rightarrow> 'e memory_service \<Rightarrow> 'e memory_service" where
  "capacity_archive now i s =
     s\<lparr>sv_table := snd (invalidate now i (Some CAPACITY_CONTROLLER_INVALIDATION_REASON) None (sv_table s))\<rparr>"

theorem capacity_archive_leaves_index_stale:
  assumes "synced docs s" and "open_contents (sv_table s) i = Some c"
  shows "open_contents (sv_table (capacity_archive now i s)) i = None \<and>
    index_contents (sv_index (capacity_archive now i s)) i = Some c \<and> \<not> synced docs (capacity_archive now i s)"
proof -
  from assms(2) obtain m where m: "hm_get (sv_table s) i = Some m" by (auto simp: open_contents_def split: option.splits)
  then have "open_contents (sv_table (capacity_archive now i s)) i = None"
    by (simp add: capacity_archive_def invalidate_def update_row_def open_contents_def)
  moreover have "index_contents (sv_index (capacity_archive now i s)) i = Some c"
    using assms by (simp add: capacity_archive_def synced_def)
  ultimately show ?thesis by (auto simp: synced_def)
qed

end
