(* ===== verification/MemoryMaintenance.thy ===== *)
theory MemoryMaintenance
  imports MemoryService
begin

text \<open>
  What the maintenance tools of \<open>MemoryService\<close> guarantee: purging deletes only what the retention
  policy allows and only what was previewed, consolidation ends exactly the duplicates it found, and
  the chain of replacements reported with a memory is bounded and truthful.
\<close>

section \<open>Purging\<close>

definition purgeable_rows :: "datetime \<Rightarrow> retention_policy \<Rightarrow> memory list \<Rightarrow> string list" where
  "purgeable_rows now policy ms =
     List.map_filter (\<lambda>m. if lv_purge_eligible (derive_memory_lifecycle m now policy) then memory_key m else None) ms"

lemma purgeable_rows_Cons:
  "purgeable_rows now policy (m # ms) =
     (if lv_purge_eligible (derive_memory_lifecycle m now policy)
      then (case memory_key m of Some i \<Rightarrow> [i] | None \<Rightarrow> []) else []) @ purgeable_rows now policy ms"
  by (simp add: purgeable_rows_def List.map_filter_simps split: option.split)

lemma purgeable_rows_Nil [simp]: "purgeable_rows now policy [] = []"
  by (simp add: purgeable_rows_def List.map_filter_simps)

lemma purgeable_rows_append: "purgeable_rows now policy (xs @ ys) = purgeable_rows now policy xs @ purgeable_rows now policy ys"
  by (induction xs) (simp_all add: purgeable_rows_Cons)

lemma purge_scan_prefix:
  assumes "purge_scan now policy limit ms cs p n = (cs', p', n')"
  shows "\<exists>k. map fst cs' = map fst cs @ purgeable_rows now policy (take k ms)"
  using assms
proof (induction ms arbitrary: cs p n)
  case Nil
  then show ?case by simp
next
  case (Cons m ms)
  define c1 where "c1 = (if lv_purge_eligible (derive_memory_lifecycle m now policy) then
      (case memory_key m of Some i \<Rightarrow> cs @ [(i, m, derive_memory_lifecycle m now policy)] | None \<Rightarrow> cs) else cs)"
  have one: "map fst c1 = map fst cs @ purgeable_rows now policy [m]"
    by (simp add: c1_def purgeable_rows_Cons split: option.split)
  show ?case
  proof (cases "limit \<le> length c1")
    case True
    with Cons.prems have "cs' = c1" by (simp add: Let_def c1_def)
    then show ?thesis using one by (intro exI [of _ 1]) simp
  next
    case False
    with Cons.prems obtain p1 n1 where "purge_scan now policy limit ms c1 p1 n1 = (cs', p', n')"
      by (simp add: Let_def c1_def)
    from Cons.IH [OF this] obtain k where "map fst cs' = map fst c1 @ purgeable_rows now policy (take k ms)" by blast
    then show ?thesis using one
      using purgeable_rows_append [of now policy "[m]" "take k ms"] by (intro exI [of _ "Suc k"]) simp
  qed
qed

lemma purge_scan_length:
  "purge_scan now policy limit ms cs p n = (cs', p', n') \<Longrightarrow> length cs < max 1 limit \<Longrightarrow> length cs' \<le> max 1 limit"
proof (induction ms arbitrary: cs p n)
  case (Cons m ms)
  define c1 where "c1 = (if lv_purge_eligible (derive_memory_lifecycle m now policy) then
      (case memory_key m of Some i \<Rightarrow> cs @ [(i, m, derive_memory_lifecycle m now policy)] | None \<Rightarrow> cs) else cs)"
  have one: "length c1 \<le> Suc (length cs)" by (simp add: c1_def split: option.split)
  show ?case
  proof (cases "limit \<le> length c1")
    case True
    with Cons.prems have "cs' = c1" by (simp add: Let_def c1_def)
    then show ?thesis using one Cons.prems(2) by (simp add: max_def split: if_splits)
  next
    case False
    with Cons.prems obtain p1 n1 where "purge_scan now policy limit ms c1 p1 n1 = (cs', p', n')"
      by (simp add: Let_def c1_def)
    from Cons.IH [OF this] False show ?thesis by simp
  qed
qed simp

lemma set_purgeable_rows:
  "i \<in> set (purgeable_rows now policy ms) \<longleftrightarrow>
     (\<exists>m\<in>set ms. lv_purge_eligible (derive_memory_lifecycle m now policy) \<and> memory_key m = Some i)"
proof (induction ms)
  case (Cons m ms)
  have "i \<in> set (case k of Some i \<Rightarrow> [i] | None \<Rightarrow> []) \<longleftrightarrow> k = Some i" for k
    by (rule iffI) (simp_all split: option.splits)
  then show ?case unfolding purgeable_rows_Cons set_append Un_iff Cons.IH list.set bex_simps
    by (simp only: if_distrib [of set] if_distrib [of "\<lambda>A. i \<in> A"] list.set empty_iff split: if_split) blast
qed simp

lemma distinct_purgeable_rows:
  "distinct (map memory_key ms) \<Longrightarrow> distinct (purgeable_rows now policy ms)"
proof (induction ms)
  case (Cons m ms)
  have "i \<notin> set (purgeable_rows now policy ms)" if "memory_key m = Some i" for i
    using Cons.prems that unfolding set_purgeable_rows by force
  moreover have "distinct (purgeable_rows now policy ms)" using Cons by simp
  ultimately show ?case unfolding purgeable_rows_Cons
    by (cases "lv_purge_eligible (derive_memory_lifecycle m now policy)"; cases "memory_key m") simp_all
qed simp

lemma row_keys: "table_ok t \<Longrightarrow> map (\<lambda>m. memory_key m) (map snd t) = map (\<lambda>k. Some k) (hm_keys t)"
  by (auto simp: table_ok_def memory_key_def split: prod.splits)

lemma distinct_select_keys:
  assumes "table_ok t"
  shows "distinct (map memory_key (select_rows P t))"
proof -
  have "distinct (map (\<lambda>k. Some k) (hm_keys t))"
    using assms by (simp add: table_ok_def hm_ok_def distinct_map inj_on_def)
  then show ?thesis
    unfolding select_rows_def using row_keys [OF assms] by (metis distinct_map_filter)
qed

lemma distinct_gc_keys:
  assumes "table_ok t"
  shows "distinct (map memory_key (list_invalidated_memories_for_gc f limit offset t))"
proof -
  have "mset (map memory_key (sort_by le xs)) = mset (map memory_key xs)" for le and xs :: "memory list"
    by (simp only: mset_map mset_sort_by)
  then have "distinct (map memory_key (sort_by le (select_rows P t)))" for le P
    using distinct_select_keys [OF assms] by (metis mset_eq_imp_distinct_iff)
  then show ?thesis
    unfolding list_invalidated_memories_for_gc_def by (simp only: take_map [symmetric] drop_map [symmetric] distinct_take distinct_drop)
qed

lemma gc_rows:
  assumes "table_ok t" "m \<in> set (list_invalidated_memories_for_gc f limit offset t)" "memory_key m = Some i"
  shows "hm_get t i = Some m \<and> gc_filter_clause f m"
proof -
  have "m \<in> set (select_rows (gc_filter_clause f) t)"
    using in_set_dropD [OF in_set_takeD [OF assms(2) [unfolded list_invalidated_memories_for_gc_def]]]
    by (simp only: set_sort_by)
  then obtain k where k: "(k, m) \<in> set t" "gc_filter_clause f m" by (auto simp: set_select_rows)
  then have "m_id m = Some (memory_thing k)" using assms(1) by (auto simp: table_ok_def)
  with assms(3) have "k = i" by (simp add: memory_key_def)
  with k assms(1) show ?thesis using hm_get_mem [of t k m] by (simp add: table_ok_def)
qed

lemma delete_batch_present:
  assumes "distinct is" "list_all (\<lambda>i. hm_get t i \<noteq> None) is" "delete_memories_batch faults is t = (r, t')"
  shows "case r of
      Inl e \<Rightarrow> \<exists>gone i rest. is = gone @ i # rest \<and> faults i = Some e \<and> list_all (\<lambda>j. faults j = None) gone \<and>
        (\<forall>j. hm_get t' j = (if j \<in> set gone then None else hm_get t j))
    | Inr deleted \<Rightarrow> deleted = is \<and> (\<forall>j. hm_get t' j = (if j \<in> set is then None else hm_get t j))"
  using assms
proof (induction "is" arbitrary: t r t')
  case (Cons i "is")
  show ?case
  proof (cases "faults i")
    case None
    obtain r1 t1 where r1: "delete_memories_batch faults is (hm_remove i t) = (r1, t1)" by fastforce
    have "list_all (\<lambda>j. hm_get (hm_remove i t) j \<noteq> None) is"
      using Cons.prems by (auto simp: list_all_iff)
    note IH = Cons.IH [OF _ this r1]
    show ?thesis
    proof (cases r1)
      case (Inl e)
      then have "r = Inl e" "t' = t1" using Cons.prems(3) r1 None by (simp_all add: delete_memory_def)
      from IH Cons.prems(1) Inl obtain gone k rest where "is = gone @ k # rest" "faults k = Some e"
        "list_all (\<lambda>j. faults j = None) gone" "\<forall>j. hm_get t1 j = (if j \<in> set gone then None else hm_get (hm_remove i t) j)"
        by auto
      with \<open>r = Inl e\<close> \<open>t' = t1\<close> None show ?thesis
        by (simp, intro exI [of _ "i # gone"] exI [of _ k] exI [of _ rest]) simp
    next
      case (Inr deleted)
      then have "r = Inr (i # deleted)" "t' = t1" using Cons.prems r1 None by (auto simp: delete_memory_def)
      with IH Cons.prems(1) Inr show ?thesis by simp
    qed
  next
    case (Some e)
    then have "r = Inl e" "t' = t" using Cons.prems(3) by simp_all
    with Some show ?thesis by (simp, intro exI [of _ "[]"] exI [of _ i]) simp
  qed
qed simp

lemma purge_plan_candidates:
  fixes env now p ty limit
  assumes "table_ok t"
  defines "plan \<equiv> build_purge_plan env now p ty limit t"
  shows "distinct (map fst (pl_candidates plan)) \<and> length (pl_candidates plan) \<le> max 1 limit \<and>
    list_all (\<lambda>i. case hm_get t i of None \<Rightarrow> False
      | Some m \<Rightarrow> gc_filter_clause (pl_filter plan) m \<and>
                 lv_purge_eligible (derive_memory_lifecycle m now retention_policy_default))
      (map fst (pl_candidates plan)) \<and> pl_filter plan = purge_filter_of now p ty"
proof -
  let ?f = "purge_filter_of now p ty" and ?ms = "list_invalidated_memories_for_gc (purge_filter_of now p ty) (max (max (limit * 5) limit) 1) 0 t"
  obtain cs pc nc where scan: "purge_scan now retention_policy_default limit ?ms [] 0 0 = (cs, pc, nc)"
    by (cases "purge_scan now retention_policy_default limit ?ms [] 0 0")
  have plan: "pl_candidates plan = cs" "pl_filter plan = ?f"
    unfolding plan_def build_purge_plan_def Let_def scan by simp_all
  from purge_scan_prefix [OF scan] obtain k
    where k: "map fst cs = purgeable_rows now retention_policy_default (take k ?ms)" by auto
  have "distinct (map memory_key (take k ?ms))"
    using distinct_gc_keys [OF assms(1)] by (simp only: take_map [symmetric] distinct_take)
  then have "distinct (map fst cs)" unfolding k by (rule distinct_purgeable_rows)
  moreover have "length cs \<le> max 1 limit" by (rule purge_scan_length [OF scan]) simp
  moreover have "list_all (\<lambda>i. case hm_get t i of None \<Rightarrow> False
      | Some m \<Rightarrow> gc_filter_clause ?f m \<and> lv_purge_eligible (derive_memory_lifecycle m now retention_policy_default))
      (map fst cs)"
  proof -
    have "case hm_get t i of None \<Rightarrow> False
        | Some m \<Rightarrow> gc_filter_clause ?f m \<and> lv_purge_eligible (derive_memory_lifecycle m now retention_policy_default)"
      if "i \<in> set (map fst cs)" for i
    proof -
      from that [unfolded k set_purgeable_rows] obtain m where m: "m \<in> set ?ms" "memory_key m = Some i"
        "lv_purge_eligible (derive_memory_lifecycle m now retention_policy_default)" by (auto dest: in_set_takeD)
      from gc_rows [OF assms(1) m(1,2)] m(3) show ?thesis by simp
    qed
    then show ?thesis by (simp only: list_all_iff Ball_def) blast
  qed
  ultimately show ?thesis unfolding plan by blast
qed

text \<open>C12: Purging is safe. It refuses without touching anything when the fingerprint is missing or stale or the
  type is bad. Otherwise it deletes each once, in one pass, at most as many memories as the limit says (one,
  when the limit is 0: the limit is looked at after a candidate was taken), every one of them ended,
  inside the requested filter, past its retention period and not pinned; no other row changes, and the
  report is exact: its fingerprint is the one the operator confirmed and nothing is reported as failed.
  When the database fails one of the deletions the purge ends with that error: the memories before it,
  each of them one that may be purged, are gone from the table, nothing else is, and the lexical index was
  not told. Without such a failure an error means that nothing has changed.\<close>
theorem purge_is_safe:
  assumes "table_ok (sv_table s)" and "purge_memory api env faults now p expected s = (r, s')"
  shows "case r of
      Inl e \<Rightarrow>
        s' = s \<or>
        (\<exists>i e' gone. faults i = Some e' \<and> e = SE_App e' \<and> sv_index s' = sv_index s \<and> i \<notin> set gone \<and>
           length gone < max 1 (normalize_limit (pp_limit p)) \<and>
           list_all (\<lambda>j. faults j = None \<and>
             (case hm_get (sv_table s) j of None \<Rightarrow> False
              | Some m \<Rightarrow> m_valid_until m \<noteq> None \<and>
                  lv_purge_eligible (derive_memory_lifecycle m now retention_policy_default))) gone \<and>
           (\<forall>j. hm_get (sv_table s') j = (if j \<in> set gone then None else hm_get (sv_table s) j)))
    | Inr rep \<Rightarrow>
        distinct (pr_deleted_ids rep) \<and> length (pr_deleted_ids rep) \<le> max 1 (normalize_limit (pp_limit p)) \<and>
        pr_failed_ids rep = [] \<and> trim expected = pl_plan_fingerprint (pr_plan rep) \<and>
        (case parse_optional_memory_type (pp_memory_type p) of
           Inl e \<Rightarrow> False | Inr ty \<Rightarrow> pl_filter (pr_plan rep) = purge_filter_of now p ty) \<and>
        list_all (\<lambda>i. case hm_get (sv_table s) i of None \<Rightarrow> False
          | Some m \<Rightarrow> gc_filter_clause (pl_filter (pr_plan rep)) m \<and>
                     lv_purge_eligible (derive_memory_lifecycle m now retention_policy_default))
          (pr_deleted_ids rep) \<and>
        (\<forall>i. hm_get (sv_table s') i = (if i \<in> set (pr_deleted_ids rep) then None else hm_get (sv_table s) i))"
proof (cases "\<exists>plan. preview_purge_memory env now p s = Inr plan \<and> trim expected = pl_plan_fingerprint plan \<and> trim expected \<noteq> []")
  case False
  with assms(2) have "isl r \<and> s' = s"
    by (auto simp: purge_memory_def Let_def split: if_splits sum.splits prod.splits)
  then show ?thesis by (auto simp: isl_def)
next
  case True
  then obtain plan where plan: "preview_purge_memory env now p s = Inr plan"
    "trim expected = pl_plan_fingerprint plan" "trim expected \<noteq> []" by blast
  then obtain ty where ty: "plan = build_purge_plan env now p ty (normalize_limit (pp_limit p)) (sv_table s)"
    and parsed: "parse_optional_memory_type (pp_memory_type p) = Inr ty"
    by (auto simp: preview_purge_memory_def Let_def split: sum.splits)
  note cands = purge_plan_candidates [OF assms(1), of env now p ty "normalize_limit (pp_limit p)", folded ty]
  let ?ids = "map fst (pl_candidates plan)"
  obtain d t where d: "delete_memories_batch faults ?ids (sv_table s) = (d, t)" by fastforce
  have "list_all (\<lambda>i. hm_get (sv_table s) i \<noteq> None) ?ids"
    using cands by (auto simp: list_all_iff split: option.splits)
  note del = delete_batch_present [OF conjunct1 [OF cands] this d]
  show ?thesis
  proof (cases d)
    case (Inl e)
    then have r: "r = Inl (SE_App e)" "s' = s\<lparr>sv_table := t\<rparr>"
      using assms(2) plan by (simp_all add: purge_memory_def Let_def d)
    from del Inl obtain gone i rest where g: "?ids = gone @ i # rest" "faults i = Some e"
      "list_all (\<lambda>j. faults j = None) gone" "\<forall>j. hm_get t j = (if j \<in> set gone then None else hm_get (sv_table s) j)"
      by auto
    have "i \<notin> set gone" "length gone < length ?ids" using cands unfolding g(1) by auto
    moreover have "list_all (\<lambda>j. case hm_get (sv_table s) j of None \<Rightarrow> False
        | Some m \<Rightarrow> m_valid_until m \<noteq> None \<and> lv_purge_eligible (derive_memory_lifecycle m now retention_policy_default)) gone"
      using cands unfolding g(1) by (auto simp: list_all_iff gc_filter_clause_def split: option.splits)
    moreover have "length ?ids \<le> max 1 (normalize_limit (pp_limit p))" using cands by simp
    ultimately show ?thesis
      using g(2-4) unfolding r sum.case
      by (intro disjI2 exI [of _ i] exI [of _ e] exI [of _ gone]) (simp add: list_all_iff)
  next
    case (Inr ids)
    with del have "ids = ?ids" by simp
    define rep where "rep = \<lparr>pr_deleted_ids = ?ids, pr_failed_ids = [], pr_plan = plan\<rparr>"
    have rep: "r = Inr rep" "pr_deleted_ids rep = ?ids" "pr_failed_ids rep = []" "pr_plan rep = plan" "sv_table s' = t"
      using assms(2) plan Inr \<open>ids = ?ids\<close> by (auto simp: purge_memory_def Let_def d rep_def)
    show ?thesis
      using cands del plan(2) unfolding Inr rep(1) sum.case rep(2-5) parsed length_map by blast
  qed
qed

definition purge_example :: "(string, string) hmap memory_service" where
  "purge_example =
     \<lparr>sv_table = [(''a'', old_memory\<lparr>m_id := Some (memory_thing ''a'')\<rparr>)], sv_index = empty_index token_engine\<rparr>"

definition purge_everything :: purge_memory_params where
  "purge_everything =
     \<lparr>pp_namespace = None, pp_memory_type = None, pp_invalidation_reason = None, pp_older_than_days = None, pp_limit = None\<rparr>"

lemma purge_example_ok: "table_ok (sv_table purge_example)"
  by (simp add: purge_example_def table_ok_def hm_ok_def)

lemma purge_example_eligible:
  "lv_purge_eligible (derive_memory_lifecycle (old_memory\<lparr>m_id := i\<rparr>) (90 * MILLIS_PER_DAY) retention_policy_default)"
  by (simp add: lifecycle_purge_iff old_memory_def memory_new_def is_pinned_def retention_policy_default_def
      HIGH_IMPORTANCE_PIN_THRESHOLD_def protected_prefix_def starts_with_def is_whitespace_def char_code_def
      retention_days_def)

lemma purge_example_plan:
  "map fst (pl_candidates (build_purge_plan example_env (90 * MILLIS_PER_DAY) purge_everything None 20 (sv_table purge_example))) = [''a''] \<and>
   pl_plan_fingerprint (build_purge_plan example_env (90 * MILLIS_PER_DAY) purge_everything None 20 (sv_table purge_example)) = ''a!''"
proof -
  have rows: "list_invalidated_memories_for_gc (purge_filter_of (90 * MILLIS_PER_DAY) purge_everything None) n 0 (sv_table purge_example) =
      take n [old_memory\<lparr>m_id := Some (memory_thing ''a'')\<rparr>]" for n
    by (simp add: list_invalidated_memories_for_gc_def select_rows_def purge_example_def gc_filter_clause_def
        old_memory_def purge_filter_of_def purge_everything_def unset_or_def)
  have "purge_scan (90 * MILLIS_PER_DAY) retention_policy_default 20 [old_memory\<lparr>m_id := Some (memory_thing ''a'')\<rparr>] [] 0 0 =
      ([(''a'', old_memory\<lparr>m_id := Some (memory_thing ''a'')\<rparr>,
         derive_memory_lifecycle (old_memory\<lparr>m_id := Some (memory_thing ''a'')\<rparr>) (90 * MILLIS_PER_DAY) retention_policy_default)],
       0, 0)"
    using purge_example_eligible by (simp add: Let_def memory_key_def lifecycle_pinned_iff lifecycle_purge_iff)
  then show ?thesis
    by (simp add: build_purge_plan_def Let_def rows example_env_def)
qed

theorem purge_is_safe_witness:
  "case fst (purge_memory token_engine example_env no_faults (90 * MILLIS_PER_DAY) purge_everything '' a! '' purge_example) of
     Inl e \<Rightarrow> False
   | Inr rep \<Rightarrow> pr_deleted_ids rep = [''a''] \<and> pr_failed_ids rep = [] \<and>
       hm_get (sv_table (snd (purge_memory token_engine example_env no_faults (90 * MILLIS_PER_DAY) purge_everything '' a! '' purge_example))) ''a'' = None"
proof -
  let ?run = "purge_memory token_engine example_env no_faults (90 * MILLIS_PER_DAY) purge_everything '' a! '' purge_example"
  have preview: "preview_purge_memory example_env (90 * MILLIS_PER_DAY) purge_everything purge_example =
      Inr (build_purge_plan example_env (90 * MILLIS_PER_DAY) purge_everything None 20 (sv_table purge_example))"
    by (simp add: preview_purge_memory_def purge_everything_def parse_optional_memory_type_def trimmed_nonempty_def
        normalize_limit_def DEFAULT_LIMIT_def MAX_LIMIT_def Let_def)
  have "trim '' a! '' = ''a!''" by (simp add: trim_def is_whitespace_def char_code_def)
  moreover have "fst (delete_memories_batch no_faults [''a''] (sv_table purge_example)) = Inr [''a'']"
    by (simp add: delete_memory_def purge_example_def)
  ultimately obtain rep where rep: "fst ?run = Inr rep" "pr_deleted_ids rep = [''a'']"
    using purge_example_plan preview by (auto simp: purge_memory_def Let_def split_beta)
  then have "?run = (Inr rep, snd ?run)" by (metis prod.collapse)
  from purge_is_safe [OF purge_example_ok this] rep show ?thesis by simp
qed

text \<open>With a limit of 0 one memory is deleted all the same.\<close>

lemma purge_limit_zero_deletes_one:
  "map fst (pl_candidates (build_purge_plan example_env (90 * MILLIS_PER_DAY) purge_everything None 0 (sv_table purge_example))) = [''a'']"
proof -
  have rows: "list_invalidated_memories_for_gc (purge_filter_of (90 * MILLIS_PER_DAY) purge_everything None) n 0 (sv_table purge_example) =
      take n [old_memory\<lparr>m_id := Some (memory_thing ''a'')\<rparr>]" for n
    by (simp add: list_invalidated_memories_for_gc_def select_rows_def purge_example_def gc_filter_clause_def
        old_memory_def purge_filter_of_def purge_everything_def unset_or_def)
  show ?thesis
    using purge_example_eligible by (simp add: build_purge_plan_def Let_def rows memory_key_def split: prod.split)
qed

section \<open>Purging by age\<close>

text \<open>A preview that restricts the age can never be applied: the fingerprint covers the cut-off instant,
  which is computed afresh from the clock, so at any other instant the plan counts as stale and the
  purge does nothing, whatever the two tables hold. The hypotheses on the hash are that it is
  free of collisions between payloads with different cut-offs and prints hexadecimal digits (no
  surrounding blanks).\<close>
theorem purge_by_age_always_stale:
  assumes "\<And>x y. se_purge_fingerprint env x = se_purge_fingerprint env y \<Longrightarrow>
      gf_invalidated_before (pu_filter x) = gf_invalidated_before (pu_filter y)" and "\<And>x. trim (se_purge_fingerprint env x) = se_purge_fingerprint env x"
    and "pp_older_than_days p = Some days" and "previewed \<noteq> now"
    and "preview_purge_memory env previewed p before = Inr plan"
  shows "(case purge_memory api env faults now p (pl_plan_fingerprint plan) s of (Inl e, s') \<Rightarrow> s' = s | (Inr rep, s') \<Rightarrow> False)"
proof -
  have fp: "pl_plan_fingerprint pl = se_purge_fingerprint env
      \<lparr>pu_filter = purge_filter_of c p ty, pu_older_than_days = pp_older_than_days p, pu_limit = normalize_limit (pp_limit p),
       pu_candidate_ids = map fst (pl_candidates pl)\<rparr>"
    if "pl = build_purge_plan env c p ty (normalize_limit (pp_limit p)) t" for pl c ty t
    using that by (simp add: build_purge_plan_def Let_def split: prod.split)
  obtain ty where ty: "parse_optional_memory_type (pp_memory_type p) = Inr ty"
    and plan: "plan = build_purge_plan env previewed p ty (normalize_limit (pp_limit p)) (sv_table before)"
    using assms(5) by (auto simp: preview_purge_memory_def Let_def split: sum.splits)
  define plan' where "plan' = build_purge_plan env now p ty (normalize_limit (pp_limit p)) (sv_table s)"
  have "gf_invalidated_before (purge_filter_of previewed p ty) \<noteq> gf_invalidated_before (purge_filter_of now p ty)"
    using assms(3,4) by (simp add: purge_filter_of_def)
  then have "pl_plan_fingerprint plan \<noteq> pl_plan_fingerprint plan'"
    unfolding fp [OF plan] fp [OF plan'_def] using assms(1) by fastforce
  moreover have "trim (pl_plan_fingerprint plan) = pl_plan_fingerprint plan"
    unfolding fp [OF plan] by (rule assms(2))
  moreover have "preview_purge_memory env now p s = Inr plan'"
    by (simp add: preview_purge_memory_def ty plan'_def)
  ultimately show ?thesis by (simp add: purge_memory_def Let_def)
qed

definition int_code :: "int \<Rightarrow> nat" where
  "int_code d = (if d < 0 then nat (- 2 * d) else nat (2 * d + 1))"

lemma int_code_inj: "int_code d = int_code e \<Longrightarrow> d = e"
proof -
  have int: "int (int_code d) = (if d < 0 then - 2 * d else 2 * d + 1)" for d
    by (simp add: int_code_def)
  have odd: "odd (int (int_code d)) = (0 \<le> d)" for d
    unfolding int by (simp split: if_split)
  assume eq: "int_code d = int_code e"
  with odd [of d] odd [of e] have "(0 \<le> d) = (0 \<le> e)" by simp
  with arg_cong [OF eq, of int, unfolded int] show "d = e" by (simp split: if_splits)
qed

definition cutoff_fingerprint :: "purge_payload \<Rightarrow> string" where
  "cutoff_fingerprint x =
     replicate (case gf_invalidated_before (pu_filter x) of None \<Rightarrow> 0 | Some d \<Rightarrow> Suc (int_code d)) (CHR ''a'')"

lemma cutoff_fingerprint_inj:
  assumes "cutoff_fingerprint x = cutoff_fingerprint y"
  shows "gf_invalidated_before (pu_filter x) = gf_invalidated_before (pu_filter y)"
  using arg_cong [OF assms, of length]
  by (simp add: cutoff_fingerprint_def int_code_inj split: option.splits)

lemma trim_replicate_a: "trim (replicate n (CHR ''a'')) = replicate n (CHR ''a'')"
proof (cases "n = 0")
  case False
  have "\<not> is_whitespace (CHR ''a'')" by (simp add: is_whitespace_def char_code_def)
  with False have "dropWhile is_whitespace (replicate n (CHR ''a'')) = replicate n (CHR ''a'')"
    by (simp add: dropWhile_eq_self_iff)
  then show ?thesis by (simp add: trim_def)
qed (simp add: trim_def)

lemma trim_cutoff: "trim (cutoff_fingerprint x) = cutoff_fingerprint x"
  unfolding cutoff_fingerprint_def by (rule trim_replicate_a)

theorem purge_by_age_always_stale_witness:
  "(case purge_memory token_engine (example_env\<lparr>se_purge_fingerprint := cutoff_fingerprint\<rparr>) no_faults 6
      (purge_everything\<lparr>pp_older_than_days := Some 0\<rparr>)
      (pl_plan_fingerprint (build_purge_plan (example_env\<lparr>se_purge_fingerprint := cutoff_fingerprint\<rparr>) 5
         (purge_everything\<lparr>pp_older_than_days := Some 0\<rparr>) None 20 (sv_table purge_example)))
      purge_example of (Inl e, s') \<Rightarrow> s' = purge_example | (Inr rep, s') \<Rightarrow> False)"
proof (rule purge_by_age_always_stale [where previewed = 5 and days = 0 and before = purge_example])
  show "gf_invalidated_before (pu_filter x) = gf_invalidated_before (pu_filter y)"
    if "se_purge_fingerprint (example_env\<lparr>se_purge_fingerprint := cutoff_fingerprint\<rparr>) x =
        se_purge_fingerprint (example_env\<lparr>se_purge_fingerprint := cutoff_fingerprint\<rparr>) y" for x y
    by (rule cutoff_fingerprint_inj) (use that in simp)
  show "trim (se_purge_fingerprint (example_env\<lparr>se_purge_fingerprint := cutoff_fingerprint\<rparr>) x) =
      se_purge_fingerprint (example_env\<lparr>se_purge_fingerprint := cutoff_fingerprint\<rparr>) x" for x
    by (simp add: trim_cutoff)
next
  let ?env = "example_env\<lparr>se_purge_fingerprint := cutoff_fingerprint\<rparr>"
  let ?p = "purge_everything\<lparr>pp_older_than_days := Some 0\<rparr>"
  have p: "pp_memory_type ?p = None" "pp_limit ?p = None" by (simp_all add: purge_everything_def)
  show "preview_purge_memory ?env 5 ?p purge_example =
      Inr (build_purge_plan ?env 5 ?p None 20 (sv_table purge_example))"
    unfolding preview_purge_memory_def p
    by (simp only: parse_optional_memory_type_def trimmed_nonempty_def option.case sum.case Let_def
      normalize_limit_def DEFAULT_LIMIT_def MAX_LIMIT_def) simp
qed simp_all

section \<open>Duplicates\<close>

lemma set_exact_duplicates:
  assumes "table_ok t" and "set ms \<subseteq> {m. \<exists>k. (k, m) \<in> set t \<and> P m}"
    and "{m. \<exists>k. (k, m) \<in> set t \<and> P m \<and> (m_content_hash m = Some h \<or> m_content m = c)} \<subseteq> set ms"
  shows "set (map du_id (exact_duplicate_matches ms c h src)) =
    {k. case hm_get t k of None \<Rightarrow> False | Some m \<Rightarrow> P m \<and> (m_content_hash m = Some h \<or> m_content m = c)}"
proof -
  have summary: "(duplicate_match_summary c h src m = Some d \<longrightarrow> du_id d = k \<and> (m_content_hash m = Some h \<or> m_content m = c)) \<and>
      ((m_content_hash m = Some h \<or> m_content m = c) \<longrightarrow> duplicate_match_summary c h src m \<noteq> None)"
    if "(k, m) \<in> set t" for k m d
  proof -
    have "m_id m = Some (memory_thing k)" using assms(1) that by (auto simp: table_ok_def)
    then show ?thesis by (auto simp: duplicate_match_summary_def Let_def)
  qed
  have row: "hm_get t k = Some m \<longleftrightarrow> (k, m) \<in> set t" for k m
    using assms(1) by (intro hm_get_mem) (simp add: table_ok_def)
  have "k \<in> set (map du_id (exact_duplicate_matches ms c h src)) \<longleftrightarrow>
      (\<exists>m. (k, m) \<in> set t \<and> P m \<and> (m_content_hash m = Some h \<or> m_content m = c))" (is "?L \<longleftrightarrow> ?R") for k
  proof
    assume ?L
    then obtain m d where m: "m \<in> set ms" "duplicate_match_summary c h src m = Some d" "k = du_id d"
      unfolding exact_duplicate_matches_def List.map_filter_def by fastforce
    with assms(2) obtain k' where "(k', m) \<in> set t" "P m" by blast
    with summary [of k' m d] m show ?R by metis
  next
    assume ?R
    then obtain m where m: "(k, m) \<in> set t" "P m" "m_content_hash m = Some h \<or> m_content m = c" by blast
    with assms(3) have "m \<in> set ms" by blast
    moreover obtain d where "duplicate_match_summary c h src m = Some d" "du_id d = k"
      using summary [OF m(1)] m(3) by blast
    ultimately show ?L unfolding exact_duplicate_matches_def List.map_filter_def by force
  qed
  moreover have "(case hm_get t k of None \<Rightarrow> False | Some m \<Rightarrow> P m \<and> (m_content_hash m = Some h \<or> m_content m = c)) \<longleftrightarrow>
      (\<exists>m. (k, m) \<in> set t \<and> P m \<and> (m_content_hash m = Some h \<or> m_content m = c))" for k
    unfolding row [symmetric] by (cases "hm_get t k") simp_all
  ultimately show ?thesis by blast
qed

lemma push_unseen_ids:
  "du_id ` set (fst (push_unseen seen ms n cs)) = du_id ` set ms \<union> (du_id ` set cs - seen)"
proof (induction cs arbitrary: seen ms n)
  case (Cons c cs)
  show ?case
  proof (cases "du_id c \<in> seen")
    case True
    then show ?thesis by (simp add: Cons.IH insert_Diff_if)
  next
    case False
    have "du_id ` set (fst (push_unseen seen ms n (c # cs))) =
        du_id ` set (ms @ [c]) \<union> (du_id ` set cs - insert (du_id c) seen)"
      using False by (simp add: Cons.IH)
    also have "\<dots> = du_id ` set ms \<union> (du_id ` set (c # cs) - seen)" using False by auto
    finally show ?thesis .
  qed
qed simp

lemma find_duplicates_ids:
  assumes "table_ok t" and "mq_metadata_filter q = None"
  shows "set (map du_id (fst (find_duplicate_matches now q c h t))) =
    {k. case hm_get t k of None \<Rightarrow> False
        | Some m \<Rightarrow> base_filter_clause now q m \<and> (m_content_hash m = Some h \<or> m_content m = c)}"
proof -
  let ?D = "{k. case hm_get t k of None \<Rightarrow> False
        | Some m \<Rightarrow> base_filter_clause now q m \<and> (m_content_hash m = Some h \<or> m_content m = c)}"
  let ?ms = "exact_duplicate_matches (find_memories_by_content_hash now q h t) c h ''hash_first''"
  let ?total = "count_memories_filtered now q t"
  let ?fb = "exact_duplicate_matches (list_memories now q (max ?total 1) 0 t) c h ''exact_content_fallback''"
  have "list_memories now q (max ?total 1) 0 t = newest_first (select_rows (base_filter_clause now q) t)"
    by (simp add: list_memories_def retain_none assms(2) count_memories_filtered_def newest_first_def max_def)
  then have "set (list_memories now q (max ?total 1) 0 t) = {m. \<exists>k. (k, m) \<in> set t \<and> base_filter_clause now q m}"
    by (simp only: newest_first_def set_sort_by set_select_rows)
  then have fb: "set (map du_id ?fb) = ?D" by (intro set_exact_duplicates [OF assms(1)]) auto
  have "set (find_memories_by_content_hash now q h t) \<subseteq> {m. \<exists>k. (k, m) \<in> set t \<and> base_filter_clause now q m}"
    unfolding find_memories_by_content_hash_def retain_none [OF assms(2)] newest_first_def set_sort_by set_select_rows by blast
  then have ms: "set (map du_id ?ms) \<subseteq> ?D"
  proof -
    assume sub: "set (find_memories_by_content_hash now q h t) \<subseteq> {m. \<exists>k. (k, m) \<in> set t \<and> base_filter_clause now q m}"
    have "set (map du_id ?ms) \<subseteq> set (map du_id (exact_duplicate_matches
        (find_memories_by_content_hash now q h t @ newest_first (select_rows (base_filter_clause now q) t)) c h ''hash_first''))"
      by (auto simp: exact_duplicate_matches_def List.map_filter_def)
    also have "\<dots> = ?D"
      by (intro set_exact_duplicates [OF assms(1)]) (use sub in \<open>auto simp: newest_first_def set_select_rows\<close>)
    finally show ?thesis .
  qed
  show ?thesis
  proof (cases "?ms = []")
    case True
    then show ?thesis using fb by (simp add: find_duplicate_matches_def Let_def)
  next
    case False
    then have "fst (find_duplicate_matches now q c h t) = fst (push_unseen (set (map du_id ?ms)) ?ms 0 ?fb)"
      by (simp add: find_duplicate_matches_def Let_def split_beta)
    moreover have "du_id ` set (fst (push_unseen (set (map du_id ?ms)) ?ms 0 ?fb)) = ?D"
      unfolding push_unseen_ids using fb ms unfolding set_map by blast
    ultimately show ?thesis by (simp only: set_map)
  qed
qed

section \<open>Consolidation\<close>

lemma ended_idem [simp]: "ended now reason r (ended now reason r m) = ended now reason r m"
  by (simp add: ended_def)

text \<open>The loop ends the memories in turn, up to the first whose write the database fails.\<close>

lemma supersede_loop_spec:
  assumes "table_ok (sv_table s)" and "r \<notin> set is" and "list_all (\<lambda>i. hm_get (sv_table s) i \<noteq> None) is"
    and "supersede_loop api faults now reason r is a b s = (res, s')"
  shows "\<exists>gone. (case res of
        Inl e \<Rightarrow> \<exists>i rest. is = gone @ i # rest \<and> faults i = Some e
      | Inr ab \<Rightarrow> gone = is \<and> ab = (a @ is, b)) \<and>
    list_all (\<lambda>i. faults i = None) gone \<and>
    (\<forall>i. hm_get (sv_table s') i =
       (if i \<in> set gone then map_option (ended now (Some reason) (Some r)) (hm_get (sv_table s) i)
        else hm_get (sv_table s) i))"
  using assms
proof (induction "is" arbitrary: a s)
  case (Cons i "is")
  from Cons.prems obtain m where m: "hm_get (sv_table s) i = Some m" by auto
  let ?m = "ended now (Some reason) (Some r) m"
  define s1 where "s1 = s\<lparr>sv_table := hm_insert i ?m (sv_table s), sv_index := upsert_memory api ?m (sv_index s)\<rparr>"
  have i: "i \<noteq> r" using Cons.prems(2) by auto
  show ?case
  proof (cases "faults i")
    case None
    have inv: "invalidate_and_sync_memory api faults now i (Some reason) (Some r) s = (Inr True, s1)"
      unfolding invalidate_and_sync_spec [OF Cons.prems(1)] s1_def m None by simp
    have ok: "table_ok (sv_table s1)"
      using table_ok_row [OF Cons.prems(1) m] Cons.prems(1) by (simp add: s1_def table_ok_insert)
    have "list_all (\<lambda>i. hm_get (sv_table s1) i \<noteq> None) is"
      using Cons.prems(3) by (auto simp: s1_def list_all_iff)
    moreover have "supersede_loop api faults now reason r is (a @ [i]) b s1 = (res, s')"
      using Cons.prems(4) i inv by simp
    ultimately obtain gone where d: "case res of
        Inl e \<Rightarrow> \<exists>i rest. is = gone @ i # rest \<and> faults i = Some e
      | Inr ab \<Rightarrow> gone = is \<and> ab = ((a @ [i]) @ is, b)"
      and free: "list_all (\<lambda>j. faults j = None) gone" and d2:
      "\<And>j. hm_get (sv_table s') j = (if j \<in> set gone then map_option (ended now (Some reason) (Some r)) (hm_get (sv_table s1) j)
        else hm_get (sv_table s1) j)"
      using Cons.IH [OF ok, of "a @ [i]"] Cons.prems(2) by auto
    have "hm_get (sv_table s') j = (if j \<in> set (i # gone) then map_option (ended now (Some reason) (Some r)) (hm_get (sv_table s) j)
        else hm_get (sv_table s) j)" for j
      unfolding d2 by (simp add: s1_def m)
    moreover have "list_all (\<lambda>j. faults j = None) (i # gone)" using free None by simp
    moreover have "case res of
        Inl e \<Rightarrow> \<exists>k rest. i # is = (i # gone) @ k # rest \<and> faults k = Some e
      | Inr ab \<Rightarrow> i # gone = i # is \<and> ab = (a @ i # is, b)"
      using d by (cases res) simp_all
    ultimately show ?thesis by blast
  next
    case (Some e)
    then have "res = Inl e" "s' = s"
      using Cons.prems(4) i by (simp_all add: invalidate_and_sync_spec [OF Cons.prems(1)])
    with Some show ?thesis by (intro exI [of _ "[]"]) simp
  qed
next
  case Nil
  then have "res = Inr (a, b)" "s' = s" by simp_all
  then show ?case by (intro exI [of _ "[]"]) simp
qed

lemma memory_new_fields [simp]:
  "m_content (memory_new now c) = c" "m_valid_until (memory_new now c) = None"
  by (simp_all add: memory_new_def)

text \<open>A consolidation either stops before it writes anything, or it stores the replacement and runs the loop.\<close>

lemma consolidate_cases:
  assumes "consolidate_memory api env faults now new_id p s = (res, s')"
  obtains e where "res = Inl e" "s' = s"
  | q ty dups look emb s1 loop where "to_memory_query p = Inr q"
    and "find_duplicate_matches now q (sp_content p) (se_hash env (sp_content p)) (sv_table s) = (dups, look)"
    and "create_and_sync_memory api new_id
        (stored_memory env now p ty (importance_or_one (sp_importance_score p)) emb) s = (Inr new_id, s1)"
    and "supersede_loop api faults now (resolved_consolidation_reason (cp_reason p)) new_id (map du_id dups) [] [] s1 =
        (loop, s')"
    and "case loop of
        Inl e \<Rightarrow> res = Inl (SE_App e)
      | Inr (superseded, skipped) \<Rightarrow> (\<exists>rep. res = Inr rep \<and> cr_id rep = new_id \<and>
          cr_superseded_ids rep = superseded \<and> cr_skipped_ids rep = skipped)"
proof -
  have created: "(\<exists>e. x = (Inl e, s)) \<or> (\<exists>s1. x = (Inr new_id, s1))" if "x = create_and_sync_memory api new_id m s" for x m
    unfolding that create_and_sync_spec Let_def by simp
  show ?thesis
  proof (cases "isl res \<and> s' = s")
    case True
    then show ?thesis using that(1) by (auto simp: isl_def)
  next
    case False
    obtain q where q: "to_memory_query p = Inr q"
      using assms False unfolding consolidate_memory_def by (auto split: option.splits sum.splits)
    obtain dups look where d: "find_duplicate_matches now q (sp_content p) (se_hash env (sp_content p)) (sv_table s) = (dups, look)"
      by fastforce
    let ?reason = "resolved_consolidation_reason (cp_reason p)" and ?score = "importance_or_one (sp_importance_score p)"
    have ready: "se_ready env = None"
      using assms False unfolding consolidate_memory_def by (auto split: option.splits)
    obtain ty where ty: "parse_memory_type (sp_memory_type p) = Inr ty"
      using assms False ready unfolding consolidate_memory_def by (auto split: sum.splits)
    define fp where "fp = se_consolidation_fingerprint env (consolidation_payload_of env q (map du_id dups) ?reason ty ?score p)"
    have fresh: "\<not> (trimmed_nonempty (cp_expected_plan_fingerprint p) \<noteq> None \<and> trimmed_nonempty (cp_expected_plan_fingerprint p) \<noteq> Some fp)"
      using assms False unfolding consolidate_memory_def ready option.case ty q sum.case Let_def d prod.case fp_def [symmetric]
      by (auto split: if_splits)
    obtain emb where emb: "se_embed env (sp_content p) = Inr emb"
      using assms False fresh unfolding consolidate_memory_def ready option.case ty q sum.case Let_def d prod.case fp_def [symmetric]
      by (auto split: if_splits sum.splits)
    have run: "(res, s') =
       (case create_and_sync_memory api new_id (stored_memory env now p ty ?score emb) s of
        (Inl e, s1) \<Rightarrow> (Inl (SE_App e), s1)
      | (Inr replacement_id, s1) \<Rightarrow>
     (case supersede_loop api faults now ?reason replacement_id (map du_id dups) [] [] s1 of
        (Inl e, s2) \<Rightarrow> (Inl (SE_App e), s2)
      | (Inr (superseded_ids, skipped_ids), s2) \<Rightarrow>
          (Inr \<lparr>cr_id = replacement_id, cr_plan_fingerprint = fp,
                cr_superseded_ids = superseded_ids, cr_skipped_ids = skipped_ids,
                cr_matched_summary = dups,
                cr_fingerprint_checked = (trimmed_nonempty (cp_expected_plan_fingerprint p) \<noteq> None)\<rparr>, s2)))"
      using assms unfolding consolidate_memory_def ready option.case ty q sum.case Let_def d prod.case fp_def [symmetric]
        if_not_P [OF fresh] emb by (rule sym)
    let ?c = "create_and_sync_memory api new_id (stored_memory env now p ty (importance_or_one (sp_importance_score p)) emb) s"
    from created [OF refl, of "stored_memory env now p ty (importance_or_one (sp_importance_score p)) emb"] run False
    obtain s1 where c: "?c = (Inr new_id, s1)" by auto
    obtain loop s2 where l: "supersede_loop api faults now (resolved_consolidation_reason (cp_reason p)) new_id (map du_id dups) [] [] s1 = (loop, s2)"
      by fastforce
    have "s2 = s' \<and> (case loop of
        Inl e \<Rightarrow> res = Inl (SE_App e)
      | Inr (superseded, skipped) \<Rightarrow> (\<exists>rep. res = Inr rep \<and> cr_id rep = new_id \<and>
          cr_superseded_ids rep = superseded \<and> cr_skipped_ids rep = skipped))"
      using run unfolding c prod.case sum.case l by (cases loop) (auto split: prod.splits)
    with that(2) [OF q d c] l show ?thesis by blast
  qed
qed

text \<open>C13: Consolidation replaces exactly the duplicates. On success the new memory is stored under a fresh id
  and open, the superseded ids are precisely the rows the requested scope shows whose content or
  content hash is that of the new memory, each of them is ended with the resolved reason and a
  pointer to the replacement, none is skipped, and every other row is untouched. An error (not ready,
  bad type, stale preview, embedding or storage failure) has changed nothing, unless the database failed
  the write of one of the duplicates: then the replacement is stored all the same, the duplicates before
  that one, whose writes went through, have been ended in its favour, and the others, the failed one included, are
  untouched.\<close>
theorem consolidation_replaces_duplicates:
  assumes "table_ok (sv_table s)" and "consolidate_memory api env faults now new_id p s = (r, s')"
  defines "duplicates \<equiv>
      {i. case hm_get (sv_table s) i of None \<Rightarrow> False
          | Some m \<Rightarrow> (case to_memory_query p of Inl e \<Rightarrow> False | Inr q \<Rightarrow> base_filter_clause now q m) \<and>
              (m_content_hash m = Some (se_hash env (sp_content p)) \<or> m_content m = sp_content p)}"
    and "replaced \<equiv> (\<lambda>ids.
      hm_get (sv_table s) new_id = None \<and>
      (case hm_get (sv_table s') new_id of None \<Rightarrow> False
       | Some m \<Rightarrow> m_content m = sp_content p \<and> m_valid_until m = None \<and> m_content_hash m = Some (se_hash env (sp_content p))) \<and>
      (\<forall>i. i = new_id \<or> hm_get (sv_table s') i =
         (if i \<in> ids
          then map_option (ended now (Some (resolved_consolidation_reason (cp_reason p))) (Some new_id)) (hm_get (sv_table s) i)
          else hm_get (sv_table s) i)))"
  shows "case r of
      Inl e \<Rightarrow> s' = s \<or>
        (\<exists>ids i e'. ids \<subseteq> duplicates \<inter> {j. faults j = None} \<and> i \<in> duplicates \<and> faults i = Some e' \<and> e = SE_App e' \<and>
           replaced ids)
    | Inr rep \<Rightarrow>
        cr_id rep = new_id \<and> cr_skipped_ids rep = [] \<and> set (cr_superseded_ids rep) = duplicates \<and> replaced duplicates \<and>
        duplicates \<subseteq> {j. faults j = None}"
  using assms(2)
proof (cases rule: consolidate_cases)
  case (2 q ty dups look emb s1 loop)
  let ?h = "se_hash env (sp_content p)" and ?reason = "resolved_consolidation_reason (cp_reason p)"
  define m where "m = stored_memory env now p ty (importance_or_one (sp_importance_score p)) emb"
  have m: "m_content m = sp_content p" "m_valid_until m = None" "m_content_hash m = Some ?h"
    by (simp_all add: m_def stored_memory_def)
  have fresh: "hm_get (sv_table s) new_id = None"
    and s1: "sv_table s1 = hm_insert new_id (m\<lparr>m_id := Some (memory_thing new_id)\<rparr>) (sv_table s)"
    using 2(3) by (auto simp: create_and_sync_spec Let_def m_def split: if_splits)
  have "mq_metadata_filter q = None"
    using 2(1) by (auto simp: to_memory_query_def scope_query_def memory_query_default_def split: sum.splits)
  from find_duplicates_ids [OF assms(1) this, of now "sp_content p" ?h]
  have ids: "set (map du_id dups) = duplicates"
    unfolding 2(2) duplicates_def 2(1) by (simp cong: option.case_cong)
  have ok: "table_ok (sv_table s1)" unfolding s1 by (intro table_ok_insert assms(1)) simp
  have new: "new_id \<notin> set (map du_id dups)" unfolding ids using fresh by (simp add: duplicates_def)
  have "list_all (\<lambda>i. hm_get (sv_table s1) i \<noteq> None) (map du_id dups)"
    unfolding list_all_iff ids s1 by (auto simp: duplicates_def split: option.splits)
  from supersede_loop_spec [OF ok new this 2(4)] obtain gone where
    g: "case loop of
        Inl e \<Rightarrow> \<exists>i rest. map du_id dups = gone @ i # rest \<and> faults i = Some e
      | Inr ab \<Rightarrow> gone = map du_id dups \<and> ab = ([] @ map du_id dups, [])"
    and free: "list_all (\<lambda>i. faults i = None) gone"
    and rows: "\<And>i. hm_get (sv_table s') i = (if i \<in> set gone
       then map_option (ended now (Some ?reason) (Some new_id)) (hm_get (sv_table s1) i) else hm_get (sv_table s1) i)"
    by blast
  have sub: "set gone \<subseteq> set (map du_id dups)" using g by (cases loop) (auto dest: arg_cong [of _ _ set])
  with new have "new_id \<notin> set gone" by blast
  then have "hm_get (sv_table s') new_id = Some (m\<lparr>m_id := Some (memory_thing new_id)\<rparr>)"
    by (simp add: rows s1)
  moreover have "i = new_id \<or> hm_get (sv_table s') i = (if i \<in> set gone
      then map_option (ended now (Some ?reason) (Some new_id)) (hm_get (sv_table s) i) else hm_get (sv_table s) i)" for i
    unfolding rows s1 by simp
  ultimately have rep: "replaced (set gone)"
    unfolding replaced_def using fresh m by simp
  show ?thesis
  proof (cases loop)
    case (Inl e)
    with g obtain i rest where i: "map du_id dups = gone @ i # rest" "faults i = Some e" by auto
    have "i \<in> duplicates" unfolding ids [symmetric] i(1) by simp
    moreover have "set gone \<subseteq> duplicates \<inter> {j. faults j = None}" using sub free unfolding ids by (auto simp: list_all_iff)
    ultimately show ?thesis using Inl 2(5) i(2) rep by auto
  next
    case (Inr ab)
    with g have "gone = map du_id dups" "ab = (map du_id dups, [])" by simp_all
    moreover from this free have "duplicates \<subseteq> {j. faults j = None}" unfolding ids [symmetric] by (auto simp: list_all_iff)
    ultimately show ?thesis using Inr 2(5) rep ids by auto
  qed
qed simp

definition consolidate_example :: consolidate_memory_params where
  "consolidate_example =
     \<lparr>sp_content = ''x'', sp_memory_type = None, sp_user_id = None, sp_agent_id = None, sp_run_id = None,
      sp_namespace = None, sp_importance_score = None, sp_metadata = None, cp_reason = None,
      cp_expected_plan_fingerprint = None\<rparr>"

definition open_example :: "(string, string) hmap memory_service" where
  "open_example =
     \<lparr>sv_table = [(''a'', (memory_new 0 ''x'')\<lparr>m_id := Some (memory_thing ''a'')\<rparr>)], sv_index = empty_index token_engine\<rparr>"

theorem consolidation_replaces_duplicates_witness:
  "case fst (consolidate_memory token_engine example_env no_faults 5 ''b'' consolidate_example open_example) of
     Inl e \<Rightarrow> snd (consolidate_memory token_engine example_env no_faults 5 ''b'' consolidate_example open_example) = open_example
   | Inr rep \<Rightarrow> cr_id rep = ''b'' \<and> cr_skipped_ids rep = [] \<and> ''a'' \<in> set (cr_superseded_ids rep)"
proof -
  have "table_ok (sv_table open_example)" by (simp add: open_example_def table_ok_def hm_ok_def)
  from consolidation_replaces_duplicates [OF this prod.collapse [symmetric],
      of token_engine example_env no_faults 5 "''b''" consolidate_example]
  show ?thesis
    by (auto split: sum.split simp: open_example_def consolidate_example_def to_memory_query_def
      parse_optional_memory_type_def trimmed_nonempty_def base_filter_clause_def scope_clause_def scope_query_def
      memory_query_default_def unset_or_def not_ended_def)
qed

section \<open>Chains of replacements\<close>

definition next_replacement :: "memory_table \<Rightarrow> string \<Rightarrow> string option" where
  "next_replacement t i = (case get_memory t i of Some m \<Rightarrow> m_superseded_by m | None \<Rightarrow> None)"

fun linked :: "(string \<Rightarrow> string option) \<Rightarrow> string list \<Rightarrow> bool" where
  "linked f (a # b # xs) \<longleftrightarrow> f a = Some b \<and> linked f (b # xs)"
| "linked f xs \<longleftrightarrow> True"

lemma linked_snoc: "linked f xs \<Longrightarrow> xs \<noteq> [] \<Longrightarrow> f (last xs) = Some b \<Longrightarrow> linked f (xs @ [b])"
  by (induction f xs rule: linked.induct) auto

lemma lineage_loop_spec:
  assumes "distinct chain" "seen = set chain" "linked (next_replacement t) chain" "length chain < MAX_LINEAGE_DEPTH"
    and "chain \<noteq> [] \<longrightarrow> current = next_replacement t (last chain)"
    and "l = lineage_loop t current seen chain"
  shows "distinct (li_chain_ids l) \<and> linked (next_replacement t) (li_chain_ids l) \<and>
    length (li_chain_ids l) \<le> MAX_LINEAGE_DEPTH \<and> take (length chain) (li_chain_ids l) = chain \<and>
    (chain = [] \<and> current \<noteq> None \<longrightarrow> li_chain_ids l \<noteq> [] \<and> Some (hd (li_chain_ids l)) = current) \<and>
    li_truncated l = (length (li_chain_ids l) = MAX_LINEAGE_DEPTH) \<and> \<not> (li_truncated l \<and> li_cycle_detected l) \<and>
    (li_chain_ids l \<noteq> [] \<and> \<not> li_truncated l \<longrightarrow>
      (case next_replacement t (last (li_chain_ids l)) of
         None \<Rightarrow> \<not> li_cycle_detected l
       | Some i \<Rightarrow> li_cycle_detected l \<and> i \<in> set (li_chain_ids l)))"
  using assms
proof (induction t current seen chain rule: lineage_loop.induct)
  case (1 t current seen chain)
  show ?case
  proof (cases current)
    case None
    with 1 show ?thesis by (subst (asm) lineage_loop.simps) auto
  next
    case (Some i)
    show ?thesis
    proof (cases "i \<in> seen")
      case True
      with 1(2-7) Some have "l = \<lparr>li_chain_ids = chain, li_cycle_detected = True, li_truncated = False\<rparr>"
        by (subst (asm) lineage_loop.simps) simp
      moreover from 1(3,6) True Some have "chain \<noteq> []" "next_replacement t (last chain) = Some i" by auto
      ultimately show ?thesis using 1(2-5) True by simp
    next
      case False
      have link: "linked (next_replacement t) (chain @ [i])"
        using 1(4,6) Some by (cases "chain = []") (auto intro: linked_snoc)
      have dist: "distinct (chain @ [i])" using 1(2,3) False by simp
      show ?thesis
      proof (cases "MAX_LINEAGE_DEPTH \<le> length (chain @ [i])")
        case True
        with 1(7) Some False have "l = \<lparr>li_chain_ids = chain @ [i], li_cycle_detected = False, li_truncated = True\<rparr>"
          by (subst (asm) lineage_loop.simps) simp
        with link dist True 1(5) Some show ?thesis by auto
      next
        case more: False
        with 1(7) Some False have l: "l = lineage_loop t (next_replacement t i) (insert i seen) (chain @ [i])"
          by (subst (asm) lineage_loop.simps) (simp add: next_replacement_def)
        have "insert i seen = set (chain @ [i])" using 1(3) by simp
        from 1(1) [OF Some False more, folded next_replacement_def, OF dist this link _ _ l] more
        have IH: "distinct (li_chain_ids l)" "linked (next_replacement t) (li_chain_ids l)"
          "length (li_chain_ids l) \<le> MAX_LINEAGE_DEPTH" "take (length (chain @ [i])) (li_chain_ids l) = chain @ [i]"
          "li_truncated l = (length (li_chain_ids l) = MAX_LINEAGE_DEPTH)" "\<not> (li_truncated l \<and> li_cycle_detected l)"
          "li_chain_ids l \<noteq> [] \<and> \<not> li_truncated l \<longrightarrow>
            (case next_replacement t (last (li_chain_ids l)) of None \<Rightarrow> \<not> li_cycle_detected l
             | Some i \<Rightarrow> li_cycle_detected l \<and> i \<in> set (li_chain_ids l))"
          by simp_all
        from IH(4) obtain ys where ys: "li_chain_ids l = chain @ i # ys"
          by (metis append_take_drop_id append.assoc append_Cons append_Nil)
        with IH Some show ?thesis by simp
      qed
    qed
  qed
qed

text \<open>The chain of replacements reported with a memory is truthful and bounded: it starts at the memory's
  replacement, follows \<open>superseded_by\<close> from row to row, names no id twice and at most 16; it is
  reported as truncated exactly when it has 16 ids; otherwise it is reported as a cycle exactly when
  its last row points back into it, and else its last id has no replacement.\<close>
theorem replacement_lineage_truthful:
  "let l = replacement_lineage t m; c = li_chain_ids l in
     (case m_superseded_by m of None \<Rightarrow> c = [] \<and> \<not> li_cycle_detected l | Some i \<Rightarrow> c \<noteq> [] \<and> hd c = i) \<and>
     distinct c \<and> length c \<le> 16 \<and> linked (next_replacement t) c \<and> li_truncated l = (length c = 16) \<and>
     (if c = [] \<or> li_truncated l then \<not> li_cycle_detected l
      else case next_replacement t (last c) of
             None \<Rightarrow> \<not> li_cycle_detected l
           | Some i \<Rightarrow> li_cycle_detected l \<and> i \<in> set c)"
proof (cases "m_superseded_by m")
  case None
  then show ?thesis by (simp add: replacement_lineage_def)
next
  case (Some i)
  have "linked (next_replacement t) []" by simp
  from lineage_loop_spec [where chain = "[]" and seen = "{}" and current = "Some i" and t = t, OF _ _ this _ _ refl]
  show ?thesis using Some
    by (simp add: replacement_lineage_def Let_def MAX_LINEAGE_DEPTH_def split: option.splits) blast?
qed

end
