(* ===== verification/RetrievalQuery.thy ===== *)
theory RetrievalQuery
  imports Prelude
begin

text \<open>
  The preparation of retrieval queries in \<open>src/server/logic/search.rs\<close>: the part of a pasted prompt that
  is worth searching for, squeezed to single blanks and cut at 4096 characters. Text is ASCII, so byte
  offsets are character positions.
\<close>

section \<open>Searching in text\<close>

definition is_prefix :: "string \<Rightarrow> string \<Rightarrow> bool" where
  "is_prefix p s \<longleftrightarrow> take (length p) s = p"

text \<open>\<open>str::contains\<close> and \<open>str::rfind\<close>.\<close>

fun str_contains :: "string \<Rightarrow> string \<Rightarrow> bool" where
  "str_contains [] p = (p = [])"
| "str_contains (c # cs) p = (is_prefix p (c # cs) \<or> str_contains cs p)"

fun str_rfind :: "string \<Rightarrow> string \<Rightarrow> nat option" where
  "str_rfind [] p = (if p = [] then Some 0 else None)"
| "str_rfind (c # cs) p =
     (case str_rfind cs p of
        Some i \<Rightarrow> Some (i + 1)
      | None \<Rightarrow> if is_prefix p (c # cs) then Some 0 else None)"

section \<open>Choosing the candidate\<close>

definition MAX_MEMORY_RETRIEVAL_QUERY_CHARS :: nat where "MAX_MEMORY_RETRIEVAL_QUERY_CHARS = 4096"

definition task_markers :: "string list" where
  "task_markers = [''## 1. TASK'', ''## TASK'', ''# TASK'', ''TASK:'']"

fun first_marker :: "string \<Rightarrow> string list \<Rightarrow> string option" where
  "first_marker query [] = None"
| "first_marker query (marker # ms) =
     (case str_rfind query marker of Some index \<Rightarrow> Some (drop index query) | None \<Rightarrow> first_marker query ms)"

definition find_task_section :: "string \<Rightarrow> string option" where
  "find_task_section query = first_marker query task_markers"

definition after_work_context :: "string \<Rightarrow> (string \<times> string) option" where
  "after_work_context query =
     (case str_rfind query ''</Work_Context>'' of
        None \<Rightarrow> None
      | Some index \<Rightarrow>
          (let after_context = index + length ''</Work_Context>''
           in if after_context < length query then
                (let tail = drop after_context query
                 in if trim tail \<noteq> [] then
                      (case find_task_section tail of
                         Some task_section \<Rightarrow> Some (task_section, ''task_section'')
                       | None \<Rightarrow> Some (tail, ''post_work_context''))
                    else None)
              else None))"

definition extract_retrieval_query_candidate :: "string \<Rightarrow> string \<times> string" where
  "extract_retrieval_query_candidate query =
     (let looks_like_prompt_context =
        (str_contains query ''<system-reminder'' \<or> str_contains query ''<Work_Context>'' \<or>
         str_contains query ''<!-- MEMORY_MCP_INTERNAL_INITIATOR -->'')
      in if \<not> looks_like_prompt_context then (query, ''direct'')
         else
           (case after_work_context query of
              Some found \<Rightarrow> found
            | None \<Rightarrow>
                (case find_task_section query of
                   Some task_section \<Rightarrow> (task_section, ''task_section'')
                 | None \<Rightarrow>
                     (case str_rfind query ''<Work_Context>'' of
                        Some index \<Rightarrow> (drop index query, ''work_context'')
                      | None \<Rightarrow> (query, ''prompt_context'')))))"

section \<open>Normalising and limiting\<close>

text \<open>The loop: the text so far, whether its last character was a blank, and the number of characters
  written. The answer is the text and whether something was cut off.\<close>

fun limit_loop :: "nat \<Rightarrow> string \<Rightarrow> string \<Rightarrow> bool \<Rightarrow> nat \<Rightarrow> string \<times> bool" where
  "limit_loop max_chars [] text previous_was_space written = (text, False)"
| "limit_loop max_chars (ch # chars) text previous_was_space written =
     (if is_whitespace ch \<and> (text = [] \<or> previous_was_space)
      then limit_loop max_chars chars text previous_was_space written
      else
        (let next = (if is_whitespace ch then CHR '' '' else ch);
             previous1 = is_whitespace ch
         in if written \<ge> max_chars
            then (text, \<not> is_whitespace ch \<or> list_ex (\<lambda>r. \<not> is_whitespace r) chars)
            else limit_loop max_chars chars (text @ [next]) previous1 (written + 1)))"

definition pop_space :: "string \<Rightarrow> string" where
  "pop_space text = (if text \<noteq> [] \<and> last text = CHR '' '' then butlast text else text)"

definition normalize_and_limit_retrieval_query :: "string \<Rightarrow> string \<times> bool" where
  "normalize_and_limit_retrieval_query candidate =
     (case limit_loop MAX_MEMORY_RETRIEVAL_QUERY_CHARS candidate [] False 0 of
        (text, truncated) \<Rightarrow> (pop_space text, truncated))"

record effective_query =
  eq_text :: string
  eq_original_chars :: nat
  eq_effective_chars :: nat
  eq_truncated :: bool
  eq_source :: string

definition effective_retrieval_query :: "string \<Rightarrow> effective_query" where
  "effective_retrieval_query query =
     (case extract_retrieval_query_candidate query of (candidate, source) \<Rightarrow>
     (case normalize_and_limit_retrieval_query candidate of (text, truncated) \<Rightarrow>
        (if text = [] \<and> trim query \<noteq> [] then
           (case normalize_and_limit_retrieval_query query of (text1, truncated1) \<Rightarrow>
              \<lparr>eq_text = text1, eq_original_chars = length query, eq_effective_chars = length text1,
               eq_truncated = truncated1, eq_source = ''direct_fallback''\<rparr>)
         else \<lparr>eq_text = text, eq_original_chars = length query, eq_effective_chars = length text,
               eq_truncated = truncated, eq_source = source\<rparr>)))"

text \<open>\<open>split_whitespace().collect().join(" ")\<close>: the words of a text, and the words with single blanks
  between them.\<close>

fun split_whitespace :: "string \<Rightarrow> string list" where
  "split_whitespace [] = []"
| "split_whitespace (c # cs) =
     (if is_whitespace c then split_whitespace cs
      else (case cs of
              [] \<Rightarrow> [[c]]
            | d # ds \<Rightarrow> if is_whitespace d then [c] # split_whitespace cs
                        else (case split_whitespace cs of w # ws \<Rightarrow> (c # w) # ws | [] \<Rightarrow> [[c]])))"

fun join_space :: "string list \<Rightarrow> string" where
  "join_space [] = []"
| "join_space [w] = w"
| "join_space (w # v # ws) = w @ CHR '' '' # join_space (v # ws)"

definition normalize_memory_content :: "string \<Rightarrow> string" where
  "normalize_memory_content content = join_space (split_whitespace content)"

section \<open>The loop computes the normal form\<close>

text \<open>The characters the unlimited loop would write.\<close>

fun eager :: "bool \<Rightarrow> string \<Rightarrow> string" where
  "eager skip [] = []"
| "eager skip (c # cs) =
     (if is_whitespace c then (if skip then eager True cs else CHR '' '' # eager True cs) else c # eager False cs)"

abbreviation blank :: "string \<Rightarrow> bool" where
  "blank s \<equiv> list_all is_whitespace s"

lemma whitespace_space [simp]: "is_whitespace (CHR '' '')"
  by (simp add: is_whitespace_def char_code_def)

lemma list_ex_eager: "list_ex (\<lambda>c. c \<noteq> CHR '' '') (eager skip s) = list_ex (\<lambda>c. \<not> is_whitespace c) s"
  by (induction s arbitrary: skip) auto

lemma limit_loop_eager:
  assumes "written = length out" "written \<le> n" "skip \<longleftrightarrow> out = [] \<or> prev"
  shows "limit_loop n s out prev written =
    (take n (out @ eager skip s),
     list_ex (\<lambda>c. c \<noteq> CHR '' '') (drop (n - length out) (eager skip s)))"
  using assms
proof (induction s arbitrary: out prev written skip)
  case (Cons c cs)
  show ?case
  proof (cases "is_whitespace c \<and> skip")
    case True
    with Cons.prems have "limit_loop n (c # cs) out prev written = limit_loop n cs out prev written" by simp
    also have "\<dots> = (take n (out @ eager skip cs), list_ex (\<lambda>c. c \<noteq> CHR '' '') (drop (n - length out) (eager skip cs)))"
      by (rule Cons.IH [OF Cons.prems])
    finally show ?thesis using True by simp
  next
    case kept: False
    show ?thesis
    proof (cases "n \<le> written")
      case True
      with kept Cons.prems show ?thesis
        by (auto simp: list_ex_eager)
    next
      case False
      let ?next = "if is_whitespace c then CHR '' '' else c"
      have "limit_loop n (c # cs) out prev written = limit_loop n cs (out @ [?next]) (is_whitespace c) (written + 1)"
        using kept False Cons.prems(3) by (auto simp: Let_def)
      also have "\<dots> = (take n ((out @ [?next]) @ eager (is_whitespace c) cs),
          list_ex (\<lambda>c. c \<noteq> CHR '' '') (drop (n - length (out @ [?next])) (eager (is_whitespace c) cs)))"
        by (rule Cons.IH) (use False Cons.prems(1) in auto)
      also have "\<dots> = (take n (out @ eager skip (c # cs)),
          list_ex (\<lambda>c. c \<noteq> CHR '' '') (drop (n - length out) (eager skip (c # cs))))"
      proof -
        obtain k where "n - length out = Suc k" "n - Suc (length out) = k"
          using False Cons.prems(1) by (cases "n - length out") auto
        then show ?thesis using kept False Cons.prems(1) by auto
      qed
      finally show ?thesis .
    qed
  qed
qed simp

text \<open>The normal form, and how it grows with the text.\<close>

lemma split_whitespace_Cons:
  "split_whitespace (c # cs) =
     (if is_whitespace c then split_whitespace cs
      else if cs = [] \<or> is_whitespace (hd cs) then [c] # split_whitespace cs
      else (case split_whitespace cs of w # ws \<Rightarrow> (c # w) # ws | [] \<Rightarrow> [[c]]))"
  by (cases cs) simp_all

declare split_whitespace.simps(2) [simp del]

lemma split_whitespace_Nil: "split_whitespace s = [] \<longleftrightarrow> list_all is_whitespace s"
  by (induction s) (auto simp: split_whitespace_Cons split: list.split)

lemma words_nonempty: "\<forall>w\<in>set (split_whitespace s). w \<noteq> []"
  by (induction s) (auto simp: split_whitespace_Cons split: list.split)

lemma join_space_Cons: "join_space (w # ws) = w @ (if ws = [] then [] else CHR '' '' # join_space ws)"
  by (cases ws) simp_all

lemma join_space_push: "join_space ((c # w) # ws) = c # join_space (w # ws)"
  by (cases ws) simp_all

lemma normal_Nil: "normalize_memory_content s = [] \<longleftrightarrow> list_all is_whitespace s"
proof -
  have "join_space ws = [] \<longleftrightarrow> ws = []" if "\<And>w. w \<in> set ws \<Longrightarrow> w \<noteq> []" for ws
    using that by (cases ws) (auto simp: join_space_Cons)
  then show ?thesis unfolding normalize_memory_content_def using words_nonempty [of s] split_whitespace_Nil [of s] by blast
qed

lemma normal_Cons:
  "normalize_memory_content (c # cs) =
     (if is_whitespace c then normalize_memory_content cs
      else c # (if cs \<noteq> [] \<and> is_whitespace (hd cs) \<and> normalize_memory_content cs \<noteq> []
                then CHR '' '' # normalize_memory_content cs else normalize_memory_content cs))"
proof (cases "is_whitespace c \<or> cs = []")
  case True
  then show ?thesis by (auto simp: normalize_memory_content_def split_whitespace_Cons)
next
  case False
  then obtain d ds where cs: "cs = d # ds" by (cases cs) auto
  show ?thesis
  proof (cases "is_whitespace d")
    case True
    with False cs show ?thesis
      using normal_Nil [of cs] split_whitespace_Nil [of cs]
      by (auto simp: normalize_memory_content_def join_space_Cons split_whitespace_Cons [of c])
  next
    case nonblank: False
    then have "split_whitespace cs \<noteq> []" unfolding split_whitespace_Nil cs by simp
    then obtain w ws where "split_whitespace cs = w # ws" by (cases "split_whitespace cs") auto
    with False cs nonblank show ?thesis by (simp add: normalize_memory_content_def join_space_push split_whitespace_Cons [of c])
  qed
qed

lemma eager_normal:
  "eager True s = normalize_memory_content s @
     (if s \<noteq> [] \<and> is_whitespace (last s) \<and> normalize_memory_content s \<noteq> [] then '' '' else []) \<and>
   eager False s = (if s \<noteq> [] \<and> is_whitespace (hd s) then '' '' else []) @ eager True s"
proof (induction s)
  case Nil
  then show ?case by (simp add: normalize_memory_content_def)
next
  case (Cons c cs)
  have blank: "is_whitespace (hd cs) \<and> is_whitespace (last cs)" if "cs \<noteq> []" "normalize_memory_content cs = []"
    using that unfolding normal_Nil list_all_iff by simp
  have "normalize_memory_content cs \<noteq> []" if "cs \<noteq> []" "\<not> is_whitespace (hd cs)"
    using blank that by blast
  with Cons.IH blank show ?case
    by (cases "cs = []"; cases "is_whitespace c"; cases "is_whitespace (hd cs)"; cases "normalize_memory_content cs = []")
      (simp_all add: normal_Cons [of c])
qed

lemma normal_ends:
  "normalize_memory_content s \<noteq> [] \<Longrightarrow>
   \<not> is_whitespace (hd (normalize_memory_content s)) \<and> \<not> is_whitespace (last (normalize_memory_content s))"
  by (induction s) (auto simp: normal_Cons normal_Nil)

lemma pop_space_id: "s = [] \<or> \<not> is_whitespace (last s) \<Longrightarrow> pop_space s = s"
  by (auto simp: pop_space_def)

lemma normalize_and_limit_exact:
  "normalize_and_limit_retrieval_query s =
     (pop_space (take MAX_MEMORY_RETRIEVAL_QUERY_CHARS (normalize_memory_content s)),
      MAX_MEMORY_RETRIEVAL_QUERY_CHARS < length (normalize_memory_content s))"
proof -
  let ?n = MAX_MEMORY_RETRIEVAL_QUERY_CHARS and ?W = "normalize_memory_content s"
  obtain t where t: "eager True s = ?W @ t" "t = [] \<or> t = '' '' \<and> ?W \<noteq> []"
    using eager_normal [of s] by (metis append_Nil2)
  have loop: "limit_loop ?n s [] False 0 = (take ?n (?W @ t), list_ex (\<lambda>c. c \<noteq> CHR '' '') (drop ?n (?W @ t)))"
    using limit_loop_eager [of 0 "[]" ?n True False s] by (simp add: t(1))
  have W: "?W = [] \<or> \<not> is_whitespace (last ?W)" using normal_ends [of s] by blast
  show ?thesis
  proof (cases "?n < length ?W")
    case True
    then have "drop ?n ?W \<noteq> []" by simp
    moreover have "last (drop ?n ?W) \<noteq> CHR '' ''" using W True by (auto simp: last_drop)
    ultimately have "list_ex (\<lambda>c. c \<noteq> CHR '' '') (drop ?n ?W)" unfolding list_ex_iff by (meson last_in_set)
    with True show ?thesis by (simp add: normalize_and_limit_retrieval_query_def loop)
  next
    case False
    then have d: "\<not> list_ex (\<lambda>c. c \<noteq> CHR '' '') (drop ?n (?W @ t))"
      using t(2) by (cases "?n - length ?W") auto
    have "pop_space (take ?n (?W @ t)) = ?W"
      using False t(2) W pop_space_id [OF W] by (cases "?n - length ?W") (auto simp: pop_space_def)
    with False d pop_space_id [OF W] show ?thesis by (simp add: normalize_and_limit_retrieval_query_def loop)
  qed
qed

lemma limited_Nil:
  "fst (normalize_and_limit_retrieval_query s) = [] \<longleftrightarrow> list_all is_whitespace s"
proof (cases "normalize_memory_content s")
  case Nil
  then show ?thesis using normal_Nil [of s] by (simp add: normalize_and_limit_exact pop_space_def)
next
  case (Cons c w)
  then have "\<not> is_whitespace c" using normal_ends [of s] by simp
  then have "pop_space (take MAX_MEMORY_RETRIEVAL_QUERY_CHARS (c # w)) \<noteq> []"
    by (auto simp: pop_space_def MAX_MEMORY_RETRIEVAL_QUERY_CHARS_def take_Cons')
  then show ?thesis using Cons normal_Nil [of s] by (simp add: normalize_and_limit_exact)
qed

section \<open>The candidate is a suffix of the query\<close>

lemma first_marker_suffix: "first_marker s ms = Some c \<Longrightarrow> \<exists>n. c = drop n s"
  by (induction ms) (auto split: option.splits)

lemma candidate_suffix:
  assumes "extract_retrieval_query_candidate s = (c, source)"
  shows "\<exists>n. c = drop n s"
proof -
  have after: "\<exists>n. c = drop n s" if "after_work_context s = Some (c, source)" for c source
    using that first_marker_suffix [of _ task_markers]
    by (force simp: after_work_context_def find_task_section_def Let_def split: option.splits if_splits)
  show ?thesis
  proof (cases "after_work_context s")
    case (Some r)
    with assms after [of c source] show ?thesis
      by (cases r) (auto simp: extract_retrieval_query_candidate_def Let_def split: if_splits intro: exI [of _ 0])
  next
    case None
    with assms show ?thesis
      using first_marker_suffix [of s task_markers]
      by (auto simp: extract_retrieval_query_candidate_def Let_def find_task_section_def
          split: if_splits option.splits intro: exI [of _ 0])
  qed
qed

text \<open>The query that is searched for is the normal form (the words with single blanks between them) of a
  suffix of the given text, cut at 4096 characters without a trailing blank; it is reported as
  truncated exactly when the normal form is longer, and it is empty only for a blank query. A query
  without markers of a pasted prompt is searched for as a whole.\<close>
theorem effective_query_exact:
  "let e = effective_retrieval_query query in
     (\<exists>n. let c = normalize_memory_content (drop n query) in
        eq_text e = pop_space (take 4096 c) \<and> eq_truncated e = (4096 < length c) \<and>
        (if eq_source e \<in> {''direct'', ''direct_fallback'', ''prompt_context''} then drop n query = query else True)) \<and>
     (eq_text e = []) = (trim query = []) \<and> length (eq_text e) \<le> 4096 \<and>
     eq_original_chars e = length query \<and> eq_effective_chars e = length (eq_text e)"
proof -
  obtain c source where cand: "extract_retrieval_query_candidate query = (c, source)" by fastforce
  obtain n where n: "c = drop n query" using candidate_suffix [OF cand] by blast
  have whole: "source \<in> {''direct'', ''direct_fallback'', ''prompt_context''} \<longrightarrow> c = query"
    using cand by (auto simp: extract_retrieval_query_candidate_def after_work_context_def Let_def
        split: if_splits option.splits)
  let ?N = normalize_and_limit_retrieval_query
  have len: "length (pop_space s) \<le> length s" for s by (simp add: pop_space_def)
  have le: "length (fst (?N s)) \<le> 4096" for s
    using len [of "take 4096 (normalize_memory_content s)"]
    by (simp add: normalize_and_limit_exact MAX_MEMORY_RETRIEVAL_QUERY_CHARS_def)
  have exact: "?N s = (pop_space (take 4096 (normalize_memory_content s)), 4096 < length (normalize_memory_content s))" for s
    by (simp only: normalize_and_limit_exact MAX_MEMORY_RETRIEVAL_QUERY_CHARS_def)
  show ?thesis
  proof (cases "fst (?N c) = [] \<and> trim query \<noteq> []")
    case True
    then have "effective_retrieval_query query =
        \<lparr>eq_text = fst (?N query), eq_original_chars = length query, eq_effective_chars = length (fst (?N query)),
         eq_truncated = snd (?N query), eq_source = ''direct_fallback''\<rparr>"
      by (simp add: effective_retrieval_query_def cand split_beta)
    moreover have "fst (?N query) \<noteq> []" using True by (simp add: limited_Nil trim_Nil_iff)
    ultimately show ?thesis using True le [of query]
      unfolding Let_def by (intro conjI exI [of _ 0]) (simp_all add: exact)
  next
    case False
    then have e: "effective_retrieval_query query =
        \<lparr>eq_text = fst (?N c), eq_original_chars = length query, eq_effective_chars = length (fst (?N c)),
         eq_truncated = snd (?N c), eq_source = source\<rparr>"
      by (auto simp: effective_retrieval_query_def cand split_beta)
    have "fst (?N c) = [] \<longleftrightarrow> trim query = []"
      using False in_set_dropD [of _ n query] unfolding limited_Nil trim_Nil_iff n list_all_iff by blast
    with whole le [of c] show ?thesis
      unfolding Let_def e by (intro conjI exI [of _ n]) (auto simp: exact n)
  qed
qed

end
