(* ===== verification/MemorySearch.thy ===== *)
theory MemorySearch
  imports MemoryService GraphStore RankFusion PageRank RetrievalQuery
begin

text \<open>
  Retrieval of memories (\<open>src/server/logic/search.rs\<close>): the vector and lexical searches and \<open>recall\<close>,
  which fuses both with a graph ranking. The nearest-neighbour operator of the database, the clock, the
  parser of timestamps and the rendering of timestamps are parameters; the vector search around the operator, the
  lexical index, the rank fusion, the PageRank and the decay are the ones of their theories. Scores are exact reals.
\<close>

section \<open>Parameters\<close>

record filter_params =
  fp_user_id :: "string option"
  fp_agent_id :: "string option"
  fp_run_id :: "string option"
  fp_namespace :: "string option"
  fp_memory_type :: "string option"
  fp_metadata_filter :: "json option"
  fp_valid_at :: "string option"
  fp_event_after :: "string option"
  fp_event_before :: "string option"
  fp_ingestion_after :: "string option"
  fp_ingestion_before :: "string option"

record search_params = filter_params +
  qp_query :: string
  qp_limit :: "nat option"
  qp_min_score :: "real option"

record recall_params = search_params +
  qp_vector_weight :: "real option"
  qp_bm25_weight :: "real option"
  qp_ppr_weight :: "real option"

record search_env =
  sx_service :: service_env
  sx_decay_enabled :: bool
  sx_embedding_ready :: bool
  sx_parse_time :: "string \<Rightarrow> datetime option"
  sx_fmt_time :: "datetime \<Rightarrow> json"
  sx_vector :: vector_engine

definition parse_optional_datetime ::
  "(string \<Rightarrow> datetime option) \<Rightarrow> string option \<Rightarrow> string \<Rightarrow> datetime option service_result" where
  "parse_optional_datetime parse value field =
     (case trimmed_nonempty value of
        Some v \<Rightarrow> (case parse v of
                     Some ts \<Rightarrow> Inr (Some ts)
                   | None \<Rightarrow> Inl (SE_Message (''Invalid '' @ field @ '' format. Use ISO 8601'')))
      | None \<Rightarrow> Inr None)"

definition filters_of ::
  "(string \<Rightarrow> datetime option) \<Rightarrow> string \<Rightarrow> 'a filter_params_scheme \<Rightarrow> memory_query service_result" where
  "filters_of parse valid_at_field p =
     (case parse_optional_memory_type (fp_memory_type p) of Inl e \<Rightarrow> Inl e | Inr ty \<Rightarrow>
     (case parse_optional_datetime parse (fp_valid_at p) valid_at_field of Inl e \<Rightarrow> Inl e | Inr valid_at \<Rightarrow>
     (case parse_optional_datetime parse (fp_event_after p) ''event_after'' of Inl e \<Rightarrow> Inl e | Inr event_after \<Rightarrow>
     (case parse_optional_datetime parse (fp_event_before p) ''event_before'' of Inl e \<Rightarrow> Inl e | Inr event_before \<Rightarrow>
     (case parse_optional_datetime parse (fp_ingestion_after p) ''ingestion_after'' of Inl e \<Rightarrow> Inl e | Inr ingestion_after \<Rightarrow>
     (case parse_optional_datetime parse (fp_ingestion_before p) ''ingestion_before'' of Inl e \<Rightarrow> Inl e | Inr ingestion_before \<Rightarrow>
        Inr \<lparr>mq_user_id = fp_user_id p, mq_agent_id = fp_agent_id p, mq_run_id = fp_run_id p,
             mq_namespace = fp_namespace p, mq_memory_type = ty, mq_metadata_filter = fp_metadata_filter p,
             mq_valid_at = valid_at, mq_event_after = event_after, mq_event_before = event_before,
             mq_ingestion_after = ingestion_after, mq_ingestion_before = ingestion_before\<rparr>))))))"

definition search_memory_query ::
  "(string \<Rightarrow> datetime option) \<Rightarrow> 'a filter_params_scheme \<Rightarrow> memory_query service_result" where
  "search_memory_query parse p = filters_of parse ''valid_at'' p"

definition overfetch_limit :: "nat \<Rightarrow> memory_query \<Rightarrow> nat" where
  "overfetch_limit limit filters = (if is_unfiltered filters then limit * 3 else limit * 5)"

section \<open>What is reported with a result\<close>

fun lifecycle_state_name :: "memory_lifecycle_state \<Rightarrow> string" where
  "lifecycle_state_name ML_Active = ''active''"
| "lifecycle_state_name ML_Candidate = ''candidate''"
| "lifecycle_state_name ML_Rejected = ''rejected''"
| "lifecycle_state_name ML_Superseded = ''superseded''"
| "lifecycle_state_name ML_Archived = ''archived''"
| "lifecycle_state_name ML_Invalidated = ''invalidated''"
| "lifecycle_state_name ML_Unknown = ''unknown''"

definition json_str_opt :: "string option \<Rightarrow> json" where
  "json_str_opt v = (case v of Some s \<Rightarrow> JStr s | None \<Rightarrow> JNull)"

definition consolidation_trace_from_result ::
  "(datetime \<Rightarrow> json) \<Rightarrow> datetime \<Rightarrow> search_result \<Rightarrow> json" where
  "consolidation_trace_from_result fmt now r =
     (let invalidated = (sr_valid_until r \<noteq> None \<or> sr_invalidation_reason r \<noteq> None);
          m = (memory_new now (sr_content r))
                \<lparr>m_memory_type := sr_memory_type r, m_user_id := sr_user_id r, m_agent_id := sr_agent_id r,
                 m_run_id := sr_run_id r, m_namespace := sr_namespace r, m_metadata := sr_metadata r,
                 m_importance_score := sr_importance_score r, m_valid_until := sr_valid_until r,
                 m_invalidation_reason := sr_invalidation_reason r, m_superseded_by := sr_superseded_by r\<rparr>;
          lifecycle = derive_memory_lifecycle m now retention_policy_default
      in JObj [(''status'', JStr (replacement_kind invalidated (sr_superseded_by r))),
               (''invalidated'', JBool invalidated),
               (''invalidation_reason'', json_str_opt (sr_invalidation_reason r)),
               (''superseded_by'', json_str_opt (sr_superseded_by r)),
               (''has_replacement'', JBool (sr_superseded_by r \<noteq> None)),
               (''lifecycle_state'', JStr (lifecycle_state_name (lv_lifecycle_state lifecycle))),
               (''default_search_visible'', JBool (lv_default_search_visible lifecycle)),
               (''purge_eligible'', JBool (lv_purge_eligible lifecycle)),
               (''retention_reason'', JStr (lv_retention_reason lifecycle)),
               (''eligible_after'', case lv_eligible_after lifecycle of Some ts \<Rightarrow> fmt ts | None \<Rightarrow> JNull),
               (''pinned'', JBool (lv_pinned lifecycle))])"

definition replacement_lineage_from_result :: "search_result \<Rightarrow> json" where
  "replacement_lineage_from_result r =
     (case sr_superseded_by r of
        Some i \<Rightarrow> JObj [(''chain_ids'', JArr [JStr i]), (''depth'', JNum 1), (''terminal_replacement_id'', JStr i),
                         (''cycle_detected'', JBool False), (''truncated'', JBool False)]
      | None \<Rightarrow> JObj [(''chain_ids'', JArr []), (''depth'', JNum 0), (''terminal_replacement_id'', JNull),
                        (''cycle_detected'', JBool False), (''truncated'', JBool False)])"

definition json_field :: "json \<Rightarrow> string \<Rightarrow> json" where
  "json_field j k = (case json_get j k of Some v \<Rightarrow> v | None \<Rightarrow> JNull)"

definition attention_summary_from_result :: "search_result \<Rightarrow> json" where
  "attention_summary_from_result r =
     (let lineage = replacement_lineage_from_result r
      in JObj [(''requires_operator_attention'', JBool False), (''attention_flags'', JArr []),
               (''multiple_matches'', JBool False), (''partial_supersede'', JBool False),
               (''lineage_cycle_detected'', json_field lineage ''cycle_detected''),
               (''lineage_truncated'', json_field lineage ''truncated''),
               (''lineage_depth'', json_field lineage ''depth''),
               (''fingerprint_checked'', JBool False)])"

definition operator_summary_from_result :: "(datetime \<Rightarrow> json) \<Rightarrow> datetime \<Rightarrow> search_result \<Rightarrow> json" where
  "operator_summary_from_result fmt now r =
     (let trace = consolidation_trace_from_result fmt now r;
          lineage = replacement_lineage_from_result r;
          attention = attention_summary_from_result r;
          requires_operator_attention = (json_get attention ''requires_operator_attention'' = Some (JBool True));
          primary_signal = (if requires_operator_attention then ''attention_summary'' else ''consolidation_trace'')
      in JObj [(''stage'', JStr ''retrieval''), (''primary_signal'', JStr primary_signal),
               (''requires_operator_attention'', JBool requires_operator_attention),
               (''attention_flags'', json_field attention ''attention_flags''),
               (''lifecycle_status'', json_field trace ''status''),
               (''lineage_depth'', json_field lineage ''depth''),
               (''available_sections'', JArr [JStr ''consolidation_trace'', JStr ''replacement_lineage'',
                                              JStr ''attention_summary''])])"

definition enrich_result_truth :: "(datetime \<Rightarrow> json) \<Rightarrow> datetime \<Rightarrow> search_result \<Rightarrow> search_result" where
  "enrich_result_truth fmt now r =
     r\<lparr>sr_consolidation_trace := Some (consolidation_trace_from_result fmt now r),
       sr_replacement_lineage := Some (replacement_lineage_from_result r),
       sr_attention_summary := Some (attention_summary_from_result r),
       sr_operator_summary := Some (operator_summary_from_result fmt now r)\<rparr>"

definition enrich_results_truth ::
  "(datetime \<Rightarrow> json) \<Rightarrow> datetime \<Rightarrow> search_result list \<Rightarrow> search_result list" where
  "enrich_results_truth fmt now rs = map (enrich_result_truth fmt now) rs"

section \<open>Duplicate results\<close>

definition dedup_key :: "search_result \<Rightarrow> string" where
  "dedup_key r =
     (case sr_content_hash r of
        Some h \<Rightarrow> if h \<noteq> [] then ''h:'' @ h
                  else ''c:'' @ str_lower (normalize_memory_content (sr_content r))
      | None \<Rightarrow> ''c:'' @ str_lower (normalize_memory_content (sr_content r)))"

text \<open>The loop that keeps the first result of every key until \<open>limit\<close> are kept.\<close>

fun keep_first :: "('a \<Rightarrow> string) \<Rightarrow> nat \<Rightarrow> string set \<Rightarrow> 'a list \<Rightarrow> 'a list \<Rightarrow> 'a list" where
  "keep_first key limit seen out [] = out"
| "keep_first key limit seen out (r # rs) =
     (if key r \<in> seen then keep_first key limit seen out rs
      else
        (let out1 = out @ [r]
         in if length out1 \<ge> limit then out1 else keep_first key limit (insert (key r) seen) out1 rs))"

definition dedup_memory_results :: "search_result list \<Rightarrow> nat \<Rightarrow> search_result list" where
  "dedup_memory_results results limit =
     keep_first dedup_key limit {} [] (sort_by (\<lambda>a b. sr_score b \<le> sr_score a) results)"

section \<open>Scores\<close>

record scored_memory =
  sm_id :: string
  sm_content :: string
  sm_memory_type :: memory_type
  sm_score :: real
  sm_decay_factor :: real
  sm_vector_score :: real
  sm_bm25_score :: real
  sm_ppr_score :: real
  sm_importance_score :: real
  sm_channels :: "string list"
  sm_user_id :: "string option"
  sm_agent_id :: "string option"
  sm_run_id :: "string option"
  sm_namespace :: "string option"
  sm_metadata :: "json option"
  sm_superseded_by :: "string option"
  sm_valid_until :: "datetime option"
  sm_invalidation_reason :: "string option"
  sm_consolidation_trace :: "json option"
  sm_replacement_lineage :: "json option"
  sm_attention_summary :: "json option"
  sm_operator_summary :: "json option"

definition channel_names :: "real \<Rightarrow> real \<Rightarrow> real \<Rightarrow> string list" where
  "channel_names vector_score bm25_score ppr_score =
     (if vector_score > 0 then [''vector''] else []) @ (if bm25_score > 0 then [''bm25''] else []) @
     (if ppr_score > 0 then [''ppr''] else [])"

definition importance_multiplier :: "real \<Rightarrow> real" where
  "importance_multiplier importance_score = sqrt (min (max importance_score (1 / 4)) 4)"

text \<open>The decay of one result, shared by the single searches and \<open>recall\<close>.\<close>

definition decayed_score :: "bool \<Rightarrow> datetime \<Rightarrow> search_result \<Rightarrow> real \<Rightarrow> real \<times> real" where
  "decayed_score decay_on now r base_score =
     (if decay_on then
        (let anchor = (case sr_event_time r of Some ts \<Rightarrow> Some ts | None \<Rightarrow> sr_ingestion_time r);
             actual_age_days = max (case anchor of Some ts \<Rightarrow> of_int (now - ts) / 86400000 | None \<Rightarrow> 0) 0;
             effective_age = effective_age_days actual_age_days (sr_access_count r);
             decay = decay_factor effective_age (sr_memory_type r);
             reinforcement = reinforcement_bonus (sr_access_count r)
         in (decay, apply_decay_scoring base_score decay reinforcement))
      else (1, base_score))"

definition scored_of ::
  "search_result \<Rightarrow> memory_type \<Rightarrow> real \<times> real \<Rightarrow> real \<Rightarrow> real \<Rightarrow> real \<Rightarrow> scored_memory" where
  "scored_of r mem_type decay_and_score vector_score bm25_score ppr_score =
     \<lparr>sm_id = sr_id r, sm_content = sr_content r, sm_memory_type = mem_type,
      sm_score = snd decay_and_score, sm_decay_factor = fst decay_and_score,
      sm_vector_score = vector_score, sm_bm25_score = bm25_score, sm_ppr_score = ppr_score,
      sm_importance_score = sr_importance_score r,
      sm_channels = channel_names vector_score bm25_score ppr_score,
      sm_user_id = sr_user_id r, sm_agent_id = sr_agent_id r, sm_run_id = sr_run_id r,
      sm_namespace = sr_namespace r, sm_metadata = sr_metadata r, sm_superseded_by = sr_superseded_by r,
      sm_valid_until = sr_valid_until r, sm_invalidation_reason = sr_invalidation_reason r,
      sm_consolidation_trace = sr_consolidation_trace r, sm_replacement_lineage = sr_replacement_lineage r,
      sm_attention_summary = sr_attention_summary r, sm_operator_summary = sr_operator_summary r\<rparr>"

datatype single_search_mode = SM_Vector | SM_Bm25

fun mode_scores :: "single_search_mode \<Rightarrow> real \<Rightarrow> real \<times> real" where
  "mode_scores SM_Vector s = (s, 0)"
| "mode_scores SM_Bm25 s = (0, s)"

definition score_single_mode_results ::
  "bool \<Rightarrow> datetime \<Rightarrow> search_result list \<Rightarrow> nat \<Rightarrow> single_search_mode \<Rightarrow> scored_memory list" where
  "score_single_mode_results decay_on now results limit mode =
     (let scored = map (\<lambda>r. case mode_scores mode (sr_score r) of (vector_score, bm25_score) \<Rightarrow>
            scored_of r (sr_memory_type r) (decayed_score decay_on now r (sr_score r)) vector_score bm25_score 0) results;
          sorted = (if decay_on then sort_by (\<lambda>a b. sm_score b \<le> sm_score a) scored else scored)
      in take limit sorted)"

definition apply_min_score_scored :: "scored_memory list \<Rightarrow> real option \<Rightarrow> scored_memory list" where
  "apply_min_score_scored results min_score =
     (case min_score of
        Some ms \<Rightarrow> (let threshold = clamp01 ms in filter (\<lambda>r. sm_score r \<ge> threshold) results)
      | None \<Rightarrow> results)"

section \<open>The channels\<close>

record channel_results =
  ch_retrieved_candidates :: nat
  ch_post_filter_hits :: nat
  ch_results :: "search_result list"

definition apply_metadata_post_filter :: "search_result list \<Rightarrow> memory_query \<Rightarrow> channel_results" where
  "apply_metadata_post_filter results filters =
     (let filtered = filter (\<lambda>r. metadata_matches (sr_metadata r) (mq_metadata_filter filters)) results
      in \<lparr>ch_retrieved_candidates = length results, ch_post_filter_hits = length filtered, ch_results = filtered\<rparr>)"

definition lexical_memory_search ::
  "'e bm25_api \<Rightarrow> datetime \<Rightarrow> string \<Rightarrow> memory_query \<Rightarrow> nat \<Rightarrow> 'e memory_service \<Rightarrow> channel_results" where
  "lexical_memory_search api now query filters limit s =
     (if is_unfiltered filters then
        (let scored = memory_index_search api (sv_index s) query None limit
         in \<lparr>ch_retrieved_candidates = document_count (sv_index s), ch_post_filter_hits = length scored,
             ch_results = dedup_memory_results scored limit\<rparr>)
      else
        (let prefilter_filters = filters\<lparr>mq_metadata_filter := None\<rparr>;
             ids = list_memory_ids now prefilter_filters (sv_table s);
             retrieved_candidates = length ids
         in if ids = [] then
              \<lparr>ch_retrieved_candidates = retrieved_candidates, ch_post_filter_hits = 0, ch_results = []\<rparr>
            else
              (let scored = memory_index_search api (sv_index s) query (Some (set ids)) (max limit retrieved_candidates);
                   post_filtered = filter (\<lambda>r. metadata_matches (sr_metadata r) (mq_metadata_filter filters)) scored
               in \<lparr>ch_retrieved_candidates = retrieved_candidates, ch_post_filter_hits = length post_filtered,
                   ch_results = dedup_memory_results post_filtered limit\<rparr>)))"

section \<open>The searches\<close>

text \<open>An answer: the results, the ids reported to the access tracker, and the counters of the
  diagnostics.\<close>

record search_answer =
  sa_results :: "scored_memory list"
  sa_accessed :: "string list"
  sa_query :: string
  sa_vector_retrieved :: nat
  sa_vector_post_filter_hits :: nat
  sa_bm25_retrieved :: nat
  sa_bm25_post_filter_hits :: nat

definition emit_access_events :: "bool \<Rightarrow> scored_memory list \<Rightarrow> string list" where
  "emit_access_events tracked results = (if tracked then map sm_id results else [])"

definition search_impl ::
  "search_env \<Rightarrow> datetime \<Rightarrow> search_params \<Rightarrow> bool \<Rightarrow> memory_table \<Rightarrow> search_answer service_result" where
  "search_impl env now p tracked t =
     (let query = eq_text (effective_retrieval_query (qp_query p))
      in case se_ready (sx_service env) of Some e \<Rightarrow> Inl e | None \<Rightarrow>
         (case search_memory_query (sx_parse_time env) p of Inl e \<Rightarrow> Inl e | Inr filters \<Rightarrow>
         (case se_embed (sx_service env) query of Inl e \<Rightarrow> Inl (SE_App e) | Inr query_embedding \<Rightarrow>
            (let limit = normalize_limit (qp_limit p);
                 fetch_limit = overfetch_limit limit filters;
                 prefilter_filters = filters\<lparr>mq_metadata_filter := None\<rparr>
             in case vector_search (sx_vector env) now query_embedding prefilter_filters fetch_limit t of
                  Inl e \<Rightarrow> Inl (SE_App e)
                | Inr vector_raw \<Rightarrow>
                    (let vector_channel = apply_metadata_post_filter vector_raw filters;
                         results = apply_min_score_scored
                           (score_single_mode_results (sx_decay_enabled env) now
                             (enrich_results_truth (sx_fmt_time env) now
                               (dedup_memory_results (ch_results vector_channel) fetch_limit)) limit SM_Vector)
                           (qp_min_score p)
                     in Inr \<lparr>sa_results = results, sa_accessed = emit_access_events tracked results, sa_query = query,
                             sa_vector_retrieved = ch_retrieved_candidates vector_channel,
                             sa_vector_post_filter_hits = ch_post_filter_hits vector_channel,
                             sa_bm25_retrieved = 0, sa_bm25_post_filter_hits = 0\<rparr>)))))"

definition search_text_impl ::
  "'e bm25_api \<Rightarrow> search_env \<Rightarrow> datetime \<Rightarrow> search_params \<Rightarrow> bool \<Rightarrow> 'e memory_service \<Rightarrow> search_answer service_result" where
  "search_text_impl api env now p tracked s =
     (let query = eq_text (effective_retrieval_query (qp_query p));
          limit = normalize_limit (qp_limit p)
      in case search_memory_query (sx_parse_time env) p of Inl e \<Rightarrow> Inl e | Inr filters \<Rightarrow>
         (let fetch_limit = overfetch_limit limit filters;
              bm25_channel = lexical_memory_search api now query filters fetch_limit s;
              results = apply_min_score_scored
                (score_single_mode_results (sx_decay_enabled env) now
                  (enrich_results_truth (sx_fmt_time env) now
                    (dedup_memory_results (ch_results bm25_channel) fetch_limit)) limit SM_Bm25)
                (qp_min_score p)
          in Inr \<lparr>sa_results = results, sa_accessed = emit_access_events tracked results, sa_query = query,
                  sa_vector_retrieved = 0, sa_vector_post_filter_hits = 0,
                  sa_bm25_retrieved = ch_retrieved_candidates bm25_channel,
                  sa_bm25_post_filter_hits = ch_post_filter_hits bm25_channel\<rparr>))"

section \<open>Recall\<close>

definition DEFAULT_VECTOR_WEIGHT :: real where "DEFAULT_VECTOR_WEIGHT = 4 / 10"
definition DEFAULT_BM25_WEIGHT :: real where "DEFAULT_BM25_WEIGHT = 15 / 100"
definition DEFAULT_PPR_WEIGHT :: real where "DEFAULT_PPR_WEIGHT = 45 / 100"

text \<open>\<open>get_subgraph\<close> of the storage: the entities with the ids and the relations among them.\<close>

definition get_subgraph :: "graph_db \<Rightarrow> string list \<Rightarrow> (entity list \<times> relation list) app_result" where
  "get_subgraph db entity_ids =
     (if entity_ids = [] then Inr ([], [])
      else case things_from_ids ''entities'' entity_ids of
             Inl e \<Rightarrow> Inl (Internal (thing_error_message e))
           | Inr ids \<Rightarrow>
               Inr (filter (\<lambda>e. case e_id e of Some i \<Rightarrow> i \<in> set ids | None \<Rightarrow> False) (gd_entities db),
                    filter (\<lambda>r. r_from_entity r \<in> set ids \<and> r_to_entity r \<in> set ids) (gd_relations db)))"

text \<open>The graph: the number of its nodes with the map from ids to nodes, then the edges.\<close>

fun add_nodes :: "entity list \<Rightarrow> nat \<Rightarrow> (string, nat) hmap \<Rightarrow> nat \<times> (string, nat) hmap" where
  "add_nodes [] n node_map = (n, node_map)"
| "add_nodes (e # es) n node_map =
     (case e_id e of
        Some i \<Rightarrow> add_nodes es (n + 1) (hm_insert (rid_key i) n node_map)
      | None \<Rightarrow> add_nodes es n node_map)"

definition add_edges :: "(string, nat) hmap \<Rightarrow> relation list \<Rightarrow> (nat \<times> nat \<times> real) list" where
  "add_edges node_map relations =
     List.map_filter (\<lambda>r.
       (case (hm_get node_map (rid_key (r_from_entity r)), hm_get node_map (rid_key (r_to_entity r))) of
          (Some from_idx, Some to_idx) \<Rightarrow> Some (from_idx, to_idx, r_weight r)
        | _ \<Rightarrow> None)) relations"

definition ppr_ranking :: "graph_db \<Rightarrow> string list \<Rightarrow> (string \<times> real) list" where
  "ppr_ranking db all_ids =
     (if all_ids = [] then []
      else
        (case get_subgraph db all_ids of
           Inl e \<Rightarrow> []
         | Inr (entities, relations) \<Rightarrow>
             if entities = [] then []
             else
               (case add_nodes entities 0 [] of (n, node_map) \<Rightarrow>
                  (let g = \<lparr>dg_nodes = n, dg_edges = add_edges node_map relations\<rparr>;
                       seed_nodes = List.map_filter (hm_get node_map) (take 20 all_ids);
                       reverse_map = foldl (\<lambda>m e. hm_insert (snd e) (fst e) m) [] node_map
                   in List.map_filter (\<lambda>(idx, score). map_option (\<lambda>i. (i, score)) (hm_get reverse_map idx))
                        (run_ppr g seed_nodes)))))"

text \<open>The first occurrences of the ids, in the order of the channels.\<close>

fun push_new_ids :: "string list \<Rightarrow> string list \<Rightarrow> string list" where
  "push_new_ids all_ids [] = all_ids"
| "push_new_ids all_ids (i # is) = (if i \<in> set all_ids then push_new_ids all_ids is else push_new_ids (all_ids @ [i]) is)"

definition content_map_of :: "search_result list \<Rightarrow> search_result list \<Rightarrow> (string, search_result) hmap" where
  "content_map_of vector_results bm25_results =
     foldl (\<lambda>m r. if hm_get m (sr_id r) = None then hm_insert (sr_id r) r m else m)
       (foldl (\<lambda>m r. hm_insert (sr_id r) r m) [] vector_results) bm25_results"

definition score_merged ::
  "bool \<Rightarrow> datetime \<Rightarrow> (string, search_result) hmap \<Rightarrow> (string \<times> rrf_scores) list \<Rightarrow> (string \<times> scored_memory) list" where
  "score_merged decay_on now content_map merged =
     List.map_filter (\<lambda>(i, scores).
       (case hm_get content_map i of
          None \<Rightarrow> None
        | Some r \<Rightarrow>
            (let boosted_score = rs_combined_score scores * importance_multiplier (sr_importance_score r)
             in Some (dedup_key r,
                  (scored_of r (sr_memory_type r) (decayed_score decay_on now r boosted_score)
                    (rs_vector_score scores) (rs_bm25_score scores) (rs_ppr_score scores))\<lparr>sm_id := i\<rparr>)))) merged"

definition fuse_channels ::
  "search_env \<Rightarrow> datetime \<Rightarrow> recall_params \<Rightarrow> search_result list \<Rightarrow> search_result list \<Rightarrow> (string \<times> real) list \<Rightarrow>
   scored_memory list" where
  "fuse_channels env now p vector_results bm25_results ppr_tuples =
     (let limit = normalize_limit (qp_limit p);
          weight = (\<lambda>w d. case w of Some x \<Rightarrow> x | None \<Rightarrow> d);
          merged = rrf_merge (map (\<lambda>r. (sr_id r, sr_score r)) vector_results)
            (map (\<lambda>r. (sr_id r, sr_score r)) bm25_results) ppr_tuples
            (weight (qp_vector_weight p) DEFAULT_VECTOR_WEIGHT) (weight (qp_bm25_weight p) DEFAULT_BM25_WEIGHT)
            (weight (qp_ppr_weight p) DEFAULT_PPR_WEIGHT) limit;
          scored_candidates = score_merged (sx_decay_enabled env) now (content_map_of vector_results bm25_results) merged;
          sorted = sort_by (\<lambda>a b. sm_score (snd b) \<le> sm_score (snd a)) scored_candidates
      in apply_min_score_scored (map snd (keep_first fst limit {} [] sorted)) (qp_min_score p))"

definition recall_impl ::
  "'e bm25_api \<Rightarrow> search_env \<Rightarrow> datetime \<Rightarrow> recall_params \<Rightarrow> bool \<Rightarrow> graph_db \<Rightarrow> 'e memory_service \<Rightarrow>
   search_answer service_result" where
  "recall_impl api env now p tracked db s =
     (let query = eq_text (effective_retrieval_query (qp_query p))
      in case search_memory_query (sx_parse_time env) p of Inl e \<Rightarrow> Inl e | Inr filters \<Rightarrow>
         (let limit = normalize_limit (qp_limit p);
              fetch_limit = overfetch_limit limit filters;
              prefilter_filters = filters\<lparr>mq_metadata_filter := None\<rparr>
          in case (if sx_embedding_ready env then map_sum SE_App Some (se_embed (sx_service env) query) else Inr None) of
               Inl e \<Rightarrow> Inl e
             | Inr query_embedding \<Rightarrow>
                 (let vector_results_raw = (case query_embedding of
                        Some v \<Rightarrow> (case vector_search (sx_vector env) now v prefilter_filters fetch_limit (sv_table s) of
                                     Inr rs \<Rightarrow> rs | Inl e \<Rightarrow> [])
                      | None \<Rightarrow> []);
                      vector_channel = apply_metadata_post_filter vector_results_raw filters;
                      vector_results = enrich_results_truth (sx_fmt_time env) now
                        (dedup_memory_results (ch_results vector_channel) fetch_limit);
                      bm25_channel = lexical_memory_search api now query filters fetch_limit s;
                      bm25_results = enrich_results_truth (sx_fmt_time env) now
                        (dedup_memory_results (ch_results bm25_channel) fetch_limit);
                      all_ids = push_new_ids [] (map sr_id vector_results @ map sr_id bm25_results);
                      ppr_tuples = ppr_ranking db all_ids;
                      results = fuse_channels env now p vector_results bm25_results ppr_tuples
                  in Inr \<lparr>sa_results = results, sa_accessed = emit_access_events tracked results, sa_query = query,
                          sa_vector_retrieved = ch_retrieved_candidates vector_channel,
                          sa_vector_post_filter_hits = ch_post_filter_hits vector_channel,
                          sa_bm25_retrieved = ch_retrieved_candidates bm25_channel,
                          sa_bm25_post_filter_hits = ch_post_filter_hits bm25_channel\<rparr>)))"

section \<open>Deduplication keeps the best\<close>

fun first_of_key :: "('a \<Rightarrow> string) \<Rightarrow> string set \<Rightarrow> 'a list \<Rightarrow> 'a list" where
  "first_of_key key seen [] = []"
| "first_of_key key seen (r # rs) =
     (if key r \<in> seen then first_of_key key seen rs else r # first_of_key key (insert (key r) seen) rs)"

lemma keep_first_eq:
  "keep_first key limit seen out rs = out @ take (max 1 (limit - length out)) (first_of_key key seen rs)"
proof (induction rs arbitrary: seen out)
  case (Cons r rs)
  show ?case
  proof (cases "key r \<in> seen")
    case True
    with Cons show ?thesis by simp
  next
    case new: False
    show ?thesis
    proof (cases "limit \<le> length (out @ [r])")
      case True
      then have "max 1 (limit - length out) = Suc 0" by (auto simp: max_def)
      with True new show ?thesis by (simp add: Let_def)
    next
      case False
      then have "max 1 (limit - length out) = Suc (max 1 (limit - length (out @ [r])))" by (auto simp: max_def)
      with False new Cons.IH [of "insert (key r) seen" "out @ [r]"] show ?thesis by (simp add: Let_def)
    qed
  qed
qed simp

lemma first_of_key_subset: "x \<in> set (first_of_key key seen rs) \<Longrightarrow> x \<in> set rs \<and> key x \<notin> seen"
  by (induction rs arbitrary: seen) (auto split: if_splits)

lemma first_of_key_distinct: "distinct (map key (first_of_key key seen rs))"
  by (induction rs arbitrary: seen) (auto dest: first_of_key_subset)

lemma first_of_key_keeps_distinct: "distinct (map f rs) \<Longrightarrow> distinct (map f (first_of_key key seen rs))"
proof (induction rs arbitrary: seen)
  case (Cons r rs)
  have "f r \<notin> f ` set (first_of_key key seen' rs)" for seen'
    using Cons.prems first_of_key_subset [of _ key seen' rs] by auto
  with Cons show ?case by simp
qed simp

lemma first_of_key_length: "length (first_of_key key seen rs) \<le> length rs"
  by (induction rs arbitrary: seen) (auto intro: le_SucI)

lemma first_of_key_sorted: "sorted_wrt le rs \<Longrightarrow> sorted_wrt le (first_of_key key seen rs)"
  by (induction rs arbitrary: seen) (auto dest: first_of_key_subset)

lemma first_of_key_best:
  assumes "sorted_wrt le rs" "\<And>x. le x x" "r \<in> set rs" "key r \<notin> seen"
  shows "\<exists>x\<in>set (first_of_key key seen rs). key x = key r \<and> le x r"
  using assms(1,3,4)
proof (induction rs arbitrary: seen)
  case (Cons y ys)
  show ?case
  proof (cases "key y \<in> seen \<or> key y \<noteq> key r")
    case True
    with Cons.prems have "r \<in> set ys" by auto
    with Cons True show ?thesis by (cases "key y \<in> seen") auto
  next
    case False
    with Cons.prems assms(2) show ?thesis by auto
  qed
qed simp

lemma keep_first_sound:
  fixes key le limit rs
  defines "out \<equiv> keep_first key limit {} [] rs"
  assumes "sorted_wrt le rs"
  shows "set out \<subseteq> set rs \<and> distinct (map key out) \<and> sorted_wrt le out \<and> length out \<le> max 1 limit"
proof -
  have out: "out = take (max 1 limit) (first_of_key key {} rs)"
    unfolding out_def keep_first_eq by simp
  show ?thesis
    unfolding out using first_of_key_distinct [of key "{}" rs] first_of_key_sorted [OF assms(2), of key "{}"]
    by (auto simp: sorted_wrt_take take_map [symmetric] distinct_take dest: in_set_takeD first_of_key_subset)
qed

text \<open>Deduplication keeps, of every group of results with the same key (the content hash, or else the
  lower-cased normal form of the content), a best one: the answer consists of given results, best
  first, with pairwise different keys; every given result is represented by one of its key with at
  least its score, unless the answer is full, and then everything in it scores at least as high. The
  size is bounded by the limit, except that a limit of 0 admits one result.\<close>
theorem dedup_keeps_best:
  "let out = dedup_memory_results results limit in
     set out \<subseteq> set results \<and> distinct (map dedup_key out) \<and> sorted_wrt (\<ge>) (map sr_score out) \<and>
     length out \<le> max 1 limit \<and>
     list_all (\<lambda>r. list_ex (\<lambda>x. dedup_key x = dedup_key r \<and> sr_score x \<ge> sr_score r) out \<or>
                   length out = max 1 limit \<and> list_all (\<lambda>x. sr_score x \<ge> sr_score r) out) results"
proof -
  let ?le = "\<lambda>a b :: search_result. sr_score b \<le> sr_score a"
  let ?rs = "sort_by ?le results" and ?out = "dedup_memory_results results limit"
  have sorted: "sorted_wrt ?le ?rs" by (rule rev_key_comparison.sorted_sort_by)
  let ?all = "first_of_key dedup_key {} ?rs"
  have out: "?out = take (max 1 limit) ?all" by (simp add: dedup_memory_results_def keep_first_eq)
  have rep: "list_ex (\<lambda>x. dedup_key x = dedup_key r \<and> sr_score x \<ge> sr_score r) ?out \<or>
      length ?out = max 1 limit \<and> list_all (\<lambda>x. sr_score x \<ge> sr_score r) ?out" if "r \<in> set results" for r
  proof -
    from that first_of_key_best [OF sorted, of r dedup_key "{}"] obtain x
      where x: "x \<in> set ?all" "dedup_key x = dedup_key r" "sr_score r \<le> sr_score x" by auto
    show ?thesis
    proof (cases "x \<in> set ?out")
      case True
      with x show ?thesis unfolding list_ex_iff by blast
    next
      case False
      have "x \<in> set (take (max 1 limit) ?all) \<union> set (drop (max 1 limit) ?all)"
        using x(1) by (metis append_take_drop_id set_append)
      with False out have d: "x \<in> set (drop (max 1 limit) ?all)" by simp
      then have "drop (max 1 limit) ?all \<noteq> []" by auto
      then have "length ?out = max 1 limit" unfolding out by simp
      moreover have "sr_score x \<le> sr_score y" if "y \<in> set ?out" for y
      proof -
        have "sorted_wrt ?le (take (max 1 limit) ?all @ drop (max 1 limit) ?all)"
          using first_of_key_sorted [OF sorted] by simp
        with that d show ?thesis unfolding out sorted_wrt_append by blast
      qed
      ultimately show ?thesis using x(3) by (auto simp: list_all_iff intro: order_trans)
    qed
  qed
  have "set ?out \<subseteq> set results \<and> distinct (map dedup_key ?out) \<and> sorted_wrt ?le ?out \<and> length ?out \<le> max 1 limit"
    using keep_first_sound [OF sorted, of dedup_key limit] by (simp add: dedup_memory_results_def)
  with rep show ?thesis unfolding Let_def list_all_iff [of _ results] sorted_wrt_map by blast
qed


section \<open>Recall\<close>

lemma lexical_hits:
  assumes "engine_contract api docs" "index_ok docs idx"
  shows "distinct (map sr_id (memory_index_search api idx q allowed n)) \<and>
    (\<forall>r\<in>set (memory_index_search api idx q allowed n). index_contents idx (sr_id r) = Some (sr_content r) \<and>
       (case allowed of Some ids \<Rightarrow> sr_id r \<in> ids | None \<Rightarrow> True))"
proof -
  let ?P = "\<lambda>r :: string \<times> real. case allowed of Some ids \<Rightarrow> fst r \<in> ids | None \<Rightarrow> True"
  let ?raw = "be_search api (mi_engine idx) q (case allowed of Some ids \<Rightarrow> max (card ids) n | None \<Rightarrow> n)"
  let ?kept = "take n (filter ?P ?raw)"
  have res: "memory_index_search api idx q allowed n = map (hit_result idx) ?kept"
    unfolding memory_index_search_eq [OF assms(2,1)] by (simp add: take_map)
  have hit: "sr_id (hit_result idx r) = fst r \<and> index_contents idx (fst r) = Some (sr_content (hit_result idx r))"
    if "r \<in> set ?raw" for r
  proof -
    from search_results_meta [OF assms(2,1), rule_format, OF that] obtain mm
      where "hm_get (mi_meta idx) (fst r) = Some mm" "mm_id mm = fst r" by blast
    then show ?thesis by (simp add: hit_result_def to_search_result_def index_contents_def)
  qed
  have raw: "r \<in> set ?raw \<and> ?P r" if "r \<in> set ?kept" for r
    using in_set_takeD [OF that] by simp
  have "map (\<lambda>r. sr_id (hit_result idx r)) ?kept = map fst ?kept"
    by (rule map_cong [OF refl]) (use raw [THEN conjunct1, THEN hit] in blast)
  then have "map sr_id (map (hit_result idx) ?kept) = map fst ?kept" by (simp only: map_map o_def)
  moreover have "distinct (map fst ?kept)"
    using contract_search(1) [OF assms(1)] by (simp add: take_map [symmetric] distinct_map_filter distinct_take)
  moreover have "index_contents idx (sr_id x) = Some (sr_content x) \<and> (case allowed of Some ids \<Rightarrow> sr_id x \<in> ids | None \<Rightarrow> True)"
    if "x \<in> set (map (hit_result idx) ?kept)" for x
  proof -
    from that obtain r where r: "r \<in> set ?kept" "x = hit_result idx r" by auto
    from raw [OF r(1)] have "r \<in> set ?raw" "?P r" by blast+
    with hit [of r] show ?thesis unfolding r(2) by (simp cong: option.case_cong)
  qed
  ultimately show ?thesis unfolding res by (simp only: simp_thms Ball_def) blast
qed

lemma hm_get_inserted:
  "hm_get (foldl (\<lambda>m r. hm_insert (sr_id r) r m) m rs) i = Some r \<Longrightarrow> r \<in> set rs \<and> sr_id r = i \<or> hm_get m i = Some r"
  by (induction rs arbitrary: m) (fastforce split: if_splits)+

lemma content_map_source:
  assumes "hm_get (content_map_of vs bs) i = Some r"
  shows "(r \<in> set vs \<or> r \<in> set bs) \<and> sr_id r = i"
proof -
  have "hm_get (foldl (\<lambda>m r. if hm_get m (sr_id r) = None then hm_insert (sr_id r) r m else m) m rs) i = Some r \<Longrightarrow>
      r \<in> set rs \<and> sr_id r = i \<or> hm_get m i = Some r" for rs m
    by (induction rs arbitrary: m) (fastforce split: if_splits)+
  from this [OF assms [unfolded content_map_of_def]] show ?thesis using hm_get_inserted [of "[]" vs i r] by auto
qed

lemma score_merged_entry:
  "(k, m) \<in> set (score_merged d now cm merged) \<Longrightarrow>
   \<exists>r. hm_get cm (sm_id m) = Some r \<and> sm_content m = sr_content r \<and> sm_metadata m = sr_metadata r"
  by (auto simp: score_merged_def List.map_filter_def scored_of_def Let_def split: option.splits)

lemma score_merged_ids: "distinct (map fst merged) \<Longrightarrow> distinct (map (\<lambda>e. sm_id (snd e)) (score_merged d now cm merged))"
proof (induction merged)
  case (Cons x xs)
  have sub: "sm_id (snd e) \<in> fst ` set xs" if "e \<in> set (score_merged d now cm xs)" for e
    using that by (force simp: score_merged_def List.map_filter_def Let_def split: option.splits)
  have fresh: "fst x \<notin> fst ` set xs" using Cons.prems by simp
  have new: "fst x \<notin> (\<lambda>e. sm_id (snd e)) ` set (score_merged d now cm xs)"
  proof
    assume "fst x \<in> (\<lambda>e. sm_id (snd e)) ` set (score_merged d now cm xs)"
    then obtain e where e: "fst x = sm_id (snd e)" "e \<in> set (score_merged d now cm xs)" by (rule imageE)
    from sub [OF e(2)] fresh show False unfolding e(1) by contradiction
  qed
  have dist: "distinct (map (\<lambda>e. sm_id (snd e)) (score_merged d now cm xs))" using Cons by simp
  have "score_merged d now cm (x # xs) = score_merged d now cm xs \<or>
      (\<exists>e. score_merged d now cm (x # xs) = e # score_merged d now cm xs \<and> sm_id (snd e) = fst x)"
    by (cases x) (auto simp: score_merged_def List.map_filter_simps Let_def split: option.split)
  then show ?case
  proof (elim disjE exE conjE)
    fix e
    assume "score_merged d now cm (x # xs) = e # score_merged d now cm xs" "sm_id (snd e) = fst x"
    with new dist show ?thesis by (simp only: list.map distinct.simps set_map) simp
  qed (simp only: dist)
qed (simp add: score_merged_def List.map_filter_simps)

lemma fuse_sound:
  assumes "ms = fuse_channels env now p vs bs ps"
  shows "length ms \<le> normalize_limit (qp_limit p) \<and> sorted_wrt (\<lambda>a b. sm_score b \<le> sm_score a) ms \<and> distinct (map sm_id ms) \<and>
    (\<forall>m\<in>set ms. (\<exists>r\<in>set vs \<union> set bs. sr_id r = sm_id m \<and> sm_content m = sr_content r \<and> sm_metadata m = sr_metadata r) \<and>
      (case qp_min_score p of Some x \<Rightarrow> clamp01 x \<le> sm_score m | None \<Rightarrow> True))"
proof -
  let ?n = "normalize_limit (qp_limit p)" and ?le = "\<lambda>a b :: string \<times> scored_memory. sm_score (snd b) \<le> sm_score (snd a)"
  obtain xs wv wb wp where xs: "xs = rrf_merge (map (\<lambda>r. (sr_id r, sr_score r)) vs) (map (\<lambda>r. (sr_id r, sr_score r)) bs) ps wv wb wp ?n"
    and ms: "ms = apply_min_score_scored (map snd (keep_first fst ?n {} []
      (sort_by ?le (score_merged (sx_decay_enabled env) now (content_map_of vs bs) xs)))) (qp_min_score p)"
    unfolding assms fuse_channels_def Let_def by blast
  define cs where "cs = sort_by ?le (score_merged (sx_decay_enabled env) now (content_map_of vs bs) xs)"
  define kept where "kept = keep_first fst ?n {} [] cs"
  have sorted: "sorted_wrt ?le cs" unfolding cs_def by (rule rev_key_comparison.sorted_sort_by)
  have len_xs: "length xs \<le> ?n" unfolding xs rrf_merge_def by simp
  have dist_xs: "distinct (map fst xs)"
  proof -
    have "distinct (map fst (sort_by le m))" if "distinct (map fst m)" for le and m :: "(string \<times> rrf_scores) list"
      using that by (metis mset_eq_imp_distinct_iff mset_map mset_sort_by)
    then show ?thesis
      using merged_ok [unfolded hm_ok_def merged_scores_def] unfolding xs rrf_merge_def Let_def
      by (simp only: take_map [symmetric] distinct_take)
  qed
  have "length cs \<le> length xs" by (simp add: cs_def score_merged_def List.map_filter_def)
  moreover have "set kept \<subseteq> set cs" "distinct (map fst kept)" "sorted_wrt ?le kept"
    using keep_first_sound [OF sorted] unfolding kept_def by blast+
  moreover have "length kept \<le> length cs"
    unfolding kept_def keep_first_eq using first_of_key_length [of fst "{}" cs] by simp
  moreover have "distinct (map (\<lambda>e. sm_id (snd e)) kept)"
  proof -
    have "distinct (map (\<lambda>e. sm_id (snd e)) cs)"
      using score_merged_ids [OF dist_xs] unfolding cs_def by (metis mset_eq_imp_distinct_iff mset_map mset_sort_by)
    from first_of_key_keeps_distinct [OF this, of fst "{}"]
    show ?thesis unfolding kept_def keep_first_eq by (simp add: take_map [symmetric] distinct_take)
  qed
  moreover have "\<exists>r\<in>set vs \<union> set bs. sr_id r = sm_id (snd e) \<and> sm_content (snd e) = sr_content r \<and> sm_metadata (snd e) = sr_metadata r"
    if "e \<in> set cs" for e
    using that score_merged_entry [of "fst e" "snd e"] content_map_source [of vs bs] unfolding cs_def set_sort_by
    by (metis UnI1 UnI2 prod.collapse)
  ultimately have kept: "length (map snd kept) \<le> ?n" "sorted_wrt (\<lambda>a b. sm_score b \<le> sm_score a) (map snd kept)"
    "distinct (map sm_id (map snd kept))"
    "\<forall>m\<in>set (map snd kept). \<exists>r\<in>set vs \<union> set bs. sr_id r = sm_id m \<and> sm_content m = sr_content r \<and> sm_metadata m = sr_metadata r"
    using len_xs by (auto simp: sorted_wrt_map o_def)
  have ms': "ms = apply_min_score_scored (map snd kept) (qp_min_score p)" unfolding ms kept_def cs_def ..
  show ?thesis
  proof (cases "qp_min_score p")
    case None
    with kept ms' show ?thesis by (simp add: apply_min_score_scored_def)
  next
    case (Some x)
    then have "ms = filter (\<lambda>r. clamp01 x \<le> sm_score r) (map snd kept)" unfolding ms' by (simp add: apply_min_score_scored_def)
    with kept Some show ?thesis
      using le_trans [OF length_filter_le [of "\<lambda>r. clamp01 x \<le> sm_score r" "map snd kept"] kept(1)]
      by (simp only: sorted_wrt_filter distinct_map_filter option.case set_filter mem_Collect_eq length_map simp_thms) blast
  qed
qed

lemma dedup_subset: "r \<in> set (dedup_memory_results rs n) \<Longrightarrow> r \<in> set rs"
  using keep_first_sound [OF rev_key_comparison.sorted_sort_by, of dedup_key n sr_score rs]
  by (auto simp: dedup_memory_results_def)

text \<open>The row a result stands for: it is in the table, in the requested scope, with the content.\<close>

definition stands_for :: "datetime \<Rightarrow> memory_query \<Rightarrow> memory_table \<Rightarrow> string \<Rightarrow> string \<Rightarrow> bool" where
  "stands_for now filters t i content \<longleftrightarrow>
     (case hm_get t i of
        None \<Rightarrow> False
      | Some row \<Rightarrow> base_filter_clause now (filters\<lparr>mq_metadata_filter := None\<rparr>) row \<and> m_content row = content)"

lemma lexical_channel:
  assumes "engine_contract api docs" "synced docs s"
    and "r \<in> set (ch_results (lexical_memory_search api now q filters n s))"
  shows "stands_for now filters (sv_table s) (sr_id r) (sr_content r) \<and>
    metadata_matches (sr_metadata r) (mq_metadata_filter filters)"
proof -
  have ok: "index_ok docs (sv_index s)" "table_ok (sv_table s)"
    and same: "index_contents (sv_index s) = open_contents (sv_table s)"
    using assms(2) by (simp_all add: synced_def)
  note hits = lexical_hits [OF assms(1) ok(1)]
  have row: "\<exists>m. hm_get (sv_table s) i = Some m \<and> m_valid_until m = None \<and> m_content m = c"
    if "index_contents (sv_index s) i = Some c" for i c
    using that unfolding same by (auto simp: open_contents_def split: option.splits if_splits)
  show ?thesis
  proof (cases "is_unfiltered filters")
    case True
    with assms(3) have "r \<in> set (memory_index_search api (sv_index s) q None n)"
      by (auto simp: lexical_memory_search_def Let_def dest: dedup_subset)
    with hits have "index_contents (sv_index s) (sr_id r) = Some (sr_content r)" by blast
    from row [OF this] True show ?thesis
      by (auto simp: stands_for_def is_unfiltered_def base_filter_clause_def scope_clause_def not_ended_def unset_or_def
          metadata_matches_def)
  next
    case False
    let ?ids = "list_memory_ids now (filters\<lparr>mq_metadata_filter := None\<rparr>) (sv_table s)"
    from False assms(3) have r: "r \<in> set (memory_index_search api (sv_index s) q (Some (set ?ids)) (max n (length ?ids)))"
      "metadata_matches (sr_metadata r) (mq_metadata_filter filters)"
      by (auto simp: lexical_memory_search_def Let_def split: if_splits dest!: dedup_subset)
    with hits have h: "index_contents (sv_index s) (sr_id r) = Some (sr_content r)" "sr_id r \<in> set ?ids" by fastforce+
    from rows_of_ids [OF ok(2), THEN iffD1, OF h(2)] obtain m where
      "get_memory (sv_table s) (sr_id r) = Some m" "base_filter_clause now (filters\<lparr>mq_metadata_filter := None\<rparr>) m" by blast
    with row [OF h(1)] r(2) show ?thesis by (auto simp: stands_for_def get_memory_row [OF ok(2)])
  qed
qed

lemma stands_for_metadata [simp]:
  "stands_for now (filters\<lparr>mq_metadata_filter := x\<rparr>) t i c = stands_for now filters t i c"
proof -
  have "filters\<lparr>mq_metadata_filter := x, mq_metadata_filter := None\<rparr> = filters\<lparr>mq_metadata_filter := None\<rparr>"
    by (cases filters) simp
  then show ?thesis by (simp only: stands_for_def)
qed

lemma vector_hit_stands:
  assumes "table_ok t" and "vector_search eng now v filters n t = Inr rs" and "r \<in> set rs"
  shows "stands_for now filters t (sr_id r) (sr_content r)"
proof -
  have "hm_ok t" using assms(1) by (simp add: table_ok_def)
  from vector_search_rows [OF this assms(2,3)] obtain m e where m: "hm_get t (sr_id r) = Some m"
    "base_filter_clause now filters m" "r = search_row_result (sr_id r) m (ve_cosine eng e v)" by blast
  have "sr_content r = m_content m" by (subst m(3)) (simp add: search_row_result_def)
  moreover have "base_filter_clause now (filters\<lparr>mq_metadata_filter := None\<rparr>) m"
    using m(2) by (simp add: base_filter_clause_def scope_clause_def)
  ultimately show ?thesis using m(1) by (simp add: stands_for_def)
qed

lemma enriched_result:
  "r \<in> set (enrich_results_truth fmt now rs) \<Longrightarrow>
   \<exists>r0\<in>set rs. sr_id r = sr_id r0 \<and> sr_content r = sr_content r0 \<and> sr_metadata r = sr_metadata r0"
  by (auto simp: enrich_results_truth_def enrich_result_truth_def)

lemma recall_success:
  assumes "recall_impl api env now p tracked db s = Inr ans"
  obtains filters vs bs ps where "search_memory_query (sx_parse_time env) p = Inr filters"
    and "sa_results ans = fuse_channels env now p vs bs ps"
    and "sa_accessed ans = emit_access_events tracked (sa_results ans)"
    and "\<exists>raw n. vs = enrich_results_truth (sx_fmt_time env) now
           (dedup_memory_results (ch_results (apply_metadata_post_filter raw filters)) n) \<and>
         (raw = [] \<or> (\<exists>v. vector_search (sx_vector env) now v (filters\<lparr>mq_metadata_filter := None\<rparr>) n (sv_table s) = Inr raw))"
    and "\<exists>q n. bs = enrich_results_truth (sx_fmt_time env) now
           (dedup_memory_results (ch_results (lexical_memory_search api now q filters n s)) n)"
proof -
  obtain filters where f: "search_memory_query (sx_parse_time env) p = Inr filters"
    using assms by (auto simp: recall_impl_def Let_def split: sum.splits)
  let ?q = "eq_text (effective_retrieval_query (qp_query p))"
  let ?n = "overfetch_limit (normalize_limit (qp_limit p)) filters"
  obtain qe where e: "(if sx_embedding_ready env then map_sum SE_App Some (se_embed (sx_service env) ?q) else Inr None) = Inr qe"
    using assms f by (auto simp: recall_impl_def Let_def split: sum.splits)
  define raw where "raw = (case qe of
      Some v \<Rightarrow> (case vector_search (sx_vector env) now v (filters\<lparr>mq_metadata_filter := None\<rparr>) ?n (sv_table s) of Inr rs \<Rightarrow> rs | Inl e \<Rightarrow> [])
    | None \<Rightarrow> [])"
  have r: "raw = [] \<or> (\<exists>v. vector_search (sx_vector env) now v (filters\<lparr>mq_metadata_filter := None\<rparr>) ?n (sv_table s) = Inr raw)"
    unfolding raw_def by (auto split: option.splits sum.splits)
  define vs where "vs = enrich_results_truth (sx_fmt_time env) now
      (dedup_memory_results (ch_results (apply_metadata_post_filter raw filters)) ?n)"
  define bs where "bs = enrich_results_truth (sx_fmt_time env) now
      (dedup_memory_results (ch_results (lexical_memory_search api now ?q filters ?n s)) ?n)"
  have "sa_results ans = fuse_channels env now p vs bs (ppr_ranking db (push_new_ids [] (map sr_id vs @ map sr_id bs))) \<and>
      sa_accessed ans = emit_access_events tracked (sa_results ans)"
    using assms unfolding recall_impl_def Let_def f sum.case e vs_def bs_def raw_def by auto
  with that [OF f] r vs_def bs_def show ?thesis by blast
qed

text \<open>C14: Everything \<open>recall\<close> answers is justified: at most the (clamped) limit of memories, best first, each
  once, each a row of the table inside the requested scope with exactly its content, accepted by the
  metadata filter and not below the minimal score; the ids reported to the access tracker are those of
  the answer. This holds whatever rows the nearest-neighbour operator of
  the database takes and however it measures similarity; it needs the index to follow the table.\<close>
theorem recall_sound:
  assumes "engine_contract api docs" and "synced docs s"
    and "search_memory_query (sx_parse_time env) p = Inr filters"
    and "recall_impl api env now p tracked db s = Inr ans"
  shows "length (sa_results ans) \<le> min 100 (case qp_limit p of Some n \<Rightarrow> n | None \<Rightarrow> 20) \<and>
    sorted_wrt (\<ge>) (map sm_score (sa_results ans)) \<and> distinct (map sm_id (sa_results ans)) \<and>
    list_all (\<lambda>m. stands_for now filters (sv_table s) (sm_id m) (sm_content m) \<and>
        metadata_matches (sm_metadata m) (mq_metadata_filter filters) \<and>
        (case qp_min_score p of Some x \<Rightarrow> clamp01 x \<le> sm_score m | None \<Rightarrow> True)) (sa_results ans) \<and>
    sa_accessed ans = (if tracked then map sm_id (sa_results ans) else [])"
proof -
  from recall_success [OF assms(4)] obtain filters' vs bs ps where
    f: "search_memory_query (sx_parse_time env) p = Inr filters'"
    and res: "sa_results ans = fuse_channels env now p vs bs ps"
    and acc: "sa_accessed ans = emit_access_events tracked (sa_results ans)"
    and vs: "\<exists>raw n. vs = enrich_results_truth (sx_fmt_time env) now
           (dedup_memory_results (ch_results (apply_metadata_post_filter raw filters')) n) \<and>
         (raw = [] \<or> (\<exists>v. vector_search (sx_vector env) now v (filters'\<lparr>mq_metadata_filter := None\<rparr>) n (sv_table s) = Inr raw))"
    and bs: "\<exists>q n. bs = enrich_results_truth (sx_fmt_time env) now
           (dedup_memory_results (ch_results (lexical_memory_search api now q filters' n s)) n)" by metis
  have ok: "table_ok (sv_table s)" using assms(2) by (simp add: synced_def)
  have same: "filters' = filters" using f assms(3) by simp
  let ?good = "\<lambda>i c md. stands_for now filters (sv_table s) i c \<and> metadata_matches md (mq_metadata_filter filters)"
  have "?good (sr_id r) (sr_content r) (sr_metadata r)" if r: "r \<in> set vs" for r
  proof -
    from vs obtain raw n where vs': "vs = enrich_results_truth (sx_fmt_time env) now
         (dedup_memory_results (ch_results (apply_metadata_post_filter raw filters)) n)"
      and raw: "raw = [] \<or> (\<exists>v. vector_search (sx_vector env) now v (filters\<lparr>mq_metadata_filter := None\<rparr>) n (sv_table s) = Inr raw)"
      unfolding same by blast
    from enriched_result [OF r [unfolded vs']] obtain r0 where r0:
      "r0 \<in> set (dedup_memory_results (ch_results (apply_metadata_post_filter raw filters)) n)"
      "sr_id r = sr_id r0" "sr_content r = sr_content r0" "sr_metadata r = sr_metadata r0" by blast
    have m: "r0 \<in> set raw" "metadata_matches (sr_metadata r0) (mq_metadata_filter filters)"
      using dedup_subset [OF r0(1)] by (simp_all add: apply_metadata_post_filter_def Let_def)
    with raw vector_hit_stands [OF ok] have "stands_for now filters (sv_table s) (sr_id r0) (sr_content r0)"
      by (metis empty_iff list.set(1) stands_for_metadata)
    with m(2) show ?thesis unfolding r0(2-4) by blast
  qed
  moreover have "?good (sr_id r) (sr_content r) (sr_metadata r)" if r: "r \<in> set bs" for r
  proof -
    from bs obtain q n where bs': "bs = enrich_results_truth (sx_fmt_time env) now
         (dedup_memory_results (ch_results (lexical_memory_search api now q filters n s)) n)" unfolding same by blast
    from enriched_result [OF r [unfolded bs']] obtain r0 where r0:
      "r0 \<in> set (dedup_memory_results (ch_results (lexical_memory_search api now q filters n s)) n)"
      "sr_id r = sr_id r0" "sr_content r = sr_content r0" "sr_metadata r = sr_metadata r0" by blast
    from lexical_channel [OF assms(1,2) dedup_subset [OF r0(1)]] show ?thesis unfolding r0(2-4) .
  qed
  ultimately have all: "?good (sm_id m) (sm_content m) (sm_metadata m)" if "m \<in> set (sa_results ans)" for m
    using that fuse_sound [OF res] by (metis UnE)
  have "normalize_limit (qp_limit p) = min 100 (case qp_limit p of Some n \<Rightarrow> n | None \<Rightarrow> 20)"
    by (simp add: normalize_limit_def MAX_LIMIT_def DEFAULT_LIMIT_def min.commute split: option.split)
  with fuse_sound [OF res] all show ?thesis
    unfolding acc emit_access_events_def list_all_iff sorted_wrt_map by auto
qed

text \<open>The nearest row is \<open>a\<close>, with the similarity 1.\<close>

definition nearest_env :: search_env where
  "nearest_env =
     \<lparr>sx_service = example_env, sx_decay_enabled = False, sx_embedding_ready = True, sx_parse_time = (\<lambda>s. None),
      sx_fmt_time = (\<lambda>t. JNum (of_int t)),
      sx_vector = \<lparr>ve_knn = (\<lambda>k ef v t. Inr [''a'']), ve_cosine = (\<lambda>a b. 1)\<rparr>\<rparr>"

definition recall_everything :: "string \<Rightarrow> recall_params" where
  "recall_everything query =
     \<lparr>fp_user_id = None, fp_agent_id = None, fp_run_id = None, fp_namespace = None, fp_memory_type = None,
      fp_metadata_filter = None, fp_valid_at = None, fp_event_after = None, fp_event_before = None,
      fp_ingestion_after = None, fp_ingestion_before = None, qp_query = query, qp_limit = Some 5, qp_min_score = None,
      qp_vector_weight = None, qp_bm25_weight = None, qp_ppr_weight = None\<rparr>"

definition stored_example :: "(string, string) hmap memory_service" where
  "stored_example = snd (store_memory token_engine example_env 1 ''a'' (example_store ''deploy'') (service_new token_engine))"

definition empty_graph_db :: graph_db where
  "empty_graph_db = \<lparr>gd_entities = [], gd_relations = [], gd_symbols = [], gd_symbol_relations = []\<rparr>"

lemma stored_example_table:
  "sv_table stored_example =
     [(''a'', stored_memory example_env 1 (example_store ''deploy'') Semantic 1 [1]\<lparr>m_id := Some (memory_thing ''a'')\<rparr>)]"
proof -
  have env: "se_ready example_env = None" "se_embed example_env x = Inr [1]" for x by (simp_all add: example_env_def)
  have sp: "parse_memory_type (sp_memory_type (example_store c)) = Inr Semantic"
    "importance_or_one (sp_importance_score (example_store c)) = 1" for c
    by (simp_all add: example_store_def parse_memory_type_def trimmed_nonempty_def importance_or_one_def
        normalize_importance_score_def)
  show ?thesis
    by (simp add: stored_example_def store_memory_def env sp create_and_sync_memory_def create_memory_def service_new_def
        get_memory_def Let_def stored_memory_def memory_new_def)
qed

lemma vector_finds_example:
  "vector_search (sx_vector nearest_env) 5 v memory_query_default 15 (sv_table stored_example) =
     Inr [search_row_result ''a'' (stored_memory example_env 1 (example_store ''deploy'') Semantic 1 [1]
            \<lparr>m_id := Some (memory_thing ''a'')\<rparr>) 1]"
  by (simp add: vector_search_def nearest_env_def stored_example_table Let_def List.map_filter_def vector_row_def
      stored_memory_def memory_new_def base_filter_clause_def scope_clause_def not_ended_def unset_or_def memory_query_default_def
      example_store_def metadata_matches_def)

theorem recall_sound_witness:
  "case recall_impl token_engine nearest_env 5 (recall_everything ''ship'') True empty_graph_db stored_example of
     Inl e \<Rightarrow> False
   | Inr ans \<Rightarrow> sa_vector_retrieved ans = 1 \<and> length (sa_results ans) \<le> 5 \<and> sa_accessed ans = map sm_id (sa_results ans) \<and>
       list_all (\<lambda>m. stands_for 5 memory_query_default (sv_table stored_example) (sm_id m) (sm_content m)) (sa_results ans)"
proof -
  have q: "search_memory_query (sx_parse_time nearest_env) (recall_everything ''ship'') = Inr memory_query_default"
    by (simp add: search_memory_query_def filters_of_def recall_everything_def parse_optional_memory_type_def trimmed_nonempty_def
        parse_optional_datetime_def memory_query_default_def)
  have synced: "synced hm_get stored_example"
    unfolding stored_example_def by (rule in_step.inv_store [rule_format, OF synced_new token_engine_contract]) (rule token_engine_contract)
  note sound = recall_sound [OF token_engine_contract synced q]
  have env: "(if sx_embedding_ready nearest_env then a else b) = a" "se_embed (sx_service nearest_env) x = Inr [1]"
    for a b :: "service_error + real list option" and x
    by (simp_all add: nearest_env_def example_env_def)
  have lim: "overfetch_limit (normalize_limit (qp_limit (recall_everything ''ship''))) memory_query_default = 15"
    by (simp add: overfetch_limit_def is_unfiltered_def memory_query_default_def recall_everything_def normalize_limit_def MAX_LIMIT_def)
  have same: "memory_query_default\<lparr>mq_metadata_filter := None\<rparr> = memory_query_default"
    by (simp add: memory_query_default_def)
  obtain ans where run: "recall_impl token_engine nearest_env 5 (recall_everything ''ship'') True empty_graph_db stored_example = Inr ans"
    and one: "sa_vector_retrieved ans = 1"
    unfolding recall_impl_def Let_def q sum.case env map_sum.simps option.case lim same vector_finds_example
    by (simp add: apply_metadata_post_filter_def Let_def)
  from sound [OF run] one show ?thesis
    unfolding run sum.case by (simp add: recall_everything_def list_all_iff)
qed

section \<open>Lexical hits do not age\<close>

text \<open>The index returns its hits without their times and access counts (\<open>to_search_result\<close>), so the decay
  leaves them alone: a lexical search never prefers recent memories, whether or not decay is enabled.\<close>

lemma lexical_hit_undecayed:
  assumes "engine_contract api docs" "index_ok docs idx" and "r \<in> set (memory_index_search api idx q allowed n)"
  shows "decayed_score decay_on now r x = (1, x)"
proof -
  from assms(3) obtain hit where "r = hit_result idx hit"
    unfolding memory_index_search_eq [OF assms(2,1)] by (auto dest!: in_set_takeD)
  then have "sr_event_time r = None \<and> sr_ingestion_time r = None \<and> sr_access_count r = 0"
    by (simp add: hit_result_def to_search_result_def)
  then show ?thesis
    by (simp add: decayed_score_def effective_age_days_def decay_factor_def reinforcement_bonus_def apply_decay_scoring_def
        DEFAULT_MIN_DECAY_def DEFAULT_REINFORCEMENT_CAP_def Let_def)
qed

end
