(* ===== verification/MemoryTools.thy ===== *)
theory MemoryTools
  imports MemoryMigration MemorySearch
begin

text \<open>
  The remaining handlers of \<open>src/server/logic/memory.rs\<close>: the listings, the export, the import with its
  JSONL parser and its update of the lexical index. The JSON parser and the conversion of a JSON value
  into a record (\<open>serde_json\<close>) are parameters. Last comes the invariant on the rows that the tools keep.
\<close>

section \<open>Listings\<close>

record list_answer =
  la_memories :: "traced_memory list"
  la_total :: nat

definition strip_embeddings :: "memory list \<Rightarrow> memory list" where
  "strip_embeddings = map (\<lambda>m. m\<lparr>m_embedding := None\<rparr>)"

definition memories_with_trace :: "datetime \<Rightarrow> memory_table \<Rightarrow> memory list \<Rightarrow> traced_memory list" where
  "memories_with_trace now t = map (memory_with_trace now t)"

definition list_memories_tool ::
  "(string \<Rightarrow> datetime option) \<Rightarrow> datetime \<Rightarrow> 'a filter_params_scheme \<Rightarrow> nat option \<Rightarrow> nat option \<Rightarrow> memory_table \<Rightarrow>
   list_answer service_result" where
  "list_memories_tool parse now p limit_opt offset_opt t =
     (let limit = normalize_limit limit_opt;
          offset = (case offset_opt of Some o' \<Rightarrow> o' | None \<Rightarrow> 0)
      in case search_memory_query parse p of
           Inl e \<Rightarrow> Inl e
         | Inr filters \<Rightarrow>
             (let memories = strip_embeddings (list_memories now filters limit offset t);
                  total = count_memories_filtered now filters t
              in Inr \<lparr>la_memories = memories_with_trace now t memories, la_total = total\<rparr>))"

definition get_valid_tool ::
  "(string \<Rightarrow> datetime option) \<Rightarrow> datetime \<Rightarrow> 'a filter_params_scheme \<Rightarrow> nat option \<Rightarrow> memory_table \<Rightarrow>
   list_answer service_result" where
  "get_valid_tool parse now p limit_opt t =
     (let limit = normalize_limit limit_opt
      in case filters_of parse ''timestamp'' p of
           Inl e \<Rightarrow> Inl e
         | Inr filters \<Rightarrow>
             (let memories = strip_embeddings (get_valid now filters limit t)
              in Inr \<lparr>la_memories = memories_with_trace now t memories, la_total = length memories\<rparr>))"

definition get_valid_at_tool ::
  "(string \<Rightarrow> datetime option) \<Rightarrow> datetime \<Rightarrow> 'a filter_params_scheme \<Rightarrow> nat option \<Rightarrow> memory_table \<Rightarrow>
   list_answer service_result" where
  "get_valid_at_tool parse now p limit_opt t =
     (let limit = normalize_limit limit_opt
      in case filters_of parse ''timestamp'' p of
           Inl e \<Rightarrow> Inl e
         | Inr filters \<Rightarrow>
             (case get_valid_at filters limit t of
                Inl e \<Rightarrow> Inl (SE_App e)
              | Inr rows \<Rightarrow>
                  (let memories = strip_embeddings rows
                   in Inr \<lparr>la_memories = memories_with_trace now t memories, la_total = length memories\<rparr>)))"

section \<open>Export\<close>

definition normalize_project_id :: "string option \<Rightarrow> string option" where
  "normalize_project_id project_id =
     (case project_id of None \<Rightarrow> None | Some p \<Rightarrow> let trimmed = trim p in if trimmed = [] then None else Some trimmed)"



section \<open>Parsing an import\<close>

definition parse_import_conflict_strategy :: "string option \<Rightarrow> import_conflict_strategy service_result" where
  "parse_import_conflict_strategy value =
     (case trimmed_nonempty value of
        None \<Rightarrow> Inr Remap
      | Some v \<Rightarrow>
          if v = ''remap'' then Inr Remap else if v = ''skip'' then Inr Skip else if v = ''fail'' then Inr Fail
          else Inl (SE_Message (''Unsupported import conflict_strategy '' @ CHR 0x27 # v @ CHR 0x27 #
                 ''. Supported values: remap, skip, fail'')))"

definition required_fields :: "string list" where
  "required_fields = [''schema_version'', ''record_type'', ''id'', ''content'', ''memory_type'', ''importance_score'',
     ''created_at'', ''updated_at'', ''valid_from'', ''invalidated'']"

definition missing_required_field_error :: "nat \<Rightarrow> string \<Rightarrow> import_error" where
  "missing_required_field_error line_number field =
     \<lparr>ie_code = MissingRequiredField,
      ie_message = ''Memory migration record field '' @ CHR 0x27 # field @ CHR 0x27 # '' is required'',
      ie_line_number = Some line_number, ie_source_id = None, ie_field = Some field\<rparr>"

text \<open>\<open>serde\<close>: parsing a line, reading a number, converting a value to a record; the last fails with a
  message.\<close>

record serde_api =
  sj_parse :: "string \<Rightarrow> string + json"
  sj_u64 :: "json \<Rightarrow> nat option"
  sj_record :: "json \<Rightarrow> string + migration_memory_record"

record import_parse =
  ps_records :: "migration_memory_record list"
  ps_errors :: "import_error list"
  ps_total :: nat
  ps_id_lines :: "(string, nat) hmap"

definition push_error :: "import_error \<Rightarrow> import_parse \<Rightarrow> import_parse" where
  "push_error e st = st\<lparr>ps_errors := ps_errors st @ [e]\<rparr>"

definition record_error :: "nat \<Rightarrow> string option \<Rightarrow> string \<Rightarrow> import_error" where
  "record_error line_number source_id message =
     (let (code, field) =
        (if str_contains message ''unknown variant'' \<and> str_contains message ''memory_type''
         then (InvalidMemoryType, Some ''memory_type'')
         else if str_contains message ''unknown variant'' \<and> str_contains message ''record_type''
         then (InvalidRecordType, Some ''record_type'')
         else (InvalidJsonl, None))
      in \<lparr>ie_code = code,
          ie_message = ''Invalid memory migration record at line '' @ dec_of_nat line_number @ '': '' @ message,
          ie_line_number = Some line_number, ie_source_id = source_id, ie_field = field\<rparr>)"

definition parse_line :: "serde_api \<Rightarrow> nat \<Rightarrow> string \<Rightarrow> import_parse \<Rightarrow> import_parse" where
  "parse_line api line_number line st =
     (let trimmed = trim line
      in if trimmed = [] then st
         else
           (let st1 = st\<lparr>ps_total := ps_total st + 1\<rparr>
            in case sj_parse api trimmed of
                 Inl e \<Rightarrow> push_error
                   \<lparr>ie_code = InvalidJsonl,
                    ie_message = ''Invalid JSONL at line '' @ dec_of_nat line_number @ '': '' @ e,
                    ie_line_number = Some line_number, ie_source_id = None, ie_field = None\<rparr> st1
               | Inr value \<Rightarrow>
                   (let missing = filter (\<lambda>f. json_get value f = None) required_fields
                    in if missing \<noteq> [] then
                         st1\<lparr>ps_errors := ps_errors st1 @ map (missing_required_field_error line_number) missing\<rparr>
                       else
                         (let source_id = (case json_get value ''id'' of Some (JStr i) \<Rightarrow> Some i | _ \<Rightarrow> None);
                              schema_version = (case json_get value ''schema_version'' of Some v \<Rightarrow> sj_u64 api v | None \<Rightarrow> None)
                          in case (case schema_version of
                                     Some v \<Rightarrow> if v \<noteq> unat MEMORY_MIGRATION_SCHEMA_VERSION then Some v else None
                                   | None \<Rightarrow> None) of
                               Some v \<Rightarrow> push_error
                                 \<lparr>ie_code = UnsupportedSchemaVersion,
                                  ie_message = ''Unsupported memory migration schema_version '' @ dec_of_nat v @
                                    ''. Supported schema_version is '' @
                                    dec_of_nat (unat MEMORY_MIGRATION_SCHEMA_VERSION) @ ''.'',
                                  ie_line_number = Some line_number, ie_source_id = source_id,
                                  ie_field = Some ''schema_version''\<rparr> st1
                             | None \<Rightarrow>
                                 (case sj_record api value of
                                    Inl message \<Rightarrow> push_error (record_error line_number source_id message) st1
                                  | Inr r \<Rightarrow>
                                      (let st2 = st1\<lparr>ps_id_lines := hm_insert (mr_id r) line_number (ps_id_lines st1)\<rparr>
                                       in case hm_get (ps_id_lines st1) (mr_id r) of
                                            Some first_line \<Rightarrow> push_error
                                              \<lparr>ie_code = StorageError,
                                               ie_message = ''Duplicate memory id '' @ mr_id r @
                                                 '' in import payload (first seen at line '' @ dec_of_nat first_line @ '')'',
                                               ie_line_number = Some line_number, ie_source_id = Some (mr_id r),
                                               ie_field = Some ''id''\<rparr> st2
                                          | None \<Rightarrow> st2\<lparr>ps_records := ps_records st2 @ [r]\<rparr>))))))"

fun parse_lines :: "serde_api \<Rightarrow> nat \<Rightarrow> string list \<Rightarrow> import_parse \<Rightarrow> import_parse" where
  "parse_lines api index [] st = st"
| "parse_lines api index (line # ls) st = parse_lines api (index + 1) ls (parse_line api (index + 1) line st)"

text \<open>\<open>str::lines\<close>, up to a final empty line and carriage returns, which the parser trims away.\<close>

definition parse_import_jsonl :: "serde_api \<Rightarrow> string \<Rightarrow> import_parse" where
  "parse_import_jsonl api jsonl =
     parse_lines api 0 (split_on (CHR 0x0A) jsonl) \<lparr>ps_records = [], ps_errors = [], ps_total = 0, ps_id_lines = []\<rparr>"

definition resolve_import_project_id ::
  "migration_memory_record list \<Rightarrow> string option \<Rightarrow> bool \<Rightarrow> string service_result" where
  "resolve_import_project_id records target_project_id preserve_project_id =
     (if \<not> preserve_project_id then
        (case normalize_project_id target_project_id of
           Some p \<Rightarrow> Inr p | None \<Rightarrow> Inl (SE_Message ''project_id is required for memory import''))
      else
        (case remdups (List.map_filter (\<lambda>r. normalize_project_id (mr_project_id r)) records) of
           [] \<Rightarrow> Inl (SE_Message ''preserve_project_id=true requires every import record to include project_id'')
         | [p] \<Rightarrow> Inr p
         | _ \<Rightarrow> Inl (SE_Message ''preserve_project_id=true only supports one source project_id per import payload'')))"

section \<open>Importing\<close>

definition import_error_response ::
  "bool \<Rightarrow> import_conflict_strategy \<Rightarrow> nat \<Rightarrow> import_error list \<Rightarrow> import_memory_response" where
  "import_error_response dry_run conflict_strategy total_records errors =
     \<lparr>ir_conflict_strategy = conflict_strategy, ir_dry_run = dry_run, ir_imported_count = 0, ir_skipped_count = 0,
      ir_failed_count = length errors,
      ir_summary = \<lparr>sm_total_records = total_records, sm_memory_records = total_records, sm_exported_records = 0,
        sm_imported_records = 0, sm_skipped_records = 0, sm_failed_records = length errors, sm_valid_records = 0,
        sm_invalidated_records = 0, sm_dry_run = dry_run\<rparr>,
      ir_id_mappings = [], ir_errors = errors\<rparr>"

record import_params =
  im_jsonl :: string
  im_project_id :: string
  im_conflict_strategy :: "string option"
  im_dry_run :: "bool option"
  im_allow_invalidated :: "bool option"
  im_preserve_project_id :: "bool option"

fun index_imported ::
  "'e bm25_api \<Rightarrow> memory_table \<Rightarrow> (string, string) hmap \<Rightarrow> string list \<Rightarrow> 'e memory_index \<Rightarrow> 'e memory_index" where
  "index_imported api t remapped_ids [] idx = idx"
| "index_imported api t remapped_ids (source_id # is) idx =
     (let imported_id = (case hm_get remapped_ids source_id of Some n \<Rightarrow> n | None \<Rightarrow> source_id)
      in index_imported api t remapped_ids is
           (case get_memory t imported_id of Some m \<Rightarrow> upsert_memory api m idx | None \<Rightarrow> idx))"

definition import_memory_tool ::
  "'e bm25_api \<Rightarrow> serde_api \<Rightarrow> (string \<times> string \<Rightarrow> u64) \<Rightarrow> (datetime \<Rightarrow> string) \<Rightarrow> datetime \<Rightarrow> import_params \<Rightarrow>
   'e memory_service \<Rightarrow> import_memory_response service_result \<times> 'e memory_service" where
  "import_memory_tool api serde hasher fmt_time now p s =
     (let dry_run = (case im_dry_run p of Some b \<Rightarrow> b | None \<Rightarrow> False);
          allow_invalidated = (case im_allow_invalidated p of Some b \<Rightarrow> b | None \<Rightarrow> False);
          preserve_project_id = (case im_preserve_project_id p of Some b \<Rightarrow> b | None \<Rightarrow> False)
      in case parse_import_conflict_strategy (im_conflict_strategy p) of Inl e \<Rightarrow> (Inl e, s) | Inr conflict_strategy \<Rightarrow>
         (let st = parse_import_jsonl serde (im_jsonl p); records = ps_records st
          in if ps_errors st \<noteq> [] then
               (Inr (import_error_response dry_run conflict_strategy (ps_total st) (ps_errors st)), s)
             else
               (case resolve_import_project_id records (Some (im_project_id p)) preserve_project_id of
                  Inl e \<Rightarrow> (Inl e, s)
                | Inr project_id \<Rightarrow>
                    (let opts = \<lparr>io_project_id = project_id, io_conflict_strategy = conflict_strategy,
                                 io_dry_run = dry_run, io_allow_invalidated = allow_invalidated\<rparr>;
                         source_ids = map mr_id records
                     in case import_memories hasher fmt_time now records opts (sv_table s) of
                          (Inl e, t) \<Rightarrow> (Inl (SE_App e), s\<lparr>sv_table := t\<rparr>)
                        | (Inr response, t) \<Rightarrow>
                            if \<not> ir_dry_run response \<and> ir_imported_count response > 0 \<and> ir_errors response = [] then
                              (let remapped_ids = foldl (\<lambda>m (old, new). hm_insert old new m) [] (ir_id_mappings response)
                               in (Inr response, s\<lparr>sv_table := t,
                                     sv_index := index_imported api t remapped_ids source_ids (sv_index s)\<rparr>))
                            else (Inr response, s\<lparr>sv_table := t\<rparr>)))))"

section \<open>What the parser accepts\<close>

definition parse_ok :: "nat \<Rightarrow> import_parse \<Rightarrow> bool" where
  "parse_ok n st \<longleftrightarrow> distinct (map mr_id (ps_records st)) \<and> fst ` set (ps_id_lines st) = mr_id ` set (ps_records st) \<and>
     length (ps_records st) \<le> ps_total st \<and> (ps_errors st = []) = (length (ps_records st) = ps_total st) \<and>
     list_all (\<lambda>e. case ie_line_number e of Some l \<Rightarrow> 1 \<le> l \<and> l \<le> n | None \<Rightarrow> False) (ps_errors st)"

lemma parse_ok_error:
  assumes "parse_ok n st" "es \<noteq> []" "\<forall>e\<in>set es. ie_line_number e = Some (Suc n)"
    and "ps_records st' = ps_records st" "ps_errors st' = ps_errors st @ es" "ps_total st' = Suc (ps_total st)"
    and "fst ` set (ps_id_lines st') = fst ` set (ps_id_lines st)"
  shows "parse_ok (Suc n) st'"
proof -
  have "list_all (\<lambda>e. case ie_line_number e of Some l \<Rightarrow> 1 \<le> l \<and> l \<le> Suc n | None \<Rightarrow> False) (ps_errors st)"
    using assms(1) by (auto simp: parse_ok_def list_all_iff split: option.splits)
  moreover have "list_all (\<lambda>e. case ie_line_number e of Some l \<Rightarrow> 1 \<le> l \<and> l \<le> Suc n | None \<Rightarrow> False) es"
    using assms(3) by (simp add: list_all_iff)
  ultimately show ?thesis using assms by (simp add: parse_ok_def)
qed

lemma parse_ok_record:
  assumes "parse_ok n st" "hm_get (ps_id_lines st) (mr_id r) = None"
    and "ps_records st' = ps_records st @ [r]" "ps_errors st' = ps_errors st" "ps_total st' = Suc (ps_total st)"
    and "ps_id_lines st' = hm_insert (mr_id r) l (ps_id_lines st)"
  shows "parse_ok (Suc n) st'"
proof -
  have "list_all (\<lambda>e. case ie_line_number e of Some l \<Rightarrow> 1 \<le> l \<and> l \<le> Suc n | None \<Rightarrow> False) (ps_errors st)"
    using assms(1) by (auto simp: parse_ok_def list_all_iff split: option.splits)
  moreover have "mr_id r \<notin> mr_id ` set (ps_records st)"
    using assms(1,2) unfolding parse_ok_def hm_get_None by force
  ultimately show ?thesis using assms(1,3-6) by (simp add: parse_ok_def hm_keys_insert)
qed

lemma parse_ok_line:
  assumes ok: "parse_ok n st"
  shows "parse_ok (Suc n) (parse_line api (Suc n) line st)"
proof (cases "trim line = []")
  case True
  with ok show ?thesis by (auto simp: parse_line_def parse_ok_def list_all_iff Let_def split: option.splits)
next
  case False
  note line = False
  show ?thesis
  proof (cases "sj_parse api (trim line)")
    case (Inl e)
    with line show ?thesis
      by (intro parse_ok_error [OF ok]) (simp_all add: parse_line_def push_error_def Let_def)
  next
    case (Inr v0)
    let ?missing = "filter (\<lambda>f. json_get v0 f = None) required_fields"
    show ?thesis
    proof (cases "?missing = []")
      case False
      with line Inr show ?thesis
        by (intro parse_ok_error [OF ok, of "map (missing_required_field_error (Suc n)) ?missing"])
          (simp_all add: parse_line_def Let_def missing_required_field_error_def)
    next
      case True
      define bad where "bad = (case (case json_get v0 ''schema_version'' of Some v \<Rightarrow> sj_u64 api v | None \<Rightarrow> None) of
          Some v \<Rightarrow> if v \<noteq> unat MEMORY_MIGRATION_SCHEMA_VERSION then Some v else None | None \<Rightarrow> None)"
      show ?thesis
      proof (cases bad)
        case (Some v)
        with line Inr True show ?thesis
          by (intro parse_ok_error [OF ok]) (simp_all add: parse_line_def push_error_def Let_def bad_def [symmetric])
      next
        case None
        show ?thesis
        proof (cases "sj_record api v0")
          case (Inl m)
          with line Inr True None show ?thesis
            by (intro parse_ok_error [OF ok, of "[record_error (Suc n) (case json_get v0 ''id'' of Some (JStr i) \<Rightarrow> Some i | _ \<Rightarrow> None) m]"])
              (simp_all add: parse_line_def push_error_def Let_def record_error_def bad_def [symmetric])
        next
          case parsed: (Inr r)
          show ?thesis
          proof (cases "hm_get (ps_id_lines st) (mr_id r)")
            case (Some l)
            then have "mr_id r \<in> fst ` set (ps_id_lines st)" by (metis hm_get_None option.distinct(1) list.set_map)
            with line Inr True None parsed Some show ?thesis
              by (intro parse_ok_error [OF ok])
                (simp_all add: parse_line_def push_error_def Let_def hm_keys_insert insert_absorb bad_def [symmetric])
          next
            case fresh: None
            with line Inr True None parsed show ?thesis
              by (intro parse_ok_record [OF ok, of r]) (simp_all add: parse_line_def Let_def bad_def [symmetric])
          qed
        qed
      qed
    qed
  qed
qed

lemma parse_ok_lines: "parse_ok n st \<Longrightarrow> parse_ok (n + length ls) (parse_lines api n ls st)"
proof (induction ls arbitrary: n st)
  case (Cons l ls)
  from Cons.IH [OF parse_ok_line [OF Cons.prems, of api l]] show ?case by simp
qed simp

lemma parse_line_total: "ps_total (parse_line api n line st) = ps_total st + (if trim line = [] then 0 else 1)"
  by (simp add: parse_line_def push_error_def Let_def split: sum.split option.split)

lemma parse_lines_total: "ps_total (parse_lines api n ls st) = ps_total st + length (filter (\<lambda>l. trim l \<noteq> []) ls)"
  by (induction ls arbitrary: n st) (auto simp: parse_line_total)

text \<open>The import parser accounts for every line: the total is the number of lines that are not blank,
  the accepted records have pairwise different ids, nothing is reported exactly when every such line
  became a record, and every error names a line of the payload.\<close>
theorem import_parse_accounts:
  "let st = parse_import_jsonl api jsonl; ls = split_on (CHR 0x0A) jsonl in
     ps_total st = length (filter (\<lambda>l. trim l \<noteq> []) ls) \<and> distinct (map mr_id (ps_records st)) \<and>
     length (ps_records st) \<le> ps_total st \<and> (ps_errors st = []) = (length (ps_records st) = ps_total st) \<and>
     list_all (\<lambda>e. case ie_line_number e of Some l \<Rightarrow> 1 \<le> l \<and> l \<le> length ls | None \<Rightarrow> False) (ps_errors st)"
proof -
  have "parse_ok 0 \<lparr>ps_records = [], ps_errors = [], ps_total = 0, ps_id_lines = []\<rparr>" by (simp add: parse_ok_def)
  from parse_ok_lines [OF this, of "split_on (CHR 0x0A) jsonl" api] show ?thesis
    by (simp add: parse_import_jsonl_def Let_def parse_ok_def parse_lines_total)
qed

text \<open>The check behind the message that every record must include a project id asks only for one.\<close>

lemma preserve_needs_one_project:
  assumes "normalize_project_id (mr_project_id r) = Some p" "mr_project_id r' = None"
  shows "resolve_import_project_id [r, r'] target True = Inr p"
  using assms by (simp add: resolve_import_project_id_def List.map_filter_simps normalize_project_id_def)


section \<open>The import keeps the index\<close>

definition imported_key :: "(string, string) hmap \<Rightarrow> string \<Rightarrow> string" where
  "imported_key remapped_ids i = (case hm_get remapped_ids i of Some n \<Rightarrow> n | None \<Rightarrow> i)"

lemma index_imported_spec:
  assumes api: "engine_contract api docs" and t: "table_ok t"
  shows "index_ok docs idx \<Longrightarrow> index_ok docs (index_imported api t remapped is idx) \<and>
    index_contents (index_imported api t remapped is idx) =
      (\<lambda>k. if k \<in> imported_key remapped ` set is \<and> hm_get t k \<noteq> None then open_contents t k else index_contents idx k)"
proof (induction "is" arbitrary: idx)
  case (Cons i "is")
  let ?k = "imported_key remapped i"
  have step: "index_imported api t remapped (i # is) idx =
      index_imported api t remapped is (case hm_get t ?k of Some m \<Rightarrow> upsert_memory api m idx | None \<Rightarrow> idx)"
    by (simp add: imported_key_def get_memory_row [OF t])
  show ?case
  proof (cases "hm_get t ?k")
    case None
    with Cons show ?thesis unfolding step by (auto intro!: ext)
  next
    case (Some m)
    note up = upsert_memory_spec [OF api Cons.prems, of m]
    have "index_contents (upsert_memory api m idx) = (index_contents idx)(?k := open_contents t ?k)"
      by (simp add: up(2) table_ok_row [OF t Some] open_contents_def Some)
    with Cons.IH [OF up(1)] Some show ?thesis unfolding step by auto
  qed
qed simp

lemma write_records_frame:
  "write_records fmt_time opts now id_map ids rns t = (res, t') \<Longrightarrow> table_ok t \<Longrightarrow>
     table_ok t' \<and> (\<forall>k. hm_get t' k \<noteq> hm_get t k \<longrightarrow> k \<in> set (map snd rns))"
proof (induction rns arbitrary: t)
  case (Cons rn rns)
  obtain r n where rn: "rn = (r, n)" by (cases rn)
  let ?t = "hm_insert n (imported_memory fmt_time opts now id_map ids r n) t"
  have ok: "table_ok ?t"
    by (rule table_ok_insert [OF Cons.prems(2)]) (simp add: imported_memory_def migration_record_to_memory_def Let_def)
  show ?case
  proof (cases "hm_get t n")
    case None
    with Cons.prems(1) have "write_records fmt_time opts now id_map ids rns ?t = (res, t')"
      by (simp add: rn write_record_eq)
    from Cons.IH [OF this ok] show ?thesis by (auto simp: rn split: if_splits)
  qed (use Cons.prems in \<open>simp add: rn write_record_eq\<close>)
qed simp

lemma import_table_ok:
  assumes run: "import_memories hasher fmt_time now records opts t = (res, t')" and "table_ok t"
  shows "table_ok t'"
proof (cases "trim (io_project_id opts) = []")
  case True
  with assms show ?thesis by (auto simp: import_memories_def validate_project_scope_def)
next
  case False
  note eq = import_memories_eq [OF False, where hasher = hasher and fmt_time = fmt_time and now = now
      and records = records and t = t]
  show ?thesis
    using assms write_records_frame unfolding eq by (fastforce split: if_splits prod.splits sum.splits)
qed

abbreviation remapping :: "(string \<times> string) list \<Rightarrow> (string, string) hmap" where
  "remapping \<equiv> foldl (\<lambda>m (old, new). hm_insert old new m) []"

lemma plan_record_remapping:
  "hm_get (remapping (ip_id_mappings (plan_record hasher opts conflicts r pl))) i =
     (case planned_id hasher opts conflicts (mr_id r) of
        Some n \<Rightarrow> if mr_id r = i \<and> n \<noteq> i then Some n else hm_get (remapping (ip_id_mappings pl)) i
      | None \<Rightarrow> hm_get (remapping (ip_id_mappings pl)) i)"
  by (auto simp: plan_record_def planned_id_def Let_def split: import_conflict_strategy.splits)

lemma plan_records_remapping:
  "hm_get (remapping (ip_id_mappings (plan_records hasher opts conflicts rs pl))) i =
     (case planned_id hasher opts conflicts i of
        Some n \<Rightarrow> if i \<in> mr_id ` set rs \<and> n \<noteq> i then Some n else hm_get (remapping (ip_id_mappings pl)) i
      | None \<Rightarrow> hm_get (remapping (ip_id_mappings pl)) i)"
  by (induction rs arbitrary: pl) (auto simp: plan_record_remapping split: option.split)

text \<open>The keys that a successful import wrote are found through the response's mappings.\<close>

lemma imported_rows:
  assumes "import_memories hasher fmt_time now records opts t = (Inr rep, t')" "table_ok t"
  shows "table_ok t' \<and> (\<forall>k. hm_get t' k \<noteq> hm_get t k \<longrightarrow>
      k \<in> imported_key (remapping (ir_id_mappings rep)) ` set (map mr_id records) \<and> hm_get t' k \<noteq> None \<and>
      \<not> ir_dry_run rep \<and> ir_imported_count rep > 0 \<and> ir_errors rep = [])"
proof (cases "trim (io_project_id opts) = []")
  case True
  with assms show ?thesis by (simp add: import_memories_def validate_project_scope_def)
next
  case False
  define sc where "sc = scan_records opts 0 records scan_init"
  define conflicts where "conflicts = existing_memory_ids t (map mr_id (is_importable sc))"
  define pl where "pl = plan_records hasher opts conflicts (is_importable sc) (plan_init sc)"
  define planned where "planned = planned_records (ip_id_map pl) (is_importable sc)"
  note eq = import_memories_eq [OF False, where hasher = hasher and fmt_time = fmt_time and now = now
      and records = records and t = t, folded sc_def, folded conflicts_def, folded pl_def, folded planned_def]
  have planned: "set (map snd planned) \<subseteq> imported_key (remapping (ip_id_mappings pl)) ` set (map mr_id records)"
  proof
    fix k
    assume "k \<in> set (map snd planned)"
    then obtain r where r: "r \<in> set (is_importable sc)" "planned_id hasher opts conflicts (mr_id r) = Some k"
      by (auto simp: planned_def pl_def planned_records_eq)
    then have "imported_key (remapping (ip_id_mappings pl)) (mr_id r) = k"
      by (auto simp: imported_key_def pl_def plan_records_remapping plan_init_def)
    moreover have "r \<in> set records" using scan_records_importable [of r opts 0 records scan_init] r(1)
      by (auto simp: sc_def scan_init_def)
    ultimately show "k \<in> imported_key (remapping (ip_id_mappings pl)) ` set (map mr_id records)" by auto
  qed
  show ?thesis
  proof (cases "io_dry_run opts \<or> ip_failed pl > 0 \<or> ip_errors pl \<noteq> []")
    case True
    with assms show ?thesis unfolding eq by simp
  next
    case False
    obtain res t1 where w: "write_records fmt_time opts now (ip_id_map pl) (set (map mr_id records)) planned t = (res, t1)"
      by fastforce
    with assms(1) False obtain u where u: "res = Inr u" "t' = t1" "ir_id_mappings rep = ip_id_mappings pl"
      "ir_dry_run rep = io_dry_run opts" "ir_imported_count rep = length planned" "ir_errors rep = ip_errors pl"
      unfolding eq by (auto split: sum.splits)
    note fr = write_records_frame [OF w assms(2)]
    have "k \<in> imported_key (remapping (ir_id_mappings rep)) ` set (map mr_id records) \<and> hm_get t' k \<noteq> None \<and>
      \<not> ir_dry_run rep \<and> ir_imported_count rep > 0 \<and> ir_errors rep = []" if "hm_get t' k \<noteq> hm_get t k" for k
    proof -
      from fr that have k: "k \<in> set (map snd planned)" by (simp add: u)
      moreover have "hm_get t' k \<noteq> None"
        using that write_records_keeps [OF w, of k] by (cases "hm_get t k") (auto simp: u)
      moreover from k have "planned \<noteq> []" by auto
      ultimately show ?thesis using planned False by (auto simp: u)
    qed
    with fr show ?thesis by (simp add: u)
  qed
qed

lemma import_synced:
  assumes api: "engine_contract api docs" and s: "synced docs s"
    and imp: "import_memories hasher fmt_time now records opts (sv_table s) = (Inr rep, t)"
  shows "synced docs (if \<not> ir_dry_run rep \<and> ir_imported_count rep > 0 \<and> ir_errors rep = []
    then s\<lparr>sv_table := t, sv_index := index_imported api t (remapping (ir_id_mappings rep)) (map mr_id records) (sv_index s)\<rparr>
    else s\<lparr>sv_table := t\<rparr>)"
proof -
  have ok: "table_ok (sv_table s)" "index_ok docs (sv_index s)" "index_contents (sv_index s) = open_contents (sv_table s)"
    using s by (simp_all add: synced_def)
  note rows = imported_rows [OF imp ok(1)]
  have keep: "open_contents t k = open_contents (sv_table s) k" if "hm_get t k = hm_get (sv_table s) k" for k
    using that by (simp add: open_contents_def)
  show ?thesis
  proof (cases "\<not> ir_dry_run rep \<and> ir_imported_count rep > 0 \<and> ir_errors rep = []")
    case True
    from rows have "table_ok t" by simp
    note spec = index_imported_spec [OF api this ok(2), of "remapping (ir_id_mappings rep)" "map mr_id records"]
    have "index_contents (index_imported api t (remapping (ir_id_mappings rep)) (map mr_id records) (sv_index s)) = open_contents t"
    proof
      fix k
      show "index_contents (index_imported api t (remapping (ir_id_mappings rep)) (map mr_id records) (sv_index s)) k = open_contents t k"
        using spec rows keep [of k] by (cases "hm_get t k = hm_get (sv_table s) k") (auto simp: ok(3))
    qed
    with True spec rows show ?thesis by (simp add: synced_def)
  next
    case False
    with rows have "hm_get t k = hm_get (sv_table s) k" for k by blast
    then have "open_contents t = open_contents (sv_table s)" by (intro ext keep)
    with rows ok show ?thesis unfolding if_not_P [OF False] by (simp add: synced_def)
  qed
qed

text \<open>C15: An import that answers leaves the lexical index in step with the table: every record it wrote, under its
  own or its remapped id, can be found, and nothing else changed. An import that fails never touches
  the index (so rows written before the failure stay out of it).\<close>
theorem import_keeps_index:
  assumes "engine_contract api docs" and "synced docs s"
  shows "case import_memory_tool api serde hasher fmt_time now p s of
      (Inl e, s') \<Rightarrow> sv_index s' = sv_index s
    | (Inr rep, s') \<Rightarrow> synced docs s'"
proof (cases "parse_import_conflict_strategy (im_conflict_strategy p)")
  case strategy: (Inr strategy)
  let ?st = "parse_import_jsonl serde (im_jsonl p)"
  let ?pre = "case im_preserve_project_id p of Some b \<Rightarrow> b | None \<Rightarrow> False"
  show ?thesis
  proof (cases "ps_errors ?st = []")
    case parsed: True
    show ?thesis
    proof (cases "resolve_import_project_id (ps_records ?st) (Some (im_project_id p)) ?pre")
      case resolved: (Inr project)
      let ?opts = "\<lparr>io_project_id = project, io_conflict_strategy = strategy,
          io_dry_run = case im_dry_run p of Some b \<Rightarrow> b | None \<Rightarrow> False,
          io_allow_invalidated = case im_allow_invalidated p of Some b \<Rightarrow> b | None \<Rightarrow> False\<rparr>"
      obtain res t where imp: "import_memories hasher fmt_time now (ps_records ?st) ?opts (sv_table s) = (res, t)"
        by fastforce
      show ?thesis
      proof (cases res)
        case (Inr rep)
        from import_synced [OF assms imp [unfolded Inr]] imp Inr show ?thesis
          by (simp add: import_memory_tool_def Let_def strategy parsed resolved split del: if_split) (auto split: if_splits)
      qed (simp add: import_memory_tool_def Let_def strategy parsed resolved imp)
    qed (simp add: import_memory_tool_def Let_def strategy parsed)
  qed (use assms(2) in \<open>simp add: import_memory_tool_def Let_def strategy\<close>)
qed (simp add: import_memory_tool_def)


definition example_serde :: serde_api where
  "example_serde = \<lparr>sj_parse = (\<lambda>s. Inr (JObj (map (\<lambda>f. (f, JStr s)) required_fields))),
     sj_u64 = (\<lambda>_. Some 1), sj_record = (\<lambda>_. Inr (payload_record ''a''))\<rparr>"

definition example_import :: import_params where
  "example_import = \<lparr>im_jsonl = ''x'', im_project_id = ''p'', im_conflict_strategy = None, im_dry_run = None,
     im_allow_invalidated = None, im_preserve_project_id = None\<rparr>"

theorem import_keeps_index_witness:
  "synced map_of (snd (import_memory_tool token_engine example_serde (\<lambda>_. 0) (\<lambda>_. []) 9 example_import
     (service_new token_engine)))"
proof -
  let ?r = "import_memory_tool token_engine example_serde (\<lambda>_. 0) (\<lambda>_. []) 9 example_import (service_new token_engine)"
  have "\<not> isl (fst ?r)" by code_simp
  then obtain rep s' where "?r = (Inr rep, s')" by (metis isl_def prod.collapse sum.exhaust)
  with import_keeps_index [OF token_engine_contract synced_new [OF token_engine_contract],
      where serde = example_serde and hasher = "\<lambda>_. 0" and fmt_time = "\<lambda>_. []" and now = 9 and p = example_import]
  show ?thesis by simp
qed

section \<open>Moving a project\<close>






lemma trim_trim [simp]: "trim (trim s) = trim s"
proof -
  have drop: "dropWhile P (dropWhile P xs) = dropWhile P xs" for P and xs :: string by (induction xs) auto
  have again: "dropWhile P (rev (dropWhile P (rev (dropWhile P xs)))) = rev (dropWhile P (rev (dropWhile P xs)))"
    for P and xs :: string
  proof (cases "dropWhile P xs")
    case (Cons y ys)
    then have "\<not> P y" by (metis hd_dropWhile list.discI list.sel(1))
    then have "dropWhile P (rev ys @ [y]) = dropWhile P (rev ys) @ [y]"
      by (cases "\<forall>x\<in>set (rev ys). P x") (auto simp: dropWhile_append)
    with \<open>\<not> P y\<close> show ?thesis by (simp add: Cons)
  next
    case Nil
    show ?thesis unfolding Nil by simp
  qed
  show ?thesis by (simp add: trim_def again drop)
qed









section \<open>The invariant of the rows\<close>

text \<open>A row written by the tools: with the hash of its content and an embedding; and a row written by an import, which
  computes neither.\<close>

definition embedded_row :: "service_env \<Rightarrow> memory \<Rightarrow> bool" where
  "embedded_row env m \<longleftrightarrow>
     m_content_hash m = Some (se_hash env (m_content m)) \<and> m_embedding m \<noteq> None \<and> m_embedding_state m = ES_Ready"

definition imported_row :: "memory \<Rightarrow> bool" where
  "imported_row m \<longleftrightarrow> m_content_hash m = None \<and> m_embedding m = None \<and> m_embedding_state m = ES_None"

definition importance_in_range :: "memory \<Rightarrow> bool" where
  "importance_in_range m \<longleftrightarrow> 1 / 10 \<le> m_importance_score m \<and> m_importance_score m \<le> 5"

text \<open>What a row may be, with (\<open>imports\<close>) and without imports.\<close>

definition memory_typed :: "bool \<Rightarrow> service_env \<Rightarrow> memory \<Rightarrow> bool" where
  "memory_typed imports env m \<longleftrightarrow>
     (if imports then embedded_row env m \<or> imported_row m else embedded_row env m \<and> importance_in_range m)"

definition rows_typed :: "bool \<Rightarrow> service_env \<Rightarrow> memory_table \<Rightarrow> bool" where
  "rows_typed imports env t \<longleftrightarrow> table_ok t \<and> (\<forall>k m. hm_get t k = Some m \<longrightarrow> memory_typed imports env m)"

lemma rows_typed_insert:
  "rows_typed im env t \<Longrightarrow> memory_typed im env m \<Longrightarrow> m_id m = Some (memory_thing k) \<Longrightarrow> rows_typed im env (hm_insert k m t)"
  by (simp add: rows_typed_def table_ok_insert)

lemma rows_typed_remove: "rows_typed im env t \<Longrightarrow> rows_typed im env (hm_remove k t)"
  by (simp add: rows_typed_def table_ok_remove)

lemma normalized_importance: "normalize_importance_score v = Some x \<Longrightarrow> 1 / 10 \<le> x \<and> x \<le> 5"
  by (auto simp: normalize_importance_score_def split: option.splits if_splits)

lemmas typed_defs = memory_typed_def embedded_row_def imported_row_def importance_in_range_def

lemma stored_memory_typed: "memory_typed im env (stored_memory env now p ty (importance_or_one v) e\<lparr>m_id := i\<rparr>)"
  using normalized_importance [of v] by (auto simp: typed_defs stored_memory_def memory_new_def
      importance_or_one_def split: option.split)

lemma memory_typed_ended: "memory_typed im env (ended now r b m) = memory_typed im env m"
  by (simp add: typed_defs ended_def)

lemma rows_typed_create:
  "rows_typed im env (sv_table s) \<Longrightarrow>
     rows_typed im env (sv_table (snd (create_and_sync_memory api new_id (stored_memory env now p ty (importance_or_one v) e) s)))"
  by (simp add: create_and_sync_spec Let_def rows_typed_insert stored_memory_typed)

lemma rows_typed_invalidate:
  assumes "rows_typed im env (sv_table s)"
  shows "rows_typed im env (sv_table (snd (invalidate_and_sync_memory api faults now i reason sup_id s)))"
proof -
  have ok: "table_ok (sv_table s)" using assms by (simp add: rows_typed_def)
  show ?thesis
  proof (cases "hm_get (sv_table s) i")
    case (Some m)
    with assms have "memory_typed im env (ended now reason sup_id m)" by (simp add: memory_typed_ended rows_typed_def)
    from rows_typed_insert [OF assms this] table_ok_row [OF ok Some] show ?thesis
      using assms by (simp add: invalidate_and_sync_spec [OF ok] Some split: option.split)
  qed (use assms in \<open>simp add: invalidate_and_sync_spec [OF ok] split: option.split\<close>)
qed

lemma rows_typed_delete_batch:
  "rows_typed im env t \<Longrightarrow> delete_memories_batch no_faults is t = (Inr deleted, t') \<Longrightarrow> rows_typed im env t'"
  by (induction "is" arbitrary: t deleted)
    (auto simp: delete_memory_def Let_def split: prod.splits sum.splits if_splits dest: rows_typed_remove)

text \<open>An update that keeps the embedding keeps the hash, because the hash of the new content is the same.\<close>

lemma rows_typed_update_memory:
  assumes "rows_typed im env t" "\<And>m. hm_get t i = Some m \<Longrightarrow> memory_typed im env m \<Longrightarrow> memory_typed im env (apply_update u m)"
  shows "rows_typed im env (snd (update_memory i u t))"
proof -
  have ok: "table_ok t" using assms(1) by (simp add: rows_typed_def)
  show ?thesis
  proof (cases "hm_get t i")
    case (Some m)
    with assms have "memory_typed im env (apply_update u m)" by (auto simp: rows_typed_def)
    from rows_typed_insert [OF assms(1) this] table_ok_row [OF ok Some] show ?thesis
      by (simp add: update_memory_def get_memory_row [OF ok] Some Let_def)
  qed (use assms(1) in \<open>simp add: update_memory_def get_memory_row [OF ok]\<close>)
qed


lemma case_option_same: "(case x of None \<Rightarrow> a | Some v \<Rightarrow> a) = a"
  by (cases x) simp_all

lemma apply_update_fields:
  "m_content (apply_update u m) = (case mu_content u of Some v \<Rightarrow> v | None \<Rightarrow> m_content m)"
  "m_importance_score (apply_update u m) = (case mu_importance_score u of Some v \<Rightarrow> v | None \<Rightarrow> m_importance_score m)"
  "m_embedding (apply_update u m) = (case mu_embedding u of Some v \<Rightarrow> Some v | None \<Rightarrow> m_embedding m)"
  "m_content_hash (apply_update u m) = (case mu_content_hash u of Some v \<Rightarrow> Some v | None \<Rightarrow> m_content_hash m)"
  "m_embedding_state (apply_update u m) = (case mu_embedding_state u of Some v \<Rightarrow> v | None \<Rightarrow> m_embedding_state m)"
  by (simp_all add: apply_update_def Let_def option.case_distrib [of m_content] option.case_distrib [of m_importance_score]
      option.case_distrib [of m_embedding] option.case_distrib [of m_content_hash] option.case_distrib [of m_embedding_state]
      case_option_same cong: option.case_cong)

text \<open>The updates of the tool: the content comes with its hash and a new embedding, or nothing of the three is touched
  and the content is still the one the hash was computed from.\<close>

definition update_consistent :: "service_env \<Rightarrow> memory \<Rightarrow> memory_update \<Rightarrow> bool" where
  "update_consistent env m u \<longleftrightarrow>
     (\<exists>c e. mu_content u = Some c \<and> mu_embedding u = Some e \<and> mu_content_hash u = Some (se_hash env c) \<and>
        mu_embedding_state u = Some ES_Ready) \<or>
     (mu_embedding u = None \<and> mu_content_hash u = None \<and> mu_embedding_state u = None \<and>
      (case mu_content u of None \<Rightarrow> True | Some c \<Rightarrow> m_content_hash m = Some (se_hash env c)))"

lemma memory_typed_apply_update:
  assumes "memory_typed im env m" and "update_consistent env m u"
    and "\<And>x. mu_importance_score u = Some x \<Longrightarrow> 1 / 10 \<le> x \<and> x \<le> 5"
  shows "memory_typed im env (apply_update u m)"
  using assms unfolding typed_defs update_consistent_def apply_update_fields by (auto split: option.splits if_splits)

lemma rows_typed_update:
  assumes "rows_typed im env (sv_table s)"
  shows "rows_typed im env (sv_table (snd (update_memory_tool api env p s)))"
proof -
  have ok: "table_ok (sv_table s)" using assms by (simp add: rows_typed_def)
  have upd: "rows_typed im env (sv_table (snd (case update_memory (up_id p) u (sv_table s) of
      (Inl e, t) \<Rightarrow> (Inl (SE_App e), s\<lparr>sv_table := t\<rparr>)
    | (Inr m, t) \<Rightarrow> (Inr (m\<lparr>m_embedding := None\<rparr>), s\<lparr>sv_table := t, sv_index := upsert_memory api m (sv_index s)\<rparr>))))"
    if imp: "mu_importance_score u = normalize_importance_score (up_importance_score p)"
      and cons: "\<And>m. hm_get (sv_table s) (up_id p) = Some m \<Longrightarrow> update_consistent env m u" for u
  proof -
    have "memory_typed im env (apply_update u m)" if m: "hm_get (sv_table s) (up_id p) = Some m" "memory_typed im env m" for m
      by (rule memory_typed_apply_update [OF m(2) cons [OF m(1)]]) (use imp normalized_importance in auto)
    from rows_typed_update_memory [OF assms, of "up_id p" u, OF this] show ?thesis by (auto split: sum.split prod.split)
  qed
  show ?thesis
  proof (cases "up_content p")
    case None
    show ?thesis using assms
      by (auto simp: update_memory_tool_def None Let_def update_consistent_def intro!: upd split: sum.split option.split)
  next
    case (Some c)
    let ?old = "case get_memory (sv_table s) (up_id p) of Some m \<Rightarrow> m_content_hash m | None \<Rightarrow> None"
    show ?thesis
    proof (cases "needs_reembed env ?old c")
      case True
      with assms show ?thesis
        by (auto simp: update_memory_tool_def Some Let_def update_consistent_def intro!: upd split: sum.split option.split)
    next
      case False
      have same: "m_content_hash m = Some (se_hash env c)" if "hm_get (sv_table s) (up_id p) = Some m" for m
        using False that by (auto simp: get_memory_row [OF ok] needs_reembed_def Let_def split: option.splits)
      with False assms show ?thesis
        by (auto simp: update_memory_tool_def Some Let_def update_consistent_def intro!: upd split: sum.split option.split)
    qed
  qed
qed

lemma rows_typed_delete: "rows_typed im env (sv_table s) \<Longrightarrow> rows_typed im env (sv_table (snd (delete_memory_tool api i s)))"
  by (simp add: delete_memory_tool_def delete_memory_def rows_typed_remove)

interpretation typed_step: service_invariant api env "\<lambda>s. rows_typed im env (sv_table s)" for im api env
  by unfold_locales
    (simp_all add: rows_typed_create rows_typed_update rows_typed_delete rows_typed_invalidate rows_typed_delete_batch)

lemma rows_typed_import:
  assumes "rows_typed True env (sv_table s)"
  shows "rows_typed True env (sv_table (snd (import_memory_tool api serde hasher fmt_time now p s)))"
proof -
  have table: "rows_typed True env t'" if run: "import_memories hasher fmt_time now records opts (sv_table s) = (res, t')"
    for records opts res t'
  proof -
    have "memory_typed True env m" if m: "hm_get t' k = Some m" for k m
    proof (cases "hm_get (sv_table s) k")
      case (Some m0)
      with import_rows(1) [OF run Some] m assms show ?thesis by (simp add: rows_typed_def)
    next
      case None
      from import_rows(2) [OF run m None] show ?thesis by (auto simp: imports_record_def typed_defs)
    qed
    moreover have "table_ok t'"
      using assms by (intro import_table_ok [OF run]) (simp add: rows_typed_def)
    ultimately show ?thesis by (simp add: rows_typed_def)
  qed
  show ?thesis
    using assms table unfolding import_memory_tool_def Let_def
    by (auto split: sum.split prod.split if_splits)
qed

text \<open>The tools of \<open>memory.rs\<close> that write rows: the events of the service, with every fault of the database that
  they have, and imports.\<close>

datatype tool_event =
    ToolCall service_event
  | ToolImport serde_api "string \<times> string \<Rightarrow> u64" "datetime \<Rightarrow> string" datetime import_params

fun tool_step :: "'e bm25_api \<Rightarrow> service_env \<Rightarrow> 'e memory_service \<Rightarrow> tool_event \<Rightarrow> 'e memory_service" where
  "tool_step api env s (ToolCall e) = service_step api env s e"
| "tool_step api env s (ToolImport serde hasher fmt_time now p) = snd (import_memory_tool api serde hasher fmt_time now p s)"

fun is_import :: "tool_event \<Rightarrow> bool" where
  "is_import (ToolCall e) = False"
| "is_import (ToolImport serde hasher fmt_time now p) = True"

lemma rows_typed_tools:
  "rows_typed im env (sv_table s) \<Longrightarrow> \<forall>e\<in>set es. is_import e \<longrightarrow> im \<Longrightarrow>
     rows_typed im env (sv_table (foldl (tool_step api env) s es))"
proof (induction es arbitrary: s)
  case (Cons e es)
  have "rows_typed im env (sv_table (tool_step api env s e))"
    using Cons.prems typed_step.inv_step [of im env s] rows_typed_import [of env s] by (cases e) auto
  with Cons show ?case by simp
qed simp

text \<open>C16: The type invariant of the memory table. After any sequence of the memory tools, imports included, with any
  parameters, failing or not, every row carries its own key, and it is embedded (its content hash is the hash of its
  present content, and it has an embedding that is marked ready) or it has come from an import and has neither hash nor
  embedding. When the sequence has no import, every row is embedded and its importance lies between a tenth and
  five.\<close>
theorem rows_well_typed:
  "list_all (\<lambda>(k, m). m_id m = Some (memory_thing k) \<and>
       (if list_ex is_import es then embedded_row env m \<or> imported_row m else embedded_row env m \<and> importance_in_range m))
     (sv_table (foldl (tool_step api env) (service_new api) es))"
proof -
  have "rows_typed im env (sv_table (service_new api))" for im by (simp add: rows_typed_def service_new_def table_ok_Nil)
  then have "rows_typed (list_ex is_import es) env (sv_table (foldl (tool_step api env) (service_new api) es))"
    by (rule rows_typed_tools) (auto simp: list_ex_iff)
  then have "m_id m = Some (memory_thing k) \<and> memory_typed (list_ex is_import es) env m"
    if "(k, m) \<in> set (sv_table (foldl (tool_step api env) (service_new api) es))" for k m
    using that by (auto simp: rows_typed_def table_ok_def hm_get_mem)
  then show ?thesis unfolding list_all_iff memory_typed_def by blast
qed

end
