(* ===== verification/EmbeddingPipeline.thy ===== *)
theory EmbeddingPipeline
  imports AppTypes
begin

text \<open>
  \<open>src/embedding\<close>: the policy, the metrics, the throttled queue (\<open>adaptive_queue.rs\<close>), the two-level
  store (\<open>store.rs\<close>) and the worker that takes requests from a bounded channel in batches, embeds what
  the store does not hold, retries failures and writes the vectors (\<open>worker.rs\<close>).

  The model, the hash, and the success of each disk access are parameters. A one-shot channel is a
  number and what is sent to it is recorded. The in-memory cache may drop any entry at any time; the
  database table of the disk cache is a map. Sizes of texts are counted in ASCII characters.
\<close>

section \<open>Policy and metrics\<close>

datatype embed_strategy = Sync | Async

definition SYNC_THRESHOLD :: nat where "SYNC_THRESHOLD = 4096"

fun decide :: "embed_target \<Rightarrow> nat \<Rightarrow> embed_strategy" where
  "decide ET_Memory content_len = (if content_len < SYNC_THRESHOLD then Sync else Async)"
| "decide ET_Entity content_len = (if content_len < SYNC_THRESHOLD then Sync else Async)"
| "decide ET_CodeChunk content_len = Async"
| "decide ET_Symbol content_len = Async"

record embedding_metrics =
  em_queue_depth :: u64
  em_processed_total :: u64
  em_failed_total :: u64

definition metrics_new :: embedding_metrics where
  "metrics_new = \<lparr>em_queue_depth = 0, em_processed_total = 0, em_failed_total = 0\<rparr>"

text \<open>Atomic additions and subtractions wrap around.\<close>

definition inc_queue :: "embedding_metrics \<Rightarrow> embedding_metrics" where
  "inc_queue m = m\<lparr>em_queue_depth := em_queue_depth m + 1\<rparr>"

definition dec_queue :: "embedding_metrics \<Rightarrow> embedding_metrics" where
  "dec_queue m = m\<lparr>em_queue_depth := em_queue_depth m - 1\<rparr>"

definition inc_failed :: "nat \<Rightarrow> embedding_metrics \<Rightarrow> embedding_metrics" where
  "inc_failed n m = m\<lparr>em_failed_total := em_failed_total m + of_nat n\<rparr>"

section \<open>Requests\<close>

datatype embedding_target = SymbolTarget string | ChunkTarget string

record embedding_request =
  er_text :: string
  er_responder :: "nat option"
  er_target :: "embedding_target option"
  er_retry_count :: u8

definition code_chunk_embedding_request :: "string \<Rightarrow> string \<Rightarrow> embedding_request" where
  "code_chunk_embedding_request i content =
     \<lparr>er_text = content, er_responder = None, er_target = Some (ChunkTarget i), er_retry_count = 0\<rparr>"

section \<open>The store\<close>

record embedding_store =
  es_ram :: "(string, real list) hmap"
  es_disk :: "(string, real list) hmap"
  es_model_name :: string

definition cache_key :: "embedding_store \<Rightarrow> string \<Rightarrow> string" where
  "cache_key st hash = es_model_name st @ '':'' @ hash"

definition store_get :: "bool \<Rightarrow> string \<Rightarrow> embedding_store \<Rightarrow> real list option \<times> embedding_store" where
  "store_get disk_ok hash st =
     (let key = cache_key st hash
      in case hm_get (es_ram st) key of
           Some v \<Rightarrow> (Some v, st)
         | None \<Rightarrow>
             (case (if disk_ok then hm_get (es_disk st) key else None) of
                Some v \<Rightarrow> (Some v, st\<lparr>es_ram := hm_insert key v (es_ram st)\<rparr>)
              | None \<Rightarrow> (None, st)))"

fun insert_all :: "(string \<times> real list) list \<Rightarrow> (string, real list) hmap \<Rightarrow> (string, real list) hmap" where
  "insert_all [] m = m"
| "insert_all ((k, v) # kvs) m = insert_all kvs (hm_insert k v m)"

definition put_batch :: "bool \<Rightarrow> (string \<times> real list) list \<Rightarrow> embedding_store \<Rightarrow> embedding_store" where
  "put_batch disk_ok items st =
     (if items = [] then st
      else
        (let cache_keys = map (\<lambda>(hash, emb). (cache_key st hash, emb)) items;
             st1 = st\<lparr>es_ram := insert_all cache_keys (es_ram st)\<rparr>
         in if disk_ok then st1\<lparr>es_disk := insert_all cache_keys (es_disk st1)\<rparr> else st1))"

section \<open>The worker\<close>

text \<open>The answer of the model to a batch of texts: a vector for each text (or none for it), an error for
  the whole batch, or a panic of the task.\<close>

datatype embed_outcome = EmbedOk "real list option list" | EmbedErr | EmbedPanic

record embedding_env =
  ee_hash :: "string \<Rightarrow> string"
  ee_disk_read_ok :: "string \<Rightarrow> bool"
  ee_disk_write_ok :: bool
  ee_symbol_write_ok :: bool
  ee_chunk_write_ok :: bool

record pipeline =
  pp_queue :: "embedding_request list"
  pp_capacity :: nat
  pp_senders :: nat
  pp_metrics :: embedding_metrics
  pp_batch :: "embedding_request list"
  pp_store :: embedding_store
  pp_replies :: "(nat \<times> real list) list"
  pp_symbol_updates :: "(string \<times> real list) list"
  pp_chunk_updates :: "(string \<times> real list) list"
  pp_processed :: nat

definition MIN_EMBED_CHARS :: nat where "MIN_EMBED_CHARS = 50"

definition skip_short_chunk :: "embedding_request \<Rightarrow> bool" where
  "skip_short_chunk r =
     ((case er_target r of Some (ChunkTarget i) \<Rightarrow> True | _ \<Rightarrow> False) \<and> length (er_text r) < MIN_EMBED_CHARS)"

fun reply_opt :: "nat option \<Rightarrow> real list \<Rightarrow> (nat \<times> real list) list" where
  "reply_opt None v = []"
| "reply_opt (Some tx) v = [(tx, v)]"

fun skip_short :: "embedding_request list \<Rightarrow> embedding_request list \<times> (nat \<times> real list) list \<times> nat" where
  "skip_short [] = ([], [], 0)"
| "skip_short (r # rs) =
     (case skip_short rs of (rs', replies, skipped) \<Rightarrow>
        if skip_short_chunk r
        then (r\<lparr>er_target := None, er_responder := None\<rparr> # rs', reply_opt (er_responder r) [] @ replies, Suc skipped)
        else (r # rs', replies, skipped))"

text \<open>The look-ups in the store: the vectors found, request by request, and the store with what it moved
  into memory.\<close>

fun lookup_all ::
  "embedding_env \<Rightarrow> embedding_request list \<Rightarrow> embedding_store \<Rightarrow> real list option list \<times> embedding_store" where
  "lookup_all env [] st = ([], st)"
| "lookup_all env (r # rs) st =
     (case store_get (ee_disk_read_ok env (ee_hash env (er_text r))) (ee_hash env (er_text r)) st of (v, st1) \<Rightarrow>
      case lookup_all env rs st1 of (vs, st2) \<Rightarrow> (v # vs, st2))"

definition retry_request :: "embedding_request \<Rightarrow> embedding_request" where
  "retry_request r = r\<lparr>er_responder := None, er_retry_count := er_retry_count r + 1\<rparr>"

text \<open>\<open>requeue_tx.try_send\<close>: the raw sender of the channel, without the metrics; a full channel drops the
  request.\<close>

definition requeue :: "embedding_request \<Rightarrow> pipeline \<Rightarrow> pipeline" where
  "requeue r s = (if length (pp_queue s) < pp_capacity s then s\<lparr>pp_queue := pp_queue s @ [r]\<rparr> else s)"

definition retry_or_fail :: "embedding_request \<Rightarrow> pipeline \<Rightarrow> pipeline" where
  "retry_or_fail r s =
     (if er_retry_count r < 3 then requeue (retry_request r) s
      else s\<lparr>pp_metrics := inc_failed 1 (pp_metrics s)\<rparr>)"

text \<open>The answers for the texts that the store did not hold, taken in order: a vector is put into the
  cache batch and into its place, a missing one leads to a retry.\<close>

fun merge_results ::
  "embedding_env \<Rightarrow> embedding_request list \<Rightarrow> real list option list \<Rightarrow> real list option list \<Rightarrow>
   (string \<times> real list) list \<Rightarrow> pipeline \<Rightarrow> real list option list \<times> (string \<times> real list) list \<times> pipeline" where
  "merge_results env (r # rs) (Some v # vs) new cache s =
     (case merge_results env rs vs new cache s of (fin, cache', s') \<Rightarrow> (Some v # fin, cache', s'))"
| "merge_results env (r # rs) (None # vs) (Some e # new) cache s =
     (case merge_results env rs vs new (cache @ [(ee_hash env (er_text r), e)]) s of
        (fin, cache', s') \<Rightarrow> (Some e # fin, cache', s'))"
| "merge_results env (r # rs) (None # vs) (None # new) cache s =
     (case merge_results env rs vs new cache (retry_or_fail r s) of (fin, cache', s') \<Rightarrow> (None # fin, cache', s'))"
| "merge_results env rs vs new cache s = (vs, cache, s)"

fun retry_all :: "embedding_request list \<Rightarrow> pipeline \<Rightarrow> pipeline" where
  "retry_all [] s = s"
| "retry_all (r # rs) s = retry_all rs (retry_or_fail r s)"

definition misses_texts :: "embedding_request list \<Rightarrow> real list option list \<Rightarrow> string list" where
  "misses_texts rs found = map (\<lambda>(r, v). er_text r) (filter (\<lambda>(r, v). v = None) (zip rs found))"

text \<open>The last phase: each request of the batch leaves it, its responder is answered and its vector joins
  the updates of its table.\<close>

fun collect ::
  "embedding_request list \<Rightarrow> real list option list \<Rightarrow> pipeline \<Rightarrow>
   (string \<times> real list) list \<Rightarrow> (string \<times> real list) list \<Rightarrow>
   pipeline \<times> (string \<times> real list) list \<times> (string \<times> real list) list" where
  "collect (r # rs) (Some e # vs) s syms chunks =
     (let s1 = s\<lparr>pp_metrics := dec_queue (pp_metrics s), pp_replies := pp_replies s @ reply_opt (er_responder r) e\<rparr>
      in case er_target r of
           None \<Rightarrow> collect rs vs s1 syms chunks
         | Some (SymbolTarget i) \<Rightarrow> collect rs vs s1 (syms @ [(i, e)]) chunks
         | Some (ChunkTarget i) \<Rightarrow> collect rs vs s1 syms (chunks @ [(i, e)]))"
| "collect (r # rs) (None # vs) s syms chunks =
     collect rs vs (s\<lparr>pp_metrics := dec_queue (pp_metrics s),
                      pp_replies := pp_replies s @ reply_opt (er_responder r) []\<rparr>) syms chunks"
| "collect rs vs s syms chunks = (s, syms, chunks)"

definition infer ::
  "embedding_env \<Rightarrow> (string list \<Rightarrow> embed_outcome) \<Rightarrow> embedding_request list \<Rightarrow> real list option list \<Rightarrow> pipeline \<Rightarrow>
   real list option list \<times> pipeline" where
  "infer env embed_batch batch found s =
     (let texts = misses_texts batch found
      in if texts = [] then (found, s)
         else
           (case embed_batch texts of
              EmbedOk new \<Rightarrow>
                (case merge_results env batch found new [] s of
                   (fin, cache_batch, s1) \<Rightarrow>
                     (fin, s1\<lparr>pp_store := put_batch (ee_disk_write_ok env) cache_batch (pp_store s1)\<rparr>))
            | EmbedErr \<Rightarrow> (found, retry_all batch s)
            | EmbedPanic \<Rightarrow> (found, s\<lparr>pp_metrics := inc_failed (length batch) (pp_metrics s)\<rparr>)))"

definition process_batch ::
  "embedding_env \<Rightarrow> (string list \<Rightarrow> embed_outcome) option \<Rightarrow> pipeline \<Rightarrow> bool \<times> pipeline" where
  "process_batch env engine s =
     (if pp_batch s = [] then (True, s)
      else
        (case skip_short (pp_batch s) of (marked, replies, skipped) \<Rightarrow>
         (let batch = (if skipped > 0
                then filter (\<lambda>r. er_target r \<noteq> None \<or> er_responder r \<noteq> None) marked else marked);
              s1 = s\<lparr>pp_batch := batch, pp_replies := pp_replies s @ replies\<rparr>
          in if skipped > 0 \<and> batch = [] then (True, s1)
             else
               (case engine of
                  None \<Rightarrow> (False, s1)
                | Some embed_batch \<Rightarrow>
                    (case lookup_all env batch (pp_store s1) of (found, store) \<Rightarrow>
                     (case infer env embed_batch batch found (s1\<lparr>pp_store := store\<rparr>) of (fin, s2) \<Rightarrow>
                      (case collect batch fin (s2\<lparr>pp_batch := []\<rparr>) [] [] of (s3, syms, chunks) \<Rightarrow>
                         (True, s3\<lparr>pp_symbol_updates := pp_symbol_updates s3 @
                                      (if ee_symbol_write_ok env then syms else []),
                                   pp_chunk_updates := pp_chunk_updates s3 @
                                      (if ee_chunk_write_ok env then chunks else [])\<rparr>))))))))"


section \<open>The throttled queue\<close>

record queue_config =
  qc_capacity :: nat
  qc_high_watermark :: real

definition queue_config_default :: queue_config where
  "queue_config_default = \<lparr>qc_capacity = 64, qc_high_watermark = 1 / 2\<rparr>"

definition utilization :: "queue_config \<Rightarrow> pipeline \<Rightarrow> real" where
  "utilization cfg s = real (unat (em_queue_depth (pp_metrics s))) / real (qc_capacity cfg)"

definition is_healthy :: "queue_config \<Rightarrow> pipeline \<Rightarrow> bool" where
  "is_healthy cfg s \<longleftrightarrow> utilization cfg s < qc_high_watermark cfg"

text \<open>Whether a send sleeps first, and the send itself; \<open>None\<close> while the channel is full and it waits. The
  receiver lives as long as the worker.\<close>

definition throttled :: "queue_config \<Rightarrow> pipeline \<Rightarrow> bool" where
  "throttled cfg s \<longleftrightarrow> utilization cfg s > qc_high_watermark cfg"

definition send_request :: "bool \<Rightarrow> embedding_request \<Rightarrow> pipeline \<Rightarrow> (unit app_result \<times> pipeline) option" where
  "send_request receiver_open req s =
     (if \<not> receiver_open then Some (Inl (Internal ''Embedding queue closed''), s)
      else if length (pp_queue s) < pp_capacity s
      then Some (Inr (), s\<lparr>pp_queue := pp_queue s @ [req], pp_metrics := inc_queue (pp_metrics s)\<rparr>)
      else None)"

definition try_send :: "bool \<Rightarrow> embedding_request \<Rightarrow> pipeline \<Rightarrow> unit app_result \<times> pipeline" where
  "try_send receiver_open req s =
     (let s1 = s\<lparr>pp_metrics := inc_queue (pp_metrics s)\<rparr>
      in if \<not> receiver_open
         then (Inl (Internal ''Embedding queue closed''), s1\<lparr>pp_metrics := dec_queue (pp_metrics s1)\<rparr>)
         else if length (pp_queue s1) < pp_capacity s1 then (Inr (), s1\<lparr>pp_queue := pp_queue s1 @ [req]\<rparr>)
         else (Inl (Internal ''Embedding queue full''), s1\<lparr>pp_metrics := dec_queue (pp_metrics s1)\<rparr>))"

section \<open>The loop of the worker\<close>

text \<open>One turn of the biased \<open>select!\<close>: a waiting request is received first and a batch of two is
  processed; when the channel is closed the rest is drained and the loop ends; otherwise the deadline
  flushes an incomplete batch. The worker itself owns one of the senders (\<open>requeue_tx\<close>).\<close>

definition flush_batch ::
  "embedding_env \<Rightarrow> (string list \<Rightarrow> embed_outcome) option \<Rightarrow> pipeline \<Rightarrow> pipeline" where
  "flush_batch env engine s =
     (let n = length (pp_batch s)
      in case process_batch env engine s of (ok, s1) \<Rightarrow>
           if ok then s1\<lparr>pp_processed := pp_processed s1 + n\<rparr> else s1)"

definition worker_turn ::
  "embedding_env \<Rightarrow> (string list \<Rightarrow> embed_outcome) option \<Rightarrow> pipeline \<Rightarrow> bool \<times> pipeline" where
  "worker_turn env engine s =
     (case pp_queue s of
        req # rest \<Rightarrow>
          (let s1 = s\<lparr>pp_queue := rest, pp_batch := pp_batch s @ [req]\<rparr>
           in (True, if length (pp_batch s1) \<ge> 2 then flush_batch env engine s1 else s1))
      | [] \<Rightarrow>
          if pp_senders s = 0 then (False, if pp_batch s \<noteq> [] then flush_batch env engine s else s)
          else (True, if pp_batch s \<noteq> [] then flush_batch env engine s else s))"

definition pipeline_new :: "nat \<Rightarrow> string \<Rightarrow> (string, real list) hmap \<Rightarrow> nat \<Rightarrow> pipeline" where
  "pipeline_new capacity model_name disk external_senders =
     \<lparr>pp_queue = [], pp_capacity = capacity, pp_senders = external_senders + 1, pp_metrics = metrics_new,
      pp_batch = [], pp_store = \<lparr>es_ram = [], es_disk = disk, es_model_name = model_name\<rparr>,
      pp_replies = [], pp_symbol_updates = [], pp_chunk_updates = [], pp_processed = 0\<rparr>"

datatype pipeline_event =
    PSend embedding_request
  | PTrySend embedding_request
  | PWork embedding_env "(string list \<Rightarrow> embed_outcome) option"
  | PEvict string
  | PDropSender

fun pipeline_step :: "pipeline \<Rightarrow> pipeline_event \<Rightarrow> pipeline" where
  "pipeline_step s (PSend r) = (case send_request True r s of Some (_, s') \<Rightarrow> s' | None \<Rightarrow> s)"
| "pipeline_step s (PTrySend r) = snd (try_send True r s)"
| "pipeline_step s (PWork env engine) = snd (worker_turn env engine s)"
| "pipeline_step s (PEvict k) = s\<lparr>pp_store := (pp_store s)\<lparr>es_ram := hm_remove k (es_ram (pp_store s))\<rparr>\<rparr>"
| "pipeline_step s PDropSender = (if pp_senders s > 1 then s\<lparr>pp_senders := pp_senders s - 1\<rparr> else s)"

section \<open>Frames\<close>

lemma requeue_frame [simp]:
  "pp_batch (requeue r s) = pp_batch s" "pp_senders (requeue r s) = pp_senders s"
  "pp_store (requeue r s) = pp_store s" "pp_metrics (requeue r s) = pp_metrics s"
  "pp_symbol_updates (requeue r s) = pp_symbol_updates s" "pp_chunk_updates (requeue r s) = pp_chunk_updates s"
  "pp_capacity (requeue r s) = pp_capacity s" "pp_processed (requeue r s) = pp_processed s"
  by (simp_all add: requeue_def)

lemma retry_frame [simp]:
  "pp_batch (retry_or_fail r s) = pp_batch s" "pp_senders (retry_or_fail r s) = pp_senders s"
  "pp_store (retry_or_fail r s) = pp_store s"
  "em_queue_depth (pp_metrics (retry_or_fail r s)) = em_queue_depth (pp_metrics s)"
  "pp_symbol_updates (retry_or_fail r s) = pp_symbol_updates s" "pp_chunk_updates (retry_or_fail r s) = pp_chunk_updates s"
  "pp_capacity (retry_or_fail r s) = pp_capacity s" "pp_processed (retry_or_fail r s) = pp_processed s"
  by (simp_all add: retry_or_fail_def inc_failed_def)

text \<open>What any sequence of retries keeps.\<close>

definition same_frame :: "pipeline \<Rightarrow> pipeline \<Rightarrow> bool" where
  "same_frame s s' \<longleftrightarrow> pp_batch s' = pp_batch s \<and> pp_senders s' = pp_senders s \<and>
     em_queue_depth (pp_metrics s') = em_queue_depth (pp_metrics s) \<and>
     pp_symbol_updates s' = pp_symbol_updates s \<and> pp_chunk_updates s' = pp_chunk_updates s \<and>
     pp_capacity s' = pp_capacity s"

lemma same_frame_refl [simp]: "same_frame s s"
  by (simp add: same_frame_def)

lemma same_frame_retry: "same_frame (retry_or_fail r s) s' \<Longrightarrow> same_frame s s'"
  by (simp add: same_frame_def)

lemma merge_frame:
  "merge_results env rs vs new cache s = (fin, cache', s') \<Longrightarrow>
     same_frame s s' \<and> pp_store s' = pp_store s \<and> length fin = length vs"
  by (induction env rs vs new cache s arbitrary: fin cache' s' rule: merge_results.induct)
    (force split: prod.splits dest: same_frame_retry)+

lemma retry_all_frame: "same_frame s (retry_all rs s) \<and> pp_store (retry_all rs s) = pp_store s"
  by (induction rs arbitrary: s) (auto dest: same_frame_retry)

lemma infer_frame:
  "infer env embed_batch batch found s = (fin, s') \<Longrightarrow> same_frame s s' \<and> length fin = length found"
  using retry_all_frame [of s batch]
  by (auto simp: infer_def Let_def same_frame_def inc_failed_def split: if_splits embed_outcome.splits prod.splits
      dest!: merge_frame)

lemma lookup_length: "length (fst (lookup_all env rs st)) = length rs"
  by (induction rs arbitrary: st) (auto split: prod.split, metis fst_conv)


section \<open>One batch\<close>

definition is_retried :: "embedding_request list \<Rightarrow> pipeline \<Rightarrow> pipeline \<Rightarrow> embedding_request list \<Rightarrow> bool" where
  "is_retried rs s s' ys \<longleftrightarrow> pp_queue s' = pp_queue s @ map retry_request ys \<and> mset ys \<subseteq># mset rs \<and>
     (\<forall>r\<in>set ys. er_retry_count r < 3)"

lemma is_retried_Nil: "pp_queue s' = pp_queue s \<Longrightarrow> is_retried rs s s' []"
  by (simp add: is_retried_def)

lemma is_retried_skip: "is_retried rs s s' ys \<Longrightarrow> is_retried (r # rs) s s' ys"
  by (auto simp: is_retried_def intro: subset_mset.order_trans)

lemma is_retried_step:
  assumes "is_retried rs (retry_or_fail r s) s' ys"
  shows "\<exists>zs. is_retried (r # rs) s s' zs"
proof (cases "er_retry_count r < 3 \<and> length (pp_queue s) < pp_capacity s")
  case True
  with assms have "is_retried (r # rs) s s' (r # ys)" by (simp add: is_retried_def retry_or_fail_def requeue_def)
  then show ?thesis by blast
next
  case False
  with assms have "is_retried rs s s' ys" by (auto simp: is_retried_def retry_or_fail_def requeue_def split: if_splits)
  then show ?thesis by (blast intro: is_retried_skip)
qed

lemma retry_all_queue: "\<exists>ys. is_retried rs s (retry_all rs s) ys"
proof (induction rs arbitrary: s)
  case (Cons r rs)
  from Cons [of "retry_or_fail r s"] show ?case by (auto intro: is_retried_step)
qed (auto intro: is_retried_Nil)

lemma merge_queue: "merge_results env rs vs new cache s = (fin, cache', s') \<Longrightarrow> \<exists>ys. is_retried rs s s' ys"
proof (induction env rs vs new cache s arbitrary: fin cache' s' rule: merge_results.induct)
  case (3 env r rs vs new cache s)
  then show ?case by (auto split: prod.splits intro: is_retried_step)
qed (fastforce split: prod.splits intro: is_retried_skip is_retried_Nil)+

lemma infer_queue: "infer env embed_batch rs found s = (fin, s') \<Longrightarrow> \<exists>ys. is_retried rs s s' ys"
  using retry_all_queue [of rs s]
  by (auto simp: infer_def Let_def is_retried_def split: if_splits embed_outcome.splits prod.splits
      dest!: merge_queue [unfolded is_retried_def] intro: exI [of _ "[]"])

text \<open>The updates of the state do not depend on the accumulators.\<close>

definition drained_frame :: "nat \<Rightarrow> pipeline \<Rightarrow> pipeline \<Rightarrow> bool" where
  "drained_frame n s s' \<longleftrightarrow>
     pp_queue s' = pp_queue s \<and> pp_batch s' = pp_batch s \<and> pp_senders s' = pp_senders s \<and>
     pp_capacity s' = pp_capacity s \<and> pp_store s' = pp_store s \<and>
     pp_symbol_updates s' = pp_symbol_updates s \<and> pp_chunk_updates s' = pp_chunk_updates s \<and>
     em_queue_depth (pp_metrics s') = em_queue_depth (pp_metrics s) - of_nat n"

lemma drained_frame_Suc:
  "drained_frame n (s\<lparr>pp_metrics := dec_queue (pp_metrics s), pp_replies := x\<rparr>) s' \<Longrightarrow> drained_frame (Suc n) s s'"
  by (simp add: drained_frame_def dec_queue_def)

lemma collect_frame:
  "collect rs vs s a b = (s', syms, chunks) \<Longrightarrow> length rs = length vs \<Longrightarrow> drained_frame (length rs) s s'"
proof (induction rs vs s a b arbitrary: s' syms chunks rule: collect.induct)
  case (1 r rs e vs s a b)
  let ?s1 = "s\<lparr>pp_metrics := dec_queue (pp_metrics s), pp_replies := pp_replies s @ reply_opt (er_responder r) e\<rparr>"
  have "drained_frame (length rs) ?s1 s'"
  proof (cases "er_target r")
    case None
    with 1 show ?thesis by (simp add: Let_def)
  next
    case (Some x)
    with 1 show ?thesis by (cases x) (simp_all add: Let_def)
  qed
  then show ?case using drained_frame_Suc by simp
next
  case (2 r rs vs s a b)
  then show ?case using drained_frame_Suc by simp
qed (simp_all add: drained_frame_def)

definition kept :: "embedding_request list \<Rightarrow> embedding_request list" where
  "kept rs = (if list_ex skip_short_chunk rs
     then filter (\<lambda>r. \<not> skip_short_chunk r \<and> (er_target r \<noteq> None \<or> er_responder r \<noteq> None)) rs else rs)"

lemma skip_short_spec:
  "skip_short rs = (map (\<lambda>r. if skip_short_chunk r then r\<lparr>er_target := None, er_responder := None\<rparr> else r) rs,
     concat (map (\<lambda>r. if skip_short_chunk r then reply_opt (er_responder r) [] else []) rs),
     length (filter skip_short_chunk rs))"
  by (induction rs) auto

lemma skip_short_kept:
  assumes "skip_short rs = (marked, replies, skipped)"
  shows "(if skipped > 0 then filter (\<lambda>r. er_target r \<noteq> None \<or> er_responder r \<noteq> None) marked else marked) = kept rs"
proof (cases "list_ex skip_short_chunk rs")
  case True
  then have "skipped > 0" using assms by (auto simp: skip_short_spec list_ex_iff filter_empty_conv)
  moreover have "filter (\<lambda>r. er_target r \<noteq> None \<or> er_responder r \<noteq> None)
        (map (\<lambda>r. if skip_short_chunk r then r\<lparr>er_target := None, er_responder := None\<rparr> else r) xs) =
      filter (\<lambda>r. \<not> skip_short_chunk r \<and> (er_target r \<noteq> None \<or> er_responder r \<noteq> None)) xs" for xs
    by (induction xs) auto
  ultimately show ?thesis using assms True by (auto simp: kept_def skip_short_spec)
next
  case False
  then have "filter skip_short_chunk rs = []" by (auto simp: list_ex_iff filter_empty_conv)
  moreover from False have "map (\<lambda>r. if skip_short_chunk r then r\<lparr>er_target := None, er_responder := None\<rparr> else r) rs = rs"
    by (auto simp: list_ex_iff intro: map_idI)
  ultimately show ?thesis using assms False by (auto simp: kept_def skip_short_spec)
qed

lemma kept_subset: "mset (kept rs) \<subseteq># mset rs"
  by (simp add: kept_def multiset_filter_subset)

lemma process_batch_eq:
  assumes "skip_short (pp_batch s) = (marked, replies, skipped)"
  shows "process_batch env engine s =
    (if pp_batch s = [] then (True, s)
     else
       (let batch = kept (pp_batch s); s1 = s\<lparr>pp_batch := batch, pp_replies := pp_replies s @ replies\<rparr>
        in if batch = [] then (True, s1)
           else
             (case engine of
                None \<Rightarrow> (False, s1)
              | Some embed_batch \<Rightarrow>
                  (case lookup_all env batch (pp_store s1) of (found, store) \<Rightarrow>
                   (case infer env embed_batch batch found (s1\<lparr>pp_store := store\<rparr>) of (fin, s2) \<Rightarrow>
                    (case collect batch fin (s2\<lparr>pp_batch := []\<rparr>) [] [] of (s3, syms, chunks) \<Rightarrow>
                       (True, s3\<lparr>pp_symbol_updates := pp_symbol_updates s3 @
                                    (if ee_symbol_write_ok env then syms else []),
                                 pp_chunk_updates := pp_chunk_updates s3 @
                                    (if ee_chunk_write_ok env then chunks else [])\<rparr>)))))))"
proof (cases "pp_batch s = []")
  case False
  then have "kept (pp_batch s) = [] \<Longrightarrow> skipped > 0"
    using skip_short_kept [OF assms] assms by (cases "skipped > 0") (auto simp: skip_short_spec)
  then have "(0 < skipped \<and> kept (pp_batch s) = []) = (kept (pp_batch s) = [])" by blast
  then show ?thesis using False unfolding process_batch_def assms prod.case Let_def skip_short_kept [OF assms] by simp
qed (simp add: process_batch_def)

lemma process_batch_spec:
  assumes "process_batch env engine s = (ok, s')"
  shows "pp_senders s' = pp_senders s \<and> pp_capacity s' = pp_capacity s \<and>
    (if engine \<noteq> None \<or> kept (pp_batch s) = []
     then ok \<and> pp_batch s' = [] \<and> (\<exists>ys. is_retried (kept (pp_batch s)) s s' ys) \<and>
       em_queue_depth (pp_metrics s') = em_queue_depth (pp_metrics s) - of_nat (length (kept (pp_batch s)))
     else \<not> ok \<and> pp_batch s' = kept (pp_batch s) \<and> pp_queue s' = pp_queue s \<and> pp_metrics s' = pp_metrics s)"
proof (cases "pp_batch s = []")
  case True
  with assms show ?thesis by (auto simp: process_batch_def kept_def intro: is_retried_Nil)
next
  case False
  obtain marked replies skipped where sk: "skip_short (pp_batch s) = (marked, replies, skipped)"
    by (cases "skip_short (pp_batch s)")
  note run = assms [unfolded process_batch_eq [OF sk] Let_def]
  let ?s1 = "s\<lparr>pp_batch := kept (pp_batch s), pp_replies := pp_replies s @ replies\<rparr>"
  show ?thesis
  proof (cases engine)
    case None
    with run False show ?thesis
      by (auto simp: is_retried_def intro!: exI [of _ "[]"] split: if_splits)
  next
    case (Some eb)
    show ?thesis
    proof (cases "kept (pp_batch s) = []")
      case True
      with run False show ?thesis
      by (auto simp: is_retried_def intro!: exI [of _ "[]"] split: if_splits)
    next
      case nonempty: False
      obtain found store where l: "lookup_all env (kept (pp_batch s)) (pp_store s) = (found, store)" by fastforce
      obtain fin s2 where i: "infer env eb (kept (pp_batch s)) found (?s1\<lparr>pp_store := store\<rparr>) = (fin, s2)" by fastforce
      obtain s3 syms chunks where c: "collect (kept (pp_batch s)) fin (s2\<lparr>pp_batch := []\<rparr>) [] [] = (s3, syms, chunks)"
        by (cases "collect (kept (pp_batch s)) fin (s2\<lparr>pp_batch := []\<rparr>) [] []")
      have res: "ok" "s' = s3\<lparr>pp_symbol_updates := pp_symbol_updates s3 @ (if ee_symbol_write_ok env then syms else []),
          pp_chunk_updates := pp_chunk_updates s3 @ (if ee_chunk_write_ok env then chunks else [])\<rparr>"
        using run False nonempty by (simp_all add: Some l i c)
      from infer_queue [OF i] obtain ys where ys: "is_retried (kept (pp_batch s)) ?s1 s2 ys"
        by (auto simp: is_retried_def)
      have len: "length (kept (pp_batch s)) = length fin"
        using infer_frame [OF i] lookup_length [of env "kept (pp_batch s)" "pp_store s"] l by simp
      note cf = collect_frame [OF c len]
      have "is_retried (kept (pp_batch s)) s s' ys" using ys cf by (simp add: is_retried_def res drained_frame_def)
      moreover have "same_frame (?s1\<lparr>pp_store := store\<rparr>) s2" using infer_frame [OF i] by simp
      ultimately show ?thesis using cf nonempty res Some by (auto simp: same_frame_def drained_frame_def)
    qed
  qed
qed


section \<open>The worker drains its queue\<close>

definition attempts_left :: "embedding_request \<Rightarrow> nat" where
  "attempts_left r = 4 - unat (er_retry_count r)"

definition retries_ok :: "pipeline \<Rightarrow> bool" where
  "retries_ok s \<longleftrightarrow> (\<forall>r\<in>set (pp_queue s) \<union> set (pp_batch s). er_retry_count r \<le> 3)"

definition remaining_work :: "pipeline \<Rightarrow> nat" where
  "remaining_work s = (\<Sum>r\<leftarrow>pp_queue s. 2 * attempts_left r) + (\<Sum>r\<leftarrow>pp_batch s. 2 * attempts_left r - 1)"

lemma attempts_left_pos: "er_retry_count r \<le> 3 \<Longrightarrow> 0 < attempts_left r"
  by (simp add: attempts_left_def word_le_nat_alt)

lemma unat_retry: "er_retry_count r < 3 \<Longrightarrow> unat (er_retry_count (retry_request r)) = Suc (unat (er_retry_count r))"
proof -
  assume "er_retry_count r < 3"
  then have "unat (er_retry_count r) < 3" by (simp add: word_less_nat_alt)
  then show ?thesis by (simp add: retry_request_def unat_word_ariths)
qed

lemma retried_work:
  "er_retry_count r < 3 \<Longrightarrow> 2 * attempts_left (retry_request r) \<le> 2 * attempts_left r - 2 \<and>
     er_retry_count (retry_request r) \<le> 3"
  using unat_retry [of r] by (simp add: attempts_left_def word_le_nat_alt word_less_nat_alt)

lemma sum_list_mset_mono: "mset ys \<subseteq># mset rs \<Longrightarrow> (\<Sum>r\<leftarrow>ys. f r) \<le> (\<Sum>r\<leftarrow>rs. (f r :: nat))"
proof -
  assume "mset ys \<subseteq># mset rs"
  then have "image_mset f (mset ys) \<subseteq># image_mset f (mset rs)" by (rule image_mset_subseteq_mono)
  then have "sum_mset (image_mset f (mset ys)) \<le> sum_mset (image_mset f (mset rs))"
    by (metis le_add1 subset_mset.add_diff_inverse sum_mset.union)
  then show ?thesis by (simp flip: sum_mset_sum_list)
qed

lemma retried_sum:
  "\<forall>r\<in>set ys. er_retry_count r < 3 \<Longrightarrow>
     (\<Sum>r\<leftarrow>map retry_request ys. 2 * attempts_left r) + length ys \<le> (\<Sum>r\<leftarrow>ys. 2 * attempts_left r - 1)"
proof (induction ys)
  case (Cons r ys)
  moreover have "0 < attempts_left r" using Cons.prems by (intro attempts_left_pos) (auto simp: word_less_nat_alt word_le_nat_alt)
  ultimately show ?case using retried_work [of r] by simp linarith
qed simp

lemma flush_progress:
  assumes ok: "retries_ok s" and "pp_batch s \<noteq> []"
  shows "retries_ok (flush_batch env (Some eb) s) \<and> remaining_work (flush_batch env (Some eb) s) < remaining_work s \<and>
    pp_senders (flush_batch env (Some eb) s) = pp_senders s"
proof -
  obtain r s' where p: "process_batch env (Some eb) s = (r, s')" by fastforce
  note spec = process_batch_spec [OF p]
  then obtain ys where ys: "pp_queue s' = pp_queue s @ map retry_request ys" "mset ys \<subseteq># mset (kept (pp_batch s))"
      "\<forall>r\<in>set ys. er_retry_count r < 3"
    by (auto simp: is_retried_def)
  have sub: "mset ys \<subseteq># mset (pp_batch s)" using ys(2) kept_subset by (rule subset_mset.order_trans)
  have fl: "retries_ok (flush_batch env (Some eb) s) = retries_ok s'"
    "remaining_work (flush_batch env (Some eb) s) = remaining_work s'"
    "pp_senders (flush_batch env (Some eb) s) = pp_senders s'"
    using p by (simp_all add: flush_batch_def retries_ok_def remaining_work_def)
  have "retries_ok s'" using ok spec ys(1,3) retried_work by (auto simp: retries_ok_def)
  moreover have "remaining_work s' < remaining_work s"
  proof -
    have "(\<Sum>r\<leftarrow>map retry_request ys. 2 * attempts_left r) < (\<Sum>r\<leftarrow>pp_batch s. 2 * attempts_left r - 1)"
    proof (cases "ys = []")
      case True
      obtain r rs where "pp_batch s = r # rs" using assms(2) by (cases "pp_batch s") auto
      then show ?thesis using True ok attempts_left_pos [of r] by (simp add: retries_ok_def)
    next
      case False
      then show ?thesis using retried_sum [OF ys(3)] sum_list_mset_mono [OF sub, of "\<lambda>r. 2 * attempts_left r - 1"]
        by (cases ys) auto
    qed
    then show ?thesis using spec ys(1) by (simp add: remaining_work_def)
  qed
  ultimately show ?thesis using spec by (simp add: fl)
qed

lemma receive_progress:
  assumes "retries_ok s" "pp_queue s = r # q"
  shows "retries_ok (s\<lparr>pp_queue := q, pp_batch := pp_batch s @ [r]\<rparr>) \<and>
    remaining_work (s\<lparr>pp_queue := q, pp_batch := pp_batch s @ [r]\<rparr>) < remaining_work s"
  using assms attempts_left_pos [of r] by (auto simp: retries_ok_def remaining_work_def)

lemma turn_progress:
  assumes "retries_ok s" "pp_senders s > 0"
  shows "let s' = snd (worker_turn env (Some eb) s) in
    retries_ok s' \<and> pp_senders s' = pp_senders s \<and> (remaining_work s' < remaining_work s \<or> remaining_work s' = 0)"
proof (cases "pp_queue s")
  case Nil
  show ?thesis
  proof (cases "pp_batch s = []")
    case True
    with Nil assms show ?thesis by (simp add: worker_turn_def Let_def remaining_work_def)
  next
    case False
    with Nil assms flush_progress [OF assms(1) False, of env eb] show ?thesis by (simp add: worker_turn_def Let_def)
  qed
next
  case (Cons r q)
  let ?s = "s\<lparr>pp_queue := q, pp_batch := pp_batch s @ [r]\<rparr>"
  note rp = receive_progress [OF assms(1) Cons]
  from flush_progress [of ?s env eb] rp have "retries_ok (flush_batch env (Some eb) ?s)"
    "remaining_work (flush_batch env (Some eb) ?s) < remaining_work ?s" "pp_senders (flush_batch env (Some eb) ?s) = pp_senders s"
    by simp_all
  with rp Cons show ?thesis by (auto simp: worker_turn_def Let_def)
qed

definition worker_turns :: "(embedding_env \<times> (string list \<Rightarrow> embed_outcome)) list \<Rightarrow> pipeline \<Rightarrow> pipeline" where
  "worker_turns ts s = foldl (\<lambda>s (env, eb). snd (worker_turn env (Some eb) s)) s ts"

lemma worker_turns_work:
  "retries_ok s \<Longrightarrow> pp_senders s > 0 \<Longrightarrow>
     retries_ok (worker_turns ts s) \<and> (remaining_work (worker_turns ts s) + length ts \<le> remaining_work s \<or>
       remaining_work (worker_turns ts s) = 0)"
proof (induction ts arbitrary: s)
  case Nil
  then show ?case by (simp add: worker_turns_def)
next
  case (Cons t ts)
  obtain env eb where t: "t = (env, eb)" by (cases t)
  define s1 where "s1 = snd (worker_turn env (Some eb) s)"
  have step: "retries_ok s1" "pp_senders s1 > 0" "remaining_work s1 < remaining_work s \<or> remaining_work s1 = 0"
    using turn_progress [OF Cons.prems, of env eb] Cons.prems(2) by (simp_all add: s1_def Let_def)
  have "worker_turns (t # ts) s = worker_turns ts s1" by (simp add: worker_turns_def t s1_def)
  then show ?case using Cons.IH [OF step(1,2)] step(3) by auto
qed

lemma remaining_work_0:
  assumes "retries_ok s" "remaining_work s = 0"
  shows "pp_queue s = [] \<and> pp_batch s = []"
proof -
  have "attempts_left r > 0" if "r \<in> set (pp_queue s) \<union> set (pp_batch s)" for r
    using assms(1) that attempts_left_pos by (auto simp: retries_ok_def)
  with assms(2) show ?thesis unfolding remaining_work_def by (cases "pp_queue s"; cases "pp_batch s") fastforce+
qed

lemma remaining_work_le: "remaining_work s \<le> 8 * length (pp_queue s) + 7 * length (pp_batch s)"
proof -
  have "(\<Sum>r\<leftarrow>xs. 2 * attempts_left r) \<le> 8 * length xs" "(\<Sum>r\<leftarrow>xs. 2 * attempts_left r - 1) \<le> 7 * length xs" for xs
    by (induction xs) (auto simp: attempts_left_def)
  then show ?thesis unfolding remaining_work_def by (meson add_mono)
qed

text \<open>C17: The embedding worker drains its queue, whatever the model answers: once no more requests arrive and a
  model is loaded, eight turns of the loop per waiting request (each request is tried at most four
  times) empty the channel and the batch, even if every batch fails.\<close>
theorem worker_drains:
  assumes "\<forall>r\<in>set (pp_queue s) \<union> set (pp_batch s). er_retry_count r \<le> 3" and "pp_senders s > 0"
    and "length ts \<ge> 8 * length (pp_queue s) + 7 * length (pp_batch s)"
  shows "pp_queue (worker_turns ts s) = [] \<and> pp_batch (worker_turns ts s) = []"
proof -
  have "retries_ok s" using assms(1) by (simp add: retries_ok_def)
  from worker_turns_work [OF this assms(2), of ts] remaining_work_le [of s] assms(3)
  have "retries_ok (worker_turns ts s)" "remaining_work (worker_turns ts s) = 0" by linarith+
  then show ?thesis by (rule remaining_work_0)
qed


section \<open>What is written\<close>

text \<open>A model that computes one function of the text, up to failures.\<close>

definition faithful_engine :: "(string \<Rightarrow> real list option) \<Rightarrow> (string list \<Rightarrow> embed_outcome) \<Rightarrow> bool" where
  "faithful_engine vec_of eb \<longleftrightarrow> (\<forall>texts. case eb texts of EmbedOk es \<Rightarrow> es = map vec_of texts | EmbedErr \<Rightarrow> True | EmbedPanic \<Rightarrow> True)"

definition sound_map :: "(string \<Rightarrow> real list option) \<Rightarrow> (string \<Rightarrow> string) \<Rightarrow> string \<Rightarrow> (string, real list) hmap \<Rightarrow> bool" where
  "sound_map vec_of hash model m \<longleftrightarrow> (\<forall>w v. hm_get m (model @ '':'' @ hash w) = Some v \<longrightarrow> vec_of w = Some v)"

definition sound_store :: "(string \<Rightarrow> real list option) \<Rightarrow> (string \<Rightarrow> string) \<Rightarrow> embedding_store \<Rightarrow> bool" where
  "sound_store vec_of hash st \<longleftrightarrow> sound_map vec_of hash (es_model_name st) (es_ram st) \<and>
     sound_map vec_of hash (es_model_name st) (es_disk st)"

definition sound_vectors :: "(string \<Rightarrow> real list option) \<Rightarrow> embedding_request list \<Rightarrow> real list option list \<Rightarrow> bool" where
  "sound_vectors vec_of rs vs \<longleftrightarrow> list_all2 (\<lambda>r v. v = None \<or> v = vec_of (er_text r)) rs vs"

lemma store_get_sound:
  "sound_store vec_of hash st \<Longrightarrow> store_get ok (hash w) st = (v, st') \<Longrightarrow>
     sound_store vec_of hash st' \<and> (v = None \<or> v = vec_of w) \<and> es_model_name st' = es_model_name st"
proof (cases "hm_get (es_ram st) (cache_key st (hash w))")
  case None
  assume st: "sound_store vec_of hash st" "store_get ok (hash w) st = (v, st')"
  show ?thesis
  proof (cases "if ok then hm_get (es_disk st) (cache_key st (hash w)) else None")
    case (Some a)
    then have "hm_get (es_disk st) (es_model_name st @ '':'' @ hash w) = Some a"
      by (simp add: cache_key_def split: if_splits)
    with st(1) have u: "hash u = hash w \<Longrightarrow> vec_of u = Some a" for u
      unfolding sound_store_def sound_map_def by metis
    from st(2) None Some have "v = Some a" "st' = st\<lparr>es_ram := hm_insert (cache_key st (hash w)) a (es_ram st)\<rparr>"
      by (simp_all add: store_get_def Let_def del: if_split_asm split: if_split_asm)
    with st(1) u show ?thesis by (auto simp: sound_store_def sound_map_def cache_key_def split: if_splits)
  qed (use st None in \<open>simp add: store_get_def Let_def\<close>)
next
  case (Some x)
  assume st: "sound_store vec_of hash st" "store_get ok (hash w) st = (v, st')"
  with Some have "v = Some x" "st' = st" by (simp_all add: store_get_def Let_def)
  moreover have "vec_of w = Some x" using st(1) Some by (simp add: sound_store_def sound_map_def cache_key_def)
  ultimately show ?thesis using st(1) by simp
qed

lemma lookup_all_sound:
  "sound_store vec_of (ee_hash env) st \<Longrightarrow> lookup_all env rs st = (vs, st') \<Longrightarrow>
     sound_store vec_of (ee_hash env) st' \<and> sound_vectors vec_of rs vs \<and> es_model_name st' = es_model_name st"
proof (induction rs arbitrary: st vs)
  case (Cons r rs)
  obtain v st1 where g: "store_get (ee_disk_read_ok env (ee_hash env (er_text r))) (ee_hash env (er_text r)) st = (v, st1)"
    by fastforce
  with Cons.prems obtain vs1 where l: "lookup_all env rs st1 = (vs1, st')" "vs = v # vs1" by (auto split: prod.splits)
  from store_get_sound [OF Cons.prems(1) g] Cons.IH [OF _ l(1)] l(2) show ?case by (auto simp: sound_vectors_def)
qed (simp add: sound_vectors_def)

lemma sound_map_insert_all:
  assumes "inj hash" "\<forall>(k, v)\<in>set kvs. \<exists>w. k = model @ '':'' @ hash w \<and> vec_of w = Some v"
  shows "sound_map vec_of hash model m \<Longrightarrow> sound_map vec_of hash model (insert_all kvs m)"
  using assms(2)
proof (induction kvs arbitrary: m)
  case (Cons kv kvs)
  obtain k v where kv: "kv = (k, v)" by (cases kv)
  with Cons.prems(2) obtain w where w: "k = model @ '':'' @ hash w" "vec_of w = Some v" by auto
  have "sound_map vec_of hash model (hm_insert k v m)"
    using Cons.prems(1) w injD [OF assms(1)] by (auto simp: sound_map_def)
  with Cons show ?case by (simp add: kv)
qed simp

lemma put_batch_sound:
  assumes "inj hash" "sound_store vec_of hash st" "\<forall>(h, v)\<in>set items. \<exists>w. h = hash w \<and> vec_of w = Some v"
  shows "sound_store vec_of hash (put_batch ok items st)"
proof -
  have "\<forall>(k, v)\<in>set (map (\<lambda>(h, v). (cache_key st h, v)) items). \<exists>w. k = es_model_name st @ '':'' @ hash w \<and> vec_of w = Some v"
    using assms(3) by (force simp: cache_key_def)
  from sound_map_insert_all [OF assms(1) this] assms(2) show ?thesis
    by (auto simp: put_batch_def Let_def sound_store_def)
qed

definition missing :: "embedding_request list \<Rightarrow> real list option list \<Rightarrow> embedding_request list" where
  "missing rs vs = map fst (filter (\<lambda>(r, v). v = None) (zip rs vs))"

lemma misses_texts_missing: "misses_texts rs vs = map er_text (missing rs vs)"
  by (simp add: misses_texts_def missing_def case_prod_beta o_def)

lemma merge_sound:
  "merge_results env rs vs new cache s = (fin, cache', s') \<Longrightarrow> sound_vectors vec_of rs vs \<Longrightarrow>
     new = map (\<lambda>r. vec_of (er_text r)) (missing rs vs) \<Longrightarrow>
     \<forall>(h, v)\<in>set cache. \<exists>w. h = ee_hash env w \<and> vec_of w = Some v \<Longrightarrow>
     sound_vectors vec_of rs fin \<and> (\<forall>(h, v)\<in>set cache'. \<exists>w. h = ee_hash env w \<and> vec_of w = Some v)"
proof (induction env rs vs new cache s arbitrary: fin cache' s' rule: merge_results.induct)
  case (2 env r rs vs e new cache s)
  obtain fin1 where m: "merge_results env rs vs new (cache @ [(ee_hash env (er_text r), e)]) s = (fin1, cache', s')"
      "fin = Some e # fin1"
    using "2.prems"(1) by (auto split: prod.splits)
  have e: "vec_of (er_text r) = Some e" "new = map (\<lambda>r. vec_of (er_text r)) (missing rs vs)"
    using "2.prems"(3) by (simp_all add: missing_def)
  have "\<forall>(h, v)\<in>set (cache @ [(ee_hash env (er_text r), e)]). \<exists>w. h = ee_hash env w \<and> vec_of w = Some v"
    using "2.prems"(4) e(1) by auto
  with "2.IH" [OF m(1) _ e(2)] "2.prems"(2) e(1) m(2) show ?case by (simp add: sound_vectors_def)
qed (auto simp: sound_vectors_def missing_def split: prod.splits)

lemma infer_sound:
  assumes "infer env eb rs found s = (fin, s')" "faithful_engine vec_of eb" "inj (ee_hash env)"
    and "sound_store vec_of (ee_hash env) (pp_store s)" "sound_vectors vec_of rs found"
  shows "sound_vectors vec_of rs fin \<and> sound_store vec_of (ee_hash env) (pp_store s')"
proof (cases "misses_texts rs found = [] \<or> (\<forall>new. eb (misses_texts rs found) \<noteq> EmbedOk new)")
  case True
  with assms retry_all_frame [of s rs] show ?thesis
    by (auto simp: infer_def Let_def split: if_splits embed_outcome.splits)
next
  case False
  then obtain new where new: "misses_texts rs found \<noteq> []" "eb (misses_texts rs found) = EmbedOk new" by blast
  with assms(2) have new': "new = map (\<lambda>r. vec_of (er_text r)) (missing rs found)"
    unfolding faithful_engine_def misses_texts_missing by (auto split: embed_outcome.splits dest!: spec [of _ "map er_text (missing rs found)"])
  obtain cache s1 where m: "merge_results env rs found new [] s = (fin, cache, s1)"
      "s' = s1\<lparr>pp_store := put_batch (ee_disk_write_ok env) cache (pp_store s1)\<rparr>"
    using assms(1) new by (auto simp: infer_def Let_def split: prod.splits)
  from merge_sound [OF m(1) assms(5) new'] have "sound_vectors vec_of rs fin"
      "\<forall>(h, v)\<in>set cache. \<exists>w. h = ee_hash env w \<and> vec_of w = Some v" by simp_all
  moreover have "pp_store s1 = pp_store s" using merge_frame [OF m(1)] by simp
  ultimately show ?thesis using put_batch_sound [OF assms(3,4)] m(2) by simp
qed

lemma collect_sound:
  "collect rs vs s a b = (s', syms, chunks) \<Longrightarrow> sound_vectors vec_of rs vs \<Longrightarrow>
     set syms \<subseteq> set a \<union> {(i, v) |i v. \<exists>r\<in>set rs. er_target r = Some (SymbolTarget i) \<and> vec_of (er_text r) = Some v} \<and>
     set chunks \<subseteq> set b \<union> {(i, v) |i v. \<exists>r\<in>set rs. er_target r = Some (ChunkTarget i) \<and> vec_of (er_text r) = Some v}"
proof (induction rs vs s a b arbitrary: s' syms chunks rule: collect.induct)
  case (1 r rs e vs s a b)
  let ?s1 = "s\<lparr>pp_metrics := dec_queue (pp_metrics s), pp_replies := pp_replies s @ reply_opt (er_responder r) e\<rparr>"
  have v: "sound_vectors vec_of rs vs" "vec_of (er_text r) = Some e" using "1.prems"(2) by (simp_all add: sound_vectors_def)
  show ?case
  proof (cases "er_target r")
    case None
    with "1.IH"(1) [OF refl None _ v(1)] "1.prems"(1) show ?thesis by (fastforce simp: Let_def)
  next
    case (Some x)
    show ?thesis
    proof (cases x)
      case (SymbolTarget i)
      with "1.IH"(2) [OF refl Some SymbolTarget _ v(1)] "1.prems"(1) Some v(2) show ?thesis by (fastforce simp: Let_def)
    next
      case (ChunkTarget i)
      with "1.IH"(3) [OF refl Some ChunkTarget _ v(1)] "1.prems"(1) Some v(2) show ?thesis by (fastforce simp: Let_def)
    qed
  qed
next
  case (2 r rs vs s a b)
  then have "sound_vectors vec_of rs vs" by (simp add: sound_vectors_def)
  from "2.IH" [OF _ this] "2.prems"(1) show ?case by fastforce
qed auto


definition from_sent :: "embedding_request set \<Rightarrow> embedding_request \<Rightarrow> bool" where
  "from_sent S r \<longleftrightarrow> (\<exists>r0\<in>S. er_text r = er_text r0 \<and> er_target r = er_target r0)"

definition pipeline_sound ::
  "(string \<Rightarrow> real list option) \<Rightarrow> (string \<Rightarrow> string) \<Rightarrow> embedding_request set \<Rightarrow> pipeline \<Rightarrow> bool" where
  "pipeline_sound vec_of hash S s \<longleftrightarrow> sound_store vec_of hash (pp_store s) \<and>
     (\<forall>r\<in>set (pp_queue s) \<union> set (pp_batch s). from_sent S r) \<and>
     set (pp_symbol_updates s) \<subseteq> {(i, v) |i v. \<exists>r\<in>S. er_target r = Some (SymbolTarget i) \<and> vec_of (er_text r) = Some v} \<and>
     set (pp_chunk_updates s) \<subseteq> {(i, v) |i v. \<exists>r\<in>S. er_target r = Some (ChunkTarget i) \<and>
        vec_of (er_text r) = Some v \<and> MIN_EMBED_CHARS \<le> length (er_text r)}"

lemma kept_long: "r \<in> set (kept rs) \<Longrightarrow> er_target r = Some (ChunkTarget i) \<Longrightarrow> MIN_EMBED_CHARS \<le> length (er_text r)"
  by (auto simp: kept_def skip_short_chunk_def list_ex_iff split: if_splits)

lemma kept_mem: "r \<in> set (kept rs) \<Longrightarrow> r \<in> set rs"
  by (auto simp: kept_def split: if_splits)

lemma from_sent_self: "r \<in> S \<Longrightarrow> from_sent S r"
  by (auto simp: from_sent_def)

lemma from_sent_retry: "from_sent S (retry_request r) = from_sent S r"
  by (simp add: from_sent_def retry_request_def)

lemma process_batch_sound:
  assumes run: "process_batch env engine s = (ok, s')" and snd: "pipeline_sound vec_of (ee_hash env) S s"
    and inj: "inj (ee_hash env)" and faithful: "\<And>eb. engine = Some eb \<Longrightarrow> faithful_engine vec_of eb"
  shows "pipeline_sound vec_of (ee_hash env) S s'"
proof (cases "pp_batch s = [] \<or> engine = None \<or> kept (pp_batch s) = []")
  case True
  obtain marked replies skipped where sk: "skip_short (pp_batch s) = (marked, replies, skipped)"
    by (cases "skip_short (pp_batch s)")
  have k: "\<forall>r\<in>set (kept (pp_batch s)). from_sent S r" using snd kept_mem by (auto simp: pipeline_sound_def)
  consider "s' = s" | "s' = s\<lparr>pp_batch := kept (pp_batch s), pp_replies := pp_replies s @ replies\<rparr>"
    using True run unfolding process_batch_eq [OF sk] Let_def by (auto split: if_splits)
  then show ?thesis by cases (use snd k in \<open>simp_all add: pipeline_sound_def ball_Un\<close>)
next
  case False
  then obtain eb where eb: "engine = Some eb" by auto
  let ?k = "kept (pp_batch s)"
  obtain marked replies skipped where sk: "skip_short (pp_batch s) = (marked, replies, skipped)"
    by (cases "skip_short (pp_batch s)")
  let ?s1 = "s\<lparr>pp_batch := ?k, pp_replies := pp_replies s @ replies\<rparr>"
  obtain found store where l: "lookup_all env ?k (pp_store s) = (found, store)" by fastforce
  obtain fin s2 where i: "infer env eb ?k found (?s1\<lparr>pp_store := store\<rparr>) = (fin, s2)" by fastforce
  obtain s3 syms chunks where c: "collect ?k fin (s2\<lparr>pp_batch := []\<rparr>) [] [] = (s3, syms, chunks)"
    by (cases "collect ?k fin (s2\<lparr>pp_batch := []\<rparr>) [] []")
  have s': "s' = s3\<lparr>pp_symbol_updates := pp_symbol_updates s3 @ (if ee_symbol_write_ok env then syms else []),
      pp_chunk_updates := pp_chunk_updates s3 @ (if ee_chunk_write_ok env then chunks else [])\<rparr>"
    using run False unfolding process_batch_eq [OF sk] Let_def by (simp add: eb l i c)
  have st: "sound_store vec_of (ee_hash env) store" "sound_vectors vec_of ?k found"
    using lookup_all_sound [OF _ l] snd by (simp_all add: pipeline_sound_def)
  from infer_sound [OF i faithful [OF eb] inj] st
  have fin: "sound_vectors vec_of ?k fin" "sound_store vec_of (ee_hash env) (pp_store s2)" by simp_all
  have len: "length ?k = length fin" using infer_frame [OF i] lookup_length [of env ?k "pp_store s"] l by simp
  note cf = collect_frame [OF c len] and cs = collect_sound [OF c fin(1)]
  obtain ys where ys: "pp_queue s2 = pp_queue s @ map retry_request ys" "mset ys \<subseteq># mset ?k"
    using infer_queue [OF i] by (auto simp: is_retried_def)
  have "set ys \<subseteq> set (pp_batch s)" using set_mset_mono [OF ys(2)] kept_mem by auto
  with snd have queue: "\<forall>r\<in>set (pp_queue s2). from_sent S r"
    by (auto simp: pipeline_sound_def ys(1) from_sent_retry)
  have k: "\<forall>r\<in>set ?k. from_sent S r" using snd kept_mem by (auto simp: pipeline_sound_def)
  let ?syms = "{(i, v) |i v. \<exists>r\<in>S. er_target r = Some (SymbolTarget i) \<and> vec_of (er_text r) = Some v}"
  let ?chunks = "{(i, v) |i v. \<exists>r\<in>S. er_target r = Some (ChunkTarget i) \<and>
        vec_of (er_text r) = Some v \<and> MIN_EMBED_CHARS \<le> length (er_text r)}"
  have new: "set syms \<subseteq> ?syms" "set chunks \<subseteq> ?chunks"
  proof -
    have "(i, v) \<in> ?syms" if "(i, v) \<in> set syms" for i v
    proof -
      from that cs obtain r where "r \<in> set ?k" "er_target r = Some (SymbolTarget i)" "vec_of (er_text r) = Some v" by auto
      with k show ?thesis by (fastforce simp: from_sent_def)
    qed
    then show "set syms \<subseteq> ?syms" by auto
    have "(i, v) \<in> ?chunks" if "(i, v) \<in> set chunks" for i v
    proof -
      from that cs obtain r where r: "r \<in> set ?k" "er_target r = Some (ChunkTarget i)" "vec_of (er_text r) = Some v" by auto
      with k kept_long [OF r(1,2)] show ?thesis by (fastforce simp: from_sent_def)
    qed
    then show "set chunks \<subseteq> ?chunks" by auto
  qed
  have frame: "pp_store s' = pp_store s2" "pp_queue s' = pp_queue s2" "pp_batch s' = []"
    "pp_symbol_updates s' = pp_symbol_updates s @ (if ee_symbol_write_ok env then syms else [])"
    "pp_chunk_updates s' = pp_chunk_updates s @ (if ee_chunk_write_ok env then chunks else [])"
    using cf infer_frame [OF i] by (simp_all add: s' drained_frame_def same_frame_def)
  have "set (pp_symbol_updates s') \<subseteq> ?syms" "set (pp_chunk_updates s') \<subseteq> ?chunks"
    using snd new unfolding frame pipeline_sound_def by (simp_all only: set_append) auto
  then show ?thesis using fin(2) queue unfolding pipeline_sound_def frame(1,2,3) by simp
qed

fun event_faithful :: "(string \<Rightarrow> real list option) \<Rightarrow> (string \<Rightarrow> string) \<Rightarrow> pipeline_event \<Rightarrow> bool" where
  "event_faithful vec_of hash (PWork env engine) =
     (ee_hash env = hash \<and> (case engine of Some eb \<Rightarrow> faithful_engine vec_of eb | None \<Rightarrow> True))"
| "event_faithful vec_of hash _ = True"

fun sent_by :: "pipeline_event \<Rightarrow> embedding_request list" where
  "sent_by (PSend r) = [r]"
| "sent_by (PTrySend r) = [r]"
| "sent_by _ = []"

lemma pipeline_sound_processed: "pipeline_sound vec_of hash S (s\<lparr>pp_processed := n\<rparr>) = pipeline_sound vec_of hash S s"
  by (simp add: pipeline_sound_def)

lemma flush_sound:
  "pipeline_sound vec_of (ee_hash env) S s \<Longrightarrow> inj (ee_hash env) \<Longrightarrow>
     (\<And>eb. engine = Some eb \<Longrightarrow> faithful_engine vec_of eb) \<Longrightarrow> pipeline_sound vec_of (ee_hash env) S (flush_batch env engine s)"
  using process_batch_sound [of env engine s] pipeline_sound_processed
  by (simp add: flush_batch_def Let_def split: prod.split)

lemma step_sound:
  assumes "pipeline_sound vec_of hash S s" "inj hash" "event_faithful vec_of hash e" "set (sent_by e) \<subseteq> S"
  shows "pipeline_sound vec_of hash S (pipeline_step s e)"
proof (cases e)
  case (PWork env engine)
  have hash: "ee_hash env = hash" and eb: "\<And>eb. engine = Some eb \<Longrightarrow> faithful_engine vec_of eb"
    using assms(3) PWork by auto
  have fl: "pipeline_sound vec_of hash S s1 \<Longrightarrow> pipeline_sound vec_of hash S (flush_batch env engine s1)" for s1
    using flush_sound [of vec_of env S s1 engine] eb assms(2) by (simp add: hash)
  show ?thesis
  proof (cases "pp_queue s")
    case Nil
    with fl [OF assms(1)] assms(1) show ?thesis by (simp add: PWork worker_turn_def)
  next
    case (Cons r q)
    with assms(1) have "pipeline_sound vec_of hash S (s\<lparr>pp_queue := q, pp_batch := pp_batch s @ [r]\<rparr>)"
      by (simp add: pipeline_sound_def)
    with fl [OF this] Cons show ?thesis by (simp add: PWork worker_turn_def Let_def)
  qed
next
  case (PSend r)
  with assms(1,4) from_sent_self [of r S] show ?thesis by (auto simp: pipeline_sound_def send_request_def)
next
  case (PTrySend r)
  with assms(1,4) from_sent_self [of r S] show ?thesis by (auto simp: pipeline_sound_def try_send_def Let_def)
next
  case (PEvict k)
  with assms(1) show ?thesis by (simp add: pipeline_sound_def sound_store_def) (auto simp: sound_map_def)
qed (use assms(1) in \<open>simp add: pipeline_sound_def\<close>)

lemma run_sound:
  assumes "inj hash"
  shows "pipeline_sound vec_of hash S s \<Longrightarrow> list_all (event_faithful vec_of hash) es \<Longrightarrow>
    set (concat (map sent_by es)) \<subseteq> S \<Longrightarrow> pipeline_sound vec_of hash S (foldl pipeline_step s es)"
  by (induction es arbitrary: s) (auto simp: step_sound [OF _ assms])

text \<open>C18: Every vector that the worker writes belongs to its record: in any run, with requests sent, retried and
  dropped, model failures, lost cache entries and failing disks, a vector written for a symbol or a
  chunk is the model's vector of a text that was sent for just that record, and never of a short chunk.\<close>
theorem vectors_belong_to_texts:
  assumes "inj hash" and "list_all (event_faithful vec_of hash) es" and "sound_map vec_of hash model disk"
  shows "let s = foldl pipeline_step (pipeline_new capacity model disk n) es; sent = concat (map sent_by es) in
    list_all (\<lambda>(i, v). list_ex (\<lambda>r. er_target r = Some (SymbolTarget i) \<and> vec_of (er_text r) = Some v) sent)
      (pp_symbol_updates s) \<and>
    list_all (\<lambda>(i, v). list_ex (\<lambda>r. er_target r = Some (ChunkTarget i) \<and> vec_of (er_text r) = Some v \<and>
        MIN_EMBED_CHARS \<le> length (er_text r)) sent)
      (pp_chunk_updates s)"
proof -
  let ?new = "pipeline_new capacity model disk n" and ?S = "set (concat (map sent_by es))"
  have "pipeline_sound vec_of hash ?S ?new"
    using assms(3) by (simp add: pipeline_sound_def pipeline_new_def sound_store_def) (simp add: sound_map_def)
  from run_sound [OF assms(1) this assms(2) subset_refl]
  show ?thesis unfolding Let_def pipeline_sound_def list_all_iff list_ex_iff by fast
qed


section \<open>The depth of the queue\<close>

definition pending :: "pipeline \<Rightarrow> nat" where
  "pending s = length (pp_queue s) + length (pp_batch s)"

definition complete_engine :: "(string list \<Rightarrow> embed_outcome) option \<Rightarrow> bool" where
  "complete_engine engine \<longleftrightarrow>
     (case engine of None \<Rightarrow> True | Some eb \<Rightarrow> (\<forall>texts. \<exists>vs. eb texts = EmbedOk (map Some vs)))"

definition depth_exact :: "pipeline \<Rightarrow> bool" where
  "depth_exact s \<longleftrightarrow> em_queue_depth (pp_metrics s) = of_nat (pending s) \<and>
     (\<forall>r\<in>set (pp_queue s) \<union> set (pp_batch s). \<not> skip_short_chunk r)"

fun smooth :: "pipeline_event \<Rightarrow> bool" where
  "smooth (PSend r) = (\<not> skip_short_chunk r)"
| "smooth (PTrySend r) = (\<not> skip_short_chunk r)"
| "smooth (PWork env engine) = complete_engine engine"
| "smooth _ = True"

lemma merge_complete: "merge_results env rs vs (map Some new) cache s = (fin, cache', s') \<Longrightarrow> s' = s"
  by (induction env rs vs "map Some new" cache s arbitrary: new fin cache' s' rule: merge_results.induct)
    (auto split: prod.splits)

lemma infer_complete:
  assumes "infer env eb rs found s = (fin, s')" "complete_engine (Some eb)"
  shows "pp_queue s' = pp_queue s"
proof -
  from assms(2) obtain new where "eb (misses_texts rs found) = EmbedOk (map Some new)"
    by (auto simp: complete_engine_def)
  with assms(1) show ?thesis by (auto simp: infer_def Let_def split: if_splits prod.splits dest!: merge_complete)
qed

lemma kept_all: "\<forall>r\<in>set rs. \<not> skip_short_chunk r \<Longrightarrow> kept rs = rs"
  by (auto simp: kept_def list_ex_iff)

lemma process_batch_exact:
  assumes run: "process_batch env engine s = (ok, s')" and ex: "depth_exact s" and engine: "complete_engine engine"
  shows "depth_exact s'"
proof -
  have k: "kept (pp_batch s) = pp_batch s" using ex by (intro kept_all) (simp add: depth_exact_def)
  note spec = process_batch_spec [OF run, unfolded k]
  obtain marked replies skipped where sk: "skip_short (pp_batch s) = (marked, replies, skipped)"
    by (cases "skip_short (pp_batch s)")
  show ?thesis
  proof (cases engine)
    case None
    with spec ex show ?thesis by (auto simp: depth_exact_def pending_def is_retried_def split: if_splits)
  next
    case (Some eb)
    have "pp_queue s' = pp_queue s"
    proof (cases "pp_batch s = []")
      case True
      with run show ?thesis by (simp add: process_batch_def)
    next
      case False
      obtain found store where l: "lookup_all env (pp_batch s) (pp_store s) = (found, store)" by fastforce
      let ?s1 = "s\<lparr>pp_replies := pp_replies s @ replies, pp_store := store\<rparr>"
      obtain fin s2 where i: "infer env eb (pp_batch s) found ?s1 = (fin, s2)" by fastforce
      obtain s3 syms chunks where c: "collect (pp_batch s) fin (s2\<lparr>pp_batch := []\<rparr>) [] [] = (s3, syms, chunks)"
        by (cases "collect (pp_batch s) fin (s2\<lparr>pp_batch := []\<rparr>) [] []")
      have "length (pp_batch s) = length fin"
        using infer_frame [OF i] lookup_length [of env "pp_batch s" "pp_store s"] l by simp
      from collect_frame [OF c this] infer_complete [OF i engine [unfolded Some]] have "pp_queue s3 = pp_queue s"
        by (simp add: drained_frame_def)
      then show ?thesis using run False unfolding process_batch_eq [OF sk] k Let_def by (auto simp: Some l i c)
    qed
    with spec ex Some show ?thesis by (simp add: depth_exact_def pending_def)
  qed
qed

lemma flush_exact: "depth_exact s \<Longrightarrow> complete_engine engine \<Longrightarrow> depth_exact (flush_batch env engine s)"
proof -
  have "depth_exact (s1\<lparr>pp_processed := n\<rparr>) = depth_exact s1" for s1 n by (simp add: depth_exact_def pending_def)
  then show "depth_exact s \<Longrightarrow> complete_engine engine \<Longrightarrow> depth_exact (flush_batch env engine s)"
    using process_batch_exact [of env engine s] by (simp add: flush_batch_def Let_def split: prod.split)
qed

lemma step_exact:
  assumes "depth_exact s" "smooth e"
  shows "depth_exact (pipeline_step s e)"
proof (cases e)
  case (PWork env engine)
  with assms(2) have engine: "complete_engine engine" by simp
  show ?thesis
  proof (cases "pp_queue s")
    case Nil
    with flush_exact [OF assms(1) engine] assms(1) show ?thesis by (simp add: PWork worker_turn_def)
  next
    case (Cons r q)
    with assms(1) have "depth_exact (s\<lparr>pp_queue := q, pp_batch := pp_batch s @ [r]\<rparr>)"
      by (simp add: depth_exact_def pending_def)
    with flush_exact [OF this engine] Cons show ?thesis by (simp add: PWork worker_turn_def Let_def)
  qed
next
  case (PSend r)
  with assms show ?thesis by (auto simp: depth_exact_def pending_def send_request_def inc_queue_def)
next
  case (PTrySend r)
  with assms show ?thesis by (auto simp: depth_exact_def pending_def try_send_def Let_def inc_queue_def dec_queue_def)
qed (use assms(1) in \<open>simp_all add: depth_exact_def pending_def\<close>)

lemma run_exact: "depth_exact s \<Longrightarrow> list_all smooth es \<Longrightarrow> depth_exact (foldl pipeline_step s es)"
  by (induction es arbitrary: s) (auto intro: step_exact)

text \<open>The depth that throttles the senders is exact as long as nothing goes wrong: when no short chunk is sent
  and the model answers for every text, it is the number of requests that are waiting or in the batch
  after every run.\<close>
theorem queue_depth_exact:
  assumes "list_all smooth es"
  shows "let s = foldl pipeline_step (pipeline_new capacity model disk n) es in
    em_queue_depth (pp_metrics s) = of_nat (length (pp_queue s) + length (pp_batch s))"
proof -
  have "depth_exact (pipeline_new capacity model disk n)"
    by (simp add: depth_exact_def pending_def pipeline_new_def metrics_new_def)
  from run_exact [OF this assms] show ?thesis by (simp add: Let_def depth_exact_def pending_def)
qed

text \<open>A skipped chunk is never taken off the depth. After \<open>n\<close> short chunks the queue is empty and the
  depth is \<open>n\<close>, so that from a half full count on every send sleeps, although nothing is waiting.\<close>

definition idle :: "pipeline \<Rightarrow> bool" where
  "idle s \<longleftrightarrow> pp_queue s = [] \<and> pp_batch s = [] \<and> 0 < pp_capacity s \<and> 0 < pp_senders s"

lemma short_chunk_leaks:
  assumes "idle s" "skip_short_chunk r"
  shows "let s' = foldl pipeline_step s [PSend r, PWork env engine, PWork env' engine'] in
    idle s' \<and> em_queue_depth (pp_metrics s') = em_queue_depth (pp_metrics s) + 1"
proof -
  let ?s1 = "s\<lparr>pp_queue := [r], pp_metrics := inc_queue (pp_metrics s)\<rparr>"
  let ?s2 = "s\<lparr>pp_queue := [], pp_metrics := inc_queue (pp_metrics s), pp_batch := [r]\<rparr>"
  have 1: "pipeline_step s (PSend r) = ?s1" using assms(1) by (simp add: send_request_def idle_def)
  have 2: "pipeline_step ?s1 (PWork env engine) = ?s2" using assms(1) by (simp add: worker_turn_def idle_def)
  obtain ok s' where p: "process_batch env' engine' ?s2 = (ok, s')" by fastforce
  have "kept [r] = []" using assms(2) by (simp add: kept_def)
  with process_batch_spec [OF p] have "ok" "pp_batch s' = []" "pp_queue s' = []"
      "em_queue_depth (pp_metrics s') = em_queue_depth (pp_metrics s) + 1" "pp_senders s' = pp_senders s"
      "pp_capacity s' = pp_capacity s"
    by (auto simp: is_retried_def inc_queue_def)
  moreover have "foldl pipeline_step s [PSend r, PWork env engine, PWork env' engine'] = s'\<lparr>pp_processed := pp_processed s' + 1\<rparr>"
    using \<open>ok\<close> assms(1) unfolding foldl.simps 1 2 by (simp add: worker_turn_def flush_batch_def p idle_def)
  ultimately show ?thesis using assms(1) by (simp add: Let_def idle_def)
qed

definition short_chunk_run ::
  "embedding_request \<Rightarrow> embedding_env \<Rightarrow> (string list \<Rightarrow> embed_outcome) option \<Rightarrow> nat \<Rightarrow> pipeline_event list" where
  "short_chunk_run r env engine n = concat (replicate n [PSend r, PWork env engine, PWork env engine])"

lemma short_chunks_leak:
  "idle s \<Longrightarrow> skip_short_chunk r \<Longrightarrow>
     idle (foldl pipeline_step s (short_chunk_run r env engine n)) \<and>
     em_queue_depth (pp_metrics (foldl pipeline_step s (short_chunk_run r env engine n))) =
       em_queue_depth (pp_metrics s) + of_nat n"
proof (induction n arbitrary: s)
  case (Suc n)
  from short_chunk_leaks [OF Suc.prems, of env engine env engine] Suc.IH [OF _ Suc.prems(2)] show ?case
    by (simp add: short_chunk_run_def Let_def)
qed (simp add: short_chunk_run_def)

text \<open>Short chunks throttle an idle queue for good: after more than half a capacity of them has been sent and
  handled nothing is waiting, and yet every further send sleeps first and the queue reports itself
  unhealthy.\<close>
theorem short_chunks_throttle:
  assumes "skip_short_chunk r" and "0 < capacity" and "capacity < 2 * n" and "n < 2 ^ 64"
  shows "let s = foldl pipeline_step (pipeline_new capacity model disk m) (short_chunk_run r env engine n);
      cfg = \<lparr>qc_capacity = capacity, qc_high_watermark = 1 / 2\<rparr>
    in pp_queue s = [] \<and> pp_batch s = [] \<and> throttled cfg s \<and> \<not> is_healthy cfg s"
proof -
  let ?new = "pipeline_new capacity model disk m"
  let ?s = "foldl pipeline_step ?new (short_chunk_run r env engine n)"
  have "idle ?new" using assms(2) by (simp add: idle_def pipeline_new_def)
  note leak = short_chunks_leak [OF this assms(1), of env engine n]
  moreover have "em_queue_depth (pp_metrics ?new) = 0" by (simp add: pipeline_new_def metrics_new_def)
  ultimately have "em_queue_depth (pp_metrics ?s) = of_nat n" by simp
  then have "unat (em_queue_depth (pp_metrics ?s)) = n" using assms(4) by (simp add: unat_of_nat)
  then have "utilization \<lparr>qc_capacity = capacity, qc_high_watermark = 1 / 2\<rparr> ?s = real n / real capacity"
    by (simp add: utilization_def)
  moreover have "real n / real capacity > 1 / 2" using assms(2,3) by (simp add: field_simps)
  ultimately show ?thesis using leak by (simp add: Let_def throttled_def is_healthy_def idle_def)
qed

text \<open>A request that is tried again is taken off the depth twice, which then wraps around.\<close>

definition plain_env :: embedding_env where
  "plain_env = \<lparr>ee_hash = (\<lambda>s. s), ee_disk_read_ok = (\<lambda>_. True), ee_disk_write_ok = True,
     ee_symbol_write_ok = True, ee_chunk_write_ok = True\<rparr>"

definition flaky_request :: embedding_request where
  "flaky_request = \<lparr>er_text = ''t'', er_responder = None, er_target = Some (SymbolTarget ''s''), er_retry_count = 0\<rparr>"

definition flaky_start :: pipeline where
  "flaky_start = (pipeline_new 4 ''m'' [] 1)\<lparr>pp_batch := [flaky_request], pp_metrics := inc_queue metrics_new\<rparr>"

lemma flaky_first:
  "pp_queue (snd (process_batch plain_env (Some (\<lambda>_. EmbedErr)) flaky_start)) = [retry_request flaky_request]"
  by (simp add: process_batch_def flaky_start_def pipeline_new_def metrics_new_def flaky_request_def plain_env_def
      skip_short_chunk_def infer_def misses_texts_def store_get_def cache_key_def retry_or_fail_def requeue_def Let_def
      split del: if_split)

lemma retry_underflows:
  "let s1 = snd (process_batch plain_env (Some (\<lambda>_. EmbedErr)) flaky_start);
      s2 = snd (process_batch plain_env (Some eb) (s1\<lparr>pp_queue := [], pp_batch := pp_queue s1\<rparr>))
   in em_queue_depth (pp_metrics s2) = - 1"
proof -
  obtain ok1 s1 where p1: "process_batch plain_env (Some (\<lambda>_. EmbedErr)) flaky_start = (ok1, s1)" by fastforce
  obtain ok2 s2 where p2: "process_batch plain_env (Some eb) (s1\<lparr>pp_queue := [], pp_batch := pp_queue s1\<rparr>) = (ok2, s2)"
    by fastforce
  have "kept [flaky_request] = [flaky_request]" "kept [retry_request flaky_request] = [retry_request flaky_request]"
    by (simp_all add: kept_def skip_short_chunk_def flaky_request_def retry_request_def)
  moreover from flaky_first have "pp_queue s1 = [retry_request flaky_request]" by (simp add: p1)
  ultimately have "em_queue_depth (pp_metrics s2) = - 1"
    using process_batch_spec [OF p1] process_batch_spec [OF p2] by (simp add: flaky_start_def inc_queue_def metrics_new_def)
  then show ?thesis by (simp only: p1 p2 Let_def snd_conv)
qed

section \<open>The worker never sees its channel closed\<close>

lemma step_senders:
  assumes "0 < pp_senders s"
  shows "0 < pp_senders (pipeline_step s e)"
proof (cases e)
  case (PWork env engine)
  have "pp_senders (flush_batch env engine s1) = pp_senders s1" for s1
  proof (cases "process_batch env engine s1")
    case (Pair ok s2)
    from process_batch_spec [OF Pair, THEN conjunct1] Pair show ?thesis by (simp add: flush_batch_def)
  qed
  then show ?thesis using assms by (simp add: PWork worker_turn_def Let_def split: list.split)
next
  case (PSend r)
  with assms show ?thesis by (simp add: send_request_def)
next
  case (PTrySend r)
  with assms show ?thesis by (simp add: try_send_def Let_def)
qed (use assms in simp_all)

lemma worker_never_ends:
  "fst (worker_turn env engine (foldl pipeline_step (pipeline_new capacity model disk n) es))"
proof -
  have "0 < pp_senders s \<Longrightarrow> 0 < pp_senders (foldl pipeline_step s es)" for s
    by (induction es arbitrary: s) (simp_all add: step_senders)
  from this [of "pipeline_new capacity model disk n"]
  have "0 < pp_senders (foldl pipeline_step (pipeline_new capacity model disk n) es)" by (simp add: pipeline_new_def)
  then show ?thesis by (simp add: worker_turn_def Let_def split: list.split)
qed


section \<open>Witnesses\<close>

definition ones :: "string list \<Rightarrow> embed_outcome" where
  "ones texts = EmbedOk (map (\<lambda>_. Some [1]) texts)"

lemma ones_complete: "complete_engine (Some ones)"
  unfolding complete_engine_def ones_def option.case
proof (intro allI exI)
  show "EmbedOk (map (\<lambda>_. Some [1]) texts) = EmbedOk (map Some (map (\<lambda>_. [1]) texts))" for texts :: "string list"
    by simp
qed

lemma ones_faithful: "faithful_engine (\<lambda>_. Some [1]) ones"
  by (simp add: faithful_engine_def ones_def)

definition symbol_request :: embedding_request where
  "symbol_request = \<lparr>er_text = ''run'', er_responder = None, er_target = Some (SymbolTarget ''s1''), er_retry_count = 0\<rparr>"

definition short_request :: embedding_request where
  "short_request = code_chunk_embedding_request ''c1'' ''pub mod foo;''"

lemma short_request_short: "skip_short_chunk short_request"
  by (simp add: short_request_def skip_short_chunk_def code_chunk_embedding_request_def MIN_EMBED_CHARS_def)

theorem worker_drains_witness:
  "pp_queue (worker_turns (replicate 8 (plain_env, \<lambda>_. EmbedErr))
     ((pipeline_new 4 ''m'' [] 1)\<lparr>pp_queue := [symbol_request]\<rparr>)) = []"
  by (rule worker_drains [THEN conjunct1]) (simp_all add: pipeline_new_def symbol_request_def)

theorem vectors_belong_to_texts_witness:
  "let s = foldl pipeline_step (pipeline_new 4 ''m'' [] 1)
      [PSend symbol_request, PWork plain_env (Some ones), PWork plain_env (Some ones)]
   in list_all (\<lambda>(i, v). list_ex (\<lambda>r. er_target r = Some (SymbolTarget i) \<and> Some v = Some [1]) [symbol_request])
     (pp_symbol_updates s)"
  using vectors_belong_to_texts [where hash = "\<lambda>s. s" and vec_of = "\<lambda>_. Some [1]" and disk = "[]" and capacity = 4
      and n = 1 and model = "''m''"
      and es = "[PSend symbol_request, PWork plain_env (Some ones), PWork plain_env (Some ones)]"] ones_faithful
  by (simp add: plain_env_def sound_map_def Let_def list_all_iff list_ex_iff) force

theorem queue_depth_exact_witness:
  "let s = foldl pipeline_step (pipeline_new 4 ''m'' [] 1) [PSend symbol_request, PWork plain_env (Some ones)]
   in em_queue_depth (pp_metrics s) = of_nat (length (pp_queue s) + length (pp_batch s))"
  using queue_depth_exact [of "[PSend symbol_request, PWork plain_env (Some ones)]"] ones_complete
  by (simp add: symbol_request_def skip_short_chunk_def)

theorem short_chunks_throttle_witness:
  "let s = foldl pipeline_step (pipeline_new 2 ''m'' [] 1) (short_chunk_run short_request plain_env (Some ones) 2)
   in throttled \<lparr>qc_capacity = 2, qc_high_watermark = 1 / 2\<rparr> s"
  using short_chunks_throttle [OF short_request_short, of 2 2 "''m''" "[]" 1 plain_env "Some ones"]
  by (simp add: Let_def)

end
