(* ===== verification/CompletionMonitor.thy ===== *)
theory CompletionMonitor
  imports IndexStatus
begin

text \<open>
  \<open>src/embedding/completion_monitor.rs\<close>: the loop that watches the projects, fails an indexing run
  whose file count does not move, and completes a project when its embeddings are there or when they
  make no more progress. The counts come from the database (\<open>count_chunks\<close> and the like) and are given
  for each tick, as are the outcomes of the writes. The stall counter is a byte and wraps around, as
  it does in a release build.
\<close>

section \<open>One check\<close>

record monitor_env =
  me_active_generation :: "u64 option app_result"
  me_total_chunks :: "u32 app_result"
  me_total_symbols :: "u32 app_result"
  me_embedded_chunks :: "u32 app_result"
  me_embedded_symbols :: "u32 app_result"
  me_failed_total :: u64
  me_rebuild :: "unit app_result"
  me_set_serving :: "capability_kind \<Rightarrow> unit app_result"
  me_set_indexing :: "unit app_result"
  me_update_status :: "unit app_result"

record monitor_store =
  mo_status :: "(string, index_status) hmap"
  mo_serving :: "(string \<times> capability_kind, u64) hmap"
  mo_indexing :: "(string, u64) hmap"

type_synonym progress_map = "(string, u32 \<times> u32 \<times> u8) hmap"

definition store_status :: "monitor_env \<Rightarrow> index_status \<Rightarrow> monitor_store \<Rightarrow> unit app_result \<times> monitor_store" where
  "store_status env s db =
     (case me_update_status env of
        Inl e \<Rightarrow> (Inl e, db)
      | Inr _ \<Rightarrow> (case update_index_status s of (key, s') \<Rightarrow> (Inr (), db\<lparr>mo_status := hm_insert key s' (mo_status db)\<rparr>)))"

definition set_serving_generation ::
  "monitor_env \<Rightarrow> string \<Rightarrow> capability_kind \<Rightarrow> u64 \<Rightarrow> monitor_store \<Rightarrow> unit app_result \<times> monitor_store" where
  "set_serving_generation env project_id kind generation db =
     (case me_set_serving env kind of
        Inl e \<Rightarrow> (Inl e, db)
      | Inr _ \<Rightarrow> (Inr (), db\<lparr>mo_serving := hm_insert (project_id, kind) generation (mo_serving db)\<rparr>))"

definition stalled_message :: "index_status \<Rightarrow> string" where
  "stalled_message s =
     ''Indexing stalled at '' @ dec_of_nat (unat (is_indexed_files s)) @ ''/'' @
     dec_of_nat (unat (is_total_files s)) @ '' files for >1800s''"

text \<open>An indexing run: the tick is counted while the number of indexed files stays what it was.\<close>

definition check_indexing ::
  "monitor_env \<Rightarrow> string \<Rightarrow> index_status \<Rightarrow> progress_map \<Rightarrow> monitor_store \<Rightarrow>
   unit app_result \<times> progress_map \<times> monitor_store" where
  "check_indexing env project_id s pm db =
     (let key = ''idx:'' @ project_id
      in case (case hm_get pm key of Some e \<Rightarrow> e | None \<Rightarrow> (is_indexed_files s, 0, 0)) of (files, x, ticks) \<Rightarrow>
         if files = is_indexed_files s then
           (let ticks' = ticks + 1
            in if ticks' \<ge> 180 then
                 (case store_status env (s\<lparr>is_status := Failed, is_error_message := Some (stalled_message s)\<rparr>) db of
                    (r, db') \<Rightarrow> (r, hm_remove key pm, db'))
               else (Inr (), hm_insert key (files, x, ticks') pm, db))
         else (Inr (), hm_insert key (is_indexed_files s, x, 0) pm, db))"

record embedding_counts =
  ec_total_chunks :: u32
  ec_total_symbols :: u32
  ec_embedded_chunks :: u32
  ec_embedded_symbols :: u32
  ec_failed :: u32

text \<open>The counts, read one after the other; the first failure ends the check.\<close>

definition read_counts :: "monitor_env \<Rightarrow> embedding_counts app_result" where
  "read_counts env =
     (case me_active_generation env of Inl e \<Rightarrow> Inl e | Inr _ \<Rightarrow>
     (case me_total_chunks env of Inl e \<Rightarrow> Inl e | Inr total_chunks \<Rightarrow>
     (case me_total_symbols env of Inl e \<Rightarrow> Inl e | Inr total_symbols \<Rightarrow>
     (case me_embedded_chunks env of Inl e \<Rightarrow> Inl e | Inr embedded_chunks \<Rightarrow>
     (case me_embedded_symbols env of Inl e \<Rightarrow> Inl e | Inr embedded_symbols \<Rightarrow>
        Inr \<lparr>ec_total_chunks = total_chunks, ec_total_symbols = total_symbols,
             ec_embedded_chunks = embedded_chunks, ec_embedded_symbols = embedded_symbols,
             ec_failed = ucast (me_failed_total env)\<rparr>)))))"

definition chunks_complete :: "embedding_counts \<Rightarrow> bool" where
  "chunks_complete c \<longleftrightarrow> ec_embedded_chunks c + ec_failed c \<ge> ec_total_chunks c"

definition symbols_complete :: "embedding_counts \<Rightarrow> bool" where
  "symbols_complete c \<longleftrightarrow>
     ec_embedded_symbols c + ec_failed c \<ge> ec_total_symbols c \<or>
     (ec_total_symbols c > 0 \<and> ec_embedded_symbols c > 0 \<and>
      real (unat (ec_embedded_symbols c)) / real (unat (ec_total_symbols c)) \<ge> 995 / 1000)"

definition has_content :: "embedding_counts \<Rightarrow> bool" where
  "has_content c \<longleftrightarrow> ec_total_chunks c > 0 \<or> ec_total_symbols c > 0"

text \<open>The progress of an incomplete project: whether it is stuck, and the map with its counter.\<close>

definition track_progress :: "string \<Rightarrow> embedding_counts \<Rightarrow> progress_map \<Rightarrow> bool \<times> progress_map" where
  "track_progress project_id c pm =
     (if \<not> chunks_complete c \<or> \<not> symbols_complete c then
        (case (case hm_get pm project_id of Some e \<Rightarrow> e
               | None \<Rightarrow> (ec_embedded_chunks c, ec_embedded_symbols c, 0)) of (chunks, symbols, ticks) \<Rightarrow>
           if chunks = ec_embedded_chunks c \<and> symbols = ec_embedded_symbols c then
             (let ticks' = ticks + 1
              in (ticks' \<ge> 60 \<and> (ec_embedded_chunks c > 0 \<or> ec_embedded_symbols c > 0),
                  hm_insert project_id (chunks, symbols, ticks') pm))
           else (False, hm_insert project_id (ec_embedded_chunks c, ec_embedded_symbols c, 0) pm))
      else (False, pm))"

text \<open>The writes of a completion. When the vector indices cannot be rebuilt the serving generations stay
  as they are and the project is completed all the same.\<close>

definition publish_vectors ::
  "monitor_env \<Rightarrow> string \<Rightarrow> u64 \<Rightarrow> monitor_store \<Rightarrow> unit app_result \<times> monitor_store" where
  "publish_vectors env project_id generation db =
     (case me_rebuild env of
        Inl e \<Rightarrow> (Inr (), db)
      | Inr _ \<Rightarrow>
          (case set_serving_generation env project_id CapVector generation db of
             (Inl e, db1) \<Rightarrow> (Inl e, db1)
           | (Inr _, db1) \<Rightarrow> set_serving_generation env project_id CapSemantic generation db1))"

definition completed_status :: "embedding_counts \<Rightarrow> index_status \<Rightarrow> index_status" where
  "completed_status c s =
     (mark_semantic_generation_caught_up (s\<lparr>is_status := Completed\<rparr>))
       \<lparr>is_total_chunks := ec_total_chunks c, is_total_symbols := ec_total_symbols c,
        is_failed_embeddings := ec_failed c\<rparr>"

definition complete_project ::
  "monitor_env \<Rightarrow> string \<Rightarrow> embedding_counts \<Rightarrow> index_status \<Rightarrow> monitor_store \<Rightarrow> unit app_result \<times> monitor_store" where
  "complete_project env project_id c s db =
     (let updated = completed_status c s
      in case publish_vectors env project_id (is_semantic_generation updated) db of
           (Inl e, db1) \<Rightarrow> (Inl e, db1)
         | (Inr _, db1) \<Rightarrow>
             (case me_set_indexing env of
                Inl e \<Rightarrow> (Inl e, db1)
              | Inr _ \<Rightarrow> store_status env updated (db1\<lparr>mo_indexing := hm_remove project_id (mo_indexing db1)\<rparr>)))"

definition check_and_complete_project ::
  "monitor_env \<Rightarrow> string \<Rightarrow> progress_map \<Rightarrow> monitor_store \<Rightarrow> unit app_result \<times> progress_map \<times> monitor_store" where
  "check_and_complete_project env project_id pm db =
     (case hm_get (mo_status db) project_id of
        None \<Rightarrow> (Inr (), pm, db)
      | Some s \<Rightarrow>
          if is_status s = Indexing then check_indexing env project_id s pm db
          else if is_status s \<noteq> EmbeddingPending then (Inr (), hm_remove project_id pm, db)
          else
            (case read_counts env of
               Inl e \<Rightarrow> (Inl e, pm, db)
             | Inr c \<Rightarrow>
                 (case track_progress project_id c pm of (is_stuck, pm1) \<Rightarrow>
                    if (chunks_complete c \<and> symbols_complete c \<and> has_content c) \<or> is_stuck then
                      (case complete_project env project_id c s db of
                         (r, db') \<Rightarrow> (r, hm_remove project_id pm1, db'))
                    else (Inr (), pm1, db))))"

text \<open>A tick of the loop: every project in turn, failures only logged.\<close>

fun monitor_tick :: "(string \<Rightarrow> monitor_env) \<Rightarrow> string list \<Rightarrow> progress_map \<Rightarrow> monitor_store \<Rightarrow> progress_map \<times> monitor_store" where
  "monitor_tick env [] pm db = (pm, db)"
| "monitor_tick env (p # ps) pm db =
     (case check_and_complete_project (env p) p pm db of (_, pm1, db1) \<Rightarrow> monitor_tick env ps pm1 db1)"

text \<open>The loop over the ticks; a listing that fails skips the tick.\<close>

fun run_completion_monitor ::
  "((string \<Rightarrow> monitor_env) \<times> string list app_result) list \<Rightarrow> progress_map \<Rightarrow> monitor_store \<Rightarrow> progress_map \<times> monitor_store" where
  "run_completion_monitor [] pm db = (pm, db)"
| "run_completion_monitor ((env, projects) # ticks) pm db =
     (case projects of
        Inl e \<Rightarrow> run_completion_monitor ticks pm db
      | Inr ps \<Rightarrow> (case monitor_tick env ps pm db of (pm1, db1) \<Rightarrow> run_completion_monitor ticks pm1 db1))"


section \<open>What a check decides\<close>

definition writes_ok :: "monitor_env \<Rightarrow> bool" where
  "writes_ok env \<longleftrightarrow> me_update_status env = Inr () \<and> me_set_indexing env = Inr () \<and> (\<forall>k. me_set_serving env k = Inr ())"

definition stored :: "monitor_store \<Rightarrow> string \<Rightarrow> index_status \<Rightarrow> bool" where
  "stored db p s \<longleftrightarrow> hm_get (mo_status db) p = Some s \<and> is_project_id s = p"

lemma store_status_ok:
  "me_update_status env = Inr () \<Longrightarrow> is_project_id s = p \<Longrightarrow>
     store_status env s db = (Inr (), db\<lparr>mo_status := hm_insert p
       ((refresh_lifecycle_states s)\<lparr>is_id := Some \<lparr>rid_table = ''index_status'', rid_key = p\<rparr>\<rparr>) (mo_status db)\<rparr>)"
  by (simp add: store_status_def update_index_status_def Let_def)

lemma completed_status_simps [simp]:
  "is_status (completed_status c s) = Completed" "is_project_id (completed_status c s) = is_project_id s"
  "is_semantic_generation (completed_status c s) = is_structural_generation s"
  by (simp_all add: completed_status_def mark_semantic_generation_caught_up_def)

lemma publish_vectors_ok:
  assumes "writes_ok env"
  shows "publish_vectors env p g db = (Inr (), if isl (me_rebuild env) then db
    else db\<lparr>mo_serving := hm_insert (p, CapSemantic) g (hm_insert (p, CapVector) g (mo_serving db))\<rparr>)"
  using assms by (cases "me_rebuild env") (simp_all add: publish_vectors_def set_serving_generation_def writes_ok_def)

lemma complete_project_ok:
  assumes "writes_ok env" "is_project_id s = p"
  shows "fst (complete_project env p c s db) = Inr ()"
    and "hm_get (mo_status (snd (complete_project env p c s db))) p =
      Some ((refresh_lifecycle_states (completed_status c s))\<lparr>is_id := Some \<lparr>rid_table = ''index_status'', rid_key = p\<rparr>\<rparr>)"
    and "hm_get (mo_indexing (snd (complete_project env p c s db))) p = None"
    and "\<not> isl (me_rebuild env) \<Longrightarrow>
      hm_get (mo_serving (snd (complete_project env p c s db))) (p, CapVector) = Some (is_structural_generation s)"
proof -
  have st: "store_status env (completed_status c s) db1 = (Inr (), db1\<lparr>mo_status := hm_insert p
       ((refresh_lifecycle_states (completed_status c s))\<lparr>is_id := Some \<lparr>rid_table = ''index_status'', rid_key = p\<rparr>\<rparr>)
       (mo_status db1)\<rparr>)" for db1
    using assms by (intro store_status_ok) (simp_all add: writes_ok_def)
  show "fst (complete_project env p c s db) = Inr ()"
    "hm_get (mo_status (snd (complete_project env p c s db))) p =
      Some ((refresh_lifecycle_states (completed_status c s))\<lparr>is_id := Some \<lparr>rid_table = ''index_status'', rid_key = p\<rparr>\<rparr>)"
    "hm_get (mo_indexing (snd (complete_project env p c s db))) p = None"
    "\<not> isl (me_rebuild env) \<Longrightarrow>
      hm_get (mo_serving (snd (complete_project env p c s db))) (p, CapVector) = Some (is_structural_generation s)"
    using assms(1) by (simp_all add: complete_project_def publish_vectors_ok st Let_def writes_ok_def)
qed

definition is_complete :: "embedding_counts \<Rightarrow> bool" where
  "is_complete c \<longleftrightarrow> chunks_complete c \<and> symbols_complete c \<and> has_content c"

lemma check_pending:
  assumes "stored db p s" "is_status s = EmbeddingPending" "read_counts env = Inr c"
  shows "check_and_complete_project env p pm db =
    (if is_complete c \<or> fst (track_progress p c pm)
     then (fst (complete_project env p c s db), hm_remove p (snd (track_progress p c pm)), snd (complete_project env p c s db))
     else (Inr (), snd (track_progress p c pm), db))"
  using assms by (simp add: check_and_complete_project_def stored_def is_complete_def split: prod.split)

text \<open>A project whose embeddings are pending is completed by a check exactly when its counts are complete and it
  has content, or when it is stuck: the same counts, some embeddings among them, on sixty checks. It
  then is semantically ready at its structural generation, no generation is being indexed any more,
  and the vectors serve that generation unless the indices could not be rebuilt. Otherwise nothing is
  written.\<close>
theorem completion_decision:
  assumes "stored db p s" and "is_status s = EmbeddingPending" and "read_counts env = Inr c" and "writes_ok env"
  shows "case check_and_complete_project env p pm db of (r, pm', db') \<Rightarrow>
    r = Inr () \<and>
    (if is_complete c \<or> fst (track_progress p c pm)
     then (case hm_get (mo_status db') p of None \<Rightarrow> False | Some s' \<Rightarrow>
             is_status s' = Completed \<and> is_semantic_state s' = SemReady \<and>
             is_semantic_generation s' = is_structural_generation s) \<and>
          hm_get (mo_indexing db') p = None \<and> hm_get pm' p = None \<and>
          (isl (me_rebuild env) \<or> hm_get (mo_serving db') (p, CapVector) = Some (is_structural_generation s))
     else db' = db)"
proof -
  have p: "is_project_id s = p" using assms(1) by (simp add: stored_def)
  note ok = complete_project_ok [OF assms(4) p, of c db]
  have "is_semantic_state (refresh_lifecycle_states (completed_status c s)) = SemReady"
    using refresh_lifecycle_view [of "completed_status c s"] by (simp add: lifecycle_view_ok_def)
  then show ?thesis using ok unfolding check_pending [OF assms(1-3)] by auto
qed

section \<open>Timeouts\<close>

definition checks :: "string \<Rightarrow> monitor_env list \<Rightarrow> progress_map \<times> monitor_store \<Rightarrow> progress_map \<times> monitor_store" where
  "checks p envs st = foldl (\<lambda>(pm, db) env. snd (check_and_complete_project env p pm db)) st envs"

lemma checks_Nil [simp]: "checks p [] st = st"
  by (simp add: checks_def)

lemma checks_Cons: "checks p (env # envs) (pm, db) = checks p envs (snd (check_and_complete_project env p pm db))"
  by (simp add: checks_def)

lemma check_indexing_eq:
  assumes "stored db p s" "is_status s = Indexing"
  shows "check_and_complete_project env p pm db = check_indexing env p s pm db"
  using assms by (simp add: check_and_complete_project_def stored_def)

lemma of_nat_u8: "k < 256 \<Longrightarrow> unat (of_nat k :: u8) = k"
  by (simp add: unat_of_nat)

lemma indexing_counts:
  assumes "stored db p s" "is_status s = Indexing"
  shows "k + length envs < 180 \<Longrightarrow>
    hm_get pm (''idx:'' @ p) = (if k = 0 then None else Some (is_indexed_files s, 0, of_nat k)) \<Longrightarrow>
    snd (checks p envs (pm, db)) = db \<and>
    hm_get (fst (checks p envs (pm, db))) (''idx:'' @ p) =
      (if k + length envs = 0 then None else Some (is_indexed_files s, 0, of_nat (k + length envs)))"
proof (induction envs arbitrary: k pm)
  case (Cons env envs)
  have "(180 :: u8) \<le> of_nat (Suc k) \<longleftrightarrow> 180 \<le> Suc k"
    using of_nat_u8 [of "Suc k"] Cons.prems(1) by (simp add: word_le_nat_alt)
  then have n: "\<not> (180 :: u8) \<le> of_nat k + 1" using Cons.prems(1) by (simp add: add.commute)
  have e: "(case hm_get pm (''idx:'' @ p) of Some e \<Rightarrow> e | None \<Rightarrow> (is_indexed_files s, 0, 0)) =
      (is_indexed_files s, 0, of_nat k)" using Cons.prems(2) by (cases k) simp_all
  have "check_and_complete_project env p pm db =
      (Inr (), hm_insert (''idx:'' @ p) (is_indexed_files s, 0, of_nat (Suc k)) pm, db)"
    unfolding check_indexing_eq [OF assms] check_indexing_def Let_def e prod.case if_not_P [OF n]
    by (simp add: add.commute)
  then show ?case using Cons.IH [of "Suc k" "hm_insert (''idx:'' @ p) (is_indexed_files s, 0, of_nat (Suc k)) pm"] Cons.prems(1)
    by (simp add: checks_Cons)
qed simp

text \<open>An indexing run whose file count does not move is failed by the monitor at the hundred and eightieth
  check, with the reason, and not before.\<close>
theorem stalled_indexing_fails:
  assumes "stored db p s" and "is_status s = Indexing" and "hm_get pm (''idx:'' @ p) = None"
    and "length envs \<le> 180" and "\<forall>env\<in>set envs. me_update_status env = Inr ()"
  shows "case checks p envs (pm, db) of (pm', db') \<Rightarrow>
    if length envs < 180 then db' = db
    else (case hm_get (mo_status db') p of None \<Rightarrow> False | Some s' \<Rightarrow>
            is_status s' = Failed \<and> is_error_message s' = Some (stalled_message s)) \<and> hm_get pm' (''idx:'' @ p) = None"
proof (cases "length envs < 180")
  case True
  with indexing_counts [OF assms(1,2), of 0 envs pm] assms(3) show ?thesis by (cases "checks p envs (pm, db)") simp
next
  case False
  then have n: "length envs = 180" using assms(4) by simp
  then obtain es env where es: "envs = es @ [env]" by (cases envs rule: rev_cases) auto
  with n have "length es = 179" by simp
  with indexing_counts [OF assms(1,2), of 0 es pm] assms(3) obtain pm1 where pm1: "checks p es (pm, db) = (pm1, db)"
      "hm_get pm1 (''idx:'' @ p) = Some (is_indexed_files s, 0, 179)"
    by (cases "checks p es (pm, db)") simp
  let ?f = "s\<lparr>is_status := Failed, is_error_message := Some (stalled_message s)\<rparr>"
  have "store_status env ?f db = (Inr (), db\<lparr>mo_status := hm_insert p
      ((refresh_lifecycle_states ?f)\<lparr>is_id := Some \<lparr>rid_table = ''index_status'', rid_key = p\<rparr>\<rparr>) (mo_status db)\<rparr>)"
    using assms(1,5) es by (intro store_status_ok) (simp_all add: stored_def)
  then have "check_and_complete_project env p pm1 db = (Inr (), hm_remove (''idx:'' @ p) pm1, db\<lparr>mo_status := hm_insert p
      ((refresh_lifecycle_states ?f)\<lparr>is_id := Some \<lparr>rid_table = ''index_status'', rid_key = p\<rparr>\<rparr>) (mo_status db)\<rparr>)"
    unfolding check_indexing_eq [OF assms(1,2)] check_indexing_def Let_def pm1(2) by simp
  moreover have "checks p envs (pm, db) = snd (check_and_complete_project env p pm1 db)"
    using pm1(1) by (simp add: es checks_def)
  ultimately show ?thesis using n by (simp add: refresh_lifecycle_states_def)
qed


text \<open>The entries of indexing runs are never removed when the run ends, so a counter goes on in the next
  run whose first check finds the same number of files.\<close>

lemma stall_counter_survives:
  assumes "stored db p s" "is_status s \<noteq> Indexing" "hm_get pm (''idx:'' @ q) = Some e" "p \<noteq> ''idx:'' @ q"
  shows "hm_get (fst (snd (check_and_complete_project env p pm db))) (''idx:'' @ q) = Some e"
proof -
  have "p \<noteq> CHR ''i'' # CHR ''d'' # CHR ''x'' # CHR '':'' # q" using assms(4) by simp
  with assms show ?thesis
    by (auto simp: check_and_complete_project_def stored_def track_progress_def Let_def split: sum.split prod.split option.split)
qed

text \<open>The counter of a project with pending embeddings.\<close>

definition unchanged :: "embedding_counts \<Rightarrow> monitor_env \<Rightarrow> bool" where
  "unchanged c env \<longleftrightarrow> read_counts env = Inr c"

lemma pending_counts:
  assumes s: "stored db p s" "is_status s = EmbeddingPending"
    and c: "\<not> chunks_complete c \<or> \<not> symbols_complete c"
    and quiet: "ec_embedded_chunks c = 0 \<and> ec_embedded_symbols c = 0 \<or> k + length envs < 60"
  shows "\<forall>env\<in>set envs. unchanged c env \<Longrightarrow>
    hm_get pm p = (if k = 0 then None else Some (ec_embedded_chunks c, ec_embedded_symbols c, of_nat k)) \<Longrightarrow>
    snd (checks p envs (pm, db)) = db \<and>
    hm_get (fst (checks p envs (pm, db))) p =
      (if k + length envs = 0 then None else Some (ec_embedded_chunks c, ec_embedded_symbols c, of_nat (k + length envs)))"
  using quiet
proof (induction envs arbitrary: k pm)
  case (Cons env envs)
  have e: "(case hm_get pm p of Some e \<Rightarrow> e | None \<Rightarrow> (ec_embedded_chunks c, ec_embedded_symbols c, 0)) =
      (ec_embedded_chunks c, ec_embedded_symbols c, of_nat k)" using Cons.prems(2) by (cases k) simp_all
  have n: "\<not> ((60 :: u8) \<le> of_nat k + 1 \<and> (ec_embedded_chunks c > 0 \<or> ec_embedded_symbols c > 0))"
  proof (cases "ec_embedded_chunks c = 0 \<and> ec_embedded_symbols c = 0")
    case False
    with Cons.prems(3) have "Suc k + length envs < 60" by auto
    then have "Suc k < 60" by simp
    with of_nat_u8 [of "Suc k"] have "\<not> (60 :: u8) \<le> of_nat (Suc k)" by (simp add: word_le_nat_alt)
    then show ?thesis by (simp add: add.commute)
  qed simp
  have "track_progress p c pm = (False, hm_insert p (ec_embedded_chunks c, ec_embedded_symbols c, of_nat (Suc k)) pm)"
    using c n unfolding track_progress_def e prod.case Let_def by (simp add: add.commute)
  moreover have "\<not> is_complete c" using c by (auto simp: is_complete_def)
  moreover have "read_counts env = Inr c" using Cons.prems(1) by (simp add: unchanged_def)
  ultimately have "check_and_complete_project env p pm db =
      (Inr (), hm_insert p (ec_embedded_chunks c, ec_embedded_symbols c, of_nat (Suc k)) pm, db)"
    using check_pending [OF s] by simp
  with Cons.IH [of "hm_insert p (ec_embedded_chunks c, ec_embedded_symbols c, of_nat (Suc k)) pm" "Suc k"] Cons.prems
  show ?case by (simp add: checks_Cons)
qed simp

text \<open>The two timeouts of pending embeddings. When the counts stop moving with some embeddings in place, the
  project is completed by the sixtieth check, incomplete as it is, and not before; without a single
  embedding it stays pending however long the monitor waits, although its counter wraps around.\<close>
theorem embedding_stall_timeouts:
  assumes "stored db p s" and "is_status s = EmbeddingPending" and "hm_get pm p = None"
    and "\<not> chunks_complete c \<or> \<not> symbols_complete c"
    and "\<forall>env\<in>set envs. read_counts env = Inr c \<and> writes_ok env"
  shows "case checks p envs (pm, db) of (pm', db') \<Rightarrow>
    if ec_embedded_chunks c = 0 \<and> ec_embedded_symbols c = 0 \<or> length envs < 60 then db' = db
    else if length envs = 60 then
      (case hm_get (mo_status db') p of None \<Rightarrow> False | Some s' \<Rightarrow> is_status s' = Completed) \<and> hm_get pm' p = None
    else True"
proof (cases "ec_embedded_chunks c = 0 \<and> ec_embedded_symbols c = 0 \<or> length envs < 60")
  case True
  have "\<forall>env\<in>set envs. unchanged c env" using assms(5) by (simp add: unchanged_def)
  with pending_counts [OF assms(1,2,4), of 0 envs pm] assms(3) True show ?thesis
    by (cases "checks p envs (pm, db)") simp
next
  case False
  show ?thesis
  proof (cases "length envs = 60")
    case True
    then obtain es env where es: "envs = es @ [env]" by (cases envs rule: rev_cases) auto
    with True have "length es = 59" by simp
    moreover have "\<forall>env\<in>set es. unchanged c env" using assms(5) by (simp add: unchanged_def es)
    ultimately obtain pm1 where pm1: "checks p es (pm, db) = (pm1, db)"
        "hm_get pm1 p = Some (ec_embedded_chunks c, ec_embedded_symbols c, 59)"
      using pending_counts [OF assms(1,2,4), of 0 es pm] assms(3) by (cases "checks p es (pm, db)") simp
    have "fst (track_progress p c pm1)"
      using assms(4) False by (auto simp: track_progress_def pm1(2) Let_def word_gt_0)
    with completion_decision [OF assms(1,2), of env c pm1] assms(5)
    have "case check_and_complete_project env p pm1 db of (r, pm', db') \<Rightarrow>
        (case hm_get (mo_status db') p of None \<Rightarrow> False | Some s' \<Rightarrow> is_status s' = Completed) \<and> hm_get pm' p = None"
      by (auto simp: es split: prod.splits option.splits)
    moreover have "checks p envs (pm, db) = snd (check_and_complete_project env p pm1 db)"
      using pm1(1) by (simp add: es checks_def)
    ultimately show ?thesis using False by (auto split: prod.splits)
  qed (use False in \<open>auto split: prod.split\<close>)
qed


section \<open>Witnesses\<close>

definition example_env :: "u32 \<Rightarrow> monitor_env" where
  "example_env embedded =
     \<lparr>me_active_generation = Inr None, me_total_chunks = Inr 4, me_total_symbols = Inr 0,
      me_embedded_chunks = Inr embedded, me_embedded_symbols = Inr 0, me_failed_total = 0,
      me_rebuild = Inr (), me_set_serving = (\<lambda>_. Inr ()), me_set_indexing = Inr (), me_update_status = Inr ()\<rparr>"

definition example_counts :: "u32 \<Rightarrow> embedding_counts" where
  "example_counts embedded =
     \<lparr>ec_total_chunks = 4, ec_total_symbols = 0, ec_embedded_chunks = embedded, ec_embedded_symbols = 0, ec_failed = 0\<rparr>"

definition example_db :: "index_state \<Rightarrow> monitor_store" where
  "example_db st = \<lparr>mo_status = [(''p'', (index_status_new 0 ''p'')\<lparr>is_status := st\<rparr>)], mo_serving = [], mo_indexing = []\<rparr>"

lemma example_stored: "stored (example_db st) ''p'' ((index_status_new 0 ''p'')\<lparr>is_status := st\<rparr>)"
  by (simp add: stored_def example_db_def index_status_new_def)

lemma example_reads: "read_counts (example_env n) = Inr (example_counts n)" "writes_ok (example_env n)"
  by (simp_all add: read_counts_def example_env_def example_counts_def writes_ok_def)

lemma example_incomplete: "\<not> chunks_complete (example_counts 3)"
  by (simp add: chunks_complete_def example_counts_def)

lemma example_complete: "is_complete (example_counts 4)"
  by (simp add: is_complete_def chunks_complete_def symbols_complete_def has_content_def example_counts_def)

theorem completion_decision_witness:
  "case check_and_complete_project (example_env 4) ''p'' [] (example_db EmbeddingPending) of (r, pm', db') \<Rightarrow>
     (case hm_get (mo_status db') ''p'' of None \<Rightarrow> False | Some s' \<Rightarrow> is_status s' = Completed)"
  using completion_decision [OF example_stored _ example_reads, of EmbeddingPending 4 "[]"] example_complete
  by (auto split: prod.splits option.splits)

theorem stalled_indexing_fails_witness:
  "case checks ''p'' (replicate 180 (example_env 0)) ([], example_db Indexing) of (pm', db') \<Rightarrow>
     (case hm_get (mo_status db') ''p'' of None \<Rightarrow> False | Some s' \<Rightarrow> is_status s' = Failed)"
  using stalled_indexing_fails [OF example_stored, of Indexing "[]" "replicate 180 (example_env 0)"]
  by (auto simp: example_env_def split: prod.splits option.splits)

theorem embedding_stall_timeouts_witness:
  "case checks ''p'' (replicate 60 (example_env 3)) ([], example_db EmbeddingPending) of (pm', db') \<Rightarrow>
     (case hm_get (mo_status db') ''p'' of None \<Rightarrow> False | Some s' \<Rightarrow> is_status s' = Completed)"
  using embedding_stall_timeouts [OF example_stored, of EmbeddingPending "[]" "example_counts 3" "replicate 60 (example_env 3)"]
    example_incomplete example_reads
  by (auto simp: example_counts_def split: prod.splits option.splits)

end
