(* ===== verification/EmbeddingService.thy ===== *)
theory EmbeddingService
  imports AppTypes
begin

text \<open>
  \<open>src/embedding/config.rs\<close>, \<open>cache.rs\<close> and \<open>service.rs\<close>: the models and their names, the validation of the
  configuration, the cached embedding of one text, and the waiting for a model to load. The LRU map,
  the hash and the model are parameters; loading a model (downloads, threads) is not modelled.
\<close>

section \<open>Models\<close>

datatype engine_backend = BackendBert | BackendQwen3 | BackendGemma | BackendMock

datatype model_type = E5Small | E5Multi | Nomic | BgeM3 | Qwen3 | Gemma | Mock

fun repo_id :: "model_type \<Rightarrow> string" where
  "repo_id E5Small = ''intfloat/multilingual-e5-small''"
| "repo_id E5Multi = ''intfloat/multilingual-e5-base''"
| "repo_id Nomic = ''nomic-ai/nomic-embed-text-v1.5''"
| "repo_id BgeM3 = ''BAAI/bge-m3''"
| "repo_id Qwen3 = ''Qwen/Qwen3-Embedding-0.6B''"
| "repo_id Gemma = ''unsloth/embeddinggemma-300m-qat-q4_0-unquantized''"
| "repo_id Mock = ''mock''"

fun base_dimensions :: "model_type \<Rightarrow> nat" where
  "base_dimensions E5Small = 384"
| "base_dimensions E5Multi = 768"
| "base_dimensions Nomic = 768"
| "base_dimensions BgeM3 = 1024"
| "base_dimensions Qwen3 = 1024"
| "base_dimensions Gemma = 768"
| "base_dimensions Mock = 768"

definition supports_mrl :: "model_type \<Rightarrow> bool" where
  "supports_mrl m \<longleftrightarrow> m = Qwen3 \<or> m = Gemma"

fun engine_backend_of :: "model_type \<Rightarrow> engine_backend" where
  "engine_backend_of E5Small = BackendBert"
| "engine_backend_of E5Multi = BackendBert"
| "engine_backend_of Nomic = BackendBert"
| "engine_backend_of BgeM3 = BackendBert"
| "engine_backend_of Qwen3 = BackendQwen3"
| "engine_backend_of Gemma = BackendGemma"
| "engine_backend_of Mock = BackendMock"

fun model_name :: "model_type \<Rightarrow> string" where
  "model_name E5Small = ''e5_small''"
| "model_name E5Multi = ''e5_multi''"
| "model_name Nomic = ''nomic''"
| "model_name BgeM3 = ''bge_m3''"
| "model_name Qwen3 = ''qwen3''"
| "model_name Gemma = ''gemma''"
| "model_name Mock = ''mock''"

definition model_from_str :: "string \<Rightarrow> string + model_type" where
  "model_from_str s =
     (let l = str_lower s in
      if l = ''e5_small'' \<or> l = ''e5-small'' then Inr E5Small
      else if l = ''e5_multi'' \<or> l = ''e5-multi'' \<or> l = ''e5_base'' \<or> l = ''e5-base'' then Inr E5Multi
      else if l = ''nomic'' then Inr Nomic
      else if l = ''bge_m3'' \<or> l = ''bge-m3'' then Inr BgeM3
      else if l = ''qwen3'' \<or> l = ''qwen-3'' then Inr Qwen3
      else if l = ''gemma'' then Inr Gemma
      else if l = ''mock'' then Inr Mock
      else Inl (''Unknown model: '' @ CHR 0x27 # s @ CHR 0x27 #
        ''. Valid values: e5_small, e5_multi, nomic, bge_m3, qwen3, gemma''))"

datatype config_error = NotSupported model_type | DimZero | DimExceedsBase nat nat

record embedding_config =
  cf_model :: model_type
  cf_mrl_dim :: "nat option"
  cf_cache_size :: nat
  cf_batch_size :: nat

definition embedding_config_default :: embedding_config where
  "embedding_config_default = \<lparr>cf_model = Gemma, cf_mrl_dim = None, cf_cache_size = 1000, cf_batch_size = 32\<rparr>"

definition output_dim :: "embedding_config \<Rightarrow> nat" where
  "output_dim c = (case cf_mrl_dim c of Some d \<Rightarrow> d | None \<Rightarrow> base_dimensions (cf_model c))"

definition validate_config :: "embedding_config \<Rightarrow> config_error + unit" where
  "validate_config c =
     (case cf_mrl_dim c of
        None \<Rightarrow> Inr ()
      | Some d \<Rightarrow>
          if d = 0 then Inl DimZero
          else if \<not> supports_mrl (cf_model c) then Inl (NotSupported (cf_model c))
          else if d > base_dimensions (cf_model c) then Inl (DimExceedsBase d (base_dimensions (cf_model c)))
          else Inr ())"

section \<open>The cache\<close>

text \<open>The LRU map: a look-up may refresh the entry, an insertion may evict others.\<close>

record 'c lru_api =
  lru_new :: "nat \<Rightarrow> 'c"
  lru_get :: "string \<Rightarrow> 'c \<Rightarrow> real list option \<times> 'c"
  lru_put :: "string \<Rightarrow> real list \<Rightarrow> 'c \<Rightarrow> 'c"
  lru_len :: "'c \<Rightarrow> nat"

definition lru_contract :: "'c lru_api \<Rightarrow> ('c \<Rightarrow> string \<Rightarrow> real list option) \<Rightarrow> bool" where
  "lru_contract api cont \<longleftrightarrow>
     (\<forall>n k. cont (lru_new api n) k = None) \<and>
     (\<forall>c k. fst (lru_get api k c) = cont c k \<and> cont (snd (lru_get api k c)) = cont c) \<and>
     (\<forall>c k v j. cont (lru_put api k v c) j \<in> {((cont c)(k \<mapsto> v)) j, None} \<and> cont (lru_put api k v c) k = Some v)"

record 'c embedding_cache =
  ca_cache :: 'c
  ca_hits :: u64
  ca_misses :: u64

definition embedding_cache_new :: "'c lru_api \<Rightarrow> nat \<Rightarrow> 'c embedding_cache" where
  "embedding_cache_new api capacity =
     \<lparr>ca_cache = lru_new api (if capacity = 0 then 1 else capacity), ca_hits = 0, ca_misses = 0\<rparr>"

definition text_key :: "(string \<Rightarrow> string) \<Rightarrow> string \<Rightarrow> string \<Rightarrow> string" where
  "text_key hash content model_version = hash (content @ '':'' @ model_version)"

definition cache_get ::
  "'c lru_api \<Rightarrow> (string \<Rightarrow> string) \<Rightarrow> string \<Rightarrow> string \<Rightarrow> 'c embedding_cache \<Rightarrow> real list option \<times> 'c embedding_cache" where
  "cache_get api hash content model_version c =
     (case lru_get api (text_key hash content model_version) (ca_cache c) of
        (Some v, l) \<Rightarrow> (Some v, c\<lparr>ca_cache := l, ca_hits := ca_hits c + 1\<rparr>)
      | (None, l) \<Rightarrow> (None, c\<lparr>ca_cache := l, ca_misses := ca_misses c + 1\<rparr>))"

definition cache_put ::
  "'c lru_api \<Rightarrow> (string \<Rightarrow> string) \<Rightarrow> string \<Rightarrow> string \<Rightarrow> real list \<Rightarrow> 'c embedding_cache \<Rightarrow> 'c embedding_cache" where
  "cache_put api hash content model_version v c =
     c\<lparr>ca_cache := lru_put api (text_key hash content model_version) v (ca_cache c)\<rparr>"

section \<open>Embedding one text\<close>

text \<open>The vector of the mock model: the bytes of the hash, scaled, and zeros.\<close>

definition mock_vector :: "(string \<Rightarrow> nat list) \<Rightarrow> nat \<Rightarrow> string \<Rightarrow> real list" where
  "mock_vector hash_bytes d content =
     map (\<lambda>i. if i < 32 then real (hash_bytes content ! (i mod 32)) / 255 else 0) [0..<d]"

text \<open>The outcome of the blocking task: a vector, an error of the model, or a panic.\<close>

datatype embed_result = Embedded "real list" | ModelError string | TaskPanic string

record service_api =
  sa_hash :: "string \<Rightarrow> string"
  sa_hash_bytes :: "string \<Rightarrow> nat list"
  sa_engine :: "(string \<Rightarrow> embed_result) option"

definition service_embed ::
  "'c lru_api \<Rightarrow> service_api \<Rightarrow> embedding_config \<Rightarrow> string \<Rightarrow> 'c embedding_cache \<Rightarrow> real list app_result \<times> 'c embedding_cache" where
  "service_embed api sv cfg content c =
     (let model_ver = repo_id (cf_model cfg)
      in case cache_get api (sa_hash sv) content model_ver c of
           (Some v, c1) \<Rightarrow> (Inr v, c1)
         | (None, c1) \<Rightarrow>
             if cf_model cfg = Mock then
               (let v = mock_vector (sa_hash_bytes sv) (output_dim cfg) content
                in (Inr v, cache_put api (sa_hash sv) content model_ver v c1))
             else
               (case sa_engine sv of
                  None \<Rightarrow> (Inl EmbeddingNotReady, c1)
                | Some engine \<Rightarrow>
                    (case engine content of
                       TaskPanic e \<Rightarrow> (Inl (Internal (''embed task panicked: '' @ e)), c1)
                     | ModelError e \<Rightarrow> (Inl (Embedding e), c1)
                     | Embedded v \<Rightarrow> (Inr v, cache_put api (sa_hash sv) content model_ver v c1))))"

section \<open>Waiting for the model\<close>

datatype load_status = Loading | Ready | LoadError "string option"

text \<open>The status at each poll; a poll that has to wait sleeps for half a second. Times in milliseconds.\<close>

function wait_loop :: "(nat \<Rightarrow> load_status) \<Rightarrow> nat \<Rightarrow> nat \<Rightarrow> bool app_result" where
  "wait_loop status timeout i =
     (case status i of
        Ready \<Rightarrow> Inr True
      | LoadError e \<Rightarrow> Inl (Embedding (''Model load failed: '' @ (case e of Some m \<Rightarrow> m | None \<Rightarrow> [])))
      | Loading \<Rightarrow> if 500 * i \<ge> timeout then Inr False else wait_loop status timeout (i + 1))"
  by pat_completeness auto
termination by (relation "measure (\<lambda>(status, timeout, i). timeout - 500 * i)") auto

declare wait_loop.simps [simp del]

definition wait_for_ready_timeout :: "bool \<Rightarrow> (nat \<Rightarrow> load_status) \<Rightarrow> nat \<Rightarrow> bool app_result" where
  "wait_for_ready_timeout is_ready status timeout = (if is_ready then Inr True else wait_loop status timeout 0)"

section \<open>Properties\<close>

lemma model_name_roundtrip: "model_from_str (model_name m) = Inr m"
  by (induction m) code_simp+

lemma validated_dimension:
  "validate_config c = Inr () \<Longrightarrow> 0 < output_dim c \<and> output_dim c \<le> base_dimensions (cf_model c)"
  by (cases "cf_model c") (auto simp: validate_config_def output_dim_def split: option.splits if_splits)

definition vector_of :: "service_api \<Rightarrow> embedding_config \<Rightarrow> string \<Rightarrow> real list option" where
  "vector_of sv cfg content =
     (if cf_model cfg = Mock then Some (mock_vector (sa_hash_bytes sv) (output_dim cfg) content)
      else (case sa_engine sv of
              None \<Rightarrow> None
            | Some engine \<Rightarrow> (case engine content of Embedded v \<Rightarrow> Some v | _ \<Rightarrow> None)))"

definition sound_cache ::
  "('c \<Rightarrow> string \<Rightarrow> real list option) \<Rightarrow> (string \<Rightarrow> real list option) \<Rightarrow> service_api \<Rightarrow> embedding_config \<Rightarrow> 'c embedding_cache \<Rightarrow> bool" where
  "sound_cache cont vec sv cfg c \<longleftrightarrow>
     (\<forall>content v. cont (ca_cache c) (text_key (sa_hash sv) content (repo_id (cf_model cfg))) = Some v \<longrightarrow> vec content = Some v)"

lemma cache_get_sound:
  assumes "lru_contract api cont" "sound_cache cont vec sv cfg c"
    and "cache_get api (sa_hash sv) content (repo_id (cf_model cfg)) c = (r, c')"
  shows "sound_cache cont vec sv cfg c' \<and> (case r of None \<Rightarrow> True | Some v \<Rightarrow> vec content = Some v)"
proof -
  obtain x l where g: "lru_get api (text_key (sa_hash sv) content (repo_id (cf_model cfg))) (ca_cache c) = (x, l)" by fastforce
  have "x = cont (ca_cache c) (text_key (sa_hash sv) content (repo_id (cf_model cfg)))" "cont l = cont (ca_cache c)"
    using assms(1) g unfolding lru_contract_def by (metis fst_conv, metis snd_conv)
  with assms(2,3) g show ?thesis by (auto simp: cache_get_def sound_cache_def split: option.splits)
qed

lemma cache_put_sound:
  assumes api: "lru_contract api cont" and inj: "inj (sa_hash sv)" and c: "sound_cache cont vec sv cfg c" "vec content = Some v"
  shows "sound_cache cont vec sv cfg (cache_put api (sa_hash sv) content (repo_id (cf_model cfg)) v c)"
  unfolding sound_cache_def
proof (intro allI impI)
  fix other w
  let ?key = "\<lambda>t. text_key (sa_hash sv) t (repo_id (cf_model cfg))"
  assume "cont (ca_cache (cache_put api (sa_hash sv) content (repo_id (cf_model cfg)) v c)) (?key other) = Some w"
  moreover have "cont (lru_put api (?key content) v (ca_cache c)) (?key other) \<in> {((cont (ca_cache c))(?key content \<mapsto> v)) (?key other), None}"
    using api unfolding lru_contract_def by blast
  ultimately have "((cont (ca_cache c))(?key content \<mapsto> v)) (?key other) = Some w" by (simp add: cache_put_def)
  moreover have "?key other = ?key content \<Longrightarrow> other = content"
    using inj by (auto simp: text_key_def dest: injD)
  ultimately show "vec other = Some w" using c by (auto simp: sound_cache_def split: if_splits)
qed

text \<open>The cached embedding of a text is the model's: whatever the cache evicted, a vector that comes back is the
  vector of just this text under the configured model, a failing model caches nothing, and the cache
  stays sound.\<close>
theorem cached_embedding_exact:
  assumes "lru_contract api cont" and "inj (sa_hash sv)" and "sound_cache cont (vector_of sv cfg) sv cfg c"
  shows "case service_embed api sv cfg content c of (r, c') \<Rightarrow>
    sound_cache cont (vector_of sv cfg) sv cfg c' \<and>
    (case r of Inr v \<Rightarrow> vector_of sv cfg content = Some v | Inl e \<Rightarrow> vector_of sv cfg content = None \<and> cont (ca_cache c') = cont (ca_cache c))"
proof -
  obtain r c1 where g: "cache_get api (sa_hash sv) content (repo_id (cf_model cfg)) c = (r, c1)" by fastforce
  note gs = cache_get_sound [OF assms(1,3) g]
  have same: "cont (ca_cache c1) = cont (ca_cache c)"
  proof -
    obtain x l where l: "lru_get api (text_key (sa_hash sv) content (repo_id (cf_model cfg))) (ca_cache c) = (x, l)" by fastforce
    moreover from this have "cont l = cont (ca_cache c)" using assms(1) unfolding lru_contract_def by (metis snd_conv)
    ultimately show ?thesis using g by (auto simp: cache_get_def split: option.splits)
  qed
  show ?thesis
  proof (cases r)
    case (Some v)
    with gs g show ?thesis by (simp add: service_embed_def)
  next
    case None
    note put = cache_put_sound [OF assms(1,2), of "vector_of sv cfg" cfg c1 content]
    show ?thesis
    proof (cases "cf_model cfg = Mock")
      case True
      with None gs g put show ?thesis by (simp add: service_embed_def vector_of_def Let_def)
    next
      case False
      with None gs g put same show ?thesis
        by (auto simp: service_embed_def vector_of_def split: option.split embed_result.split)
    qed
  qed
qed

text \<open>Waiting for the model ends: within one poll more than the timeout has half seconds a call that waits for a
  loading model returns, with the outcome of the first poll that saw the model ready or failed, and
  otherwise with a timeout.\<close>
theorem wait_is_bounded:
  "(\<exists>i\<le>(timeout + 499) div 500. list_all (\<lambda>j. status j = Loading) [0..<i] \<and>
     (case status i of
        Ready \<Rightarrow> wait_for_ready_timeout False status timeout = Inr True
      | LoadError e \<Rightarrow> isl (wait_for_ready_timeout False status timeout)
      | Loading \<Rightarrow> i = (timeout + 499) div 500 \<and> wait_for_ready_timeout False status timeout = Inr False))"
proof -
  define n where "n = (timeout + 499) div 500"
  have "\<exists>i. k \<le> i \<and> i \<le> n \<and> (\<forall>j. k \<le> j \<and> j < i \<longrightarrow> status j = Loading) \<and>
     (case status i of Ready \<Rightarrow> wait_loop status timeout k = Inr True | LoadError e \<Rightarrow> isl (wait_loop status timeout k)
      | Loading \<Rightarrow> i = n \<and> wait_loop status timeout k = Inr False)" if "k \<le> n" for k
    using that
  proof (induction "n - k" arbitrary: k)
    case 0
    then have "k = n" "500 * k \<ge> timeout" unfolding n_def by simp_all
    then show ?case by (intro exI [of _ k]) (auto simp: wait_loop.simps split: load_status.split)
  next
    case (Suc d)
    show ?case
    proof (cases "status k")
      case Loading
      from Suc.hyps(2) have k: "k + 1 \<le> n" "d = n - (k + 1)" by simp_all
      then have "\<not> timeout \<le> 500 * k" unfolding n_def by simp
      then have "wait_loop status timeout k = wait_loop status timeout (k + 1)"
        using Loading by (subst wait_loop.simps) simp
      moreover from Suc.hyps(1) [OF k(2,1)] obtain i where "k + 1 \<le> i" "i \<le> n" "\<forall>j. k + 1 \<le> j \<and> j < i \<longrightarrow> status j = Loading"
          "case status i of Ready \<Rightarrow> wait_loop status timeout (k + 1) = Inr True | LoadError e \<Rightarrow> isl (wait_loop status timeout (k + 1))
           | Loading \<Rightarrow> i = n \<and> wait_loop status timeout (k + 1) = Inr False" by blast
      moreover have "\<forall>j. k \<le> j \<and> j < i \<longrightarrow> status j = Loading"
        using \<open>\<forall>j. k + 1 \<le> j \<and> j < i \<longrightarrow> status j = Loading\<close> Loading by (metis Suc_eq_plus1 Suc_leI le_neq_implies_less)
      ultimately show ?thesis by (intro exI [of _ i]) (cases "status i"; simp)
    qed (use Suc in \<open>auto simp: wait_loop.simps intro!: exI [of _ k]\<close>)
  qed
  from this [of 0] show ?thesis unfolding n_def wait_for_ready_timeout_def
    by (auto simp: list_all_iff)
qed


text \<open>An LRU map of size one, for the witness.\<close>

definition single_lru :: "(string \<times> real list) option lru_api" where
  "single_lru = \<lparr>lru_new = (\<lambda>_. None), lru_get = (\<lambda>k c. (case c of Some (j, v) \<Rightarrow> if j = k then Some v else None | None \<Rightarrow> None, c)),
     lru_put = (\<lambda>k v c. Some (k, v)), lru_len = (\<lambda>c. case c of Some _ \<Rightarrow> 1 | None \<Rightarrow> 0)\<rparr>"

definition single_contents :: "(string \<times> real list) option \<Rightarrow> string \<Rightarrow> real list option" where
  "single_contents c k = (case c of Some (j, v) \<Rightarrow> if j = k then Some v else None | None \<Rightarrow> None)"

lemma single_lru_contract: "lru_contract single_lru single_contents"
  by (auto simp: lru_contract_def single_lru_def single_contents_def fun_eq_iff split: option.split)

definition plain_service :: service_api where
  "plain_service = \<lparr>sa_hash = (\<lambda>s. s), sa_hash_bytes = (\<lambda>_. []), sa_engine = Some (\<lambda>s. Embedded [real (length s)])\<rparr>"

theorem cached_embedding_exact_witness:
  "case service_embed single_lru plain_service embedding_config_default ''ab'' (embedding_cache_new single_lru 1) of (r, c') \<Rightarrow>
     (case r of Inr v \<Rightarrow> Some [2] = Some v | Inl e \<Rightarrow> False)"
proof -
  have "sound_cache single_contents (vector_of plain_service embedding_config_default) plain_service embedding_config_default
      (embedding_cache_new single_lru 1)"
    by (simp add: sound_cache_def embedding_cache_new_def single_lru_def single_contents_def)
  moreover have "vector_of plain_service embedding_config_default ''ab'' = Some [2]"
    by (simp add: vector_of_def plain_service_def embedding_config_default_def)
  moreover have "inj (sa_hash plain_service)" by (simp add: plain_service_def)
  ultimately show ?thesis
    using cached_embedding_exact [OF single_lru_contract, of plain_service embedding_config_default "embedding_cache_new single_lru 1" "''ab''"]
    by (auto split: prod.splits sum.splits)
qed

end
