(* ===== verification/SourceScan.thy ===== *)
theory SourceScan
  imports TextTools ProjectPaths SymbolIndex
begin

text \<open>
  Which files are indexed, and in which language: the rules of \<open>src/codebase/scanner.rs\<close> and the
  chunk types of \<open>src/types/code.rs\<close>. The directory walk of the crate \<open>ignore\<close>, the glob
  matcher of the crate \<open>globset\<close> and the reading of a file are parameters. A path is the text
  that \<open>to_string_lossy\<close> gives.
\<close>

datatype chunk_type = CT_Function | CT_Class | CT_Struct | CT_Module | CT_Impl | CT_Other

datatype language =
    Rust | Python | JavaScript | TypeScript | Go | Java | Dart | LangC | Cpp | Swift | Kotlin
  | ObjectiveC | Unknown

record code_chunk =
  ck_id :: "record_id option"
  ck_file_path :: string
  ck_content :: string
  ck_language :: language
  ck_start_line :: nat
  ck_end_line :: nat
  ck_chunk_type :: chunk_type
  ck_name :: "string option"
  ck_context_path :: "string option"
  ck_embedding :: "real list option"
  ck_content_hash :: string
  ck_project_id :: "string option"
  ck_generation :: "u64 option"
  ck_indexed_at :: datetime

section \<open>File extensions\<close>

text \<open>\<open>Path::extension\<close> of a file name: the text after the last dot that is not the first character.\<close>

definition name_extension :: "string \<Rightarrow> string option" where
  "name_extension name =
     (if name = ''..'' then None
      else case dropWhile (\<lambda>c. c \<noteq> CHR ''.'') (rev name) of
             [] \<Rightarrow> None
           | dot # before \<Rightarrow>
               if before = [] then None else Some (rev (takeWhile (\<lambda>c. c \<noteq> CHR ''.'') (rev name))))"

definition file_extension :: "string \<Rightarrow> string option" where
  "file_extension p =
     (case path_file_name (path_components p) of None \<Rightarrow> None | Some name \<Rightarrow> name_extension name)"

section \<open>Filters\<close>

definition SKIP_DIRS :: "string list" where
  "SKIP_DIRS =
     [''build'', ''dist'', ''out'', ''target'', ''node_modules'', ''.npm'', ''.yarn'', ''.pnp'',
      ''.dart_tool'', ''.pub-cache'', ''.gradle'', ''.android'', ''Pods'', ''.symlinks'',
      ''__pycache__'', ''.venv'', ''venv'', ''.mypy_cache'', ''.pytest_cache'', ''.ruff_cache'',
      ''egg-info'', ''.cargo'', ''.idea'', ''.vscode'', ''.vs'', ''coverage'', ''.nyc_output'',
      ''.terraform'', ''.generated'', ''.next'', ''.nuxt'', ''.svelte-kit'']"

record index_filter_config =
  fi_include_patterns :: "string list"
  fi_exclude_patterns :: "string list"

record compiled_index_filter =
  fc_include_set :: "(string \<Rightarrow> bool) list"
  fc_exclude_set :: "(string \<Rightarrow> bool) list"
  fc_has_includes :: bool

text \<open>\<open>glob\<close> is \<open>Glob::new\<close>: the matcher of a pattern, or the message of the error. The set matches when one of its globs does.\<close>

fun validate_and_build :: "(string \<Rightarrow> string + (string \<Rightarrow> bool)) \<Rightarrow> string list \<Rightarrow> string + (string \<Rightarrow> bool) list" where
  "validate_and_build glob [] = Inr []"
| "validate_and_build glob (pattern # ps) =
     (if CHR 0x5C \<in> set pattern
      then Inl (''invalid glob pattern: '' @ pattern @ '' (use '' @ [CHR 0x27] @ ''/'' @ [CHR 0x27] @ '' path separators)'')
      else if prefix ''/'' pattern
      then Inl (''invalid glob pattern: '' @ pattern @
             '' (patterns must be project-relative, do not start with '' @ [CHR 0x27] @ ''/'' @ [CHR 0x27] @ '')'')
      else case glob pattern of
             Inl e \<Rightarrow> Inl (''invalid glob pattern: '' @ pattern @ '' ('' @ e @ '')'')
           | Inr m \<Rightarrow>
               (case validate_and_build glob ps of Inl e \<Rightarrow> Inl e | Inr ms \<Rightarrow> Inr (m # ms)))"

definition glob_set_match :: "(string \<Rightarrow> bool) list \<Rightarrow> string \<Rightarrow> bool" where
  "glob_set_match gs candidate = list_ex (\<lambda>g. g candidate) gs"

definition compile_filter ::
  "(string \<Rightarrow> string + (string \<Rightarrow> bool)) \<Rightarrow> index_filter_config \<Rightarrow> string + compiled_index_filter" where
  "compile_filter glob c =
     (case validate_and_build glob (fi_include_patterns c) of
        Inl e \<Rightarrow> Inl e
      | Inr include_set \<Rightarrow>
          (case validate_and_build glob (fi_exclude_patterns c) of
             Inl e \<Rightarrow> Inl e
           | Inr exclude_set \<Rightarrow> Inr \<lparr>fc_include_set = include_set, fc_exclude_set = exclude_set,
                                    fc_has_includes = (fi_include_patterns c \<noteq> [])\<rparr>))"

definition accepts_project_relative :: "compiled_index_filter \<Rightarrow> string \<Rightarrow> bool" where
  "accepts_project_relative f candidate =
     (if fc_has_includes f \<and> \<not> glob_set_match (fc_include_set f) candidate then False
      else if glob_set_match (fc_exclude_set f) candidate then False
      else True)"

section \<open>Generated, ignored and code files\<close>

definition generated_source_header_matches :: "string \<Rightarrow> bool" where
  "generated_source_header_matches header =
     (let lower = str_lower header in
      if str_contains lower ''generated by the protocol buffer compiler'' \<or>
         str_contains lower ''generated by the swift generator plugin for the protocol buffer compiler'' \<or>
         str_contains lower ''generated by the swift generator'' \<or>
         str_contains lower ''@generated''
      then True
      else
        (let has_generated_marker =
               str_contains lower ''auto-generated'' \<or> str_contains lower ''automatically generated'' \<or>
               str_contains lower ''this file was generated'' \<or> str_contains lower ''generated code'' \<or>
               str_contains lower ''generated file'' \<or> str_contains lower ''code generated'';
             has_do_not_edit_marker =
               str_contains lower ''do not edit'' \<or> str_contains lower ''do not modify'' \<or>
               str_contains lower ''do not change''
         in has_generated_marker \<and> has_do_not_edit_marker))"

definition GENERATED_SOURCE_HEADER_BYTES :: nat where
  "GENERATED_SOURCE_HEADER_BYTES = 8192"

definition is_generated_source_content :: "string \<Rightarrow> bool" where
  "is_generated_source_content content =
     generated_source_header_matches (take GENERATED_SOURCE_HEADER_BYTES content)"

text \<open>\<open>read_file\<close> gives the bytes of a readable file; one \<open>read\<close> call returns the first of them.\<close>

definition is_generated_source_file :: "(string \<Rightarrow> string option) \<Rightarrow> string \<Rightarrow> bool" where
  "is_generated_source_file read_file p =
     (case read_file p of
        None \<Rightarrow> False
      | Some bytes \<Rightarrow>
          (let buffer = take GENERATED_SOURCE_HEADER_BYTES bytes
           in if buffer = [] then False else generated_source_header_matches buffer))"

definition path_name_lower :: "string \<Rightarrow> string" where
  "path_name_lower p =
     str_lower (case path_file_name (path_components p) of Some n \<Rightarrow> n | None \<Rightarrow> '''')"

definition is_ignored_file :: "string \<Rightarrow> bool" where
  "is_ignored_file p =
     (let path_str = str_lower p; name = path_name_lower p in
      if list_ex (\<lambda>dir. str_contains path_str (''/'' @ dir @ ''/'') \<or>
                        str_contains path_str ([CHR 0x5C] @ dir @ [CHR 0x5C])) SKIP_DIRS then True
      else if prefix ''.'' name \<and> name \<noteq> ''.'' then True
      else if name \<in> {''package-lock.json'', ''yarn.lock'', ''pnpm-lock.yaml'', ''composer.lock'',
                      ''cargo.lock'', ''pubspec.lock'', ''gemfile.lock'', ''poetry.lock''} then True
      else list_ex (\<lambda>s. suffix s name)
             [''.g.dart'', ''.freezed.dart'', ''.gr.dart'', ''.config.dart'', ''.mocks.dart'', ''.arb'',
              ''.pb.swift'', ''.min.js'', ''.min.css'', ''.bundle.js'', ''.map'', ''.d.ts''] \<or>
           str_contains path_str ''/generated/'' \<or>
           str_contains path_str ([CHR 0x5C] @ ''generated'' @ [CHR 0x5C]))"

definition is_code_file :: "string \<Rightarrow> bool" where
  "is_code_file p =
     (case file_extension p of
        None \<Rightarrow> False
      | Some ext \<Rightarrow> str_lower ext \<in>
          {''rs'', ''py'', ''js'', ''ts'', ''jsx'', ''tsx'', ''go'', ''java'', ''dart'', ''c'', ''cpp'',
           ''cc'', ''cxx'', ''h'', ''hpp'', ''hh'', ''hxx'', ''m'', ''mm'', ''rb'', ''php'', ''swift'',
           ''kt'', ''kts'', ''scala'', ''sh'', ''bash'', ''zsh''})"

text \<open>The predicate of \<open>filter_entry\<close>: a directory of this name is not descended into.\<close>

definition prune_directory :: "string \<Rightarrow> bool" where
  "prune_directory name =
     (let name_lower = str_lower name in
      list_ex (\<lambda>d. str_lower d = str_lower name_lower) SKIP_DIRS \<or>
      (prefix ''.'' name \<and> name \<noteq> ''.'' \<and> name \<noteq> ''..''))"

text \<open>
  The loop of \<open>scan_directory_with_filter\<close> over the entries of the walk: path, whether it is a
  file, and the path relative to the root (\<open>None\<close> when \<open>strip_prefix\<close> fails).
\<close>

definition keep_entry ::
  "compiled_index_filter \<Rightarrow> (string \<Rightarrow> string option) \<Rightarrow> string \<times> bool \<times> string option \<Rightarrow> bool" where
  "keep_entry flt read_file = (\<lambda>(p, is_file, relative).
     if is_file \<and> \<not> is_ignored_file p \<and> is_code_file p \<and> \<not> is_generated_source_file read_file p
     then (let project_relative =
                 (case relative of
                    Some r \<Rightarrow> map (\<lambda>c. if c = CHR 0x5C then CHR ''/'' else c) r | None \<Rightarrow> '''')
           in accepts_project_relative flt project_relative)
     else False)"

definition scan_directory_with_filter ::
  "compiled_index_filter \<Rightarrow> (string \<Rightarrow> string option) \<Rightarrow> (string \<times> bool \<times> string option) list \<Rightarrow> string list" where
  "scan_directory_with_filter flt read_file entries =
     map fst (List.filter (keep_entry flt read_file) entries)"

definition default_filter :: compiled_index_filter where
  "default_filter = \<lparr>fc_include_set = [], fc_exclude_set = [], fc_has_includes = False\<rparr>"

definition scan_directory ::
  "(string \<Rightarrow> string option) \<Rightarrow> (string \<times> bool \<times> string option) list \<Rightarrow> string list" where
  "scan_directory read_file entries = scan_directory_with_filter default_filter read_file entries"

section \<open>Languages\<close>

definition language_of_extension :: "string \<Rightarrow> language" where
  "language_of_extension ext =
     (if ext = ''rs'' then Rust
      else if ext = ''py'' then Python
      else if ext \<in> {''js'', ''jsx''} then JavaScript
      else if ext \<in> {''ts'', ''tsx''} then TypeScript
      else if ext = ''go'' then Go
      else if ext = ''java'' then Java
      else if ext = ''dart'' then Dart
      else if ext = ''c'' then LangC
      else if ext \<in> {''cpp'', ''cc'', ''cxx'', ''hpp'', ''hh'', ''hxx''} then Cpp
      else if ext = ''swift'' then Swift
      else if ext \<in> {''kt'', ''kts''} then Kotlin
      else if ext \<in> {''m'', ''mm''} then ObjectiveC
      else Unknown)"

definition detect_language_by_extension :: "string \<Rightarrow> language" where
  "detect_language_by_extension p =
     (case file_extension p of None \<Rightarrow> Unknown | Some ext \<Rightarrow> language_of_extension (str_lower ext))"

definition detect_language :: "string \<Rightarrow> language" where
  "detect_language p = detect_language_by_extension p"

definition detect_header_language :: "string \<Rightarrow> language" where
  "detect_header_language content =
     (if list_ex (str_contains content) [''@interface'', ''@protocol'', ''@class'', ''@implementation''] \<or>
         str_contains content ''#import <Foundation/'' \<or> str_contains content (''#import '' @ [CHR 0x22])
      then ObjectiveC
      else if list_ex (str_contains content)
                [''namespace '', ''template <'', ''class '', ''std::'', ''public:'', ''private:'', ''protected:'']
      then Cpp
      else LangC)"

definition detect_language_with_content :: "string \<Rightarrow> string \<Rightarrow> language" where
  "detect_language_with_content p content =
     (case file_extension p of
        None \<Rightarrow> Unknown
      | Some ext \<Rightarrow>
          if str_lower ext = ''h'' then detect_header_language content
          else detect_language_by_extension p)"

text \<open>\<open>get_language_support\<close>: whether a grammar is linked.\<close>

definition has_language_support :: "language \<Rightarrow> bool" where
  "has_language_support l \<longleftrightarrow> l \<noteq> Unknown"

section \<open>What the rules imply\<close>

text \<open>The names of the skipped directories are in lower case, all but \<open>Pods\<close>.\<close>

lemma skip_dirs_lower: "list_all (\<lambda>d. d = ''Pods'' \<or> str_lower (''/'' @ d @ ''/'') = ''/'' @ d @ ''/'') SKIP_DIRS"
  by code_simp

text \<open>A path that passes through a skipped directory is ignored at any depth, whatever else the path holds.\<close>

lemma skip_dir_paths_ignored:
  assumes "d \<in> set SKIP_DIRS" and "d \<noteq> ''Pods''" and "str_lower dir = d"
  shows "is_ignored_file (pre @ ''/'' @ dir @ ''/'' @ post)"
proof -
  have slash: "str_lower ''/'' = ''/''" by code_simp
  have "str_lower (pre @ ''/'' @ dir @ ''/'' @ post) = str_lower pre @ (''/'' @ d @ ''/'') @ str_lower post"
    using assms(3) slash by (simp only: str_lower_append append_assoc)
  then have "str_contains (str_lower (pre @ ''/'' @ dir @ ''/'' @ post)) (''/'' @ d @ ''/'')"
    by (metis contains_append_mid)
  with assms(1) show ?thesis
    unfolding is_ignored_file_def Let_def by (auto simp: list_ex_iff)
qed

text \<open>The pattern of \<open>Pods\<close> keeps its capital while the path is lowered, so it never matches.\<close>

lemma pods_pattern_never_matches: "\<not> str_contains (str_lower p) (''/'' @ ''Pods'' @ ''/'')"
proof
  assume "str_contains (str_lower p) (''/'' @ ''Pods'' @ ''/'')"
  then have "CHR ''P'' \<in> set (str_lower p)"
    using set_mono_sublist [of "''/'' @ ''Pods'' @ ''/''" "str_lower p"] by auto
  then obtain c where c: "to_ascii_lower c = CHR ''P''" by (auto simp: str_lower_def)
  show False
  proof (cases "is_ascii_upper c")
    case True
    then have "65 \<le> char_code c" "char_code c \<le> 90" by (auto simp: is_ascii_upper_def)
    moreover have "char_code (to_ascii_lower c) = char_code c + 32"
      using True calculation by (simp add: to_ascii_lower_def char_code_def)
    moreover have "char_code (CHR ''P'') = 80" by code_simp
    ultimately show False using c by simp
  next
    case False
    with c have "c = CHR ''P''" by (simp add: to_ascii_lower_def)
    with False show False by (simp add: ascii_defs)
  qed
qed

lemma pods_file_indexed:
  "\<not> is_ignored_file ''/app/Pods/A.swift'' \<and> is_code_file ''/app/Pods/A.swift''"
  by code_simp

text \<open>A file whose extension names a language is a code file.\<close>

lemma detected_language_is_code:
  assumes "detect_language p \<noteq> Unknown" shows "is_code_file p"
  using assms
  unfolding detect_language_def detect_language_by_extension_def language_of_extension_def is_code_file_def
  by (auto split: option.splits if_splits)

text \<open>Every file of a scan passed every rule, and is accepted by the filter; the order is the walk's.\<close>

lemma scanned_file_rules:
  "p \<in> set (scan_directory_with_filter flt read_file entries) \<Longrightarrow>
     \<not> is_ignored_file p \<and> is_code_file p \<and> \<not> is_generated_source_file read_file p"
  by (auto simp: scan_directory_with_filter_def keep_entry_def split: if_splits)

end
