(* ===== verification/Chunker.thy ===== *)
theory Chunker
  imports SourceScan
begin

text \<open>
  Cutting a source file into chunks: \<open>src/codebase/chunker.rs\<close>. The syntax tree of tree-sitter is a
  datatype whose nodes carry kind, byte range, row range and their children with field names; the
  grammar (\<open>parse\<close>: text to tree, \<open>None\<close> where the language cannot be set or the parse fails) and the
  hash function are parameters. Byte offsets index the text. Line numbers are natural numbers
  (the code casts rows to \<open>u32\<close>).
\<close>

definition MAX_CHUNK_CHARS :: nat where "MAX_CHUNK_CHARS = 4000"
definition MIN_CHUNK_CHARS :: nat where "MIN_CHUNK_CHARS = 10"
definition MAX_CHUNK_LINES :: nat where "MAX_CHUNK_LINES = 150"
definition MIN_OTHER_CHUNK_LINES :: nat where "MIN_OTHER_CHUNK_LINES = 3"

datatype ast =
  Ast (a_kind: string) (a_start_byte: nat) (a_end_byte: nat) (a_start_row: nat) (a_end_row: nat)
      (a_children: "(string option \<times> ast) list")

text \<open>What the calls pass along: file, project, language, the text, and the hash and clock.\<close>

record chunk_context =
  cx_file_path :: string
  cx_project_id :: string
  cx_language :: language
  cx_hash :: "string \<Rightarrow> string"
  cx_now :: datetime

definition create_chunk ::
  "chunk_context \<Rightarrow> string \<Rightarrow> nat \<Rightarrow> nat \<Rightarrow> chunk_type \<Rightarrow> string option \<Rightarrow> code_chunk" where
  "create_chunk cx content start_line end_line ty context_path =
     \<lparr>ck_id = None, ck_file_path = cx_file_path cx, ck_content = content, ck_language = cx_language cx,
      ck_start_line = start_line, ck_end_line = end_line, ck_chunk_type = ty, ck_name = None,
      ck_context_path = context_path, ck_embedding = None, ck_content_hash = cx_hash cx content,
      ck_project_id = Some (cx_project_id cx), ck_generation = None, ck_indexed_at = cx_now cx\<rparr>"

section \<open>Chunks of a file without a grammar\<close>

text \<open>The variables of the loop of \<open>chunk_by_structure\<close>.\<close>

record structure_loop =
  sl_chunks :: "code_chunk list"
  sl_current :: string
  sl_start :: nat
  sl_line :: nat

definition structure_flush :: "chunk_context \<Rightarrow> structure_loop \<Rightarrow> structure_loop" where
  "structure_flush cx st =
     st\<lparr>sl_chunks := sl_chunks st @ [create_chunk cx (sl_current st) (sl_start st)
                       (saturating_sub (sl_line st) 1) CT_Other None],
        sl_current := [], sl_start := sl_line st\<rparr>"

definition structure_step :: "chunk_context \<Rightarrow> string \<Rightarrow> structure_loop \<Rightarrow> structure_loop" where
  "structure_step cx para st =
     (let para_lines = length (str_lines para);
          st1 = (if length (sl_current st) + length para > MAX_CHUNK_CHARS \<and> sl_current st \<noteq> []
                 then structure_flush cx st else st);
          current = (if sl_current st1 \<noteq> [] then sl_current st1 @ [newline, newline] else sl_current st1)
      in st1\<lparr>sl_current := current @ para, sl_line := sl_line st1 + (para_lines + 1)\<rparr>)"

definition chunk_by_structure :: "chunk_context \<Rightarrow> string \<Rightarrow> code_chunk list" where
  "chunk_by_structure cx content =
     (let st = fold (structure_step cx) (split_text [newline, newline] [] content)
                 \<lparr>sl_chunks = [], sl_current = [], sl_start = 1, sl_line = 1\<rparr>
      in if length (sl_current st) \<ge> MIN_CHUNK_CHARS
         then sl_chunks st @ [create_chunk cx (sl_current st) (sl_start st) (sl_line st) CT_Other None]
         else sl_chunks st)"

section \<open>Definitions that are too large\<close>

function split_lines_from ::
  "chunk_context \<Rightarrow> nat \<Rightarrow> string option \<Rightarrow> string list \<Rightarrow> nat \<Rightarrow> code_chunk list \<Rightarrow> code_chunk list" where
  "split_lines_from cx base_line context_path ls current_start chunks =
     (if current_start < length ls then
        (let stop = min (current_start + MAX_CHUNK_LINES) (length ls);
             chunk_lines = take (stop - current_start) (drop current_start ls);
             chunk_content = join_text [newline] chunk_lines;
             chunks' = (if length chunk_content \<ge> MIN_CHUNK_CHARS
                        then chunks @ [create_chunk cx chunk_content (base_line + current_start)
                                         (base_line + stop) CT_Other context_path]
                        else chunks)
         in split_lines_from cx base_line context_path ls stop chunks')
      else chunks)"
  by pat_completeness auto
termination
  by (relation "measure (\<lambda>(cx, b, p, ls, s, cs). length ls - s)") (auto simp: MAX_CHUNK_LINES_def)

declare split_lines_from.simps [simp del]

definition split_large_node ::
  "chunk_context \<Rightarrow> string \<Rightarrow> nat \<Rightarrow> string option \<Rightarrow> code_chunk list" where
  "split_large_node cx body base_line context_path =
     split_lines_from cx base_line context_path (str_lines body) 0 []"

section \<open>The walk over the syntax tree\<close>

definition detect_chunk_type :: "string \<Rightarrow> chunk_type" where
  "detect_chunk_type kind =
     (if kind \<in> {''function_item'', ''function_definition'', ''function_declaration'', ''method_definition''}
      then CT_Function
      else if kind \<in> {''struct_item'', ''class_definition'', ''class_declaration''} then CT_Class
      else if kind \<in> {''impl_item'', ''trait_item'', ''interface_declaration''} then CT_Class
      else if kind \<in> {''mod_item'', ''module''} then CT_Module
      else CT_Other)"

definition is_scope_node :: "string \<Rightarrow> bool" where
  "is_scope_node kind \<longleftrightarrow> kind \<in>
     {''impl_item'', ''trait_item'', ''mod_item'', ''module'', ''class_definition'', ''class_declaration'',
      ''class_body'', ''declaration_list'', ''block'', ''namespace_definition'', ''interface_declaration'',
      ''enum_item''}"

definition is_named_scope_for_path :: "string \<Rightarrow> bool" where
  "is_named_scope_for_path kind \<longleftrightarrow> kind \<in>
     {''mod_item'', ''impl_item'', ''trait_item'', ''class_definition'', ''class_declaration'', ''module'',
      ''namespace_definition'', ''interface_declaration'', ''function_item'', ''function_definition'',
      ''method_definition''}"

definition simplify_kind :: "string \<Rightarrow> string" where
  "simplify_kind kind =
     (if kind \<in> {''mod_item'', ''module''} then ''mod''
      else if kind = ''impl_item'' then ''impl''
      else if kind = ''trait_item'' then ''trait''
      else if kind \<in> {''class_definition'', ''class_declaration''} then ''class''
      else if kind \<in> {''function_item'', ''function_definition'', ''method_definition''} then ''fn''
      else if kind = ''namespace_definition'' then ''ns''
      else if kind = ''interface_declaration'' then ''iface''
      else kind)"

text \<open>\<open>str::get\<close> with a range.\<close>

definition text_range :: "string \<Rightarrow> nat \<Rightarrow> nat \<Rightarrow> string option" where
  "text_range s a b = (if a \<le> b \<and> b \<le> length s then Some (take (b - a) (drop a s)) else None)"

definition node_source :: "string \<Rightarrow> ast \<Rightarrow> string option" where
  "node_source s n = text_range s (a_start_byte n) (a_end_byte n)"

definition child_by_field :: "string \<Rightarrow> ast \<Rightarrow> ast option" where
  "child_by_field f n = map_option snd (find (\<lambda>(g, c). g = Some f) (a_children n))"

definition extract_scope_name :: "string \<Rightarrow> ast \<Rightarrow> string option" where
  "extract_scope_name s n =
     (case child_by_field ''name'' n of
        Some name_node \<Rightarrow> node_source s name_node
      | None \<Rightarrow>
          (case (if a_kind n = ''impl_item'' then child_by_field ''type'' n else None) of
             Some type_node \<Rightarrow> node_source s type_node
           | None \<Rightarrow>
               (case find (\<lambda>(g, c). a_kind c = ''identifier'' \<or> a_kind c = ''type_identifier'') (a_children n) of
                  Some (g, c) \<Rightarrow> node_source s c
                | None \<Rightarrow> None)))"

text \<open>The loop over the parents, given innermost first.\<close>

fun path_parts :: "string \<Rightarrow> ast list \<Rightarrow> string list" where
  "path_parts s [] = []"
| "path_parts s (n # ns) =
     (if is_named_scope_for_path (a_kind n)
      then (case extract_scope_name s n of
              Some name \<Rightarrow> [simplify_kind (a_kind n) @ '':'' @ name] | None \<Rightarrow> [])
      else []) @ path_parts s ns"

definition build_context_path :: "string \<Rightarrow> ast list \<Rightarrow> string option" where
  "build_context_path s parents =
     (let parts = path_parts s parents
      in if parts = [] then None else Some (join_text '' > '' (rev parts)))"

text \<open>The parents of the node, innermost first: the node is an item of the file when its parent is the root.\<close>

definition is_chunk_worthy :: "ast list \<Rightarrow> chunk_type \<Rightarrow> bool" where
  "is_chunk_worthy parents ty \<longleftrightarrow> ty \<noteq> CT_Other \<or> (case parents of [] \<Rightarrow> True | p # ps \<Rightarrow> ps = [])"

text \<open>One turn of the loop of \<open>walk_ast_recursive\<close>, for a child and its parents.\<close>

fun walk_child :: "chunk_context \<Rightarrow> string \<Rightarrow> ast list \<Rightarrow> ast \<Rightarrow> code_chunk list" where
  "walk_child cx content parents (Ast kind a b r r' children) =
     (let child = Ast kind a b r r' children;
          node_text = (case text_range content a b of Some t \<Rightarrow> t | None \<Rightarrow> []);
          nested = (if is_scope_node kind
                    then concat (map (\<lambda>(f, c). walk_child cx content (child # parents) c) children)
                    else [])
      in if length node_text < MIN_CHUNK_CHARS then []
         else
           (let ty = detect_chunk_type kind in
            if is_chunk_worthy parents ty then
              (let context_path = build_context_path content parents in
               if length node_text \<le> MAX_CHUNK_CHARS then
                 (if ty = CT_Other \<and> r' - r + 1 < MIN_OTHER_CHUNK_LINES then nested
                  else create_chunk cx node_text (r + 1) (r' + 1) ty context_path # nested)
               else split_large_node cx node_text (r + 1) context_path @ nested)
            else nested))"

definition walk_ast_recursive :: "chunk_context \<Rightarrow> string \<Rightarrow> ast \<Rightarrow> code_chunk list" where
  "walk_ast_recursive cx content tree =
     concat (map (\<lambda>(f, c). walk_child cx content [tree] c) (a_children tree))"

definition chunk_by_ast ::
  "(language \<Rightarrow> string \<Rightarrow> ast option) \<Rightarrow> chunk_context \<Rightarrow> string \<Rightarrow> code_chunk list" where
  "chunk_by_ast parse cx content =
     (case parse (cx_language cx) content of
        None \<Rightarrow> chunk_by_structure cx content
      | Some tree \<Rightarrow>
          (let chunks = walk_ast_recursive cx content tree
           in if chunks = [] then chunk_by_structure cx content else chunks))"

definition chunk_file_for_generation ::
  "(language \<Rightarrow> string \<Rightarrow> ast option) \<Rightarrow> (string \<Rightarrow> string) \<Rightarrow> datetime \<Rightarrow> string \<Rightarrow> string \<Rightarrow> string \<Rightarrow>
     u64 option \<Rightarrow> code_chunk list" where
  "chunk_file_for_generation parse hash now p content project_id generation =
     (let language = detect_language p;
          cx = \<lparr>cx_file_path = p, cx_project_id = project_id, cx_language = language,
                cx_hash = hash, cx_now = now\<rparr>
      in if trim content = [] then []
         else map (ck_generation_update (\<lambda>_. generation))
                (if has_language_support language then chunk_by_ast parse cx content
                 else chunk_by_structure cx content))"

definition chunk_file ::
  "(language \<Rightarrow> string \<Rightarrow> ast option) \<Rightarrow> (string \<Rightarrow> string) \<Rightarrow> datetime \<Rightarrow> string \<Rightarrow> string \<Rightarrow> string \<Rightarrow> code_chunk list" where
  "chunk_file parse hash now p content project_id =
     chunk_file_for_generation parse hash now p content project_id None"

section \<open>No line of a file is lost\<close>

lemma create_chunk_simps [simp]:
  "ck_content (create_chunk cx body a b ty path) = body"
  "ck_chunk_type (create_chunk cx body a b ty path) = ty"
  "ck_start_line (create_chunk cx body a b ty path) = a"
  "ck_end_line (create_chunk cx body a b ty path) = b"
  by (simp_all add: create_chunk_def)

definition lines_so_far :: "structure_loop \<Rightarrow> string list" where
  "lines_so_far st = concat (map (\<lambda>c. full_lines (ck_content c)) (sl_chunks st)) @ full_lines (sl_current st)"

lemma structure_step_lines: "lines_so_far (structure_step cx para st) = lines_so_far st @ full_lines para"
  using full_lines_break [of "sl_current st" para]
  by (auto simp: structure_step_def structure_flush_def lines_so_far_def Let_def)

lemma structure_fold_lines:
  "lines_so_far (fold (structure_step cx) paras st) = lines_so_far st @ concat (map full_lines paras)"
  by (induction paras arbitrary: st) (simp_all add: structure_step_lines)

text \<open>A file without a grammar is cut without loss: its non-empty lines are, in their order, those of
  the chunks followed by those of a rest of fewer than ten characters.
\<close>

theorem structure_chunks_keep_lines:
  "\<exists>rest. length rest < MIN_CHUNK_CHARS \<and>
     full_lines content =
       concat (map (\<lambda>c. full_lines (ck_content c)) (chunk_by_structure cx content)) @ full_lines rest"
proof -
  define st where "st = fold (structure_step cx) (split_text [newline, newline] [] content)
    \<lparr>sl_chunks = [], sl_current = [], sl_start = 1, sl_line = 1\<rparr>"
  have "lines_so_far st = concat (map full_lines (split_text [newline, newline] [] content))"
    unfolding st_def structure_fold_lines by (simp add: lines_so_far_def)
  also have "\<dots> = full_lines content"
    using full_lines_join [of "split_text [newline, newline] [] content"]
    by (simp add: join_split_text)
  finally have all: "lines_so_far st = full_lines content" .
  have chunks: "chunk_by_structure cx content =
      (if length (sl_current st) \<ge> MIN_CHUNK_CHARS
       then sl_chunks st @ [create_chunk cx (sl_current st) (sl_start st) (sl_line st) CT_Other None]
       else sl_chunks st)"
    unfolding chunk_by_structure_def st_def Let_def ..
  show ?thesis
  proof (cases "MIN_CHUNK_CHARS \<le> length (sl_current st)")
    case True
    then show ?thesis using all unfolding chunks
      by (intro exI [of _ "[]"]) (simp add: lines_so_far_def MIN_CHUNK_CHARS_def)
  next
    case False
    then show ?thesis using all unfolding chunks
      by (intro exI [of _ "sl_current st"]) (simp add: lines_so_far_def)
  qed
qed

text \<open>The line range of the last chunk runs past the end of the file, here a file of one line.\<close>

lemma structure_end_line_past_file:
  "map (\<lambda>c. (ck_start_line c, ck_end_line c))
     (chunk_by_structure \<lparr>cx_file_path = ''a.sh'', cx_project_id = ''p'', cx_language = Unknown,
        cx_hash = (\<lambda>s. s), cx_now = 0\<rparr> ''echo hello'') = [(1, 3)] \<and> length (str_lines ''echo hello'') = 1"
  by code_simp

text \<open>
  A chunk of a file without a grammar has at most two characters more than the maximum (the separator
  is not counted), or is a single paragraph, which is never divided.
\<close>

theorem structure_chunk_bounds:
  "\<forall>c \<in> set (chunk_by_structure cx content).
     length (ck_content c) \<le> MAX_CHUNK_CHARS + 2 \<or>
     ck_content c \<in> set (split_text [newline, newline] [] content)"
proof -
  define ok where "ok ps s \<longleftrightarrow> length s \<le> MAX_CHUNK_CHARS + 2 \<or> s \<in> set ps" for ps :: "string list" and s
  define inv where "inv ps st \<longleftrightarrow> ok ps (sl_current st) \<and> (\<forall>c \<in> set (sl_chunks st). ok ps (ck_content c))"
    for ps :: "string list" and st :: structure_loop
  have step: "inv ps (structure_step cx para st)" if "inv ps st" "para \<in> set ps" for ps para st
    using that by (auto simp: inv_def ok_def structure_step_def structure_flush_def Let_def)
  have run: "inv ps (fold (structure_step cx) paras st)" if "inv ps st" "set paras \<subseteq> set ps" for ps paras st
    using that by (induction paras arbitrary: st) (auto intro: step)
  have "inv ps (fold (structure_step cx) ps \<lparr>sl_chunks = [], sl_current = [], sl_start = 1, sl_line = 1\<rparr>)" for ps
    by (rule run) (simp_all add: inv_def ok_def)
  then have "\<forall>c \<in> set (chunk_by_structure cx content). ok (split_text [newline, newline] [] content) (ck_content c)"
    unfolding chunk_by_structure_def Let_def inv_def by auto
  then show ?thesis by (simp add: ok_def)
qed

section \<open>The windows of a large definition\<close>

text \<open>The reference: the \<open>i\<close>-th window of 150 lines.\<close>

definition line_window :: "string list \<Rightarrow> nat \<Rightarrow> string list" where
  "line_window ls i = take MAX_CHUNK_LINES (drop (MAX_CHUNK_LINES * i) ls)"

definition window_count :: "string list \<Rightarrow> nat" where
  "window_count ls = (length ls + (MAX_CHUNK_LINES - 1)) div MAX_CHUNK_LINES"

definition window_chunk :: "chunk_context \<Rightarrow> nat \<Rightarrow> string option \<Rightarrow> string list \<Rightarrow> nat \<Rightarrow> code_chunk" where
  "window_chunk cx base context_path ls i =
     create_chunk cx (join_text [newline] (line_window ls i)) (base + MAX_CHUNK_LINES * i)
       (base + min (MAX_CHUNK_LINES * Suc i) (length ls)) CT_Other context_path"

lemma window_count_less: "MAX_CHUNK_LINES * i < length ls \<longleftrightarrow> i < window_count ls"
proof -
  have "i < window_count ls \<longleftrightarrow> Suc i * 150 \<le> length ls + 149"
    unfolding window_count_def MAX_CHUNK_LINES_def Suc_le_eq [symmetric]
    by (subst less_eq_div_iff_mult_less_eq) simp_all
  then show ?thesis by (simp add: MAX_CHUNK_LINES_def) linarith
qed

lemma split_lines_from_windows:
  "split_lines_from cx base path ls (min (MAX_CHUNK_LINES * i) (length ls)) chunks =
     chunks @ filter (\<lambda>c. MIN_CHUNK_CHARS \<le> length (ck_content c))
                (map (window_chunk cx base path ls) [i..<window_count ls])"
proof (induction "window_count ls - i" arbitrary: i chunks)
  case 0
  then have "\<not> i < window_count ls" by simp
  then have "\<not> MAX_CHUNK_LINES * i < length ls" by (simp add: window_count_less)
  with 0 show ?case by (subst split_lines_from.simps) simp
next
  case (Suc k)
  then have i: "i < window_count ls" by simp
  then have less: "MAX_CHUNK_LINES * i < length ls" by (simp add: window_count_less)
  have stop: "min (MAX_CHUNK_LINES * i + MAX_CHUNK_LINES) (length ls) = min (MAX_CHUNK_LINES * Suc i) (length ls)"
    by (simp add: algebra_simps)
  have window: "take (min (MAX_CHUNK_LINES * Suc i) (length ls) - MAX_CHUNK_LINES * i)
                  (drop (MAX_CHUNK_LINES * i) ls) = line_window ls i"
    by (auto simp: line_window_def min_def)
  have range: "[i..<window_count ls] = i # [Suc i..<window_count ls]"
    using i by (rule upt_conv_Cons)
  have "k = window_count ls - Suc i" using Suc.hyps(2) by simp
  note IH = Suc.hyps(1) [OF this]
  have start: "min (MAX_CHUNK_LINES * i) (length ls) = MAX_CHUNK_LINES * i" using less by simp
  have "split_lines_from cx base path ls (MAX_CHUNK_LINES * i) chunks =
    split_lines_from cx base path ls (min (MAX_CHUNK_LINES * Suc i) (length ls))
      (if MIN_CHUNK_CHARS \<le> length (join_text [newline] (line_window ls i))
       then chunks @ [window_chunk cx base path ls i] else chunks)"
    using less by (subst split_lines_from.simps) (simp only: if_True Let_def stop window window_chunk_def)
  then show ?case
    unfolding start IH range by (simp add: window_chunk_def)
qed

lemma concat_windows: "concat (map (line_window ls) [0..<k]) = take (MAX_CHUNK_LINES * k) ls"
proof (induction k)
  case (Suc k)
  then show ?case by (simp add: line_window_def take_add [symmetric] add.commute)
qed simp

lemma large_node_windows_eq:
  "split_large_node cx body base path =
     filter (\<lambda>c. MIN_CHUNK_CHARS \<le> length (ck_content c))
       (map (window_chunk cx base path (str_lines body)) [0..<window_count (str_lines body)])"
  using split_lines_from_windows [of cx base path "str_lines body" 0 "[]"]
  by (simp add: split_large_node_def)

text \<open>A definition of more than 4000 characters becomes its consecutive windows of at most 150 lines: the
  windows make up all its lines, each window of ten characters or more is a chunk, and a chunk starts on
  its first line. The end line it carries is the line after its last one.
\<close>

theorem large_node_windows:
  "split_large_node cx body base path =
     filter (\<lambda>c. MIN_CHUNK_CHARS \<le> length (ck_content c))
       (map (window_chunk cx base path (str_lines body)) [0..<window_count (str_lines body)]) \<and>
   concat (map (line_window (str_lines body)) [0..<window_count (str_lines body)]) = str_lines body"
proof (rule conjI [OF large_node_windows_eq])
  have "length (str_lines body) \<le> MAX_CHUNK_LINES * window_count (str_lines body)"
    using window_count_less [of "window_count (str_lines body)" "str_lines body"] by simp
  then show "concat (map (line_window (str_lines body)) [0..<window_count (str_lines body)]) = str_lines body"
    by (simp add: concat_windows)
qed

section \<open>Which definitions become chunks\<close>

definition node_text :: "string \<Rightarrow> ast \<Rightarrow> string" where
  "node_text content n = (case node_source content n of Some t \<Rightarrow> t | None \<Rightarrow> [])"

text \<open>The nodes the walk visits: a child is entered through scope nodes of ten characters or more.\<close>

inductive visited :: "string \<Rightarrow> ast list \<Rightarrow> ast \<Rightarrow> ast list \<Rightarrow> ast \<Rightarrow> bool" for content :: string where
  visited_here: "visited content parents n parents n"
| visited_nested: "visited content parents n parents' n'"
    if "is_scope_node (a_kind n)" "MIN_CHUNK_CHARS \<le> length (node_text content n)"
      "(f, c) \<in> set (a_children n)" "visited content (n # parents) c parents' n'"

definition walked :: "string \<Rightarrow> ast \<Rightarrow> ast list \<Rightarrow> ast \<Rightarrow> bool" where
  "walked content tree parents n \<longleftrightarrow> (\<exists>f c. (f, c) \<in> set (a_children tree) \<and> visited content [tree] c parents n)"

inductive_simps visited_step: "visited content parents n parents' n'"

text \<open>The chunks of one node by itself.\<close>

definition own_chunks :: "chunk_context \<Rightarrow> string \<Rightarrow> ast list \<Rightarrow> ast \<Rightarrow> code_chunk list" where
  "own_chunks cx content parents n =
     (let body = node_text content n; ty = detect_chunk_type (a_kind n); path = build_context_path content parents in
      if MIN_CHUNK_CHARS \<le> length body \<and> is_chunk_worthy parents ty then
        (if length body \<le> MAX_CHUNK_CHARS then
           (if ty = CT_Other \<and> a_end_row n - a_start_row n + 1 < MIN_OTHER_CHUNK_LINES then []
            else [create_chunk cx body (a_start_row n + 1) (a_end_row n + 1) ty path])
         else split_large_node cx body (a_start_row n + 1) path)
      else [])"

lemma walk_child_split:
  "walk_child cx content parents n =
     (if length (node_text content n) < MIN_CHUNK_CHARS then []
      else own_chunks cx content parents n @
        (if is_scope_node (a_kind n)
         then concat (map (\<lambda>(f, c). walk_child cx content (n # parents) c) (a_children n)) else []))"
proof (cases n)
  case (Ast kind a b r r' children)
  then show ?thesis
    by (simp add: own_chunks_def node_text_def node_source_def Let_def linorder_not_less)
qed

declare walk_child.simps [simp del]

lemma own_chunks_short: "length (node_text content n) < MIN_CHUNK_CHARS \<Longrightarrow> own_chunks cx content parents n = []"
  by (simp add: own_chunks_def Let_def)

lemma walk_child_sound:
  "x \<in> set (walk_child cx content parents n) \<Longrightarrow>
     \<exists>parents' n'. visited content parents n parents' n' \<and> x \<in> set (own_chunks cx content parents' n')"
proof (induction n arbitrary: parents)
  case (Ast kind a b r r' children)
  let ?n = "Ast kind a b r r' children"
  from Ast.prems have long: "MIN_CHUNK_CHARS \<le> length (node_text content ?n)"
    by (subst (asm) walk_child_split) (auto split: if_splits)
  from Ast.prems consider (own) "x \<in> set (own_chunks cx content parents ?n)"
    | (nested) f c where "is_scope_node kind" "(f, c) \<in> set children" "x \<in> set (walk_child cx content (?n # parents) c)"
    by (subst (asm) walk_child_split) (auto split: if_splits)
  then show ?case
  proof cases
    case own
    then show ?thesis using visited_here by blast
  next
    case (nested f c)
    have "c \<in> Basic_BNFs.snds (f, c)" by (simp add: snds.intros)
    from Ast.IH [OF nested(2) this nested(3)]
    obtain parents' n' where "visited content (?n # parents) c parents' n'"
      and own: "x \<in> set (own_chunks cx content parents' n')" by blast
    with nested(1,2) long have "visited content parents ?n parents' n'"
      using visited_nested [of ?n content f c parents parents' n'] by simp
    with own show ?thesis by blast
  qed
qed

lemma walk_child_complete:
  "visited content parents n parents' n' \<Longrightarrow>
     set (own_chunks cx content parents' n') \<subseteq> set (walk_child cx content parents n)"
proof (induction rule: visited.induct)
  case (visited_here parents n)
  then show ?case
    by (subst walk_child_split) (auto simp: own_chunks_short)
next
  case (visited_nested n f c parents parents' n')
  then show ?case by (subst walk_child_split) fastforce
qed

lemma walk_set:
  "set (walk_ast_recursive cx content tree) =
     {x. \<exists>parents n. walked content tree parents n \<and> x \<in> set (own_chunks cx content parents n)}"
  unfolding walk_ast_recursive_def walked_def
  using walk_child_sound walk_child_complete by fastforce

lemma split_large_node_other: "x \<in> set (split_large_node cx body base path) \<Longrightarrow> ck_chunk_type x = CT_Other"
  unfolding large_node_windows_eq by (auto simp: window_chunk_def)

text \<open>C19: The chunks of functions, classes and modules are exactly the definitions that the walk reaches and whose
  text has between 10 and 4000 characters: each carries the text of its node, its first and last
  line, the type of its kind and the path of the named scopes around it.
\<close>

theorem definition_chunks_exact:
  "(x \<in> set (walk_ast_recursive cx content tree) \<and> ck_chunk_type x \<noteq> CT_Other) =
     (\<exists>parents n. walked content tree parents n \<and>
        MIN_CHUNK_CHARS \<le> length (node_text content n) \<and> length (node_text content n) \<le> MAX_CHUNK_CHARS \<and>
        detect_chunk_type (a_kind n) \<noteq> CT_Other \<and>
        x = create_chunk cx (node_text content n) (a_start_row n + 1) (a_end_row n + 1)
              (detect_chunk_type (a_kind n)) (build_context_path content parents))"
proof -
  have own: "(x \<in> set (own_chunks cx content parents n) \<and> ck_chunk_type x \<noteq> CT_Other) =
     (MIN_CHUNK_CHARS \<le> length (node_text content n) \<and> length (node_text content n) \<le> MAX_CHUNK_CHARS \<and>
        detect_chunk_type (a_kind n) \<noteq> CT_Other \<and>
        x = create_chunk cx (node_text content n) (a_start_row n + 1) (a_end_row n + 1)
              (detect_chunk_type (a_kind n)) (build_context_path content parents))" for parents n
    using split_large_node_other [of x cx "node_text content n"]
    by (auto simp: own_chunks_def Let_def is_chunk_worthy_def split: if_splits)
  show ?thesis unfolding walk_set mem_Collect_eq using own by blast
qed

section \<open>What every chunk carries\<close>

definition stamped :: "chunk_context \<Rightarrow> code_chunk \<Rightarrow> bool" where
  "stamped cx c \<longleftrightarrow> ck_id c = None \<and> ck_file_path c = cx_file_path cx \<and> ck_project_id c = Some (cx_project_id cx) \<and>
     ck_language c = cx_language cx \<and> ck_content_hash c = cx_hash cx (ck_content c) \<and> ck_embedding c = None"

lemma create_chunk_stamped [simp]: "stamped cx (create_chunk cx body a b ty path)"
  by (simp add: stamped_def create_chunk_def)

lemma structure_stamped: "list_all (stamped cx) (chunk_by_structure cx content)"
proof -
  have step: "list_all (stamped cx) (sl_chunks (structure_step cx para st))" if "list_all (stamped cx) (sl_chunks st)"
    for para and st :: structure_loop
    using that by (auto simp: structure_step_def structure_flush_def Let_def)
  have "list_all (stamped cx) (sl_chunks st) \<Longrightarrow> list_all (stamped cx) (sl_chunks (fold (structure_step cx) paras st))"
    for paras and st :: structure_loop
    by (induction paras arbitrary: st) (simp_all add: step)
  from this [of "\<lparr>sl_chunks = [], sl_current = [], sl_start = 1, sl_line = 1\<rparr>"] show ?thesis
    unfolding chunk_by_structure_def Let_def by simp
qed

lemma windows_stamped: "list_all (stamped cx) (split_large_node cx body base path)"
  unfolding large_node_windows_eq by (auto simp: list_all_iff window_chunk_def)

lemma own_chunks_stamped: "list_all (stamped cx) (own_chunks cx content parents n)"
  using windows_stamped by (simp add: own_chunks_def Let_def)

lemma chunk_file_stamped:
  "list_all (\<lambda>c. ck_id c = None \<and> ck_file_path c = file_path \<and> ck_project_id c = Some p \<and> ck_generation c = g \<and>
     ck_content_hash c = hash (ck_content c))
     (chunk_file_for_generation parse hash now file_path content p g)"
proof -
  let ?cx = "\<lparr>cx_file_path = file_path, cx_project_id = p, cx_language = detect_language file_path,
                cx_hash = hash, cx_now = now\<rparr>"
  have walk: "list_all (stamped ?cx) (walk_ast_recursive ?cx content tree)" for tree
    using walk_set [of ?cx content tree] own_chunks_stamped by (fastforce simp: list_all_iff)
  have "list_all (stamped ?cx) (chunk_by_ast parse ?cx content)"
    using walk structure_stamped by (simp add: chunk_by_ast_def Let_def split: option.split)
  with structure_stamped have "list_all (stamped ?cx)
      (if has_language_support (detect_language file_path) then chunk_by_ast parse ?cx content
       else chunk_by_structure ?cx content)" by simp
  then show ?thesis
    by (simp add: chunk_file_for_generation_def Let_def list.pred_map) (simp add: list_all_iff stamped_def)
qed

end
