(* ===== verification/CodeStore.thy ===== *)
theory CodeStore
  imports SourceScan GraphTypes ThingId IndexJobs
begin

text \<open>
  The tables of the code index and the queries on them: \<open>src/storage/surrealdb/code_ops.rs\<close>,
  \<open>symbol_ops.rs\<close> and \<open>manifest_ops.rs\<close>. A table is the list of its rows in scan order (a new row is the
  last one) or, where the query names the row by its key, a map. \<open>gen\<close> gives the \<open>n\<close>-th id of
  \<open>generate_id\<close>, \<open>h\<close> is the hash of a symbol key and \<open>b3\<close> the digest of the checkpoint ids.
  Generations are below \<open>2 ^ 63\<close> (the code casts them to \<open>i64\<close>). Failures of the database itself are
  parameters of the callers.
\<close>

record code_db =
  cd_chunks :: "code_chunk list"
  cd_symbols :: "code_symbol list"
  cd_relations :: "symbol_relation list"
  cd_hashes :: "(string \<times> string, string) hmap"
  cd_manifest :: "(string \<times> string, datetime) hmap"
  cd_active :: "(string, u64) hmap"
  cd_serving :: "(string \<times> string, u64) hmap"
  cd_indexing :: "(string, u64) hmap"
  cd_status :: "(string, index_status) hmap"
  cd_jobs :: "(string, index_job) hmap"
  cd_checkpoints :: "(string, file_checkpoint) hmap"
  cd_next :: nat

definition code_db_empty :: code_db where
  "code_db_empty = \<lparr>cd_chunks = [], cd_symbols = [], cd_relations = [], cd_hashes = [], cd_manifest = [],
     cd_active = [], cd_serving = [], cd_indexing = [], cd_status = [], cd_jobs = [], cd_checkpoints = [],
     cd_next = 0\<rparr>"

section \<open>Chunks\<close>

text \<open>\<open>ACTIVE_GENERATION_FILTER\<close>.\<close>

definition generation_visible :: "u64 option \<Rightarrow> u64 option \<Rightarrow> bool" where
  "generation_visible active g \<longleftrightarrow> active = None \<or> g = active \<or> g = None"

definition with_chunk_id :: "(nat \<Rightarrow> string) \<Rightarrow> nat \<Rightarrow> code_chunk \<Rightarrow> code_chunk" where
  "with_chunk_id gen n c = c\<lparr>ck_id := Some \<lparr>rid_table = ''code_chunks'', rid_key = gen n\<rparr>\<rparr>"

fun assign_chunk_ids :: "(nat \<Rightarrow> string) \<Rightarrow> nat \<Rightarrow> code_chunk list \<Rightarrow> code_chunk list \<times> nat" where
  "assign_chunk_ids gen n [] = ([], n)"
| "assign_chunk_ids gen n (c # cs) =
     (if ck_id c = None
      then (case assign_chunk_ids gen (Suc n) cs of (cs', n') \<Rightarrow> (with_chunk_id gen n c # cs', n'))
      else (case assign_chunk_ids gen n cs of (cs', n') \<Rightarrow> (c # cs', n')))"

definition create_code_chunk :: "(nat \<Rightarrow> string) \<Rightarrow> code_chunk \<Rightarrow> code_db \<Rightarrow> string \<times> code_db" where
  "create_code_chunk gen c db =
     (gen (cd_next db),
      db\<lparr>cd_chunks := cd_chunks db @ [with_chunk_id gen (cd_next db) c], cd_next := Suc (cd_next db)\<rparr>)"

definition chunk_record_string :: "record_id \<Rightarrow> string" where
  "chunk_record_string t = rid_table t @ '':'' @ rid_key t"

definition create_code_chunks_batch ::
  "(nat \<Rightarrow> string) \<Rightarrow> code_chunk list \<Rightarrow> code_db \<Rightarrow> (string \<times> code_chunk) list \<times> code_db" where
  "create_code_chunks_batch gen chunks db =
     (if chunks = [] then ([], db)
      else
        (case assign_chunk_ids gen (cd_next db) chunks of
           (created, n) \<Rightarrow>
             (List.map_filter (\<lambda>c. map_option (\<lambda>t. (chunk_record_string t, c)) (ck_id c)) created,
              db\<lparr>cd_chunks := cd_chunks db @ created, cd_next := n\<rparr>)))"

definition count_chunks :: "string \<Rightarrow> u64 option \<Rightarrow> code_db \<Rightarrow> nat" where
  "count_chunks p active db =
     length (filter (\<lambda>c. ck_project_id c = Some p \<and> generation_visible active (ck_generation c)) (cd_chunks db))"

definition delete_project_chunks :: "string \<Rightarrow> code_db \<Rightarrow> nat \<times> code_db" where
  "delete_project_chunks p db =
     (count_chunks p None db, db\<lparr>cd_chunks := filter (\<lambda>c. ck_project_id c \<noteq> Some p) (cd_chunks db)\<rparr>)"

definition chunk_at :: "string \<Rightarrow> string \<Rightarrow> code_chunk \<Rightarrow> bool" where
  "chunk_at p f c \<longleftrightarrow> ck_project_id c = Some p \<and> ck_file_path c = f"

definition delete_chunks_by_path :: "string \<Rightarrow> string \<Rightarrow> code_db \<Rightarrow> nat \<times> code_db" where
  "delete_chunks_by_path p f db =
     (length (filter (chunk_at p f) (cd_chunks db)),
      db\<lparr>cd_chunks := filter (\<lambda>c. \<not> chunk_at p f c) (cd_chunks db)\<rparr>)"

definition get_chunks_by_path :: "string \<Rightarrow> string \<Rightarrow> u64 option \<Rightarrow> code_db \<Rightarrow> code_chunk list" where
  "get_chunks_by_path p f active db =
     filter (\<lambda>c. chunk_at p f c \<and> generation_visible active (ck_generation c)) (cd_chunks db)"

definition omit_embedding :: "code_chunk \<Rightarrow> code_chunk" where
  "omit_embedding c = c\<lparr>ck_embedding := None\<rparr>"

definition get_all_chunks_for_project :: "string \<Rightarrow> u64 option \<Rightarrow> code_db \<Rightarrow> code_chunk list" where
  "get_all_chunks_for_project p active db =
     map omit_embedding
       (filter (\<lambda>c. ck_project_id c = Some p \<and> generation_visible active (ck_generation c)) (cd_chunks db))"

definition get_chunks_paginated ::
  "string \<Rightarrow> u64 option \<Rightarrow> nat \<Rightarrow> nat \<Rightarrow> code_db \<Rightarrow> code_chunk list" where
  "get_chunks_paginated p active limit offset db =
     take limit (drop offset (map omit_embedding
       (filter (\<lambda>c. ck_project_id c = Some p \<and> generation_visible active (ck_generation c)) (cd_chunks db))))"

definition get_chunks_by_ids :: "string list \<Rightarrow> u64 option \<Rightarrow> code_db \<Rightarrow> code_chunk list" where
  "get_chunks_by_ids ids active db =
     (if ids = [] then []
      else filter (\<lambda>c. generation_visible active (ck_generation c))
             (concat (map (\<lambda>i. filter (\<lambda>c. ck_id c = Some \<lparr>rid_table = ''code_chunks'', rid_key = i\<rparr>)
                                 (cd_chunks db)) ids)))"

definition update_chunk_embedding :: "string \<Rightarrow> real list \<Rightarrow> code_db \<Rightarrow> code_db" where
  "update_chunk_embedding i v db =
     db\<lparr>cd_chunks := map (\<lambda>c. if map_option chunk_record_string (ck_id c) = Some i
                              then c\<lparr>ck_embedding := Some v\<rparr> else c) (cd_chunks db)\<rparr>"

definition batch_update_chunk_embeddings :: "(string \<times> real list) list \<Rightarrow> code_db \<Rightarrow> code_db" where
  "batch_update_chunk_embeddings updates db = fold (\<lambda>(i, v). update_chunk_embedding i v) updates db"

definition count_embedded_chunks :: "string \<Rightarrow> u64 option \<Rightarrow> code_db \<Rightarrow> nat" where
  "count_embedded_chunks p active db =
     length (filter (\<lambda>c. ck_project_id c = Some p \<and> (ck_embedding c \<noteq> None \<or> length (ck_content c) < 50) \<and>
                         generation_visible active (ck_generation c)) (cd_chunks db))"

definition get_unembedded_chunks :: "string \<Rightarrow> code_db \<Rightarrow> (string \<times> string) list" where
  "get_unembedded_chunks p db =
     List.map_filter (\<lambda>c. map_option (\<lambda>t. (chunk_record_string t, ck_content c)) (ck_id c))
       (filter (\<lambda>c. ck_project_id c = Some p \<and> ck_embedding c = None \<and> length (ck_content c) \<ge> 50) (cd_chunks db))"

section \<open>Symbols\<close>

type_synonym symbol_hasher = "string \<times> string \<times> string \<times> u32 \<Rightarrow> u64"

definition symbol_rid :: "symbol_hasher \<Rightarrow> code_symbol \<Rightarrow> record_id" where
  "symbol_rid h s = \<lparr>rid_table = ''code_symbols'', rid_key = symbol_unique_key h s\<rparr>"

text \<open>\<open>$input.x OR NONE\<close>: an empty text, an empty list and zero are falsy.\<close>

definition or_none :: "('a \<Rightarrow> bool) \<Rightarrow> 'a option \<Rightarrow> 'a option" where
  "or_none falsy x = (case x of None \<Rightarrow> None | Some v \<Rightarrow> if falsy v then None else Some v)"

definition upsert_symbol :: "symbol_hasher \<Rightarrow> datetime \<Rightarrow> code_symbol list \<Rightarrow> code_symbol \<Rightarrow> code_symbol list" where
  "upsert_symbol h now rows s =
     (let i = symbol_rid h s in
      if list_ex (\<lambda>r. s_id r = Some i) rows
      then map (\<lambda>r. if s_id r = Some i
             then s\<lparr>s_id := Some i, s_signature := or_none (\<lambda>v. v = []) (s_signature s),
                    s_embedding := or_none (\<lambda>v. v = []) (s_embedding s),
                    s_generation := or_none (\<lambda>v. v = 0) (s_generation s), s_indexed_at := now\<rparr>
             else r) rows
      else rows @ [s\<lparr>s_id := Some i, s_indexed_at := now\<rparr>])"

definition create_code_symbols_batch ::
  "symbol_hasher \<Rightarrow> datetime \<Rightarrow> code_symbol list \<Rightarrow> code_db \<Rightarrow> string list \<times> code_db" where
  "create_code_symbols_batch h now syms db =
     (if syms = [] then ([], db)
      else (map (\<lambda>s. ''code_symbols:'' @ symbol_unique_key h s) syms,
            db\<lparr>cd_symbols := foldl (upsert_symbol h now) (cd_symbols db) syms\<rparr>))"

definition symbol_at :: "string \<Rightarrow> string \<Rightarrow> code_symbol \<Rightarrow> bool" where
  "symbol_at p f s \<longleftrightarrow> s_project_id s = p \<and> s_file_path s = f"

definition create_symbol_relations_batch :: "symbol_relation list \<Rightarrow> code_db \<Rightarrow> nat \<times> code_db" where
  "create_symbol_relations_batch rels db =
     (length rels, if rels = [] then db else db\<lparr>cd_relations := cd_relations db @ rels\<rparr>)"

definition delete_project_symbols :: "string \<Rightarrow> code_db \<Rightarrow> code_db" where
  "delete_project_symbols p db =
     db\<lparr>cd_relations := filter (\<lambda>r. sl_project_id r \<noteq> p) (cd_relations db),
        cd_symbols := filter (\<lambda>s. s_project_id s \<noteq> p) (cd_symbols db)\<rparr>"

definition delete_symbols_by_path :: "string \<Rightarrow> string \<Rightarrow> code_db \<Rightarrow> code_db" where
  "delete_symbols_by_path p f db =
     (let ids = set (map s_id (filter (symbol_at p f) (cd_symbols db)))
      in db\<lparr>cd_relations := filter (\<lambda>r. \<not> (Some (sl_from_symbol r) \<in> ids \<or> Some (sl_to_symbol r) \<in> ids)) (cd_relations db),
            cd_symbols := filter (\<lambda>s. \<not> symbol_at p f s) (cd_symbols db)\<rparr>)"

definition get_project_symbols :: "string \<Rightarrow> u64 option \<Rightarrow> code_db \<Rightarrow> code_symbol list" where
  "get_project_symbols p active db =
     filter (\<lambda>s. s_project_id s = p \<and> generation_visible active (s_generation s)) (cd_symbols db)"

definition count_symbols :: "string \<Rightarrow> u64 option \<Rightarrow> code_db \<Rightarrow> nat" where
  "count_symbols p active db = length (get_project_symbols p active db)"

definition count_embedded_symbols :: "string \<Rightarrow> u64 option \<Rightarrow> code_db \<Rightarrow> nat" where
  "count_embedded_symbols p active db =
     length (filter (\<lambda>s. s_embedding s \<noteq> None) (get_project_symbols p active db))"

definition symbol_embed_text :: "code_symbol \<Rightarrow> string" where
  "symbol_embed_text s =
     (case s_signature s of Some sig \<Rightarrow> sig
      | None \<Rightarrow> symbol_type_display (s_symbol_type s) @ '' '' @ s_name s)"

definition get_unembedded_symbols :: "string \<Rightarrow> code_db \<Rightarrow> (string \<times> string) list" where
  "get_unembedded_symbols p db =
     List.map_filter (\<lambda>s. map_option (\<lambda>t. (chunk_record_string t, symbol_embed_text s)) (s_id s))
       (filter (\<lambda>s. s_project_id s = p \<and> s_embedding s = None) (cd_symbols db))"

definition find_symbols_by_names :: "string \<Rightarrow> string list \<Rightarrow> code_db \<Rightarrow> code_symbol list" where
  "find_symbols_by_names p names db =
     (if names = [] then [] else filter (\<lambda>s. s_project_id s = p \<and> s_name s \<in> set names) (cd_symbols db))"

definition find_symbol_by_name :: "string \<Rightarrow> string \<Rightarrow> code_db \<Rightarrow> code_symbol option" where
  "find_symbol_by_name p name db = find (\<lambda>s. s_project_id s = p \<and> s_name s = name) (cd_symbols db)"

definition find_symbol_by_name_with_context :: "string \<Rightarrow> string \<Rightarrow> string option \<Rightarrow> code_db \<Rightarrow> code_symbol option" where
  "find_symbol_by_name_with_context p name prefer_file db =
     (case (case prefer_file of
              Some f \<Rightarrow> find (\<lambda>s. s_project_id s = p \<and> s_name s = name \<and> s_file_path s = f) (cd_symbols db)
            | None \<Rightarrow> None) of
        Some s \<Rightarrow> Some s
      | None \<Rightarrow> find_symbol_by_name p name db)"

definition clear_project_embeddings :: "string \<Rightarrow> code_db \<Rightarrow> code_db" where
  "clear_project_embeddings p db =
     db\<lparr>cd_chunks := map (\<lambda>c. if ck_project_id c = Some p then c\<lparr>ck_embedding := None\<rparr> else c) (cd_chunks db),
        cd_symbols := map (\<lambda>s. if s_project_id s = p then s\<lparr>s_embedding := None\<rparr> else s) (cd_symbols db)\<rparr>"

section \<open>File hashes and the file manifest\<close>

definition get_file_hash :: "string \<Rightarrow> string \<Rightarrow> code_db \<Rightarrow> string option" where
  "get_file_hash p f db = hm_get (cd_hashes db) (p, f)"

definition set_file_hash :: "string \<Rightarrow> string \<Rightarrow> string \<Rightarrow> code_db \<Rightarrow> code_db" where
  "set_file_hash p f hash db = db\<lparr>cd_hashes := hm_insert (p, f) hash (cd_hashes db)\<rparr>"

definition set_file_hashes_batch :: "string \<Rightarrow> (string \<times> string) list \<Rightarrow> code_db \<Rightarrow> code_db" where
  "set_file_hashes_batch p hashes db =
     (if hashes = [] then db else fold (\<lambda>(f, hash). set_file_hash p f hash) hashes db)"

definition delete_file_hashes :: "string \<Rightarrow> code_db \<Rightarrow> code_db" where
  "delete_file_hashes p db = db\<lparr>cd_hashes := filter (\<lambda>e. fst (fst e) \<noteq> p) (cd_hashes db)\<rparr>"

definition delete_file_hash :: "string \<Rightarrow> string \<Rightarrow> code_db \<Rightarrow> code_db" where
  "delete_file_hash p f db = db\<lparr>cd_hashes := hm_remove (p, f) (cd_hashes db)\<rparr>"

definition upsert_manifest_entry :: "datetime \<Rightarrow> string \<Rightarrow> string \<Rightarrow> code_db \<Rightarrow> code_db" where
  "upsert_manifest_entry now p f db = db\<lparr>cd_manifest := hm_insert (p, f) now (cd_manifest db)\<rparr>"

text \<open>
  The batch form binds \<open>$project_id\<close> and \<open>$file_path\<close> once per statement, but the query has one map of
  parameters: a later binding of a name replaces the earlier one, and every statement of the query
  reads the last.
\<close>

definition CHUNK :: nat where "CHUNK = 500"

definition bind_parameters :: "string \<Rightarrow> string list \<Rightarrow> (string, string) hmap" where
  "bind_parameters p fs =
     fold (\<lambda>f params. hm_insert ''file_path'' f (hm_insert ''project_id'' p params)) fs []"

definition manifest_statement :: "datetime \<Rightarrow> (string, string) hmap \<Rightarrow> code_db \<Rightarrow> code_db" where
  "manifest_statement now params db =
     (case (hm_get params ''project_id'', hm_get params ''file_path'') of
        (Some p, Some f) \<Rightarrow> upsert_manifest_entry now p f db
      | _ \<Rightarrow> db)"

function list_chunks :: "nat \<Rightarrow> 'a list \<Rightarrow> 'a list list" where
  "list_chunks n xs = (if xs = [] \<or> n = 0 then [] else take n xs # list_chunks n (drop n xs))"
  by pat_completeness auto
termination by (relation "measure (\<lambda>(n, xs). length xs)") auto

declare list_chunks.simps [simp del]

definition upsert_manifest_entries :: "datetime \<Rightarrow> string \<Rightarrow> string list \<Rightarrow> code_db \<Rightarrow> code_db" where
  "upsert_manifest_entries now p file_paths db =
     (if file_paths = [] then db
      else fold (\<lambda>chunk db1. fold (\<lambda>f. manifest_statement now (bind_parameters p chunk)) chunk db1)
             (list_chunks CHUNK file_paths) db)"

definition get_manifest_entries :: "string \<Rightarrow> code_db \<Rightarrow> string list" where
  "get_manifest_entries p db = map (\<lambda>e. snd (fst e)) (filter (\<lambda>e. fst (fst e) = p) (cd_manifest db))"

definition delete_manifest_entries :: "string \<Rightarrow> code_db \<Rightarrow> code_db" where
  "delete_manifest_entries p db = db\<lparr>cd_manifest := filter (\<lambda>e. fst (fst e) \<noteq> p) (cd_manifest db)\<rparr>"

definition delete_manifest_entry :: "string \<Rightarrow> string \<Rightarrow> code_db \<Rightarrow> code_db" where
  "delete_manifest_entry p f db = db\<lparr>cd_manifest := hm_remove (p, f) (cd_manifest db)\<rparr>"

definition count_manifest_entries :: "string \<Rightarrow> code_db \<Rightarrow> nat" where
  "count_manifest_entries p db = length (get_manifest_entries p db)"

section \<open>Generations\<close>

definition get_active_generation :: "string \<Rightarrow> code_db \<Rightarrow> u64 option" where
  "get_active_generation p db = hm_get (cd_active db) p"

definition set_active_generation :: "string \<Rightarrow> u64 \<Rightarrow> code_db \<Rightarrow> code_db" where
  "set_active_generation p g db = db\<lparr>cd_active := hm_insert p g (cd_active db)\<rparr>"

definition get_serving_generation :: "string \<Rightarrow> capability_kind \<Rightarrow> code_db \<Rightarrow> u64 option" where
  "get_serving_generation p k db =
     (if is_structural k then get_active_generation p db else hm_get (cd_serving db) (p, capability_column k))"

definition set_serving_generation :: "string \<Rightarrow> capability_kind \<Rightarrow> u64 \<Rightarrow> code_db \<Rightarrow> code_db" where
  "set_serving_generation p k g db =
     (if is_structural k then set_active_generation p g db
      else db\<lparr>cd_serving := hm_insert (p, capability_column k) g (cd_serving db)\<rparr>)"

definition get_indexing_generation :: "string \<Rightarrow> code_db \<Rightarrow> u64 option" where
  "get_indexing_generation p db = hm_get (cd_indexing db) p"

definition set_indexing_generation :: "string \<Rightarrow> u64 option \<Rightarrow> code_db \<Rightarrow> code_db" where
  "set_indexing_generation p g db =
     db\<lparr>cd_indexing := (case g of Some g' \<Rightarrow> hm_insert p g' (cd_indexing db) | None \<Rightarrow> hm_remove p (cd_indexing db))\<rparr>"

definition get_serving_metadata :: "string \<Rightarrow> code_db \<Rightarrow> serving_generation_metadata" where
  "get_serving_metadata p db =
     \<lparr>sg_structural = get_active_generation p db,
      sg_bm25 = hm_get (cd_serving db) (p, ''serving_gen_bm25''),
      sg_symbols = hm_get (cd_serving db) (p, ''serving_gen_symbols''),
      sg_graph = hm_get (cd_serving db) (p, ''serving_gen_graph''),
      sg_vector = hm_get (cd_serving db) (p, ''serving_gen_vector''),
      sg_semantic = hm_get (cd_serving db) (p, ''serving_gen_semantic''),
      sg_indexing = hm_get (cd_indexing db) p\<rparr>"

text \<open>The \<open>BTreeSet\<close> of the generations that occur, other than the active one.\<close>

definition list_abandoned_generations :: "string \<Rightarrow> code_db \<Rightarrow> u64 list" where
  "list_abandoned_generations p db =
     (let active = (case get_active_generation p db of Some g \<Rightarrow> g | None \<Rightarrow> 0);
          rows = List.map_filter ck_generation (filter (\<lambda>c. ck_project_id c = Some p) (cd_chunks db)) @
                 List.map_filter s_generation (filter (\<lambda>s. s_project_id s = p) (cd_symbols db)) @
                 map fc_generation (filter (\<lambda>c. fc_project_id c = p) (map snd (cd_checkpoints db))) @
                 map j_target_generation (filter (\<lambda>j. j_project_id j = p) (map snd (cd_jobs db)))
      in sort (remdups (filter (\<lambda>g. g \<noteq> active) rows)))"

definition delete_project_generation :: "string \<Rightarrow> u64 \<Rightarrow> code_db \<Rightarrow> code_db" where
  "delete_project_generation p g db =
     db\<lparr>cd_relations := filter (\<lambda>r. \<not> (sl_project_id r = p \<and> sl_freshness_generation r = g)) (cd_relations db),
        cd_symbols := filter (\<lambda>s. \<not> (s_project_id s = p \<and> s_generation s = Some g)) (cd_symbols db),
        cd_chunks := filter (\<lambda>c. \<not> (ck_project_id c = Some p \<and> ck_generation c = Some g)) (cd_chunks db),
        cd_checkpoints := filter (\<lambda>e. \<not> (fc_project_id (snd e) = p \<and> fc_generation (snd e) = g)) (cd_checkpoints db)\<rparr>"

section \<open>Status, jobs and checkpoints\<close>

definition get_index_status :: "string \<Rightarrow> code_db \<Rightarrow> index_status option" where
  "get_index_status p db = hm_get (cd_status db) p"

definition store_index_status :: "index_status \<Rightarrow> code_db \<Rightarrow> code_db" where
  "store_index_status s db =
     (case update_index_status s of (key, s') \<Rightarrow> db\<lparr>cd_status := hm_insert key s' (cd_status db)\<rparr>)"

definition delete_index_status :: "string \<Rightarrow> code_db \<Rightarrow> code_db" where
  "delete_index_status p db = db\<lparr>cd_status := hm_remove p (cd_status db)\<rparr>"

definition list_index_statuses :: "code_db \<Rightarrow> index_status list" where
  "list_index_statuses db = sort_by (\<lambda>a b. is_project_id a \<le> is_project_id b) (map snd (cd_status db))"

definition create_or_update_index_job :: "index_job \<Rightarrow> code_db \<Rightarrow> code_db" where
  "create_or_update_index_job j db =
     (case stored_index_job j of (key, j') \<Rightarrow> db\<lparr>cd_jobs := hm_insert key j' (cd_jobs db)\<rparr>)"

definition get_index_job :: "string \<Rightarrow> string \<Rightarrow> code_db \<Rightarrow> index_job option" where
  "get_index_job p i db = hm_get (cd_jobs db) (index_job_record_id p i)"

definition delete_index_job :: "string \<Rightarrow> string \<Rightarrow> code_db \<Rightarrow> code_db" where
  "delete_index_job p i db = db\<lparr>cd_jobs := hm_remove (index_job_record_id p i) (cd_jobs db)\<rparr>"

definition list_index_jobs_for_project :: "string \<Rightarrow> code_db \<Rightarrow> index_job list" where
  "list_index_jobs_for_project p db =
     sort_by (\<lambda>a b. j_updated_at b \<le> j_updated_at a) (filter (\<lambda>j. j_project_id j = p) (map snd (cd_jobs db)))"

definition upsert_file_checkpoint :: "(string \<Rightarrow> string) \<Rightarrow> file_checkpoint \<Rightarrow> code_db \<Rightarrow> code_db" where
  "upsert_file_checkpoint b3 c db =
     (case stored_file_checkpoint b3 c of (key, c') \<Rightarrow> db\<lparr>cd_checkpoints := hm_insert key c' (cd_checkpoints db)\<rparr>)"

definition list_file_checkpoints_for_job :: "string \<Rightarrow> u64 \<Rightarrow> code_db \<Rightarrow> file_checkpoint list" where
  "list_file_checkpoints_for_job p g db =
     sort_by (\<lambda>a b. fc_relative_file_path a \<le> fc_relative_file_path b)
       (filter (\<lambda>c. fc_project_id c = p \<and> fc_generation c = g) (map snd (cd_checkpoints db)))"

definition get_file_checkpoint :: "string \<Rightarrow> u64 \<Rightarrow> string \<Rightarrow> code_db \<Rightarrow> file_checkpoint option" where
  "get_file_checkpoint p g relative db =
     find (\<lambda>c. fc_project_id c = p \<and> fc_generation c = g \<and> fc_relative_file_path c = relative)
       (map snd (cd_checkpoints db))"

section \<open>Views of a file\<close>

definition without_id :: "code_chunk \<Rightarrow> code_chunk" where
  "without_id c = c\<lparr>ck_id := None\<rparr>"

definition chunks_at :: "string \<Rightarrow> string \<Rightarrow> code_db \<Rightarrow> code_chunk list" where
  "chunks_at p f db = map without_id (filter (chunk_at p f) (cd_chunks db))"

text \<open>What is stored of a file: its chunks, up to their ids, and its hash.\<close>

definition file_view :: "string \<Rightarrow> string \<Rightarrow> code_db \<Rightarrow> code_chunk list \<times> string option" where
  "file_view p f db = (chunks_at p f db, get_file_hash p f db)"

text \<open>What is stored of the other projects.\<close>

definition other_projects :: "string \<Rightarrow> code_db \<Rightarrow> code_chunk list \<times> (string \<times> string \<Rightarrow> string option)" where
  "other_projects p db =
     (filter (\<lambda>c. ck_project_id c \<noteq> Some p) (cd_chunks db),
      \<lambda>k. if fst k = p then None else hm_get (cd_hashes db) k)"

lemma assign_ids_without:
  "list_all (\<lambda>c. ck_id c = None) cs \<Longrightarrow> map without_id (fst (assign_chunk_ids gen n cs)) = cs"
proof (induction cs arbitrary: n)
  case (Cons c cs)
  then show ?case by (simp add: without_id_def with_chunk_id_def split: prod.split) (metis fst_conv)
qed simp

lemma assign_ids_keys:
  "list_all (\<lambda>c. ck_id c = None) cs \<Longrightarrow>
     map ck_id (fst (assign_chunk_ids gen n cs)) =
       map (\<lambda>k. Some \<lparr>rid_table = ''code_chunks'', rid_key = gen k\<rparr>) [n..<n + length cs] \<and>
     snd (assign_chunk_ids gen n cs) = n + length cs"
proof (induction cs arbitrary: n)
  case (Cons c cs)
  obtain cs' n' where r: "assign_chunk_ids gen (Suc n) cs = (cs', n')" by fastforce
  from Cons have "map ck_id cs' = map (\<lambda>k. Some \<lparr>rid_table = ''code_chunks'', rid_key = gen k\<rparr>) [Suc n..<Suc n + length cs]"
    "n' = Suc n + length cs" using Cons.IH [of "Suc n"] r by auto
  moreover have "[n..<n + length (c # cs)] = n # [Suc n..<Suc n + length cs]" using upt_conv_Cons [of n "n + length (c # cs)"] by simp
  ultimately show ?case using Cons.prems r by (simp add: with_chunk_id_def del: upt_Suc)
qed simp

lemma chunk_at_without_id [simp]: "chunk_at p f (without_id c) = chunk_at p f c"
  by (simp add: chunk_at_def without_id_def)

lemma filter_map_without: "map without_id (filter (chunk_at p f) cs) = filter (chunk_at p f) (map without_id cs)"
  by (induction cs) simp_all

lemma create_batch_view:
  assumes "list_all (\<lambda>c. ck_id c = None \<and> chunk_at p g c) chunks"
  shows "file_view p f (snd (create_code_chunks_batch gen chunks db)) =
      (chunks_at p f db @ (if f = g then chunks else []), get_file_hash p f db)"
    and "other_projects p (snd (create_code_chunks_batch gen chunks db)) = other_projects p db"
proof -
  have none: "list_all (\<lambda>c. ck_id c = None) chunks" using assms by (simp add: list_all_iff)
  obtain cs n where a: "assign_chunk_ids gen (cd_next db) chunks = (cs, n)" by fastforce
  have cs: "map without_id cs = chunks" using assign_ids_without [OF none, of gen "cd_next db"] a by simp
  have all: "\<forall>c\<in>set cs. chunk_at p g c"
    using assms cs chunk_at_without_id by (metis (no_types, lifting) imageI list.set_map list_all_iff)
  have "filter (chunk_at p f) chunks = (if f = g then chunks else [])"
    using assms by (auto simp: list_all_iff chunk_at_def filter_empty_conv filter_id_conv)
  then have "map without_id (filter (chunk_at p f) cs) = (if f = g then chunks else [])"
    by (simp add: filter_map_without cs)
  then show "file_view p f (snd (create_code_chunks_batch gen chunks db)) =
      (chunks_at p f db @ (if f = g then chunks else []), get_file_hash p f db)"
    using a by (cases "f = g") (simp_all add: create_code_chunks_batch_def file_view_def chunks_at_def get_file_hash_def)
  have "filter (\<lambda>c. ck_project_id c \<noteq> Some p) cs = []" using all by (auto simp: filter_empty_conv chunk_at_def)
  then show "other_projects p (snd (create_code_chunks_batch gen chunks db)) = other_projects p db"
    using a by (simp add: create_code_chunks_batch_def other_projects_def cong: if_cong)
qed

lemma delete_chunks_view:
  "file_view p f (snd (delete_chunks_by_path p g db)) = (if f = g then [] else chunks_at p f db, get_file_hash p f db)"
  "other_projects p (snd (delete_chunks_by_path p g db)) = other_projects p db"
  by (auto simp: delete_chunks_by_path_def file_view_def chunks_at_def get_file_hash_def other_projects_def
      chunk_at_def filter_empty_conv intro!: arg_cong [where f = "map without_id"] filter_cong)

lemma delete_symbols_view [simp]:
  "file_view p f (delete_symbols_by_path p g db) = file_view p f db"
  "other_projects p (delete_symbols_by_path p g db) = other_projects p db"
  by (simp_all add: delete_symbols_by_path_def file_view_def chunks_at_def get_file_hash_def other_projects_def Let_def
      cong: if_cong)

lemma delete_hash_view [simp]:
  "file_view p f (delete_file_hash p g db) = (chunks_at p f db, if f = g then None else get_file_hash p f db)"
  "other_projects p (delete_file_hash p g db) = other_projects p db"
  by (auto simp: delete_file_hash_def file_view_def chunks_at_def get_file_hash_def other_projects_def)

lemma set_hash_view [simp]:
  "file_view p f (set_file_hash p g x db) = (chunks_at p f db, if f = g then Some x else get_file_hash p f db)"
  "other_projects p (set_file_hash p g x db) = other_projects p db"
  by (auto simp: set_file_hash_def file_view_def chunks_at_def get_file_hash_def other_projects_def)

lemma file_view_same:
  "cd_chunks db' = cd_chunks db \<Longrightarrow> cd_hashes db' = cd_hashes db \<Longrightarrow>
     file_view p f db' = file_view p f db \<and> other_projects p db' = other_projects p db"
  by (simp add: file_view_def chunks_at_def get_file_hash_def other_projects_def cong: if_cong)

section \<open>Ids of chunk rows\<close>

text \<open>Every chunk row has one of the ids handed out so far, each its own.\<close>

definition chunk_ids_ok :: "(nat \<Rightarrow> string) \<Rightarrow> code_db \<Rightarrow> bool" where
  "chunk_ids_ok gen db \<longleftrightarrow> distinct (map ck_id (cd_chunks db)) \<and>
     set (map ck_id (cd_chunks db)) \<subseteq> (\<lambda>k. Some \<lparr>rid_table = ''code_chunks'', rid_key = gen k\<rparr>) ` {..<cd_next db}"

lemma create_batch_ids_ok:
  assumes "inj gen" "chunk_ids_ok gen db" "list_all (\<lambda>c. ck_id c = None) chunks"
  shows "chunk_ids_ok gen (snd (create_code_chunks_batch gen chunks db))"
proof -
  let ?id = "\<lambda>k. Some \<lparr>rid_table = ''code_chunks'', rid_key = gen k\<rparr>"
  obtain cs n where a: "assign_chunk_ids gen (cd_next db) chunks = (cs, n)" by fastforce
  have ids: "map ck_id cs = map ?id [cd_next db..<n]" and n: "n = cd_next db + length chunks"
    using assign_ids_keys [OF assms(3), of gen "cd_next db"] a by auto
  have inj: "inj ?id" using assms(1) by (auto simp: inj_def)
  then have "distinct (map ?id [cd_next db..<n])" by (simp add: distinct_map inj_on_def inj_def)
  moreover have "set (map ck_id (cd_chunks db)) \<inter> set (map ?id [cd_next db..<n]) = {}"
    using assms(2) inj by (auto simp: chunk_ids_ok_def inj_def) fastforce
  moreover have "set (map ck_id (cd_chunks db)) \<union> set (map ?id [cd_next db..<n]) \<subseteq> ?id ` {..<n}"
    using assms(2) n by (fastforce simp: chunk_ids_ok_def)
  ultimately show ?thesis
    using assms(2) a unfolding chunk_ids_ok_def
    by (cases "chunks = []") (simp_all add: create_code_chunks_batch_def ids del: set_map)
qed

lemma filter_ids_ok:
  "chunk_ids_ok gen db \<Longrightarrow> cd_chunks db' = filter P (cd_chunks db) \<Longrightarrow> cd_next db' = cd_next db \<Longrightarrow> chunk_ids_ok gen db'"
  by (auto simp: chunk_ids_ok_def distinct_map_filter)

end
