(* ===== verification/CodeRelations.thy ===== *)
theory CodeRelations
  imports CodeStore
begin

text \<open>
  The relations between symbols, \<open>src/codebase/relations.rs\<close>: references are resolved in memory, the
  names that are not found by one query, and written in one batch; containment edges come from the
  nesting of line ranges. The arrow in the name of such an edge is written \<open>->\<close>.
\<close>

record relation_stats =
  rs_created :: nat
  rs_failed :: nat
  rs_unresolved :: nat

definition relation_stats_zero :: relation_stats where
  "relation_stats_zero = \<lparr>rs_created = 0, rs_failed = 0, rs_unresolved = 0\<rparr>"

section \<open>Creating the relations of a list of references\<close>

record pending_relation =
  pr_reference :: code_reference
  pr_from_thing :: record_id
  pr_to_thing :: "record_id option"
  pr_in_memory :: bool

definition resolve_reference ::
  "symbol_hasher \<Rightarrow> string \<Rightarrow> symbol_index \<Rightarrow> code_reference \<Rightarrow> pending_relation" where
  "resolve_reference h p ix r =
     (let from_thing = symbol_thing h p (cf_file_path r) (cf_from_symbol r) (cf_from_symbol_line r) in
      case index_resolve ix (cf_to_symbol r) \<lparr>rc_caller_file = cf_file_path r\<rparr> of
        Some resolved \<Rightarrow> \<lparr>pr_reference = r, pr_from_thing = from_thing,
                          pr_to_thing = Some (symbol_ref_to_thing h p resolved), pr_in_memory = True\<rparr>
      | None \<Rightarrow> \<lparr>pr_reference = r, pr_from_thing = from_thing, pr_to_thing = None, pr_in_memory = False\<rparr>)"

text \<open>The names for the query, each once.\<close>

definition fallback_names :: "pending_relation list \<Rightarrow> string list" where
  "fallback_names ps =
     foldl (\<lambda>names p. if pr_to_thing p = None \<and> cf_to_symbol (pr_reference p) \<notin> set names
                      then names @ [cf_to_symbol (pr_reference p)] else names) [] ps"

text \<open>The first symbol of each name.\<close>

definition db_symbol_map :: "code_symbol list \<Rightarrow> (string, symbol_ref) hmap" where
  "db_symbol_map syms =
     foldl (\<lambda>m s. if hm_get m (s_name s) = None then hm_insert (s_name s) (symbol_ref_from_symbol s) m else m) [] syms"

definition symbol_relation_new ::
  "datetime \<Rightarrow> record_id \<Rightarrow> record_id \<Rightarrow> code_relation_type \<Rightarrow> relation_class \<Rightarrow> relation_provenance \<Rightarrow>
     confidence_class \<Rightarrow> u64 \<Rightarrow> staleness_state \<Rightarrow> string \<Rightarrow> u32 \<Rightarrow> string \<Rightarrow> symbol_relation" where
  "symbol_relation_new now from to ty cls prov conf g stale file_path line p =
     \<lparr>sl_id = None, sl_from_symbol = from, sl_to_symbol = to, sl_relation_type = ty, sl_relation_class = cls,
      sl_provenance = prov, sl_confidence_class = conf, sl_freshness_generation = g,
      sl_staleness_state = stale, sl_file_path = file_path, sl_line_number = line, sl_project_id = p,
      sl_created_at = now\<rparr>"

fun relation_batch ::
  "symbol_hasher \<Rightarrow> datetime \<Rightarrow> string \<Rightarrow> (string, symbol_ref) hmap \<Rightarrow> pending_relation list \<Rightarrow>
     symbol_relation list \<times> nat" where
  "relation_batch h now p m [] = ([], 0)"
| "relation_batch h now p m (q # qs) =
     (let r = pr_reference q;
          to_thing = (case pr_to_thing q of
                        Some t \<Rightarrow> Some t
                      | None \<Rightarrow> map_option (symbol_ref_to_thing h p) (hm_get m (cf_to_symbol r)))
      in case relation_batch h now p m qs of (batch, unresolved) \<Rightarrow>
           (case to_thing of
              None \<Rightarrow> (batch, unresolved + 1)
            | Some t \<Rightarrow>
                (let (cls, prov, conf) =
                       (if pr_in_memory q
                        then (cf_relation_class r, cf_provenance r, cf_confidence_class r)
                        else (RC_Inferred, HeuristicResolver, CC_Ambiguous))
                 in (symbol_relation_new now (pr_from_thing q) t (cf_relation_type r) cls prov conf
                       (cf_freshness_generation r) (cf_staleness_state r) (cf_file_path r) (cf_line r) p # batch,
                     unresolved))))"

text \<open>\<open>lookup\<close> is the query \<open>find_symbols_by_names\<close> and \<open>store_fails\<close> whether the batch write is refused.\<close>

definition create_symbol_relations ::
  "symbol_hasher \<Rightarrow> datetime \<Rightarrow> bool \<Rightarrow> bool \<Rightarrow> string \<Rightarrow> code_reference list \<Rightarrow> symbol_index \<Rightarrow> code_db \<Rightarrow>
     relation_stats \<times> code_db" where
  "create_symbol_relations h now lookup_fails store_fails p references ix db =
     (if references = [] then (relation_stats_zero, db)
      else
        (let pending = map (resolve_reference h p ix) references;
             names = fallback_names pending;
             found = (if names = [] \<or> lookup_fails then [] else find_symbols_by_names p names db);
             (batch, unresolved) = relation_batch h now p (db_symbol_map found) pending;
             stats = relation_stats_zero\<lparr>rs_unresolved := unresolved\<rparr>
         in if batch = [] then (stats, db)
            else if store_fails then (stats\<lparr>rs_failed := 1\<rparr>, db)
            else (case create_symbol_relations_batch batch db of (n, db') \<Rightarrow> (stats\<lparr>rs_created := n\<rparr>, db'))))"

definition create_symbol_relations_for_generation ::
  "symbol_hasher \<Rightarrow> datetime \<Rightarrow> bool \<Rightarrow> bool \<Rightarrow> string \<Rightarrow> code_reference list \<Rightarrow> symbol_index \<Rightarrow> u64 \<Rightarrow> code_db \<Rightarrow>
     relation_stats \<times> code_db" where
  "create_symbol_relations_for_generation h now lookup_fails store_fails p references ix g db =
     create_symbol_relations h now lookup_fails store_fails p
       (map (\<lambda>r. r\<lparr>cf_freshness_generation := g\<rparr>) references) ix db"

section \<open>Containment\<close>

definition range_before :: "code_symbol \<Rightarrow> code_symbol \<Rightarrow> bool" where
  "range_before a b \<longleftrightarrow>
     s_start_line a < s_start_line b \<or> (s_start_line a = s_start_line b \<and> s_end_line b \<le> s_end_line a)"

definition containment_reference :: "string \<Rightarrow> code_symbol \<Rightarrow> code_symbol \<Rightarrow> code_reference" where
  "containment_reference file_path parent s =
     \<lparr>cf_name = s_name parent @ ''->'' @ s_name s, cf_from_symbol = s_name parent,
      cf_from_symbol_line = s_start_line parent, cf_to_symbol = s_name s, cf_relation_type = Contains,
      cf_relation_class = RC_Observed, cf_provenance = ContainmentDerived,
      cf_confidence_class = CC_Extracted, cf_freshness_generation = 0, cf_staleness_state = SS_Current,
      cf_file_path = file_path, cf_line = s_start_line s, cf_column = 0\<rparr>"

text \<open>The loop over the sorted symbols; the stack holds the open symbols, innermost first.\<close>

definition pop_closed :: "code_symbol \<Rightarrow> code_symbol list \<Rightarrow> code_symbol list" where
  "pop_closed s stack = dropWhile (\<lambda>parent. \<not> s_end_line parent \<ge> s_end_line s) stack"

fun containment_loop :: "string \<Rightarrow> code_symbol list \<Rightarrow> code_symbol list \<Rightarrow> code_reference list" where
  "containment_loop file_path stack [] = []"
| "containment_loop file_path stack (s # ss) =
     (let stack1 = pop_closed s stack
      in (case stack1 of
            [] \<Rightarrow> []
          | parent # rest \<Rightarrow>
              if s_start_line parent \<noteq> s_start_line s \<or> s_end_line parent \<noteq> s_end_line s
              then [containment_reference file_path parent s] else []) @
         containment_loop file_path (s # stack1) ss)"

definition file_containment :: "string \<Rightarrow> code_symbol list \<Rightarrow> code_reference list" where
  "file_containment file_path file_syms =
     (if length file_syms < 2 then [] else containment_loop file_path [] (sort_by range_before file_syms))"

text \<open>\<open>order\<close> lists the files in the iteration order of the hash map.\<close>

definition detect_containment_references :: "(string list \<Rightarrow> string list) \<Rightarrow> code_symbol list \<Rightarrow> code_reference list" where
  "detect_containment_references order syms =
     (if length syms < 2 then []
      else concat (map (\<lambda>f. file_containment f (filter (\<lambda>s. s_file_path s = f) syms))
             (order (remdups (map s_file_path syms)))))"

section \<open>Which edges containment gives\<close>

interpretation range_order: total_comparison range_before
  by unfold_locales (auto simp: range_before_def)

definition encloses :: "code_symbol \<Rightarrow> code_symbol \<Rightarrow> bool" where
  "encloses p s \<longleftrightarrow> s_start_line p \<le> s_start_line s \<and> s_end_line s \<le> s_end_line p"

definition same_range :: "code_symbol \<Rightarrow> code_symbol \<Rightarrow> bool" where
  "same_range p s \<longleftrightarrow> s_start_line p = s_start_line s \<and> s_end_line p = s_end_line s"

text \<open>The reference without a stack: the latest earlier symbol that ends no sooner.\<close>

definition open_symbol :: "u32 \<Rightarrow> code_symbol list \<Rightarrow> code_symbol option" where
  "open_symbol e earlier = find (\<lambda>p. e \<le> s_end_line p) earlier"

definition edge_of :: "string \<Rightarrow> code_symbol option \<Rightarrow> code_symbol \<Rightarrow> code_reference list" where
  "edge_of file_path p s =
     (case p of None \<Rightarrow> [] | Some q \<Rightarrow> if same_range q s then [] else [containment_reference file_path q s])"

fun containment_spec :: "string \<Rightarrow> code_symbol list \<Rightarrow> code_symbol list \<Rightarrow> code_reference list" where
  "containment_spec file_path earlier [] = []"
| "containment_spec file_path earlier (s # ss) =
     edge_of file_path (open_symbol (s_end_line s) earlier) s @ containment_spec file_path (s # earlier) ss"

lemma find_dropWhile:
  "(case dropWhile (\<lambda>x. \<not> P x) xs of [] \<Rightarrow> None | x # ys \<Rightarrow> Some x) = find P xs"
  by (induction xs) auto

lemma open_symbol_pop:
  "s_end_line s < e \<Longrightarrow> open_symbol e (pop_closed s stack) = open_symbol e stack"
  unfolding open_symbol_def pop_closed_def by (induction stack) auto

lemma containment_loop_spec:
  assumes "\<And>e. open_symbol e stack = open_symbol e earlier"
  shows "containment_loop file_path stack ss = containment_spec file_path earlier ss"
  using assms
proof (induction ss arbitrary: stack earlier)
  case (Cons s ss)
  have "open_symbol e (s # pop_closed s stack) = open_symbol e (s # earlier)" for e
    using Cons.prems open_symbol_pop [of s e stack]
    by (cases "e \<le> s_end_line s") (simp_all add: open_symbol_def)
  note IH = Cons.IH [OF this]
  have "open_symbol (s_end_line s) earlier =
      (case pop_closed s stack of [] \<Rightarrow> None | p # ps \<Rightarrow> Some p)"
    using Cons.prems [of "s_end_line s"] find_dropWhile [of "\<lambda>p. s_end_line s \<le> s_end_line p" stack]
    by (simp add: open_symbol_def pop_closed_def)
  with IH show ?case
    by (auto simp: Let_def edge_of_def same_range_def split: list.split)
qed simp

lemma open_symbol_Some:
  "open_symbol e earlier = Some p \<longleftrightarrow>
     (\<exists>vs us. earlier = vs @ p # us \<and> e \<le> s_end_line p \<and> list_all (\<lambda>v. s_end_line v < e) vs)"
  unfolding open_symbol_def
proof (induction earlier)
  case (Cons q qs)
  show ?case
  proof (cases "e \<le> s_end_line q")
    case True
    then show ?thesis by (auto simp: Cons_eq_append_conv)
  next
    case False
    have "(\<exists>vs us. q # qs = vs @ p # us \<and> e \<le> s_end_line p \<and> list_all (\<lambda>v. s_end_line v < e) vs) \<longleftrightarrow>
        (\<exists>vs us. qs = vs @ p # us \<and> e \<le> s_end_line p \<and> list_all (\<lambda>v. s_end_line v < e) vs)" (is "?L = ?R")
    proof
      assume ?L
      then show ?R using False by (auto simp: Cons_eq_append_conv)
    next
      assume ?R
      then obtain vs us where "qs = vs @ p # us" "e \<le> s_end_line p" "list_all (\<lambda>v. s_end_line v < e) vs" by blast
      then show ?L using False by (intro exI [of _ "q # vs"] exI [of _ us]) simp
    qed
    with Cons False show ?thesis by simp
  qed
qed simp

lemma ex_split_Cons:
  "(\<exists>ws x zs. s # ss = ws @ x # zs \<and> Q ws x) \<longleftrightarrow> Q [] s \<or> (\<exists>ws x zs. ss = ws @ x # zs \<and> Q (s # ws) x)"
proof
  assume "Q [] s \<or> (\<exists>ws x zs. ss = ws @ x # zs \<and> Q (s # ws) x)"
  then show "\<exists>ws x zs. s # ss = ws @ x # zs \<and> Q ws x" by (metis append_Cons append_Nil)
qed (auto simp: Cons_eq_append_conv)

lemma set_containment_spec:
  "r \<in> set (containment_spec file_path earlier ss) \<longleftrightarrow>
     (\<exists>ws s zs. ss = ws @ s # zs \<and> (\<exists>p. open_symbol (s_end_line s) (rev ws @ earlier) = Some p \<and>
        \<not> same_range p s \<and> r = containment_reference file_path p s))"
proof (induction ss arbitrary: earlier)
  case (Cons s ss)
  have head: "r \<in> set (edge_of file_path (open_symbol (s_end_line s) earlier) s) \<longleftrightarrow>
      (\<exists>p. open_symbol (s_end_line s) earlier = Some p \<and> \<not> same_range p s \<and> r = containment_reference file_path p s)"
    by (cases "open_symbol (s_end_line s) earlier") (auto simp: edge_of_def)
  show ?case
    unfolding ex_split_Cons by (simp add: head Cons)
qed simp

text \<open>A containment edge links a symbol to the last symbol before it, in the order of the file, whose line
  range encloses it: no symbol in between ends as late. There is no edge when that symbol has the very
  same range, even where a wider symbol encloses both.
\<close>

theorem containment_edges_exact:
  "r \<in> set (file_containment file_path file_syms) \<longleftrightarrow>
     (\<exists>us p vs s ws. sort_by range_before file_syms = us @ p # vs @ s # ws \<and>
        encloses p s \<and> \<not> same_range p s \<and> list_all (\<lambda>v. s_end_line v < s_end_line s) vs \<and>
        r = containment_reference file_path p s)"
proof -
  let ?ss = "sort_by range_before file_syms"
  have loop: "file_containment file_path file_syms = containment_spec file_path [] ?ss"
  proof (cases "length file_syms < 2")
    case True
    then consider "file_syms = []" | s where "file_syms = [s]"
      by (cases file_syms; cases "tl file_syms") auto
    then show ?thesis
      by cases (simp_all add: file_containment_def edge_of_def open_symbol_def)
  qed (simp add: file_containment_def containment_loop_spec)
  have start: "s_start_line p \<le> s_start_line s" if "?ss = us @ p # vs @ s # ws" for us p vs s ws
    using range_order.sorted_sort_by [of file_syms] unfolding that
    by (auto simp: sorted_wrt_append range_before_def)
  have "r \<in> set (containment_spec file_path [] ?ss) \<longleftrightarrow>
     (\<exists>xs s ws. ?ss = xs @ s # ws \<and> (\<exists>p. open_symbol (s_end_line s) (rev xs) = Some p \<and>
        \<not> same_range p s \<and> r = containment_reference file_path p s))"
    by (simp add: set_containment_spec)
  also have "\<dots> \<longleftrightarrow> (\<exists>us p vs s ws. ?ss = us @ p # vs @ s # ws \<and> s_end_line s \<le> s_end_line p \<and>
        \<not> same_range p s \<and> list_all (\<lambda>v. s_end_line v < s_end_line s) vs \<and>
        r = containment_reference file_path p s)" (is "?L = ?R")
  proof
    assume ?L
    then obtain xs s ws p vs us where "?ss = xs @ s # ws" "rev xs = vs @ p # us"
      "s_end_line s \<le> s_end_line p" "list_all (\<lambda>v. s_end_line v < s_end_line s) vs"
      "\<not> same_range p s" "r = containment_reference file_path p s"
      by (auto simp: open_symbol_Some)
    moreover from this(2) have "xs = rev us @ p # rev vs" by (simp add: rev_swap)
    ultimately show ?R
      by (intro exI [of _ "rev us"] exI [of _ p] exI [of _ "rev vs"] exI [of _ s] exI [of _ ws])
        (simp add: list_all_iff)
  next
    assume ?R
    then obtain us p vs s ws where "?ss = us @ p # vs @ s # ws" "s_end_line s \<le> s_end_line p"
      "list_all (\<lambda>v. s_end_line v < s_end_line s) vs" "\<not> same_range p s"
      "r = containment_reference file_path p s" by blast
    moreover from this(2,3) have "open_symbol (s_end_line s) (rev (us @ p # vs)) = Some p"
      unfolding open_symbol_Some
      by (intro exI [of _ "rev vs"] exI [of _ "rev us"]) (simp add: list_all_iff)
    ultimately show ?L
      by (intro exI [of _ "us @ p # vs"] exI [of _ s] exI [of _ ws]) simp
  qed
  also have "\<dots> \<longleftrightarrow> (\<exists>us p vs s ws. ?ss = us @ p # vs @ s # ws \<and> encloses p s \<and> \<not> same_range p s \<and>
        list_all (\<lambda>v. s_end_line v < s_end_line s) vs \<and> r = containment_reference file_path p s)"
    unfolding encloses_def using start by blast
  finally show ?thesis unfolding loop .
qed

text \<open>A second symbol on the very lines of the first gets no edge to the class around both.\<close>

lemma twin_symbol_unlinked:
  "let sym = (\<lambda>n a b. code_symbol_new 0 n SymFunction ''a.rs'' a b ''p'')
   in map (\<lambda>r. (cf_from_symbol r, cf_to_symbol r))
        (file_containment ''a.rs'' [sym ''C'' 1 10, sym ''get'' 2 3, sym ''set'' 2 3]) = [(''C'', ''get'')]"
  by code_simp

section \<open>What is written for a list of references\<close>

lemma relation_batch_counts:
  "length (fst (relation_batch h now p m qs)) + snd (relation_batch h now p m qs) = length qs"
  by (induction qs) (auto simp: Let_def split: prod.splits option.splits)

lemma relation_batch_members:
  "x \<in> set (fst (relation_batch h now p m qs)) \<Longrightarrow>
     sl_project_id x = p \<and> (\<exists>q \<in> set qs. sl_from_symbol x = pr_from_thing q \<and>
       sl_freshness_generation x = cf_freshness_generation (pr_reference q) \<and>
       sl_relation_type x = cf_relation_type (pr_reference q))"
  by (induction qs) (auto simp: Let_def symbol_relation_new_def split: prod.splits option.splits if_splits)

text \<open>Every reference is accounted for: it is either unresolved or one of the relations of the batch,
  whose count is reported as created when the batch is written; a refused batch counts as one failure
  and leaves the store as it was. Only the relations are touched, and only added to.
\<close>

theorem relations_accounted:
  "let (stats, db') = create_symbol_relations h now lookup_fails store_fails p references ix db;
       new = drop (length (cd_relations db)) (cd_relations db')
   in cd_relations db' = cd_relations db @ new \<and> db'\<lparr>cd_relations := cd_relations db\<rparr> = db \<and>
      rs_created stats = length new \<and> list_all (\<lambda>r. sl_project_id r = p) new \<and>
      (if rs_failed stats = 0 then rs_created stats + rs_unresolved stats = length references
       else rs_failed stats = 1 \<and> new = [] \<and> rs_unresolved stats < length references)"
proof (cases "references = []")
  case True
  then show ?thesis by (simp add: create_symbol_relations_def relation_stats_zero_def)
next
  case False
  define pend where "pend = map (resolve_reference h p ix) references"
  define found where "found = (if fallback_names pend = [] \<or> lookup_fails then []
      else find_symbols_by_names p (fallback_names pend) db)"
  obtain batch un where b: "relation_batch h now p (db_symbol_map found) pend = (batch, un)" by fastforce
  have cnt: "length batch + un = length references"
    using relation_batch_counts [of h now p "db_symbol_map found" pend] b by (simp add: pend_def)
  have mem: "list_all (\<lambda>r. sl_project_id r = p) batch"
    using relation_batch_members [of _ h now p "db_symbol_map found" pend] b by (auto simp: list_all_iff)
  have eq: "create_symbol_relations h now lookup_fails store_fails p references ix db =
      (let stats = relation_stats_zero\<lparr>rs_unresolved := un\<rparr>
       in if batch = [] then (stats, db) else if store_fails then (stats\<lparr>rs_failed := 1\<rparr>, db)
          else (stats\<lparr>rs_created := length batch\<rparr>, db\<lparr>cd_relations := cd_relations db @ batch\<rparr>))"
    using False b unfolding create_symbol_relations_def Let_def pend_def [symmetric] found_def [symmetric]
    by (simp add: create_symbol_relations_batch_def)
  have "batch \<noteq> [] \<Longrightarrow> un < length references" using cnt by (cases batch) auto
  then show ?thesis unfolding eq using cnt mem by (auto simp: relation_stats_zero_def Let_def)
qed

end
