(* ===== verification/IncrementalIndex.thy ===== *)
theory IncrementalIndex
  imports Chunker CodeRelations EmbeddingPipeline
begin

text \<open>
  Re-indexing changed files, \<open>incremental_index\<close> of \<open>src/codebase/indexer.rs\<close>. The file system, the
  grammars and queries of tree-sitter, the digests, the failures of the database and the order in which the
  parse tasks finish or time out are the fields of \<open>index_env\<close>; the tasks themselves compute, so a task is
  the file it was started with.
\<close>

datatype join_event = Finished nat | TimedOut

record index_env =
  ie_exists :: "string \<Rightarrow> bool"
  ie_read :: "string \<Rightarrow> string option"
  ie_grammar :: "language \<Rightarrow> string \<Rightarrow> ast option"
  ie_extractor :: "language \<Rightarrow> (string \<Rightarrow> string \<Rightarrow> string \<Rightarrow> code_symbol list \<times> code_reference list) option"
  ie_blake3 :: "string \<Rightarrow> string"
  ie_gen :: "nat \<Rightarrow> string"
  ie_hasher :: symbol_hasher
  ie_now :: datetime
  ie_parse_workers :: nat
  ie_panics :: "string \<Rightarrow> string option"
  ie_chunk_write_fails :: "string \<Rightarrow> string option"
  ie_symbol_write_fails :: "string \<Rightarrow> bool"
  ie_project_symbols_fail :: bool
  ie_lookup_fails :: bool
  ie_relation_write_fails :: bool
  ie_queue_open :: bool
  ie_files_order :: "string list \<Rightarrow> string list"
  ie_join :: "nat \<Rightarrow> join_event"
  ie_try_join :: "nat \<Rightarrow> nat option"

definition effective_parse_workers :: "index_env \<Rightarrow> nat" where
  "effective_parse_workers env = max (ie_parse_workers env) 2"

text \<open>\<open>CodeParser::parse_file\<close>.\<close>

definition parse_file :: "index_env \<Rightarrow> string \<Rightarrow> string \<Rightarrow> string \<Rightarrow> code_symbol list \<times> code_reference list" where
  "parse_file env file_path content p =
     (let language = detect_language_with_content file_path content in
      case ie_extractor env language of
        None \<Rightarrow> ([], [])
      | Some extract \<Rightarrow> extract content file_path p)"

record parse_task =
  pt_path :: string
  pt_content :: string
  pt_hash :: string

record incremental_result =
  ir_new_chunks :: "code_chunk list"
  ir_deleted_files :: "string list"
  ir_updated_files :: nat

definition incremental_result_default :: incremental_result where
  "incremental_result_default = \<lparr>ir_new_chunks = [], ir_deleted_files = [], ir_updated_files = 0\<rparr>"

record index_core =
  ic_db :: code_db
  ic_pipe :: pipeline
  ic_result :: incremental_result

section \<open>One finished task\<close>

definition enqueue_embedding :: "index_env \<Rightarrow> embedding_request \<Rightarrow> index_core \<Rightarrow> index_core" where
  "enqueue_embedding env r st = st\<lparr>ic_pipe := snd (try_send (ie_queue_open env) r (ic_pipe st))\<rparr>"

definition task_chunks :: "index_env \<Rightarrow> string \<Rightarrow> u64 option \<Rightarrow> parse_task \<Rightarrow> code_chunk list" where
  "task_chunks env p active t =
     chunk_file_for_generation (ie_grammar env) (ie_blake3 env) (ie_now env) (pt_path t) (pt_content t) p active"

definition task_symbols :: "index_env \<Rightarrow> string \<Rightarrow> u64 option \<Rightarrow> parse_task \<Rightarrow> code_symbol list" where
  "task_symbols env p active t =
     map (s_generation_update (\<lambda>_. active)) (fst (parse_file env (pt_path t) (pt_content t) p))"

definition task_references :: "index_env \<Rightarrow> string \<Rightarrow> parse_task \<Rightarrow> code_reference list" where
  "task_references env p t = snd (parse_file env (pt_path t) (pt_content t) p)"

definition write_chunks :: "index_env \<Rightarrow> code_chunk list \<Rightarrow> index_core \<Rightarrow> index_core" where
  "write_chunks env chunks st =
     (case create_code_chunks_batch (ie_gen env) chunks (ic_db st) of
        (results, db1) \<Rightarrow>
          foldl (\<lambda>st1 (i, c). enqueue_embedding env (code_chunk_embedding_request i (ck_content c))
                   (st1\<lparr>ic_result := (ic_result st1)\<lparr>ir_new_chunks := ir_new_chunks (ic_result st1) @ [c]\<rparr>\<rparr>))
            (st\<lparr>ic_db := db1\<rparr>) results)"

definition write_symbols :: "index_env \<Rightarrow> string \<Rightarrow> code_symbol list \<Rightarrow> index_core \<Rightarrow> index_core" where
  "write_symbols env path_str symbols st =
     (if symbols = [] then st
      else
        (case (if ie_symbol_write_fails env path_str then ([], ic_db st)
               else create_code_symbols_batch (ie_hasher env) (ie_now env) symbols (ic_db st)) of
           (created_ids, db1) \<Rightarrow>
             foldl (\<lambda>st1 (i, s). enqueue_embedding env
                      \<lparr>er_text = symbol_embed_text s, er_responder = None, er_target = Some (SymbolTarget i),
                       er_retry_count = 0\<rparr> st1)
               (st\<lparr>ic_db := db1\<rparr>) (zip created_ids symbols)))"

definition write_relations ::
  "index_env \<Rightarrow> string \<Rightarrow> u64 option \<Rightarrow> code_symbol list \<Rightarrow> code_reference list \<Rightarrow> index_core \<Rightarrow> index_core" where
  "write_relations env p active symbols references st =
     (let all_refs = references @ detect_containment_references (ie_files_order env) symbols in
      if all_refs = [] then st
      else
        (let ix0 = symbol_index_new;
             ix1 = (if ie_project_symbols_fail env then ix0
                    else index_add_batch ix0 (get_project_symbols p active (ic_db st)));
             ix = index_add_batch ix1 symbols
         in st\<lparr>ic_db := snd (case active of
                 Some g \<Rightarrow> create_symbol_relations_for_generation (ie_hasher env) (ie_now env) (ie_lookup_fails env)
                             (ie_relation_write_fails env) p all_refs ix g (ic_db st)
               | None \<Rightarrow> create_symbol_relations (ie_hasher env) (ie_now env) (ie_lookup_fails env)
                             (ie_relation_write_fails env) p all_refs ix (ic_db st))\<rparr>))"

text \<open>The macro \<open>drain_one_incr\<close>.\<close>

definition drain_one ::
  "index_env \<Rightarrow> string \<Rightarrow> u64 option \<Rightarrow> parse_task \<Rightarrow> index_core \<Rightarrow> unit app_result \<times> index_core" where
  "drain_one env p active t st =
     (case ie_panics env (pt_path t) of
        Some e \<Rightarrow> (Inl (Internal (''incremental parse/chunk panicked: '' @ e)), st)
      | None \<Rightarrow>
          (case ie_chunk_write_fails env (pt_path t) of
             Some e \<Rightarrow> (Inl (Internal (''failed to persist incremental code chunks for '' @ pt_path t @ '': '' @ e)), st)
           | None \<Rightarrow>
               (let st1 = write_chunks env (task_chunks env p active t) st;
                    symbols = task_symbols env p active t;
                    st2 = write_symbols env (pt_path t) symbols st1;
                    st3 = write_relations env p active symbols (task_references env p t) st2;
                    st4 = st3\<lparr>ic_db := set_file_hash p (pt_path t) (pt_hash t) (ic_db st3)\<rparr>
                in (Inr (), st4\<lparr>ic_result := (ic_result st4)
                      \<lparr>ir_updated_files := ir_updated_files (ic_result st4) + 1\<rparr>\<rparr>))))"

section \<open>The loop over the changed paths\<close>

definition forget_file :: "string \<Rightarrow> string \<Rightarrow> code_db \<Rightarrow> nat \<times> code_db" where
  "forget_file p f db =
     (case delete_chunks_by_path p f db of
        (deleted, db1) \<Rightarrow> (deleted, delete_file_hash p f (delete_symbols_by_path p f db1)))"

definition push_deleted :: "string \<Rightarrow> index_core \<Rightarrow> index_core" where
  "push_deleted f st = st\<lparr>ic_result := (ic_result st)\<lparr>ir_deleted_files := ir_deleted_files (ic_result st) @ [f]\<rparr>\<rparr>"

definition remove_nth :: "nat \<Rightarrow> 'a list \<Rightarrow> 'a list" where
  "remove_nth i xs = take i xs @ drop (Suc i) xs"

text \<open>The tasks in flight, and the number of joins so far, which indexes the schedule.\<close>

record parse_set =
  ps_tasks :: "parse_task list"
  ps_joins :: nat

definition clear_file :: "string \<Rightarrow> string \<Rightarrow> code_db \<Rightarrow> code_db" where
  "clear_file p f db = delete_symbols_by_path p f (snd (delete_chunks_by_path p f db))"

text \<open>Starting the task of a file, which may first have to wait for another task to finish.\<close>

definition start_task ::
  "index_env \<Rightarrow> string \<Rightarrow> u64 option \<Rightarrow> parse_task \<Rightarrow> index_core \<times> parse_set \<Rightarrow>
     unit app_result \<times> index_core \<times> parse_set" where
  "start_task env p active task = (\<lambda>(st, ps).
     (let n = length (ps_tasks ps)
      in if n \<ge> effective_parse_workers env then
           (case ie_join env (ps_joins ps) of
              Finished k \<Rightarrow>
                (let i = k mod n;
                     ps1 = \<lparr>ps_tasks = remove_nth i (ps_tasks ps), ps_joins = Suc (ps_joins ps)\<rparr>
                 in case drain_one env p active (ps_tasks ps ! i) st of
                      (Inl e, st2) \<Rightarrow> (Inl e, st2, ps1)
                    | (Inr u, st2) \<Rightarrow> (Inr (), st2, ps1\<lparr>ps_tasks := ps_tasks ps1 @ [task]\<rparr>))
            | TimedOut \<Rightarrow> (Inr (), st, ps\<lparr>ps_joins := Suc (ps_joins ps)\<rparr>))
         else (Inr (), st, ps\<lparr>ps_tasks := ps_tasks ps @ [task]\<rparr>)))"

definition process_path ::
  "index_env \<Rightarrow> string \<Rightarrow> u64 option \<Rightarrow> string \<Rightarrow> index_core \<times> parse_set \<Rightarrow>
     unit app_result \<times> index_core \<times> parse_set" where
  "process_path env p active path_str = (\<lambda>(st, ps).
     (if \<not> ie_exists env path_str then
        (case forget_file p path_str (ic_db st) of
           (deleted, db1) \<Rightarrow>
             (let st1 = st\<lparr>ic_db := db1\<rparr>
              in (Inr (), if deleted > 0 then push_deleted path_str st1 else st1, ps)))
      else
        (case ie_read env path_str of
           None \<Rightarrow> (Inr (), st, ps)
         | Some content \<Rightarrow>
             if is_generated_source_content content then
               (Inr (), push_deleted path_str (st\<lparr>ic_db := snd (forget_file p path_str (ic_db st))\<rparr>), ps)
             else
               (let new_hash = ie_blake3 env content in
                if get_file_hash p path_str (ic_db st) = Some new_hash then (Inr (), st, ps)
                else start_task env p active \<lparr>pt_path = path_str, pt_content = content, pt_hash = new_hash\<rparr>
                       (st\<lparr>ic_db := clear_file p path_str (ic_db st)\<rparr>, ps)))))"

fun process_paths ::
  "index_env \<Rightarrow> string \<Rightarrow> u64 option \<Rightarrow> string list \<Rightarrow> index_core \<times> parse_set \<Rightarrow>
     unit app_result \<times> index_core \<times> parse_set" where
  "process_paths env p active [] s = (Inr (), s)"
| "process_paths env p active (f # fs) s =
     (case process_path env p active f s of
        (Inl e, s1) \<Rightarrow> (Inl e, s1)
      | (Inr u, s1) \<Rightarrow> process_paths env p active fs s1)"

lemma remove_nth_shorter: "i < length xs \<Longrightarrow> length (remove_nth i xs) < length xs"
  by (simp add: remove_nth_def)

text \<open>The final drain.\<close>

function final_drain ::
  "index_env \<Rightarrow> string \<Rightarrow> u64 option \<Rightarrow> nat \<Rightarrow> nat \<Rightarrow> parse_task list \<Rightarrow> index_core \<Rightarrow> unit app_result \<times> index_core" where
  "final_drain env p active consecutive joins tasks st =
     (if tasks = [] then (Inr (), st)
      else
        (let n = length tasks in
         case ie_join env joins of
           Finished k \<Rightarrow>
             (case drain_one env p active (tasks ! (k mod n)) st of
                (Inl e, st1) \<Rightarrow> (Inl e, st1)
              | (Inr u, st1) \<Rightarrow> final_drain env p active 0 (Suc joins) (remove_nth (k mod n) tasks) st1)
         | TimedOut \<Rightarrow>
             (case ie_try_join env joins of
                Some k \<Rightarrow>
                  (case drain_one env p active (tasks ! (k mod n)) st of
                     (Inl e, st1) \<Rightarrow> (Inl e, st1)
                   | (Inr u, st1) \<Rightarrow> final_drain env p active 0 (Suc joins) (remove_nth (k mod n) tasks) st1)
              | None \<Rightarrow>
                  if consecutive + 1 > n then (Inr (), st)
                  else final_drain env p active (consecutive + 1) (Suc joins) tasks st)))"
  by pat_completeness auto

termination
  by (relation "(\<lambda>(env, p, active, consecutive, joins, tasks, st). length tasks) <*mlex*>
       measure (\<lambda>(env, p, active, consecutive, joins, tasks, st). Suc (length tasks) - consecutive)")
    (auto simp: mlex_leq mlex_less wf_mlex remove_nth_shorter)

declare final_drain.simps [simp del]

definition incremental_index ::
  "index_env \<Rightarrow> string \<Rightarrow> string list \<Rightarrow> code_db \<Rightarrow> pipeline \<Rightarrow> incremental_result app_result \<times> code_db \<times> pipeline" where
  "incremental_index env p changed_paths db pipe =
     (let active = get_active_generation p db;
          st0 = \<lparr>ic_db = db, ic_pipe = pipe, ic_result = incremental_result_default\<rparr>
      in case process_paths env p active changed_paths (st0, \<lparr>ps_tasks = [], ps_joins = 0\<rparr>) of
           (Inl e, st, ps) \<Rightarrow> (Inl e, ic_db st, ic_pipe st)
         | (Inr u, st, ps) \<Rightarrow>
             (case final_drain env p active 0 (ps_joins ps) (ps_tasks ps) st of
                (Inl e, st1) \<Rightarrow> (Inl e, ic_db st1, ic_pipe st1)
              | (Inr u, st1) \<Rightarrow> (Inr (ic_result st1), ic_db st1, ic_pipe st1)))"

section \<open>What one task changes\<close>

lemma foldl_keeps: "(\<And>s x. g (step s x) = g s) \<Longrightarrow> g (foldl step s xs) = g s"
  by (induction xs arbitrary: s) simp_all

lemma enqueue_db [simp]: "ic_db (enqueue_embedding env r st) = ic_db st"
  by (simp add: enqueue_embedding_def)

lemma write_chunks_db [simp]:
  "ic_db (write_chunks env chunks st) = snd (create_code_chunks_batch (ie_gen env) chunks (ic_db st))"
proof (cases "create_code_chunks_batch (ie_gen env) chunks (ic_db st)")
  case (Pair results db1)
  then show ?thesis
    by (simp add: write_chunks_def) (subst foldl_keeps [where g = ic_db], auto split: prod.split)
qed

text \<open>The part of the store that symbols and relations leave alone.\<close>

definition same_chunks :: "code_db \<Rightarrow> code_db \<Rightarrow> bool" where
  "same_chunks db db' \<longleftrightarrow> cd_chunks db' = cd_chunks db \<and> cd_hashes db' = cd_hashes db \<and> cd_next db' = cd_next db \<and>
     cd_active db' = cd_active db \<and> cd_status db' = cd_status db \<and> cd_manifest db' = cd_manifest db"

lemma same_chunks_refl [simp]: "same_chunks db db"
  by (simp add: same_chunks_def)

lemma same_chunks_trans: "same_chunks a b \<Longrightarrow> same_chunks b c \<Longrightarrow> same_chunks a c"
  by (simp add: same_chunks_def)

lemma symbols_batch_same: "same_chunks db (snd (create_code_symbols_batch h now syms db))"
  by (simp add: create_code_symbols_batch_def same_chunks_def)

lemma write_symbols_same: "same_chunks (ic_db st) (ic_db (write_symbols env f syms st))"
proof -
  define r where "r = (if ie_symbol_write_fails env f then ([], ic_db st)
      else create_code_symbols_batch (ie_hasher env) (ie_now env) syms (ic_db st))"
  have "same_chunks (ic_db st) (snd r)" using symbols_batch_same by (simp add: r_def)
  then show ?thesis
    unfolding write_symbols_def r_def [symmetric]
    by (simp split: prod.split) (subst foldl_keeps [where g = ic_db], auto split: prod.split)
qed

lemma relations_same: "same_chunks db (snd (create_symbol_relations h now a b p refs ix db))"
  unfolding create_symbol_relations_def
  by (simp add: create_symbol_relations_batch_def same_chunks_def Let_def split: prod.split)

lemma write_relations_same: "same_chunks (ic_db st) (ic_db (write_relations env p active syms refs st))"
  using relations_same
  by (auto simp: write_relations_def create_symbol_relations_for_generation_def Let_def split: option.split)

lemma same_chunks_view: "same_chunks db db' \<Longrightarrow> file_view p f db' = file_view p f db \<and> other_projects p db' = other_projects p db"
  unfolding same_chunks_def by (intro file_view_same) simp_all

lemma task_chunks_ok: "list_all (\<lambda>c. ck_id c = None \<and> chunk_at p (pt_path t) c) (task_chunks env p active t)"
  using chunk_file_stamped [of "pt_path t" p active "ie_blake3 env" "ie_grammar env" "ie_now env" "pt_content t"]
  by (auto simp: task_chunks_def list_all_iff chunk_at_def)

text \<open>No panics and no refused writes.\<close>

definition reliable :: "index_env \<Rightarrow> bool" where
  "reliable env \<longleftrightarrow> (\<forall>f. ie_panics env f = None \<and> ie_chunk_write_fails env f = None)"

definition stored_task :: "index_env \<Rightarrow> string \<Rightarrow> u64 option \<Rightarrow> parse_task \<Rightarrow> code_chunk list \<times> string option" where
  "stored_task env p active t = (task_chunks env p active t, Some (pt_hash t))"

lemma drain_one_view:
  assumes "drain_one env p active t st = (r, st')"
  shows "case r of
      Inl e \<Rightarrow> st' = st
    | Inr u \<Rightarrow> file_view p f (ic_db st') =
        (if f = pt_path t then (chunks_at p f (ic_db st) @ task_chunks env p active t, Some (pt_hash t))
         else file_view p f (ic_db st))"
    and "other_projects p (ic_db st') = other_projects p (ic_db st)"
proof -
  define st1 where "st1 = write_chunks env (task_chunks env p active t) st"
  define st2 where "st2 = write_symbols env (pt_path t) (task_symbols env p active t) st1"
  define st3 where "st3 = write_relations env p active (task_symbols env p active t) (task_references env p t) st2"
  have s: "same_chunks (ic_db st1) (ic_db st3)"
    unfolding st3_def st2_def by (rule same_chunks_trans [OF write_symbols_same write_relations_same])
  note v = same_chunks_view [OF s, of p]
  have v1: "file_view p g (ic_db st1) = (chunks_at p g (ic_db st) @ (if g = pt_path t then task_chunks env p active t else []),
      get_file_hash p g (ic_db st))" for g
    unfolding st1_def write_chunks_db by (rule create_batch_view(1) [OF task_chunks_ok])
  have o1: "other_projects p (ic_db st1) = other_projects p (ic_db st)"
    unfolding st1_def write_chunks_db by (rule create_batch_view(2) [OF task_chunks_ok])
  have final: "file_view p f (set_file_hash p (pt_path t) (pt_hash t) (ic_db st3)) =
      (if f = pt_path t then (chunks_at p f (ic_db st) @ task_chunks env p active t, Some (pt_hash t))
       else file_view p f (ic_db st))"
    unfolding set_hash_view using v [of f] v1 [of f] by (simp add: file_view_def)
  show "case r of Inl e \<Rightarrow> st' = st
    | Inr u \<Rightarrow> file_view p f (ic_db st') =
        (if f = pt_path t then (chunks_at p f (ic_db st) @ task_chunks env p active t, Some (pt_hash t))
         else file_view p f (ic_db st))"
    using assms final
    by (auto simp: drain_one_def Let_def st1_def [symmetric] st2_def [symmetric] st3_def [symmetric] split: option.splits)
  show "other_projects p (ic_db st') = other_projects p (ic_db st)"
    using assms o1 v
    by (auto simp: drain_one_def Let_def st1_def [symmetric] st2_def [symmetric] st3_def [symmetric] split: option.splits)
qed

lemma drain_one_reliable: "reliable env \<Longrightarrow> \<exists>st'. drain_one env p active t st = (Inr (), st')"
  by (simp add: reliable_def drain_one_def Let_def)

lemma clear_view:
  "file_view p f (clear_file p g db) = (if f = g then [] else chunks_at p f db, get_file_hash p f db)"
  "other_projects p (clear_file p g db) = other_projects p db"
  by (simp_all add: clear_file_def delete_chunks_view)

lemma push_deleted_db [simp]: "ic_db (push_deleted f st) = ic_db st"
  by (simp add: push_deleted_def)

lemma forget_clear: "snd (forget_file p f db) = delete_file_hash p f (clear_file p f db)"
  by (simp add: forget_file_def clear_file_def split: prod.split)

lemma forget_view:
  "file_view p f (snd (forget_file p g db)) = (if f = g then ([], None) else file_view p f db)"
  "other_projects p (snd (forget_file p g db)) = other_projects p db"
  unfolding forget_clear delete_hash_view using clear_view(1) [of p f g db] clear_view(2) [of p g db]
  by (auto simp: file_view_def)

text \<open>The ways a path can go.\<close>

lemma process_path_cases:
  assumes "process_path env p active f (st, ps) = (r, st', ps')"
  obtains
    (gone) "r = Inr ()" "ps' = ps" "ic_db st' = snd (forget_file p f (ic_db st))"
      "\<not> ie_exists env f \<or> (\<exists>c. ie_exists env f \<and> ie_read env f = Some c \<and> is_generated_source_content c)"
  | (kept) "r = Inr ()" "ps' = ps" "st' = st" "ie_exists env f"
      "ie_read env f = None \<or> (\<exists>c. ie_read env f = Some c \<and> \<not> is_generated_source_content c \<and>
         get_file_hash p f (ic_db st) = Some (ie_blake3 env c))"
  | (changed) c where "ie_exists env f" "ie_read env f = Some c" "\<not> is_generated_source_content c"
      "get_file_hash p f (ic_db st) \<noteq> Some (ie_blake3 env c)"
      "start_task env p active \<lparr>pt_path = f, pt_content = c, pt_hash = ie_blake3 env c\<rparr>
         (st\<lparr>ic_db := clear_file p f (ic_db st)\<rparr>, ps) = (r, st', ps')"
proof (cases "ie_exists env f")
  case False
  then have "r = Inr ()" "ps' = ps" "ic_db st' = snd (forget_file p f (ic_db st))"
    using assms by (auto simp: process_path_def Let_def split: prod.splits if_splits)
  with gone False show ?thesis by blast
next
  case ex: True
  show ?thesis
  proof (cases "ie_read env f")
    case None
    with ex assms kept show ?thesis by (simp add: process_path_def)
  next
    case (Some c)
    then show ?thesis
      using ex assms gone kept changed
      by (cases "is_generated_source_content c"; cases "get_file_hash p f (ic_db st) = Some (ie_blake3 env c)")
        (auto simp: process_path_def Let_def)
  qed
qed

lemma start_task_cases:
  assumes "start_task env p active task (st, ps) = (r, st', ps')"
  obtains
    (room) "length (ps_tasks ps) < effective_parse_workers env" "r = Inr ()" "st' = st"
      "ps_tasks ps' = ps_tasks ps @ [task]"
  | (drained) i where "i < length (ps_tasks ps)" "drain_one env p active (ps_tasks ps ! i) st = (Inr (), st')" "r = Inr ()"
      "ps_tasks ps' = remove_nth i (ps_tasks ps) @ [task]"
  | (failed) i e where "i < length (ps_tasks ps)" "drain_one env p active (ps_tasks ps ! i) st = (Inl e, st')" "r = Inl e"
      "ps_tasks ps' = remove_nth i (ps_tasks ps)"
  | (skipped) "ie_join env (ps_joins ps) = TimedOut" "r = Inr ()" "st' = st" "ps_tasks ps' = ps_tasks ps"
proof (cases "length (ps_tasks ps) \<ge> effective_parse_workers env")
  case False
  with assms room show ?thesis by (auto simp: start_task_def Let_def)
next
  case full: True
  then have ne: "length (ps_tasks ps) > 0" unfolding effective_parse_workers_def by linarith
  show ?thesis
  proof (cases "ie_join env (ps_joins ps)")
    case TimedOut
    with full assms skipped show ?thesis by (auto simp: start_task_def Let_def)
  next
    case (Finished k)
    have i: "k mod length (ps_tasks ps) < length (ps_tasks ps)" using ne by simp
    obtain r1 st1 where d: "drain_one env p active (ps_tasks ps ! (k mod length (ps_tasks ps))) st = (r1, st1)" by fastforce
    show ?thesis
    proof (cases r1)
      case (Inl e)
      with Finished full assms d have "r = Inl e" "st' = st1"
        "ps_tasks ps' = remove_nth (k mod length (ps_tasks ps)) (ps_tasks ps)"
        by (auto simp: start_task_def Let_def)
      with failed [OF i] d Inl show ?thesis by simp
    next
      case (Inr u)
      with Finished full assms d have "r = Inr ()" "st' = st1"
        "ps_tasks ps' = remove_nth (k mod length (ps_tasks ps)) (ps_tasks ps) @ [task]"
        by (auto simp: start_task_def Let_def)
      with drained [OF i] d Inr show ?thesis by simp
    qed
  qed
qed

lemma final_drain_cases:
  obtains (empty) "tasks = []" "final_drain env p active k joins tasks st = (Inr (), st)"
  | (pick) i where "i < length tasks" "final_drain env p active k joins tasks st =
      (case drain_one env p active (tasks ! i) st of
         (Inl e, st1) \<Rightarrow> (Inl e, st1)
       | (Inr u, st1) \<Rightarrow> final_drain env p active 0 (Suc joins) (remove_nth i tasks) st1)"
  | (wait) "k + 1 \<le> length tasks" "final_drain env p active k joins tasks st =
      final_drain env p active (k + 1) (Suc joins) tasks st"
  | (abort) "ie_join env joins = TimedOut" "final_drain env p active k joins tasks st = (Inr (), st)"
proof (cases "tasks = []")
  case True
  with empty show ?thesis by (simp add: final_drain.simps)
next
  case ne: False
  show ?thesis
  proof (cases "ie_join env joins")
    case (Finished i)
    with ne pick [of "i mod length tasks"] show ?thesis by (simp add: final_drain.simps [of env p active k joins tasks st] Let_def)
  next
    case TimedOut
    show ?thesis
    proof (cases "ie_try_join env joins")
      case (Some i)
      with ne TimedOut pick [of "i mod length tasks"] show ?thesis
        by (simp add: final_drain.simps [of env p active k joins tasks st] Let_def)
    next
      case None
      with ne TimedOut wait abort show ?thesis
        by (cases "k + 1 > length tasks") (simp_all add: final_drain.simps [of env p active k joins tasks st] Let_def)
    qed
  qed
qed

lemma final_drain_rule:
  assumes run: "final_drain env p active k joins tasks st = (r, st')"
    and empty: "\<And>st. Q [] st (Inr ()) st"
    and abort: "\<And>j tasks st. ie_join env j = TimedOut \<Longrightarrow> Q tasks st (Inr ()) st"
    and fail: "\<And>i tasks st e st1. i < length tasks \<Longrightarrow> drain_one env p active (tasks ! i) st = (Inl e, st1) \<Longrightarrow>
      Q tasks st (Inl e) st1"
    and pick: "\<And>i tasks st st1 r st'. i < length tasks \<Longrightarrow> drain_one env p active (tasks ! i) st = (Inr (), st1) \<Longrightarrow>
      Q (remove_nth i tasks) st1 r st' \<Longrightarrow> Q tasks st r st'"
  shows "Q tasks st r st'"
  using run
proof (induction "length tasks * (length tasks + 2) + (Suc (length tasks) - k)" arbitrary: k joins tasks st rule: less_induct)
  case less
  show ?case
  proof (cases rule: final_drain_cases [of tasks env p active k joins st])
    case (pick i)
    obtain r1 st1 where d: "drain_one env p active (tasks ! i) st = (r1, st1)" by fastforce
    show ?thesis
    proof (cases r1)
      case (Inl e)
      with d pick less.prems fail [of i tasks st e st1] show ?thesis by simp
    next
      case (Inr u)
      have len: "length (remove_nth i tasks) = length tasks - 1" using pick(1) by (simp add: remove_nth_def)
      obtain n where n: "length tasks = Suc n" using pick(1) by (cases "length tasks") auto
      have "length (remove_nth i tasks) * (length (remove_nth i tasks) + 2) + (Suc (length (remove_nth i tasks)) - 0) <
          length tasks * (length tasks + 2) + (Suc (length tasks) - k)"
        unfolding len n by simp
      from less.hyps [OF this] d Inr pick(2) less.prems have "Q (remove_nth i tasks) st1 r st'" by simp
      with assms(5) [OF pick(1)] d Inr show ?thesis by simp
    qed
  next
    case wait
    then show ?thesis using less.prems less.hyps [of tasks "k + 1" "Suc joins" st] by simp
  qed (use less.prems empty abort in auto)
qed

section \<open>What every step of a run keeps\<close>

text \<open>A relation between the store before and after that every single change respects holds for a whole run.\<close>

locale index_steps =
  fixes env :: index_env
    and p :: string
    and R :: "code_db \<Rightarrow> code_db \<Rightarrow> bool"
  assumes same: "R db db"
    and after: "R a b \<Longrightarrow> R b c \<Longrightarrow> R a c"
    and forgets: "R db (snd (forget_file p f db))"
    and clears: "R db (clear_file p f db)"
    and drains: "drain_one env p active t st = (r, st') \<Longrightarrow> R (ic_db st) (ic_db st')"
begin

lemma start_task: "start_task env p active task (st, ps) = (r, st', ps') \<Longrightarrow> R (ic_db st) (ic_db st')"
  by (erule start_task_cases) (auto dest: drains intro: same)

lemma process_path: "process_path env p active f (st, ps) = (r, st', ps') \<Longrightarrow> R (ic_db st) (ic_db st')"
  by (erule process_path_cases) (auto dest!: start_task intro: same forgets after [OF clears])

lemma process_paths: "process_paths env p active fs (st, ps) = (r, st', ps') \<Longrightarrow> R (ic_db st) (ic_db st')"
proof (induction fs arbitrary: st ps)
  case (Cons f fs)
  obtain r1 st1 ps1 where s: "process_path env p active f (st, ps) = (r1, st1, ps1)" by (metis prod_cases3)
  with Cons.prems Cons.IH [of st1 ps1] show ?case
    by (cases r1) (auto dest!: process_path intro: after)
qed (simp add: same)

lemma final_drain: "final_drain env p active k joins tasks st = (r, st') \<Longrightarrow> R (ic_db st) (ic_db st')"
  by (erule final_drain_rule [where Q = "\<lambda>tasks st r st'. R (ic_db st) (ic_db st')"])
    (auto dest: drains intro: same after)

lemma run:
  assumes "incremental_index env p changed_paths db pipe = (r, db', pipe')"
  shows "R db db'"
proof -
  obtain r0 st ps where s: "process_paths env p (get_active_generation p db) changed_paths
      (\<lparr>ic_db = db, ic_pipe = pipe, ic_result = incremental_result_default\<rparr>, \<lparr>ps_tasks = [], ps_joins = 0\<rparr>) = (r0, st, ps)"
    by (metis prod_cases3)
  obtain r1 st1 where f: "final_drain env p (get_active_generation p db) 0 (ps_joins ps) (ps_tasks ps) st = (r1, st1)"
    by fastforce
  show ?thesis
    using process_paths [OF s] final_drain [OF f] s f assms
    by (auto simp: incremental_index_def Let_def split: sum.splits intro: after)
qed

end

text \<open>Other projects; the tables that indexing does not write; and the ids of the chunks.\<close>

interpretation others: index_steps env p "\<lambda>db db'. other_projects p db' = other_projects p db" for env p
  by unfold_locales (auto simp: forget_view(2) clear_view(2) dest: drain_one_view(2))

definition same_tables :: "code_db \<Rightarrow> code_db \<Rightarrow> bool" where
  "same_tables db db' \<longleftrightarrow> cd_active db' = cd_active db \<and> cd_status db' = cd_status db \<and> cd_manifest db' = cd_manifest db"

lemma clear_frame:
  "cd_chunks (clear_file p f db) = filter (\<lambda>c. \<not> chunk_at p f c) (cd_chunks db)"
  "cd_next (clear_file p f db) = cd_next db" "same_tables db (clear_file p f db)"
  by (simp_all add: clear_file_def delete_symbols_by_path_def delete_chunks_by_path_def same_tables_def Let_def)

lemma drain_one_store:
  assumes "drain_one env p active t st = (r, st')"
  shows "ic_db st' = ic_db st \<or>
    (\<exists>db. same_chunks (snd (create_code_chunks_batch (ie_gen env) (task_chunks env p active t) (ic_db st))) db \<and>
       ic_db st' = set_file_hash p (pt_path t) (pt_hash t) db)"
proof -
  define st1 where "st1 = write_chunks env (task_chunks env p active t) st"
  define st2 where "st2 = write_symbols env (pt_path t) (task_symbols env p active t) st1"
  define st3 where "st3 = write_relations env p active (task_symbols env p active t) (task_references env p t) st2"
  have "same_chunks (ic_db st1) (ic_db st3)"
    unfolding st3_def st2_def by (rule same_chunks_trans [OF write_symbols_same write_relations_same])
  moreover have "ic_db st1 = snd (create_code_chunks_batch (ie_gen env) (task_chunks env p active t) (ic_db st))"
    by (simp add: st1_def)
  moreover have "ic_db st' = ic_db st \<or> ic_db st' = set_file_hash p (pt_path t) (pt_hash t) (ic_db st3)"
    using assms by (auto simp: drain_one_def Let_def st1_def [symmetric] st2_def [symmetric] st3_def [symmetric] split: option.splits)
  ultimately show ?thesis by metis
qed

lemma create_batch_tables: "same_tables db (snd (create_code_chunks_batch gen chunks db))"
  by (simp add: create_code_chunks_batch_def same_tables_def split: prod.split)

interpretation tables: index_steps env p same_tables for env p
proof
  fix active t and st st' :: index_core and r
  assume "drain_one env p active t st = (r, st')"
  from drain_one_store [OF this] create_batch_tables [of "ic_db st" "ie_gen env" "task_chunks env p active t"]
  show "same_tables (ic_db st) (ic_db st')" by (auto simp: same_tables_def same_chunks_def set_file_hash_def)
qed (auto simp: same_tables_def forget_clear delete_file_hash_def clear_frame(3) [unfolded same_tables_def])

interpretation ids: index_steps env p
  "\<lambda>db db'. inj (ie_gen env) \<longrightarrow> chunk_ids_ok (ie_gen env) db \<longrightarrow> chunk_ids_ok (ie_gen env) db'" for env p
proof
  fix active t and st st' :: index_core and r
  assume d: "drain_one env p active t st = (r, st')"
  have "list_all (\<lambda>c. ck_id c = None) (task_chunks env p active t)"
    using task_chunks_ok [of p t env active] by (simp add: list_all_iff)
  from drain_one_store [OF d] create_batch_ids_ok [OF _ _ this, of "ie_gen env" "ic_db st"]
  show "inj (ie_gen env) \<longrightarrow> chunk_ids_ok (ie_gen env) (ic_db st) \<longrightarrow> chunk_ids_ok (ie_gen env) (ic_db st')"
    unfolding chunk_ids_ok_def same_chunks_def set_file_hash_def by (elim disjE exE conjE) simp_all
qed (auto simp: forget_clear delete_file_hash_def clear_frame intro: filter_ids_ok)

text \<open>Re-indexing files of one project leaves the chunks and the file hashes of every other project as they
  were, whatever fails, panics or times out on the way.
\<close>

theorem incremental_index_isolated:
  "let (r, db', pipe') = incremental_index env p changed_paths db pipe
   in other_projects p db' = other_projects p db"
  using others.run [of env p changed_paths db pipe] by (auto split: prod.split)

section \<open>The index catches up with the files\<close>

definition prompt :: "index_env \<Rightarrow> bool" where
  "prompt env \<longleftrightarrow> (\<forall>j. ie_join env j \<noteq> TimedOut)"

text \<open>What should be stored of a file, given what was stored before.\<close>

definition expected_view ::
  "index_env \<Rightarrow> string \<Rightarrow> u64 option \<Rightarrow> string \<Rightarrow> code_chunk list \<times> string option \<Rightarrow> code_chunk list \<times> string option" where
  "expected_view env p active f v =
     (if \<not> ie_exists env f then ([], None)
      else case ie_read env f of
             None \<Rightarrow> v
           | Some c \<Rightarrow>
               if is_generated_source_content c then ([], None)
               else if snd v = Some (ie_blake3 env c) then v
               else (chunk_file_for_generation (ie_grammar env) (ie_blake3 env) (ie_now env) f c p active,
                     Some (ie_blake3 env c)))"

text \<open>What is stored once the tasks in flight have finished.\<close>

definition effective_view ::
  "index_env \<Rightarrow> string \<Rightarrow> u64 option \<Rightarrow> parse_task list \<Rightarrow> code_db \<Rightarrow> string \<Rightarrow> code_chunk list \<times> string option" where
  "effective_view env p active tasks db f =
     (case find (\<lambda>t. pt_path t = f) tasks of
        Some t \<Rightarrow> stored_task env p active t | None \<Rightarrow> file_view p f db)"

definition tasks_ok :: "string \<Rightarrow> parse_task list \<Rightarrow> code_db \<Rightarrow> bool" where
  "tasks_ok p tasks db \<longleftrightarrow> distinct (map pt_path tasks) \<and> list_all (\<lambda>t. chunks_at p (pt_path t) db = []) tasks"

lemma remove_nth_split: "remove_nth (length us) (us @ t # vs) = us @ vs"
  by (simp add: remove_nth_def)

lemma find_append: "find P (xs @ ys) = (case find P xs of Some x \<Rightarrow> Some x | None \<Rightarrow> find P ys)"
  by (induction xs) auto

lemma find_path_None: "f \<notin> pt_path ` set ts \<Longrightarrow> find (\<lambda>t. pt_path t = f) ts = None"
  by (auto simp: find_None_iff)

lemma drain_effective:
  assumes "tasks_ok p tasks (ic_db st)" "i < length tasks" "drain_one env p active (tasks ! i) st = (Inr (), st')"
  shows "tasks_ok p (remove_nth i tasks) (ic_db st')"
    and "effective_view env p active (remove_nth i tasks) (ic_db st') f = effective_view env p active tasks (ic_db st) f"
    and "set (remove_nth i tasks) \<subseteq> set tasks"
proof -
  define us t vs where "us = take i tasks" and "t = tasks ! i" and "vs = drop (Suc i) tasks"
  have tasks: "tasks = us @ t # vs" using assms(2) by (simp add: us_def t_def vs_def id_take_nth_drop [symmetric])
  have rem: "remove_nth i tasks = us @ vs" by (simp add: remove_nth_def us_def vs_def)
  have d: "pt_path t \<notin> pt_path ` (set us \<union> set vs)" "distinct (map pt_path (us @ vs))"
    using assms(1) by (auto simp: tasks_ok_def tasks)
  have view: "file_view p g (ic_db st') = (if g = pt_path t then stored_task env p active t else file_view p g (ic_db st))" for g
  proof -
    have "chunks_at p (pt_path t) (ic_db st) = []" using assms(1) by (simp add: tasks_ok_def tasks)
    then show ?thesis using drain_one_view(1) [OF assms(3), of g]
      by (simp add: t_def [symmetric] stored_task_def)
  qed
  have "chunks_at p (pt_path s) (ic_db st') = []" if "s \<in> set us \<union> set vs" for s
  proof -
    have "pt_path s \<noteq> pt_path t" using d(1) that by (metis imageI)
    then show ?thesis using view [of "pt_path s"] assms(1) that
      by (auto simp: tasks_ok_def tasks file_view_def list_all_iff)
  qed
  then show "tasks_ok p (remove_nth i tasks) (ic_db st')"
    unfolding rem tasks_ok_def using d(2) by (auto simp: list_all_iff)
  show "effective_view env p active (remove_nth i tasks) (ic_db st') f = effective_view env p active tasks (ic_db st) f"
  proof (cases "f = pt_path t")
    case True
    then have "find (\<lambda>t. pt_path t = f) us = None" "find (\<lambda>t. pt_path t = f) (us @ vs) = None"
      using d(1) by (auto intro!: find_path_None)
    moreover have "find (\<lambda>t. pt_path t = f) tasks = Some t" using calculation(1) True by (simp add: tasks find_append)
    ultimately show ?thesis using True view [of f] by (simp add: effective_view_def rem)
  next
    case False
    then have "find (\<lambda>t. pt_path t = f) tasks = find (\<lambda>t. pt_path t = f) (us @ vs)" by (simp add: tasks find_append split: option.split)
    with False show ?thesis using view [of f] by (simp add: effective_view_def rem split: option.split)
  qed
  show "set (remove_nth i tasks) \<subseteq> set tasks" by (simp only: rem) (auto simp: tasks)
qed

lemma effective_snoc:
  "f \<notin> pt_path ` set tasks \<Longrightarrow> effective_view env p active (tasks @ [t]) db f =
     (if pt_path t = f then stored_task env p active t else effective_view env p active tasks db f)"
  by (simp add: effective_view_def find_append find_path_None)

lemma effective_snoc_other:
  "pt_path t \<noteq> f \<Longrightarrow> effective_view env p active (tasks @ [t]) db f = effective_view env p active tasks db f"
  by (simp add: effective_view_def find_append split: option.split)

lemma start_task_effective:
  assumes "prompt env" "reliable env" "tasks_ok p (ps_tasks ps) (ic_db st)"
    and "pt_path task \<notin> pt_path ` set (ps_tasks ps)" "chunks_at p (pt_path task) (ic_db st) = []"
    and run: "start_task env p active task (st, ps) = (r, st', ps')"
  shows "r = Inr () \<and> tasks_ok p (ps_tasks ps') (ic_db st') \<and>
    pt_path ` set (ps_tasks ps') \<subseteq> insert (pt_path task) (pt_path ` set (ps_tasks ps)) \<and>
    effective_view env p active (ps_tasks ps') (ic_db st') f =
      (if f = pt_path task then stored_task env p active task
       else effective_view env p active (ps_tasks ps) (ic_db st) f)"
  using run
proof (cases rule: start_task_cases)
  case room
  then show ?thesis
    using assms effective_snoc [OF assms(4), of env p active task "ic_db st"]
      effective_snoc_other [of task f env p active "ps_tasks ps" "ic_db st"]
    by (auto simp: tasks_ok_def)
next
  case (drained i)
  note e = drain_effective [OF assms(3) drained(1,2)]
  have fresh: "pt_path task \<notin> pt_path ` set (remove_nth i (ps_tasks ps))" using e(3) assms(4) by blast
  have "pt_path (ps_tasks ps ! i) \<noteq> pt_path task" using nth_mem [OF drained(1)] assms(4) by (metis imageI)
  then have "chunks_at p (pt_path task) (ic_db st') = []"
    using drain_one_view(1) [OF drained(2), of "pt_path task"] assms(5) by (simp add: file_view_def split: if_splits)
  with e(1) fresh have "tasks_ok p (remove_nth i (ps_tasks ps) @ [task]) (ic_db st')"
    by (auto simp: tasks_ok_def)
  with drained e(3) show ?thesis
    using e(2) [of f] effective_snoc [OF fresh, of env p active task "ic_db st'"]
      effective_snoc_other [of task f env p active "remove_nth i (ps_tasks ps)" "ic_db st'"]
    by auto
next
  case (failed i e)
  with drain_one_reliable [OF assms(2), of p active "ps_tasks ps ! i" st] show ?thesis by auto
next
  case skipped
  with assms(1) show ?thesis by (simp add: prompt_def)
qed

lemma process_path_effective:
  assumes "prompt env" "reliable env" "tasks_ok p (ps_tasks ps) (ic_db st)" "f \<notin> pt_path ` set (ps_tasks ps)"
    and run: "process_path env p active f (st, ps) = (r, st', ps')"
  shows "r = Inr () \<and> tasks_ok p (ps_tasks ps') (ic_db st') \<and>
    pt_path ` set (ps_tasks ps') \<subseteq> insert f (pt_path ` set (ps_tasks ps)) \<and>
    effective_view env p active (ps_tasks ps') (ic_db st') g =
      (if g = f then expected_view env p active f (effective_view env p active (ps_tasks ps) (ic_db st) f)
       else effective_view env p active (ps_tasks ps) (ic_db st) g)"
proof -
  have here: "effective_view env p active (ps_tasks ps) db f = file_view p f db" for db
    using find_path_None [OF assms(4)] by (simp add: effective_view_def)
  show ?thesis
    using run
  proof (cases rule: process_path_cases)
    case gone
    have v: "file_view p h (ic_db st') = (if h = f then ([], None) else file_view p h (ic_db st))" for h
      unfolding gone(3) by (rule forget_view(1))
    have "chunks_at p (pt_path t) (ic_db st') = []" if "t \<in> set (ps_tasks ps)" for t
      using v [of "pt_path t"] assms(3) that by (auto simp: tasks_ok_def list_all_iff file_view_def split: if_splits)
    then have ok: "tasks_ok p (ps_tasks ps) (ic_db st')" using assms(3) by (simp add: tasks_ok_def list_all_iff)
    have "expected_view env p active f (file_view p f (ic_db st)) = ([], None)"
      using gone(4) by (auto simp: expected_view_def)
    then show ?thesis using gone(1,2) ok v [of f] v [of g] here
      by (cases "g = f") (auto simp: effective_view_def split: option.split)
  next
    case kept
    have "expected_view env p active f (file_view p f (ic_db st)) = file_view p f (ic_db st)"
      using kept(4,5) by (auto simp: expected_view_def file_view_def)
    with kept assms(3) here show ?thesis by auto
  next
    case (changed c)
    define task where "task = \<lparr>pt_path = f, pt_content = c, pt_hash = ie_blake3 env c\<rparr>"
    define st1 where "st1 = st\<lparr>ic_db := clear_file p f (ic_db st)\<rparr>"
    have v: "file_view p h (ic_db st1) = (if h = f then [] else chunks_at p h (ic_db st), get_file_hash p h (ic_db st))" for h
      by (simp add: st1_def clear_view(1))
    have ok: "tasks_ok p (ps_tasks ps) (ic_db st1)"
      using assms(3) v by (auto simp: tasks_ok_def list_all_iff file_view_def)
    have "pt_path task \<notin> pt_path ` set (ps_tasks ps)" "chunks_at p (pt_path task) (ic_db st1) = []"
      using assms(4) v [of f] by (auto simp: task_def file_view_def)
    from start_task_effective [OF assms(1,2) ok this changed(5) [folded task_def st1_def], of g]
    have s: "r = Inr ()" "tasks_ok p (ps_tasks ps') (ic_db st')"
      "pt_path ` set (ps_tasks ps') \<subseteq> insert f (pt_path ` set (ps_tasks ps))"
      "effective_view env p active (ps_tasks ps') (ic_db st') g =
         (if g = f then stored_task env p active task else effective_view env p active (ps_tasks ps) (ic_db st1) g)"
      by (simp_all add: task_def)
    have "effective_view env p active (ps_tasks ps) (ic_db st1) g = effective_view env p active (ps_tasks ps) (ic_db st) g"
      if "g \<noteq> f" using v [of g] that by (simp add: effective_view_def file_view_def split: option.split)
    moreover have "expected_view env p active f (file_view p f (ic_db st)) = stored_task env p active task"
      using changed by (simp add: expected_view_def stored_task_def task_def task_chunks_def file_view_def)
    ultimately show ?thesis using s here by auto
  qed
qed

lemma process_paths_effective:
  assumes "prompt env" "reliable env"
  shows "tasks_ok p (ps_tasks ps) (ic_db st) \<Longrightarrow> distinct fs \<Longrightarrow> set fs \<inter> pt_path ` set (ps_tasks ps) = {} \<Longrightarrow>
    process_paths env p active fs (st, ps) = (r, st', ps') \<Longrightarrow>
    r = Inr () \<and> tasks_ok p (ps_tasks ps') (ic_db st') \<and>
    effective_view env p active (ps_tasks ps') (ic_db st') g =
      (if g \<in> set fs then expected_view env p active g (effective_view env p active (ps_tasks ps) (ic_db st) g)
       else effective_view env p active (ps_tasks ps) (ic_db st) g)"
proof (induction fs arbitrary: st ps)
  case (Cons f fs)
  obtain r1 st1 ps1 where s: "process_path env p active f (st, ps) = (r1, st1, ps1)" by (metis prod_cases3)
  have "f \<notin> pt_path ` set (ps_tasks ps)" using Cons.prems(3) by auto
  note e = process_path_effective [OF assms Cons.prems(1) this s]
  have ok: "tasks_ok p (ps_tasks ps1) (ic_db st1)" "r1 = Inr ()"
    "pt_path ` set (ps_tasks ps1) \<subseteq> insert f (pt_path ` set (ps_tasks ps))" using e by blast+
  have dis: "set fs \<inter> pt_path ` set (ps_tasks ps1) = {}" using ok(3) Cons.prems(2,3) by auto
  have "process_paths env p active fs (st1, ps1) = (r, st', ps')" using Cons.prems(4) s ok(2) by simp
  from Cons.IH [OF ok(1) _ dis this] Cons.prems(2) e [of g] show ?case by auto
qed simp

lemma final_drain_effective:
  assumes "prompt env" "reliable env" "tasks_ok p tasks (ic_db st)"
    and run: "final_drain env p active k joins tasks st = (r, st')"
  shows "r = Inr () \<and> file_view p f (ic_db st') = effective_view env p active tasks (ic_db st) f"
proof -
  let ?Q = "\<lambda>tasks st r st'. tasks_ok p tasks (ic_db st) \<longrightarrow>
    r = Inr () \<and> file_view p f (ic_db st') = effective_view env p active tasks (ic_db st) f"
  have "?Q tasks st r st'"
  proof (rule final_drain_rule [OF run, where Q = ?Q])
    fix i and tasks :: "parse_task list" and st e st1
    assume "drain_one env p active (tasks ! i) st = (Inl e, st1)"
    with drain_one_reliable [OF assms(2), of p active "tasks ! i" st] show "?Q tasks st (Inl e) st1" by auto
  next
    fix i tasks st st1 r st'
    assume d: "i < length tasks" "drain_one env p active (tasks ! i) st = (Inr (), st1)" "?Q (remove_nth i tasks) st1 r st'"
    show "?Q tasks st r st'"
    proof
      assume "tasks_ok p tasks (ic_db st)"
      from d(3) drain_effective(1,2) [OF this d(1,2)]
      show "r = Inr () \<and> file_view p f (ic_db st') = effective_view env p active tasks (ic_db st) f" by simp
    qed
  qed (use assms(1) in \<open>auto simp: prompt_def effective_view_def\<close>)
  with assms(3) show ?thesis by simp
qed

lemma prompt_run:
  assumes "prompt env" and "reliable env" and "distinct changed_paths"
  shows "let (r, db', pipe') = incremental_index env p changed_paths db pipe
    in \<not> isl r \<and>
       file_view p f db' =
         (if f \<in> set changed_paths then expected_view env p (get_active_generation p db) f (file_view p f db)
          else file_view p f db)"
proof -
  define active where "active = get_active_generation p db"
  obtain r st ps where s: "process_paths env p active changed_paths
      (\<lparr>ic_db = db, ic_pipe = pipe, ic_result = incremental_result_default\<rparr>, \<lparr>ps_tasks = [], ps_joins = 0\<rparr>) = (r, st, ps)"
    by (metis prod_cases3)
  obtain r1 st1 where d: "final_drain env p active 0 (ps_joins ps) (ps_tasks ps) st = (r1, st1)" by fastforce
  from process_paths_effective [OF assms(1,2) _ assms(3) _ s, where g = f]
  have e: "r = Inr ()" "tasks_ok p (ps_tasks ps) (ic_db st)"
    "effective_view env p active (ps_tasks ps) (ic_db st) f =
       (if f \<in> set changed_paths then expected_view env p active f (file_view p f db) else file_view p f db)"
    by (simp_all add: tasks_ok_def effective_view_def)
  from final_drain_effective [OF assms(1,2) e(2) d, where f = f] e s d show ?thesis
    by (simp add: incremental_index_def active_def Let_def)
qed

text \<open>C21: When no task panics, no write is refused and no task times out, re-indexing succeeds and, whatever the
  order in which the tasks finish, the chunks and the hash of every changed path are those of the file
  on disk: none for a file that is gone or is generated code, the old ones for a file that cannot be
  read or has the stored hash, the chunks of the new content otherwise. All other paths keep theirs.
\<close>

theorem incremental_index_catches_up:
  assumes "prompt env" and "reliable env" and "distinct changed_paths"
  shows "let (r, db', pipe') = incremental_index env p changed_paths db pipe
    in \<not> isl r \<and>
       file_view p f db' =
         (if f \<in> set changed_paths then expected_view env p (get_active_generation p db) f (file_view p f db)
          else file_view p f db)"
  using prompt_run [OF assms] .

section \<open>A task that times out\<close>

definition stuck :: "index_env \<Rightarrow> bool" where
  "stuck env \<longleftrightarrow> (\<forall>j. ie_join env j = TimedOut \<and> ie_try_join env j = None)"

lemma final_drain_stuck:
  assumes "stuck env" shows "final_drain env p active 0 joins [t] st = (Inr (), st)"
  using assms by (simp add: stuck_def final_drain.simps [of env p active 0] final_drain.simps [of env p active "Suc 0"] Let_def)

lemma incremental_single:
  assumes "get_file_hash p f db = x" "ie_exists env f" "ie_read env f = Some c" "\<not> is_generated_source_content c"
  shows "x = Some (ie_blake3 env c) \<Longrightarrow> incremental_index env p [f] db pipe = (Inr incremental_result_default, db, pipe)"
    and "x \<noteq> Some (ie_blake3 env c) \<Longrightarrow> stuck env \<Longrightarrow>
      incremental_index env p [f] db pipe = (Inr incremental_result_default, clear_file p f db, pipe)"
proof -
  have "\<not> effective_parse_workers env \<le> 0" by (simp add: effective_parse_workers_def)
  then have r: "process_paths env p active [f] (st, \<lparr>ps_tasks = [], ps_joins = 0\<rparr>) =
      (if get_file_hash p f (ic_db st) = Some (ie_blake3 env c) then (Inr (), st, \<lparr>ps_tasks = [], ps_joins = 0\<rparr>)
       else (Inr (), st\<lparr>ic_db := clear_file p f (ic_db st)\<rparr>,
             \<lparr>ps_tasks = [\<lparr>pt_path = f, pt_content = c, pt_hash = ie_blake3 env c\<rparr>], ps_joins = 0\<rparr>))" for active st
    using assms by (simp add: process_path_def start_task_def Let_def)
  show "x = Some (ie_blake3 env c) \<Longrightarrow> incremental_index env p [f] db pipe = (Inr incremental_result_default, db, pipe)"
    using assms(1) unfolding incremental_index_def Let_def r by (simp add: final_drain.simps)
  show "x \<noteq> Some (ie_blake3 env c) \<Longrightarrow> stuck env \<Longrightarrow>
      incremental_index env p [f] db pipe = (Inr incremental_result_default, clear_file p f db, pipe)"
    using assms(1) unfolding incremental_index_def Let_def r by (simp add: final_drain_stuck)
qed

text \<open>C22: A changed file whose parse task times out loses its chunks but keeps the hash of its old content, and the
  run reports success. When the file then returns to that old content it counts as unchanged: its chunks
  stay missing.
\<close>

theorem timeout_then_revert_loses_chunks:
  assumes "stuck env" and "ie_exists env f" and "ie_read env f = Some new_text" and "\<not> is_generated_source_content new_text"
    and "get_file_hash p f db = Some (ie_blake3 env old_text)" and "ie_blake3 env old_text \<noteq> ie_blake3 env new_text"
    and "\<not> is_generated_source_content old_text"
  shows "let (r, db1, pipe1) = incremental_index env p [f] db pipe;
             (r2, db2, pipe2) = incremental_index (env\<lparr>ie_read := (\<lambda>_. Some old_text)\<rparr>) p [f] db1 pipe1
         in r = Inr incremental_result_default \<and> r2 = Inr incremental_result_default \<and>
            chunks_at p f db2 = [] \<and> get_file_hash p f db2 = Some (ie_blake3 env old_text)"
proof -
  have view: "chunks_at p f (clear_file p f db) = []" "get_file_hash p f (clear_file p f db) = get_file_hash p f db"
    using clear_view(1) [of p f f db] by (simp_all add: file_view_def)
  have "incremental_index env p [f] db pipe = (Inr incremental_result_default, clear_file p f db, pipe)"
    by (rule incremental_single(2) [OF refl assms(2,3,4)]) (use assms in auto)
  moreover have "incremental_index (env\<lparr>ie_read := (\<lambda>_. Some old_text)\<rparr>) p [f] (clear_file p f db) pipe =
      (Inr incremental_result_default, clear_file p f db, pipe)"
    by (rule incremental_single(1) [OF refl]) (use assms view in auto)
  ultimately show ?thesis using view assms(5) by simp
qed

section \<open>Examples\<close>

definition example_env :: "join_event \<Rightarrow> index_env" where
  "example_env j =
     \<lparr>ie_exists = (\<lambda>f. f = ''a.sh''), ie_read = (\<lambda>_. Some ''echo new''), ie_grammar = (\<lambda>_ _. None),
      ie_extractor = (\<lambda>_. None), ie_blake3 = (\<lambda>s. s), ie_gen = dec_of_nat, ie_hasher = (\<lambda>_. 0), ie_now = 5,
      ie_parse_workers = 4, ie_panics = (\<lambda>_. None), ie_chunk_write_fails = (\<lambda>_. None),
      ie_symbol_write_fails = (\<lambda>_. False), ie_project_symbols_fail = False, ie_lookup_fails = False,
      ie_relation_write_fails = False, ie_queue_open = True, ie_files_order = (\<lambda>fs. fs), ie_join = (\<lambda>_. j),
      ie_try_join = (\<lambda>_. None)\<rparr>"

definition example_file_db :: code_db where
  "example_file_db = code_db_empty\<lparr>cd_hashes := [((''p'', ''a.sh''), ''echo old'')], cd_active := [(''p'', 1)]\<rparr>"

lemma short_not_generated: "length c < 10 \<Longrightarrow> \<not> is_generated_source_content c"
proof -
  assume "length c < 10"
  then have "length (str_lower (take GENERATED_SOURCE_HEADER_BYTES c)) < 10" by (simp add: str_lower_def)
  then have "\<not> str_contains (str_lower (take GENERATED_SOURCE_HEADER_BYTES c)) m" if "10 \<le> length m" for m
    using sublist_length_le [of m] that by fastforce
  then show ?thesis
    unfolding is_generated_source_content_def generated_source_header_matches_def Let_def by simp
qed

theorem timeout_then_revert_loses_chunks_witness:
  "case incremental_index (example_env TimedOut) ''p'' [''a.sh''] example_file_db (pipeline_new 4 ''m'' [] 1) of
     (r, db1, pipe1) \<Rightarrow> r = Inr incremental_result_default"
proof -
  have g: "\<not> is_generated_source_content ''echo new''" "\<not> is_generated_source_content ''echo old''"
    by (simp_all add: short_not_generated)
  have "stuck (example_env TimedOut)" "ie_exists (example_env TimedOut) ''a.sh''"
    "ie_read (example_env TimedOut) ''a.sh'' = Some ''echo new''"
    "get_file_hash ''p'' ''a.sh'' example_file_db = Some (ie_blake3 (example_env TimedOut) ''echo old'')"
    "ie_blake3 (example_env TimedOut) ''echo old'' \<noteq> ie_blake3 (example_env TimedOut) ''echo new''"
    by (simp_all add: stuck_def example_env_def get_file_hash_def example_file_db_def)
  from timeout_then_revert_loses_chunks [OF this(1-3) g(1) this(4,5) g(2), of "pipeline_new 4 ''m'' [] 1"]
  show ?thesis by (auto split: prod.splits)
qed

theorem incremental_index_catches_up_witness:
  "case incremental_index (example_env (Finished 0)) ''p'' [''a.sh'', ''b.sh''] example_file_db (pipeline_new 4 ''m'' [] 1) of
     (r, db1, pipe1) \<Rightarrow> file_view ''p'' ''b.sh'' db1 = ([], None)"
proof -
  have "prompt (example_env (Finished 0))" "reliable (example_env (Finished 0))"
    by (simp_all add: prompt_def reliable_def example_env_def)
  from incremental_index_catches_up [OF this, of "[''a.sh'', ''b.sh'']" "''p''" example_file_db "pipeline_new 4 ''m'' [] 1" "''b.sh''"]
  show ?thesis by (auto simp: expected_view_def example_env_def split: prod.splits)
qed

end
