(* ===== verification/CodeSearchIndex.thy ===== *)
theory CodeSearchIndex
  imports CodeStore LexicalIndex
begin

text \<open>
  The lexical index of the code, \<open>CodeSearchEngine\<close> of \<open>src/search/bm25.rs\<close>: one engine and one table of
  chunk descriptions per project, filled from the storage in pages. The engine is the parameter of
  \<open>LexicalIndex\<close>; the content of a hit is read from the storage after ranking.
\<close>

record chunk_meta =
  cm_id :: string
  cm_file_path :: string
  cm_language :: language
  cm_start_line :: nat
  cm_end_line :: nat
  cm_chunk_type :: chunk_type
  cm_name :: "string option"
  cm_context_path :: "string option"
  cm_project_id :: string
  cm_generation :: "u64 option"

record scored_code_chunk =
  sk_id :: string
  sk_file_path :: string
  sk_content :: string
  sk_language :: language
  sk_start_line :: nat
  sk_end_line :: nat
  sk_chunk_type :: chunk_type
  sk_name :: "string option"
  sk_context_path :: "string option"
  sk_freshness :: "capability_freshness option"
  sk_generation :: "u64 option"
  sk_score :: real

record 'e project_index =
  pi_engine :: 'e
  pi_meta :: "(string, chunk_meta) hmap"

type_synonym 'e code_engine = "(string, 'e project_index) hmap"

definition from_code_chunk :: "code_chunk \<Rightarrow> (chunk_meta \<times> string) option" where
  "from_code_chunk c =
     (case ck_id c of
        None \<Rightarrow> None
      | Some t \<Rightarrow> Some
          (\<lparr>cm_id = rid_key t, cm_file_path = ck_file_path c, cm_language = ck_language c,
            cm_start_line = ck_start_line c, cm_end_line = ck_end_line c, cm_chunk_type = ck_chunk_type c,
            cm_name = ck_name c, cm_context_path = ck_context_path c,
            cm_project_id = (case ck_project_id c of Some p \<Rightarrow> p | None \<Rightarrow> []),
            cm_generation = ck_generation c\<rparr>, ck_content c))"

text \<open>\<open>str::replace\<close> of a set of characters by a space.\<close>

definition blank :: "char set \<Rightarrow> string \<Rightarrow> string" where
  "blank cs s = map (\<lambda>c. if c \<in> cs then CHR '' '' else c) s"

definition make_document_text :: "chunk_meta \<Rightarrow> string \<Rightarrow> string" where
  "make_document_text m content =
     cm_file_path m @ '' '' @ blank {CHR ''/'', CHR 0x5C, CHR ''.'', CHR '':''} (cm_file_path m) @ '' '' @
     (case cm_name m of
        Some name \<Rightarrow> name @ '' '' @ blank {CHR ''.'', CHR '':'', CHR ''/''} name @ '' ''
      | None \<Rightarrow> []) @
     (case cm_context_path m of
        Some ctx \<Rightarrow> ctx @ '' '' @ blank {CHR ''>'', CHR '':'', CHR ''.'', CHR ''/''} ctx @ '' ''
      | None \<Rightarrow> []) @
     content"

section \<open>Building and updating\<close>

definition build_index :: "'e bm25_api \<Rightarrow> (chunk_meta \<times> string) list \<Rightarrow> 'e project_index" where
  "build_index api pairs =
     (let documents = map (\<lambda>(m, content). (cm_id m, make_document_text m content)) pairs;
          meta_map = foldl (\<lambda>mm (m, content). hm_insert (cm_id m) m mm) [] pairs
      in \<lparr>pi_engine = (if documents = [] then be_empty api else be_build api documents), pi_meta = meta_map\<rparr>)"

definition rebuild_project_from_pairs ::
  "'e bm25_api \<Rightarrow> string \<Rightarrow> (chunk_meta \<times> string) list \<Rightarrow> 'e code_engine \<Rightarrow> 'e code_engine" where
  "rebuild_project_from_pairs api p pairs cs = hm_insert p (build_index api pairs) cs"

definition rebuild_project ::
  "'e bm25_api \<Rightarrow> string \<Rightarrow> (chunk_meta \<times> string) list \<Rightarrow> 'e code_engine \<Rightarrow> 'e code_engine" where
  "rebuild_project api p chunks cs = rebuild_project_from_pairs api p chunks cs"

definition remove_project :: "string \<Rightarrow> 'e code_engine \<Rightarrow> 'e code_engine" where
  "remove_project p cs = hm_remove p cs"

text \<open>\<open>upsert_chunks\<close> holds the lock twice: it takes the index of the project out, works on it, and puts it back.\<close>

definition upsert_take :: "string \<Rightarrow> 'e code_engine \<Rightarrow> 'e project_index option \<times> 'e code_engine" where
  "upsert_take p cs = (hm_get cs p, hm_remove p cs)"

definition upsert_work ::
  "'e bm25_api \<Rightarrow> (chunk_meta \<times> string) list \<Rightarrow> 'e project_index option \<Rightarrow> 'e project_index" where
  "upsert_work api chunks existing =
     foldl (\<lambda>idx (m, content). \<lparr>pi_engine = be_upsert api (cm_id m, make_document_text m content) (pi_engine idx),
                                pi_meta = hm_insert (cm_id m) m (pi_meta idx)\<rparr>)
       (case existing of Some idx \<Rightarrow> idx | None \<Rightarrow> \<lparr>pi_engine = be_empty api, pi_meta = []\<rparr>) chunks"

definition upsert_put :: "string \<Rightarrow> 'e project_index \<Rightarrow> 'e code_engine \<Rightarrow> 'e code_engine" where
  "upsert_put p updated cs = hm_insert p updated cs"

definition upsert_chunks ::
  "'e bm25_api \<Rightarrow> string \<Rightarrow> (chunk_meta \<times> string) list \<Rightarrow> 'e code_engine \<Rightarrow> 'e code_engine" where
  "upsert_chunks api p chunks cs =
     (case upsert_take p cs of (existing, cs1) \<Rightarrow> upsert_put p (upsert_work api chunks existing) cs1)"

definition remove_file_chunks :: "'e bm25_api \<Rightarrow> string \<Rightarrow> string \<Rightarrow> 'e code_engine \<Rightarrow> 'e code_engine" where
  "remove_file_chunks api p file_path cs =
     (case hm_get cs p of
        None \<Rightarrow> cs
      | Some idx \<Rightarrow>
          (let ids_to_remove = map cm_id (filter (\<lambda>m. cm_file_path m = file_path) (map snd (pi_meta idx)))
           in hm_insert p
                (foldl (\<lambda>ix i. \<lparr>pi_engine = be_remove api i (pi_engine ix), pi_meta = hm_remove i (pi_meta ix)\<rparr>)
                   idx ids_to_remove) cs))"

definition has_project :: "string \<Rightarrow> 'e code_engine \<Rightarrow> bool" where
  "has_project p cs \<longleftrightarrow> hm_get cs p \<noteq> None"

definition chunk_count :: "string \<Rightarrow> 'e code_engine \<Rightarrow> nat" where
  "chunk_count p cs = (case hm_get cs p of Some idx \<Rightarrow> length (pi_meta idx) | None \<Rightarrow> 0)"

section \<open>Searching\<close>

definition project_hits :: "'e bm25_api \<Rightarrow> 'e code_engine \<Rightarrow> string \<Rightarrow> nat \<Rightarrow> string \<Rightarrow> (real \<times> chunk_meta) list" where
  "project_hits api cs query limit pid =
     (case hm_get cs pid of
        None \<Rightarrow> []
      | Some idx \<Rightarrow>
          List.map_filter (\<lambda>(i, score). map_option (\<lambda>m. (score, m)) (hm_get (pi_meta idx) i))
            (be_search api (pi_engine idx) query (limit * 2)))"

definition rank_chunks :: "'e bm25_api \<Rightarrow> 'e code_engine \<Rightarrow> string \<Rightarrow> string option \<Rightarrow> nat \<Rightarrow> (real \<times> chunk_meta) list" where
  "rank_chunks api cs query project_id limit =
     take limit (sort_by (\<lambda>a b. fst b \<le> fst a)
       (concat (map (project_hits api cs query limit)
          (case project_id of Some pid \<Rightarrow> [pid] | None \<Rightarrow> hm_keys cs))))"

definition chunk_map :: "code_chunk list \<Rightarrow> (string, code_chunk) hmap" where
  "chunk_map fetched =
     foldl (\<lambda>m c. case ck_id c of Some t \<Rightarrow> hm_insert (rid_key t) c m | None \<Rightarrow> m) [] fetched"

definition scored_chunk :: "(string, code_chunk) hmap \<Rightarrow> real \<times> chunk_meta \<Rightarrow> scored_code_chunk" where
  "scored_chunk cmap = (\<lambda>(score, m).
     (let chunk = hm_get cmap (cm_id m) in
      \<lparr>sk_id = cm_id m, sk_file_path = cm_file_path m,
       sk_content = (case chunk of Some c \<Rightarrow> ck_content c | None \<Rightarrow> []),
       sk_language = cm_language m, sk_start_line = cm_start_line m, sk_end_line = cm_end_line m,
       sk_chunk_type = cm_chunk_type m, sk_name = cm_name m, sk_context_path = cm_context_path m,
       sk_freshness = None,
       sk_generation = (case (case chunk of Some c \<Rightarrow> ck_generation c | None \<Rightarrow> None) of
                          Some g \<Rightarrow> Some g | None \<Rightarrow> cm_generation m),
       sk_score = score\<rparr>))"

text \<open>\<open>get_active\<close> and \<open>get_by_ids\<close> are the storage queries \<open>get_active_generation\<close> and \<open>get_chunks_by_ids\<close>.\<close>

definition code_search ::
  "'e bm25_api \<Rightarrow> (string \<Rightarrow> u64 option app_result) \<Rightarrow> (string list \<Rightarrow> u64 option \<Rightarrow> code_chunk list app_result) \<Rightarrow>
     'e code_engine \<Rightarrow> string \<Rightarrow> string option \<Rightarrow> nat \<Rightarrow> scored_code_chunk list" where
  "code_search api get_active get_by_ids cs query project_id limit =
     (let scored_metas = rank_chunks api cs query project_id limit in
      if scored_metas = [] then []
      else
        (let ids = map (\<lambda>(s, m). cm_id m) scored_metas;
             active = (case project_id of
                         Some pid \<Rightarrow> (case get_active pid of Inr g \<Rightarrow> g | Inl e \<Rightarrow> None)
                       | None \<Rightarrow> None);
             fetched = (case get_by_ids ids active of Inr chunks \<Rightarrow> chunks | Inl e \<Rightarrow> [])
         in map (scored_chunk (chunk_map fetched)) scored_metas))"

section \<open>Loading from the storage\<close>

text \<open>\<open>page\<close> is the query \<open>get_chunks_paginated\<close> at an offset.\<close>

partial_function (option) load_chunk_pages ::
  "(nat \<Rightarrow> code_chunk list app_result) \<Rightarrow> nat \<Rightarrow> (chunk_meta \<times> string) list \<Rightarrow>
     (chunk_meta \<times> string) list app_result option" where
  "load_chunk_pages page offset all_pairs =
     (case page offset of
        Inl e \<Rightarrow> Some (Inl e)
      | Inr chunks \<Rightarrow>
          if chunks = [] then Some (Inr all_pairs)
          else
            (let page_len = length chunks;
                 pairs = all_pairs @ List.map_filter from_code_chunk chunks
             in if page_len < PAGE_SIZE then Some (Inr pairs)
                else load_chunk_pages page (offset + page_len) pairs))"

definition rebuild_project_streaming ::
  "'e bm25_api \<Rightarrow> (nat \<Rightarrow> code_chunk list app_result) \<Rightarrow> string \<Rightarrow> 'e code_engine \<Rightarrow>
     (nat app_result \<times> 'e code_engine) option" where
  "rebuild_project_streaming api page p cs =
     (case load_chunk_pages page 0 [] of
        None \<Rightarrow> None
      | Some (Inl e) \<Rightarrow> Some (Inl e, cs)
      | Some (Inr all_pairs) \<Rightarrow>
          Some (Inr (length all_pairs),
                if length all_pairs > 0 then rebuild_project_from_pairs api p all_pairs cs else cs))"

definition db_page :: "string \<Rightarrow> u64 option \<Rightarrow> code_db \<Rightarrow> nat \<Rightarrow> code_chunk list app_result" where
  "db_page p active db offset = Inr (get_chunks_paginated p active PAGE_SIZE offset db)"

definition try_rebuild_from_storage ::
  "'e bm25_api \<Rightarrow> string \<Rightarrow> u64 option \<Rightarrow> code_db \<Rightarrow> 'e code_engine \<Rightarrow> (nat app_result \<times> 'e code_engine) option" where
  "try_rebuild_from_storage api p active db cs = rebuild_project_streaming api (db_page p active db) p cs"

definition rebuild_from_storage ::
  "'e bm25_api \<Rightarrow> string \<Rightarrow> code_db \<Rightarrow> 'e code_engine \<Rightarrow> 'e code_engine option" where
  "rebuild_from_storage api p db cs =
     map_option snd (try_rebuild_from_storage api p (get_active_generation p db) db cs)"

text \<open>The warm-up at start-up, over the stored statuses.\<close>

definition searchable_status :: "index_status \<Rightarrow> bool" where
  "searchable_status s \<longleftrightarrow> \<not> (is_status s \<noteq> Completed \<and> is_status s \<noteq> EmbeddingPending)"

fun load_statuses ::
  "'e bm25_api \<Rightarrow> code_db \<Rightarrow> index_status list \<Rightarrow> nat \<Rightarrow> 'e code_engine \<Rightarrow> (nat \<times> 'e code_engine) option" where
  "load_statuses api db [] acc cs = Some (acc, cs)"
| "load_statuses api db (s # ss) acc cs =
     (if \<not> searchable_status s then load_statuses api db ss acc cs
      else
        (let p = is_project_id s in
         case try_rebuild_from_storage api p (get_active_generation p db) db cs of
           None \<Rightarrow> None
         | Some (Inr n, cs1) \<Rightarrow> load_statuses api db ss (acc + n) cs1
         | Some (Inl e, cs1) \<Rightarrow> load_statuses api db ss acc cs1))"

definition load_all_code_from_storage ::
  "'e bm25_api \<Rightarrow> code_db \<Rightarrow> 'e code_engine \<Rightarrow> (nat \<times> 'e code_engine) option" where
  "load_all_code_from_storage api db cs = load_statuses api db (list_index_statuses db) 0 cs"

section \<open>The index of a project\<close>

definition pidx_ok :: "('e \<Rightarrow> string \<Rightarrow> string option) \<Rightarrow> 'e project_index \<Rightarrow> bool" where
  "pidx_ok docs idx \<longleftrightarrow> hm_ok (pi_meta idx) \<and> dom (docs (pi_engine idx)) = dom (hm_get (pi_meta idx)) \<and>
     list_all (\<lambda>(k, m). cm_id m = k) (pi_meta idx)"

definition code_search_ok :: "('e \<Rightarrow> string \<Rightarrow> string option) \<Rightarrow> 'e code_engine \<Rightarrow> bool" where
  "code_search_ok docs cs \<longleftrightarrow> hm_ok cs \<and> list_all (\<lambda>(p, idx). pidx_ok docs idx) cs"

definition pair_ids :: "(chunk_meta \<times> string) list \<Rightarrow> string list" where
  "pair_ids pairs = map (\<lambda>(m, content). cm_id m) pairs"

lemma insert_all_meta:
  "hm_get (foldl (\<lambda>mm (m, content). hm_insert (cm_id m) m mm) m0 pairs) i =
     (case map_of (rev (map (\<lambda>(m, content). (cm_id m, m)) pairs)) i of Some m \<Rightarrow> Some m | None \<Rightarrow> hm_get m0 i)"
  by (induction pairs rule: rev_induct) (auto split: prod.split)

lemma meta_fold_ok:
  "hm_ok m0 \<Longrightarrow> list_all (\<lambda>(k, m). cm_id m = k) m0 \<Longrightarrow>
     hm_ok (foldl (\<lambda>mm (m, content). hm_insert (cm_id m) m mm) m0 pairs) \<and>
     list_all (\<lambda>(k, m). cm_id m = k) (foldl (\<lambda>mm (m, content). hm_insert (cm_id m) m mm) m0 pairs)"
proof (induction pairs arbitrary: m0)
  case (Cons x xs)
  have "hm_ok (hm_insert (cm_id (fst x)) (fst x) m0)"
    "list_all (\<lambda>(k, m). cm_id m = k) (hm_insert (cm_id (fst x)) (fst x) m0)"
    using Cons.prems by (auto simp: list_all_iff set_hm_insert)
  from Cons.IH [OF this] show ?case by (simp add: case_prod_unfold)
qed simp

lemma map_of_rev_distinct: "distinct (map fst xs) \<Longrightarrow> map_of (rev xs) = map_of xs"
proof (induction xs)
  case (Cons x xs)
  then have "map_of (rev xs) (fst x) = None"
    by (metis Cons.IH distinct.simps(2) list.simps(9) map_of_eq_None_iff set_map)
  with Cons show ?case by (cases x) (auto simp: map_add_def split: option.split)
qed simp

lemma build_index_spec:
  assumes "engine_contract api docs" "distinct (pair_ids pairs)"
  shows "pidx_ok docs (build_index api pairs)"
    and "docs (pi_engine (build_index api pairs)) =
           map_of (map (\<lambda>(m, content). (cm_id m, make_document_text m content)) pairs)"
    and "hm_get (pi_meta (build_index api pairs)) = map_of (map (\<lambda>(m, content). (cm_id m, m)) pairs)"
proof -
  let ?d = "map (\<lambda>(m, content). (cm_id m, make_document_text m content)) pairs"
  have d: "distinct (map fst ?d)" "distinct (map fst (map (\<lambda>(m, content). (cm_id m, m)) pairs))"
    using assms(2) by (simp_all add: pair_ids_def case_prod_unfold o_def)
  show e: "docs (pi_engine (build_index api pairs)) = map_of ?d"
    using d contract_simps [OF assms(1)] by (auto simp: build_index_def Let_def)
  show m: "hm_get (pi_meta (build_index api pairs)) = map_of (map (\<lambda>(m, content). (cm_id m, m)) pairs)"
    using d(2) by (auto simp: build_index_def Let_def insert_all_meta map_of_rev_distinct rev_map [symmetric]
        split: option.split)
  have "dom (docs (pi_engine (build_index api pairs))) = dom (hm_get (pi_meta (build_index api pairs)))"
    unfolding e m by (auto simp: dom_map_of_conv_image_fst case_prod_unfold image_image)
  moreover have "hm_ok (pi_meta (build_index api pairs)) \<and>
      list_all (\<lambda>(k, m). cm_id m = k) (pi_meta (build_index api pairs))"
    using meta_fold_ok [of "[]" pairs] by (simp add: build_index_def Let_def)
  ultimately show "pidx_ok docs (build_index api pairs)"
    by (simp add: pidx_ok_def)
qed

lemma upsert_one_ok:
  assumes "engine_contract api docs" "pidx_ok docs idx"
  shows "pidx_ok docs \<lparr>pi_engine = be_upsert api (cm_id m, txt') (pi_engine idx),
                       pi_meta = hm_insert (cm_id m) m (pi_meta idx)\<rparr>"
  unfolding pidx_ok_def
proof (intro conjI)
  have "dom (docs (pi_engine idx)) = dom (hm_get (pi_meta idx))" using assms(2) by (simp add: pidx_ok_def)
  then show "dom (docs (pi_engine \<lparr>pi_engine = be_upsert api (cm_id m, txt') (pi_engine idx), pi_meta = hm_insert (cm_id m) m (pi_meta idx)\<rparr>)) =
     dom (hm_get (pi_meta \<lparr>pi_engine = be_upsert api (cm_id m, txt') (pi_engine idx), pi_meta = hm_insert (cm_id m) m (pi_meta idx)\<rparr>))"
    unfolding project_index.simps contract_simps(3) [OF assms(1)] update_conv' dom_fun_upd by simp
qed (use assms(2) in \<open>auto simp: pidx_ok_def list_all_iff set_hm_insert\<close>)

lemma remove_one_ok:
  assumes "engine_contract api docs" "pidx_ok docs idx"
  shows "pidx_ok docs \<lparr>pi_engine = be_remove api i (pi_engine idx), pi_meta = hm_remove i (pi_meta idx)\<rparr>"
  unfolding pidx_ok_def
proof (intro conjI)
  have "dom (docs (pi_engine idx)) = dom (hm_get (pi_meta idx))" using assms(2) by (simp add: pidx_ok_def)
  then show "dom (docs (pi_engine \<lparr>pi_engine = be_remove api i (pi_engine idx), pi_meta = hm_remove i (pi_meta idx)\<rparr>)) =
     dom (hm_get (pi_meta \<lparr>pi_engine = be_remove api i (pi_engine idx), pi_meta = hm_remove i (pi_meta idx)\<rparr>))"
    unfolding project_index.simps contract_simps(4) [OF assms(1)] delete_conv' dom_fun_upd by simp
qed (use assms(2) in \<open>auto simp: pidx_ok_def list_all_iff hm_mem_remove\<close>)

lemma empty_pidx_ok: "engine_contract api docs \<Longrightarrow> pidx_ok docs \<lparr>pi_engine = be_empty api, pi_meta = []\<rparr>"
  by (simp add: pidx_ok_def contract_simps)

lemma upsert_work_ok:
  assumes "engine_contract api docs" "case existing of Some idx \<Rightarrow> pidx_ok docs idx | None \<Rightarrow> True"
  shows "pidx_ok docs (upsert_work api chunks existing)"
proof -
  have "pidx_ok docs idx \<Longrightarrow> pidx_ok docs (foldl (\<lambda>idx (m, content).
      \<lparr>pi_engine = be_upsert api (cm_id m, make_document_text m content) (pi_engine idx),
       pi_meta = hm_insert (cm_id m) m (pi_meta idx)\<rparr>) idx chunks)" for idx
    by (induction chunks arbitrary: idx) (auto intro: upsert_one_ok [OF assms(1)])
  then show ?thesis
    using assms(2) empty_pidx_ok [OF assms(1)] unfolding upsert_work_def by (cases existing) auto
qed

lemma code_search_ok_get: "code_search_ok docs cs \<Longrightarrow> hm_get cs p = Some idx \<Longrightarrow> pidx_ok docs idx"
  by (auto simp: code_search_ok_def hm_get_mem list_all_iff)

lemma code_search_ok_insert: "code_search_ok docs cs \<Longrightarrow> pidx_ok docs idx \<Longrightarrow> code_search_ok docs (hm_insert p idx cs)"
  by (auto simp: code_search_ok_def list_all_iff set_hm_insert)

lemma code_search_ok_remove: "code_search_ok docs cs \<Longrightarrow> code_search_ok docs (hm_remove p cs)"
  by (auto simp: code_search_ok_def list_all_iff hm_mem_remove)

text \<open>The operations of the engine keep every project index consistent: as many documents as descriptions, under the same ids.\<close>

datatype index_event =
    IE_Rebuild string "(chunk_meta \<times> string) list"
  | IE_Upsert string "(chunk_meta \<times> string) list"
  | IE_RemoveFile string string
  | IE_RemoveProject string

fun index_step :: "'e bm25_api \<Rightarrow> 'e code_engine \<Rightarrow> index_event \<Rightarrow> 'e code_engine" where
  "index_step api cs (IE_Rebuild p pairs) = rebuild_project_from_pairs api p pairs cs"
| "index_step api cs (IE_Upsert p pairs) = upsert_chunks api p pairs cs"
| "index_step api cs (IE_RemoveFile p f) = remove_file_chunks api p f cs"
| "index_step api cs (IE_RemoveProject p) = remove_project p cs"

fun event_ids_distinct :: "index_event \<Rightarrow> bool" where
  "event_ids_distinct (IE_Rebuild p pairs) = distinct (pair_ids pairs)"
| "event_ids_distinct _ = True"

lemma index_step_ok:
  assumes "engine_contract api docs" "code_search_ok docs cs" "event_ids_distinct ev"
  shows "code_search_ok docs (index_step api cs ev)"
proof (cases ev)
  case (IE_Rebuild p pairs)
  with assms show ?thesis
    by (simp add: rebuild_project_from_pairs_def code_search_ok_insert build_index_spec(1))
next
  case (IE_Upsert p pairs)
  have "pidx_ok docs (upsert_work api pairs (hm_get cs p))"
    using assms(1,2) by (intro upsert_work_ok) (auto split: option.split dest: code_search_ok_get)
  with IE_Upsert assms show ?thesis
    by (simp add: upsert_chunks_def upsert_take_def upsert_put_def code_search_ok_insert code_search_ok_remove)
next
  case (IE_RemoveFile p f)
  have run: "pidx_ok docs idx \<Longrightarrow> pidx_ok docs (foldl (\<lambda>ix i.
      \<lparr>pi_engine = be_remove api i (pi_engine ix), pi_meta = hm_remove i (pi_meta ix)\<rparr>) idx is')" for idx is'
    by (induction is' arbitrary: idx) (auto intro: remove_one_ok [OF assms(1)])
  with IE_RemoveFile assms(2) show ?thesis
    by (auto simp: remove_file_chunks_def Let_def intro!: code_search_ok_insert intro: run code_search_ok_get
        split: option.split)
next
  case (IE_RemoveProject p)
  with assms(2) show ?thesis by (simp add: remove_project_def code_search_ok_remove)
qed

section \<open>After a rebuild the index is the table\<close>

lemma take_drop_page: "drop offset rows = take n (drop offset rows) @ drop (offset + length (take n (drop offset rows))) rows"
proof (cases "length (drop offset rows) \<le> n")
  case False
  then have "length (take n (drop offset rows)) = n" by simp
  then show ?thesis by (metis append_take_drop_id add.commute drop_drop)
qed simp

lemma load_chunk_pages_all:
  "load_chunk_pages (\<lambda>offset. Inr (take PAGE_SIZE (drop offset rows))) offset pairs =
     Some (Inr (pairs @ List.map_filter from_code_chunk (drop offset rows)))"
proof (induction "length rows - offset" arbitrary: offset pairs rule: less_induct)
  case less
  define page where "page = take PAGE_SIZE (drop offset rows)"
  have split: "drop offset rows = page @ drop (offset + length page) rows"
    unfolding page_def by (rule take_drop_page)
  show ?case
  proof (cases "page = []")
    case True
    then have "drop offset rows = []" by (simp add: page_def PAGE_SIZE_def)
    with True show ?thesis by (subst load_chunk_pages.simps) (simp add: map_filter_simps)
  next
    case ne: False
    show ?thesis
    proof (cases "length page < PAGE_SIZE")
      case True
      then have "page = drop offset rows" by (simp add: page_def)
      with True ne show ?thesis by (subst load_chunk_pages.simps) (simp add: Let_def page_def [symmetric])
    next
      case False
      have "length rows - (offset + length page) < length rows - offset"
      proof -
        have "0 < length page" "length page \<le> length rows - offset" using ne by (simp_all add: page_def)
        then show ?thesis by linarith
      qed
      note ih = less [OF this, of "pairs @ List.map_filter from_code_chunk page"]
      have "load_chunk_pages (\<lambda>offset. Inr (take PAGE_SIZE (drop offset rows))) offset pairs =
          Some (Inr ((pairs @ List.map_filter from_code_chunk page) @
            List.map_filter from_code_chunk (drop (offset + length page) rows)))"
        using False ne ih by (subst load_chunk_pages.simps) (simp add: Let_def page_def [symmetric])
      also have "\<dots> = Some (Inr (pairs @ List.map_filter from_code_chunk (page @ drop (offset + length page) rows)))"
        by (simp add: map_filter_def)
      finally show ?thesis unfolding split [symmetric] .
    qed
  qed
qed

text \<open>The chunk rows carry their keys, each its own.\<close>

definition chunk_key :: "code_chunk \<Rightarrow> string" where
  "chunk_key c = (case ck_id c of Some t \<Rightarrow> rid_key t | None \<Rightarrow> [])"

definition chunk_rows_ok :: "code_db \<Rightarrow> bool" where
  "chunk_rows_ok db \<longleftrightarrow>
     list_all (\<lambda>c. ck_id c = Some \<lparr>rid_table = ''code_chunks'', rid_key = chunk_key c\<rparr>) (cd_chunks db) \<and>
     distinct (map chunk_key (cd_chunks db))"

definition chunk_view :: "string \<Rightarrow> u64 option \<Rightarrow> code_db \<Rightarrow> code_chunk list" where
  "chunk_view p active db =
     filter (\<lambda>c. ck_project_id c = Some p \<and> generation_visible active (ck_generation c)) (cd_chunks db)"

text \<open>The searchable text of a row.\<close>

definition chunk_text :: "code_chunk \<Rightarrow> string" where
  "chunk_text c = (case from_code_chunk c of Some (m, content) \<Rightarrow> make_document_text m content | None \<Rightarrow> [])"

lemma chunk_key_omit [simp]: "chunk_key (omit_embedding c) = chunk_key c"
  by (simp add: chunk_key_def omit_embedding_def)

lemma from_code_chunk_omit [simp]: "from_code_chunk (omit_embedding c) = from_code_chunk c"
  by (cases "ck_id c") (simp_all add: from_code_chunk_def omit_embedding_def)

definition view_pairs_of :: "string \<Rightarrow> u64 option \<Rightarrow> code_db \<Rightarrow> (chunk_meta \<times> string) list" where
  "view_pairs_of p active db = List.map_filter from_code_chunk (map omit_embedding (chunk_view p active db))"

lemma view_pairs:
  assumes "chunk_rows_ok db"
  shows "length (view_pairs_of p active db) = length (chunk_view p active db)"
    and "pair_ids (view_pairs_of p active db) = map chunk_key (chunk_view p active db)"
    and "map (\<lambda>(m, content). (cm_id m, make_document_text m content)) (view_pairs_of p active db) =
           map (\<lambda>c. (chunk_key c, chunk_text c)) (chunk_view p active db)"
    and "map (\<lambda>(m, content). (cm_id m, m)) (view_pairs_of p active db) =
           map (\<lambda>c. (chunk_key c, fst (the (from_code_chunk c)))) (chunk_view p active db)"
proof -
  have row: "\<exists>m. from_code_chunk c = Some (m, ck_content c) \<and> cm_id m = chunk_key c" if "ck_id c \<noteq> None" for c
    using that by (auto simp: from_code_chunk_def chunk_key_def)
  have "\<forall>c\<in>set (chunk_view p active db). ck_id c \<noteq> None"
    using assms(1) by (auto simp: chunk_rows_ok_def chunk_view_def list_all_iff)
  then have "length (List.map_filter from_code_chunk (map omit_embedding cs)) = length cs \<and>
      pair_ids (List.map_filter from_code_chunk (map omit_embedding cs)) = map chunk_key cs \<and>
      map (\<lambda>(m, content). (cm_id m, make_document_text m content)) (List.map_filter from_code_chunk (map omit_embedding cs)) =
        map (\<lambda>c. (chunk_key c, chunk_text c)) cs \<and>
      map (\<lambda>(m, content). (cm_id m, m)) (List.map_filter from_code_chunk (map omit_embedding cs)) =
        map (\<lambda>c. (chunk_key c, fst (the (from_code_chunk c)))) cs" if "set cs \<subseteq> set (chunk_view p active db)" for cs
    using that
  proof (induction cs)
    case (Cons c cs)
    then obtain m where "from_code_chunk c = Some (m, ck_content c)" "cm_id m = chunk_key c" using row by fastforce
    with Cons show ?case by (simp add: map_filter_simps pair_ids_def chunk_text_def)
  qed (simp add: map_filter_simps pair_ids_def)
  from this [of "chunk_view p active db"]
  show "length (view_pairs_of p active db) = length (chunk_view p active db)"
    "pair_ids (view_pairs_of p active db) = map chunk_key (chunk_view p active db)"
    "map (\<lambda>(m, content). (cm_id m, make_document_text m content)) (view_pairs_of p active db) =
       map (\<lambda>c. (chunk_key c, chunk_text c)) (chunk_view p active db)"
    "map (\<lambda>(m, content). (cm_id m, m)) (view_pairs_of p active db) =
       map (\<lambda>c. (chunk_key c, fst (the (from_code_chunk c)))) (chunk_view p active db)"
    by (simp_all add: view_pairs_of_def)
qed

lemma view_keys_distinct: "chunk_rows_ok db \<Longrightarrow> distinct (map chunk_key (chunk_view p active db))"
  by (simp add: chunk_rows_ok_def chunk_view_def distinct_map_filter)

lemma try_rebuild_eq:
  assumes "chunk_rows_ok db"
  shows "try_rebuild_from_storage api p active db cs =
    Some (Inr (length (chunk_view p active db)),
      if chunk_view p active db = [] then cs
      else hm_insert p (build_index api (view_pairs_of p active db)) cs)"
proof -
  have page: "db_page p active db = (\<lambda>offset. Inr (take PAGE_SIZE (drop offset (map omit_embedding (chunk_view p active db)))))"
    by (rule ext) (simp add: db_page_def get_chunks_paginated_def chunk_view_def)
  show ?thesis
    unfolding try_rebuild_from_storage_def rebuild_project_streaming_def page load_chunk_pages_all
    using view_pairs(1) [OF assms, of p active] by (auto simp: rebuild_project_from_pairs_def view_pairs_of_def)
qed

text \<open>C20: Rebuilding the index of a project from the storage terminates whatever the number of pages, and makes
  the index the searchable texts of exactly the chunks that readers of the generation see, each under
  its key with its own description. The indexes of other projects stay. A project that has no
  visible chunk is the exception: its old index is left in place.
\<close>

theorem code_rebuild_matches_storage:
  assumes "engine_contract api docs" and "chunk_rows_ok db"
  shows "\<exists>cs'. try_rebuild_from_storage api p active db cs = Some (Inr (length (chunk_view p active db)), cs') \<and>
    (\<forall>q. q \<noteq> p \<longrightarrow> hm_get cs' q = hm_get cs q) \<and>
    (if chunk_view p active db = [] then cs' = cs
     else \<exists>idx. hm_get cs' p = Some idx \<and> pidx_ok docs idx \<and>
       docs (pi_engine idx) = map_of (map (\<lambda>c. (chunk_key c, chunk_text c)) (chunk_view p active db)) \<and>
       hm_get (pi_meta idx) =
         map_of (map (\<lambda>c. (chunk_key c, fst (the (from_code_chunk c)))) (chunk_view p active db)))"
proof -
  have "distinct (pair_ids (view_pairs_of p active db))"
    using view_pairs(2) [OF assms(2), of p active] view_keys_distinct [OF assms(2)] by simp
  note spec = build_index_spec [OF assms(1) this]
  show ?thesis
    unfolding try_rebuild_eq [OF assms(2)]
    using spec view_pairs(3,4) [OF assms(2), of p active] by auto
qed

section \<open>What a search returns\<close>

lemma sort_by_sorted:
  "sorted_wrt (\<lambda>a b. f b \<le> (f a :: real)) xs \<Longrightarrow> sort_by (\<lambda>a b. f b \<le> f a) xs = xs"
proof (induction xs)
  case (Cons x xs)
  then show ?case using rev_key_comparison.insert_by_least [of xs f x] by simp
qed simp

lemma chunk_map_get:
  "\<forall>c\<in>set cs. ck_id c \<noteq> None \<Longrightarrow> inj_on chunk_key (set cs) \<Longrightarrow>
     hm_get (chunk_map cs) i = Some c \<longleftrightarrow> c \<in> set cs \<and> chunk_key c = i"
proof (induction cs rule: rev_induct)
  case (snoc d cs)
  obtain t where t: "ck_id d = Some t" "chunk_key d = rid_key t"
    using snoc.prems(1) by (auto simp: chunk_key_def)
  have "chunk_map (cs @ [d]) = hm_insert (chunk_key d) d (chunk_map cs)"
    using t by (simp add: chunk_map_def)
  moreover have "hm_get (chunk_map cs) i = Some c \<longleftrightarrow> c \<in> set cs \<and> chunk_key c = i"
    using snoc by (simp add: inj_on_def)
  ultimately show ?case using snoc.prems(2) by (auto simp: inj_on_def)
qed (simp add: chunk_map_def)

lemma find_unique:
  "(\<And>x y. x \<in> set xs \<Longrightarrow> y \<in> set xs \<Longrightarrow> P x \<Longrightarrow> P y \<Longrightarrow> x = y) \<Longrightarrow> find P xs = Some c \<longleftrightarrow> c \<in> set xs \<and> P c"
  by (induction xs) auto

lemma fetched_chunk:
  assumes "chunk_rows_ok db" "i \<in> set ids"
  shows "hm_get (chunk_map (get_chunks_by_ids ids g db)) i =
    find (\<lambda>c. chunk_key c = i \<and> generation_visible g (ck_generation c)) (cd_chunks db)"
proof -
  have rows: "\<forall>c\<in>set (cd_chunks db). ck_id c = Some \<lparr>rid_table = ''code_chunks'', rid_key = chunk_key c\<rparr>"
    and inj: "inj_on chunk_key (set (cd_chunks db))"
    using assms(1) by (auto simp: chunk_rows_ok_def list_all_iff distinct_map)
  have mem: "c \<in> set (get_chunks_by_ids ids g db) \<longleftrightarrow>
      c \<in> set (cd_chunks db) \<and> chunk_key c \<in> set ids \<and> generation_visible g (ck_generation c)" for c
    using assms(2) rows by (auto simp: get_chunks_by_ids_def chunk_key_def)
  then have "set (get_chunks_by_ids ids g db) \<subseteq> set (cd_chunks db)" by blast
  then have inj': "inj_on chunk_key (set (get_chunks_by_ids ids g db))" using inj by (rule inj_on_subset [rotated])
  have some: "\<forall>c\<in>set (get_chunks_by_ids ids g db). ck_id c \<noteq> None" using mem rows by blast
  have "hm_get (chunk_map (get_chunks_by_ids ids g db)) i = Some c \<longleftrightarrow>
      find (\<lambda>c. chunk_key c = i \<and> generation_visible g (ck_generation c)) (cd_chunks db) = Some c" for c
    unfolding chunk_map_get [OF some inj'] mem
    using find_unique [of "cd_chunks db" "\<lambda>c. chunk_key c = i \<and> generation_visible g (ck_generation c)" c] inj assms(2)
    by (auto simp: inj_on_def)
  then show ?thesis by (metis option.exhaust)
qed

lemma rank_one_project:
  assumes "engine_contract api docs" "pidx_ok docs idx" "hm_get cs p = Some idx"
  shows "rank_chunks api cs query (Some p) limit =
    map (\<lambda>(i, s). (s, the (hm_get (pi_meta idx) i))) (be_search api (pi_engine idx) query limit)"
proof -
  let ?hits = "be_search api (pi_engine idx) query (limit * 2)" and ?g = "\<lambda>(i, s). (s, the (hm_get (pi_meta idx) i))"
  have known: "\<forall>r\<in>set ?hits. hm_get (pi_meta idx) (fst r) \<noteq> None"
    using contract_search(3) [OF assms(1), of "pi_engine idx" query "limit * 2"] assms(2)
    by (auto simp: pidx_ok_def)
  have "\<forall>r\<in>set rs. hm_get (pi_meta idx) (fst r) \<noteq> None \<Longrightarrow>
      List.map_filter (\<lambda>(i, score). map_option (\<lambda>m. (score, m)) (hm_get (pi_meta idx) i)) rs = map ?g rs" for rs
    by (induction rs) (auto simp: map_filter_simps)
  from this [OF known] have hits: "project_hits api cs query limit p = map ?g ?hits"
    using assms(3) by (simp add: project_hits_def)
  have "sorted_wrt (\<lambda>a b. fst b \<le> fst a) (map ?g ?hits)"
    using contract_search(4) [OF assms(1), of "pi_engine idx" query "limit * 2"]
    by (simp add: sorted_wrt_map case_prod_unfold)
  from sort_by_sorted [OF this] show ?thesis
    using contract_search(5) [OF assms(1), of limit "limit * 2" "pi_engine idx" query]
    by (simp add: rank_chunks_def hits take_map)
qed

text \<open>A search in one project returns the engine's best \<open>limit\<close> chunks, in the engine's order and with its
  scores; each hit carries the description that was indexed, and the content that is stored under its
  key now, or no content where the row is gone or not of the active generation.
\<close>

theorem code_search_exact:
  assumes "engine_contract api docs" and "code_search_ok docs cs" and "hm_get cs p = Some idx"
    and "chunk_rows_ok db"
  shows "let res = code_search api (\<lambda>q. Inr (get_active_generation q db)) (\<lambda>ids g. Inr (get_chunks_by_ids ids g db))
               cs query (Some p) limit;
             hits = be_search api (pi_engine idx) query limit
         in map (\<lambda>r. (sk_id r, sk_score r)) res = hits \<and> length res \<le> limit \<and> distinct (map sk_id res) \<and>
            list_all (\<lambda>r. map_option (\<lambda>m. (cm_file_path m, cm_start_line m, cm_end_line m)) (hm_get (pi_meta idx) (sk_id r)) =
                            Some (sk_file_path r, sk_start_line r, sk_end_line r) \<and>
              sk_content r = (case find (\<lambda>c. chunk_key c = sk_id r \<and>
                                   generation_visible (get_active_generation p db) (ck_generation c)) (cd_chunks db) of
                                Some c \<Rightarrow> ck_content c | None \<Rightarrow> [])) res"
proof -
  let ?hits = "be_search api (pi_engine idx) query limit" and ?meta = "\<lambda>i. the (hm_get (pi_meta idx) i)"
  have ok: "pidx_ok docs idx" by (rule code_search_ok_get [OF assms(2,3)])
  note rank = rank_one_project [OF assms(1) ok assms(3), of query limit]
  have known: "\<exists>m. hm_get (pi_meta idx) (fst r) = Some m \<and> cm_id m = fst r" if "r \<in> set ?hits" for r
  proof -
    from contract_search(3) [OF assms(1), of "pi_engine idx" query limit] that ok
    obtain m where m: "hm_get (pi_meta idx) (fst r) = Some m" by (auto simp: pidx_ok_def)
    with ok have "(fst r, m) \<in> set (pi_meta idx)" by (simp add: pidx_ok_def hm_get_mem)
    with ok m show ?thesis by (auto simp: pidx_ok_def list_all_iff)
  qed
  have known_id: "cm_id (?meta (fst r)) = fst r" if "r \<in> set ?hits" for r
    using known [OF that] by auto
  define cmap where "cmap = chunk_map (get_chunks_by_ids (map fst ?hits) (get_active_generation p db) db)"
  define res where "res = map (\<lambda>r. scored_chunk cmap (snd r, ?meta (fst r))) ?hits"
  have ids: "map (\<lambda>(s, m). cm_id m) (map (\<lambda>(i, s). (s, ?meta i)) ?hits) = map fst ?hits"
    unfolding map_map using known_id by (intro map_cong) (simp_all add: case_prod_unfold)
  have res: "code_search api (\<lambda>q. Inr (get_active_generation q db)) (\<lambda>ids g. Inr (get_chunks_by_ids ids g db))
      cs query (Some p) limit = res"
    unfolding code_search_def rank Let_def ids option.case sum.case cmap_def [symmetric]
    by (simp add: res_def case_prod_unfold)
  have "map (\<lambda>r. (sk_id r, sk_score r)) res = map (\<lambda>r. r) ?hits"
    unfolding res_def map_map using known_id by (intro map_cong) (simp_all add: scored_chunk_def Let_def)
  moreover have "length res \<le> limit"
    using contract_search(2) [OF assms(1), of "pi_engine idx" query limit] by (simp add: res_def)
  moreover have "distinct (map sk_id res)"
  proof -
    have "map sk_id res = map fst ?hits"
      unfolding res_def map_map using known_id by (intro map_cong) (simp_all add: scored_chunk_def Let_def)
    then show ?thesis using contract_search(1) [OF assms(1)] by simp
  qed
  moreover have "list_all (\<lambda>r. map_option (\<lambda>m. (cm_file_path m, cm_start_line m, cm_end_line m)) (hm_get (pi_meta idx) (sk_id r)) =
                            Some (sk_file_path r, sk_start_line r, sk_end_line r) \<and>
              sk_content r = (case find (\<lambda>c. chunk_key c = sk_id r \<and>
                                   generation_visible (get_active_generation p db) (ck_generation c)) (cd_chunks db) of
                                Some c \<Rightarrow> ck_content c | None \<Rightarrow> [])) res"
    unfolding list_all_iff
  proof
    fix x
    assume "x \<in> set res"
    then obtain r m where r: "r \<in> set ?hits" "hm_get (pi_meta idx) (fst r) = Some m" "cm_id m = fst r"
      and x: "x = scored_chunk cmap (snd r, m)"
      unfolding res_def using known by fastforce
    have "hm_get cmap (fst r) = find (\<lambda>c. chunk_key c = fst r \<and>
        generation_visible (get_active_generation p db) (ck_generation c)) (cd_chunks db)"
      unfolding cmap_def using r(1) by (intro fetched_chunk [OF assms(4)]) simp
    with r x show "map_option (\<lambda>m. (cm_file_path m, cm_start_line m, cm_end_line m)) (hm_get (pi_meta idx) (sk_id x)) =
          Some (sk_file_path x, sk_start_line x, sk_end_line x) \<and>
        sk_content x = (case find (\<lambda>c. chunk_key c = sk_id x \<and>
             generation_visible (get_active_generation p db) (ck_generation c)) (cd_chunks db) of
           Some c \<Rightarrow> ck_content c | None \<Rightarrow> [])"
      by (simp add: scored_chunk_def Let_def)
  qed
  ultimately show ?thesis unfolding Let_def res by simp
qed

text \<open>Whatever rebuilds, updates and removals happen, in any order and over any projects, every project
  index keeps exactly one description per document of its engine, each under its own id.
\<close>

theorem code_index_stays_consistent:
  assumes "engine_contract api docs" and "list_all event_ids_distinct evs"
  shows "code_search_ok docs (foldl (index_step api) [] evs)"
proof -
  have "code_search_ok docs cs \<Longrightarrow> code_search_ok docs (foldl (index_step api) cs evs)" for cs
    using assms(2) by (induction evs arbitrary: cs) (auto intro: index_step_ok [OF assms(1)])
  then show ?thesis by (simp add: code_search_ok_def)
qed

section \<open>Examples\<close>

definition example_chunk :: "string \<Rightarrow> string \<Rightarrow> u64 option \<Rightarrow> code_chunk" where
  "example_chunk key content g =
     \<lparr>ck_id = Some \<lparr>rid_table = ''code_chunks'', rid_key = key\<rparr>, ck_file_path = ''a.rs'', ck_content = content,
      ck_language = Rust, ck_start_line = 1, ck_end_line = 2, ck_chunk_type = CT_Function, ck_name = None,
      ck_context_path = None, ck_embedding = None, ck_content_hash = [], ck_project_id = Some ''p'',
      ck_generation = g, ck_indexed_at = 0\<rparr>"

definition example_code_db :: code_db where
  "example_code_db = code_db_empty\<lparr>cd_chunks := [example_chunk ''k1'' ''fn old'' (Some 1), example_chunk ''k2'' ''fn new'' (Some 2)],
     cd_active := [(''p'', 2)]\<rparr>"

lemma example_rows_ok: "chunk_rows_ok example_code_db"
  by code_simp

theorem code_rebuild_matches_storage_witness:
  "\<exists>cs' idx. try_rebuild_from_storage token_engine ''p'' (Some 2) example_code_db [] = Some (Inr 1, cs') \<and>
     hm_get cs' ''p'' = Some idx \<and> map_of (pi_engine idx) ''k1'' = None \<and> map_of (pi_engine idx) ''k2'' \<noteq> None"
proof -
  have v: "chunk_view ''p'' (Some 2) example_code_db = [example_chunk ''k2'' ''fn new'' (Some 2)]" by code_simp
  have k: "chunk_key (example_chunk ''k2'' ''fn new'' (Some 2)) = ''k2''" by code_simp
  from code_rebuild_matches_storage [OF token_engine_contract example_rows_ok, of "''p''" "Some 2" "[]"]
  show ?thesis unfolding v by (auto simp: k)
qed

theorem code_index_stays_consistent_witness:
  "code_search_ok map_of (foldl (index_step token_engine) []
     [IE_Upsert ''p'' (view_pairs_of ''p'' (Some 2) example_code_db), IE_RemoveFile ''p'' ''a.rs'', IE_RemoveProject ''p''])"
  by (rule code_index_stays_consistent [OF token_engine_contract]) simp

definition example_code_search :: "(string, string) hmap code_engine" where
  "example_code_search = rebuild_project token_engine ''p'' (view_pairs_of ''p'' (Some 2) example_code_db) []"

lemma example_code_search_ok:
  "code_search_ok map_of example_code_search"
  "hm_get example_code_search ''p'' = Some (build_index token_engine (view_pairs_of ''p'' (Some 2) example_code_db))"
proof -
  have "distinct (pair_ids (view_pairs_of ''p'' (Some 2) example_code_db))"
    using view_pairs(2) [OF example_rows_ok] view_keys_distinct [OF example_rows_ok] by simp
  with index_step_ok [OF token_engine_contract, of "[]" "IE_Rebuild ''p'' (view_pairs_of ''p'' (Some 2) example_code_db)"]
  show "code_search_ok map_of example_code_search"
    by (simp add: example_code_search_def rebuild_project_def code_search_ok_def)
  show "hm_get example_code_search ''p'' = Some (build_index token_engine (view_pairs_of ''p'' (Some 2) example_code_db))"
    by (simp add: example_code_search_def rebuild_project_def rebuild_project_from_pairs_def)
qed

theorem code_search_exact_witness:
  "map (\<lambda>r. (sk_id r, sk_score r)) (code_search token_engine (\<lambda>q. Inr (get_active_generation q example_code_db))
     (\<lambda>ids g. Inr (get_chunks_by_ids ids g example_code_db)) example_code_search ''new'' (Some ''p'') 5) =
   be_search token_engine (pi_engine (build_index token_engine (view_pairs_of ''p'' (Some 2) example_code_db))) ''new'' 5"
  using code_search_exact [OF token_engine_contract example_code_search_ok example_rows_ok, of "''new''" 5]
  by (simp add: Let_def)

end
