(* ===== verification/IndexWorker.thy ===== *)
theory IndexWorker
  imports IncrementalIndex CodeSearchIndex
begin

text \<open>
  The background worker of a project, \<open>src/codebase/index_worker.rs\<close>: it collects the jobs of the watcher
  and of the validation into batches, and one flush of a batch deletes, re-indexes and rebuilds the lexical
  index. The unbounded channel is a list, the select loop a step relation; paths are texts.
\<close>

datatype worker_job = JobUpsert string | JobDelete string

datatype worker_mode =
    Waiting
  | Batching (bt_upserts: "string list") (bt_deletes: "string list") (bt_dequeued: nat)
  | Stopped

text \<open>
  \<open>w_uncounted\<close> is the number of calls of \<open>send\<close> between the send and the increment of the counter,
  \<open>w_senders\<close> the number of handles on the sending side of the channel.
\<close>

record 'e index_worker =
  w_db :: code_db
  w_pipe :: pipeline
  w_search :: "'e code_engine"
  w_jobs :: "worker_job list"
  w_pending :: u64
  w_uncounted :: nat
  w_senders :: nat
  w_mode :: worker_mode

text \<open>
  The surroundings of a flush: the batch size, the indexer's surroundings, the iteration orders of the two hash
  tables and whether the writes of the status and of the manifest are refused.
\<close>

record worker_env =
  we_index :: index_env
  we_batch_size :: nat
  we_upsert_order :: "string list \<Rightarrow> string list"
  we_delete_order :: "string list \<Rightarrow> string list"
  we_status_write_fails :: bool
  we_manifest_write_fails :: bool

section \<open>The sender\<close>

definition worker_new :: "code_db \<Rightarrow> pipeline \<Rightarrow> 'e code_engine \<Rightarrow> 'e index_worker" where
  "worker_new db pipe cs =
     \<lparr>w_db = db, w_pipe = pipe, w_search = cs, w_jobs = [], w_pending = 0, w_uncounted = 0, w_senders = 2,
      w_mode = Waiting\<rparr>"

text \<open>\<open>IndexJobSender::send\<close>: the job is sent first and counted afterwards.\<close>

definition push_job :: "worker_job \<Rightarrow> 'e index_worker \<Rightarrow> bool \<times> 'e index_worker" where
  "push_job j w =
     (if w_mode w = Stopped then (False, w)
      else (True, w\<lparr>w_jobs := w_jobs w @ [j], w_uncounted := Suc (w_uncounted w)\<rparr>))"

definition count_job :: "'e index_worker \<Rightarrow> 'e index_worker" where
  "count_job w = w\<lparr>w_pending := w_pending w + 1, w_uncounted := w_uncounted w - 1\<rparr>"

definition send_job :: "worker_job \<Rightarrow> 'e index_worker \<Rightarrow> bool \<times> 'e index_worker" where
  "send_job j w = (case push_job j w of (ok, w1) \<Rightarrow> if ok then (True, count_job w1) else (False, w1))"

definition dec_pending :: "nat \<Rightarrow> 'e index_worker \<Rightarrow> 'e index_worker" where
  "dec_pending n w = w\<lparr>w_pending := w_pending w - of_nat n\<rparr>"

section \<open>Batches\<close>

definition classify :: "worker_job \<Rightarrow> string list \<times> string list \<Rightarrow> string list \<times> string list" where
  "classify j = (\<lambda>(upserts, deletes).
     case j of
       JobUpsert f \<Rightarrow> (List.insert f upserts, removeAll f deletes)
     | JobDelete f \<Rightarrow> (removeAll f upserts, List.insert f deletes))"

section \<open>Flushing a batch\<close>

definition delete_file :: "string \<Rightarrow> string \<Rightarrow> code_db \<Rightarrow> code_db" where
  "delete_file p f db = delete_manifest_entry p f (snd (forget_file p f db))"

definition advance_status :: "worker_env \<Rightarrow> string \<Rightarrow> code_db \<Rightarrow> code_db" where
  "advance_status env p db =
     (case get_index_status p db of
        None \<Rightarrow> db
      | Some status \<Rightarrow>
          if we_status_write_fails env then db
          else store_index_status ((mark_structural_generation_advanced status)\<lparr>is_status := EmbeddingPending\<rparr>) db)"

text \<open>Advancing the status and rebuilding the lexical index; \<open>None\<close> is a rebuild that does not return.\<close>

definition publish ::
  "'e bm25_api \<Rightarrow> worker_env \<Rightarrow> string \<Rightarrow> code_db \<Rightarrow> 'e code_engine \<Rightarrow> (code_db \<times> 'e code_engine) option" where
  "publish api env p db cs =
     (let db1 = advance_status env p db in map_option (Pair db1) (rebuild_from_storage api p db1 cs))"

definition write_manifest :: "worker_env \<Rightarrow> string \<Rightarrow> string list \<Rightarrow> code_db \<Rightarrow> code_db" where
  "write_manifest env p paths db =
     (if we_manifest_write_fails env then db else upsert_manifest_entries (ie_now (we_index env)) p paths db)"

definition index_changed :: "incremental_result app_result \<Rightarrow> bool" where
  "index_changed r =
     (case r of Inl e \<Rightarrow> False | Inr result \<Rightarrow> ir_updated_files result > 0 \<or> ir_new_chunks result \<noteq> [])"

definition flush ::
  "'e bm25_api \<Rightarrow> worker_env \<Rightarrow> string \<Rightarrow> string list \<times> string list \<Rightarrow> 'e index_worker \<Rightarrow> 'e index_worker option" where
  "flush api env p = (\<lambda>(upserts, deletes) w.
     (let db1 = fold (delete_file p) (we_delete_order env deletes) (w_db w);
          upsert_paths = we_upsert_order env upserts
      in if upsert_paths \<noteq> [] then
           (case incremental_index (we_index env) p upsert_paths db1 (w_pipe w) of
              (r, db2, pipe2) \<Rightarrow>
                (case (if index_changed r then publish api env p db2 (w_search w) else Some (db2, w_search w)) of
                   None \<Rightarrow> None
                 | Some (db3, cs) \<Rightarrow>
                     Some (w\<lparr>w_db := write_manifest env p upsert_paths db3, w_pipe := pipe2, w_search := cs\<rparr>)))
         else if deletes \<noteq> [] then
           (case publish api env p db1 (w_search w) of
              None \<Rightarrow> None
            | Some (db3, cs) \<Rightarrow> Some (w\<lparr>w_db := db3, w_search := cs\<rparr>))
         else Some (w\<lparr>w_db := db1\<rparr>)))"

section \<open>The loop of the worker\<close>

definition flush_batch :: "'e bm25_api \<Rightarrow> worker_env \<Rightarrow> string \<Rightarrow> worker_mode \<Rightarrow> 'e index_worker \<Rightarrow> 'e index_worker option" where
  "flush_batch api env p mode w =
     map_option (w_mode_update (\<lambda>_. mode))
       (flush api env p (bt_upserts (w_mode w), bt_deletes (w_mode w)) (dec_pending (bt_dequeued (w_mode w)) w))"

definition batch_full :: "worker_env \<Rightarrow> 'e index_worker \<Rightarrow> bool" where
  "batch_full env w \<longleftrightarrow> length (bt_upserts (w_mode w)) + length (bt_deletes (w_mode w)) \<ge> we_batch_size env"

text \<open>
  One step: a client sends, counts, clones or drops its handle; the worker takes the first job, takes another
  one, flushes a full batch or one whose debounce window has elapsed, or ends because of a shutdown or because
  every sender is gone. The worker keeps a sender of its own, for the counter.
\<close>

inductive worker_step :: "'e bm25_api \<Rightarrow> worker_env \<Rightarrow> string \<Rightarrow> 'e index_worker \<Rightarrow> 'e index_worker \<Rightarrow> bool"
  for api :: "'e bm25_api" and env :: worker_env and p :: string where
  sent: "w_senders w > 1 \<Longrightarrow> push_job j w = (True, w') \<Longrightarrow> worker_step api env p w w'"
| counted: "w_uncounted w > 0 \<Longrightarrow> worker_step api env p w (count_job w)"
| cloned: "w_senders w > 1 \<Longrightarrow> worker_step api env p w (w\<lparr>w_senders := Suc (w_senders w)\<rparr>)"
| dropped: "w_senders w > 1 \<Longrightarrow> worker_step api env p w (w\<lparr>w_senders := w_senders w - 1\<rparr>)"
| first: "w_mode w = Waiting \<Longrightarrow> w_jobs w = j # js \<Longrightarrow> classify j ([], []) = (ups, dels) \<Longrightarrow>
    worker_step api env p w (w\<lparr>w_jobs := js, w_mode := Batching ups dels 1\<rparr>)"
| more: "w_mode w = Batching ups0 dels0 n \<Longrightarrow> \<not> batch_full env w \<Longrightarrow> w_jobs w = j # js \<Longrightarrow>
    classify j (ups0, dels0) = (ups, dels) \<Longrightarrow>
    worker_step api env p w (w\<lparr>w_jobs := js, w_mode := Batching ups dels (Suc n)\<rparr>)"
| flushed: "w_mode w = Batching ups dels n \<Longrightarrow> flush_batch api env p Waiting w = Some w' \<Longrightarrow> worker_step api env p w w'"
| shutdown_waiting: "w_mode w = Waiting \<Longrightarrow> worker_step api env p w (w\<lparr>w_mode := Stopped, w_senders := w_senders w - 1\<rparr>)"
| shutdown_batching: "w_mode w = Batching ups dels n \<Longrightarrow> \<not> batch_full env w \<Longrightarrow>
    flush_batch api env p Stopped w = Some w' \<Longrightarrow> worker_step api env p w (w'\<lparr>w_senders := w_senders w' - 1\<rparr>)"
| closed_waiting: "w_mode w = Waiting \<Longrightarrow> w_jobs w = [] \<Longrightarrow> w_senders w = 0 \<Longrightarrow>
    worker_step api env p w (w\<lparr>w_mode := Stopped\<rparr>)"
| closed_batching: "w_mode w = Batching ups dels n \<Longrightarrow> \<not> batch_full env w \<Longrightarrow> w_jobs w = [] \<Longrightarrow> w_senders w = 0 \<Longrightarrow>
    flush_batch api env p Stopped w = Some w' \<Longrightarrow> worker_step api env p w w'"

section \<open>A batch is the last job of every path\<close>

definition job_path :: "worker_job \<Rightarrow> string" where
  "job_path j = (case j of JobUpsert f \<Rightarrow> f | JobDelete f \<Rightarrow> f)"

definition last_job :: "worker_job list \<Rightarrow> string \<Rightarrow> worker_job option" where
  "last_job js f = find (\<lambda>j. job_path j = f) (rev js)"

definition batch_of :: "worker_job list \<Rightarrow> string list \<times> string list" where
  "batch_of js = fold classify js ([], [])"

lemma last_job_snoc: "last_job (js @ [j]) f = (if job_path j = f then Some j else last_job js f)"
  by (simp add: last_job_def)

lemma last_job_path: "last_job js f = Some j \<Longrightarrow> job_path j = f"
  by (auto simp: last_job_def find_Some_iff)

lemma batch_of_snoc: "batch_of (js @ [j]) = classify j (batch_of js)"
  by (simp add: batch_of_def)

text \<open>
  A batch holds the last job of every path it was sent, and nothing else: a path is re-indexed when its last job
  is an upsert and removed when it is a delete, once, and never both.
\<close>

lemma batch_of_invariant:
  "let (upserts, deletes) = batch_of js
   in set upserts = {f. last_job js f = Some (JobUpsert f)} \<and> set deletes = {f. last_job js f = Some (JobDelete f)} \<and>
      distinct (upserts @ deletes)"
proof (induction js rule: rev_induct)
  case Nil
  then show ?case by (simp add: batch_of_def last_job_def)
next
  case (snoc j js)
  obtain ups dels where b: "batch_of js = (ups, dels)" by fastforce
  then show ?case
    using snoc by (cases j) (auto simp: batch_of_snoc classify_def last_job_snoc job_path_def distinct_removeAll)
qed

section \<open>The counter of pending jobs\<close>

definition worker_moves :: "'e bm25_api \<Rightarrow> string \<Rightarrow> 'e index_worker \<Rightarrow> 'e index_worker \<Rightarrow> bool" where
  "worker_moves api p w w' \<longleftrightarrow> (\<exists>env. worker_step api env p w w')"

definition in_batch :: "worker_mode \<Rightarrow> nat" where
  "in_batch m = (case m of Batching ups dels n \<Rightarrow> n | _ \<Rightarrow> 0)"

lemma in_batch_simps [simp]: "in_batch Waiting = 0" "in_batch Stopped = 0" "in_batch (Batching ups dels n) = n"
  by (simp_all add: in_batch_def)

definition worker_inv :: "'e index_worker \<Rightarrow> bool" where
  "worker_inv w \<longleftrightarrow>
     w_pending w + of_nat (w_uncounted w) = of_nat (length (w_jobs w)) + of_nat (in_batch (w_mode w)) \<and>
     (w_mode w = Stopped \<or> w_senders w > 0)"

lemma flush_frame:
  assumes "flush api env p b w = Some w'"
  shows "w_jobs w' = w_jobs w" "w_pending w' = w_pending w" "w_uncounted w' = w_uncounted w" "w_senders w' = w_senders w"
  using assms
  by (auto simp: flush_def Let_def split: prod.splits if_splits option.splits)

lemma flush_batch_frame:
  assumes "flush_batch api env p mode w = Some w'"
  shows "w_jobs w' = w_jobs w" "w_pending w' = w_pending w - of_nat (bt_dequeued (w_mode w))"
    "w_uncounted w' = w_uncounted w" "w_senders w' = w_senders w" "w_mode w' = mode"
proof -
  obtain v where v: "flush api env p (bt_upserts (w_mode w), bt_deletes (w_mode w)) (dec_pending (bt_dequeued (w_mode w)) w) = Some v"
    and w': "w' = v\<lparr>w_mode := mode\<rparr>"
    using assms by (auto simp: flush_batch_def)
  show "w_jobs w' = w_jobs w" "w_pending w' = w_pending w - of_nat (bt_dequeued (w_mode w))"
    "w_uncounted w' = w_uncounted w" "w_senders w' = w_senders w" "w_mode w' = mode"
    using flush_frame [OF v] w' by (simp_all add: dec_pending_def)
qed

lemma settle_word:
  fixes a :: "'a::len word"
  assumes "a + u = j + n"
  shows "a - n + u = j"
proof -
  have "a - n + u = a + u - n" by (simp add: algebra_simps)
  with assms show ?thesis by simp
qed

lemma flush_batch_inv:
  assumes "flush_batch api env p mode w = Some w'" "w_mode w = Batching ups dels n" "worker_inv w" "in_batch mode = 0"
  shows "w_pending w' + of_nat (w_uncounted w') = of_nat (length (w_jobs w')) + of_nat (in_batch (w_mode w'))"
    and "w_senders w' = w_senders w" "w_mode w' = mode" "w_senders w > 0"
  using flush_batch_frame [OF assms(1)] assms(2,3,4)
    settle_word [of "w_pending w" "of_nat (w_uncounted w)" "of_nat (length (w_jobs w))" "of_nat n"]
  by (simp_all add: worker_inv_def)

lemma worker_inv_step: "worker_step api env p w w' \<Longrightarrow> worker_inv w \<Longrightarrow> worker_inv w'"
proof (induction rule: worker_step.induct)
  case (sent w j w')
  then show ?case by (auto simp: worker_inv_def push_job_def split: if_splits)
next
  case (counted w)
  then show ?case by (simp add: worker_inv_def count_job_def of_nat_diff)
next
  case (flushed w ups dels n w')
  from flush_batch_inv [OF flushed(2,1,3)] show ?case by (simp add: worker_inv_def)
next
  case (shutdown_batching w ups dels n w')
  from flush_batch_inv [OF shutdown_batching(3,1,4)] show ?case by (simp add: worker_inv_def)
next
  case (closed_batching w ups dels n w')
  from flush_batch_inv [OF closed_batching(5,1,6)] show ?case by (simp add: worker_inv_def)
qed (auto simp: worker_inv_def)

lemma worker_inv_reachable: "(worker_moves api p)\<^sup>*\<^sup>* (worker_new db pipe cs) w \<Longrightarrow> worker_inv w"
proof (induction rule: rtranclp_induct)
  case base
  then show ?case by (simp add: worker_inv_def worker_new_def)
next
  case (step w w')
  then show ?case by (auto simp: worker_moves_def intro: worker_inv_step)
qed

text \<open>C25: In every reachable state the counter of pending jobs is, up to the sends that are not yet counted, the number
  of jobs in the channel and in the current batch. It wraps around: a job that is taken and flushed before
  its sender counts it makes the counter \<open>2 ^ 64 - 1\<close> for a moment.
\<close>

theorem pending_counts_jobs:
  assumes "(worker_moves api p)\<^sup>*\<^sup>* (worker_new db pipe cs) w"
  shows "w_pending w + of_nat (w_uncounted w) = of_nat (length (w_jobs w)) + of_nat (in_batch (w_mode w))"
  using worker_inv_reachable [OF assms] by (simp add: worker_inv_def)

text \<open>The branches for a closed channel are never taken: the worker itself holds a sender.\<close>

lemma channel_never_closes:
  assumes "(worker_moves api p)\<^sup>*\<^sup>* (worker_new db pipe cs) w" and "w_mode w \<noteq> Stopped"
  shows "w_senders w > 0"
  using worker_inv_reachable [OF assms(1)] assms(2) by (simp add: worker_inv_def)

section \<open>What a flush does to the store\<close>

lemma upsert_manifest_keeps:
  "cd_chunks (upsert_manifest_entries now p fs db) = cd_chunks db \<and>
   cd_hashes (upsert_manifest_entries now p fs db) = cd_hashes db \<and>
   cd_active (upsert_manifest_entries now p fs db) = cd_active db \<and>
   cd_next (upsert_manifest_entries now p fs db) = cd_next db \<and>
   cd_status (upsert_manifest_entries now p fs db) = cd_status db"
proof -
  let ?same = "\<lambda>a b. cd_chunks b = cd_chunks a \<and> cd_hashes b = cd_hashes a \<and> cd_active b = cd_active a \<and>
    cd_next b = cd_next a \<and> cd_status b = cd_status a"
  have one: "?same a (manifest_statement now ps a)" for ps a
    by (simp add: manifest_statement_def upsert_manifest_entry_def split: option.split)
  have "?same a (fold (\<lambda>f. manifest_statement now ps) xs a)" for ps and xs :: "string list" and a
    by (induction xs arbitrary: a) (auto simp: one)
  then have "?same a (fold (\<lambda>chunk db1. fold (\<lambda>f. manifest_statement now (bind_parameters p chunk)) chunk db1) xs a)" for xs a
    by (induction xs arbitrary: a) auto
  then show ?thesis by (simp add: upsert_manifest_entries_def)
qed

text \<open>The rows of chunks and hashes, and the generation that readers see.\<close>

definition same_rows :: "code_db \<Rightarrow> code_db \<Rightarrow> bool" where
  "same_rows a b \<longleftrightarrow> cd_chunks b = cd_chunks a \<and> cd_hashes b = cd_hashes a \<and> cd_active b = cd_active a \<and> cd_next b = cd_next a"

lemma same_rows_trans: "same_rows a b \<Longrightarrow> same_rows b c \<Longrightarrow> same_rows a c"
  by (simp add: same_rows_def)

lemma write_manifest_rows: "same_rows db (write_manifest env p fs db)"
  using upsert_manifest_keeps [of "ie_now (we_index env)" p fs db] by (simp add: write_manifest_def same_rows_def)

lemma write_manifest_status: "cd_status (write_manifest env p fs db) = cd_status db"
  using upsert_manifest_keeps [of "ie_now (we_index env)" p fs db] by (simp add: write_manifest_def)

lemma advance_status_rows: "same_rows db (advance_status env p db)"
  by (simp add: advance_status_def store_index_status_def same_rows_def split: option.split prod.split)

lemma same_rows_views:
  assumes "same_rows a b"
  shows "file_view p f b = file_view p f a" "chunk_view p g b = chunk_view p g a" "view_pairs_of p g b = view_pairs_of p g a"
    "get_active_generation p b = get_active_generation p a" "chunk_rows_ok b = chunk_rows_ok a" "chunk_ids_ok gen b = chunk_ids_ok gen a"
  using assms by (simp_all add: same_rows_def file_view_def chunks_at_def get_file_hash_def chunk_view_def view_pairs_of_def
      get_active_generation_def chunk_rows_ok_def chunk_ids_ok_def)

lemma ids_rows_ok: "inj gen \<Longrightarrow> chunk_ids_ok gen db \<Longrightarrow> chunk_rows_ok db"
proof -
  assume "inj gen" and ok: "chunk_ids_ok gen db"
  have id: "\<exists>k. ck_id c = Some \<lparr>rid_table = ''code_chunks'', rid_key = gen k\<rparr>" if "c \<in> set (cd_chunks db)" for c
    using ok that by (auto simp: chunk_ids_ok_def)
  then have rows: "ck_id c = Some \<lparr>rid_table = ''code_chunks'', rid_key = chunk_key c\<rparr>" if "c \<in> set (cd_chunks db)" for c
    using that by (fastforce simp: chunk_key_def)
  then have "map ck_id (cd_chunks db) = map (\<lambda>k. Some \<lparr>rid_table = ''code_chunks'', rid_key = k\<rparr>) (map chunk_key (cd_chunks db))"
    by simp
  then have "distinct (map chunk_key (cd_chunks db))"
    using ok by (metis chunk_ids_ok_def distinct_map)
  with rows show ?thesis by (simp add: chunk_rows_ok_def list_all_iff)
qed

lemma delete_file_rows:
  "cd_chunks (delete_file p f db) = filter (\<lambda>c. \<not> chunk_at p f c) (cd_chunks db)"
  "cd_next (delete_file p f db) = cd_next db" "cd_active (delete_file p f db) = cd_active db"
  "file_view p g (delete_file p f db) = (if g = f then ([], None) else file_view p g db)"
proof -
  have rows: "same_rows (snd (forget_file p f db)) (delete_file p f db)"
    by (simp add: delete_file_def delete_manifest_entry_def same_rows_def)
  have f: "cd_chunks (snd (forget_file p f db)) = filter (\<lambda>c. \<not> chunk_at p f c) (cd_chunks db)"
    "cd_next (snd (forget_file p f db)) = cd_next db" "cd_active (snd (forget_file p f db)) = cd_active db"
    using clear_frame(3) [of db p f] by (simp_all add: forget_clear delete_file_hash_def clear_frame same_tables_def)
  with rows show "cd_chunks (delete_file p f db) = filter (\<lambda>c. \<not> chunk_at p f c) (cd_chunks db)"
    "cd_next (delete_file p f db) = cd_next db" "cd_active (delete_file p f db) = cd_active db"
    by (simp_all add: same_rows_def)
  show "file_view p g (delete_file p f db) = (if g = f then ([], None) else file_view p g db)"
    unfolding same_rows_views(1) [OF rows] by (rule forget_view(1))
qed

lemma delete_files_status: "cd_status (fold (delete_file p) fs db) = cd_status db"
proof (induction fs arbitrary: db)
  case (Cons f fs)
  have "cd_status (delete_file p f db) = cd_status db"
    using clear_frame(3) [of db p f]
    by (simp add: delete_file_def delete_manifest_entry_def forget_clear delete_file_hash_def same_tables_def)
  with Cons show ?case by simp
qed simp

lemma delete_files_ids: "chunk_ids_ok gen db \<Longrightarrow> chunk_ids_ok gen (fold (delete_file p) fs db)"
  by (induction fs arbitrary: db) (auto intro: filter_ids_ok delete_file_rows(1,2))

lemma delete_files_active: "cd_active (fold (delete_file p) fs db) = cd_active db"
  by (induction fs arbitrary: db) (simp_all add: delete_file_rows(3))

lemma delete_files_view:
  "file_view p g (fold (delete_file p) fs db) = (if g \<in> set fs then ([], None) else file_view p g db)"
  by (induction fs arbitrary: db) (auto simp: delete_file_rows(4))

section \<open>When the lexical index follows the store\<close>

definition search_current :: "'e bm25_api \<Rightarrow> string \<Rightarrow> 'e index_worker \<Rightarrow> bool" where
  "search_current api p w \<longleftrightarrow>
     (let g = get_active_generation p (w_db w) in
      chunk_view p g (w_db w) = [] \<or>
      hm_get (w_search w) p = Some (build_index api (view_pairs_of p g (w_db w))))"

definition batch_publishes :: "worker_env \<Rightarrow> string \<Rightarrow> string list \<times> string list \<Rightarrow> 'e index_worker \<Rightarrow> bool" where
  "batch_publishes env p = (\<lambda>(upserts, deletes) w.
     (let db1 = fold (delete_file p) (we_delete_order env deletes) (w_db w);
          upsert_paths = we_upsert_order env upserts
      in if upsert_paths \<noteq> []
         then index_changed (fst (incremental_index (we_index env) p upsert_paths db1 (w_pipe w)))
         else deletes \<noteq> []))"

lemma publish_eq:
  assumes "chunk_rows_ok db"
  obtains db1 cs1 where "publish api env p db cs = Some (db1, cs1)" "same_rows db db1"
    "\<And>q. q \<noteq> p \<Longrightarrow> hm_get cs1 q = hm_get cs q"
    "chunk_view p (get_active_generation p db) db = [] \<or>
       hm_get cs1 p = Some (build_index api (view_pairs_of p (get_active_generation p db) db))"
proof -
  have rows: "same_rows db (advance_status env p db)" by (rule advance_status_rows)
  note v = same_rows_views [OF rows]
  have "chunk_rows_ok (advance_status env p db)" using assms v(5) by simp
  note e = try_rebuild_eq [OF this, of api p "get_active_generation p db" cs]
  show ?thesis
    by (rule that [of "advance_status env p db" "if chunk_view p (get_active_generation p db) db = [] then cs
          else hm_insert p (build_index api (view_pairs_of p (get_active_generation p db) db)) cs"])
      (auto simp: publish_def rebuild_from_storage_def Let_def v e rows)
qed

lemma flush_result:
  assumes "inj (ie_gen (we_index env))" and "chunk_ids_ok (ie_gen (we_index env)) (w_db w)"
  obtains w' db2 where "flush api env p (ups, dels) w = Some w'"
    "chunk_ids_ok (ie_gen (we_index env)) (w_db w')"
    "\<And>q. q \<noteq> p \<Longrightarrow> hm_get (w_search w') q = hm_get (w_search w) q"
    "if batch_publishes env p (ups, dels) w then search_current api p w' else w_search w' = w_search w"
    "same_rows db2 (w_db w')" "w_mode w' = w_mode w"
    "db2 = (let db1 = fold (delete_file p) (we_delete_order env dels) (w_db w)
            in if we_upsert_order env ups = [] then db1
               else fst (snd (incremental_index (we_index env) p (we_upsert_order env ups) db1 (w_pipe w))))"
proof -
  define db1 where "db1 = fold (delete_file p) (we_delete_order env dels) (w_db w)"
  have ids1: "chunk_ids_ok (ie_gen (we_index env)) db1"
    unfolding db1_def by (rule delete_files_ids [OF assms(2)])
  show ?thesis
  proof (cases "we_upsert_order env ups = []")
    case none: True
    show ?thesis
    proof (cases "dels = []")
      case True
      show ?thesis
        by (rule that [of "w\<lparr>w_db := db1\<rparr>" db1])
          (use none True ids1 in \<open>simp_all add: flush_def batch_publishes_def same_rows_def db1_def Let_def\<close>)
    next
      case False
      from publish_eq [OF ids_rows_ok [OF assms(1) ids1], of api env p "w_search w"]
      obtain db3 cs where p: "publish api env p db1 (w_search w) = Some (db3, cs)" "same_rows db1 db3"
        "\<And>q. q \<noteq> p \<Longrightarrow> hm_get cs q = hm_get (w_search w) q"
        "chunk_view p (get_active_generation p db1) db1 = [] \<or>
           hm_get cs p = Some (build_index api (view_pairs_of p (get_active_generation p db1) db1))" by blast
      note v = same_rows_views [OF p(2)]
      show ?thesis
        by (rule that [of "w\<lparr>w_db := db3, w_search := cs\<rparr>" db1])
          (use none False p ids1 v in
            \<open>simp_all add: flush_def batch_publishes_def search_current_def Let_def db1_def [symmetric]\<close>)
    qed
  next
    case some: False
    obtain r db2 pipe2 where i: "incremental_index (we_index env) p (we_upsert_order env ups) db1 (w_pipe w) = (r, db2, pipe2)"
      by (metis prod_cases3)
    have ids2: "chunk_ids_ok (ie_gen (we_index env)) db2" using ids.run [OF i] assms(1) ids1 by blast
    show ?thesis
    proof (cases "index_changed r")
      case False
      note m = write_manifest_rows [of db2 env p "we_upsert_order env ups"]
      show ?thesis
        by (rule that [of "w\<lparr>w_db := write_manifest env p (we_upsert_order env ups) db2, w_pipe := pipe2\<rparr>" db2])
          (use some False i m ids2 same_rows_views [OF m] in
            \<open>simp_all add: flush_def batch_publishes_def Let_def db1_def [symmetric]\<close>)
    next
      case True
      from publish_eq [OF ids_rows_ok [OF assms(1) ids2], of api env p "w_search w"]
      obtain db3 cs where p: "publish api env p db2 (w_search w) = Some (db3, cs)" "same_rows db2 db3"
        "\<And>q. q \<noteq> p \<Longrightarrow> hm_get cs q = hm_get (w_search w) q"
        "chunk_view p (get_active_generation p db2) db2 = [] \<or>
           hm_get cs p = Some (build_index api (view_pairs_of p (get_active_generation p db2) db2))" by blast
      note m = same_rows_trans [OF p(2) write_manifest_rows [of db3 env p "we_upsert_order env ups"]]
      show ?thesis
        by (rule that [of "w\<lparr>w_db := write_manifest env p (we_upsert_order env ups) db3, w_pipe := pipe2, w_search := cs\<rparr>" db2])
          (use some True i p m ids2 same_rows_views [OF m] in
            \<open>simp_all add: flush_def batch_publishes_def search_current_def Let_def db1_def [symmetric]\<close>)
    qed
  qed
qed

text \<open>C24: A flush always returns, and gives the chunk rows their own ids. When it publishes (the indexer changed
  something, or the batch only deletes), the lexical index of the project is afterwards the one built from the
  chunks that readers see, unless there are none; otherwise no lexical index changes. The
  indexes of other projects never change.
\<close>

theorem flush_rebuilds_index:
  assumes "inj (ie_gen (we_index env))" and "chunk_ids_ok (ie_gen (we_index env)) (w_db w)"
  shows "\<exists>w'. flush api env p (ups, dels) w = Some w' \<and> chunk_ids_ok (ie_gen (we_index env)) (w_db w') \<and>
    (\<forall>q. q \<noteq> p \<longrightarrow> hm_get (w_search w') q = hm_get (w_search w) q) \<and>
    (if batch_publishes env p (ups, dels) w then search_current api p w' else w_search w' = w_search w)"
  by (rule flush_result [OF assms, of api p ups dels]) blast

section \<open>A flush catches up with the last jobs\<close>

definition orders_ok :: "worker_env \<Rightarrow> bool" where
  "orders_ok env \<longleftrightarrow>
     (\<forall>xs. mset (we_upsert_order env xs) = mset xs \<and> mset (we_delete_order env xs) = mset xs)"

lemma orders:
  assumes "orders_ok env"
  shows "set (we_upsert_order env xs) = set xs" "set (we_delete_order env xs) = set xs"
    "distinct (we_upsert_order env xs) = distinct xs" "we_upsert_order env xs = [] \<longleftrightarrow> xs = []"
  using assms mset_eq_setD [of "we_upsert_order env xs" xs] mset_eq_setD [of "we_delete_order env xs" xs]
    mset_eq_imp_distinct_iff [of "we_upsert_order env xs" xs]
  by (auto simp: orders_ok_def)

lemma batch_of_sets:
  assumes "batch_of js = (ups, dels)"
  shows "f \<in> set ups \<longleftrightarrow> last_job js f = Some (JobUpsert f)" "f \<in> set dels \<longleftrightarrow> last_job js f = Some (JobDelete f)"
    "distinct ups"
proof -
  have "set ups = {f. last_job js f = Some (JobUpsert f)} \<and> set dels = {f. last_job js f = Some (JobDelete f)} \<and>
      distinct (ups @ dels)"
    using batch_of_invariant [of js] unfolding assms Let_def prod.case .
  then show "f \<in> set ups \<longleftrightarrow> last_job js f = Some (JobUpsert f)" "f \<in> set dels \<longleftrightarrow> last_job js f = Some (JobDelete f)"
    "distinct ups" by auto
qed

definition settled_view ::
  "index_env \<Rightarrow> string \<Rightarrow> u64 option \<Rightarrow> string \<Rightarrow> worker_job option \<Rightarrow> code_chunk list \<times> string option \<Rightarrow>
     code_chunk list \<times> string option" where
  "settled_view env p active f j v =
     (case j of
        None \<Rightarrow> v
      | Some (JobDelete g) \<Rightarrow> ([], None)
      | Some (JobUpsert g) \<Rightarrow> expected_view env p active f v)"

lemma get_active_cong: "cd_active a = cd_active b \<Longrightarrow> get_active_generation p a = get_active_generation p b"
  by (simp add: get_active_generation_def)

lemma batch_settles:
  assumes "prompt (we_index env)" "reliable (we_index env)" "orders_ok env"
    and "inj (ie_gen (we_index env))" "chunk_ids_ok (ie_gen (we_index env)) (w_db w)"
  obtains w' where "flush api env p (batch_of js) w = Some w'"
    "chunk_ids_ok (ie_gen (we_index env)) (w_db w')" "cd_active (w_db w') = cd_active (w_db w)" "w_mode w' = w_mode w"
    "\<And>f. file_view p f (w_db w') =
       settled_view (we_index env) p (get_active_generation p (w_db w)) f (last_job js f) (file_view p f (w_db w))"
proof -
  obtain ups dels where b: "batch_of js = (ups, dels)" by fastforce
  note s = batch_of_sets [OF b] orders [OF assms(3)]
  define db1 where "db1 = fold (delete_file p) (we_delete_order env dels) (w_db w)"
  have a1: "cd_active db1 = cd_active (w_db w)" unfolding db1_def by (rule delete_files_active)
  have v1: "file_view p f db1 = (if last_job js f = Some (JobDelete f) then ([], None) else file_view p f (w_db w))" for f
    unfolding db1_def delete_files_view by (simp add: s)
  obtain w' db2 where w': "flush api env p (ups, dels) w = Some w'" "chunk_ids_ok (ie_gen (we_index env)) (w_db w')"
    "same_rows db2 (w_db w')" "w_mode w' = w_mode w"
    "db2 = (if we_upsert_order env ups = [] then db1
            else fst (snd (incremental_index (we_index env) p (we_upsert_order env ups) db1 (w_pipe w))))"
    by (rule flush_result [OF assms(4,5), of api p ups dels]) (unfold db1_def [symmetric] Let_def, blast)
  obtain r db' pipe' where i: "incremental_index (we_index env) p (we_upsert_order env ups) db1 (w_pipe w) = (r, db', pipe')"
    by (metis prod_cases3)
  have v2: "file_view p f db2 =
      (if f \<in> set ups then expected_view (we_index env) p (get_active_generation p db1) f (file_view p f db1)
       else file_view p f db1)" for f
    using prompt_run [OF assms(1,2), of "we_upsert_order env ups" p db1 "w_pipe w" f] s w'(5) i by auto
  have a2: "cd_active db2 = cd_active (w_db w)"
    using tables.run [OF i] a1 w'(5) i by (auto simp: same_tables_def)
  have view: "file_view p f (w_db w') =
      settled_view (we_index env) p (get_active_generation p (w_db w)) f (last_job js f) (file_view p f (w_db w))" for f
  proof (cases "last_job js f")
    case None
    then show ?thesis using s v1 [of f] v2 [of f] same_rows_views(1) [OF w'(3), of p f] by (simp add: settled_view_def)
  next
    case (Some j)
    then show ?thesis
      using s v1 [of f] v2 [of f] same_rows_views(1) [OF w'(3), of p f] last_job_path [OF Some] get_active_cong [OF a1]
      by (cases j) (auto simp: settled_view_def job_path_def)
  qed
  show ?thesis
    by (rule that [OF _ w'(2) _ w'(4) view]) (use w' b a2 in \<open>simp_all add: same_rows_def\<close>)
qed

text \<open>C23: Whatever jobs were collected, when no task panics, no write is refused and no task times out, one flush
  leaves every path as its last job says: nothing is stored of a deleted file, the chunks and the hash of
  an upserted file are those of its content on disk, and all other paths keep theirs.
\<close>

theorem batch_catches_up:
  assumes "prompt (we_index env)" and "reliable (we_index env)" and "orders_ok env"
    and "inj (ie_gen (we_index env))" and "chunk_ids_ok (ie_gen (we_index env)) (w_db w)"
  shows "\<exists>w'. flush api env p (batch_of js) w = Some w' \<and>
    (\<forall>f. file_view p f (w_db w') =
       settled_view (we_index env) p (get_active_generation p (w_db w)) f (last_job js f) (file_view p f (w_db w)))"
  by (rule batch_settles [OF assms, of api p js]) blast

section \<open>Several batches\<close>

fun run_flushes ::
  "'e bm25_api \<Rightarrow> worker_env \<Rightarrow> string \<Rightarrow> worker_job list list \<Rightarrow> 'e index_worker \<Rightarrow> 'e index_worker option" where
  "run_flushes api env p [] w = Some w"
| "run_flushes api env p (js # jss) w =
     (case flush api env p (batch_of js) w of None \<Rightarrow> None | Some w1 \<Rightarrow> run_flushes api env p jss w1)"

lemma last_job_append: "last_job (xs @ ys) f = (case last_job ys f of Some j \<Rightarrow> Some j | None \<Rightarrow> last_job xs f)"
  unfolding last_job_def by (simp add: find_append split: option.split)

lemma last_job_None: "last_job js f = None \<longleftrightarrow> f \<notin> job_path ` set js"
  by (auto simp: last_job_def find_None_iff)

text \<open>However jobs for different paths are cut into batches, the result is the same.\<close>

lemma batches_settle:
  assumes "prompt (we_index env)" "reliable (we_index env)" "orders_ok env" "inj (ie_gen (we_index env))"
  shows "chunk_ids_ok (ie_gen (we_index env)) (w_db w) \<Longrightarrow> distinct (map job_path (concat jss)) \<Longrightarrow>
    \<exists>w'. run_flushes api env p jss w = Some w' \<and> cd_active (w_db w') = cd_active (w_db w) \<and>
      (\<forall>f. file_view p f (w_db w') = settled_view (we_index env) p (get_active_generation p (w_db w)) f
             (last_job (concat jss) f) (file_view p f (w_db w)))"
proof (induction jss arbitrary: w)
  case Nil
  then show ?case by (simp add: settled_view_def last_job_def)
next
  case (Cons js jss)
  obtain w1 where w1: "flush api env p (batch_of js) w = Some w1" "chunk_ids_ok (ie_gen (we_index env)) (w_db w1)"
    "cd_active (w_db w1) = cd_active (w_db w)"
    "\<And>f. file_view p f (w_db w1) =
       settled_view (we_index env) p (get_active_generation p (w_db w)) f (last_job js f) (file_view p f (w_db w))"
    by (rule batch_settles [OF assms Cons.prems(1), of api p js]) blast
  have "distinct (map job_path (concat jss))" using Cons.prems(2) by simp
  from Cons.IH [OF w1(2) this] obtain w' where w': "run_flushes api env p jss w1 = Some w'" "cd_active (w_db w') = cd_active (w_db w1)"
    "\<And>f. file_view p f (w_db w') = settled_view (we_index env) p (get_active_generation p (w_db w1)) f
             (last_job (concat jss) f) (file_view p f (w_db w1))" by blast
  have "settled_view (we_index env) p g f (last_job (concat jss) f) (settled_view (we_index env) p g f (last_job js f) v) =
      settled_view (we_index env) p g f (last_job (concat (js # jss)) f) v" for g f v
  proof (cases "last_job (concat jss) f")
    case None
    then show ?thesis by (simp add: last_job_append settled_view_def)
  next
    case (Some j)
    then have "f \<in> job_path ` set (concat jss)" using last_job_None by (metis option.distinct(1))
    moreover have "job_path ` set js \<inter> job_path ` set (concat jss) = {}"
      using Cons.prems(2) unfolding concat.simps map_append distinct_append set_map by (elim conjE)
    ultimately have "last_job js f = None" unfolding last_job_None by blast
    with Some show ?thesis by (simp add: last_job_append settled_view_def)
  qed
  note two = this
  show ?case
  proof (intro exI conjI allI)
    show "run_flushes api env p (js # jss) w = Some w'" using w1(1) w'(1) by simp
    show "cd_active (w_db w') = cd_active (w_db w)" using w1(3) w'(2) by simp
    show "file_view p f (w_db w') = settled_view (we_index env) p (get_active_generation p (w_db w)) f
        (last_job (concat (js # jss)) f) (file_view p f (w_db w))" for f
      unfolding w'(3) w1(4) get_active_cong [OF w1(3)] by (rule two)
  qed
qed

section \<open>A batch that changes the store but not the index\<close>

definition file_unchanged :: "index_env \<Rightarrow> string \<Rightarrow> code_db \<Rightarrow> string \<Rightarrow> bool" where
  "file_unchanged env p db f \<longleftrightarrow> ie_exists env f \<and>
     (case ie_read env f of
        None \<Rightarrow> True
      | Some c \<Rightarrow> \<not> is_generated_source_content c \<and> get_file_hash p f db = Some (ie_blake3 env c))"

lemma unchanged_paths:
  "list_all (file_unchanged env p (ic_db st)) fs \<Longrightarrow> process_paths env p active fs (st, ps) = (Inr (), st, ps)"
  by (induction fs) (auto simp: file_unchanged_def process_path_def split: option.splits)

lemma unchanged_run:
  "list_all (file_unchanged env p db) fs \<Longrightarrow> incremental_index env p fs db pipe = (Inr incremental_result_default, db, pipe)"
  by (simp add: incremental_index_def unchanged_paths Let_def final_drain.simps)

text \<open>C26: A batch with deletes and with upserts of which none has changed, as an editor that saves one file and
  removes another produces: the rows of the deleted files are removed, but the lexical index is not rebuilt
  and the status does not advance, so that the deleted files stay searchable.
\<close>

theorem mixed_batch_leaves_stale_index:
  assumes "orders_ok env" and "batch_of js = (ups, dels)" and "ups \<noteq> []"
    and "list_all (file_unchanged (we_index env) p (w_db w)) ups"
  shows "\<exists>w'. flush api env p (batch_of js) w = Some w' \<and> w_search w' = w_search w \<and>
    get_index_status p (w_db w') = get_index_status p (w_db w) \<and>
    list_all (\<lambda>f. chunks_at p f (w_db w') = []) dels"
proof -
  note s = batch_of_sets [OF assms(2)] orders [OF assms(1)]
  define db1 where "db1 = fold (delete_file p) (we_delete_order env dels) (w_db w)"
  have v: "file_view p f db1 = (if f \<in> set dels then ([], None) else file_view p f (w_db w))" for f
    unfolding db1_def delete_files_view by (simp add: s)
  have "file_unchanged (we_index env) p db1 f" if "f \<in> set ups" for f
  proof -
    have "f \<notin> set dels" using that by (simp add: s)
    then have "get_file_hash p f db1 = get_file_hash p f (w_db w)" using v [of f] by (simp add: file_view_def)
    with assms(4) that show ?thesis by (auto simp: list_all_iff file_unchanged_def split: option.splits)
  qed
  then have "list_all (file_unchanged (we_index env) p db1) (we_upsert_order env ups)"
    by (simp add: list_all_iff s)
  note i = unchanged_run [OF this, of "w_pipe w"]
  have "flush api env p (batch_of js) w = Some (w\<lparr>w_db := write_manifest env p (we_upsert_order env ups) db1\<rparr>)"
    using assms(2,3) s i by (simp add: flush_def Let_def db1_def [symmetric] index_changed_def incremental_result_default_def)
  moreover have "chunks_at p f (write_manifest env p (we_upsert_order env ups) db1) = []" if "f \<in> set dels" for f
    using same_rows_views(1) [OF write_manifest_rows, of p f env p "we_upsert_order env ups" db1] v [of f] that
    by (simp add: file_view_def)
  ultimately show ?thesis
    by (auto simp: get_index_status_def write_manifest_status delete_files_status db1_def list_all_iff)
qed

section \<open>Examples\<close>

definition example_worker_env :: worker_env where
  "example_worker_env =
     \<lparr>we_index = example_env (Finished 0), we_batch_size = 2, we_upsert_order = (\<lambda>xs. xs), we_delete_order = rev,
      we_status_write_fails = False, we_manifest_write_fails = False\<rparr>"

definition example_worker :: "(string, string) hmap index_worker" where
  "example_worker =
     worker_new
       (snd (create_code_chunks_batch dec_of_nat
          [create_chunk \<lparr>cx_file_path = ''b.sh'', cx_project_id = ''p'', cx_language = Unknown, cx_hash = (\<lambda>s. s), cx_now = 4\<rparr>
             ''echo other'' 1 1 CT_Other None] (code_db_empty\<lparr>cd_hashes := [((''p'', ''a.sh''), ''echo new'')]\<rparr>)))
       (pipeline_new 4 ''m'' [] 1) []"

lemma inj_dec_of_nat: "inj dec_of_nat"
  by (simp add: inj_def dec_of_nat_inj)

lemma example_worker_ok:
  "prompt (we_index example_worker_env)" "reliable (we_index example_worker_env)" "orders_ok example_worker_env"
  "inj (ie_gen (we_index example_worker_env))" "chunk_ids_ok (ie_gen (we_index example_worker_env)) (w_db example_worker)"
proof -
  show "inj (ie_gen (we_index example_worker_env))"
    by (simp add: example_worker_env_def example_env_def inj_dec_of_nat)
  show "chunk_ids_ok (ie_gen (we_index example_worker_env)) (w_db example_worker)"
    unfolding example_worker_def worker_new_def
    by (simp add: example_worker_env_def example_env_def)
      (rule create_batch_ids_ok [OF inj_dec_of_nat], simp_all add: chunk_ids_ok_def code_db_empty_def create_chunk_def)
qed (simp_all add: example_worker_env_def example_env_def prompt_def reliable_def orders_ok_def)

lemma one_job_run:
  "\<exists>w1 w2. worker_moves api p (worker_new db pipe cs) w1 \<and> worker_moves api p w1 w2 \<and>
     w_mode w2 = Batching [] [f] 1 \<and> w_db w2 = db \<and> w_pending w2 = 0 \<and> w_uncounted w2 = 1 \<and> w_jobs w2 = []"
proof -
  define w1 where "w1 = (worker_new db pipe cs)\<lparr>w_jobs := [JobDelete f], w_uncounted := 1\<rparr>"
  define w2 where "w2 = w1\<lparr>w_jobs := [], w_mode := Batching [] [f] 1\<rparr>"
  have "worker_step api env p (worker_new db pipe cs) w1" for env
    by (rule worker_step.sent [where j = "JobDelete f"]) (simp_all add: worker_new_def push_job_def w1_def)
  moreover have "worker_step api env p w1 w2" for env
    unfolding w2_def
    by (rule worker_step.first [where j = "JobDelete f" and js = "[]" and ups = "[]" and dels = "[f]"])
      (simp_all add: w1_def worker_new_def classify_def)
  ultimately show ?thesis
    by (intro exI [of _ w1] exI [of _ w2]) (auto simp: worker_moves_def w1_def w2_def worker_new_def)
qed

text \<open>The counter does wrap around: one job, taken and flushed before its sender counts it.\<close>

lemma pending_underflows:
  "\<exists>w. (worker_moves api p)\<^sup>*\<^sup>* (worker_new code_db_empty pipe cs) w \<and> w_pending w = - 1 \<and> w_jobs w = []"
proof -
  obtain w1 w2 where r: "worker_moves api p (worker_new code_db_empty pipe cs) w1" "worker_moves api p w1 w2"
    "w_mode w2 = Batching [] [''f''] 1" "w_db w2 = code_db_empty" "w_pending w2 = 0" "w_jobs w2 = []"
    using one_job_run [of api p code_db_empty pipe cs "''f''"] by blast
  have "chunk_ids_ok (ie_gen (we_index example_worker_env)) (w_db (dec_pending 1 w2))"
    by (simp add: dec_pending_def r(4) chunk_ids_ok_def code_db_empty_def)
  from flush_result [OF example_worker_ok(4) this, of api p "[]" "[''f'']"]
  obtain w' where "flush api example_worker_env p ([], [''f'']) (dec_pending 1 w2) = Some w'" by blast
  then have f: "flush_batch api example_worker_env p Waiting w2 = Some (w'\<lparr>w_mode := Waiting\<rparr>)"
    by (simp add: flush_batch_def r(3))
  have "worker_moves api p w2 (w'\<lparr>w_mode := Waiting\<rparr>)"
    unfolding worker_moves_def using worker_step.flushed [OF r(3) f] by blast
  with r(1,2) have "(worker_moves api p)\<^sup>*\<^sup>* (worker_new code_db_empty pipe cs) (w'\<lparr>w_mode := Waiting\<rparr>)"
    by (meson rtranclp.rtrancl_into_rtrancl rtranclp.rtrancl_refl)
  moreover have "w_pending (w'\<lparr>w_mode := Waiting\<rparr>) = - 1" "w_jobs (w'\<lparr>w_mode := Waiting\<rparr>) = []"
    using flush_batch_frame(1,2) [OF f] r(3,5,6) by simp_all
  ultimately show ?thesis by blast
qed

theorem pending_counts_jobs_witness:
  "\<exists>w. (worker_moves token_engine ''p'')\<^sup>*\<^sup>* (worker_new code_db_empty (pipeline_new 4 ''m'' [] 1) []) w \<and>
     w_pending w + of_nat (w_uncounted w) = of_nat (length (w_jobs w)) + of_nat (in_batch (w_mode w)) \<and> in_batch (w_mode w) = 1"
proof -
  obtain w1 w2 where r: "worker_moves token_engine ''p'' (worker_new code_db_empty (pipeline_new 4 ''m'' [] 1) []) w1"
    "worker_moves token_engine ''p'' w1 w2" "w_mode w2 = Batching [] [''f''] 1"
    using one_job_run [of token_engine "''p''" code_db_empty "pipeline_new 4 ''m'' [] 1" "[]" "''f''"] by blast
  then have run: "(worker_moves token_engine ''p'')\<^sup>*\<^sup>* (worker_new code_db_empty (pipeline_new 4 ''m'' [] 1) []) w2"
    by (meson rtranclp.rtrancl_into_rtrancl rtranclp.rtrancl_refl)
  from pending_counts_jobs [OF run] run r(3) show ?thesis by (intro exI [of _ w2]) simp
qed

theorem flush_rebuilds_index_witness:
  "\<exists>w'. flush token_engine example_worker_env ''p'' ([], [''a.sh'']) example_worker = Some w' \<and> search_current token_engine ''p'' w'"
  using flush_rebuilds_index [OF example_worker_ok(4,5), of token_engine "''p''" "[]" "[''a.sh'']"]
  by (auto simp: batch_publishes_def example_worker_env_def)

theorem batch_catches_up_witness:
  "\<exists>w'. flush token_engine example_worker_env ''p'' (batch_of [JobUpsert ''a.sh'', JobDelete ''b.sh'']) example_worker = Some w' \<and>
     file_view ''p'' ''b.sh'' (w_db w') = ([], None)"
proof -
  obtain w' where w': "flush token_engine example_worker_env ''p'' (batch_of [JobUpsert ''a.sh'', JobDelete ''b.sh'']) example_worker = Some w'"
    "\<And>f. file_view ''p'' f (w_db w') =
       settled_view (we_index example_worker_env) ''p'' (get_active_generation ''p'' (w_db example_worker)) f
         (last_job [JobUpsert ''a.sh'', JobDelete ''b.sh''] f) (file_view ''p'' f (w_db example_worker))"
    using batch_catches_up [OF example_worker_ok, of token_engine "''p''" "[JobUpsert ''a.sh'', JobDelete ''b.sh'']"] by blast
  have "last_job [JobUpsert ''a.sh'', JobDelete ''b.sh''] ''b.sh'' = Some (JobDelete ''b.sh'')"
    by (simp add: last_job_def job_path_def)
  with w' show ?thesis by (simp add: settled_view_def)
qed

theorem mixed_batch_leaves_stale_index_witness:
  "\<exists>w'. flush token_engine example_worker_env ''p'' (batch_of [JobDelete ''b.sh'', JobUpsert ''a.sh'']) example_worker = Some w' \<and>
     w_search w' = w_search example_worker \<and> chunks_at ''p'' ''b.sh'' (w_db w') = []"
proof -
  have b: "batch_of [JobDelete ''b.sh'', JobUpsert ''a.sh''] = ([''a.sh''], [''b.sh''])"
    by (simp add: batch_of_def classify_def)
  have "cd_hashes (w_db example_worker) = [((''p'', ''a.sh''), ''echo new'')]"
    by (simp add: example_worker_def worker_new_def create_code_chunks_batch_def split: prod.split)
  then have "list_all (file_unchanged (we_index example_worker_env) ''p'' (w_db example_worker)) [''a.sh'']"
    by (simp add: file_unchanged_def example_worker_env_def example_env_def get_file_hash_def short_not_generated)
  from mixed_batch_leaves_stale_index [OF example_worker_ok(3) b _ this, of token_engine]
  show ?thesis by (auto simp: b)
qed

end
