(* ===== verification/IndexManager.thy ===== *)
theory IndexManager
  imports IndexWorker
begin

text \<open>
  The manager of a project's index, \<open>src/codebase/manager.rs\<close>, and the debounced file watcher,
  \<open>src/codebase/watcher.rs\<close>: which files the manifest holds, which jobs a validation sends, which embeddings are
  resumed and what a start does. Globs, the directory walk, file reads and the full indexing run are parameters;
  the tasks that a start spawns are functions of the worker's state.
\<close>

definition EMBEDDING_VERSION :: u32 where "EMBEDDING_VERSION = 3"

record manager_env =
  me_glob :: "string \<Rightarrow> string + (string \<Rightarrow> bool)"
  me_read_file :: "string \<Rightarrow> string option"
  me_entries :: "(string \<times> bool \<times> string option) list"
  me_scan_panics :: "string option"
  me_set_order :: "string list \<Rightarrow> string list"
  me_now :: datetime

section \<open>The manifest\<close>

definition active_index_filter :: "manager_env \<Rightarrow> string \<Rightarrow> code_db \<Rightarrow> compiled_index_filter app_result" where
  "active_index_filter me p db =
     (let filter_config = (case get_index_status p db of
            Some s \<Rightarrow> \<lparr>fi_include_patterns = is_include_patterns s, fi_exclude_patterns = is_exclude_patterns s\<rparr>
          | None \<Rightarrow> \<lparr>fi_include_patterns = [], fi_exclude_patterns = []\<rparr>)
      in case compile_filter (me_glob me) filter_config of Inl e \<Rightarrow> Inl (Internal e) | Inr flt \<Rightarrow> Inr flt)"

definition scan_project :: "manager_env \<Rightarrow> string \<Rightarrow> compiled_index_filter \<Rightarrow> string list app_result" where
  "scan_project me who flt =
     (case me_scan_panics me of
        Some e \<Rightarrow> Inl (Internal (who @ '' scan panicked: '' @ e))
      | None \<Rightarrow> Inr (scan_directory_with_filter flt (me_read_file me) (me_entries me)))"

definition bootstrap_manifest :: "manager_env \<Rightarrow> string \<Rightarrow> code_db \<Rightarrow> unit app_result \<times> code_db" where
  "bootstrap_manifest me p db =
     (case active_index_filter me p db of
        Inl e \<Rightarrow> (Inl e, db)
      | Inr flt \<Rightarrow>
          (case scan_project me ''bootstrap_manifest'' flt of
             Inl e \<Rightarrow> (Inl e, db)
           | Inr file_paths \<Rightarrow>
               if file_paths = [] then (Inr (), db)
               else (Inr (), upsert_manifest_entries (me_now me) p file_paths db)))"

section \<open>Validation\<close>

definition enqueue_jobs :: "worker_job list \<Rightarrow> 'e index_worker \<Rightarrow> 'e index_worker" where
  "enqueue_jobs js w = fold (\<lambda>j w1. snd (send_job j w1)) js w"

definition deleted_files :: "manager_env \<Rightarrow> string \<Rightarrow> code_db \<Rightarrow> string list \<Rightarrow> string list" where
  "deleted_files me p db current_files =
     me_set_order me (filter (\<lambda>f. f \<notin> set current_files) (remdups (get_manifest_entries p db)))"

definition validate_index_full ::
  "manager_env \<Rightarrow> string \<Rightarrow> 'e index_worker \<Rightarrow> incremental_result app_result \<times> 'e index_worker" where
  "validate_index_full me p w =
     (case active_index_filter me p (w_db w) of
        Inl e \<Rightarrow> (Inl e, w)
      | Inr flt \<Rightarrow>
          (case scan_project me ''validate_index_full'' flt of
             Inl e \<Rightarrow> (Inl e, w)
           | Inr current_files \<Rightarrow>
               (let deleted = deleted_files me p (w_db w) current_files
                in (Inr incremental_result_default,
                    enqueue_jobs (map JobUpsert current_files) (enqueue_jobs (map JobDelete deleted) w)))))"

section \<open>Resuming embeddings\<close>

fun send_requests ::
  "bool \<Rightarrow> embedding_request list \<Rightarrow> nat \<Rightarrow> pipeline \<Rightarrow> (nat app_result \<times> pipeline) option" where
  "send_requests receiver_open [] enqueued pipe = Some (Inr enqueued, pipe)"
| "send_requests receiver_open (r # rs) enqueued pipe =
     (case send_request receiver_open r pipe of
        None \<Rightarrow> None
      | Some (Inl e, pipe1) \<Rightarrow> Some (Inl e, pipe1)
      | Some (Inr u, pipe1) \<Rightarrow> send_requests receiver_open rs (enqueued + 1) pipe1)"

definition chunk_request :: "string \<times> string \<Rightarrow> embedding_request" where
  "chunk_request = (\<lambda>(i, content). \<lparr>er_text = content, er_responder = None, er_target = Some (ChunkTarget i), er_retry_count = 0\<rparr>)"

definition symbol_text_request :: "string \<times> string \<Rightarrow> embedding_request" where
  "symbol_text_request = (\<lambda>(i, t). \<lparr>er_text = t, er_responder = None, er_target = Some (SymbolTarget i), er_retry_count = 0\<rparr>)"

text \<open>\<open>None\<close> is a send that waits for room in the queue.\<close>

definition resume_embeddings_for_project ::
  "bool \<Rightarrow> string \<Rightarrow> code_db \<Rightarrow> pipeline \<Rightarrow> (nat app_result \<times> pipeline) option" where
  "resume_embeddings_for_project receiver_open p db pipe =
     (case send_requests receiver_open (map chunk_request (get_unembedded_chunks p db)) 0 pipe of
        None \<Rightarrow> None
      | Some (Inl e, pipe1) \<Rightarrow> Some (Inl e, pipe1)
      | Some (Inr n, pipe1) \<Rightarrow>
          send_requests receiver_open (map symbol_text_request (get_unembedded_symbols p db)) n pipe1)"

definition resume_embeddings :: "bool \<Rightarrow> string \<Rightarrow> 'e index_worker \<Rightarrow> (nat app_result \<times> 'e index_worker) option" where
  "resume_embeddings receiver_open p w =
     map_option (\<lambda>(r, pipe). (r, w\<lparr>w_pipe := pipe\<rparr>))
       (resume_embeddings_for_project receiver_open p (w_db w) (w_pipe w))"

section \<open>Starting\<close>

datatype start_action =
    FullIndex
  | MigrateEmbeddings index_status
  | ValidateIndex
  | ResumeInterrupted index_status
  | NoAction

definition start_action_of :: "index_status option \<Rightarrow> start_action" where
  "start_action_of status =
     (case status of
        None \<Rightarrow> FullIndex
      | Some s \<Rightarrow>
          if is_status s = Completed \<or> is_status s = EmbeddingPending then
            (if is_embedding_version s < EMBEDDING_VERSION then MigrateEmbeddings s else ValidateIndex)
          else if is_status s = Indexing then ResumeInterrupted s
          else NoAction)"

definition put_status :: "index_status \<Rightarrow> 'e index_worker \<Rightarrow> 'e index_worker" where
  "put_status s w = w\<lparr>w_db := store_index_status s (w_db w)\<rparr>"

definition migrate_task :: "bool \<Rightarrow> string \<Rightarrow> index_status \<Rightarrow> 'e index_worker \<Rightarrow> 'e index_worker option" where
  "migrate_task receiver_open p s w =
     (let w1 = w\<lparr>w_db := clear_project_embeddings p (w_db w)\<rparr>;
          w2 = put_status (s\<lparr>is_status := EmbeddingPending, is_embedding_version := EMBEDDING_VERSION\<rparr>) w1
      in map_option snd (resume_embeddings receiver_open p w2))"

definition validate_task :: "manager_env \<Rightarrow> bool \<Rightarrow> string \<Rightarrow> 'e index_worker \<Rightarrow> 'e index_worker option" where
  "validate_task me receiver_open p w =
     (let w1 = snd (validate_index_full me p w)
      in case resume_embeddings receiver_open p w1 of
           None \<Rightarrow> None
         | Some (Inl e, w2) \<Rightarrow> Some w2
         | Some (Inr n, w2) \<Rightarrow>
             if n > 0
             then Some (case get_index_status p (w_db w2) of
                          None \<Rightarrow> w2 | Some st \<Rightarrow> put_status (st\<lparr>is_status := EmbeddingPending\<rparr>) w2)
             else Some w2)"

text \<open>\<open>run_index\<close> is \<open>index_project\<close>: whether it succeeded, and what it left.\<close>

definition full_index_task ::
  "'e bm25_api \<Rightarrow> manager_env \<Rightarrow> ('e index_worker \<Rightarrow> bool \<times> 'e index_worker) \<Rightarrow> string \<Rightarrow> 'e index_worker \<Rightarrow>
     'e index_worker option" where
  "full_index_task api me run_index p w =
     (case run_index w of
        (False, w1) \<Rightarrow> Some w1
      | (True, w1) \<Rightarrow>
          (let w2 = w1\<lparr>w_db := snd (bootstrap_manifest me p (w_db w1))\<rparr>
           in map_option (\<lambda>cs. w2\<lparr>w_search := cs\<rparr>) (rebuild_from_storage api p (w_db w2) (w_search w2))))"

definition resume_task ::
  "'e bm25_api \<Rightarrow> manager_env \<Rightarrow> ('e index_worker \<Rightarrow> bool \<times> 'e index_worker) \<Rightarrow> bool \<Rightarrow> string \<Rightarrow> index_status \<Rightarrow>
     'e index_worker \<Rightarrow> 'e index_worker option" where
  "resume_task api me run_index receiver_open p s w =
     (let w1 = snd (validate_index_full me p w)
      in case resume_embeddings receiver_open p w1 of
           None \<Rightarrow> None
         | Some (Inl e, w2) \<Rightarrow> full_index_task api me run_index p w2
         | Some (Inr n, w2) \<Rightarrow> Some (put_status (s\<lparr>is_status := EmbeddingPending\<rparr>) w2))"

definition manager_start ::
  "'e bm25_api \<Rightarrow> manager_env \<Rightarrow> ('e index_worker \<Rightarrow> bool \<times> 'e index_worker) \<Rightarrow> bool \<Rightarrow> string \<Rightarrow> 'e index_worker \<Rightarrow>
     'e index_worker option" where
  "manager_start api me run_index receiver_open p w =
     (case start_action_of (get_index_status p (w_db w)) of
        FullIndex \<Rightarrow> full_index_task api me run_index p w
      | MigrateEmbeddings s \<Rightarrow> migrate_task receiver_open p s w
      | ValidateIndex \<Rightarrow> validate_task me receiver_open p w
      | ResumeInterrupted s \<Rightarrow> resume_task api me run_index receiver_open p s w
      | NoAction \<Rightarrow> Some w)"

section \<open>The watcher\<close>

text \<open>The file events of the operating system that the watcher passes on, and the callback of the manager.\<close>

datatype file_event_kind = EventModify | EventCreate | EventRemove | EventOther

definition watched_paths :: "file_event_kind \<Rightarrow> string list \<Rightarrow> string list" where
  "watched_paths kind paths =
     (if kind = EventModify \<or> kind = EventCreate \<or> kind = EventRemove
      then filter (\<lambda>f. \<not> is_ignored_file f \<and> is_code_file f) paths else [])"

definition changed_job :: "(string \<Rightarrow> bool) \<Rightarrow> string \<Rightarrow> worker_job" where
  "changed_job exists_now f = (if exists_now f then JobUpsert f else JobDelete f)"

definition watcher_callback :: "(string \<Rightarrow> bool) \<Rightarrow> string list \<Rightarrow> 'e index_worker \<Rightarrow> 'e index_worker" where
  "watcher_callback exists_now changed_paths w = enqueue_jobs (map (changed_job exists_now) changed_paths) w"

text \<open>The debounce task: the branches of its select, with the instants in milliseconds, and the paths it hands on.\<close>

datatype watch_event =
    PathReceived string nat
  | ChannelClosed
  | WatchCancelled
  | ShutdownChanged bool
  | SleepElapsed nat

record watch_state =
  ws_last_event :: "nat option"
  ws_pending_paths :: "string list"
  ws_running :: bool

definition watch_init :: watch_state where
  "watch_init = \<lparr>ws_last_event = None, ws_pending_paths = [], ws_running = True\<rparr>"

definition debounce_duration :: nat where "debounce_duration = 2000"

definition watch_step :: "watch_event \<Rightarrow> watch_state \<Rightarrow> string list \<times> watch_state" where
  "watch_step e s =
     (if \<not> ws_running s then ([], s)
      else case e of
        PathReceived f now \<Rightarrow>
          ([], s\<lparr>ws_pending_paths := List.insert f (ws_pending_paths s), ws_last_event := Some now\<rparr>)
      | ChannelClosed \<Rightarrow> ([], s\<lparr>ws_running := False\<rparr>)
      | WatchCancelled \<Rightarrow> ([], s\<lparr>ws_running := False\<rparr>)
      | ShutdownChanged b \<Rightarrow> ([], if b then s\<lparr>ws_running := False\<rparr> else s)
      | SleepElapsed now \<Rightarrow>
          (case ws_last_event s of
             None \<Rightarrow> ([], s)
           | Some l \<Rightarrow>
               if now - l \<ge> debounce_duration
               then (ws_pending_paths s, s\<lparr>ws_pending_paths := [], ws_last_event := None\<rparr>)
               else ([], s)))"

section \<open>The manifest holds one path of each batch\<close>

lemma manifest_keys_insert: "fst ` set (hm_insert k v m) = insert k (fst ` set m)"
  by (induction m) (auto split: if_splits)

lemma set_manifest: "set (get_manifest_entries p db) = {f. (p, f) \<in> fst ` set (cd_manifest db)}"
  by (force simp: get_manifest_entries_def)

lemma bind_parameters_snoc:
  "hm_get (bind_parameters p (fs @ [f])) ''project_id'' = Some p"
  "hm_get (bind_parameters p (fs @ [f])) ''file_path'' = Some f"
  by (simp_all add: bind_parameters_def)

lemma manifest_chunk:
  assumes "chunk \<noteq> []"
  shows "fst ` set (cd_manifest (fold (\<lambda>f. manifest_statement now (bind_parameters p chunk)) chunk db)) =
    insert (p, last chunk) (fst ` set (cd_manifest db))"
proof -
  have "manifest_statement now (bind_parameters p chunk) = upsert_manifest_entry now p (last chunk)"
    using bind_parameters_snoc [of p "butlast chunk" "last chunk"] assms
    by (simp add: fun_eq_iff manifest_statement_def)
  moreover have "fst ` set (cd_manifest (fold (\<lambda>f. upsert_manifest_entry now p g) xs db)) =
      (if xs = [] then fst ` set (cd_manifest db) else insert (p, g) (fst ` set (cd_manifest db)))" for g and xs :: "string list"
    by (induction xs arbitrary: db) (simp_all add: upsert_manifest_entry_def manifest_keys_insert)
  ultimately show ?thesis using assms by simp
qed

lemma list_chunks_parts: "[] \<notin> set (list_chunks n xs)" "list_chunks n [] = []"
  by (induction n xs rule: list_chunks.induct) (subst list_chunks.simps, auto split: if_splits)+

text \<open>Writing a list of paths to the manifest adds only the last path of every 500: the parameters of the
  statements of one query have the same names, so that all of them write the path that was bound last. In
  particular the manifest of a freshly indexed project of up to 500 files holds one of them.
\<close>

theorem manifest_keeps_last_of_batch:
  "set (get_manifest_entries p (upsert_manifest_entries now p fs db)) =
     set (get_manifest_entries p db) \<union> last ` set (list_chunks CHUNK fs)"
proof -
  have "fst ` set (cd_manifest (fold (\<lambda>chunk db1. fold (\<lambda>f. manifest_statement now (bind_parameters p chunk)) chunk db1) cs db)) =
      fst ` set (cd_manifest db) \<union> (\<lambda>c. (p, last c)) ` set cs" if "[] \<notin> set cs" for cs db
    using that
  proof (induction cs arbitrary: db)
    case (Cons c cs)
    from Cons.prems have "c \<noteq> []" by auto
    with Cons show ?case by (simp add: manifest_chunk [OF \<open>c \<noteq> []\<close>])
  qed simp
  then have "fst ` set (cd_manifest (upsert_manifest_entries now p fs db)) =
      fst ` set (cd_manifest db) \<union> (\<lambda>c. (p, last c)) ` set (list_chunks CHUNK fs)"
    by (simp add: upsert_manifest_entries_def list_chunks_parts)
  then show ?thesis unfolding set_manifest by auto
qed

section \<open>A validation catches up with the directory\<close>

lemma enqueue_jobs_eq:
  assumes "w_mode w \<noteq> Stopped"
  shows "enqueue_jobs js w = w\<lparr>w_jobs := w_jobs w @ js, w_pending := w_pending w + of_nat (length js)\<rparr>"
  using assms
proof (induction js arbitrary: w)
  case (Cons j js)
  have "snd (send_job j w) = w\<lparr>w_jobs := w_jobs w @ [j], w_pending := w_pending w + 1\<rparr>"
    using Cons.prems by (simp add: send_job_def push_job_def count_job_def)
  then show ?case using Cons.prems Cons.IH [of "snd (send_job j w)"]
    by (simp add: enqueue_jobs_def add_ac)
qed (simp add: enqueue_jobs_def)

definition validated_view ::
  "index_env \<Rightarrow> string \<Rightarrow> string list \<Rightarrow> code_db \<Rightarrow> string \<Rightarrow> code_chunk list \<times> string option" where
  "validated_view env p current_files db f =
     (if f \<in> set current_files then expected_view env p (get_active_generation p db) f (file_view p f db)
      else if f \<in> set (get_manifest_entries p db) then ([], None)
      else file_view p f db)"

text \<open>C27: A validation sends a job for every file of the directory and every path of the manifest that is gone; however
  the worker cuts these jobs into batches, and when nothing fails, the store then holds the chunks of every
  file of the directory and nothing of the files that were gone. Files that are gone and not in the
  manifest keep their chunks.
\<close>

theorem validation_catches_up:
  assumes "active_index_filter me p (w_db w) = Inr flt" and "me_scan_panics me = None"
    and "current_files = scan_directory_with_filter flt (me_read_file me) (me_entries me)" and "distinct current_files"
    and "\<And>xs. mset (me_set_order me xs) = mset xs"
    and "w_mode w \<noteq> Stopped" and "w_jobs w = []"
    and "prompt (we_index env)" and "reliable (we_index env)" and "orders_ok env"
    and "inj (ie_gen (we_index env))" and "chunk_ids_ok (ie_gen (we_index env)) (w_db w)"
    and "validate_index_full me p w = (r, w1)" and "concat jss = w_jobs w1"
  shows "\<exists>w'. run_flushes api env p jss w1 = Some w' \<and>
    (\<forall>f. file_view p f (w_db w') = validated_view (we_index env) p current_files (w_db w) f)"
proof -
  define dels where "dels = deleted_files me p (w_db w) current_files"
  have d: "set dels = set (get_manifest_entries p (w_db w)) - set current_files" "distinct dels"
    using mset_eq_setD [OF assms(5)] mset_eq_imp_distinct_iff [OF assms(5)]
    by (auto simp: dels_def deleted_files_def)
  have w1: "w1 = w\<lparr>w_jobs := map JobDelete dels @ map JobUpsert current_files,
                  w_pending := w_pending w + of_nat (length dels) + of_nat (length current_files)\<rparr>"
  proof -
    have "validate_index_full me p w =
        (Inr incremental_result_default, enqueue_jobs (map JobUpsert current_files) (enqueue_jobs (map JobDelete dels) w))"
      using assms(1,2,3) by (simp add: validate_index_full_def scan_project_def dels_def)
    then have "w1 = enqueue_jobs (map JobUpsert current_files) (enqueue_jobs (map JobDelete dels) w)"
      using assms(13) by simp
    then show ?thesis using assms(6,7) by (simp add: enqueue_jobs_eq)
  qed
  have jobs: "concat jss = map JobDelete dels @ map JobUpsert current_files" using assms(14) w1 by simp
  have "distinct (map job_path (concat jss))"
    using d assms(4) by (auto simp: jobs job_path_def o_def)
  moreover have "chunk_ids_ok (ie_gen (we_index env)) (w_db w1)" using assms(12) w1 by simp
  ultimately obtain w' where w': "run_flushes api env p jss w1 = Some w'"
    "\<And>f. file_view p f (w_db w') = settled_view (we_index env) p (get_active_generation p (w_db w1)) f
             (last_job (concat jss) f) (file_view p f (w_db w1))"
    using batches_settle [OF assms(8-11), where w = w1 and jss = jss and p = p and api = api] by blast
  have last: "last_job (concat jss) f =
      (if f \<in> set current_files then Some (JobUpsert f) else if f \<in> set dels then Some (JobDelete f) else None)" for f
  proof -
    have "last_job (map JobUpsert xs) f = (if f \<in> set xs then Some (JobUpsert f) else None)" for xs
      by (induction xs rule: rev_induct) (auto simp: last_job_snoc job_path_def, simp add: last_job_def)
    moreover have "last_job (map JobDelete xs) f = (if f \<in> set xs then Some (JobDelete f) else None)" for xs
      by (induction xs rule: rev_induct) (auto simp: last_job_snoc job_path_def, simp add: last_job_def)
    ultimately show ?thesis by (simp add: jobs last_job_append)
  qed
  have "file_view p f (w_db w') = validated_view (we_index env) p current_files (w_db w) f" for f
    unfolding w'(2) last using w1 d by (auto simp: settled_view_def validated_view_def)
  with w'(1) show ?thesis by blast
qed

definition example_manager :: manager_env where
  "example_manager =
     \<lparr>me_glob = (\<lambda>_. Inl ''bad''), me_read_file = (\<lambda>_. Some ''echo new''), me_entries = [(''a.sh'', True, Some ''a.sh'')],
      me_scan_panics = None, me_set_order = rev, me_now = 5\<rparr>"

definition example_listed :: "(string, string) hmap index_worker" where
  "example_listed = example_worker\<lparr>w_db := (w_db example_worker)\<lparr>cd_manifest := [((''p'', ''b.sh''), 3)]\<rparr>\<rparr>"

theorem validation_catches_up_witness:
  "case validate_index_full example_manager ''p'' example_listed of
     (r, w1) \<Rightarrow> \<exists>w'. run_flushes token_engine example_worker_env ''p'' [w_jobs w1] w1 = Some w' \<and>
       file_view ''p'' ''b.sh'' (w_db w') = ([], None)"
proof -
  obtain r w1 where v: "validate_index_full example_manager ''p'' example_listed = (r, w1)" by fastforce
  define flt where "flt = default_filter"
  define files where "files = scan_directory_with_filter flt (me_read_file example_manager) (me_entries example_manager)"
  have st: "cd_status (w_db example_worker) = []"
    by (simp add: example_worker_def worker_new_def create_code_chunks_batch_def code_db_empty_def split: prod.split)
  have "active_index_filter example_manager ''p'' (w_db example_listed) = Inr flt"
    by (simp add: active_index_filter_def example_listed_def get_index_status_def st compile_filter_def flt_def default_filter_def)
  moreover have "me_scan_panics example_manager = None" "\<And>xs. mset (me_set_order example_manager xs) = mset xs"
    by (simp_all add: example_manager_def)
  moreover have "distinct files" and b: "''b.sh'' \<notin> set files"
    by (simp_all add: files_def scan_directory_with_filter_def example_manager_def)
  moreover have "w_mode example_listed \<noteq> Stopped" "w_jobs example_listed = []"
    by (simp_all add: example_listed_def example_worker_def worker_new_def)
  moreover have "chunk_ids_ok (ie_gen (we_index example_worker_env)) (w_db example_listed)"
    using example_worker_ok(5) by (simp add: example_listed_def chunk_ids_ok_def)
  moreover have "concat [w_jobs w1] = w_jobs w1" by simp
  ultimately obtain w' where w': "run_flushes token_engine example_worker_env ''p'' [w_jobs w1] w1 = Some w'"
    "\<And>f. file_view ''p'' f (w_db w') = validated_view (we_index example_worker_env) ''p'' files (w_db example_listed) f"
    using validation_catches_up [OF _ _ files_def _ _ _ _ example_worker_ok(1-4) _ v, of "[w_jobs w1]" token_engine]
    by blast
  have "''b.sh'' \<in> set (get_manifest_entries ''p'' (w_db example_listed))"
    by (simp add: example_listed_def get_manifest_entries_def)
  with w' b v show ?thesis by (simp add: validated_view_def)
qed

section \<open>Starting and resuming\<close>

text \<open>
  A new status has embedding version 0, and no indexing run raises it: the first start after a full index
  always clears the embeddings, and does not validate the files.
\<close>

lemma start_after_full_index:
  "start_action_of (Some ((index_status_new now p)\<lparr>is_status := Completed\<rparr>)) =
     MigrateEmbeddings ((index_status_new now p)\<lparr>is_status := Completed\<rparr>)"
  by (simp add: start_action_of_def index_status_new_def EMBEDDING_VERSION_def refresh_lifecycle_states_def)

lemma migration_clears:
  assumes "migrate_task receiver_open p s w = Some w'"
  shows "list_all (\<lambda>c. ck_project_id c = Some p \<longrightarrow> ck_embedding c = None) (cd_chunks (w_db w'))"
  using assms
  by (auto simp: migrate_task_def resume_embeddings_def put_status_def store_index_status_def clear_project_embeddings_def
      list_all_iff Let_def split: prod.splits)

text \<open>With room in the queue, exactly the missing embeddings are requested.\<close>

lemma send_requests_all:
  "length (pp_queue pipe) + length rs \<le> pp_capacity pipe \<Longrightarrow>
     \<exists>pipe'. send_requests True rs n pipe = Some (Inr (n + length rs), pipe') \<and> pp_queue pipe' = pp_queue pipe @ rs \<and>
       pp_capacity pipe' = pp_capacity pipe"
proof (induction rs arbitrary: n pipe)
  case (Cons r rs)
  define pipe1 where "pipe1 = pipe\<lparr>pp_queue := pp_queue pipe @ [r], pp_metrics := inc_queue (pp_metrics pipe)\<rparr>"
  have "send_request True r pipe = Some (Inr (), pipe1)" using Cons.prems by (simp add: send_request_def pipe1_def)
  moreover have "length (pp_queue pipe1) + length rs \<le> pp_capacity pipe1" using Cons.prems by (simp add: pipe1_def)
  ultimately show ?case using Cons.IH [of pipe1 "n + 1"] by (auto simp: pipe1_def)
qed simp

lemma resume_requests_missing:
  assumes "length (pp_queue pipe) + length (get_unembedded_chunks p db) + length (get_unembedded_symbols p db) \<le> pp_capacity pipe"
  shows "\<exists>pipe'. resume_embeddings_for_project True p db pipe =
      Some (Inr (length (get_unembedded_chunks p db) + length (get_unembedded_symbols p db)), pipe') \<and>
    pp_queue pipe' = pp_queue pipe @ map chunk_request (get_unembedded_chunks p db) @
      map symbol_text_request (get_unembedded_symbols p db)"
proof -
  obtain p1 where p1: "send_requests True (map chunk_request (get_unembedded_chunks p db)) 0 pipe =
      Some (Inr (length (get_unembedded_chunks p db)), p1)"
    "pp_queue p1 = pp_queue pipe @ map chunk_request (get_unembedded_chunks p db)" "pp_capacity p1 = pp_capacity pipe"
    using send_requests_all [of pipe "map chunk_request (get_unembedded_chunks p db)" 0] assms by auto
  then show ?thesis
    using send_requests_all [of p1 "map symbol_text_request (get_unembedded_symbols p db)" "length (get_unembedded_chunks p db)"] assms
    by (auto simp: resume_embeddings_for_project_def)
qed

section \<open>The watcher delivers what it received\<close>

definition watch_run :: "watch_event list \<Rightarrow> string list \<times> watch_state" where
  "watch_run es = foldl (\<lambda>(out, s) e. case watch_step e s of (fs, s') \<Rightarrow> (out @ fs, s')) ([], watch_init) es"

definition received :: "watch_event list \<Rightarrow> string set" where
  "received es = {f. \<exists>now. PathReceived f now \<in> set es}"

definition ends_watch :: "watch_event \<Rightarrow> bool" where
  "ends_watch e \<longleftrightarrow> e = ChannelClosed \<or> e = WatchCancelled \<or> e = ShutdownChanged True"

lemma watch_run_snoc:
  "watch_run (es @ [e]) = (case watch_run es of (out, s) \<Rightarrow> case watch_step e s of (fs, s') \<Rightarrow> (out @ fs, s'))"
  by (simp add: watch_run_def split: prod.split)

text \<open>Until the watcher ends, every received path has been handed on or is still pending, and nothing else.\<close>

lemma watcher_keeps_paths:
  "\<not> list_ex ends_watch es \<Longrightarrow>
     (case watch_run es of (out, s) \<Rightarrow> ws_running s \<and> set out \<union> set (ws_pending_paths s) = received es \<and>
        (ws_pending_paths s = [] \<or> ws_last_event s \<noteq> None))"
proof (induction es rule: rev_induct)
  case Nil
  then show ?case by (simp add: watch_run_def watch_init_def received_def)
next
  case (snoc e es)
  obtain out s where r: "watch_run es = (out, s)" by fastforce
  have rec: "received (es @ [e]) = received es \<union> (case e of PathReceived f now \<Rightarrow> {f} | _ \<Rightarrow> {})"
    by (auto simp: received_def split: watch_event.split)
  have ih: "ws_running s" "set out \<union> set (ws_pending_paths s) = received es"
    "ws_pending_paths s = [] \<or> ws_last_event s \<noteq> None" and e: "\<not> ends_watch e"
    using snoc r by simp_all
  show ?case
  proof (cases e)
    case (PathReceived f now)
    with ih rec show ?thesis by (simp add: watch_run_snoc r watch_step_def)
  next
    case (SleepElapsed now)
    with ih rec show ?thesis by (cases "ws_last_event s") (simp_all add: watch_run_snoc r watch_step_def)
  qed (use ih e rec in \<open>simp_all add: watch_run_snoc r watch_step_def ends_watch_def\<close>)
qed

end
