(* ===== verification/GenerationPublish.thy ===== *)
theory GenerationPublish
  imports CodeSearchIndex
begin

text \<open>
  How a full indexing run is admitted, started and published, the first part of \<open>src/codebase/indexer.rs\<close>: the
  admission of one run per project, the status that reserves a generation, the guards that compare it
  before publishing, the promotion of the generation with the removal of old ones, and the checkpoints of a
  resumed run. Failed reads and writes of the storage are not modelled here.
\<close>

section \<open>Admission\<close>

text \<open>The set of projects with a run in progress; a guard takes its project out again when it is dropped.\<close>

definition try_acquire :: "string \<Rightarrow> string set \<Rightarrow> unit app_result \<times> string set" where
  "try_acquire p indexing_projects =
     (if p \<in> indexing_projects
      then (Inl (Indexing_error (''already_running: indexing already in progress for project_id '' @ p)), indexing_projects)
      else (Inr (), insert p indexing_projects))"

definition drop_guard :: "string \<Rightarrow> string set \<Rightarrow> string set" where
  "drop_guard p indexing_projects = indexing_projects - {p}"

definition is_non_destructive_index_error :: "app_error \<Rightarrow> bool" where
  "is_non_destructive_index_error e =
     (case e of
        Indexing_error message \<Rightarrow>
          prefix ''already_running'' message \<or> prefix ''stale_generation'' message \<or>
          prefix ''bm25_rebuild_failed'' message
      | _ \<Rightarrow> False)"

section \<open>The status of a run\<close>

text \<open>\<open>root_text\<close> is the canonical path of the project, or the path itself.\<close>

definition prepare_started_index_status ::
  "datetime \<Rightarrow> string \<Rightarrow> string \<Rightarrow> index_status option \<Rightarrow> string list \<Rightarrow> string list \<Rightarrow> index_status" where
  "prepare_started_index_status now project_id root_text previous include_patterns exclude_patterns =
     (let previous_structural = (case previous of Some s \<Rightarrow> is_structural_generation s | None \<Rightarrow> 0);
          previous_semantic = (case previous of Some s \<Rightarrow> is_semantic_generation s | None \<Rightarrow> 0);
          structural = saturating_add previous_structural 1
      in refresh_lifecycle_states
           ((index_status_new now project_id)
             \<lparr>is_root_path := Some root_text, is_structural_generation := structural,
              is_semantic_generation := min previous_semantic structural,
              is_include_patterns := include_patterns, is_exclude_patterns := exclude_patterns\<rparr>))"

definition missing_status_message :: "string \<Rightarrow> u64 \<Rightarrow> string" where
  "missing_status_message p g =
     ''stale_generation: missing active status for project_id '' @ p @ '' generation '' @ dec_of_nat (unat g)"

definition current_status_text :: "index_status \<Rightarrow> string" where
  "current_status_text current =
     ''; current status='' @ index_state_display (is_status current) @ '' structural_generation='' @
     dec_of_nat (unat (is_structural_generation current))"

definition ensure_index_generation_current :: "string \<Rightarrow> u64 \<Rightarrow> code_db \<Rightarrow> unit app_result" where
  "ensure_index_generation_current p expected db =
     (case get_index_status p db of
        None \<Rightarrow> Inl (Indexing_error (missing_status_message p expected))
      | Some current \<Rightarrow>
          if is_status current \<noteq> Indexing \<or> is_structural_generation current \<noteq> expected
          then Inl (Indexing_error (''stale_generation: refusing BM25 rebuild for project_id '' @ p @ '' generation '' @
                 dec_of_nat (unat expected) @ current_status_text current))
          else Inr ())"

definition finalize_index_status_if_current ::
  "datetime \<Rightarrow> index_status \<Rightarrow> u64 \<Rightarrow> code_db \<Rightarrow> index_status app_result \<times> code_db" where
  "finalize_index_status_if_current now status expected db =
     (case get_index_status (is_project_id status) db of
        None \<Rightarrow> (Inl (Indexing_error (missing_status_message (is_project_id status) expected)), db)
      | Some current \<Rightarrow>
          if is_status current \<noteq> Indexing \<or> is_structural_generation current \<noteq> expected
          then (Inl (Indexing_error (''stale_generation: refusing to finalize project_id '' @ is_project_id status @
                  '' generation '' @ dec_of_nat (unat expected) @ current_status_text current)), db)
          else
            (let s1 = status\<lparr>is_structural_generation := expected\<rparr>;
                 s2 = (if is_status s1 = Completed then mark_semantic_generation_caught_up s1
                       else if is_semantic_generation s1 > is_structural_generation s1
                       then s1\<lparr>is_semantic_generation := is_structural_generation s1\<rparr> else s1);
                 s3 = refresh_lifecycle_states (s2\<lparr>is_completed_at := Some now\<rparr>)
             in (Inr s3, store_index_status s3 db)))"

section \<open>Publishing\<close>

definition record_bm25_rebuild_failure_if_current ::
  "datetime \<Rightarrow> string \<Rightarrow> index_status \<Rightarrow> u64 \<Rightarrow> string \<Rightarrow> code_db \<Rightarrow> app_error \<times> code_db" where
  "record_bm25_rebuild_failure_if_current now p status active err db =
     (let message = ''bm25_rebuild_failed: failed to rebuild BM25 index for project '' @ p @ '': '' @ err;
          failed_status = status\<lparr>is_status := Failed, is_error_message := Some message\<rparr>
      in (Indexing_error message, snd (finalize_index_status_if_current now failed_status active db)))"

text \<open>
  \<open>page\<close> is the query of the pages of chunks, which may fail, and \<open>show_error\<close> the text of an error; the
  result is \<open>None\<close> when the rebuild does not return.
\<close>

definition rebuild_bm25_and_finalize_index_status ::
  "'e bm25_api \<Rightarrow> (string \<Rightarrow> u64 option \<Rightarrow> code_db \<Rightarrow> nat \<Rightarrow> code_chunk list app_result) \<Rightarrow> (app_error \<Rightarrow> string) \<Rightarrow> datetime \<Rightarrow> string \<Rightarrow>
     index_status \<Rightarrow> u64 \<Rightarrow> code_db \<Rightarrow> 'e code_engine \<Rightarrow>
     (index_status app_result \<times> code_db \<times> 'e code_engine) option" where
  "rebuild_bm25_and_finalize_index_status api page show_error now p status active db cs =
     (case ensure_index_generation_current p active db of
        Inl e \<Rightarrow> Some (Inl e, db, cs)
      | Inr u \<Rightarrow>
          (case rebuild_project_streaming api (page p (Some active) db) p cs of
             None \<Rightarrow> None
           | Some (Inr n, cs1) \<Rightarrow>
               (case finalize_index_status_if_current now status active db of (r, db1) \<Rightarrow> Some (r, db1, cs1))
           | Some (Inl e, cs1) \<Rightarrow>
               (case record_bm25_rebuild_failure_if_current now p status active (show_error e) db of
                  (e1, db1) \<Rightarrow> Some (Inl e1, db1, cs1))))"

definition protected_serving_generations :: "serving_generation_metadata \<Rightarrow> u64 option list" where
  "protected_serving_generations m =
     [sg_structural m, sg_bm25 m, sg_symbols m, sg_graph m, sg_vector m, sg_semantic m]"

definition serve_generation :: "string \<Rightarrow> u64 \<Rightarrow> code_db \<Rightarrow> code_db" where
  "serve_generation p target db =
     set_indexing_generation p None
       (set_serving_generation p CapGraph target
         (set_serving_generation p CapSymbols target
           (set_serving_generation p CapBm25 target (set_active_generation p target db))))"

definition removable_generation :: "u64 \<Rightarrow> u64 option list \<Rightarrow> u64 \<Rightarrow> bool" where
  "removable_generation target protected g \<longleftrightarrow> \<not> (g \<ge> target \<or> list_ex (\<lambda>s. s = Some g) protected)"

definition promote_index_generation_and_cleanup :: "string \<Rightarrow> u64 \<Rightarrow> code_db \<Rightarrow> unit app_result \<times> code_db" where
  "promote_index_generation_and_cleanup p target db =
     (case ensure_index_generation_current p target db of
        Inl e \<Rightarrow> (Inl e, db)
      | Inr u \<Rightarrow>
          (let db1 = serve_generation p target db;
               protected = protected_serving_generations (get_serving_metadata p db1);
               abandoned = list_abandoned_generations p db1
           in (Inr (), fold (delete_project_generation p) (filter (removable_generation target protected) abandoned) db1)))"

section \<open>Checkpoints\<close>

record index_resume_options =
  ro_resume :: bool
  ro_job_id :: "string option"
  ro_resume_token :: "string option"

record file_checkpoint_context =
  cc_job :: string
  cc_checkpoint_generation :: u64
  cc_completed_relative_paths :: "string list"

fun phase_token :: "job_phase \<Rightarrow> string" where
  "phase_token Discover = ''discover''"
| "phase_token Parse = ''parse''"
| "phase_token Chunk = ''chunk''"
| "phase_token Symbols = ''symbols''"
| "phase_token Relations = ''relations''"
| "phase_token Embed = ''embed''"
| "phase_token EmbedEnqueue = ''embed_enqueue''"
| "phase_token Bm25 = ''bm25''"
| "phase_token Finalize = ''finalize''"
| "phase_token Promote = ''promote''"
| "phase_token Cleanup = ''cleanup''"

definition checkpoint_resume_token :: "job_phase \<Rightarrow> nat \<Rightarrow> string" where
  "checkpoint_resume_token phase files_done =
     ''ckpt_v1_phase_'' @ phase_token phase @ ''_file_'' @ dec_of_nat files_done"

definition resumed_paths :: "index_resume_options \<Rightarrow> file_checkpoint list \<Rightarrow> string list app_result" where
  "resumed_paths opts checkpoints =
     (case ro_resume_token opts of
        None \<Rightarrow> Inl (Indexing_error ''resume_token_required: resume_token is required for checkpoint resume'')
      | Some token \<Rightarrow>
          if checkpoints = [] then
            Inl (Indexing_error ''checkpoint_generation_missing: no file checkpoints exist for requested resume'')
          else
            (let files_done = length (filter fc_completed checkpoints);
                 expected_parse = checkpoint_resume_token Parse files_done;
                 expected_embed = checkpoint_resume_token Embed files_done
             in if token \<noteq> expected_parse \<and> token \<noteq> expected_embed then
                  Inl (Indexing_error (''checkpoint_generation_missing: resume_token '' @ token @
                    '' does not match checkpoint state '' @ expected_parse))
                else Inr (map fc_relative_file_path (filter fc_completed checkpoints))))"

definition prepare_file_checkpoint_context ::
  "string \<Rightarrow> u64 \<Rightarrow> index_resume_options \<Rightarrow> code_db \<Rightarrow> file_checkpoint_context option app_result" where
  "prepare_file_checkpoint_context p g opts db =
     (case (if ro_resume opts
            then (case ro_job_id opts of
                    None \<Rightarrow> Inl (Indexing_error ''resume_token_required: job_id is required for checkpoint resume'')
                  | Some i \<Rightarrow> Inr i)
            else Inr (case find (\<lambda>j. j_target_generation j = g) (list_index_jobs_for_project p db) of
                        Some j \<Rightarrow> j_job_id j | None \<Rightarrow> [])) of
        Inl e \<Rightarrow> Inl e
      | Inr job \<Rightarrow>
          if job = [] then Inr None
          else
            (case (if ro_resume opts then resumed_paths opts (list_file_checkpoints_for_job p g db) else Inr []) of
               Inl e \<Rightarrow> Inl e
             | Inr paths \<Rightarrow> Inr (Some \<lparr>cc_job = job, cc_checkpoint_generation = g, cc_completed_relative_paths = paths\<rparr>)))"

definition checkpoint_relative_path :: "string \<Rightarrow> string" where
  "checkpoint_relative_path f = map (\<lambda>c. if c = CHR 0x5C then CHR ''/'' else c) f"

definition upsert_file_checkpoint_after_file ::
  "(string \<Rightarrow> string) \<Rightarrow> datetime \<Rightarrow> file_checkpoint_context option \<Rightarrow> string \<Rightarrow> string \<Rightarrow> string option \<Rightarrow> job_phase \<Rightarrow>
     u64 \<Rightarrow> u64 \<Rightarrow> code_db \<Rightarrow> code_db" where
  "upsert_file_checkpoint_after_file b3 now ctx p f content_hash phase chunks_written symbols_written db =
     (case ctx of
        None \<Rightarrow> db
      | Some c \<Rightarrow>
          (let relative = checkpoint_relative_path f in
           upsert_file_checkpoint b3
             \<lparr>fc_id = None, fc_job_id = cc_job c, fc_project_id = p, fc_generation = cc_checkpoint_generation c,
              fc_relative_file_path = relative, fc_file_path = relative,
              fc_content_hash = (case content_hash of Some h \<Rightarrow> h | None \<Rightarrow> []),
              fc_checkpoint_generation = cc_checkpoint_generation c, fc_phase = phase, fc_completed = True,
              fc_completed_at = now, fc_chunks_written = chunks_written, fc_symbols_written = symbols_written,
              fc_updated_at = now\<rparr> db))"

section \<open>Only the current generation publishes\<close>

definition run_current :: "string \<Rightarrow> u64 \<Rightarrow> code_db \<Rightarrow> bool" where
  "run_current p g db \<longleftrightarrow>
     (case get_index_status p db of
        None \<Rightarrow> False | Some s \<Rightarrow> is_status s = Indexing \<and> is_structural_generation s = g)"

lemma ensure_current_iff: "isl (ensure_index_generation_current p g db) \<longleftrightarrow> \<not> run_current p g db"
  by (auto simp: ensure_index_generation_current_def run_current_def split: option.split)

lemma ensure_current: "run_current p g db \<Longrightarrow> ensure_index_generation_current p g db = Inr ()"
  by (auto simp: ensure_index_generation_current_def run_current_def split: option.splits)

lemma ensure_stale: "\<not> run_current p g db \<Longrightarrow> \<exists>e. ensure_index_generation_current p g db = Inl e \<and> is_non_destructive_index_error e"
  by (auto simp: ensure_index_generation_current_def run_current_def is_non_destructive_index_error_def
      missing_status_message_def split: option.splits)

text \<open>C28: A run whose generation is not the one that the stored status is indexing publishes nothing: promoting,
  rebuilding and finalizing fail with an error that leaves the status as it is, and neither the store nor the
  lexical index changes.
\<close>

theorem stale_run_publishes_nothing:
  assumes "\<not> run_current p g db" and "is_project_id status = p"
  shows "\<exists>e1 e2 e3. promote_index_generation_and_cleanup p g db = (Inl e1, db) \<and>
    rebuild_bm25_and_finalize_index_status api page show_error now p status g db cs = Some (Inl e2, db, cs) \<and>
    finalize_index_status_if_current now status g db = (Inl e3, db) \<and>
    is_non_destructive_index_error e1 \<and> is_non_destructive_index_error e2 \<and> is_non_destructive_index_error e3"
proof -
  obtain e where e: "ensure_index_generation_current p g db = Inl e" "is_non_destructive_index_error e"
    using ensure_stale [OF assms(1)] by blast
  moreover have "\<exists>e3. finalize_index_status_if_current now status g db = (Inl e3, db) \<and> is_non_destructive_index_error e3"
    using assms
    by (auto simp: finalize_index_status_if_current_def run_current_def is_non_destructive_index_error_def
        missing_status_message_def split: option.splits)
  ultimately show ?thesis
    by (auto simp: promote_index_generation_and_cleanup_def rebuild_bm25_and_finalize_index_status_def)
qed

text \<open>A started run is current, with a generation after the previous one.\<close>

lemma update_status_generation:
  "is_structural_generation (snd (update_index_status s)) = is_structural_generation s"
  "is_status (snd (update_index_status s)) = is_status s" "fst (update_index_status s) = is_project_id s"
  by (simp_all add: update_index_status_def Let_def refresh_lifecycle_states_def split: index_state.split)

lemma stored_status:
  "get_index_status (is_project_id s) (store_index_status s db) = Some (snd (update_index_status s))"
  by (simp add: store_index_status_def get_index_status_def update_status_generation split: prod.split)
    (metis prod.sel update_status_generation(3) hm_get_insert)

lemma indexing_status_current:
  assumes "is_project_id s = p" "is_status s = Indexing"
  shows "run_current p (is_structural_generation s) (store_index_status s db)"
  using stored_status [of s db] assms by (simp add: run_current_def update_status_generation)

lemma prepared_status:
  fixes now p root_text prev incl excl
  defines "s \<equiv> prepare_started_index_status now p root_text prev incl excl"
  shows "is_status s = Indexing" "is_project_id s = p"
    "is_structural_generation s = saturating_add (case prev of Some x \<Rightarrow> is_structural_generation x | None \<Rightarrow> 0) 1"
  by (simp_all add: s_def prepare_started_index_status_def index_status_new_def refresh_lifecycle_states_def Let_def)

lemma started_run_current:
  "run_current p (is_structural_generation (prepare_started_index_status now p root_text prev incl excl))
     (store_index_status (prepare_started_index_status now p root_text prev incl excl) db)"
  by (rule indexing_status_current) (simp_all add: prepared_status)

section \<open>What promotion serves and removes\<close>

lemma delete_generations_chunks:
  "cd_chunks (fold (delete_project_generation p) gs db) =
     filter (\<lambda>c. \<not> (ck_project_id c = Some p \<and> (\<exists>h. ck_generation c = Some h \<and> h \<in> set gs))) (cd_chunks db)"
proof (induction gs arbitrary: db)
  case (Cons g gs)
  then show ?case
    by (auto simp: delete_project_generation_def intro!: filter_cong)
qed simp

lemma delete_generations_frame:
  "cd_active (fold (delete_project_generation p) gs db) = cd_active db \<and>
   cd_indexing (fold (delete_project_generation p) gs db) = cd_indexing db \<and>
   cd_serving (fold (delete_project_generation p) gs db) = cd_serving db \<and>
   cd_status (fold (delete_project_generation p) gs db) = cd_status db"
  by (induction gs arbitrary: db) (simp_all add: delete_project_generation_def)

lemma serve_frame:
  "cd_chunks (serve_generation p g db) = cd_chunks db" "get_active_generation p (serve_generation p g db) = Some g"
  "get_indexing_generation p (serve_generation p g db) = None" "cd_status (serve_generation p g db) = cd_status db"
  "sg_vector (get_serving_metadata p (serve_generation p g db)) = sg_vector (get_serving_metadata p db)"
  "sg_semantic (get_serving_metadata p (serve_generation p g db)) = sg_semantic (get_serving_metadata p db)"
  "sg_structural (get_serving_metadata p (serve_generation p g db)) = Some g"
  "sg_bm25 (get_serving_metadata p (serve_generation p g db)) = Some g"
  "sg_symbols (get_serving_metadata p (serve_generation p g db)) = Some g"
  "sg_graph (get_serving_metadata p (serve_generation p g db)) = Some g"
  by (simp_all add: serve_generation_def set_indexing_generation_def set_serving_generation_def set_active_generation_def
      get_active_generation_def get_indexing_generation_def get_serving_metadata_def is_structural_def)

text \<open>A row that promotion removes: of an earlier generation that the vectors do not serve.\<close>

definition outdated_generation :: "string \<Rightarrow> u64 \<Rightarrow> code_db \<Rightarrow> u64 option \<Rightarrow> bool" where
  "outdated_generation p g db x \<longleftrightarrow>
     (case x of None \<Rightarrow> False
      | Some h \<Rightarrow> h < g \<and> sg_vector (get_serving_metadata p db) \<noteq> Some h \<and> sg_semantic (get_serving_metadata p db) \<noteq> Some h)"

lemma abandoned_chunk:
  assumes "c \<in> set (cd_chunks db)" "ck_project_id c = Some p" "ck_generation c = Some h" "get_active_generation p db = Some g"
    "h \<noteq> g"
  shows "h \<in> set (list_abandoned_generations p db)"
  using assms by (auto simp: list_abandoned_generations_def List.map_filter_def image_iff intro!: bexI [of _ c])

lemma removable_after_serving:
  "removable_generation g (protected_serving_generations (get_serving_metadata p (serve_generation p g db))) h \<longleftrightarrow>
     outdated_generation p g db (Some h)"
  by (auto simp: removable_generation_def protected_serving_generations_def serve_frame outdated_generation_def)

text \<open>The chunks that stay when the generation \<open>g\<close> is promoted.\<close>

definition kept_by_promotion :: "string \<Rightarrow> u64 \<Rightarrow> code_db \<Rightarrow> code_chunk \<Rightarrow> bool" where
  "kept_by_promotion p g db c \<longleftrightarrow> \<not> (ck_project_id c = Some p \<and> outdated_generation p g db (ck_generation c))"

lemma promotion_chunks:
  "cd_chunks (fold (delete_project_generation p)
       (filter (removable_generation g (protected_serving_generations (get_serving_metadata p (serve_generation p g db))))
          (list_abandoned_generations p (serve_generation p g db))) (serve_generation p g db)) =
     filter (kept_by_promotion p g db) (cd_chunks db)"
proof -
  let ?gs = "filter (removable_generation g (protected_serving_generations (get_serving_metadata p (serve_generation p g db))))
      (list_abandoned_generations p (serve_generation p g db))"
  have "(\<exists>h. ck_generation c = Some h \<and> h \<in> set ?gs) \<longleftrightarrow> outdated_generation p g db (ck_generation c)"
    if "c \<in> set (cd_chunks db)" "ck_project_id c = Some p" for c
  proof (cases "ck_generation c")
    case None
    then show ?thesis by (simp add: outdated_generation_def)
  next
    case (Some h)
    have "h \<in> set (list_abandoned_generations p (serve_generation p g db))" if "outdated_generation p g db (Some h)"
      using abandoned_chunk [of c "serve_generation p g db" p h g] \<open>c \<in> _\<close> \<open>ck_project_id c = _\<close> Some that
      by (auto simp: serve_frame outdated_generation_def)
    with Some show ?thesis by (auto simp: removable_after_serving)
  qed
  then show ?thesis
    unfolding delete_generations_chunks serve_frame by (intro filter_cong refl) (auto simp: kept_by_promotion_def)
qed

lemma visible_not_outdated: "generation_visible (Some g) x \<Longrightarrow> \<not> outdated_generation p g db x"
  by (auto simp: generation_visible_def outdated_generation_def split: option.splits)

lemma promotion_result:
  assumes "run_current p g db"
  obtains db' where "promote_index_generation_and_cleanup p g db = (Inr (), db')"
    "get_active_generation p db' = Some g" "get_indexing_generation p db' = None" "cd_status db' = cd_status db"
    "cd_chunks db' = filter (kept_by_promotion p g db) (cd_chunks db)"
proof -
  define gs where "gs = filter (removable_generation g (protected_serving_generations
      (get_serving_metadata p (serve_generation p g db)))) (list_abandoned_generations p (serve_generation p g db))"
  define db' where "db' = fold (delete_project_generation p) gs (serve_generation p g db)"
  have "promote_index_generation_and_cleanup p g db = (Inr (), db')"
    by (simp add: promote_index_generation_and_cleanup_def ensure_current [OF assms] Let_def gs_def db'_def)
  moreover have "cd_chunks db' = filter (kept_by_promotion p g db) (cd_chunks db)"
    unfolding db'_def gs_def by (rule promotion_chunks)
  moreover have "get_active_generation p db' = Some g" "get_indexing_generation p db' = None" "cd_status db' = cd_status db"
    using delete_generations_frame [of p gs "serve_generation p g db"] serve_frame(2-4) [of p g db]
    by (simp_all add: db'_def get_active_generation_def get_indexing_generation_def)
  ultimately show ?thesis using that by blast
qed

text \<open>C29: Promoting the current generation makes it the active one and ends the indexing; of the chunks it removes
  exactly those of earlier generations that no vectors serve, so that the rows a reader of the new generation
  sees are all kept and those of other projects too.
\<close>

theorem promotion_keeps_readers:
  assumes "run_current p g db"
  shows "fst (promote_index_generation_and_cleanup p g db) = Inr () \<and>
    (let db' = snd (promote_index_generation_and_cleanup p g db) in
       get_active_generation p db' = Some g \<and> get_indexing_generation p db' = None \<and> cd_status db' = cd_status db \<and>
       cd_chunks db' = filter (kept_by_promotion p g db) (cd_chunks db) \<and>
       chunk_view p (Some g) db' = chunk_view p (Some g) db \<and>
       (\<forall>q x. q = p \<or> chunk_view q x db' = chunk_view q x db))"
proof -
  obtain db' where r: "promote_index_generation_and_cleanup p g db = (Inr (), db')"
    "get_active_generation p db' = Some g" "get_indexing_generation p db' = None" "cd_status db' = cd_status db"
    and c: "cd_chunks db' = filter (kept_by_promotion p g db) (cd_chunks db)"
    using promotion_result [OF assms] .
  have "chunk_view p (Some g) db' = chunk_view p (Some g) db"
    using visible_not_outdated [of g] by (auto simp: chunk_view_def c kept_by_promotion_def intro!: filter_cong)
  moreover have "q = p \<or> chunk_view q x db' = chunk_view q x db" for q x
    by (auto simp: chunk_view_def c kept_by_promotion_def intro!: filter_cong)
  ultimately show ?thesis unfolding r(1) using r(2-4) c by (simp del: all_simps)
qed

text \<open>The progress of a run is written without comparing generations: when a newer run has started, or even
  published, the next progress write of the older one makes the older generation current again, so that it can
  be promoted, and the active generation goes back.
\<close>

theorem old_progress_write_republishes:
  assumes "is_status old = Indexing"
  shows "run_current (is_project_id old) (is_structural_generation old) (store_index_status old db) \<and>
    fst (promote_index_generation_and_cleanup (is_project_id old) (is_structural_generation old) (store_index_status old db)) = Inr () \<and>
    get_active_generation (is_project_id old)
      (snd (promote_index_generation_and_cleanup (is_project_id old) (is_structural_generation old) (store_index_status old db))) =
      Some (is_structural_generation old)"
proof -
  have c: "run_current (is_project_id old) (is_structural_generation old) (store_index_status old db)"
    using assms by (simp add: indexing_status_current)
  from promotion_result [OF c] obtain db' where
    "promote_index_generation_and_cleanup (is_project_id old) (is_structural_generation old) (store_index_status old db) =
       (Inr (), db')"
    "get_active_generation (is_project_id old) db' = Some (is_structural_generation old)" by blast
  with c show ?thesis by simp
qed

section \<open>An example\<close>

text \<open>Two generations of one project, the second being indexed; vectors serve none of them.\<close>

definition status_of_generation :: "u64 \<Rightarrow> index_status" where
  "status_of_generation g = (index_status_new 0 ''p'')\<lparr>is_structural_generation := g\<rparr>"

definition example_publish_db :: code_db where
  "example_publish_db = store_index_status (status_of_generation 2) example_code_db"

lemma status_of_generation_simps:
  "is_project_id (status_of_generation g) = ''p''" "is_status (status_of_generation g) = Indexing"
  "is_structural_generation (status_of_generation g) = g"
  by (simp_all add: status_of_generation_def index_status_new_def)

lemma example_publish_current: "run_current ''p'' h example_publish_db \<longleftrightarrow> h = 2"
  using stored_status [of "status_of_generation 2" example_code_db]
  by (auto simp: example_publish_db_def run_current_def update_status_generation status_of_generation_simps)

theorem stale_run_publishes_nothing_witness:
  "fst (promote_index_generation_and_cleanup ''p'' 1 example_publish_db) \<noteq> Inr () \<and>
   snd (promote_index_generation_and_cleanup ''p'' 1 example_publish_db) = example_publish_db \<and>
   snd (finalize_index_status_if_current 5 (status_of_generation 1) 1 example_publish_db) = example_publish_db"
  using stale_run_publishes_nothing [of "''p''" 1 example_publish_db "status_of_generation 1" token_engine
      "\<lambda>q g d n. Inr []" "\<lambda>e. []" 5 "[]"]
  by (auto simp: example_publish_current status_of_generation_simps)

theorem promotion_keeps_readers_witness:
  "get_active_generation ''p'' (snd (promote_index_generation_and_cleanup ''p'' 2 example_publish_db)) = Some 2 \<and>
   cd_chunks (snd (promote_index_generation_and_cleanup ''p'' 2 example_publish_db)) =
     [example_chunk ''k2'' ''fn new'' (Some 2)]"
proof -
  have "filter (kept_by_promotion ''p'' 2 example_publish_db) (cd_chunks example_publish_db) =
      [example_chunk ''k2'' ''fn new'' (Some 2)]"
    by code_simp
  then show ?thesis using promotion_keeps_readers [of "''p''" 2 example_publish_db]
    by (simp add: example_publish_current Let_def)
qed

text \<open>The second generation has been promoted when the first writes its progress.\<close>

theorem old_progress_write_republishes_witness:
  "get_active_generation ''p'' (snd (promote_index_generation_and_cleanup ''p'' 2 example_publish_db)) = Some 2 \<and>
   get_active_generation ''p'' (snd (promote_index_generation_and_cleanup ''p'' 1 (store_index_status (status_of_generation 1)
     (snd (promote_index_generation_and_cleanup ''p'' 2 example_publish_db))))) = Some 1"
proof -
  obtain db' where "promote_index_generation_and_cleanup ''p'' 2 example_publish_db = (Inr (), db')"
    "get_active_generation ''p'' db' = Some 2"
    using promotion_result [of "''p''" 2 example_publish_db] example_publish_current [of 2] by blast
  with old_progress_write_republishes [of "status_of_generation 1" db']
  show ?thesis by (simp add: status_of_generation_simps)
qed

end
