(* ===== verification/StagedIndex.thy ===== *)
theory StagedIndex
  imports IncrementalIndex GenerationPublish SourceScan
begin

text \<open>
  The staged pipeline of a full indexing run, \<open>run_staged_index_pipeline\<close> of \<open>src/codebase/indexer.rs\<close>: tasks read
  and parse files in any order, their results wait until all earlier files are committed, and rows are written
  in batches. The environment adds to \<open>index_env\<close> the texts of failed reads, the timeouts, the panics, the
  failures of the batch writes, the jobs that a cancellation check reads, the files at which the time
  for a progress write has come and the order in which tasks finish. The semaphores are never closed, so that taking
  a permit does not fail, and the settings keep at least one file in flight. Metrics of time are left out.
\<close>

record staged_env =
  sv_index :: index_env
  sv_commit_batch_size :: nat
  sv_max_inflight_files :: nat
  sv_relation_batch_size :: nat
  sv_read :: "string \<Rightarrow> string + string"
  sv_timeout :: "string \<Rightarrow> bool"
  sv_task_panics :: "string \<Rightarrow> string option"
  sv_chunk_write :: "nat \<Rightarrow> string option"
  sv_symbol_write :: "nat \<Rightarrow> app_error option"
  sv_hash_write :: "nat \<Rightarrow> bool"
  sv_jobs :: "nat \<Rightarrow> index_job list option"
  sv_flush_due :: "nat \<Rightarrow> bool"
  sv_join :: "nat \<Rightarrow> nat"

record parsed_file =
  pf_seq :: nat
  pf_path :: string
  pf_hash :: "string option"
  pf_chunks :: "code_chunk list"
  pf_symbols :: "code_symbol list"
  pf_references :: "code_reference list"
  pf_error :: "string option"
  pf_skipped :: bool

section \<open>Reading and parsing a file\<close>

definition failed_file :: "nat \<Rightarrow> string \<Rightarrow> string \<Rightarrow> parsed_file" where
  "failed_file seq f e =
     \<lparr>pf_seq = seq, pf_path = f, pf_hash = None, pf_chunks = [], pf_symbols = [], pf_references = [], pf_error = Some e,
      pf_skipped = False\<rparr>"

definition skipped_file :: "nat \<Rightarrow> string \<Rightarrow> parsed_file" where
  "skipped_file seq f =
     \<lparr>pf_seq = seq, pf_path = f, pf_hash = None, pf_chunks = [], pf_symbols = [], pf_references = [], pf_error = None,
      pf_skipped = True\<rparr>"

definition PARSE_TIMEOUT_SECS :: nat where
  "PARSE_TIMEOUT_SECS = 30"

definition parse_file_for_staged :: "staged_env \<Rightarrow> string \<Rightarrow> u64 \<Rightarrow> nat \<Rightarrow> string \<Rightarrow> string \<Rightarrow> string \<Rightarrow> parsed_file" where
  "parse_file_for_staged env p active seq f content file_hash =
     (let t = \<lparr>pt_path = f, pt_content = content, pt_hash = file_hash\<rparr> in
      if sv_timeout env f then failed_file seq f (''parse_timeout_'' @ dec_of_nat PARSE_TIMEOUT_SECS @ ''s'')
      else
        (case ie_panics (sv_index env) f of
           Some e \<Rightarrow> failed_file seq f (''parse/chunk panicked: '' @ e)
         | None \<Rightarrow>
             \<lparr>pf_seq = seq, pf_path = f, pf_hash = Some file_hash,
              pf_chunks = task_chunks (sv_index env) p (Some active) t,
              pf_symbols = task_symbols (sv_index env) p (Some active) t,
              pf_references = task_references (sv_index env) p t, pf_error = None, pf_skipped = False\<rparr>))"

definition read_file_for_staged :: "staged_env \<Rightarrow> string \<Rightarrow> u64 \<Rightarrow> nat \<Rightarrow> string \<Rightarrow> parsed_file" where
  "read_file_for_staged env p active seq f =
     (case sv_read env f of
        Inl e \<Rightarrow> failed_file seq f e
      | Inr content \<Rightarrow>
          if is_generated_source_content content then skipped_file seq f
          else if length content > 1000000 then skipped_file seq f
          else parse_file_for_staged env p active seq f content (ie_blake3 (sv_index env) content))"

section \<open>Committing a parsed file\<close>

text \<open>The state that commits change: the storage, the status, the symbol index, the buffers and the counters.\<close>

record staged_core =
  so_db :: code_db
  so_status :: index_status
  so_index :: symbol_index
  so_chunks :: "code_chunk list"
  so_symbols :: "code_symbol list"
  so_hashes :: "(string \<times> string) list"
  so_relations :: "code_reference list"
  so_chunk_flushes :: nat
  so_symbol_flushes :: nat
  so_hash_flushes :: nat
  so_chunks_written :: nat
  so_symbols_written :: nat
  so_embeddings_enqueued :: nat
  so_files_read :: nat

definition flush_staged_chunks :: "staged_env \<Rightarrow> string \<Rightarrow> code_chunk list \<Rightarrow> staged_core \<Rightarrow> unit app_result \<times> staged_core" where
  "flush_staged_chunks env p batch st =
     (if batch = [] then (Inr (), st)
      else
        (let st1 = st\<lparr>so_chunk_flushes := Suc (so_chunk_flushes st)\<rparr> in
         case sv_chunk_write env (so_chunk_flushes st) of
           Some e \<Rightarrow> (Inl (Internal (''failed to persist staged code chunks for project '' @ p @ '': '' @ e)), st1)
         | None \<Rightarrow>
             (case create_code_chunks_batch (ie_gen (sv_index env)) batch (so_db st) of
                (results, db1) \<Rightarrow>
                  (Inr (), st1\<lparr>so_db := db1, so_chunks_written := so_chunks_written st + length batch,
                               so_embeddings_enqueued := so_embeddings_enqueued st + length results\<rparr>))))"

definition flush_staged_symbols :: "staged_env \<Rightarrow> code_symbol list \<Rightarrow> staged_core \<Rightarrow> unit app_result \<times> staged_core" where
  "flush_staged_symbols env batch st =
     (if batch = [] then (Inr (), st)
      else
        (let st1 = st\<lparr>so_symbol_flushes := Suc (so_symbol_flushes st)\<rparr> in
         case sv_symbol_write env (so_symbol_flushes st) of
           Some e \<Rightarrow> (Inl e, st1)
         | None \<Rightarrow>
             (case create_code_symbols_batch (ie_hasher (sv_index env)) (ie_now (sv_index env)) batch (so_db st) of
                (ids, db1) \<Rightarrow>
                  (Inr (), st1\<lparr>so_db := db1, so_symbols_written := so_symbols_written st + length batch,
                               so_embeddings_enqueued := so_embeddings_enqueued st + length ids\<rparr>))))"

definition write_hashes :: "staged_env \<Rightarrow> string \<Rightarrow> (string \<times> string) list \<Rightarrow> staged_core \<Rightarrow> staged_core" where
  "write_hashes env p batch st =
     st\<lparr>so_db := (if sv_hash_write env (so_hash_flushes st) then set_file_hashes_batch p batch (so_db st) else so_db st),
        so_hash_flushes := Suc (so_hash_flushes st)\<rparr>"

definition push_hash :: "staged_env \<Rightarrow> string \<Rightarrow> string \<times> string \<Rightarrow> staged_core \<Rightarrow> staged_core" where
  "push_hash env p entry st =
     (let hashes = so_hashes st @ [entry] in
      if length hashes \<ge> sv_commit_batch_size env then write_hashes env p hashes (st\<lparr>so_hashes := []\<rparr>)
      else st\<lparr>so_hashes := hashes\<rparr>)"

definition push_chunk :: "staged_env \<Rightarrow> string \<Rightarrow> code_chunk \<Rightarrow> staged_core \<Rightarrow> unit app_result \<times> staged_core" where
  "push_chunk env p c st =
     (let buffer = so_chunks st @ [c];
          st1 = st\<lparr>so_status := (so_status st)\<lparr>is_total_chunks := is_total_chunks (so_status st) + 1\<rparr>\<rparr>
      in if length buffer \<ge> sv_commit_batch_size env then flush_staged_chunks env p buffer (st1\<lparr>so_chunks := []\<rparr>)
         else (Inr (), st1\<lparr>so_chunks := buffer\<rparr>))"

definition push_symbol :: "staged_env \<Rightarrow> code_symbol \<Rightarrow> staged_core \<Rightarrow> unit app_result \<times> staged_core" where
  "push_symbol env s st =
     (let buffer = so_symbols st @ [s];
          st1 = st\<lparr>so_status := (so_status st)\<lparr>is_total_symbols := is_total_symbols (so_status st) + 1\<rparr>\<rparr>
      in if length buffer \<ge> sv_commit_batch_size env then flush_staged_symbols env buffer (st1\<lparr>so_symbols := []\<rparr>)
         else (Inr (), st1\<lparr>so_symbols := buffer\<rparr>))"

text \<open>A loop whose body may return early with an error.\<close>

fun try_each :: "('a \<Rightarrow> 's \<Rightarrow> unit app_result \<times> 's) \<Rightarrow> 'a list \<Rightarrow> 's \<Rightarrow> unit app_result \<times> 's" where
  "try_each step [] st = (Inr (), st)"
| "try_each step (x # xs) st =
     (case step x st of
        (Inl e, st1) \<Rightarrow> (Inl e, st1)
      | (Inr u, st1) \<Rightarrow> try_each step xs st1)"

definition then_do :: "unit app_result \<times> 's \<Rightarrow> ('s \<Rightarrow> unit app_result \<times> 's) \<Rightarrow> unit app_result \<times> 's" where
  "then_do r k = (case r of (Inl e, st) \<Rightarrow> (Inl e, st) | (Inr u, st) \<Rightarrow> k st)"

definition file_counted :: "staged_core \<Rightarrow> staged_core" where
  "file_counted st = st\<lparr>so_status := (so_status st)\<lparr>is_indexed_files := is_indexed_files (so_status st) + 1\<rparr>\<rparr>"

definition checkpoint_file ::
  "staged_env \<Rightarrow> string \<Rightarrow> file_checkpoint_context option \<Rightarrow> string \<Rightarrow> string option \<Rightarrow> nat \<Rightarrow> nat \<Rightarrow> staged_core \<Rightarrow> staged_core" where
  "checkpoint_file env p ctx f file_hash n_chunks n_symbols st =
     st\<lparr>so_db := upsert_file_checkpoint_after_file (ie_blake3 (sv_index env)) (ie_now (sv_index env)) ctx p f file_hash Parse
          (of_nat n_chunks) (of_nat n_symbols) (so_db st)\<rparr>"

definition commit_rows ::
  "staged_env \<Rightarrow> string \<Rightarrow> parsed_file \<Rightarrow> staged_core \<Rightarrow> unit app_result \<times> staged_core" where
  "commit_rows env p pf st =
     (let st1 = st\<lparr>so_files_read := so_files_read st + 1\<rparr>;
          st2 = (case pf_hash pf of None \<Rightarrow> st1 | Some h \<Rightarrow> push_hash env p (pf_path pf, h) st1)
      in then_do (try_each (push_chunk env p) (pf_chunks pf) st2)
           (\<lambda>st3. then_do (try_each (push_symbol env) (pf_symbols pf)
                     (st3\<lparr>so_index := index_add_batch (so_index st3) (pf_symbols pf)\<rparr>))
              (\<lambda>st4. (Inr (), st4\<lparr>so_relations := so_relations st4 @ pf_references pf @
                 detect_containment_references (ie_files_order (sv_index env)) (pf_symbols pf)\<rparr>))))"

definition progress_write :: "staged_env \<Rightarrow> nat \<Rightarrow> staged_core \<Rightarrow> staged_core" where
  "progress_write env seq st =
     (if sv_flush_due env seq then st\<lparr>so_db := store_index_status (so_status st) (so_db st)\<rparr> else st)"

text \<open>The body of the loop of \<open>drain_ready_staged_results\<close>.\<close>

definition commit_parsed ::
  "staged_env \<Rightarrow> string \<Rightarrow> file_checkpoint_context option \<Rightarrow> parsed_file \<Rightarrow> staged_core \<Rightarrow> unit app_result \<times> staged_core" where
  "commit_parsed env p ctx pf st =
     (if pf_error pf \<noteq> None then
        (Inr (), checkpoint_file env p ctx (pf_path pf) None 0 0
          (file_counted (st\<lparr>so_status := (so_status st)\<lparr>is_failed_files := is_failed_files (so_status st) @ [pf_path pf]\<rparr>\<rparr>)))
      else if pf_skipped pf then
        (Inr (), checkpoint_file env p ctx (pf_path pf) (pf_hash pf) 0 0 (file_counted st))
      else
        then_do (commit_rows env p pf st)
          (\<lambda>st1. (Inr (), progress_write env (pf_seq pf)
             (checkpoint_file env p ctx (pf_path pf) (pf_hash pf) (length (pf_chunks pf)) (length (pf_symbols pf))
               (file_counted st1)))))"

section \<open>The pipeline\<close>

record staged_state =
  sp_core :: staged_core
  sp_pending :: "(nat, parsed_file) hmap"
  sp_next :: nat
  sp_tasks :: "(nat \<times> string) list"
  sp_joins :: nat
  sp_current :: string

lemma hm_get_remove_shorter: "hm_get m k = Some v \<Longrightarrow> length (hm_remove k m) < length m"
  by (rule hm_len_remove_less) (metis hm_get_None option.distinct(1))

function drain_ready_staged_results ::
  "staged_env \<Rightarrow> string \<Rightarrow> file_checkpoint_context option \<Rightarrow> staged_state \<Rightarrow> unit app_result \<times> staged_state" where
  "drain_ready_staged_results env p ctx st =
     (case hm_get (sp_pending st) (sp_next st) of
        None \<Rightarrow> (Inr (), st)
      | Some pf \<Rightarrow>
          (let pending = hm_remove (sp_next st) (sp_pending st) in
           case commit_parsed env p ctx pf (sp_core st) of
             (Inl e, core) \<Rightarrow> (Inl e, st\<lparr>sp_core := core, sp_pending := pending\<rparr>)
           | (Inr u, core) \<Rightarrow>
               drain_ready_staged_results env p ctx
                 (st\<lparr>sp_core := core, sp_pending := pending, sp_next := Suc (sp_next st)\<rparr>)))"
  by pat_completeness auto

termination drain_ready_staged_results
  by (relation "measure (\<lambda>(env, p, ctx, st). length (sp_pending st))")
    (auto intro: hm_get_remove_shorter)

definition insert_and_drain ::
  "staged_env \<Rightarrow> string \<Rightarrow> file_checkpoint_context option \<Rightarrow> parsed_file \<Rightarrow> staged_state \<Rightarrow> unit app_result \<times> staged_state" where
  "insert_and_drain env p ctx pf st =
     drain_ready_staged_results env p ctx (st\<lparr>sp_pending := hm_insert (pf_seq pf) pf (sp_pending st)\<rparr>)"

definition join_next ::
  "staged_env \<Rightarrow> string \<Rightarrow> u64 \<Rightarrow> file_checkpoint_context option \<Rightarrow> staged_state \<Rightarrow> unit app_result \<times> staged_state" where
  "join_next env p active ctx st =
     (let i = sv_join env (sp_joins st) mod length (sp_tasks st);
          (seq, f) = sp_tasks st ! i;
          st1 = st\<lparr>sp_tasks := remove_nth i (sp_tasks st), sp_joins := Suc (sp_joins st)\<rparr>
      in case sv_task_panics env f of
           Some e \<Rightarrow> (Inl (Internal (''staged parse task panicked: '' @ e)), st1)
         | None \<Rightarrow> insert_and_drain env p ctx (read_file_for_staged env p active seq f) st1)"

declare drain_ready_staged_results.simps [simp del]

lemma drain_frame:
  "drain_ready_staged_results env p ctx st = (r, st') \<Longrightarrow>
     sp_tasks st' = sp_tasks st \<and> sp_joins st' = sp_joins st \<and> sp_current st' = sp_current st"
proof (induction env p ctx st rule: drain_ready_staged_results.induct)
  case (1 env p ctx st)
  show ?case
  proof (cases "hm_get (sp_pending st) (sp_next st)")
    case None
    with 1(2) show ?thesis by (simp add: drain_ready_staged_results.simps [of env p ctx st])
  next
    case (Some pf)
    obtain r0 core where c: "commit_parsed env p ctx pf (sp_core st) = (r0, core)" by fastforce
    show ?thesis
    proof (cases r0)
      case (Inl e)
      with 1(2) Some c show ?thesis by (auto simp: drain_ready_staged_results.simps [of env p ctx st] Let_def)
    next
      case (Inr u)
      with 1(2) Some c 1(1) [OF Some refl c [symmetric] Inr] show ?thesis
        by (simp add: drain_ready_staged_results.simps [of env p ctx st] Let_def)
    qed
  qed
qed

lemma join_next_shorter:
  assumes "join_next env p active ctx st = (r, st')" and "sp_tasks st \<noteq> []"
  shows "length (sp_tasks st') < length (sp_tasks st)"
proof -
  let ?i = "sv_join env (sp_joins st) mod length (sp_tasks st)"
  have "?i < length (sp_tasks st)" using assms(2) by simp
  then have "length (remove_nth ?i (sp_tasks st)) < length (sp_tasks st)" by (rule remove_nth_shorter)
  with assms(1) show ?thesis
    by (auto simp: join_next_def Let_def insert_and_drain_def split: prod.splits option.splits dest: drain_frame)
qed

text \<open>Joining tasks until fewer than \<open>bound\<close> are left: while the set is full, and at the end with bound one.\<close>

function join_until ::
  "staged_env \<Rightarrow> string \<Rightarrow> u64 \<Rightarrow> file_checkpoint_context option \<Rightarrow> nat \<Rightarrow> staged_state \<Rightarrow> unit app_result \<times> staged_state" where
  "join_until env p active ctx bound st =
     (if sp_tasks st = [] \<or> length (sp_tasks st) < bound then (Inr (), st)
      else
        (case join_next env p active ctx st of
           (Inl e, st1) \<Rightarrow> (Inl e, st1)
         | (Inr u, st1) \<Rightarrow>
             join_until env p active ctx bound st1))"
  by pat_completeness auto

termination join_until
  by (relation "measure (\<lambda>(env, p, active, ctx, bound, st). length (sp_tasks st))")
    (auto dest: join_next_shorter [OF sym])

declare join_until.simps [simp del]

definition cancel_requested :: "staged_env \<Rightarrow> nat \<Rightarrow> bool" where
  "cancel_requested env seq \<longleftrightarrow>
     seq mod 10 = 0 \<and>
     (case sv_jobs env seq of None \<Rightarrow> False | Some jobs \<Rightarrow> list_ex (\<lambda>j. j_state j = JCancelRequested) jobs)"

definition checkpoint_done :: "file_checkpoint_context option \<Rightarrow> string \<Rightarrow> bool" where
  "checkpoint_done ctx f \<longleftrightarrow>
     (case ctx of None \<Rightarrow> False | Some c \<Rightarrow> checkpoint_relative_path f \<in> set (cc_completed_relative_paths c))"

definition process_staged_file ::
  "staged_env \<Rightarrow> string \<Rightarrow> u64 \<Rightarrow> file_checkpoint_context option \<Rightarrow> nat \<times> string \<Rightarrow> staged_state \<Rightarrow>
     unit app_result \<times> staged_state" where
  "process_staged_file env p active ctx = (\<lambda>(seq, f) st.
     (if checkpoint_done ctx f then insert_and_drain env p ctx (skipped_file seq f) st
      else if cancel_requested env seq then (Inl (Indexing_error ''indexing cancelled by request''), st)
      else
        (let st1 = st\<lparr>sp_current := f\<rparr> in
         if is_ignored_file f then insert_and_drain env p ctx (skipped_file seq f) st1
         else join_until env p active ctx (sv_max_inflight_files env) (st1\<lparr>sp_tasks := sp_tasks st1 @ [(seq, f)]\<rparr>))))"

definition staged_files ::
  "staged_env \<Rightarrow> string \<Rightarrow> u64 \<Rightarrow> file_checkpoint_context option \<Rightarrow> string list \<Rightarrow> staged_state \<Rightarrow>
     unit app_result \<times> staged_state" where
  "staged_files env p active ctx files st =
     then_do (try_each (process_staged_file env p active ctx) (List.enumerate 0 files) st) (join_until env p active ctx 1)"

definition staged_core_new :: "index_status \<Rightarrow> code_db \<Rightarrow> staged_core" where
  "staged_core_new status db =
     \<lparr>so_db = db, so_status = status, so_index = symbol_index_new, so_chunks = [], so_symbols = [], so_hashes = [],
      so_relations = [], so_chunk_flushes = 0, so_symbol_flushes = 0, so_hash_flushes = 0, so_chunks_written = 0,
      so_symbols_written = 0, so_embeddings_enqueued = 0, so_files_read = 0\<rparr>"

definition staged_state_new :: "staged_core \<Rightarrow> staged_state" where
  "staged_state_new core =
     \<lparr>sp_core = core, sp_pending = [], sp_next = 0, sp_tasks = [], sp_joins = 0, sp_current = []\<rparr>"

function relation_batches :: "nat \<Rightarrow> 'a list \<Rightarrow> 'a list list" where
  "relation_batches n refs = (if refs = [] then [] else take (max n 1) refs # relation_batches n (drop (max n 1) refs))"
  by pat_completeness auto

termination relation_batches
  by (relation "measure (\<lambda>(n, refs). length refs)") (auto simp: max_def)

declare relation_batches.simps [simp del]

definition add_stats :: "relation_stats \<Rightarrow> relation_stats \<Rightarrow> relation_stats" where
  "add_stats a b =
     \<lparr>rs_created = rs_created a + rs_created b, rs_failed = rs_failed a + rs_failed b,
      rs_unresolved = rs_unresolved a + rs_unresolved b\<rparr>"

definition flush_relation_batches ::
  "index_env \<Rightarrow> string \<Rightarrow> u64 \<Rightarrow> symbol_index \<Rightarrow> code_reference list \<Rightarrow> nat \<Rightarrow> relation_stats \<times> code_db \<Rightarrow>
     relation_stats \<times> code_db" where
  "flush_relation_batches env p active ix refs n =
     fold (\<lambda>batch (total, db).
        (case create_symbol_relations_for_generation (ie_hasher env) (ie_now env) (ie_lookup_fails env)
                (ie_relation_write_fails env) p batch ix active db of
           (stats, db1) \<Rightarrow> (add_stats total stats, db1))) (relation_batches n refs)"

definition flush_staged_relations :: "staged_env \<Rightarrow> string \<Rightarrow> u64 \<Rightarrow> staged_core \<Rightarrow> relation_stats \<times> staged_core" where
  "flush_staged_relations env p active st =
     (case flush_relation_batches (sv_index env) p active (so_index st) (so_relations st) (sv_relation_batch_size env)
             (relation_stats_zero, so_db st) of
        (stats, db) \<Rightarrow> (stats, st\<lparr>so_db := db\<rparr>))"

text \<open>What is left in the buffers when all files are committed.\<close>

definition final_flushes :: "staged_env \<Rightarrow> string \<Rightarrow> u64 \<Rightarrow> staged_core \<Rightarrow> unit app_result \<times> staged_core" where
  "final_flushes env p active st =
     then_do (flush_staged_chunks env p (so_chunks st) (st\<lparr>so_chunks := []\<rparr>))
       (\<lambda>st1. then_do (flush_staged_symbols env (so_symbols st1) (st1\<lparr>so_symbols := []\<rparr>))
          (\<lambda>st2. (Inr (), snd (flush_staged_relations env p active
                    (if so_hashes st2 = [] then st2 else write_hashes env p (so_hashes st2) st2)))))"

text \<open>The embeddings of an unfinished status are sent afterwards by a task of their own.\<close>

definition finish_full_index ::
  "'e bm25_api \<Rightarrow> (string \<Rightarrow> u64 option \<Rightarrow> code_db \<Rightarrow> nat \<Rightarrow> code_chunk list app_result) \<Rightarrow> (app_error \<Rightarrow> string) \<Rightarrow> datetime \<Rightarrow>
     string \<Rightarrow> index_status \<Rightarrow> u64 \<Rightarrow> code_db \<Rightarrow> 'e code_engine \<Rightarrow>
     (index_status app_result \<times> code_db \<times> 'e code_engine) option" where
  "finish_full_index api page show_error now p status active db cs =
     (let status1 = status\<lparr>is_status := (if is_total_files status = 0 then Completed else EmbeddingPending)\<rparr> in
      case promote_index_generation_and_cleanup p active db of
        (Inl e, db1) \<Rightarrow> Some (Inl e, db1, cs)
      | (Inr u, db1) \<Rightarrow> rebuild_bm25_and_finalize_index_status api page show_error now p status1 active db1 cs)"

definition finish_staged ::
  "'e bm25_api \<Rightarrow> (string \<Rightarrow> u64 option \<Rightarrow> code_db \<Rightarrow> nat \<Rightarrow> code_chunk list app_result) \<Rightarrow> (app_error \<Rightarrow> string) \<Rightarrow>
     staged_env \<Rightarrow> string \<Rightarrow> u64 \<Rightarrow> 'e code_engine \<Rightarrow> unit app_result \<times> staged_core \<Rightarrow>
     (index_status app_result \<times> code_db \<times> 'e code_engine) option" where
  "finish_staged api page show_error env p active cs r =
     (case then_do r (final_flushes env p active) of
        (Inl e, st) \<Rightarrow> Some (Inl e, so_db st, cs)
      | (Inr u, st) \<Rightarrow>
          finish_full_index api page show_error (ie_now (sv_index env)) p (so_status st) active (so_db st) cs)"

definition run_staged_index_pipeline ::
  "'e bm25_api \<Rightarrow> (string \<Rightarrow> u64 option \<Rightarrow> code_db \<Rightarrow> nat \<Rightarrow> code_chunk list app_result) \<Rightarrow> (app_error \<Rightarrow> string) \<Rightarrow>
     staged_env \<Rightarrow> string \<Rightarrow> index_status \<Rightarrow> u64 \<Rightarrow> string list \<Rightarrow> file_checkpoint_context option \<Rightarrow> code_db \<Rightarrow>
     'e code_engine \<Rightarrow> (index_status app_result \<times> code_db \<times> 'e code_engine) option" where
  "run_staged_index_pipeline api page show_error env p status active files ctx db cs =
     finish_staged api page show_error env p active cs
       (case staged_files env p active ctx files (staged_state_new (staged_core_new status db)) of
          (r, st) \<Rightarrow> (r, sp_core st))"

section \<open>The order in which tasks finish does not matter\<close>

text \<open>The reference: every file is read and committed in turn.\<close>

definition parsed_in_turn ::
  "staged_env \<Rightarrow> string \<Rightarrow> u64 \<Rightarrow> file_checkpoint_context option \<Rightarrow> nat \<times> string \<Rightarrow> parsed_file" where
  "parsed_in_turn env p active ctx = (\<lambda>(seq, f).
     (if checkpoint_done ctx f \<or> is_ignored_file f then skipped_file seq f else read_file_for_staged env p active seq f))"

definition commit_in_turn ::
  "staged_env \<Rightarrow> string \<Rightarrow> u64 \<Rightarrow> file_checkpoint_context option \<Rightarrow> string list \<Rightarrow> staged_core \<Rightarrow> unit app_result \<times> staged_core" where
  "commit_in_turn env p active ctx files =
     try_each (commit_parsed env p ctx) (map (parsed_in_turn env p active ctx) (List.enumerate 0 files))"

definition in_turn ::
  "staged_env \<Rightarrow> string \<Rightarrow> u64 \<Rightarrow> file_checkpoint_context option \<Rightarrow> string list \<Rightarrow> nat \<Rightarrow> parsed_file" where
  "in_turn env p active ctx files j = parsed_in_turn env p active ctx (j, files ! j)"

lemma commit_in_turn_upt:
  "commit_in_turn env p active ctx files core =
     try_each (commit_parsed env p ctx) (map (in_turn env p active ctx files) [0..<length files]) core"
proof -
  have "map (parsed_in_turn env p active ctx) (List.enumerate 0 files) = map (in_turn env p active ctx files) [0..<length files]"
    by (rule nth_equalityI) (simp_all add: nth_enumerate_eq in_turn_def)
  then show ?thesis by (simp add: commit_in_turn_def)
qed

lemma then_do_simps [simp]: "then_do (Inl e, st) k = (Inl e, st)" "then_do (Inr u, st) k = k st"
  by (simp_all add: then_do_def)

lemma try_each_append: "try_each step (xs @ ys) st = then_do (try_each step xs st) (try_each step ys)"
  by (induction xs arbitrary: st) (auto simp: then_do_def split: prod.split sum.split)

lemma parsed_seq [simp]: "pf_seq (skipped_file seq f) = seq" "pf_seq (read_file_for_staged env p active seq f) = seq"
  by (auto simp: skipped_file_def failed_file_def read_file_for_staged_def parse_file_for_staged_def Let_def
      split: sum.split option.split)

text \<open>
  The files before \<open>k\<close> have been taken up: those before the next number to commit are committed, the others
  wait as results or are being read.
\<close>

definition staged_inv ::
  "staged_env \<Rightarrow> string \<Rightarrow> u64 \<Rightarrow> file_checkpoint_context option \<Rightarrow> string list \<Rightarrow> staged_core \<Rightarrow> nat \<Rightarrow> staged_state \<Rightarrow> bool" where
  "staged_inv env p active ctx files core0 k st \<longleftrightarrow>
     k \<le> length files \<and> sp_next st \<le> k \<and>
     try_each (commit_parsed env p ctx) (map (in_turn env p active ctx files) [0..<sp_next st]) core0 = (Inr (), sp_core st) \<and>
     (\<forall>j pf. hm_get (sp_pending st) j = Some pf \<longrightarrow> sp_next st \<le> j \<and> j < k \<and> pf = in_turn env p active ctx files j) \<and>
     (\<forall>t\<in>set (sp_tasks st). sp_next st \<le> fst t \<and> fst t < k \<and> hm_get (sp_pending st) (fst t) = None \<and>
        read_file_for_staged env p active (fst t) (snd t) = in_turn env p active ctx files (fst t)) \<and>
     distinct (map fst (sp_tasks st)) \<and>
     (\<forall>j. sp_next st \<le> j \<longrightarrow> j < k \<longrightarrow> hm_get (sp_pending st) j \<noteq> None \<or> j \<in> fst ` set (sp_tasks st))"

definition staged_outcome ::
  "staged_env \<Rightarrow> string \<Rightarrow> u64 \<Rightarrow> file_checkpoint_context option \<Rightarrow> string list \<Rightarrow> staged_core \<Rightarrow> nat \<Rightarrow>
     unit app_result \<times> staged_state \<Rightarrow> bool" where
  "staged_outcome env p active ctx files core0 k r \<longleftrightarrow>
     (case r of
        (Inl e, st) \<Rightarrow> commit_in_turn env p active ctx files core0 = (Inl e, sp_core st)
      | (Inr u, st) \<Rightarrow> staged_inv env p active ctx files core0 k st \<and> hm_get (sp_pending st) (sp_next st) = None)"

lemma commit_next:
  assumes "n < length files"
    and "try_each (commit_parsed env p ctx) (map (in_turn env p active ctx files) [0..<n]) core0 = (Inr (), core)"
    and "commit_parsed env p ctx (in_turn env p active ctx files n) core = (r, core')"
  shows "case r of
      Inl e \<Rightarrow> commit_in_turn env p active ctx files core0 = (Inl e, core')
    | Inr u \<Rightarrow> try_each (commit_parsed env p ctx) (map (in_turn env p active ctx files) [0..<Suc n]) core0 = (Inr (), core')"
proof (cases r)
  case (Inl e)
  have "[0..<length files] = [0..<n] @ n # [Suc n..<length files]"
    using assms(1) by (metis upt_conv_Cons upt_add_eq_append le_add_diff_inverse less_imp_le_nat zero_le)
  with Inl assms(2,3) show ?thesis
    by (simp add: commit_in_turn_upt try_each_append del: upt_Suc)
qed (use assms(2,3) in \<open>simp add: try_each_append\<close>)

lemma drain_outcome:
  "staged_inv env p active ctx files core0 k st \<Longrightarrow>
     staged_outcome env p active ctx files core0 k (drain_ready_staged_results env p ctx st)"
proof (induction env p ctx st rule: drain_ready_staged_results.induct)
  case (1 env p ctx st)
  note inv = 1(2) [unfolded staged_inv_def]
  show ?case
  proof (cases "hm_get (sp_pending st) (sp_next st)")
    case None
    with 1(2) show ?thesis by (simp add: drain_ready_staged_results.simps [of env p ctx st] staged_outcome_def)
  next
    case (Some pf)
    obtain r0 core where c: "commit_parsed env p ctx pf (sp_core st) = (r0, core)" by fastforce
    have n: "sp_next st < k" "pf = in_turn env p active ctx files (sp_next st)" "k \<le> length files"
      using inv Some by blast+
    have commits: "try_each (commit_parsed env p ctx) (map (in_turn env p active ctx files) [0..<sp_next st]) core0 = (Inr (), sp_core st)"
      using inv by blast
    have "sp_next st < length files" using n by simp
    note next_commit = commit_next [OF this commits c [unfolded n(2)]]
    have drain: "drain_ready_staged_results env p ctx st =
      (case r0 of Inl e \<Rightarrow> (Inl e, st\<lparr>sp_core := core, sp_pending := hm_remove (sp_next st) (sp_pending st)\<rparr>)
       | Inr u \<Rightarrow> drain_ready_staged_results env p ctx
           (st\<lparr>sp_core := core, sp_pending := hm_remove (sp_next st) (sp_pending st), sp_next := Suc (sp_next st)\<rparr>))"
      by (subst drain_ready_staged_results.simps) (simp add: Some c split: sum.split)
    show ?thesis
    proof (cases r0)
      case (Inl e)
      with next_commit show ?thesis by (simp add: drain staged_outcome_def)
    next
      case (Inr u)
      let ?st1 = "st\<lparr>sp_core := core, sp_pending := hm_remove (sp_next st) (sp_pending st), sp_next := Suc (sp_next st)\<rparr>"
      have "sp_next st \<noteq> fst t" if "t \<in> set (sp_tasks st)" for t
        using inv Some that by (metis option.distinct(1))
      then have "staged_inv env p active ctx files core0 k ?st1"
        using inv next_commit [unfolded Inr] n unfolding staged_inv_def
        by (simp del: upt_Suc add: Suc_le_eq) (metis le_neq_implies_less)
      with 1(1) [OF Some refl c [symmetric] Inr] show ?thesis by (simp add: drain Inr)
    qed
  qed
qed

lemma take_up_inv:
  assumes "staged_inv env p active ctx files core0 k st" and "k < length files"
  shows "pf = in_turn env p active ctx files k \<Longrightarrow> pf_seq pf = k \<Longrightarrow>
      staged_inv env p active ctx files core0 (Suc k) (st\<lparr>sp_pending := hm_insert (pf_seq pf) pf (sp_pending st)\<rparr>)"
    and "read_file_for_staged env p active k f = in_turn env p active ctx files k \<Longrightarrow>
      staged_inv env p active ctx files core0 (Suc k) (st\<lparr>sp_tasks := sp_tasks st @ [(k, f)]\<rparr>)"
proof -
  note inv = assms(1) [unfolded staged_inv_def]
  show "pf = in_turn env p active ctx files k \<Longrightarrow> pf_seq pf = k \<Longrightarrow>
      staged_inv env p active ctx files core0 (Suc k) (st\<lparr>sp_pending := hm_insert (pf_seq pf) pf (sp_pending st)\<rparr>)"
    using inv assms(2) unfolding staged_inv_def by (auto simp: less_Suc_eq)
  have "hm_get (sp_pending st) k = None" using inv by (metis less_irrefl option.exhaust)
  then show "read_file_for_staged env p active k f = in_turn env p active ctx files k \<Longrightarrow>
      staged_inv env p active ctx files core0 (Suc k) (st\<lparr>sp_tasks := sp_tasks st @ [(k, f)]\<rparr>)"
    using inv assms(2) unfolding staged_inv_def by (auto simp: less_Suc_eq)
qed

lemma task_split: "i < length ts \<Longrightarrow> \<exists>us vs. ts = us @ ts ! i # vs \<and> remove_nth i ts = us @ vs"
  using id_take_nth_drop [of i ts] by (auto simp: remove_nth_def)

lemma join_next_outcome:
  assumes "staged_inv env p active ctx files core0 k st" and "sp_tasks st \<noteq> []" and "\<And>f. sv_task_panics env f = None"
  shows "staged_outcome env p active ctx files core0 k (join_next env p active ctx st)"
proof -
  let ?i = "sv_join env (sp_joins st) mod length (sp_tasks st)"
  obtain seq f where t: "sp_tasks st ! ?i = (seq, f)" by fastforce
  have "?i < length (sp_tasks st)" using assms(2) by simp
  then obtain us vs where ts: "sp_tasks st = us @ (seq, f) # vs" and rest: "remove_nth ?i (sp_tasks st) = us @ vs"
    using task_split t by metis
  let ?pf = "read_file_for_staged env p active seq f"
  let ?st1 = "st\<lparr>sp_tasks := us @ vs, sp_joins := Suc (sp_joins st)\<rparr>"
  note inv = assms(1) [unfolded staged_inv_def ts]
  have "?pf = in_turn env p active ctx files seq" "seq < k" "sp_next st \<le> seq" using inv by auto
  moreover have "pf_seq ?pf = seq" by simp
  moreover have "seq \<notin> fst ` set (us @ vs)" using inv by auto
  ultimately have "staged_inv env p active ctx files core0 k
      (?st1\<lparr>sp_pending := hm_insert (pf_seq ?pf) ?pf (sp_pending ?st1)\<rparr>)"
    using inv unfolding staged_inv_def by (auto simp: image_iff)
  from drain_outcome [OF this] show ?thesis
    by (simp add: join_next_def Let_def t rest assms(3) insert_and_drain_def)
qed

lemma join_until_outcome:
  assumes "\<And>f. sv_task_panics env f = None"
  shows "staged_inv env p active ctx files core0 k st \<Longrightarrow> hm_get (sp_pending st) (sp_next st) = None \<or> bound \<le> length (sp_tasks st) \<and> sp_tasks st \<noteq> [] \<Longrightarrow>
     staged_outcome env p active ctx files core0 k (join_until env p active ctx bound st) \<and>
     (\<forall>u st'. join_until env p active ctx bound st = (Inr u, st') \<longrightarrow> sp_tasks st' = [] \<or> length (sp_tasks st') < bound)"
  using assms
proof (induction env p active ctx bound st rule: join_until.induct)
  case (1 env p active ctx bound st)
  show ?case
  proof (cases "sp_tasks st = [] \<or> length (sp_tasks st) < bound")
    case True
    with 1 show ?thesis by (auto simp: join_until.simps [of env p active ctx bound st] staged_outcome_def)
  next
    case False
    obtain r st1 where j: "join_next env p active ctx st = (r, st1)" by fastforce
    have o: "staged_outcome env p active ctx files core0 k (r, st1)"
      using join_next_outcome [OF 1(2) _ 1(4)] False j by simp
    show ?thesis
    proof (cases r)
      case (Inl e)
      with o j False show ?thesis by (simp add: join_until.simps [of env p active ctx bound st])
    next
      case (Inr u)
      with o have "staged_inv env p active ctx files core0 k st1" "hm_get (sp_pending st1) (sp_next st1) = None"
        by (simp_all add: staged_outcome_def)
      with 1(1) [OF False j [symmetric] Inr _ _ 1(4)] Inr j False show ?thesis
        by (simp add: join_until.simps [of env p active ctx bound st])
    qed
  qed
qed

text \<open>The run meets no cancelled job, and no task dies outside the parser.\<close>

definition undisturbed :: "staged_env \<Rightarrow> bool" where
  "undisturbed env \<longleftrightarrow> (\<forall>seq. \<not> cancel_requested env seq) \<and> (\<forall>f. sv_task_panics env f = None)"

lemma process_staged_outcome:
  assumes "undisturbed env" and "staged_outcome env p active ctx files core0 k (Inr (), st)" and "k < length files"
  shows "staged_outcome env p active ctx files core0 (Suc k) (process_staged_file env p active ctx (k, files ! k) st)"
proof -
  have inv: "staged_inv env p active ctx files core0 k st" and drained: "hm_get (sp_pending st) (sp_next st) = None"
    using assms(2) by (simp_all add: staged_outcome_def)
  have current: "staged_inv env p active ctx files core0 k (st\<lparr>sp_current := f\<rparr>)" for f
    using inv by (simp add: staged_inv_def)
  show ?thesis
  proof (cases "checkpoint_done ctx (files ! k) \<or> is_ignored_file (files ! k)")
    case True
    then have "skipped_file k (files ! k) = in_turn env p active ctx files k" by (simp add: in_turn_def parsed_in_turn_def)
    from take_up_inv(1) [OF inv assms(3) this] take_up_inv(1) [OF current assms(3) this] True assms(1)
    show ?thesis by (auto simp: process_staged_file_def Let_def insert_and_drain_def undisturbed_def intro!: drain_outcome)
  next
    case False
    then have "read_file_for_staged env p active k (files ! k) = in_turn env p active ctx files k"
      by (simp add: in_turn_def parsed_in_turn_def)
    from take_up_inv(2) [OF current assms(3) this]
    have "staged_inv env p active ctx files core0 (Suc k)
        (st\<lparr>sp_current := files ! k, sp_tasks := sp_tasks st @ [(k, files ! k)]\<rparr>)" by simp
    from join_until_outcome [OF _ this, of "sv_max_inflight_files env"] False assms(1) drained
    show ?thesis by (simp add: process_staged_file_def Let_def undisturbed_def)
  qed
qed

lemma try_staged_outcome:
  assumes "undisturbed env"
  shows "k \<le> length files \<Longrightarrow> staged_outcome env p active ctx files core0 k (Inr (), st) \<Longrightarrow>
    staged_outcome env p active ctx files core0 (length files)
      (try_each (process_staged_file env p active ctx) (List.enumerate k (drop k files)) st)"
proof (induction "length files - k" arbitrary: k st)
  case 0
  then show ?case by simp
next
  case (Suc n)
  then have k: "k < length files" "drop k files = files ! k # drop (Suc k) files" by (simp_all add: Cons_nth_drop_Suc)
  obtain r st1 where step: "process_staged_file env p active ctx (k, files ! k) st = (r, st1)" by fastforce
  note o = process_staged_outcome [OF assms Suc.prems(2) k(1), unfolded step]
  show ?case
  proof (cases r)
    case (Inl e)
    with o step k show ?thesis by (simp add: staged_outcome_def)
  next
    case (Inr u)
    with o step k Suc.hyps(1) [of "Suc k" st1] Suc.hyps(2) show ?thesis by simp
  qed
qed

lemma staged_sequential:
  assumes "undisturbed env"
  shows "(case staged_files env p active ctx files (staged_state_new core) of (r, st) \<Rightarrow> (r, sp_core st)) =
    commit_in_turn env p active ctx files core"
proof -
  let ?st0 = "staged_state_new core"
  obtain r st1 where loop: "try_each (process_staged_file env p active ctx) (List.enumerate 0 files) ?st0 = (r, st1)" by fastforce
  have "staged_outcome env p active ctx files core 0 (Inr (), ?st0)"
    by (simp add: staged_outcome_def staged_inv_def staged_state_new_def)
  from try_staged_outcome [OF assms _ this] loop
  have o: "staged_outcome env p active ctx files core (length files) (r, st1)" by simp
  show ?thesis
  proof (cases r)
    case (Inl e)
    with o loop show ?thesis by (simp add: staged_files_def staged_outcome_def)
  next
    case (Inr u)
    obtain r2 st2 where final: "join_until env p active ctx 1 st1 = (r2, st2)" by fastforce
    have f: "staged_outcome env p active ctx files core (length files) (r2, st2)"
      "\<forall>u st'. (r2, st2) = (Inr u, st') \<longrightarrow> sp_tasks st' = []"
      using join_until_outcome [of env p active ctx files core "length files" st1 1] assms o Inr final
      by (simp_all add: undisturbed_def staged_outcome_def)
    have "commit_in_turn env p active ctx files core = (r2, sp_core st2)"
    proof (cases r2)
      case (Inl e)
      with f show ?thesis by (simp add: staged_outcome_def)
    next
      case (Inr u2)
      with f have "staged_inv env p active ctx files core (length files) st2" "sp_tasks st2 = []"
        "hm_get (sp_pending st2) (sp_next st2) = None" by (simp_all add: staged_outcome_def)
      then have "sp_next st2 = length files" unfolding staged_inv_def by (metis le_neq_implies_less le_refl image_empty empty_iff list.set(1))
      with Inr \<open>staged_inv env p active ctx files core (length files) st2\<close> show ?thesis
        by (simp add: commit_in_turn_upt staged_inv_def)
    qed
    with Inr loop final show ?thesis by (simp add: staged_files_def)
  qed
qed

text \<open>C30: Whatever the order in which tasks finish, the number of files in flight and the writes that fail, a run that is not
  cancelled does what reading and committing its files one after the other in the order of the scan does: the
  rows with their ids, the status, the checkpoints, the published generation, the lexical index and the
  error, if a write fails, are the same.
\<close>

theorem staged_order_irrelevant:
  assumes "undisturbed env"
  shows "run_staged_index_pipeline api page show_error env p status active files ctx db cs =
    finish_staged api page show_error env p active cs
      (commit_in_turn env p active ctx files (staged_core_new status db))"
  by (simp add: run_staged_index_pipeline_def staged_sequential [OF assms])

end
