(* ===== verification/StagedPublish.thy ===== *)
theory StagedPublish
  imports StagedIndex IndexWorker
begin

text \<open>
  What a full indexing run with the staged pipeline publishes when no write of rows fails, and what is lost when the
  server stops in the middle and the run is resumed.
\<close>

definition row_writes_succeed :: "staged_env \<Rightarrow> bool" where
  "row_writes_succeed env \<longleftrightarrow> (\<forall>n. sv_chunk_write env n = None) \<and> (\<forall>n. sv_symbol_write env n = None)"

section \<open>What a step of the pipeline adds\<close>

text \<open>The chunks that are written or buffered, up to their ids.\<close>

definition collected :: "staged_core \<Rightarrow> code_chunk list" where
  "collected st = map without_id (cd_chunks (so_db st)) @ so_chunks st"

definition in_progress :: "(nat \<Rightarrow> string) \<Rightarrow> string \<Rightarrow> u64 \<Rightarrow> staged_core \<Rightarrow> bool" where
  "in_progress gen p g st \<longleftrightarrow>
     is_status (so_status st) = Indexing \<and> is_structural_generation (so_status st) = g \<and> is_project_id (so_status st) = p \<and>
     run_current p g (so_db st) \<and> chunk_ids_ok gen (so_db st) \<and> list_all (\<lambda>c. ck_id c = None) (so_chunks st)"

definition adds ::
  "(nat \<Rightarrow> string) \<Rightarrow> string \<Rightarrow> u64 \<Rightarrow> code_chunk list \<Rightarrow> string list \<Rightarrow> nat \<Rightarrow> staged_core \<Rightarrow> staged_core \<Rightarrow> bool" where
  "adds gen p g cs failed n a b \<longleftrightarrow>
     in_progress gen p g b \<and> collected b = collected a @ cs \<and>
     is_failed_files (so_status b) = is_failed_files (so_status a) @ failed \<and>
     is_indexed_files (so_status b) = is_indexed_files (so_status a) + of_nat n \<and>
     is_total_chunks (so_status b) = is_total_chunks (so_status a) + of_nat (length cs) \<and>
     is_total_files (so_status b) = is_total_files (so_status a)"

lemma adds_trans:
  "adds gen p g cs fs n a b \<Longrightarrow> adds gen p g ds gs m b c \<Longrightarrow> adds gen p g (cs @ ds) (fs @ gs) (n + m) a c"
  by (simp add: adds_def)

lemma adds_progress: "adds gen p g cs fs n a b \<Longrightarrow> in_progress gen p g b"
  by (simp add: adds_def)

lemma adds_refl: "in_progress gen p g a \<Longrightarrow> adds gen p g [] [] 0 a a"
  by (simp add: adds_def)

text \<open>A step that leaves the chunks, the statuses and the buffer of chunks alone.\<close>

definition same_core :: "code_db \<Rightarrow> code_db \<Rightarrow> bool" where
  "same_core a b \<longleftrightarrow> cd_chunks b = cd_chunks a \<and> cd_next b = cd_next a \<and> cd_status b = cd_status a"

lemma adds_frame:
  assumes "in_progress gen p g a" "same_core (so_db a) (so_db b)" "so_chunks b = so_chunks a" "so_status b = so_status a"
  shows "adds gen p g [] [] 0 a b"
  using assms by (simp add: adds_def in_progress_def collected_def same_core_def chunk_ids_ok_def run_current_def get_index_status_def)

lemma same_core_trans: "same_core a b \<Longrightarrow> same_core b c \<Longrightarrow> same_core a c"
  by (simp add: same_core_def)

lemma same_core_of_chunks: "same_chunks a b \<Longrightarrow> same_core a b"
  by (simp add: same_core_def same_chunks_def)

lemma batch_chunks:
  assumes "list_all (\<lambda>c. ck_id c = None) batch" and "inj gen" and "chunk_ids_ok gen db"
  shows "map without_id (cd_chunks (snd (create_code_chunks_batch gen batch db))) = map without_id (cd_chunks db) @ batch"
    and "cd_status (snd (create_code_chunks_batch gen batch db)) = cd_status db"
    and "chunk_ids_ok gen (snd (create_code_chunks_batch gen batch db))"
  using assign_ids_without [OF assms(1), of gen "cd_next db"] create_batch_ids_ok [OF assms(2,3,1)]
  by (auto simp: create_code_chunks_batch_def split: prod.split)

lemma flush_chunks_adds:
  assumes "row_writes_succeed env" "inj (ie_gen (sv_index env))" "in_progress (ie_gen (sv_index env)) p g (a\<lparr>so_chunks := batch\<rparr>)"
  shows "\<exists>b. flush_staged_chunks env p batch (a\<lparr>so_chunks := []\<rparr>) = (Inr (), b) \<and> so_chunks b = [] \<and>
    adds (ie_gen (sv_index env)) p g [] [] 0 (a\<lparr>so_chunks := batch\<rparr>) b"
proof (cases "batch = []")
  case True
  with assms(3) show ?thesis by (auto simp: flush_staged_chunks_def intro: adds_refl)
next
  case False
  have none: "list_all (\<lambda>c. ck_id c = None) batch" and ids: "chunk_ids_ok (ie_gen (sv_index env)) (so_db a)"
    using assms(3) by (simp_all add: in_progress_def)
  obtain results db1 where c: "create_code_chunks_batch (ie_gen (sv_index env)) batch (so_db a) = (results, db1)" by fastforce
  from batch_chunks [OF none assms(2) ids] c
  have "map without_id (cd_chunks db1) = map without_id (cd_chunks (so_db a)) @ batch" "cd_status db1 = cd_status (so_db a)"
    "chunk_ids_ok (ie_gen (sv_index env)) db1" by simp_all
  with False c assms(1,3) show ?thesis
    by (simp add: flush_staged_chunks_def row_writes_succeed_def adds_def in_progress_def collected_def run_current_def
        get_index_status_def Let_def)
qed

lemma push_chunk_adds:
  assumes "row_writes_succeed env" "inj (ie_gen (sv_index env))" "in_progress (ie_gen (sv_index env)) p g a" "ck_id c = None"
  shows "\<exists>b. push_chunk env p c a = (Inr (), b) \<and> adds (ie_gen (sv_index env)) p g [c] [] 0 a b"
proof -
  let ?gen = "ie_gen (sv_index env)"
  let ?a1 = "a\<lparr>so_status := (so_status a)\<lparr>is_total_chunks := is_total_chunks (so_status a) + 1\<rparr>\<rparr>"
  let ?a2 = "?a1\<lparr>so_chunks := so_chunks a @ [c]\<rparr>"
  have more: "adds ?gen p g [c] [] 0 a ?a2" using assms(3,4) by (simp add: adds_def in_progress_def collected_def)
  show ?thesis
  proof (cases "length (so_chunks a @ [c]) \<ge> sv_commit_batch_size env")
    case True
    obtain b where "flush_staged_chunks env p (so_chunks a @ [c]) (?a1\<lparr>so_chunks := []\<rparr>) = (Inr (), b)" "adds ?gen p g [] [] 0 ?a2 b"
      using flush_chunks_adds [OF assms(1,2) adds_progress [OF more]] by blast
    with True adds_trans [OF more, of "[]" "[]" 0 b] show ?thesis by (simp add: push_chunk_def Let_def)
  qed (use more in \<open>simp add: push_chunk_def Let_def\<close>)
qed

lemma flush_symbols_frame:
  assumes "row_writes_succeed env"
  shows "\<exists>b. flush_staged_symbols env batch a = (Inr (), b) \<and> same_core (so_db a) (so_db b) \<and> so_chunks b = so_chunks a \<and>
    so_status b = so_status a"
proof -
  obtain ids db1 where c: "create_code_symbols_batch (ie_hasher (sv_index env)) (ie_now (sv_index env)) batch (so_db a) = (ids, db1)"
    by fastforce
  have "same_core (so_db a) db1"
    using symbols_batch_same [of "so_db a" "ie_hasher (sv_index env)" "ie_now (sv_index env)" batch] c
    by (simp add: same_core_of_chunks)
  with c assms show ?thesis by (simp add: flush_staged_symbols_def row_writes_succeed_def Let_def) (simp add: same_core_def)
qed

lemma push_symbol_adds:
  assumes "row_writes_succeed env" "in_progress gen p g a"
  shows "\<exists>b. push_symbol env s a = (Inr (), b) \<and> adds gen p g [] [] 0 a b"
proof -
  let ?a1 = "a\<lparr>so_status := (so_status a)\<lparr>is_total_symbols := is_total_symbols (so_status a) + 1\<rparr>, so_symbols := []\<rparr>"
  have more: "adds gen p g [] [] 0 a (?a1\<lparr>so_symbols := xs\<rparr>)" for xs
    using assms(2) by (simp add: adds_def in_progress_def collected_def)
  obtain b where b: "flush_staged_symbols env (so_symbols a @ [s]) (?a1\<lparr>so_symbols := []\<rparr>) = (Inr (), b)"
    "same_core (so_db ?a1) (so_db b)" "so_chunks b = so_chunks ?a1" "so_status b = so_status ?a1"
    using flush_symbols_frame [OF assms(1), of "so_symbols a @ [s]" "?a1\<lparr>so_symbols := []\<rparr>"] by auto
  have "adds gen p g [] [] 0 a b"
    using adds_trans [OF more [of "[]"] adds_frame [OF adds_progress [OF more [of "[]"]], of b]] b by simp
  with b more [of "so_symbols a @ [s]"] show ?thesis by (simp add: push_symbol_def Let_def)
qed

text \<open>A loop adds what its rounds add.\<close>

lemma try_each_adds:
  assumes "\<And>x a. x \<in> set xs \<Longrightarrow> in_progress gen p g a \<Longrightarrow> \<exists>b. step x a = (Inr (), b) \<and> adds gen p g (cs x) (fs x) (n x) a b"
  shows "in_progress gen p g a \<Longrightarrow>
    \<exists>b. try_each step xs a = (Inr (), b) \<and> adds gen p g (concat (map cs xs)) (concat (map fs xs)) (sum_list (map n xs)) a b"
  using assms
proof (induction xs arbitrary: a)
  case Nil
  then show ?case by (simp add: adds_refl)
next
  case (Cons x xs)
  obtain b where b: "step x a = (Inr (), b)" "adds gen p g (cs x) (fs x) (n x) a b" using Cons.prems by force
  obtain c where c: "try_each step xs b = (Inr (), c)"
    "adds gen p g (concat (map cs xs)) (concat (map fs xs)) (sum_list (map n xs)) b c"
    using Cons.IH [OF adds_progress [OF b(2)]] Cons.prems(2) by (meson list.set_intros(2))
  from b c adds_trans [OF b(2) c(2)] show ?case by simp
qed

lemma concat_nils [simp]: "concat (map (\<lambda>x. []) xs) = []"
  by (induction xs) simp_all

lemma try_each_rows:
  assumes "in_progress gen p g a"
    and "\<And>x a. x \<in> set xs \<Longrightarrow> in_progress gen p g a \<Longrightarrow> \<exists>b. step x a = (Inr (), b) \<and> adds gen p g (cs x) [] 0 a b"
  obtains b where "try_each step xs a = (Inr (), b)" "adds gen p g (concat (map cs xs)) [] 0 a b"
  using try_each_adds [of xs gen p g step cs "\<lambda>x. []" "\<lambda>x. 0", OF assms(2) assms(1)] by auto

section \<open>Committing one file\<close>

lemma hash_frame: "same_core db (set_file_hashes_batch p hs db)"
proof -
  have "same_core db (fold (\<lambda>(f, h). set_file_hash p f h) hs db)" for db
    by (induction hs arbitrary: db) (auto simp: same_core_def set_file_hash_def)
  then show ?thesis by (simp add: set_file_hashes_batch_def same_core_def)
qed

lemma write_hashes_adds: "in_progress gen p g a \<Longrightarrow> adds gen p g [] [] 0 a (write_hashes env p hs a)"
  by (rule adds_frame) (simp_all add: write_hashes_def hash_frame, simp add: same_core_def)

lemma push_hash_adds: "in_progress gen p g a \<Longrightarrow> adds gen p g [] [] 0 a (push_hash env p e a)"
  using write_hashes_adds [of gen p g "a\<lparr>so_hashes := []\<rparr>" env "so_hashes a @ [e]"]
  by (auto simp: push_hash_def Let_def adds_def in_progress_def collected_def)

lemma checkpoint_frame: "same_core db (upsert_file_checkpoint_after_file b3 now ctx p f h ph m n db)"
  by (simp add: upsert_file_checkpoint_after_file_def upsert_file_checkpoint_def same_core_def Let_def split: option.split prod.split)

lemma checkpoint_adds: "in_progress gen p g a \<Longrightarrow> adds gen p g [] [] 0 a (checkpoint_file env p ctx f h m n a)"
  by (rule adds_frame) (simp_all add: checkpoint_file_def checkpoint_frame)

lemma counted_adds: "in_progress gen p g a \<Longrightarrow> adds gen p g [] [] 1 a (file_counted a)"
  by (simp add: adds_def in_progress_def collected_def file_counted_def)

lemma failed_adds:
  "in_progress gen p g a \<Longrightarrow>
     adds gen p g [] [f] 0 a (a\<lparr>so_status := (so_status a)\<lparr>is_failed_files := is_failed_files (so_status a) @ [f]\<rparr>\<rparr>)"
  by (simp add: adds_def in_progress_def collected_def)

lemma progress_adds: "in_progress gen p g a \<Longrightarrow> adds gen p g [] [] 0 a (progress_write env seq a)"
  using indexing_status_current [of "so_status a" p "so_db a"]
  by (auto simp: progress_write_def adds_def in_progress_def collected_def store_index_status_def chunk_ids_ok_def
      split: prod.split)

lemma commit_rows_adds:
  assumes "row_writes_succeed env" "inj (ie_gen (sv_index env))" "in_progress (ie_gen (sv_index env)) p g a"
    and "list_all (\<lambda>c. ck_id c = None) (pf_chunks pf)"
  shows "\<exists>b. commit_rows env p pf a = (Inr (), b) \<and> adds (ie_gen (sv_index env)) p g (pf_chunks pf) [] 0 a b"
proof -
  let ?gen = "ie_gen (sv_index env)"
  let ?a1 = "a\<lparr>so_files_read := so_files_read a + 1\<rparr>"
  define a2 where "a2 = (case pf_hash pf of None \<Rightarrow> ?a1 | Some h \<Rightarrow> push_hash env p (pf_path pf, h) ?a1)"
  have 1: "adds ?gen p g [] [] 0 a ?a1" using assms(3) by (simp add: adds_def in_progress_def collected_def)
  from adds_trans [OF 1 push_hash_adds [OF adds_progress [OF 1]]] 1
  have 2: "adds ?gen p g [] [] 0 a a2" by (simp add: a2_def split: option.split)
  obtain b3 where b3: "try_each (push_chunk env p) (pf_chunks pf) a2 = (Inr (), b3)"
    "adds ?gen p g (concat (map (\<lambda>c. [c]) (pf_chunks pf))) [] 0 a2 b3"
  proof (rule try_each_rows [OF adds_progress [OF 2]])
    fix c x assume "c \<in> set (pf_chunks pf)" "in_progress ?gen p g x"
    then show "\<exists>b. push_chunk env p c x = (Inr (), b) \<and> adds ?gen p g [c] [] 0 x b"
      using assms(4) by (intro push_chunk_adds [OF assms(1,2)]) (auto simp: list_all_iff)
  qed
  have 3: "adds ?gen p g (pf_chunks pf) [] 0 a b3"
    using adds_trans [OF 2 b3(2)] by simp
  let ?b3 = "b3\<lparr>so_index := index_add_batch (so_index b3) (pf_symbols pf)\<rparr>"
  have 4: "adds ?gen p g (pf_chunks pf) [] 0 a ?b3" using 3 by (simp add: adds_def in_progress_def collected_def)
  obtain b4 where b4: "try_each (push_symbol env) (pf_symbols pf) ?b3 = (Inr (), b4)"
    "adds ?gen p g (concat (map (\<lambda>s. []) (pf_symbols pf))) [] 0 ?b3 b4"
    by (rule try_each_rows [OF adds_progress [OF 4]]) (rule push_symbol_adds [OF assms(1)])
  have 5: "adds ?gen p g (pf_chunks pf) [] 0 a b4" using adds_trans [OF 4 b4(2)] by simp
  let ?b = "b4\<lparr>so_relations := so_relations b4 @ pf_references pf @
      detect_containment_references (ie_files_order (sv_index env)) (pf_symbols pf)\<rparr>"
  have "adds ?gen p g (pf_chunks pf) [] 0 a ?b" using 5 by (simp add: adds_def in_progress_def collected_def)
  moreover have "commit_rows env p pf a = (Inr (), ?b)"
    unfolding commit_rows_def Let_def a2_def [symmetric] by (simp add: b3(1) b4(1))
  ultimately show ?thesis by blast
qed

definition file_failures :: "parsed_file \<Rightarrow> string list" where
  "file_failures pf = (if pf_error pf = None then [] else [pf_path pf])"

definition well_parsed :: "parsed_file \<Rightarrow> bool" where
  "well_parsed pf \<longleftrightarrow> list_all (\<lambda>c. ck_id c = None) (pf_chunks pf) \<and> (pf_error pf \<noteq> None \<or> pf_skipped pf \<longrightarrow> pf_chunks pf = [])"

lemma commit_parsed_adds:
  assumes "row_writes_succeed env" "inj (ie_gen (sv_index env))" "in_progress (ie_gen (sv_index env)) p g a" "well_parsed pf"
  shows "\<exists>b. commit_parsed env p ctx pf a = (Inr (), b) \<and>
    adds (ie_gen (sv_index env)) p g (pf_chunks pf) (file_failures pf) 1 a b"
proof -
  let ?gen = "ie_gen (sv_index env)"
  have done_: "adds ?gen p g cs fs 1 a (checkpoint_file env p ctx f h m n (file_counted b))" if "adds ?gen p g cs fs 0 a b" for cs fs f h m n b
    using adds_trans [OF adds_trans [OF that counted_adds [OF adds_progress [OF that]]]
        checkpoint_adds [OF adds_progress [OF counted_adds [OF adds_progress [OF that]]]]] by simp
  consider (error) "pf_error pf \<noteq> None" | (skipped) "pf_error pf = None" "pf_skipped pf" | (rows) "pf_error pf = None" "\<not> pf_skipped pf"
    by blast
  then show ?thesis
  proof cases
    case error
    with done_ [OF failed_adds [OF assms(3)]] assms(4) show ?thesis
      by (auto simp: commit_parsed_def file_failures_def well_parsed_def)
  next
    case skipped
    with done_ [OF adds_refl [OF assms(3)]] assms(4) show ?thesis
      by (auto simp: commit_parsed_def file_failures_def well_parsed_def)
  next
    case rows
    obtain b where b: "commit_rows env p pf a = (Inr (), b)" "adds ?gen p g (pf_chunks pf) [] 0 a b"
      using commit_rows_adds [OF assms(1-3)] assms(4) by (auto simp: well_parsed_def)
    note d = done_ [OF b(2)]
    from rows b(1) adds_trans [OF d progress_adds [OF adds_progress [OF d]]] show ?thesis
      by (simp add: commit_parsed_def file_failures_def)
  qed
qed

lemma in_turn_well_parsed: "well_parsed (in_turn env p active ctx files j)"
  using task_chunks_ok
  by (auto simp: in_turn_def parsed_in_turn_def read_file_for_staged_def parse_file_for_staged_def skipped_file_def failed_file_def
      well_parsed_def Let_def list_all_iff split: sum.split option.split)

lemma in_turn_chunks:
  "list_all (\<lambda>c. ck_project_id c = Some p \<and> ck_generation c = Some active) (pf_chunks (in_turn env p active ctx files j))"
  using chunk_file_stamped
  by (auto simp: in_turn_def parsed_in_turn_def read_file_for_staged_def parse_file_for_staged_def skipped_file_def failed_file_def
      Let_def list_all_iff task_chunks_def split: sum.split option.split)

section \<open>The end of a run\<close>

lemma relation_batches_frame:
  "same_core (snd s) (snd (flush_relation_batches env p active ix refs n s))"
proof -
  have "same_core (snd s) (snd (fold (\<lambda>batch (total, db).
        (case create_symbol_relations_for_generation (ie_hasher env) (ie_now env) (ie_lookup_fails env)
                (ie_relation_write_fails env) p batch ix active db of
           (stats, db1) \<Rightarrow> (add_stats total stats, db1))) bs s))" for bs
  proof (induction bs arbitrary: s)
    case (Cons b bs)
    obtain total db where s: "s = (total, db)" by fastforce
    obtain stats db1 where r: "create_symbol_relations_for_generation (ie_hasher env) (ie_now env) (ie_lookup_fails env)
                (ie_relation_write_fails env) p b ix active db = (stats, db1)" by fastforce
    have "same_core db db1"
      using r relations_same [of db "ie_hasher env" "ie_now env"]
      by (metis create_symbol_relations_for_generation_def same_core_of_chunks snd_conv)
    with Cons [of "(add_stats total stats, db1)"] show ?case by (simp add: s r) (blast intro: same_core_trans)
  qed (simp add: same_core_def)
  then show ?thesis by (simp add: flush_relation_batches_def)
qed

lemma final_flushes_adds:
  assumes "row_writes_succeed env" "inj (ie_gen (sv_index env))" "in_progress (ie_gen (sv_index env)) p g a"
  obtains b where "final_flushes env p active a = (Inr (), b)" "so_chunks b = []" "adds (ie_gen (sv_index env)) p g [] [] 0 a b"
proof -
  let ?gen = "ie_gen (sv_index env)"
  obtain b1 where 1: "flush_staged_chunks env p (so_chunks a) (a\<lparr>so_chunks := []\<rparr>) = (Inr (), b1)" "so_chunks b1 = []"
    "adds ?gen p g [] [] 0 a b1"
    using flush_chunks_adds [OF assms(1,2), where a = a and batch = "so_chunks a" and p = p and g = g] assms(3) by auto
  obtain b2 where 2: "flush_staged_symbols env (so_symbols b1) (b1\<lparr>so_symbols := []\<rparr>) = (Inr (), b2)"
    "same_core (so_db b1) (so_db b2)" "so_chunks b2 = so_chunks b1" "so_status b2 = so_status b1"
    using flush_symbols_frame [OF assms(1), of "so_symbols b1" "b1\<lparr>so_symbols := []\<rparr>"] by auto
  define b3 where "b3 = (if so_hashes b2 = [] then b2 else write_hashes env p (so_hashes b2) b2)"
  define b where "b = snd (flush_staged_relations env p active b3)"
  have 3: "same_core (so_db b2) (so_db b3)" "so_chunks b3 = so_chunks b2" "so_status b3 = so_status b2"
    by (auto simp: b3_def write_hashes_def hash_frame) (simp_all add: same_core_def)
  have 4: "same_core (so_db b3) (so_db b)" "so_chunks b = so_chunks b3" "so_status b = so_status b3"
    using relation_batches_frame [of "(relation_stats_zero, so_db b3)" "sv_index env" p active "so_index b3" "so_relations b3"
        "sv_relation_batch_size env"]
    by (auto simp: b_def flush_staged_relations_def split: prod.splits)
  have "adds ?gen p g [] [] 0 b1 b"
    using adds_frame [OF adds_progress [OF 1(3)], of b] 2 3 4 by (metis same_core_trans)
  from adds_trans [OF 1(3) this] have "adds ?gen p g [] [] 0 a b" by simp
  moreover have "final_flushes env p active a = (Inr (), b)"
    by (simp add: final_flushes_def 1(1) 2(1) b3_def [symmetric] b_def)
  ultimately show ?thesis using that 1(2) 2(3) 3(2) 4(2) by simp
qed

lemma rows_ok_filter: "chunk_rows_ok db \<Longrightarrow> cd_chunks db' = filter P (cd_chunks db) \<Longrightarrow> chunk_rows_ok db'"
  by (auto simp: chunk_rows_ok_def list_all_iff distinct_map_filter)

lemma finish_publishes:
  assumes "run_current p g db" "chunk_rows_ok db" "is_project_id status = p"
  obtains status' db' cs' where
    "finish_full_index api db_page show_error now p status g db cs = Some (Inr status', db', cs')"
    "is_status status' = (if is_total_files status = 0 then Completed else EmbeddingPending)"
    "is_failed_files status' = is_failed_files status" "is_indexed_files status' = is_indexed_files status"
    "is_total_chunks status' = is_total_chunks status"
    "get_active_generation p db' = Some g" "chunk_view p (Some g) db' = chunk_view p (Some g) db"
    "cs' = (if chunk_view p (Some g) db' = [] then cs else hm_insert p (build_index api (view_pairs_of p (Some g) db')) cs)"
proof -
  obtain db1 where p: "promote_index_generation_and_cleanup p g db = (Inr (), db1)" "get_active_generation p db1 = Some g"
    "cd_status db1 = cd_status db" and c: "cd_chunks db1 = filter (kept_by_promotion p g db) (cd_chunks db)"
    using promotion_result [OF assms(1)] by metis
  have rows: "chunk_rows_ok db1" using rows_ok_filter [OF assms(2) c] .
  have view: "chunk_view p (Some g) db1 = chunk_view p (Some g) db"
    using visible_not_outdated [of g] by (auto simp: chunk_view_def c kept_by_promotion_def intro!: filter_cong)
  have cur: "run_current p g db1" using assms(1) p(3) by (simp add: run_current_def get_index_status_def)
  let ?status = "status\<lparr>is_status := (if is_total_files status = 0 then Completed else EmbeddingPending)\<rparr>"
  obtain current where current: "get_index_status p db1 = Some current" "is_status current = Indexing"
    "is_structural_generation current = g"
    using cur by (auto simp: run_current_def split: option.splits)
  obtain status' where f: "finalize_index_status_if_current now ?status g db1 = (Inr status', store_index_status status' db1)"
    and st: "is_status status' = is_status ?status" "is_failed_files status' = is_failed_files status"
      "is_indexed_files status' = is_indexed_files status" "is_total_chunks status' = is_total_chunks status"
    using current assms(3)
    by (simp add: finalize_index_status_if_current_def Let_def refresh_lifecycle_states_def mark_semantic_generation_caught_up_def)
  let ?cs' = "if chunk_view p (Some g) db1 = [] then cs else hm_insert p (build_index api (view_pairs_of p (Some g) db1)) cs"
  have r: "rebuild_project_streaming api (db_page p (Some g) db1) p cs = Some (Inr (length (chunk_view p (Some g) db1)), ?cs')"
    using try_rebuild_eq [OF rows, of api p "Some g" cs] by (simp add: try_rebuild_from_storage_def)
  let ?db' = "store_index_status status' db1"
  have stored: "cd_chunks ?db' = cd_chunks db1" "cd_active ?db' = cd_active db1"
    by (simp_all add: store_index_status_def split: prod.split)
  have eq: "finish_full_index api db_page show_error now p status g db cs = Some (Inr status', ?db', ?cs')"
    unfolding finish_full_index_def Let_def rebuild_bm25_and_finalize_index_status_def p(1)
    by (simp only: prod.case sum.case ensure_current [OF cur] r option.case f)
  show ?thesis
    by (rule that [OF eq]) (use st stored p(2) view in \<open>auto simp: chunk_view_def get_active_generation_def view_pairs_of_def\<close>)
qed

section \<open>What a full run publishes\<close>

definition parsed_files :: "staged_env \<Rightarrow> string \<Rightarrow> u64 \<Rightarrow> file_checkpoint_context option \<Rightarrow> string list \<Rightarrow> parsed_file list" where
  "parsed_files env p active ctx files = map (parsed_in_turn env p active ctx) (List.enumerate 0 files)"

lemma parsed_files_upt: "parsed_files env p active ctx files = map (in_turn env p active ctx files) [0..<length files]"
  by (rule nth_equalityI) (simp_all add: nth_enumerate_eq in_turn_def parsed_files_def)

lemma without_id_view:
  "map without_id (chunk_view p x db) =
     filter (\<lambda>c. ck_project_id c = Some p \<and> generation_visible x (ck_generation c)) (map without_id (cd_chunks db))"
  unfolding chunk_view_def by (simp add: filter_map comp_def without_id_def)

lemma staged_run:
  assumes "undisturbed env" "row_writes_succeed env" "inj (ie_gen (sv_index env))" "chunk_ids_ok (ie_gen (sv_index env)) db"
    and "run_current p g db" "is_status status = Indexing" "is_structural_generation status = g" "is_project_id status = p"
  obtains status' db' cs' where
    "run_staged_index_pipeline api db_page show_error env p status g files ctx db cs = Some (Inr status', db', cs')"
    "is_status status' = (if is_total_files status = 0 then Completed else EmbeddingPending)"
    "is_failed_files status' = is_failed_files status @ concat (map file_failures (parsed_files env p g ctx files))"
    "is_indexed_files status' = is_indexed_files status + of_nat (length files)"
    "is_total_chunks status' = is_total_chunks status + of_nat (length (concat (map pf_chunks (parsed_files env p g ctx files))))"
    "get_active_generation p db' = Some g"
    "map without_id (chunk_view p (Some g) db') =
       map without_id (chunk_view p (Some g) db) @ concat (map pf_chunks (parsed_files env p g ctx files))"
    "cs' = (if chunk_view p (Some g) db' = [] then cs else hm_insert p (build_index api (view_pairs_of p (Some g) db')) cs)"
proof -
  let ?gen = "ie_gen (sv_index env)" and ?pfs = "parsed_files env p g ctx files" and ?a = "staged_core_new status db"
  have a: "in_progress ?gen p g ?a" "collected ?a = map without_id (cd_chunks db)"
    using assms(4-8) by (simp_all add: in_progress_def staged_core_new_def collected_def)
  have "\<exists>b. try_each (commit_parsed env p ctx) ?pfs ?a = (Inr (), b) \<and>
      adds ?gen p g (concat (map pf_chunks ?pfs)) (concat (map file_failures ?pfs)) (sum_list (map (\<lambda>pf. 1) ?pfs)) ?a b"
  proof (rule try_each_adds [OF _ a(1)])
    fix pf x assume "pf \<in> set ?pfs" "in_progress ?gen p g x"
    then show "\<exists>b. commit_parsed env p ctx pf x = (Inr (), b) \<and> adds ?gen p g (pf_chunks pf) (file_failures pf) 1 x b"
      by (intro commit_parsed_adds [OF assms(2,3)]) (auto simp: parsed_files_upt in_turn_well_parsed)
  qed
  then obtain b where b: "commit_in_turn env p g ctx files ?a = (Inr (), b)"
    "adds ?gen p g (concat (map pf_chunks ?pfs)) (concat (map file_failures ?pfs)) (length files) ?a b"
    by (auto simp: commit_in_turn_def parsed_files_def [symmetric] sum_list_triv parsed_files_upt [THEN arg_cong [where f = length]])
  obtain d where d: "final_flushes env p g b = (Inr (), d)" "so_chunks d = []" "adds ?gen p g [] [] 0 b d"
    using final_flushes_adds [OF assms(2,3) adds_progress [OF b(2)]] by blast
  from adds_trans [OF b(2) d(3)]
  have all: "adds ?gen p g (concat (map pf_chunks ?pfs)) (concat (map file_failures ?pfs)) (length files) ?a d" by simp
  then have chunks: "map without_id (cd_chunks (so_db d)) = map without_id (cd_chunks db) @ concat (map pf_chunks ?pfs)"
    using a(2) d(2) by (simp add: adds_def collected_def)
  have cur: "run_current p g (so_db d)" and ids: "chunk_ids_ok ?gen (so_db d)" and pid: "is_project_id (so_status d) = p"
    using adds_progress [OF all] by (simp_all add: in_progress_def)
  have st: "is_total_files (so_status d) = is_total_files status" 
    "is_failed_files (so_status d) = is_failed_files status @ concat (map file_failures ?pfs)"
    "is_indexed_files (so_status d) = is_indexed_files status + of_nat (length files)"
    "is_total_chunks (so_status d) = is_total_chunks status + of_nat (length (concat (map pf_chunks ?pfs)))"
    using all by (simp_all add: adds_def staged_core_new_def)
  have "\<forall>c\<in>set (concat (map pf_chunks ?pfs)). ck_project_id c = Some p \<and> ck_generation c = Some g"
    using in_turn_chunks by (fastforce simp: parsed_files_upt list_all_iff)
  then have "map without_id (chunk_view p (Some g) (so_db d)) =
      map without_id (chunk_view p (Some g) db) @ concat (map pf_chunks ?pfs)"
    unfolding without_id_view chunks by (auto simp: generation_visible_def intro!: filter_True)
  moreover obtain status' db' cs' where f:
    "finish_full_index api db_page show_error (ie_now (sv_index env)) p (so_status d) g (so_db d) cs = Some (Inr status', db', cs')"
    "is_status status' = (if is_total_files (so_status d) = 0 then Completed else EmbeddingPending)"
    "is_failed_files status' = is_failed_files (so_status d)" "is_indexed_files status' = is_indexed_files (so_status d)"
    "is_total_chunks status' = is_total_chunks (so_status d)"
    "get_active_generation p db' = Some g" "chunk_view p (Some g) db' = chunk_view p (Some g) (so_db d)"
    "cs' = (if chunk_view p (Some g) db' = [] then cs else hm_insert p (build_index api (view_pairs_of p (Some g) db')) cs)"
    using finish_publishes [OF cur ids_rows_ok [OF assms(3) ids] pid] .
  moreover have "run_staged_index_pipeline api db_page show_error env p status g files ctx db cs = Some (Inr status', db', cs')"
    unfolding run_staged_index_pipeline_def staged_sequential [OF assms(1)] by (simp add: finish_staged_def b(1) d(1) f(1))
  ultimately show ?thesis using that st by simp
qed

text \<open>C31: A full staged run of which no write of rows fails and that is not cancelled succeeds, whatever the
  order of its tasks: it publishes its generation, in which readers see what they saw of it before and then the chunks
  of the scanned files, as reading and parsing each file by itself gives them (none for a file that is done, ignored,
  generated, too long or unreadable), in the order of the scan; the status lists the files that failed and
  counts all files and chunks. The lexical index of the project is rebuilt from everything that is then visible; when
  nothing is visible the rebuild leaves the previous index in place. No index of another project changes.
\<close>

theorem staged_run_publishes_files:
  assumes "undisturbed env" "row_writes_succeed env" "inj (ie_gen (sv_index env))" "chunk_ids_ok (ie_gen (sv_index env)) db"
    and "run_current p g db" "is_status status = Indexing" "is_structural_generation status = g" "is_project_id status = p"
  shows "\<exists>status' db' cs'.
    run_staged_index_pipeline api db_page show_error env p status g files ctx db cs = Some (Inr status', db', cs') \<and>
    is_status status' = (if is_total_files status = 0 then Completed else EmbeddingPending) \<and>
    is_failed_files status' = is_failed_files status @ concat (map file_failures (parsed_files env p g ctx files)) \<and>
    is_indexed_files status' = is_indexed_files status + of_nat (length files) \<and>
    is_total_chunks status' =
      is_total_chunks status + of_nat (length (concat (map pf_chunks (parsed_files env p g ctx files)))) \<and>
    get_active_generation p db' = Some g \<and>
    map without_id (chunk_view p (Some g) db') =
      map without_id (chunk_view p (Some g) db) @ concat (map pf_chunks (parsed_files env p g ctx files)) \<and>
    cs' = (if chunk_view p (Some g) db' = [] then cs else hm_insert p (build_index api (view_pairs_of p (Some g) db')) cs)"
proof -
  obtain status' db' cs' where
    "run_staged_index_pipeline api db_page show_error env p status g files ctx db cs = Some (Inr status', db', cs')"
    "is_status status' = (if is_total_files status = 0 then Completed else EmbeddingPending)"
    "is_failed_files status' = is_failed_files status @ concat (map file_failures (parsed_files env p g ctx files))"
    "is_indexed_files status' = is_indexed_files status + of_nat (length files)"
    "is_total_chunks status' = is_total_chunks status + of_nat (length (concat (map pf_chunks (parsed_files env p g ctx files))))"
    "get_active_generation p db' = Some g"
    "map without_id (chunk_view p (Some g) db') =
       map without_id (chunk_view p (Some g) db) @ concat (map pf_chunks (parsed_files env p g ctx files))"
    "cs' = (if chunk_view p (Some g) db' = [] then cs else hm_insert p (build_index api (view_pairs_of p (Some g) db')) cs)"
    using staged_run [OF assms] .
  then show ?thesis by blast
qed

section \<open>What a resumed run loses\<close>

lemma buffered_chunks:
  "length (so_chunks a) + length cs < sv_commit_batch_size env \<Longrightarrow>
     \<exists>b. try_each (push_chunk env p) cs a = (Inr (), b) \<and> so_db b = so_db a"
proof (induction cs arbitrary: a)
  case (Cons c cs)
  let ?b = "a\<lparr>so_status := (so_status a)\<lparr>is_total_chunks := is_total_chunks (so_status a) + 1\<rparr>, so_chunks := so_chunks a @ [c]\<rparr>"
  have "push_chunk env p c a = (Inr (), ?b)" using Cons.prems by (simp add: push_chunk_def Let_def)
  with Cons.IH [of ?b] Cons.prems show ?case by simp
qed simp

lemma symbols_keep_chunks: "cd_chunks (so_db (snd (try_each (push_symbol env) ss a))) = cd_chunks (so_db a)"
proof (induction ss arbitrary: a)
  case (Cons s ss)
  have step: "cd_chunks (so_db (snd (push_symbol env s a))) = cd_chunks (so_db a)"
    by (auto simp: push_symbol_def flush_staged_symbols_def create_code_symbols_batch_def Let_def split: option.split)
  obtain r b where r: "push_symbol env s a = (r, b)" by fastforce
  show ?case using Cons [of b] step by (cases r) (simp_all add: r)
qed simp

lemma progress_rows:
  "cd_chunks (so_db (progress_write env seq a)) = cd_chunks (so_db a)"
  "cd_checkpoints (so_db (progress_write env seq a)) = cd_checkpoints (so_db a)"
  by (simp_all add: progress_write_def store_index_status_def split: prod.split)

lemma checkpoint_stored:
  assumes "cc_checkpoint_generation c = g" "f \<noteq> []"
  shows "\<exists>k\<in>set (list_file_checkpoints_for_job p g (upsert_file_checkpoint_after_file b3 now (Some c) p f h ph m n db)).
    fc_completed k \<and> fc_relative_file_path k = checkpoint_relative_path f"
proof -
  have "(k, v) \<in> set (hm_insert k v m)" for k v and m :: "(string, file_checkpoint) hmap"
    by (induction m) auto
  moreover have "checkpoint_relative_path f \<noteq> []" using assms(2) by (simp add: checkpoint_relative_path_def)
  ultimately show ?thesis
    using assms(1)
    by (auto simp: list_file_checkpoints_for_job_def upsert_file_checkpoint_after_file_def upsert_file_checkpoint_def
        stored_file_checkpoint_def Let_def intro!: image_eqI bexI)
qed

text \<open>C32: The checkpoint of a file says that it is completed although its chunks may still be in the buffer: when the
  server stops after a file with fewer chunks than a batch, none of its chunks is stored, and the run that is
  resumed with the token for the completed files takes the file for done and contributes no chunk of it.
\<close>

theorem resume_loses_buffered_chunks:
  assumes "commit_parsed env p (Some c) pf a = (Inr (), b)" and "cc_checkpoint_generation c = g" and "pf_path pf \<noteq> []"
    and "pf_error pf = None" "\<not> pf_skipped pf"
    and "so_chunks a = []" "length (pf_chunks pf) < sv_commit_batch_size env"
    and "opts = \<lparr>ro_resume = True, ro_job_id = Some job, ro_resume_token = Some (checkpoint_resume_token Parse
           (length (filter fc_completed (list_file_checkpoints_for_job p g (so_db b)))))\<rparr>" "job \<noteq> []"
  shows "cd_chunks (so_db b) = cd_chunks (so_db a) \<and>
    (\<exists>ctx. prepare_file_checkpoint_context p g opts (so_db b) = Inr (Some ctx) \<and>
       (\<forall>env' k. parsed_in_turn env' p g (Some ctx) (k, pf_path pf) = skipped_file k (pf_path pf)))"
proof -
  let ?a1 = "a\<lparr>so_files_read := so_files_read a + 1\<rparr>"
  define a2 where "a2 = (case pf_hash pf of None \<Rightarrow> ?a1 | Some h \<Rightarrow> push_hash env p (pf_path pf, h) ?a1)"
  have 2: "cd_chunks (so_db a2) = cd_chunks (so_db a)" "so_chunks a2 = []"
    using assms(6) hash_frame [of "so_db a" p]
    by (auto simp: a2_def push_hash_def write_hashes_def same_core_def Let_def split: option.split)
  obtain b3 where b3: "try_each (push_chunk env p) (pf_chunks pf) a2 = (Inr (), b3)" "so_db b3 = so_db a2"
    using buffered_chunks [of a2 "pf_chunks pf" env p] 2 assms(7) by auto
  obtain r b4 where b4: "try_each (push_symbol env) (pf_symbols pf)
      (b3\<lparr>so_index := index_add_batch (so_index b3) (pf_symbols pf)\<rparr>) = (r, b4)" by fastforce
  have 4: "cd_chunks (so_db b4) = cd_chunks (so_db a)"
    using symbols_keep_chunks [of env "pf_symbols pf" "b3\<lparr>so_index := index_add_batch (so_index b3) (pf_symbols pf)\<rparr>"] b3(2) 2 b4
    by simp
  have "commit_rows env p pf a = then_do (r, b4) (\<lambda>st4. (Inr (), st4\<lparr>so_relations := so_relations st4 @ pf_references pf @
      detect_containment_references (ie_files_order (sv_index env)) (pf_symbols pf)\<rparr>))"
    unfolding commit_rows_def Let_def a2_def [symmetric] by (simp add: b3(1) b4)
  then obtain st where rows: "commit_rows env p pf a = (Inr (), st)" "so_db st = so_db b4"
    using assms(1,4,5) by (cases r) (auto simp: commit_parsed_def)
  let ?db = "upsert_file_checkpoint_after_file (ie_blake3 (sv_index env)) (ie_now (sv_index env)) (Some c) p (pf_path pf)
      (pf_hash pf) Parse (of_nat (length (pf_chunks pf))) (of_nat (length (pf_symbols pf))) (so_db b4)"
  have st: "b = progress_write env (pf_seq pf) (checkpoint_file env p (Some c) (pf_path pf) (pf_hash pf)
      (length (pf_chunks pf)) (length (pf_symbols pf)) (file_counted st))"
    using assms(1,4,5) rows(1) by (simp add: commit_parsed_def)
  have "so_db (checkpoint_file env p (Some c) (pf_path pf) (pf_hash pf) (length (pf_chunks pf)) (length (pf_symbols pf))
      (file_counted st)) = ?db"
    by (simp add: checkpoint_file_def file_counted_def rows(2))
  note eq = this
  have b: "cd_chunks (so_db b) = cd_chunks ?db" "cd_checkpoints (so_db b) = cd_checkpoints ?db"
    by (simp_all only: st progress_rows eq)
  have "cd_chunks (so_db b) = cd_chunks (so_db a)"
    by (simp only: b(1) 4 checkpoint_frame [unfolded same_core_def, THEN conjunct1])
  moreover
  obtain k where k: "k \<in> set (list_file_checkpoints_for_job p g (so_db b))" "fc_completed k"
    "fc_relative_file_path k = checkpoint_relative_path (pf_path pf)"
    using checkpoint_stored [OF assms(2,3)] unfolding list_file_checkpoints_for_job_def b(2) by blast
  let ?ks = "list_file_checkpoints_for_job p g (so_db b)"
  let ?ctx = "\<lparr>cc_job = job, cc_checkpoint_generation = g,
      cc_completed_relative_paths = map fc_relative_file_path (filter fc_completed ?ks)\<rparr>"
  have "?ks \<noteq> []" using k(1) by auto
  then have "prepare_file_checkpoint_context p g opts (so_db b) = Inr (Some ?ctx)"
    using assms(8,9) by (simp add: prepare_file_checkpoint_context_def resumed_paths_def Let_def)
  moreover have "parsed_in_turn env' p g (Some ?ctx) (n, pf_path pf) = skipped_file n (pf_path pf)" for env' n
    using k by (auto simp: parsed_in_turn_def checkpoint_done_def image_iff)
  ultimately show ?thesis by blast
qed

section \<open>An example\<close>

text \<open>One file is read, the other cannot be; tasks finish in the order given.\<close>

definition example_staged :: "(nat \<Rightarrow> nat) \<Rightarrow> staged_env" where
  "example_staged order =
     \<lparr>sv_index = example_env (Finished 0), sv_commit_batch_size = 100, sv_max_inflight_files = 64,
      sv_relation_batch_size = 5000, sv_read = (\<lambda>f. if f = ''a.sh'' then Inr ''echo new file'' else Inl ''denied''),
      sv_timeout = (\<lambda>_. False), sv_task_panics = (\<lambda>_. None), sv_chunk_write = (\<lambda>_. None),
      sv_symbol_write = (\<lambda>_. None), sv_hash_write = (\<lambda>_. True), sv_jobs = (\<lambda>_. Some []), sv_flush_due = (\<lambda>_. True),
      sv_join = order\<rparr>"

lemma example_staged_ok:
  "undisturbed (example_staged order)" "row_writes_succeed (example_staged order)"
  "inj (ie_gen (sv_index (example_staged order)))"
  by (simp_all add: undisturbed_def cancel_requested_def row_writes_succeed_def example_staged_def example_env_def inj_dec_of_nat)

lemma example_file_rules:
  "\<not> is_ignored_file ''a.sh''" "\<not> is_ignored_file ''b.sh''" "\<not> is_generated_source_content ''echo new file''"
  "map ck_content (task_chunks (example_env (Finished 0)) ''p'' (Some 2)
     \<lparr>pt_path = ''a.sh'', pt_content = ''echo new file'', pt_hash = ''echo new file''\<rparr>) = [''echo new file'']"
  by code_simp+

lemma example_parsed:
  "concat (map file_failures (parsed_files (example_staged order) ''p'' 2 None [''b.sh'', ''a.sh''])) = [''b.sh'']"
  "map ck_content (concat (map pf_chunks (parsed_files (example_staged order) ''p'' 2 None [''b.sh'', ''a.sh'']))) =
     [''echo new file'']"
proof -
  have "sv_read (example_staged order) ''b.sh'' = Inl ''denied''" "sv_read (example_staged order) ''a.sh'' = Inr ''echo new file''"
    "\<And>f. \<not> sv_timeout (example_staged order) f" "sv_index (example_staged order) = example_env (Finished 0)"
    "ie_panics (example_env (Finished 0)) f = None" "ie_blake3 (example_env (Finished 0)) x = x" for f x
    by (simp_all add: example_staged_def example_env_def)
  note env = this
  have "parsed_in_turn (example_staged order) ''p'' 2 None (0, ''b.sh'') = failed_file 0 ''b.sh'' ''denied''"
    using example_file_rules by (simp add: parsed_in_turn_def checkpoint_done_def read_file_for_staged_def env)
  moreover have "pf_error (parsed_in_turn (example_staged order) ''p'' 2 None (1, ''a.sh'')) = None"
    "map ck_content (pf_chunks (parsed_in_turn (example_staged order) ''p'' 2 None (1, ''a.sh''))) = [''echo new file'']"
    using example_file_rules
    by (simp_all add: parsed_in_turn_def checkpoint_done_def read_file_for_staged_def parse_file_for_staged_def env Let_def)
  ultimately show "concat (map file_failures (parsed_files (example_staged order) ''p'' 2 None [''b.sh'', ''a.sh''])) = [''b.sh'']"
    "map ck_content (concat (map pf_chunks (parsed_files (example_staged order) ''p'' 2 None [''b.sh'', ''a.sh'']))) =
     [''echo new file'']"
    by (simp_all add: parsed_files_def file_failures_def failed_file_def)
qed

definition example_start_db :: code_db where
  "example_start_db = store_index_status (status_of_generation 2) code_db_empty"

lemma example_start:
  "run_current ''p'' 2 example_start_db" "chunk_ids_ok (ie_gen (sv_index (example_staged order))) example_start_db"
  "chunk_view ''p'' x example_start_db = []"
  using stored_status [of "status_of_generation 2" code_db_empty]
  by (simp_all add: example_start_db_def run_current_def update_status_generation status_of_generation_simps chunk_ids_ok_def
      store_index_status_def code_db_empty_def chunk_view_def split: prod.split)

text \<open>Tasks that finish in opposite orders.\<close>

theorem staged_order_irrelevant_witness:
  "run_staged_index_pipeline token_engine db_page (\<lambda>e. []) (example_staged (\<lambda>n. 0)) ''p'' (status_of_generation 2) 2
     [''b.sh'', ''a.sh''] None example_start_db [] =
   finish_staged token_engine db_page (\<lambda>e. []) (example_staged (\<lambda>n. 0)) ''p'' 2 []
     (commit_in_turn (example_staged (\<lambda>n. 0)) ''p'' 2 None [''b.sh'', ''a.sh''] (staged_core_new (status_of_generation 2) example_start_db))"
  by (rule staged_order_irrelevant) (rule example_staged_ok)

theorem staged_run_publishes_files_witness:
  "\<exists>status' db' cs'. run_staged_index_pipeline token_engine db_page (\<lambda>e. []) (example_staged (\<lambda>n. 1)) ''p''
      (status_of_generation 2) 2 [''b.sh'', ''a.sh''] None example_start_db [] = Some (Inr status', db', cs') \<and>
     is_failed_files status' = [''b.sh''] \<and> get_active_generation ''p'' db' = Some 2 \<and>
     map ck_content (chunk_view ''p'' (Some 2) db') = [''echo new file'']"
proof -
  have content: "map ck_content xs = map ck_content (map without_id xs)" for xs
    by (simp add: without_id_def)
  obtain status' db' cs' where
    r: "run_staged_index_pipeline token_engine db_page (\<lambda>e. []) (example_staged (\<lambda>n. 1)) ''p'' (status_of_generation 2) 2
      [''b.sh'', ''a.sh''] None example_start_db [] = Some (Inr status', db', cs')"
    "is_failed_files status' = is_failed_files (status_of_generation 2) @
       concat (map file_failures (parsed_files (example_staged (\<lambda>n. 1)) ''p'' 2 None [''b.sh'', ''a.sh'']))"
    "get_active_generation ''p'' db' = Some 2"
    and v: "map without_id (chunk_view ''p'' (Some 2) db') = map without_id (chunk_view ''p'' (Some 2) example_start_db) @
      concat (map pf_chunks (parsed_files (example_staged (\<lambda>n. 1)) ''p'' 2 None [''b.sh'', ''a.sh'']))"
    using staged_run_publishes_files [OF example_staged_ok [of "\<lambda>n. 1"] example_start(2) example_start(1)
        status_of_generation_simps(2,3,1), of token_engine "\<lambda>e. []" "[''b.sh'', ''a.sh'']" None "[]"] by blast
  have "map ck_content (chunk_view ''p'' (Some 2) db') = [''echo new file'']"
    unfolding content [of "chunk_view ''p'' (Some 2) db'"] v by (simp only: example_start(3) example_parsed list.map append_Nil)
  moreover have "is_failed_files (status_of_generation 2) = []" by (simp add: status_of_generation_def index_status_new_def refresh_lifecycle_states_def)
  ultimately show ?thesis using r by (simp add: example_parsed)
qed

text \<open>One file with one chunk and a batch size of a hundred.\<close>

theorem resume_loses_buffered_chunks_witness:
  "\<exists>b ctx. commit_parsed (example_staged (\<lambda>n. 0)) ''p'' (Some \<lparr>cc_job = ''j'', cc_checkpoint_generation = 2, cc_completed_relative_paths = []\<rparr>)
       ((skipped_file 0 ''a.sh'')\<lparr>pf_skipped := False, pf_chunks := [example_chunk ''k'' ''fn a'' (Some 2)]\<rparr>)
       (staged_core_new (status_of_generation 2) example_start_db) = (Inr (), b) \<and> cd_chunks (so_db b) = [] \<and>
     prepare_file_checkpoint_context ''p'' 2 \<lparr>ro_resume = True, ro_job_id = Some ''j'', ro_resume_token = Some (checkpoint_resume_token Parse
       (length (filter fc_completed (list_file_checkpoints_for_job ''p'' 2 (so_db b)))))\<rparr> (so_db b) = Inr (Some ctx) \<and>
     pf_chunks (parsed_in_turn (example_staged (\<lambda>n. 0)) ''p'' 2 (Some ctx) (0, ''a.sh'')) = []"
proof -
  let ?pf = "(skipped_file 0 ''a.sh'')\<lparr>pf_skipped := False, pf_chunks := [example_chunk ''k'' ''fn a'' (Some 2)]\<rparr>"
  let ?c = "\<lparr>cc_job = ''j'', cc_checkpoint_generation = 2, cc_completed_relative_paths = []\<rparr>"
  let ?a = "staged_core_new (status_of_generation 2) example_start_db"
  have "\<exists>b. commit_parsed (example_staged (\<lambda>n. 0)) ''p'' (Some ?c) ?pf ?a = (Inr (), b)"
    by (simp add: commit_parsed_def commit_rows_def skipped_file_def push_chunk_def staged_core_new_def example_staged_def Let_def)
  then obtain b where b: "commit_parsed (example_staged (\<lambda>n. 0)) ''p'' (Some ?c) ?pf ?a = (Inr (), b)" by blast
  have pre: "pf_path ?pf = ''a.sh''" "pf_error ?pf = None" "\<not> pf_skipped ?pf" "so_chunks ?a = []" "pf_seq ?pf = 0"
    "length (pf_chunks ?pf) < sv_commit_batch_size (example_staged (\<lambda>n. 0))" "cd_chunks (so_db ?a) = []"
    by (simp_all add: skipped_file_def staged_core_new_def example_staged_def example_start_db_def store_index_status_def
        code_db_empty_def split: prod.split)
  from resume_loses_buffered_chunks [OF b _ _ pre(2,3,4,6) refl, of 2 "''j''"] pre b show ?thesis
    by (auto simp: skipped_file_def)
qed

end
