(* ===== verification/LegacyIndex.thy ===== *)
theory LegacyIndex
  imports StagedPublish
begin

text \<open>
  The pipeline of a full indexing run that is the default, \<open>run_legacy_index_pipeline\<close> of
  \<open>src/codebase/indexer.rs\<close>, and \<open>do_index_project\<close>, which starts either pipeline. Results are committed in the
  order in which the tasks finish. The environment and the state of commits are those of the staged pipeline;
  the order of the tasks and the waits that time out are those of \<open>index_env\<close>.
\<close>

section \<open>Committing a finished task\<close>

definition LEGACY_BATCH_SIZE :: nat where
  "LEGACY_BATCH_SIZE = 100"

definition HASH_FLUSH_SIZE :: nat where
  "HASH_FLUSH_SIZE = 50"

definition write_chunk_batch ::
  "staged_env \<Rightarrow> string \<Rightarrow> code_chunk list \<Rightarrow> staged_core \<Rightarrow> unit app_result \<times> staged_core" where
  "write_chunk_batch env failure batch st =
     (let st1 = st\<lparr>so_chunk_flushes := Suc (so_chunk_flushes st)\<rparr> in
      case sv_chunk_write env (so_chunk_flushes st) of
        Some e \<Rightarrow> (Inl (Internal (failure @ '': '' @ e)), st1)
      | None \<Rightarrow>
          (case create_code_chunks_batch (ie_gen (sv_index env)) batch (so_db st) of
             (results, db1) \<Rightarrow>
               (Inr (), st1\<lparr>so_db := db1, so_chunks_written := so_chunks_written st + length batch,
                            so_embeddings_enqueued := so_embeddings_enqueued st + length results\<rparr>)))"

definition write_symbol_batch :: "staged_env \<Rightarrow> code_symbol list \<Rightarrow> staged_core \<Rightarrow> unit app_result \<times> staged_core" where
  "write_symbol_batch env batch st =
     (let st1 = st\<lparr>so_symbol_flushes := Suc (so_symbol_flushes st)\<rparr> in
      case sv_symbol_write env (so_symbol_flushes st) of
        Some e \<Rightarrow> (Inl e, st1)
      | None \<Rightarrow>
          (case create_code_symbols_batch (ie_hasher (sv_index env)) (ie_now (sv_index env)) batch (so_db st) of
             (ids, db1) \<Rightarrow>
               (Inr (), st1\<lparr>so_db := db1, so_symbols_written := so_symbols_written st + length batch,
                            so_embeddings_enqueued := so_embeddings_enqueued st + length ids\<rparr>)))"

definition legacy_push_chunk :: "staged_env \<Rightarrow> string \<Rightarrow> code_chunk \<Rightarrow> staged_core \<Rightarrow> unit app_result \<times> staged_core" where
  "legacy_push_chunk env f c st =
     (let buffer = so_chunks st @ [c];
          st1 = st\<lparr>so_status := (so_status st)\<lparr>is_total_chunks := is_total_chunks (so_status st) + 1\<rparr>\<rparr>
      in if length buffer \<ge> LEGACY_BATCH_SIZE
         then write_chunk_batch env (''failed to persist code chunks for '' @ f) buffer (st1\<lparr>so_chunks := []\<rparr>)
         else (Inr (), st1\<lparr>so_chunks := buffer\<rparr>))"

text \<open>A batch of symbols that is refused is logged and dropped.\<close>

definition legacy_push_symbol :: "staged_env \<Rightarrow> code_symbol \<Rightarrow> staged_core \<Rightarrow> staged_core" where
  "legacy_push_symbol env s st =
     (let buffer = so_symbols st @ [s];
          st1 = st\<lparr>so_status := (so_status st)\<lparr>is_total_symbols := is_total_symbols (so_status st) + 1\<rparr>\<rparr>
      in if length buffer \<ge> LEGACY_BATCH_SIZE then snd (write_symbol_batch env buffer (st1\<lparr>so_symbols := []\<rparr>))
         else st1\<lparr>so_symbols := buffer\<rparr>)"

definition legacy_progress :: "staged_core \<Rightarrow> staged_core" where
  "legacy_progress st =
     (if is_indexed_files (so_status st) mod 10 = 0 then st\<lparr>so_db := store_index_status (so_status st) (so_db st)\<rparr> else st)"

text \<open>The macro \<open>drain_one_parse\<close>.\<close>

definition drain_one_parse ::
  "staged_env \<Rightarrow> string \<Rightarrow> u64 \<Rightarrow> file_checkpoint_context option \<Rightarrow> parse_task \<Rightarrow> staged_core \<Rightarrow> unit app_result \<times> staged_core" where
  "drain_one_parse env p active ctx t st =
     (case ie_panics (sv_index env) (pt_path t) of
        Some e \<Rightarrow> (Inl (Internal (''parse/chunk panicked: '' @ e)), st)
      | None \<Rightarrow>
          (let chunks = task_chunks (sv_index env) p (Some active) t;
               symbols = task_symbols (sv_index env) p (Some active) t
           in then_do (try_each (legacy_push_chunk env (pt_path t)) chunks st)
                (\<lambda>st1.
                   (let st2 = fold (legacy_push_symbol env) symbols (st1\<lparr>so_index := index_add_batch (so_index st1) symbols\<rparr>);
                        st3 = st2\<lparr>so_relations := so_relations st2 @ task_references (sv_index env) p t @
                                    detect_containment_references (ie_files_order (sv_index env)) symbols\<rparr>
                    in (Inr (), legacy_progress
                          (checkpoint_file env p ctx (pt_path t) None (length chunks) (length symbols) (file_counted st3)))))))"

section \<open>The loop over the files\<close>

definition file_done :: "staged_env \<Rightarrow> string \<Rightarrow> file_checkpoint_context option \<Rightarrow> string \<Rightarrow> staged_core \<Rightarrow> staged_core" where
  "file_done env p ctx f st = checkpoint_file env p ctx f None 0 0 (file_counted st)"

definition file_failed :: "staged_env \<Rightarrow> string \<Rightarrow> file_checkpoint_context option \<Rightarrow> string \<Rightarrow> staged_core \<Rightarrow> staged_core" where
  "file_failed env p ctx f st =
     file_done env p ctx f
       (st\<lparr>so_status := (so_status st)\<lparr>is_failed_files := is_failed_files (so_status st) @ [f]\<rparr>\<rparr>)"

definition legacy_push_hash :: "staged_env \<Rightarrow> string \<Rightarrow> string \<times> string \<Rightarrow> staged_core \<Rightarrow> staged_core" where
  "legacy_push_hash env p entry st =
     (let st1 = st\<lparr>so_hashes := so_hashes st @ [entry], so_files_read := so_files_read st + 1\<rparr> in
      if length (so_hashes st1) \<ge> HASH_FLUSH_SIZE then write_hashes env p (so_hashes st1) (st1\<lparr>so_hashes := []\<rparr>) else st1)"

text \<open>Starting the task of a file, which may first have to wait; when the wait times out, the file is given up.\<close>

definition legacy_start_task ::
  "staged_env \<Rightarrow> string \<Rightarrow> u64 \<Rightarrow> file_checkpoint_context option \<Rightarrow> parse_task \<Rightarrow> staged_core \<times> parse_set \<Rightarrow>
     unit app_result \<times> staged_core \<times> parse_set" where
  "legacy_start_task env p active ctx task = (\<lambda>(st, ps).
     (let n = length (ps_tasks ps)
      in if n \<ge> effective_parse_workers (sv_index env) then
           (case ie_join (sv_index env) (ps_joins ps) of
              Finished k \<Rightarrow>
                (let i = k mod n;
                     ps1 = \<lparr>ps_tasks = remove_nth i (ps_tasks ps), ps_joins = Suc (ps_joins ps)\<rparr>
                 in case drain_one_parse env p active ctx (ps_tasks ps ! i) st of
                      (Inl e, st2) \<Rightarrow> (Inl e, st2, ps1)
                    | (Inr u, st2) \<Rightarrow> (Inr (), st2, ps1\<lparr>ps_tasks := ps_tasks ps1 @ [task]\<rparr>))
            | TimedOut \<Rightarrow> (Inr (), file_failed env p ctx (pt_path task) st, ps\<lparr>ps_joins := Suc (ps_joins ps)\<rparr>))
         else (Inr (), st, ps\<lparr>ps_tasks := ps_tasks ps @ [task]\<rparr>)))"

definition process_legacy_file ::
  "staged_env \<Rightarrow> string \<Rightarrow> u64 \<Rightarrow> file_checkpoint_context option \<Rightarrow> string \<Rightarrow> staged_core \<times> parse_set \<Rightarrow>
     unit app_result \<times> staged_core \<times> parse_set" where
  "process_legacy_file env p active ctx f = (\<lambda>(st, ps).
     (if checkpoint_done ctx f then (Inr (), file_counted st, ps)
      else if is_ignored_file f then (Inr (), file_done env p ctx f st, ps)
      else
        (case sv_read env f of
           Inl e \<Rightarrow> (Inr (), file_failed env p ctx f st, ps)
         | Inr content \<Rightarrow>
             if is_generated_source_content content then (Inr (), file_done env p ctx f st, ps)
             else if length content > 1000000 then (Inr (), file_failed env p ctx f st, ps)
             else
               (let file_hash = ie_blake3 (sv_index env) content in
                legacy_start_task env p active ctx \<lparr>pt_path = f, pt_content = content, pt_hash = file_hash\<rparr>
                  (legacy_push_hash env p (f, file_hash) st, ps)))))"

text \<open>The final drain.\<close>

definition drain_timed_out :: "staged_core \<Rightarrow> staged_core" where
  "drain_timed_out st =
     st\<lparr>so_status := (so_status st)\<lparr>is_failed_files := is_failed_files (so_status st) @
          [''parse_timeout_'' @ dec_of_nat PARSE_TIMEOUT_SECS @ ''s'']\<rparr>\<rparr>"

function legacy_final_drain ::
  "staged_env \<Rightarrow> string \<Rightarrow> u64 \<Rightarrow> file_checkpoint_context option \<Rightarrow> nat \<Rightarrow> nat \<Rightarrow> parse_task list \<Rightarrow> staged_core \<Rightarrow>
     unit app_result \<times> staged_core" where
  "legacy_final_drain env p active ctx consecutive joins tasks st =
     (if tasks = [] then (Inr (), st)
      else
        (let n = length tasks in
         case ie_join (sv_index env) joins of
           Finished k \<Rightarrow>
             (case drain_one_parse env p active ctx (tasks ! (k mod n)) st of
                (Inl e, st1) \<Rightarrow> (Inl e, st1)
              | (Inr u, st1) \<Rightarrow> legacy_final_drain env p active ctx 0 (Suc joins) (remove_nth (k mod n) tasks) st1)
         | TimedOut \<Rightarrow>
             (let st0 = drain_timed_out st in
              case ie_try_join (sv_index env) joins of
                Some k \<Rightarrow>
                  (case drain_one_parse env p active ctx (tasks ! (k mod n)) st0 of
                     (Inl e, st1) \<Rightarrow> (Inl e, st1)
                   | (Inr u, st1) \<Rightarrow> legacy_final_drain env p active ctx 0 (Suc joins) (remove_nth (k mod n) tasks) st1)
              | None \<Rightarrow>
                  if consecutive + 1 > n then (Inr (), st0)
                  else legacy_final_drain env p active ctx (consecutive + 1) (Suc joins) tasks st0)))"
  by pat_completeness auto

termination legacy_final_drain
  by (relation "(\<lambda>(env, p, active, ctx, consecutive, joins, tasks, st). length tasks) <*mlex*>
       measure (\<lambda>(env, p, active, ctx, consecutive, joins, tasks, st). Suc (length tasks) - consecutive)")
    (auto simp: mlex_leq mlex_less wf_mlex remove_nth_shorter)

declare legacy_final_drain.simps [simp del]

definition legacy_files ::
  "staged_env \<Rightarrow> string \<Rightarrow> u64 \<Rightarrow> file_checkpoint_context option \<Rightarrow> string list \<Rightarrow> staged_core \<Rightarrow> unit app_result \<times> staged_core" where
  "legacy_files env p active ctx files st =
     (case try_each (process_legacy_file env p active ctx) files (st, \<lparr>ps_tasks = [], ps_joins = 0\<rparr>) of
        (Inl e, st1, ps) \<Rightarrow> (Inl e, st1)
      | (Inr u, st1, ps) \<Rightarrow> legacy_final_drain env p active ctx 0 (ps_joins ps) (ps_tasks ps) st1)"

definition legacy_final_flushes :: "staged_env \<Rightarrow> string \<Rightarrow> u64 \<Rightarrow> staged_core \<Rightarrow> unit app_result \<times> staged_core" where
  "legacy_final_flushes env p active st =
     (let st1 = (if so_hashes st = [] then st else write_hashes env p (so_hashes st) st) in
      then_do (if so_chunks st1 = [] then (Inr (), st1)
               else write_chunk_batch env (''failed to persist final code chunk batch for project '' @ p) (so_chunks st1)
                      (st1\<lparr>so_chunks := []\<rparr>))
        (\<lambda>st2. then_do (if so_symbols st2 = [] then (Inr (), st2)
                         else write_symbol_batch env (so_symbols st2) (st2\<lparr>so_symbols := []\<rparr>))
           (\<lambda>st3. (Inr (), snd (flush_staged_relations env p active st3)))))"

definition run_legacy_index_pipeline ::
  "'e bm25_api \<Rightarrow> (string \<Rightarrow> u64 option \<Rightarrow> code_db \<Rightarrow> nat \<Rightarrow> code_chunk list app_result) \<Rightarrow> (app_error \<Rightarrow> string) \<Rightarrow>
     staged_env \<Rightarrow> string \<Rightarrow> index_status \<Rightarrow> u64 \<Rightarrow> string list \<Rightarrow> file_checkpoint_context option \<Rightarrow> code_db \<Rightarrow>
     'e code_engine \<Rightarrow> (index_status app_result \<times> code_db \<times> 'e code_engine) option" where
  "run_legacy_index_pipeline api page show_error env p status active files ctx db cs =
     (case then_do (legacy_files env p active ctx files (staged_core_new status db)) (legacy_final_flushes env p active) of
        (Inl e, st) \<Rightarrow> Some (Inl e, so_db st, cs)
      | (Inr u, st) \<Rightarrow>
          finish_full_index api page show_error (ie_now (sv_index env)) p (so_status st) active (so_db st) cs)"

section \<open>A full run\<close>

datatype pipeline_mode = Legacy_mode | Staged_mode

text \<open>\<open>scan\<close> is the walk over the project with the compiled filter; \<open>job\<close> the stored job that is resumed.\<close>

definition started_status ::
  "index_resume_options \<Rightarrow> string \<Rightarrow> code_db \<Rightarrow> index_status \<Rightarrow> index_status" where
  "started_status opts p db s =
     (if ro_resume opts then
        (case ro_job_id opts of
           None \<Rightarrow> s
         | Some i \<Rightarrow> (case get_index_job p i db of None \<Rightarrow> s | Some j \<Rightarrow> s\<lparr>is_structural_generation := j_target_generation j\<rparr>))
      else s)"

definition do_index_project ::
  "'e bm25_api \<Rightarrow> (string \<Rightarrow> u64 option \<Rightarrow> code_db \<Rightarrow> nat \<Rightarrow> code_chunk list app_result) \<Rightarrow> (app_error \<Rightarrow> string) \<Rightarrow>
     staged_env \<Rightarrow> pipeline_mode \<Rightarrow> string \<Rightarrow> string \<Rightarrow> (string + 'f) \<Rightarrow> string list \<Rightarrow> string list \<Rightarrow>
     ('f \<Rightarrow> string list app_result) \<Rightarrow> index_resume_options \<Rightarrow> code_db \<Rightarrow> 'e code_engine \<Rightarrow>
     (index_status app_result \<times> code_db \<times> 'e code_engine) option" where
  "do_index_project api page show_error env mode root_text p compiled incl excl scan opts db cs =
     (case compiled of
        Inl e \<Rightarrow> Some (Inl (Indexing_error (''invalid_filter: '' @ e)), db, cs)
      | Inr compiled_filter \<Rightarrow>
          (let now = ie_now (sv_index env);
               status = started_status opts p db
                 (prepare_started_index_status now p root_text (get_index_status p db) incl excl);
               active = is_structural_generation status
           in case prepare_file_checkpoint_context p active opts db of
                Inl e \<Rightarrow> Some (Inl e, db, cs)
              | Inr ctx \<Rightarrow>
                  (let db1 = set_indexing_generation p (Some active) (store_index_status status db) in
                   case scan compiled_filter of
                     Inl e \<Rightarrow> Some (Inl e, db1, cs)
                   | Inr files \<Rightarrow>
                       (let status1 = status\<lparr>is_total_files := of_nat (length files)\<rparr>;
                            db2 = store_index_status status1 db1
                        in case mode of
                             Legacy_mode \<Rightarrow> run_legacy_index_pipeline api page show_error env p status1 active files ctx db2 cs
                           | Staged_mode \<Rightarrow> run_staged_index_pipeline api page show_error env p status1 active files ctx db2 cs))))"

text \<open>A failed run is recorded in the status, with the file that was current, unless the error says that the run is superseded.\<close>

definition record_index_failure ::
  "(app_error \<Rightarrow> string) \<Rightarrow> datetime \<Rightarrow> datetime \<Rightarrow> string \<Rightarrow> string option \<Rightarrow> app_error \<Rightarrow> code_db \<Rightarrow> code_db" where
  "record_index_failure show_error now default_time p current_file e db =
     (if is_non_destructive_index_error e then db
      else
        (let status = (case get_index_status p db of Some s \<Rightarrow> s | None \<Rightarrow> index_status_new now p);
             status1 = (case current_file of
                Some f \<Rightarrow>
                  if f = [] then status\<lparr>is_error_message := Some (show_error e)\<rparr>
                  else status\<lparr>is_failed_files := is_failed_files status @ [f],
                              is_error_message := Some (show_error e @ '': Failed at file '' @ f)\<rparr>
              | None \<Rightarrow> status\<lparr>is_error_message := Some (show_error e)\<rparr>)
         in store_index_status (status1\<lparr>is_status := Failed, is_completed_at := Some default_time\<rparr>) db))"

section \<open>What a finished task adds\<close>

lemma write_chunk_batch_adds:
  assumes "row_writes_succeed env" "inj (ie_gen (sv_index env))" "in_progress (ie_gen (sv_index env)) p g (a\<lparr>so_chunks := batch\<rparr>)"
  shows "\<exists>b. write_chunk_batch env failure batch (a\<lparr>so_chunks := []\<rparr>) = (Inr (), b) \<and> so_chunks b = [] \<and>
    adds (ie_gen (sv_index env)) p g [] [] 0 (a\<lparr>so_chunks := batch\<rparr>) b"
proof -
  have none: "list_all (\<lambda>c. ck_id c = None) batch" and ids: "chunk_ids_ok (ie_gen (sv_index env)) (so_db a)"
    using assms(3) by (simp_all add: in_progress_def)
  obtain results db1 where c: "create_code_chunks_batch (ie_gen (sv_index env)) batch (so_db a) = (results, db1)" by fastforce
  from batch_chunks [OF none assms(2) ids] c
  have "map without_id (cd_chunks db1) = map without_id (cd_chunks (so_db a)) @ batch" "cd_status db1 = cd_status (so_db a)"
    "chunk_ids_ok (ie_gen (sv_index env)) db1" by simp_all
  with c assms(1,3) show ?thesis
    by (simp add: write_chunk_batch_def row_writes_succeed_def adds_def in_progress_def collected_def run_current_def
        get_index_status_def Let_def)
qed

lemma legacy_push_chunk_adds:
  assumes "row_writes_succeed env" "inj (ie_gen (sv_index env))" "in_progress (ie_gen (sv_index env)) p g a" "ck_id c = None"
  shows "\<exists>b. legacy_push_chunk env f c a = (Inr (), b) \<and> adds (ie_gen (sv_index env)) p g [c] [] 0 a b"
proof -
  let ?gen = "ie_gen (sv_index env)"
  let ?a1 = "a\<lparr>so_status := (so_status a)\<lparr>is_total_chunks := is_total_chunks (so_status a) + 1\<rparr>\<rparr>"
  let ?a2 = "?a1\<lparr>so_chunks := so_chunks a @ [c]\<rparr>"
  have more: "adds ?gen p g [c] [] 0 a ?a2" using assms(3,4) by (simp add: adds_def in_progress_def collected_def)
  show ?thesis
  proof (cases "length (so_chunks a @ [c]) \<ge> LEGACY_BATCH_SIZE")
    case True
    obtain b where "write_chunk_batch env (''failed to persist code chunks for '' @ f) (so_chunks a @ [c]) (?a1\<lparr>so_chunks := []\<rparr>) =
        (Inr (), b)" "adds ?gen p g [] [] 0 ?a2 b"
      using write_chunk_batch_adds [OF assms(1,2) adds_progress [OF more]] by blast
    with True adds_trans [OF more, of "[]" "[]" 0 b] show ?thesis by (simp add: legacy_push_chunk_def Let_def)
  qed (use more in \<open>simp add: legacy_push_chunk_def Let_def\<close>)
qed

lemma write_symbol_batch_frame:
  "same_core (so_db a) (so_db (snd (write_symbol_batch env batch a))) \<and>
   so_chunks (snd (write_symbol_batch env batch a)) = so_chunks a \<and> so_status (snd (write_symbol_batch env batch a)) = so_status a"
proof -
  obtain ids db1 where c: "create_code_symbols_batch (ie_hasher (sv_index env)) (ie_now (sv_index env)) batch (so_db a) = (ids, db1)"
    by fastforce
  have "same_core (so_db a) db1"
    using symbols_batch_same [of "so_db a" "ie_hasher (sv_index env)" "ie_now (sv_index env)" batch] c
    by (simp add: same_core_of_chunks)
  with c show ?thesis by (simp add: write_symbol_batch_def Let_def split: option.split) (simp add: same_core_def)
qed

lemma legacy_push_symbol_adds:
  assumes "in_progress gen p g a"
  shows "adds gen p g [] [] 0 a (legacy_push_symbol env s a)"
proof -
  let ?a1 = "a\<lparr>so_status := (so_status a)\<lparr>is_total_symbols := is_total_symbols (so_status a) + 1\<rparr>, so_symbols := []\<rparr>"
  have more: "adds gen p g [] [] 0 a (?a1\<lparr>so_symbols := xs\<rparr>)" for xs
    using assms by (simp add: adds_def in_progress_def collected_def)
  let ?b = "snd (write_symbol_batch env (so_symbols a @ [s]) ?a1)"
  have "in_progress gen p g ?a1" using adds_progress [OF more [of "[]"]] by simp
  from adds_frame [OF this] write_symbol_batch_frame [of ?a1 env "so_symbols a @ [s]"]
  have "adds gen p g [] [] 0 ?a1 ?b" by blast
  from adds_trans [OF more [of "[]"], of "[]" "[]" 0 ?b] this have "adds gen p g [] [] 0 a ?b" by simp
  with more [of "so_symbols a @ [s]"] show ?thesis by (simp add: legacy_push_symbol_def Let_def)
qed

lemma legacy_symbols_adds:
  "in_progress gen p g a \<Longrightarrow> adds gen p g [] [] 0 a (fold (legacy_push_symbol env) ss a)"
proof (induction ss arbitrary: a)
  case (Cons s ss)
  note 1 = legacy_push_symbol_adds [OF Cons.prems, of env s]
  from adds_trans [OF 1 Cons.IH [OF adds_progress [OF 1]]] show ?case by simp
qed (simp add: adds_refl)

lemma legacy_progress_adds: "in_progress gen p g a \<Longrightarrow> adds gen p g [] [] 0 a (legacy_progress a)"
  using indexing_status_current [of "so_status a" p "so_db a"]
  by (auto simp: legacy_progress_def adds_def in_progress_def collected_def store_index_status_def chunk_ids_ok_def
      split: prod.split)

lemma file_done_adds: "in_progress gen p g a \<Longrightarrow> adds gen p g [] [] 1 a (file_done env p ctx f a)"
proof -
  assume "in_progress gen p g a"
  note c = counted_adds [OF this]
  from adds_trans [OF c checkpoint_adds [OF adds_progress [OF c], of env ctx f None 0 0]] show ?thesis
    by (simp add: file_done_def)
qed

lemma file_failed_adds: "in_progress gen p g a \<Longrightarrow> adds gen p g [] [f] 1 a (file_failed env p ctx f a)"
proof -
  assume "in_progress gen p g a"
  note c = failed_adds [OF this, of f]
  from adds_trans [OF c file_done_adds [OF adds_progress [OF c], of env ctx f]] show ?thesis
    by (simp add: file_failed_def)
qed

lemma legacy_push_hash_adds: "in_progress gen p g a \<Longrightarrow> adds gen p g [] [] 0 a (legacy_push_hash env p e a)"
proof -
  assume "in_progress gen p g a"
  then have r: "adds gen p g [] [] 0 a (a\<lparr>so_hashes := hs, so_files_read := so_files_read a + 1\<rparr>)" for hs
    by (simp add: adds_def in_progress_def collected_def)
  from \<open>in_progress gen p g a\<close> have r': "adds gen p g [] [] 0 a (a\<lparr>so_files_read := so_files_read a + 1, so_hashes := []\<rparr>)"
    by (simp add: adds_def in_progress_def collected_def)
  from adds_trans [OF r' write_hashes_adds [OF adds_progress [OF r'], of env "so_hashes a @ [e]"]]
    r [of "so_hashes a @ [e]"]
  show ?thesis by (simp add: legacy_push_hash_def Let_def)
qed

lemma drain_one_parse_adds:
  assumes "row_writes_succeed env" "inj (ie_gen (sv_index env))" "in_progress (ie_gen (sv_index env)) p g a"
    and "ie_panics (sv_index env) (pt_path t) = None"
  shows "\<exists>b. drain_one_parse env p g ctx t a = (Inr (), b) \<and>
    adds (ie_gen (sv_index env)) p g (task_chunks (sv_index env) p (Some g) t) [] 1 a b"
proof -
  let ?gen = "ie_gen (sv_index env)" and ?cs = "task_chunks (sv_index env) p (Some g) t"
    and ?ss = "task_symbols (sv_index env) p (Some g) t"
  obtain b1 where 1: "try_each (legacy_push_chunk env (pt_path t)) ?cs a = (Inr (), b1)"
    "adds ?gen p g (concat (map (\<lambda>c. [c]) ?cs)) [] 0 a b1"
  proof (rule try_each_rows [OF assms(3)])
    fix c x assume "c \<in> set ?cs" "in_progress ?gen p g x"
    then show "\<exists>b. legacy_push_chunk env (pt_path t) c x = (Inr (), b) \<and> adds ?gen p g [c] [] 0 x b"
      using task_chunks_ok [of p t "sv_index env" "Some g"] by (intro legacy_push_chunk_adds [OF assms(1,2)]) (auto simp: list_all_iff)
  qed
  have a1: "adds ?gen p g ?cs [] 0 a (b1\<lparr>so_index := index_add_batch (so_index b1) ?ss\<rparr>)"
    using 1(2) by (simp add: adds_def in_progress_def collected_def)
  define b2 where "b2 = fold (legacy_push_symbol env) ?ss (b1\<lparr>so_index := index_add_batch (so_index b1) ?ss\<rparr>)"
  have a2: "adds ?gen p g ?cs [] 0 a b2"
    using adds_trans [OF a1 legacy_symbols_adds [OF adds_progress [OF a1], of env ?ss]] by (simp add: b2_def)
  define b3 where "b3 = b2\<lparr>so_relations := so_relations b2 @ task_references (sv_index env) p t @
      detect_containment_references (ie_files_order (sv_index env)) ?ss\<rparr>"
  have a3: "adds ?gen p g ?cs [] 0 a b3" using a2 by (simp add: b3_def adds_def in_progress_def collected_def)
  define b4 where "b4 = checkpoint_file env p ctx (pt_path t) None (length ?cs) (length ?ss) (file_counted b3)"
  have a4: "adds ?gen p g ?cs [] 1 a b4"
    using adds_trans [OF adds_trans [OF a3 counted_adds [OF adds_progress [OF a3]]]
        checkpoint_adds [OF adds_progress [OF counted_adds [OF adds_progress [OF a3]]]]]
    by (simp add: b4_def)
  have "adds ?gen p g ?cs [] 1 a (legacy_progress b4)"
    using adds_trans [OF a4 legacy_progress_adds [OF adds_progress [OF a4]]] by simp
  moreover have "drain_one_parse env p g ctx t a = (Inr (), legacy_progress b4)"
    unfolding drain_one_parse_def assms(4) Let_def by (simp add: 1(1) b2_def b3_def b4_def)
  ultimately show ?thesis by blast
qed

section \<open>What a run without timeouts collects\<close>

text \<open>The task of a file, or none, and whether the file is listed as failed.\<close>

definition legacy_task :: "staged_env \<Rightarrow> file_checkpoint_context option \<Rightarrow> string \<Rightarrow> parse_task option" where
  "legacy_task env ctx f =
     (if checkpoint_done ctx f \<or> is_ignored_file f then None
      else (case sv_read env f of Inl e \<Rightarrow> None
            | Inr content \<Rightarrow> if is_generated_source_content content \<or> length content > 1000000 then None
                else Some \<lparr>pt_path = f, pt_content = content, pt_hash = ie_blake3 (sv_index env) content\<rparr>))"

definition legacy_failures :: "staged_env \<Rightarrow> file_checkpoint_context option \<Rightarrow> string \<Rightarrow> string list" where
  "legacy_failures env ctx f =
     (if checkpoint_done ctx f \<or> is_ignored_file f then []
      else (case sv_read env f of Inl e \<Rightarrow> [f]
            | Inr content \<Rightarrow> if \<not> is_generated_source_content content \<and> length content > 1000000 then [f] else []))"

definition smooth_run :: "staged_env \<Rightarrow> bool" where
  "smooth_run env \<longleftrightarrow> prompt (sv_index env) \<and> (\<forall>f. ie_panics (sv_index env) f = None)"

text \<open>Chunks of the tasks in flight count as collected, in some order.\<close>

definition gathered :: "staged_env \<Rightarrow> string \<Rightarrow> u64 \<Rightarrow> parse_task list \<Rightarrow> staged_core \<Rightarrow> code_chunk multiset" where
  "gathered env p g tasks st = mset (collected st) + mset (concat (map (task_chunks (sv_index env) p (Some g)) tasks))"

definition legacy_inv ::
  "staged_env \<Rightarrow> string \<Rightarrow> u64 \<Rightarrow> code_chunk multiset \<Rightarrow> string list \<Rightarrow> u32 \<Rightarrow> u32 \<Rightarrow> parse_task list \<Rightarrow> staged_core \<Rightarrow> bool" where
  "legacy_inv env p g M failed n total_files tasks st \<longleftrightarrow>
     in_progress (ie_gen (sv_index env)) p g st \<and> gathered env p g tasks st = M \<and>
     is_failed_files (so_status st) = failed \<and> is_indexed_files (so_status st) + of_nat (length tasks) = n \<and>
     is_total_files (so_status st) = total_files"

lemma legacy_inv_adds:
  assumes "legacy_inv env p g M failed n tf tasks a" "adds (ie_gen (sv_index env)) p g [] fs m a b"
  shows "legacy_inv env p g M (failed @ fs) (n + of_nat m) tf tasks b"
  using assms by (auto simp: legacy_inv_def adds_def gathered_def)

lemma legacy_inv_drain:
  assumes "row_writes_succeed env" "inj (ie_gen (sv_index env))" "smooth_run env"
    and "legacy_inv env p g M failed n tf tasks a" "i < length tasks"
  shows "\<exists>b. drain_one_parse env p g ctx (tasks ! i) a = (Inr (), b) \<and> legacy_inv env p g M failed n tf (remove_nth i tasks) b"
proof -
  have "in_progress (ie_gen (sv_index env)) p g a" using assms(4) by (simp add: legacy_inv_def)
  then obtain b where b: "drain_one_parse env p g ctx (tasks ! i) a = (Inr (), b)"
    "adds (ie_gen (sv_index env)) p g (task_chunks (sv_index env) p (Some g) (tasks ! i)) [] 1 a b"
    using drain_one_parse_adds [OF assms(1,2)] assms(3) unfolding smooth_run_def by blast
  obtain us t vs where ts: "tasks = us @ t # vs" "remove_nth i tasks = us @ vs" "tasks ! i = t"
    using task_split [OF assms(5)] by metis
  have "legacy_inv env p g M failed n tf (us @ vs) b"
    using assms(4) b(2) unfolding ts(3) by (simp add: ts(1) legacy_inv_def adds_def gathered_def ac_simps)
  with b(1) ts(2) show ?thesis by auto
qed

lemma legacy_step_inv:
  assumes "row_writes_succeed env" "inj (ie_gen (sv_index env))" "smooth_run env"
    and inv: "legacy_inv env p g M failed n tf (ps_tasks ps) a"
  shows "\<exists>b ps'. process_legacy_file env p g ctx f (a, ps) = (Inr (), b, ps') \<and>
    legacy_inv env p g
      (M + (case legacy_task env ctx f of None \<Rightarrow> {#} | Some t \<Rightarrow> mset (task_chunks (sv_index env) p (Some g) t)))
      (failed @ legacy_failures env ctx f) (n + 1) tf (ps_tasks ps') b"
proof -
  let ?gen = "ie_gen (sv_index env)"
  have prog: "in_progress ?gen p g a" using inv by (simp add: legacy_inv_def)
  note counted = legacy_inv_adds [OF inv counted_adds [OF prog]]
    and done_ = legacy_inv_adds [OF inv file_done_adds [OF prog]]
    and failing = legacy_inv_adds [OF inv file_failed_adds [OF prog]]
  show ?thesis
  proof (cases "legacy_task env ctx f")
    case None
    then show ?thesis
      using counted done_ failing
      by (auto simp: process_legacy_file_def legacy_task_def legacy_failures_def split: sum.splits if_splits)
  next
    case (Some t)
    then obtain content where content: "sv_read env f = Inr content" "\<not> checkpoint_done ctx f" "\<not> is_ignored_file f"
      "\<not> is_generated_source_content content" "\<not> length content > 1000000"
      and t: "t = \<lparr>pt_path = f, pt_content = content, pt_hash = ie_blake3 (sv_index env) content\<rparr>"
      by (auto simp: legacy_task_def split: if_splits sum.splits)
    let ?a1 = "legacy_push_hash env p (f, ie_blake3 (sv_index env) content) a"
    let ?M = "M + mset (task_chunks (sv_index env) p (Some g) t)"
    have one: "process_legacy_file env p g ctx f (a, ps) = legacy_start_task env p g ctx t (?a1, ps)"
      using content t by (simp add: process_legacy_file_def Let_def)
    have inv1: "legacy_inv env p g M failed n tf (ps_tasks ps) ?a1"
      using legacy_inv_adds [OF inv legacy_push_hash_adds [OF prog]] by simp
    have more: "legacy_inv env p g ?M failed (n + 1) tf (ts @ [t]) b" if "legacy_inv env p g M failed n tf ts b" for ts b
      using that by (auto simp: legacy_inv_def gathered_def)
    have "\<exists>b ps'. legacy_start_task env p g ctx t (?a1, ps) = (Inr (), b, ps') \<and> legacy_inv env p g ?M failed (n + 1) tf (ps_tasks ps') b"
    proof (cases "length (ps_tasks ps) \<ge> effective_parse_workers (sv_index env)")
      case False
      with more [OF inv1] show ?thesis by (simp add: legacy_start_task_def Let_def)
    next
      case True
      then have n: "length (ps_tasks ps) > 0" unfolding effective_parse_workers_def by linarith
      obtain k where k: "ie_join (sv_index env) (ps_joins ps) = Finished k"
        using assms(3) unfolding smooth_run_def prompt_def by (metis join_event.exhaust)
      let ?i = "k mod length (ps_tasks ps)"
      obtain b where b: "drain_one_parse env p g ctx (ps_tasks ps ! ?i) ?a1 = (Inr (), b)"
        "legacy_inv env p g M failed n tf (remove_nth ?i (ps_tasks ps)) b"
        using legacy_inv_drain [OF assms(1-3) inv1, of ?i] n by auto
      from True k b(1) more [OF b(2)] show ?thesis by (simp add: legacy_start_task_def Let_def)
    qed
    moreover have "legacy_failures env ctx f = []" using content by (simp add: legacy_failures_def)
    ultimately show ?thesis by (simp add: one Some)
  qed
qed

definition legacy_chunks :: "staged_env \<Rightarrow> string \<Rightarrow> u64 \<Rightarrow> file_checkpoint_context option \<Rightarrow> string list \<Rightarrow> code_chunk list" where
  "legacy_chunks env p g ctx files =
     concat (map (\<lambda>f. case legacy_task env ctx f of None \<Rightarrow> [] | Some t \<Rightarrow> task_chunks (sv_index env) p (Some g) t) files)"

lemma legacy_loop_inv:
  assumes "row_writes_succeed env" "inj (ie_gen (sv_index env))" "smooth_run env"
  shows "legacy_inv env p g M failed n tf (ps_tasks ps) a \<Longrightarrow>
    \<exists>b ps'. try_each (process_legacy_file env p g ctx) files (a, ps) = (Inr (), b, ps') \<and>
      legacy_inv env p g (M + mset (legacy_chunks env p g ctx files)) (failed @ concat (map (legacy_failures env ctx) files))
        (n + of_nat (length files)) tf (ps_tasks ps') b"
proof (induction files arbitrary: M failed n a ps)
  case Nil
  then show ?case by (simp add: legacy_chunks_def)
next
  case (Cons f files)
  obtain b ps' where b: "process_legacy_file env p g ctx f (a, ps) = (Inr (), b, ps')"
    and inv: "legacy_inv env p g
      (M + (case legacy_task env ctx f of None \<Rightarrow> {#} | Some t \<Rightarrow> mset (task_chunks (sv_index env) p (Some g) t)))
      (failed @ legacy_failures env ctx f) (n + 1) tf (ps_tasks ps') b"
    using legacy_step_inv [OF assms Cons.prems, of ctx f] by blast
  from b Cons.IH [OF inv] show ?case
    by (cases "legacy_task env ctx f") (simp_all add: legacy_chunks_def ac_simps)
qed

lemma legacy_final_drain_inv:
  assumes "row_writes_succeed env" "inj (ie_gen (sv_index env))" "smooth_run env"
  shows "legacy_inv env p g M failed n tf tasks a \<Longrightarrow>
    \<exists>b. legacy_final_drain env p g ctx c joins tasks a = (Inr (), b) \<and> legacy_inv env p g M failed n tf [] b"
proof (induction "length tasks" arbitrary: tasks a c joins)
  case 0
  then show ?case by (simp add: legacy_final_drain.simps)
next
  case (Suc m)
  obtain k where k: "ie_join (sv_index env) joins = Finished k"
    using assms(3) unfolding smooth_run_def prompt_def by (metis join_event.exhaust)
  let ?i = "k mod length tasks"
  have i: "?i < length tasks" by (metis Suc.hyps(2) mod_less_divisor zero_less_Suc)
  obtain b where b: "drain_one_parse env p g ctx (tasks ! ?i) a = (Inr (), b)"
    "legacy_inv env p g M failed n tf (remove_nth ?i tasks) b"
    using legacy_inv_drain [OF assms Suc.prems i] by blast
  have "m = length (remove_nth ?i tasks)" using i Suc.hyps(2) by (simp add: remove_nth_def)
  from Suc.hyps(1) [OF this b(2)] obtain b' where
    "legacy_final_drain env p g ctx 0 (Suc joins) (remove_nth ?i tasks) b = (Inr (), b')" "legacy_inv env p g M failed n tf [] b'"
    by blast
  moreover have "tasks \<noteq> []" using Suc.hyps(2) by auto
  ultimately show ?case by (subst legacy_final_drain.simps) (simp add: Let_def k b(1))
qed

lemma legacy_final_flushes_adds:
  assumes "row_writes_succeed env" "inj (ie_gen (sv_index env))" "in_progress (ie_gen (sv_index env)) p g a"
  obtains b where "legacy_final_flushes env p active a = (Inr (), b)" "so_chunks b = []"
    "adds (ie_gen (sv_index env)) p g [] [] 0 a b"
proof -
  let ?gen = "ie_gen (sv_index env)"
  define a1 where "a1 = (if so_hashes a = [] then a else write_hashes env p (so_hashes a) a)"
  have 1: "adds ?gen p g [] [] 0 a a1" using adds_refl [OF assms(3)] write_hashes_adds [OF assms(3)] by (simp add: a1_def)
  obtain b1 where b1: "(if so_chunks a1 = [] then (Inr (), a1)
      else write_chunk_batch env (''failed to persist final code chunk batch for project '' @ p) (so_chunks a1) (a1\<lparr>so_chunks := []\<rparr>)) =
      (Inr (), b1)" "so_chunks b1 = []" "adds ?gen p g [] [] 0 a1 b1"
  proof (cases "so_chunks a1 = []")
    case True
    then show ?thesis using that [of a1] adds_refl [OF adds_progress [OF 1]] by simp
  next
    case False
    then show ?thesis
      using that write_chunk_batch_adds [OF assms(1,2), where a = a1 and batch = "so_chunks a1" and p = p and g = g] adds_progress [OF 1]
      by auto
  qed
  obtain b2 where b2: "(if so_symbols b1 = [] then (Inr (), b1)
      else write_symbol_batch env (so_symbols b1) (b1\<lparr>so_symbols := []\<rparr>)) = (Inr (), b2)"
    "same_core (so_db b1) (so_db b2)" "so_chunks b2 = so_chunks b1" "so_status b2 = so_status b1"
  proof (cases "so_symbols b1 = []")
    case True
    then show ?thesis using that [of b1] by (simp add: same_core_def)
  next
    case False
    have "\<exists>b. write_symbol_batch env (so_symbols b1) (b1\<lparr>so_symbols := []\<rparr>) = (Inr (), b)"
      using assms(1) by (simp add: write_symbol_batch_def row_writes_succeed_def Let_def split: prod.split)
    then obtain b where "write_symbol_batch env (so_symbols b1) (b1\<lparr>so_symbols := []\<rparr>) = (Inr (), b)" by blast
    then show ?thesis
      using that [of b] write_symbol_batch_frame [of "b1\<lparr>so_symbols := []\<rparr>" env "so_symbols b1"] False by simp
  qed
  define b where "b = snd (flush_staged_relations env p active b2)"
  have 4: "same_core (so_db b2) (so_db b)" "so_chunks b = so_chunks b2" "so_status b = so_status b2"
    using relation_batches_frame [of "(relation_stats_zero, so_db b2)" "sv_index env" p active "so_index b2" "so_relations b2"
        "sv_relation_batch_size env"]
    by (auto simp: b_def flush_staged_relations_def split: prod.splits)
  have "adds ?gen p g [] [] 0 b1 b"
    using adds_frame [OF adds_progress [OF b1(3)], of b] b2(2-4) 4 by (metis same_core_trans)
  from adds_trans [OF adds_trans [OF 1 b1(3)] this] have "adds ?gen p g [] [] 0 a b" by simp
  moreover have "legacy_final_flushes env p active a = (Inr (), b)"
    unfolding legacy_final_flushes_def Let_def a1_def [symmetric] b1(1) then_do_simps b2(1) by (simp add: b_def)
  ultimately show ?thesis using that b1(2) b2(3) 4(2) by simp
qed

lemma legacy_run:
  assumes "smooth_run env" "row_writes_succeed env" "inj (ie_gen (sv_index env))" "chunk_ids_ok (ie_gen (sv_index env)) db"
    and "run_current p g db" "is_status status = Indexing" "is_structural_generation status = g" "is_project_id status = p"
  obtains status' db' cs' where
    "run_legacy_index_pipeline api db_page show_error env p status g files ctx db cs = Some (Inr status', db', cs')"
    "is_status status' = (if is_total_files status = 0 then Completed else EmbeddingPending)"
    "is_failed_files status' = is_failed_files status @ concat (map (legacy_failures env ctx) files)"
    "is_indexed_files status' = is_indexed_files status + of_nat (length files)"
    "get_active_generation p db' = Some g"
    "mset (map without_id (chunk_view p (Some g) db')) =
       mset (map without_id (chunk_view p (Some g) db)) + mset (legacy_chunks env p g ctx files)"
    "cs' = (if chunk_view p (Some g) db' = [] then cs else hm_insert p (build_index api (view_pairs_of p (Some g) db')) cs)"
proof -
  let ?gen = "ie_gen (sv_index env)" and ?a = "staged_core_new status db"
  have a: "legacy_inv env p g (mset (map without_id (cd_chunks db))) (is_failed_files status) (is_indexed_files status)
      (is_total_files status) [] ?a"
    using assms(4-8) by (simp add: legacy_inv_def gathered_def in_progress_def staged_core_new_def collected_def)
  let ?inv = "legacy_inv env p g (mset (map without_id (cd_chunks db)) + mset (legacy_chunks env p g ctx files))
      (is_failed_files status @ concat (map (legacy_failures env ctx) files)) (is_indexed_files status + of_nat (length files))
      (is_total_files status)"
  obtain b ps where b: "try_each (process_legacy_file env p g ctx) files (?a, \<lparr>ps_tasks = [], ps_joins = 0\<rparr>) = (Inr (), b, ps)"
    "?inv (ps_tasks ps) b"
    using legacy_loop_inv [OF assms(2,3,1), of p g _ _ _ _ "\<lparr>ps_tasks = [], ps_joins = 0\<rparr>" ?a ctx files] a by fastforce
  obtain d where d: "legacy_final_drain env p g ctx 0 (ps_joins ps) (ps_tasks ps) b = (Inr (), d)" "?inv [] d"
    using legacy_final_drain_inv [OF assms(2,3,1) b(2)] by blast
  have prog: "in_progress ?gen p g d" using d(2) by (simp add: legacy_inv_def)
  obtain e where e: "legacy_final_flushes env p g d = (Inr (), e)" "so_chunks e = []" "adds ?gen p g [] [] 0 d e"
    using legacy_final_flushes_adds [OF assms(2,3) prog] by blast
  have inv: "?inv [] e" using legacy_inv_adds [OF d(2) e(3)] by simp
  then have chunks: "mset (map without_id (cd_chunks (so_db e))) = mset (map without_id (cd_chunks db)) + mset (legacy_chunks env p g ctx files)"
    and st: "is_failed_files (so_status e) = is_failed_files status @ concat (map (legacy_failures env ctx) files)"
      "is_indexed_files (so_status e) = is_indexed_files status + of_nat (length files)" "is_total_files (so_status e) = is_total_files status"
    using e(2) by (simp_all add: legacy_inv_def gathered_def collected_def)
  have cur: "run_current p g (so_db e)" and ids: "chunk_ids_ok ?gen (so_db e)" and pid: "is_project_id (so_status e) = p"
    using adds_progress [OF e(3)] by (simp_all add: in_progress_def)
  let ?P = "\<lambda>c. ck_project_id c = Some p \<and> generation_visible (Some g) (ck_generation c)"
  have "list_all ?P (task_chunks (sv_index env) p (Some g) t)" for t
    using chunk_file_stamped [of "pt_path t" p "Some g"] by (auto simp: list_all_iff task_chunks_def generation_visible_def)
  then have "\<forall>c\<in>set (legacy_chunks env p g ctx files). ?P c"
    by (fastforce simp: legacy_chunks_def list_all_iff split: option.splits)
  then have "filter ?P (legacy_chunks env p g ctx files) = legacy_chunks env p g ctx files" by (rule filter_True)
  then have kept: "filter_mset ?P (mset (legacy_chunks env p g ctx files)) = mset (legacy_chunks env p g ctx files)"
    by (metis mset_filter)
  have view: "mset (map without_id (chunk_view p (Some g) (so_db e))) =
      mset (map without_id (chunk_view p (Some g) db)) + mset (legacy_chunks env p g ctx files)"
    unfolding without_id_view by (simp only: mset_filter chunks filter_union_mset kept)
  obtain status' db' cs' where f:
    "finish_full_index api db_page show_error (ie_now (sv_index env)) p (so_status e) g (so_db e) cs = Some (Inr status', db', cs')"
    "is_status status' = (if is_total_files (so_status e) = 0 then Completed else EmbeddingPending)"
    "is_failed_files status' = is_failed_files (so_status e)" "is_indexed_files status' = is_indexed_files (so_status e)"
    "is_total_chunks status' = is_total_chunks (so_status e)"
    "get_active_generation p db' = Some g" "chunk_view p (Some g) db' = chunk_view p (Some g) (so_db e)"
    "cs' = (if chunk_view p (Some g) db' = [] then cs else hm_insert p (build_index api (view_pairs_of p (Some g) db')) cs)"
    using finish_publishes [OF cur ids_rows_ok [OF assms(3) ids] pid] .
  moreover have "run_legacy_index_pipeline api db_page show_error env p status g files ctx db cs = Some (Inr status', db', cs')"
    by (simp add: run_legacy_index_pipeline_def legacy_files_def b(1) d(1) e(1) f(1))
  ultimately show ?thesis using that st view by simp
qed

section \<open>Both pipelines publish the same\<close>

lemma same_file_chunks:
  assumes "smooth_run env" "\<And>f. \<not> sv_timeout env f"
  shows "pf_chunks (parsed_in_turn env p g ctx (k, f)) =
    (case legacy_task env ctx f of None \<Rightarrow> [] | Some t \<Rightarrow> task_chunks (sv_index env) p (Some g) t)"
  using assms
  by (auto simp: parsed_in_turn_def legacy_task_def read_file_for_staged_def parse_file_for_staged_def skipped_file_def failed_file_def
      smooth_run_def Let_def split: sum.split)

lemma same_chunk_lists:
  assumes "smooth_run env" "\<And>f. \<not> sv_timeout env f"
  shows "concat (map pf_chunks (parsed_files env p g ctx files)) = legacy_chunks env p g ctx files"
proof -
  have "map pf_chunks (parsed_files env p g ctx files) =
      map (\<lambda>f. case legacy_task env ctx f of None \<Rightarrow> [] | Some t \<Rightarrow> task_chunks (sv_index env) p (Some g) t) files"
    by (rule nth_equalityI) (simp_all add: parsed_files_def nth_enumerate_eq same_file_chunks [OF assms])
  then show ?thesis by (simp add: legacy_chunks_def)
qed

text \<open>A run in which nothing goes wrong: no time-out, no panic, no cancellation, no refused write of rows.\<close>

definition undisrupted :: "staged_env \<Rightarrow> bool" where
  "undisrupted env \<longleftrightarrow> smooth_run env \<and> undisturbed env \<and> row_writes_succeed env \<and> (\<forall>f. \<not> sv_timeout env f)"

text \<open>C34: When nothing goes wrong, the two pipelines publish the same rows: both succeed, make their generation the active
  one and show a reader the same chunks, whatever the order in which their tasks finish; the legacy pipeline stores
  them in another order.
\<close>

theorem pipelines_publish_same_chunks:
  assumes "undisrupted env" "inj (ie_gen (sv_index env))" "chunk_ids_ok (ie_gen (sv_index env)) db"
    and "run_current p g db" "is_status status = Indexing" "is_structural_generation status = g" "is_project_id status = p"
  shows "\<exists>status1 db1 cs1 status2 db2 cs2.
    run_staged_index_pipeline api db_page show_error env p status g files ctx db cs = Some (Inr status1, db1, cs1) \<and>
    run_legacy_index_pipeline api db_page show_error env p status g files ctx db cs = Some (Inr status2, db2, cs2) \<and>
    get_active_generation p db1 = Some g \<and> get_active_generation p db2 = Some g \<and>
    is_status status1 = is_status status2 \<and> is_indexed_files status1 = is_indexed_files status2 \<and>
    mset (map without_id (chunk_view p (Some g) db1)) = mset (map without_id (chunk_view p (Some g) db2))"
proof -
  have env: "smooth_run env" "undisturbed env" "row_writes_succeed env" "\<And>f. \<not> sv_timeout env f"
    using assms(1) by (simp_all add: undisrupted_def)
  obtain status1 db1 cs1 where 1:
    "run_staged_index_pipeline api db_page show_error env p status g files ctx db cs = Some (Inr status1, db1, cs1)"
    "is_status status1 = (if is_total_files status = 0 then Completed else EmbeddingPending)"
    "is_failed_files status1 = is_failed_files status @ concat (map file_failures (parsed_files env p g ctx files))"
    "is_indexed_files status1 = is_indexed_files status + of_nat (length files)"
    "is_total_chunks status1 = is_total_chunks status + of_nat (length (concat (map pf_chunks (parsed_files env p g ctx files))))"
    "get_active_generation p db1 = Some g"
    "map without_id (chunk_view p (Some g) db1) =
       map without_id (chunk_view p (Some g) db) @ concat (map pf_chunks (parsed_files env p g ctx files))"
    "cs1 = (if chunk_view p (Some g) db1 = [] then cs else hm_insert p (build_index api (view_pairs_of p (Some g) db1)) cs)"
    using staged_run [OF env(2,3) assms(2-7)] .
  obtain status2 db2 cs2 where 2:
    "run_legacy_index_pipeline api db_page show_error env p status g files ctx db cs = Some (Inr status2, db2, cs2)"
    "is_status status2 = (if is_total_files status = 0 then Completed else EmbeddingPending)"
    "is_failed_files status2 = is_failed_files status @ concat (map (legacy_failures env ctx) files)"
    "is_indexed_files status2 = is_indexed_files status + of_nat (length files)"
    "get_active_generation p db2 = Some g"
    "mset (map without_id (chunk_view p (Some g) db2)) =
       mset (map without_id (chunk_view p (Some g) db)) + mset (legacy_chunks env p g ctx files)"
    "cs2 = (if chunk_view p (Some g) db2 = [] then cs else hm_insert p (build_index api (view_pairs_of p (Some g) db2)) cs)"
    using legacy_run [OF env(1,3) assms(2-7)] .
  have "mset (map without_id (chunk_view p (Some g) db1)) = mset (map without_id (chunk_view p (Some g) db2))"
    unfolding 1(7) 2(6) same_chunk_lists [OF env(1,4)] by simp
  moreover have "is_status status1 = is_status status2" "is_indexed_files status1 = is_indexed_files status2"
    unfolding 1(2,4) 2(2,4) by (rule refl)+
  ultimately show ?thesis using 1(1,6) 2(1,5) by blast
qed

section \<open>A file that is given up keeps its hash\<close>

lemma hashes_last:
  "get_file_hash p f (set_file_hashes_batch p (hs @ [(f, h)]) db) = Some h"
  by (simp add: set_file_hashes_batch_def set_file_hash_def get_file_hash_def)

lemma hash_batch_cong:
  assumes "cd_hashes a = cd_hashes b"
  shows "cd_hashes (set_file_hashes_batch p hs a) = cd_hashes (set_file_hashes_batch p hs b)"
proof -
  have "cd_hashes (fold (\<lambda>(f, h). set_file_hash p f h) hs x) = cd_hashes (fold (\<lambda>(f, h). set_file_hash p f h) hs y)"
    if "cd_hashes x = cd_hashes y" for x y
    using that
  proof (induction hs arbitrary: x y)
    case (Cons e hs)
    have "cd_hashes (set_file_hash p (fst e) (snd e) x) = cd_hashes (set_file_hash p (fst e) (snd e) y)"
      unfolding set_file_hash_def by (simp add: Cons.prems)
    from Cons.IH [OF this] show ?case by (simp add: case_prod_unfold)
  qed simp
  from this [OF assms] assms show ?thesis unfolding set_file_hashes_batch_def by (auto split: if_split)
qed

lemma checkpoint_hashes: "cd_hashes (upsert_file_checkpoint_after_file b3 now ctx p f h ph m n db) = cd_hashes db"
  by (simp add: upsert_file_checkpoint_after_file_def upsert_file_checkpoint_def Let_def split: option.split prod.split)

text \<open>
  When the wait for a free place times out, the new file is given up, not the one that is stuck; its hash stays in
  the buffer and is written, so that incremental indexing takes the file for unchanged.
\<close>

lemma legacy_timeout_hides_file:
  assumes "sv_read env f = Inr content" "\<not> checkpoint_done ctx f" "\<not> is_ignored_file f" "\<not> is_generated_source_content content"
    and "length content \<le> 1000000" "effective_parse_workers (sv_index env) \<le> length (ps_tasks ps)"
    and "ie_join (sv_index env) (ps_joins ps) = TimedOut" and "\<And>n. sv_hash_write env n"
  shows "\<exists>st' ps'. process_legacy_file env p g ctx f (st, ps) = (Inr (), st', ps') \<and> ps_tasks ps' = ps_tasks ps \<and>
    f \<in> set (is_failed_files (so_status st')) \<and>
    get_file_hash p f (so_db (write_hashes env p (so_hashes st') st')) = Some (ie_blake3 (sv_index env) content)"
proof -
  let ?h = "ie_blake3 (sv_index env) content" and ?st1 = "legacy_push_hash env p (f, ie_blake3 (sv_index env) content) st"
  have run: "process_legacy_file env p g ctx f (st, ps) =
      (Inr (), file_failed env p ctx f ?st1, ps\<lparr>ps_joins := Suc (ps_joins ps)\<rparr>)"
    using assms(1-7) by (simp add: process_legacy_file_def legacy_start_task_def Let_def)
  have "get_file_hash p f (so_db (write_hashes env p (so_hashes ?st1) ?st1)) = Some ?h"
    using hashes_last [of p f "so_hashes st" ?h "so_db st"] assms(8)
    by (auto simp: legacy_push_hash_def write_hashes_def Let_def set_file_hashes_batch_def)
  moreover have "get_file_hash p f (so_db (write_hashes env p hs (file_failed env p ctx f x))) =
      get_file_hash p f (so_db (write_hashes env p hs x))" for hs x
  proof -
    note hash_batch_cong [of "so_db (file_failed env p ctx f x)" "so_db x" p hs]
    moreover have "cd_hashes (so_db (file_failed env p ctx f x)) = cd_hashes (so_db x)"
      by (simp add: file_failed_def file_done_def checkpoint_file_def file_counted_def checkpoint_hashes)
    ultimately show ?thesis using assms(8) by (simp add: write_hashes_def get_file_hash_def)
  qed
  moreover have "so_hashes (file_failed env p ctx f ?st1) = so_hashes ?st1" "f \<in> set (is_failed_files (so_status (file_failed env p ctx f ?st1)))"
    by (simp_all add: file_failed_def file_done_def checkpoint_file_def file_counted_def)
  ultimately show ?thesis using run by simp
qed

text \<open>A run of the two pipelines over the same two files.\<close>

theorem pipelines_publish_same_chunks_witness:
  "\<exists>status1 db1 cs1 status2 db2 cs2.
    run_staged_index_pipeline token_engine db_page (\<lambda>e. []) (example_staged (\<lambda>n. 1)) ''p'' (status_of_generation 2) 2
      [''b.sh'', ''a.sh''] None example_start_db [] = Some (Inr status1, db1, cs1) \<and>
    run_legacy_index_pipeline token_engine db_page (\<lambda>e. []) (example_staged (\<lambda>n. 1)) ''p'' (status_of_generation 2) 2
      [''b.sh'', ''a.sh''] None example_start_db [] = Some (Inr status2, db2, cs2) \<and>
    mset (map without_id (chunk_view ''p'' (Some 2) db1)) = mset (map without_id (chunk_view ''p'' (Some 2) db2))"
proof -
  have "undisrupted (example_staged (\<lambda>n. 1))"
    using example_staged_ok [of "\<lambda>n. 1"]
    by (simp add: undisrupted_def smooth_run_def prompt_def) (simp add: example_staged_def example_env_def)
  from pipelines_publish_same_chunks [OF this example_staged_ok(3) example_start(2) example_start(1) status_of_generation_simps(2,3,1),
      of token_engine "\<lambda>e. []" "[''b.sh'', ''a.sh'']" None "[]"]
  show ?thesis by blast
qed

section \<open>A run from its request to its publication\<close>

lemma nothing_resumed:
  assumes "\<not> ro_resume opts"
  obtains ctx where "prepare_file_checkpoint_context p g opts db = Inr ctx" "\<And>f. \<not> checkpoint_done ctx f"
proof -
  let ?job = "case find (\<lambda>j. j_target_generation j = g) (list_index_jobs_for_project p db) of Some j \<Rightarrow> j_job_id j | None \<Rightarrow> []"
  let ?ctx = "if ?job = [] then None else Some \<lparr>cc_job = ?job, cc_checkpoint_generation = g, cc_completed_relative_paths = []\<rparr>"
  have "prepare_file_checkpoint_context p g opts db = Inr ?ctx"
    using assms by (simp add: prepare_file_checkpoint_context_def)
  moreover have "\<not> checkpoint_done ?ctx f" for f by (simp add: checkpoint_done_def)
  ultimately show ?thesis using that by blast
qed

lemma store_status_frame:
  "cd_chunks (store_index_status s db) = cd_chunks db" "cd_next (store_index_status s db) = cd_next db"
  by (simp_all add: store_index_status_def split: prod.split)

lemma ids_ok_frame:
  "chunk_ids_ok gen db \<Longrightarrow> cd_chunks db' = cd_chunks db \<Longrightarrow> cd_next db' = cd_next db \<Longrightarrow> chunk_ids_ok gen db'"
  by (simp add: chunk_ids_ok_def)

lemma view_frame: "cd_chunks db' = cd_chunks db \<Longrightarrow> chunk_view p x db' = chunk_view p x db"
  by (simp add: chunk_view_def)

lemma mode_run:
  assumes "undisrupted env" "inj (ie_gen (sv_index env))" "chunk_ids_ok (ie_gen (sv_index env)) db"
    and "run_current p g db" "is_status status = Indexing" "is_structural_generation status = g" "is_project_id status = p"
  obtains status' db' cs' where
    "(case mode of Legacy_mode \<Rightarrow> run_legacy_index_pipeline api db_page show_error env p status g files ctx db cs
      | Staged_mode \<Rightarrow> run_staged_index_pipeline api db_page show_error env p status g files ctx db cs) = Some (Inr status', db', cs')"
    "is_status status' = (if is_total_files status = 0 then Completed else EmbeddingPending)"
    "is_indexed_files status' = is_indexed_files status + of_nat (length files)"
    "get_active_generation p db' = Some g"
    "mset (map without_id (chunk_view p (Some g) db')) =
       mset (map without_id (chunk_view p (Some g) db)) + mset (legacy_chunks env p g ctx files)"
    "cs' = (if chunk_view p (Some g) db' = [] then cs else hm_insert p (build_index api (view_pairs_of p (Some g) db')) cs)"
proof -
  have env: "smooth_run env" "undisturbed env" "row_writes_succeed env" "\<And>f. \<not> sv_timeout env f"
    using assms(1) by (simp_all add: undisrupted_def)
  show ?thesis
  proof (cases mode)
    case Legacy_mode
    show ?thesis
      by (rule legacy_run [OF env(1,3) assms(2-7), of api show_error files ctx cs]) (rule that, simp_all add: Legacy_mode)
  next
    case Staged_mode
    show ?thesis
      by (rule staged_run [OF env(2,3) assms(2-7), of api show_error files ctx cs])
        (rule that, simp_all add: Staged_mode same_chunk_lists [OF env(1,4)] del: mset_map)
  qed
qed

text \<open>What a file contributes: nothing if it is ignored, unreadable, generated or longer than a million, and its chunks
  otherwise.\<close>

definition expected_chunks :: "staged_env \<Rightarrow> string \<Rightarrow> u64 \<Rightarrow> string \<Rightarrow> code_chunk list" where
  "expected_chunks env p g f =
     (if is_ignored_file f then []
      else case sv_read env f of
             Inl e \<Rightarrow> []
           | Inr content \<Rightarrow>
               if is_generated_source_content content \<or> 1000000 < length content then []
               else chunk_file_for_generation (ie_grammar (sv_index env)) (ie_blake3 (sv_index env)) (ie_now (sv_index env))
                      f content p (Some g))"

lemma legacy_chunks_expected: "legacy_chunks env p g None files = concat (map (expected_chunks env p g) files)"
proof -
  have "(case legacy_task env None f of None \<Rightarrow> [] | Some t \<Rightarrow> task_chunks (sv_index env) p (Some g) t) = expected_chunks env p g f" for f
    by (auto simp: legacy_task_def expected_chunks_def task_chunks_def checkpoint_done_def split: sum.split)
  then show ?thesis by (simp add: legacy_chunks_def)
qed

text \<open>C33: A full indexing run in which nothing goes wrong ends, in either pipeline, with the generation after the
  previous one published. Its readers see what was visible in that generation before (rows without a generation, which
  stay), and besides exactly the chunks of the scanned files, where files that are ignored, generated, longer than a
  million or unreadable contribute none. All scanned files are counted, and the status waits for the embeddings unless
  there was no file. The lexical index of the project is rebuilt from everything that is then visible; when nothing is
  visible the previous index stays, and no index of another project changes.
\<close>

theorem full_index_publishes:
  assumes "undisrupted env" "inj (ie_gen (sv_index env))" "chunk_ids_ok (ie_gen (sv_index env)) db"
    and "\<not> ro_resume opts" "scan compiled_filter = Inr files"
    and "g = saturating_add (case get_index_status p db of Some s \<Rightarrow> is_structural_generation s | None \<Rightarrow> 0) 1"
  shows "\<exists>status' db' cs'.
    do_index_project api db_page show_error env mode root_text p (Inr compiled_filter) incl excl scan opts db cs =
      Some (Inr status', db', cs') \<and>
    is_status status' = (if (of_nat (length files) :: u32) = 0 then Completed else EmbeddingPending) \<and>
    is_indexed_files status' = of_nat (length files) \<and> get_active_generation p db' = Some g \<and>
    mset (map without_id (chunk_view p (Some g) db')) =
      mset (map without_id (chunk_view p (Some g) db)) + mset (concat (map (expected_chunks env p g) files)) \<and>
    cs' = (if chunk_view p (Some g) db' = [] then cs else hm_insert p (build_index api (view_pairs_of p (Some g) db')) cs)"
proof -
  let ?now = "ie_now (sv_index env)"
  define status where "status = prepare_started_index_status ?now p root_text (get_index_status p db) incl excl"
  have s: "is_status status = Indexing" "is_project_id status = p" "is_structural_generation status = g" "is_indexed_files status = 0"
    using assms(6) unfolding status_def
    by (simp_all add: prepared_status)
      (simp add: prepare_started_index_status_def index_status_new_def refresh_lifecycle_states_def Let_def)
  obtain ctx where ctx: "prepare_file_checkpoint_context p g opts db = Inr ctx" "\<And>f. \<not> checkpoint_done ctx f"
    using nothing_resumed [OF assms(4)] by blast
  define status1 where "status1 = status\<lparr>is_total_files := of_nat (length files)\<rparr>"
  define db2 where "db2 = store_index_status status1 (set_indexing_generation p (Some g) (store_index_status status db))"
  have s1: "is_status status1 = Indexing" "is_structural_generation status1 = g" "is_project_id status1 = p"
    "is_indexed_files status1 = 0" "is_total_files status1 = of_nat (length files)"
    using s by (simp_all add: status1_def)
  have cur: "run_current p g db2"
    unfolding db2_def using indexing_status_current [OF s1(3) s1(1)] s1(2) by simp
  have frame: "cd_chunks db2 = cd_chunks db" "cd_next db2 = cd_next db"
    by (simp_all add: db2_def store_status_frame set_indexing_generation_def)
  have ids: "chunk_ids_ok (ie_gen (sv_index env)) db2" by (rule ids_ok_frame [OF assms(3) frame])
  have same: "legacy_chunks env p g ctx files = legacy_chunks env p g None files"
    using ctx(2) by (simp add: legacy_chunks_def legacy_task_def) (simp add: checkpoint_done_def)
  have start: "started_status opts p db status = status" using assms(4) by (simp add: started_status_def)
  have run: "do_index_project api db_page show_error env mode root_text p (Inr compiled_filter) incl excl scan opts db cs =
      (case mode of Legacy_mode \<Rightarrow> run_legacy_index_pipeline api db_page show_error env p status1 g files ctx db2 cs
       | Staged_mode \<Rightarrow> run_staged_index_pipeline api db_page show_error env p status1 g files ctx db2 cs)"
    unfolding do_index_project_def Let_def sum.case status_def [symmetric] start s(3) ctx(1) assms(5) status1_def db2_def
    by (rule refl)
  obtain status' db' cs' where r:
    "(case mode of Legacy_mode \<Rightarrow> run_legacy_index_pipeline api db_page show_error env p status1 g files ctx db2 cs
      | Staged_mode \<Rightarrow> run_staged_index_pipeline api db_page show_error env p status1 g files ctx db2 cs) = Some (Inr status', db', cs')"
    "is_status status' = (if is_total_files status1 = 0 then Completed else EmbeddingPending)"
    "is_indexed_files status' = is_indexed_files status1 + of_nat (length files)"
    "get_active_generation p db' = Some g"
    "mset (map without_id (chunk_view p (Some g) db')) =
       mset (map without_id (chunk_view p (Some g) db2)) + mset (legacy_chunks env p g ctx files)"
    "cs' = (if chunk_view p (Some g) db' = [] then cs else hm_insert p (build_index api (view_pairs_of p (Some g) db')) cs)"
    using mode_run [OF assms(1,2) ids cur s1(1-3)] .
  from r(2,3,5) have v: "is_status status' = (if (of_nat (length files) :: u32) = 0 then Completed else EmbeddingPending)"
    "is_indexed_files status' = of_nat (length files)"
    "mset (map without_id (chunk_view p (Some g) db')) =
       mset (map without_id (chunk_view p (Some g) db)) + mset (legacy_chunks env p g None files)"
    by (simp_all add: s1(4,5) same view_frame [OF frame(1)] del: mset_map)
  show ?thesis unfolding run legacy_chunks_expected [symmetric] using r(1,4,6) v by blast
qed

theorem full_index_publishes_witness:
  "\<exists>status' db' cs'.
    do_index_project token_engine db_page (\<lambda>e. []) (example_staged (\<lambda>n. 1)) Legacy_mode ''/p'' ''p'' (Inr ()) [] []
      (\<lambda>u. Inr [''b.sh'', ''a.sh'']) \<lparr>ro_resume = False, ro_job_id = None, ro_resume_token = None\<rparr> code_db_empty [] =
      Some (Inr status', db', cs') \<and>
    is_status status' = EmbeddingPending \<and> is_indexed_files status' = 2 \<and> get_active_generation ''p'' db' = Some 1"
proof -
  have env: "undisrupted (example_staged (\<lambda>n. 1))"
    using example_staged_ok [of "\<lambda>n. 1"]
    by (simp add: undisrupted_def smooth_run_def prompt_def) (simp add: example_staged_def example_env_def)
  have "chunk_ids_ok (ie_gen (sv_index (example_staged (\<lambda>n. 1)))) code_db_empty"
    by (simp add: chunk_ids_ok_def code_db_empty_def)
  moreover have "1 = saturating_add (case get_index_status ''p'' code_db_empty of Some s \<Rightarrow> is_structural_generation s | None \<Rightarrow> 0) (1::u64)"
    by (simp add: get_index_status_def code_db_empty_def saturating_add_def)
  ultimately show ?thesis
    using full_index_publishes [OF env example_staged_ok(3), of code_db_empty
        "\<lparr>ro_resume = False, ro_job_id = None, ro_resume_token = None\<rparr>" "\<lambda>u. Inr [''b.sh'', ''a.sh'']" "()" "[''b.sh'', ''a.sh'']"
        1 "''p''" token_engine "\<lambda>e. []" Legacy_mode "''/p''" "[]" "[]" "[]"]
    by auto
qed

end
