(* ===== verification/Learning.thy ===== *)
theory Learning
  imports MemoryService
begin

text \<open>
  Learning entries: the typed form of \<open>metadata.learning\<close> with its serialisation and validation
  (\<open>src/types/learning.rs\<close>), the filters of the learning tools
  (\<open>src/server/logic/learning_filters.rs\<close>) and the flags reported with an entry
  (\<open>src/server/logic/learning_response.rs\<close>). The derived deserialisers are written out: a struct is read
  from an object, whose unknown members are ignored, or by position from an array; a unit variant from
  its name or from an object of its name and null. A JSON number is a real, so \<open>1.0\<close> reads as the
  integer 1.
\<close>

section \<open>Entries\<close>

datatype learning_kind =
    LK_UserPreference | LK_ProjectLesson | LK_ProjectPattern | LK_ProjectPitfall | LK_WorkflowRule

fun learning_kind_name :: "learning_kind \<Rightarrow> string" where
  "learning_kind_name LK_UserPreference = ''user_preference''"
| "learning_kind_name LK_ProjectLesson = ''project_lesson''"
| "learning_kind_name LK_ProjectPattern = ''project_pattern''"
| "learning_kind_name LK_ProjectPitfall = ''project_pitfall''"
| "learning_kind_name LK_WorkflowRule = ''workflow_rule''"

definition learning_kind_of_name :: "string \<Rightarrow> learning_kind option" where
  "learning_kind_of_name s = find (\<lambda>k. learning_kind_name k = s)
     [LK_UserPreference, LK_ProjectLesson, LK_ProjectPattern, LK_ProjectPitfall, LK_WorkflowRule]"

datatype scope_level = SC_Global | SC_Project | SC_Workspace | SC_Mode | SC_Agent | SC_Session

fun scope_level_name :: "scope_level \<Rightarrow> string" where
  "scope_level_name SC_Global = ''global''"
| "scope_level_name SC_Project = ''project''"
| "scope_level_name SC_Workspace = ''workspace''"
| "scope_level_name SC_Mode = ''mode''"
| "scope_level_name SC_Agent = ''agent''"
| "scope_level_name SC_Session = ''session''"

definition scope_level_of_name :: "string \<Rightarrow> scope_level option" where
  "scope_level_of_name s = find (\<lambda>l. scope_level_name l = s)
     [SC_Global, SC_Project, SC_Workspace, SC_Mode, SC_Agent, SC_Session]"

datatype created_from = CF_Manual | CF_Plugin | CF_Migration | CF_Promotion | CF_Supersede | CF_Consolidation

fun created_from_name :: "created_from \<Rightarrow> string" where
  "created_from_name CF_Manual = ''manual''"
| "created_from_name CF_Plugin = ''plugin''"
| "created_from_name CF_Migration = ''migration''"
| "created_from_name CF_Promotion = ''promotion''"
| "created_from_name CF_Supersede = ''supersede''"
| "created_from_name CF_Consolidation = ''consolidation''"

definition created_from_of_name :: "string \<Rightarrow> created_from option" where
  "created_from_of_name s = find (\<lambda>c. created_from_name c = s)
     [CF_Manual, CF_Plugin, CF_Migration, CF_Promotion, CF_Supersede, CF_Consolidation]"

record learning_scope =
  lc_level :: scope_level
  lc_project_id :: "string option"
  lc_workspace :: "string option"
  lc_mode :: "string option"
  lc_user_id :: "string option"
  lc_agent_id :: "string option"
  lc_run_id :: "string option"
  lc_namespace :: "string option"

record learning_source =
  lo_created_from :: created_from
  lo_client :: "string option"
  lo_source_memory_ids :: "string list"

record learning_metadata =
  lm_schema_version :: u32
  lm_kind :: learning_kind
  lm_status :: learning_status
  lm_confidence :: real
  lm_scope :: learning_scope
  lm_source :: learning_source
  lm_evidence :: "string list"
  lm_applies_to :: "string list"
  lm_trigger_hints :: "string list"
  lm_supersedes :: "string list"
  lm_constraints :: "string list"

section \<open>Serialisation\<close>

text \<open>Members left out when empty: \<open>skip_serializing_if\<close>.\<close>

definition opt_member :: "string \<Rightarrow> string option \<Rightarrow> (string \<times> json) list" where
  "opt_member k v = (case v of None \<Rightarrow> [] | Some s \<Rightarrow> [(k, JStr s)])"

definition strings_member :: "string \<Rightarrow> string list \<Rightarrow> (string \<times> json) list" where
  "strings_member k xs = (if xs = [] then [] else [(k, JArr (map JStr xs))])"

definition learning_scope_to_json :: "learning_scope \<Rightarrow> json" where
  "learning_scope_to_json c =
     JObj ([(''level'', JStr (scope_level_name (lc_level c)))] @ opt_member ''project_id'' (lc_project_id c) @
       opt_member ''workspace'' (lc_workspace c) @ opt_member ''mode'' (lc_mode c) @
       opt_member ''user_id'' (lc_user_id c) @ opt_member ''agent_id'' (lc_agent_id c) @
       opt_member ''run_id'' (lc_run_id c) @ opt_member ''namespace'' (lc_namespace c))"

definition learning_source_to_json :: "learning_source \<Rightarrow> json" where
  "learning_source_to_json c =
     JObj ([(''created_from'', JStr (created_from_name (lo_created_from c)))] @ opt_member ''client'' (lo_client c) @
       strings_member ''source_memory_ids'' (lo_source_memory_ids c))"

definition learning_metadata_to_json :: "learning_metadata \<Rightarrow> json" where
  "learning_metadata_to_json lm =
     JObj ([(''schema_version'', JNum (real (unat (lm_schema_version lm)))),
            (''kind'', JStr (learning_kind_name (lm_kind lm))),
            (''status'', JStr (learning_status_name (lm_status lm))),
            (''confidence'', JNum (lm_confidence lm)),
            (''scope'', learning_scope_to_json (lm_scope lm)),
            (''source'', learning_source_to_json (lm_source lm))] @
       strings_member ''evidence'' (lm_evidence lm) @ strings_member ''applies_to'' (lm_applies_to lm) @
       strings_member ''trigger_hints'' (lm_trigger_hints lm) @ strings_member ''supersedes'' (lm_supersedes lm) @
       strings_member ''constraints'' (lm_constraints lm))"

section \<open>Deserialisation\<close>

definition unit_variant_of_json :: "(string \<Rightarrow> 'a option) \<Rightarrow> json \<Rightarrow> 'a option" where
  "unit_variant_of_json of_name j =
     (case j of JStr s \<Rightarrow> of_name s | JObj [(s, JNull)] \<Rightarrow> of_name s | _ \<Rightarrow> None)"

text \<open>The members of a struct: by name, or by position with at least the \<open>required\<close> first ones.\<close>

definition struct_members :: "string list \<Rightarrow> nat \<Rightarrow> json \<Rightarrow> (string \<times> json) list option" where
  "struct_members names required j =
     (case j of
        JObj kvs \<Rightarrow> Some kvs
      | JArr xs \<Rightarrow> if required \<le> length xs \<and> length xs \<le> length names then Some (zip names xs) else None
      | _ \<Rightarrow> None)"

definition required_member :: "(json \<Rightarrow> 'a option) \<Rightarrow> (string \<times> json) list \<Rightarrow> string \<Rightarrow> 'a option" where
  "required_member parse kvs k = (case map_of kvs k of Some j \<Rightarrow> parse j | None \<Rightarrow> None)"

definition default_member :: "'a \<Rightarrow> (json \<Rightarrow> 'a option) \<Rightarrow> (string \<times> json) list \<Rightarrow> string \<Rightarrow> 'a option" where
  "default_member d parse kvs k = (case map_of kvs k of Some j \<Rightarrow> parse j | None \<Rightarrow> Some d)"

definition optional_of_json :: "(json \<Rightarrow> 'a option) \<Rightarrow> json \<Rightarrow> 'a option option" where
  "optional_of_json parse j = (if j = JNull then Some None else map_option Some (parse j))"

fun elements_of_json :: "(json \<Rightarrow> 'a option) \<Rightarrow> json list \<Rightarrow> 'a list option" where
  "elements_of_json parse [] = Some []"
| "elements_of_json parse (j # js) =
     (case parse j of
        None \<Rightarrow> None
      | Some x \<Rightarrow> (case elements_of_json parse js of None \<Rightarrow> None | Some xs \<Rightarrow> Some (x # xs)))"

definition vec_of_json :: "(json \<Rightarrow> 'a option) \<Rightarrow> json \<Rightarrow> 'a list option" where
  "vec_of_json parse j = (case j of JArr xs \<Rightarrow> elements_of_json parse xs | _ \<Rightarrow> None)"

definition u32_of_json :: "json \<Rightarrow> u32 option" where
  "u32_of_json j =
     (case j of
        JNum r \<Rightarrow> if r = of_int \<lfloor>r\<rfloor> \<and> 0 \<le> r \<and> r < 4294967296 then Some (of_int \<lfloor>r\<rfloor>) else None
      | _ \<Rightarrow> None)"

definition f64_of_json :: "json \<Rightarrow> real option" where
  "f64_of_json j = (case j of JNum r \<Rightarrow> Some r | _ \<Rightarrow> None)"

abbreviation opt_string :: "(string \<times> json) list \<Rightarrow> string \<Rightarrow> string option option" where
  "opt_string \<equiv> default_member None (optional_of_json json_as_str)"

abbreviation opt_strings :: "(string \<times> json) list \<Rightarrow> string \<Rightarrow> string list option" where
  "opt_strings \<equiv> default_member [] (vec_of_json json_as_str)"

definition learning_scope_of_json :: "json \<Rightarrow> learning_scope option" where
  "learning_scope_of_json j =
     (case struct_members [''level'', ''project_id'', ''workspace'', ''mode'', ''user_id'', ''agent_id'', ''run_id'',
         ''namespace''] 8 j of None \<Rightarrow> None | Some kvs \<Rightarrow>
     (case required_member (unit_variant_of_json scope_level_of_name) kvs ''level'' of None \<Rightarrow> None | Some level \<Rightarrow>
     (case opt_string kvs ''project_id'' of None \<Rightarrow> None | Some project_id \<Rightarrow>
     (case opt_string kvs ''workspace'' of None \<Rightarrow> None | Some workspace \<Rightarrow>
     (case opt_string kvs ''mode'' of None \<Rightarrow> None | Some mode \<Rightarrow>
     (case opt_string kvs ''user_id'' of None \<Rightarrow> None | Some user_id \<Rightarrow>
     (case opt_string kvs ''agent_id'' of None \<Rightarrow> None | Some agent_id \<Rightarrow>
     (case opt_string kvs ''run_id'' of None \<Rightarrow> None | Some run_id \<Rightarrow>
     (case opt_string kvs ''namespace'' of None \<Rightarrow> None | Some namespace \<Rightarrow>
        Some \<lparr>lc_level = level, lc_project_id = project_id, lc_workspace = workspace, lc_mode = mode,
              lc_user_id = user_id, lc_agent_id = agent_id, lc_run_id = run_id, lc_namespace = namespace\<rparr>)))))))))"

definition learning_source_of_json :: "json \<Rightarrow> learning_source option" where
  "learning_source_of_json j =
     (case struct_members [''created_from'', ''client'', ''source_memory_ids''] 2 j of None \<Rightarrow> None | Some kvs \<Rightarrow>
     (case required_member (unit_variant_of_json created_from_of_name) kvs ''created_from'' of None \<Rightarrow> None | Some cf \<Rightarrow>
     (case opt_string kvs ''client'' of None \<Rightarrow> None | Some client \<Rightarrow>
     (case opt_strings kvs ''source_memory_ids'' of None \<Rightarrow> None | Some ids \<Rightarrow>
        Some \<lparr>lo_created_from = cf, lo_client = client, lo_source_memory_ids = ids\<rparr>))))"

definition learning_metadata_of_json :: "json \<Rightarrow> learning_metadata option" where
  "learning_metadata_of_json j =
     (case struct_members [''schema_version'', ''kind'', ''status'', ''confidence'', ''scope'', ''source'',
         ''evidence'', ''applies_to'', ''trigger_hints'', ''supersedes'', ''constraints''] 6 j of None \<Rightarrow> None | Some kvs \<Rightarrow>
     (case required_member u32_of_json kvs ''schema_version'' of None \<Rightarrow> None | Some schema_version \<Rightarrow>
     (case required_member (unit_variant_of_json learning_kind_of_name) kvs ''kind'' of None \<Rightarrow> None | Some kind \<Rightarrow>
     (case required_member learning_status_of_json kvs ''status'' of None \<Rightarrow> None | Some status \<Rightarrow>
     (case required_member f64_of_json kvs ''confidence'' of None \<Rightarrow> None | Some confidence \<Rightarrow>
     (case required_member learning_scope_of_json kvs ''scope'' of None \<Rightarrow> None | Some scope \<Rightarrow>
     (case required_member learning_source_of_json kvs ''source'' of None \<Rightarrow> None | Some source \<Rightarrow>
     (case opt_strings kvs ''evidence'' of None \<Rightarrow> None | Some evidence \<Rightarrow>
     (case opt_strings kvs ''applies_to'' of None \<Rightarrow> None | Some applies_to \<Rightarrow>
     (case opt_strings kvs ''trigger_hints'' of None \<Rightarrow> None | Some trigger_hints \<Rightarrow>
     (case opt_strings kvs ''supersedes'' of None \<Rightarrow> None | Some supersedes \<Rightarrow>
     (case opt_strings kvs ''constraints'' of None \<Rightarrow> None | Some constraints \<Rightarrow>
        Some \<lparr>lm_schema_version = schema_version, lm_kind = kind, lm_status = status, lm_confidence = confidence,
              lm_scope = scope, lm_source = source, lm_evidence = evidence, lm_applies_to = applies_to,
              lm_trigger_hints = trigger_hints, lm_supersedes = supersedes,
              lm_constraints = constraints\<rparr>))))))))))))"

text \<open>The errors of the validation; the text of a failed parse is \<open>serde_json\<close>'s.\<close>

datatype learning_error = LE_Malformed | LE_SchemaVersion u32 | LE_Confidence real

definition validate_learning_metadata :: "json \<Rightarrow> learning_error + learning_metadata" where
  "validate_learning_metadata j =
     (case learning_metadata_of_json j of
        None \<Rightarrow> Inl LE_Malformed
      | Some meta \<Rightarrow>
          if lm_schema_version meta \<noteq> 1 then Inl (LE_SchemaVersion (lm_schema_version meta))
          else if \<not> (0 \<le> lm_confidence meta \<and> lm_confidence meta \<le> 1) then Inl (LE_Confidence (lm_confidence meta))
          else Inr meta)"

text \<open>The field named in the error of a failed parse: what stands between the first two backticks.\<close>

definition extract_field_from_serde_error :: "string \<Rightarrow> string" where
  "extract_field_from_serde_error msg =
     (let rest = tl (dropWhile (\<lambda>c. c \<noteq> CHR 0x60) msg)
      in if CHR 0x60 \<in> set msg \<and> CHR 0x60 \<in> set rest then takeWhile (\<lambda>c. c \<noteq> CHR 0x60) rest
         else ''unknown'')"

section \<open>Filters\<close>

record learning_filter =
  lf_include_status :: "learning_status list option"
  lf_exclude_status :: "learning_status list option"
  lf_include_invalidated :: bool
  lf_audit :: bool
  lf_include_global :: bool

definition learning_filter_default :: learning_filter where
  "learning_filter_default =
     \<lparr>lf_include_status = None, lf_exclude_status = None, lf_include_invalidated = False, lf_audit = False,
      lf_include_global = False\<rparr>"

definition default_search_filter :: learning_filter where
  "default_search_filter =
     \<lparr>lf_include_status = Some [LS_Confirmed, LS_Rule],
      lf_exclude_status = Some [LS_Candidate, LS_Rejected, LS_Superseded, LS_Archived],
      lf_include_invalidated = False, lf_audit = False, lf_include_global = False\<rparr>"

definition default_list_filter :: learning_filter where
  "default_list_filter =
     \<lparr>lf_include_status = Some [LS_Candidate, LS_Confirmed, LS_Rule],
      lf_exclude_status = Some [LS_Rejected, LS_Superseded, LS_Archived],
      lf_include_invalidated = False, lf_audit = False, lf_include_global = False\<rparr>"

definition fallback_of_json :: "json \<Rightarrow> bool option" where
  "fallback_of_json j =
     (case struct_members [''include_global''] 0 j of None \<Rightarrow> None
      | Some kvs \<Rightarrow> default_member False json_as_bool kvs ''include_global'')"

definition learning_filter_of_json :: "json \<Rightarrow> learning_filter option" where
  "learning_filter_of_json j =
     (case struct_members [''include_status'', ''exclude_status'', ''include_invalidated'', ''audit'', ''fallback''] 0 j
        of None \<Rightarrow> None | Some kvs \<Rightarrow>
     (case default_member None (optional_of_json (vec_of_json learning_status_of_json)) kvs ''include_status''
        of None \<Rightarrow> None | Some include_status \<Rightarrow>
     (case default_member None (optional_of_json (vec_of_json learning_status_of_json)) kvs ''exclude_status''
        of None \<Rightarrow> None | Some exclude_status \<Rightarrow>
     (case default_member False json_as_bool kvs ''include_invalidated'' of None \<Rightarrow> None | Some include_invalidated \<Rightarrow>
     (case default_member False json_as_bool kvs ''audit'' of None \<Rightarrow> None | Some audit \<Rightarrow>
     (case default_member False fallback_of_json kvs ''fallback'' of None \<Rightarrow> None | Some include_global \<Rightarrow>
        Some \<lparr>lf_include_status = include_status, lf_exclude_status = exclude_status,
              lf_include_invalidated = include_invalidated, lf_audit = audit,
              lf_include_global = include_global\<rparr>))))))"

definition filter_condition :: "string \<Rightarrow> string \<Rightarrow> json \<Rightarrow> json" where
  "filter_condition field op_name v = JObj [(''field'', JStr field), (''op'', JStr op_name), (''value'', v)]"

definition status_condition :: "string \<Rightarrow> learning_status list option \<Rightarrow> json list" where
  "status_condition op_name statuses =
     (case statuses of
        Some sts \<Rightarrow>
          if sts \<noteq> [] then
            [filter_condition ''metadata.learning.status'' op_name (JArr (map (\<lambda>st. JStr (learning_status_name st)) sts))]
          else []
      | None \<Rightarrow> [])"

definition apply_learning_filter :: "learning_filter \<Rightarrow> memory_query \<Rightarrow> memory_query" where
  "apply_learning_filter f q =
     (let effective_include_invalidated = (lf_audit f \<or> lf_include_invalidated f);
          conditions = status_condition ''in'' (lf_include_status f) @
            status_condition ''not_in'' (lf_exclude_status f) @
            (if \<not> effective_include_invalidated
             then [filter_condition ''metadata.learning.invalidated'' ''ne'' (JBool True)] else [])
      in if conditions = [] then q
         else
           (let new_filter = (case conditions of [c] \<Rightarrow> c | _ \<Rightarrow> JObj [(''and'', JArr conditions)])
            in q\<lparr>mq_metadata_filter := Some
                   (case mq_metadata_filter q of
                      None \<Rightarrow> new_filter
                    | Some existing \<Rightarrow> JObj [(''and'', JArr [existing, new_filter])])\<rparr>))"

definition broad_destructive_hint :: string where
  "broad_destructive_hint =
     ''Destructive operations require an `id`, a scope field (user_id / agent_id / run_id / namespace), or an explicit `include_status` filter. Provide at least one to proceed.''"

definition validate_destructive_filter :: "string option \<Rightarrow> memory_query \<Rightarrow> learning_filter \<Rightarrow> string + unit" where
  "validate_destructive_filter i q f =
     (let has_id = (case i of Some s \<Rightarrow> trim s \<noteq> [] | None \<Rightarrow> False);
          has_scope = (mq_user_id q \<noteq> None \<or> mq_agent_id q \<noteq> None \<or> mq_run_id q \<noteq> None \<or> mq_namespace q \<noteq> None);
          has_status_filter = (case lf_include_status f of Some v \<Rightarrow> v \<noteq> [] | None \<Rightarrow> False)
      in if has_id \<or> has_scope \<or> has_status_filter then Inr () else Inl broad_destructive_hint)"

section \<open>Responses\<close>

text \<open>The answer about one entry, without its fixed contract and summary.\<close>

record learning_response =
  lr_record :: memory
  lr_schema_version :: u32
  lr_kind :: learning_kind
  lr_status :: learning_status
  lr_scope :: learning_scope
  lr_lifecycle_state :: learning_lifecycle_state
  lr_included_in_default_list :: bool
  lr_included_in_default_search :: bool
  lr_injectable_by_default :: bool

definition compute_default_inclusion :: "learning_status \<Rightarrow> learning_lifecycle_state \<Rightarrow> bool \<times> bool \<times> bool" where
  "compute_default_inclusion status lifecycle_state =
     (if lifecycle_state \<noteq> LL_Active then (False, False, False)
      else
        (case status of
           LS_Candidate \<Rightarrow> (True, False, False)
         | LS_Confirmed \<Rightarrow> (True, True, True)
         | LS_Rule \<Rightarrow> (True, True, True)
         | LS_Rejected \<Rightarrow> (False, False, False)
         | LS_Superseded \<Rightarrow> (False, False, False)
         | LS_Archived \<Rightarrow> (False, False, False)))"

definition build_learning_response ::
  "memory \<Rightarrow> learning_kind \<Rightarrow> learning_status \<Rightarrow> learning_scope \<Rightarrow> learning_lifecycle_state \<Rightarrow> u32 \<Rightarrow> learning_response" where
  "build_learning_response rec kind status scope lifecycle_state schema_version =
     (case compute_default_inclusion status lifecycle_state of
        (in_list, in_search, injectable) \<Rightarrow>
          \<lparr>lr_record = rec, lr_schema_version = schema_version, lr_kind = kind, lr_status = status, lr_scope = scope,
           lr_lifecycle_state = lifecycle_state, lr_included_in_default_list = in_list,
           lr_included_in_default_search = in_search, lr_injectable_by_default = injectable\<rparr>)"

section \<open>Reading back what was written\<close>

lemma learning_kind_names [simp]: "learning_kind_of_name (learning_kind_name k) = Some k"
  by (cases k) (simp_all add: learning_kind_of_name_def)

lemma scope_level_names [simp]: "scope_level_of_name (scope_level_name l) = Some l"
  by (cases l) (simp_all add: scope_level_of_name_def)

lemma created_from_names [simp]: "created_from_of_name (created_from_name c) = Some c"
  by (cases c) (simp_all add: created_from_of_name_def)

lemma unit_variant_str [simp]: "unit_variant_of_json f (JStr s) = f s"
  by (simp add: unit_variant_of_json_def)

text \<open>What a reader finds of a member that may have been left out.\<close>

definition opt_json :: "string option \<Rightarrow> json option" where
  "opt_json v = map_option JStr v"

definition strings_json :: "string list \<Rightarrow> json option" where
  "strings_json xs = (if xs = [] then None else Some (JArr (map JStr xs)))"

lemma map_of_opt_member [simp]:
  "map_of r k = None \<Longrightarrow> map_of (opt_member k v @ r) k = opt_json v"
  "map_of (opt_member k v) k = opt_json v"
  "k' \<noteq> k \<Longrightarrow> map_of (opt_member k v @ r) k' = map_of r k'"
  "k' \<noteq> k \<Longrightarrow> map_of (opt_member k v) k' = None"
  by (simp_all add: opt_member_def opt_json_def split: option.split)

lemma map_of_strings_member [simp]:
  "map_of r k = None \<Longrightarrow> map_of (strings_member k xs @ r) k = strings_json xs"
  "map_of (strings_member k xs) k = strings_json xs"
  "k' \<noteq> k \<Longrightarrow> map_of (strings_member k xs @ r) k' = map_of r k'"
  "k' \<noteq> k \<Longrightarrow> map_of (strings_member k xs) k' = None"
  by (simp_all add: strings_member_def strings_json_def)

lemma elements_strs [simp]: "elements_of_json json_as_str (map JStr xs) = Some xs"
  by (induction xs) simp_all

lemma read_opt_string [simp]:
  "(case opt_json v of None \<Rightarrow> Some None | Some j \<Rightarrow> optional_of_json json_as_str j) = Some v"
  by (cases v) (simp_all add: opt_json_def optional_of_json_def)

lemma read_opt_strings [simp]:
  "(case strings_json xs of None \<Rightarrow> Some [] | Some j \<Rightarrow> vec_of_json json_as_str j) = Some xs"
  by (simp add: strings_json_def vec_of_json_def)

lemma read_u32 [simp]: "u32_of_json (JNum (unsigned w)) = Some w"
proof -
  have "unat w < 2 ^ LENGTH(32)" by (rule unsigned_less)
  then have "real (unat w) < real (2 ^ LENGTH(32))" by (simp only: of_nat_less_iff)
  then have "real (unat w) < 4294967296" by (simp del: of_nat_unat)
  moreover have "unsigned w = real (unat w)" by simp
  moreover have "(of_nat (unat w) :: u32) = w" by simp
  ultimately show ?thesis unfolding u32_of_json_def by (simp del: of_nat_unat)
qed

lemmas struct_read = struct_members_def required_member_def default_member_def

lemma learning_scope_json: "learning_scope_of_json (learning_scope_to_json c) = Some c"
  by (simp add: learning_scope_of_json_def learning_scope_to_json_def struct_read del: map_of_append)

lemma learning_source_json: "learning_source_of_json (learning_source_to_json c) = Some c"
  by (simp add: learning_source_of_json_def learning_source_to_json_def struct_read del: map_of_append)

lemma learning_metadata_json: "learning_metadata_of_json (learning_metadata_to_json lm) = Some lm"
  by (simp add: learning_metadata_of_json_def learning_metadata_to_json_def struct_read f64_of_json_def
      learning_scope_json learning_source_json learning_status_names del: map_of_append)

lemma learning_status_member:
  "json_get (learning_metadata_to_json lm) ''status'' = Some (JStr (learning_status_name (lm_status lm)))"
  by (simp add: learning_metadata_to_json_def)

text \<open>Writing a learning entry and validating what was written gives the same entry back, whatever its optional
  members, and the validation accepts exactly the entries of schema version 1 with a confidence
  between 0 and 1; of two faults the schema version is reported.\<close>
theorem learning_metadata_roundtrip:
  "validate_learning_metadata (learning_metadata_to_json lm) =
     (if lm_schema_version lm \<noteq> 1 then Inl (LE_SchemaVersion (lm_schema_version lm))
      else if lm_confidence lm < 0 \<or> 1 < lm_confidence lm then Inl (LE_Confidence (lm_confidence lm))
      else Inr lm)"
  by (auto simp: validate_learning_metadata_def learning_metadata_json)

text \<open>The error of a missing member names the member; the error of an unknown variant names the value.\<close>

lemma dropWhile_clean: "CHR 0x60 \<notin> set p \<Longrightarrow> dropWhile (\<lambda>c. c \<noteq> CHR 0x60) (p @ CHR 0x60 # r) = CHR 0x60 # r"
  by (induction p) auto

lemma takeWhile_clean: "CHR 0x60 \<notin> set p \<Longrightarrow> takeWhile (\<lambda>c. c \<noteq> CHR 0x60) (p @ CHR 0x60 # r) = p"
  by (induction p) auto

lemma extract_between_backticks:
  assumes "CHR 0x60 \<notin> set p" and "CHR 0x60 \<notin> set f"
  shows "extract_field_from_serde_error (p @ CHR 0x60 # f @ CHR 0x60 # r) = f"
  using assms by (simp add: extract_field_from_serde_error_def dropWhile_clean takeWhile_clean)

lemma extract_unknown_variant:
  "extract_field_from_serde_error ''unknown variant `pending`, expected one of `candidate`, `confirmed`'' = ''pending''"
  using extract_between_backticks [of "''unknown variant ''" "''pending''" "'', expected one of `candidate`, `confirmed`''"]
  by simp

section \<open>What the flags say\<close>

lemma learning_active_iff: "extract_learning_status m = Some st \<Longrightarrow> derive_lifecycle_state m = LL_Active \<longleftrightarrow>
    m_valid_until m = None \<and> (st = LS_Confirmed \<or> st = LS_Rule)"
  by (cases st) (auto simp: derive_lifecycle_state_def)

lemma inclusion_flags:
  assumes "extract_learning_status m = Some st"
  shows "compute_default_inclusion st (derive_lifecycle_state m) =
    (let on = (m_valid_until m = None \<and> (st = LS_Confirmed \<or> st = LS_Rule)) in (on, on, on))"
proof (cases "derive_lifecycle_state m = LL_Active")
  case True
  with assms learning_active_iff [OF assms] show ?thesis by (auto simp: compute_default_inclusion_def)
next
  case False
  with assms learning_active_iff [OF assms] show ?thesis by (auto simp: compute_default_inclusion_def)
qed

text \<open>The table of the documentation lists candidates by default; no stored candidate is ever so flagged.\<close>

lemma candidate_never_listed:
  "extract_learning_status m = Some LS_Candidate \<Longrightarrow>
     lr_included_in_default_list (build_learning_response m k LS_Candidate sc (derive_lifecycle_state m) v) = False"
  by (simp add: build_learning_response_def inclusion_flags split: prod.split)

section \<open>Filters never match\<close>

text \<open>The storage reads a metadata filter as a JSON value to be contained in the metadata of a memory
  (\<open>metadata_matches\<close>), not as a list of conditions.\<close>

lemma apply_learning_filter_shape:
  assumes "apply_learning_filter f memory_query_default \<noteq> memory_query_default"
  obtains cond where "apply_learning_filter f memory_query_default = memory_query_default\<lparr>mq_metadata_filter := Some cond\<rparr>"
    and "\<And>m. json_contains m cond \<Longrightarrow> json_get m ''and'' \<noteq> None \<or> json_get m ''field'' \<noteq> None"
proof -
  define conds where "conds = status_condition ''in'' (lf_include_status f) @
      status_condition ''not_in'' (lf_exclude_status f) @
      (if \<not> (lf_audit f \<or> lf_include_invalidated f)
       then [filter_condition ''metadata.learning.invalidated'' ''ne'' (JBool True)] else [])"
  define cond where "cond = (case conds of [c] \<Rightarrow> c | _ \<Rightarrow> JObj [(''and'', JArr conds)])"
  have "conds \<noteq> []" using assms by (auto simp: apply_learning_filter_def conds_def)
  then have 1: "apply_learning_filter f memory_query_default = memory_query_default\<lparr>mq_metadata_filter := Some cond\<rparr>"
    unfolding apply_learning_filter_def Let_def conds_def [symmetric] cond_def by (simp add: memory_query_default_def)
  have status: "\<exists>fld o' v. c = filter_condition fld o' v" if "c \<in> set (status_condition op_name sts)" for c op_name sts
    using that by (auto simp: status_condition_def split: option.splits if_splits)
  have "\<exists>fld o' v. c = filter_condition fld o' v" if "c \<in> set conds" for c
    using that status unfolding conds_def by (auto split: if_splits)
  then have "\<exists>fld o' v. cond = filter_condition fld o' v" if "conds = [c]" for c
    using that by (simp add: cond_def)
  moreover have "cond = JObj [(''and'', JArr conds)]" if "\<And>c. conds \<noteq> [c]"
    using that by (auto simp: cond_def split: list.split)
  ultimately have "json_get m ''and'' \<noteq> None \<or> json_get m ''field'' \<noteq> None" if "json_contains m cond" for m
    using that by (cases "\<exists>c. conds = [c]") (auto simp: filter_condition_def json_contains_obj)
  with 1 show ?thesis by (rule that)
qed

end
