(* ===== verification/LearningTools.thy ===== *)
theory LearningTools
  imports Learning RetrievalQuery SearchTypes
begin

text \<open>
  The tools that create, read, list, update, promote, reject, archive, supersede, delete and migrate
  learning entries, \<open>src/server/logic/learning.rs\<close>, over the memory table and its lexical index. The
  embedding model, the content hash, the nearest-neighbour operator of the database and the rendering of JSON are
  parameters; \<open>now\<close> is what the clock
  reads during a call. Assigning a member of a JSON value that is neither an object nor null panics,
  which is the error \<open>TE_Panic\<close>.
\<close>

record learning_env = service_env +
  lx_render_json :: "json \<Rightarrow> string"
  lx_vector :: vector_engine

datatype tool_error =
    TE_Service service_error
  | TE_Message string
  | TE_Invalid string learning_error
  | TE_Lifecycle string learning_lifecycle_state
  | TE_Promotion learning_status learning_status
  | TE_Panic

type_synonym 'a tool_result = "tool_error + 'a"

section \<open>Entries of memories\<close>

definition kind_status_to_memory_type :: "learning_kind \<Rightarrow> learning_status \<Rightarrow> memory_type" where
  "kind_status_to_memory_type kind status =
     (if kind = LK_WorkflowRule \<or> status = LS_Rule then Procedural
      else
        (case kind of
           LK_ProjectLesson \<Rightarrow> Episodic
         | LK_UserPreference \<Rightarrow> Semantic
         | LK_ProjectPattern \<Rightarrow> Semantic
         | LK_ProjectPitfall \<Rightarrow> Semantic
         | LK_WorkflowRule \<Rightarrow> Procedural))"

definition learning_member :: "memory \<Rightarrow> json option" where
  "learning_member m = (case m_metadata m of None \<Rightarrow> None | Some md \<Rightarrow> json_get md ''learning'')"

definition extract_learning_fields ::
  "memory \<Rightarrow> (learning_kind \<times> learning_status \<times> learning_scope \<times> u32) option" where
  "extract_learning_fields m =
     (case learning_member m of
        None \<Rightarrow> None
      | Some l \<Rightarrow>
          (case learning_metadata_of_json l of
             None \<Rightarrow> None
           | Some lm \<Rightarrow> Some (lm_kind lm, lm_status lm, lm_scope lm, lm_schema_version lm)))"

definition memory_id :: "memory \<Rightarrow> string option" where
  "memory_id m = map_option rid_key (m_id m)"

text \<open>\<open>Value::as_u64\<close> is some.\<close>

fun is_u64 :: "json \<Rightarrow> bool" where
  "is_u64 (JNum r) \<longleftrightarrow> r = of_int \<lfloor>r\<rfloor> \<and> 0 \<le> r \<and> r < 18446744073709551616"
| "is_u64 _ \<longleftrightarrow> False"

definition has_learning_schema :: "memory \<Rightarrow> bool" where
  "has_learning_schema m \<longleftrightarrow>
     (case learning_member m of
        None \<Rightarrow> False
      | Some l \<Rightarrow> (case json_get l ''schema_version'' of None \<Rightarrow> False | Some v \<Rightarrow> is_u64 v))"

definition metadata_text_contains :: "'a learning_env_scheme \<Rightarrow> memory \<Rightarrow> string list \<Rightarrow> bool" where
  "metadata_text_contains env m needles =
     (case m_metadata m of
        None \<Rightarrow> False
      | Some md \<Rightarrow> (let body = str_lower (lx_render_json env md) in list_ex (\<lambda>n. str_contains body n) needles))"

section \<open>Writing a member\<close>

text \<open>\<open>value[key] = v\<close>: null becomes an object, an object is updated, anything else panics (\<open>None\<close>).\<close>

fun json_put :: "json \<Rightarrow> string \<Rightarrow> json \<Rightarrow> json option" where
  "json_put JNull k v = Some (JObj [(k, v)])"
| "json_put (JObj kvs) k v = Some (JObj (hm_insert k v kvs))"
| "json_put _ k v = None"

definition json_put_opt :: "string \<Rightarrow> json option \<Rightarrow> json \<Rightarrow> json option" where
  "json_put_opt k v j = (case v of None \<Rightarrow> Some j | Some x \<Rightarrow> json_put j k x)"

definition learning_or_empty :: "memory \<Rightarrow> json" where
  "learning_or_empty m = (case learning_member m of Some l \<Rightarrow> l | None \<Rightarrow> JObj [])"

definition with_learning :: "memory \<Rightarrow> json \<Rightarrow> json option" where
  "with_learning m l = json_put (case m_metadata m of Some md \<Rightarrow> md | None \<Rightarrow> JObj []) ''learning'' l"

definition metadata_update :: "json \<Rightarrow> memory_update" where
  "metadata_update md =
     \<lparr>mu_content = None, mu_memory_type = None, mu_user_id = None, mu_agent_id = None, mu_run_id = None,
      mu_namespace = None, mu_importance_score = None, mu_metadata = Some md, mu_embedding = None,
      mu_content_hash = None, mu_embedding_state = None\<rparr>"

section \<open>Creating and reading\<close>

record learning_create_params =
  np_content :: string
  np_kind :: string
  np_status :: "string option"
  np_confidence :: "real option"
  np_scope :: "string option"
  np_project_id :: "string option"
  np_source :: "string option"
  np_evidence :: "string list option"
  np_applies_to :: "string list option"
  np_trigger_hints :: "string list option"
  np_constraints :: "string list option"

definition quoted :: "string \<Rightarrow> string" where
  "quoted s = CHR 0x27 # s @ [CHR 0x27]"

definition invalid_name :: "string \<Rightarrow> string \<Rightarrow> tool_error" where
  "invalid_name what v = TE_Message (''Invalid '' @ what @ '': '' @ quoted v)"

text \<open>A name that may be missing: its default, its meaning, or an error.\<close>

definition parse_name :: "string \<Rightarrow> (string \<Rightarrow> 'a option) \<Rightarrow> 'a \<Rightarrow> string option \<Rightarrow> 'a tool_result" where
  "parse_name what of_name fallback v =
     (case v of
        None \<Rightarrow> Inr fallback
      | Some s \<Rightarrow> (case of_name s of Some x \<Rightarrow> Inr x | None \<Rightarrow> Inl (invalid_name what s)))"

definition scope_of_project :: "scope_level \<Rightarrow> string option \<Rightarrow> learning_scope" where
  "scope_of_project level project_id =
     \<lparr>lc_level = level, lc_project_id = project_id, lc_workspace = None, lc_mode = None, lc_user_id = None,
      lc_agent_id = None, lc_run_id = None, lc_namespace = None\<rparr>"

definition strings_or_empty :: "string list option \<Rightarrow> string list" where
  "strings_or_empty v = (case v of Some xs \<Rightarrow> xs | None \<Rightarrow> [])"

definition created_metadata ::
  "learning_create_params \<Rightarrow> learning_kind \<Rightarrow> learning_status \<Rightarrow> real \<Rightarrow> learning_scope \<Rightarrow> created_from \<Rightarrow> learning_metadata" where
  "created_metadata p kind status confidence scope created_from =
     \<lparr>lm_schema_version = 1, lm_kind = kind, lm_status = status, lm_confidence = confidence, lm_scope = scope,
      lm_source = \<lparr>lo_created_from = created_from, lo_client = None, lo_source_memory_ids = []\<rparr>,
      lm_evidence = strings_or_empty (np_evidence p), lm_applies_to = strings_or_empty (np_applies_to p),
      lm_trigger_hints = strings_or_empty (np_trigger_hints p), lm_supersedes = [],
      lm_constraints = strings_or_empty (np_constraints p)\<rparr>"

text \<open>The record that \<open>create\<close> and \<open>migrate_legacy\<close> build.\<close>

definition learning_memory ::
  "'a learning_env_scheme \<Rightarrow> datetime \<Rightarrow> string \<Rightarrow> memory_type \<Rightarrow> json \<Rightarrow> real \<Rightarrow> real list \<Rightarrow> memory" where
  "learning_memory env now content ty learning_val importance embedding =
     (memory_new now content)
       \<lparr>m_embedding := Some embedding, m_memory_type := ty, m_metadata := Some (JObj [(''learning'', learning_val)]),
        m_importance_score := importance, m_content_hash := Some (se_hash env content),
        m_embedding_state := ES_Ready\<rparr>"

definition learning_create ::
  "'e bm25_api \<Rightarrow> 'a learning_env_scheme \<Rightarrow> datetime \<Rightarrow> string \<Rightarrow> learning_create_params \<Rightarrow> 'e memory_service \<Rightarrow>
   learning_response tool_result \<times> 'e memory_service" where
  "learning_create api env now new_id p s =
     (case se_ready env of Some e \<Rightarrow> (Inl (TE_Service e), s) | None \<Rightarrow>
     (case learning_kind_of_name (np_kind p) of None \<Rightarrow> (Inl (invalid_name ''kind'' (np_kind p)), s) | Some kind \<Rightarrow>
     (case parse_name ''status'' learning_status_of_name LS_Candidate (np_status p) of Inl e \<Rightarrow> (Inl e, s) | Inr status \<Rightarrow>
     (case parse_name ''scope'' scope_level_of_name SC_Global (np_scope p) of Inl e \<Rightarrow> (Inl e, s) | Inr scope_level \<Rightarrow>
     (case parse_name ''source'' created_from_of_name CF_Manual (np_source p) of Inl e \<Rightarrow> (Inl e, s) | Inr created_from \<Rightarrow>
     (let confidence = (case np_confidence p of Some c \<Rightarrow> c | None \<Rightarrow> 1 / 2)
      in if \<not> (0 \<le> confidence \<and> confidence \<le> 1) then (Inl (TE_Message ''confidence must be in [0.0, 1.0]''), s)
         else
     (let scope = scope_of_project scope_level (np_project_id p);
          learning_val = learning_metadata_to_json (created_metadata p kind status confidence scope created_from)
      in case validate_learning_metadata learning_val of Inl e \<Rightarrow> (Inl (TE_Invalid [] e), s) | Inr _ \<Rightarrow>
     (case se_embed env (np_content p) of Inl e \<Rightarrow> (Inl (TE_Service (SE_App e)), s) | Inr embedding \<Rightarrow>
     (case create_and_sync_memory api new_id
         (learning_memory env now (np_content p) (kind_status_to_memory_type kind status) learning_val 1 embedding) s of
        (Inl e, s') \<Rightarrow> (Inl (TE_Service (SE_App e)), s')
      | (Inr i, s') \<Rightarrow>
          (case get_memory (sv_table s') i of
             None \<Rightarrow> (Inl (TE_Message (''Memory not found after create: '' @ i)), s')
           | Some stored0 \<Rightarrow>
               (let stored = stored0\<lparr>m_embedding := None\<rparr>
                in (Inr (build_learning_response stored kind status scope (derive_lifecycle_state stored) 1), s'))))))))))))"

definition no_learning :: "string \<Rightarrow> tool_error" where
  "no_learning i = TE_Message (''Memory '' @ quoted i @ '' does not have valid learning metadata'')"

definition response_of :: "memory \<Rightarrow> learning_response option" where
  "response_of m =
     (case extract_learning_fields m of
        None \<Rightarrow> None
      | Some (kind, status, scope, schema_version) \<Rightarrow>
          Some (build_learning_response m kind status scope (derive_lifecycle_state m) schema_version))"

definition learning_get :: "string \<Rightarrow> 'e memory_service \<Rightarrow> learning_response tool_result" where
  "learning_get i s =
     (case get_memory (sv_table s) i of
        None \<Rightarrow> Inl (TE_Message (''Memory not found: '' @ i))
      | Some m \<Rightarrow>
          (case response_of (m\<lparr>m_embedding := None\<rparr>) of
             None \<Rightarrow> Inl (no_learning i)
           | Some r \<Rightarrow> Inr r))"

record learning_list_answer =
  ll_records :: "learning_response list"
  ll_total :: nat
  ll_limit :: nat
  ll_offset :: nat

text \<open>How the filter of the caller changes the default one.\<close>

definition merge_caller_filter :: "learning_filter \<Rightarrow> learning_filter \<Rightarrow> learning_filter" where
  "merge_caller_filter f caller =
     (let f1 = (if lf_include_status caller \<noteq> None then f\<lparr>lf_include_status := lf_include_status caller\<rparr> else f);
          f2 = (if lf_exclude_status caller \<noteq> None then f1\<lparr>lf_exclude_status := lf_exclude_status caller\<rparr> else f1);
          f3 = (if lf_include_invalidated caller then f2\<lparr>lf_include_invalidated := True\<rparr> else f2);
          f4 = (if lf_audit caller then f3\<lparr>lf_audit := True\<rparr> else f3)
      in f4\<lparr>lf_include_global := lf_include_global caller\<rparr>)"

definition learning_list ::
  "datetime \<Rightarrow> json option \<Rightarrow> nat option \<Rightarrow> nat option \<Rightarrow> 'e memory_service \<Rightarrow> learning_list_answer tool_result" where
  "learning_list now filter_val limit_opt offset_opt s =
     (let limit = normalize_limit limit_opt;
          offset = (case offset_opt of Some o' \<Rightarrow> o' | None \<Rightarrow> 0);
          parsed = (case filter_val of
             None \<Rightarrow> Some default_list_filter
           | Some v \<Rightarrow> map_option (merge_caller_filter default_list_filter) (learning_filter_of_json v))
      in case parsed of
           None \<Rightarrow> Inl (TE_Message ''Invalid filter'')
         | Some f \<Rightarrow>
             (let query = apply_learning_filter f memory_query_default;
                  memories = map (\<lambda>m. m\<lparr>m_embedding := None\<rparr>) (list_memories now query limit offset (sv_table s));
                  total = count_memories_filtered now query (sv_table s)
              in Inr \<lparr>ll_records = List.map_filter response_of memories, ll_total = total, ll_limit = limit,
                      ll_offset = offset\<rparr>))"

section \<open>Changing an entry\<close>

definition write_metadata ::
  "'e bm25_api \<Rightarrow> string \<Rightarrow> memory_update \<Rightarrow> 'e memory_service \<Rightarrow> memory tool_result \<times> 'e memory_service" where
  "write_metadata api i u s =
     (case update_memory i u (sv_table s) of
        (Inl e, t) \<Rightarrow> (Inl (TE_Service (SE_App e)), s\<lparr>sv_table := t\<rparr>)
      | (Inr m, t) \<Rightarrow> (Inr m, s\<lparr>sv_table := t, sv_index := upsert_memory api m (sv_index s)\<rparr>))"

text \<open>The answer after \<open>update\<close> and \<open>promote\<close>: what was written is validated after the write.\<close>

definition validated_response :: "string \<Rightarrow> memory \<Rightarrow> learning_response tool_result" where
  "validated_response what m0 =
     (let m = m0\<lparr>m_embedding := None\<rparr>
      in case validate_learning_metadata (learning_or_empty m) of
           Inl e \<Rightarrow> Inl (TE_Invalid what e)
         | Inr lm \<Rightarrow> Inr (build_learning_response m (lm_kind lm) (lm_status lm) (lm_scope lm)
                           (derive_lifecycle_state m) (lm_schema_version lm)))"

definition not_found :: "string \<Rightarrow> tool_error" where
  "not_found i = TE_Message (''Record not found: '' @ i)"

record learning_update_params =
  nu_id :: string
  nu_content :: "string option"
  nu_confidence :: "real option"
  nu_evidence :: "string list option"

definition learning_update ::
  "'e bm25_api \<Rightarrow> learning_update_params \<Rightarrow> 'e memory_service \<Rightarrow>
   learning_response tool_result \<times> 'e memory_service" where
  "learning_update api p s =
     (case get_memory (sv_table s) (nu_id p) of
        None \<Rightarrow> (Inl (not_found (nu_id p)), s)
      | Some m \<Rightarrow>
          (let lifecycle = derive_lifecycle_state m
           in if lifecycle \<in> {LL_Rejected, LL_Archived, LL_Superseded, LL_Invalidated} then
                (Inl (TE_Lifecycle ''Cannot update record in lifecycle state'' lifecycle), s)
              else if (case nu_confidence p of Some c \<Rightarrow> \<not> (0 \<le> c \<and> c \<le> 1) | None \<Rightarrow> False) then
                (Inl (TE_Message ''confidence must be in [0.0, 1.0]''), s)
              else
                (case json_put_opt ''confidence'' (map_option JNum (nu_confidence p)) (learning_or_empty m) of
                   None \<Rightarrow> (Inl TE_Panic, s)
                 | Some l1 \<Rightarrow>
                (case json_put_opt ''evidence'' (map_option (\<lambda>xs. JArr (map JStr xs)) (nu_evidence p)) l1 of
                   None \<Rightarrow> (Inl TE_Panic, s)
                 | Some l2 \<Rightarrow>
                (case with_learning m l2 of
                   None \<Rightarrow> (Inl TE_Panic, s)
                 | Some full_metadata \<Rightarrow>
                (case write_metadata api (nu_id p) ((metadata_update full_metadata)\<lparr>mu_content := nu_content p\<rparr>) s of
                   (Inl e, s') \<Rightarrow> (Inl e, s')
                 | (Inr updated, s') \<Rightarrow> (validated_response ''Invalid learning metadata'' updated, s')))))))"

definition promotion_allowed :: "learning_status \<Rightarrow> learning_status \<Rightarrow> bool" where
  "promotion_allowed current target \<longleftrightarrow>
     (current, target) \<in> {(LS_Candidate, LS_Confirmed), (LS_Candidate, LS_Rule), (LS_Confirmed, LS_Rule)}"

record learning_promote_params =
  nm_id :: string
  nm_target_status :: string
  nm_target_kind :: "string option"

text \<open>The promoted entry: the target status, and the kind when one is given.\<close>

definition promoted_learning :: "learning_status \<Rightarrow> string option \<Rightarrow> memory \<Rightarrow> json tool_result" where
  "promoted_learning target target_kind m =
     (case json_put (learning_or_empty m) ''status'' (JStr (learning_status_name target)) of
        None \<Rightarrow> Inl TE_Panic
      | Some l1 \<Rightarrow>
     (case target_kind of
        None \<Rightarrow> Inr l1
      | Some k \<Rightarrow>
     (case learning_kind_of_name k of
        None \<Rightarrow> Inl (invalid_name ''target_kind'' k)
      | Some kind \<Rightarrow>
     (case json_put l1 ''kind'' (JStr (learning_kind_name kind)) of
        None \<Rightarrow> Inl TE_Panic
      | Some l2 \<Rightarrow> Inr l2))))"

definition learning_promote ::
  "'e bm25_api \<Rightarrow> learning_promote_params \<Rightarrow> 'e memory_service \<Rightarrow>
   learning_response tool_result \<times> 'e memory_service" where
  "learning_promote api p s =
     (case learning_status_of_name (nm_target_status p) of
        None \<Rightarrow> (Inl (invalid_name ''target_status'' (nm_target_status p)), s)
      | Some target \<Rightarrow>
     (if target \<notin> {LS_Confirmed, LS_Rule} then (Inl (invalid_name ''promotion target'' (nm_target_status p)), s)
      else
     (case get_memory (sv_table s) (nm_id p) of
        None \<Rightarrow> (Inl (not_found (nm_id p)), s)
      | Some m \<Rightarrow>
     (let lifecycle = derive_lifecycle_state m
      in if lifecycle \<in> {LL_Rejected, LL_Archived, LL_Superseded, LL_Invalidated, LL_Unknown} then
           (Inl (TE_Lifecycle ''Cannot promote record in lifecycle state'' lifecycle), s)
         else
     (let current = (case extract_learning_status m of Some st \<Rightarrow> st | None \<Rightarrow> LS_Candidate)
      in if \<not> promotion_allowed current target then (Inl (TE_Promotion current target), s)
         else
     (case promoted_learning target (nm_target_kind p) m of
        Inl e \<Rightarrow> (Inl e, s)
      | Inr l2 \<Rightarrow>
     (case with_learning m l2 of
        None \<Rightarrow> (Inl TE_Panic, s)
      | Some full_metadata \<Rightarrow>
     (let new_memory_type = (if target = LS_Rule then Some Procedural else None)
      in case write_metadata api (nm_id p) ((metadata_update full_metadata)\<lparr>mu_memory_type := new_memory_type\<rparr>) s of
           (Inl e, s') \<Rightarrow> (Inl e, s')
         | (Inr updated, s') \<Rightarrow>
             (validated_response ''Invalid learning metadata after promote'' updated, s')))))))))"

section \<open>Ending an entry\<close>

text \<open>The common end of \<open>reject\<close>, \<open>archive\<close> and \<open>supersede\<close>: the status and \<open>extra\<close> members are written into the
  metadata, the memory is invalidated, and only then the index is told.\<close>

fun json_put_all :: "(string \<times> json) list \<Rightarrow> json \<Rightarrow> json option" where
  "json_put_all [] j = Some j"
| "json_put_all ((k, v) # kvs) j = (case json_put j k v of None \<Rightarrow> None | Some j' \<Rightarrow> json_put_all kvs j')"

definition end_learning ::
  "'e bm25_api \<Rightarrow> datetime \<Rightarrow> string \<Rightarrow> string \<Rightarrow> string \<Rightarrow> string option \<Rightarrow> learning_status \<Rightarrow> (string \<times> json) list \<Rightarrow> memory \<Rightarrow>
   learning_kind \<Rightarrow> learning_scope \<Rightarrow> u32 \<Rightarrow> 'e memory_service \<Rightarrow> learning_response tool_result \<times> 'e memory_service" where
  "end_learning api now tool i reason superseded_by status extra m kind scope schema_version s =
     (case json_put_all ((''status'', JStr (learning_status_name status)) # extra) (learning_or_empty m) of
        None \<Rightarrow> (Inl TE_Panic, s)
      | Some l \<Rightarrow>
     (case with_learning m l of
        None \<Rightarrow> (Inl TE_Panic, s)
      | Some full_metadata \<Rightarrow>
     (case update_memory i (metadata_update full_metadata) (sv_table s) of
        (Inl e, t) \<Rightarrow> (Inl (TE_Service (SE_App e)), s\<lparr>sv_table := t\<rparr>)
      | (Inr _, t1) \<Rightarrow>
     (let t2 = snd (invalidate now i (Some reason) superseded_by t1)
      in case get_memory t2 i of
           None \<Rightarrow> (Inl (TE_Message (''Record not found after '' @ tool @ '': '' @ i)), s\<lparr>sv_table := t2\<rparr>)
         | Some ended_row \<Rightarrow>
             (let final = ended_row\<lparr>m_embedding := None\<rparr>
              in (Inr (build_learning_response final kind status scope (derive_lifecycle_state final) schema_version),
                  s\<lparr>sv_table := t2, sv_index := upsert_memory api ended_row (sv_index s)\<rparr>))))))"

definition learning_reject ::
  "'e bm25_api \<Rightarrow> datetime \<Rightarrow> string \<Rightarrow> 'e memory_service \<Rightarrow> learning_response tool_result \<times> 'e memory_service" where
  "learning_reject api now i s =
     (case get_memory (sv_table s) i of
        None \<Rightarrow> (Inl (not_found i), s)
      | Some m \<Rightarrow>
          (case extract_learning_fields m of
             None \<Rightarrow> (Inl (no_learning i), s)
           | Some (kind, _, scope, schema_version) \<Rightarrow>
               end_learning api now ''reject'' i REASON_REJECTED None LS_Rejected [] m kind scope schema_version s))"

definition learning_archive ::
  "'e bm25_api \<Rightarrow> datetime \<Rightarrow> string \<Rightarrow> 'e memory_service \<Rightarrow> learning_response tool_result \<times> 'e memory_service" where
  "learning_archive api now i s =
     (case get_memory (sv_table s) i of
        None \<Rightarrow> (Inl (not_found i), s)
      | Some m \<Rightarrow>
          (case extract_learning_fields m of
             None \<Rightarrow> (Inl (no_learning i), s)
           | Some (kind, _, scope, schema_version) \<Rightarrow>
               end_learning api now ''archive'' i REASON_ARCHIVED None LS_Archived [] m kind scope schema_version s))"

record learning_supersede_params =
  ns_id :: string
  ns_replacement_id :: string
  ns_reason :: "string option"

definition learning_supersede ::
  "'e bm25_api \<Rightarrow> datetime \<Rightarrow> learning_supersede_params \<Rightarrow> 'e memory_service \<Rightarrow>
   learning_response tool_result \<times> 'e memory_service" where
  "learning_supersede api now p s =
     (case get_memory (sv_table s) (ns_id p) of
        None \<Rightarrow> (Inl (not_found (ns_id p)), s)
      | Some m \<Rightarrow>
     (case extract_learning_fields m of
        None \<Rightarrow> (Inl (no_learning (ns_id p)), s)
      | Some (kind, _, scope, schema_version) \<Rightarrow>
     (let lifecycle = derive_lifecycle_state m
      in if lifecycle \<in> {LL_Rejected, LL_Archived, LL_Superseded} then
           (Inl (TE_Lifecycle ''already in a terminal state'' lifecycle), s)
         else if get_memory (sv_table s) (ns_replacement_id p) = None then
           (Inl (TE_Message (''Replacement record not found: '' @ ns_replacement_id p)), s)
         else
           end_learning api now ''supersede'' (ns_id p) REASON_SUPERSEDED (Some (ns_replacement_id p)) LS_Superseded
             ((''superseded_by'', JStr (ns_replacement_id p)) #
              (case ns_reason p of Some r \<Rightarrow> [(''supersede_reason'', JStr r)] | None \<Rightarrow> []))
             m kind scope schema_version s)))"

definition learning_delete ::
  "'e bm25_api \<Rightarrow> datetime \<Rightarrow> string \<Rightarrow> string option \<Rightarrow> 'e memory_service \<Rightarrow>
   learning_response tool_result \<times> 'e memory_service" where
  "learning_delete api now i mode s =
     (let use_reject = (mode = Some ''soft_reject'')
      in if use_reject then learning_reject api now i s else learning_archive api now i s)"

end
