(* ===== verification/LearningMigration.thy ===== *)
theory LearningMigration
  imports LearningTools
begin

text \<open>
  \<open>migrate_legacy\<close> of \<open>src/server/logic/learning.rs\<close>: ordinary memories whose content has one of the
  prefixes of old notes are copied into learning entries. The ids of the created records are given by
  \<open>gen\<close>, applied to the number of records created before. Strings are the bytes of UTF-8.
\<close>

record migrate_params =
  gp_prefix_allowlist :: "string list option"
  gp_scope :: "string option"
  gp_project_id :: "string option"
  gp_dry_run :: bool
  gp_limit :: "nat option"
  gp_include_invalidated :: "bool option"
  gp_invalidate_source :: "bool option"
  gp_extract_research_lessons :: "bool option"

record legacy_classification =
  lg_kind :: "learning_kind option"
  lg_status :: "learning_status option"
  lg_scope :: "learning_scope option"
  lg_outcome :: string
  lg_reason :: string

definition legacy_scope :: "migrate_params \<Rightarrow> learning_scope tool_result" where
  "legacy_scope p =
     (case (case gp_scope p of
              Some s \<Rightarrow> (case scope_level_of_name s of
                           Some level \<Rightarrow> Inr level
                         | None \<Rightarrow> Inl (invalid_name ''scope'' s))
            | None \<Rightarrow> Inr (if gp_project_id p \<noteq> None then SC_Project else SC_Global)) of
        Inl e \<Rightarrow> Inl e
      | Inr level \<Rightarrow> Inr (scope_of_project level (gp_project_id p)))"

definition unclassified :: "string \<Rightarrow> string \<Rightarrow> legacy_classification" where
  "unclassified outcome reason =
     \<lparr>lg_kind = None, lg_status = None, lg_scope = None, lg_outcome = outcome, lg_reason = reason\<rparr>"

definition eligible_as :: "learning_kind \<Rightarrow> learning_status \<Rightarrow> learning_scope \<Rightarrow> string \<Rightarrow> legacy_classification" where
  "eligible_as kind status scope reason =
     \<lparr>lg_kind = Some kind, lg_status = Some status, lg_scope = Some scope, lg_outcome = ''eligible'', lg_reason = reason\<rparr>"

definition user_preference_prefix :: string where
  "user_preference_prefix = ''USER '' @ [CHR 0xE2, CHR 0x80, CHR 0x94] @ '' Preference:''"

definition classify_legacy_memory :: "'a learning_env_scheme \<Rightarrow> migrate_params \<Rightarrow> memory \<Rightarrow> legacy_classification" where
  "classify_legacy_memory env p m =
     (if has_learning_schema m then
        unclassified ''already_migrated'' ''record already has metadata.learning.schema_version''
      else if (case gp_prefix_allowlist p of
                 Some allow \<Rightarrow> \<not> list_ex (\<lambda>prefix. starts_with (m_content m) prefix) allow
               | None \<Rightarrow> False) then
        unclassified ''skipped'' ''content prefix is not in prefix_allowlist''
      else
        (case legacy_scope p of
           Inl _ \<Rightarrow> unclassified ''skipped'' ''invalid target scope''
         | Inr scope \<Rightarrow>
             (let content = dropWhile is_whitespace (m_content m)
              in if starts_with content user_preference_prefix then
                   eligible_as LK_UserPreference LS_Confirmed scope (''USER '' @ [CHR 0xE2, CHR 0x80, CHR 0x94] @ '' Preference prefix'')
                 else if starts_with content ''USER:'' then
                   (if metadata_text_contains env m [''preference'', ''workflow_rule'', ''workflow rule'', ''rule''] then
                      (if metadata_text_contains env m [''workflow_rule'', ''workflow rule'', ''rule''] then
                         eligible_as LK_WorkflowRule LS_Rule scope ''USER metadata rule hint''
                       else eligible_as LK_UserPreference LS_Confirmed scope ''USER metadata preference hint'')
                    else unclassified ''ambiguous'' ''USER prefix requires preference/rule metadata or caller rule'')
                 else if starts_with content ''CONTEXT:'' \<and> lc_level scope = SC_Project then
                   eligible_as LK_ProjectPattern LS_Candidate scope ''CONTEXT project scope''
                 else if starts_with content ''RESEARCH:'' \<and> gp_extract_research_lessons p = Some True then
                   eligible_as LK_ProjectLesson LS_Candidate scope ''RESEARCH explicit lesson extraction''
                 else if starts_with content ''TASK:'' \<or> starts_with content ''EPIC:'' then
                   unclassified ''skipped'' ''TASK and EPIC records are excluded by default''
                 else unclassified ''ambiguous'' ''no eligible legacy learning prefix matched'')))"

record migrated_match =
  mg_confidence :: string
  mg_matched_memory_id :: string

fun find_already_migrated_match ::
  "'a learning_env_scheme \<Rightarrow> string \<Rightarrow> memory \<Rightarrow> legacy_classification \<Rightarrow> memory list \<Rightarrow> migrated_match option" where
  "find_already_migrated_match env legacy_id legacy c [] = None"
| "find_already_migrated_match env legacy_id legacy c (candidate # cs) =
     (case (case learning_member candidate of
              None \<Rightarrow> None
            | Some raw \<Rightarrow> (case validate_learning_metadata raw of Inl _ \<Rightarrow> None | Inr lm \<Rightarrow> Some lm)) of
        None \<Rightarrow> find_already_migrated_match env legacy_id legacy c cs
      | Some lm \<Rightarrow>
     (case memory_id candidate of
        None \<Rightarrow> find_already_migrated_match env legacy_id legacy c cs
      | Some candidate_id \<Rightarrow>
          if lo_created_from (lm_source lm) = CF_Migration \<and> legacy_id \<in> set (lo_source_memory_ids (lm_source lm)) then
            Some \<lparr>mg_confidence = ''primary'', mg_matched_memory_id = candidate_id\<rparr>
          else
            (case (lg_kind c, lg_scope c) of
               (Some kind, Some scope) \<Rightarrow>
                 (let legacy_hash = (case m_content_hash legacy of Some h \<Rightarrow> h | None \<Rightarrow> se_hash env (m_content legacy))
                  in if m_content_hash candidate = Some legacy_hash \<and> lm_kind lm = kind \<and> lm_scope lm = scope then
                       Some \<lparr>mg_confidence = ''secondary'', mg_matched_memory_id = candidate_id\<rparr>
                     else find_already_migrated_match env legacy_id legacy c cs)
             | _ \<Rightarrow> find_already_migrated_match env legacy_id legacy c cs)))"

record migration_counts =
  mc_scanned :: nat
  mc_eligible :: nat
  mc_created :: nat
  mc_skipped :: nat
  mc_ambiguous :: nat
  mc_already_migrated :: nat
  mc_invalidated_skipped :: nat

datatype migration_preview =
    MP_NoId
  | MP_Invalidated string
  | MP_HasSchema string string
  | MP_Ambiguous string string
  | MP_Skipped string string
  | MP_Matched string migrated_match
  | MP_Eligible string string learning_kind learning_status learning_scope bool
  | MP_Created string string learning_kind learning_status learning_scope string bool

record migration_progress =
  mx_counts :: migration_counts
  mx_previews :: "migration_preview list"
  mx_created_records :: "memory list"

definition counted :: "(migration_counts \<Rightarrow> migration_counts) \<Rightarrow> migration_preview \<Rightarrow> migration_progress \<Rightarrow> migration_progress" where
  "counted f pv g = g\<lparr>mx_counts := f (mx_counts g), mx_previews := mx_previews g @ [pv]\<rparr>"

definition migrated_metadata :: "string \<Rightarrow> learning_kind \<Rightarrow> learning_status \<Rightarrow> learning_scope \<Rightarrow> learning_metadata" where
  "migrated_metadata legacy_id kind status scope =
     \<lparr>lm_schema_version = 1, lm_kind = kind, lm_status = status, lm_confidence = 1 / 2, lm_scope = scope,
      lm_source = \<lparr>lo_created_from = CF_Migration, lo_client = None, lo_source_memory_ids = [legacy_id]\<rparr>,
      lm_evidence = [''Migrated from legacy memory '' @ legacy_id], lm_applies_to = [], lm_trigger_hints = [],
      lm_supersedes = [],
      lm_constraints = [''Legacy migration classification should be reviewed before promotion.'']\<rparr>"

text \<open>Invalidating the source of a created entry and telling the index.\<close>

definition invalidate_legacy ::
  "'e bm25_api \<Rightarrow> datetime \<Rightarrow> string \<Rightarrow> string \<Rightarrow> 'e memory_service \<Rightarrow> 'e memory_service" where
  "invalidate_legacy api now legacy_id created_id s =
     (let t = snd (invalidate now legacy_id (Some ''migration_replaced'') (Some created_id) (sv_table s))
      in case get_memory t legacy_id of
           None \<Rightarrow> s\<lparr>sv_table := t\<rparr>
         | Some updated_source \<Rightarrow> s\<lparr>sv_table := t, sv_index := upsert_memory api updated_source (sv_index s)\<rparr>)"

text \<open>The eligible branch: the counts were already increased by one eligible record.\<close>

definition migrate_eligible ::
  "'e bm25_api \<Rightarrow> 'a learning_env_scheme \<Rightarrow> datetime \<Rightarrow> (nat \<Rightarrow> string) \<Rightarrow> migrate_params \<Rightarrow> string \<Rightarrow> memory \<Rightarrow> string \<Rightarrow>
   learning_kind \<Rightarrow> learning_status \<Rightarrow> learning_scope \<Rightarrow> migration_progress \<Rightarrow> 'e memory_service \<Rightarrow>
   migration_progress tool_result \<times> 'e memory_service" where
  "migrate_eligible api env now gen p legacy_id legacy reason kind status scope g s =
     (let invalidate_source = (gp_invalidate_source p = Some True);
          learning_val = learning_metadata_to_json (migrated_metadata legacy_id kind status scope)
      in case validate_learning_metadata learning_val of Inl e \<Rightarrow> (Inl (TE_Invalid [] e), s) | Inr _ \<Rightarrow>
     (if gp_dry_run p then
        (Inr (counted (\<lambda>c. c) (MP_Eligible legacy_id reason kind status scope invalidate_source) g), s)
      else
     (case se_embed env (m_content legacy) of Inl e \<Rightarrow> (Inl (TE_Service (SE_App e)), s) | Inr embedding \<Rightarrow>
     (case create_and_sync_memory api (gen (mc_created (mx_counts g)))
         (learning_memory env now (m_content legacy) (kind_status_to_memory_type kind status) learning_val
            (m_importance_score legacy) embedding) s of
        (Inl e, s1) \<Rightarrow> (Inl (TE_Service (SE_App e)), s1)
      | (Inr created_id, s1) \<Rightarrow>
          (let s2 = (if invalidate_source then invalidate_legacy api now legacy_id created_id s1 else s1);
               shown = (case get_memory (sv_table s1) created_id of None \<Rightarrow> [] | Some m \<Rightarrow> [m\<lparr>m_embedding := None\<rparr>])
           in (Inr (counted (\<lambda>c. c\<lparr>mc_created := mc_created c + 1\<rparr>)
                      (MP_Created legacy_id reason kind status scope created_id invalidate_source)
                      (g\<lparr>mx_created_records := mx_created_records g @ shown\<rparr>)), s2))))))"

definition migrate_one ::
  "'e bm25_api \<Rightarrow> 'a learning_env_scheme \<Rightarrow> datetime \<Rightarrow> (nat \<Rightarrow> string) \<Rightarrow> migrate_params \<Rightarrow> memory list \<Rightarrow> memory \<Rightarrow>
   migration_progress \<Rightarrow> 'e memory_service \<Rightarrow> migration_progress tool_result \<times> 'e memory_service" where
  "migrate_one api env now gen p existing legacy g0 s =
     (let g = g0\<lparr>mx_counts := (mx_counts g0)\<lparr>mc_scanned := mc_scanned (mx_counts g0) + 1\<rparr>\<rparr>
      in case memory_id legacy of
           None \<Rightarrow> (Inr (counted (\<lambda>c. c\<lparr>mc_skipped := mc_skipped c + 1\<rparr>) MP_NoId g), s)
         | Some legacy_id \<Rightarrow>
     (if m_valid_until legacy \<noteq> None \<and> gp_include_invalidated p \<noteq> Some True then
        (Inr (counted (\<lambda>c. c\<lparr>mc_invalidated_skipped := mc_invalidated_skipped c + 1\<rparr>) (MP_Invalidated legacy_id) g), s)
      else
     (let c = classify_legacy_memory env p legacy
      in if lg_outcome c = ''already_migrated'' then
           (Inr (counted (\<lambda>n. n\<lparr>mc_already_migrated := mc_already_migrated n + 1\<rparr>) (MP_HasSchema legacy_id (lg_reason c)) g), s)
         else if lg_outcome c = ''ambiguous'' then
           (Inr (counted (\<lambda>n. n\<lparr>mc_ambiguous := mc_ambiguous n + 1\<rparr>) (MP_Ambiguous legacy_id (lg_reason c)) g), s)
         else if lg_outcome c = ''skipped'' then
           (Inr (counted (\<lambda>n. n\<lparr>mc_skipped := mc_skipped n + 1\<rparr>) (MP_Skipped legacy_id (lg_reason c)) g), s)
         else
     (case find_already_migrated_match env legacy_id legacy c existing of
        Some mt \<Rightarrow>
          (Inr (counted (\<lambda>n. n\<lparr>mc_already_migrated := mc_already_migrated n + 1\<rparr>) (MP_Matched legacy_id mt) g), s)
      | None \<Rightarrow>
     (case (lg_kind c, lg_status c, lg_scope c) of
        (Some kind, Some status, Some scope) \<Rightarrow>
          migrate_eligible api env now gen p legacy_id legacy (lg_reason c) kind status scope
            (g\<lparr>mx_counts := (mx_counts g)\<lparr>mc_eligible := mc_eligible (mx_counts g) + 1\<rparr>\<rparr>) s
      | _ \<Rightarrow> (Inl TE_Panic, s))))))"

fun migrate_loop ::
  "'e bm25_api \<Rightarrow> 'a learning_env_scheme \<Rightarrow> datetime \<Rightarrow> (nat \<Rightarrow> string) \<Rightarrow> migrate_params \<Rightarrow> memory list \<Rightarrow> memory list \<Rightarrow>
   migration_progress \<Rightarrow> 'e memory_service \<Rightarrow> migration_progress tool_result \<times> 'e memory_service" where
  "migrate_loop api env now gen p existing [] g s = (Inr g, s)"
| "migrate_loop api env now gen p existing (legacy # rest) g s =
     (case migrate_one api env now gen p existing legacy g s of
        (Inl e, s') \<Rightarrow> (Inl e, s')
      | (Inr g', s') \<Rightarrow> migrate_loop api env now gen p existing rest g' s')"

definition migration_progress_new :: migration_progress where
  "migration_progress_new =
     \<lparr>mx_counts = \<lparr>mc_scanned = 0, mc_eligible = 0, mc_created = 0, mc_skipped = 0, mc_ambiguous = 0,
        mc_already_migrated = 0, mc_invalidated_skipped = 0\<rparr>, mx_previews = [], mx_created_records = []\<rparr>"

definition migration_scan_query :: "datetime \<Rightarrow> migrate_params \<Rightarrow> memory_query" where
  "migration_scan_query now p =
     (if gp_include_invalidated p = Some True then memory_query_default\<lparr>mq_valid_at := Some now\<rparr>
      else memory_query_default)"

definition migration_learning_query :: "datetime \<Rightarrow> migrate_params \<Rightarrow> memory_query" where
  "migration_learning_query now p =
     memory_query_default
       \<lparr>mq_metadata_filter := Some (JObj [(''learning'', JObj [(''schema_version'', JNum 1)])]),
        mq_valid_at := (if gp_include_invalidated p = Some True then Some now else None)\<rparr>"

definition migrate_legacy ::
  "'e bm25_api \<Rightarrow> 'a learning_env_scheme \<Rightarrow> datetime \<Rightarrow> (nat \<Rightarrow> string) \<Rightarrow> migrate_params \<Rightarrow> 'e memory_service \<Rightarrow>
   migration_progress tool_result \<times> 'e memory_service" where
  "migrate_legacy api env now gen p s =
     (case se_ready env of Some e \<Rightarrow> (Inl (TE_Service e), s) | None \<Rightarrow>
     (case legacy_scope p of Inl e \<Rightarrow> (Inl e, s) | Inr _ \<Rightarrow>
     (let limit = min (case gp_limit p of Some l \<Rightarrow> l | None \<Rightarrow> 50) 100;
          existing_learning = list_memories now (migration_learning_query now p) 100 0 (sv_table s);
          candidates = list_memories now (migration_scan_query now p) limit 0 (sv_table s)
      in migrate_loop api env now gen p existing_learning candidates migration_progress_new s)))"

end
