(* ===== verification/LearningInvariants.thy ===== *)
theory LearningInvariants
  imports LearningMigration
begin

text \<open>
  What every sequence of learning tools keeps. The tools write rows in two ways only: they create a fresh
  one, and they replace one by a row that the call allows (\<open>row_step\<close>). A property that both keep is an
  invariant of the tool that is called (locale \<open>learning_invariant\<close>); it is interpreted for the agreement of
  index and table and for the abstract life cycle, a transition relation on the states of an entry whose
  edges are labelled with the call.
\<close>

section \<open>The calls\<close>

datatype learning_event =
    NvCreate datetime string learning_create_params
  | NvUpdate learning_update_params
  | NvPromote learning_promote_params
  | NvReject datetime string
  | NvArchive datetime string
  | NvSupersede datetime learning_supersede_params
  | NvDelete datetime string "string option"
  | NvMigrate datetime "nat \<Rightarrow> string" migrate_params

fun learning_step ::
  "'e bm25_api \<Rightarrow> 'a learning_env_scheme \<Rightarrow> 'e memory_service \<Rightarrow> learning_event \<Rightarrow> 'e memory_service" where
  "learning_step api env s (NvCreate now new_id p) = snd (learning_create api env now new_id p s)"
| "learning_step api env s (NvUpdate p) = snd (learning_update api p s)"
| "learning_step api env s (NvPromote p) = snd (learning_promote api p s)"
| "learning_step api env s (NvReject now i) = snd (learning_reject api now i s)"
| "learning_step api env s (NvArchive now i) = snd (learning_archive api now i s)"
| "learning_step api env s (NvSupersede now p) = snd (learning_supersede api now p s)"
| "learning_step api env s (NvDelete now i mode) = snd (learning_delete api now i mode s)"
| "learning_step api env s (NvMigrate now gen p) = snd (migrate_legacy api env now gen p s)"

section \<open>The abstract life cycle\<close>

definition ended_state :: "learning_lifecycle_state \<Rightarrow> bool" where
  "ended_state a \<longleftrightarrow> a \<in> {LL_Rejected, LL_Archived, LL_Superseded, LL_Invalidated}"

text \<open>The rows that a call may replace: the one it names, and for a migration that invalidates its sources any.\<close>

fun targets :: "learning_event \<Rightarrow> string \<Rightarrow> bool" where
  "targets (NvCreate now new_id p) i \<longleftrightarrow> False"
| "targets (NvUpdate p) i \<longleftrightarrow> nu_id p = i"
| "targets (NvPromote p) i \<longleftrightarrow> nm_id p = i"
| "targets (NvReject now j) i \<longleftrightarrow> j = i"
| "targets (NvArchive now j) i \<longleftrightarrow> j = i"
| "targets (NvSupersede now p) i \<longleftrightarrow> ns_id p = i"
| "targets (NvDelete now j mode) i \<longleftrightarrow> j = i"
| "targets (NvMigrate now gen p) i \<longleftrightarrow> \<not> gp_dry_run p \<and> gp_invalidate_source p = Some True"

text \<open>The edges of the machine, with the call that takes them. Nothing but a supersession asks for the state it
  leaves: the tools reject, archive and delete entries that have ended already.\<close>

inductive lifecycle_edge ::
  "learning_event \<Rightarrow> learning_lifecycle_state \<Rightarrow> learning_lifecycle_state \<Rightarrow> bool" where
  promotion: "lifecycle_edge (NvPromote p) LL_Candidate LL_Active"
| rejection: "lifecycle_edge (NvReject now i) a LL_Rejected"
| archival: "lifecycle_edge (NvArchive now i) a LL_Archived"
| soft_rejection: "lifecycle_edge (NvDelete now i (Some ''soft_reject'')) a LL_Rejected"
| deletion: "mode \<noteq> Some ''soft_reject'' \<Longrightarrow> lifecycle_edge (NvDelete now i mode) a LL_Archived"
| supersession: "a \<notin> {LL_Rejected, LL_Archived, LL_Superseded} \<Longrightarrow> lifecycle_edge (NvSupersede now p) a LL_Superseded"
| migration: "lifecycle_edge (NvMigrate now gen p) a LL_Superseded"

inductive_simps lifecycle_edge_simps [simp]:
  "lifecycle_edge (NvCreate now new_id q) a b" "lifecycle_edge (NvUpdate u) a b" "lifecycle_edge (NvPromote r) a b"
  "lifecycle_edge (NvReject now i) a b" "lifecycle_edge (NvArchive now i) a b" "lifecycle_edge (NvSupersede now v) a b"
  "lifecycle_edge (NvDelete now i mode) a b" "lifecycle_edge (NvMigrate now gen w) a b"

text \<open>A run: every call leaves the state of the row, or takes an edge if the row is one of its targets.\<close>

inductive lifecycle_run ::
  "string \<Rightarrow> learning_event list \<Rightarrow> learning_lifecycle_state \<Rightarrow> learning_lifecycle_state \<Rightarrow> bool" for i where
  no_call: "lifecycle_run i [] a a"
| idle: "lifecycle_run i evs a b \<Longrightarrow> lifecycle_run i (ev # evs) a b"
| moved: "targets ev i \<Longrightarrow> lifecycle_edge ev a b \<Longrightarrow> lifecycle_run i evs b c \<Longrightarrow> lifecycle_run i (ev # evs) a c"

lemma lifecycle_edge_trans:
  "lifecycle_edge ev a b \<Longrightarrow> lifecycle_edge ev b c \<Longrightarrow> lifecycle_edge ev a c"
  by (cases ev) auto

lemma edge_to_active: "lifecycle_edge ev a LL_Active \<Longrightarrow> a = LL_Candidate"
  by (cases ev) auto

lemma edge_to_candidate: "\<not> lifecycle_edge ev a LL_Candidate"
  by (cases ev) auto

lemma run_to_candidate: "lifecycle_run i evs a b \<Longrightarrow> b = LL_Candidate \<Longrightarrow> a = LL_Candidate"
  by (induction rule: lifecycle_run.induct) (auto simp: edge_to_candidate)

lemma run_to_active: "lifecycle_run i evs a b \<Longrightarrow> b = LL_Active \<Longrightarrow> a \<in> {LL_Candidate, LL_Active}"
  by (induction rule: lifecycle_run.induct) (auto simp: edge_to_candidate dest: edge_to_active)

text \<open>What one call may do to the row \<open>i\<close>.\<close>

definition row_step :: "learning_event \<Rightarrow> string \<Rightarrow> memory \<Rightarrow> memory \<Rightarrow> bool" where
  "row_step ev i m m' \<longleftrightarrow> m' = m \<or>
     (targets ev i \<and>
      (derive_lifecycle_state m' = derive_lifecycle_state m \<or>
       lifecycle_edge ev (derive_lifecycle_state m) (derive_lifecycle_state m')) \<and>
      (m_valid_until m \<noteq> None \<longrightarrow> m_valid_until m' \<noteq> None \<and> m_content m' = m_content m))"

lemma row_step_refl: "row_step ev i m m"
  by (simp add: row_step_def)

lemma row_step_trans: "row_step ev i a b \<Longrightarrow> row_step ev i b c \<Longrightarrow> row_step ev i a c"
  by (auto simp: row_step_def dest: lifecycle_edge_trans)

lemma ended_state_iff: "m_valid_until m \<noteq> None \<longleftrightarrow> ended_state (derive_lifecycle_state m)"
  by (auto simp: ended_state_def derive_lifecycle_state_def split: option.splits learning_status.splits)

section \<open>Writing members\<close>

lemma json_get_put: "json_put j k v = Some j' \<Longrightarrow> json_get j' k' = (if k' = k then Some v else json_get j k')"
  by (cases j) auto

lemma json_get_put_opt:
  "json_put_opt k v j = Some j' \<Longrightarrow> k' \<noteq> k \<Longrightarrow> json_get j' k' = json_get j k'"
  by (auto simp: json_put_opt_def json_get_put split: option.splits)

lemma apply_update_frame [simp]:
  "m_valid_until (apply_update u m) = m_valid_until m"
  "m_invalidation_reason (apply_update u m) = m_invalidation_reason m"
  "m_superseded_by (apply_update u m) = m_superseded_by m"
  "m_metadata (apply_update u m) = (case mu_metadata u of Some v \<Rightarrow> Some v | None \<Rightarrow> m_metadata m)"
  by (simp_all add: apply_update_def Let_def split: option.splits)

lemma apply_update_keeps_content: "mu_content u = None \<Longrightarrow> m_content (apply_update u m) = m_content m"
  by (simp add: apply_update_def Let_def split: option.splits)

lemma metadata_update_simps [simp]:
  "mu_metadata (metadata_update md) = Some md" "mu_content (metadata_update md) = None"
  by (simp_all add: metadata_update_def)

definition status_of :: "json \<Rightarrow> learning_status option" where
  "status_of l = (case json_get l ''status'' of None \<Rightarrow> None | Some v \<Rightarrow> learning_status_of_json v)"

lemma status_of_empty [simp]: "status_of (JObj []) = None"
  by (simp add: status_of_def)

lemma extract_status_eq: "extract_learning_status m = status_of (learning_or_empty m)"
  by (simp add: extract_learning_status_def learning_or_empty_def learning_member_def status_of_def
      split: option.split)

lemma extract_status_written:
  assumes "with_learning m l = Some md" and "m_metadata m' = Some md"
  shows "extract_learning_status m' = status_of l"
  using json_get_put [OF assms(1) [unfolded with_learning_def], of "''learning''"] assms(2)
  by (simp add: extract_learning_status_def status_of_def)

lemma promoted_learning_status:
  "promoted_learning st kind m = Inr l \<Longrightarrow> json_get l ''status'' = Some (JStr (learning_status_name st))"
  by (auto simp: promoted_learning_def json_get_put split: option.splits)

lemma derive_cong:
  assumes "m_valid_until m' = m_valid_until m" "m_invalidation_reason m' = m_invalidation_reason m"
    "m_superseded_by m' = m_superseded_by m" "extract_learning_status m' = extract_learning_status m"
  shows "derive_lifecycle_state m' = derive_lifecycle_state m"
  using assms by (simp add: derive_lifecycle_state_def)

lemma row_step_update:
  assumes "targets ev i" and "\<not> ended_state (derive_lifecycle_state m)" and "with_learning m l = Some md" and "mu_metadata u = Some md"
    and "json_get l ''status'' = json_get (learning_or_empty m) ''status''"
  shows "row_step ev i m (apply_update u m)"
proof -
  have "extract_learning_status (apply_update u m) = extract_learning_status m"
    using extract_status_written [OF assms(3), of "apply_update u m"] assms(4,5)
    by (simp add: extract_status_eq status_of_def)
  then have "derive_lifecycle_state (apply_update u m) = derive_lifecycle_state m" by (intro derive_cong) simp_all
  then show ?thesis using assms(1,2) ended_state_iff [of m] by (simp add: row_step_def)
qed

lemma row_step_promote:
  assumes "derive_lifecycle_state m \<in> {LL_Active, LL_Candidate}" and "with_learning m l = Some md"
    and "mu_metadata u = Some md" and "json_get l ''status'' = Some (JStr (learning_status_name st))"
    and "st = LS_Confirmed \<or> st = LS_Rule"
  shows "row_step (NvPromote p) (nm_id p) m (apply_update u m) \<and> derive_lifecycle_state (apply_update u m) = LL_Active"
proof -
  have u: "m_valid_until m = None" using assms(1) ended_state_iff [of m] by (auto simp: ended_state_def)
  have "extract_learning_status (apply_update u m) = Some st"
    using extract_status_written [OF assms(2), of "apply_update u m"] assms(3,4)
    by (simp add: status_of_def learning_status_names)
  then have "derive_lifecycle_state (apply_update u m) = LL_Active"
    using u assms(5) by (auto simp: derive_lifecycle_state_def)
  then show ?thesis using assms(1) u by (auto simp: row_step_def)
qed

lemma derive_ended:
  "derive_lifecycle_state (ended now (Some REASON_REJECTED) b m) = LL_Rejected"
  "derive_lifecycle_state (ended now (Some REASON_ARCHIVED) b m) = LL_Archived"
  "derive_lifecycle_state (ended now (Some REASON_SUPERSEDED) b m) = LL_Superseded"
  "derive_lifecycle_state (ended now (Some ''migration_replaced'') (Some i) m) = LL_Superseded"
  by (simp_all add: derive_lifecycle_state_def reason_defs)

lemma row_step_ended:
  assumes "targets ev i" and "lifecycle_edge ev (derive_lifecycle_state m) (derive_lifecycle_state (ended now (Some reason) b m'))"
    and "m_content m' = m_content m"
  shows "row_step ev i m (ended now (Some reason) b m')"
  using assms by (simp add: row_step_def)

section \<open>How the tools read and write\<close>

lemma memory_id_row: "table_ok t \<Longrightarrow> hm_get t i = Some m \<Longrightarrow> memory_id m = Some j \<Longrightarrow> j = i"
  by (simp add: memory_id_def table_ok_row)

lemma listed_rows:
  assumes "table_ok t" and "m \<in> set (list_memories now q l o' t)"
  shows "\<forall>i. memory_id m = Some i \<longrightarrow> hm_get t i = Some m" and "base_filter_clause now q m"
proof -
  from assms(2) have "m \<in> set (select_rows (base_filter_clause now q) t)"
    by (auto simp: list_memories_def retain_metadata_def newest_first_def dest!: in_set_takeD in_set_dropD)
  then obtain i where i: "(i, m) \<in> set t" "base_filter_clause now q m" by (auto simp: select_rows_def)
  then have "hm_get t i = Some m" using assms(1) by (simp add: table_ok_def hm_get_mem)
  then show "\<forall>i. memory_id m = Some i \<longrightarrow> hm_get t i = Some m" using memory_id_row [OF assms(1)] by blast
  show "base_filter_clause now q m" by (rule i(2))
qed

lemma write_metadata_spec:
  assumes "table_ok (sv_table s)" and "get_memory (sv_table s) i = Some m"
  shows "write_metadata api i u s = (Inr (apply_update u m),
    s\<lparr>sv_table := hm_insert i (apply_update u m) (sv_table s),
      sv_index := upsert_memory api (apply_update u m) (sv_index s)\<rparr>)"
  using assms by (simp add: write_metadata_def update_memory_def Let_def)

lemma hm_insert_twice: "hm_insert k v (hm_insert k w t) = hm_insert k v t"
  by (rule update_last)

lemma invalidate_legacy_spec:
  assumes "table_ok (sv_table s)"
  shows "invalidate_legacy api now i j s =
    (case hm_get (sv_table s) i of
       None \<Rightarrow> s
     | Some m \<Rightarrow> (let m' = ended now (Some ''migration_replaced'') (Some j) m
                  in s\<lparr>sv_table := hm_insert i m' (sv_table s), sv_index := upsert_memory api m' (sv_index s)\<rparr>))"
proof (cases "hm_get (sv_table s) i")
  case (Some m)
  have "table_ok (hm_insert i (ended now (Some ''migration_replaced'') (Some j) m) (sv_table s))"
    by (intro table_ok_insert assms) (simp add: table_ok_row [OF assms Some])
  with Some show ?thesis
    by (simp add: invalidate_legacy_def invalidate_row get_memory_row Let_def flip: ended_def)
qed (simp add: invalidate_legacy_def invalidate_def update_row_def get_memory_def)

lemma end_learning_cases:
  assumes "table_ok (sv_table s)" and "get_memory (sv_table s) i = Some m"
  obtains e where "end_learning api now tool i reason b st extra m kind scope v s = (Inl e, s)"
  | md fin where "fin = ended now (Some reason) b (m\<lparr>m_metadata := Some md\<rparr>)"
    and "end_learning api now tool i reason b st extra m kind scope v s =
      (Inr (build_learning_response (fin\<lparr>m_embedding := None\<rparr>) kind st scope (derive_lifecycle_state fin) v),
       s\<lparr>sv_table := hm_insert i fin (sv_table s), sv_index := upsert_memory api fin (sv_index s)\<rparr>)"
proof -
  let ?puts = "json_put_all ((''status'', JStr (learning_status_name st)) # extra) (learning_or_empty m)"
  show ?thesis
  proof (cases ?puts)
    case (Some l)
    show ?thesis
    proof (cases "with_learning m l")
      case (Some md)
      let ?m1 = "m\<lparr>m_metadata := Some md\<rparr>"
      let ?fin = "ended now (Some reason) b ?m1"
      have up: "apply_update (metadata_update md) m = ?m1" by (simp add: apply_update_def metadata_update_def)
      have m: "m_id m = Some (memory_thing i)" using assms by (simp add: get_memory_row table_ok_row)
      have ok: "table_ok (hm_insert i ?fin (sv_table s))" by (intro table_ok_insert assms(1)) (simp add: m)
      have inval: "snd (invalidate now i (Some reason) b (hm_insert i ?m1 (sv_table s))) = hm_insert i ?fin (sv_table s)"
        using invalidate_row [of "hm_insert i ?m1 (sv_table s)" i ?m1] by (simp add: hm_insert_twice ended_def)
      have derive: "derive_lifecycle_state (?fin\<lparr>m_embedding := None\<rparr>) = derive_lifecycle_state ?fin"
        by (rule derive_cong) (simp_all add: extract_learning_status_def)
      have "end_learning api now tool i reason b st extra m kind scope v s =
        (Inr (build_learning_response (?fin\<lparr>m_embedding := None\<rparr>) kind st scope (derive_lifecycle_state ?fin) v),
         s\<lparr>sv_table := hm_insert i ?fin (sv_table s), sv_index := upsert_memory api ?fin (sv_index s)\<rparr>)"
        using \<open>?puts = Some l\<close> Some
        by (simp add: end_learning_def update_memory_def assms(2) Let_def up inval get_memory_row [OF ok] derive)
      then show ?thesis using that(2) by blast
    next
      case None
      then show ?thesis using that(1) [of TE_Panic] \<open>?puts = Some l\<close> by (simp add: end_learning_def)
    qed
  next
    case None
    then show ?thesis using that(1) [of TE_Panic] by (simp add: end_learning_def)
  qed
qed

section \<open>Invariants of the tools\<close>

locale learning_invariant =
  fixes api :: "'e bm25_api"
    and ev :: learning_event
    and inv :: "'e memory_service \<Rightarrow> bool"
  assumes inv_table: "inv s \<Longrightarrow> table_ok (sv_table s)"
    and inv_create: "inv s \<Longrightarrow> m_valid_until m = None \<Longrightarrow> inv (snd (create_and_sync_memory api new_id m s))"
    and inv_replace: "inv s \<Longrightarrow> hm_get (sv_table s) i = Some m \<Longrightarrow> m_id m' = m_id m \<Longrightarrow> row_step ev i m m' \<Longrightarrow>
      inv (s\<lparr>sv_table := hm_insert i m' (sv_table s), sv_index := upsert_memory api m' (sv_index s)\<rparr>)"
begin

lemma inv_option: "inv (snd r) \<Longrightarrow> (\<And>y. x = Some y \<Longrightarrow> inv (snd (f y))) \<Longrightarrow>
    inv (snd (case x of None \<Rightarrow> r | Some y \<Rightarrow> f y))"
  by (cases x) simp_all

lemma inv_sum: "(\<And>e. x = Inl e \<Longrightarrow> inv (snd (g e))) \<Longrightarrow> (\<And>y. x = Inr y \<Longrightarrow> inv (snd (f y))) \<Longrightarrow>
    inv (snd (case x of Inl e \<Rightarrow> g e | Inr y \<Rightarrow> f y))"
  by (cases x) simp_all

lemma inv_if: "(b \<Longrightarrow> inv (snd x)) \<Longrightarrow> (\<not> b \<Longrightarrow> inv (snd y)) \<Longrightarrow> inv (snd (if b then x else y))"
  by simp

lemma inv_written: "inv (snd x) \<Longrightarrow>
    inv (snd (case x of (Inl e, s') \<Rightarrow> (Inl (f e), s') | (Inr u, s') \<Rightarrow> (g u, s')))"
  by (auto split: prod.split sum.split)

lemma inv_write:
  assumes "inv s" and "get_memory (sv_table s) i = Some m" and "row_step ev i m (apply_update u m)"
  shows "inv (snd (write_metadata api i u s))"
proof -
  have ok: "table_ok (sv_table s)" using inv_table [OF assms(1)] .
  then have m: "hm_get (sv_table s) i = Some m" using assms(2) by (simp add: get_memory_row)
  show ?thesis using inv_replace [OF assms(1) m _ assms(3)] by (simp add: write_metadata_spec [OF ok assms(2)])
qed

lemma inv_learning_create: "inv s \<Longrightarrow> inv (snd (learning_create api env now new_id p s))"
proof -
  assume s: "inv s"
  have c: "inv (snd (create_and_sync_memory api new_id (learning_memory env now content ty l imp e) s))" for content ty l imp e
    by (rule inv_create [OF s]) (simp add: learning_memory_def memory_new_def)
  show ?thesis
    using s c unfolding learning_create_def Let_def
    by (auto split: option.split sum.split prod.split) (metis snd_conv)+
qed

lemma inv_learning_update: "ev = NvUpdate p \<Longrightarrow> inv s \<Longrightarrow> inv (snd (learning_update api p s))"
proof -
  assume ev: "ev = NvUpdate p" and s: "inv s"
  show ?thesis
  proof (cases "get_memory (sv_table s) (nu_id p)")
    case (Some m)
    have w: "inv (snd (write_metadata api (nu_id p) ((metadata_update md)\<lparr>mu_content := nu_content p\<rparr>) s))"
      if "derive_lifecycle_state m \<notin> {LL_Rejected, LL_Archived, LL_Superseded, LL_Invalidated}"
        "json_put_opt ''confidence'' c (learning_or_empty m) = Some l1" "json_put_opt ''evidence'' e l1 = Some l2"
        "with_learning m l2 = Some md" for c e l1 l2 md
    proof (rule inv_write [OF s Some], rule row_step_update [where l = l2])
      show "targets ev (nu_id p)" by (simp add: ev)
      show "\<not> ended_state (derive_lifecycle_state m)" using that(1) by (simp add: ended_state_def)
      show "json_get l2 ''status'' = json_get (learning_or_empty m) ''status''"
        using json_get_put_opt [OF that(2), of "''status''"] json_get_put_opt [OF that(3), of "''status''"] by simp
    qed (use that(4) in \<open>simp_all add: metadata_update_def\<close>)
    show ?thesis
      using s w Some unfolding learning_update_def Let_def
      by (auto split: option.split sum.split prod.split) (metis snd_conv)+
  qed (use s in \<open>simp add: learning_update_def\<close>)
qed

lemma inv_learning_promote: "ev = NvPromote p \<Longrightarrow> inv s \<Longrightarrow> inv (snd (learning_promote api p s))"
proof -
  assume ev: "ev = NvPromote p" and s: "inv s"
  show ?thesis
  proof (cases "get_memory (sv_table s) (nm_id p)")
    case (Some m)
    have w: "inv (snd (write_metadata api (nm_id p) ((metadata_update md)\<lparr>mu_memory_type := ty\<rparr>) s))"
      if "derive_lifecycle_state m \<notin> {LL_Rejected, LL_Archived, LL_Superseded, LL_Invalidated, LL_Unknown}"
        "promoted_learning st kind m = Inr l" "st \<in> {LS_Confirmed, LS_Rule}" "with_learning m l = Some md" for l st kind md ty
    proof (rule inv_write [OF s Some], unfold ev, rule conjunct1, rule row_step_promote [where l = l and st = st])
      show "derive_lifecycle_state m \<in> {LL_Active, LL_Candidate}"
        using that(1) by (cases "derive_lifecycle_state m") simp_all
      show "json_get l ''status'' = Some (JStr (learning_status_name st))"
        by (rule promoted_learning_status [OF that(2)])
    qed (use that in \<open>simp_all add: metadata_update_def\<close>)
    show ?thesis
      unfolding learning_promote_def Let_def
      by (intro inv_option inv_if inv_sum inv_written) (use s w Some in auto)
  qed (use s in \<open>auto simp: learning_promote_def split: option.split\<close>)
qed

lemma inv_end:
  assumes "inv s" and "get_memory (sv_table s) i = Some m" and "targets ev i"
    and "\<And>md now. lifecycle_edge ev (derive_lifecycle_state m)
        (derive_lifecycle_state (ended now (Some reason) b (m\<lparr>m_metadata := Some md\<rparr>)))"
  shows "inv (snd (end_learning api now tool i reason b st extra m kind scope v s))"
proof -
  have ok: "table_ok (sv_table s)" using inv_table [OF assms(1)] .
  then have m: "hm_get (sv_table s) i = Some m" using assms(2) by (simp add: get_memory_row)
  show ?thesis
  proof (rule end_learning_cases [OF ok assms(2), of api now tool reason b st extra kind scope v])
    fix md fin
    assume fin: "fin = ended now (Some reason) b (m\<lparr>m_metadata := Some md\<rparr>)"
      and r: "end_learning api now tool i reason b st extra m kind scope v s =
        (Inr (build_learning_response (fin\<lparr>m_embedding := None\<rparr>) kind st scope (derive_lifecycle_state fin) v),
         s\<lparr>sv_table := hm_insert i fin (sv_table s), sv_index := upsert_memory api fin (sv_index s)\<rparr>)"
    have "row_step ev i m fin" unfolding fin by (intro row_step_ended assms(3,4)) simp
    from inv_replace [OF assms(1) m _ this] show ?thesis by (simp add: r fin)
  qed (use assms(1) in simp)
qed

lemma inv_learning_reject:
  assumes "inv s" "targets ev i" "\<And>a. lifecycle_edge ev a LL_Rejected"
  shows "inv (snd (learning_reject api now i s))"
  using assms by (auto simp: learning_reject_def derive_ended intro!: inv_end split: option.split)

lemma inv_learning_archive:
  assumes "inv s" "targets ev i" "\<And>a. lifecycle_edge ev a LL_Archived"
  shows "inv (snd (learning_archive api now i s))"
  using assms by (auto simp: learning_archive_def derive_ended intro!: inv_end split: option.split)

lemma inv_learning_supersede:
  assumes "ev = NvSupersede now p" and "inv s"
  shows "inv (snd (learning_supersede api now p s))"
  using assms(2)
  by (auto simp: learning_supersede_def Let_def assms(1) derive_ended intro!: inv_end split: option.split)

lemma inv_invalidate_legacy:
  assumes "targets ev i" and "\<And>a. lifecycle_edge ev a LL_Superseded" and "inv s"
  shows "inv (invalidate_legacy api now i j s)"
  using inv_replace [OF assms(3), of i] row_step_ended [OF assms(1), of _ now "''migration_replaced''" "Some j"] assms(2)
  by (auto simp: assms(3) invalidate_legacy_spec [OF inv_table [OF assms(3)]] Let_def derive_ended split: option.split)

lemma inv_migrate_one:
  "ev = NvMigrate now gen p \<Longrightarrow> inv s \<Longrightarrow> inv (snd (migrate_one api env now gen p existing legacy g s))"
proof -
  assume ev: "ev = NvMigrate now gen p" and s: "inv s"
  have inval: "inv (invalidate_legacy api now i j s')"
    if "inv s'" "\<not> gp_dry_run p" "gp_invalidate_source p = Some True" for i j s'
    using that by (intro inv_invalidate_legacy) (simp_all add: ev)
  have c: "inv (snd (create_and_sync_memory api i (learning_memory env now content ty l imp e) s))" for i content ty l imp e
    by (rule inv_create [OF s]) (simp add: learning_memory_def memory_new_def)
  have "inv (snd (migrate_eligible api env now gen p i legacy reason kind status scope g s))" for i reason kind status scope g
    using s c inval unfolding migrate_eligible_def Let_def
    by (auto split: option.split sum.split prod.split) (metis snd_conv)+
  then show ?thesis using s
    unfolding migrate_one_def Let_def by (auto split: option.split)
qed

lemma inv_migrate: "ev = NvMigrate now gen p \<Longrightarrow> inv s \<Longrightarrow> inv (snd (migrate_legacy api env now gen p s))"
proof -
  assume ev: "ev = NvMigrate now gen p"
  have "inv s \<Longrightarrow> inv (snd (migrate_loop api env now gen p existing ms g s))" for existing ms g
  proof (induction ms arbitrary: g s)
    case (Cons m ms)
    with inv_migrate_one [OF ev Cons.prems, of env existing m g] show ?case
      by (cases "migrate_one api env now gen p existing m g s") (auto split: sum.split)
  qed simp
  then show "inv s \<Longrightarrow> ?thesis"
    unfolding migrate_legacy_def Let_def by (auto split: option.split sum.split)
qed

lemma inv_learning_step: "inv s \<Longrightarrow> inv (learning_step api env s ev)"
  by (cases ev) (simp_all add: inv_learning_create inv_learning_update inv_learning_promote inv_learning_reject
      inv_learning_archive inv_learning_supersede inv_migrate learning_delete_def)

end

section \<open>The tools keep the index and follow the life cycle\<close>

lemma table_ok_create: "table_ok (sv_table s) \<Longrightarrow> table_ok (sv_table (snd (create_and_sync_memory api i m s)))"
  by (simp add: create_and_sync_spec Let_def table_ok_insert)

lemma table_ok_replace:
  "table_ok t \<Longrightarrow> hm_get t i = Some m \<Longrightarrow> m_id m' = m_id m \<Longrightarrow> table_ok (hm_insert i m' t)"
  by (rule table_ok_insert) (simp_all add: table_ok_row)

interpretation learning_sync: learning_invariant api ev
  "\<lambda>s. table_ok (sv_table s) \<and> (engine_contract api docs \<longrightarrow> synced docs s)" for api ev docs
proof
  fix s :: "'a memory_service" and i and m m' :: memory
  assume s: "table_ok (sv_table s) \<and> (engine_contract api docs \<longrightarrow> synced docs s)"
    and m: "hm_get (sv_table s) i = Some m" "m_id m' = m_id m"
  then have "m_id m' = Some (memory_thing i)" using table_ok_row [OF conjunct1 [OF s] m(1)] by simp
  with s m show "table_ok (sv_table (s\<lparr>sv_table := hm_insert i m' (sv_table s), sv_index := upsert_memory api m' (sv_index s)\<rparr>)) \<and>
      (engine_contract api docs \<longrightarrow>
        synced docs (s\<lparr>sv_table := hm_insert i m' (sv_table s), sv_index := upsert_memory api m' (sv_index s)\<rparr>))"
    by (simp add: synced_upsert table_ok_insert)
qed (simp_all add: synced_create table_ok_create)

definition table_step :: "learning_event \<Rightarrow> memory_table \<Rightarrow> memory_table \<Rightarrow> bool" where
  "table_step ev t t' \<longleftrightarrow>
     (\<forall>i m. hm_get t i = Some m \<longrightarrow> (\<exists>m'. hm_get t' i = Some m' \<and> row_step ev i m m'))"

lemma table_step_refl: "table_step ev t t"
  by (simp add: table_step_def row_step_refl)

lemma table_step_replace:
  assumes "table_step ev t0 t" and "hm_get t i = Some m" and "row_step ev i m m'"
  shows "table_step ev t0 (hm_insert i m' t)"
  using assms unfolding table_step_def by (metis hm_get_insert option.inject row_step_trans)

lemma table_step_create:
  assumes "table_step ev t0 (sv_table s)"
  shows "table_step ev t0 (sv_table (snd (create_and_sync_memory api i m s)))"
  using assms by (fastforce simp: table_step_def create_and_sync_spec Let_def)

interpretation learning_evolution: learning_invariant api ev
  "\<lambda>s. table_ok (sv_table s) \<and> table_step ev t0 (sv_table s)" for api ev t0
  by unfold_locales (auto simp: table_ok_create table_step_create intro: table_ok_replace table_step_replace)

lemma learning_step_row:
  assumes "table_ok (sv_table s)" and "hm_get (sv_table s) i = Some m"
  obtains m' where "table_ok (sv_table (learning_step api env s ev))"
    and "hm_get (sv_table (learning_step api env s ev)) i = Some m'" and "row_step ev i m m'"
proof -
  have "table_ok (sv_table (learning_step api env s ev)) \<and> table_step ev (sv_table s) (sv_table (learning_step api env s ev))"
    by (rule learning_evolution.inv_learning_step) (simp add: assms(1) table_step_refl)
  with assms(2) that show ?thesis unfolding table_step_def by blast
qed

lemma learning_run_row:
  assumes "table_ok (sv_table s)" and "hm_get (sv_table s) i = Some m"
  shows "\<exists>m'. table_ok (sv_table (foldl (learning_step api env) s evs)) \<and>
    hm_get (sv_table (foldl (learning_step api env) s evs)) i = Some m' \<and>
    lifecycle_run i evs (derive_lifecycle_state m) (derive_lifecycle_state m') \<and>
    (m_valid_until m \<noteq> None \<longrightarrow> m_valid_until m' \<noteq> None \<and> m_content m' = m_content m) \<and>
    (list_all (\<lambda>ev. \<not> targets ev i) evs \<longrightarrow> m' = m)"
  using assms
proof (induction evs arbitrary: s m)
  case Nil
  then show ?case by (auto intro: no_call)
next
  case (Cons ev evs)
  obtain m1 where 1: "table_ok (sv_table (learning_step api env s ev))"
    "hm_get (sv_table (learning_step api env s ev)) i = Some m1" "row_step ev i m m1"
    by (rule learning_step_row [OF Cons.prems])
  from Cons.IH [OF 1(1,2)] 1(3) show ?case
    by (fastforce simp: row_step_def intro: idle moved)
qed

text \<open>C35: The learning tools implement the abstract life cycle. Whatever sequence of them runs, with any
  parameters, failing or not, a memory of the table is never removed; a call changes only its targets, and
  the state of the memory moves along the edges of the call: only a promotion of the memory leads from
  candidate to active, only a rejection (or a soft-rejecting deletion) to rejected, only an archival or a
  deletion to archived, and only a supersession, which leaves neither rejected nor archived nor superseded
  memories, or a migration that invalidates its sources to superseded. A memory that has ended stays ended
  with its content unchanged: no tool revives it.\<close>
theorem learning_tools_follow_lifecycle:
  fixes es :: "learning_event list"
  assumes "table_ok (sv_table s)" and "get_memory (sv_table s) i = Some m"
  shows "\<exists>m'. get_memory (sv_table (foldl (learning_step api env) s es)) i = Some m' \<and>
    lifecycle_run i es (derive_lifecycle_state m) (derive_lifecycle_state m') \<and>
    (ended_state (derive_lifecycle_state m) \<longrightarrow>
       ended_state (derive_lifecycle_state m') \<and> m_content m' = m_content m) \<and>
    (derive_lifecycle_state m' = LL_Active \<longrightarrow> derive_lifecycle_state m \<in> {LL_Candidate, LL_Active}) \<and>
    (list_all (\<lambda>ev. \<not> targets ev i) es \<longrightarrow> m' = m)"
proof -
  let ?s = "foldl (learning_step api env) s es"
  have "hm_get (sv_table s) i = Some m" using assms by (simp add: get_memory_row)
  from learning_run_row [OF assms(1) this, of api env es] obtain m' where m': "table_ok (sv_table ?s)"
    "hm_get (sv_table ?s) i = Some m'" "lifecycle_run i es (derive_lifecycle_state m) (derive_lifecycle_state m')"
    "m_valid_until m \<noteq> None \<longrightarrow> m_valid_until m' \<noteq> None \<and> m_content m' = m_content m"
    "list_all (\<lambda>ev. \<not> targets ev i) es \<longrightarrow> m' = m" by blast
  have "get_memory (sv_table ?s) i = Some m'" using m'(1,2) by (simp add: get_memory_row)
  then show ?thesis using m'(3-5) run_to_active [OF m'(3)] by (auto simp flip: ended_state_iff)
qed

definition example_learning_env :: learning_env where
  "example_learning_env = service_env.extend example_env
     \<lparr>lx_render_json = (\<lambda>j. []), lx_vector = \<lparr>ve_knn = (\<lambda>k ef v t. Inr []), ve_cosine = (\<lambda>a b. 0)\<rparr>\<rparr>"

definition archived_example :: memory where
  "archived_example = (example_memory ''a'' 1)\<lparr>m_valid_until := Some 5, m_invalidation_reason := Some REASON_ARCHIVED\<rparr>"

definition archived_service :: "(string, string) hmap memory_service" where
  "archived_service = \<lparr>sv_table = [(''a'', archived_example)], sv_index = empty_index token_engine\<rparr>"

definition revival_attempt :: "learning_event list" where
  "revival_attempt =
     [NvPromote \<lparr>nm_id = ''a'', nm_target_status = ''rule'', nm_target_kind = None\<rparr>,
      NvUpdate \<lparr>nu_id = ''a'', nu_content = Some ''new'', nu_confidence = None, nu_evidence = None\<rparr>,
      NvSupersede 6 \<lparr>ns_id = ''a'', ns_replacement_id = ''a'', ns_reason = None\<rparr>]"

inductive_simps lifecycle_run_simps: "lifecycle_run i [] a b" "lifecycle_run i (ev # evs) a b"

theorem learning_tools_follow_lifecycle_witness:
  "\<exists>m'. get_memory (sv_table (foldl (learning_step token_engine example_learning_env) archived_service revival_attempt)) ''a'' = Some m' \<and>
     derive_lifecycle_state m' = LL_Archived \<and> m_content m' = ''note''"
proof -
  have 1: "table_ok (sv_table archived_service)"
    by (simp add: archived_service_def archived_example_def example_memory_def table_ok_def hm_ok_def)
  have 2: "get_memory (sv_table archived_service) ''a'' = Some archived_example"
    unfolding get_memory_row [OF 1] by (simp add: archived_service_def)
  have 3: "derive_lifecycle_state archived_example = LL_Archived"
    by (simp add: archived_example_def derive_lifecycle_state_def reason_defs)
  have 4: "m_content archived_example = ''note''"
    by (simp add: archived_example_def example_memory_def memory_new_def)
  have 5: "lifecycle_run ''a'' revival_attempt LL_Archived b \<Longrightarrow> b = LL_Archived" for b
    by (auto simp: revival_attempt_def lifecycle_run_simps)
  from learning_tools_follow_lifecycle [OF 1 2, of token_engine example_learning_env revival_attempt] 3 4 5
  show ?thesis by (auto simp: ended_state_def)
qed

text \<open>The lexical index still holds exactly the open memories of the table after any sequence of learning tools.\<close>

lemma learning_tools_keep_index:
  assumes "engine_contract api docs" and "synced docs s"
  shows "synced docs (foldl (learning_step api env) s es)"
proof -
  have step: "synced docs (learning_step api env s ev)" if "synced docs s" for s ev
  proof -
    have "table_ok (sv_table s) \<and> (engine_contract api docs \<longrightarrow> synced docs s)"
      using that by (simp add: synced_def)
    from learning_sync.inv_learning_step [OF this] assms(1) show ?thesis by blast
  qed
  from assms(2) show ?thesis by (induction es arbitrary: s) (simp_all add: step)
qed

section \<open>Listing\<close>

lemma default_list_filters:
  "apply_learning_filter default_list_filter memory_query_default \<noteq> memory_query_default"
  by (simp add: apply_learning_filter_def default_list_filter_def status_condition_def Let_def memory_query_default_def)

text \<open>C39: The listing of learnings is always empty. Without a filter of the caller, or with any filter that
  restricts anything, the conditions are stored as one JSON value that the storage looks for inside
  the metadata; no entry that the tools write contains it, so nothing is listed and the total is 0,
  whatever the table holds.\<close>
theorem learning_list_is_empty:
  assumes "\<forall>(i, m)\<in>set (sv_table s). case m_metadata m of None \<Rightarrow> True
      | Some md \<Rightarrow> json_get md ''and'' = None \<and> json_get md ''field'' = None"
    and "filter_val = None \<or>
      (\<exists>v f. filter_val = Some v \<and> learning_filter_of_json v = Some f \<and>
         apply_learning_filter (merge_caller_filter default_list_filter f) memory_query_default \<noteq> memory_query_default)"
  shows "\<exists>ans. learning_list now filter_val limit_opt offset_opt s = Inr ans \<and> ll_records ans = [] \<and> ll_total ans = 0"
proof -
  have empty: "\<exists>ans. learning_list now filter_val limit_opt offset_opt s = Inr ans \<and> ll_records ans = [] \<and> ll_total ans = 0"
    if f: "(case filter_val of None \<Rightarrow> Some default_list_filter
        | Some v \<Rightarrow> map_option (merge_caller_filter default_list_filter) (learning_filter_of_json v)) = Some f"
      and ne: "apply_learning_filter f memory_query_default \<noteq> memory_query_default" for f
  proof -
    obtain cond where q: "apply_learning_filter f memory_query_default = memory_query_default\<lparr>mq_metadata_filter := Some cond\<rparr>"
      and c: "\<And>m. json_contains m cond \<Longrightarrow> json_get m ''and'' \<noteq> None \<or> json_get m ''field'' \<noteq> None"
      using apply_learning_filter_shape [OF ne] by blast
    have none: "retain_metadata (memory_query_default\<lparr>mq_metadata_filter := Some cond\<rparr>) ms = []"
      if "set ms \<subseteq> snd ` set (sv_table s)" for ms
      using that assms(1) c unfolding retain_metadata_def filter_empty_conv
      by (fastforce simp: metadata_matches_def split: option.splits)
    have rows: "set (select_rows P (sv_table s)) \<subseteq> snd ` set (sv_table s)" for P
      by (auto simp: select_rows_def)
    have "list_memories now (memory_query_default\<lparr>mq_metadata_filter := Some cond\<rparr>) l o' (sv_table s) = []" for l o'
      unfolding list_memories_def
      by (rule none) (auto simp: newest_first_def dest!: in_set_takeD in_set_dropD subsetD [OF rows])
    moreover have "count_memories_filtered now (memory_query_default\<lparr>mq_metadata_filter := Some cond\<rparr>) (sv_table s) = 0"
      by (simp add: count_memories_filtered_def Let_def none [OF rows])
    ultimately show ?thesis unfolding learning_list_def Let_def f option.case q by (simp add: List.map_filter_def)
  qed
  from assms(2) show ?thesis
  proof (elim disjE exE conjE)
    assume "filter_val = None"
    then show ?thesis by (intro empty [where f = default_list_filter]) (simp_all add: default_list_filters)
  next
    fix v f
    assume "filter_val = Some v" "learning_filter_of_json v = Some f"
      "apply_learning_filter (merge_caller_filter default_list_filter f) memory_query_default \<noteq> memory_query_default"
    then show ?thesis by (intro empty [where f = "merge_caller_filter default_list_filter f"]) simp_all
  qed
qed

definition confirmed_entry :: learning_metadata where
  "confirmed_entry =
     \<lparr>lm_schema_version = 1, lm_kind = LK_ProjectLesson, lm_status = LS_Confirmed, lm_confidence = 1 / 2,
      lm_scope = scope_of_project SC_Global None,
      lm_source = \<lparr>lo_created_from = CF_Manual, lo_client = None, lo_source_memory_ids = []\<rparr>,
      lm_evidence = [], lm_applies_to = [], lm_trigger_hints = [], lm_supersedes = [], lm_constraints = []\<rparr>"

definition entry_memory :: "learning_metadata \<Rightarrow> memory" where
  "entry_memory lm =
     (example_memory ''a'' 1)\<lparr>m_embedding := Some [1], m_metadata := Some (JObj [(''learning'', learning_metadata_to_json lm)])\<rparr>"

definition entry_service :: "learning_metadata \<Rightarrow> (string, string) hmap memory_service" where
  "entry_service lm = \<lparr>sv_table = [(''a'', entry_memory lm)], sv_index = empty_index token_engine\<rparr>"

lemma entry_service_row:
  "table_ok (sv_table (entry_service lm))" "get_memory (sv_table (entry_service lm)) ''a'' = Some (entry_memory lm)"
proof -
  show ok: "table_ok (sv_table (entry_service lm))"
    by (simp add: entry_service_def entry_memory_def example_memory_def table_ok_def hm_ok_def)
  show "get_memory (sv_table (entry_service lm)) ''a'' = Some (entry_memory lm)"
    unfolding get_memory_row [OF ok] by (simp add: entry_service_def)
qed

lemma entry_member: "learning_member (entry_memory lm) = Some (learning_metadata_to_json lm)"
  by (simp add: learning_member_def entry_memory_def)

theorem learning_list_is_empty_witness:
  "\<exists>ans. learning_list 5 None None None (entry_service confirmed_entry) = Inr ans \<and> ll_records ans = [] \<and> ll_total ans = 0"
proof -
  have "\<forall>(i, m)\<in>set (sv_table (entry_service confirmed_entry)). case m_metadata m of None \<Rightarrow> True
      | Some md \<Rightarrow> json_get md ''and'' = None \<and> json_get md ''field'' = None"
    by (simp add: entry_service_def entry_memory_def)
  from learning_list_is_empty [OF this, of None 5 None None] show ?thesis by simp
qed

section \<open>Single calls\<close>

lemma response_of_entry:
  assumes "learning_member m = Some (learning_metadata_to_json lm)"
  shows "response_of (m\<lparr>m_embedding := e\<rparr>) = Some (build_learning_response (m\<lparr>m_embedding := e\<rparr>) (lm_kind lm) (lm_status lm)
    (lm_scope lm) (derive_lifecycle_state (m\<lparr>m_embedding := e\<rparr>)) (lm_schema_version lm))"
  using assms by (simp add: response_of_def extract_learning_fields_def learning_member_def learning_metadata_json)

lemma extract_status_entry:
  "learning_member m = Some (learning_metadata_to_json lm) \<Longrightarrow> extract_learning_status m = Some (lm_status lm)"
  by (simp add: extract_status_eq learning_or_empty_def status_of_def learning_status_member learning_status_names)

text \<open>A learning that \<open>create\<close> reports is stored as reported: reading it by its id gives the same answer, with
  the content, kind, status and scope that were asked for; it is active exactly when it was created as
  confirmed or rule, and then it is listed, searched and injected by default; its memory type follows
  from kind and status, and no other memory changes.\<close>
theorem created_learning_reads_back:
  assumes "learning_create api env now new_id p s = (Inr r, s')"
  shows "learning_get new_id s' = Inr r \<and>
    m_content (lr_record r) = np_content p \<and> learning_kind_of_name (np_kind p) = Some (lr_kind r) \<and>
    lr_status r = (case np_status p of None \<Rightarrow> LS_Candidate | Some v \<Rightarrow> the (learning_status_of_name v)) \<and>
    lc_project_id (lr_scope r) = np_project_id p \<and>
    m_memory_type (lr_record r) = kind_status_to_memory_type (lr_kind r) (lr_status r) \<and>
    (lr_lifecycle_state r = LL_Active) = (lr_status r \<in> {LS_Confirmed, LS_Rule}) \<and>
    lr_injectable_by_default r = (lr_status r \<in> {LS_Confirmed, LS_Rule}) \<and>
    (\<forall>j. j \<noteq> new_id \<longrightarrow> get_memory (sv_table s') j = get_memory (sv_table s) j)"
proof -
  obtain kind status level cf conf emb where
    k: "learning_kind_of_name (np_kind p) = Some kind"
    and st: "parse_name ''status'' learning_status_of_name LS_Candidate (np_status p) = Inr status"
    and c: "(case create_and_sync_memory api new_id
         (learning_memory env now (np_content p) (kind_status_to_memory_type kind status)
           (learning_metadata_to_json (created_metadata p kind status conf (scope_of_project level (np_project_id p)) cf)) 1 emb) s of
        (Inl e, s') \<Rightarrow> (Inl (TE_Service (SE_App e)), s')
      | (Inr i, s') \<Rightarrow>
          (case get_memory (sv_table s') i of
             None \<Rightarrow> (Inl (TE_Message (''Memory not found after create: '' @ i)), s')
           | Some stored0 \<Rightarrow>
               (let stored = stored0\<lparr>m_embedding := None\<rparr>
                in (Inr (build_learning_response stored kind status (scope_of_project level (np_project_id p))
                      (derive_lifecycle_state stored) 1), s')))) = (Inr r, s')"
    using assms unfolding learning_create_def Let_def
    by (auto split: option.splits sum.splits if_splits)
  define lm where "lm = created_metadata p kind status conf (scope_of_project level (np_project_id p)) cf"
  define m where "m = learning_memory env now (np_content p) (kind_status_to_memory_type kind status)
      (learning_metadata_to_json lm) 1 emb\<lparr>m_id := Some (memory_thing new_id)\<rparr>"
  have lm: "lm_kind lm = kind" "lm_status lm = status" "lm_scope lm = scope_of_project level (np_project_id p)"
    "lm_schema_version lm = 1" by (simp_all add: lm_def created_metadata_def)
  have m: "m_content m = np_content p" "m_valid_until m = None" "m_memory_type m = kind_status_to_memory_type kind status"
    "learning_member m = Some (learning_metadata_to_json lm)" "m_id m = Some (memory_thing new_id)"
    by (simp_all add: m_def learning_memory_def memory_new_def learning_member_def)
  have fresh: "hm_get (sv_table s) new_id = None"
    and s': "s' = s\<lparr>sv_table := hm_insert new_id m (sv_table s), sv_index := upsert_memory api m (sv_index s)\<rparr>"
    using c by (auto simp: create_and_sync_spec Let_def m_def lm_def get_memory_def split: if_splits)
  have got: "get_memory (sv_table s') new_id = Some m" using m(5) by (simp add: s' get_memory_def)
  define shown where "shown = m\<lparr>m_embedding := None\<rparr>"
  have r: "r = build_learning_response shown kind status (scope_of_project level (np_project_id p)) (derive_lifecycle_state shown) 1"
    using c fresh got by (auto simp: create_and_sync_spec Let_def m_def lm_def s' shown_def)
  have sh: "extract_learning_status shown = Some status" "m_valid_until shown = None" "m_content shown = np_content p"
    "m_memory_type shown = kind_status_to_memory_type kind status"
    using extract_status_entry [of shown lm] m lm by (simp_all add: shown_def learning_member_def)
  have rr: "lr_record r = shown" "lr_kind r = kind" "lr_status r = status" "lc_project_id (lr_scope r) = np_project_id p"
    "lr_lifecycle_state r = derive_lifecycle_state shown"
    "lr_injectable_by_default r = (status = LS_Confirmed \<or> status = LS_Rule)"
    by (simp_all add: r build_learning_response_def inclusion_flags [OF sh(1)] Let_def scope_of_project_def sh(2))
  have "learning_get new_id s' = Inr r"
    using response_of_entry [OF m(4), of None] by (simp add: learning_get_def got r shown_def lm)
  moreover have "status = (case np_status p of None \<Rightarrow> LS_Candidate | Some v \<Rightarrow> the (learning_status_of_name v))"
    using st by (auto simp: parse_name_def split: option.splits)
  moreover have "get_memory (sv_table s') j = get_memory (sv_table s) j" if "j \<noteq> new_id" for j
    using that by (simp add: s' get_memory_def)
  moreover have "(derive_lifecycle_state shown = LL_Active) = (status \<in> {LS_Confirmed, LS_Rule})"
    using learning_active_iff [OF sh(1)] sh(2) by simp
  ultimately show ?thesis unfolding rr by (simp add: k sh)
qed

definition example_create :: learning_create_params where
  "example_create =
     \<lparr>np_content = ''use tabs'', np_kind = ''workflow_rule'', np_status = Some ''rule'', np_confidence = None,
      np_scope = None, np_project_id = None, np_source = None, np_evidence = None, np_applies_to = None,
      np_trigger_hints = None, np_constraints = None\<rparr>"

lemma example_learning_env_simps [simp]:
  "se_ready example_learning_env = None" "se_embed example_learning_env x = Inr [1]"
  "se_hash example_learning_env x = x"
  by (simp_all add: example_learning_env_def example_env_def service_env.extend_def)

lemma validate_entry:
  "lm_schema_version lm = 1 \<Longrightarrow> 0 \<le> lm_confidence lm \<Longrightarrow> lm_confidence lm \<le> 1 \<Longrightarrow>
     validate_learning_metadata (learning_metadata_to_json lm) = Inr lm"
  by (simp add: validate_learning_metadata_def learning_metadata_json)

theorem created_learning_reads_back_witness:
  "\<exists>r s'. learning_create token_engine example_learning_env 1 ''a'' example_create (service_new token_engine) = (Inr r, s') \<and>
     learning_get ''a'' s' = Inr r \<and> lr_injectable_by_default r"
proof -
  obtain r s' where c: "learning_create token_engine example_learning_env 1 ''a'' example_create (service_new token_engine) = (Inr r, s')"
    by (simp add: learning_create_def example_create_def learning_kind_of_name_def parse_name_def learning_status_of_name_def
        learning_statuses_def Let_def validate_entry created_metadata_def create_and_sync_spec service_new_def get_memory_def)
  from created_learning_reads_back [OF c] c show ?thesis
    by (auto simp: example_create_def learning_status_of_name_def learning_statuses_def)
qed

lemma put_member_entry:
  "json_put (learning_metadata_to_json lm) ''status'' (JStr (learning_status_name st)) =
     Some (learning_metadata_to_json (lm\<lparr>lm_status := st\<rparr>))"
  "json_put (learning_metadata_to_json lm) ''kind'' (JStr (learning_kind_name k)) =
     Some (learning_metadata_to_json (lm\<lparr>lm_kind := k\<rparr>))"
  by (simp_all add: learning_metadata_to_json_def)

lemma with_learning_entry:
  assumes "learning_member m = Some l" and "with_learning m l' = Some md" and "m_metadata m' = Some md"
  shows "learning_member m' = Some l'"
  using json_get_put [OF assms(2) [unfolded with_learning_def], of "''learning''"] assms(3)
  by (simp add: learning_member_def)

lemma with_learning_total: "learning_member m = Some l \<Longrightarrow> \<exists>md. with_learning m l' = Some md"
proof -
  assume "learning_member m = Some l"
  then obtain kvs where "m_metadata m = Some (JObj kvs)"
    by (auto simp: learning_member_def elim!: json_get.elims split: option.splits)
  then show ?thesis by (simp add: with_learning_def)
qed

text \<open>C38: Promotion is exact, for any request. For a well-formed entry it succeeds precisely when the memory has
  not ended, the step leads from candidate to confirmed or rule, or from confirmed to rule, and the kind that
  is asked for, if any, is a kind. Then the row is the old one but for its metadata, and its type, procedural
  when it became a rule; of the metadata only the learning entry differs, which is the old entry with the new
  status and, where one was asked for, the new kind; the memory is active, the index is given the new row, and
  nothing else has changed. In every other case there is an error and nothing at all has changed.\<close>
theorem promotion_exact:
  assumes "table_ok (sv_table s)" and "get_memory (sv_table s) (nm_id p) = Some m"
    and "learning_member m = Some (learning_metadata_to_json lm)"
    and "lm_schema_version lm = 1" and "0 \<le> lm_confidence lm" and "lm_confidence lm \<le> 1"
  shows "case learning_promote api p s of
      (Inr r, s') \<Rightarrow>
        (\<exists>target kind md m'. learning_status_of_name (nm_target_status p) = Some target \<and>
           (case nm_target_kind p of None \<Rightarrow> kind = lm_kind lm | Some k \<Rightarrow> learning_kind_of_name k = Some kind) \<and>
           m_valid_until m = None \<and>
           (lm_status lm, target) \<in> {(LS_Candidate, LS_Confirmed), (LS_Candidate, LS_Rule), (LS_Confirmed, LS_Rule)} \<and>
           m' = m\<lparr>m_metadata := Some md, m_memory_type := (if target = LS_Rule then Procedural else m_memory_type m)\<rparr> \<and>
           json_get md ''learning'' = Some (learning_metadata_to_json (lm\<lparr>lm_status := target, lm_kind := kind\<rparr>)) \<and>
           (\<forall>k. k \<noteq> ''learning'' \<longrightarrow> json_get md k = json_get (the (m_metadata m)) k) \<and>
           s' = s\<lparr>sv_table := hm_insert (nm_id p) m' (sv_table s), sv_index := upsert_memory api m' (sv_index s)\<rparr> \<and>
           derive_lifecycle_state m' = LL_Active \<and> lr_record r = m'\<lparr>m_embedding := None\<rparr> \<and>
           lr_status r = target \<and> lr_kind r = kind \<and> lr_scope r = lm_scope lm \<and> lr_injectable_by_default r)
    | (Inl e, s') \<Rightarrow> s' = s \<and>
        \<not> (m_valid_until m = None \<and>
            (\<exists>target. learning_status_of_name (nm_target_status p) = Some target \<and>
               (lm_status lm, target) \<in> {(LS_Candidate, LS_Confirmed), (LS_Candidate, LS_Rule), (LS_Confirmed, LS_Rule)}) \<and>
            (case nm_target_kind p of None \<Rightarrow> True | Some k \<Rightarrow> learning_kind_of_name k \<noteq> None))"
proof -
  let ?i = "nm_id p"
  have st: "extract_learning_status m = Some (lm_status lm)" by (rule extract_status_entry [OF assms(3)])
  have lempty: "learning_or_empty m = learning_metadata_to_json lm" by (simp add: learning_or_empty_def assms(3))
  define kind where "kind = (case nm_target_kind p of None \<Rightarrow> Some (lm_kind lm) | Some k \<Rightarrow> learning_kind_of_name k)"
  show ?thesis
  proof (cases "m_valid_until m = None \<and> kind \<noteq> None \<and>
      (\<exists>target. learning_status_of_name (nm_target_status p) = Some target \<and> promotion_allowed (lm_status lm) target)")
    case True
    then obtain target k where tg: "learning_status_of_name (nm_target_status p) = Some target"
      "promotion_allowed (lm_status lm) target" and k: "kind = Some k" and open_row: "m_valid_until m = None" by blast
    then have t: "target = LS_Confirmed \<or> target = LS_Rule" "lm_status lm = LS_Candidate \<or> lm_status lm = LS_Confirmed"
      by (auto simp: promotion_allowed_def)
    define lm' where "lm' = lm\<lparr>lm_status := target, lm_kind := k\<rparr>"
    obtain md where md: "with_learning m (learning_metadata_to_json lm') = Some md"
      using with_learning_total [OF assms(3)] by blast
    define u where "u = (metadata_update md)\<lparr>mu_memory_type := (if target = LS_Rule then Some Procedural else None)\<rparr>"
    define m' where "m' = m\<lparr>m_metadata := Some md, m_memory_type := (if target = LS_Rule then Procedural else m_memory_type m)\<rparr>"
    have up: "apply_update u m = m'" by (simp add: m'_def u_def metadata_update_def apply_update_def)
    have m': "learning_member m' = Some (learning_metadata_to_json lm')"
      by (rule with_learning_entry [OF assms(3) md]) (simp add: m'_def)
    obtain md0 where md0: "m_metadata m = Some md0" using assms(3) by (auto simp: learning_member_def split: option.splits)
    have members: "json_get md ''learning'' = Some (learning_metadata_to_json lm')"
      "\<forall>x. x \<noteq> ''learning'' \<longrightarrow> json_get md x = json_get (the (m_metadata m)) x"
      using json_get_put [OF md [unfolded with_learning_def]] md0 by simp_all
    have state: "derive_lifecycle_state m \<in> {LL_Active, LL_Candidate}"
      using open_row t(2) st by (auto simp: derive_lifecycle_state_def)
    have st': "extract_learning_status m' = Some target"
      using extract_status_entry [OF m'] by (simp add: lm'_def)
    have act: "derive_lifecycle_state m' = LL_Active"
      using t open_row learning_active_iff [OF st'] by (auto simp: m'_def)
    have act2: "derive_lifecycle_state (m'\<lparr>m_embedding := None\<rparr>) = LL_Active"
      using act derive_cong [of "m'\<lparr>m_embedding := None\<rparr>" m'] by (simp add: extract_learning_status_def)
    let ?s = "s\<lparr>sv_table := hm_insert ?i m' (sv_table s), sv_index := upsert_memory api m' (sv_index s)\<rparr>"
    let ?r = "build_learning_response (m'\<lparr>m_embedding := None\<rparr>) k target (lm_scope lm) LL_Active 1"
    have w: "write_metadata api ?i u s = (Inr m', ?s)"
      using write_metadata_spec [OF assms(1,2)] by (simp add: up)
    have member_frame: "learning_member (x\<lparr>m_embedding := e\<rparr>) = learning_member x" for x :: memory and e
      by (simp add: learning_member_def)
    have resp: "validated_response what m' = Inr ?r" for what
      using m' assms(4-6) act2
      by (simp add: validated_response_def Let_def learning_or_empty_def member_frame validate_entry lm'_def)
    have prom: "promoted_learning target (nm_target_kind p) m = Inr (learning_metadata_to_json lm')"
      using k by (auto simp: promoted_learning_def lempty put_member_entry lm'_def kind_def split: option.splits)
    have run: "learning_promote api p s = (Inr ?r, ?s)"
      using t(1) state tg w
      by (auto simp: learning_promote_def Let_def assms(2) st prom md resp u_def)
    have inj: "lr_injectable_by_default ?r"
      using t(1) by (auto simp: build_learning_response_def compute_default_inclusion_def)
    have kk: "case nm_target_kind p of None \<Rightarrow> k = lm_kind lm | Some x \<Rightarrow> learning_kind_of_name x = Some k"
      using k by (auto simp: kind_def split: option.splits)
    show ?thesis unfolding run prod.case sum.case
      using tg(2) [unfolded promotion_allowed_def] act members inj kk open_row tg(1)
      by (intro exI [of _ target] exI [of _ k] exI [of _ md] exI [of _ m'])
        (simp add: build_learning_response_def m'_def lm'_def split: prod.split)
  next
    case False
    have "\<exists>e. learning_promote api p s = (Inl e, s)"
    proof (cases "m_valid_until m = None")
      case True
      have bad: "\<exists>e. promoted_learning target (nm_target_kind p) m = Inl e" if "kind = None" for target
        using that by (auto simp: promoted_learning_def lempty put_member_entry kind_def split: option.splits)
      show ?thesis
      proof (cases "learning_status_of_name (nm_target_status p)")
        case (Some target)
        with False True have "kind = None \<or> \<not> promotion_allowed (lm_status lm) target" by blast
        with bad [of target] Some st show ?thesis
          by (auto simp: learning_promote_def Let_def assms(2))
      qed (simp add: learning_promote_def)
    next
      case ended: False
      then have "ended_state (derive_lifecycle_state m)" using ended_state_iff [of m] by blast
      then show ?thesis
        by (auto simp: learning_promote_def Let_def assms(2) ended_state_def split: option.split)
    qed
    then show ?thesis using False [unfolded promotion_allowed_def]
      by (auto simp: kind_def split: option.splits)
  qed
qed

theorem promotion_exact_witness:
  "\<exists>r s' m'. learning_promote token_engine \<lparr>nm_id = ''a'', nm_target_status = ''rule'', nm_target_kind = Some ''workflow_rule''\<rparr>
      (entry_service confirmed_entry) = (Inr r, s') \<and> hm_get (sv_table s') ''a'' = Some m' \<and>
      m_memory_type m' = Procedural \<and> lr_status r = LS_Rule \<and> lr_kind r = LK_WorkflowRule \<and>
      m_content m' = m_content (entry_memory confirmed_entry)"
proof -
  let ?p = "\<lparr>nm_id = ''a'', nm_target_status = ''rule'', nm_target_kind = Some ''workflow_rule''\<rparr>"
  have 1: "m_valid_until (entry_memory confirmed_entry) = None \<and> lm_status confirmed_entry = LS_Confirmed"
    by (simp add: entry_memory_def example_memory_def memory_new_def confirmed_entry_def)
  have 2: "lm_schema_version confirmed_entry = 1" "0 \<le> lm_confidence confirmed_entry" "lm_confidence confirmed_entry \<le> 1"
    by (simp_all add: confirmed_entry_def)
  have 3: "learning_status_of_name ''rule'' = Some LS_Rule" "learning_kind_of_name ''workflow_rule'' = Some LK_WorkflowRule"
    using learning_status_names [of LS_Rule] by (simp_all add: learning_kind_of_name_def)
  have 4: "get_memory (sv_table (entry_service confirmed_entry)) (nm_id ?p) = Some (entry_memory confirmed_entry)"
    by (simp add: entry_service_row)
  from promotion_exact [OF entry_service_row(1) 4 entry_member 2, where api = token_engine] 1 3
  show ?thesis by (fastforce split: prod.splits sum.splits)
qed

text \<open>Promoting a memory that is no learning entry is answered by an error, but after the write: the memory has
  become a learning entry without kind, scope and confidence, which counts as active and which every
  tool that reads entries refuses.\<close>

lemma promote_plain_memory_writes_then_fails:
  assumes "table_ok (sv_table s)" and "get_memory (sv_table s) i = Some m"
    and "m_metadata m = None" and "m_valid_until m = None"
  shows "\<exists>s' m'. learning_promote api \<lparr>nm_id = i, nm_target_status = ''rule'', nm_target_kind = None\<rparr> s =
      (Inl (TE_Invalid ''Invalid learning metadata after promote'' LE_Malformed), s') \<and>
    get_memory (sv_table s') i = Some m' \<and> is_learning m' \<and> m_memory_type m' = Procedural \<and>
    derive_lifecycle_state m' = LL_Active \<and> learning_get i s' = Inl (no_learning i)"
proof -
  define md where "md = JObj [(''learning'', JObj [(''status'', JStr ''rule'')])]"
  define u where "u = (metadata_update md)\<lparr>mu_memory_type := Some Procedural\<rparr>"
  define m' where "m' = apply_update u m"
  let ?s = "s\<lparr>sv_table := hm_insert i m' (sv_table s), sv_index := upsert_memory api m' (sv_index s)\<rparr>"
  have m': "m_metadata m' = Some md" "m_valid_until m' = None" "m_id m' = m_id m" "m_memory_type m' = Procedural"
    using assms(4) by (simp_all add: m'_def u_def apply_update_def metadata_update_def)
  have rule_name: "learning_status_of_name ''rule'' = Some LS_Rule"
    using learning_status_names [of LS_Rule] by simp
  have "learning_member m = None" using assms(3) by (simp add: learning_member_def)
  then have m: "derive_lifecycle_state m = LL_Candidate" "extract_learning_status m = None" "learning_or_empty m = JObj []"
    using assms(4) by (simp_all add: derive_lifecycle_state_def extract_status_eq learning_or_empty_def)
  have w: "write_metadata api i u s = (Inr m', ?s)"
    unfolding m'_def by (rule write_metadata_spec [OF assms(1,2)])
  have bad: "learning_metadata_of_json (JObj [(''status'', JStr ''rule'')]) = None"
    by (simp add: learning_metadata_of_json_def struct_read)
  have member: "learning_member (m'\<lparr>m_embedding := e\<rparr>) = Some (JObj [(''status'', JStr ''rule'')])" for e
    using m'(1) by (simp add: learning_member_def md_def)
  have resp: "validated_response what m' = Inl (TE_Invalid what LE_Malformed)" for what
    using member [of None] by (simp add: validated_response_def Let_def learning_or_empty_def validate_learning_metadata_def bad)
  have run: "learning_promote api \<lparr>nm_id = i, nm_target_status = ''rule'', nm_target_kind = None\<rparr> s =
      (Inl (TE_Invalid ''Invalid learning metadata after promote'' LE_Malformed), ?s)"
    using w by (simp add: learning_promote_def Let_def rule_name assms(2,3) m promotion_allowed_def promoted_learning_def
        with_learning_def resp flip: md_def u_def)
  have ok: "table_ok (sv_table ?s)"
    using table_ok_replace [OF assms(1), of i m m'] assms(1,2) m'(3) by (simp add: get_memory_row)
  have here: "get_memory (sv_table ?s) i = Some m'" unfolding get_memory_row [OF ok] by simp
  have "extract_learning_status m' = Some LS_Rule"
    using m'(1) by (simp add: extract_learning_status_def md_def rule_name)
  then have "derive_lifecycle_state m' = LL_Active" using m'(2) by (simp add: derive_lifecycle_state_def)
  moreover have "learning_get i ?s = Inl (no_learning i)"
    unfolding learning_get_def here by (simp add: response_of_def extract_learning_fields_def member bad)
  moreover have "is_learning m'" using m'(1) by (simp add: is_learning_def md_def)
  ultimately show ?thesis using run here m'(4) by blast
qed

end
