(* ===== verification/LearningSearch.thy ===== *)
theory LearningSearch
  imports LearningInvariants
begin

text \<open>
  \<open>search\<close> of \<open>src/server/logic/learning.rs\<close>: the vector and the lexical hits among the learning entries
  that the listing of the newest memories returns, with ended entries added for an audit, ranked by
  status, scope, confidence and importance. The nearest-neighbour operator and the similarity inside the
  vector search are parameters; scores are exact reals. The code iterates over hash maps: here their entries are in order of insertion, which
  is one of the orders the code allows for entries with equal scores.
\<close>

record learning_search_params =
  nq_query :: string
  nq_filter :: "json option"
  nq_scope :: "string option"
  nq_project_id :: "string option"
  nq_limit :: "nat option"

section \<open>Multipliers\<close>

definition status_boost :: "learning_status \<Rightarrow> real" where
  "status_boost st =
     (case st of LS_Rule \<Rightarrow> 13 / 10 | LS_Confirmed \<Rightarrow> 11 / 10 | LS_Candidate \<Rightarrow> 9 / 10 | _ \<Rightarrow> 1 / 2)"

definition scope_boost :: "learning_scope \<Rightarrow> string option \<Rightarrow> string option \<Rightarrow> real" where
  "scope_boost record_scope requested_scope requested_project_id =
     (let requested_level = Option.bind requested_scope scope_level_of_name
      in case requested_level of
           Some level \<Rightarrow>
             if level = lc_level record_scope then
               (if level = SC_Project then (if requested_project_id = lc_project_id record_scope then 12 / 10 else 1)
                else 12 / 10)
             else 1
         | None \<Rightarrow> 1)"

definition clamp :: "real \<Rightarrow> real \<Rightarrow> real \<Rightarrow> real" where
  "clamp lo hi x = (if x < lo then lo else if x > hi then hi else x)"

definition confidence_multiplier :: "real \<Rightarrow> real" where
  "confidence_multiplier confidence = clamp (1 / 2) 2 (1 / 2 + confidence)"

definition learning_importance_multiplier :: "real \<Rightarrow> real" where
  "learning_importance_multiplier importance = clamp (1 / 2) 2 (1 / 2 + importance / 5 * (3 / 2))"

section \<open>Filters\<close>

definition search_filter_of :: "json option \<Rightarrow> learning_filter option" where
  "search_filter_of filter_val =
     (case filter_val of
        None \<Rightarrow> Some default_search_filter
      | Some v \<Rightarrow>
          (case learning_filter_of_json v of
             None \<Rightarrow> None
           | Some caller \<Rightarrow>
               (let f = merge_caller_filter default_search_filter caller
                in Some (if lf_audit caller then f\<lparr>lf_include_status := None, lf_exclude_status := None\<rparr> else f))))"

text \<open>The metadata of a hit or a memory has \<open>learning.schema_version\<close>.\<close>

definition schema_present :: "json option \<Rightarrow> bool" where
  "schema_present metadata =
     (case metadata of
        None \<Rightarrow> False
      | Some md \<Rightarrow> (case json_get md ''learning'' of None \<Rightarrow> False | Some l \<Rightarrow> json_get l ''schema_version'' \<noteq> None))"

definition status_allowed :: "learning_filter \<Rightarrow> memory \<Rightarrow> bool" where
  "status_allowed f m =
     (case extract_learning_status m of
        None \<Rightarrow> False
      | Some st \<Rightarrow>
          (case lf_include_status f of Some inc \<Rightarrow> inc = [] \<or> st \<in> set inc | None \<Rightarrow> True) \<and>
          (case lf_exclude_status f of Some exc \<Rightarrow> st \<notin> set exc | None \<Rightarrow> True))"

section \<open>The pool of an audit\<close>

record audit_pool =
  ap_allowed_ids :: "string set"
  ap_seeded :: "string list"
  ap_by_id :: "(string, memory) hmap"

text \<open>The loop over the hits of one search: each is fetched from the table.\<close>

fun seed_hits :: "learning_filter \<Rightarrow> memory_table \<Rightarrow> search_result list \<Rightarrow> audit_pool \<Rightarrow> audit_pool" where
  "seed_hits f t [] a = a"
| "seed_hits f t (r # rs) a =
     (if sr_id r \<in> ap_allowed_ids a then seed_hits f t rs a
      else
        (case get_memory t (sr_id r) of
           None \<Rightarrow> seed_hits f t rs a
         | Some m \<Rightarrow>
             if schema_present (m_metadata m) \<and> status_allowed f m then
               seed_hits f t rs
                 \<lparr>ap_allowed_ids = insert (sr_id r) (ap_allowed_ids a), ap_seeded = ap_seeded a @ [sr_id r],
                  ap_by_id = (case memory_id m of Some i \<Rightarrow> hm_insert i m (ap_by_id a) | None \<Rightarrow> ap_by_id a)\<rparr>
             else seed_hits f t rs a))"

text \<open>The loop over one page of ended memories; it stops when enough are seeded.\<close>

fun seed_page :: "learning_filter \<Rightarrow> string \<Rightarrow> nat \<Rightarrow> memory list \<Rightarrow> audit_pool \<Rightarrow> audit_pool" where
  "seed_page f query_lc fetch_limit [] a = a"
| "seed_page f query_lc fetch_limit (m # ms) a =
     (case memory_id m of
        None \<Rightarrow> seed_page f query_lc fetch_limit ms a
      | Some i \<Rightarrow>
          if i \<in> ap_allowed_ids a \<or> \<not> str_contains (str_lower (m_content m)) query_lc \<or> \<not> has_learning_schema m \<or>
             \<not> status_allowed f m
          then seed_page f query_lc fetch_limit ms a
          else
            (let a' = \<lparr>ap_allowed_ids = insert i (ap_allowed_ids a), ap_seeded = ap_seeded a @ [i],
                       ap_by_id = hm_insert i m (ap_by_id a)\<rparr>
             in if length (ap_seeded a') \<ge> fetch_limit then a' else seed_page f query_lc fetch_limit ms a'))"

definition gc_filter_any :: memory_gc_filter where
  "gc_filter_any =
     \<lparr>gf_namespace = None, gf_memory_type = None, gf_invalidation_reason = None, gf_invalidated_before = None\<rparr>"

lemma gc_page_in_table: "list_invalidated_memories_for_gc f n offset t \<noteq> [] \<Longrightarrow> offset < length t"
proof -
  assume "list_invalidated_memories_for_gc f n offset t \<noteq> []"
  then have "offset < length (select_rows (gc_filter_clause f) t)"
    by (simp add: list_invalidated_memories_for_gc_def)
  also have "\<dots> \<le> length t" by (simp add: length_select_rows)
  finally show ?thesis .
qed

function seed_pages ::
  "learning_filter \<Rightarrow> string \<Rightarrow> nat \<Rightarrow> memory_table \<Rightarrow> nat \<Rightarrow> audit_pool \<Rightarrow> audit_pool" where
  "seed_pages f query_lc fetch_limit t offset a =
     (if length (ap_seeded a) < fetch_limit then
        (let page_size = max fetch_limit 50;
             invalidated_page = list_invalidated_memories_for_gc gc_filter_any page_size offset t
         in if invalidated_page = [] then a
            else seed_pages f query_lc fetch_limit t (offset + page_size)
                   (seed_page f query_lc fetch_limit invalidated_page a))
      else a)"
  by pat_completeness auto
termination
  by (relation "measure (\<lambda>(f, q, n, t, offset, a). length t - offset)")
    (auto dest!: gc_page_in_table intro!: diff_less_mono2)

declare seed_pages.simps [simp del]

section \<open>The search\<close>

definition merge_score :: "(string, real) hmap \<Rightarrow> search_result \<Rightarrow> (string, real) hmap" where
  "merge_score scores r =
     (let old = (case hm_get scores (sr_id r) of Some x \<Rightarrow> x | None \<Rightarrow> 0)
      in hm_insert (sr_id r) (if sr_score r > old then sr_score r else old) scores)"

definition seed_score :: "(string, real) hmap \<Rightarrow> string \<Rightarrow> (string, real) hmap" where
  "seed_score scores i = (if hm_get scores i = None then hm_insert i (1 / 10) scores else scores)"

definition in_requested_scope :: "bool \<Rightarrow> string option \<Rightarrow> scope_level \<Rightarrow> bool" where
  "in_requested_scope include_global requested level =
     (if level \<noteq> SC_Global \<and> \<not> include_global then
        (case requested of None \<Rightarrow> True | Some req \<Rightarrow> scope_level_of_name req = Some level)
      else True)"

definition rank_entry ::
  "learning_search_params \<Rightarrow> bool \<Rightarrow> (string, memory) hmap \<Rightarrow> string \<times> real \<Rightarrow> (real \<times> memory) option" where
  "rank_entry p include_global by_id e =
     (case hm_get by_id (fst e) of
        None \<Rightarrow> None
      | Some m \<Rightarrow>
          (case (case learning_member m of None \<Rightarrow> None | Some l \<Rightarrow> learning_metadata_of_json l) of
             None \<Rightarrow> None
           | Some lm \<Rightarrow>
               if in_requested_scope include_global (nq_scope p) (lc_level (lm_scope lm)) then
                 Some (snd e * status_boost (lm_status lm) * scope_boost (lm_scope lm) (nq_scope p) (nq_project_id p) *
                         confidence_multiplier (lm_confidence lm) *
                         learning_importance_multiplier (m_importance_score m), m)
               else None))"

definition search_fetch_limit :: "nat option \<Rightarrow> nat" where
  "search_fetch_limit limit_opt = max (normalize_limit limit_opt * 4) 50"

definition learning_search ::
  "'e bm25_api \<Rightarrow> 'a learning_env_scheme \<Rightarrow> datetime \<Rightarrow> learning_search_params \<Rightarrow> 'e memory_service \<Rightarrow>
   learning_response list tool_result" where
  "learning_search api env now p s =
     (case se_ready env of Some e \<Rightarrow> Inl (TE_Service e) | None \<Rightarrow>
     (case search_filter_of (nq_filter p) of None \<Rightarrow> Inl (TE_Message ''Invalid filter'') | Some f \<Rightarrow>
     (case se_embed env (nq_query p) of Inl e \<Rightarrow> Inl (TE_Service (SE_App e)) | Inr query_embedding \<Rightarrow>
     (let limit = normalize_limit (nq_limit p);
          fetch_limit = search_fetch_limit (nq_limit p);
          vector_results = filter (\<lambda>r. schema_present (sr_metadata r))
            (case vector_search (lx_vector env) now query_embedding memory_query_default fetch_limit (sv_table s) of
               Inr rs \<Rightarrow> rs | Inl _ \<Rightarrow> []);
          include_invalidated = (lf_include_invalidated f \<or> lf_audit f);
          listed = filter (\<lambda>m. schema_present (m_metadata m) \<and> status_allowed f m)
            (list_memories now memory_query_default fetch_limit 0 (sv_table s));
          pool0 = \<lparr>ap_allowed_ids = set (List.map_filter memory_id listed), ap_seeded = [], ap_by_id = []\<rparr>;
          pool =
            (if include_invalidated then
               seed_pages f (str_lower (nq_query p)) fetch_limit (sv_table s) 0
                 (seed_hits f (sv_table s) (memory_index_search api (sv_index s) (nq_query p) None fetch_limit)
                   (seed_hits f (sv_table s) vector_results pool0))
             else pool0);
          bm25_results =
            (if ap_allowed_ids pool \<noteq> {} then
               memory_index_search api (sv_index s) (nq_query p) (Some (ap_allowed_ids pool)) fetch_limit
             else []);
          scores = foldl seed_score
            (foldl merge_score [] (filter (\<lambda>r. sr_id r \<in> ap_allowed_ids pool) vector_results @ bm25_results))
            (ap_seeded pool);
          by_id = foldl (\<lambda>h m. case memory_id m of Some i \<Rightarrow> hm_insert i m h | None \<Rightarrow> h) (ap_by_id pool) listed;
          scored = List.map_filter (rank_entry p (lf_include_global f) by_id) scores;
          top = take limit (sort_by (\<lambda>a b. fst b \<le> fst a) scored)
      in Inr (List.map_filter (\<lambda>e. response_of ((snd e)\<lparr>m_embedding := None\<rparr>)) top)))))"

section \<open>What the pool holds\<close>

text \<open>A memory in the pool is a row of the table with an entry that the filter accepts.\<close>

definition pool_ok :: "learning_filter \<Rightarrow> memory_table \<Rightarrow> (memory \<Rightarrow> bool) \<Rightarrow> (string, memory) hmap \<Rightarrow> bool" where
  "pool_ok f t P h \<longleftrightarrow>
     (\<forall>(i, m)\<in>set h. hm_get t i = Some m \<and> schema_present (m_metadata m) \<and> status_allowed f m \<and> P m)"

lemma pool_ok_insert:
  "pool_ok f t P h \<Longrightarrow> hm_get t i = Some m \<Longrightarrow> schema_present (m_metadata m) \<Longrightarrow> status_allowed f m \<Longrightarrow> P m \<Longrightarrow>
     pool_ok f t P (hm_insert i m h)"
  by (induction h) (auto simp: pool_ok_def)

lemma seed_hits_ok:
  "table_ok t \<Longrightarrow> pool_ok f t (\<lambda>_. True) (ap_by_id a) \<Longrightarrow> pool_ok f t (\<lambda>_. True) (ap_by_id (seed_hits f t rs a))"
proof (induction rs arbitrary: a)
  case (Cons r rs)
  have "pool_ok f t (\<lambda>_. True) (case memory_id m of Some i \<Rightarrow> hm_insert i m (ap_by_id a) | None \<Rightarrow> ap_by_id a)"
    if "get_memory t (sr_id r) = Some m" "schema_present (m_metadata m)" "status_allowed f m" for m
    using that Cons.prems memory_id_row [OF Cons.prems(1), of "sr_id r" m]
    by (auto simp: get_memory_row intro!: pool_ok_insert split: option.split)
  with Cons show ?case by (auto split: option.split)
qed simp

lemma has_schema_present: "has_learning_schema m \<Longrightarrow> schema_present (m_metadata m)"
  by (auto simp: has_learning_schema_def schema_present_def learning_member_def split: option.splits)

lemma seed_page_ok:
  "pool_ok f t (\<lambda>_. True) (ap_by_id a) \<Longrightarrow> \<forall>m\<in>set ms. \<forall>i. memory_id m = Some i \<longrightarrow> hm_get t i = Some m \<Longrightarrow>
     pool_ok f t (\<lambda>_. True) (ap_by_id (seed_page f q n ms a))"
proof (induction ms arbitrary: a)
  case (Cons m ms)
  have "pool_ok f t (\<lambda>_. True) (hm_insert i m (ap_by_id a))"
    if "memory_id m = Some i" "has_learning_schema m" "status_allowed f m" for i
    using that Cons.prems by (intro pool_ok_insert) (auto intro: has_schema_present)
  then show ?case using Cons.prems Cons.IH by (simp add: Let_def split: option.split)
qed simp

lemma gc_page_rows:
  assumes "table_ok t" and "m \<in> set (list_invalidated_memories_for_gc f n o' t)"
  shows "\<forall>i. memory_id m = Some i \<longrightarrow> hm_get t i = Some m"
proof -
  from assms(2) obtain i where "(i, m) \<in> set t"
    by (auto simp: list_invalidated_memories_for_gc_def select_rows_def dest!: in_set_takeD in_set_dropD)
  then have "hm_get t i = Some m" using assms(1) by (simp add: table_ok_def hm_get_mem)
  then show ?thesis using memory_id_row [OF assms(1)] by blast
qed

lemma seed_pages_ok:
  "table_ok t \<Longrightarrow> pool_ok f t (\<lambda>_. True) (ap_by_id a) \<Longrightarrow> pool_ok f t (\<lambda>_. True) (ap_by_id (seed_pages f q n t o' a))"
proof (induction f q n t o' a rule: seed_pages.induct)
  case (1 f q n t o' a)
  show ?case
    by (subst seed_pages.simps)
      (use 1 in \<open>auto simp: Let_def intro!: seed_page_ok dest: gc_page_rows [OF 1(2)]\<close>)
qed

lemma pool_ok_mono: "pool_ok f t P h \<Longrightarrow> (\<And>m. P m \<Longrightarrow> Q m) \<Longrightarrow> pool_ok f t Q h"
  by (auto simp: pool_ok_def)

lemma listed_pool_ok:
  "pool_ok f t P h \<Longrightarrow>
     \<forall>m\<in>set ms. (\<forall>i. memory_id m = Some i \<longrightarrow> hm_get t i = Some m) \<and> schema_present (m_metadata m) \<and>
       status_allowed f m \<and> P m \<Longrightarrow>
     pool_ok f t P (foldl (\<lambda>h m. case memory_id m of Some i \<Rightarrow> hm_insert i m h | None \<Rightarrow> h) h ms)"
proof (induction ms arbitrary: h)
  case (Cons m ms)
  have "pool_ok f t P (case memory_id m of Some i \<Rightarrow> hm_insert i m h | None \<Rightarrow> h)"
    using Cons.prems by (auto intro!: pool_ok_insert split: option.split)
  with Cons show ?case by simp
qed simp

section \<open>What is answered\<close>

lemma hm_ok_merge: "hm_ok h \<Longrightarrow> hm_ok (foldl merge_score h rs)"
  by (induction rs arbitrary: h) (simp_all add: merge_score_def Let_def)

lemma hm_ok_seed: "hm_ok h \<Longrightarrow> hm_ok (foldl seed_score h ids)"
  by (induction ids arbitrary: h) (simp_all add: seed_score_def)

lemma rank_entry_Some:
  "rank_entry p g h e = Some x \<Longrightarrow> hm_get h (fst e) = Some (snd x) \<and>
     (\<exists>l lm. learning_member (snd x) = Some l \<and> learning_metadata_of_json l = Some lm \<and>
        in_requested_scope g (nq_scope p) (lc_level (lm_scope lm)))"
  by (auto simp: rank_entry_def split: option.splits if_splits)

lemma map_filter_Cons:
  "List.map_filter f (x # xs) = (case f x of None \<Rightarrow> List.map_filter f xs | Some y \<Rightarrow> y # List.map_filter f xs)"
  by (simp add: List.map_filter_def split: option.split)

lemma map_filter_Nil: "List.map_filter f [] = []"
  by (simp add: List.map_filter_def)

lemma in_map_filter: "y \<in> set (List.map_filter f xs) \<longleftrightarrow> (\<exists>x\<in>set xs. f x = Some y)"
  by (auto simp: List.map_filter_def image_iff)

lemma length_map_filter: "length (List.map_filter f xs) \<le> length xs"
  by (simp add: List.map_filter_def)

lemma distinct_map_filter:
  assumes "distinct (map g xs)" and "\<And>x y. x \<in> set xs \<Longrightarrow> f x = Some y \<Longrightarrow> h y = k (g x)" and "inj k"
  shows "distinct (map h (List.map_filter f xs))"
  using assms
proof (induction xs)
  case (Cons x xs)
  have IH: "distinct (map h (List.map_filter f xs))"
    by (rule Cons.IH) (use Cons.prems in auto)
  have "h y \<notin> h ` set (List.map_filter f xs)" if "f x = Some y" for y
  proof
    assume "h y \<in> h ` set (List.map_filter f xs)"
    then obtain x' y' where "x' \<in> set xs" "f x' = Some y'" "h y = h y'" by (auto simp: in_map_filter)
    with Cons.prems(2) [of x y] Cons.prems(2) [of x' y'] that have "k (g x) = k (g x')" by simp
    with assms(3) have "g x = g x'" by (rule injD)
    with \<open>x' \<in> set xs\<close> Cons.prems(1) show False by auto
  qed
  with IH show ?case by (auto simp: map_filter_Cons split: option.split)
qed (simp add: map_filter_Nil)

lemma distinct_map_sort: "distinct (map h (sort_by le xs)) = distinct (map h xs)"
  by (intro mset_eq_imp_distinct_iff) (simp add: mset_map)

lemma distinct_map_take: "distinct (map h xs) \<Longrightarrow> distinct (map h (take n xs))"
  by (metis distinct_take take_map)

lemma response_of_spec:
  "response_of m = Some r \<Longrightarrow> lr_record r = m \<and>
     (\<exists>l lm. learning_member m = Some l \<and> learning_metadata_of_json l = Some lm \<and> lr_status r = lm_status lm \<and>
        lr_scope r = lm_scope lm \<and> lr_lifecycle_state r = derive_lifecycle_state m)"
  by (auto simp: response_of_def extract_learning_fields_def build_learning_response_def split: option.splits prod.splits)

lemma case_option_SomeE:
  "(case x of None \<Rightarrow> None | Some y \<Rightarrow> f y) = Some z \<Longrightarrow> (\<And>y. x = Some y \<Longrightarrow> f y = Some z \<Longrightarrow> Q) \<Longrightarrow> Q"
  by (cases x) simp_all

lemma schema_status:
  assumes "schema_present (m_metadata m)" and "learning_member m = Some l" and "learning_metadata_of_json l = Some lm"
  shows "extract_learning_status m = Some (lm_status lm)"
proof -
  obtain md where md: "m_metadata m = Some md" "json_get md ''learning'' = Some l"
    using assms(2) by (auto simp: learning_member_def split: option.splits)
  with assms(1) have "json_get l ''schema_version'' \<noteq> None" by (simp add: schema_present_def)
  then obtain kvs where l: "l = JObj kvs" by (cases l) auto
  have "required_member learning_status_of_json kvs ''status'' = Some (lm_status lm)"
    using assms(3) unfolding learning_metadata_of_json_def l struct_members_def json.case option.case
    by (elim case_option_SomeE) auto
  then obtain j where "map_of kvs ''status'' = Some j" "learning_status_of_json j = Some (lm_status lm)"
    by (auto simp: required_member_def split: option.splits)
  then show ?thesis by (simp add: extract_learning_status_def md l)
qed

definition search_justified ::
  "datetime \<Rightarrow> learning_search_params \<Rightarrow> learning_filter \<Rightarrow> memory_table \<Rightarrow> learning_response \<Rightarrow> bool" where
  "search_justified now p f t r \<longleftrightarrow>
     (\<exists>i m. hm_get t i = Some m \<and> lr_record r = m\<lparr>m_embedding := None\<rparr> \<and>
        (case lf_include_status f of Some inc \<Rightarrow> inc = [] \<or> lr_status r \<in> set inc | None \<Rightarrow> True) \<and>
        (case lf_exclude_status f of Some exc \<Rightarrow> lr_status r \<notin> set exc | None \<Rightarrow> True) \<and>
        in_requested_scope (lf_include_global f) (nq_scope p) (lc_level (lr_scope r)) \<and>
        (lf_include_invalidated f \<or> lf_audit f \<or>
           not_ended now m \<and> m \<in> set (list_memories now memory_query_default (search_fetch_limit (nq_limit p)) 0 t)))"

lemma learning_search_justified:
  assumes ok: "table_ok (sv_table s)" and f: "search_filter_of (nq_filter p) = Some f"
    and run: "learning_search api env now p s = Inr rs"
  shows "length rs \<le> normalize_limit (nq_limit p) \<and> distinct (map (\<lambda>r. m_id (lr_record r)) rs) \<and>
    (\<forall>r\<in>set rs. search_justified now p f (sv_table s) r)"
proof -
  let ?t = "sv_table s" and ?n = "search_fetch_limit (nq_limit p)"
  let ?all = "list_memories now memory_query_default ?n 0 ?t"
  let ?listed = "filter (\<lambda>m. schema_present (m_metadata m) \<and> status_allowed f m) ?all"
  define P where "P m = (lf_include_invalidated f \<or> lf_audit f \<or> not_ended now m \<and> m \<in> set ?all)" for m
  obtain scores and pool :: audit_pool where hm: "hm_ok scores"
    and pool: "pool_ok f ?t P (ap_by_id pool)"
    and rs: "rs = List.map_filter (\<lambda>e. response_of ((snd e)\<lparr>m_embedding := None\<rparr>))
        (take (normalize_limit (nq_limit p)) (sort_by (\<lambda>a b. fst b \<le> fst a)
          (List.map_filter (rank_entry p (lf_include_global f)
            (foldl (\<lambda>h m. case memory_id m of Some i \<Rightarrow> hm_insert i m h | None \<Rightarrow> h) (ap_by_id pool) ?listed)) scores)))"
  proof -
    have ready: "se_ready env = None"
    proof (rule ccontr)
      assume "se_ready env \<noteq> None"
      then obtain e where "se_ready env = Some e" by blast
      with run show False by (simp add: learning_search_def)
    qed
    obtain emb where emb: "se_embed env (nq_query p) = Inr emb"
    proof (cases "se_embed env (nq_query p)")
      case (Inl e)
      with run f ready show ?thesis by (simp add: learning_search_def)
    qed (rule that)
    define vr where "vr = filter (\<lambda>r. schema_present (sr_metadata r))
        (case vector_search (lx_vector env) now emb memory_query_default ?n ?t of Inr rs \<Rightarrow> rs | Inl _ \<Rightarrow> [])"
    define pool0 where "pool0 = \<lparr>ap_allowed_ids = set (List.map_filter memory_id ?listed), ap_seeded = [], ap_by_id = []\<rparr>"
    define pool where "pool = (if lf_include_invalidated f \<or> lf_audit f then
        seed_pages f (str_lower (nq_query p)) ?n ?t 0
          (seed_hits f ?t (memory_index_search api (sv_index s) (nq_query p) None ?n) (seed_hits f ?t vr pool0)) else pool0)"
    define bm where "bm = (if ap_allowed_ids pool \<noteq> {} then
        memory_index_search api (sv_index s) (nq_query p) (Some (ap_allowed_ids pool)) ?n else [])"
    define scores where "scores = foldl seed_score (foldl merge_score []
        (filter (\<lambda>r. sr_id r \<in> ap_allowed_ids pool) vr @ bm)) (ap_seeded pool)"
    have p0: "pool_ok f ?t Q (ap_by_id pool0)" for Q by (simp add: pool0_def pool_ok_def)
    have p1: "pool_ok f ?t P (ap_by_id pool)"
    proof (cases "lf_include_invalidated f \<or> lf_audit f")
      case True
      then have "pool_ok f ?t (\<lambda>_. True) (ap_by_id pool)"
        by (simp add: pool_def) (intro seed_pages_ok seed_hits_ok ok p0)
      then show ?thesis by (rule pool_ok_mono) (use True in \<open>auto simp: P_def\<close>)
    qed (simp add: pool_def p0)
    have h1: "hm_ok scores" unfolding scores_def by (intro hm_ok_seed hm_ok_merge hm_ok_Nil)
    have r1: "rs = List.map_filter (\<lambda>e. response_of ((snd e)\<lparr>m_embedding := None\<rparr>))
        (take (normalize_limit (nq_limit p)) (sort_by (\<lambda>a b. fst b \<le> fst a)
          (List.map_filter (rank_entry p (lf_include_global f)
            (foldl (\<lambda>h m. case memory_id m of Some i \<Rightarrow> hm_insert i m h | None \<Rightarrow> h) (ap_by_id pool) ?listed)) scores)))"
      using run unfolding learning_search_def Let_def f ready emb option.case sum.case
      unfolding vr_def [symmetric] pool0_def [symmetric] pool_def [symmetric] bm_def [symmetric] scores_def [symmetric]
      by simp
    show ?thesis by (rule that [OF h1 p1 r1])
  qed
  define by_id where "by_id = foldl (\<lambda>h m. case memory_id m of Some i \<Rightarrow> hm_insert i m h | None \<Rightarrow> h) (ap_by_id pool) ?listed"
  define ranked where "ranked = List.map_filter (rank_entry p (lf_include_global f) by_id) scores"
  define top where "top = take (normalize_limit (nq_limit p)) (sort_by (\<lambda>a b. fst b \<le> fst a) ranked)"
  have rs: "rs = List.map_filter (\<lambda>e. response_of ((snd e)\<lparr>m_embedding := None\<rparr>)) top"
    unfolding rs top_def ranked_def by_id_def ..
  have "P m" if "m \<in> set ?all" for m
    using listed_rows(2) [OF ok that] that by (simp add: P_def default_filter)
  then have by_id: "pool_ok f ?t P by_id"
    unfolding by_id_def using listed_rows(1) [OF ok] by (intro listed_pool_ok pool) auto
  have row: "hm_get ?t i = Some m \<and> schema_present (m_metadata m) \<and> status_allowed f m \<and> P m"
    if "hm_get by_id i = Some m" for i m
    using by_id map_of_SomeD [OF that] by (auto simp: pool_ok_def)
  have top_sub: "set top \<subseteq> set ranked" unfolding top_def by (auto dest: in_set_takeD)
  have "distinct (map (\<lambda>e. m_id (snd e)) ranked)"
    unfolding ranked_def
  proof (rule distinct_map_filter [where g = fst and k = "\<lambda>i. Some (memory_thing i)"])
    show "distinct (map fst scores)" using hm by (simp add: hm_ok_def)
    show "m_id (snd y) = Some (memory_thing (fst x))" if "rank_entry p (lf_include_global f) by_id x = Some y" for x y
      using row rank_entry_Some [OF that] table_ok_row [OF ok] by blast
  qed (simp add: inj_def)
  then have "distinct (map (\<lambda>e. m_id (snd e)) top)"
    unfolding top_def by (intro distinct_map_take) (simp add: distinct_map_sort)
  then have dist: "distinct (map (\<lambda>r. m_id (lr_record r)) rs)"
    unfolding rs
    by (rule distinct_map_filter [where k = "\<lambda>x. x"]) (auto dest!: response_of_spec)
  have len: "length rs \<le> normalize_limit (nq_limit p)"
    unfolding rs using length_map_filter [of "\<lambda>e. response_of ((snd e)\<lparr>m_embedding := None\<rparr>)" top]
    by (simp add: top_def)
  have "search_justified now p f ?t r" if "r \<in> set rs" for r
  proof -
    from that obtain e where e: "e \<in> set top" and r: "response_of ((snd e)\<lparr>m_embedding := None\<rparr>) = Some r"
      unfolding rs by (auto simp: in_map_filter)
    from subsetD [OF top_sub e] obtain x where x: "rank_entry p (lf_include_global f) by_id x = Some e"
      unfolding ranked_def in_map_filter by blast
    let ?m = "snd e"
    from rank_entry_Some [OF x] obtain l lm where m: "hm_get by_id (fst x) = Some ?m" and l: "learning_member ?m = Some l"
      "learning_metadata_of_json l = Some lm" and sc: "in_requested_scope (lf_include_global f) (nq_scope p) (lc_level (lm_scope lm))"
      by blast
    have l': "learning_member (?m\<lparr>m_embedding := None\<rparr>) = Some l" using l(1) by (simp add: learning_member_def)
    have rr: "lr_record r = ?m\<lparr>m_embedding := None\<rparr>" "lr_status r = lm_status lm" "lr_scope r = lm_scope lm"
      using response_of_spec [OF r] l' l(2) by auto
    have st: "extract_learning_status ?m = Some (lm_status lm)" using schema_status row [OF m] l by blast
    show ?thesis unfolding search_justified_def rr
      using row [OF m] sc st by (intro exI [of _ "fst x"] exI [of _ ?m]) (auto simp: status_allowed_def P_def)
  qed
  with len dist show ?thesis by blast
qed

lemma no_caller_filter: "search_filter_of None = Some default_search_filter"
  by (simp add: search_filter_of_def)

text \<open>C36: Everything the search for learnings answers is justified: at most the limit (20 by default, never more
  than 100) of entries, each once, each a row of the table whose status the filter admits and whose
  scope is the requested one (or global, or any when asked for); and unless ended ones are asked for,
  the row is valid now. Without a filter of the caller only confirmed entries and rules are answered:
  never a candidate, a rejected, superseded or archived one.\<close>
theorem learning_search_sound:
  assumes "table_ok (sv_table s)" and "search_filter_of (nq_filter p) = Some f"
    and "learning_search api env now p s = Inr rs"
  shows "length rs \<le> min 100 (case nq_limit p of Some n \<Rightarrow> n | None \<Rightarrow> 20) \<and>
    distinct (map (\<lambda>r. m_id (lr_record r)) rs) \<and>
    list_all (\<lambda>r. search_justified now p f (sv_table s) r \<and>
      (nq_filter p = None \<longrightarrow> (lr_status r = LS_Confirmed \<or> lr_status r = LS_Rule) \<and> not_ended now (lr_record r))) rs"
proof -
  note j = learning_search_justified [OF assms]
  have "(lr_status r = LS_Confirmed \<or> lr_status r = LS_Rule) \<and> not_ended now (lr_record r)"
    if "nq_filter p = None" "search_justified now p f (sv_table s) r" for r
    using that assms(2)
    by (auto simp: search_filter_of_def search_justified_def default_search_filter_def not_ended_def)
  with j show ?thesis
    by (auto simp: list_all_iff normalize_limit_def DEFAULT_LIMIT_def MAX_LIMIT_def split: option.splits)
qed

section \<open>Entries behind newer memories\<close>

lemma newest_page_misses:
  fixes f :: "'a \<Rightarrow> int"
  assumes "n \<le> length (filter (\<lambda>x. f y < f x) xs)" and "sorted_wrt (\<lambda>a b. f b \<le> f a) zs" and "mset zs = mset xs"
  shows "y \<notin> set (take n zs)"
proof
  assume "y \<in> set (take n zs)"
  then obtain j where j: "j < n" "j < length zs" "zs ! j = y"
    by (auto simp: in_set_conv_nth)
  let ?P = "\<lambda>x. f y < f x"
  have "length (filter ?P zs) = length (filter ?P xs)"
    using assms(3) by (metis mset_filter size_mset)
  moreover have "filter ?P (drop j zs) = []"
  proof -
    have d: "drop j zs = y # drop (Suc j) zs" using j by (metis Cons_nth_drop_Suc)
    have "sorted_wrt (\<lambda>a b. f b \<le> f a) (drop j zs)"
      using assms(2) by (metis append_take_drop_id sorted_wrt_append)
    then have "\<forall>x\<in>set (drop (Suc j) zs). f x \<le> f y" by (simp add: d)
    then show ?thesis unfolding d by (auto simp: filter_empty_conv)
  qed
  then have "length (filter ?P zs) \<le> j"
    by (metis append_take_drop_id append_Nil2 filter_append length_filter_le length_take min.bounded_iff order_trans min.cobounded2)
  ultimately show False using assms(1) j(1) by simp
qed

text \<open>C37: A search whose filter sets neither \<open>include_invalidated\<close> nor \<open>audit\<close> (the defaults) sees only the newest
  memories. A learning entry behind as many newer valid memories as the page it lists (four times the limit, at
  least 50) is not answered by such a search, whatever those memories are and however well the entry matches: the
  page is taken from all memories, not from the learning entries. With one of the flags the hits of the vector and
  of the lexical search are read by their ids and join the pool, so there the entry may be found.\<close>
theorem learning_search_misses_older:
  assumes "table_ok (sv_table s)" and "get_memory (sv_table s) i = Some m"
    and "max (4 * min (case nq_limit p of Some n \<Rightarrow> n | None \<Rightarrow> 20) 100) 50 \<le>
      length (filter (\<lambda>x. not_ended now x \<and> m_ingestion_time m < m_ingestion_time x) (map snd (sv_table s)))"
    and "search_filter_of (nq_filter p) = Some f" and "\<not> lf_include_invalidated f" and "\<not> lf_audit f"
    and "learning_search api env now p s = Inr rs"
  shows "list_all (\<lambda>r. m_id (lr_record r) \<noteq> m_id m) rs"
proof -
  let ?n = "search_fetch_limit (nq_limit p)"
  let ?valid = "select_rows (not_ended now) (sv_table s)"
  have n: "?n \<le> length (filter (\<lambda>x. m_ingestion_time m < m_ingestion_time x) ?valid)"
    using assms(3) by (simp add: search_fetch_limit_def normalize_limit_def DEFAULT_LIMIT_def MAX_LIMIT_def
        select_rows_def conj_commute mult.commute min.commute split: option.splits)
  have page: "list_memories now memory_query_default ?n 0 (sv_table s) = take ?n (newest_first ?valid)"
    unfolding list_memories_def default_filter
    by (simp add: retain_none memory_query_default_def)
  have miss: "m \<notin> set (list_memories now memory_query_default ?n 0 (sv_table s))"
    unfolding page
  proof (rule newest_page_misses [OF n])
    show "sorted_wrt (\<lambda>a b. m_ingestion_time b \<le> m_ingestion_time a) (newest_first ?valid)"
      unfolding newest_first_def by (rule rev_key_comparison.sorted_sort_by)
  qed (simp add: newest_first_def)
  have m: "hm_get (sv_table s) i = Some m" using assms(1,2) by (simp add: get_memory_row)
  have "m_id (lr_record r) \<noteq> m_id m" if r: "r \<in> set rs" for r
  proof
    assume same: "m_id (lr_record r) = m_id m"
    have "search_justified now p f (sv_table s) r"
      using learning_search_justified [OF assms(1,4,7)] r by blast
    then obtain i' m' where m': "hm_get (sv_table s) i' = Some m'" "lr_record r = m'\<lparr>m_embedding := None\<rparr>"
      "m' \<in> set (list_memories now memory_query_default ?n 0 (sv_table s))"
      using assms(5,6) unfolding search_justified_def by blast
    from same m'(2) table_ok_row [OF assms(1) m'(1)] table_ok_row [OF assms(1) m] have "i' = i" by simp
    with m m'(1,3) miss show False by simp
  qed
  then show ?thesis by (simp add: list_all_iff)
qed

section \<open>Examples\<close>

text \<open>The nearest row is \<open>a\<close>, with the similarity 1.\<close>

definition entry_hit :: search_result where
  "entry_hit = search_row_result ''a'' (entry_memory confirmed_entry) 1"

definition finding_env :: learning_env where
  "finding_env =
     example_learning_env\<lparr>lx_vector := \<lparr>ve_knn = (\<lambda>k ef v t. Inr [''a'']), ve_cosine = (\<lambda>a b. 1)\<rparr>\<rparr>"

definition any_query :: learning_search_params where
  "any_query = \<lparr>nq_query = ''note'', nq_filter = None, nq_scope = None, nq_project_id = None, nq_limit = None\<rparr>"

lemma finding_env_simps [simp]:
  "se_ready finding_env = None" "se_embed finding_env x = Inr [1]" "ve_knn (lx_vector finding_env) k ef v t = Inr [''a'']"
  "ve_cosine (lx_vector finding_env) a b = 1"
  using example_learning_env_simps by (simp_all add: finding_env_def)

lemma any_query_simps [simp]:
  "nq_query any_query = ''note''" "nq_filter any_query = None" "nq_scope any_query = None"
  "nq_project_id any_query = None" "nq_limit any_query = None"
  by (simp_all add: any_query_def)

lemma entry_present: "schema_present (m_metadata (entry_memory confirmed_entry))"
  by (simp add: schema_present_def entry_memory_def learning_metadata_to_json_def)

lemma entry_allowed: "status_allowed default_search_filter (entry_memory confirmed_entry)"
  using extract_status_entry [OF entry_member, of confirmed_entry]
  by (simp add: status_allowed_def default_search_filter_def confirmed_entry_def)

lemma entry_listed: "list_memories 5 memory_query_default 80 0 (sv_table (entry_service confirmed_entry)) = [entry_memory confirmed_entry]"
proof -
  have "not_ended 5 (entry_memory confirmed_entry)"
    by (simp add: not_ended_def unset_or_def entry_memory_def example_memory_def memory_new_def)
  then show ?thesis
    unfolding list_memories_def default_filter
    by (simp add: retain_none memory_query_default_def newest_first_def select_rows_def entry_service_def)
qed

lemma search_finds_entry:
  "\<exists>r. learning_search token_engine finding_env 5 any_query (entry_service confirmed_entry) = Inr [r]"
proof -
  have id: "memory_id (entry_memory confirmed_entry) = Some ''a''"
    by (simp add: memory_id_def entry_memory_def example_memory_def)
  have hit: "schema_present (sr_metadata entry_hit)" "sr_id entry_hit = ''a''" "sr_score entry_hit = 1"
    using entry_present by (simp_all add: entry_hit_def search_row_result_def)
  have vec: "vector_search (lx_vector finding_env) 5 v memory_query_default 80 (sv_table (entry_service confirmed_entry)) =
      Inr [entry_hit]" for v
    by (simp add: vector_search_def Let_def entry_service_def List.map_filter_def vector_row_def entry_hit_def entry_memory_def
        example_memory_def memory_new_def base_filter_clause_def scope_clause_def not_ended_def unset_or_def
        memory_query_default_def metadata_matches_def)
  have idx: "mi_meta (sv_index (entry_service confirmed_entry)) = []" by (simp add: entry_service_def empty_index_def)
  have global: "lc_level (lm_scope confirmed_entry) = SC_Global"
    by (simp add: confirmed_entry_def scope_of_project_def)
  obtain x where rank: "rank_entry any_query False [(''a'', entry_memory confirmed_entry)] (''a'', 1) = Some (x, entry_memory confirmed_entry)"
    using global by (simp add: rank_entry_def entry_member learning_metadata_json in_requested_scope_def)
  obtain r where r: "response_of (entry_memory confirmed_entry\<lparr>m_embedding := None\<rparr>) = Some r"
    using response_of_entry [OF entry_member] by blast
  have filt: "lf_include_invalidated default_search_filter = False" "lf_audit default_search_filter = False"
    "lf_include_global default_search_filter = False" by (simp_all add: default_search_filter_def)
  have lim: "search_fetch_limit None = 80" "normalize_limit None = 20"
    by (simp_all add: search_fetch_limit_def normalize_limit_def DEFAULT_LIMIT_def MAX_LIMIT_def)
  show ?thesis
    by (simp add: learning_search_def Let_def no_caller_filter lim vec entry_listed entry_present entry_allowed hit filt id
        map_filter_Cons map_filter_Nil memory_index_search_def idx merge_score_def rank r)
qed

theorem learning_search_sound_witness:
  "\<exists>r. learning_search token_engine finding_env 5 any_query (entry_service confirmed_entry) = Inr [r] \<and>
     (lr_status r = LS_Confirmed \<or> lr_status r = LS_Rule) \<and>
     search_justified 5 any_query default_search_filter (sv_table (entry_service confirmed_entry)) r"
proof -
  obtain r where run: "learning_search token_engine finding_env 5 any_query (entry_service confirmed_entry) = Inr [r]"
    using search_finds_entry by blast
  have "search_filter_of (nq_filter any_query) = Some default_search_filter" by (simp add: no_caller_filter)
  from learning_search_sound [OF entry_service_row(1) this run] run show ?thesis by simp
qed

lemma learning_search_answers:
  "se_ready env = None \<Longrightarrow> se_embed env (nq_query p) = Inr v \<Longrightarrow> search_filter_of (nq_filter p) = Some f \<Longrightarrow>
     \<exists>rs. learning_search api env now p s = Inr rs"
  by (simp add: learning_search_def Let_def)

text \<open>Eighty newer memories are in front of the entry; the vector search finds the entry alone.\<close>

definition crowded_table :: memory_table where
  "crowded_table = (''a'', entry_memory confirmed_entry) #
     map (\<lambda>n. (''n'' @ dec_of_nat n, example_memory (''n'' @ dec_of_nat n) 2)) [0..<80]"

definition crowded_service :: "(string, string) hmap memory_service" where
  "crowded_service = \<lparr>sv_table = crowded_table, sv_index = empty_index token_engine\<rparr>"

lemma crowded_ok: "table_ok (sv_table crowded_service)"
proof -
  have "distinct (map (\<lambda>n. ''n'' @ dec_of_nat n) [0..<80])"
    by (simp add: distinct_map inj_on_def dec_of_nat_inj del: upt.simps)
  then show ?thesis
    by (auto simp: table_ok_def hm_ok_def crowded_service_def crowded_table_def o_def entry_memory_def example_memory_def
        simp del: upt.simps)
qed

lemma crowded_newer:
  "80 \<le> length (filter (\<lambda>x. not_ended 5 x \<and> m_ingestion_time (entry_memory confirmed_entry) < m_ingestion_time x)
     (map snd (sv_table crowded_service)))"
proof -
  have "not_ended 5 (example_memory i 2)" "m_ingestion_time (example_memory i 2) = 2"
    "m_ingestion_time (entry_memory confirmed_entry) = 1" for i
    by (simp_all add: example_memory_def memory_new_def not_ended_def unset_or_def entry_memory_def)
  then show ?thesis by (simp add: crowded_service_def crowded_table_def filter_map o_def del: upt.simps)
qed

theorem learning_search_misses_older_witness:
  "\<exists>rs. learning_search token_engine finding_env 5 any_query crowded_service = Inr rs \<and>
     list_all (\<lambda>r. m_id (lr_record r) \<noteq> Some (memory_thing ''a'')) rs"
proof -
  obtain rs where run: "learning_search token_engine finding_env 5 any_query crowded_service = Inr rs"
    using learning_search_answers [of finding_env any_query "[1]" default_search_filter token_engine 5 crowded_service]
    by (auto simp: no_caller_filter)
  have row: "get_memory (sv_table crowded_service) ''a'' = Some (entry_memory confirmed_entry)"
    unfolding get_memory_row [OF crowded_ok] by (simp add: crowded_service_def crowded_table_def)
  have id: "m_id (entry_memory confirmed_entry) = Some (memory_thing ''a'')"
    by (simp add: entry_memory_def example_memory_def)
  have "max (4 * min (case nq_limit any_query of Some n \<Rightarrow> n | None \<Rightarrow> 20) 100) 50 = (80::nat)" by simp
  with crowded_newer have n: "max (4 * min (case nq_limit any_query of Some n \<Rightarrow> n | None \<Rightarrow> 20) 100) 50 \<le>
      length (filter (\<lambda>x. not_ended 5 x \<and> m_ingestion_time (entry_memory confirmed_entry) < m_ingestion_time x)
        (map snd (sv_table crowded_service)))" by simp
  have f: "search_filter_of (nq_filter any_query) = Some default_search_filter" by (simp add: no_caller_filter)
  from learning_search_misses_older [OF crowded_ok row n f _ _ run] run show ?thesis
    by (simp add: id default_search_filter_def)
qed

end
