(* ===== verification/LearningMigrationSafety.thy ===== *)
theory LearningMigrationSafety
  imports LearningInvariants "HOL-Library.Sublist"
begin

text \<open>
  What one run of \<open>migrate_legacy\<close> does, against a specification of its own: which memories are to be migrated
  and to what (\<open>legacy_target\<close>, one rule per kind of entry and no order among them), which have been migrated
  before, and what a preview may say of a memory (\<open>preview_ok\<close>). The counts are those of the previews, the new
  rows are those of the previews, the entries are copies of the named memories, and no other row has changed.
\<close>

section \<open>What is to be migrated\<close>

text \<open>The entry that a memory is to become: the rules read the beginning of its content and the hints in its
  metadata. Tasks and epics have no rule.\<close>

definition legacy_text :: "memory \<Rightarrow> string" where
  "legacy_text m = dropWhile is_whitespace (m_content m)"

inductive legacy_target ::
  "'a learning_env_scheme \<Rightarrow> migrate_params \<Rightarrow> memory \<Rightarrow> learning_scope \<Rightarrow> learning_kind \<Rightarrow> learning_status \<Rightarrow> bool"
  for env p m scope where
  preference: "prefix user_preference_prefix (legacy_text m) \<Longrightarrow>
    legacy_target env p m scope LK_UserPreference LS_Confirmed"
| rule_hint: "prefix ''USER:'' (legacy_text m) \<Longrightarrow> metadata_text_contains env m [''workflow_rule'', ''workflow rule'', ''rule''] \<Longrightarrow>
    legacy_target env p m scope LK_WorkflowRule LS_Rule"
| preference_hint: "prefix ''USER:'' (legacy_text m) \<Longrightarrow> metadata_text_contains env m [''preference''] \<Longrightarrow>
    \<not> metadata_text_contains env m [''workflow_rule'', ''workflow rule'', ''rule''] \<Longrightarrow>
    legacy_target env p m scope LK_UserPreference LS_Confirmed"
| project_pattern: "prefix ''CONTEXT:'' (legacy_text m) \<Longrightarrow> lc_level scope = SC_Project \<Longrightarrow>
    legacy_target env p m scope LK_ProjectPattern LS_Candidate"
| research_lesson: "prefix ''RESEARCH:'' (legacy_text m) \<Longrightarrow> gp_extract_research_lessons p = Some True \<Longrightarrow>
    legacy_target env p m scope LK_ProjectLesson LS_Candidate"

definition work_item :: "memory \<Rightarrow> bool" where
  "work_item m \<longleftrightarrow> prefix ''TASK:'' (legacy_text m) \<or> prefix ''EPIC:'' (legacy_text m)"

definition prefix_allowed :: "migrate_params \<Rightarrow> memory \<Rightarrow> bool" where
  "prefix_allowed p m \<longleftrightarrow> (\<forall>allow. gp_prefix_allowlist p = Some allow \<longrightarrow> (\<exists>a\<in>set allow. prefix a (m_content m)))"

text \<open>An entry that stands for the memory already: it names the memory as its source, or it has its content, kind
  and scope.\<close>

definition stands_for_legacy ::
  "'a learning_env_scheme \<Rightarrow> string \<Rightarrow> memory \<Rightarrow> learning_kind \<Rightarrow> learning_scope \<Rightarrow> memory \<Rightarrow> bool" where
  "stands_for_legacy env i m kind scope c \<longleftrightarrow>
     (\<exists>raw lm. learning_member c = Some raw \<and> validate_learning_metadata raw = Inr lm \<and> memory_id c \<noteq> None \<and>
        ((lo_created_from (lm_source lm) = CF_Migration \<and> i \<in> set (lo_source_memory_ids (lm_source lm))) \<or>
         (m_content_hash c = Some (case m_content_hash m of Some h \<Rightarrow> h | None \<Rightarrow> se_hash env (m_content m)) \<and>
          lm_kind lm = kind \<and> lm_scope lm = scope)))"

definition in_migration :: "migrate_params \<Rightarrow> memory \<Rightarrow> string \<Rightarrow> bool" where
  "in_migration p m i \<longleftrightarrow> memory_id m = Some i \<and> (m_valid_until m = None \<or> gp_include_invalidated p = Some True)"

definition to_migrate ::
  "'a learning_env_scheme \<Rightarrow> migrate_params \<Rightarrow> memory \<Rightarrow> string \<Rightarrow> learning_kind \<Rightarrow> learning_status \<Rightarrow> learning_scope \<Rightarrow> bool" where
  "to_migrate env p m i kind status scope \<longleftrightarrow>
     in_migration p m i \<and> \<not> has_learning_schema m \<and> prefix_allowed p m \<and> legacy_scope p = Inr scope \<and>
     legacy_target env p m scope kind status"

text \<open>What a preview may say of a memory: exactly one of the cases holds.\<close>

fun preview_ok :: "'a learning_env_scheme \<Rightarrow> migrate_params \<Rightarrow> memory list \<Rightarrow> memory \<Rightarrow> migration_preview \<Rightarrow> bool" where
  "preview_ok env p existing m MP_NoId \<longleftrightarrow> memory_id m = None"
| "preview_ok env p existing m (MP_Invalidated i) \<longleftrightarrow>
     memory_id m = Some i \<and> m_valid_until m \<noteq> None \<and> gp_include_invalidated p \<noteq> Some True"
| "preview_ok env p existing m (MP_HasSchema i reason) \<longleftrightarrow> in_migration p m i \<and> has_learning_schema m"
| "preview_ok env p existing m (MP_Skipped i reason) \<longleftrightarrow>
     in_migration p m i \<and> \<not> has_learning_schema m \<and> (\<not> prefix_allowed p m \<or> work_item m)"
| "preview_ok env p existing m (MP_Ambiguous i reason) \<longleftrightarrow>
     in_migration p m i \<and> \<not> has_learning_schema m \<and> prefix_allowed p m \<and> \<not> work_item m \<and>
     (\<forall>scope kind status. legacy_scope p = Inr scope \<longrightarrow> \<not> legacy_target env p m scope kind status)"
| "preview_ok env p existing m (MP_Matched i mt) \<longleftrightarrow>
     (\<exists>kind status scope. to_migrate env p m i kind status scope \<and>
        (\<exists>c\<in>set existing. memory_id c = Some (mg_matched_memory_id mt) \<and> stands_for_legacy env i m kind scope c))"
| "preview_ok env p existing m (MP_Eligible i reason kind status scope invalidated) \<longleftrightarrow>
     gp_dry_run p \<and> invalidated = (gp_invalidate_source p = Some True) \<and>
     to_migrate env p m i kind status scope \<and> \<not> (\<exists>c\<in>set existing. stands_for_legacy env i m kind scope c)"
| "preview_ok env p existing m (MP_Created i reason kind status scope created_id invalidated) \<longleftrightarrow>
     \<not> gp_dry_run p \<and> invalidated = (gp_invalidate_source p = Some True) \<and>
     to_migrate env p m i kind status scope \<and> \<not> (\<exists>c\<in>set existing. stands_for_legacy env i m kind scope c)"

section \<open>The classification meets the specification\<close>

lemma starts_with_prefix: "starts_with s q \<longleftrightarrow> prefix q s"
  by (simp add: starts_with_def prefix_def) (metis append_take_drop_id append_eq_conv_conj)

lemma first_chars: "prefix (c # q) s \<longleftrightarrow> (\<exists>s'. s = c # s' \<and> prefix q s')"
  by (cases s) auto

lemma user_preference_chars:
  "prefix user_preference_prefix s \<longleftrightarrow> prefix (''USER '' @ CHR 0xE2 # CHR 0x80 # CHR 0x94 # '' Preference:'') s"
  by (simp add: user_preference_prefix_def)

lemma metadata_hints:
  "metadata_text_contains env m (xs @ ys) \<longleftrightarrow> metadata_text_contains env m xs \<or> metadata_text_contains env m ys"
  by (auto simp: metadata_text_contains_def Let_def split: option.split)

lemma no_rule:
  assumes "\<not> prefix user_preference_prefix (legacy_text m)"
    and "prefix ''USER:'' (legacy_text m) \<Longrightarrow> \<not> metadata_text_contains env m [''preference'', ''workflow_rule'', ''workflow rule'', ''rule'']"
    and "\<not> (prefix ''CONTEXT:'' (legacy_text m) \<and> lc_level scope = SC_Project)"
    and "\<not> (prefix ''RESEARCH:'' (legacy_text m) \<and> gp_extract_research_lessons p = Some True)"
  shows "\<not> legacy_target env p m scope kind status"
  using assms metadata_hints [of env m "[''preference'']" "[''workflow_rule'', ''workflow rule'', ''rule'']"]
  by (auto elim!: legacy_target.cases)

lemma classify_legacy_cases:
  assumes "legacy_scope p = Inr scope" and "\<not> has_learning_schema m" and "prefix_allowed p m"
  obtains kind status reason where "legacy_target env p m scope kind status"
      and "classify_legacy_memory env p m = eligible_as kind status scope reason"
    | reason where "work_item m" and "classify_legacy_memory env p m = unclassified ''skipped'' reason"
    | reason where "\<not> work_item m" and "\<And>kind status. \<not> legacy_target env p m scope kind status"
      and "classify_legacy_memory env p m = unclassified ''ambiguous'' reason"
proof -
  have allow: "\<not> (case gp_prefix_allowlist p of Some allow \<Rightarrow> \<not> list_ex (\<lambda>prefix. starts_with (m_content m) prefix) allow
      | None \<Rightarrow> False)"
    using assms(3) by (auto simp: prefix_allowed_def list_ex_iff starts_with_prefix split: option.splits)
  let ?t = "legacy_text m"
  have cls: "classify_legacy_memory env p m =
      (if prefix user_preference_prefix ?t then
         eligible_as LK_UserPreference LS_Confirmed scope (''USER '' @ [CHR 0xE2, CHR 0x80, CHR 0x94] @ '' Preference prefix'')
       else if prefix ''USER:'' ?t then
         (if metadata_text_contains env m [''preference'', ''workflow_rule'', ''workflow rule'', ''rule''] then
            (if metadata_text_contains env m [''workflow_rule'', ''workflow rule'', ''rule''] then
               eligible_as LK_WorkflowRule LS_Rule scope ''USER metadata rule hint''
             else eligible_as LK_UserPreference LS_Confirmed scope ''USER metadata preference hint'')
          else unclassified ''ambiguous'' ''USER prefix requires preference/rule metadata or caller rule'')
       else if prefix ''CONTEXT:'' ?t \<and> lc_level scope = SC_Project then
         eligible_as LK_ProjectPattern LS_Candidate scope ''CONTEXT project scope''
       else if prefix ''RESEARCH:'' ?t \<and> gp_extract_research_lessons p = Some True then
         eligible_as LK_ProjectLesson LS_Candidate scope ''RESEARCH explicit lesson extraction''
       else if prefix ''TASK:'' ?t \<or> prefix ''EPIC:'' ?t then
         unclassified ''skipped'' ''TASK and EPIC records are excluded by default''
       else unclassified ''ambiguous'' ''no eligible legacy learning prefix matched'')"
    unfolding classify_legacy_memory_def Let_def assms(1) sum.case legacy_text_def [symmetric] if_not_P [OF assms(2)]
    unfolding if_not_P [OF allow] starts_with_prefix ..
  have hints: "metadata_text_contains env m [''preference'', ''workflow_rule'', ''workflow rule'', ''rule''] \<longleftrightarrow>
      metadata_text_contains env m [''preference''] \<or> metadata_text_contains env m [''workflow_rule'', ''workflow rule'', ''rule'']"
    using metadata_hints [of env m "[''preference'']" "[''workflow_rule'', ''workflow rule'', ''rule'']"] by simp
  consider (pref) "prefix user_preference_prefix ?t"
    | (hint) "\<not> prefix user_preference_prefix ?t" "prefix ''USER:'' ?t"
        "metadata_text_contains env m [''preference'', ''workflow_rule'', ''workflow rule'', ''rule'']"
    | (plain) "\<not> prefix user_preference_prefix ?t" "prefix ''USER:'' ?t"
        "\<not> metadata_text_contains env m [''preference'', ''workflow_rule'', ''workflow rule'', ''rule'']"
    | (ctxt) "\<not> prefix user_preference_prefix ?t" "\<not> prefix ''USER:'' ?t" "prefix ''CONTEXT:'' ?t" "lc_level scope = SC_Project"
    | (research) "\<not> prefix user_preference_prefix ?t" "\<not> prefix ''USER:'' ?t"
        "\<not> (prefix ''CONTEXT:'' ?t \<and> lc_level scope = SC_Project)" "prefix ''RESEARCH:'' ?t" "gp_extract_research_lessons p = Some True"
    | (none) "\<not> prefix user_preference_prefix ?t" "\<not> prefix ''USER:'' ?t"
        "\<not> (prefix ''CONTEXT:'' ?t \<and> lc_level scope = SC_Project)"
        "\<not> (prefix ''RESEARCH:'' ?t \<and> gp_extract_research_lessons p = Some True)" by blast
  then show ?thesis
  proof cases
    case pref
    then show ?thesis using that(1) [OF legacy_target.preference [OF pref]] by (simp add: cls)
  next
    case hint
    show ?thesis
    proof (cases "metadata_text_contains env m [''workflow_rule'', ''workflow rule'', ''rule'']")
      case True
      then show ?thesis using that(1) [OF legacy_target.rule_hint [OF hint(2) True]] hint by (simp add: cls)
    next
      case False
      with hint(3) hints have "metadata_text_contains env m [''preference'']" by blast
      from that(1) [OF legacy_target.preference_hint [OF hint(2) this False]] hint False show ?thesis by (simp add: cls)
    qed
  next
    case plain
    have "\<not> work_item m" using plain(2) by (auto simp: work_item_def first_chars)
    moreover have "\<not> legacy_target env p m scope kind status" for kind status
      by (rule no_rule) (use plain in \<open>auto simp: first_chars\<close>)
    ultimately show ?thesis using that(3) plain by (simp add: cls)
  next
    case ctxt
    show ?thesis using that(1) [OF legacy_target.project_pattern [OF ctxt(3,4)]] ctxt by (simp add: cls)
  next
    case research
    show ?thesis using that(1) [OF legacy_target.research_lesson [OF research(4,5)]] research by (simp add: cls)
  next
    case none
    have "\<not> legacy_target env p m scope kind status" for kind status
      by (rule no_rule) (use none in auto)
    then show ?thesis using that(2,3) none by (cases "work_item m") (auto simp: cls work_item_def)
  qed
qed

lemma classify_not_allowed:
  "\<not> has_learning_schema m \<Longrightarrow> \<not> prefix_allowed p m \<Longrightarrow>
     classify_legacy_memory env p m = unclassified ''skipped'' ''content prefix is not in prefix_allowlist''"
  by (auto simp: classify_legacy_memory_def prefix_allowed_def list_ex_iff starts_with_prefix)

lemma classify_with_schema:
  "has_learning_schema m \<Longrightarrow> lg_outcome (classify_legacy_memory env p m) = ''already_migrated''"
  by (simp add: classify_legacy_memory_def unclassified_def)

lemma match_found:
  assumes "lg_kind c = Some kind" and "lg_scope c = Some scope"
  shows "find_already_migrated_match env i m c existing = Some mt \<Longrightarrow>
      \<exists>e\<in>set existing. memory_id e = Some (mg_matched_memory_id mt) \<and> stands_for_legacy env i m kind scope e"
    and "find_already_migrated_match env i m c existing = None \<Longrightarrow> \<not> (\<exists>e\<in>set existing. stands_for_legacy env i m kind scope e)"
  using assms
  by (induction existing)
    (auto simp: stands_for_legacy_def Let_def split: option.splits sum.splits if_splits)

section \<open>The invariant of the loop\<close>

definition created_ids :: "migration_preview list \<Rightarrow> string list" where
  "created_ids pvs = List.map_filter (\<lambda>pv. case pv of MP_Created i reason kind status scope c b \<Rightarrow> Some c | _ \<Rightarrow> None) pvs"

text \<open>The counts of a list of previews.\<close>

definition tally :: "migration_preview list \<Rightarrow> migration_counts" where
  "tally pvs =
     \<lparr>mc_scanned = length pvs,
      mc_eligible = length (filter (\<lambda>pv. case pv of MP_Eligible i r k st sc b \<Rightarrow> True | MP_Created i r k st sc c b \<Rightarrow> True
                                                  | _ \<Rightarrow> False) pvs),
      mc_created = length (created_ids pvs),
      mc_skipped = length (filter (\<lambda>pv. case pv of MP_NoId \<Rightarrow> True | MP_Skipped i r \<Rightarrow> True | _ \<Rightarrow> False) pvs),
      mc_ambiguous = length (filter (\<lambda>pv. case pv of MP_Ambiguous i r \<Rightarrow> True | _ \<Rightarrow> False) pvs),
      mc_already_migrated =
        length (filter (\<lambda>pv. case pv of MP_HasSchema i r \<Rightarrow> True | MP_Matched i mt \<Rightarrow> True | _ \<Rightarrow> False) pvs),
      mc_invalidated_skipped = length (filter (\<lambda>pv. case pv of MP_Invalidated i \<Rightarrow> True | _ \<Rightarrow> False) pvs)\<rparr>"

definition replaced_by :: "migration_preview list \<Rightarrow> string \<Rightarrow> string set" where
  "replaced_by pvs i =
     {c. \<exists>pv\<in>set pvs. case pv of MP_Created j reason kind status scope c' b \<Rightarrow> j = i \<and> c' = c | _ \<Rightarrow> False}"

definition sources_kept ::
  "datetime \<Rightarrow> migrate_params \<Rightarrow> memory_table \<Rightarrow> migration_preview list \<Rightarrow> memory_table \<Rightarrow> bool" where
  "sources_kept now p t0 pvs t \<longleftrightarrow>
     (\<forall>i m. hm_get t0 i = Some m \<longrightarrow>
        (if gp_invalidate_source p = Some True \<and> replaced_by pvs i \<noteq> {} then
           (\<exists>c\<in>replaced_by pvs i. hm_get t i = Some (ended now (Some ''migration_replaced'') (Some c) m))
         else hm_get t i = Some m))"

definition copies_made ::
  "'a learning_env_scheme \<Rightarrow> datetime \<Rightarrow> memory_table \<Rightarrow> migration_preview list \<Rightarrow> memory_table \<Rightarrow> bool" where
  "copies_made env now t0 pvs t \<longleftrightarrow>
     (\<forall>pv\<in>set pvs. case pv of
        MP_Created legacy_id reason kind status scope created_id invalidated \<Rightarrow>
          hm_get t0 created_id = None \<and>
          (\<exists>m embedding. hm_get t0 legacy_id = Some m \<and> se_embed env (m_content m) = Inr embedding \<and>
             hm_get t created_id = Some ((memory_new now (m_content m))
               \<lparr>m_id := Some (memory_thing created_id), m_embedding := Some embedding, m_embedding_state := ES_Ready,
                m_content_hash := Some (se_hash env (m_content m)), m_importance_score := m_importance_score m,
                m_memory_type := kind_status_to_memory_type kind status,
                m_metadata := Some (JObj [(''learning'',
                  learning_metadata_to_json (migrated_metadata legacy_id kind status scope))])\<rparr>))
      | _ \<Rightarrow> True)"

definition rows_added :: "memory_table \<Rightarrow> migration_preview list \<Rightarrow> memory_table \<Rightarrow> bool" where
  "rows_added t0 pvs t \<longleftrightarrow>
     distinct (created_ids pvs) \<and> (\<forall>i. hm_get t i \<noteq> None \<longleftrightarrow> hm_get t0 i \<noteq> None \<or> i \<in> set (created_ids pvs))"

definition migration_inv ::
  "'a learning_env_scheme \<Rightarrow> datetime \<Rightarrow> migrate_params \<Rightarrow> memory list \<Rightarrow> 'e memory_service \<Rightarrow> memory list \<Rightarrow>
   migration_progress \<Rightarrow> 'e memory_service \<Rightarrow> bool" where
  "migration_inv env now p existing s0 ms g s \<longleftrightarrow>
     list_all2 (preview_ok env p existing) ms (mx_previews g) \<and> mx_counts g = tally (mx_previews g) \<and>
     table_ok (sv_table s) \<and> sources_kept now p (sv_table s0) (mx_previews g) (sv_table s) \<and>
     copies_made env now (sv_table s0) (mx_previews g) (sv_table s) \<and>
     rows_added (sv_table s0) (mx_previews g) (sv_table s) \<and>
     mx_created_records g =
       map (\<lambda>c. (the (hm_get (sv_table s) c))\<lparr>m_embedding := None\<rparr>) (created_ids (mx_previews g)) \<and>
     (gp_dry_run p \<longrightarrow> s = s0)"

lemma counted_simps [simp]:
  "mx_counts (counted f pv g) = f (mx_counts g)" "mx_previews (counted f pv g) = mx_previews g @ [pv]"
  "mx_created_records (counted f pv g) = mx_created_records g"
  by (simp_all add: counted_def)

lemma created_ids_append [simp]:
  "created_ids [] = []" "created_ids (xs @ ys) = created_ids xs @ created_ids ys"
  "created_ids [pv] = (case pv of MP_Created i reason kind status scope c b \<Rightarrow> [c] | _ \<Rightarrow> [])"
  by (simp_all add: created_ids_def List.map_filter_def split: migration_preview.split)

lemma replaced_by_append:
  "replaced_by (pvs @ [pv]) i = (case pv of MP_Created j reason kind status scope c b \<Rightarrow>
     (if j = i then insert c (replaced_by pvs i) else replaced_by pvs i) | _ \<Rightarrow> replaced_by pvs i)"
  by (auto simp: replaced_by_def split: migration_preview.split)

lemma replaced_by_Nil [simp]: "replaced_by [] i = {}"
  by (simp add: replaced_by_def)

text \<open>A memory that is not copied changes only the counts and the previews.\<close>

lemma migration_inv_counted:
  assumes "migration_inv env now p existing s0 ms g s" and "preview_ok env p existing legacy pv"
    and "\<forall>a b c d e f x. pv \<noteq> MP_Created a b c d e f x" and "f c = tally (mx_previews g @ [pv])"
  shows "migration_inv env now p existing s0 (ms @ [legacy]) (counted f pv (g\<lparr>mx_counts := c\<rparr>)) s"
proof -
  have ids: "created_ids [pv] = []" and rep: "replaced_by (mx_previews g @ [pv]) i = replaced_by (mx_previews g) i" for i
    using assms(3) by (auto simp: replaced_by_append split: migration_preview.split)
  show ?thesis
    using assms(1,2,4) ids assms(3)
    by (auto simp: migration_inv_def list_all2_appendI sources_kept_def rep copies_made_def rows_added_def
        split: migration_preview.split)
qed

section \<open>Copying one memory\<close>

lemma sources_kept_insert:
  "sources_kept now p t0 pvs t \<Longrightarrow> hm_get t0 i = None \<Longrightarrow> sources_kept now p t0 pvs (hm_insert i m t)"
  by (auto simp: sources_kept_def)

lemma ended_twice: "ended now r b (ended now r b' m) = ended now r b m"
  by (simp add: ended_def)

lemma copies_insert:
  "copies_made env now t0 pvs t \<Longrightarrow> i \<notin> set (created_ids pvs) \<Longrightarrow> copies_made env now t0 pvs (hm_insert i m t)"
  unfolding copies_made_def created_ids_def List.map_filter_def by (fastforce split: migration_preview.splits)

lemma copies_end:
  "copies_made env now t0 pvs t \<Longrightarrow> hm_get t0 i = Some m0 \<Longrightarrow> copies_made env now t0 pvs (hm_insert i m t)"
  unfolding copies_made_def by (fastforce split: migration_preview.splits)

lemma created_idsE:
  assumes "c \<in> set (created_ids pvs)"
  obtains i reason kind status scope b where "MP_Created i reason kind status scope c b \<in> set pvs"
  using assms by (auto simp: created_ids_def List.map_filter_def split: migration_preview.splits)

lemma copies_fresh: "copies_made env now t0 pvs t \<Longrightarrow> c \<in> set (created_ids pvs) \<Longrightarrow> hm_get t0 c = None"
  by (erule created_idsE) (fastforce simp: copies_made_def)

lemma migrate_eligible_inv:
  assumes inv: "migration_inv env now p existing s0 ms g s"
    and legacy: "hm_get (sv_table s0) legacy_id = Some legacy"
    and target: "to_migrate env p legacy legacy_id kind status scope"
    and new: "\<not> (\<exists>c\<in>set existing. stands_for_legacy env legacy_id legacy kind scope c)"
    and run: "migrate_eligible api env now gen p legacy_id legacy reason kind status scope
        (g\<lparr>mx_counts := (mx_counts g)\<lparr>mc_scanned := Suc (mc_scanned (mx_counts g)),
            mc_eligible := Suc (mc_eligible (mx_counts g))\<rparr>\<rparr>) s = (Inr g', s')"
  shows "migration_inv env now p existing s0 (ms @ [legacy]) g' s'"
proof (cases "gp_dry_run p")
  case True
  have tally: "mx_counts g = tally (mx_previews g)" using inv by (simp add: migration_inv_def)
  have "validate_learning_metadata (learning_metadata_to_json (migrated_metadata legacy_id kind status scope)) =
      Inr (migrated_metadata legacy_id kind status scope)"
    by (rule validate_entry) (simp_all add: migrated_metadata_def)
  with True run have s': "s' = s" and g': "g' = counted (\<lambda>c. c)
      (MP_Eligible legacy_id reason kind status scope (gp_invalidate_source p = Some True))
      (g\<lparr>mx_counts := (mx_counts g)\<lparr>mc_scanned := Suc (mc_scanned (mx_counts g)), mc_eligible := Suc (mc_eligible (mx_counts g))\<rparr>\<rparr>)"
    by (simp_all add: migrate_eligible_def Let_def)
  show ?thesis unfolding s' g'
    by (rule migration_inv_counted [OF inv]) (use True target new in \<open>simp_all add: tally tally_def\<close>)
next
  case False
  let ?pvs = "mx_previews g"
  let ?lm = "migrated_metadata legacy_id kind status scope"
  let ?id = "gen (mc_created (mx_counts g))"
  let ?g1 = "g\<lparr>mx_counts := (mx_counts g)\<lparr>mc_scanned := Suc (mc_scanned (mx_counts g)), mc_eligible := Suc (mc_eligible (mx_counts g))\<rparr>\<rparr>"
  let ?pv = "MP_Created legacy_id reason kind status scope ?id (gp_invalidate_source p = Some True)"
  have v: "validate_learning_metadata (learning_metadata_to_json ?lm) = Inr ?lm"
    by (rule validate_entry) (simp_all add: migrated_metadata_def)
  obtain emb where emb: "se_embed env (m_content legacy) = Inr emb"
    using run False v by (auto simp: migrate_eligible_def Let_def split: sum.splits)
  define m0 where "m0 = learning_memory env now (m_content legacy) (kind_status_to_memory_type kind status)
      (learning_metadata_to_json ?lm) (m_importance_score legacy) emb"
  define m where "m = m0\<lparr>m_id := Some (memory_thing ?id)\<rparr>"
  define s1 where "s1 = s\<lparr>sv_table := hm_insert ?id m (sv_table s), sv_index := upsert_memory api m (sv_index s)\<rparr>"
  have fresh: "hm_get (sv_table s) ?id = None"
    using run False v emb by (auto simp: migrate_eligible_def Let_def create_and_sync_spec split: if_splits)
  have cr: "create_and_sync_memory api ?id m0 s = (Inr ?id, s1)"
    by (simp add: create_and_sync_spec fresh Let_def s1_def m_def)
  have ok1: "table_ok (sv_table s1)" using inv by (simp add: s1_def migration_inv_def table_ok_insert m_def)
  have created: "get_memory (sv_table s1) ?id = Some m" unfolding get_memory_row [OF ok1] by (simp add: s1_def)
  have g': "g' = counted (\<lambda>c. c\<lparr>mc_created := mc_created c + 1\<rparr>) ?pv
      (?g1\<lparr>mx_created_records := mx_created_records g @ [m\<lparr>m_embedding := None\<rparr>]\<rparr>)"
    and s': "s' = (if gp_invalidate_source p = Some True then invalidate_legacy api now legacy_id ?id s1 else s1)"
    using run by (simp_all add: migrate_eligible_def Let_def v False emb cr [unfolded m0_def] created)
  have rows: "rows_added (sv_table s0) ?pvs (sv_table s)" using inv by (simp add: migration_inv_def)
  then have fresh0: "hm_get (sv_table s0) ?id = None" and freshid: "?id \<notin> set (created_ids ?pvs)"
    using fresh unfolding rows_added_def by metis+
  have l1: "hm_get (sv_table s1) legacy_id \<noteq> None"
    using rows legacy by (auto simp: rows_added_def s1_def)
  have other: "legacy_id \<noteq> ?id" using legacy fresh0 by auto
  define t' where "t' = (if gp_invalidate_source p = Some True then
      hm_insert legacy_id (ended now (Some ''migration_replaced'') (Some ?id) (the (hm_get (sv_table s) legacy_id))) (sv_table s1)
    else sv_table s1)"
  have tbl: "sv_table s' = t'"
  proof -
    obtain l where l: "hm_get (sv_table s1) legacy_id = Some l" using l1 by blast
    then have "hm_get (sv_table s) legacy_id = Some l" using other by (simp add: s1_def)
    with l show ?thesis by (simp add: s' t'_def invalidate_legacy_spec [OF ok1] Let_def)
  qed
  have ok': "table_ok t'"
  proof -
    obtain l where l: "hm_get (sv_table s1) legacy_id = Some l" using l1 by blast
    then have "hm_get (sv_table s) legacy_id = Some l" using other by (simp add: s1_def)
    with table_ok_replace [OF ok1 l, of "ended now (Some ''migration_replaced'') (Some ?id) l"] ok1
    show ?thesis by (simp add: t'_def)
  qed
  have get': "hm_get t' c = hm_get (sv_table s) c" if "c \<noteq> ?id" "c \<noteq> legacy_id" for c
    using that by (simp add: t'_def s1_def)
  have here: "hm_get t' ?id = Some m" using other by (simp add: t'_def s1_def)
  have kept: "sources_kept now p (sv_table s0) (?pvs @ [?pv]) t'"
    unfolding sources_kept_def
  proof (intro allI impI)
    fix i x assume x: "hm_get (sv_table s0) i = Some x"
    then have i: "i \<noteq> ?id" using fresh0 by auto
    have old: "if gp_invalidate_source p = Some True \<and> replaced_by ?pvs i \<noteq> {} then
        (\<exists>c\<in>replaced_by ?pvs i. hm_get (sv_table s) i = Some (ended now (Some ''migration_replaced'') (Some c) x))
        else hm_get (sv_table s) i = Some x"
      using inv x by (simp add: migration_inv_def sources_kept_def)
    show "if gp_invalidate_source p = Some True \<and> replaced_by (?pvs @ [?pv]) i \<noteq> {} then
        (\<exists>c\<in>replaced_by (?pvs @ [?pv]) i. hm_get t' i = Some (ended now (Some ''migration_replaced'') (Some c) x))
        else hm_get t' i = Some x"
    proof (cases "i = legacy_id")
      case True
      have "hm_get (sv_table s) i = Some x \<or> (\<exists>c. hm_get (sv_table s) i = Some (ended now (Some ''migration_replaced'') (Some c) x))"
        using old by (auto split: if_splits)
      then show ?thesis using True i old
        by (auto simp: t'_def s1_def replaced_by_append ended_twice)
    next
      case False
      then show ?thesis using old get' [OF i False] by (simp add: replaced_by_append)
    qed
  qed
  have copies: "copies_made env now (sv_table s0) (?pvs @ [?pv]) t'"
  proof -
    have "copies_made env now (sv_table s0) ?pvs (sv_table s1)"
      using inv freshid by (simp add: s1_def migration_inv_def copies_insert)
    then have "copies_made env now (sv_table s0) ?pvs t'"
      by (simp add: t'_def copies_end [OF _ legacy])
    moreover have "m = (memory_new now (m_content legacy))
               \<lparr>m_id := Some (memory_thing ?id), m_embedding := Some emb, m_embedding_state := ES_Ready,
                m_content_hash := Some (se_hash env (m_content legacy)), m_importance_score := m_importance_score legacy,
                m_memory_type := kind_status_to_memory_type kind status,
                m_metadata := Some (JObj [(''learning'',
                  learning_metadata_to_json (migrated_metadata legacy_id kind status scope))])\<rparr>"
      by (simp add: m_def m0_def learning_memory_def)
    ultimately show ?thesis using here legacy emb fresh0 by (simp add: copies_made_def)
  qed
  have added: "rows_added (sv_table s0) (?pvs @ [?pv]) t'"
    using rows freshid l1 other by (auto simp: rows_added_def t'_def s1_def)
  have shown: "map (\<lambda>c. (the (hm_get t' c))\<lparr>m_embedding := None\<rparr>) (created_ids ?pvs) = mx_created_records g"
  proof -
    have "hm_get t' c = hm_get (sv_table s) c" if "c \<in> set (created_ids ?pvs)" for c
    proof -
      have "hm_get (sv_table s0) c = None"
        using inv that copies_fresh [of env now "sv_table s0" ?pvs "sv_table s" c] by (simp add: migration_inv_def)
      with legacy have "c \<noteq> legacy_id" by auto
      moreover have "c \<noteq> ?id" using that freshid by auto
      ultimately show ?thesis using get' by simp
    qed
    with inv show ?thesis by (auto simp: migration_inv_def)
  qed
  have prev: "list_all2 (preview_ok env p existing) (ms @ [legacy]) (?pvs @ [?pv])"
    using inv False target new by (simp add: migration_inv_def list_all2_appendI)
  have counts: "mx_counts g' = tally (?pvs @ [?pv])"
    using inv by (simp add: g' migration_inv_def tally_def)
  have pvs: "mx_previews g' = ?pvs @ [?pv]" by (simp add: g')
  have recs: "mx_created_records g' = map (\<lambda>c. (the (hm_get t' c))\<lparr>m_embedding := None\<rparr>) (created_ids (?pvs @ [?pv]))"
    unfolding g' by (simp add: shown here del: map_eq_conv)
  show ?thesis
    unfolding migration_inv_def tbl pvs
    by (intro conjI prev counts ok' kept copies added recs) (use False in simp)
qed

lemma tally_append [simp]:
  "tally (pvs @ [MP_NoId]) = (tally pvs)\<lparr>mc_scanned := Suc (mc_scanned (tally pvs)), mc_skipped := Suc (mc_skipped (tally pvs))\<rparr>"
  "tally (pvs @ [MP_Skipped i r]) =
     (tally pvs)\<lparr>mc_scanned := Suc (mc_scanned (tally pvs)), mc_skipped := Suc (mc_skipped (tally pvs))\<rparr>"
  "tally (pvs @ [MP_Invalidated i]) =
     (tally pvs)\<lparr>mc_scanned := Suc (mc_scanned (tally pvs)), mc_invalidated_skipped := Suc (mc_invalidated_skipped (tally pvs))\<rparr>"
  "tally (pvs @ [MP_HasSchema i r]) =
     (tally pvs)\<lparr>mc_scanned := Suc (mc_scanned (tally pvs)), mc_already_migrated := Suc (mc_already_migrated (tally pvs))\<rparr>"
  "tally (pvs @ [MP_Matched i mt]) =
     (tally pvs)\<lparr>mc_scanned := Suc (mc_scanned (tally pvs)), mc_already_migrated := Suc (mc_already_migrated (tally pvs))\<rparr>"
  "tally (pvs @ [MP_Ambiguous i r]) =
     (tally pvs)\<lparr>mc_scanned := Suc (mc_scanned (tally pvs)), mc_ambiguous := Suc (mc_ambiguous (tally pvs))\<rparr>"
  by (simp_all add: tally_def)

lemma migrate_one_inv:
  assumes inv: "migration_inv env now p existing s0 ms g s"
    and legacy: "\<forall>i. memory_id legacy = Some i \<longrightarrow> hm_get (sv_table s0) i = Some legacy"
    and scope: "legacy_scope p = Inr scope"
    and run: "migrate_one api env now gen p existing legacy g s = (Inr g', s')"
  shows "migration_inv env now p existing s0 (ms @ [legacy]) g' s'"
proof -
  have tally: "mx_counts g = tally (mx_previews g)" using inv by (simp add: migration_inv_def)
  note plain = migration_inv_counted
  show ?thesis
  proof (cases "memory_id legacy")
    case None
    with inv run show ?thesis by (auto simp: migrate_one_def Let_def tally intro!: plain)
  next
    case (Some i)
    show ?thesis
    proof (cases "m_valid_until legacy \<noteq> None \<and> gp_include_invalidated p \<noteq> Some True")
      case True
      with inv run Some show ?thesis by (auto simp: migrate_one_def Let_def tally intro!: plain)
    next
      case False
      then have live: "in_migration p legacy i" using Some by (auto simp: in_migration_def)
      note step = run [unfolded migrate_one_def Let_def Some option.case if_not_P [OF False]]
      show ?thesis
      proof (cases "has_learning_schema legacy")
        case True
        with inv step live classify_with_schema [OF True, of env p] show ?thesis
          by (auto simp: tally intro!: plain)
      next
        case plain_row: False
        show ?thesis
        proof (cases "prefix_allowed p legacy")
          case False
          with inv step live plain_row classify_not_allowed [OF plain_row False, of env] show ?thesis
            by (auto simp: tally unclassified_def intro!: plain)
        next
          case True
          show ?thesis
          proof (rule classify_legacy_cases [OF scope plain_row True, of env])
            fix kind status reason
            assume t: "legacy_target env p legacy scope kind status"
              and c: "classify_legacy_memory env p legacy = eligible_as kind status scope reason"
            have target: "to_migrate env p legacy i kind status scope"
              using live plain_row True scope t by (simp add: to_migrate_def)
            have cs: "lg_kind (eligible_as kind status scope reason) = Some kind"
              "lg_scope (eligible_as kind status scope reason) = Some scope"
              "lg_status (eligible_as kind status scope reason) = Some status"
              "lg_outcome (eligible_as kind status scope reason) = ''eligible''"
              by (simp_all add: eligible_as_def)
            show ?thesis
            proof (cases "find_already_migrated_match env i legacy (eligible_as kind status scope reason) existing")
              case None
              with step have "migrate_eligible api env now gen p i legacy (lg_reason (eligible_as kind status scope reason))
                  kind status scope (g\<lparr>mx_counts := (mx_counts g)\<lparr>mc_scanned := Suc (mc_scanned (mx_counts g)),
                     mc_eligible := Suc (mc_eligible (mx_counts g))\<rparr>\<rparr>) s = (Inr g', s')"
                by (simp add: c cs)
              from migrate_eligible_inv [OF inv _ target match_found(2) [OF cs(1,2) None] this] legacy Some
              show ?thesis by blast
            next
              case (Some mt)
              from match_found(1) [OF cs(1,2) Some] target
              have "preview_ok env p existing legacy (MP_Matched i mt)" by auto
              with inv step Some show ?thesis
                by (auto simp: c cs tally simp del: preview_ok.simps intro!: plain)
            qed
          next
            fix reason
            assume "work_item legacy" "classify_legacy_memory env p legacy = unclassified ''skipped'' reason"
            with inv step live plain_row show ?thesis by (auto simp: tally unclassified_def intro!: plain)
          next
            fix reason
            assume "\<not> work_item legacy" "\<And>kind status. \<not> legacy_target env p legacy scope kind status"
              "classify_legacy_memory env p legacy = unclassified ''ambiguous'' reason"
            with inv step live plain_row True scope show ?thesis by (auto simp: tally unclassified_def intro!: plain)
          qed
        qed
      qed
    qed
  qed
qed

lemma migrate_loop_inv:
  assumes "migration_inv env now p existing s0 done_ms g s"
    and "\<forall>m\<in>set ms. \<forall>i. memory_id m = Some i \<longrightarrow> hm_get (sv_table s0) i = Some m"
    and "legacy_scope p = Inr scope"
    and "migrate_loop api env now gen p existing ms g s = (Inr g', s')"
  shows "migration_inv env now p existing s0 (done_ms @ ms) g' s'"
  using assms
proof (induction ms arbitrary: done_ms g s)
  case (Cons m ms)
  from Cons.prems(4) obtain g1 s1 where one: "migrate_one api env now gen p existing m g s = (Inr g1, s1)"
    and rest: "migrate_loop api env now gen p existing ms g1 s1 = (Inr g', s')"
    by (auto split: prod.splits sum.splits)
  have "migration_inv env now p existing s0 (done_ms @ [m]) g1 s1"
    by (rule migrate_one_inv [OF Cons.prems(1) _ Cons.prems(3) one]) (use Cons.prems(2) in simp)
  from Cons.IH [OF this _ Cons.prems(3) rest] Cons.prems(2) show ?case by simp
qed simp

section \<open>A run\<close>

text \<open>C40: A migration that answers has classified every memory it listed, at most 100, exactly as the specification
  asks. One preview per memory, in order: it is reported as to be migrated precisely when it has no entry of its own,
  begins with an allowed prefix, one of the rules gives it a kind and a status (tasks and epics have none), and no
  learning entry that was read stands for it already. The counts are those of the previews. A dry run
  reports them as eligible and changes nothing; an applied run creates exactly one new row for each of them and no
  other row: an open copy with the content and importance of the memory and an entry naming it as its source. Every
  old row is as before, or, if the sources are to be invalidated and it was copied, ended in favour of a copy.\<close>
theorem migration_accounts:
  assumes "table_ok (sv_table s)" and "migrate_legacy api env now gen p s = (Inr g, s')"
  shows "let limit = min (case gp_limit p of Some l \<Rightarrow> l | None \<Rightarrow> 50) 100;
      candidates = list_memories now (migration_scan_query now p) limit 0 (sv_table s);
      existing = list_memories now (migration_learning_query now p) 100 0 (sv_table s)
    in length candidates \<le> 100 \<and> list_all2 (preview_ok env p existing) candidates (mx_previews g) \<and>
       mx_counts g = tally (mx_previews g) \<and> (gp_dry_run p \<longrightarrow> s' = s) \<and>
       copies_made env now (sv_table s) (mx_previews g) (sv_table s') \<and>
       rows_added (sv_table s) (mx_previews g) (sv_table s') \<and>
       sources_kept now p (sv_table s) (mx_previews g) (sv_table s') \<and>
       mx_created_records g =
         map (\<lambda>c. (the (hm_get (sv_table s') c))\<lparr>m_embedding := None\<rparr>) (created_ids (mx_previews g))"
proof -
  let ?limit = "min (case gp_limit p of Some l \<Rightarrow> l | None \<Rightarrow> 50) 100"
  let ?ms = "list_memories now (migration_scan_query now p) ?limit 0 (sv_table s)"
  let ?existing = "list_memories now (migration_learning_query now p) 100 0 (sv_table s)"
  obtain scope where scope: "legacy_scope p = Inr scope"
    and run: "migrate_loop api env now gen p ?existing ?ms migration_progress_new s = (Inr g, s')"
    using assms(2) by (auto simp: migrate_legacy_def Let_def split: option.splits sum.splits)
  have start: "migration_inv env now p ?existing s [] migration_progress_new s"
    using assms(1)
    by (simp add: migration_inv_def migration_progress_new_def copies_made_def sources_kept_def rows_added_def tally_def)
  have rows: "\<forall>m\<in>set ?ms. \<forall>i. memory_id m = Some i \<longrightarrow> hm_get (sv_table s) i = Some m"
    using listed_rows(1) [OF assms(1)] by blast
  have "length ?ms \<le> length (take ?limit (newest_first (select_rows (base_filter_clause now (migration_scan_query now p)) (sv_table s))))"
    unfolding list_memories_def retain_metadata_def by (simp only: drop_0 length_filter_le)
  then have "length ?ms \<le> 100" by simp
  with migrate_loop_inv [OF start rows scope run] show ?thesis
    by (simp add: migration_inv_def Let_def)
qed

text \<open>Asking for ended memories does not help: the query made for them is for the memories valid now.\<close>

lemma migration_never_sees_ended:
  assumes "table_ok t" and "m \<in> set (list_memories now (migration_scan_query now p) l o' t)"
  shows "not_ended now m"
  using listed_rows(2) [OF assms]
  by (auto simp: migration_scan_query_def base_filter_clause_def memory_query_default_def split: if_splits)

definition user_note :: memory where
  "user_note = (example_memory ''a'' 1)\<lparr>m_content := user_preference_prefix @ '' tabs''\<rparr>"

definition noted_service :: "(string, string) hmap memory_service" where
  "noted_service = \<lparr>sv_table = [(''a'', user_note)], sv_index = empty_index token_engine\<rparr>"

definition apply_migration :: migrate_params where
  "apply_migration =
     \<lparr>gp_prefix_allowlist = None, gp_scope = None, gp_project_id = None, gp_dry_run = False, gp_limit = None,
      gp_include_invalidated = None, gp_invalidate_source = None, gp_extract_research_lessons = None\<rparr>"

lemma migrates_note:
  "\<exists>g s'. migrate_legacy token_engine example_learning_env 5 (\<lambda>n. ''new'') apply_migration noted_service = (Inr g, s') \<and>
     (\<exists>r sc. mx_previews g = [MP_Created ''a'' r LK_UserPreference LS_Confirmed sc ''new'' False])"
proof -
  have q: "migration_scan_query 5 apply_migration = memory_query_default"
    by (simp add: migration_scan_query_def apply_migration_def)
  have base: "base_filter_clause 5 memory_query_default user_note"
    by (simp add: base_filter_clause_def scope_clause_def memory_query_default_def not_ended_def unset_or_def
        user_note_def example_memory_def memory_new_def)
  have scan: "list_memories 5 memory_query_default 50 0 (sv_table noted_service) = [user_note]"
    by (simp add: list_memories_def retain_none memory_query_default_def [THEN arg_cong, of mq_metadata_filter]
        newest_first_def select_rows_def noted_service_def base)
  have none: "list_memories 5 (migration_learning_query 5 apply_migration) 100 0 (sv_table noted_service) = []"
    by (simp add: list_memories_def retain_metadata_def metadata_matches_def migration_learning_query_def
        newest_first_def select_rows_def noted_service_def user_note_def example_memory_def memory_new_def)
  have cls: "classify_legacy_memory example_learning_env apply_migration user_note =
      eligible_as LK_UserPreference LS_Confirmed (scope_of_project SC_Global None)
        (''USER '' @ [CHR 0xE2, CHR 0x80, CHR 0x94] @ '' Preference prefix'')"
    by (simp add: classify_legacy_memory_def has_learning_schema_def learning_member_def user_note_def example_memory_def
        memory_new_def apply_migration_def legacy_scope_def starts_with_def user_preference_prefix_def
        is_whitespace_def char_code_def Let_def)
  have fields: "memory_id user_note = Some ''a''" "m_valid_until user_note = None"
    by (simp_all add: memory_id_def user_note_def example_memory_def memory_new_def)
  have fresh: "hm_get (sv_table noted_service) ''new'' = None" by (simp add: noted_service_def)
  show ?thesis
    by (simp add: migrate_legacy_def Let_def legacy_scope_def apply_migration_def [THEN arg_cong, of gp_limit]
        apply_migration_def [THEN arg_cong, of gp_scope] apply_migration_def [THEN arg_cong, of gp_dry_run]
        apply_migration_def [THEN arg_cong, of gp_invalidate_source] q scan none
        migrate_one_def fields cls eligible_as_def migrate_eligible_def validate_entry migrated_metadata_def
        create_and_sync_spec fresh migration_progress_new_def get_memory_def)
qed

theorem migration_accounts_witness:
  "\<exists>g s'. migrate_legacy token_engine example_learning_env 5 (\<lambda>n. ''new'') apply_migration noted_service = (Inr g, s') \<and>
     mc_created (mx_counts g) = 1 \<and> hm_get (sv_table s') ''a'' = Some user_note \<and>
     (\<exists>m. hm_get (sv_table s') ''new'' = Some m \<and> m_content m = m_content user_note)"
proof -
  obtain g s' r sc where run: "migrate_legacy token_engine example_learning_env 5 (\<lambda>n. ''new'') apply_migration noted_service = (Inr g, s')"
    and pv: "mx_previews g = [MP_Created ''a'' r LK_UserPreference LS_Confirmed sc ''new'' False]" using migrates_note by blast
  have ok: "table_ok (sv_table noted_service)"
    by (simp add: noted_service_def user_note_def example_memory_def table_ok_def hm_ok_def)
  have here: "hm_get (sv_table noted_service) ''a'' = Some user_note" by (simp add: noted_service_def)
  have keep: "gp_invalidate_source apply_migration = None" by (simp add: apply_migration_def)
  note acc = migration_accounts [OF ok run, unfolded Let_def pv]
  have 1: "mc_created (mx_counts g) = 1" using acc by (simp add: tally_def)
  have 2: "hm_get (sv_table s') ''a'' = Some user_note" using acc here keep by (simp add: sources_kept_def)
  have 3: "\<exists>m. hm_get (sv_table s') ''new'' = Some m \<and> m_content m = m_content user_note"
    using acc here by (auto simp: copies_made_def memory_new_def)
  from run 1 2 3 show ?thesis by blast
qed

end
