(* ===== verification/Spec2Isabelle.thy ===== *)
theory Spec2Isabelle
  imports SessionBinding IndexJobs ProjectRegistry GraphStore SymbolIndex Freshness Capacity MemoryMigration RankFusion PageRank Louvain CodeTokens MemoryMaintenance MemoryTools EmbeddingPipeline CompletionMonitor EmbeddingService IndexManager LegacyIndex LearningSearch LearningMigrationSafety
begin

text \<open>
  Verification library of the memory server, an MCP server in Rust (\<open>src/\<close>) that stores memories and a code
  index per project in an embedded database and searches both.

  \<^bold>\<open>How to read it.\<close> There is one theory per component of the program, in the order in which the program builds them
  up. A struct is a record, an enum a datatype, a machine integer a word (\<open>u8\<close> to \<open>u64\<close>), a \<open>HashMap\<close> an association list
  with distinct keys whose order is the unspecified order of iteration, and a fallible function returns \<open>Inl\<close> of an
  \<open>app_error\<close> or \<open>Inr\<close>. Text is ASCII. Scores and ages are exact reals. An operation that reads the clock takes \<open>now\<close>.
  What is not code of the repository is a parameter: the database engine, tree-sitter, the \<open>bm_25\<close> engine,
  \<open>serde_json\<close>, hashes, the file system and the embedding model, with what the code relies on as named hypotheses
  (\<open>engine_contract\<close>, \<open>lru_contract\<close>, \<open>serde_faithful\<close>, and injectivity of generated ids), which examples
  instantiate. The vector search is modelled; of the nearest-neighbour operator and the similarity inside it
  (\<open>vector_engine\<close>) nothing is assumed. A query of the database is the function its text states. An operation under a
  lock is one step; where tasks really interleave, the schedule is a parameter or a step relation.

  \<^bold>\<open>Shared parts.\<close> \<open>Prelude\<close>: hash maps, stable sorting, saturating arithmetic, the locales \<open>total_comparison\<close> and
  \<open>step_system\<close>. \<open>TextTools\<close>: the text operations of the standard library. \<open>AppTypes\<close>, \<open>IndexStatus\<close>,
  \<open>GraphTypes\<close>, \<open>SearchTypes\<close>: the data types of \<open>src/types\<close>. \<open>ThingId\<close>: validated database ids.

  \<^bold>\<open>Projects and sessions.\<close> \<open>ProjectPaths\<close> (\<open>types/project_id.rs\<close>, \<open>codebase/resolver.rs\<close>),
  \<open>ProjectRegistry\<close> (\<open>codebase/project_registry.rs\<close>), \<open>SessionBinding\<close> (\<open>codebase/session_binding.rs\<close>). Shown: every run
  of registry operations respects the policy on roots and the project limit, and the store of bindings never exceeds
  its bound and drops the oldest.

  \<^bold>\<open>Memories.\<close> \<open>MemoryStore\<close> is the table (\<open>storage/surrealdb/memory_ops.rs\<close>), \<open>LexicalIndex\<close> the text index
  (\<open>search/bm25.rs\<close>), \<open>MemoryService\<close> the tools that keep both together (\<open>server/logic/memory.rs\<close>),
  \<open>MemoryMaintenance\<close> what purging and consolidation guarantee, \<open>MemoryMigration\<close> and \<open>MemoryTools\<close> export and import,
  \<open>MemoryLifecycle\<close> the retention states, \<open>Forgetting\<close> and \<open>Capacity\<close> decay and archiving (\<open>src/forgetting\<close>),
  \<open>RetrievalQuery\<close>, \<open>RankFusion\<close>, \<open>PageRank\<close> and \<open>MemorySearch\<close> retrieval (\<open>server/logic/search.rs\<close>, \<open>src/graph\<close>).
  Deletions and invalidations may be refused by the database (\<open>write_faults\<close>, by id), which ends a purge or a
  consolidation in the middle.
  Shown: the index refines the table after any sequence of tools, purging deletes only what policy and preview allow,
  imports never overwrite, what an export answers can be imported again, rows are embedded or imported, recall
  returns only rows in scope, once, best first, and PageRank is a distribution.

  \<^bold>\<open>Learnings.\<close> A learning is a memory whose metadata has a typed entry. \<open>Learning\<close> has the entry with its JSON form, the filters
  and the flags (\<open>types/learning.rs\<close>, \<open>server/logic/learning_filters.rs\<close>, \<open>learning_response.rs\<close>), \<open>LearningTools\<close>,
  \<open>LearningMigration\<close> and \<open>LearningSearch\<close> the tools (\<open>server/logic/learning.rs\<close>), on the table and index of
  \<open>MemoryService\<close>. \<open>LearningInvariants\<close> states the abstract life cycle, whose edges \<open>lifecycle_edge\<close> are labelled with the calls
  that may take them, and the locale \<open>learning_invariant\<close>, a step of one call that keeps an invariant,
  interpreted for the life cycle and for the agreement of index and table; \<open>LearningMigrationSafety\<close> specifies a
  migration without its classification functions (\<open>legacy_target\<close>, \<open>stands_for_legacy\<close>, \<open>preview_ok\<close>) and shows that it
  does that. Shown: every run of the tools refines the life cycle and never revives an ended entry, entries round-trip
  through JSON, promotion is exact, the search answers only rows it may answer, and a migration classifies and copies as specified.

  \<^bold>\<open>Graphs.\<close> \<open>Traversal\<close> over \<open>GraphStore\<close> (the locale \<open>neighbour_store\<close> is the interface): the traversals reach exactly
  what a bounded search reaches. \<open>Louvain\<close>: communities never lower the modularity.

  \<^bold>\<open>Embeddings.\<close> \<open>EmbeddingPipeline\<close> (queue, two-level store, worker), \<open>EmbeddingService\<close>, \<open>CompletionMonitor\<close>
  (\<open>src/embedding\<close>). Shown: every vector belongs to the text that was sent for its record, the worker
  drains its channel, and when a project is completed.

  \<^bold>\<open>The code index.\<close> \<open>CodeStore\<close> has the tables (\<open>code_ops.rs\<close>, \<open>symbol_ops.rs\<close>, \<open>manifest_ops.rs\<close>), \<open>SourceScan\<close> and
  \<open>Chunker\<close> select and cut files, \<open>SymbolIndex\<close> and \<open>CodeRelations\<close> resolve references, \<open>CodeTokens\<close> and
  \<open>CodeSearchIndex\<close> make the lexical index. Three ways write to it, all in \<open>src/codebase\<close>: \<open>IncrementalIndex\<close> (changed
  files) under \<open>IndexWorker\<close> (batches) under \<open>IndexManager\<close> (watcher, validation, start); and the full run,
  \<open>LegacyIndex\<close> (the default) or \<open>StagedIndex\<close>, both on top of \<open>GenerationPublish\<close> (admission, guards, promotion,
  checkpoints); \<open>StagedPublish\<close> holds what a full run publishes and loses. \<open>IndexJobs\<close> and \<open>Freshness\<close> are the jobs
  with the recovery at start-up and the staleness of files. Shown: incremental indexing, batches and validation leave
  every file as its content says, whatever the order of tasks; the lexical index is rebuilt as the index of the
  visible chunks; a stale run publishes nothing and promotion keeps what readers of the new generation see; a
  staged run equals its sequential reference, failures included; both pipelines publish the same chunks, those of
  the scanned files that are neither ignored, generated, too long nor unreadable.

  \<^bold>\<open>Abstract specifications.\<close> Rows are compared up to generated ids (\<open>without_id\<close>). What a reader sees of a file is
  \<open>file_view\<close>, of a project \<open>chunk_view\<close>; the model of a set of jobs is the last job of each path (\<open>last_job\<close>); the reference of
  the staged pipeline is \<open>commit_in_turn\<close>; the reference of traversals is reachability within a depth. The locales
  \<open>capacity_storage\<close>, \<open>service_invariant\<close>, \<open>learning_invariant\<close>, \<open>index_steps\<close> and \<open>neighbour_store\<close> are the contracts between
  components, each interpreted on the model's definitions where they are defined.

  \<^bold>\<open>Termination.\<close> No definition takes fuel. Loops are recursive functions with a measure; the loops over pages
  of rows, which may not end, are partial functions to an option, and the theorems that use them show that they
  return. The select loops of the embedding worker, of the index worker and of the watcher
  are step relations or turns, with their invariants over all reachable states.

  \<^bold>\<open>Deviations.\<close> Where the code does not do what it means to, the theorem states what it does:
  \<open>timeout_then_revert_loses_chunks\<close>, \<open>mixed_batch_leaves_stale_index\<close>, \<open>manifest_keeps_last_of_batch\<close>,
  \<open>old_progress_write_republishes\<close>, \<open>resume_loses_buffered_chunks\<close>, \<open>learning_list_is_empty\<close>,
  \<open>learning_search_misses_older\<close>, and the lemmas \<open>legacy_timeout_hides_file\<close>,
  \<open>pending_underflows\<close>, \<open>retry_underflows\<close>, \<open>stall_counter_survives\<close>, \<open>start_after_full_index\<close> and others.

  \<^bold>\<open>Simplifications.\<close> The warm-up of the lexical index reads all its pages at one instant, where each query of the code
  reads the clock. \<open>promote_index_generation_and_cleanup\<close> and \<open>finalize_index_status_if_current\<close> are one step, where the code awaits between
  the check of the generation and its writes. A checkpoint (\<open>upsert_file_checkpoint_after_file\<close>) is always written.
  Reads of the memory table and the writes of the learning tools are never refused; a single creation, update or
  deletion of a memory that is refused changes nothing and is left out. The sequences of tools in
  \<open>index_refines_table\<close> and \<open>rows_well_typed\<close> contain purges without refused deletions.

  \<^bold>\<open>Not modelled.\<close> The dispatch of tool calls, the transport and the command line (\<open>server/handler.rs\<close>, \<open>transport\<close>,
  \<open>main.rs\<close>) and the rendering of answers as JSON are glue. The tool handlers of the code index
  (\<open>server/logic/code\<close>) and of the graph wrap the modelled components and are left
  out. The queries over syntax trees (\<open>codebase/parser\<close>) run in tree-sitter grammars, the tensor code
  (\<open>embedding/engine.rs\<close>) in a library; schema migrations, the shut-down order and the metrics carry no
  state that the other components rely on.
\<close>

end
